(* ===== verification/Prelude.thy ===== *)
theory Prelude
  imports Complex_Main "HOL-Library.AList" "HOL-Library.Char_ord" "HOL-Library.List_Lexorder"
    "HOL-Library.Product_Lexorder"
begin

text \<open>
  Shared vocabulary of the development: the Python values that reach a validating constructor,
  the exceptions the modelled modules raise, results that are either an exception or a value,
  insertion-ordered dictionaries, the stable sort, and the textual grammars (identities and
  digests) that several modules repeat. The generic lemmas carry the component proofs.
\<close>

section \<open>Python values, exceptions and results\<close>

text \<open>
  A finite double is a rational number; components that round the results of their arithmetic
  do so with the rounding of \<open>Float64\<close>, the others are exact. A value of a parameter annotated as \<^verbatim>\<open>object\<close> is a \<open>pyval\<close>, so that the checks
  on its type are branches of the model; \<open>PyOther\<close> is any object no check accepts.
\<close>

datatype pyfloat = Finite rat | PosInf | NegInf | NotANumber

datatype pyval =
    PyNone
  | PyBool bool
  | PyInt int
  | PyFloat pyfloat
  | PyStr string
  | PyBytes string
  | PyTuple "pyval list"
  | PyList "pyval list"
  | PyOther

datatype py_exn =
    ValueError string
  | TypeError string
  | KeyError string
  | IndexError string
  | RuntimeError string
  | OverflowError string
  | OwnershipError string
  | OwnershipConflict string
  | TakeoverDenied string
  | PartitionRoutingError string
  | ReconnectContractError string
  | InvalidInput string
  | RateLimited rat
  | ApprovalLedgerError string
  | ModePersistenceError string
  | OSError string
  | IntegrityError string
  | OperationalError string
  | DependencyUnavailable string
  | PermissionError string
  | MemoryReplicationError string
  | LeaseBusy string
  | LeaseNotOwner string
  | LeaseExhausted string
  | LeaseNotFound string

type_synonym 'a res = "py_exn + 'a"

definition rbind :: "'a res \<Rightarrow> ('a \<Rightarrow> 'b res) \<Rightarrow> 'b res" where
  "rbind m f = (case m of Inl e \<Rightarrow> Inl e | Inr x \<Rightarrow> f x)"

fun mapr :: "('a \<Rightarrow> 'b res) \<Rightarrow> 'a list \<Rightarrow> 'b list res" where
  "mapr f [] = Inr []"
| "mapr f (x # xs) = rbind (f x) (\<lambda>y. rbind (mapr f xs) (\<lambda>ys. Inr (y # ys)))"

definition is_ok :: "'a res \<Rightarrow> bool" where
  "is_ok r = (case r of Inl _ \<Rightarrow> False | Inr _ \<Rightarrow> True)"

named_theorems run_simps \<open>equations that unfold one operation of a component\<close>
named_theorems inv_intros \<open>preservation of a component's invariant by one operation\<close>

lemma rbind_simps [simp]:
  "rbind (Inl e) f = Inl e"
  "rbind (Inr x) f = f x"
  by (simp_all add: rbind_def)

lemma rbind_Inr_iff [simp]: "rbind m f = Inr y \<longleftrightarrow> (\<exists>x. m = Inr x \<and> f x = Inr y)"
  by (cases m) auto

lemma rbind_Inl_iff: "rbind m f = Inl e \<longleftrightarrow> m = Inl e \<or> (\<exists>x. m = Inr x \<and> f x = Inl e)"
  by (cases m) auto

lemma rbind_cong [fundef_cong]:
  "m = m' \<Longrightarrow> (\<And>x. m' = Inr x \<Longrightarrow> f x = f' x) \<Longrightarrow> rbind m f = rbind m' f'"
  by (cases m) auto

lemma is_ok_simps [simp]: "is_ok (Inr x)" "\<not> is_ok (Inl e)"
  by (simp_all add: is_ok_def)

lemma is_ok_iff: "is_ok r \<longleftrightarrow> (\<exists>x. r = Inr x)"
  by (cases r) auto

lemma mapr_Inr_iff: "mapr f xs = Inr ys \<longleftrightarrow> list_all2 (\<lambda>x y. f x = Inr y) xs ys"
  by (induction xs arbitrary: ys) (auto simp: list_all2_Cons1)

lemma mapr_length: "mapr f xs = Inr ys \<Longrightarrow> length ys = length xs"
  by (auto simp: mapr_Inr_iff dest: list_all2_lengthD)

lemma mapr_all: "mapr f xs = Inr ys \<Longrightarrow> (\<And>x y. f x = Inr y \<Longrightarrow> P y) \<Longrightarrow> list_all P ys"
  by (induction xs arbitrary: ys) auto

section \<open>Numbers\<close>

abbreviation max_int63 :: int where
  "max_int63 \<equiv> 2 ^ 63 - 1"

text \<open>
  \<^verbatim>\<open>float(n)\<close> of an int raises \<open>OverflowError\<close> from half a unit in the last place above the
  largest double on.
\<close>

definition float_of_int :: "int \<Rightarrow> rat res" where
  "float_of_int n =
     (if \<bar>n\<bar> < 2 ^ 1024 - 2 ^ 970 then Inr (of_int n)
      else Inl (OverflowError ''int too large to convert to float''))"

definition bounded_int :: "int \<Rightarrow> int \<Rightarrow> pyval \<Rightarrow> bool" where
  \<comment> \<open>\<^verbatim>\<open>type(value) is int and low <= value <= high\<close>: a bool is not accepted\<close>
  "bounded_int low high v = (case v of PyInt n \<Rightarrow> low \<le> n \<and> n \<le> high | _ \<Rightarrow> False)"

lemma bounded_int_iff: "bounded_int low high v \<longleftrightarrow> (\<exists>n. v = PyInt n \<and> low \<le> n \<and> n \<le> high)"
  by (cases v) (auto simp: bounded_int_def)

section \<open>Text\<close>

text \<open>
  Text is a list of code points up to U+00FF. \<open>py_space\<close> is what \<^verbatim>\<open>str.strip\<close> removes in that
  range and \<open>utf8_len\<close> the length of the UTF-8 encoding.
\<close>

definition ascii_digit :: "char \<Rightarrow> bool" where
  "ascii_digit c = (CHR ''0'' \<le> c \<and> c \<le> CHR ''9'')"

definition ascii_alnum :: "char \<Rightarrow> bool" where
  "ascii_alnum c = (ascii_digit c \<or> CHR ''A'' \<le> c \<and> c \<le> CHR ''Z'' \<or> CHR ''a'' \<le> c \<and> c \<le> CHR ''z'')"

definition identity_char :: "char \<Rightarrow> bool" where
  "identity_char c = (ascii_alnum c \<or> c \<in> set ''._:-'')"

definition identity_match :: "string \<Rightarrow> bool" where
  \<comment> \<open>\<^verbatim>\<open>[A-Za-z0-9][A-Za-z0-9._:-]{0,127}\Z\<close> as a full match\<close>
  "identity_match s =
     (case s of [] \<Rightarrow> False
      | c # cs \<Rightarrow> ascii_alnum c \<and> length cs \<le> 127 \<and> list_all identity_char cs)"

definition hex_char :: "char \<Rightarrow> bool" where
  "hex_char c = (ascii_digit c \<or> CHR ''a'' \<le> c \<and> c \<le> CHR ''f'')"

definition digest_match :: "string \<Rightarrow> bool" where
  \<comment> \<open>\<^verbatim>\<open>[0-9a-f]{64}\Z\<close> as a full match\<close>
  "digest_match s = (length s = 64 \<and> list_all hex_char s)"

definition py_space :: "char \<Rightarrow> bool" where
  "py_space c =
     (let n = of_char c :: nat
      in 9 \<le> n \<and> n \<le> 13 \<or> 28 \<le> n \<and> n \<le> 32 \<or> n = 133 \<or> n = 160)"

definition dec_digit :: "nat \<Rightarrow> char" where
  "dec_digit n = char_of (48 + n)"

fun dec_nat :: "nat \<Rightarrow> string" where
  "dec_nat n = (if n < 10 then [dec_digit n] else dec_nat (n div 10) @ [dec_digit (n mod 10)])"

declare dec_nat.simps [simp del]

text \<open>\<^verbatim>\<open>int(t)\<close> for a text of ASCII digits, and its inverse \<open>dec_nat\<close>.\<close>

fun decimal_value :: "string \<Rightarrow> nat" where
  "decimal_value t = foldl (\<lambda>n c. 10 * n + (of_char c - 48)) 0 t"

declare decimal_value.simps [simp del]

lemma decimal_value_snoc: "decimal_value (t @ [c]) = 10 * decimal_value t + (of_char c - 48)"
  by (simp add: decimal_value.simps)

lemma ascii_digit_range: "ascii_digit c \<Longrightarrow> 48 \<le> (of_char c :: nat) \<and> (of_char c :: nat) \<le> 57"
  by (simp add: ascii_digit_def less_eq_char_def)

lemma digit_char: "ascii_digit c \<Longrightarrow> dec_digit (of_char c - 48) = c"
  using ascii_digit_range[of c] by (simp add: dec_digit_def)

lemma dec_nat_step: "d < 10 \<Longrightarrow> dec_nat (10 * m + d) = (if m = 0 then [dec_digit d] else dec_nat m @ [dec_digit d])"
  by (subst dec_nat.simps) auto

lemma dec_digit_facts: "d < 10 \<Longrightarrow> ascii_digit (dec_digit d) \<and> of_char (dec_digit d) = 48 + d"
  by (simp add: dec_digit_def ascii_digit_def less_eq_char_def)

lemma decimal_value_dec_nat [simp]: "decimal_value (dec_nat n) = n"
proof (induction n rule: dec_nat.induct)
  case (1 n)
  then show ?case
    by (subst dec_nat.simps) (auto simp: decimal_value_snoc dec_digit_facts decimal_value.simps[of "[_]"])
qed

lemma dec_nat_digits: "list_all ascii_digit (dec_nat n)"
proof (induction n rule: dec_nat.induct)
  case (1 n)
  then show ?case
    by (subst dec_nat.simps) (auto simp: dec_digit_facts)
qed

lemma dec_nat_not_Nil [simp]: "dec_nat n \<noteq> []"
  by (subst dec_nat.simps) simp

lemma dec_nat_length: "n < 10 ^ Suc k \<Longrightarrow> length (dec_nat n) \<le> Suc k"
proof (induction k arbitrary: n)
  case 0
  then show ?case
    by (subst dec_nat.simps) simp
next
  case (Suc k)
  then have "n div 10 < 10 ^ Suc k"
    by (simp add: div_less_iff_less_mult)
  from Suc.IH[OF this] show ?case
    by (subst dec_nat.simps) auto
qed

definition py_str_int :: "int \<Rightarrow> string" where
  \<comment> \<open>\<^verbatim>\<open>str(n)\<close> of an int\<close>
  "py_str_int n = (if n < 0 then CHR ''-'' # dec_nat (nat (- n)) else dec_nat (nat n))"

definition py_join :: "string \<Rightarrow> string list \<Rightarrow> string" where
  "py_join sep xs = (case xs of [] \<Rightarrow> [] | y # ys \<Rightarrow> y @ concat (map (\<lambda>z. sep @ z) ys))"

definition py_strip :: "string \<Rightarrow> string" where
  "py_strip s = rev (dropWhile py_space (rev (dropWhile py_space s)))"

definition py_lower_char :: "char \<Rightarrow> char" where
  \<comment> \<open>\<^verbatim>\<open>c.lower()\<close> up to U+00FF\<close>
  "py_lower_char c =
     (let n = of_char c :: nat
      in if 65 \<le> n \<and> n \<le> 90 \<or> 192 \<le> n \<and> n \<le> 222 \<and> n \<noteq> 215 then char_of (n + 32) else c)"

definition py_lower :: "string \<Rightarrow> string" where
  "py_lower s = map py_lower_char s"

definition py_lstrip :: "char \<Rightarrow> string \<Rightarrow> string" where
  \<comment> \<open>\<^verbatim>\<open>s.lstrip(c)\<close> for one character\<close>
  "py_lstrip c s = dropWhile (\<lambda>d. d = c) s"

definition utf8_len :: "string \<Rightarrow> nat" where
  "utf8_len s = sum_list (map (\<lambda>c. if (of_char c :: nat) < 128 then 1 else 2) s)"

lemma identity_match_nonempty: "identity_match s \<Longrightarrow> s \<noteq> []"
  by (auto simp: identity_match_def)

lemma identity_match_length: "identity_match s \<Longrightarrow> length s \<le> 128"
  by (auto simp: identity_match_def split: list.splits)

lemma hex_identity_char: "hex_char c \<Longrightarrow> identity_char c"
  by (auto simp: hex_char_def identity_char_def ascii_alnum_def intro: order.trans)

lemma hex_identity:
  assumes "s \<noteq> []" "length s \<le> 128" "list_all hex_char s"
  shows "identity_match s"
proof -
  obtain c cs where s: "s = c # cs"
    using assms(1) by (cases s) auto
  have "list_all identity_char cs"
    using assms(3) s by (auto simp: list_all_iff intro: hex_identity_char)
  moreover have "ascii_alnum c"
    using assms(3) s by (auto simp: hex_char_def ascii_alnum_def intro: order.trans)
  ultimately show ?thesis
    using assms(2) s by (simp add: identity_match_def)
qed

lemma dropWhile_rev_Nil_iff: "dropWhile P (rev (dropWhile P s)) = [] \<longleftrightarrow> list_all P s"
proof
  assume "dropWhile P (rev (dropWhile P s)) = []"
  then have all: "\<forall>x \<in> set (dropWhile P s). P x"
    by (simp add: dropWhile_eq_Nil_conv)
  have "\<forall>x \<in> set (takeWhile P s). P x"
    by (auto dest: set_takeWhileD)
  with all show "list_all P s"
    by (metis UnE list_all_iff set_append takeWhile_dropWhile_id)
qed (auto simp: dropWhile_eq_Nil_conv list_all_iff dest: set_dropWhileD)

lemma py_strip_Nil_iff: "py_strip s = [] \<longleftrightarrow> list_all py_space s"
  by (simp only: py_strip_def rev_is_Nil_conv dropWhile_rev_Nil_iff)

lemma py_strip_fixed:
  assumes "s = [] \<or> \<not> py_space (hd s) \<and> \<not> py_space (last s)"
  shows "py_strip s = s"
proof (cases "s = []")
  case False
  with assms have "dropWhile py_space s = s" "dropWhile py_space (rev s) = rev s"
    by (simp_all add: dropWhile_eq_self_iff hd_rev)
  then show ?thesis
    by (simp add: py_strip_def)
qed (simp add: py_strip_def)

lemma dropWhile_rev_ends:
  assumes "rev (dropWhile P (rev (dropWhile P s))) \<noteq> []"
  shows "\<not> P (hd (rev (dropWhile P (rev (dropWhile P s)))))"
    and "\<not> P (last (rev (dropWhile P (rev (dropWhile P s)))))"
proof -
  let ?t = "dropWhile P s"
  have "?t \<noteq> []"
    using assms by (metis dropWhile.simps(1) rev.simps(1))
  then have head: "\<not> P (hd ?t)"
    by (rule hd_dropWhile)
  have "?t = rev (dropWhile P (rev ?t)) @ rev (takeWhile P (rev ?t))"
    by (metis rev_append rev_rev_ident takeWhile_dropWhile_id)
  then have "hd ?t = hd (rev (dropWhile P (rev ?t)))"
    using assms by (metis hd_append2)
  with head show "\<not> P (hd (rev (dropWhile P (rev ?t))))"
    by simp
  show "\<not> P (last (rev (dropWhile P (rev ?t))))"
    using assms by (metis hd_dropWhile last_rev rev_is_Nil_conv)
qed

lemma py_strip_ends: "py_strip s = [] \<or> \<not> py_space (hd (py_strip s)) \<and> \<not> py_space (last (py_strip s))"
  using dropWhile_rev_ends[of py_space s] by (auto simp: py_strip_def)

lemma py_strip_idem [simp]: "py_strip (py_strip s) = py_strip s"
  by (rule py_strip_fixed[OF py_strip_ends])

text \<open>Splitting at a separator, and joining back.\<close>

fun split_on :: "char \<Rightarrow> string \<Rightarrow> string list" where
  \<comment> \<open>\<^verbatim>\<open>s.split(c)\<close>\<close>
  "split_on c [] = [[]]"
| "split_on c (x # xs) =
     (if x = c then [] # split_on c xs
      else case split_on c xs of [] \<Rightarrow> [[x]] | w # ws \<Rightarrow> (x # w) # ws)"

lemma split_on_no_sep: "p \<in> set (split_on c s) \<Longrightarrow> c \<notin> set p"
  by (induction s arbitrary: p) (auto split: if_splits list.splits)

lemma split_on_ne: "split_on c s \<noteq> []"
  by (induction s) (auto split: list.splits)

lemma split_on_word: "c \<notin> set p \<Longrightarrow> split_on c (p @ c # s) = p # split_on c s"
  by (induction p) auto

lemma split_on_last: "c \<notin> set p \<Longrightarrow> split_on c p = [p]"
  by (induction p) auto

lemma split_join: "parts \<noteq> [] \<Longrightarrow> \<forall>p\<in>set parts. c \<notin> set p \<Longrightarrow> split_on c (py_join [c] parts) = parts"
proof (induction parts)
  case (Cons p ps)
  then show ?case
    by (cases ps) (simp_all add: py_join_def split_on_last split_on_word)
qed simp

section \<open>Checks the validating constructors share\<close>

text \<open>
  The domain modules repeat the same private helpers \<^verbatim>\<open>_identity\<close>, \<^verbatim>\<open>_epoch\<close> (or \<^verbatim>\<open>_positive\<close>),
  \<^verbatim>\<open>_digest\<close> and \<^verbatim>\<open>_boolean\<close>, raising \<^verbatim>\<open>ValueError\<close> with the same messages.
\<close>

definition check_identity :: "pyval \<Rightarrow> string \<Rightarrow> string res" where
  "check_identity v field =
     (case v of
        PyStr s \<Rightarrow> if identity_match s then Inr s
                   else Inl (ValueError (field @ '' must be a bounded stable identity''))
      | _ \<Rightarrow> Inl (ValueError (field @ '' must be a bounded stable identity'')))"

definition check_epoch :: "pyval \<Rightarrow> string \<Rightarrow> int res" where
  "check_epoch v field =
     (case v of
        PyInt n \<Rightarrow> if 1 \<le> n \<and> n \<le> max_int63 then Inr n
                   else Inl (ValueError (field @ '' must be within 1..9223372036854775807''))
      | _ \<Rightarrow> Inl (ValueError (field @ '' must be within 1..9223372036854775807'')))"

definition check_digest :: "pyval \<Rightarrow> string \<Rightarrow> string res" where
  "check_digest v field =
     (case v of
        PyStr s \<Rightarrow> if digest_match s then Inr s
                   else Inl (ValueError (field @ '' must be a lowercase SHA-256 digest''))
      | _ \<Rightarrow> Inl (ValueError (field @ '' must be a lowercase SHA-256 digest'')))"

definition check_bool :: "pyval \<Rightarrow> string \<Rightarrow> bool res" where
  "check_bool v field =
     (case v of PyBool b \<Rightarrow> Inr b | _ \<Rightarrow> Inl (ValueError (field @ '' must be boolean'')))"

lemma check_identity_Inr [run_simps]: "check_identity v f = Inr s \<longleftrightarrow> v = PyStr s \<and> identity_match s"
  by (cases v) (auto simp: check_identity_def)

lemma check_epoch_Inr [run_simps]:
  "check_epoch v f = Inr n \<longleftrightarrow> v = PyInt n \<and> 1 \<le> n \<and> n \<le> max_int63"
  by (cases v) (auto simp: check_epoch_def)

lemma check_digest_Inr [run_simps]: "check_digest v f = Inr s \<longleftrightarrow> v = PyStr s \<and> digest_match s"
  by (cases v) (auto simp: check_digest_def)

lemma check_bool_Inr [run_simps]: "check_bool v f = Inr b \<longleftrightarrow> v = PyBool b"
  by (cases v) (auto simp: check_bool_def)

text \<open>\<^verbatim>\<open>tuple(value)\<close> of an argument: its elements, or nothing when it is not iterable.\<close>

definition py_items :: "pyval \<Rightarrow> pyval list option" where
  "py_items v =
     (case v of PyTuple vs \<Rightarrow> Some vs | PyList vs \<Rightarrow> Some vs
      | PyStr s \<Rightarrow> Some (map (\<lambda>c. PyStr [c]) s)
      | PyBytes s \<Rightarrow> Some (map (\<lambda>c. PyInt (of_char c)) s)
      | _ \<Rightarrow> None)"

text \<open>\<^verbatim>\<open>v == w\<close>: numbers, bools among them, compare by value.\<close>

definition py_num :: "pyval \<Rightarrow> rat option" where
  "py_num v =
     (case v of PyBool b \<Rightarrow> Some (if b then 1 else 0) | PyInt n \<Rightarrow> Some (of_int n)
      | PyFloat (Finite x) \<Rightarrow> Some x | _ \<Rightarrow> None)"

definition py_eq :: "pyval \<Rightarrow> pyval \<Rightarrow> bool" where
  "py_eq v w = (if py_num v \<noteq> None then py_num v = py_num w else v = w \<and> v \<noteq> PyFloat NotANumber)"

text \<open>\<^verbatim>\<open>tuple(dict.fromkeys(xs))\<close>: the first occurrence of each element, in order.\<close>

definition py_unique :: "'a list \<Rightarrow> 'a list" where
  "py_unique xs = rev (remdups (rev xs))"

lemma py_unique_simps [simp]:
  "set (py_unique xs) = set xs" "distinct (py_unique xs)" "py_unique xs = [] \<longleftrightarrow> xs = []"
  by (simp_all add: py_unique_def)

lemma length_remdups_1: "length (remdups xs) = 1 \<longleftrightarrow> xs \<noteq> [] \<and> (\<forall>x\<in>set xs. x = hd xs)"
proof -
  have "length (remdups xs) = 1 \<longleftrightarrow> (\<exists>x. set xs = {x})"
    by (simp add: length_remdups_card_conv card_1_singleton_iff)
  also have "\<dots> \<longleftrightarrow> xs \<noteq> [] \<and> (\<forall>x\<in>set xs. x = hd xs)"
    by (cases xs) auto
  finally show ?thesis .
qed

lemma remdups_single: "length (remdups (map f xs)) = 1 \<Longrightarrow> x \<in> set xs \<Longrightarrow> y \<in> set xs \<Longrightarrow> f x = f y"
  unfolding length_remdups_1 by (metis image_eqI list.set_map)

text \<open>\<^verbatim>\<open>next((x for x in xs if p(x)), xs[0])\<close>.\<close>

definition first_or_head :: "('a \<Rightarrow> bool) \<Rightarrow> 'a list \<Rightarrow> 'a" where
  "first_or_head P xs = (case find P xs of Some x \<Rightarrow> x | None \<Rightarrow> hd xs)"

lemma first_or_head_in: "xs \<noteq> [] \<Longrightarrow> first_or_head P xs \<in> set xs"
  by (auto simp: first_or_head_def find_Some_iff split: option.splits)

lemma first_or_head_holds: "x \<in> set xs \<Longrightarrow> P x \<Longrightarrow> P (first_or_head P xs)"
  by (auto simp: first_or_head_def find_Some_iff find_None_iff split: option.splits)

section \<open>Dictionaries\<close>

text \<open>
  A Python dict keeps insertion order: updating a key keeps its place, a new key goes to the
  end, deletion removes the entry. \<^const>\<open>AList.update\<close> and \<^const>\<open>AList.delete\<close> do exactly that on
  association lists with distinct keys.
\<close>

type_synonym ('k, 'v) dict = "('k \<times> 'v) list"

abbreviation dict_ok :: "('k, 'v) dict \<Rightarrow> bool" where
  "dict_ok d \<equiv> distinct (map fst d)"

locale dict_laws =
  fixes look :: "'d \<Rightarrow> 'k \<Rightarrow> 'v option"
    and put :: "'k \<Rightarrow> 'v \<Rightarrow> 'd \<Rightarrow> 'd"
    and rem :: "'k \<Rightarrow> 'd \<Rightarrow> 'd"
    and size_of :: "'d \<Rightarrow> nat"
    and ok :: "'d \<Rightarrow> bool"
  assumes look_put: "look (put k v d) = (look d)(k \<mapsto> v)"
    and look_rem: "look (rem k d) = (look d)(k := None)"
    and ok_put: "ok d \<Longrightarrow> ok (put k v d)"
    and ok_rem: "ok d \<Longrightarrow> ok (rem k d)"
    and size_card: "ok d \<Longrightarrow> size_of d = card (dom (look d))"
    and fin: "finite (dom (look d))"
begin

lemma look_put_same: "look (put k v d) k = Some v"
  by (simp add: look_put)

lemma look_put_other: "j \<noteq> k \<Longrightarrow> look (put k v d) j = look d j"
  by (simp add: look_put)

lemma put_rem: "look (rem k (put k v d)) = (look d)(k := None)"
  by (simp add: look_put look_rem)

lemma size_put:
  assumes "ok d"
  shows "size_of (put k v d) = (if look d k = None then Suc (size_of d) else size_of d)"
proof -
  have "size_of (put k v d) = card (insert k (dom (look d)))"
    using assms by (simp add: size_card ok_put look_put)
  then show ?thesis
    using assms fin[of d] by (auto simp: size_card card_insert_if dom_def)
qed

lemma size_rem_le: "ok d \<Longrightarrow> size_of (rem k d) \<le> size_of d"
  by (simp add: size_card ok_rem look_rem card_mono fin dom_fun_upd)

end

interpretation pydict: dict_laws map_of AList.update AList.delete length dict_ok
proof unfold_locales
  fix d :: "('a, 'b) dict"
  assume "dict_ok d"
  then show "length d = card (dom (map_of d))"
    by (simp add: dom_map_of_conv_image_fst distinct_card flip: set_map)
qed (auto simp: update_conv' delete_conv' distinct_update distinct_delete finite_dom_map_of)

lemmas dict_simps = pydict.look_put pydict.look_rem

text \<open>\<^verbatim>\<open>{k: v for k, v in items}\<close>: a later value replaces an earlier one in its place.\<close>

definition dict_of :: "('k \<times> 'v) list \<Rightarrow> ('k, 'v) dict" where
  "dict_of items = foldl (\<lambda>d (k, v). AList.update k v d) [] items"

lemma update_new_key: "k \<notin> fst ` set d \<Longrightarrow> AList.update k v d = d @ [(k, v)]"
  by (induction d) auto

lemma set_update_subset: "set (AList.update k v d) \<subseteq> insert (k, v) (set d)"
  by (induction d) auto

lemma set_delete_subset: "set (AList.delete k d) \<subseteq> set d"
  by (induction d) auto

lemma set_dict_of: "set (dict_of items) \<subseteq> set items"
proof (induction items rule: rev_induct)
  case (snoc it items)
  then show ?case
    using set_update_subset[of "fst it" "snd it" "dict_of items"] by (cases it) (auto simp: dict_of_def)
qed (simp add: dict_of_def)

lemma dict_of_distinct: "dict_ok items \<Longrightarrow> dict_of items = items"
proof (induction items rule: rev_induct)
  case (snoc it items)
  then have "dict_of items = items" by simp
  moreover have "fst it \<notin> fst ` set items" using snoc.prems by auto
  ultimately show ?case
    by (cases it) (simp add: dict_of_def update_new_key)
qed (simp add: dict_of_def)

section \<open>Runs and invariants\<close>

text \<open>
  A component with state is a step relation labelled with events. A run is a sequence of
  steps; the locale states once that an invariant every step keeps holds along every run.
\<close>

inductive run_of :: "('s \<Rightarrow> 'e \<Rightarrow> 's \<Rightarrow> bool) \<Rightarrow> 's \<Rightarrow> 'e list \<Rightarrow> 's \<Rightarrow> bool" for step where
  run_Nil: "run_of step s [] s"
| run_Cons: "step s e t \<Longrightarrow> run_of step t es u \<Longrightarrow> run_of step s (e # es) u"

inductive_cases run_of_NilE: "run_of step s [] t"
inductive_cases run_of_ConsE: "run_of step s (e # es) t"

inductive_simps run_of_Cons_iff: "run_of step s (e # es) t"
inductive_simps run_of_Nil_iff: "run_of step s [] t"

locale invariant_system =
  fixes step :: "'s \<Rightarrow> 'e \<Rightarrow> 's \<Rightarrow> bool"
    and inv :: "'s \<Rightarrow> bool"
  assumes inv_step: "step s e t \<Longrightarrow> inv s \<Longrightarrow> inv t"
begin

lemma inv_run: "run_of step s es t \<Longrightarrow> inv s \<Longrightarrow> inv t"
  by (induction rule: run_of.induct) (auto dest: inv_step)

lemma run_measure_mono:
  fixes f :: "'s \<Rightarrow> 'm::preorder"
  assumes "\<And>s e t. step s e t \<Longrightarrow> inv s \<Longrightarrow> f s \<le> f t"
  shows "run_of step s es t \<Longrightarrow> inv s \<Longrightarrow> f s \<le> f t"
  by (induction rule: run_of.induct) (auto dest: inv_step assms intro: order_trans)

end

section \<open>Stable sorting\<close>

text \<open>
  \<^verbatim>\<open>sorted(xs, key=k)\<close> is the stable ascending sort, \<^verbatim>\<open>sorted(xs, key=k, reverse=True)\<close> the stable
  descending one, and \<^verbatim>\<open>max(xs, key=k)\<close> the first element with the greatest key.
\<close>

definition sorted_rev_key :: "('a \<Rightarrow> 'b::linorder) \<Rightarrow> 'a list \<Rightarrow> 'a list" where
  "sorted_rev_key k xs = rev (sort_key k (rev xs))"

fun first_max :: "('a \<Rightarrow> 'b::linorder) \<Rightarrow> 'a \<Rightarrow> 'a list \<Rightarrow> 'a" where
  "first_max k m [] = m"
| "first_max k m (x # xs) = first_max k (if k m < k x then x else m) xs"

lemma first_max_in: "first_max k m xs \<in> insert m (set xs)"
  by (induction xs arbitrary: m) (auto split: if_splits)

lemma first_max_ge: "x \<in> insert m (set xs) \<Longrightarrow> k x \<le> k (first_max k m xs)"
proof (induction xs arbitrary: m x)
  case (Cons y ys)
  have "k m \<le> k (if k m < k y then y else m)" "k y \<le> k (if k m < k y then y else m)"
    by auto
  with Cons show ?case
    by (metis first_max.simps(2) insert_iff list.simps(15) order.trans)
qed simp

lemma first_max_unique:
  assumes "inj_on k (insert m (set xs))" "x \<in> insert m (set xs)"
    and "\<And>y. y \<in> insert m (set xs) \<Longrightarrow> k y \<le> k x"
  shows "first_max k m xs = x"
  using assms first_max_in[of k m xs] first_max_ge[of x m xs k]
  by (metis antisym inj_onD)

lemma sorted_map_sort_key: "sorted (map f (sort_key f xs))"
  by simp

end
