(* ===== verification/Ownership.thy ===== *)
theory Ownership
  imports Prelude
begin

text \<open>
  \<^verbatim>\<open>sonder_runtime/domain/cluster_ownership.py\<close>: scoped ownership epochs and lease fencing. The
  authority is a record of two dictionaries, the current leases and the retained epochs. Every
  operation returns an exception, with the state unchanged, or its value and the next state.
  Values the class obtains from outside are arguments: each reading of the injected clock and
  each token drawn from \<^verbatim>\<open>secrets.token_hex\<close>.

  The locale \<open>lease_authority\<close> is the contract of such an authority; the fencing theorems are
  proved in it once and hold for every store that meets the contract.
\<close>

section \<open>Leases and takeover proofs\<close>

abbreviation max_lease_seconds :: int where
  "max_lease_seconds \<equiv> 900"

abbreviation max_replicas_in_proof :: nat where
  "max_replicas_in_proof \<equiv> 64"

definition own_identity :: "pyval \<Rightarrow> string \<Rightarrow> string res" where
  "own_identity v field =
     (case v of
        PyStr s \<Rightarrow> if identity_match s then Inr s
                   else Inl (OwnershipError (field @ '' must be a bounded stable identity''))
      | _ \<Rightarrow> Inl (OwnershipError (field @ '' must be a bounded stable identity'')))"

definition resource_kinds :: "string list" where
  "resource_kinds = [''session'', ''attempt'', ''job'', ''approval'', ''memory_write'']"

definition own_resource_kind :: "pyval \<Rightarrow> string res" where
  "own_resource_kind v =
     (case v of
        PyStr s \<Rightarrow> if s \<in> set resource_kinds then Inr s
                   else Inl (OwnershipError ''resource_kind is not supported'')
      | _ \<Rightarrow> Inl (OwnershipError ''resource_kind is not supported''))"

definition own_epoch :: "pyval \<Rightarrow> string \<Rightarrow> int res" where
  "own_epoch v field =
     (case v of
        PyInt n \<Rightarrow> if 1 \<le> n \<and> n \<le> max_int63 then Inr n
                   else Inl (OwnershipError (field @ '' must be a positive bounded integer''))
      | _ \<Rightarrow> Inl (OwnershipError (field @ '' must be a positive bounded integer'')))"

definition own_lease_seconds :: "pyval \<Rightarrow> int res" where
  "own_lease_seconds v =
     (case v of
        PyInt n \<Rightarrow> if 1 \<le> n \<and> n \<le> max_lease_seconds then Inr n
                   else Inl (OwnershipError ''lease_seconds must be an integer within 1..900'')
      | _ \<Rightarrow> Inl (OwnershipError ''lease_seconds must be an integer within 1..900''))"

record owner_lease =
  ol_cluster_id :: string
  ol_resource_kind :: string
  ol_resource_id :: string
  ol_owner_id :: string
  ol_epoch :: int
  ol_token :: string
  ol_expires_at :: rat

type_synonym lease_key = "string \<times> string \<times> string"

definition own_expires_at :: "pyval \<Rightarrow> rat res" where
  "own_expires_at v =
     (case v of
        PyInt n \<Rightarrow> Inr (of_int n)
      | PyFloat (Finite x) \<Rightarrow> Inr x
      | PyFloat _ \<Rightarrow> Inl (OwnershipError ''expires_at must be finite'')
      | _ \<Rightarrow> Inl (OwnershipError ''expires_at must be numeric''))"

definition mk_owner_lease ::
  "pyval \<Rightarrow> pyval \<Rightarrow> pyval \<Rightarrow> pyval \<Rightarrow> pyval \<Rightarrow> pyval \<Rightarrow> pyval \<Rightarrow> owner_lease res" where
  "mk_owner_lease cluster kind rid owner epoch token expires =
     rbind (own_identity cluster ''cluster_id'') (\<lambda>c.
     rbind (own_resource_kind kind) (\<lambda>k.
     rbind (own_identity rid ''resource_id'') (\<lambda>r.
     rbind (own_identity owner ''owner_id'') (\<lambda>w.
     rbind (own_epoch epoch ''epoch'') (\<lambda>e.
     rbind (own_identity token ''lease token'') (\<lambda>t.
     rbind (own_expires_at expires) (\<lambda>x.
       Inr \<lparr>ol_cluster_id = c, ol_resource_kind = k, ol_resource_id = r, ol_owner_id = w,
            ol_epoch = e, ol_token = t, ol_expires_at = x\<rparr>)))))))"

definition lease_key :: "owner_lease \<Rightarrow> lease_key" where
  "lease_key l = (ol_resource_kind l, ol_resource_id l, ol_cluster_id l)"

record ownership_decision =
  od_allowed :: bool
  od_reason :: string
  od_epoch :: "int option"

abbreviation owner_verdict :: "bool \<Rightarrow> string \<Rightarrow> int option \<Rightarrow> ownership_decision" where
  "owner_verdict b r e \<equiv> \<lparr>od_allowed = b, od_reason = r, od_epoch = e\<rparr>"

record takeover_proof =
  tp_cluster_id :: string
  tp_resource_kind :: string
  tp_resource_id :: string
  tp_previous_owner_id :: string
  tp_previous_epoch :: int
  tp_fence_receipt :: string
  tp_data_ack_epoch :: int
  tp_replica_ids :: "string list"

definition own_fence_receipt :: "pyval \<Rightarrow> string res" where
  "own_fence_receipt v =
     (case v of
        PyStr s \<Rightarrow> if utf8_len s > 4096 then Inl (OwnershipError ''fence_receipt must be bounded text'')
                   else Inr s
      | _ \<Rightarrow> Inl (OwnershipError ''fence_receipt must be bounded text''))"

definition own_data_ack_epoch :: "pyval \<Rightarrow> int res" where
  "own_data_ack_epoch v =
     (case v of
        PyInt n \<Rightarrow> if 0 \<le> n \<and> n \<le> max_int63 then Inr n
                   else Inl (OwnershipError ''data_ack_epoch must be a bounded integer'')
      | _ \<Rightarrow> Inl (OwnershipError ''data_ack_epoch must be a bounded integer''))"

definition own_replica_ids :: "pyval \<Rightarrow> string list res" where
  "own_replica_ids v =
     (case v of
        PyTuple vs \<Rightarrow>
          if 1 \<le> length vs \<and> length vs \<le> max_replicas_in_proof then
            rbind (mapr (\<lambda>x. own_identity x ''replica_id'') vs) (\<lambda>ids.
              if distinct ids then Inr ids
              else Inl (OwnershipError ''replica_ids must not contain duplicates''))
          else Inl (OwnershipError ''replica_ids must be a bounded tuple'')
      | _ \<Rightarrow> Inl (OwnershipError ''replica_ids must be a bounded tuple''))"

definition mk_takeover_proof ::
  "pyval \<Rightarrow> pyval \<Rightarrow> pyval \<Rightarrow> pyval \<Rightarrow> pyval \<Rightarrow> pyval \<Rightarrow> pyval \<Rightarrow> pyval \<Rightarrow> takeover_proof res" where
  "mk_takeover_proof cluster kind rid prev_owner prev_epoch receipt ack_epoch replicas =
     rbind (own_identity cluster ''cluster_id'') (\<lambda>c.
     rbind (own_resource_kind kind) (\<lambda>k.
     rbind (own_identity rid ''resource_id'') (\<lambda>r.
     rbind (own_identity prev_owner ''previous_owner_id'') (\<lambda>w.
     rbind (own_epoch prev_epoch ''previous_epoch'') (\<lambda>e.
     rbind (own_fence_receipt receipt) (\<lambda>f.
     rbind (own_data_ack_epoch ack_epoch) (\<lambda>d.
     rbind (own_replica_ids replicas) (\<lambda>ids.
       Inr \<lparr>tp_cluster_id = c, tp_resource_kind = k, tp_resource_id = r,
            tp_previous_owner_id = w, tp_previous_epoch = e, tp_fence_receipt = f,
            tp_data_ack_epoch = d, tp_replica_ids = ids\<rparr>))))))))"

section \<open>The in-memory authority\<close>

record authority =
  au_cluster_id :: string
  au_max_resources :: int
  au_leases :: "(lease_key, owner_lease) dict"
  au_epochs :: "(lease_key, int) dict"

definition mk_authority :: "pyval \<Rightarrow> bool \<Rightarrow> pyval \<Rightarrow> authority res" where
  "mk_authority cluster clock_callable max_resources =
     rbind (own_identity cluster ''cluster_id'') (\<lambda>c.
       if \<not> clock_callable then Inl (OwnershipError ''clock must be callable'')
       else case max_resources of
          PyInt n \<Rightarrow>
            if 1 \<le> n \<and> n \<le> 1000000 then
              Inr \<lparr>au_cluster_id = c, au_max_resources = n, au_leases = [], au_epochs = []\<rparr>
            else Inl (OwnershipError ''max_resources must be a bounded positive integer'')
        | _ \<Rightarrow> Inl (OwnershipError ''max_resources must be a bounded positive integer''))"

definition own_now :: "pyval \<Rightarrow> rat res" where
  "own_now clk =
     (case clk of
        PyInt n \<Rightarrow> float_of_int n
      | PyFloat (Finite x) \<Rightarrow> Inr x
      | PyFloat _ \<Rightarrow> Inl (OwnershipError ''clock returned a non-finite value'')
      | _ \<Rightarrow> Inl (OwnershipError ''clock returned a non-numeric value''))"

definition make_lease ::
  "authority \<Rightarrow> string \<Rightarrow> string \<Rightarrow> string \<Rightarrow> int \<Rightarrow> int \<Rightarrow> rat \<Rightarrow> string \<Rightarrow> owner_lease res" where
  "make_lease a kind rid owner epoch ttl now token =
     (if au_max_resources a \<le> int (length (au_leases a))
         \<and> map_of (au_leases a) (kind, rid, au_cluster_id a) = None
      then Inl (OwnershipConflict ''ownership resource capacity exhausted'')
      else mk_owner_lease (PyStr (au_cluster_id a)) (PyStr kind) (PyStr rid) (PyStr owner)
             (PyInt epoch) (PyStr token) (PyFloat (Finite (now + of_int ttl))))"

definition own_acquire ::
  "authority \<Rightarrow> pyval \<Rightarrow> pyval \<Rightarrow> pyval \<Rightarrow> pyval \<Rightarrow> pyval \<Rightarrow> string \<Rightarrow> (owner_lease \<times> authority) res" where
  "own_acquire a resource_kind resource_id owner_id lease_seconds clk token =
     rbind (own_resource_kind resource_kind) (\<lambda>kind.
     rbind (own_identity resource_id ''resource_id'') (\<lambda>rid.
     rbind (own_identity owner_id ''owner_id'') (\<lambda>owner.
     rbind (own_lease_seconds lease_seconds) (\<lambda>ttl.
     rbind (own_now clk) (\<lambda>now.
       let key = (kind, rid, au_cluster_id a);
           busy = (case map_of (au_leases a) key of None \<Rightarrow> False
                   | Some current \<Rightarrow> now < ol_expires_at current);
           epoch = (case map_of (au_epochs a) key of None \<Rightarrow> 0 | Some e \<Rightarrow> e) + 1
       in if busy then Inl (OwnershipConflict ''resource is already owned'')
          else rbind (make_lease a kind rid owner epoch ttl now token) (\<lambda>lease.
            Inr (lease, a\<lparr>au_leases := AList.update key lease (au_leases a),
                          au_epochs := AList.update key epoch (au_epochs a)\<rparr>)))))))"

definition own_validate :: "authority \<Rightarrow> owner_lease option \<Rightarrow> pyval \<Rightarrow> ownership_decision res" where
  "own_validate a lease clk =
     (case lease of None \<Rightarrow> Inr (owner_verdict False ''invalid_lease'' None)
      | Some l \<Rightarrow>
          if ol_cluster_id l \<noteq> au_cluster_id a then Inr (owner_verdict False ''cluster_mismatch'' None)
          else case map_of (au_leases a) (lease_key l) of
                 None \<Rightarrow> Inr (owner_verdict False ''no_owner'' None)
               | Some current \<Rightarrow>
                   if ol_epoch current \<noteq> ol_epoch l
                   then Inr (owner_verdict False ''stale_epoch'' (Some (ol_epoch current)))
                   else if ol_owner_id current \<noteq> ol_owner_id l
                   then Inr (owner_verdict False ''owner_mismatch'' (Some (ol_epoch current)))
                   else if ol_token current \<noteq> ol_token l
                   then Inr (owner_verdict False ''stale_lease'' (Some (ol_epoch current)))
                   else rbind (own_now clk) (\<lambda>now.
                     if ol_expires_at current \<le> now
                     then Inr (owner_verdict False ''lease_expired'' (Some (ol_epoch current)))
                     else Inr (owner_verdict True ''current'' (Some (ol_epoch current)))))"

definition own_renew ::
  "authority \<Rightarrow> owner_lease option \<Rightarrow> pyval \<Rightarrow> pyval \<Rightarrow> pyval \<Rightarrow> (owner_lease \<times> authority) res" where
  \<comment> \<open>\<open>clk1\<close> is read by \<^verbatim>\<open>validate\<close>, \<open>clk2\<close> by \<^verbatim>\<open>renew\<close> itself\<close>
  "own_renew a lease lease_seconds clk1 clk2 =
     rbind (own_lease_seconds lease_seconds) (\<lambda>ttl.
     rbind (own_validate a lease clk1) (\<lambda>d.
       if \<not> od_allowed d then Inl (OwnershipConflict (od_reason d))
       else case lease of None \<Rightarrow> Inl (OwnershipConflict ''invalid_lease'')
        | Some l \<Rightarrow>
            rbind (own_now clk2) (\<lambda>now.
            rbind (mk_owner_lease (PyStr (ol_cluster_id l)) (PyStr (ol_resource_kind l))
                     (PyStr (ol_resource_id l)) (PyStr (ol_owner_id l)) (PyInt (ol_epoch l))
                     (PyStr (ol_token l)) (PyFloat (Finite (now + of_int ttl)))) (\<lambda>renewed.
              Inr (renewed, a\<lparr>au_leases := AList.update (lease_key l) renewed (au_leases a)\<rparr>)))))"

definition own_release :: "authority \<Rightarrow> owner_lease option \<Rightarrow> bool \<times> authority" where
  "own_release a lease =
     (case lease of None \<Rightarrow> (False, a)
      | Some l \<Rightarrow>
          if ol_cluster_id l \<noteq> au_cluster_id a then (False, a)
          else if map_of (au_leases a) (lease_key l) \<noteq> Some l then (False, a)
          else (True, a\<lparr>au_leases := AList.delete (lease_key l) (au_leases a)\<rparr>))"

definition own_takeover ::
  "authority \<Rightarrow> takeover_proof option \<Rightarrow> pyval \<Rightarrow> pyval \<Rightarrow> pyval \<Rightarrow> pyval \<Rightarrow> string
     \<Rightarrow> (owner_lease \<times> authority) res" where
  \<comment> \<open>\<open>resource_id\<close> is \<open>PyNone\<close> when the caller does not pass one\<close>
  "own_takeover a proof new_owner_id lease_seconds resource_id clk token =
     (case proof of None \<Rightarrow> Inl (TakeoverDenied ''takeover proof is invalid'')
      | Some p \<Rightarrow>
          rbind (own_identity new_owner_id ''new_owner_id'') (\<lambda>owner.
          rbind (own_lease_seconds lease_seconds) (\<lambda>ttl.
            if tp_cluster_id p \<noteq> au_cluster_id a
            then Inl (TakeoverDenied ''takeover proof cluster does not match authority'')
            else rbind (case resource_id of PyNone \<Rightarrow> Inr (tp_resource_id p)
                        | v \<Rightarrow> own_identity v ''resource_id'') (\<lambda>rid.
              if rid \<noteq> tp_resource_id p
              then Inl (TakeoverDenied ''takeover resource does not match proof'')
              else case map_of (au_leases a) (tp_resource_kind p, tp_resource_id p, au_cluster_id a) of
                 None \<Rightarrow> Inl (TakeoverDenied ''takeover current owner does not match proof'')
               | Some current \<Rightarrow>
                  if ol_owner_id current \<noteq> tp_previous_owner_id p \<or> ol_epoch current \<noteq> tp_previous_epoch p
                  then Inl (TakeoverDenied ''takeover current owner does not match proof'')
                  else if owner = ol_owner_id current
                  then Inl (TakeoverDenied ''takeover owner must change'')
                  else if py_strip (tp_fence_receipt p) = []
                  then Inl (TakeoverDenied ''takeover requires external owner fence receipt'')
                  else if length (tp_replica_ids p) < 2
                  then Inl (TakeoverDenied ''takeover requires acknowledged data on at least two replicas'')
                  else if tp_data_ack_epoch p < ol_epoch current
                  then Inl (TakeoverDenied ''takeover acknowledged data is behind current epoch'')
                  else rbind (own_now clk) (\<lambda>now.
                       rbind (make_lease a (tp_resource_kind p) (tp_resource_id p) owner
                                (ol_epoch current + 1) ttl now token) (\<lambda>replacement.
                         Inr (replacement,
                              a\<lparr>au_leases := AList.update (lease_key replacement) replacement (au_leases a),
                                au_epochs := AList.update (lease_key replacement)
                                  (ol_epoch replacement) (au_epochs a)\<rparr>)))))))"

section \<open>Steps of an authority\<close>

datatype lease_event =
    Issued owner_lease
  | Renewed owner_lease
  | Released owner_lease

fun issued :: "lease_event list \<Rightarrow> owner_lease list" where
  "issued [] = []"
| "issued (Issued l # es) = l # issued es"
| "issued (_ # es) = issued es"

inductive own_step :: "authority \<Rightarrow> lease_event \<Rightarrow> authority \<Rightarrow> bool" where
  step_acquire: "own_acquire a k r w ttl clk tok = Inr (l, a') \<Longrightarrow> own_step a (Issued l) a'"
| step_renew: "own_renew a lo ttl clk1 clk2 = Inr (l, a') \<Longrightarrow> own_step a (Renewed l) a'"
| step_release: "own_release a (Some l) = (True, a') \<Longrightarrow> own_step a (Released l) a'"
| step_takeover: "own_takeover a po w ttl r clk tok = Inr (l, a') \<Longrightarrow> own_step a (Issued l) a'"

definition own_accepts :: "authority \<Rightarrow> pyval \<Rightarrow> owner_lease \<Rightarrow> bool" where
  "own_accepts a clk l = (case own_validate a (Some l) clk of Inr d \<Rightarrow> od_allowed d | Inl _ \<Rightarrow> False)"

definition own_epoch_of :: "authority \<Rightarrow> lease_key \<Rightarrow> int" where
  "own_epoch_of a k = (case map_of (au_epochs a) k of None \<Rightarrow> 0 | Some e \<Rightarrow> e)"

text \<open>
  Well-formedness: both dictionaries have distinct keys, the capacity is respected, every lease
  is stored under its own key with this cluster's identity and a valid payload, and its epoch is
  the retained epoch of the key.
\<close>

definition wf_lease :: "owner_lease \<Rightarrow> bool" where
  "wf_lease l = (identity_match (ol_cluster_id l) \<and> ol_resource_kind l \<in> set resource_kinds
     \<and> identity_match (ol_resource_id l) \<and> identity_match (ol_owner_id l)
     \<and> 1 \<le> ol_epoch l \<and> ol_epoch l \<le> max_int63 \<and> identity_match (ol_token l))"

definition own_inv :: "authority \<Rightarrow> bool" where
  "own_inv a = (dict_ok (au_leases a) \<and> dict_ok (au_epochs a)
     \<and> int (length (au_leases a)) \<le> au_max_resources a
     \<and> (\<forall>k e. map_of (au_epochs a) k = Some e \<longrightarrow> 1 \<le> e \<and> e \<le> max_int63)
     \<and> (\<forall>k l. map_of (au_leases a) k = Some l \<longrightarrow>
          lease_key l = k \<and> ol_cluster_id l = au_cluster_id a \<and> wf_lease l
          \<and> map_of (au_epochs a) k = Some (ol_epoch l)))"

section \<open>The contract of a lease authority\<close>

locale lease_authority = invariant_system step inv
  for step :: "'s \<Rightarrow> lease_event \<Rightarrow> 's \<Rightarrow> bool" and inv :: "'s \<Rightarrow> bool" +
  fixes accepts :: "'s \<Rightarrow> 'c \<Rightarrow> owner_lease \<Rightarrow> bool"
    and epoch_of :: "'s \<Rightarrow> lease_key \<Rightarrow> int"
  assumes epoch_step: "step s e t \<Longrightarrow> inv s \<Longrightarrow> epoch_of s k \<le> epoch_of t k"
    and issue_fresh: "step s (Issued l) t \<Longrightarrow> inv s \<Longrightarrow> epoch_of s (lease_key l) < ol_epoch l"
    and issue_current: "step s (Issued l) t \<Longrightarrow> inv s \<Longrightarrow> epoch_of t (lease_key l) = ol_epoch l"
    and accepts_epoch: "inv s \<Longrightarrow> accepts s c l \<Longrightarrow> ol_epoch l = epoch_of s (lease_key l)"
    and accepts_holder: "inv s \<Longrightarrow> accepts s c l \<Longrightarrow> accepts s d m \<Longrightarrow> lease_key l = lease_key m \<Longrightarrow>
           ol_owner_id l = ol_owner_id m \<and> ol_token l = ol_token m"
begin

lemma epoch_run: "run_of step s es t \<Longrightarrow> inv s \<Longrightarrow> epoch_of s k \<le> epoch_of t k"
  by (rule run_measure_mono) (auto intro: epoch_step)

text \<open>Once a newer lease has been issued for its key, a lease is rejected in every later state.\<close>

lemma superseded_rejected:
  assumes "inv s" "step s (Issued new) s'" "run_of step s' es t"
    and "lease_key old = lease_key new" "ol_epoch old \<le> epoch_of s (lease_key old)"
  shows "\<not> accepts t c old"
proof
  assume acc: "accepts t c old"
  have inv': "inv s'" by (rule inv_step[OF assms(2,1)])
  then have "inv t" by (rule inv_run[OF assms(3)])
  with acc have "ol_epoch old = epoch_of t (lease_key old)" by (simp add: accepts_epoch)
  moreover have "epoch_of s' (lease_key old) \<le> epoch_of t (lease_key old)"
    by (rule epoch_run[OF assms(3) inv'])
  moreover have "epoch_of s (lease_key old) < epoch_of s' (lease_key old)"
    using issue_fresh[OF assms(2,1)] issue_current[OF assms(2,1)] assms(4) by simp
  ultimately show False using assms(5) by simp
qed

lemma issued_after: "run_of step s es t \<Longrightarrow> inv s \<Longrightarrow> l \<in> set (issued es) \<Longrightarrow>
    epoch_of s (lease_key l) < ol_epoch l"
proof (induction rule: run_of.induct)
  case (run_Cons s e t es u)
  then have le: "epoch_of s (lease_key l) \<le> epoch_of t (lease_key l)" and "inv t"
    by (auto intro: epoch_step inv_step)
  show ?case
  proof (cases "e = Issued l")
    case True
    with run_Cons show ?thesis by (auto intro: issue_fresh)
  next
    case False
    with run_Cons.prems have "l \<in> set (issued es)" by (cases e) auto
    with run_Cons.IH \<open>inv t\<close> le show ?thesis by force
  qed
qed simp

text \<open>Along any run, the leases issued for one key carry strictly increasing epochs.\<close>

lemma issued_increasing: "run_of step s es t \<Longrightarrow> inv s \<Longrightarrow>
    sorted_wrt (\<lambda>l m. lease_key l = lease_key m \<longrightarrow> ol_epoch l < ol_epoch m) (issued es)"
proof (induction rule: run_of.induct)
  case (run_Cons s e t es u)
  then have "inv t" by (auto intro: inv_step)
  show ?case
  proof (cases e)
    case (Issued l)
    have "ol_epoch l < ol_epoch m" if "m \<in> set (issued es)" "lease_key l = lease_key m" for m
      using issued_after[OF run_Cons.hyps(2) \<open>inv t\<close> that(1)] that(2)
        issue_current[of s l t] run_Cons.hyps(1) run_Cons.prems Issued by simp
    with Issued run_Cons.IH[OF \<open>inv t\<close>] show ?thesis by simp
  qed (use run_Cons.IH[OF \<open>inv t\<close>] in auto)
qed simp

lemma accepted_same_capability:
  assumes "inv s" "accepts s c l" "accepts s d m" "lease_key l = lease_key m"
  shows "ol_owner_id l = ol_owner_id m \<and> ol_epoch l = ol_epoch m \<and> ol_token l = ol_token m"
  using assms accepts_holder[OF assms] by (simp add: accepts_epoch)

end

section \<open>The in-memory authority meets the contract\<close>

lemma own_identity_Inr [run_simps]: "own_identity v f = Inr s \<longleftrightarrow> v = PyStr s \<and> identity_match s"
  by (cases v) (auto simp: own_identity_def)

lemma own_resource_kind_Inr [run_simps]:
  "own_resource_kind v = Inr s \<longleftrightarrow> v = PyStr s \<and> s \<in> set resource_kinds"
  by (cases v) (auto simp: own_resource_kind_def)

lemma own_epoch_Inr [run_simps]:
  "own_epoch v f = Inr n \<longleftrightarrow> v = PyInt n \<and> 1 \<le> n \<and> n \<le> max_int63"
  by (cases v) (auto simp: own_epoch_def)

lemma own_lease_seconds_Inr [run_simps]:
  "own_lease_seconds v = Inr n \<longleftrightarrow> v = PyInt n \<and> 1 \<le> n \<and> n \<le> max_lease_seconds"
  by (cases v) (auto simp: own_lease_seconds_def)

lemma mk_owner_lease_Inr:
  assumes "mk_owner_lease (PyStr c) (PyStr k) (PyStr r) (PyStr w) (PyInt e) (PyStr t)
             (PyFloat (Finite x)) = Inr l"
  shows "wf_lease l \<and> l = \<lparr>ol_cluster_id = c, ol_resource_kind = k, ol_resource_id = r,
    ol_owner_id = w, ol_epoch = e, ol_token = t, ol_expires_at = x\<rparr>"
  using assms
  by (auto simp: mk_owner_lease_def run_simps own_expires_at_def wf_lease_def)

lemma make_lease_Inr:
  assumes "make_lease a k r w e ttl now t = Inr l"
  shows "wf_lease l \<and> l = \<lparr>ol_cluster_id = au_cluster_id a, ol_resource_kind = k,
      ol_resource_id = r, ol_owner_id = w, ol_epoch = e, ol_token = t,
      ol_expires_at = now + of_int ttl\<rparr>
    \<and> (map_of (au_leases a) (lease_key l) \<noteq> None
       \<or> int (length (au_leases a)) < au_max_resources a)"
  using assms mk_owner_lease_Inr[of "au_cluster_id a" k r w e t "now + of_int ttl" l]
  by (auto simp: make_lease_def lease_key_def split: if_splits)

lemma own_inv_put [inv_intros]:
  assumes "own_inv a" "wf_lease l" "ol_cluster_id l = au_cluster_id a" "lease_key l = k"
    and "map_of (au_leases a) k \<noteq> None \<or> int (length (au_leases a)) < au_max_resources a"
  shows "own_inv (a\<lparr>au_leases := AList.update k l (au_leases a),
                    au_epochs := AList.update k (ol_epoch l) (au_epochs a)\<rparr>)"
  using assms
  by (auto simp: own_inv_def dict_simps pydict.ok_put pydict.size_put wf_lease_def)

lemma own_inv_extend [inv_intros]:
  assumes "own_inv a" "wf_lease l" "ol_cluster_id l = au_cluster_id a" "lease_key l = k"
    and "map_of (au_leases a) k \<noteq> None" "map_of (au_epochs a) k = Some (ol_epoch l)"
  shows "own_inv (a\<lparr>au_leases := AList.update k l (au_leases a)\<rparr>)"
  using assms by (auto simp: own_inv_def dict_simps pydict.ok_put pydict.size_put wf_lease_def)

lemma own_inv_drop [inv_intros]:
  "own_inv a \<Longrightarrow> own_inv (a\<lparr>au_leases := AList.delete k (au_leases a)\<rparr>)"
  using pydict.size_rem_le[of "au_leases a" k]
  by (auto simp: own_inv_def dict_simps pydict.ok_rem)

lemma own_acquire_Inr:
  assumes "own_acquire a kind rid owner ttl clk tok = Inr (l, a')"
  shows "\<exists>now. own_now clk = Inr now
    \<and> wf_lease l \<and> ol_cluster_id l = au_cluster_id a \<and> ol_token l = tok
    \<and> kind = PyStr (ol_resource_kind l) \<and> rid = PyStr (ol_resource_id l)
    \<and> owner = PyStr (ol_owner_id l)
    \<and> ol_epoch l = own_epoch_of a (lease_key l) + 1
    \<and> now < ol_expires_at l
    \<and> (\<forall>cur. map_of (au_leases a) (lease_key l) = Some cur \<longrightarrow> ol_expires_at cur \<le> now)
    \<and> (map_of (au_leases a) (lease_key l) \<noteq> None
       \<or> int (length (au_leases a)) < au_max_resources a)
    \<and> a' = a\<lparr>au_leases := AList.update (lease_key l) l (au_leases a),
             au_epochs := AList.update (lease_key l) (ol_epoch l) (au_epochs a)\<rparr>"
  using assms
  by (auto simp: own_acquire_def Let_def run_simps own_epoch_of_def lease_key_def
      split: if_splits option.splits dest!: make_lease_Inr)

lemma own_validate_allowed:
  assumes "own_validate a (Some l) clk = Inr d" "od_allowed d"
  obtains cur now where "map_of (au_leases a) (lease_key l) = Some cur" "own_now clk = Inr now"
    "now < ol_expires_at cur" "ol_cluster_id l = au_cluster_id a" "ol_epoch cur = ol_epoch l"
    "ol_owner_id cur = ol_owner_id l" "ol_token cur = ol_token l" "d = owner_verdict True ''current'' (Some (ol_epoch l))"
  using assms by (auto simp: own_validate_def split: if_splits option.splits)

lemma own_renew_Inr:
  assumes "own_renew a lo ttl clk1 clk2 = Inr (l, a')"
  shows "\<exists>l0 d. lo = Some l0 \<and> own_validate a (Some l0) clk1 = Inr d \<and> od_allowed d
    \<and> wf_lease l \<and> l = l0\<lparr>ol_expires_at := ol_expires_at l\<rparr> \<and> lease_key l0 = lease_key l
    \<and> ol_epoch l0 = ol_epoch l \<and> ol_cluster_id l0 = ol_cluster_id l
    \<and> a' = a\<lparr>au_leases := AList.update (lease_key l) l (au_leases a)\<rparr>"
  using assms
  by (auto simp: own_renew_def lease_key_def split: if_splits option.splits
      dest!: mk_owner_lease_Inr intro!: owner_lease.equality)

lemma own_takeover_Inr:
  assumes "own_takeover a po w ttl r clk tok = Inr (l, a')"
  shows "\<exists>p cur now. po = Some p \<and> own_now clk = Inr now
    \<and> map_of (au_leases a) (lease_key l) = Some cur
    \<and> tp_cluster_id p = au_cluster_id a \<and> tp_resource_kind p = ol_resource_kind l
    \<and> tp_resource_id p = ol_resource_id l
    \<and> tp_previous_owner_id p = ol_owner_id cur \<and> tp_previous_epoch p = ol_epoch cur
    \<and> \<not> list_all py_space (tp_fence_receipt p) \<and> 2 \<le> length (tp_replica_ids p)
    \<and> ol_epoch cur \<le> tp_data_ack_epoch p
    \<and> wf_lease l \<and> ol_cluster_id l = au_cluster_id a \<and> ol_token l = tok
    \<and> w = PyStr (ol_owner_id l) \<and> ol_owner_id l \<noteq> ol_owner_id cur
    \<and> ol_epoch l = ol_epoch cur + 1 \<and> now < ol_expires_at l
    \<and> a' = a\<lparr>au_leases := AList.update (lease_key l) l (au_leases a),
             au_epochs := AList.update (lease_key l) (ol_epoch l) (au_epochs a)\<rparr>"
  using assms
  by (auto simp: own_takeover_def run_simps lease_key_def py_strip_Nil_iff
      split: if_splits option.splits dest!: make_lease_Inr)

lemma own_inv_leaseD:
  "own_inv a \<Longrightarrow> map_of (au_leases a) k = Some l \<Longrightarrow>
     lease_key l = k \<and> ol_cluster_id l = au_cluster_id a \<and> wf_lease l
     \<and> map_of (au_epochs a) k = Some (ol_epoch l)"
  unfolding own_inv_def by blast

lemma own_step_inv: "own_step a e a' \<Longrightarrow> own_inv a \<Longrightarrow> own_inv a'"
proof (induction rule: own_step.induct)
  case (step_acquire a k r w ttl clk tok l a')
  then show ?case
    using own_acquire_Inr[OF step_acquire(1)] by (auto intro: own_inv_put)
next
  case (step_renew a lo ttl clk1 clk2 l a')
  then obtain l0 d where l0: "own_validate a (Some l0) clk1 = Inr d" "od_allowed d" "wf_lease l"
    and same: "lease_key l0 = lease_key l" "ol_epoch l0 = ol_epoch l"
    "ol_cluster_id l0 = ol_cluster_id l"
    and a': "a' = a\<lparr>au_leases := AList.update (lease_key l) l (au_leases a)\<rparr>"
    using own_renew_Inr[OF step_renew(1)] by blast
  show ?case
  proof (rule own_validate_allowed[OF l0(1,2)])
    fix cur assume "map_of (au_leases a) (lease_key l0) = Some cur" "ol_epoch cur = ol_epoch l0"
      "ol_cluster_id l0 = au_cluster_id a"
    then show ?thesis
      using own_inv_leaseD[OF step_renew(2), of "lease_key l0" cur] step_renew(2) l0(3) same
      by (auto simp: a' intro!: own_inv_extend)
  qed
next
  case (step_takeover a po w ttl r clk tok l a')
  then show ?case
    using own_takeover_Inr[OF step_takeover(1)] by (auto intro!: own_inv_put)
qed (auto simp: own_release_def split: if_splits intro: own_inv_drop)

lemma own_inv_epoch_of:
  "own_inv a \<Longrightarrow> map_of (au_leases a) k = Some l \<Longrightarrow> own_epoch_of a k = ol_epoch l"
  by (simp add: own_inv_leaseD own_epoch_of_def)

lemma own_step_issued:
  assumes "own_step a (Issued l) a'" "own_inv a"
  shows "ol_epoch l = own_epoch_of a (lease_key l) + 1
    \<and> own_epoch_of a' = (own_epoch_of a)(lease_key l := ol_epoch l)"
  using assms
  by cases (auto simp: own_epoch_of_def dict_simps own_inv_epoch_of[unfolded own_epoch_of_def] fun_eq_iff
      dest!: own_acquire_Inr own_takeover_Inr)

lemma own_step_epochs:
  "own_step a e a' \<Longrightarrow> \<nexists>l. e = Issued l \<Longrightarrow> own_epoch_of a' = own_epoch_of a"
  by (induction rule: own_step.induct)
    (auto simp: own_epoch_of_def own_release_def dest!: own_renew_Inr split: if_splits)

interpretation mem: lease_authority own_step own_inv own_accepts own_epoch_of
proof unfold_locales
  fix a e a' k assume "own_step a e a'" "own_inv a"
  then show "own_epoch_of a k \<le> own_epoch_of a' k"
    using own_step_epochs own_step_issued by (cases e) fastforce+
qed (auto simp: own_accepts_def own_inv_epoch_of own_step_issued intro: own_step_inv
      split: sum.splits elim!: own_validate_allowed)

lemma mk_authority_inv [inv_intros]: "mk_authority c b m = Inr a \<Longrightarrow> own_inv a"
  by (auto simp: mk_authority_def own_inv_def split: if_splits pyval.splits)

lemma own_issued_wf: "run_of own_step a es t \<Longrightarrow> l \<in> set (issued es) \<Longrightarrow> wf_lease l"
proof (induction rule: run_of.induct)
  case (run_Cons s e t es u)
  have "wf_lease m" if "e = Issued m" for m
    using run_Cons.hyps(1) unfolding that
    by cases (auto dest: own_acquire_Inr own_takeover_Inr)
  with run_Cons show ?case by (cases e) auto
qed simp

lemma make_lease_is_ok:
  assumes "identity_match (au_cluster_id a)" "k \<in> set resource_kinds" "identity_match r"
    "identity_match w" "identity_match tok" "0 \<le> e" "map_of (au_leases a) (k, r, au_cluster_id a) \<noteq> None"
  shows "is_ok (make_lease a k r w (e + 1) ttl now tok) \<longleftrightarrow> e < max_int63"
  using assms
  by (auto simp: is_ok_iff make_lease_def mk_owner_lease_def own_expires_at_def run_simps)

section \<open>Properties\<close>

text \<open>
  Concrete states for the witnesses: an empty authority of cluster \<open>c1\<close> and leases on its job \<open>r1\<close>.
\<close>

definition demo_authority :: authority where
  "demo_authority =
     \<lparr>au_cluster_id = ''c1'', au_max_resources = 2, au_leases = [], au_epochs = []\<rparr>"

definition demo_lease :: "string \<Rightarrow> int \<Rightarrow> rat \<Rightarrow> owner_lease" where
  "demo_lease w e x = \<lparr>ol_cluster_id = ''c1'', ol_resource_kind = ''job'', ol_resource_id = ''r1'',
     ol_owner_id = w, ol_epoch = e, ol_token = ''a0'', ol_expires_at = x\<rparr>"

definition demo_held :: "owner_lease \<Rightarrow> authority" where
  "demo_held l = demo_authority\<lparr>au_leases := [(lease_key l, l)],
     au_epochs := [(lease_key l, ol_epoch l)]\<rparr>"

definition demo_proof :: takeover_proof where
  "demo_proof = \<lparr>tp_cluster_id = ''c1'', tp_resource_kind = ''job'', tp_resource_id = ''r1'',
     tp_previous_owner_id = ''n1'', tp_previous_epoch = 1, tp_fence_receipt = ''fenced'',
     tp_data_ack_epoch = 1, tp_replica_ids = [''n2'', ''n3'']\<rparr>"

lemma demo_start: "mk_authority (PyStr ''c1'') True (PyInt 2) = Inr demo_authority"
  by code_simp

lemma demo_first: "own_step demo_authority (Issued (demo_lease ''n1'' 1 30))
    (demo_held (demo_lease ''n1'' 1 30))"
proof -
  have "own_acquire demo_authority (PyStr ''job'') (PyStr ''r1'') (PyStr ''n1'') (PyInt 30) (PyInt 0) ''a0''
    = Inr (demo_lease ''n1'' 1 30, demo_held (demo_lease ''n1'' 1 30))"
    by code_simp
  then show ?thesis by (rule step_acquire)
qed

lemma demo_second: "own_step (demo_held (demo_lease ''n1'' 1 30)) (Issued (demo_lease ''n2'' 2 70))
    (demo_held (demo_lease ''n2'' 2 70))"
proof -
  have "own_takeover (demo_held (demo_lease ''n1'' 1 30)) (Some demo_proof) (PyStr ''n2'') (PyInt 60)
      PyNone (PyInt 10) ''a0'' = Inr (demo_lease ''n2'' 2 70, demo_held (demo_lease ''n2'' 2 70))"
    by code_simp
  then show ?thesis by (rule step_takeover)
qed

lemma demo_run: "run_of own_step demo_authority
    [Issued (demo_lease ''n1'' 1 30), Issued (demo_lease ''n2'' 2 70)] (demo_held (demo_lease ''n2'' 2 70))"
  using demo_first demo_second by (auto simp: run_of_Cons_iff run_of_Nil_iff)

lemma demo_held_inv: "own_inv (demo_held (demo_lease ''n1'' 1 30))"
  by (rule own_step_inv[OF demo_first mk_authority_inv[OF demo_start]])

text \<open>
  (C1) Epoch fencing. Along every sequence of acquire, renew, release and takeover calls on a new
  authority, the leases issued for one resource carry strictly increasing epochs, all within
  1..2^63-1, and the authority's invariant holds at the end: an epoch is never reused, even after
  a release or an expiry.
\<close>

theorem own_issued_epochs_increase:
  assumes "mk_authority c True m = Inr a" "run_of own_step a es t"
  shows "own_inv t
    \<and> sorted_wrt (\<lambda>l m. lease_key l = lease_key m \<longrightarrow> ol_epoch l < ol_epoch m) (issued es)
    \<and> (\<forall>l \<in> set (issued es). 1 \<le> ol_epoch l \<and> ol_epoch l \<le> max_int63)"
  using mem.issued_increasing[OF assms(2)] mem.inv_run[OF assms(2)] own_issued_wf[OF assms(2)]
    mk_authority_inv[OF assms(1)]
  by (auto simp: wf_lease_def)

theorem own_issued_epochs_increase_witness:
  "own_inv (demo_held (demo_lease ''n2'' 2 70))"
  using own_issued_epochs_increase[OF demo_start demo_run]
  by blast

text \<open>
  (C2) A superseded owner stays fenced. Once a newer lease has been issued for a resource, no
  lease of the epochs before it is ever accepted again, whatever calls follow and whatever the
  clock shows.
\<close>

theorem own_superseded_stays_fenced:
  assumes "own_inv a" "own_step a (Issued new) b" "run_of own_step b es t"
    and "lease_key old = lease_key new" "ol_epoch old < ol_epoch new"
  shows "\<not> own_accepts t clk old"
  using mem.superseded_rejected[OF assms(1-4)] own_step_issued[OF assms(2,1)] assms(4,5)
  by simp

theorem own_superseded_stays_fenced_witness:
  "own_accepts (demo_held (demo_lease ''n1'' 1 30)) (PyInt 9) (demo_lease ''n1'' 1 30)
   \<and> \<not> own_accepts (demo_held (demo_lease ''n2'' 2 70)) (PyInt 11) (demo_lease ''n1'' 1 30)"
proof
  show "own_accepts (demo_held (demo_lease ''n1'' 1 30)) (PyInt 9) (demo_lease ''n1'' 1 30)"
    by code_simp
  show "\<not> own_accepts (demo_held (demo_lease ''n2'' 2 70)) (PyInt 11) (demo_lease ''n1'' 1 30)"
    by (rule own_superseded_stays_fenced[OF demo_held_inv demo_second run_Nil])
      (simp_all add: demo_lease_def lease_key_def)
qed

text \<open>
  (C4) Mutual exclusion. In every state reachable from a new authority, two leases it accepts for
  one resource, at any clock readings, name the same owner, the same epoch and the same token.
\<close>

theorem own_mutual_exclusion:
  assumes "mk_authority c True m = Inr a" "run_of own_step a es t"
    and "own_accepts t clk l" "own_accepts t clk' l'" "lease_key l = lease_key l'"
  shows "ol_owner_id l = ol_owner_id l' \<and> ol_epoch l = ol_epoch l' \<and> ol_token l = ol_token l'"
  by (rule mem.accepted_same_capability[OF mem.inv_run[OF assms(2) mk_authority_inv[OF assms(1)]]
        assms(3-5)])

theorem own_mutual_exclusion_witness:
  "ol_owner_id (demo_lease ''n2'' 2 70) = ol_owner_id (demo_lease ''n2'' 2 99)
   \<and> own_accepts (demo_held (demo_lease ''n2'' 2 70)) (PyInt 20) (demo_lease ''n2'' 2 99)"
proof -
  have acc: "own_accepts (demo_held (demo_lease ''n2'' 2 70)) (PyInt 20) (demo_lease ''n2'' 2 99)"
    "own_accepts (demo_held (demo_lease ''n2'' 2 70)) (PyInt 11) (demo_lease ''n2'' 2 70)"
    by code_simp+
  have key: "lease_key (demo_lease ''n2'' 2 70) = lease_key (demo_lease ''n2'' 2 99)"
    by (simp add: lease_key_def demo_lease_def)
  show ?thesis
    using own_mutual_exclusion[OF demo_start demo_run acc(2,1) key] acc(1)
    by blast
qed

lemma own_takeover_complete_proof:
  assumes "own_inv a" "identity_match w" "1 \<le> ttl" "ttl \<le> 900" "own_now clk = Inr now"
    and "identity_match tok"
  shows "is_ok (own_takeover a (Some p) (PyStr w) (PyInt ttl) PyNone clk tok) \<longleftrightarrow>
    tp_cluster_id p = au_cluster_id a
    \<and> (\<exists>cur. map_of (au_leases a) (tp_resource_kind p, tp_resource_id p, au_cluster_id a) = Some cur
         \<and> tp_previous_owner_id p = ol_owner_id cur \<and> tp_previous_epoch p = ol_epoch cur
         \<and> w \<noteq> ol_owner_id cur \<and> \<not> list_all py_space (tp_fence_receipt p)
         \<and> 2 \<le> length (tp_replica_ids p) \<and> ol_epoch cur \<le> tp_data_ack_epoch p
         \<and> ol_epoch cur < max_int63)" (is "?L \<longleftrightarrow> ?R")
proof
  assume ?L
  then obtain l a' where ok: "own_takeover a (Some p) (PyStr w) (PyInt ttl) PyNone clk tok = Inr (l, a')"
    by (auto simp: is_ok_iff)
  show ?R
    using own_takeover_Inr[OF ok] by (auto simp: lease_key_def wf_lease_def)
next
  assume ?R
  then obtain cur where cur: "map_of (au_leases a) (tp_resource_kind p, tp_resource_id p, au_cluster_id a) = Some cur"
    and R: "tp_cluster_id p = au_cluster_id a" "tp_previous_owner_id p = ol_owner_id cur"
      "tp_previous_epoch p = ol_epoch cur" "w \<noteq> ol_owner_id cur" "py_strip (tp_fence_receipt p) \<noteq> []"
      "2 \<le> length (tp_replica_ids p)" "ol_epoch cur \<le> tp_data_ack_epoch p" "ol_epoch cur < max_int63"
    by (auto simp: py_strip_Nil_iff)
  have wf: "wf_lease cur" "lease_key cur = (tp_resource_kind p, tp_resource_id p, au_cluster_id a)"
    using own_inv_leaseD[OF assms(1) cur] by simp_all
  then have "is_ok (make_lease a (tp_resource_kind p) (tp_resource_id p) w (ol_epoch cur + 1) ttl now tok)"
    using assms cur R(8) by (subst make_lease_is_ok) (auto simp: wf_lease_def lease_key_def)
  then show ?L
    using assms cur R by (auto simp: is_ok_iff own_takeover_def own_identity_def own_lease_seconds_def)
qed

text \<open>
  (C12) Takeover needs the complete proof, and the complete proof suffices. With a valid new owner,
  lease time, clock and token, the takeover of a live or expired lease succeeds exactly if the
  proof is for this cluster and names the current owner and epoch, the owner changes, the fence
  receipt is not blank, at least two replicas acknowledged and the acknowledged epoch is not
  behind; and then the new lease carries the next epoch. At epoch 2^63-1 it is refused.
\<close>

theorem own_takeover_iff_complete_proof:
  assumes "own_inv a" "identity_match w" "1 \<le> ttl" "ttl \<le> 900" "own_now clk = Inr now"
    and "identity_match tok"
  shows "is_ok (own_takeover a (Some p) (PyStr w) (PyInt ttl) PyNone clk tok) \<longleftrightarrow>
    tp_cluster_id p = au_cluster_id a
    \<and> (\<exists>cur. map_of (au_leases a) (tp_resource_kind p, tp_resource_id p, au_cluster_id a) = Some cur
         \<and> tp_previous_owner_id p = ol_owner_id cur \<and> tp_previous_epoch p = ol_epoch cur
         \<and> w \<noteq> ol_owner_id cur \<and> \<not> list_all py_space (tp_fence_receipt p)
         \<and> 2 \<le> length (tp_replica_ids p) \<and> ol_epoch cur \<le> tp_data_ack_epoch p
         \<and> ol_epoch cur < max_int63)"
  by (rule own_takeover_complete_proof[OF assms])

theorem own_takeover_iff_complete_proof_witness:
  "is_ok (own_takeover (demo_held (demo_lease ''n1'' 1 30)) (Some demo_proof) (PyStr ''n2'') (PyInt 60)
     PyNone (PyInt 10) ''a0'')
   \<and> \<not> is_ok (own_takeover (demo_held (demo_lease ''n1'' 1 30))
        (Some (demo_proof\<lparr>tp_replica_ids := [''n2'']\<rparr>)) (PyStr ''n2'') (PyInt 60) PyNone (PyInt 10) ''a0'')"
proof -
  have hyps: "identity_match ''n2''" "own_now (PyInt 10) = Inr 10" "identity_match ''a0''"
    by code_simp+
  have cur: "map_of (au_leases (demo_held (demo_lease ''n1'' 1 30)))
      (tp_resource_kind demo_proof, tp_resource_id demo_proof, ''c1'') = Some (demo_lease ''n1'' 1 30)"
    by code_simp
  have receipt: "\<not> list_all py_space (tp_fence_receipt demo_proof)"
    by code_simp
  show ?thesis
    using cur receipt hyps
    by (simp add: own_takeover_iff_complete_proof[OF demo_held_inv hyps(1) _ _ hyps(2,3)])
      (simp add: demo_held_def demo_authority_def demo_lease_def demo_proof_def)
qed

text \<open>
  Expiry alone transfers a resource. When the lease of another owner has expired, acquire
  issues the next epoch to any owner without a takeover proof. The module's description says that
  a lease timeout by itself never grants authority.
\<close>

theorem own_expired_lease_reacquired:
  assumes "own_inv a" "map_of (au_leases a) (kind, rid, au_cluster_id a) = Some cur"
    and "ol_expires_at cur \<le> now" "own_now clk = Inr now" "ol_epoch cur < max_int63"
    and "identity_match w" "identity_match tok" "1 \<le> ttl" "ttl \<le> 900"
  shows "\<exists>l a'. own_acquire a (PyStr kind) (PyStr rid) (PyStr w) (PyInt ttl) clk tok = Inr (l, a')
    \<and> ol_owner_id l = w \<and> ol_epoch l = ol_epoch cur + 1 \<and> own_accepts a' clk l"
proof -
  note cur = own_inv_leaseD[OF assms(1,2)]
  have ep: "map_of (au_epochs a) (kind, rid, au_cluster_id a) = Some (ol_epoch cur)"
    using cur by simp
  have ids: "identity_match (au_cluster_id a)" "kind \<in> set resource_kinds" "identity_match rid"
    "1 \<le> ol_epoch cur"
    using cur by (auto simp: wf_lease_def lease_key_def)
  have "is_ok (make_lease a kind rid w (ol_epoch cur + 1) ttl now tok)"
    using assms ids by (subst make_lease_is_ok) auto
  then obtain l where mk: "make_lease a kind rid w (ol_epoch cur + 1) ttl now tok = Inr l"
    by (auto simp: is_ok_iff)
  note l = make_lease_Inr[OF mk]
  have acq: "own_acquire a (PyStr kind) (PyStr rid) (PyStr w) (PyInt ttl) clk tok =
      Inr (l, a\<lparr>au_leases := AList.update (kind, rid, au_cluster_id a) l (au_leases a),
                au_epochs := AList.update (kind, rid, au_cluster_id a) (ol_epoch cur + 1) (au_epochs a)\<rparr>)"
    using assms ids mk ep
    by (simp add: own_acquire_def own_identity_def own_resource_kind_def own_lease_seconds_def Let_def)
  show ?thesis
    using l assms(4,8)
    by (auto simp: acq own_accepts_def own_validate_def lease_key_def dict_simps)
qed

theorem own_expired_lease_reacquired_witness:
  "\<exists>l a'. own_acquire (demo_held (demo_lease ''n1'' 1 30)) (PyStr ''job'') (PyStr ''r1'') (PyStr ''n9'')
      (PyInt 5) (PyInt 30) ''b1'' = Inr (l, a') \<and> ol_owner_id l = ''n9'' \<and> own_accepts a' (PyInt 30) l"
proof -
  have hyps: "map_of (au_leases (demo_held (demo_lease ''n1'' 1 30)))
      (''job'', ''r1'', au_cluster_id (demo_held (demo_lease ''n1'' 1 30))) = Some (demo_lease ''n1'' 1 30)"
    "ol_expires_at (demo_lease ''n1'' 1 30) \<le> 30" "own_now (PyInt 30) = Inr 30"
    "ol_epoch (demo_lease ''n1'' 1 30) < max_int63" "identity_match ''n9''" "identity_match ''b1''"
    by code_simp+
  show ?thesis
    using own_expired_lease_reacquired[OF demo_held_inv hyps, of 5] by auto
qed

end
