(* ===== verification/OwnershipJournal.thy ===== *)
theory OwnershipJournal
  imports Ownership
begin

text \<open>
  \<^verbatim>\<open>sonder_runtime/adapters/persistence/sqlite/cluster_ownership.py\<close>: the durable journal of the
  ownership contract. The two tables are dictionaries from the primary key to the remaining
  columns, each column the Python value SQLite returns for it, so that the checks on a damaged
  journal are branches of the model. A transaction returns an exception with both tables as they
  were (the rollback) or the value and the committed tables; what SQLite itself may report is the
  argument of type \<open>storage\<close>.

  Arguments that stand for library calls: the clock readings, the drawn token, the SHA-256 digest
  \<open>sha\<close>, the hexadecimal form \<open>fhex\<close> of a double and \<open>nextafter\<close> towards infinity.

  The journal is a second interpretation of the contract \<open>lease_authority\<close>, and its decisions
  refine those of the in-memory authority.
\<close>

section \<open>Tables and transactions\<close>

record epoch_row =
  er_epoch :: pyval
  er_released_epoch :: pyval
  er_released_token :: pyval

record lease_row =
  lr_epoch :: pyval
  lr_owner_id :: pyval
  lr_token :: pyval
  lr_expires_at :: pyval
  lr_renew_key :: pyval

type_synonym row_key = "string \<times> string \<times> string"

record journal =
  jn_cluster_id :: string
  jn_max_resources :: int
  jn_epochs :: "(row_key, epoch_row) dict"
  jn_leases :: "(row_key, lease_row) dict"

datatype storage = Storage_ok | Journal_missing | Journal_unavailable | Schema_mismatch | Storage_error

abbreviation max_epoch :: int where
  "max_epoch \<equiv> 2 ^ 63 - 1"

definition jr_transaction ::
  "storage \<Rightarrow> journal \<Rightarrow> (journal \<Rightarrow> ('a \<times> journal) res) \<Rightarrow> ('a \<times> journal) res" where
  "jr_transaction st j body =
     (case st of
        Journal_missing \<Rightarrow> Inl (OwnershipError ''owner lease journal is missing'')
      | Journal_unavailable \<Rightarrow> Inl (OwnershipError ''owner lease journal is unavailable'')
      | Schema_mismatch \<Rightarrow> Inl (OwnershipError ''owner lease journal schema mismatch'')
      | Storage_error \<Rightarrow> Inl (OwnershipError ''owner lease journal storage is unavailable'')
      | Storage_ok \<Rightarrow> body j)"

definition mk_journal :: "pyval \<Rightarrow> bool \<Rightarrow> pyval \<Rightarrow> journal res" where
  \<comment> \<open>a newly created journal: the shared checks of the domain constructor, empty tables\<close>
  "mk_journal cluster clock_callable max_resources =
     rbind (mk_authority cluster clock_callable max_resources) (\<lambda>a.
       Inr \<lparr>jn_cluster_id = au_cluster_id a, jn_max_resources = au_max_resources a,
            jn_epochs = [], jn_leases = []\<rparr>)"

text \<open>Comparison in SQL: numbers compare by value, text and blobs are above every number, and
  NULL compares to nothing.\<close>

definition sql_num :: "pyval \<Rightarrow> rat option" where
  "sql_num v = (case v of PyInt n \<Rightarrow> Some (of_int n) | PyFloat (Finite x) \<Rightarrow> Some x | _ \<Rightarrow> None)"

definition sql_eq :: "pyval \<Rightarrow> pyval \<Rightarrow> bool" where
  "sql_eq v w = (v \<noteq> PyNone \<and> (v = w \<or> sql_num v \<noteq> None \<and> sql_num v = sql_num w))"

definition sql_gt :: "pyval \<Rightarrow> rat \<Rightarrow> bool" where
  "sql_gt v x =
     (case v of
        PyInt n \<Rightarrow> x < of_int n
      | PyFloat (Finite y) \<Rightarrow> x < y
      | PyFloat PosInf \<Rightarrow> True
      | PyStr _ \<Rightarrow> True
      | PyBytes _ \<Rightarrow> True
      | _ \<Rightarrow> False)"

section \<open>Reading rows\<close>

definition jr_now :: "pyval \<Rightarrow> rat res" where
  "jr_now clk =
     (case clk of
        PyInt n \<Rightarrow> (case float_of_int n of Inr x \<Rightarrow> Inr x
                    | Inl _ \<Rightarrow> Inl (OwnershipError ''clock returned a non-finite value''))
      | PyFloat (Finite x) \<Rightarrow> Inr x
      | PyFloat _ \<Rightarrow> Inl (OwnershipError ''clock returned a non-finite value'')
      | _ \<Rightarrow> Inl (OwnershipError ''clock returned a non-numeric value''))"

definition jr_scope :: "journal \<Rightarrow> pyval \<Rightarrow> pyval \<Rightarrow> pyval \<Rightarrow> (string \<times> string \<times> string) res" where
  "jr_scope j kind rid owner =
     rbind (mk_owner_lease (PyStr (jn_cluster_id j)) kind rid owner (PyInt 1) (PyStr ''probe'')
              (PyFloat (Finite 0))) (\<lambda>probe.
       Inr (ol_resource_kind probe, ol_resource_id probe, ol_owner_id probe))"

definition next_epoch :: "int \<Rightarrow> int res" where
  "next_epoch epoch =
     (if 0 \<le> epoch \<and> epoch < max_epoch then Inr (epoch + 1)
      else Inl (OwnershipError ''owner lease epoch is exhausted or invalid''))"

definition row_to_lease :: "row_key \<Rightarrow> lease_row \<Rightarrow> owner_lease res" where
  "row_to_lease key row =
     (let bad = Inl (OwnershipError ''owner lease journal contains an invalid lease'') in
      case key of (c, k, r) \<Rightarrow>
        (case lr_epoch row of PyInt e \<Rightarrow>
          (case lr_owner_id row of PyStr w \<Rightarrow>
            (case lr_token row of PyStr t \<Rightarrow>
              (case mk_owner_lease (PyStr c) (PyStr k) (PyStr r) (PyStr w) (PyInt e) (PyStr t)
                      (lr_expires_at row) of
                 Inr l \<Rightarrow> Inr l | Inl _ \<Rightarrow> bad)
             | _ \<Rightarrow> bad)
           | _ \<Rightarrow> bad)
         | _ \<Rightarrow> bad))"

definition load_lease ::
  "journal \<Rightarrow> string \<Rightarrow> string \<Rightarrow> ((owner_lease \<times> string option) option) res" where
  "load_lease j kind rid =
     (let key = (jn_cluster_id j, kind, rid) in
      case map_of (jn_leases j) key of
        None \<Rightarrow> Inr None
      | Some row \<Rightarrow>
          (case lr_renew_key row of
             PyNone \<Rightarrow> rbind (row_to_lease key row) (\<lambda>l. Inr (Some (l, None)))
           | PyStr s \<Rightarrow> rbind (row_to_lease key row) (\<lambda>l. Inr (Some (l, Some s)))
           | _ \<Rightarrow> Inl (OwnershipError ''owner lease journal contains an invalid renewal key'')))"

definition read_epoch_row ::
  "journal \<Rightarrow> string \<Rightarrow> string \<Rightarrow> ((int \<times> int option \<times> string option) option) res" where
  "read_epoch_row j kind rid =
     (case map_of (jn_epochs j) (jn_cluster_id j, kind, rid) of
        None \<Rightarrow> Inr None
      | Some row \<Rightarrow>
          rbind (case er_epoch row of PyInt e \<Rightarrow> Inr e
                 | _ \<Rightarrow> Inl (OwnershipError ''owner lease journal contains an invalid epoch'')) (\<lambda>epoch.
          rbind (case er_released_epoch row of PyNone \<Rightarrow> Inr None | PyInt e \<Rightarrow> Inr (Some e)
                 | _ \<Rightarrow> Inl (OwnershipError ''owner lease journal contains an invalid release epoch''))
            (\<lambda>released_epoch.
          rbind (case er_released_token row of PyNone \<Rightarrow> Inr None | PyStr t \<Rightarrow> Inr (Some t)
                 | _ \<Rightarrow> Inl (OwnershipError ''owner lease journal contains an invalid release token''))
            (\<lambda>released_token.
            if \<not> (0 \<le> epoch \<and> epoch \<le> max_epoch)
            then Inl (OwnershipError ''owner lease journal contains an invalid epoch'')
            else if (case released_epoch of None \<Rightarrow> False | Some e \<Rightarrow> \<not> (1 \<le> e \<and> e \<le> max_epoch))
            then Inl (OwnershipError ''owner lease journal contains an invalid release epoch'')
            else Inr (Some (epoch, released_epoch, released_token))))))"

definition active_count :: "journal \<Rightarrow> rat \<Rightarrow> int" where
  "active_count j now =
     int (length (filter (\<lambda>((c, _, _), row). c = jn_cluster_id j \<and> sql_gt (lr_expires_at row) now)
       (jn_leases j)))"

section \<open>Operations\<close>

definition new_epoch :: "journal \<Rightarrow> string \<Rightarrow> string \<Rightarrow> int option \<Rightarrow> (int \<times> journal) res" where
  "new_epoch j kind rid current_epoch =
     (let key = (jn_cluster_id j, kind, rid);
          put = (\<lambda>e. j\<lparr>jn_epochs := AList.update key
            \<lparr>er_epoch = PyInt e, er_released_epoch = PyNone, er_released_token = PyNone\<rparr>
            (jn_epochs j)\<rparr>)
      in rbind (read_epoch_row j kind rid) (\<lambda>prior.
         case prior of
           None \<Rightarrow> Inr (1, put 1)
         | Some (epoch, _, _) \<Rightarrow>
             if current_epoch \<noteq> None \<and> current_epoch \<noteq> Some epoch
             then Inl (OwnershipConflict ''ownership epoch changed during acquire'')
             else rbind (next_epoch epoch) (\<lambda>e. Inr (e, put e))))"

definition lease_to_row :: "owner_lease \<Rightarrow> pyval \<Rightarrow> lease_row" where
  "lease_to_row l renew_key =
     \<lparr>lr_epoch = PyInt (ol_epoch l), lr_owner_id = PyStr (ol_owner_id l),
      lr_token = PyStr (ol_token l), lr_expires_at = PyFloat (Finite (ol_expires_at l)),
      lr_renew_key = renew_key\<rparr>"

definition row_matches :: "lease_row option \<Rightarrow> (lease_row \<Rightarrow> bool) \<Rightarrow> bool" where
  \<comment> \<open>the row count of an UPDATE or DELETE that names the primary key is one\<close>
  "row_matches r P = (case r of None \<Rightarrow> False | Some row \<Rightarrow> P row)"

definition jr_acquire ::
  "storage \<Rightarrow> journal \<Rightarrow> pyval \<Rightarrow> pyval \<Rightarrow> pyval \<Rightarrow> pyval \<Rightarrow> pyval \<Rightarrow> string
     \<Rightarrow> (owner_lease \<times> journal) res" where
  "jr_acquire st j resource_kind resource_id owner_id lease_seconds clk token =
     rbind (jr_scope j resource_kind resource_id owner_id) (\<lambda>(kind, rid, owner).
     rbind (own_lease_seconds lease_seconds) (\<lambda>ttl.
     jr_transaction st j (\<lambda>j.
       rbind (jr_now clk) (\<lambda>now.
       rbind (load_lease j kind rid) (\<lambda>loaded.
       let key = (jn_cluster_id j, kind, rid);
           mk = (\<lambda>epoch. mk_owner_lease (PyStr (jn_cluster_id j)) (PyStr kind) (PyStr rid)
             (PyStr owner) (PyInt epoch) (PyStr token) (PyFloat (Finite (now + of_int ttl))))
       in case loaded of
         Some (current, _) \<Rightarrow>
           if now < ol_expires_at current then
             if ol_owner_id current = owner then Inr (current, j)
             else Inl (OwnershipConflict ''resource is already owned'')
           else
             rbind (new_epoch j kind rid (Some (ol_epoch current))) (\<lambda>(epoch, j).
             rbind (mk epoch) (\<lambda>lease.
               if row_matches (map_of (jn_leases j) key) (\<lambda>row.
                    sql_eq (lr_epoch row) (PyInt (ol_epoch current))
                    \<and> sql_eq (lr_token row) (PyStr (ol_token current)))
               then Inr (lease, j\<lparr>jn_leases := AList.update key (lease_to_row lease PyNone) (jn_leases j)\<rparr>)
               else Inl (OwnershipConflict ''ownership changed during acquire'')))
       | None \<Rightarrow>
           if jn_max_resources j \<le> active_count j now
           then Inl (OwnershipConflict ''ownership resource capacity exhausted'')
           else
             rbind (new_epoch j kind rid None) (\<lambda>(epoch, j).
             rbind (mk epoch) (\<lambda>lease.
               if map_of (jn_leases j) key \<noteq> None
               then Inl (OwnershipConflict ''ownership changed during acquire'')
               else Inr (lease, j\<lparr>jn_leases := AList.update key (lease_to_row lease PyNone)
                                   (jn_leases j)\<rparr>))))))))"

definition jr_decision :: "owner_lease \<Rightarrow> owner_lease option \<Rightarrow> rat option \<Rightarrow> ownership_decision" where
  "jr_decision requested current now =
     (case current of
        None \<Rightarrow> owner_verdict False ''no_owner'' None
      | Some cur \<Rightarrow>
          if ol_epoch cur \<noteq> ol_epoch requested
          then owner_verdict False ''stale_epoch'' (Some (ol_epoch cur))
          else if ol_owner_id cur \<noteq> ol_owner_id requested
          then owner_verdict False ''owner_mismatch'' (Some (ol_epoch cur))
          else if ol_token cur \<noteq> ol_token requested
          then owner_verdict False ''stale_lease'' (Some (ol_epoch cur))
          else if (case now of None \<Rightarrow> False | Some t \<Rightarrow> ol_expires_at cur \<le> t)
          then owner_verdict False ''lease_expired'' (Some (ol_epoch cur))
          else owner_verdict True ''current'' (Some (ol_epoch cur)))"

definition jr_validate ::
  "storage \<Rightarrow> journal \<Rightarrow> owner_lease option \<Rightarrow> pyval \<Rightarrow> (ownership_decision \<times> journal) res" where
  "jr_validate st j lease clk =
     (case lease of None \<Rightarrow> Inr (owner_verdict False ''invalid_lease'' None, j)
      | Some l \<Rightarrow>
          if ol_cluster_id l \<noteq> jn_cluster_id j then Inr (owner_verdict False ''cluster_mismatch'' None, j)
          else jr_transaction st j (\<lambda>j.
            rbind (load_lease j (ol_resource_kind l) (ol_resource_id l)) (\<lambda>loaded.
            case loaded of None \<Rightarrow> Inr (owner_verdict False ''no_owner'' None, j)
            | Some (current, _) \<Rightarrow>
                rbind (jr_now clk) (\<lambda>now. Inr (jr_decision l (Some current) (Some now), j)))))"

definition renew_request_key ::
  "(string \<Rightarrow> string) \<Rightarrow> (rat \<Rightarrow> string) \<Rightarrow> owner_lease \<Rightarrow> int \<Rightarrow> string res" where
  "renew_request_key sha fhex l ttl =
     (if \<bar>ol_expires_at l\<bar> < 2 ^ 1024 - 2 ^ 970 then
        Inr (sha (py_join [CHR 0x1F]
          [ol_cluster_id l, ol_resource_kind l, ol_resource_id l, ol_owner_id l,
           py_str_int (ol_epoch l), ol_token l, fhex (ol_expires_at l), py_str_int ttl]))
      else Inl (OverflowError ''int too large to convert to float''))"

definition jr_renew ::
  "(string \<Rightarrow> string) \<Rightarrow> (rat \<Rightarrow> string) \<Rightarrow> (rat \<Rightarrow> pyfloat) \<Rightarrow> storage \<Rightarrow> journal \<Rightarrow> owner_lease option
     \<Rightarrow> pyval \<Rightarrow> pyval \<Rightarrow> (owner_lease \<times> journal) res" where
  "jr_renew sha fhex nextafter st j lease lease_seconds clk =
     rbind (own_lease_seconds lease_seconds) (\<lambda>ttl.
     case lease of None \<Rightarrow> Inl (OwnershipConflict ''invalid_lease'')
     | Some l \<Rightarrow>
       if ol_cluster_id l \<noteq> jn_cluster_id j then Inl (OwnershipConflict ''cluster_mismatch'')
       else rbind (renew_request_key sha fhex l ttl) (\<lambda>request_key.
       jr_transaction st j (\<lambda>j.
         rbind (load_lease j (ol_resource_kind l) (ol_resource_id l)) (\<lambda>loaded.
         rbind (if loaded = None then Inr None else rbind (jr_now clk) (\<lambda>n. Inr (Some n))) (\<lambda>now.
         let current = map_option fst loaded; d = jr_decision l current now in
         if \<not> od_allowed d then Inl (OwnershipConflict (od_reason d))
         else case (loaded, now) of
           (Some (cur, stored_key), Some t) \<Rightarrow>
             if stored_key = Some request_key then Inr (cur, j)
             else
               rbind (if t + of_int ttl \<le> ol_expires_at cur then
                        (case nextafter (ol_expires_at cur) of Finite x \<Rightarrow> Inr x
                         | _ \<Rightarrow> Inl (OwnershipError ''owner lease expiry is exhausted''))
                      else Inr (t + of_int ttl)) (\<lambda>expires_at.
               rbind (mk_owner_lease (PyStr (ol_cluster_id cur)) (PyStr (ol_resource_kind cur))
                        (PyStr (ol_resource_id cur)) (PyStr (ol_owner_id cur)) (PyInt (ol_epoch cur))
                        (PyStr (ol_token cur)) (PyFloat (Finite expires_at))) (\<lambda>renewed.
               let key = (jn_cluster_id j, ol_resource_kind l, ol_resource_id l) in
               if row_matches (map_of (jn_leases j) key) (\<lambda>row.
                    sql_eq (lr_epoch row) (PyInt (ol_epoch cur))
                    \<and> sql_eq (lr_owner_id row) (PyStr (ol_owner_id cur))
                    \<and> sql_eq (lr_token row) (PyStr (ol_token cur))
                    \<and> sql_eq (lr_expires_at row) (PyFloat (Finite (ol_expires_at cur))))
               then Inr (renewed, j\<lparr>jn_leases := AList.update key
                      (lease_to_row renewed (PyStr request_key)) (jn_leases j)\<rparr>)
               else Inl (OwnershipConflict ''ownership changed during renewal'')))
         | _ \<Rightarrow> Inl (OwnershipConflict ''no_owner''))))))"

definition jr_release :: "storage \<Rightarrow> journal \<Rightarrow> owner_lease option \<Rightarrow> (bool \<times> journal) res" where
  "jr_release st j lease =
     (case lease of None \<Rightarrow> Inr (False, j)
      | Some l \<Rightarrow>
         if ol_cluster_id l \<noteq> jn_cluster_id j then Inr (False, j)
         else jr_transaction st j (\<lambda>j.
           rbind (load_lease j (ol_resource_kind l) (ol_resource_id l)) (\<lambda>loaded.
           let key = (jn_cluster_id j, ol_resource_kind l, ol_resource_id l) in
           case loaded of
             Some (current, _) \<Rightarrow>
               if current \<noteq> l then Inr (False, j)
               else if \<not> row_matches (map_of (jn_leases j) key) (\<lambda>row.
                    sql_eq (lr_epoch row) (PyInt (ol_epoch l))
                    \<and> sql_eq (lr_token row) (PyStr (ol_token l))
                    \<and> sql_eq (lr_expires_at row) (PyFloat (Finite (ol_expires_at l))))
               then Inr (False, j)
               else let j = j\<lparr>jn_leases := AList.delete key (jn_leases j)\<rparr> in
                 rbind (read_epoch_row j (ol_resource_kind l) (ol_resource_id l)) (\<lambda>tombstone.
                   case tombstone of
                     Some (epoch, _, _) \<Rightarrow>
                       if epoch \<noteq> ol_epoch l
                       then Inl (OwnershipError ''owner lease epoch tombstone is missing'')
                       else Inr (True, j\<lparr>jn_epochs := AList.update key
                              \<lparr>er_epoch = PyInt epoch, er_released_epoch = PyInt (ol_epoch l),
                               er_released_token = PyStr (ol_token l)\<rparr> (jn_epochs j)\<rparr>)
                   | None \<Rightarrow> Inl (OwnershipError ''owner lease epoch tombstone is missing''))
           | None \<Rightarrow>
               rbind (read_epoch_row j (ol_resource_kind l) (ol_resource_id l)) (\<lambda>tombstone.
                 Inr (tombstone = Some (ol_epoch l, Some (ol_epoch l), Some (ol_token l)), j)))))"

definition jr_takeover ::
  "storage \<Rightarrow> journal \<Rightarrow> takeover_proof option \<Rightarrow> pyval \<Rightarrow> pyval \<Rightarrow> pyval \<Rightarrow> (owner_lease \<times> journal) res" where
  "jr_takeover st j proof new_owner_id lease_seconds resource_id =
     Inl (TakeoverDenied ''automatic takeover requires external fencing and replicated proof; the SQLite journal is single-host'')"

section \<open>Steps and invariant\<close>

inductive jr_step ::
  "(string \<Rightarrow> string) \<Rightarrow> (rat \<Rightarrow> string) \<Rightarrow> (rat \<Rightarrow> pyfloat) \<Rightarrow> journal \<Rightarrow> lease_event \<Rightarrow> journal \<Rightarrow> bool"
  for sha fhex nextafter where
  jstep_acquire: "jr_acquire st j k r w ttl clk tok = Inr (l, j') \<Longrightarrow> j' \<noteq> j \<Longrightarrow>
    jr_step sha fhex nextafter j (Issued l) j'"
| jstep_reacquire: "jr_acquire st j k r w ttl clk tok = Inr (l, j) \<Longrightarrow>
    jr_step sha fhex nextafter j (Renewed l) j"
| jstep_renew: "jr_renew sha fhex nextafter st j lo ttl clk = Inr (l, j') \<Longrightarrow>
    jr_step sha fhex nextafter j (Renewed l) j'"
| jstep_release: "jr_release st j (Some l) = Inr (True, j') \<Longrightarrow>
    jr_step sha fhex nextafter j (Released l) j'"

definition jr_accepts :: "journal \<Rightarrow> storage \<times> pyval \<Rightarrow> owner_lease \<Rightarrow> bool" where
  "jr_accepts j c l =
     (case jr_validate (fst c) j (Some l) (snd c) of Inr (d, _) \<Rightarrow> od_allowed d | Inl _ \<Rightarrow> False)"

definition jr_epoch_of :: "journal \<Rightarrow> lease_key \<Rightarrow> int" where
  "jr_epoch_of j k =
     (case k of (kind, rid, c) \<Rightarrow>
        (case map_of (jn_epochs j) (c, kind, rid) of
           None \<Rightarrow> 0
         | Some row \<Rightarrow> (case er_epoch row of PyInt e \<Rightarrow> e | _ \<Rightarrow> 0)))"

definition row_key_of :: "owner_lease \<Rightarrow> row_key" where
  "row_key_of l = (ol_cluster_id l, ol_resource_kind l, ol_resource_id l)"

definition opt_text :: "string option \<Rightarrow> pyval" where
  "opt_text t = (case t of None \<Rightarrow> PyNone | Some s \<Rightarrow> PyStr s)"

definition epoch_row_ok :: "epoch_row \<Rightarrow> bool" where
  "epoch_row_ok row = (bounded_int 0 max_epoch (er_epoch row)
     \<and> (er_released_epoch row = PyNone \<or> bounded_int 1 max_epoch (er_released_epoch row))
     \<and> (\<exists>t. er_released_token row = opt_text t))"

definition lease_row_ok :: "journal \<Rightarrow> row_key \<Rightarrow> lease_row \<Rightarrow> bool" where
  "lease_row_ok j k row = (\<exists>l rk er. row = lease_to_row l (opt_text rk) \<and> wf_lease l \<and> row_key_of l = k
     \<and> map_of (jn_epochs j) k = Some er \<and> er_epoch er = PyInt (ol_epoch l))"

definition jr_inv :: "journal \<Rightarrow> bool" where
  "jr_inv j = (dict_ok (jn_epochs j) \<and> dict_ok (jn_leases j)
     \<and> (\<forall>k row. map_of (jn_epochs j) k = Some row \<longrightarrow> epoch_row_ok row)
     \<and> (\<forall>k row. map_of (jn_leases j) k = Some row \<longrightarrow> lease_row_ok j k row))"

lemma jr_transaction_Inr [run_simps]:
  "jr_transaction st j body = Inr x \<longleftrightarrow> st = Storage_ok \<and> body j = Inr x"
  by (cases st) (auto simp: jr_transaction_def)

lemma jr_now_Inr: "jr_now clk = Inr x \<longleftrightarrow> own_now clk = Inr x"
  by (auto simp: jr_now_def own_now_def split: pyval.splits pyfloat.splits sum.splits)

lemma jr_scope_Inr [run_simps]:
  "jr_scope j k r w = Inr (kind, rid, owner) \<longleftrightarrow> k = PyStr kind \<and> r = PyStr rid \<and> w = PyStr owner
     \<and> identity_match (jn_cluster_id j) \<and> kind \<in> set resource_kinds \<and> identity_match rid
     \<and> identity_match owner"
proof -
  have "identity_match ''probe''" by code_simp
  then show ?thesis
    by (auto simp: jr_scope_def mk_owner_lease_def run_simps own_expires_at_def)
qed

lemma mk_owner_lease_wf:
  "wf_lease l \<Longrightarrow> mk_owner_lease (PyStr (ol_cluster_id l)) (PyStr (ol_resource_kind l))
     (PyStr (ol_resource_id l)) (PyStr (ol_owner_id l)) (PyInt (ol_epoch l)) (PyStr (ol_token l))
     (PyFloat (Finite x)) = Inr (l\<lparr>ol_expires_at := x\<rparr>)"
  by (cases l) (simp add: wf_lease_def mk_owner_lease_def own_identity_def own_resource_kind_def
      own_epoch_def own_expires_at_def)

lemma row_roundtrip: "wf_lease l \<Longrightarrow> row_to_lease (row_key_of l) (lease_to_row l v) = Inr l"
  by (simp add: row_to_lease_def row_key_of_def lease_to_row_def mk_owner_lease_wf)

lemma jr_inv_leaseD:
  assumes "jr_inv j" "map_of (jn_leases j) k = Some row"
  obtains l rk where "row = lease_to_row l (opt_text rk)" "wf_lease l" "row_key_of l = k"
    "jr_epoch_of j (lease_key l) = ol_epoch l"
proof -
  have "lease_row_ok j k row"
    using assms unfolding jr_inv_def by blast
  then show ?thesis
    using that by (auto simp: lease_row_ok_def jr_epoch_of_def lease_key_def row_key_of_def)
qed

lemma load_lease_row:
  assumes "wf_lease l" "row_key_of l = (jn_cluster_id j, kind, rid)"
    and "map_of (jn_leases j) (jn_cluster_id j, kind, rid) = Some (lease_to_row l (opt_text rk))"
  shows "load_lease j kind rid = Inr (Some (l, rk))"
  using row_roundtrip[OF assms(1), of "opt_text rk"] assms(2,3)
  by (cases rk) (simp_all add: load_lease_def opt_text_def lease_to_row_def)

lemma load_lease_cases [consumes 1]:
  assumes "jr_inv j"
  obtains (none) "map_of (jn_leases j) (jn_cluster_id j, kind, rid) = None"
      "load_lease j kind rid = Inr None"
    | (some) l rk where
      "map_of (jn_leases j) (jn_cluster_id j, kind, rid) = Some (lease_to_row l (opt_text rk))"
      "load_lease j kind rid = Inr (Some (l, rk))" "wf_lease l"
      "row_key_of l = (jn_cluster_id j, kind, rid)" "jr_epoch_of j (lease_key l) = ol_epoch l"
proof (cases "map_of (jn_leases j) (jn_cluster_id j, kind, rid)")
  case None
  then show ?thesis by (auto simp: load_lease_def intro: none)
next
  case (Some row)
  obtain l rk where l: "row = lease_to_row l (opt_text rk)" "wf_lease l"
      "row_key_of l = (jn_cluster_id j, kind, rid)" "jr_epoch_of j (lease_key l) = ol_epoch l"
    by (rule jr_inv_leaseD[OF assms Some])
  then have "load_lease j kind rid = Inr (Some (l, rk))"
    using Some by (intro load_lease_row) simp_all
  then show ?thesis by (rule some[OF Some[unfolded l(1)] _ l(2-4)])
qed

lemma read_epoch_row_inv:
  assumes "jr_inv j"
  shows "(map_of (jn_epochs j) (jn_cluster_id j, kind, rid) = None \<and> read_epoch_row j kind rid = Inr None
      \<and> jr_epoch_of j (kind, rid, jn_cluster_id j) = 0)
    \<or> (\<exists>re rt row. map_of (jn_epochs j) (jn_cluster_id j, kind, rid) = Some row
        \<and> er_epoch row = PyInt (jr_epoch_of j (kind, rid, jn_cluster_id j))
        \<and> read_epoch_row j kind rid = Inr (Some (jr_epoch_of j (kind, rid, jn_cluster_id j), re, rt))
        \<and> er_released_epoch row = (case re of None \<Rightarrow> PyNone | Some n \<Rightarrow> PyInt n)
        \<and> er_released_token row = opt_text rt)"
proof (cases "map_of (jn_epochs j) (jn_cluster_id j, kind, rid)")
  case None
  then show ?thesis by (simp add: read_epoch_row_def jr_epoch_of_def)
next
  case (Some row)
  then have "epoch_row_ok row"
    using assms unfolding jr_inv_def by blast
  then obtain e re rt where row: "er_epoch row = PyInt e" "0 \<le> e" "e \<le> max_epoch"
    "er_released_epoch row = (case re of None \<Rightarrow> PyNone | Some n \<Rightarrow> PyInt n)"
    "re \<noteq> None \<longrightarrow> 1 \<le> the re \<and> the re \<le> max_epoch" "er_released_token row = opt_text rt"
    unfolding epoch_row_ok_def bounded_int_iff
    by (metis (mono_tags) option.case(1) option.case(2) option.sel)
  have "read_epoch_row j kind rid = Inr (Some (e, re, rt))"
    using Some row by (cases re; cases rt) (auto simp: read_epoch_row_def opt_text_def)
  moreover have "jr_epoch_of j (kind, rid, jn_cluster_id j) = e"
    using Some row by (simp add: jr_epoch_of_def)
  ultimately show ?thesis
    using Some row by blast
qed

lemma new_epoch_Inr:
  assumes "jr_inv j" "new_epoch j kind rid ce = Inr (e, j')"
  shows "e = jr_epoch_of j (kind, rid, jn_cluster_id j) + 1 \<and> 1 \<le> e \<and> e \<le> max_epoch
    \<and> j' = j\<lparr>jn_epochs := AList.update (jn_cluster_id j, kind, rid)
            \<lparr>er_epoch = PyInt e, er_released_epoch = PyNone, er_released_token = PyNone\<rparr> (jn_epochs j)\<rparr>"
  using read_epoch_row_inv[OF assms(1), of kind rid] assms(2)
  by (auto simp: new_epoch_def next_epoch_def split: if_splits)

definition live_epoch :: "int \<Rightarrow> epoch_row" where
  "live_epoch e = \<lparr>er_epoch = PyInt e, er_released_epoch = PyNone, er_released_token = PyNone\<rparr>"

definition issue_row :: "journal \<Rightarrow> owner_lease \<Rightarrow> journal" where
  "issue_row j l = j\<lparr>jn_epochs := AList.update (row_key_of l) (live_epoch (ol_epoch l)) (jn_epochs j),
     jn_leases := AList.update (row_key_of l) (lease_to_row l PyNone) (jn_leases j)\<rparr>"

lemma jr_acquire_Inr:
  assumes "jr_inv j" "jr_acquire st j kv rv wv ttl clk tok = Inr (l, j')"
  shows "st = Storage_ok \<and> (\<exists>now ttl'. own_now clk = Inr now \<and> ttl = PyInt ttl'
    \<and> ol_cluster_id l = jn_cluster_id j \<and> wf_lease l
    \<and> kv = PyStr (ol_resource_kind l) \<and> rv = PyStr (ol_resource_id l) \<and> wv = PyStr (ol_owner_id l)
    \<and> (j' = j \<and> now < ol_expires_at l
         \<and> (\<exists>rk. map_of (jn_leases j) (row_key_of l) = Some (lease_to_row l (opt_text rk)))
       \<or> j' = issue_row j l \<and> ol_epoch l = jr_epoch_of j (lease_key l) + 1
         \<and> ol_expires_at l = now + of_int ttl' \<and> ol_token l = tok \<and> now < ol_expires_at l
         \<and> (\<forall>cur rk. map_of (jn_leases j) (row_key_of l) = Some (lease_to_row cur rk)
              \<longrightarrow> ol_expires_at cur \<le> now)))"
proof -
  from assms(2) obtain kind rid owner ttl' now loaded where
    pre: "st = Storage_ok" "jr_scope j kv rv wv = Inr (kind, rid, owner)"
      "own_lease_seconds ttl = Inr ttl'" "jr_now clk = Inr now" "load_lease j kind rid = Inr loaded"
    by (auto simp: jr_acquire_def jr_transaction_Inr)
  note scope = pre(2)[unfolded jr_scope_Inr] and ttl = pre(3)[unfolded own_lease_seconds_Inr]
    and now = pre(4)[unfolded jr_now_Inr]
  note unf = assms(2)[unfolded jr_acquire_def pre(2-3) rbind_simps jr_transaction_Inr Let_def prod.case]
  show ?thesis
  proof (rule load_lease_cases[OF assms(1), of kind rid])
    assume none: "map_of (jn_leases j) (jn_cluster_id j, kind, rid) = None" "load_lease j kind rid = Inr None"
    with unf pre(1,4) scope ttl now show ?thesis
      by (auto simp: issue_row_def live_epoch_def row_key_of_def lease_key_def split: if_splits
          dest!: new_epoch_Inr[OF assms(1)] mk_owner_lease_Inr)
  next
    fix cur rk
    assume some: "map_of (jn_leases j) (jn_cluster_id j, kind, rid) = Some (lease_to_row cur (opt_text rk))"
      "load_lease j kind rid = Inr (Some (cur, rk))" "wf_lease cur"
      "row_key_of cur = (jn_cluster_id j, kind, rid)" "jr_epoch_of j (lease_key cur) = ol_epoch cur"
    show ?thesis
    proof (cases "now < ol_expires_at cur")
      case True
      with unf pre(1,4) scope now ttl some show ?thesis
        by (auto simp: row_key_of_def split: if_splits)
    next
      case False
      with unf pre(1,4) scope now ttl some show ?thesis
        by (auto simp: issue_row_def live_epoch_def row_key_of_def lease_key_def lease_to_row_def
            split: if_splits dest!: new_epoch_Inr[OF assms(1)] mk_owner_lease_Inr)
    qed
  qed
qed

lemma jr_decision_allowed:
  "od_allowed (jr_decision l (Some cur) (Some t)) \<longleftrightarrow> ol_epoch cur = ol_epoch l
     \<and> ol_owner_id cur = ol_owner_id l \<and> ol_token cur = ol_token l \<and> t < ol_expires_at cur"
  by (auto simp: jr_decision_def)

lemma jr_validate_allowed:
  assumes "jr_inv j" "jr_accepts j (st, clk) l"
  obtains cur rk now where "st = Storage_ok" "own_now clk = Inr now"
    "ol_cluster_id l = jn_cluster_id j" "row_key_of cur = row_key_of l" "now < ol_expires_at cur"
    "map_of (jn_leases j) (row_key_of l) = Some (lease_to_row cur (opt_text rk))"
    "wf_lease cur" "jr_epoch_of j (lease_key l) = ol_epoch l" "ol_epoch cur = ol_epoch l"
    "ol_owner_id cur = ol_owner_id l" "ol_token cur = ol_token l"
proof -
  from assms(2) obtain d where "jr_validate st j (Some l) clk = Inr (d, j)" "od_allowed d"
    by (auto simp: jr_accepts_def jr_validate_def jr_transaction_Inr split: sum.splits if_splits option.splits)
  note acc = this
  from assms(1) show ?thesis
  proof (cases rule: load_lease_cases[where kind = "ol_resource_kind l" and rid = "ol_resource_id l"])
    case none
    with acc show ?thesis
      by (auto simp: jr_validate_def jr_transaction_Inr split: if_splits)
  next
    case (some cur rk)
    with acc obtain now where "st = Storage_ok" "own_now clk = Inr now" "ol_cluster_id l = jn_cluster_id j"
      "od_allowed (jr_decision l (Some cur) (Some now))"
      by (auto simp: jr_validate_def jr_transaction_Inr jr_now_Inr split: if_splits)
    with some show ?thesis
      by (intro that[of now cur rk]) (auto simp: jr_decision_allowed row_key_of_def lease_key_def)
  qed
qed

definition extend_row :: "journal \<Rightarrow> owner_lease \<Rightarrow> string \<Rightarrow> journal" where
  "extend_row j l key = j\<lparr>jn_leases := AList.update (row_key_of l) (lease_to_row l (PyStr key)) (jn_leases j)\<rparr>"

lemma jr_renew_Inr:
  assumes "jr_inv j" "jr_renew sha fhex nextafter st j lo ttl clk = Inr (l, j')"
  obtains l0 cur rk ttl' t key where "lo = Some l0" "st = Storage_ok" "ttl = PyInt ttl'" "1 \<le> ttl'"
    "renew_request_key sha fhex l0 ttl' = Inr key" "own_now clk = Inr t" "t < ol_expires_at cur"
    "map_of (jn_leases j) (row_key_of l) = Some (lease_to_row cur (opt_text rk))"
    "wf_lease cur" "row_key_of cur = row_key_of l" "ol_cluster_id l = jn_cluster_id j"
    "ol_epoch cur = jr_epoch_of j (lease_key l)" "ol_epoch cur = ol_epoch l0"
    "ol_owner_id cur = ol_owner_id l0" "ol_token cur = ol_token l0" "row_key_of l0 = row_key_of l"
    "rk = Some key \<and> l = cur \<and> j' = j
     \<or> rk \<noteq> Some key \<and> ol_epoch l = ol_epoch cur \<and> ol_owner_id l = ol_owner_id cur
       \<and> ol_token l = ol_token cur \<and> j' = extend_row j l key \<and> wf_lease l
       \<and> (if t + of_int ttl' \<le> ol_expires_at cur then nextafter (ol_expires_at cur) = Finite (ol_expires_at l)
          else ol_expires_at l = t + of_int ttl')"
proof -
  from assms(2) obtain l0 ttl' key where
    pre: "lo = Some l0" "st = Storage_ok" "ttl = PyInt ttl'" "1 \<le> ttl'" "ol_cluster_id l0 = jn_cluster_id j"
      "own_lease_seconds ttl = Inr ttl'" "renew_request_key sha fhex l0 ttl' = Inr key"
    by (auto simp: jr_renew_def run_simps split: option.splits if_splits)
  note unf = assms(2)[unfolded jr_renew_def pre(1,6)] pre(2,7)
  from assms(1) show ?thesis
  proof (cases rule: load_lease_cases[where kind = "ol_resource_kind l0" and rid = "ol_resource_id l0"])
    case none
    with unf pre(5) show ?thesis by (simp add: jr_decision_def jr_transaction_Inr)
  next
    case (some cur rk)
    from unf some(2) pre(5) obtain t where t: "jr_now clk = Inr t"
      "od_allowed (jr_decision l0 (Some cur) (Some t))"
      by (auto simp: jr_transaction_Inr Let_def split: if_splits)
    have row: "row_matches (Some (lease_to_row cur (opt_text rk))) (\<lambda>row.
                    sql_eq (lr_epoch row) (PyInt (ol_epoch cur))
                    \<and> sql_eq (lr_owner_id row) (PyStr (ol_owner_id cur))
                    \<and> sql_eq (lr_token row) (PyStr (ol_token cur))
                    \<and> sql_eq (lr_expires_at row) (PyFloat (Finite (ol_expires_at cur))))"
      by (simp add: row_matches_def lease_to_row_def sql_eq_def)
    note dec = t(2)[unfolded jr_decision_allowed]
    have keys: "row_key_of l0 = row_key_of cur" "lease_key l0 = lease_key cur"
      using some(4) pre(5) by (auto simp: row_key_of_def lease_key_def)
    show ?thesis
    proof (cases "rk = Some key")
      case True
      with unf some(2) pre(5) t have eq: "l = cur" "j' = j" by (simp_all add: jr_transaction_Inr)
      show ?thesis
        by (rule that[OF pre(1-4,7), of t cur rk])
          (use True t(1) dec some keys in \<open>simp_all add: eq jr_now_Inr row_key_of_def\<close>)
    next
      case False
      with unf some(1,2) pre(5) t row obtain x where
        x: "if t + of_int ttl' \<le> ol_expires_at cur then nextafter (ol_expires_at cur) = Finite x
            else x = t + of_int ttl'"
          "l = cur\<lparr>ol_expires_at := x\<rparr>"
          "j' = j\<lparr>jn_leases := AList.update (row_key_of cur) (lease_to_row l (PyStr key)) (jn_leases j)\<rparr>"
        by (auto simp: jr_transaction_Inr some(4) mk_owner_lease_wf[OF some(3)] split: if_splits pyfloat.splits)
      have same: "row_key_of l = row_key_of cur" "lease_key l = lease_key cur" "wf_lease l"
        "ol_cluster_id l = jn_cluster_id j" "ol_expires_at l = x"
        "ol_epoch l = ol_epoch cur" "ol_owner_id l = ol_owner_id cur" "ol_token l = ol_token cur"
        using some(3,4) by (auto simp: x(2) row_key_of_def lease_key_def wf_lease_def)
      show ?thesis
        by (rule that[OF pre(1-4,7), of t cur rk])
          (use False t(1) dec some same x(1,3) keys in \<open>simp_all add: jr_now_Inr extend_row_def\<close>)
    qed
  qed
qed

definition release_row :: "journal \<Rightarrow> owner_lease \<Rightarrow> journal" where
  "release_row j l = j\<lparr>jn_leases := AList.delete (row_key_of l) (jn_leases j),
     jn_epochs := AList.update (row_key_of l) \<lparr>er_epoch = PyInt (ol_epoch l),
       er_released_epoch = PyInt (ol_epoch l), er_released_token = PyStr (ol_token l)\<rparr> (jn_epochs j)\<rparr>"

lemma read_epoch_row_leases [simp]:
  "read_epoch_row (j\<lparr>jn_leases := x\<rparr>) kind rid = read_epoch_row j kind rid"
  by (simp add: read_epoch_row_def)

lemma jr_release_Inr:
  assumes "jr_inv j" "jr_release st j (Some l) = Inr (True, j')"
  obtains (deleted) rk where "st = Storage_ok" "ol_cluster_id l = jn_cluster_id j"
      "map_of (jn_leases j) (row_key_of l) = Some (lease_to_row l (opt_text rk))" "wf_lease l"
      "jr_epoch_of j (lease_key l) = ol_epoch l" "j' = release_row j l"
    | (replayed) "j' = j" "st = Storage_ok" "ol_cluster_id l = jn_cluster_id j"
      "map_of (jn_leases j) (row_key_of l) = None"
proof -
  from assms(1) show ?thesis
  proof (cases rule: load_lease_cases[where kind = "ol_resource_kind l" and rid = "ol_resource_id l"])
  case none
  with assms(2) show ?thesis
    by (intro replayed) (auto simp: jr_release_def jr_transaction_Inr row_key_of_def split: if_splits)
next
  case (some cur rk)
  have "cur = l"
    using assms(2) some by (auto simp: jr_release_def jr_transaction_Inr Let_def split: if_splits)
  moreover have "row_matches (Some (lease_to_row l (opt_text rk))) (\<lambda>row.
                    sql_eq (lr_epoch row) (PyInt (ol_epoch l))
                    \<and> sql_eq (lr_token row) (PyStr (ol_token l))
                    \<and> sql_eq (lr_expires_at row) (PyFloat (Finite (ol_expires_at l))))"
    by (simp add: row_matches_def lease_to_row_def sql_eq_def)
  ultimately show ?thesis
    using assms(2) some read_epoch_row_inv[OF assms(1), of "ol_resource_kind l" "ol_resource_id l"]
    by (intro deleted[of rk])
      (auto simp: jr_release_def jr_transaction_Inr release_row_def row_key_of_def Let_def lease_key_def
        split: if_splits)
qed
qed

text \<open>An operation changes the rows of one key; the invariant then only has to be checked there.\<close>

lemma jr_inv_at_key:
  assumes "jr_inv j" "dict_ok (jn_epochs j')" "dict_ok (jn_leases j')"
    and "\<And>k. k \<noteq> key \<Longrightarrow> map_of (jn_epochs j') k = map_of (jn_epochs j) k"
    and "\<And>k. k \<noteq> key \<Longrightarrow> map_of (jn_leases j') k = map_of (jn_leases j) k"
    and "\<And>row. map_of (jn_epochs j') key = Some row \<Longrightarrow> epoch_row_ok row"
    and "\<And>row. map_of (jn_leases j') key = Some row \<Longrightarrow> lease_row_ok j' key row"
  shows "jr_inv j'"
  unfolding jr_inv_def
proof (intro conjI allI impI assms(2,3))
  fix k row assume "map_of (jn_epochs j') k = Some row"
  then show "epoch_row_ok row"
    using assms(1,4,6) unfolding jr_inv_def by (cases "k = key") (blast, metis)
next
  fix k row assume row: "map_of (jn_leases j') k = Some row"
  show "lease_row_ok j' k row"
  proof (cases "k = key")
    case False
    then have "lease_row_ok j k row"
      using assms(1,5) row unfolding jr_inv_def by metis
    with False show ?thesis by (simp add: lease_row_ok_def assms(4))
  qed (use row assms(7) in simp)
qed

lemma jr_inv_dict: "jr_inv j \<Longrightarrow> dict_ok (jn_epochs j) \<and> dict_ok (jn_leases j)"
  by (simp add: jr_inv_def)

lemma jr_inv_epochD: "jr_inv j \<Longrightarrow> map_of (jn_epochs j) k = Some row \<Longrightarrow> epoch_row_ok row"
  unfolding jr_inv_def by blast

lemma opt_text_simps [simp]: "opt_text None = PyNone" "opt_text (Some s) = PyStr s"
  by (simp_all add: opt_text_def)

lemma lease_row_okI:
  "wf_lease l \<Longrightarrow> map_of (jn_epochs j) (row_key_of l) = Some er \<Longrightarrow> er_epoch er = PyInt (ol_epoch l) \<Longrightarrow>
     lease_row_ok j (row_key_of l) (lease_to_row l (opt_text rk))"
  unfolding lease_row_ok_def by blast

lemma epoch_row_okI [inv_intros]:
  "1 \<le> e \<Longrightarrow> e \<le> max_epoch \<Longrightarrow> epoch_row_ok (live_epoch e)"
  "1 \<le> e \<Longrightarrow> e \<le> max_epoch \<Longrightarrow> epoch_row_ok \<lparr>er_epoch = PyInt e, er_released_epoch = PyInt e,
     er_released_token = PyStr t\<rparr>"
  by (auto simp: epoch_row_ok_def live_epoch_def bounded_int_def intro: exI[of _ None] exI[of _ "Some t"])

lemma jr_inv_issue [inv_intros]:
  assumes "jr_inv j" "wf_lease l"
  shows "jr_inv (issue_row j l)"
proof (rule jr_inv_at_key[OF assms(1), where key = "row_key_of l"])
  fix row assume "map_of (jn_leases (issue_row j l)) (row_key_of l) = Some row"
  then show "lease_row_ok (issue_row j l) (row_key_of l) row"
    using lease_row_okI[OF assms(2), of "issue_row j l" "live_epoch (ol_epoch l)" None]
    by (simp add: issue_row_def dict_simps live_epoch_def)
qed (use assms in \<open>auto simp: issue_row_def dict_simps pydict.ok_put jr_inv_dict wf_lease_def
      intro!: inv_intros\<close>)

lemma jr_inv_extend [inv_intros]:
  assumes "jr_inv j" "wf_lease l" "map_of (jn_leases j) (row_key_of l) = Some (lease_to_row cur rk)"
    and "ol_epoch cur = ol_epoch l"
  shows "jr_inv (extend_row j l key)"
proof (rule jr_inv_at_key[OF assms(1), where key = "row_key_of l"])
  fix row assume row: "map_of (jn_leases (extend_row j l key)) (row_key_of l) = Some row"
  have "lease_row_ok j (row_key_of l) (lease_to_row cur rk)"
    using assms(1,3) unfolding jr_inv_def by blast
  then obtain er where "map_of (jn_epochs j) (row_key_of l) = Some er" "er_epoch er = PyInt (ol_epoch l)"
    using assms(4) by (auto simp: lease_row_ok_def lease_to_row_def)
  then show "lease_row_ok (extend_row j l key) (row_key_of l) row"
    using lease_row_okI[OF assms(2), of "extend_row j l key" er "Some key"] row
    by (simp add: extend_row_def dict_simps)
next
  fix row assume "map_of (jn_epochs (extend_row j l key)) (row_key_of l) = Some row"
  then show "epoch_row_ok row"
    using jr_inv_epochD[OF assms(1), of "row_key_of l" row] by (simp add: extend_row_def)
qed (use assms in \<open>auto simp: extend_row_def dict_simps pydict.ok_put jr_inv_dict\<close>)

lemma jr_inv_release [inv_intros]:
  assumes "jr_inv j" "wf_lease l"
  shows "jr_inv (release_row j l)"
  by (rule jr_inv_at_key[OF assms(1), where key = "row_key_of l"])
    (use assms in \<open>auto simp: release_row_def dict_simps pydict.ok_put pydict.ok_rem jr_inv_dict
      wf_lease_def intro!: inv_intros\<close>)

lemma row_key_lease_key: "row_key_of l = row_key_of m \<longleftrightarrow> lease_key l = lease_key m"
  by (auto simp: row_key_of_def lease_key_def)

lemma jr_epoch_of_issue: "jr_epoch_of (issue_row j l) = (jr_epoch_of j)(lease_key l := ol_epoch l)"
  by (auto simp: jr_epoch_of_def issue_row_def live_epoch_def dict_simps row_key_of_def lease_key_def fun_eq_iff)

lemma jr_epoch_of_extend: "jr_epoch_of (extend_row j l key) = jr_epoch_of j"
  by (simp add: jr_epoch_of_def extend_row_def fun_eq_iff)

lemma jr_epoch_of_release:
  "jr_epoch_of j (lease_key l) = ol_epoch l \<Longrightarrow> jr_epoch_of (release_row j l) = jr_epoch_of j"
  by (auto simp: jr_epoch_of_def release_row_def dict_simps row_key_of_def lease_key_def fun_eq_iff)

lemma jr_renew_step:
  assumes "jr_inv j" "jr_renew sha fhex nextafter st j lo ttl clk = Inr (l, j')"
  shows "jr_inv j' \<and> jr_epoch_of j' = jr_epoch_of j"
proof (rule jr_renew_Inr[OF assms])
  fix cur rk key t ttl'
  assume cur: "map_of (jn_leases j) (row_key_of l) = Some (lease_to_row cur (opt_text rk))"
    and new: "rk = Some key \<and> l = cur \<and> j' = j
     \<or> rk \<noteq> Some key \<and> ol_epoch l = ol_epoch cur \<and> ol_owner_id l = ol_owner_id cur
       \<and> ol_token l = ol_token cur \<and> j' = extend_row j l key \<and> wf_lease l
       \<and> (if t + of_int ttl' \<le> ol_expires_at cur then nextafter (ol_expires_at cur) = Finite (ol_expires_at l)
          else ol_expires_at l = t + of_int ttl')"
  from new show ?thesis
  proof (elim disjE conjE)
    assume "ol_epoch l = ol_epoch cur" and ext: "j' = extend_row j l key" "wf_lease l"
    then show ?thesis using jr_inv_extend[OF assms(1) ext(2) cur] ext by (simp add: jr_epoch_of_extend)
  qed (use assms(1) in simp)
qed

lemma jr_step_cases:
  assumes "jr_step sha fhex nextafter j e j'" "jr_inv j"
  shows "(\<exists>l. e = Issued l \<and> wf_lease l \<and> j' = issue_row j l
            \<and> ol_epoch l = jr_epoch_of j (lease_key l) + 1)
    \<or> (\<nexists>l. e = Issued l) \<and> jr_inv j' \<and> jr_epoch_of j' = jr_epoch_of j"
  using assms(1)
proof cases
  case (jstep_renew st lo ttl clk l)
  then show ?thesis using jr_renew_step[OF assms(2) jstep_renew(2)] by simp
next
  case (jstep_release st l)
  then show ?thesis
    using assms(2) by (elim jr_release_Inr[OF assms(2)]) (auto simp: jr_epoch_of_release intro: jr_inv_release)
qed (use assms(2) jr_acquire_Inr in blast)+

interpretation jr: lease_authority "jr_step sha fhex nextafter" jr_inv jr_accepts jr_epoch_of
proof unfold_locales
  fix j c l assume "jr_inv j" "jr_accepts j c l"
  then show "ol_epoch l = jr_epoch_of j (lease_key l)"
    by (cases c) (auto elim: jr_validate_allowed)
next
  fix j c d l m
  assume inv: "jr_inv j" and acc: "jr_accepts j c l" "jr_accepts j d m" and key: "lease_key l = lease_key m"
  obtain cur rk where l: "map_of (jn_leases j) (row_key_of l) = Some (lease_to_row cur (opt_text rk))"
    "ol_owner_id cur = ol_owner_id l" "ol_token cur = ol_token l"
    using acc(1) inv by (cases c) (blast elim: jr_validate_allowed)
  obtain cur' rk' where m: "map_of (jn_leases j) (row_key_of m) = Some (lease_to_row cur' (opt_text rk'))"
    "ol_owner_id cur' = ol_owner_id m" "ol_token cur' = ol_token m"
    using acc(2) inv by (cases d) (blast elim: jr_validate_allowed)
  show "ol_owner_id l = ol_owner_id m \<and> ol_token l = ol_token m"
    using l m key by (simp add: row_key_lease_key[THEN iffD2, OF key] lease_to_row_def)
qed (auto dest: jr_step_cases simp: jr_epoch_of_issue intro: jr_inv_issue)

section \<open>The journal refines the in-memory authority\<close>

definition row_lease :: "row_key \<Rightarrow> lease_row \<Rightarrow> owner_lease" where
  "row_lease k row = (case k of (c, kind, rid) \<Rightarrow>
     \<lparr>ol_cluster_id = c, ol_resource_kind = kind, ol_resource_id = rid,
      ol_owner_id = (case lr_owner_id row of PyStr w \<Rightarrow> w | _ \<Rightarrow> []),
      ol_epoch = (case lr_epoch row of PyInt e \<Rightarrow> e | _ \<Rightarrow> 0),
      ol_token = (case lr_token row of PyStr t \<Rightarrow> t | _ \<Rightarrow> []),
      ol_expires_at = (case sql_num (lr_expires_at row) of Some x \<Rightarrow> x | None \<Rightarrow> 0)\<rparr>)"

definition turn_key :: "row_key \<Rightarrow> lease_key" where
  "turn_key k = (case k of (c, kind, rid) \<Rightarrow> (kind, rid, c))"

definition jr_abs :: "journal \<Rightarrow> authority" where
  "jr_abs j = \<lparr>au_cluster_id = jn_cluster_id j, au_max_resources = jn_max_resources j,
     au_leases = map (\<lambda>(k, row). (turn_key k, row_lease k row)) (jn_leases j),
     au_epochs = map (\<lambda>(k, row). (turn_key k, case er_epoch row of PyInt e \<Rightarrow> e | _ \<Rightarrow> 0)) (jn_epochs j)\<rparr>"

lemma turn_key_eq [simp]: "turn_key k = turn_key k' \<longleftrightarrow> k = k'"
  by (cases k; cases k') (auto simp: turn_key_def)

lemma turn_row_key [simp]: "turn_key (row_key_of l) = lease_key l"
  by (simp add: turn_key_def row_key_of_def lease_key_def)

lemma map_of_turn: "map_of (map (\<lambda>(k, v). (turn_key k, g k v)) d) (turn_key k) = map_option (g k) (map_of d k)"
  by (induction d) auto

lemma update_turn: "map (\<lambda>(k, v). (turn_key k, g k v)) (AList.update k v d)
    = AList.update (turn_key k) (g k v) (map (\<lambda>(k, v). (turn_key k, g k v)) d)"
  by (induction d) auto

lemma row_lease_to_row [simp]: "row_lease (row_key_of l) (lease_to_row l v) = l"
  by (cases l) (simp add: row_lease_def row_key_of_def lease_to_row_def sql_num_def)

lemma jr_abs_lease:
  "map_of (au_leases (jr_abs j)) (lease_key l) = map_option (row_lease (row_key_of l)) (map_of (jn_leases j) (row_key_of l))"
  unfolding turn_row_key[symmetric] by (simp add: jr_abs_def map_of_turn del: turn_row_key)

lemma jr_abs_epoch: "own_epoch_of (jr_abs j) (lease_key l) = jr_epoch_of j (lease_key l)"
proof -
  have "own_epoch_of (jr_abs j) (turn_key (row_key_of l)) = jr_epoch_of j (lease_key l)"
    by (simp only: own_epoch_of_def jr_abs_def authority.simps map_of_turn)
      (simp add: jr_epoch_of_def lease_key_def row_key_of_def split: option.splits)
  then show ?thesis by simp
qed

lemma jr_abs_issue:
  "jr_abs (issue_row j l) = (jr_abs j)\<lparr>au_leases := AList.update (lease_key l) l (au_leases (jr_abs j)),
     au_epochs := AList.update (lease_key l) (ol_epoch l) (au_epochs (jr_abs j))\<rparr>"
  unfolding turn_row_key[symmetric]
  by (simp add: jr_abs_def issue_row_def update_turn live_epoch_def del: turn_row_key)

lemma jr_validate_abs:
  assumes "jr_inv j" "own_now clk = Inr now"
  shows "jr_validate Storage_ok j lo clk = rbind (own_validate (jr_abs j) lo clk) (\<lambda>d. Inr (d, j))"
proof (cases lo)
  case (Some l)
  show ?thesis
  proof (cases "ol_cluster_id l = jn_cluster_id j")
    case True
    from assms(1) show ?thesis
    proof (cases rule: load_lease_cases[where kind = "ol_resource_kind l" and rid = "ol_resource_id l"])
      case none
      then have "map_of (au_leases (jr_abs j)) (lease_key l) = None"
        using True by (simp add: jr_abs_lease row_key_of_def)
      then show ?thesis
        using none True Some
        by (simp add: jr_validate_def own_validate_def jr_transaction_def jr_abs_def)
    next
      case (some cur rk)
      have "row_key_of l = row_key_of cur"
        unfolding some(4) using True by (simp add: row_key_of_def)
      then have "map_of (au_leases (jr_abs j)) (lease_key l) = Some cur"
        using some(1) unfolding some(4)[symmetric] by (simp add: jr_abs_lease)
      then show ?thesis
        using some(2) True Some assms(2)
        by (simp add: jr_validate_def own_validate_def jr_transaction_def jr_abs_def jr_decision_def
            jr_now_Inr[THEN iffD2])
    qed
  qed (simp add: Some jr_validate_def own_validate_def jr_abs_def)
qed (simp add: jr_validate_def own_validate_def)

lemma jr_stored_after_renew:
  assumes "jr_inv j" "jr_renew sha fhex nextafter st j (Some l0) (PyInt ttl) clk = Inr (l, j')"
  shows "\<exists>key. renew_request_key sha fhex l0 ttl = Inr key \<and> wf_lease l
    \<and> map_of (jn_leases j') (row_key_of l) = Some (lease_to_row l (PyStr key))"
proof (rule jr_renew_Inr[OF assms])
  fix l0' cur rk key t ttl'
  assume *: "Some l0 = Some l0'" "PyInt ttl = PyInt ttl'" "renew_request_key sha fhex l0' ttl' = Inr key"
    "map_of (jn_leases j) (row_key_of l) = Some (lease_to_row cur (opt_text rk))" "wf_lease cur"
    "rk = Some key \<and> l = cur \<and> j' = j
     \<or> rk \<noteq> Some key \<and> ol_epoch l = ol_epoch cur \<and> ol_owner_id l = ol_owner_id cur
       \<and> ol_token l = ol_token cur \<and> j' = extend_row j l key \<and> wf_lease l
       \<and> (if t + of_int ttl' \<le> ol_expires_at cur then nextafter (ol_expires_at cur) = Finite (ol_expires_at l)
          else ol_expires_at l = t + of_int ttl')"
  from *(6) show ?thesis
    using *(1-5) by (elim disjE conjE) (simp_all add: extend_row_def dict_simps)
qed

lemma jr_renew_fields:
  assumes "jr_inv j" "jr_renew sha fhex nextafter st j (Some l0) (PyInt ttl) clk = Inr (l, j')"
  shows "row_key_of l = row_key_of l0 \<and> ol_epoch l = ol_epoch l0 \<and> ol_owner_id l = ol_owner_id l0
    \<and> ol_token l = ol_token l0 \<and> ol_cluster_id l = jn_cluster_id j \<and> jn_cluster_id j' = jn_cluster_id j"
proof (rule jr_renew_Inr[OF assms])
  fix l0' cur rk key t ttl'
  assume *: "Some l0 = Some l0'" "ol_cluster_id l = jn_cluster_id j" "ol_epoch cur = ol_epoch l0'"
    "ol_owner_id cur = ol_owner_id l0'" "ol_token cur = ol_token l0'" "row_key_of l0' = row_key_of l"
    "rk = Some key \<and> l = cur \<and> j' = j
     \<or> rk \<noteq> Some key \<and> ol_epoch l = ol_epoch cur \<and> ol_owner_id l = ol_owner_id cur
       \<and> ol_token l = ol_token cur \<and> j' = extend_row j l key \<and> wf_lease l
       \<and> (if t + of_int ttl' \<le> ol_expires_at cur then nextafter (ol_expires_at cur) = Finite (ol_expires_at l)
          else ol_expires_at l = t + of_int ttl')"
  from *(7) show ?thesis
    using *(1-6) by (elim disjE conjE) (simp_all add: extend_row_def)
qed

lemma jr_renew_no_shorter:
  assumes "jr_inv j" "jr_renew sha fhex nextafter st j lo ttl clk = Inr (l, j')"
    and "\<And>x y. nextafter x = Finite y \<Longrightarrow> x < y"
    and "map_of (jn_leases j) (row_key_of l) = Some (lease_to_row cur rk)"
  shows "ol_expires_at cur \<le> ol_expires_at l"
proof (rule jr_renew_Inr[OF assms(1,2)])
  fix cur' rk' key t ttl'
  assume *: "map_of (jn_leases j) (row_key_of l) = Some (lease_to_row cur' (opt_text rk'))"
    "rk' = Some key \<and> l = cur' \<and> j' = j
     \<or> rk' \<noteq> Some key \<and> ol_epoch l = ol_epoch cur' \<and> ol_owner_id l = ol_owner_id cur'
       \<and> ol_token l = ol_token cur' \<and> j' = extend_row j l key \<and> wf_lease l
       \<and> (if t + of_int ttl' \<le> ol_expires_at cur' then nextafter (ol_expires_at cur') = Finite (ol_expires_at l)
          else ol_expires_at l = t + of_int ttl')"
  have "ol_expires_at cur = ol_expires_at cur'"
    using *(1) assms(4) by (simp add: lease_to_row_def)
  then show ?thesis
    using *(2) assms(3)[of "ol_expires_at cur'" "ol_expires_at l"] by (elim disjE conjE) (auto split: if_splits)
qed

lemma jr_renew_stored:
  assumes "renew_request_key sha fhex l0 ttl = Inr key" "wf_lease l" "1 \<le> ttl" "ttl \<le> 900"
    and "map_of (jn_leases j) (row_key_of l) = Some (lease_to_row l (PyStr key))"
    and "row_key_of l = row_key_of l0" "ol_epoch l = ol_epoch l0" "ol_owner_id l = ol_owner_id l0"
    "ol_token l = ol_token l0" "ol_cluster_id l = jn_cluster_id j"
    and "own_now clk = Inr t" "t < ol_expires_at l"
  shows "jr_renew sha fhex nextafter Storage_ok j (Some l0) (PyInt ttl) clk = Inr (l, j)"
proof -
  have "load_lease j (ol_resource_kind l0) (ol_resource_id l0) = Inr (Some (l, Some key))"
    using assms(2,5,6,10) by (intro load_lease_row) (auto simp: row_key_of_def)
  moreover have "od_allowed (jr_decision l0 (Some l) (Some t))"
    using assms by (simp add: jr_decision_allowed)
  moreover have "ol_cluster_id l0 = jn_cluster_id j"
    using assms(6,10) by (simp add: row_key_of_def)
  ultimately show ?thesis
    using assms(1,3,4,11)
    by (simp add: jr_renew_def own_lease_seconds_def jr_transaction_def jr_now_Inr[THEN iffD2])
qed

lemma mk_journal_inv [inv_intros]: "mk_journal c b m = Inr j \<Longrightarrow> jr_inv j"
  by (auto simp: mk_journal_def jr_inv_def)

lemma jr_release_after:
  assumes "jr_inv j" "jr_release Storage_ok j (Some l) = Inr (True, j')"
  shows "jr_release Storage_ok j' (Some l) = Inr (True, j') \<and> map_of (jn_leases j') (row_key_of l) = None"
proof (rule jr_release_Inr[OF assms])
  fix rk
  assume del: "ol_cluster_id l = jn_cluster_id j" "wf_lease l" "j' = release_row j l"
  then have none: "map_of (jn_leases j') (row_key_of l) = None"
    by (simp add: release_row_def dict_simps)
  then have "load_lease j' (ol_resource_kind l) (ol_resource_id l) = Inr None"
    using del by (simp add: load_lease_def row_key_of_def release_row_def)
  moreover have "read_epoch_row j' (ol_resource_kind l) (ol_resource_id l)
      = Inr (Some (ol_epoch l, Some (ol_epoch l), Some (ol_token l)))"
    using del by (simp add: read_epoch_row_def release_row_def dict_simps row_key_of_def wf_lease_def)
  ultimately show ?thesis
    using none del by (simp add: jr_release_def jr_transaction_def release_row_def)
qed (use assms in auto)

section \<open>Properties\<close>

definition demo_journal :: journal where
  "demo_journal = \<lparr>jn_cluster_id = ''c1'', jn_max_resources = 1, jn_epochs = [], jn_leases = []\<rparr>"

definition demo_jlease :: "string \<Rightarrow> string \<Rightarrow> int \<Rightarrow> rat \<Rightarrow> owner_lease" where
  "demo_jlease r w e x = \<lparr>ol_cluster_id = ''c1'', ol_resource_kind = ''job'', ol_resource_id = r,
     ol_owner_id = w, ol_epoch = e, ol_token = ''a0'', ol_expires_at = x\<rparr>"

abbreviation demo_j1 :: journal where
  "demo_j1 \<equiv> issue_row demo_journal (demo_jlease ''r1'' ''n1'' 1 30)"

abbreviation demo_j2 :: journal where
  "demo_j2 \<equiv> issue_row demo_j1 (demo_jlease ''r2'' ''n2'' 1 65)"

abbreviation demo_j3 :: journal where
  "demo_j3 \<equiv> issue_row demo_j2 (demo_jlease ''r1'' ''n3'' 2 66)"

lemma demo_journal_start: "mk_journal (PyStr ''c1'') True (PyInt 1) = Inr demo_journal"
  by code_simp

lemma demo_journal_acquires:
  "jr_acquire Storage_ok demo_journal (PyStr ''job'') (PyStr ''r1'') (PyStr ''n1'') (PyInt 30) (PyInt 0) ''a0''
     = Inr (demo_jlease ''r1'' ''n1'' 1 30, demo_j1)"
  "jr_acquire Storage_ok demo_j1 (PyStr ''job'') (PyStr ''r2'') (PyStr ''n2'') (PyInt 30) (PyInt 35) ''a0''
     = Inr (demo_jlease ''r2'' ''n2'' 1 65, demo_j2)"
  "jr_acquire Storage_ok demo_j2 (PyStr ''job'') (PyStr ''r1'') (PyStr ''n3'') (PyInt 30) (PyInt 36) ''a0''
     = Inr (demo_jlease ''r1'' ''n3'' 2 66, demo_j3)"
  by code_simp+

lemma demo_journal_distinct: "demo_j1 \<noteq> demo_journal" "demo_j2 \<noteq> demo_j1" "demo_j3 \<noteq> demo_j2"
  by code_simp+

lemmas demo_journal_steps =
  jstep_acquire[OF demo_journal_acquires(1) demo_journal_distinct(1)]
  jstep_acquire[OF demo_journal_acquires(2) demo_journal_distinct(2)]
  jstep_acquire[OF demo_journal_acquires(3) demo_journal_distinct(3)]

lemma demo_journal_run: "run_of (jr_step sha fhex nextafter) demo_journal
    [Issued (demo_jlease ''r1'' ''n1'' 1 30), Issued (demo_jlease ''r2'' ''n2'' 1 65),
     Issued (demo_jlease ''r1'' ''n3'' 2 66)] demo_j3"
  by (rule run_Cons, rule demo_journal_steps(1), rule run_Cons, rule demo_journal_steps(2),
      rule run_Cons, rule demo_journal_steps(3), rule run_Nil)

lemma demo_j1_inv: "jr_inv demo_j1"
  by (rule jr.inv_step[OF demo_journal_steps(1) mk_journal_inv[OF demo_journal_start]])

text \<open>
  (C5) Durable epoch fencing. Along every sequence of calls on a new journal, whatever the clock
  and the storage report in each, the leases issued for one resource carry strictly increasing
  epochs, and a lease whose epoch is below the recorded one is rejected at the end.
\<close>

theorem jr_issued_epochs_increase:
  assumes "mk_journal c True m = Inr j" "run_of (jr_step sha fhex nextafter) j es t"
  shows "jr_inv t
    \<and> sorted_wrt (\<lambda>l m. lease_key l = lease_key m \<longrightarrow> ol_epoch l < ol_epoch m) (issued es)
    \<and> (\<forall>l st clk. jr_accepts t (st, clk) l \<longrightarrow> ol_epoch l = jr_epoch_of t (lease_key l))"
proof -
  note inv = mk_journal_inv[OF assms(1)]
  have t: "jr_inv t" by (rule jr.inv_run[OF assms(2) inv])
  show ?thesis
    using t jr.issued_increasing[OF assms(2) inv] jr.accepts_epoch[OF t] by blast
qed

theorem jr_issued_epochs_increase_witness: "jr_inv demo_j3"
  using jr_issued_epochs_increase[OF demo_journal_start demo_journal_run] by blast

text \<open>
  The journal decides like the reference authority. With a readable store and a valid clock,
  validating any lease against the journal gives the decision, with its reason and epoch, that the
  in-memory authority gives on the same leases.
\<close>

theorem jr_validate_refines:
  assumes "jr_inv j" "own_now clk = Inr now"
  shows "jr_validate Storage_ok j lo clk = rbind (own_validate (jr_abs j) lo clk) (\<lambda>d. Inr (d, j))"
  by (rule jr_validate_abs[OF assms])

theorem jr_validate_refines_witness:
  "jr_validate Storage_ok demo_j1 (Some (demo_jlease ''r1'' ''n1'' 1 30)) (PyInt 31)
   = Inr (owner_verdict False ''lease_expired'' (Some 1), demo_j1)"
proof -
  have now: "own_now (PyInt 31) = Inr 31" by code_simp
  have mem: "own_validate (jr_abs demo_j1) (Some (demo_jlease ''r1'' ''n1'' 1 30)) (PyInt 31)
    = Inr (owner_verdict False ''lease_expired'' (Some 1))"
    by code_simp
  show ?thesis
    using jr_validate_refines[OF demo_j1_inv now, of "Some (demo_jlease ''r1'' ''n1'' 1 30)"]
    unfolding mem by simp
qed

text \<open>
  (C13) Acquiring simulates the reference authority. Whenever the journal issues a new lease and
  its table still has room by the reference count, the in-memory authority in the corresponding
  state issues the same lease, and the resulting states correspond.
\<close>

theorem jr_acquire_simulates:
  assumes "jr_inv j" "jr_acquire st j kv rv wv ttl clk tok = Inr (l, j')" "j' \<noteq> j"
    and "map_of (jn_leases j) (row_key_of l) \<noteq> None \<or> int (length (jn_leases j)) < jn_max_resources j"
  shows "own_acquire (jr_abs j) kv rv wv ttl clk tok = Inr (l, jr_abs j')"
proof -
  obtain now ttl' where *: "own_now clk = Inr now" "ttl = PyInt ttl'" "ol_cluster_id l = jn_cluster_id j"
    "wf_lease l" "kv = PyStr (ol_resource_kind l)" "rv = PyStr (ol_resource_id l)" "wv = PyStr (ol_owner_id l)"
    "j' = issue_row j l" "ol_epoch l = jr_epoch_of j (lease_key l) + 1" "ol_expires_at l = now + of_int ttl'"
    "ol_token l = tok"
    "\<And>cur rk. map_of (jn_leases j) (row_key_of l) = Some (lease_to_row cur rk) \<Longrightarrow> ol_expires_at cur \<le> now"
    using jr_acquire_Inr[OF assms(1,2)] assms(3) by blast
  have ttl: "own_lease_seconds ttl = Inr ttl'"
    using assms(2) *(2) by (auto simp: jr_acquire_def own_lease_seconds_def split: if_splits)
  have key: "(ol_resource_kind l, ol_resource_id l, au_cluster_id (jr_abs j)) = lease_key l"
    using *(3) by (simp add: jr_abs_def lease_key_def)
  have busy: "ol_expires_at cur \<le> now" if cur: "map_of (au_leases (jr_abs j)) (lease_key l) = Some cur" for cur
  proof -
    obtain row where row: "map_of (jn_leases j) (row_key_of l) = Some row" "cur = row_lease (row_key_of l) row"
      using cur by (auto simp: jr_abs_lease)
    obtain m rk where "row = lease_to_row m (opt_text rk)" "row_key_of m = row_key_of l"
      by (rule jr_inv_leaseD[OF assms(1) row(1)])
    then show ?thesis
      using row *(12)[of m "opt_text rk"] by (simp flip: \<open>row_key_of m = row_key_of l\<close>)
  qed
  have "make_lease (jr_abs j) (ol_resource_kind l) (ol_resource_id l) (ol_owner_id l) (ol_epoch l) ttl' now tok = Inr l"
  proof -
    have "\<not> (au_max_resources (jr_abs j) \<le> int (length (au_leases (jr_abs j)))
         \<and> map_of (au_leases (jr_abs j)) (lease_key l) = None)"
      using assms(4) by (auto simp: jr_abs_lease) (simp add: jr_abs_def)
    then show ?thesis
      using mk_owner_lease_wf[OF *(4), of "now + of_int ttl'"] *(3,10,11) key
      by (auto simp: make_lease_def jr_abs_def)
  qed
  then show ?thesis
    using *(1,4-7,9) ttl key busy jr_abs_epoch[of j l]
    by (auto simp: own_acquire_def own_identity_def own_resource_kind_def wf_lease_def Let_def
        *(8) jr_abs_issue own_epoch_of_def split: option.splits)
qed

theorem jr_acquire_simulates_witness:
  "own_acquire (jr_abs demo_journal) (PyStr ''job'') (PyStr ''r1'') (PyStr ''n1'') (PyInt 30) (PyInt 0) ''a0''
     = Inr (demo_jlease ''r1'' ''n1'' 1 30, jr_abs demo_j1)"
  by (rule jr_acquire_simulates[OF mk_journal_inv[OF demo_journal_start] demo_journal_acquires(1)
        demo_journal_distinct(1)]) (simp add: demo_journal_def)

text \<open>
  Renewal is idempotent and never shortens a lease. Repeating a renewal request that
  succeeded, while its result is live, returns the same lease and changes nothing; and the expiry
  of a renewed lease is never before the stored one, even when the wall clock has gone back
  (\<open>nextafter\<close> returns a larger double).
\<close>

theorem jr_renew_replay:
  assumes "jr_inv j" "\<And>x y. nextafter x = Finite y \<Longrightarrow> x < y"
    and "jr_renew sha fhex nextafter Storage_ok j (Some l0) (PyInt ttl) clk = Inr (l, j')"
    and "own_now clk2 = Inr t2" "t2 < ol_expires_at l"
  shows "jr_renew sha fhex nextafter Storage_ok j' (Some l0) (PyInt ttl) clk2 = Inr (l, j')
    \<and> (\<forall>cur rk. map_of (jn_leases j) (row_key_of l) = Some (lease_to_row cur rk)
         \<longrightarrow> ol_expires_at cur \<le> ol_expires_at l)"
proof -
  have ttl: "1 \<le> ttl" "ttl \<le> 900"
    using assms(3) by (auto simp: jr_renew_def own_lease_seconds_def split: if_splits)
  obtain key where "renew_request_key sha fhex l0 ttl = Inr key" "wf_lease l"
    "map_of (jn_leases j') (row_key_of l) = Some (lease_to_row l (PyStr key))"
    using jr_stored_after_renew[OF assms(1,3)] by blast
  then have "jr_renew sha fhex nextafter Storage_ok j' (Some l0) (PyInt ttl) clk2 = Inr (l, j')"
    using jr_renew_fields[OF assms(1,3)] assms(4,5) ttl by (intro jr_renew_stored) auto
  then show ?thesis
    using jr_renew_no_shorter[OF assms(1,3,2)] by blast
qed

theorem jr_renew_replay_witness:
  "\<exists>j'. jr_renew (\<lambda>s. ''d'') (\<lambda>x. ''h'') (\<lambda>x. Finite (x + 1)) Storage_ok demo_j1
      (Some (demo_jlease ''r1'' ''n1'' 1 30)) (PyInt 60) (PyInt 5) = Inr (demo_jlease ''r1'' ''n1'' 1 65, j')
    \<and> jr_renew (\<lambda>s. ''d'') (\<lambda>x. ''h'') (\<lambda>x. Finite (x + 1)) Storage_ok j'
      (Some (demo_jlease ''r1'' ''n1'' 1 30)) (PyInt 60) (PyInt 9) = Inr (demo_jlease ''r1'' ''n1'' 1 65, j')"
proof -
  let ?l = "demo_jlease ''r1'' ''n1'' 1 30"
  have wf: "wf_lease ?l" "own_now (PyInt 9) = Inr 9"
    by code_simp+
  have eqs: "renew_request_key (\<lambda>s. ''d'') (\<lambda>x. ''h'') ?l 60 = Inr ''d''"
    by (simp add: renew_request_key_def demo_jlease_def)
  have load: "load_lease demo_j1 (ol_resource_kind ?l) (ol_resource_id ?l) = Inr (Some (?l, None))"
    "jr_now (PyInt 5) = Inr 5" "od_allowed (jr_decision ?l (Some ?l) (Some 5))"
    "ol_cluster_id ?l = jn_cluster_id demo_j1" "ol_expires_at ?l = 30"
    "row_matches (map_of (jn_leases demo_j1) (jn_cluster_id demo_j1, ol_resource_kind ?l, ol_resource_id ?l))
       (\<lambda>row. sql_eq (lr_epoch row) (PyInt (ol_epoch ?l)) \<and> sql_eq (lr_owner_id row) (PyStr (ol_owner_id ?l))
          \<and> sql_eq (lr_token row) (PyStr (ol_token ?l)) \<and> sql_eq (lr_expires_at row) (PyFloat (Finite 30)))"
    by code_simp+
  have upd: "?l\<lparr>ol_expires_at := 65\<rparr> = demo_jlease ''r1'' ''n1'' 1 65"
    by (simp add: demo_jlease_def)
  obtain j' where first: "jr_renew (\<lambda>s. ''d'') (\<lambda>x. ''h'') (\<lambda>x. Finite (x + 1)) Storage_ok demo_j1
      (Some ?l) (PyInt 60) (PyInt 5) = Inr (demo_jlease ''r1'' ''n1'' 1 65, j')"
    using load eqs mk_owner_lease_wf[OF wf(1), of 65] upd
    by (simp add: jr_renew_def jr_transaction_def own_lease_seconds_def)
  show ?thesis
    using jr_renew_replay[OF demo_j1_inv _ first wf(2)] first by (auto simp: demo_jlease_def)
qed

text \<open>
  Release is idempotent and final. Releasing a lease twice reports success twice with the
  same journal, and the released lease is then rejected under every clock reading.
\<close>

theorem jr_release_replay:
  assumes "jr_inv j" "jr_release Storage_ok j (Some l) = Inr (True, j')"
  shows "jr_release Storage_ok j' (Some l) = Inr (True, j') \<and> \<not> jr_accepts j' (st, clk) l"
proof -
  have "jr_inv j'"
    using jr.inv_step[OF jstep_release[OF assms(2)] assms(1)] .
  then show ?thesis
    using jr_release_after[OF assms] by (metis jr_validate_allowed option.distinct(1))
qed

theorem jr_release_replay_witness:
  "\<exists>j'. jr_release Storage_ok demo_j1 (Some (demo_jlease ''r1'' ''n1'' 1 30)) = Inr (True, j')
    \<and> jr_release Storage_ok j' (Some (demo_jlease ''r1'' ''n1'' 1 30)) = Inr (True, j')"
proof -
  have "case jr_release Storage_ok demo_j1 (Some (demo_jlease ''r1'' ''n1'' 1 30)) of
      Inr (b, j') \<Rightarrow> b | Inl _ \<Rightarrow> False"
    by code_simp
  then obtain j' where "jr_release Storage_ok demo_j1 (Some (demo_jlease ''r1'' ''n1'' 1 30)) = Inr (True, j')"
    by (auto split: sum.splits)
  with jr_release_replay[OF demo_j1_inv this] show ?thesis by blast
qed

text \<open>
  The journal's capacity can be exceeded. On a journal for at most one resource, three
  acquires leave two leases active at once: the capacity is only checked when the resource has no
  row, so taking over an expired row bypasses it. The in-memory authority never holds more leases
  than its capacity.
\<close>

theorem jr_capacity_bypassed:
  "mk_journal (PyStr ''c1'') True (PyInt 1) = Inr demo_journal
   \<and> (\<exists>es t. run_of (jr_step sha fhex nextafter) demo_journal es t
        \<and> jn_max_resources t = 1 \<and> active_count t 40 = 2)"
proof -
  have "jn_max_resources demo_j3 = 1" "active_count demo_j3 40 = 2"
    by code_simp+
  then show ?thesis
    using demo_journal_start demo_journal_run[of sha fhex nextafter] by blast
qed

end
