(* ===== verification/EpochFence.thy ===== *)
theory EpochFence
  imports Ownership
begin

text \<open>
  \<^verbatim>\<open>sonder_runtime/domain/worker_epoch_fence.py\<close>: the check a worker makes before an effect. A
  request carries the ownership the worker believes in, an observation the ownership read at the
  checkpoint; the decision allows reads, and a mutating effect exactly if both agree in scope,
  owner, epoch and token digest and the owner is active.
\<close>

section \<open>Values\<close>

datatype effect_kind = READ | WRITE | EXECUTE | DELETE | CONTROL

datatype worker_effect_reason =
    CURRENT_OWNER
  | READ_UNFENCED
  | OWNER_EVIDENCE_MISSING
  | OWNER_INACTIVE
  | OWNERSHIP_SCOPE_MISMATCH
  | OWNER_MISMATCH
  | STALE_OWNER_EPOCH
  | OWNER_EPOCH_MISMATCH
  | STALE_OWNER_TOKEN

fun effect_value :: "effect_kind \<Rightarrow> string" where
  "effect_value READ = ''read''"
| "effect_value WRITE = ''write''"
| "effect_value EXECUTE = ''execute''"
| "effect_value DELETE = ''delete''"
| "effect_value CONTROL = ''control''"

fun effect_reason_value :: "worker_effect_reason \<Rightarrow> string" where
  "effect_reason_value CURRENT_OWNER = ''current_owner''"
| "effect_reason_value READ_UNFENCED = ''read_unfenced''"
| "effect_reason_value OWNER_EVIDENCE_MISSING = ''owner_evidence_missing''"
| "effect_reason_value OWNER_INACTIVE = ''owner_inactive''"
| "effect_reason_value OWNERSHIP_SCOPE_MISMATCH = ''ownership_scope_mismatch''"
| "effect_reason_value OWNER_MISMATCH = ''owner_mismatch''"
| "effect_reason_value STALE_OWNER_EPOCH = ''stale_owner_epoch''"
| "effect_reason_value OWNER_EPOCH_MISMATCH = ''owner_epoch_mismatch''"
| "effect_reason_value STALE_OWNER_TOKEN = ''stale_owner_token''"

definition wef_effect :: "pyval \<Rightarrow> effect_kind res" where
  "wef_effect v =
     (case v of
        PyStr s \<Rightarrow>
          (case find (\<lambda>e. effect_value e = s) [READ, WRITE, EXECUTE, DELETE, CONTROL] of
             Some e \<Rightarrow> Inr e
           | None \<Rightarrow> Inl (ValueError ''effect must be read, write, execute, delete, or control''))
      | _ \<Rightarrow> Inl (ValueError ''effect must be read, write, execute, delete, or control''))"

record worker_effect_request =
  wr_cluster_id :: string
  wr_resource_kind :: string
  wr_resource_id :: string
  wr_owner_id :: string
  wr_owner_epoch :: int
  wr_lease_token_digest :: string
  wr_effect :: effect_kind
  wr_operation_id :: string

record owner_epoch_observation =
  oo_cluster_id :: string
  oo_resource_kind :: string
  oo_resource_id :: string
  oo_owner_id :: string
  oo_owner_epoch :: int
  oo_lease_token_digest :: string
  oo_active :: bool

record worker_effect_decision =
  wd_allowed :: bool
  wd_effect :: effect_kind
  wd_reason_code :: string
  wd_expected_epoch :: int
  wd_observed_epoch :: "int option"
  wd_operation_id :: string

definition mk_worker_effect_request ::
  "pyval \<Rightarrow> pyval \<Rightarrow> pyval \<Rightarrow> pyval \<Rightarrow> pyval \<Rightarrow> pyval \<Rightarrow> pyval \<Rightarrow> pyval \<Rightarrow> worker_effect_request res" where
  "mk_worker_effect_request cluster kind rid owner epoch digest effect operation =
     rbind (check_identity cluster ''cluster_id'') (\<lambda>c.
     rbind (check_identity kind ''resource_kind'') (\<lambda>k.
     rbind (check_identity rid ''resource_id'') (\<lambda>r.
     rbind (check_identity owner ''owner_id'') (\<lambda>w.
     rbind (check_epoch epoch ''owner_epoch'') (\<lambda>e.
     rbind (check_digest digest ''lease_token_digest'') (\<lambda>d.
     rbind (wef_effect effect) (\<lambda>f.
     rbind (check_identity operation ''operation_id'') (\<lambda>p.
       Inr \<lparr>wr_cluster_id = c, wr_resource_kind = k, wr_resource_id = r, wr_owner_id = w,
            wr_owner_epoch = e, wr_lease_token_digest = d, wr_effect = f, wr_operation_id = p\<rparr>))))))))"

definition mk_owner_epoch_observation ::
  "pyval \<Rightarrow> pyval \<Rightarrow> pyval \<Rightarrow> pyval \<Rightarrow> pyval \<Rightarrow> pyval \<Rightarrow> pyval \<Rightarrow> owner_epoch_observation res" where
  "mk_owner_epoch_observation cluster kind rid owner epoch digest active =
     rbind (check_identity cluster ''cluster_id'') (\<lambda>c.
     rbind (check_identity kind ''resource_kind'') (\<lambda>k.
     rbind (check_identity rid ''resource_id'') (\<lambda>r.
     rbind (check_identity owner ''owner_id'') (\<lambda>w.
     rbind (check_epoch epoch ''owner_epoch'') (\<lambda>e.
     rbind (check_digest digest ''lease_token_digest'') (\<lambda>d.
     rbind (check_bool active ''active'') (\<lambda>b.
       Inr \<lparr>oo_cluster_id = c, oo_resource_kind = k, oo_resource_id = r, oo_owner_id = w,
            oo_owner_epoch = e, oo_lease_token_digest = d, oo_active = b\<rparr>)))))))"

definition wr_scope_key :: "worker_effect_request \<Rightarrow> string \<times> string \<times> string" where
  "wr_scope_key q = (wr_cluster_id q, wr_resource_kind q, wr_resource_id q)"

definition oo_scope_key :: "owner_epoch_observation \<Rightarrow> string \<times> string \<times> string" where
  "oo_scope_key o1 = (oo_cluster_id o1, oo_resource_kind o1, oo_resource_id o1)"

definition effect_decision ::
  "worker_effect_request \<Rightarrow> worker_effect_reason \<Rightarrow> bool \<Rightarrow> int option \<Rightarrow> worker_effect_decision" where
  "effect_decision q reason allowed observed =
     \<lparr>wd_allowed = allowed, wd_effect = wr_effect q, wd_reason_code = effect_reason_value reason,
      wd_expected_epoch = wr_owner_epoch q, wd_observed_epoch = observed,
      wd_operation_id = wr_operation_id q\<rparr>"

definition wd_as_dict :: "worker_effect_decision \<Rightarrow> (string, pyval) dict" where
  "wd_as_dict d =
     [(''allowed'', PyBool (wd_allowed d)),
      (''effect'', PyStr (effect_value (wd_effect d))),
      (''reason_code'', PyStr (wd_reason_code d)),
      (''expected_epoch'', PyInt (wd_expected_epoch d)),
      (''observed_epoch'', case wd_observed_epoch d of None \<Rightarrow> PyNone | Some e \<Rightarrow> PyInt e),
      (''operation_id'', PyStr (wd_operation_id d))]"

definition evaluate_worker_effect ::
  "worker_effect_request option \<Rightarrow> (owner_epoch_observation option) option \<Rightarrow> worker_effect_decision res" where
  \<comment> \<open>the outer \<open>None\<close> is an argument of another type; \<open>Some None\<close> is a missing observation\<close>
  "evaluate_worker_effect request observation =
     (case request of None \<Rightarrow> Inl (TypeError ''request must be a WorkerEffectRequest'')
      | Some q \<Rightarrow>
      (case observation of
         None \<Rightarrow> Inl (TypeError ''observation must be an OwnerEpochObservation or None'')
       | Some obs \<Rightarrow>
         (let seen = map_option oo_owner_epoch obs in
          if wr_effect q = READ then Inr (effect_decision q READ_UNFENCED True seen)
          else case obs of
            None \<Rightarrow> Inr (effect_decision q OWNER_EVIDENCE_MISSING False None)
          | Some o1 \<Rightarrow>
              if oo_scope_key o1 \<noteq> wr_scope_key q
              then Inr (effect_decision q OWNERSHIP_SCOPE_MISMATCH False seen)
              else if \<not> oo_active o1 then Inr (effect_decision q OWNER_INACTIVE False seen)
              else if oo_owner_id o1 \<noteq> wr_owner_id q then Inr (effect_decision q OWNER_MISMATCH False seen)
              else if oo_owner_epoch o1 < wr_owner_epoch q
              then Inr (effect_decision q STALE_OWNER_EPOCH False seen)
              else if oo_owner_epoch o1 \<noteq> wr_owner_epoch q
              then Inr (effect_decision q OWNER_EPOCH_MISMATCH False seen)
              else if oo_lease_token_digest o1 \<noteq> wr_lease_token_digest q
              then Inr (effect_decision q STALE_OWNER_TOKEN False seen)
              else Inr (effect_decision q CURRENT_OWNER True seen))))"

section \<open>Properties\<close>

lemma evaluate_allowed:
  assumes "evaluate_worker_effect (Some q) (Some obs) = Inr d"
  shows "wd_allowed d \<longleftrightarrow> wr_effect q = READ
    \<or> (\<exists>o1. obs = Some o1 \<and> oo_scope_key o1 = wr_scope_key q \<and> oo_active o1
         \<and> oo_owner_id o1 = wr_owner_id q \<and> oo_owner_epoch o1 = wr_owner_epoch q
         \<and> oo_lease_token_digest o1 = wr_lease_token_digest q)"
  using assms
  by (auto simp: evaluate_worker_effect_def effect_decision_def Let_def split: if_splits option.splits)

text \<open>
  A mutating effect that carries a superseded lease is refused, whatever the adapter observes, as
  long as it observes the lease its authority holds at that moment.
\<close>

definition observes :: "(string \<Rightarrow> string) \<Rightarrow> authority \<Rightarrow> owner_epoch_observation \<Rightarrow> bool" where
  "observes digest a o1 =
     (\<exists>l. map_of (au_leases a) (oo_resource_kind o1, oo_resource_id o1, oo_cluster_id o1) = Some l
        \<and> oo_owner_id o1 = ol_owner_id l \<and> oo_owner_epoch o1 = ol_epoch l
        \<and> oo_lease_token_digest o1 = digest (ol_token l))"

definition carries :: "worker_effect_request \<Rightarrow> owner_lease \<Rightarrow> bool" where
  "carries q l = (wr_scope_key q = (ol_cluster_id l, ol_resource_kind l, ol_resource_id l)
     \<and> wr_owner_id q = ol_owner_id l \<and> wr_owner_epoch q = ol_epoch l)"

definition demo_request :: worker_effect_request where
  "demo_request = \<lparr>wr_cluster_id = ''c1'', wr_resource_kind = ''job'', wr_resource_id = ''r1'',
     wr_owner_id = ''n1'', wr_owner_epoch = 1, wr_lease_token_digest = ''a0'', wr_effect = WRITE,
     wr_operation_id = ''op''\<rparr>"

definition demo_observation :: "string \<Rightarrow> int \<Rightarrow> owner_epoch_observation" where
  "demo_observation w e = \<lparr>oo_cluster_id = ''c1'', oo_resource_kind = ''job'', oo_resource_id = ''r1'',
     oo_owner_id = w, oo_owner_epoch = e, oo_lease_token_digest = ''a0'', oo_active = True\<rparr>"

text \<open>
  The effect fence. An evaluation never fails on well-typed arguments, and it allows an
  effect exactly if the effect is a read, or an active owner was observed whose scope, identity,
  epoch and token digest are those of the request.
\<close>

theorem effect_allowed_iff_exact_owner:
  "\<exists>d. evaluate_worker_effect (Some q) (Some obs) = Inr d
    \<and> wd_expected_epoch d = wr_owner_epoch q \<and> wd_effect d = wr_effect q
    \<and> (wd_allowed d \<longleftrightarrow> wr_effect q = READ
        \<or> (\<exists>o1. obs = Some o1 \<and> oo_scope_key o1 = wr_scope_key q \<and> oo_active o1
             \<and> oo_owner_id o1 = wr_owner_id q \<and> oo_owner_epoch o1 = wr_owner_epoch q
             \<and> oo_lease_token_digest o1 = wr_lease_token_digest q))"
  by (auto simp: evaluate_worker_effect_def effect_decision_def Let_def split: option.splits)

text \<open>
  (C6) Fencing reaches the effect. After a newer lease was issued for a resource, a mutating
  effect that carries an older lease is refused in every later state of the authority, when the
  observation is the lease the authority holds in that state.
\<close>

theorem superseded_effect_refused:
  assumes "own_inv a" "own_step a (Issued new) b" "run_of own_step b es t"
    and "lease_key old = lease_key new" "ol_epoch old < ol_epoch new"
    and "carries q old" "wr_effect q \<noteq> READ" "observes digest t o1"
    and "evaluate_worker_effect (Some q) (Some (Some o1)) = Inr d"
  shows "\<not> wd_allowed d"
proof
  assume "wd_allowed d"
  then have same: "oo_scope_key o1 = wr_scope_key q" "oo_owner_epoch o1 = wr_owner_epoch q"
    using evaluate_allowed[OF assms(9)] assms(7) by auto
  have b: "own_inv b" by (rule own_step_inv[OF assms(2,1)])
  have t: "own_inv t" by (rule mem.inv_run[OF assms(3) b])
  obtain l where l: "map_of (au_leases t) (lease_key old) = Some l" "ol_epoch l = ol_epoch old"
    using assms(6,8) same by (auto simp: observes_def carries_def oo_scope_key_def wr_scope_key_def lease_key_def)
  have "ol_epoch new \<le> own_epoch_of t (lease_key old)"
    using mem.epoch_run[OF assms(3) b, of "lease_key old"] mem.issue_current[OF assms(2,1)] assms(4) by simp
  then show False
    using own_inv_epoch_of[OF t l(1)] l(2) assms(5) by simp
qed

theorem superseded_effect_refused_witness:
  "\<exists>d. evaluate_worker_effect (Some demo_request) (Some (Some (demo_observation ''n2'' 2))) = Inr d
     \<and> \<not> wd_allowed d"
proof -
  have obs: "observes (\<lambda>s. s) (demo_held (demo_lease ''n2'' 2 70)) (demo_observation ''n2'' 2)"
    by (simp add: observes_def demo_held_def demo_lease_def demo_observation_def lease_key_def)
  have key: "lease_key (demo_lease ''n1'' 1 30) = lease_key (demo_lease ''n2'' 2 70)"
    "ol_epoch (demo_lease ''n1'' 1 30) < ol_epoch (demo_lease ''n2'' 2 70)"
    by (simp_all add: lease_key_def demo_lease_def)
  have q: "carries demo_request (demo_lease ''n1'' 1 30)" "wr_effect demo_request \<noteq> READ"
    by (simp_all add: carries_def demo_request_def wr_scope_key_def demo_lease_def)
  have d: "evaluate_worker_effect (Some demo_request) (Some (Some (demo_observation ''n2'' 2)))
      = Inr (effect_decision demo_request OWNER_MISMATCH False (Some 2))"
    by code_simp
  show ?thesis
    using superseded_effect_refused[OF demo_held_inv demo_second run_Nil key q obs d] d by blast
qed

end
