(* ===== verification/ReplicationAck.thy ===== *)
theory ReplicationAck
  imports Prelude
begin

text \<open>
  \<^verbatim>\<open>sonder_runtime/domain/replication_ack.py\<close>: when a control event counts as replicated. The policy
  groups the receipts by replica, rejects a replica with conflicting receipts, checks the
  remaining ones against the event, and compares the number of valid data replicas with the
  required one. A frozenset of identities is a duplicate-free list. The reasons are collected in
  the order of the source. The digest of a JSON envelope (\<^verbatim>\<open>event_digest_for\<close>) is not modelled; the
  SHA-256 function is an argument of the receipt constructor.
\<close>

section \<open>Values\<close>

datatype replication_mode = LOCAL_SQLITE | POOLED_PAIR | REPLICATED_DATA_QUORUM

datatype replica_role = DATA | ARBITRATION_WITNESS

datatype replication_state = ACKNOWLEDGED | LOCAL_ONLY | PAUSED | UNAVAILABLE

datatype replication_reason =
    LOCAL_SQLITE_ONLY
  | LOCAL_DURABILITY_MISSING
  | DATA_REPLICA_NOT_CONFIGURED
  | DATA_REPLICA_EVIDENCE_MISSING
  | DATA_QUORUM_REACHED
  | DATA_QUORUM_NOT_REACHED
  | ARBITRATION_WITNESS_NOT_DATA
  | REPLICA_NOT_AUTHORIZED
  | REPLICA_NOT_DISTINCT
  | REPLICA_NOT_DATA
  | REPLICA_UNREACHABLE
  | REPLICA_NOT_DURABLE
  | CONFLICTING_REPLICA_EVIDENCE
  | CLUSTER_MISMATCH
  | EVENT_ID_MISMATCH
  | SOURCE_NODE_MISMATCH
  | OWNER_ID_MISMATCH
  | OWNER_EPOCH_MISMATCH
  | LEASE_MISMATCH
  | EVENT_DIGEST_MISMATCH
  | PARTITION_PREVENTS_ACK

fun replication_mode_value :: "replication_mode \<Rightarrow> string" where
  "replication_mode_value LOCAL_SQLITE = ''local_sqlite''"
| "replication_mode_value POOLED_PAIR = ''pooled_pair''"
| "replication_mode_value REPLICATED_DATA_QUORUM = ''replicated_data_quorum''"

fun replication_state_value :: "replication_state \<Rightarrow> string" where
  "replication_state_value ACKNOWLEDGED = ''acknowledged''"
| "replication_state_value LOCAL_ONLY = ''local_only''"
| "replication_state_value PAUSED = ''paused''"
| "replication_state_value UNAVAILABLE = ''unavailable''"

fun replication_reason_value :: "replication_reason \<Rightarrow> string" where
  "replication_reason_value LOCAL_SQLITE_ONLY = ''local_sqlite_only''"
| "replication_reason_value LOCAL_DURABILITY_MISSING = ''local_durability_missing''"
| "replication_reason_value DATA_REPLICA_NOT_CONFIGURED = ''data_replica_not_configured''"
| "replication_reason_value DATA_REPLICA_EVIDENCE_MISSING = ''data_replica_evidence_missing''"
| "replication_reason_value DATA_QUORUM_REACHED = ''data_quorum_reached''"
| "replication_reason_value DATA_QUORUM_NOT_REACHED = ''data_quorum_not_reached''"
| "replication_reason_value ARBITRATION_WITNESS_NOT_DATA = ''arbitration_witness_not_data''"
| "replication_reason_value REPLICA_NOT_AUTHORIZED = ''replica_not_authorized''"
| "replication_reason_value REPLICA_NOT_DISTINCT = ''replica_not_distinct''"
| "replication_reason_value REPLICA_NOT_DATA = ''replica_not_data''"
| "replication_reason_value REPLICA_UNREACHABLE = ''replica_unreachable''"
| "replication_reason_value REPLICA_NOT_DURABLE = ''replica_not_durable''"
| "replication_reason_value CONFLICTING_REPLICA_EVIDENCE = ''conflicting_replica_evidence''"
| "replication_reason_value CLUSTER_MISMATCH = ''cluster_mismatch''"
| "replication_reason_value EVENT_ID_MISMATCH = ''event_id_mismatch''"
| "replication_reason_value SOURCE_NODE_MISMATCH = ''source_node_mismatch''"
| "replication_reason_value OWNER_ID_MISMATCH = ''owner_id_mismatch''"
| "replication_reason_value OWNER_EPOCH_MISMATCH = ''owner_epoch_mismatch''"
| "replication_reason_value LEASE_MISMATCH = ''lease_mismatch''"
| "replication_reason_value EVENT_DIGEST_MISMATCH = ''event_digest_mismatch''"
| "replication_reason_value PARTITION_PREVENTS_ACK = ''partition_prevents_ack''"

definition replication_mode_of :: "pyval \<Rightarrow> replication_mode res" where
  "replication_mode_of v =
     (if v = PyStr ''local_sqlite'' then Inr LOCAL_SQLITE
      else if v = PyStr ''pooled_pair'' then Inr POOLED_PAIR
      else if v = PyStr ''replicated_data_quorum'' then Inr REPLICATED_DATA_QUORUM
      else Inl (ValueError ''mode must be local_sqlite, pooled_pair, or replicated_data_quorum''))"

definition replica_role_of :: "pyval \<Rightarrow> replica_role res" where
  "replica_role_of v =
     (if v = PyStr ''data'' then Inr DATA
      else if v = PyStr ''arbitration_witness'' then Inr ARBITRATION_WITNESS
      else Inl (ValueError ''role must be data or arbitration_witness''))"

definition ra_members :: "pyval \<Rightarrow> string \<Rightarrow> string list res" where
  "ra_members v field =
     (case (case v of PyStr _ \<Rightarrow> None | PyBytes _ \<Rightarrow> None | _ \<Rightarrow> py_items v) of
        None \<Rightarrow> Inl (ValueError (field @ '' must be a bounded collection of identities''))
      | Some values \<Rightarrow>
          if 1024 < length values then Inl (ValueError (field @ '' exceeds the member bound''))
          else rbind (mapr (\<lambda>x. check_identity x (field @ '' member'')) values) (\<lambda>ids.
            if distinct ids then Inr ids
            else Inl (ValueError (field @ '' must not contain duplicates''))))"

record control_event =
  ev_cluster_id :: string
  ev_event_id :: string
  ev_source_node_id :: string
  ev_owner_id :: string
  ev_owner_epoch :: int
  ev_lease_id :: string
  ev_event_digest :: string

definition mk_control_event ::
  "pyval \<Rightarrow> pyval \<Rightarrow> pyval \<Rightarrow> pyval \<Rightarrow> pyval \<Rightarrow> pyval \<Rightarrow> pyval \<Rightarrow> control_event res" where
  "mk_control_event cluster event source owner epoch lease digest =
     rbind (check_identity cluster ''cluster_id'') (\<lambda>c.
     rbind (check_identity event ''event_id'') (\<lambda>i.
     rbind (check_identity source ''source_node_id'') (\<lambda>s.
     rbind (check_identity owner ''owner_id'') (\<lambda>w.
     rbind (check_epoch epoch ''owner_epoch'') (\<lambda>e.
     rbind (check_identity lease ''lease_id'') (\<lambda>l.
     rbind (check_digest digest ''event_digest'') (\<lambda>d.
       Inr \<lparr>ev_cluster_id = c, ev_event_id = i, ev_source_node_id = s, ev_owner_id = w,
            ev_owner_epoch = e, ev_lease_id = l, ev_event_digest = d\<rparr>)))))))"

record replica_ack =
  ak_acknowledgement_id :: string
  ak_cluster_id :: string
  ak_event_id :: string
  ak_source_node_id :: string
  ak_replica_id :: string
  ak_role :: replica_role
  ak_authorized :: bool
  ak_reachable :: bool
  ak_durable :: bool
  ak_owner_id :: string
  ak_owner_epoch :: int
  ak_lease_id :: string
  ak_event_digest :: string

definition mk_replica_ack ::
  "pyval \<Rightarrow> pyval \<Rightarrow> pyval \<Rightarrow> pyval \<Rightarrow> pyval \<Rightarrow> pyval \<Rightarrow> pyval \<Rightarrow> pyval \<Rightarrow> pyval \<Rightarrow> pyval \<Rightarrow> pyval
     \<Rightarrow> pyval \<Rightarrow> pyval \<Rightarrow> replica_ack res" where
  "mk_replica_ack ack cluster event source replica role authorized reachable durable owner epoch lease digest =
     rbind (check_identity ack ''acknowledgement_id'') (\<lambda>a.
     rbind (check_identity cluster ''cluster_id'') (\<lambda>c.
     rbind (check_identity event ''event_id'') (\<lambda>i.
     rbind (check_identity source ''source_node_id'') (\<lambda>s.
     rbind (check_identity replica ''replica_id'') (\<lambda>r.
     rbind (replica_role_of role) (\<lambda>ro.
     rbind (check_bool authorized ''authorized'') (\<lambda>b1.
     rbind (check_bool reachable ''reachable'') (\<lambda>b2.
     rbind (check_bool durable ''durable'') (\<lambda>b3.
     rbind (check_identity owner ''owner_id'') (\<lambda>w.
     rbind (check_epoch epoch ''owner_epoch'') (\<lambda>e.
     rbind (check_identity lease ''lease_id'') (\<lambda>l.
     rbind (check_digest digest ''event_digest'') (\<lambda>d.
       Inr \<lparr>ak_acknowledgement_id = a, ak_cluster_id = c, ak_event_id = i, ak_source_node_id = s,
            ak_replica_id = r, ak_role = ro, ak_authorized = b1, ak_reachable = b2, ak_durable = b3,
            ak_owner_id = w, ak_owner_epoch = e, ak_lease_id = l, ak_event_digest = d\<rparr>)))))))))))))"

definition ack_for_event ::
  "(string \<Rightarrow> string) \<Rightarrow> control_event option \<Rightarrow> string \<Rightarrow> pyval \<Rightarrow> pyval \<Rightarrow> pyval \<Rightarrow> pyval \<Rightarrow> pyval
     \<Rightarrow> replica_ack res" where
  \<comment> \<open>\<open>ack_id\<close> is \<open>PyNone\<close> when the caller does not pass one\<close>
  "ack_for_event sha event replica ack_id role authorized reachable durable =
     (case event of None \<Rightarrow> Inl (ValueError ''event must be a ControlEvent'')
      | Some e \<Rightarrow>
          mk_replica_ack
            (if ack_id = PyNone
             then PyStr (''ack-'' @ take 32 (sha (ev_event_id e @ '':'' @ replica)))
             else ack_id)
            (PyStr (ev_cluster_id e)) (PyStr (ev_event_id e)) (PyStr (ev_source_node_id e))
            (PyStr replica) role authorized reachable durable (PyStr (ev_owner_id e))
            (PyInt (ev_owner_epoch e)) (PyStr (ev_lease_id e)) (PyStr (ev_event_digest e)))"

definition ack_fingerprint :: "replica_ack \<Rightarrow>
  string \<times> string \<times> string \<times> string \<times> replica_role \<times> bool \<times> bool \<times> bool \<times> string \<times> int \<times> string \<times> string" where
  "ack_fingerprint a =
     (ak_cluster_id a, ak_event_id a, ak_source_node_id a, ak_replica_id a, ak_role a,
      ak_authorized a, ak_reachable a, ak_durable a, ak_owner_id a, ak_owner_epoch a,
      ak_lease_id a, ak_event_digest a)"

record replication_decision =
  rd_mode :: replication_mode
  rd_state :: replication_state
  rd_acknowledged :: bool
  rd_local_durable :: bool
  rd_data_replica_count :: int
  rd_required_data_replicas :: int
  rd_replica_ids :: "string list"
  rd_reason_codes :: "replication_reason list"
  rd_event_digest :: string
  rd_owner_epoch :: int
  rd_lease_id :: string

definition rd_as_dict :: "replication_decision \<Rightarrow> (string, pyval) dict" where
  "rd_as_dict d =
     [(''mode'', PyStr (replication_mode_value (rd_mode d))),
      (''state'', PyStr (replication_state_value (rd_state d))),
      (''acknowledged'', PyBool (rd_acknowledged d)),
      (''replicated'', PyBool (rd_acknowledged d)),
      (''local_durable'', PyBool (rd_local_durable d)),
      (''data_replica_count'', PyInt (rd_data_replica_count d)),
      (''required_data_replicas'', PyInt (rd_required_data_replicas d)),
      (''replica_ids'', PyList (map PyStr (rd_replica_ids d))),
      (''reason_codes'', PyList (map (\<lambda>r. PyStr (replication_reason_value r)) (rd_reason_codes d))),
      (''event_digest'', PyStr (rd_event_digest d)),
      (''owner_epoch'', PyInt (rd_owner_epoch d)),
      (''lease_id'', PyStr (rd_lease_id d)),
      (''takeover_safe'', PyBool False)]"

record replication_policy =
  rp_mode :: replication_mode
  rp_local_node_id :: string
  rp_data_ids :: "string list"
  rp_witness_ids :: "string list"
  rp_required :: int

definition default_required :: "replication_mode \<Rightarrow> int" where
  "default_required m = (case m of LOCAL_SQLITE \<Rightarrow> 0 | POOLED_PAIR \<Rightarrow> 1 | REPLICATED_DATA_QUORUM \<Rightarrow> 2)"

definition mk_replication_policy ::
  "pyval \<Rightarrow> pyval \<Rightarrow> pyval \<Rightarrow> pyval \<Rightarrow> pyval \<Rightarrow> replication_policy res" where
  "mk_replication_policy mode local_node data witness required =
     rbind (replication_mode_of mode) (\<lambda>m.
     rbind (check_identity local_node ''local_node_id'') (\<lambda>l.
     rbind (ra_members data ''authorized_data_replica_ids'') (\<lambda>data_ids.
     rbind (ra_members witness ''arbitration_witness_ids'') (\<lambda>witness_ids.
       if l \<in> set data_ids \<or> l \<in> set witness_ids
       then Inl (ValueError ''local node cannot be listed as a replica or witness'')
       else if set data_ids \<inter> set witness_ids \<noteq> {}
       then Inl (ValueError ''data replicas and arbitration witnesses must be disjoint'')
       else
         rbind (case required of
                  PyNone \<Rightarrow> Inr (default_required m)
                | PyInt n \<Rightarrow> if n < 0 \<or> 1024 < n
                    then Inl (ValueError ''required_data_replicas must be a bounded non-negative integer'')
                    else Inr n
                | _ \<Rightarrow> Inl (ValueError ''required_data_replicas must be a bounded non-negative integer'')) (\<lambda>n.
         if m = LOCAL_SQLITE \<and> n \<noteq> 0
         then Inl (ValueError ''local_sqlite requires required_data_replicas=0'')
         else if m = POOLED_PAIR \<and> n \<noteq> 1
         then Inl (ValueError ''pooled_pair requires required_data_replicas=1'')
         else if m = REPLICATED_DATA_QUORUM \<and> n < 2
         then Inl (ValueError ''replicated_data_quorum requires required_data_replicas>=2'')
         else Inr \<lparr>rp_mode = m, rp_local_node_id = l, rp_data_ids = data_ids,
                   rp_witness_ids = witness_ids, rp_required = n\<rparr>)))))"

section \<open>Evaluation\<close>

definition add_reason :: "replication_reason \<Rightarrow> replication_reason list \<Rightarrow> replication_reason list" where
  "add_reason r rs = (if r \<in> set rs then rs else rs @ [r])"

definition ra_decision ::
  "replication_policy \<Rightarrow> control_event \<Rightarrow> replication_state \<Rightarrow> bool \<Rightarrow> bool \<Rightarrow> int \<Rightarrow> string list
     \<Rightarrow> replication_reason list \<Rightarrow> replication_decision" where
  "ra_decision p e state acknowledged local_durable count ids reasons =
     \<lparr>rd_mode = rp_mode p, rd_state = state, rd_acknowledged = acknowledged,
      rd_local_durable = local_durable, rd_data_replica_count = count,
      rd_required_data_replicas = rp_required p, rd_replica_ids = ids, rd_reason_codes = reasons,
      rd_event_digest = ev_event_digest e, rd_owner_epoch = ev_owner_epoch e,
      rd_lease_id = ev_lease_id e\<rparr>"

definition group_receipts :: "replica_ack list \<Rightarrow> (string, replica_ack list) dict" where
  "group_receipts receipts =
     foldl (\<lambda>d a. AList.update (ak_replica_id a)
              ((case map_of d (ak_replica_id a) of None \<Rightarrow> [] | Some g \<Rightarrow> g) @ [a]) d) [] receipts"

definition receipt_faults ::
  "replication_policy \<Rightarrow> control_event \<Rightarrow> string \<Rightarrow> replica_ack \<Rightarrow> replication_reason list" where
  \<comment> \<open>the failing checks of one receipt, in the order of the source\<close>
  "receipt_faults p e rid a = map snd (filter fst
     [(ak_cluster_id a \<noteq> ev_cluster_id e, CLUSTER_MISMATCH),
      (ak_event_id a \<noteq> ev_event_id e, EVENT_ID_MISMATCH),
      (ak_source_node_id a \<noteq> ev_source_node_id e, SOURCE_NODE_MISMATCH),
      (ak_owner_id a \<noteq> ev_owner_id e, OWNER_ID_MISMATCH),
      (ak_owner_epoch a \<noteq> ev_owner_epoch e, OWNER_EPOCH_MISMATCH),
      (ak_lease_id a \<noteq> ev_lease_id e, LEASE_MISMATCH),
      (ak_event_digest a \<noteq> ev_event_digest e, EVENT_DIGEST_MISMATCH),
      (rid = rp_local_node_id p \<or> rid = ev_source_node_id e, REPLICA_NOT_DISTINCT),
      (rid \<in> set (rp_witness_ids p) \<or> ak_role a = ARBITRATION_WITNESS, ARBITRATION_WITNESS_NOT_DATA),
      (rid \<notin> set (rp_data_ids p), REPLICA_NOT_AUTHORIZED),
      (ak_role a \<noteq> DATA, REPLICA_NOT_DATA),
      (\<not> ak_authorized a, REPLICA_NOT_AUTHORIZED),
      (\<not> ak_reachable a, REPLICA_UNREACHABLE),
      (\<not> ak_durable a, REPLICA_NOT_DURABLE)])"

definition check_group ::
  "replication_policy \<Rightarrow> control_event \<Rightarrow> replication_reason list \<times> string list \<times> bool
     \<Rightarrow> string \<times> replica_ack list \<Rightarrow> replication_reason list \<times> string list \<times> bool" where
  \<comment> \<open>one round of the loop over the replicas: reasons, valid replicas, whether one was unreachable\<close>
  "check_group p e st item =
     (case (st, item) of ((reasons, valid_ids, saw_unreachable), (rid, grouped)) \<Rightarrow>
        if length (remdups (map ack_fingerprint grouped)) \<noteq> 1
        then (add_reason CONFLICTING_REPLICA_EVIDENCE reasons, valid_ids, saw_unreachable)
        else let a = hd grouped; faults = receipt_faults p e rid a in
          (fold add_reason faults reasons,
           if faults = [] then valid_ids @ [rid] else valid_ids,
           saw_unreachable \<or> \<not> ak_reachable a))"

definition quorum_reasons ::
  "int \<Rightarrow> int \<Rightarrow> bool \<Rightarrow> replication_reason list \<Rightarrow> replication_reason list" where
  "quorum_reasons required count blocked reasons =
     (let reasons = (if count = 0 then add_reason DATA_REPLICA_EVIDENCE_MISSING reasons else reasons);
          reasons = (if required \<le> count \<and> 0 < required then add_reason DATA_QUORUM_REACHED reasons
                     else if 0 < count then add_reason DATA_QUORUM_NOT_REACHED reasons else reasons)
      in if blocked then add_reason PARTITION_PREVENTS_ACK reasons else reasons)"

definition quorum_state :: "bool \<Rightarrow> int \<Rightarrow> int \<Rightarrow> bool \<Rightarrow> replication_state \<times> bool" where
  "quorum_state durable required count blocked =
     (if \<not> durable then (PAUSED, False)
      else if required \<le> count \<and> 0 < required \<and> \<not> blocked then (ACKNOWLEDGED, True)
      else if blocked \<or> 0 < count then (PAUSED, False)
      else (UNAVAILABLE, False))"

definition ra_evaluate ::
  "replication_policy \<Rightarrow> control_event option \<Rightarrow> (replica_ack option list) option
     \<Rightarrow> pyval \<Rightarrow> pyval \<Rightarrow> pyval \<Rightarrow> replication_decision res" where
  \<comment> \<open>\<open>None\<close> stands for an argument, or an element, of another type; \<open>PyNone\<close> for an omitted flag\<close>
  "ra_evaluate p event acknowledgements local_durable local_commit_durable partitioned =
     (case event of None \<Rightarrow> Inl (ValueError ''event must be a ControlEvent'')
      | Some e \<Rightarrow>
        rbind (if local_durable = PyNone
               then Inr (if local_commit_durable \<noteq> PyNone then local_commit_durable else PyBool False)
               else if local_commit_durable \<noteq> PyNone \<and> \<not> py_eq local_durable local_commit_durable
               then Inl (ValueError ''local_durable and local_commit_durable disagree'')
               else Inr local_durable) (\<lambda>ld.
        rbind (check_bool ld ''local_durable'') (\<lambda>durable.
        rbind (check_bool partitioned ''partitioned'') (\<lambda>part.
        (case acknowledgements of
           None \<Rightarrow> Inl (ValueError ''acknowledgements must be a bounded collection'')
         | Some receipts \<Rightarrow>
           if 1024 < length receipts
           then Inl (ValueError ''acknowledgements exceed the evidence bound'')
           else if None \<in> set receipts
           then Inl (ValueError ''acknowledgements must contain ReplicaAcknowledgement values'')
           else
             let reasons = (if durable then [] else [LOCAL_DURABILITY_MISSING]);
                 required = rp_required p
             in
             if rp_mode p = LOCAL_SQLITE then
               Inr (ra_decision p e (if durable then LOCAL_ONLY else UNAVAILABLE) False durable 0 []
                      (add_reason LOCAL_SQLITE_ONLY reasons))
             else if rp_data_ids p = [] then
               Inr (ra_decision p e (if durable then UNAVAILABLE else PAUSED) False durable 0 []
                      (add_reason DATA_REPLICA_NOT_CONFIGURED reasons))
             else
               case foldl (check_group p e) (reasons, [], False) (group_receipts (map the receipts)) of
                 (reasons, ids, saw_unreachable) \<Rightarrow>
                   let valid_ids = sort ids;
                       count = int (length valid_ids);
                       blocked = (part \<or> saw_unreachable)
                   in Inr (ra_decision p e (fst (quorum_state durable required count blocked))
                        (snd (quorum_state durable required count blocked)) durable count valid_ids
                        (quorum_reasons required count blocked reasons)))))))"

section \<open>What the loop computes\<close>

text \<open>
  A replica is valid for a set of receipts when it sent one and each receipt it sent passes every
  check; a replica blocks when its receipts agree and say it is unreachable.
\<close>

definition valid_replica :: "replication_policy \<Rightarrow> control_event \<Rightarrow> replica_ack set \<Rightarrow> string \<Rightarrow> bool" where
  "valid_replica p e S rid = ((\<exists>a\<in>S. ak_replica_id a = rid)
     \<and> (\<forall>a\<in>S. ak_replica_id a = rid \<longrightarrow> receipt_faults p e rid a = []))"

definition unreachable_replica :: "replica_ack set \<Rightarrow> bool" where
  "unreachable_replica S = (\<exists>a\<in>S. \<not> ak_reachable a
     \<and> (\<forall>b\<in>S. ak_replica_id b = ak_replica_id a \<longrightarrow> ack_fingerprint b = ack_fingerprint a))"

lemma receipt_faults_Nil:
  "receipt_faults p e rid a = [] \<longleftrightarrow>
     ak_cluster_id a = ev_cluster_id e \<and> ak_event_id a = ev_event_id e
     \<and> ak_source_node_id a = ev_source_node_id e \<and> ak_owner_id a = ev_owner_id e
     \<and> ak_owner_epoch a = ev_owner_epoch e \<and> ak_lease_id a = ev_lease_id e
     \<and> ak_event_digest a = ev_event_digest e \<and> rid \<noteq> rp_local_node_id p \<and> rid \<noteq> ev_source_node_id e
     \<and> rid \<notin> set (rp_witness_ids p) \<and> rid \<in> set (rp_data_ids p) \<and> ak_role a = DATA
     \<and> ak_authorized a \<and> ak_reachable a \<and> ak_durable a"
  by (cases "ak_role a") (auto simp: receipt_faults_def filter_empty_conv)

lemma receipt_faults_fingerprint:
  "ack_fingerprint a = ack_fingerprint b \<Longrightarrow> receipt_faults p e rid a = receipt_faults p e rid b"
  by (simp add: ack_fingerprint_def receipt_faults_def)

lemma faultless_fingerprint:
  "receipt_faults p e rid a = [] \<Longrightarrow> receipt_faults p e rid b = [] \<Longrightarrow> ak_replica_id a = ak_replica_id b \<Longrightarrow>
     ack_fingerprint a = ack_fingerprint b"
  by (simp add: receipt_faults_Nil ack_fingerprint_def)

lemma group_receipts_snoc:
  "group_receipts (rs @ [a]) = AList.update (ak_replica_id a)
     ((case map_of (group_receipts rs) (ak_replica_id a) of None \<Rightarrow> [] | Some g \<Rightarrow> g) @ [a]) (group_receipts rs)"
  by (simp add: group_receipts_def)

lemma group_receipts_lookup:
  "map_of (group_receipts rs) rid =
     (let g = filter (\<lambda>a. ak_replica_id a = rid) rs in if g = [] then None else Some g)"
proof (induction rs rule: rev_induct)
  case (snoc a rs)
  then show ?case
    by (auto simp: group_receipts_snoc dict_simps Let_def)
qed (simp add: group_receipts_def)

lemma group_receipts_ok: "dict_ok (group_receipts rs)"
  by (induction rs rule: rev_induct) (simp_all add: group_receipts_snoc distinct_update, simp add: group_receipts_def)

lemma group_receipts_mem:
  "(rid, g) \<in> set (group_receipts rs) \<longleftrightarrow> g = filter (\<lambda>a. ak_replica_id a = rid) rs \<and> g \<noteq> []"
  using group_receipts_lookup[of rs rid] map_of_eq_Some_iff[OF group_receipts_ok, of rs rid g]
  by (auto simp: Let_def split: if_splits)

definition group_agrees :: "replica_ack list \<Rightarrow> bool" where
  "group_agrees g = (length (remdups (map ack_fingerprint g)) = 1)"

lemma group_agrees_iff:
  "group_agrees g \<longleftrightarrow> g \<noteq> [] \<and> (\<forall>a\<in>set g. ack_fingerprint a = ack_fingerprint (hd g))"
  unfolding group_agrees_def length_remdups_1 by (cases g) simp_all

lemma check_group_loop:
  "foldl (check_group p e) (rs, ids, u) items = (rs', ids', u') \<Longrightarrow>
     ids' = ids @ map fst (filter (\<lambda>(rid, g). group_agrees g \<and> receipt_faults p e rid (hd g) = []) items)
     \<and> u' = (u \<or> (\<exists>(rid, g)\<in>set items. group_agrees g \<and> \<not> ak_reachable (hd g)))"
proof (induction items arbitrary: rs ids u)
  case (Cons it items)
  obtain rid g where it: "it = (rid, g)" by fastforce
  obtain rs1 ids1 u1 where st: "check_group p e (rs, ids, u) (rid, g) = (rs1, ids1, u1)"
    by (cases "check_group p e (rs, ids, u) (rid, g)") auto
  then have "ids1 = ids @ (if group_agrees g \<and> receipt_faults p e rid (hd g) = [] then [rid] else [])"
    "u1 = (u \<or> group_agrees g \<and> \<not> ak_reachable (hd g))"
    by (auto simp: check_group_def group_agrees_def Let_def split: if_splits)
  then show ?case
    using Cons.IH[of rs1 ids1 u1] Cons.prems by (auto simp: st it)
qed simp

lemma group_agrees_set:
  assumes "g = filter (\<lambda>a. ak_replica_id a = rid) rs"
  shows "group_agrees g \<and> receipt_faults p e rid (hd g) = [] \<longleftrightarrow> valid_replica p e (set rs) rid"
proof
  assume L: "group_agrees g \<and> receipt_faults p e rid (hd g) = []"
  then have g: "g \<noteq> []" "\<forall>a\<in>set g. ack_fingerprint a = ack_fingerprint (hd g)"
    unfolding group_agrees_iff by blast+
  have "receipt_faults p e rid a = []" if "a \<in> set g" for a
    using L g(2) that receipt_faults_fingerprint[of a "hd g" p e rid] by metis
  with g(1) show "valid_replica p e (set rs) rid"
    by (auto simp: valid_replica_def assms filter_empty_conv)
next
  assume R: "valid_replica p e (set rs) rid"
  then have ne: "g \<noteq> []" and all: "\<forall>a\<in>set g. receipt_faults p e rid a = [] \<and> ak_replica_id a = rid"
    by (auto simp: valid_replica_def assms filter_empty_conv)
  then show "group_agrees g \<and> receipt_faults p e rid (hd g) = []"
    by (auto simp: group_agrees_iff intro: faultless_fingerprint)
qed

lemma unreachable_group:
  "(\<exists>(rid, g)\<in>set (group_receipts rs). group_agrees g \<and> \<not> ak_reachable (hd g)) \<longleftrightarrow> unreachable_replica (set rs)"
proof
  assume "\<exists>(rid, g)\<in>set (group_receipts rs). group_agrees g \<and> \<not> ak_reachable (hd g)"
  then obtain rid g where g: "g = filter (\<lambda>a. ak_replica_id a = rid) rs" "g \<noteq> []" "group_agrees g"
    "\<not> ak_reachable (hd g)"
    by (auto simp: group_receipts_mem)
  then have hd: "hd g \<in> set rs" "ak_replica_id (hd g) = rid"
    using hd_in_set[OF g(2)] by (simp_all add: g(1))
  moreover have "ack_fingerprint b = ack_fingerprint (hd g)" if "b \<in> set rs" "ak_replica_id b = rid" for b
    using g(1,3) that unfolding group_agrees_iff by simp
  ultimately show "unreachable_replica (set rs)"
    using g(4) unfolding unreachable_replica_def by metis
next
  assume "unreachable_replica (set rs)"
  then obtain a where a: "a \<in> set rs" "\<not> ak_reachable a"
    "\<forall>b\<in>set rs. ak_replica_id b = ak_replica_id a \<longrightarrow> ack_fingerprint b = ack_fingerprint a"
    by (auto simp: unreachable_replica_def)
  let ?g = "filter (\<lambda>b. ak_replica_id b = ak_replica_id a) rs"
  have ne: "?g \<noteq> []" using a(1) by (auto simp: filter_empty_conv)
  then have "hd ?g \<in> set ?g" by (rule hd_in_set)
  then have hd: "ack_fingerprint (hd ?g) = ack_fingerprint a" using a(3) by simp
  then have "group_agrees ?g" "\<not> ak_reachable (hd ?g)"
    using a(2,3) ne by (auto simp: group_agrees_iff) (simp add: ack_fingerprint_def)
  moreover have "(ak_replica_id a, ?g) \<in> set (group_receipts rs)"
    using ne by (simp add: group_receipts_mem)
  ultimately show "\<exists>(rid, g)\<in>set (group_receipts rs). group_agrees g \<and> \<not> ak_reachable (hd g)"
    by blast
qed

lemma loop_result:
  assumes "foldl (check_group p e) (rs0, [], False) (group_receipts rs) = (rs', ids, u)"
  shows "distinct ids \<and> set ids = {rid. valid_replica p e (set rs) rid} \<and> u = unreachable_replica (set rs)"
proof -
  let ?ok = "\<lambda>(rid, g). group_agrees g \<and> receipt_faults p e rid (hd g) = []"
  have ids: "ids = map fst (filter ?ok (group_receipts rs))"
    and u: "u = (\<exists>(rid, g)\<in>set (group_receipts rs). group_agrees g \<and> \<not> ak_reachable (hd g))"
    using check_group_loop[OF assms] by auto
  have "distinct ids"
    unfolding ids using group_receipts_ok[of rs] by (simp add: distinct_map_filter)
  moreover have "set ids = {rid. valid_replica p e (set rs) rid}"
  proof -
    have "rid \<in> set ids \<longleftrightarrow> (\<exists>g. (rid, g) \<in> set (group_receipts rs) \<and> ?ok (rid, g))" for rid
      unfolding ids by force
    also have "\<dots> rid \<longleftrightarrow> valid_replica p e (set rs) rid" for rid
      using group_agrees_set[OF refl, of rid rs p e] group_agrees_iff
      by (auto simp: group_receipts_mem)
    finally show ?thesis by blast
  qed
  ultimately show ?thesis
    using u unreachable_group by simp
qed

lemma mk_replication_policy_wf:
  assumes "mk_replication_policy mode node data witness req = Inr p"
  shows "rp_local_node_id p \<notin> set (rp_data_ids p) \<and> set (rp_data_ids p) \<inter> set (rp_witness_ids p) = {}
    \<and> (rp_mode p = LOCAL_SQLITE \<longleftrightarrow> rp_required p = 0) \<and> 0 \<le> rp_required p
    \<and> (rp_mode p = REPLICATED_DATA_QUORUM \<longleftrightarrow> 2 \<le> rp_required p)"
proof -
  obtain m l d w n where p: "p = \<lparr>rp_mode = m, rp_local_node_id = l, rp_data_ids = d, rp_witness_ids = w,
      rp_required = n\<rparr>" "l \<notin> set d" "set d \<inter> set w = {}" "m = LOCAL_SQLITE \<longrightarrow> n = 0"
    "m = POOLED_PAIR \<longrightarrow> n = 1" "m = REPLICATED_DATA_QUORUM \<longrightarrow> 2 \<le> n"
    using assms by (auto simp: mk_replication_policy_def split: if_splits)
  then show ?thesis by (cases m) auto
qed

lemma valid_replica_finite: "finite {rid. valid_replica p e (set rs) rid}"
  by (rule finite_subset[of _ "ak_replica_id ` set rs"]) (auto simp: valid_replica_def)

lemma ra_evaluate_spec:
  assumes "length rs \<le> 1024" "rp_mode p \<noteq> LOCAL_SQLITE" "0 < rp_required p"
  obtains d where "ra_evaluate p (Some e) (Some (map Some rs)) (PyBool ld) PyNone (PyBool part) = Inr d"
    "distinct (rd_replica_ids d)" "set (rd_replica_ids d) = {rid. valid_replica p e (set rs) rid}"
    "sorted (rd_replica_ids d)"
    "rd_data_replica_count d = int (card {rid. valid_replica p e (set rs) rid})"
    "rd_acknowledged d \<longleftrightarrow> ld \<and> \<not> part \<and> \<not> unreachable_replica (set rs) \<and> rp_data_ids p \<noteq> []
       \<and> rp_required p \<le> int (card {rid. valid_replica p e (set rs) rid})"
    "rd_state d = (if rp_data_ids p = [] then (if ld then UNAVAILABLE else PAUSED)
       else if rd_acknowledged d then ACKNOWLEDGED
       else if \<not> ld \<or> part \<or> unreachable_replica (set rs) \<or> {rid. valid_replica p e (set rs) rid} \<noteq> {}
       then PAUSED else UNAVAILABLE)"
proof (cases "rp_data_ids p = []")
  case True
  then have none: "{rid. valid_replica p e (set rs) rid} = {}"
    by (auto simp: valid_replica_def receipt_faults_Nil)
  show ?thesis
    by (rule that[unfolded none])
      (use True assms in \<open>auto simp: ra_evaluate_def check_bool_def ra_decision_def Let_def\<close>)
next
  case False
  let ?V = "{rid. valid_replica p e (set rs) rid}"
  obtain reasons ids u where loop: "foldl (check_group p e) (if ld then [] else [LOCAL_DURABILITY_MISSING], [], False)
      (group_receipts rs) = (reasons, ids, u)"
    by (metis prod_cases3)
  note res = loop_result[OF loop]
  have len: "length ids = card ?V"
    using res distinct_card by force
  have zero: "0 < int (card ?V) \<longleftrightarrow> ?V \<noteq> {}"
    using valid_replica_finite[of p e rs] by (simp add: card_gt_0_iff)
  have eval: "ra_evaluate p (Some e) (Some (map Some rs)) (PyBool ld) PyNone (PyBool part) =
    Inr (ra_decision p e (fst (quorum_state ld (rp_required p) (int (card ?V)) (part \<or> u)))
      (snd (quorum_state ld (rp_required p) (int (card ?V)) (part \<or> u))) ld (int (card ?V)) (sort ids)
      (quorum_reasons (rp_required p) (int (card ?V)) (part \<or> u) reasons))"
    using False assms(1,2) loop
    by (auto simp: ra_evaluate_def check_bool_def Let_def comp_def len)
  show ?thesis
    by (rule that[OF eval])
      (use False assms res zero in \<open>auto simp: ra_decision_def quorum_state_def\<close>)
qed

lemma ra_evaluate_decides:
  assumes "length rs \<le> 1024" "rp_mode p \<noteq> LOCAL_SQLITE" "0 < rp_required p"
    and "ra_evaluate p (Some e) (Some (map Some rs)) (PyBool ld) PyNone (PyBool part) = Inr d"
  shows "rd_replica_ids d = sorted_list_of_set {rid. valid_replica p e (set rs) rid}
    \<and> rd_data_replica_count d = int (card {rid. valid_replica p e (set rs) rid})
    \<and> rd_acknowledged d = (ld \<and> \<not> part \<and> \<not> unreachable_replica (set rs) \<and> rp_data_ids p \<noteq> []
         \<and> rp_required p \<le> int (card {rid. valid_replica p e (set rs) rid}))
    \<and> rd_state d = (if rp_data_ids p = [] then (if ld then UNAVAILABLE else PAUSED)
       else if rd_acknowledged d then ACKNOWLEDGED
       else if \<not> ld \<or> part \<or> unreachable_replica (set rs) \<or> {rid. valid_replica p e (set rs) rid} \<noteq> {}
       then PAUSED else UNAVAILABLE)"
  by (rule ra_evaluate_spec[OF assms(1-3), of e ld part])
    (use assms(4) in \<open>auto intro: sorted_distinct_set_unique simp: valid_replica_finite\<close>)

section \<open>Properties\<close>

definition demo_event :: control_event where
  "demo_event = \<lparr>ev_cluster_id = ''c1'', ev_event_id = ''e1'', ev_source_node_id = ''n1'',
     ev_owner_id = ''n1'', ev_owner_epoch = 3, ev_lease_id = ''l1'', ev_event_digest = ''d1''\<rparr>"

definition demo_ack :: "string \<Rightarrow> string \<Rightarrow> replica_ack" where
  "demo_ack i r = \<lparr>ak_acknowledgement_id = i, ak_cluster_id = ''c1'', ak_event_id = ''e1'',
     ak_source_node_id = ''n1'', ak_replica_id = r, ak_role = DATA, ak_authorized = True,
     ak_reachable = True, ak_durable = True, ak_owner_id = ''n1'', ak_owner_epoch = 3,
     ak_lease_id = ''l1'', ak_event_digest = ''d1''\<rparr>"

definition demo_policy :: replication_policy where
  "demo_policy = \<lparr>rp_mode = REPLICATED_DATA_QUORUM, rp_local_node_id = ''n1'',
     rp_data_ids = [''n2'', ''n3''], rp_witness_ids = [''w1''], rp_required = 2\<rparr>"

lemma demo_policy_made: "mk_replication_policy (PyStr ''replicated_data_quorum'') (PyStr ''n1'')
    (PyList [PyStr ''n2'', PyStr ''n3'']) (PyList [PyStr ''w1'']) PyNone = Inr demo_policy"
  by code_simp

lemma demo_quorum: "case ra_evaluate demo_policy (Some demo_event)
      (Some (map Some [demo_ack ''a1'' ''n2'', demo_ack ''a2'' ''n3'', demo_ack ''a3'' ''n3''])) (PyBool True) PyNone
      (PyBool False) of
    Inr d \<Rightarrow> rd_acknowledged d \<and> rd_data_replica_count d = 2 | Inl _ \<Rightarrow> False"
  by code_simp

text \<open>
  (C7) An acknowledged event has its copies. When the policy acknowledges an event, the local
  commit is durable and at least the required number of distinct nodes, each an authorized data
  replica other than the local node, the source and every arbitration witness, has sent a receipt
  that is durable, reachable, authorized and agrees with the event in cluster, event, source,
  owner, epoch, lease and digest; a quorum policy requires at least two.
\<close>

theorem acknowledged_event_has_copies:
  assumes "mk_replication_policy mode node data witness req = Inr p" "length rs \<le> 1024"
    and "ra_evaluate p (Some e) (Some (map Some rs)) (PyBool ld) PyNone (PyBool part) = Inr d" "rd_acknowledged d"
  shows "ld \<and> \<not> part \<and> distinct (rd_replica_ids d) \<and> 1 \<le> rp_required p
    \<and> rp_required p \<le> int (length (rd_replica_ids d))
    \<and> (rp_mode p = REPLICATED_DATA_QUORUM \<longrightarrow> 2 \<le> length (rd_replica_ids d))
    \<and> (\<forall>rid\<in>set (rd_replica_ids d).
         rid \<in> set (rp_data_ids p) \<and> rid \<noteq> rp_local_node_id p \<and> rid \<noteq> ev_source_node_id e
         \<and> rid \<notin> set (rp_witness_ids p)
         \<and> (\<exists>a\<in>set rs. ak_replica_id a = rid \<and> ak_role a = DATA \<and> ak_authorized a \<and> ak_reachable a
              \<and> ak_durable a \<and> ak_cluster_id a = ev_cluster_id e \<and> ak_event_id a = ev_event_id e
              \<and> ak_source_node_id a = ev_source_node_id e \<and> ak_owner_id a = ev_owner_id e
              \<and> ak_owner_epoch a = ev_owner_epoch e \<and> ak_lease_id a = ev_lease_id e
              \<and> ak_event_digest a = ev_event_digest e))"
proof -
  have mode: "rp_mode p \<noteq> LOCAL_SQLITE"
    using assms(3,4)
    by (auto simp: ra_evaluate_def check_bool_def ra_decision_def Let_def split: if_splits)
  note wf = mk_replication_policy_wf[OF assms(1)]
  have req: "0 < rp_required p" using wf mode by linarith
  note dec = ra_evaluate_decides[OF assms(2) mode req assms(3)]
  have "rid \<in> set (rp_data_ids p) \<and> rid \<noteq> rp_local_node_id p \<and> rid \<noteq> ev_source_node_id e
       \<and> rid \<notin> set (rp_witness_ids p)
       \<and> (\<exists>a\<in>set rs. ak_replica_id a = rid \<and> ak_role a = DATA \<and> ak_authorized a \<and> ak_reachable a
            \<and> ak_durable a \<and> ak_cluster_id a = ev_cluster_id e \<and> ak_event_id a = ev_event_id e
            \<and> ak_source_node_id a = ev_source_node_id e \<and> ak_owner_id a = ev_owner_id e
            \<and> ak_owner_epoch a = ev_owner_epoch e \<and> ak_lease_id a = ev_lease_id e
            \<and> ak_event_digest a = ev_event_digest e)" if "valid_replica p e (set rs) rid" for rid
    using that unfolding valid_replica_def receipt_faults_Nil by blast
  then show ?thesis
    using dec assms(4) req wf valid_replica_finite[of p e rs] by auto
qed

theorem acknowledged_event_has_copies_witness:
  "\<exists>d. ra_evaluate demo_policy (Some demo_event)
      (Some (map Some [demo_ack ''a1'' ''n2'', demo_ack ''a2'' ''n3'', demo_ack ''a3'' ''n3''])) (PyBool True) PyNone
      (PyBool False) = Inr d \<and> 2 \<le> length (rd_replica_ids d)"
proof -
  obtain d where d: "ra_evaluate demo_policy (Some demo_event)
      (Some (map Some [demo_ack ''a1'' ''n2'', demo_ack ''a2'' ''n3'', demo_ack ''a3'' ''n3''])) (PyBool True) PyNone
      (PyBool False) = Inr d" "rd_acknowledged d"
    using demo_quorum by (auto split: sum.splits)
  show ?thesis
    using acknowledged_event_has_copies[OF demo_policy_made _ d] d(1) by (auto simp: demo_policy_def)
qed

text \<open>
  The decision on a data policy is exactly the quorum rule: every evaluation within the
  evidence bound returns a decision; it acknowledges exactly if the local commit is durable, there
  is no partition, no replica's consistent evidence says it is unreachable, and the number of
  valid replicas reaches the requirement.
\<close>

theorem acknowledged_iff_quorum:
  assumes "mk_replication_policy mode node data witness req = Inr p" "rp_mode p \<noteq> LOCAL_SQLITE"
    and "length rs \<le> 1024"
  shows "\<exists>d. ra_evaluate p (Some e) (Some (map Some rs)) (PyBool ld) PyNone (PyBool part) = Inr d
    \<and> rd_data_replica_count d = int (card {rid. valid_replica p e (set rs) rid})
    \<and> (rd_acknowledged d \<longleftrightarrow> ld \<and> \<not> part \<and> \<not> unreachable_replica (set rs)
         \<and> rp_required p \<le> int (card {rid. valid_replica p e (set rs) rid}))"
proof -
  have req: "0 < rp_required p" using mk_replication_policy_wf[OF assms(1)] assms(2) by linarith
  have empty: "card {rid. valid_replica p e (set rs) rid} = 0" if "rp_data_ids p = []"
    using that by (intro card_eq_0_iff[THEN iffD2] disjI1) (auto simp: valid_replica_def receipt_faults_Nil)
  show ?thesis
    by (rule ra_evaluate_spec[OF assms(3,2) req, of e ld part]) (use empty req in auto)
qed

theorem acknowledged_iff_quorum_witness:
  "\<exists>d. ra_evaluate demo_policy (Some demo_event) (Some (map Some [])) (PyBool True) PyNone (PyBool False) = Inr d
    \<and> \<not> rd_acknowledged d"
  using acknowledged_iff_quorum[OF demo_policy_made, of "[]" demo_event True False]
  by (auto simp: demo_policy_def valid_replica_def)

text \<open>
  Retried, repeated or reordered receipts change nothing: two evaluations on the same set of
  receipts agree in state, acknowledgement, count and replicas.
\<close>

theorem evidence_order_and_retries_irrelevant:
  assumes "mk_replication_policy mode node data witness req = Inr p" "rp_mode p \<noteq> LOCAL_SQLITE"
    and "length rs \<le> 1024" "length rs' \<le> 1024" "set rs = set rs'"
    and "ra_evaluate p (Some e) (Some (map Some rs)) (PyBool ld) PyNone (PyBool part) = Inr d"
    and "ra_evaluate p (Some e) (Some (map Some rs')) (PyBool ld) PyNone (PyBool part) = Inr d'"
  shows "rd_state d = rd_state d' \<and> rd_acknowledged d = rd_acknowledged d'
    \<and> rd_data_replica_count d = rd_data_replica_count d' \<and> rd_replica_ids d = rd_replica_ids d'"
proof -
  have req: "0 < rp_required p" using mk_replication_policy_wf[OF assms(1)] assms(2) by linarith
  show ?thesis
    using ra_evaluate_decides[OF assms(3,2) req assms(6)] ra_evaluate_decides[OF assms(4,2) req assms(7)]
    by (simp add: assms(5))
qed

theorem evidence_order_and_retries_irrelevant_witness:
  "\<exists>d d'. ra_evaluate demo_policy (Some demo_event)
      (Some (map Some [demo_ack ''a1'' ''n2'', demo_ack ''a2'' ''n3''])) (PyBool True) PyNone (PyBool False) = Inr d
    \<and> ra_evaluate demo_policy (Some demo_event)
      (Some (map Some [demo_ack ''a2'' ''n3'', demo_ack ''a1'' ''n2'', demo_ack ''a2'' ''n3''])) (PyBool True) PyNone (PyBool False) = Inr d'
    \<and> rd_state d = rd_state d'"
proof -
  have mode: "rp_mode demo_policy \<noteq> LOCAL_SQLITE" "0 < rp_required demo_policy"
    by (simp_all add: demo_policy_def)
  let ?xs = "[demo_ack ''a1'' ''n2'', demo_ack ''a2'' ''n3'']"
  let ?ys = "[demo_ack ''a2'' ''n3'', demo_ack ''a1'' ''n2'', demo_ack ''a2'' ''n3'']"
  have "\<exists>d. ra_evaluate demo_policy (Some demo_event) (Some (map Some rs)) (PyBool True) PyNone (PyBool False) = Inr d"
    if "length rs \<le> 1024" for rs
    by (rule ra_evaluate_spec[OF that mode]) blast
  from this[of ?xs] this[of ?ys] obtain d d' where
    dd: "ra_evaluate demo_policy (Some demo_event) (Some (map Some ?xs)) (PyBool True) PyNone (PyBool False) = Inr d"
    "ra_evaluate demo_policy (Some demo_event) (Some (map Some ?ys)) (PyBool True) PyNone (PyBool False) = Inr d'"
    by auto
  have "set ?xs = set ?ys" by auto
  then show ?thesis
    using evidence_order_and_retries_irrelevant[OF demo_policy_made mode(1) _ _ _ dd] dd by auto
qed

end
