(* ===== verification/TakeoverReadiness.thy ===== *)
theory TakeoverReadiness
  imports Ownership
begin

text \<open>
  \<^verbatim>\<open>sonder_runtime/domain/takeover_readiness.py\<close>: whether the evidence for a takeover is complete.
  Three kinds of evidence (the fence of the old owner, the replicated state, the quorum decision)
  are compared with the request; every missing or mismatching one adds a reason, and the decision
  is ready exactly if no reason was added.
\<close>

section \<open>Values\<close>

datatype takeover_topology = SINGLE_HOST | TWO_NODE | MULTI_NODE

datatype takeover_reason =
    READY
  | OLD_OWNER_FENCE_MISSING
  | OLD_OWNER_FENCE_SCOPE_MISMATCH
  | OLD_OWNER_FENCE_UNCONFIRMED
  | OLD_OWNER_FENCE_NOT_INDEPENDENT
  | REPLICATION_EVIDENCE_MISSING
  | REPLICATION_SCOPE_MISMATCH
  | REPLICATION_NOT_ACKNOWLEDGED
  | REPLICATION_NOT_DURABLE
  | REPLICATION_QUORUM_NOT_REACHED
  | REPLICATION_SOURCE_MISSING
  | QUORUM_EVIDENCE_MISSING
  | QUORUM_SCOPE_MISMATCH
  | QUORUM_DENIED
  | QUORUM_NOT_REACHED
  | QUORUM_NOT_INDEPENDENT
  | WITNESS_NOT_INDEPENDENT

fun topology_value :: "takeover_topology \<Rightarrow> string" where
  "topology_value SINGLE_HOST = ''single-host''"
| "topology_value TWO_NODE = ''pooled-pair''"
| "topology_value MULTI_NODE = ''multi-node''"

fun takeover_reason_value :: "takeover_reason \<Rightarrow> string" where
  "takeover_reason_value READY = ''ready''"
| "takeover_reason_value OLD_OWNER_FENCE_MISSING = ''old_owner_fence_missing''"
| "takeover_reason_value OLD_OWNER_FENCE_SCOPE_MISMATCH = ''old_owner_fence_scope_mismatch''"
| "takeover_reason_value OLD_OWNER_FENCE_UNCONFIRMED = ''old_owner_fence_unconfirmed''"
| "takeover_reason_value OLD_OWNER_FENCE_NOT_INDEPENDENT = ''old_owner_fence_not_independent''"
| "takeover_reason_value REPLICATION_EVIDENCE_MISSING = ''replication_evidence_missing''"
| "takeover_reason_value REPLICATION_SCOPE_MISMATCH = ''replication_scope_mismatch''"
| "takeover_reason_value REPLICATION_NOT_ACKNOWLEDGED = ''replication_not_acknowledged''"
| "takeover_reason_value REPLICATION_NOT_DURABLE = ''replication_not_durable''"
| "takeover_reason_value REPLICATION_QUORUM_NOT_REACHED = ''replication_quorum_not_reached''"
| "takeover_reason_value REPLICATION_SOURCE_MISSING = ''replication_source_missing''"
| "takeover_reason_value QUORUM_EVIDENCE_MISSING = ''quorum_evidence_missing''"
| "takeover_reason_value QUORUM_SCOPE_MISMATCH = ''quorum_scope_mismatch''"
| "takeover_reason_value QUORUM_DENIED = ''quorum_denied''"
| "takeover_reason_value QUORUM_NOT_REACHED = ''quorum_not_reached''"
| "takeover_reason_value QUORUM_NOT_INDEPENDENT = ''quorum_not_independent''"
| "takeover_reason_value WITNESS_NOT_INDEPENDENT = ''witness_not_independent''"

definition tr_resource_kind :: "pyval \<Rightarrow> string res" where
  "tr_resource_kind v =
     (case v of
        PyStr s \<Rightarrow> if s \<in> set [''session'', ''attempt'', ''job'', ''approval'', ''memory_write''] then Inr s
                   else Inl (ValueError ''resource_kind is not supported'')
      | _ \<Rightarrow> Inl (ValueError ''resource_kind is not supported''))"

definition tr_bounded_ids :: "pyval \<Rightarrow> string \<Rightarrow> nat \<Rightarrow> string list res" where
  "tr_bounded_ids v field maximum =
     (case (case v of PyStr _ \<Rightarrow> None | PyBytes _ \<Rightarrow> None | _ \<Rightarrow> py_items v) of
        None \<Rightarrow> Inl (ValueError (field @ '' must be a bounded tuple of identities''))
      | Some values \<Rightarrow>
          if 1 \<le> length values \<and> length values \<le> maximum then
            rbind (mapr (\<lambda>x. check_identity x (field @ '' member'')) values) (\<lambda>ids.
              if distinct ids then Inr ids
              else Inl (ValueError (field @ '' must not contain duplicates'')))
          else Inl (ValueError (field @ '' must contain 1..'' @ dec_nat maximum @ '' identities'')))"

definition tr_topology :: "pyval \<Rightarrow> takeover_topology res" where
  "tr_topology v =
     (if v = PyStr ''single-host'' then Inr SINGLE_HOST
      else if v = PyStr ''pooled-pair'' then Inr TWO_NODE
      else if v = PyStr ''multi-node'' then Inr MULTI_NODE
      else Inl (ValueError ''topology must be single-host, pooled-pair, or multi-node''))"

text \<open>The five fields that every evidence value shares with the request.\<close>

record takeover_scope =
  ts_cluster_id :: string
  ts_resource_kind :: string
  ts_resource_id :: string
  ts_previous_owner_id :: string
  ts_previous_epoch :: int

definition mk_takeover_scope ::
  "pyval \<Rightarrow> pyval \<Rightarrow> pyval \<Rightarrow> pyval \<Rightarrow> pyval \<Rightarrow> takeover_scope res" where
  "mk_takeover_scope cluster kind rid owner epoch =
     rbind (check_identity cluster ''cluster_id'') (\<lambda>c.
     rbind (tr_resource_kind kind) (\<lambda>k.
     rbind (check_identity rid ''resource_id'') (\<lambda>r.
     rbind (check_identity owner ''previous_owner_id'') (\<lambda>w.
     rbind (check_epoch epoch ''previous_epoch'') (\<lambda>e.
       Inr \<lparr>ts_cluster_id = c, ts_resource_kind = k, ts_resource_id = r, ts_previous_owner_id = w,
            ts_previous_epoch = e\<rparr>)))))"

record takeover_request =
  tq_scope :: takeover_scope
  tq_new_owner_id :: string
  tq_topology :: takeover_topology

definition mk_takeover_request ::
  "pyval \<Rightarrow> pyval \<Rightarrow> pyval \<Rightarrow> pyval \<Rightarrow> pyval \<Rightarrow> pyval \<Rightarrow> pyval \<Rightarrow> takeover_request res" where
  "mk_takeover_request cluster kind rid owner epoch new_owner topology =
     rbind (mk_takeover_scope cluster kind rid owner epoch) (\<lambda>s.
     rbind (check_identity new_owner ''new_owner_id'') (\<lambda>n.
     rbind (tr_topology topology) (\<lambda>t.
       if ts_previous_owner_id s = n
       then Inl (ValueError ''new_owner_id must differ from previous_owner_id'')
       else Inr \<lparr>tq_scope = s, tq_new_owner_id = n, tq_topology = t\<rparr>)))"

record fence_evidence =
  fe_scope :: takeover_scope
  fe_receipt_id :: string
  fe_authority_id :: string
  fe_confirmed :: bool

definition mk_fence_evidence ::
  "pyval \<Rightarrow> pyval \<Rightarrow> pyval \<Rightarrow> pyval \<Rightarrow> pyval \<Rightarrow> pyval \<Rightarrow> pyval \<Rightarrow> pyval \<Rightarrow> fence_evidence res" where
  "mk_fence_evidence cluster kind rid owner epoch receipt authority confirmed =
     rbind (mk_takeover_scope cluster kind rid owner epoch) (\<lambda>s.
     rbind (check_identity receipt ''receipt_id'') (\<lambda>r.
     rbind (check_identity authority ''authority_id'') (\<lambda>a.
     rbind (check_bool confirmed ''confirmed'') (\<lambda>b.
       Inr \<lparr>fe_scope = s, fe_receipt_id = r, fe_authority_id = a, fe_confirmed = b\<rparr>))))"

record replication_evidence =
  re_scope :: takeover_scope
  re_receipt_id :: string
  re_state_digest :: string
  re_acknowledged :: bool
  re_durable :: bool
  re_replica_ids :: "string list"

definition mk_replication_evidence ::
  "pyval \<Rightarrow> pyval \<Rightarrow> pyval \<Rightarrow> pyval \<Rightarrow> pyval \<Rightarrow> pyval \<Rightarrow> pyval \<Rightarrow> pyval \<Rightarrow> pyval \<Rightarrow> pyval
     \<Rightarrow> replication_evidence res" where
  "mk_replication_evidence cluster kind rid owner epoch receipt digest acknowledged durable replicas =
     rbind (mk_takeover_scope cluster kind rid owner epoch) (\<lambda>s.
     rbind (check_identity receipt ''receipt_id'') (\<lambda>r.
     rbind (check_digest digest ''state_digest'') (\<lambda>d.
     rbind (check_bool acknowledged ''acknowledged'') (\<lambda>b1.
     rbind (check_bool durable ''durable'') (\<lambda>b2.
     rbind (tr_bounded_ids replicas ''replica_ids'' 64) (\<lambda>ids.
       Inr \<lparr>re_scope = s, re_receipt_id = r, re_state_digest = d, re_acknowledged = b1,
            re_durable = b2, re_replica_ids = ids\<rparr>))))))"

record quorum_evidence =
  qe_scope :: takeover_scope
  qe_decision_id :: string
  qe_authority_id :: string
  qe_witness_ids :: "string list"
  qe_required_votes :: int
  qe_received_votes :: int
  qe_granted :: bool

definition tr_votes :: "pyval \<Rightarrow> string \<Rightarrow> int \<Rightarrow> int res" where
  "tr_votes v name minimum =
     (case v of
        PyInt n \<Rightarrow> if minimum \<le> n \<and> n \<le> 64 then Inr n
                   else Inl (ValueError (name @ '' must be within '' @ py_str_int minimum @ ''..64''))
      | _ \<Rightarrow> Inl (ValueError (name @ '' must be within '' @ py_str_int minimum @ ''..64'')))"

definition mk_quorum_evidence ::
  "pyval \<Rightarrow> pyval \<Rightarrow> pyval \<Rightarrow> pyval \<Rightarrow> pyval \<Rightarrow> pyval \<Rightarrow> pyval \<Rightarrow> pyval \<Rightarrow> pyval \<Rightarrow> pyval \<Rightarrow> pyval
     \<Rightarrow> quorum_evidence res" where
  "mk_quorum_evidence cluster kind rid owner epoch decision_id authority witnesses required received granted =
     rbind (mk_takeover_scope cluster kind rid owner epoch) (\<lambda>s.
     rbind (check_identity decision_id ''decision_id'') (\<lambda>d.
     rbind (check_identity authority ''authority_id'') (\<lambda>a.
     rbind (tr_bounded_ids witnesses ''witness_ids'' 32) (\<lambda>ws.
     rbind (tr_votes required ''required_votes'' 1) (\<lambda>n.
     rbind (tr_votes received ''received_votes'' 0) (\<lambda>m.
     rbind (check_bool granted ''granted'') (\<lambda>b.
       Inr \<lparr>qe_scope = s, qe_decision_id = d, qe_authority_id = a, qe_witness_ids = ws,
            qe_required_votes = n, qe_received_votes = m, qe_granted = b\<rparr>)))))))"

record readiness_decision =
  rs_ready :: bool
  rs_profile :: string
  rs_scope :: takeover_scope
  rs_new_owner_id :: string
  rs_reason_codes :: "takeover_reason list"
  rs_limitations :: "string list"

definition rs_as_dict :: "readiness_decision \<Rightarrow> (string, pyval) dict" where
  "rs_as_dict d =
     [(''ready'', PyBool (rs_ready d)),
      (''profile'', PyStr (rs_profile d)),
      (''cluster_id'', PyStr (ts_cluster_id (rs_scope d))),
      (''resource_kind'', PyStr (ts_resource_kind (rs_scope d))),
      (''resource_id'', PyStr (ts_resource_id (rs_scope d))),
      (''previous_owner_id'', PyStr (ts_previous_owner_id (rs_scope d))),
      (''previous_epoch'', PyInt (ts_previous_epoch (rs_scope d))),
      (''new_owner_id'', PyStr (rs_new_owner_id d)),
      (''reason_codes'', PyList (map (\<lambda>r. PyStr (takeover_reason_value r)) (rs_reason_codes d))),
      (''limitations'', PyList (map PyStr (rs_limitations d)))]"

definition rs_reason :: "readiness_decision \<Rightarrow> string" where
  "rs_reason d = py_join ''; '' (map takeover_reason_value (rs_reason_codes d))"

section \<open>The gate\<close>

definition takeover_limitations :: "takeover_topology \<Rightarrow> string list" where
  "takeover_limitations t =
     ''This pure contract evaluates evidence only; it performs no election, network I/O, process fencing, or promotion.'' #
     (case t of
        SINGLE_HOST \<Rightarrow> [''single-host supplies local control state only; an external replicated state provider and independent witness are required.'']
      | TWO_NODE \<Rightarrow> [''pooled-pair has two data nodes; a third independent witness is required to prevent split-brain.'']
      | MULTI_NODE \<Rightarrow> [''multi-node membership does not provide live fencing, replication transport, or quorum; those remain external provider capabilities.''])"

definition fence_reasons :: "takeover_request \<Rightarrow> fence_evidence option \<Rightarrow> takeover_reason list" where
  "fence_reasons q fence =
     (case fence of None \<Rightarrow> [OLD_OWNER_FENCE_MISSING]
      | Some f \<Rightarrow>
          if fe_scope f \<noteq> tq_scope q then [OLD_OWNER_FENCE_SCOPE_MISMATCH]
          else (if \<not> fe_confirmed f then [OLD_OWNER_FENCE_UNCONFIRMED] else [])
             @ (if fe_authority_id f \<in> {ts_previous_owner_id (tq_scope q), tq_new_owner_id q}
                then [OLD_OWNER_FENCE_NOT_INDEPENDENT] else []))"

definition replication_reasons ::
  "takeover_request \<Rightarrow> fence_evidence option \<Rightarrow> replication_evidence option \<Rightarrow> int \<Rightarrow> takeover_reason list" where
  "replication_reasons q fence replication minimum_replicas =
     (case replication of None \<Rightarrow> [REPLICATION_EVIDENCE_MISSING]
      | Some r \<Rightarrow>
          if re_scope r \<noteq> tq_scope q then [REPLICATION_SCOPE_MISMATCH]
          else (if \<not> re_acknowledged r then [REPLICATION_NOT_ACKNOWLEDGED] else [])
             @ (if \<not> re_durable r then [REPLICATION_NOT_DURABLE] else [])
             @ (if int (length (re_replica_ids r)) < minimum_replicas
                then [REPLICATION_QUORUM_NOT_REACHED] else [])
             @ (if ts_previous_owner_id (tq_scope q) \<notin> set (re_replica_ids r)
                then [REPLICATION_SOURCE_MISSING] else [])
             @ (case fence of None \<Rightarrow> []
                | Some f \<Rightarrow> if fe_scope f = tq_scope q \<and> fe_authority_id f \<in> set (re_replica_ids r)
                    then [OLD_OWNER_FENCE_NOT_INDEPENDENT] else []))"

definition quorum_gate_reasons ::
  "takeover_request \<Rightarrow> replication_evidence option \<Rightarrow> quorum_evidence option \<Rightarrow> takeover_reason list" where
  "quorum_gate_reasons q replication quorum =
     (case quorum of None \<Rightarrow> [QUORUM_EVIDENCE_MISSING]
      | Some w \<Rightarrow>
          if qe_scope w \<noteq> tq_scope q then [QUORUM_SCOPE_MISMATCH]
          else
            let data_replicas = (case replication of None \<Rightarrow> {} | Some r \<Rightarrow> set (re_replica_ids r));
                owners = {ts_previous_owner_id (tq_scope q), tq_new_owner_id q}
            in (if \<not> qe_granted w then [QUORUM_DENIED] else [])
             @ (if qe_received_votes w < qe_required_votes w
                   \<or> int (length (qe_witness_ids w)) < qe_received_votes w
                then [QUORUM_NOT_REACHED] else [])
             @ (if qe_authority_id w \<in> owners \<or> qe_authority_id w \<in> data_replicas
                then [QUORUM_NOT_INDEPENDENT] else [])
             @ (if set (qe_witness_ids w) \<inter> (owners \<union> data_replicas) \<noteq> {}
                then [WITNESS_NOT_INDEPENDENT] else []))"

definition evaluate_takeover_readiness ::
  "takeover_request option \<Rightarrow> fence_evidence option \<Rightarrow> replication_evidence option
     \<Rightarrow> quorum_evidence option \<Rightarrow> pyval \<Rightarrow> readiness_decision res" where
  "evaluate_takeover_readiness request fence replication quorum minimum_replicas =
     (case request of None \<Rightarrow> Inl (TypeError ''request must be a TakeoverRequest'')
      | Some q \<Rightarrow>
      (case minimum_replicas of
         PyInt m \<Rightarrow>
           if 2 \<le> m \<and> m \<le> 64 then
             let reasons = fence_reasons q fence @ replication_reasons q fence replication m
                   @ quorum_gate_reasons q replication quorum;
                 result = (\<lambda>ready codes. \<lparr>rs_ready = ready, rs_profile = topology_value (tq_topology q),
                   rs_scope = tq_scope q, rs_new_owner_id = tq_new_owner_id q, rs_reason_codes = codes,
                   rs_limitations = takeover_limitations (tq_topology q)\<rparr>)
             in if reasons \<noteq> [] then Inr (result False (py_unique reasons)) else Inr (result True [READY])
           else Inl (ValueError ''minimum_replicas must be within 2..64'')
       | _ \<Rightarrow> Inl (ValueError ''minimum_replicas must be within 2..64'')))"

section \<open>Properties\<close>

lemma readiness_result:
  assumes "evaluate_takeover_readiness (Some q) fo ro wo mv = Inr d"
  shows "\<exists>m. mv = PyInt m \<and> 2 \<le> m \<and> m \<le> 64 \<and> rs_scope d = tq_scope q \<and> rs_new_owner_id d = tq_new_owner_id q
    \<and> (rs_ready d \<longleftrightarrow> fence_reasons q fo = [] \<and> replication_reasons q fo ro m = [] \<and> quorum_gate_reasons q ro wo = [])"
  using assms by (auto simp: evaluate_takeover_readiness_def Let_def split: pyval.splits if_splits)

lemma readiness_total:
  "2 \<le> m \<Longrightarrow> m \<le> 64 \<Longrightarrow>
     \<exists>d. evaluate_takeover_readiness (Some q) fo ro wo (PyInt m) = Inr d \<and> rs_reason_codes d \<noteq> []"
  by (cases "fence_reasons q fo @ replication_reasons q fo ro m @ quorum_gate_reasons q ro wo = []")
    (auto simp: evaluate_takeover_readiness_def Let_def)

lemma fence_reasons_Nil:
  "fence_reasons q fo = [] \<longleftrightarrow> (\<exists>f. fo = Some f \<and> fe_scope f = tq_scope q \<and> fe_confirmed f
     \<and> fe_authority_id f \<noteq> ts_previous_owner_id (tq_scope q) \<and> fe_authority_id f \<noteq> tq_new_owner_id q)"
  by (auto simp: fence_reasons_def split: option.splits)

lemma replication_reasons_Nil:
  "replication_reasons q fo ro m = [] \<longleftrightarrow> (\<exists>r. ro = Some r \<and> re_scope r = tq_scope q
     \<and> re_acknowledged r \<and> re_durable r \<and> m \<le> int (length (re_replica_ids r))
     \<and> ts_previous_owner_id (tq_scope q) \<in> set (re_replica_ids r)
     \<and> (\<forall>f. fo = Some f \<longrightarrow> fe_scope f = tq_scope q \<longrightarrow> fe_authority_id f \<notin> set (re_replica_ids r)))"
  by (auto simp: replication_reasons_def split: option.splits)

lemma quorum_gate_reasons_Nil:
  "quorum_gate_reasons q (Some r) wo = [] \<longleftrightarrow> (\<exists>w. wo = Some w \<and> qe_scope w = tq_scope q \<and> qe_granted w
     \<and> qe_required_votes w \<le> qe_received_votes w \<and> qe_received_votes w \<le> int (length (qe_witness_ids w))
     \<and> ({qe_authority_id w} \<union> set (qe_witness_ids w))
         \<inter> ({ts_previous_owner_id (tq_scope q), tq_new_owner_id q} \<union> set (re_replica_ids r)) = {})"
  by (auto simp: quorum_gate_reasons_def Let_def split: option.splits)

text \<open>
  Readiness is exactly complete independent evidence. With a valid minimum, the decision is
  ready if and only if a confirmed fence receipt, an acknowledged durable copy set of the minimum
  size that contains the previous owner, and a granted quorum with enough votes are present for
  the scope of the request, and no fencing authority, quorum authority or witness is an owner or a
  data replica; otherwise it carries at least one reason.
\<close>

theorem takeover_ready_iff_complete_evidence:
  assumes "2 \<le> m" "m \<le> 64"
  shows "\<exists>d. evaluate_takeover_readiness (Some q) fo ro wo (PyInt m) = Inr d \<and> rs_reason_codes d \<noteq> []
    \<and> (rs_ready d \<longleftrightarrow> (\<exists>f r w. fo = Some f \<and> ro = Some r \<and> wo = Some w
        \<and> fe_scope f = tq_scope q \<and> re_scope r = tq_scope q \<and> qe_scope w = tq_scope q
        \<and> fe_confirmed f \<and> re_acknowledged r \<and> re_durable r \<and> m \<le> int (length (re_replica_ids r))
        \<and> ts_previous_owner_id (tq_scope q) \<in> set (re_replica_ids r)
        \<and> qe_granted w \<and> qe_required_votes w \<le> qe_received_votes w
        \<and> qe_received_votes w \<le> int (length (qe_witness_ids w))
        \<and> ({fe_authority_id f, qe_authority_id w} \<union> set (qe_witness_ids w))
            \<inter> ({ts_previous_owner_id (tq_scope q), tq_new_owner_id q} \<union> set (re_replica_ids r)) = {}))"
proof -
  obtain d where d: "evaluate_takeover_readiness (Some q) fo ro wo (PyInt m) = Inr d" "rs_reason_codes d \<noteq> []"
    using readiness_total[OF assms] by blast
  have "rs_ready d \<longleftrightarrow> fence_reasons q fo = [] \<and> replication_reasons q fo ro m = []
      \<and> quorum_gate_reasons q ro wo = []"
    using readiness_result[OF d(1)] by auto
  then show ?thesis
    by (intro exI[of _ d] conjI d; cases fo; cases ro; cases wo)
      (auto simp: replication_reasons_Nil quorum_gate_reasons_Nil fence_reasons_Nil)
qed

definition demo_scope :: takeover_scope where
  "demo_scope = \<lparr>ts_cluster_id = ''c1'', ts_resource_kind = ''job'', ts_resource_id = ''r1'',
     ts_previous_owner_id = ''n1'', ts_previous_epoch = 1\<rparr>"

definition demo_takeover :: takeover_request where
  "demo_takeover = \<lparr>tq_scope = demo_scope, tq_new_owner_id = ''n2'', tq_topology = MULTI_NODE\<rparr>"

definition demo_fence :: fence_evidence where
  "demo_fence = \<lparr>fe_scope = demo_scope, fe_receipt_id = ''f1'', fe_authority_id = ''stonith'', fe_confirmed = True\<rparr>"

definition demo_copies :: replication_evidence where
  "demo_copies = \<lparr>re_scope = demo_scope, re_receipt_id = ''p1'', re_state_digest = ''d'',
     re_acknowledged = True, re_durable = True, re_replica_ids = [''n1'', ''n2'']\<rparr>"

definition demo_quorum_evidence :: quorum_evidence where
  "demo_quorum_evidence = \<lparr>qe_scope = demo_scope, qe_decision_id = ''q1'', qe_authority_id = ''arb'',
     qe_witness_ids = [''w1'', ''w2''], qe_required_votes = 2, qe_received_votes = 2, qe_granted = True\<rparr>"

theorem takeover_ready_iff_complete_evidence_witness:
  "\<exists>d. evaluate_takeover_readiness (Some demo_takeover) (Some demo_fence) (Some demo_copies)
     (Some demo_quorum_evidence) (PyInt 2) = Inr d \<and> rs_ready d"
  using takeover_ready_iff_complete_evidence[of 2 demo_takeover "Some demo_fence" "Some demo_copies"
      "Some demo_quorum_evidence"]
  by (auto simp: demo_takeover_def demo_fence_def demo_copies_def demo_quorum_evidence_def demo_scope_def)

end
