(* ===== verification/Reconnect.thy ===== *)
theory Reconnect
  imports Prelude
begin

text \<open>
  \<^verbatim>\<open>sonder_runtime/domain/reconnect_reconciliation.py\<close>: which endpoint a reconnecting client may use
  and what it may do with the worker receipts of one operation. An aware datetime is its UTC
  instant in microseconds; \<open>None\<close> stands for an argument that is not an aware datetime. The status
  dictionaries that print a datetime are left out.
\<close>

section \<open>Values\<close>

datatype discovery_disposition = CONNECTED | D_UNAVAILABLE | D_PAUSED | D_REJECTED

datatype receipt_disposition = RESUME | REPLAY | R_UNAVAILABLE | R_PAUSED | R_REJECTED

datatype reconnect_reason =
    DISCOVERY_ACCEPTED
  | MEMBER_UNAVAILABLE
  | PROTOCOL_MISMATCH
  | CLUSTER_MISMATCH
  | AUTHORITY_EXPIRED
  | AUTHORITY_STALE
  | AUTHORITY_AHEAD
  | AUTHORITY_AMBIGUOUS
  | CLIENT_MISMATCH
  | RECEIPT_RESUMABLE
  | RECEIPT_TERMINAL
  | RECEIPT_NOT_FOUND
  | RECEIPT_STALE
  | RECEIPT_AHEAD
  | LEASE_MISMATCH
  | IDEMPOTENCY_CONFLICT
  | RECEIPT_CONFLICT
  | WORKER_PAUSED
  | WORKER_INTERRUPTED

datatype receipt_state =
  PENDING | CLAIMED | RUNNING | PAUSED | SUCCEEDED | FAILED | CANCELLED | INTERRUPTED

fun receipt_terminal :: "receipt_state \<Rightarrow> bool" where
  "receipt_terminal s = (s \<in> {SUCCEEDED, FAILED, CANCELLED})"

fun receipt_state_value :: "receipt_state \<Rightarrow> string" where
  "receipt_state_value PENDING = ''pending''"
| "receipt_state_value CLAIMED = ''claimed''"
| "receipt_state_value RUNNING = ''running''"
| "receipt_state_value PAUSED = ''paused''"
| "receipt_state_value SUCCEEDED = ''succeeded''"
| "receipt_state_value FAILED = ''failed''"
| "receipt_state_value CANCELLED = ''cancelled''"
| "receipt_state_value INTERRUPTED = ''interrupted''"

definition rc_identity :: "pyval \<Rightarrow> string \<Rightarrow> string res" where
  "rc_identity v field =
     (case v of
        PyStr s \<Rightarrow> if identity_match s then Inr s
                   else Inl (ReconnectContractError (field @ '' must be a bounded stable identity''))
      | _ \<Rightarrow> Inl (ReconnectContractError (field @ '' must be a bounded stable identity'')))"

definition rc_digest :: "pyval \<Rightarrow> string \<Rightarrow> string res" where
  "rc_digest v field =
     (case v of
        PyStr s \<Rightarrow> if digest_match s then Inr s
                   else Inl (ReconnectContractError (field @ '' must be a lowercase SHA-256 digest''))
      | _ \<Rightarrow> Inl (ReconnectContractError (field @ '' must be a lowercase SHA-256 digest'')))"

definition rc_bounded :: "int \<Rightarrow> pyval \<Rightarrow> string \<Rightarrow> int \<Rightarrow> int res" where
  "rc_bounded minimum v field maximum =
     (case v of
        PyInt n \<Rightarrow> if minimum \<le> n \<and> n \<le> maximum then Inr n
                   else Inl (ReconnectContractError (field @ '' must be within '' @ py_str_int minimum @ ''..''
                     @ py_str_int maximum))
      | _ \<Rightarrow> Inl (ReconnectContractError (field @ '' must be within '' @ py_str_int minimum @ ''..''
               @ py_str_int maximum)))"

definition rc_positive :: "pyval \<Rightarrow> string \<Rightarrow> int \<Rightarrow> int res" where
  "rc_positive v field maximum = rc_bounded 1 v field maximum"

definition rc_nonnegative :: "pyval \<Rightarrow> string \<Rightarrow> int \<Rightarrow> int res" where
  "rc_nonnegative v field maximum = rc_bounded 0 v field maximum"

definition rc_boolean :: "pyval \<Rightarrow> string \<Rightarrow> bool res" where
  "rc_boolean v field =
     (case v of PyBool b \<Rightarrow> Inr b | _ \<Rightarrow> Inl (ReconnectContractError (field @ '' must be boolean'')))"

definition rc_utc :: "int option \<Rightarrow> string \<Rightarrow> int res" where
  "rc_utc t field =
     (case t of Some u \<Rightarrow> Inr u
      | None \<Rightarrow> Inl (ReconnectContractError (field @ '' must be timezone-aware'')))"

record authority_lease =
  al_cluster_id :: string
  al_owner_id :: string
  al_owner_epoch :: int
  al_lease_id :: string
  al_expires_at :: int

definition mk_authority_lease ::
  "pyval \<Rightarrow> pyval \<Rightarrow> pyval \<Rightarrow> pyval \<Rightarrow> int option \<Rightarrow> authority_lease res" where
  "mk_authority_lease cluster owner epoch lease expires =
     rbind (rc_identity cluster ''cluster_id'') (\<lambda>c.
     rbind (rc_identity owner ''owner_id'') (\<lambda>w.
     rbind (rc_positive epoch ''owner_epoch'' max_int63) (\<lambda>e.
     rbind (rc_identity lease ''lease_id'') (\<lambda>l.
     rbind (rc_utc expires ''expires_at'') (\<lambda>x.
       Inr \<lparr>al_cluster_id = c, al_owner_id = w, al_owner_epoch = e, al_lease_id = l,
            al_expires_at = x\<rparr>)))))"

definition al_binding :: "authority_lease \<Rightarrow> string \<times> string \<times> int \<times> string" where
  "al_binding a = (al_cluster_id a, al_owner_id a, al_owner_epoch a, al_lease_id a)"

definition same_binding :: "authority_lease \<Rightarrow> authority_lease \<Rightarrow> bool" where
  "same_binding a b = (al_binding a = al_binding b)"

definition live_at :: "authority_lease \<Rightarrow> int option \<Rightarrow> bool res" where
  "live_at a now = rbind (rc_utc now ''now'') (\<lambda>t. Inr (t < al_expires_at a))"

record discovery_member =
  dm_node_id :: string
  dm_endpoint_id :: string
  dm_authority :: authority_lease
  dm_reachable :: bool
  dm_protocol_versions :: "int list"

definition protocol_versions_ok :: "pyval \<Rightarrow> bool" where
  "protocol_versions_ok v =
     (case v of
        PyTuple vs \<Rightarrow> vs \<noteq> [] \<and> length vs \<le> 16 \<and> list_all (bounded_int 1 16) vs \<and> distinct vs
      | _ \<Rightarrow> False)"

definition py_ints :: "pyval \<Rightarrow> int list" where
  "py_ints v = (case v of PyTuple vs \<Rightarrow> concat (map (\<lambda>x. case x of PyInt n \<Rightarrow> [n] | _ \<Rightarrow> []) vs) | _ \<Rightarrow> [])"

definition mk_discovery_member ::
  "pyval \<Rightarrow> pyval \<Rightarrow> authority_lease option \<Rightarrow> pyval \<Rightarrow> pyval \<Rightarrow> discovery_member res" where
  "mk_discovery_member node endpoint authority reachable versions =
     rbind (rc_identity node ''node_id'') (\<lambda>n.
     rbind (rc_identity endpoint ''endpoint_id'') (\<lambda>e.
     (case authority of None \<Rightarrow> Inl (ReconnectContractError ''member authority must be an AuthorityLease'')
      | Some a \<Rightarrow>
        rbind (rc_boolean reachable ''reachable'') (\<lambda>b.
          if \<not> protocol_versions_ok versions
          then Inl (ReconnectContractError ''protocol_versions must be bounded unique versions'')
          else if sort (py_ints versions) \<noteq> py_ints versions
          then Inl (ReconnectContractError ''protocol_versions must be sorted'')
          else Inr \<lparr>dm_node_id = n, dm_endpoint_id = e, dm_authority = a, dm_reachable = b,
                    dm_protocol_versions = py_ints versions\<rparr>))))"

definition dm_supports :: "discovery_member \<Rightarrow> int \<Rightarrow> bool" where
  "dm_supports m v = (v \<in> set (dm_protocol_versions m))"

record discovery_snapshot =
  sn_cluster_id :: string
  sn_authority :: authority_lease
  sn_revision :: int
  sn_members :: "discovery_member list"

definition mk_discovery_snapshot ::
  "pyval \<Rightarrow> authority_lease option \<Rightarrow> pyval \<Rightarrow> (discovery_member option list) option \<Rightarrow> discovery_snapshot res" where
  \<comment> \<open>\<open>None\<close> stands for a value of another type\<close>
  "mk_discovery_snapshot cluster authority revision members =
     rbind (rc_identity cluster ''cluster_id'') (\<lambda>c.
     (case authority of None \<Rightarrow> Inl (ReconnectContractError ''snapshot authority must be an AuthorityLease'')
      | Some a \<Rightarrow>
        if al_cluster_id a \<noteq> c
        then Inl (ReconnectContractError ''snapshot authority cluster does not match snapshot'')
        else rbind (rc_positive revision ''snapshot revision'' max_int63) (\<lambda>r.
          (case members of
             None \<Rightarrow> Inl (ReconnectContractError ''members must be a bounded tuple of DiscoveryMember values'')
           | Some ms \<Rightarrow>
               if 256 < length ms \<or> None \<in> set ms
               then Inl (ReconnectContractError ''members must be a bounded tuple of DiscoveryMember values'')
               else let xs = map the ms in
                 if \<not> distinct (map dm_node_id xs)
                 then Inl (ReconnectContractError ''discovery member node identities must be unique'')
                 else if \<not> distinct (map dm_endpoint_id xs)
                 then Inl (ReconnectContractError ''discovery endpoint identities must be unique'')
                 else if \<exists>m\<in>set xs. al_cluster_id (dm_authority m) \<noteq> c
                 then Inl (ReconnectContractError ''discovery member authority cluster does not match snapshot'')
                 else Inr \<lparr>sn_cluster_id = c, sn_authority = a, sn_revision = r, sn_members = xs\<rparr>))))"

record reconnect_request =
  rr_client_id :: string
  rr_cluster_id :: string
  rr_protocol_version :: int
  rr_last_authority :: "authority_lease option"
  rr_session_id :: "string option"
  rr_preferred_endpoint_id :: "string option"
  rr_last_receipt_revision :: int

definition rc_optional_identity :: "pyval \<Rightarrow> string \<Rightarrow> string option res" where
  "rc_optional_identity v field =
     (if v = PyNone then Inr None else rbind (rc_identity v field) (\<lambda>s. Inr (Some s)))"

definition mk_reconnect_request ::
  "pyval \<Rightarrow> pyval \<Rightarrow> pyval \<Rightarrow> (authority_lease option) option \<Rightarrow> pyval \<Rightarrow> pyval \<Rightarrow> pyval
     \<Rightarrow> reconnect_request res" where
  "mk_reconnect_request client cluster version last_authority session preferred revision =
     rbind (rc_identity client ''client_id'') (\<lambda>i.
     rbind (rc_identity cluster ''cluster_id'') (\<lambda>c.
     rbind (rc_positive version ''protocol_version'' 16) (\<lambda>v.
     (case last_authority of
        None \<Rightarrow> Inl (ReconnectContractError ''last_authority must be an AuthorityLease or None'')
      | Some a \<Rightarrow>
        rbind (rc_optional_identity session ''session_id'') (\<lambda>s.
        rbind (rc_optional_identity preferred ''preferred_endpoint_id'') (\<lambda>p.
        rbind (rc_nonnegative revision ''last_receipt_revision'' max_int63) (\<lambda>r.
          Inr \<lparr>rr_client_id = i, rr_cluster_id = c, rr_protocol_version = v, rr_last_authority = a,
               rr_session_id = s, rr_preferred_endpoint_id = p, rr_last_receipt_revision = r\<rparr>)))))))"

record discovery_decision =
  dd_disposition :: discovery_disposition
  dd_reason :: reconnect_reason
  dd_selected_node_id :: "string option"
  dd_selected_endpoint_id :: "string option"
  dd_authority :: authority_lease
  dd_candidate_node_ids :: "string list"
  dd_snapshot_revision :: int

record worker_receipt =
  wc_client_id :: string
  wc_cluster_id :: string
  wc_operation_id :: string
  wc_idempotency_key :: string
  wc_request_digest :: string
  wc_worker_id :: string
  wc_remote_job_id :: string
  wc_owner_id :: string
  wc_owner_epoch :: int
  wc_lease_id :: string
  wc_state :: receipt_state
  wc_revision :: int
  wc_output_watermark :: int

definition receipt_state_of :: "pyval \<Rightarrow> receipt_state res" where
  "receipt_state_of v =
     (case v of
        PyStr s \<Rightarrow>
          (case find (\<lambda>x. receipt_state_value x = s)
                  [PENDING, CLAIMED, RUNNING, PAUSED, SUCCEEDED, FAILED, CANCELLED, INTERRUPTED] of
             Some x \<Rightarrow> Inr x
           | None \<Rightarrow> Inl (ReconnectContractError ''state is not a recognized worker receipt state''))
      | _ \<Rightarrow> Inl (ReconnectContractError ''state is not a recognized worker receipt state''))"

definition mk_worker_receipt ::
  "pyval \<Rightarrow> pyval \<Rightarrow> pyval \<Rightarrow> pyval \<Rightarrow> pyval \<Rightarrow> pyval \<Rightarrow> pyval \<Rightarrow> pyval \<Rightarrow> pyval \<Rightarrow> pyval \<Rightarrow> pyval
     \<Rightarrow> pyval \<Rightarrow> pyval \<Rightarrow> worker_receipt res" where
  "mk_worker_receipt client cluster operation key digest worker job owner epoch lease state revision watermark =
     rbind (rc_identity client ''client_id'') (\<lambda>i.
     rbind (rc_identity cluster ''cluster_id'') (\<lambda>c.
     rbind (rc_identity operation ''operation_id'') (\<lambda>p.
     rbind (rc_identity key ''idempotency_key'') (\<lambda>k.
     rbind (rc_identity worker ''worker_id'') (\<lambda>w.
     rbind (rc_identity job ''remote_job_id'') (\<lambda>j.
     rbind (rc_identity owner ''owner_id'') (\<lambda>ow.
     rbind (rc_identity lease ''lease_id'') (\<lambda>l.
     rbind (rc_digest digest ''request_digest'') (\<lambda>d.
     rbind (rc_positive epoch ''owner_epoch'' max_int63) (\<lambda>e.
     rbind (receipt_state_of state) (\<lambda>s.
     rbind (rc_positive revision ''receipt revision'' max_int63) (\<lambda>r.
     rbind (rc_nonnegative watermark ''output_watermark'' max_int63) (\<lambda>m.
       Inr \<lparr>wc_client_id = i, wc_cluster_id = c, wc_operation_id = p, wc_idempotency_key = k,
            wc_request_digest = d, wc_worker_id = w, wc_remote_job_id = j, wc_owner_id = ow,
            wc_owner_epoch = e, wc_lease_id = l, wc_state = s, wc_revision = r,
            wc_output_watermark = m\<rparr>)))))))))))))"

definition receipt_identity :: "worker_receipt \<Rightarrow> string \<times> string" where
  "receipt_identity r = (wc_worker_id r, wc_remote_job_id r)"

definition wc_as_dict :: "worker_receipt \<Rightarrow> (string, pyval) dict" where
  "wc_as_dict r =
     [(''client_id'', PyStr (wc_client_id r)),
      (''cluster_id'', PyStr (wc_cluster_id r)),
      (''operation_id'', PyStr (wc_operation_id r)),
      (''idempotency_key'', PyStr (wc_idempotency_key r)),
      (''request_digest'', PyStr (wc_request_digest r)),
      (''worker_id'', PyStr (wc_worker_id r)),
      (''remote_job_id'', PyStr (wc_remote_job_id r)),
      (''owner_id'', PyStr (wc_owner_id r)),
      (''owner_epoch'', PyInt (wc_owner_epoch r)),
      (''lease_id'', PyStr (wc_lease_id r)),
      (''state'', PyStr (receipt_state_value (wc_state r))),
      (''revision'', PyInt (wc_revision r)),
      (''output_watermark'', PyInt (wc_output_watermark r))]"

record reconciliation_request =
  rq_client_id :: string
  rq_cluster_id :: string
  rq_operation_id :: string
  rq_idempotency_key :: string
  rq_request_digest :: string
  rq_authority :: authority_lease
  rq_last_seen_revision :: int

definition mk_reconciliation_request ::
  "pyval \<Rightarrow> pyval \<Rightarrow> pyval \<Rightarrow> pyval \<Rightarrow> pyval \<Rightarrow> authority_lease option \<Rightarrow> pyval \<Rightarrow> reconciliation_request res" where
  "mk_reconciliation_request client cluster operation key digest authority revision =
     rbind (rc_identity client ''client_id'') (\<lambda>i.
     rbind (rc_identity cluster ''cluster_id'') (\<lambda>c.
     rbind (rc_identity operation ''operation_id'') (\<lambda>p.
     rbind (rc_identity key ''idempotency_key'') (\<lambda>k.
     rbind (rc_digest digest ''request_digest'') (\<lambda>d.
     (case authority of None \<Rightarrow> Inl (ReconnectContractError ''authority must be an AuthorityLease'')
      | Some a \<Rightarrow>
        if al_cluster_id a \<noteq> c
        then Inl (ReconnectContractError ''request authority cluster does not match request'')
        else rbind (rc_nonnegative revision ''last_seen_revision'' max_int63) (\<lambda>r.
          Inr \<lparr>rq_client_id = i, rq_cluster_id = c, rq_operation_id = p, rq_idempotency_key = k,
               rq_request_digest = d, rq_authority = a, rq_last_seen_revision = r\<rparr>)))))))"

record reconciliation_decision =
  cd_disposition :: receipt_disposition
  cd_reason :: reconnect_reason
  cd_receipt :: "worker_receipt option"
  cd_candidate_count :: nat
  cd_deduplicated_count :: nat

definition authority_relation :: "authority_lease \<Rightarrow> authority_lease \<Rightarrow> reconnect_reason option" where
  "authority_relation expected actual =
     (if al_cluster_id expected \<noteq> al_cluster_id actual then Some CLUSTER_MISMATCH
      else if al_owner_epoch actual < al_owner_epoch expected then Some AUTHORITY_STALE
      else if al_owner_epoch expected < al_owner_epoch actual then Some AUTHORITY_AHEAD
      else if al_owner_id expected \<noteq> al_owner_id actual \<or> al_lease_id expected \<noteq> al_lease_id actual
      then Some AUTHORITY_AMBIGUOUS
      else None)"

definition receipt_authority_reason :: "worker_receipt \<Rightarrow> authority_lease \<Rightarrow> reconnect_reason option" where
  "receipt_authority_reason r current =
     (if wc_cluster_id r \<noteq> al_cluster_id current then Some CLUSTER_MISMATCH
      else if wc_owner_epoch r < al_owner_epoch current then Some RECEIPT_STALE
      else if al_owner_epoch current < wc_owner_epoch r then Some RECEIPT_AHEAD
      else if wc_owner_id r \<noteq> al_owner_id current \<or> wc_lease_id r \<noteq> al_lease_id current
      then Some LEASE_MISMATCH
      else None)"

section \<open>The policy\<close>

record reconnect_policy =
  rpol_versions :: "int list"
  rpol_max_members :: int
  rpol_max_receipts :: int

definition mk_reconnect_policy :: "pyval \<Rightarrow> pyval \<Rightarrow> pyval \<Rightarrow> reconnect_policy res" where
  "mk_reconnect_policy versions max_members max_receipts =
     (if \<not> protocol_versions_ok versions \<or> sort (py_ints versions) \<noteq> py_ints versions
      then Inl (ReconnectContractError ''supported_protocol_versions must be sorted bounded versions'')
      else case max_members of
        PyInt m \<Rightarrow>
          if \<not> (1 \<le> m \<and> m \<le> 256)
          then Inl (ReconnectContractError ''max_members is outside the discovery bound'')
          else (case max_receipts of
             PyInt n \<Rightarrow>
               if \<not> (1 \<le> n \<and> n \<le> 1024)
               then Inl (ReconnectContractError ''max_receipts is outside the receipt bound'')
               else Inr \<lparr>rpol_versions = py_ints versions, rpol_max_members = m, rpol_max_receipts = n\<rparr>
           | _ \<Rightarrow> Inl (ReconnectContractError ''max_receipts is outside the receipt bound''))
      | _ \<Rightarrow> Inl (ReconnectContractError ''max_members is outside the discovery bound''))"

definition no_endpoint ::
  "discovery_disposition \<Rightarrow> reconnect_reason \<Rightarrow> discovery_snapshot \<Rightarrow> discovery_decision" where
  "no_endpoint disposition reason s =
     \<lparr>dd_disposition = disposition, dd_reason = reason, dd_selected_node_id = None,
      dd_selected_endpoint_id = None, dd_authority = sn_authority s, dd_candidate_node_ids = [],
      dd_snapshot_revision = sn_revision s\<rparr>"

definition current_members :: "discovery_snapshot \<Rightarrow> int option \<Rightarrow> discovery_member list" where
  "current_members s now =
     filter (\<lambda>m. same_binding (dm_authority m) (sn_authority s)
                 \<and> live_at (dm_authority m) now = Inr True) (sn_members s)"

definition discover ::
  "reconnect_policy \<Rightarrow> reconnect_request option \<Rightarrow> discovery_snapshot option \<Rightarrow> int option
     \<Rightarrow> discovery_decision res" where
  "discover p request snapshot now =
     (case request of None \<Rightarrow> Inl (TypeError ''request must be a ClientReconnectRequest'')
      | Some q \<Rightarrow>
     (case snapshot of None \<Rightarrow> Inl (TypeError ''snapshot must be a DiscoverySnapshot'')
      | Some s \<Rightarrow>
       if rpol_max_members p < int (length (sn_members s))
       then Inl (ReconnectContractError ''member bound exceeded'')
       else if rr_cluster_id q \<noteq> sn_cluster_id s then Inr (no_endpoint D_REJECTED CLUSTER_MISMATCH s)
       else if rr_protocol_version q \<notin> set (rpol_versions p)
       then Inr (no_endpoint D_UNAVAILABLE PROTOCOL_MISMATCH s)
       else rbind (live_at (sn_authority s) now) (\<lambda>live.
         if \<not> live then Inr (no_endpoint D_PAUSED AUTHORITY_EXPIRED s)
         else case (case rr_last_authority q of None \<Rightarrow> None
                    | Some a \<Rightarrow> authority_relation a (sn_authority s)) of
           Some reason \<Rightarrow> Inr (no_endpoint D_PAUSED reason s)
         | None \<Rightarrow>
             let reachable = filter dm_reachable (current_members s now) in
             if reachable = [] then Inr (no_endpoint D_UNAVAILABLE MEMBER_UNAVAILABLE s)
             else
               let eligible = filter (\<lambda>m. dm_supports m (rr_protocol_version q)) reachable in
               if eligible = [] then Inr (no_endpoint D_UNAVAILABLE PROTOCOL_MISMATCH s)
               else
                 let ordered = sort_key (\<lambda>m. (dm_node_id m, dm_endpoint_id m)) eligible;
                     selected = first_or_head (\<lambda>m. Some (dm_endpoint_id m) = rr_preferred_endpoint_id q) ordered
                 in Inr \<lparr>dd_disposition = CONNECTED, dd_reason = DISCOVERY_ACCEPTED,
                         dd_selected_node_id = Some (dm_node_id selected),
                         dd_selected_endpoint_id = Some (dm_endpoint_id selected),
                         dd_authority = sn_authority s,
                         dd_candidate_node_ids = map dm_node_id ordered,
                         dd_snapshot_revision = sn_revision s\<rparr>)))"

definition receipt_decision ::
  "receipt_disposition \<Rightarrow> reconnect_reason \<Rightarrow> worker_receipt option \<Rightarrow> nat \<Rightarrow> nat \<Rightarrow> reconciliation_decision" where
  "receipt_decision disposition reason r count dedup =
     \<lparr>cd_disposition = disposition, cd_reason = reason, cd_receipt = r, cd_candidate_count = count,
      cd_deduplicated_count = dedup\<rparr>"

fun collect_receipts :: "int \<Rightarrow> int \<Rightarrow> worker_receipt option list \<Rightarrow> worker_receipt list res" where
  \<comment> \<open>the enumeration with its bound; \<open>None\<close> is an element of another type\<close>
  "collect_receipts maximum index [] = Inr []"
| "collect_receipts maximum index (r # rs) =
     (if maximum \<le> index then Inl (ReconnectContractError ''receipt bound exceeded'')
      else case r of None \<Rightarrow> Inl (ReconnectContractError ''receipts must contain WorkerReceipt values'')
        | Some x \<Rightarrow> rbind (collect_receipts maximum (index + 1) rs) (\<lambda>xs. Inr (x # xs)))"

fun index_revisions ::
  "worker_receipt list \<Rightarrow> (int, worker_receipt) dict \<Rightarrow> (int, worker_receipt) dict option" where
  \<comment> \<open>\<open>None\<close>: two different receipts claim one revision\<close>
  "index_revisions [] d = Some d"
| "index_revisions (r # rs) d =
     (case map_of d (wc_revision r) of
        Some prior \<Rightarrow> if prior \<noteq> r then None else index_revisions rs (AList.update (wc_revision r) r d)
      | None \<Rightarrow> index_revisions rs (AList.update (wc_revision r) r d))"

definition settle_receipt :: "receipt_state \<Rightarrow> receipt_disposition \<times> reconnect_reason" where
  "settle_receipt s =
     (if s \<in> {PENDING, CLAIMED, RUNNING} then (RESUME, RECEIPT_RESUMABLE)
      else if s = PAUSED then (R_PAUSED, WORKER_PAUSED)
      else if s = INTERRUPTED then (R_PAUSED, WORKER_INTERRUPTED)
      else (REPLAY, RECEIPT_TERMINAL))"

definition select_receipt :: "reconciliation_request \<Rightarrow> worker_receipt list \<Rightarrow> reconciliation_decision" where
  \<comment> \<open>the end of \<open>reconcile\<close>: one identity, one receipt per revision, the latest revision\<close>
  "select_receipt q same_key =
     (let n = length same_key in
      if length (remdups (map receipt_identity same_key)) \<noteq> 1
      then receipt_decision R_REJECTED RECEIPT_CONFLICT None n 0
      else case index_revisions same_key [] of
        None \<Rightarrow> receipt_decision R_REJECTED RECEIPT_CONFLICT None n 0
      | Some by_revision \<Rightarrow>
          let ordered = map (\<lambda>k. the (map_of by_revision k)) (sort (map fst by_revision));
              dedup = n - length by_revision;
              selected = last ordered
          in
          if list_ex (\<lambda>(a, b). wc_output_watermark b < wc_output_watermark a) (zip ordered (tl ordered))
          then receipt_decision R_REJECTED RECEIPT_CONFLICT None n dedup
          else if wc_revision selected < rq_last_seen_revision q
          then receipt_decision R_PAUSED RECEIPT_STALE (Some selected) n dedup
          else receipt_decision (fst (settle_receipt (wc_state selected)))
                 (snd (settle_receipt (wc_state selected))) (Some selected) n dedup)"

definition judge_receipts ::
  "reconciliation_request \<Rightarrow> authority_lease \<Rightarrow> worker_receipt list \<Rightarrow> reconciliation_decision" where
  \<comment> \<open>\<open>reconcile\<close> from the collected receipts on\<close>
  "judge_receipts q current values =
     (let same_key = filter (\<lambda>r. wc_cluster_id r = rq_cluster_id q
                              \<and> wc_idempotency_key r = rq_idempotency_key q) values;
          same_operation = filter (\<lambda>r. wc_cluster_id r = rq_cluster_id q \<and> wc_client_id r = rq_client_id q
            \<and> wc_operation_id r = rq_operation_id q \<and> wc_request_digest r = rq_request_digest q) values;
          n = length same_key
      in
      if list_ex (\<lambda>r. wc_client_id r \<noteq> rq_client_id q \<or> wc_operation_id r \<noteq> rq_operation_id q
                   \<or> wc_request_digest r \<noteq> rq_request_digest q) same_key
      then receipt_decision R_REJECTED
             (if list_ex (\<lambda>r. wc_client_id r \<noteq> rq_client_id q) same_key then CLIENT_MISMATCH
              else IDEMPOTENCY_CONFLICT) None n 0
      else if list_ex (\<lambda>r. wc_idempotency_key r \<noteq> rq_idempotency_key q) same_operation
      then receipt_decision R_REJECTED IDEMPOTENCY_CONFLICT None (length same_operation) 0
      else if same_key = [] then receipt_decision R_UNAVAILABLE RECEIPT_NOT_FOUND None 0 0
      else case find (\<lambda>r. receipt_authority_reason r current \<noteq> None) same_key of
        Some r \<Rightarrow> receipt_decision R_PAUSED (the (receipt_authority_reason r current)) None n 0
      | None \<Rightarrow> select_receipt q same_key)"

definition reconcile ::
  "reconnect_policy \<Rightarrow> reconciliation_request option \<Rightarrow> (worker_receipt option list) option
     \<Rightarrow> authority_lease option \<Rightarrow> int option \<Rightarrow> reconciliation_decision res" where
  "reconcile p request receipts current_authority now =
     (case request of None \<Rightarrow> Inl (TypeError ''request must be a ReceiptReconciliationRequest'')
      | Some q \<Rightarrow>
     (case current_authority of None \<Rightarrow> Inl (TypeError ''current_authority must be an AuthorityLease'')
      | Some current \<Rightarrow>
       if al_cluster_id current \<noteq> rq_cluster_id q
       then Inr (receipt_decision R_REJECTED CLUSTER_MISMATCH None 0 0)
       else rbind (live_at current now) (\<lambda>live.
         if \<not> live then Inr (receipt_decision R_PAUSED AUTHORITY_EXPIRED None 0 0)
         else case authority_relation (rq_authority q) current of
           Some reason \<Rightarrow> Inr (receipt_decision R_PAUSED reason None 0 0)
         | None \<Rightarrow>
             (case receipts of None \<Rightarrow> Inl (ReconnectContractError ''receipts must be iterable'')
              | Some rs \<Rightarrow>
                  rbind (collect_receipts (rpol_max_receipts p) 0 rs) (\<lambda>values.
                    Inr (judge_receipts q current values))))))"

section \<open>Lemmas\<close>

lemma authority_relation_None: "authority_relation a b = None \<longleftrightarrow> same_binding a b"
  by (auto simp: authority_relation_def same_binding_def al_binding_def)

lemma receipt_authority_reason_None:
  "receipt_authority_reason r c = None \<longleftrightarrow>
     (wc_cluster_id r, wc_owner_id r, wc_owner_epoch r, wc_lease_id r) = al_binding c"
  by (auto simp: receipt_authority_reason_def al_binding_def)

lemma live_at_Some [simp]: "live_at a (Some t) = Inr (t < al_expires_at a)"
  by (simp add: live_at_def rc_utc_def)

lemma collect_receipts_ok:
  "0 \<le> i \<Longrightarrow> i + int (length rs) \<le> n \<Longrightarrow> collect_receipts n i (map Some rs) = Inr rs"
  by (induction rs arbitrary: i) auto

lemma collect_receipts_Inr: "collect_receipts n i (map Some rs) = Inr xs \<Longrightarrow> xs = rs"
  by (induction rs arbitrary: i xs) (auto split: if_splits)

lemma index_revisions_spec:
  assumes "index_revisions rs d = Some d'" "dict_ok d" "\<And>k r. map_of d k = Some r \<Longrightarrow> wc_revision r = k"
  shows "dict_ok d' \<and> (\<forall>k r. map_of d' k = Some r \<longleftrightarrow> map_of d k = Some r \<or> r \<in> set rs \<and> wc_revision r = k)"
  using assms
proof (induction rs arbitrary: d)
  case (Cons r rs)
  let ?d = "AList.update (wc_revision r) r d"
  have step: "index_revisions rs ?d = Some d'" and prior: "\<And>x. map_of d (wc_revision r) = Some x \<Longrightarrow> x = r"
    using Cons.prems(1) by (auto split: option.splits if_splits)
  have "dict_ok ?d" "\<And>k x. map_of ?d k = Some x \<Longrightarrow> wc_revision x = k"
    using Cons.prems(2,3) by (auto simp: pydict.ok_put dict_simps split: if_splits)
  from Cons.IH[OF step this] show ?case
    using prior by (auto simp: dict_simps)
qed auto

lemma sorted_last: "sorted ys \<Longrightarrow> y \<in> set ys \<Longrightarrow> y \<le> last ys"
  by (induction ys) auto

lemma adjacent_sorted: "\<not> list_ex (\<lambda>(a, b). f b < f a) (zip xs (tl xs)) \<Longrightarrow> sorted (map f xs)"
  for f :: "'a \<Rightarrow> 'b::linorder"
proof (induction xs rule: induct_list012)
  case (3 x y zs)
  then show ?case
    by (auto intro: order_trans)
qed auto

definition same_key :: "reconciliation_request \<Rightarrow> worker_receipt \<Rightarrow> bool" where
  "same_key q r = (wc_cluster_id r = rq_cluster_id q \<and> wc_idempotency_key r = rq_idempotency_key q)"

text \<open>The receipt chosen from an index of revisions is the latest one, with the largest output.\<close>

lemma latest_receipt:
  assumes "index_revisions rs [] = Some d" "rs \<noteq> []"
    and "\<not> list_ex (\<lambda>(a, b). wc_output_watermark b < wc_output_watermark a)
           (zip (map (\<lambda>k. the (map_of d k)) (sort (map fst d))) (tl (map (\<lambda>k. the (map_of d k)) (sort (map fst d)))))"
    and "sel = last (map (\<lambda>k. the (map_of d k)) (sort (map fst d)))"
  shows "sel \<in> set rs \<and> (\<forall>x\<in>set rs. wc_revision x \<le> wc_revision sel
           \<and> (wc_revision x = wc_revision sel \<longrightarrow> x = sel) \<and> wc_output_watermark x \<le> wc_output_watermark sel)"
proof -
  let ?g = "\<lambda>k. the (map_of d k)" and ?ks = "sort (map fst d)"
  have d: "dict_ok d" "\<And>k r. map_of d k = Some r \<longleftrightarrow> r \<in> set rs \<and> wc_revision r = k"
    using index_revisions_spec[OF assms(1)] by auto
  have keys: "k \<in> set ?ks \<longleftrightarrow> (\<exists>r. map_of d k = Some r)" for k
    using weak_map_of_SomeI by (force dest: map_of_SomeD)
  have get: "?g (wc_revision x) = x" "wc_revision x \<in> set ?ks" if "x \<in> set rs" for x
    using d(2)[of "wc_revision x" x] that unfolding keys by auto
  then have ne: "?ks \<noteq> []" using assms(2) by (metis all_not_in_conv set_empty)
  then have sel: "sel = ?g (last ?ks)" by (simp add: assms(4) last_map)
  have "last ?ks \<in> set ?ks" using ne by (rule last_in_set)
  then obtain r where "map_of d (last ?ks) = Some r" unfolding keys by blast
  then have "map_of d (last ?ks) = Some sel" using sel by simp
  then have r: "sel \<in> set rs" "wc_revision sel = last ?ks" using d(2) by blast+
  have "wc_revision x \<le> wc_revision sel" if "x \<in> set rs" for x
    using get(2)[OF that] r(2) sorted_last[of ?ks] by simp
  moreover have "x = sel" if "x \<in> set rs" "wc_revision x = wc_revision sel" for x
    using get(1)[OF that(1)] get(1)[OF r(1)] that(2) by metis
  moreover have "wc_output_watermark x \<le> wc_output_watermark sel" if "x \<in> set rs" for x
  proof -
    have "wc_output_watermark x \<in> set (map wc_output_watermark (map ?g ?ks))"
      using get[OF that] by (metis (no_types, lifting) image_eqI list.set_map)
    from sorted_last[OF adjacent_sorted[OF assms(3)] this] show ?thesis
      using ne by (simp add: last_map assms(4))
  qed
  ultimately show ?thesis using r(1) by blast
qed

text \<open>A receipt is acted on only after every check has passed.\<close>

lemma same_key_filter:
  "(\<lambda>r. wc_cluster_id r = rq_cluster_id q \<and> wc_idempotency_key r = rq_idempotency_key q) = same_key q"
  by (simp add: same_key_def fun_eq_iff)

lemma judge_acts:
  assumes "cd_disposition (judge_receipts q cur rs) \<in> {RESUME, REPLAY}"
  shows "judge_receipts q cur rs = select_receipt q (filter (same_key q) rs)
    \<and> filter (same_key q) rs \<noteq> []
    \<and> (\<forall>x\<in>set rs. same_key q x \<longrightarrow> wc_client_id x = rq_client_id q \<and> wc_operation_id x = rq_operation_id q
        \<and> wc_request_digest x = rq_request_digest q \<and> receipt_authority_reason x cur = None)"
proof -
  let ?sk = "filter (same_key q) rs"
  have no: "\<not> list_ex (\<lambda>r. wc_client_id r \<noteq> rq_client_id q \<or> wc_operation_id r \<noteq> rq_operation_id q
                   \<or> wc_request_digest r \<noteq> rq_request_digest q) ?sk" "?sk \<noteq> []"
    "find (\<lambda>r. receipt_authority_reason r cur \<noteq> None) ?sk = None"
    "judge_receipts q cur rs = select_receipt q ?sk"
    using assms unfolding judge_receipts_def Let_def same_key_filter
    by (simp_all add: receipt_decision_def split: if_splits option.splits)
  then show ?thesis
    by (auto simp: list_ex_iff find_None_iff)
qed

lemma select_acts:
  assumes "cd_disposition (select_receipt q sk) \<in> {RESUME, REPLAY}"
  obtains ix sel where "length (remdups (map receipt_identity sk)) = 1" "index_revisions sk [] = Some ix"
    "\<not> list_ex (\<lambda>(a, b). wc_output_watermark b < wc_output_watermark a)
           (zip (map (\<lambda>k. the (map_of ix k)) (sort (map fst ix))) (tl (map (\<lambda>k. the (map_of ix k)) (sort (map fst ix)))))"
    "sel = last (map (\<lambda>k. the (map_of ix k)) (sort (map fst ix)))" "cd_receipt (select_receipt q sk) = Some sel"
    "rq_last_seen_revision q \<le> wc_revision sel"
    "cd_disposition (select_receipt q sk) = fst (settle_receipt (wc_state sel))"
  using assms unfolding select_receipt_def Let_def
  by (simp add: receipt_decision_def split: if_splits option.splits)

lemma settle_receipt_terminal:
  "fst (settle_receipt s) = RESUME \<Longrightarrow> \<not> receipt_terminal s"
  "fst (settle_receipt s) = REPLAY \<Longrightarrow> receipt_terminal s"
  by (cases s; simp add: settle_receipt_def)+

section \<open>Properties\<close>

definition demo_al :: authority_lease where
  "demo_al = \<lparr>al_cluster_id = ''c1'', al_owner_id = ''n1'', al_owner_epoch = 4, al_lease_id = ''l1'',
     al_expires_at = 100\<rparr>"

definition demo_rq :: reconciliation_request where
  "demo_rq = \<lparr>rq_client_id = ''u1'', rq_cluster_id = ''c1'', rq_operation_id = ''op'',
     rq_idempotency_key = ''k'', rq_request_digest = ''d'', rq_authority = demo_al,
     rq_last_seen_revision = 1\<rparr>"

definition demo_receipt :: "int \<Rightarrow> receipt_state \<Rightarrow> worker_receipt" where
  "demo_receipt n st = \<lparr>wc_client_id = ''u1'', wc_cluster_id = ''c1'', wc_operation_id = ''op'',
     wc_idempotency_key = ''k'', wc_request_digest = ''d'', wc_worker_id = ''w'', wc_remote_job_id = ''j'',
     wc_owner_id = ''n1'', wc_owner_epoch = 4, wc_lease_id = ''l1'', wc_state = st, wc_revision = n,
     wc_output_watermark = n\<rparr>"

definition demo_rpol :: reconnect_policy where
  "demo_rpol = \<lparr>rpol_versions = [1], rpol_max_members = 8, rpol_max_receipts = 8\<rparr>"

text \<open>
  (C14) A reconnect acts only on the one current operation. When reconciliation plans a resume or
  a replay, its receipt is one of those presented; it matches the request in client, operation,
  key and digest; it carries the binding of the current authority, which is live and is the one
  the client knew; it is the latest revision of the key, not before the revision the client has
  seen, with the largest output watermark; every other receipt of the key names the same worker
  and job; and a resume has a non-terminal, a replay a terminal state.
\<close>

theorem reconcile_acts_on_current_operation:
  assumes "reconcile p (Some q) (Some (map Some rs)) (Some cur) (Some now) = Inr d"
    and "cd_disposition d \<in> {RESUME, REPLAY}"
  shows "\<exists>r. cd_receipt d = Some r \<and> r \<in> set rs \<and> same_key q r
    \<and> wc_client_id r = rq_client_id q \<and> wc_operation_id r = rq_operation_id q
    \<and> wc_request_digest r = rq_request_digest q
    \<and> (wc_cluster_id r, wc_owner_id r, wc_owner_epoch r, wc_lease_id r) = al_binding cur
    \<and> same_binding (rq_authority q) cur \<and> now < al_expires_at cur
    \<and> rq_last_seen_revision q \<le> wc_revision r
    \<and> (\<forall>x\<in>set rs. same_key q x \<longrightarrow> receipt_identity x = receipt_identity r \<and> wc_revision x \<le> wc_revision r
         \<and> (wc_revision x = wc_revision r \<longrightarrow> x = r) \<and> wc_output_watermark x \<le> wc_output_watermark r)
    \<and> (cd_disposition d = RESUME \<longleftrightarrow> \<not> receipt_terminal (wc_state r))"
proof -
  have d: "d = judge_receipts q cur rs" "now < al_expires_at cur" "same_binding (rq_authority q) cur"
    using assms
    by (auto simp: reconcile_def receipt_decision_def authority_relation_None[symmetric]
        split: if_splits option.splits dest: collect_receipts_Inr)
  let ?sk = "filter (same_key q) rs"
  note judge = judge_acts[of q cur rs, folded d(1), OF assms(2)]
  obtain ix sel where sel: "length (remdups (map receipt_identity ?sk)) = 1" "index_revisions ?sk [] = Some ix"
    "\<not> list_ex (\<lambda>(a, b). wc_output_watermark b < wc_output_watermark a)
           (zip (map (\<lambda>k. the (map_of ix k)) (sort (map fst ix))) (tl (map (\<lambda>k. the (map_of ix k)) (sort (map fst ix)))))"
    "sel = last (map (\<lambda>k. the (map_of ix k)) (sort (map fst ix)))" "cd_receipt d = Some sel"
    "rq_last_seen_revision q \<le> wc_revision sel" "cd_disposition d = fst (settle_receipt (wc_state sel))"
    using select_acts[of q ?sk] judge assms(2) by metis
  have latest: "sel \<in> set ?sk" "\<forall>x\<in>set ?sk. wc_revision x \<le> wc_revision sel
      \<and> (wc_revision x = wc_revision sel \<longrightarrow> x = sel) \<and> wc_output_watermark x \<le> wc_output_watermark sel"
    using latest_receipt[OF sel(2) _ sel(3,4)] judge by blast+
  have ids: "receipt_identity x = receipt_identity sel" if "x \<in> set ?sk" for x
    by (rule remdups_single[OF sel(1) that latest(1)])
  have mem: "sel \<in> set rs" "same_key q sel" using latest(1) by auto
  have auth: "(wc_cluster_id sel, wc_owner_id sel, wc_owner_epoch sel, wc_lease_id sel) = al_binding cur"
    using judge mem unfolding receipt_authority_reason_None[symmetric] by blast
  have all: "\<forall>x\<in>set rs. same_key q x \<longrightarrow> receipt_identity x = receipt_identity sel \<and> wc_revision x \<le> wc_revision sel
         \<and> (wc_revision x = wc_revision sel \<longrightarrow> x = sel) \<and> wc_output_watermark x \<le> wc_output_watermark sel"
    using latest(2) ids by simp
  have disp: "cd_disposition d = RESUME \<longleftrightarrow> \<not> receipt_terminal (wc_state sel)"
    using assms(2) sel(7) settle_receipt_terminal[of "wc_state sel"] by auto
  show ?thesis
    using judge mem auth all disp d(2,3) sel(5,6) by blast
qed

theorem reconcile_acts_on_current_operation_witness:
  "\<exists>d r. reconcile demo_rpol (Some demo_rq)
     (Some (map Some [demo_receipt 2 RUNNING, demo_receipt 3 SUCCEEDED, demo_receipt 2 RUNNING]))
     (Some demo_al) (Some 50) = Inr d \<and> cd_receipt d = Some r \<and> wc_revision r = 3"
proof -
  let ?rs = "[demo_receipt 2 RUNNING, demo_receipt 3 SUCCEEDED, demo_receipt 2 RUNNING]"
  have run: "reconcile demo_rpol (Some demo_rq) (Some (map Some ?rs)) (Some demo_al) (Some 50)
    = Inr (receipt_decision REPLAY RECEIPT_TERMINAL (Some (demo_receipt 3 SUCCEEDED)) 3 1)"
    by code_simp
  have "cd_disposition (receipt_decision REPLAY RECEIPT_TERMINAL (Some (demo_receipt 3 SUCCEEDED)) 3 1)
      \<in> {RESUME, REPLAY}"
    by (simp add: receipt_decision_def)
  from reconcile_acts_on_current_operation[OF run this] run show ?thesis
    by (auto simp: receipt_decision_def demo_receipt_def)
qed

definition usable :: "reconnect_request \<Rightarrow> discovery_snapshot \<Rightarrow> int \<Rightarrow> discovery_member \<Rightarrow> bool" where
  "usable q s now m = (m \<in> set (sn_members s) \<and> same_binding (dm_authority m) (sn_authority s)
     \<and> now < al_expires_at (dm_authority m) \<and> dm_reachable m \<and> dm_supports m (rr_protocol_version q))"

definition usable_members :: "reconnect_request \<Rightarrow> discovery_snapshot \<Rightarrow> int \<Rightarrow> discovery_member list" where
  "usable_members q s now = filter (\<lambda>m. dm_supports m (rr_protocol_version q))
     (filter dm_reachable (current_members s (Some now)))"

definition discover_gate :: "reconnect_policy \<Rightarrow> reconnect_request \<Rightarrow> discovery_snapshot \<Rightarrow> int \<Rightarrow> bool" where
  "discover_gate p q s now = (rr_cluster_id q = sn_cluster_id s
     \<and> rr_protocol_version q \<in> set (rpol_versions p) \<and> now < al_expires_at (sn_authority s)
     \<and> (\<forall>a. rr_last_authority q = Some a \<longrightarrow> same_binding a (sn_authority s)))"

lemma discover_gate_relation:
  "(\<forall>a. rr_last_authority q = Some a \<longrightarrow> same_binding a (sn_authority s)) \<longleftrightarrow>
   (case rr_last_authority q of None \<Rightarrow> None | Some a \<Rightarrow> authority_relation a (sn_authority s)) = None"
  by (auto simp: authority_relation_None split: option.splits)

lemma discover_connected:
  assumes "int (length (sn_members s)) \<le> rpol_max_members p" "discover_gate p q s now" "usable_members q s now \<noteq> []"
  shows "discover p (Some q) (Some s) (Some now) =
    (let ordered = sort_key (\<lambda>m. (dm_node_id m, dm_endpoint_id m)) (usable_members q s now);
         selected = first_or_head (\<lambda>m. Some (dm_endpoint_id m) = rr_preferred_endpoint_id q) ordered
     in Inr \<lparr>dd_disposition = CONNECTED, dd_reason = DISCOVERY_ACCEPTED,
             dd_selected_node_id = Some (dm_node_id selected),
             dd_selected_endpoint_id = Some (dm_endpoint_id selected), dd_authority = sn_authority s,
             dd_candidate_node_ids = map dm_node_id ordered, dd_snapshot_revision = sn_revision s\<rparr>)"
proof -
  have "filter dm_reachable (current_members s (Some now)) \<noteq> []"
    using assms(3) unfolding usable_members_def by (metis filter.simps(1))
  then show ?thesis
    using assms unfolding discover_gate_def discover_gate_relation usable_members_def
    by (simp only: discover_def option.case live_at_Some rbind_simps Let_def simp_thms if_False if_True not_less not_not)
      simp
qed

lemma discover_refused:
  assumes "int (length (sn_members s)) \<le> rpol_max_members p" "\<not> (discover_gate p q s now \<and> usable_members q s now \<noteq> [])"
  shows "\<exists>d. discover p (Some q) (Some s) (Some now) = Inr d \<and> dd_disposition d \<noteq> CONNECTED"
  using assms unfolding discover_gate_def discover_gate_relation usable_members_def
  by (cases "case rr_last_authority q of None \<Rightarrow> None | Some a \<Rightarrow> authority_relation a (sn_authority s)")
    (simp_all add: discover_def Let_def no_endpoint_def)

definition demo_member :: "string \<Rightarrow> string \<Rightarrow> discovery_member" where
  "demo_member n e = \<lparr>dm_node_id = n, dm_endpoint_id = e, dm_authority = demo_al, dm_reachable = True,
     dm_protocol_versions = [1]\<rparr>"

text \<open>
  Discovery connects exactly when it may. Within the member bound a decision is returned; it
  is connected if and only if the cluster and protocol match, the snapshot's authority is live and
  is the one the client knew (if it knew one), and some member is usable: reachable, live, bound
  to the snapshot's authority and speaking the protocol. The selected endpoint is then a usable
  member, and the preferred one whenever that is usable.
\<close>

theorem discover_connects_iff_usable:
  assumes "int (length (sn_members s)) \<le> rpol_max_members p"
  shows "\<exists>d. discover p (Some q) (Some s) (Some now) = Inr d
    \<and> (dd_disposition d = CONNECTED \<longleftrightarrow>
         rr_cluster_id q = sn_cluster_id s \<and> rr_protocol_version q \<in> set (rpol_versions p)
         \<and> now < al_expires_at (sn_authority s)
         \<and> (\<forall>a. rr_last_authority q = Some a \<longrightarrow> same_binding a (sn_authority s))
         \<and> (\<exists>m. usable q s now m))
    \<and> (dd_disposition d = CONNECTED \<longrightarrow> (\<exists>m. usable q s now m
         \<and> dd_selected_node_id d = Some (dm_node_id m) \<and> dd_selected_endpoint_id d = Some (dm_endpoint_id m))
         \<and> ((\<exists>m. usable q s now m \<and> Some (dm_endpoint_id m) = rr_preferred_endpoint_id q)
             \<longrightarrow> dd_selected_endpoint_id d = rr_preferred_endpoint_id q))"
proof -
  let ?E = "usable_members q s now"
  let ?ord = "sort_key (\<lambda>m. (dm_node_id m, dm_endpoint_id m)) ?E"
  let ?pref = "\<lambda>m. Some (dm_endpoint_id m) = rr_preferred_endpoint_id q"
  have E: "set ?ord = {m. usable q s now m}"
    by (auto simp: usable_def usable_members_def current_members_def)
  show ?thesis
  proof (cases "discover_gate p q s now \<and> ?E \<noteq> []")
    case True
    then have ne: "?ord \<noteq> []" by (metis length_0_conv length_sort)
    have "usable q s now (first_or_head ?pref ?ord)"
      using first_or_head_in[OF ne, of ?pref] E by blast
    moreover have "?pref (first_or_head ?pref ?ord)" if "usable q s now m" "?pref m" for m
      using first_or_head_holds[of m ?ord ?pref] that E by blast
    ultimately show ?thesis
      using True unfolding discover_connected[OF assms conjunct1[OF True] conjunct2[OF True]]
      by (auto simp: discover_gate_def Let_def)
  next
    case False
    then have "\<not> (discover_gate p q s now \<and> (\<exists>m. usable q s now m))"
      using E by (metis (mono_tags) empty_iff mem_Collect_eq set_empty set_sort)
    then show ?thesis
      using discover_refused[OF assms False] by (auto simp: discover_gate_def)
  qed
qed

theorem discover_connects_iff_usable_witness:
  "\<exists>d. discover demo_rpol (Some \<lparr>rr_client_id = ''u1'', rr_cluster_id = ''c1'', rr_protocol_version = 1,
       rr_last_authority = Some demo_al, rr_session_id = None, rr_preferred_endpoint_id = Some ''e2'',
       rr_last_receipt_revision = 0\<rparr>)
     (Some \<lparr>sn_cluster_id = ''c1'', sn_authority = demo_al, sn_revision = 1, sn_members =
       [demo_member ''a'' ''e1'', demo_member ''b'' ''e2'']\<rparr>) (Some 50) = Inr d
     \<and> dd_selected_endpoint_id d = Some ''e2''"
proof -
  let ?q = "\<lparr>rr_client_id = ''u1'', rr_cluster_id = ''c1'', rr_protocol_version = 1,
       rr_last_authority = Some demo_al, rr_session_id = None, rr_preferred_endpoint_id = Some ''e2'',
       rr_last_receipt_revision = 0\<rparr>"
  let ?s = "\<lparr>sn_cluster_id = ''c1'', sn_authority = demo_al, sn_revision = 1, sn_members =
       [demo_member ''a'' ''e1'', demo_member ''b'' ''e2'']\<rparr>"
  have u: "usable ?q ?s 50 (demo_member ''b'' ''e2'')" "dm_endpoint_id (demo_member ''b'' ''e2'') = ''e2''"
    by (simp_all add: usable_def demo_member_def demo_al_def same_binding_def dm_supports_def)
  have b: "int (length (sn_members ?s)) \<le> rpol_max_members demo_rpol" "1 \<in> set (rpol_versions demo_rpol)"
    "50 < al_expires_at demo_al"
    by (simp_all add: demo_rpol_def demo_al_def)
  show ?thesis
    using discover_connects_iff_usable[OF b(1), of ?q 50] u b(2,3) by (auto simp: same_binding_def)
qed

end
