(* ===== verification/Membership.thy ===== *)
theory Membership
  imports Prelude
begin

text \<open>
  \<^verbatim>\<open>sonder_runtime/domain/inference_membership.py\<close>: the roster of inference workers a controller may
  propose from a verified membership snapshot. Aware datetimes are UTC instants in microseconds.
  A snapshot is the value its signed envelope yields; parsing and verifying the envelope and
  canonicalising an origin are not modelled. Arguments have the types the source requires.
\<close>

section \<open>Values\<close>

type_synonym member_key = "string \<times> string \<times> int"

record worker_ad =
  wa_worker_id :: string
  wa_origin :: string
  wa_member_generation :: int
  wa_lifecycle_state :: string
  wa_models :: "string list"
  wa_advertised_capacity :: int

definition considered_states :: "string list" where
  "considered_states = [''probation'', ''active'', ''unhealthy'']"

definition ad_key :: "worker_ad \<Rightarrow> member_key" where
  "ad_key w = (wa_worker_id w, wa_origin w, wa_member_generation w)"

record membership_snapshot =
  ms_cluster_id :: string
  ms_issuer_id :: string
  ms_generation :: int
  ms_issued_at :: int
  ms_expires_at :: int
  ms_workers :: "worker_ad list"
  ms_digest :: string

record membership_high_water =
  hw_cluster_id :: string
  hw_issuer_id :: string
  hw_generation :: int
  hw_digest :: string

definition water :: "membership_snapshot \<Rightarrow> membership_high_water" where
  "water s = \<lparr>hw_cluster_id = ms_cluster_id s, hw_issuer_id = ms_issuer_id s,
              hw_generation = ms_generation s, hw_digest = ms_digest s\<rparr>"

definition mb_identity :: "pyval \<Rightarrow> string res" where
  "mb_identity v =
     (case v of
        PyStr s \<Rightarrow> if identity_match s then Inr s
                   else Inl (ValueError ''membership identity must be a bounded opaque ASCII identifier'')
      | _ \<Rightarrow> Inl (ValueError ''membership identity must be a bounded opaque ASCII identifier''))"

definition mb_integer :: "pyval \<Rightarrow> int \<Rightarrow> int \<Rightarrow> string \<Rightarrow> int res" where
  "mb_integer v low high name =
     (case v of
        PyInt n \<Rightarrow> if low \<le> n \<and> n \<le> high then Inr n
                   else Inl (ValueError (name @ '' is outside its bounded integer range''))
      | _ \<Rightarrow> Inl (ValueError (name @ '' is outside its bounded integer range'')))"

definition mb_aware :: "int option \<Rightarrow> string \<Rightarrow> int res" where
  "mb_aware t name =
     (case t of Some u \<Rightarrow> Inr u
      | None \<Rightarrow> Inl (ValueError (name @ '' must be a timezone-aware datetime'')))"

definition bounded_tuple :: "'a list \<Rightarrow> nat \<Rightarrow> string \<Rightarrow> 'a list res" where
  "bounded_tuple xs maximum name =
     (if maximum < length xs then Inl (ValueError (name @ '' exceeds its bounded sequence limit''))
      else Inr xs)"

definition check_authority :: "string \<Rightarrow> string \<Rightarrow> string \<Rightarrow> string \<Rightarrow> unit res" where
  "check_authority c i cluster_id issuer_id =
     (if c \<noteq> cluster_id \<or> i \<noteq> issuer_id
      then Inl (ValueError ''membership authority does not match configured cluster and issuer'')
      else Inr ())"

definition validate_high_water ::
  "membership_snapshot \<Rightarrow> membership_high_water option \<Rightarrow> pyval \<Rightarrow> pyval \<Rightarrow> int option
     \<Rightarrow> membership_high_water res" where
  "validate_high_water s previous cluster_id issuer_id clk =
     rbind (mb_identity cluster_id) (\<lambda>c.
     rbind (mb_identity issuer_id) (\<lambda>i.
     rbind (mb_aware clk ''clock'') (\<lambda>now.
     rbind (check_authority (ms_cluster_id s) (ms_issuer_id s) c i) (\<lambda>_.
       if \<not> (ms_issued_at s \<le> now \<and> now < ms_expires_at s)
       then Inl (ValueError ''snapshot is expired or issued in the future'')
       else case previous of None \<Rightarrow> Inr (water s)
         | Some h \<Rightarrow>
             rbind (check_authority (hw_cluster_id h) (hw_issuer_id h) c i) (\<lambda>_.
               if ms_generation s < hw_generation h
               then Inl (ValueError ''snapshot generation rollback'')
               else if ms_generation s = hw_generation h \<and> ms_digest s \<noteq> hw_digest h
               then Inl (ValueError ''same-generation snapshot digest conflict'')
               else Inr (water s))))))"

record capability_evidence =
  ce_worker_id :: string
  ce_origin :: string
  ce_member_generation :: int
  ce_checked_at :: int
  ce_expires_at :: int

definition ce_key :: "capability_evidence \<Rightarrow> member_key" where
  "ce_key e = (ce_worker_id e, ce_origin e, ce_member_generation e)"

record roster_member =
  rm_advertisement :: worker_ad
  rm_lifecycle_state :: string
  rm_evidence :: "capability_evidence option"

definition mk_roster_member ::
  "worker_ad \<Rightarrow> string \<Rightarrow> capability_evidence option \<Rightarrow> roster_member res" where
  "mk_roster_member w state evidence =
     (if state \<notin> set [''probation'', ''active'', ''unhealthy'', ''expired'']
      then Inl (ValueError ''invalid admitted lifecycle state'')
      else if (case evidence of None \<Rightarrow> False | Some e \<Rightarrow> ce_key e \<noteq> ad_key w)
      then Inl (ValueError ''capability evidence does not bind this member'')
      else if state = ''active'' \<and> evidence = None
      then Inl (ValueError ''active membership requires capability evidence'')
      else Inr \<lparr>rm_advertisement = w, rm_lifecycle_state = state, rm_evidence = evidence\<rparr>)"

record membership_roster =
  mr_snapshot :: membership_snapshot
  mr_members :: "roster_member list"
  mr_generation :: int

fun roster_members_ok :: "(string, worker_ad) dict \<Rightarrow> string list \<Rightarrow> roster_member list \<Rightarrow> unit res" where
  "roster_members_ok ads seen [] = Inr ()"
| "roster_members_ok ads seen (m # ms) =
     (let w = rm_advertisement m in
      if wa_worker_id w \<in> set seen \<or> map_of ads (wa_worker_id w) \<noteq> Some w
      then Inl (ValueError ''roster member is duplicated or absent from verified snapshot'')
      else if wa_lifecycle_state w \<notin> set considered_states
      then Inl (ValueError ''roster cannot admit a revoked, draining, or expired advertisement'')
      else roster_members_ok ads (wa_worker_id w # seen) ms)"

definition ads_by_id :: "worker_ad list \<Rightarrow> (string, worker_ad) dict" where
  "ads_by_id ws = dict_of (map (\<lambda>w. (wa_worker_id w, w)) ws)"

definition mk_roster ::
  "membership_snapshot \<Rightarrow> roster_member list \<Rightarrow> int \<Rightarrow> membership_roster res" where
  "mk_roster s members generation =
     rbind (mb_integer (PyInt generation) 1 max_int63 ''roster generation'') (\<lambda>g.
     rbind (bounded_tuple members 256 ''roster members'') (\<lambda>ms.
     rbind (roster_members_ok (ads_by_id (ms_workers s)) [] ms) (\<lambda>_.
       Inr \<lparr>mr_snapshot = s, mr_members = ms, mr_generation = g\<rparr>)))"

record membership_reconciliation =
  mc_roster :: "membership_roster option"
  mc_high_water :: "membership_high_water option"
  mc_additions :: "worker_ad list"
  mc_activations :: "worker_ad list"
  mc_drains :: "worker_ad list"
  mc_expirations :: "worker_ad list"
  mc_omitted_worker_count :: int

definition mk_reconciliation ::
  "membership_roster option \<Rightarrow> membership_high_water option \<Rightarrow> worker_ad list \<Rightarrow> worker_ad list
     \<Rightarrow> worker_ad list \<Rightarrow> worker_ad list \<Rightarrow> int \<Rightarrow> membership_reconciliation res" where
  "mk_reconciliation roster hw additions activations drains expirations omitted =
     (if (case roster of None \<Rightarrow> False | Some r \<Rightarrow> hw \<noteq> Some (water (mr_snapshot r)))
      then Inl (ValueError ''reconciliation roster must bind its exact snapshot high-water'')
      else
        rbind (bounded_tuple additions 256 ''additions'') (\<lambda>a.
        rbind (bounded_tuple activations 256 ''activations'') (\<lambda>b.
        rbind (bounded_tuple drains 256 ''drains'') (\<lambda>c.
        rbind (bounded_tuple expirations 256 ''expirations'') (\<lambda>d.
        rbind (mb_integer (PyInt omitted) 0 4096 ''omitted worker count'') (\<lambda>n.
          Inr \<lparr>mc_roster = roster, mc_high_water = hw, mc_additions = a, mc_activations = b,
               mc_drains = c, mc_expirations = d, mc_omitted_worker_count = n\<rparr>))))))"

definition roster_generation :: "membership_reconciliation \<Rightarrow> int" where
  "roster_generation c = (case mc_roster c of Some r \<Rightarrow> mr_generation r | None \<Rightarrow> 0)"

section \<open>Reconciliation\<close>

fun collect_proofs ::
  "capability_evidence list \<Rightarrow> (member_key, capability_evidence) dict
     \<Rightarrow> ((member_key, capability_evidence) dict) res" where
  "collect_proofs [] d = Inr d"
| "collect_proofs (e # es) d =
     (if map_of d (ce_key e) \<noteq> None then Inl (ValueError ''invalid or duplicate capability evidence'')
      else collect_proofs es (AList.update (ce_key e) e d))"

fun member_generations_ok :: "(string, worker_ad) dict \<Rightarrow> worker_ad list \<Rightarrow> unit res" where
  "member_generations_ok old_ads [] = Inr ()"
| "member_generations_ok old_ads (w # ws) =
     (case map_of old_ads (wa_worker_id w) of
        None \<Rightarrow> member_generations_ok old_ads ws
      | Some old \<Rightarrow>
          if wa_member_generation w < wa_member_generation old
             \<or> wa_origin w \<noteq> wa_origin old \<and> wa_member_generation w \<le> wa_member_generation old
          then Inl (ValueError ''member generation must advance for endpoint replacement and cannot roll back'')
          else member_generations_ok old_ads ws)"

definition eligible_workers :: "membership_snapshot \<Rightarrow> worker_ad list" where
  "eligible_workers s =
     sort_key wa_worker_id (filter (\<lambda>w. wa_lifecycle_state w \<in> set considered_states) (ms_workers s))"

definition old_members_of :: "membership_roster option \<Rightarrow> (string, roster_member) dict" where
  "old_members_of previous =
     (case previous of None \<Rightarrow> []
      | Some r \<Rightarrow> dict_of (map (\<lambda>m. (wa_worker_id (rm_advertisement m), m)) (mr_members r)))"

definition same_incarnation ::
  "int \<Rightarrow> membership_roster option \<Rightarrow> worker_ad \<Rightarrow> bool" where
  "same_incarnation now previous w =
     (case (previous, map_of (old_members_of previous) (wa_worker_id w)) of
        (Some r, Some old) \<Rightarrow> ad_key (rm_advertisement old) = ad_key w
          \<and> rm_lifecycle_state old \<noteq> ''expired'' \<and> now < ms_expires_at (mr_snapshot r)
      | _ \<Rightarrow> False)"

definition admit_worker ::
  "int \<Rightarrow> membership_roster option \<Rightarrow> (member_key, capability_evidence) dict \<Rightarrow> worker_ad
     \<Rightarrow> string \<times> capability_evidence option" where
  \<comment> \<open>the state and the evidence of one selected worker\<close>
  "admit_worker now previous proofs w =
     (let same = same_incarnation now previous w;
          retained = (case map_of (old_members_of previous) (wa_worker_id w) of
                        Some old \<Rightarrow> if same then rm_evidence old else None | None \<Rightarrow> None);
          proof = (case map_of proofs (ad_key w) of Some e \<Rightarrow> Some e | None \<Rightarrow> retained);
          state = (if wa_lifecycle_state w = ''unhealthy'' then ''unhealthy'' else ''probation'')
      in case proof of
           Some e \<Rightarrow>
             if same \<and> ce_checked_at e \<le> now \<and> now < ce_expires_at e \<and> state \<noteq> ''unhealthy''
             then (''active'', Some e) else (state, None)
         | None \<Rightarrow> (state, None))"

definition expire_roster ::
  "membership_snapshot \<Rightarrow> membership_roster \<Rightarrow> membership_high_water option \<Rightarrow> worker_ad list
     \<Rightarrow> membership_reconciliation res" where
  "expire_roster s r next_water eligible =
     rbind (mapr (\<lambda>m. mk_roster_member (rm_advertisement m) ''expired'' None) (mr_members r)) (\<lambda>members.
     rbind (mk_roster s members (mr_generation r + (if members \<noteq> mr_members r then 1 else 0))) (\<lambda>roster.
       mk_reconciliation (Some roster) next_water [] [] []
         (map rm_advertisement (filter (\<lambda>m. rm_lifecycle_state m \<noteq> ''expired'') (mr_members r)))
         (max 0 (int (length eligible) - int (length members)))))"

definition propose_roster ::
  "membership_snapshot \<Rightarrow> bool \<Rightarrow> membership_roster option \<Rightarrow> membership_high_water option \<Rightarrow> int \<Rightarrow> int
     \<Rightarrow> capability_evidence list \<Rightarrow> membership_reconciliation res" where
  "propose_roster s from_candidate previous next_water max_workers now evidence =
     (let old_members = old_members_of previous;
          eligible = eligible_workers s
      in
      rbind (bounded_tuple evidence 256 ''capability evidence'') (\<lambda>es.
      rbind (collect_proofs es []) (\<lambda>proofs.
      let selectable = (if from_candidate then eligible
            else filter (\<lambda>w. case map_of old_members (wa_worker_id w) of None \<Rightarrow> False
                         | Some old \<Rightarrow> ad_key w = ad_key (rm_advertisement old)) eligible);
          selected = take (nat max_workers) selectable;
          additions = filter (\<lambda>w. \<not> same_incarnation now previous w) selected;
          activations = filter (\<lambda>w. fst (admit_worker now previous proofs w) = ''active''
            \<and> (case map_of old_members (wa_worker_id w) of None \<Rightarrow> False
               | Some old \<Rightarrow> rm_lifecycle_state old \<noteq> ''active'')) selected
      in
      rbind (mapr (\<lambda>w. mk_roster_member w (fst (admit_worker now previous proofs w))
                         (snd (admit_worker now previous proofs w))) selected) (\<lambda>members.
      let drains = map rm_advertisement (filter (\<lambda>m.
            ad_key (rm_advertisement m) \<notin> set (map (\<lambda>x. ad_key (rm_advertisement x)) members)
            \<and> rm_lifecycle_state m \<noteq> ''expired'') (map snd old_members));
          generation = (case previous of None \<Rightarrow> 1
            | Some r \<Rightarrow> mr_generation r + (if members \<noteq> mr_members r then 1 else 0))
      in
      rbind (mk_roster s members generation) (\<lambda>roster.
        mk_reconciliation (Some roster) next_water additions activations drains []
          (max 0 (int (length eligible) - int (length members))))))))"

definition reconcile_membership ::
  "membership_snapshot option \<Rightarrow> pyval \<Rightarrow> pyval \<Rightarrow> int option \<Rightarrow> membership_roster option
     \<Rightarrow> membership_high_water option \<Rightarrow> pyval \<Rightarrow> capability_evidence list \<Rightarrow> membership_reconciliation res" where
  "reconcile_membership candidate cluster_id issuer_id clk previous high_water max_workers evidence =
     rbind (mb_identity cluster_id) (\<lambda>c.
     rbind (mb_identity issuer_id) (\<lambda>i.
     rbind (mb_integer max_workers 1 256 ''roster worker limit'') (\<lambda>limit.
     rbind (mb_aware clk ''clock'') (\<lambda>now.
     rbind (case high_water of None \<Rightarrow> Inr ()
            | Some h \<Rightarrow> check_authority (hw_cluster_id h) (hw_issuer_id h) c i) (\<lambda>_.
     rbind (case previous of None \<Rightarrow> Inr ()
            | Some r \<Rightarrow>
                (if high_water = None
                 then Inl (ValueError ''previous roster requires its retained high-water record'')
                 else check_authority (ms_cluster_id (mr_snapshot r)) (ms_issuer_id (mr_snapshot r)) c i)) (\<lambda>_.
     case (candidate, previous, high_water) of
       (None, Some r, Some h) \<Rightarrow>
         if water (mr_snapshot r) \<noteq> h
         then mk_reconciliation None high_water [] [] (map rm_advertisement (mr_members r)) [] 0
         else if now < ms_issued_at (mr_snapshot r)
         then Inl (ValueError ''previous snapshot is issued in the future'')
         else if ms_expires_at (mr_snapshot r) \<le> now
         then expire_roster (mr_snapshot r) r high_water (eligible_workers (mr_snapshot r))
         else propose_roster (mr_snapshot r) False previous high_water limit now evidence
     | (None, _, _) \<Rightarrow> mk_reconciliation None high_water [] [] [] [] 0
     | (Some s, _, _) \<Rightarrow>
         rbind (case (previous, high_water) of
                  (Some r, Some h) \<Rightarrow>
                    if hw_generation h < ms_generation (mr_snapshot r)
                       \<or> ms_generation (mr_snapshot r) = hw_generation h \<and> ms_digest (mr_snapshot r) \<noteq> hw_digest h
                    then Inl (ValueError ''previous roster does not match retained high-water'')
                    else if now < ms_issued_at (mr_snapshot r)
                    then Inl (ValueError ''previous snapshot is issued in the future'')
                    else Inr ()
                | _ \<Rightarrow> Inr ()) (\<lambda>_.
         rbind (validate_high_water s high_water cluster_id issuer_id (Some now)) (\<lambda>next_water.
         rbind (case previous of None \<Rightarrow> Inr ()
                | Some r \<Rightarrow> member_generations_ok (ads_by_id (ms_workers (mr_snapshot r))) (ms_workers s)) (\<lambda>_.
           propose_roster s True previous (Some next_water) limit now evidence)))))))))"

section \<open>Lemmas\<close>

lemma mk_roster_member_Inr:
  "mk_roster_member w st e = Inr m \<Longrightarrow> m = \<lparr>rm_advertisement = w, rm_lifecycle_state = st, rm_evidence = e\<rparr>
     \<and> (\<forall>x. e = Some x \<longrightarrow> ce_key x = ad_key w)"
  by (auto simp: mk_roster_member_def split: if_splits option.splits)

lemma roster_members_ok_Inr:
  "roster_members_ok ads seen ms = Inr () \<Longrightarrow>
     distinct (map (\<lambda>m. wa_worker_id (rm_advertisement m)) ms)
     \<and> (\<forall>m\<in>set ms. wa_worker_id (rm_advertisement m) \<notin> set seen
          \<and> map_of ads (wa_worker_id (rm_advertisement m)) = Some (rm_advertisement m)
          \<and> wa_lifecycle_state (rm_advertisement m) \<in> set considered_states)"
proof (induction ms arbitrary: seen)
  case (Cons m ms)
  then have "roster_members_ok ads (wa_worker_id (rm_advertisement m) # seen) ms = Inr ()"
    by (simp add: Let_def split: if_splits)
  from Cons.IH[OF this] Cons.prems show ?case
    by (auto simp: Let_def split: if_splits)
qed simp

lemma map_of_ads: "map_of (ads_by_id ws) k = Some w \<Longrightarrow> w \<in> set ws"
  using set_dict_of[of "map (\<lambda>w. (wa_worker_id w, w)) ws"] by (auto simp: ads_by_id_def dest!: map_of_SomeD)

lemma mk_roster_Inr:
  assumes "mk_roster s ms g = Inr r"
  shows "r = \<lparr>mr_snapshot = s, mr_members = ms, mr_generation = g\<rparr> \<and> 1 \<le> g \<and> length ms \<le> 256
    \<and> distinct (map (\<lambda>m. wa_worker_id (rm_advertisement m)) ms)
    \<and> (\<forall>m\<in>set ms. rm_advertisement m \<in> set (ms_workers s)
         \<and> wa_lifecycle_state (rm_advertisement m) \<in> set considered_states)"
  using assms
  by (auto simp: mk_roster_def mb_integer_def bounded_tuple_def split: if_splits
      dest!: roster_members_ok_Inr map_of_ads)

lemma mk_reconciliation_Inr:
  assumes "mk_reconciliation ro hw a b d x n = Inr c"
  shows "mc_roster c = ro \<and> mc_high_water c = hw \<and> mc_additions c = a \<and> mc_activations c = b
    \<and> mc_drains c = d \<and> mc_expirations c = x \<and> mc_omitted_worker_count c = n
    \<and> (\<forall>r. ro = Some r \<longrightarrow> hw = Some (water (mr_snapshot r)))"
  using assms by (auto simp: mk_reconciliation_def bounded_tuple_def mb_integer_def split: if_splits option.splits)

lemma old_member_in:
  "map_of (old_members_of previous) k = Some m \<Longrightarrow> \<exists>r. previous = Some r \<and> m \<in> set (mr_members r)"
  using set_dict_of by (fastforce simp: old_members_of_def dest!: map_of_SomeD split: option.splits)

lemma admit_worker_cases:
  assumes "admit_worker now previous proofs w = (st, e)"
  shows "(st = ''active'' \<longrightarrow> same_incarnation now previous w \<and> wa_lifecycle_state w \<noteq> ''unhealthy''
      \<and> (\<exists>x. e = Some x \<and> ce_checked_at x \<le> now \<and> now < ce_expires_at x))
    \<and> st \<in> {''active'', ''probation'', ''unhealthy''}"
  using assms by (auto simp: admit_worker_def Let_def split: option.splits if_splits) (metis)+

lemma same_incarnationD:
  assumes "same_incarnation now previous w"
  shows "\<exists>r old. previous = Some r \<and> old \<in> set (mr_members r)
    \<and> ad_key (rm_advertisement old) = ad_key w \<and> rm_lifecycle_state old \<noteq> ''expired'' \<and> now < ms_expires_at (mr_snapshot r)"
proof -
  obtain r old where "previous = Some r" "map_of (old_members_of previous) (wa_worker_id w) = Some old"
    "ad_key (rm_advertisement old) = ad_key w" "rm_lifecycle_state old \<noteq> ''expired''" "now < ms_expires_at (mr_snapshot r)"
    using assms by (auto simp: same_incarnation_def split: option.splits)
  then show ?thesis using old_member_in by blast
qed

text \<open>A roster member is backed when it is not active, or has fresh evidence and was admitted before.\<close>

definition backed :: "int \<Rightarrow> membership_roster option \<Rightarrow> roster_member \<Rightarrow> bool" where
  "backed now previous m = (rm_lifecycle_state m = ''active'' \<longrightarrow>
     wa_lifecycle_state (rm_advertisement m) \<noteq> ''unhealthy''
     \<and> (\<exists>e. rm_evidence m = Some e \<and> ce_key e = ad_key (rm_advertisement m)
          \<and> ce_checked_at e \<le> now \<and> now < ce_expires_at e)
     \<and> (\<exists>r old. previous = Some r \<and> old \<in> set (mr_members r)
          \<and> ad_key (rm_advertisement old) = ad_key (rm_advertisement m)
          \<and> rm_lifecycle_state old \<noteq> ''expired'' \<and> now < ms_expires_at (mr_snapshot r)))"

lemma admitted_backed:
  assumes "mk_roster_member w (fst (admit_worker now previous proofs w)) (snd (admit_worker now previous proofs w)) = Inr m"
  shows "backed now previous m \<and> rm_advertisement m = w"
proof -
  obtain st e where ad: "admit_worker now previous proofs w = (st, e)" by fastforce
  note m = mk_roster_member_Inr[OF assms[unfolded ad fst_conv snd_conv]]
  show ?thesis
    using m admit_worker_cases[OF ad] same_incarnationD[of now previous w] by (auto simp: backed_def)
qed

lemma propose_roster_Inr:
  assumes "propose_roster s cand previous nw limit now ev = Inr c" "1 \<le> limit"
  obtains R where "mc_roster c = Some R" "mr_snapshot R = s" "mc_high_water c = nw" "nw = Some (water s)"
    "mk_roster s (mr_members R) (mr_generation R) = Inr R" "int (length (mr_members R)) \<le> limit"
    "\<forall>m\<in>set (mr_members R). backed now previous m" "mc_expirations c = []"
    "mc_drains c = map rm_advertisement (filter (\<lambda>m.
        ad_key (rm_advertisement m) \<notin> set (map (\<lambda>x. ad_key (rm_advertisement x)) (mr_members R))
        \<and> rm_lifecycle_state m \<noteq> ''expired'') (map snd (old_members_of previous)))"
proof -
  from assms(1) obtain proofs selected members R where
    sel: "length selected \<le> nat limit"
      "mapr (\<lambda>w. mk_roster_member w (fst (admit_worker now previous proofs w))
             (snd (admit_worker now previous proofs w))) selected = Inr members" and
    R: "mk_roster s members (case previous of None \<Rightarrow> 1
          | Some r \<Rightarrow> mr_generation r + (if members \<noteq> mr_members r then 1 else 0)) = Inr R" and
    c: "\<exists>a b n. mk_reconciliation (Some R) nw a b (map rm_advertisement (filter (\<lambda>m.
        ad_key (rm_advertisement m) \<notin> set (map (\<lambda>x. ad_key (rm_advertisement x)) members)
        \<and> rm_lifecycle_state m \<noteq> ''expired'') (map snd (old_members_of previous)))) [] n = Inr c"
    unfolding propose_roster_def Let_def rbind_Inr_iff by (metis (no_types, lifting) length_take min.cobounded2)
  have "list_all (backed now previous) members"
    using sel(2) by (rule mapr_all) (blast dest: admitted_backed)
  moreover have "int (length members) \<le> limit"
    using mapr_length[OF sel(2)] sel(1) assms(2) by linarith
  moreover have "mr_members R = members" "mr_snapshot R = s" "mk_roster s members (mr_generation R) = Inr R"
    using R mk_roster_Inr[OF R] by auto
  ultimately show ?thesis
    using c by (auto dest!: mk_reconciliation_Inr simp: list_all_iff intro!: that)
qed

lemma check_authority_Inr [run_simps]: "check_authority c i c' i' = Inr u \<longleftrightarrow> c = c' \<and> i = i'"
  by (auto simp: check_authority_def)

lemma validate_high_water_Inr:
  assumes "validate_high_water s hw cv iv clk = Inr w"
  shows "w = water s \<and> (\<exists>now. clk = Some now \<and> ms_issued_at s \<le> now \<and> now < ms_expires_at s)
    \<and> (\<forall>h. hw = Some h \<longrightarrow> hw_generation h \<le> ms_generation s \<and> hw_cluster_id h = ms_cluster_id s
         \<and> hw_issuer_id h = ms_issuer_id s \<and> (ms_generation s = hw_generation h \<longrightarrow> ms_digest s = hw_digest h))"
  using assms by (auto simp: validate_high_water_def run_simps mb_aware_def split: option.splits if_splits)

text \<open>The three ways a reconciliation ends: no roster, an expired roster, a proposed roster.\<close>

lemma reconcile_membership_cases [consumes 1, case_names dropped expired proposed]:
  assumes "reconcile_membership cand cv iv (Some now) previous hw mw ev = Inr c"
  obtains (dropped) "mc_roster c = None" "cand = None" "mc_high_water c = hw"
      "mc_drains c = (case previous of None \<Rightarrow> [] | Some r \<Rightarrow> map rm_advertisement (mr_members r))"
    | (expired) r where "cand = None" "previous = Some r" "hw = Some (water (mr_snapshot r))"
      "ms_expires_at (mr_snapshot r) \<le> now"
      "expire_roster (mr_snapshot r) r hw (eligible_workers (mr_snapshot r)) = Inr c"
    | (proposed) s nw limit where "mw = PyInt limit" "1 \<le> limit"
      "propose_roster s (cand \<noteq> None) previous (Some nw) limit now ev = Inr c" "now < ms_expires_at s"
      "nw = water s" "cand = Some s \<or> cand = None \<and> hw = Some nw"
      "\<forall>h. hw = Some h \<longrightarrow> hw_generation h \<le> ms_generation s \<and> hw_cluster_id h = ms_cluster_id s
         \<and> hw_issuer_id h = ms_issuer_id s \<and> (ms_generation s = hw_generation h \<longrightarrow> ms_digest s = hw_digest h)"
proof -
  from assms obtain limit where limit: "mw = PyInt limit" "1 \<le> limit"
    "mb_integer mw 1 256 ''roster worker limit'' = Inr limit"
    by (auto simp: reconcile_membership_def mb_integer_def split: pyval.splits if_splits)
  show ?thesis
  proof (cases cand)
    case (Some s)
    with assms limit obtain nw where nw: "validate_high_water s hw cv iv (Some now) = Inr nw"
      "propose_roster s True previous (Some nw) limit now ev = Inr c"
      by (auto simp: reconcile_membership_def mb_aware_def)
    note v = validate_high_water_Inr[OF nw(1)]
    show ?thesis
      by (rule proposed[OF limit(1,2)]) (use nw(2) Some v in auto)
  next
    case None
    show ?thesis
    proof (cases "\<exists>r h. previous = Some r \<and> hw = Some h \<and> water (mr_snapshot r) = h")
      case True
      then obtain r where r: "previous = Some r" "hw = Some (water (mr_snapshot r))" by blast
      have "(if ms_expires_at (mr_snapshot r) \<le> now
         then expire_roster (mr_snapshot r) r hw (eligible_workers (mr_snapshot r))
         else propose_roster (mr_snapshot r) False previous hw limit now ev) = Inr c"
        using assms limit None r by (auto simp: reconcile_membership_def mb_aware_def split: if_splits)
      then show ?thesis
        using r None limit
        by (auto intro: expired proposed[of limit "mr_snapshot r" "water (mr_snapshot r)"]
            simp: water_def split: if_splits)
    next
      case False
      with assms None show ?thesis
        by (intro dropped; auto simp: reconcile_membership_def split: option.splits if_splits
            dest!: mk_reconciliation_Inr)
    qed
  qed
qed

lemma expire_roster_Inr:
  assumes "expire_roster s r nw el = Inr c"
  obtains R where "mc_roster c = Some R" "mr_snapshot R = s" "mc_high_water c = nw" "nw = Some (water s)"
    "mk_roster s (mr_members R) (mr_generation R) = Inr R"
    "\<forall>m\<in>set (mr_members R). rm_lifecycle_state m = ''expired''"
    "mc_expirations c = map rm_advertisement (filter (\<lambda>m. rm_lifecycle_state m \<noteq> ''expired'') (mr_members r))"
    "mc_drains c = []"
proof -
  from assms obtain members g R where
    sel: "mapr (\<lambda>m. mk_roster_member (rm_advertisement m) ''expired'' None) (mr_members r) = Inr members" and
    R: "mk_roster s members g = Inr R" and
    c: "\<exists>n. mk_reconciliation (Some R) nw [] [] [] (map rm_advertisement (filter (\<lambda>m. rm_lifecycle_state m \<noteq> ''expired'') (mr_members r))) n = Inr c"
    by (auto simp: expire_roster_def)
  have "list_all (\<lambda>m. rm_lifecycle_state m = ''expired'') members"
    using sel by (rule mapr_all) (auto dest!: mk_roster_member_Inr)
  moreover have "mr_members R = members" "mr_snapshot R = s" "mk_roster s members (mr_generation R) = Inr R"
    using R mk_roster_Inr[OF R] by auto
  ultimately show ?thesis
    using c by (auto dest!: mk_reconciliation_Inr simp: list_all_iff intro!: that)
qed

section \<open>Properties\<close>

definition demo_ad :: worker_ad where
  "demo_ad = \<lparr>wa_worker_id = ''w1'', wa_origin = ''https://10.0.0.1:443'', wa_member_generation = 1,
     wa_lifecycle_state = ''active'', wa_models = [''m''], wa_advertised_capacity = 1\<rparr>"

definition demo_snapshot :: membership_snapshot where
  "demo_snapshot = \<lparr>ms_cluster_id = ''c1'', ms_issuer_id = ''i1'', ms_generation = 1, ms_issued_at = 0,
     ms_expires_at = 100, ms_workers = [demo_ad], ms_digest = ''d1''\<rparr>"

definition demo_proof_of :: capability_evidence where
  "demo_proof_of = \<lparr>ce_worker_id = ''w1'', ce_origin = ''https://10.0.0.1:443'', ce_member_generation = 1,
     ce_checked_at = 10, ce_expires_at = 90\<rparr>"

definition demo_roster :: "string \<Rightarrow> capability_evidence option \<Rightarrow> int \<Rightarrow> membership_roster" where
  "demo_roster st e g = \<lparr>mr_snapshot = demo_snapshot,
     mr_members = [\<lparr>rm_advertisement = demo_ad, rm_lifecycle_state = st, rm_evidence = e\<rparr>], mr_generation = g\<rparr>"

definition demo_proposal :: membership_reconciliation where
  "demo_proposal = \<lparr>mc_roster = Some (demo_roster ''active'' (Some demo_proof_of) 2),
     mc_high_water = Some (water demo_snapshot), mc_additions = [], mc_activations = [demo_ad],
     mc_drains = [], mc_expirations = [], mc_omitted_worker_count = 0\<rparr>"

lemma demo_reconcile:
  "reconcile_membership (Some demo_snapshot) (PyStr ''c1'') (PyStr ''i1'') (Some 20)
     (Some (demo_roster ''probation'' None 1)) (Some (water demo_snapshot)) (PyInt 4) [demo_proof_of] = Inr demo_proposal"
  by code_simp

lemma demo_roster_made:
  "mk_roster demo_snapshot (mr_members (demo_roster ''probation'' None 1)) 1 = Inr (demo_roster ''probation'' None 1)"
  by code_simp

text \<open>
  (C15) A proposed roster is sound. Its members are advertised by its snapshot, in a state the
  issuer lets it consider, with distinct identities; every active member has capability evidence
  for exactly its identity, origin and generation that is fresh at the clock reading, and was
  already admitted, not expired, under authority that is still live: nothing is active on its
  first admission. An active member implies that the snapshot is live and the limit respected.
\<close>

theorem reconciled_roster_sound:
  assumes "reconcile_membership cand cv iv (Some now) previous hw (PyInt limit) ev = Inr c" "mc_roster c = Some R"
  shows "distinct (map (\<lambda>m. wa_worker_id (rm_advertisement m)) (mr_members R))
    \<and> (\<forall>m\<in>set (mr_members R). rm_advertisement m \<in> set (ms_workers (mr_snapshot R))
         \<and> wa_lifecycle_state (rm_advertisement m) \<in> {''probation'', ''active'', ''unhealthy''}
         \<and> backed now previous m)
    \<and> ((\<exists>m\<in>set (mr_members R). rm_lifecycle_state m = ''active'') \<longrightarrow>
         now < ms_expires_at (mr_snapshot R) \<and> int (length (mr_members R)) \<le> limit)"
  using assms(1)
proof (cases rule: reconcile_membership_cases)
  case (expired r)
  show ?thesis
    using expired(5)
  proof (rule expire_roster_Inr)
    fix R' assume R': "mc_roster c = Some R'" "mr_snapshot R' = mr_snapshot r"
      "mk_roster (mr_snapshot r) (mr_members R') (mr_generation R') = Inr R'"
      "\<forall>m\<in>set (mr_members R'). rm_lifecycle_state m = ''expired''"
    then show ?thesis
      using mk_roster_Inr[OF R'(3)] assms(2) by (auto simp: backed_def considered_states_def)
  qed
next
  case (proposed s nw lim)
  show ?thesis
    using proposed(3,2)
  proof (rule propose_roster_Inr)
    fix R' assume R': "mc_roster c = Some R'" "mr_snapshot R' = s"
      "mk_roster s (mr_members R') (mr_generation R') = Inr R'" "int (length (mr_members R')) \<le> lim"
      "\<forall>m\<in>set (mr_members R'). backed now previous m"
    then show ?thesis
      using mk_roster_Inr[OF R'(3)] assms(2) proposed(1,4) by (auto simp: considered_states_def)
  qed
qed (use assms(2) in simp)

theorem reconciled_roster_sound_witness:
  "\<exists>m\<in>set (mr_members (demo_roster ''active'' (Some demo_proof_of) 2)). rm_lifecycle_state m = ''active''
     \<and> backed 20 (Some (demo_roster ''probation'' None 1)) m"
  using reconciled_roster_sound[OF demo_reconcile, of "demo_roster ''active'' (Some demo_proof_of) 2"]
  by (simp add: demo_proposal_def demo_roster_def)

text \<open>
  The high-water record never goes back. A reconciliation that had a high-water record
  proposes one of the same cluster and issuer with a generation at least as large, and the very
  same record when the generation is equal; a proposed roster is bound to exactly the proposed
  record.
\<close>

theorem high_water_never_rolls_back:
  assumes "reconcile_membership cand cv iv (Some now) previous (Some h) mw ev = Inr c"
  shows "\<exists>h'. mc_high_water c = Some h' \<and> hw_generation h \<le> hw_generation h'
    \<and> hw_cluster_id h' = hw_cluster_id h \<and> hw_issuer_id h' = hw_issuer_id h
    \<and> (hw_generation h' = hw_generation h \<longrightarrow> h' = h)
    \<and> (\<forall>R. mc_roster c = Some R \<longrightarrow> h' = water (mr_snapshot R))"
  using assms
proof (cases rule: reconcile_membership_cases)
  case (expired r)
  then show ?thesis by (elim expire_roster_Inr) auto
next
  case (proposed s nw lim)
  show ?thesis
    using proposed(3,2)
  proof (rule propose_roster_Inr)
    fix R assume "mc_roster c = Some R" "mr_snapshot R = s" "mc_high_water c = Some nw"
    then show ?thesis
      using proposed(5,7) by (auto simp: water_def)
  qed
qed simp

theorem high_water_never_rolls_back_witness:
  "\<exists>h'. mc_high_water demo_proposal = Some h' \<and> h' = water demo_snapshot"
  using high_water_never_rolls_back[OF demo_reconcile] by (auto simp: demo_proposal_def water_def demo_snapshot_def)

text \<open>
  No admitted worker is lost silently. Every member of the previous roster that was not
  expired is afterwards in the proposed roster with the same identity, origin and generation, or
  is listed as drained, or is listed as expired.
\<close>

theorem previous_members_accounted_for:
  assumes "mk_roster s0 ms0 g0 = Inr r" "old \<in> set (mr_members r)" "rm_lifecycle_state old \<noteq> ''expired''"
    and "reconcile_membership cand cv iv (Some now) (Some r) hw mw ev = Inr c"
  shows "rm_advertisement old \<in> set (mc_drains c) \<union> set (mc_expirations c)
    \<or> (\<exists>R m. mc_roster c = Some R \<and> m \<in> set (mr_members R)
         \<and> ad_key (rm_advertisement m) = ad_key (rm_advertisement old))"
  using assms(4)
proof (cases rule: reconcile_membership_cases)
  case (expired r')
  then show ?thesis using assms(2,3) by (elim expire_roster_Inr) auto
next
  case (proposed s nw lim)
  have "dict_ok (map (\<lambda>m. (wa_worker_id (rm_advertisement m), m)) (mr_members r))"
    using mk_roster_Inr[OF assms(1)] by (simp add: comp_def)
  then have old: "old \<in> set (map snd (old_members_of (Some r)))"
    using assms(2) by (force simp: old_members_of_def dict_of_distinct)
  show ?thesis
    using proposed(3,2)
  proof (rule propose_roster_Inr)
    fix R assume R: "mc_roster c = Some R"
      "mc_drains c = map rm_advertisement (filter (\<lambda>m.
        ad_key (rm_advertisement m) \<notin> set (map (\<lambda>x. ad_key (rm_advertisement x)) (mr_members R))
        \<and> rm_lifecycle_state m \<noteq> ''expired'') (map snd (old_members_of (Some r))))"
    show ?thesis
    proof (cases "ad_key (rm_advertisement old) \<in> set (map (\<lambda>x. ad_key (rm_advertisement x)) (mr_members R))")
      case False
      then have "rm_advertisement old \<in> set (mc_drains c)"
        unfolding R(2) set_map[of rm_advertisement] set_filter using old assms(3) by blast
      then show ?thesis by simp
    qed (use R(1) in auto)
  qed
qed (use assms(2) in simp)

theorem previous_members_accounted_for_witness:
  "demo_ad \<in> set (mc_drains demo_proposal) \<union> set (mc_expirations demo_proposal)
   \<or> (\<exists>R m. mc_roster demo_proposal = Some R \<and> m \<in> set (mr_members R)
         \<and> ad_key (rm_advertisement m) = ad_key demo_ad)"
  using previous_members_accounted_for[OF demo_roster_made _ _ demo_reconcile,
      of "\<lparr>rm_advertisement = demo_ad, rm_lifecycle_state = ''probation'', rm_evidence = None\<rparr>"]
  by (simp add: demo_roster_def)

end
