(* ===== verification/Concurrency.thy ===== *)
theory Concurrency
  imports Prelude "HOL-Library.Sublist"
begin

text \<open>
  \<^verbatim>\<open>sonder_runtime/domain/adaptive_concurrency.py\<close>: which lanes may run together and how many. A lane
  claims paths for reading or writing; claims conflict when paths overlap and one side writes.
  The cap is a state machine over worker outcomes and resource samples. Paths are ASCII text,
  resource fractions finite; a frozenset of paths is a list, a set of lanes a list without
  duplicates.
\<close>

section \<open>Paths and claims\<close>

datatype lane_access = READ | WRITE

record lane_claim =
  lc_lane_id :: string
  lc_paths :: "string list"
  lc_access :: lane_access

definition ascii_alpha :: "char \<Rightarrow> bool" where
  "ascii_alpha c = (CHR ''A'' \<le> c \<and> c \<le> CHR ''Z'' \<or> CHR ''a'' \<le> c \<and> c \<le> CHR ''z'')"

definition ascii_fold :: "char \<Rightarrow> char" where
  "ascii_fold c = (if CHR ''A'' \<le> c \<and> c \<le> CHR ''Z'' then char_of (of_char c + 32 :: nat) else c)"

definition posix_parts :: "string \<Rightarrow> string list" where
  \<comment> \<open>\<^verbatim>\<open>PurePosixPath(text).parts\<close>: the root, then the components that are not empty or a dot\<close>
  "posix_parts text =
     (if take 2 text = ''//'' \<and> take 3 text \<noteq> ''///'' then [''//'']
      else if take 1 text = ''/'' then [''/''] else [])
     @ filter (\<lambda>p. p \<noteq> [] \<and> p \<noteq> ''.'') (split_on (CHR ''/'') text)"

definition path_parts :: "string \<Rightarrow> (bool \<times> string list) res" where
  "path_parts path =
     (let text = map ascii_fold (py_strip (map (\<lambda>c. if c = CHR 0x5C then CHR ''/'' else c) path)) in
      if text = [] then Inl (ValueError ''claimed paths must be non-empty'')
      else
        let absolute = (take 1 text = ''/'' \<or> 2 \<le> length text \<and> text ! 1 = CHR '':'' \<and> ascii_alpha (hd text));
            parts = filter (\<lambda>p. p \<notin> {[], ''.'', ''/''}) (posix_parts text)
        in if ''..'' \<in> set parts then Inl (ValueError ''claimed paths must not escape the scope root'')
           else Inr (absolute, parts))"

definition normalize_path :: "string \<Rightarrow> string res" where
  "normalize_path path =
     rbind (path_parts path) (\<lambda>(absolute, parts).
       if absolute then Inl (ValueError ''claimed paths must be anchored to the scope root'')
       else Inr (py_join ''/'' parts))"

definition anchor_claim_path :: "string \<Rightarrow> string \<Rightarrow> string res" where
  "anchor_claim_path path scope_root =
     rbind (path_parts path) (\<lambda>(absolute, parts).
       if \<not> absolute then Inr (py_join ''/'' parts)
       else if py_strip scope_root = []
       then Inl (ValueError ''an absolute claim needs a scope root to anchor to'')
       else rbind (path_parts scope_root) (\<lambda>(root_absolute, root_parts).
         if \<not> root_absolute then Inl (ValueError ''the scope root must be absolute'')
         else if take (length root_parts) parts \<noteq> root_parts
         then Inl (ValueError ''claimed path lies outside the scope root'')
         else Inr (py_join ''/'' (drop (length root_parts) parts))))"

definition mk_lane_claim :: "string \<Rightarrow> string list \<Rightarrow> lane_access \<Rightarrow> lane_claim res" where
  "mk_lane_claim lane paths access =
     (if py_strip lane = [] then Inl (ValueError ''lane_id is required'')
      else rbind (mapr normalize_path paths) (\<lambda>ps.
        Inr \<lparr>lc_lane_id = lane, lc_paths = ps, lc_access = access\<rparr>))"

definition claim_parts :: "string \<Rightarrow> string list" where
  "claim_parts p = (if p = [] then [] else split_on (CHR ''/'') p)"

definition paths_overlap :: "string \<Rightarrow> string \<Rightarrow> bool" where
  "paths_overlap left right =
     (let l = claim_parts left; r = claim_parts right; shorter = min (length l) (length r)
      in take shorter l = take shorter r)"

definition claims_conflict :: "lane_claim \<Rightarrow> lane_claim \<Rightarrow> bool" where
  "claims_conflict left right =
     (if lc_lane_id left = lc_lane_id right then False
      else if lc_access left = READ \<and> lc_access right = READ then False
      else list_ex (\<lambda>a. list_ex (\<lambda>b. paths_overlap a b) (lc_paths right)) (lc_paths left))"

type_synonym lane_graph = "(string, string list) dict"

definition add_peer :: "string \<Rightarrow> string \<Rightarrow> lane_graph \<Rightarrow> lane_graph" where
  "add_peer lane peer g =
     (case map_of g lane of None \<Rightarrow> g | Some ps \<Rightarrow> AList.update lane (List.insert peer ps) g)"

fun link_claims :: "lane_claim list \<Rightarrow> lane_graph \<Rightarrow> lane_graph" where
  "link_claims [] g = g"
| "link_claims (l # rs) g =
     link_claims rs (foldl (\<lambda>g r. if claims_conflict l r
        then add_peer (lc_lane_id r) (lc_lane_id l) (add_peer (lc_lane_id l) (lc_lane_id r) g) else g) g rs)"

definition conflict_graph :: "lane_claim list \<Rightarrow> lane_graph res" where
  "conflict_graph claims =
     (let ids = map lc_lane_id claims in
      if \<not> distinct ids then Inl (ValueError ''lane ids must be unique'')
      else Inr (link_claims claims (map (\<lambda>i. (i, [])) ids)))"

definition coupled_lane_count :: "lane_graph \<Rightarrow> nat" where
  "coupled_lane_count g = length (filter (\<lambda>ps. ps \<noteq> []) (map snd g))"

definition peers_of :: "lane_graph \<Rightarrow> string \<Rightarrow> string list" where
  \<comment> \<open>\<^verbatim>\<open>graph.get(lane, ())\<close>\<close>
  "peers_of g lane = (case map_of g lane of None \<Rightarrow> [] | Some ps \<Rightarrow> ps)"

fun admit_loop :: "int \<Rightarrow> lane_graph \<Rightarrow> string list \<Rightarrow> string list \<Rightarrow> string list" where
  "admit_loop cap g occupied [] = []"
| "admit_loop cap g occupied (lane # pending) =
     (if cap \<le> int (length occupied) then []
      else if lane \<in> set occupied then admit_loop cap g occupied pending
      else if list_ex (\<lambda>peer. peer \<in> set occupied) (peers_of g lane)
      then admit_loop cap g occupied pending
      else lane # admit_loop cap g (lane # occupied) pending)"

definition admissible_lanes :: "string list \<Rightarrow> string list \<Rightarrow> int \<Rightarrow> lane_graph \<Rightarrow> string list res" where
  "admissible_lanes pending running cap g =
     (if cap < 1 then Inl (ValueError ''cap must be at least one'')
      else Inr (admit_loop cap g (remdups running) pending))"

section \<open>The adaptive cap\<close>

datatype outcome = SUCCEEDED | TRANSIENT_RETRY | FAILED | CHURN | SAMPLE

record resource_snapshot =
  rn_memory_available_fraction :: "rat option"
  rn_pressure_band :: "string option"

record concurrency_policy =
  cp_ceiling :: int
  cp_floor :: int
  cp_window :: int
  cp_retry_storm_threshold :: int
  cp_churn_threshold :: int
  cp_memory_pressure_enter :: rat
  cp_memory_pressure_exit :: rat
  cp_shrink_divisor :: int
  cp_grow_step :: int
  cp_recovery_streak :: int
  cp_pressure_cooldown :: int
  cp_unknown_release_after :: int

definition policy_check :: "concurrency_policy \<Rightarrow> concurrency_policy res" where
  "policy_check p =
     (if cp_floor p < 1 then Inl (ValueError ''floor must be at least one'')
      else if cp_ceiling p < cp_floor p then Inl (ValueError ''ceiling must be at least floor'')
      else if cp_window p < 1 then Inl (ValueError ''window must be positive'')
      else if cp_retry_storm_threshold p < 1 \<or> cp_churn_threshold p < 1
      then Inl (ValueError ''trigger thresholds must be positive'')
      else if cp_window p < cp_retry_storm_threshold p \<or> cp_window p < cp_churn_threshold p
      then Inl (ValueError ''trigger thresholds must fit inside the window'')
      else if \<not> (0 \<le> cp_memory_pressure_enter p \<and> cp_memory_pressure_enter p < cp_memory_pressure_exit p
                \<and> cp_memory_pressure_exit p \<le> 1)
      then Inl (ValueError ''memory pressure thresholds need enter < exit within [0, 1]'')
      else if cp_shrink_divisor p < 2 then Inl (ValueError ''shrink_divisor must be at least two'')
      else if cp_grow_step p < 1 \<or> cp_recovery_streak p < 1 \<or> cp_pressure_cooldown p < 0
      then Inl (ValueError ''growth and cooldown settings must be positive'')
      else if cp_unknown_release_after p < 1 then Inl (ValueError ''unknown_release_after must be positive'')
      else Inr p)"

record concurrency_state =
  cs_cap :: int
  cs_recent :: "(outcome \<times> string option) list"
  cs_healthy_streak :: int
  cs_pressured :: bool
  cs_since_shrink :: int
  cs_observations :: int
  cs_unknown_streak :: int

record concurrency_decision =
  cn_previous_cap :: int
  cn_cap :: int
  cn_action :: string
  cn_reasons :: "string list"

definition cn_to_dict :: "concurrency_decision \<Rightarrow> (string, pyval) dict" where
  "cn_to_dict d =
     [(''previous_cap'', PyInt (cn_previous_cap d)),
      (''cap'', PyInt (cn_cap d)),
      (''action'', PyStr (cn_action d)),
      (''reasons'', PyList (map PyStr (cn_reasons d)))]"

definition initial_state :: "concurrency_policy \<Rightarrow> int option \<Rightarrow> concurrency_state" where
  "initial_state p cap =
     (let start = (case cap of None \<Rightarrow> cp_ceiling p | Some c \<Rightarrow> c) in
      \<lparr>cs_cap = max (cp_floor p) (min (cp_ceiling p) start), cs_recent = [], cs_healthy_streak = 0,
       cs_pressured = False, cs_since_shrink = 0, cs_observations = 0, cs_unknown_streak = 0\<rparr>)"

definition resource_pressure ::
  "resource_snapshot option \<Rightarrow> bool \<Rightarrow> int \<Rightarrow> concurrency_policy \<Rightarrow> bool \<times> bool \<times> int" where
  "resource_pressure snapshot currently unknown_streak p =
     (case snapshot of None \<Rightarrow> (currently, False, unknown_streak)
      | Some s \<Rightarrow>
        let fraction = rn_memory_available_fraction s; band = rn_pressure_band s in
        if fraction = None \<and> band = None then
          let streak = unknown_streak + 1 in
          if currently \<and> cp_unknown_release_after p \<le> streak then (False, False, streak)
          else (currently, False, streak)
        else
          let breaching = ((case fraction of None \<Rightarrow> False | Some x \<Rightarrow> x < cp_memory_pressure_enter p)
                \<or> (case band of None \<Rightarrow> False | Some b \<Rightarrow> b \<in> {''high'', ''critical''}))
          in if breaching then (True, True, 0)
             else if \<not> currently then (False, False, 0)
             else
               let memory_released = (case fraction of None \<Rightarrow> True | Some x \<Rightarrow> cp_memory_pressure_exit p \<le> x);
                   band_released = (case band of None \<Rightarrow> True | Some b \<Rightarrow> b \<in> {''low'', ''medium''})
               in (\<not> (memory_released \<and> band_released), False, 0))"

definition retry_storm_weight :: "(outcome \<times> string option) list \<Rightarrow> int" where
  "retry_storm_weight recent =
     (let retries = filter (\<lambda>(x, _). x = TRANSIENT_RETRY) recent in
      int (length (filter (\<lambda>(_, s). s = None) retries))
      + int (length (remdups (map snd (filter (\<lambda>(_, s). s \<noteq> None) retries)))))"

definition last_n :: "nat \<Rightarrow> 'a list \<Rightarrow> 'a list" where
  \<comment> \<open>\<^verbatim>\<open>xs[-n:]\<close> for a positive \<open>n\<close>\<close>
  "last_n n xs = drop (length xs - n) xs"

definition observe ::
  "concurrency_state \<Rightarrow> outcome \<Rightarrow> concurrency_policy \<Rightarrow> resource_snapshot option \<Rightarrow> string option
     \<Rightarrow> concurrency_state \<times> concurrency_decision" where
  "observe state outc p resources source =
     (let recent = (if outc \<noteq> SAMPLE then last_n (nat (cp_window p)) (cs_recent state @ [(outc, source)])
                    else cs_recent state);
          (pressured, breaching, unknown_streak) =
            resource_pressure resources (cs_pressured state) (cs_unknown_streak state) p;
          since_shrink = cs_since_shrink state + 1;
          storm = (cp_retry_storm_threshold p \<le> retry_storm_weight recent);
          churn = (cp_churn_threshold p \<le> int (length (filter (\<lambda>(x, _). x = CHURN) recent)));
          pressure = (breaching \<and> (\<not> cs_pressured state \<or> cp_pressure_cooldown p < since_shrink));
          reasons = (if storm then [''retry_storm''] else []) @ (if churn then [''churn''] else [])
            @ (if pressure then [''resource_pressure''] else []);
          cap = cs_cap state
      in
      if reasons \<noteq> [] then
        let shrunk = max (cp_floor p) (cap div cp_shrink_divisor p);
            consumed = (if storm then [TRANSIENT_RETRY] else []) @ (if churn then [CHURN] else [])
        in (\<lparr>cs_cap = shrunk, cs_recent = filter (\<lambda>(x, _). x \<notin> set consumed) recent,
             cs_healthy_streak = 0, cs_pressured = pressured, cs_since_shrink = 0,
             cs_observations = cs_observations state + 1, cs_unknown_streak = unknown_streak\<rparr>,
            \<lparr>cn_previous_cap = cap, cn_cap = shrunk,
             cn_action = (if shrunk < cap then ''shrink'' else ''hold''), cn_reasons = reasons\<rparr>)
      else
        let streak = (if outc = SUCCEEDED \<and> \<not> pressured then cs_healthy_streak state + 1
                      else if outc \<in> {TRANSIENT_RETRY, CHURN} \<or> pressured then 0
                      else cs_healthy_streak state);
            grow = (cp_recovery_streak p \<le> streak \<and> cap < cp_ceiling p);
            new_cap = (if grow then min (cp_ceiling p) (cap + cp_grow_step p) else cap)
        in (state\<lparr>cs_cap := new_cap, cs_recent := recent,
                  cs_healthy_streak := (if grow then 0 else streak), cs_pressured := pressured,
                  cs_since_shrink := since_shrink, cs_observations := cs_observations state + 1,
                  cs_unknown_streak := unknown_streak\<rparr>,
            \<lparr>cn_previous_cap = cap, cn_cap = new_cap, cn_action = (if grow then ''grow'' else ''hold''),
             cn_reasons = (if grow then [''recovered''] else [])\<rparr>))"

section \<open>Paths\<close>

lemma claim_parts_join:
  assumes "\<forall>p\<in>set parts. p \<noteq> [] \<and> CHR ''/'' \<notin> set p"
  shows "claim_parts (py_join ''/'' parts) = parts"
proof (cases parts)
  case (Cons p ps)
  then have "py_join ''/'' parts \<noteq> []" using assms by (simp add: py_join_def)
  then show ?thesis using split_join[of parts "CHR ''/''"] assms Cons by (simp add: claim_parts_def)
qed (simp add: claim_parts_def py_join_def)

lemma posix_parts_relative:
  assumes "take 1 t \<noteq> ''/''" "p \<in> set (posix_parts t)"
  shows "CHR ''/'' \<notin> set p"
proof -
  have "take 2 t \<noteq> ''//''"
    using assms(1) by (cases t) (auto simp: numeral_2_eq_2)
  then have "p \<in> set (split_on (CHR ''/'') t)"
    using assms by (simp add: posix_parts_def)
  then show ?thesis by (rule split_on_no_sep)
qed

lemma path_parts_relative:
  assumes "path_parts path = Inr (False, parts)" "p \<in> set parts"
  shows "p \<noteq> [] \<and> CHR ''/'' \<notin> set p"
proof -
  define t where "t = map ascii_fold (py_strip (map (\<lambda>c. if c = CHR 0x5C then CHR ''/'' else c) path))"
  have "take 1 t \<noteq> ''/''" "p \<in> set (posix_parts t)" "p \<noteq> []"
    using assms by (auto simp: path_parts_def Let_def t_def[symmetric] split: if_splits)
  then show ?thesis using posix_parts_relative by blast
qed

lemma normalize_path_parts:
  assumes "normalize_path path = Inr q"
  obtains parts where "path_parts path = Inr (False, parts)" "claim_parts q = parts"
proof -
  obtain parts where parts: "path_parts path = Inr (False, parts)" "q = py_join ''/'' parts"
    using assms by (auto simp: normalize_path_def split: if_splits)
  then show thesis
    using claim_parts_join[of parts] path_parts_relative[OF parts(1)] that by blast
qed

lemma take_min_prefix:
  "take (min (length xs) (length ys)) xs = take (min (length xs) (length ys)) ys
     \<longleftrightarrow> prefix xs ys \<or> prefix ys xs"
  by (metis min.commute min_def nat_le_linear prefix_def prefix_length_le append_eq_conv_conj take_all_iff
      take_is_prefix)

lemma paths_overlap_prefix:
  "paths_overlap a b \<longleftrightarrow> prefix (claim_parts a) (claim_parts b) \<or> prefix (claim_parts b) (claim_parts a)"
  by (simp add: paths_overlap_def Let_def take_min_prefix)

lemma paths_overlap_sym: "paths_overlap a b = paths_overlap b a"
  by (auto simp: paths_overlap_prefix)

lemma claims_conflict_sym: "claims_conflict a b = claims_conflict b a"
  using paths_overlap_sym unfolding claims_conflict_def list_ex_iff by (smt (verit))


section \<open>The conflict graph\<close>

abbreviation peers :: "lane_graph \<Rightarrow> string \<Rightarrow> string set" where
  "peers g i \<equiv> set (peers_of g i)"

lemma add_peer_dom [simp]: "dom (map_of (add_peer i j g)) = dom (map_of g)"
  by (auto simp: add_peer_def dict_simps split: option.splits)

lemma add_peer_peers:
  "peers (add_peer i j g) k = (if k = i \<and> i \<in> dom (map_of g) then insert j (peers g k) else peers g k)"
  by (auto simp: add_peer_def peers_of_def dict_simps split: option.splits)

definition link_one :: "lane_claim \<Rightarrow> lane_claim list \<Rightarrow> lane_graph \<Rightarrow> lane_graph" where
  "link_one l rs g = foldl (\<lambda>g r. if claims_conflict l r
     then add_peer (lc_lane_id r) (lc_lane_id l) (add_peer (lc_lane_id l) (lc_lane_id r) g) else g) g rs"

lemma link_one_dom [simp]: "dom (map_of (link_one l rs g)) = dom (map_of g)"
  by (induction rs rule: rev_induct) (simp_all add: link_one_def)

definition linked :: "lane_claim \<Rightarrow> lane_claim \<Rightarrow> string \<Rightarrow> string \<Rightarrow> bool" where
  "linked l r k j = (claims_conflict l r
     \<and> (k = lc_lane_id l \<and> j = lc_lane_id r \<or> k = lc_lane_id r \<and> j = lc_lane_id l))"

lemma link_one_peers:
  assumes "lc_lane_id ` set (l # rs) \<subseteq> dom (map_of g)"
  shows "j \<in> peers (link_one l rs g) k \<longleftrightarrow> j \<in> peers g k \<or> (\<exists>r\<in>set rs. linked l r k j)"
  using assms
proof (induction rs rule: rev_induct)
  case (snoc r rs)
  define h where "h = link_one l rs g"
  have step: "link_one l (rs @ [r]) g = (if claims_conflict l r
      then add_peer (lc_lane_id r) (lc_lane_id l) (add_peer (lc_lane_id l) (lc_lane_id r) h) else h)"
    by (simp add: link_one_def h_def)
  have "dom (map_of h) = dom (map_of g)" by (simp add: h_def)
  then have dom: "lc_lane_id l \<in> dom (map_of h)" "lc_lane_id r \<in> dom (map_of h)"
    using snoc.prems by auto
  have "j \<in> peers (link_one l (rs @ [r]) g) k \<longleftrightarrow> j \<in> peers h k \<or> linked l r k j"
    unfolding step linked_def using dom by (simp add: add_peer_peers domIff) blast
  then show ?case
    using snoc by (auto simp: h_def)
qed (simp add: link_one_def)

lemma link_claims_Cons: "link_claims (l # rs) g = link_claims rs (link_one l rs g)"
  by (simp add: link_one_def)

lemma link_claims_peers:
  assumes "lc_lane_id ` set cs \<subseteq> dom (map_of g)"
  shows "dom (map_of (link_claims cs g)) = dom (map_of g)
     \<and> (j \<in> peers (link_claims cs g) k \<longleftrightarrow> j \<in> peers g k
       \<or> (\<exists>a\<in>set cs. \<exists>b\<in>set cs. claims_conflict a b \<and> k = lc_lane_id a \<and> j = lc_lane_id b))"
  using assms
proof (induction cs arbitrary: g)
  case (Cons l rs)
  have self: "\<not> claims_conflict l l" by (simp add: claims_conflict_def)
  have IH: "dom (map_of (link_claims rs (link_one l rs g))) = dom (map_of g)"
    "j \<in> peers (link_claims rs (link_one l rs g)) k \<longleftrightarrow> j \<in> peers (link_one l rs g) k
       \<or> (\<exists>a\<in>set rs. \<exists>b\<in>set rs. claims_conflict a b \<and> k = lc_lane_id a \<and> j = lc_lane_id b)"
    using Cons.IH[of "link_one l rs g"] Cons.prems by auto
  have "(\<exists>r\<in>set rs. linked l r k j) \<longleftrightarrow>
     (\<exists>b\<in>set rs. claims_conflict l b \<and> k = lc_lane_id l \<and> j = lc_lane_id b)
     \<or> (\<exists>a\<in>set rs. claims_conflict a l \<and> k = lc_lane_id a \<and> j = lc_lane_id l)"
    unfolding linked_def using claims_conflict_sym by blast
  moreover have "(\<exists>a\<in>set (l # rs). \<exists>b\<in>set (l # rs). claims_conflict a b \<and> k = lc_lane_id a \<and> j = lc_lane_id b)
     \<longleftrightarrow> (\<exists>b\<in>set rs. claims_conflict l b \<and> k = lc_lane_id l \<and> j = lc_lane_id b)
     \<or> (\<exists>a\<in>set rs. claims_conflict a l \<and> k = lc_lane_id a \<and> j = lc_lane_id l)
     \<or> (\<exists>a\<in>set rs. \<exists>b\<in>set rs. claims_conflict a b \<and> k = lc_lane_id a \<and> j = lc_lane_id b)"
    using self by (simp add: bex_disj_distrib) blast
  ultimately show ?case
    unfolding link_claims_Cons IH link_one_peers[OF Cons.prems, of j k] by blast
qed simp

lemma conflict_graph_peers:
  assumes "conflict_graph claims = Inr g"
  shows "dom (map_of g) = lc_lane_id ` set claims"
    and "j \<in> peers g k \<longleftrightarrow>
      (\<exists>a\<in>set claims. \<exists>b\<in>set claims. claims_conflict a b \<and> k = lc_lane_id a \<and> j = lc_lane_id b)"
proof -
  define g0 :: lane_graph where "g0 = map (\<lambda>i. (i, [])) (map lc_lane_id claims)"
  have g: "g = link_claims claims g0"
    using assms by (auto simp: conflict_graph_def g0_def Let_def split: if_splits)
  have dom0: "dom (map_of g0) = lc_lane_id ` set claims"
    by (simp add: g0_def dom_map_of_conv_image_fst image_image)
  have "map_of g0 k = Some ps \<Longrightarrow> ps = []" for ps
    unfolding g0_def by (auto dest!: map_of_SomeD)
  then have none: "peers g0 k = {}"
    by (cases "map_of g0 k") (auto simp: peers_of_def)
  show "dom (map_of g) = lc_lane_id ` set claims"
    "j \<in> peers g k \<longleftrightarrow>
      (\<exists>a\<in>set claims. \<exists>b\<in>set claims. claims_conflict a b \<and> k = lc_lane_id a \<and> j = lc_lane_id b)"
    using link_claims_peers[of claims g0 j k] dom0 none by (simp_all add: g)
qed

section \<open>Admission\<close>

lemma admit_loop_facts:
  "distinct occ \<Longrightarrow> distinct (admit_loop cap g occ pending)
     \<and> set (admit_loop cap g occ pending) \<subseteq> set pending
     \<and> set (admit_loop cap g occ pending) \<inter> set occ = {}
     \<and> (admit_loop cap g occ pending \<noteq> [] \<longrightarrow> int (length occ + length (admit_loop cap g occ pending)) \<le> cap)"
proof (induction cap g occ pending rule: admit_loop.induct)
  case (2 cap g occ lane pending)
  then show ?case by (auto simp: Let_def)
qed simp

lemma admit_loop_subseq: "subseq (admit_loop cap g occ pending) pending"
  by (induction cap g occ pending rule: admit_loop.induct) auto

lemma admit_loop_free:
  assumes sym: "\<And>i j. j \<in> peers g i \<longleftrightarrow> i \<in> peers g j"
  shows "x \<in> set (admit_loop cap g occ pending) \<Longrightarrow>
    y \<in> set occ \<union> set (admit_loop cap g occ pending) \<Longrightarrow> x \<noteq> y \<Longrightarrow> y \<notin> peers g x"
  using sym
proof (induction cap g occ pending arbitrary: x y rule: admit_loop.induct)
  case (2 cap g occ lane pending)
  show ?case
  proof (cases "int (length occ) < cap \<and> lane \<notin> set occ \<and> peers g lane \<inter> set occ = {}")
    case True
    define rest where "rest = admit_loop cap g (lane # occ) pending"
    have adm: "admit_loop cap g occ (lane # pending) = lane # rest"
      using True by (auto simp: rest_def list_ex_iff)
    have IH: "u \<in> set rest \<Longrightarrow> v \<in> set (lane # occ) \<union> set rest \<Longrightarrow> u \<noteq> v \<Longrightarrow> v \<notin> peers g u" for u v
      using "2.IH"(3)[of u v] "2.prems"(4) True by (auto simp: rest_def list_ex_iff not_le)
    show ?thesis
    proof (cases "x = lane")
      case x: True
      show ?thesis
      proof (cases "y \<in> set occ")
        case False
        then have "y \<in> set rest" using "2.prems"(2,3) x adm by auto
        then have "lane \<notin> peers g y" using IH[of y lane] "2.prems"(3) x by simp
        then show ?thesis using "2.prems"(4) x by simp
      qed (use True x in auto)
    next
      case False
      then show ?thesis using IH[of x y] "2.prems"(1,2,3) adm by auto
    qed
  next
    case False
    then show ?thesis
      using "2.IH"(1,2)[of x y] "2.prems" by (auto simp: list_ex_iff split: if_splits)
  qed
qed simp

lemma admit_loop_maximal:
  assumes "x \<in> set pending" "x \<notin> set occ" "x \<notin> set (admit_loop cap g occ pending)"
  shows "cap \<le> int (length occ + length (admit_loop cap g occ pending))
     \<or> (\<exists>y \<in> set occ \<union> set (admit_loop cap g occ pending). y \<in> peers g x)"
  using assms
proof (induction cap g occ pending rule: admit_loop.induct)
  case (2 cap g occ lane pending)
  then show ?case
    by (auto simp: list_ex_iff split: if_splits)
qed simp


section \<open>The cap along a run\<close>

definition churn_count :: "(outcome \<times> string option) list \<Rightarrow> int" where
  "churn_count recent = int (length (filter (\<lambda>(x, _). x = CHURN) recent))"

lemma retry_storm_weight_mono:
  assumes "subseq xs ys"
  shows "retry_storm_weight xs \<le> retry_storm_weight ys"
proof -
  define R :: "(outcome \<times> string option) list \<Rightarrow> (outcome \<times> string option) list"
    where "R = filter (\<lambda>(x, _). x = TRANSIENT_RETRY)"
  have sub: "subseq (filter P (R xs)) (filter P (R ys))" for P
    unfolding R_def using assms by (intro subseq_filter)
  have "length (filter P (R xs)) \<le> length (filter P (R ys))" for P
    by (rule list_emb_length[OF sub])
  moreover have "set (filter P (R xs)) \<subseteq> set (filter P (R ys))" for P
    using sub[of P] by (metis subseq_conv_nths set_nths_subset)
  ultimately show ?thesis
    unfolding retry_storm_weight_def Let_def R_def[symmetric] length_remdups_card_conv
    by (intro add_mono of_nat_mono card_mono) (auto simp: image_mono)
qed

lemma churn_count_mono: "subseq xs ys \<Longrightarrow> churn_count xs \<le> churn_count ys"
  unfolding churn_count_def using list_emb_length[OF subseq_filter] by fastforce

lemma retry_storm_weight_gone: "retry_storm_weight (filter (\<lambda>(x, _). x \<notin> set (TRANSIENT_RETRY # c)) xs) = 0"
proof -
  have "filter (\<lambda>(x, _). x = TRANSIENT_RETRY) (filter (\<lambda>(x, _). x \<notin> set (TRANSIENT_RETRY # c)) xs) = []"
    by (auto simp: filter_empty_conv)
  then show ?thesis by (simp only: retry_storm_weight_def Let_def) simp
qed

lemma length_last_n: "length (last_n n xs) \<le> n"
  by (simp add: last_n_def)

lemma subseq_last_n: "subseq (last_n n xs) xs"
  by (simp add: last_n_def suffix_imp_subseq suffix_drop)

definition cap_inv :: "concurrency_policy \<Rightarrow> concurrency_state \<Rightarrow> bool" where
  "cap_inv p s = (cp_floor p \<le> cs_cap s \<and> cs_cap s \<le> cp_ceiling p
     \<and> int (length (cs_recent s)) \<le> cp_window p
     \<and> retry_storm_weight (cs_recent s) < cp_retry_storm_threshold p
     \<and> churn_count (cs_recent s) < cp_churn_threshold p
     \<and> 0 \<le> cs_healthy_streak s
     \<and> (cp_recovery_streak p \<le> cs_healthy_streak s \<longrightarrow> cs_cap s = cp_ceiling p))"

type_synonym observation = "outcome \<times> resource_snapshot option \<times> string option"

definition observe_step :: "concurrency_policy \<Rightarrow> concurrency_state \<Rightarrow> observation \<Rightarrow> concurrency_state \<Rightarrow> bool" where
  "observe_step p s e t = (case e of (outc, res, src) \<Rightarrow> t = fst (observe s outc p res src))"

lemma policy_check_bounds:
  assumes "policy_check p = Inr q"
  shows "q = p" "1 \<le> cp_floor p" "cp_floor p \<le> cp_ceiling p" "1 \<le> cp_window p"
    "1 \<le> cp_retry_storm_threshold p" "1 \<le> cp_churn_threshold p" "2 \<le> cp_shrink_divisor p"
    "1 \<le> cp_grow_step p" "1 \<le> cp_recovery_streak p"
    "cp_memory_pressure_enter p < cp_memory_pressure_exit p"
  using assms unfolding policy_check_def by (auto split: if_splits)


lemma retry_storm_weight_keep: "retry_storm_weight (filter (\<lambda>(x, _). x \<notin> set c) xs) \<le> retry_storm_weight xs"
  by (intro retry_storm_weight_mono subseq_filter_left)

lemma churn_count_keep: "churn_count (filter (\<lambda>(x, _). x \<notin> set c) xs) \<le> churn_count xs"
  by (intro churn_count_mono subseq_filter_left)

lemma churn_count_gone: "CHURN \<in> set c \<Longrightarrow> churn_count (filter (\<lambda>(x, _). x \<notin> set c) xs) = 0"
  by (auto simp: churn_count_def filter_empty_conv)

lemma evidence_consumed:
  assumes "0 < storm_at" "0 < churn_at"
    and "consumed = (if storm_at \<le> retry_storm_weight xs then [TRANSIENT_RETRY] else [])
           @ (if churn_at \<le> churn_count xs then [CHURN] else [])"
  shows "retry_storm_weight (filter (\<lambda>(x, _). x \<notin> set consumed) xs) < storm_at"
    and "churn_count (filter (\<lambda>(x, _). x \<notin> set consumed) xs) < churn_at"
proof -
  show "retry_storm_weight (filter (\<lambda>(x, _). x \<notin> set consumed) xs) < storm_at"
  proof (cases "storm_at \<le> retry_storm_weight xs")
    case True
    then obtain c where "consumed = TRANSIENT_RETRY # c" using assms(3) by simp
    then show ?thesis using retry_storm_weight_gone[of c xs] assms(1) by simp
  next
    case False
    then show ?thesis using retry_storm_weight_keep[of consumed xs] by linarith
  qed
  show "churn_count (filter (\<lambda>(x, _). x \<notin> set consumed) xs) < churn_at"
    using churn_count_gone[of consumed xs] churn_count_keep[of consumed xs] assms(2,3)
    by (cases "churn_at \<le> churn_count xs") auto
qed

lemma shrunk_cap:
  assumes "1 \<le> low" "low \<le> cap" "2 \<le> d"
  shows "low \<le> max low (cap div d)" "max low (cap div d) \<le> (cap :: int)"
    "max low (cap div d) < cap \<longleftrightarrow> low < cap"
proof -
  have "cap div d < cap" using assms by (intro int_div_less_self) auto
  then show "low \<le> max low (cap div d)" "max low (cap div d) \<le> cap"
    "max low (cap div d) < cap \<longleftrightarrow> low < cap" using assms by auto
qed

lemma observe_keeps_inv:
  assumes p: "policy_check p = Inr p" and inv: "cap_inv p s"
  shows "cap_inv p (fst (observe s outc p res src))"
proof -
  note b = policy_check_bounds[OF p]
  define recent where "recent = (if outc \<noteq> SAMPLE then last_n (nat (cp_window p)) (cs_recent s @ [(outc, src)])
                    else cs_recent s)"
  have "int (length recent) \<le> cp_window p"
    using inv b(4) length_last_n[of "nat (cp_window p)" "cs_recent s @ [(outc, src)]"]
    by (auto simp: recent_def cap_inv_def)
  then have len: "int (length (filter P recent)) \<le> cp_window p" for P
    using length_filter_le[of P recent] by linarith
  obtain pressured breaching unk where rp:
    "resource_pressure res (cs_pressured s) (cs_unknown_streak s) p = (pressured, breaching, unk)"
    by (metis prod_cases3)
  define consumed where "consumed = (if cp_retry_storm_threshold p \<le> retry_storm_weight recent then [TRANSIENT_RETRY] else [])
           @ (if cp_churn_threshold p \<le> churn_count recent then [CHURN] else [])"
  note ev = evidence_consumed[of "cp_retry_storm_threshold p" "cp_churn_threshold p" consumed recent, OF _ _ consumed_def]
  have cap: "cp_floor p \<le> cs_cap s" "cs_cap s \<le> cp_ceiling p" using inv by (auto simp: cap_inv_def)
  note sh = shrunk_cap[OF b(2) cap(1) b(7)]
  show ?thesis
    using ev sh b cap len[of "\<lambda>_. True"] len[of "\<lambda>(x, _). x \<notin> set consumed"] inv
    unfolding observe_def rp Let_def recent_def[symmetric] prod.case churn_count_def[symmetric]
      consumed_def[symmetric]
    by (auto simp: cap_inv_def not_le split: if_splits)
qed


lemma observe_cases:
  assumes "observe s outc p res src = (t, d)"
  obtains (shrink) "cs_cap t = max (cp_floor p) (cs_cap s div cp_shrink_divisor p)" "cn_reasons d \<noteq> []"
    "cn_previous_cap d = cs_cap s" "cn_cap d = cs_cap t"
    "cn_action d = (if cs_cap t < cs_cap s then ''shrink'' else ''hold'')"
  | (hold) streak grow where
    "streak = (if outc = SUCCEEDED \<and> \<not> cs_pressured t then cs_healthy_streak s + 1
               else if outc \<in> {TRANSIENT_RETRY, CHURN} \<or> cs_pressured t then 0 else cs_healthy_streak s)"
    "grow = (cp_recovery_streak p \<le> streak \<and> cs_cap s < cp_ceiling p)"
    "cs_cap t = (if grow then min (cp_ceiling p) (cs_cap s + cp_grow_step p) else cs_cap s)"
    "cn_previous_cap d = cs_cap s" "cn_cap d = cs_cap t" "cn_action d = (if grow then ''grow'' else ''hold'')"
proof -
  obtain pressured breaching unk where rp:
    "resource_pressure res (cs_pressured s) (cs_unknown_streak s) p = (pressured, breaching, unk)"
    by (metis prod_cases3)
  define recent where "recent = (if outc \<noteq> SAMPLE then last_n (nat (cp_window p)) (cs_recent s @ [(outc, src)])
                    else cs_recent s)"
  define reasons where "reasons = (if cp_retry_storm_threshold p \<le> retry_storm_weight recent then [''retry_storm''] else [])
    @ (if cp_churn_threshold p \<le> int (length (filter (\<lambda>(x, _). x = CHURN) recent)) then [''churn''] else [])
    @ (if breaching \<and> (\<not> cs_pressured s \<or> cp_pressure_cooldown p < cs_since_shrink s + 1) then [''resource_pressure''] else [])"
  note obs = assms[unfolded observe_def rp Let_def prod.case, folded recent_def, folded reasons_def]
  show thesis
  proof (cases "reasons = []")
    case True
    have t: "cs_pressured t = pressured" using obs True by auto
    show thesis by (rule hold[OF refl refl]) (use obs True t in auto)
  next
    case False
    show thesis by (rule shrink) (use obs False in auto)
  qed
qed

lemma observe_grow:
  assumes p: "policy_check p = Inr p" and inv: "cap_inv p s"
    and up: "cs_cap s < cs_cap t" and obs: "observe s outc p res src = (t, d)"
  shows "outc = SUCCEEDED \<and> \<not> cs_pressured t \<and> cs_cap t \<le> cs_cap s + cp_grow_step p
    \<and> cp_recovery_streak p \<le> cs_healthy_streak s + 1"
proof -
  note b = policy_check_bounds[OF p]
  have cap: "cp_floor p \<le> cs_cap s"
    and streak: "cp_recovery_streak p \<le> cs_healthy_streak s \<Longrightarrow> cs_cap s = cp_ceiling p"
    using inv by (auto simp: cap_inv_def)
  show ?thesis
    using obs
  proof (cases rule: observe_cases)
    case shrink
    then show ?thesis using up shrunk_cap(2)[OF b(2) cap b(7)] by simp
  next
    case (hold k grow)
    then have "grow" using up by (auto split: if_splits)
    then show ?thesis using hold(1-3) streak b(9) by (auto split: if_splits)
  qed
qed

lemma observe_decision:
  assumes "policy_check p = Inr p" "cap_inv p s" "observe s outc p res src = (t, d)"
  shows "cn_previous_cap d = cs_cap s \<and> cn_cap d = cs_cap t
    \<and> cn_action d = (if cs_cap t < cs_cap s then ''shrink'' else if cs_cap s < cs_cap t then ''grow'' else ''hold'')"
proof -
  note b = policy_check_bounds[OF assms(1)]
  have cap: "cp_floor p \<le> cs_cap s" using assms(2) by (simp add: cap_inv_def)
  show ?thesis
    using assms(3)
  proof (cases rule: observe_cases)
    case shrink
    then have "cs_cap t \<le> cs_cap s" using shrunk_cap(2)[OF b(2) cap b(7)] by metis
    then show ?thesis using shrink(3-5) by simp
  next
    case (hold k grow)
    then show ?thesis using b(8) by (cases grow) auto
  qed
qed

interpretation cap_run: invariant_system "observe_step p" "\<lambda>s. policy_check p = Inr p \<and> cap_inv p s" for p
  by unfold_locales (auto simp: observe_step_def observe_keeps_inv)

lemma initial_cap_inv: "policy_check p = Inr p \<Longrightarrow> cap_inv p (initial_state p c)"
  using policy_check_bounds[of p p]
  by (auto simp: initial_state_def cap_inv_def retry_storm_weight_def churn_count_def Let_def split: option.splits)

text \<open>
  A success outside resource pressure brings a state with cap below the ceiling one step closer
  to it; the measure counts the successes that are still missing.
\<close>

definition recovery_left :: "concurrency_policy \<Rightarrow> concurrency_state \<Rightarrow> int" where
  "recovery_left p s = (if cs_cap s = cp_ceiling p then 0
     else (cp_ceiling p - cs_cap s) * cp_recovery_streak p - cs_healthy_streak s)"

definition success :: "string option \<Rightarrow> observation" where
  "success src = (SUCCEEDED, None, src)"

lemma last_n_success:
  "retry_storm_weight (last_n n (xs @ [(SUCCEEDED, src)])) \<le> retry_storm_weight xs"
  "churn_count (last_n n (xs @ [(SUCCEEDED, src)])) \<le> churn_count xs"
proof -
  have "retry_storm_weight (xs @ [(SUCCEEDED, src)]) = retry_storm_weight xs"
    "churn_count (xs @ [(SUCCEEDED, src)]) = churn_count xs"
    by (simp_all add: retry_storm_weight_def churn_count_def)
  then show "retry_storm_weight (last_n n (xs @ [(SUCCEEDED, src)])) \<le> retry_storm_weight xs"
    "churn_count (last_n n (xs @ [(SUCCEEDED, src)])) \<le> churn_count xs"
    using retry_storm_weight_mono churn_count_mono subseq_last_n by metis+
qed

lemma observe_success:
  assumes inv: "cap_inv p s" and calm: "\<not> cs_pressured s"
  shows "fst (observe s SUCCEEDED p None src) =
    (let streak = cs_healthy_streak s + 1;
         grow = (cp_recovery_streak p \<le> streak \<and> cs_cap s < cp_ceiling p) in
     s\<lparr>cs_cap := (if grow then min (cp_ceiling p) (cs_cap s + cp_grow_step p) else cs_cap s),
       cs_recent := last_n (nat (cp_window p)) (cs_recent s @ [(SUCCEEDED, src)]),
       cs_healthy_streak := (if grow then 0 else streak),
       cs_since_shrink := cs_since_shrink s + 1, cs_observations := cs_observations s + 1\<rparr>)"
proof -
  have "\<not> cp_retry_storm_threshold p \<le> retry_storm_weight (last_n (nat (cp_window p)) (cs_recent s @ [(SUCCEEDED, src)]))"
    "\<not> cp_churn_threshold p \<le> churn_count (last_n (nat (cp_window p)) (cs_recent s @ [(SUCCEEDED, src)]))"
    using last_n_success[of "nat (cp_window p)" "cs_recent s" src] inv by (auto simp: cap_inv_def)
  then show ?thesis
    using calm by (simp add: observe_def resource_pressure_def Let_def churn_count_def)
qed


lemma success_progress:
  assumes p: "policy_check p = Inr p" and inv: "cap_inv p s" and calm: "\<not> cs_pressured s"
    and step: "observe_step p s (success src) t"
  shows "\<not> cs_pressured t" "cs_cap s \<le> cs_cap t" "0 < recovery_left p s \<Longrightarrow> recovery_left p t < recovery_left p s"
    "recovery_left p s \<le> 0 \<Longrightarrow> cs_cap s = cp_ceiling p"
proof -
  note b = policy_check_bounds[OF p]
  let ?R = "cp_recovery_streak p" and ?C = "cp_ceiling p"
  have t: "t = fst (observe s SUCCEEDED p None src)"
    using step by (simp add: observe_step_def success_def)
  note eq = observe_success[OF inv calm, of src, folded t]
  have cap: "cs_cap s \<le> ?C" and streak: "cs_cap s \<noteq> ?C \<Longrightarrow> cs_healthy_streak s < ?R"
    using inv by (auto simp: cap_inv_def not_le[symmetric])
  show "\<not> cs_pressured t" using calm by (simp add: eq Let_def)
  show "cs_cap s \<le> cs_cap t" using b(8) cap by (simp add: eq Let_def)
  have pos: "cs_cap s \<noteq> ?C \<Longrightarrow> ?R \<le> (?C - cs_cap s) * ?R"
    using cap b(9) mult_right_mono[of 1 "?C - cs_cap s" ?R] by simp
  then show "recovery_left p s \<le> 0 \<Longrightarrow> cs_cap s = ?C"
    using streak by (fastforce simp: recovery_left_def split: if_splits)
  assume "0 < recovery_left p s"
  then have less: "cs_cap s < ?C" using cap by (auto simp: recovery_left_def split: if_splits)
  show "recovery_left p t < recovery_left p s"
  proof (cases "?R \<le> cs_healthy_streak s + 1")
    case True
    then have grown: "cs_cap t = min ?C (cs_cap s + cp_grow_step p)" "cs_healthy_streak t = 0"
      using less by (simp_all add: eq Let_def)
    then have "(?C - cs_cap t) * ?R \<le> (?C - cs_cap s - 1) * ?R"
      using b(8,9) less by (intro mult_right_mono) auto
    moreover have "recovery_left p t = (?C - cs_cap t) * ?R" using grown by (simp add: recovery_left_def)
    moreover have "recovery_left p s = (?C - cs_cap s - 1) * ?R + (?R - cs_healthy_streak s)"
      using less by (simp add: recovery_left_def algebra_simps)
    ultimately show ?thesis using streak less by linarith
  next
    case False
    then show ?thesis using less by (simp add: eq recovery_left_def Let_def)
  qed
qed

lemma successes_recover:
  assumes "run_of (observe_step p) s es t" "policy_check p = Inr p" "cap_inv p s" "\<not> cs_pressured s"
    and "set es \<subseteq> range success" "recovery_left p s \<le> int (length es)"
  shows "cs_cap t = cp_ceiling p"
  using assms
proof (induction rule: run_of.induct)
  case (run_Nil s)
  moreover have "observe_step p s (success None) (fst (observe s SUCCEEDED p None None))"
    by (simp add: observe_step_def success_def)
  ultimately show ?case
    using success_progress(4)[of p s None] by simp
next
  case (run_Cons s e t es u)
  obtain src where e: "e = success src" using run_Cons.prems by auto
  note prog = success_progress[OF run_Cons.prems(1-3) run_Cons.hyps(1)[unfolded e]]
  have inv: "cap_inv p t"
    using cap_run.inv_step[OF run_Cons.hyps(1)] run_Cons.prems by blast
  have "recovery_left p t \<le> int (length es)"
  proof (cases "0 < recovery_left p s")
    case True
    then show ?thesis using prog(3) run_Cons.prems(5) by simp
  next
    case False
    then have "cs_cap t = cp_ceiling p"
      using prog(2,4) inv by (auto simp: cap_inv_def)
    then show ?thesis by (simp add: recovery_left_def)
  qed
  then show ?case
    using run_Cons.IH run_Cons.prems inv prog(1) by auto
qed


section \<open>Properties\<close>

lemma conflict_graph_sym:
  assumes "conflict_graph claims = Inr g"
  shows "j \<in> peers g i \<longleftrightarrow> i \<in> peers g j"
  unfolding conflict_graph_peers(2)[OF assms] using claims_conflict_sym by blast

lemma conflict_graph_ids: "conflict_graph claims = Inr g \<Longrightarrow> distinct (map lc_lane_id claims)"
  by (auto simp: conflict_graph_def Let_def split: if_splits)

lemma conflict_peers_iff:
  assumes "conflict_graph claims = Inr g" "a \<in> set claims" "b \<in> set claims"
  shows "lc_lane_id b \<in> peers g (lc_lane_id a) \<longleftrightarrow> claims_conflict a b"
proof -
  have inj: "inj_on lc_lane_id (set claims)"
    using conflict_graph_ids[OF assms(1)] by (simp add: distinct_map)
  show ?thesis
    unfolding conflict_graph_peers(2)[OF assms(1)] using assms(2,3) inj_onD[OF inj] by metis
qed

text \<open>
  (C20) Lanes started together never fight over a file. With the conflict graph of the claims, the
  lanes admitted beside the running ones are pending lanes in their stable order, new and without
  duplicates, within the cap, and none conflicts with a running or another admitted lane. A lane
  left pending is held back by the cap or by a claim that really conflicts, so a blocked lane
  never blocks a later independent one.
\<close>

theorem admitted_lanes_independent:
  assumes "conflict_graph claims = Inr g" "admissible_lanes pending running cap g = Inr out"
  shows "subseq out pending \<and> distinct out \<and> set out \<inter> set running = {}
    \<and> (out \<noteq> [] \<longrightarrow> int (card (set running) + length out) \<le> cap)
    \<and> (\<forall>a\<in>set claims. \<forall>b\<in>set claims. lc_lane_id a \<in> set out \<longrightarrow> lc_lane_id b \<in> set running \<union> set out
         \<longrightarrow> \<not> claims_conflict a b)
    \<and> (\<forall>x\<in>set pending. x \<notin> set running \<union> set out \<longrightarrow> cap \<le> int (card (set running) + length out)
         \<or> (\<exists>a\<in>set claims. \<exists>b\<in>set claims. lc_lane_id a = x \<and> lc_lane_id b \<in> set running \<union> set out
              \<and> claims_conflict a b))"
proof -
  define occ where "occ = remdups running"
  have out: "out = admit_loop cap g occ pending"
    using assms(2) by (simp add: admissible_lanes_def occ_def split: if_splits)
  have occ: "distinct occ" "set occ = set running" "length occ = card (set running)"
    by (simp_all add: occ_def length_remdups_card_conv)
  note facts = admit_loop_facts[OF occ(1), of cap g pending, folded out]
  note free = admit_loop_free[OF conflict_graph_sym[OF assms(1)], of _ cap occ pending, folded out]
  have "\<not> claims_conflict a b" if "a \<in> set claims" "b \<in> set claims" "lc_lane_id a \<in> set out"
    "lc_lane_id b \<in> set running \<union> set out" for a b
  proof (cases "lc_lane_id a = lc_lane_id b")
    case False
    then show ?thesis
      using free[of "lc_lane_id a" "lc_lane_id b"] conflict_peers_iff[OF assms(1) that(1,2)] that(3,4) occ(2) by simp
  qed (simp add: claims_conflict_def)
  moreover have "cap \<le> int (card (set running) + length out)
      \<or> (\<exists>a\<in>set claims. \<exists>b\<in>set claims. lc_lane_id a = x \<and> lc_lane_id b \<in> set running \<union> set out \<and> claims_conflict a b)"
    if "x \<in> set pending" "x \<notin> set running \<union> set out" for x
    using admit_loop_maximal[of x pending occ cap g, folded out] that occ
    unfolding conflict_graph_peers(2)[OF assms(1)] by auto
  ultimately show ?thesis
    using facts admit_loop_subseq[of cap g occ pending, folded out] occ by simp
qed

definition example_claims :: "lane_claim list" where
  "example_claims = [\<lparr>lc_lane_id = ''a'', lc_paths = [''src''], lc_access = WRITE\<rparr>,
      \<lparr>lc_lane_id = ''b'', lc_paths = [''src/x.py''], lc_access = READ\<rparr>,
      \<lparr>lc_lane_id = ''c'', lc_paths = [''docs''], lc_access = WRITE\<rparr>]"

theorem admitted_lanes_independent_witness:
  "\<exists>g. conflict_graph example_claims = Inr g \<and> admissible_lanes [''b'', ''c''] [''a''] 2 g = Inr [''c'']
    \<and> \<not> claims_conflict (example_claims ! 2) (example_claims ! 0)"
proof -
  let ?g = "[(''a'', [''b'']), (''b'', [''a'']), (''c'', [])]"
  have g: "conflict_graph example_claims = Inr ?g" unfolding example_claims_def by code_simp
  have out: "admissible_lanes [''b'', ''c''] [''a''] 2 ?g = Inr [''c'']" by code_simp
  have "\<not> claims_conflict (example_claims ! 2) (example_claims ! 0)"
    using admitted_lanes_independent[OF g out] unfolding example_claims_def by simp
  then show ?thesis using g out by blast
qed

text \<open>
  A conflict is exactly an overlap of the paths as given: two lanes conflict when they are
  different, at least one writes, and the components of some path of one, case folded and without
  dots, are a prefix of the components of some path of the other.
\<close>

theorem conflict_is_ancestor_overlap:
  assumes "mk_lane_claim i ps x = Inr a" "mk_lane_claim j qs y = Inr b"
  shows "claims_conflict a b \<longleftrightarrow> i \<noteq> j \<and> (x = WRITE \<or> y = WRITE)
    \<and> (\<exists>p\<in>set ps. \<exists>q\<in>set qs. \<exists>us vs. path_parts p = Inr (False, us) \<and> path_parts q = Inr (False, vs)
         \<and> (prefix us vs \<or> prefix vs us))"
proof -
  have a: "lc_lane_id a = i" "lc_access a = x" "list_all2 (\<lambda>p u. normalize_path p = Inr u) ps (lc_paths a)"
    and b: "lc_lane_id b = j" "lc_access b = y" "list_all2 (\<lambda>p u. normalize_path p = Inr u) qs (lc_paths b)"
    using assms by (auto simp: mk_lane_claim_def mapr_Inr_iff split: if_splits)
  have norm: "(\<exists>u\<in>set us. P (claim_parts u)) \<longleftrightarrow> (\<exists>p\<in>set rs. \<exists>w. path_parts p = Inr (False, w) \<and> P w)"
    if "list_all2 (\<lambda>p u. normalize_path p = Inr u) rs us" for rs us P
    using that
  proof (induction rule: list_all2_induct)
    case (Cons r rs u us)
    then show ?case using normalize_path_parts[OF Cons(1)] by fastforce
  qed simp
  have acc: "\<not> (x = READ \<and> y = READ) \<longleftrightarrow> x = WRITE \<or> y = WRITE"
    by (cases x; cases y) auto
  show ?thesis
    unfolding claims_conflict_def list_ex_iff paths_overlap_prefix a(1,2) b(1,2)
    using norm[OF a(3), of "\<lambda>us. \<exists>v\<in>set (lc_paths b). prefix us (claim_parts v) \<or> prefix (claim_parts v) us"]
      norm[OF b(3), of "\<lambda>vs. prefix us vs \<or> prefix vs us" for us] acc by auto
qed

theorem conflict_is_ancestor_overlap_witness:
  "\<exists>a b. mk_lane_claim ''l1'' [''Src''] WRITE = Inr a \<and> mk_lane_claim ''l2'' [''./src/a.py''] READ = Inr b
     \<and> claims_conflict a b"
proof -
  let ?a = "\<lparr>lc_lane_id = ''l1'', lc_paths = [''src''], lc_access = WRITE\<rparr>"
  let ?b = "\<lparr>lc_lane_id = ''l2'', lc_paths = [''src/a.py''], lc_access = READ\<rparr>"
  have a: "mk_lane_claim ''l1'' [''Src''] WRITE = Inr ?a" by code_simp
  have b: "mk_lane_claim ''l2'' [''./src/a.py''] READ = Inr ?b" by code_simp
  have "path_parts ''Src'' = Inr (False, [''src''])"
    "path_parts ''./src/a.py'' = Inr (False, [''src'', ''a.py''])" by code_simp+
  then have "claims_conflict ?a ?b"
    using conflict_is_ancestor_overlap[OF a b] by auto
  then show ?thesis using a b by blast
qed


text \<open>
  The cap is always usable. Whatever outcomes and resource samples are observed, starting
  from the initial state, the cap stays between floor and ceiling, the evidence window stays
  bounded and holds no storm or churn burst that was already acted on; the decision reports the
  change of the cap, which grows only on a success with pressure released, after a full healthy
  streak, and by one growth step at most.
\<close>

theorem cap_bounded_and_grows_on_success:
  assumes "policy_check p = Inr p" "run_of (observe_step p) (initial_state p start) es s"
    and "observe s outc p res src = (t, d)"
  shows "cp_floor p \<le> cs_cap t \<and> cs_cap t \<le> cp_ceiling p \<and> int (length (cs_recent t)) \<le> cp_window p
    \<and> retry_storm_weight (cs_recent t) < cp_retry_storm_threshold p
    \<and> churn_count (cs_recent t) < cp_churn_threshold p
    \<and> cn_previous_cap d = cs_cap s \<and> cn_cap d = cs_cap t
    \<and> cn_action d = (if cs_cap t < cs_cap s then ''shrink'' else if cs_cap s < cs_cap t then ''grow'' else ''hold'')
    \<and> (cs_cap s < cs_cap t \<longrightarrow> outc = SUCCEEDED \<and> \<not> cs_pressured t
         \<and> cs_cap t \<le> cs_cap s + cp_grow_step p \<and> cp_recovery_streak p \<le> cs_healthy_streak s + 1)"
proof -
  have inv: "cap_inv p s"
    using cap_run.inv_run[OF assms(2)] assms(1) initial_cap_inv by blast
  have "cap_inv p t"
    using observe_keeps_inv[OF assms(1) inv, of outc res src] assms(3) by simp
  then show ?thesis
    using observe_decision[OF assms(1) inv assms(3)] observe_grow[OF assms(1) inv _ assms(3)]
    by (simp add: cap_inv_def)
qed

definition example_policy :: concurrency_policy where
  "example_policy = \<lparr>cp_ceiling = 4, cp_floor = 1, cp_window = 8, cp_retry_storm_threshold = 3,
     cp_churn_threshold = 2, cp_memory_pressure_enter = 1 / 10, cp_memory_pressure_exit = 1 / 5,
     cp_shrink_divisor = 2, cp_grow_step = 1, cp_recovery_streak = 2, cp_pressure_cooldown = 2,
     cp_unknown_release_after = 3\<rparr>"

definition example_churned :: concurrency_state where
  "example_churned = foldl (\<lambda>s x. fst (observe s x example_policy None None)) (initial_state example_policy None)
     [CHURN, CHURN]"

lemma example_policy_ok: "policy_check example_policy = Inr example_policy"
  by code_simp

lemma example_churned_run:
  "run_of (observe_step example_policy) (initial_state example_policy None)
     [(CHURN, None, None), (CHURN, None, None)] example_churned"
  by (auto simp: example_churned_def observe_step_def intro!: run_Nil run_Cons)

theorem cap_bounded_and_grows_on_success_witness:
  "cs_cap example_churned = 2 \<and> cs_recent example_churned = []
     \<and> 1 \<le> cs_cap (fst (observe example_churned FAILED example_policy None None))"
proof -
  have "cs_cap example_churned = 2" "cs_recent example_churned = []" by code_simp+
  then show ?thesis
    using cap_bounded_and_grows_on_success[OF example_policy_ok example_churned_run surjective_pairing, of FAILED None None]
    by (simp add: example_policy_def)
qed

text \<open>
  The cap recovers. From any state a run has reached without latched pressure, enough
  successes in a row bring the cap back to the ceiling: one recovery streak for each unit that
  is missing is enough.
\<close>

theorem cap_recovers:
  assumes "policy_check p = Inr p" "run_of (observe_step p) (initial_state p start) es s"
    and "\<not> cs_pressured s"
    and "run_of (observe_step p) s (map success srcs) t"
    and "(cp_ceiling p - cs_cap s) * cp_recovery_streak p \<le> int (length srcs)"
  shows "cs_cap t = cp_ceiling p"
proof -
  have inv: "cap_inv p s"
    using cap_run.inv_run[OF assms(2)] assms(1) initial_cap_inv by blast
  have "recovery_left p s \<le> int (length (map success srcs))"
    using assms(5) inv by (simp add: recovery_left_def cap_inv_def)
  then show ?thesis
    using successes_recover[OF assms(4,1) inv assms(3)] by auto
qed

theorem cap_recovers_witness:
  "cs_cap (fst (observe (fst (observe (fst (observe (fst (observe example_churned SUCCEEDED example_policy None None))
     SUCCEEDED example_policy None None)) SUCCEEDED example_policy None None)) SUCCEEDED example_policy None None)) = 4"
proof -
  have successes: "run_of (observe_step example_policy) example_churned (map success [None, None, None, None])
    (fst (observe (fst (observe (fst (observe (fst (observe example_churned SUCCEEDED example_policy None None))
     SUCCEEDED example_policy None None)) SUCCEEDED example_policy None None)) SUCCEEDED example_policy None None))"
    by (auto simp: observe_step_def success_def intro!: run_Nil run_Cons)
  have calm: "\<not> cs_pressured example_churned" by code_simp
  have enough: "(cp_ceiling example_policy - cs_cap example_churned) * cp_recovery_streak example_policy
       \<le> int (length [None, None, None, None :: string option])" by code_simp
  have "cp_ceiling example_policy = 4" by (simp add: example_policy_def)
  then show ?thesis
    using cap_recovers[OF example_policy_ok example_churned_run calm successes enough] by (rule trans[rotated])
qed

end
