(* ===== verification/PartitionRouting.thy ===== *)
theory PartitionRouting
  imports Prelude
begin

text \<open>
  \<^verbatim>\<open>sonder_runtime/domain/scheduler_partition.py\<close>: the bounded map from session keys to scheduler
  partitions by weighted rendezvous hashing, with a revisioned and paginated inventory. The
  SHA-256 prefix of a text is the parameter \<open>h\<close>; no property depends on what it computes.
\<close>

section \<open>Descriptors and the router\<close>

abbreviation max_partitions_bound :: int where
  "max_partitions_bound \<equiv> 4096"

abbreviation max_page_size :: int where
  "max_page_size \<equiv> 128"

record partition_descriptor =
  pd_partition_id :: string
  pd_owner_id :: string
  pd_capacity :: int
  pd_revision :: int
  pd_status :: string

definition pt_identity :: "pyval \<Rightarrow> string \<Rightarrow> string res" where
  "pt_identity v field =
     (case v of
        PyStr s \<Rightarrow> if identity_match s then Inr s
                   else Inl (PartitionRoutingError (field @ '' must be a bounded stable identity''))
      | _ \<Rightarrow> Inl (PartitionRoutingError (field @ '' must be a bounded stable identity'')))"

definition mk_partition :: "pyval \<Rightarrow> pyval \<Rightarrow> pyval \<Rightarrow> pyval \<Rightarrow> string \<Rightarrow> partition_descriptor res" where
  "mk_partition pid owner capacity revision status =
     rbind (pt_identity pid ''partition_id'') (\<lambda>i.
     rbind (pt_identity owner ''owner_id'') (\<lambda>own.
     case capacity of
       PyInt c \<Rightarrow>
         if \<not> (1 \<le> c \<and> c \<le> 2 ^ 20) then Inl (PartitionRoutingError ''capacity must be an integer within 1..2^20'')
         else (case revision of
           PyInt r \<Rightarrow>
             if \<not> (1 \<le> r \<and> r \<le> max_int63) then Inl (PartitionRoutingError ''revision must be a positive bounded integer'')
             else if status \<notin> {''active'', ''draining'', ''paused''}
             then Inl (PartitionRoutingError ''status must be active, draining, or paused'')
             else Inr \<lparr>pd_partition_id = i, pd_owner_id = own, pd_capacity = c, pd_revision = r, pd_status = status\<rparr>
         | _ \<Rightarrow> Inl (PartitionRoutingError ''revision must be a positive bounded integer''))
     | _ \<Rightarrow> Inl (PartitionRoutingError ''capacity must be an integer within 1..2^20'')))"

record partition_page =
  pp_items :: "partition_descriptor list"
  pp_next_cursor :: "string option"
  pp_complete :: bool
  pp_revision :: int

record protocol_decision =
  pr_accepted :: bool
  pr_selected_version :: int
  pr_reason :: string

record partition_router =
  rt_protocol_version :: int
  rt_max_partitions :: int
  rt_partitions :: "(string, partition_descriptor) dict"
  rt_inventory_revision :: int

section \<open>Operations\<close>

definition router_insert :: "partition_descriptor \<Rightarrow> partition_router \<Rightarrow> partition_router res" where
  "router_insert d r =
     (if map_of (rt_partitions r) (pd_partition_id d) \<noteq> None then Inl (PartitionRoutingError ''duplicate partition_id'')
      else if rt_max_partitions r \<le> int (length (rt_partitions r))
      then Inl (PartitionRoutingError ''partition inventory capacity exhausted'')
      else Inr (r\<lparr>rt_partitions := AList.update (pd_partition_id d) d (rt_partitions r)\<rparr>))"

fun router_insert_all :: "partition_descriptor list \<Rightarrow> partition_router \<Rightarrow> partition_router res" where
  "router_insert_all [] r = Inr r"
| "router_insert_all (d # ds) r = rbind (router_insert d r) (router_insert_all ds)"

definition new_router :: "partition_descriptor list \<Rightarrow> pyval \<Rightarrow> pyval \<Rightarrow> partition_router res" where
  "new_router partitions protocol_version max_partitions =
     (if \<not> bounded_int 1 16 protocol_version then Inl (PartitionRoutingError ''protocol_version must be within 1..16'')
      else if \<not> bounded_int 1 max_partitions_bound max_partitions
      then Inl (PartitionRoutingError ''max_partitions is outside the supported bound'')
      else (case (protocol_version, max_partitions) of
        (PyInt v, PyInt m) \<Rightarrow> router_insert_all partitions
          \<lparr>rt_protocol_version = v, rt_max_partitions = m, rt_partitions = [], rt_inventory_revision = 1\<rparr>
      | _ \<Rightarrow> Inl (PartitionRoutingError ''max_partitions is outside the supported bound'')))"

definition router_partition :: "pyval \<Rightarrow> partition_router \<Rightarrow> partition_descriptor res" where
  "router_partition pid r =
     rbind (pt_identity pid ''partition_id'') (\<lambda>key.
       case map_of (rt_partitions r) key of
         None \<Rightarrow> Inl (PartitionRoutingError ''partition is not enrolled'')
       | Some d \<Rightarrow> Inr d)"

definition router_partitions :: "partition_router \<Rightarrow> partition_descriptor list" where
  "router_partitions r = map (\<lambda>key. the (map_of (rt_partitions r) key)) (sort (map fst (rt_partitions r)))"

definition active_partitions :: "partition_router \<Rightarrow> partition_descriptor list" where
  "active_partitions r = filter (\<lambda>d. pd_status d = ''active'') (router_partitions r)"

definition router_upsert :: "partition_descriptor \<Rightarrow> partition_router \<Rightarrow> partition_router res" where
  "router_upsert d r =
     (case map_of (rt_partitions r) (pd_partition_id d) of
        None \<Rightarrow> rbind (router_insert d r) (\<lambda>r'.
          Inr (r'\<lparr>rt_inventory_revision := rt_inventory_revision r' + 1\<rparr>))
      | Some current \<Rightarrow>
        if pd_revision d < pd_revision current then Inl (PartitionRoutingError ''partition revision must be monotonic'')
        else if pd_revision d = pd_revision current \<and> d \<noteq> current
        then Inl (PartitionRoutingError ''partition revision conflicts with existing metadata'')
        else if d \<noteq> current
        then Inr (r\<lparr>rt_partitions := AList.update (pd_partition_id d) d (rt_partitions r),
                    rt_inventory_revision := rt_inventory_revision r + 1\<rparr>)
        else Inr r)"

definition router_remove :: "pyval \<Rightarrow> int option \<Rightarrow> partition_router \<Rightarrow> (partition_router \<times> bool) res" where
  "router_remove pid expected_revision r =
     rbind (router_partition pid r) (\<lambda>current.
       if expected_revision \<noteq> None \<and> expected_revision \<noteq> Some (pd_revision current)
       then Inl (PartitionRoutingError ''partition revision is stale'')
       else Inr (r\<lparr>rt_partitions := AList.delete (pd_partition_id current) (rt_partitions r),
                   rt_inventory_revision := rt_inventory_revision r + 1\<rparr>, True))"

definition route_score :: "(string \<Rightarrow> nat) \<Rightarrow> string \<Rightarrow> partition_descriptor \<Rightarrow> int \<times> string" where
  \<comment> \<open>\<open>h\<close> maps a text to the integer of the first 16 bytes of its SHA-256 digest\<close>
  "route_score h key d = (int (h (key @ [CHR 0x00] @ pd_partition_id d)) * pd_capacity d, pd_partition_id d)"

definition route :: "(string \<Rightarrow> nat) \<Rightarrow> pyval \<Rightarrow> partition_router \<Rightarrow> partition_descriptor res" where
  "route h key r =
     (case key of
        PyStr k \<Rightarrow>
          if \<not> (1 \<le> utf8_len k \<and> utf8_len k \<le> 4096) then Inl (PartitionRoutingError ''routing key must be bounded text'')
          else (case active_partitions r of
            [] \<Rightarrow> Inl (PartitionRoutingError ''no active scheduler partition'')
          | d # ds \<Rightarrow> Inr (first_max (route_score h k) d ds))
      | _ \<Rightarrow> Inl (PartitionRoutingError ''routing key must be bounded text''))"

fun list_index :: "'a \<Rightarrow> 'a list \<Rightarrow> nat" where
  "list_index x [] = 0"
| "list_index x (y # ys) = (if x = y then 0 else Suc (list_index x ys))"

definition page_start :: "pyval option \<Rightarrow> partition_router \<Rightarrow> nat res" where
  "page_start after r =
     (case after of
        None \<Rightarrow> Inr 0
      | Some v \<Rightarrow> rbind (pt_identity v ''partition cursor'') (\<lambda>cursor.
          let ids = map pd_partition_id (router_partitions r) in
          if cursor \<notin> set ids then Inl (PartitionRoutingError ''partition cursor is unknown'')
          else Inr (list_index cursor ids + 1)))"

definition page :: "pyval option \<Rightarrow> pyval \<Rightarrow> int option \<Rightarrow> partition_router \<Rightarrow> partition_page res" where
  "page after limit snapshot_revision r =
     (if \<not> bounded_int 1 max_page_size limit
      then Inl (PartitionRoutingError ''limit must be an integer within 1..128'')
      else if snapshot_revision \<noteq> None \<and> snapshot_revision \<noteq> Some (rt_inventory_revision r)
      then Inl (PartitionRoutingError ''partition inventory revision changed'')
      else rbind (page_start after r) (\<lambda>start.
        let lim = (case limit of PyInt n \<Rightarrow> nat n | _ \<Rightarrow> 0);
            records = router_partitions r;
            items = take lim (drop start records);
            complete = (length records \<le> start + lim)
        in Inr \<lparr>pp_items = items,
                pp_next_cursor = (if complete then None else Some (pd_partition_id (last items))),
                pp_complete = complete, pp_revision = rt_inventory_revision r\<rparr>))"

definition negotiate :: "pyval \<Rightarrow> partition_router \<Rightarrow> protocol_decision" where
  "negotiate client_version r =
     (if \<not> bounded_int 1 16 client_version
      then \<lparr>pr_accepted = False, pr_selected_version = rt_protocol_version r, pr_reason = ''protocol_version_invalid''\<rparr>
      else if client_version \<noteq> PyInt (rt_protocol_version r)
      then \<lparr>pr_accepted = False, pr_selected_version = rt_protocol_version r, pr_reason = ''protocol_version_mismatch''\<rparr>
      else \<lparr>pr_accepted = True, pr_selected_version = rt_protocol_version r, pr_reason = ''protocol_version_accepted''\<rparr>)"

section \<open>Invariant\<close>

definition router_inv :: "partition_router \<Rightarrow> bool" where
  "router_inv r = (dict_ok (rt_partitions r) \<and> int (length (rt_partitions r)) \<le> rt_max_partitions r
     \<and> (\<forall>(i, d) \<in> set (rt_partitions r). pd_partition_id d = i \<and> identity_match i))"

lemma pt_identity_Inr [run_simps]: "pt_identity v f = Inr s \<longleftrightarrow> v = PyStr s \<and> identity_match s"
  by (cases v) (auto simp: pt_identity_def)

lemma router_lookup:
  assumes "router_inv r"
  shows "map_of (rt_partitions r) i = Some d \<longleftrightarrow> (i, d) \<in> set (rt_partitions r)"
  using assms by (simp add: router_inv_def)

lemma set_router_partitions:
  assumes "router_inv r"
  shows "set (router_partitions r) = ran (map_of (rt_partitions r))"
proof -
  have "set (router_partitions r) = (\<lambda>k. the (map_of (rt_partitions r) k)) ` dom (map_of (rt_partitions r))"
    by (simp add: router_partitions_def dom_map_of_conv_image_fst)
  then show ?thesis by (force simp: ran_def dom_def)
qed

lemma map_id_partitions:
  assumes "router_inv r"
  shows "map pd_partition_id (router_partitions r) = sort (map fst (rt_partitions r))"
proof -
  have "pd_partition_id (the (map_of (rt_partitions r) k)) = k" if k: "k \<in> set (map fst (rt_partitions r))" for k
  proof -
    obtain d where "(k, d) \<in> set (rt_partitions r)" using k by auto
    then show ?thesis using assms router_lookup[OF assms, of k d] by (auto simp: router_inv_def)
  qed
  then show ?thesis unfolding router_partitions_def map_map by (intro map_idI) simp
qed

lemma partition_in_iff:
  assumes "router_inv r"
  shows "d \<in> set (router_partitions r) \<longleftrightarrow> map_of (rt_partitions r) (pd_partition_id d) = Some d"
  unfolding set_router_partitions[OF assms] ran_def
  using router_lookup[OF assms] assms by (auto simp: router_inv_def)

lemma distinct_ids:
  assumes "router_inv r"
  shows "distinct (map pd_partition_id (router_partitions r))" "sorted (map pd_partition_id (router_partitions r))"
  using assms by (simp_all add: map_id_partitions[OF assms] router_inv_def)


definition partition_ok :: "partition_descriptor \<Rightarrow> bool" where
  "partition_ok d = (mk_partition (PyStr (pd_partition_id d)) (PyStr (pd_owner_id d)) (PyInt (pd_capacity d))
     (PyInt (pd_revision d)) (pd_status d) = Inr d)"

lemma mk_partition_Inr:
  "mk_partition v w cv rv st = Inr d \<longleftrightarrow>
     v = PyStr (pd_partition_id d) \<and> w = PyStr (pd_owner_id d) \<and> cv = PyInt (pd_capacity d)
     \<and> rv = PyInt (pd_revision d) \<and> st = pd_status d
     \<and> identity_match (pd_partition_id d) \<and> identity_match (pd_owner_id d)
     \<and> 1 \<le> pd_capacity d \<and> pd_capacity d \<le> 2 ^ 20 \<and> 1 \<le> pd_revision d \<and> pd_revision d \<le> max_int63
     \<and> pd_status d \<in> {''active'', ''draining'', ''paused''}"
  (is "?L \<longleftrightarrow> ?R")
proof
  assume ?L
  then show ?R
    by (cases cv; cases rv) (simp_all add: mk_partition_def run_simps split: if_splits, auto)
next
  assume ?R
  then show ?L by (cases d) (simp add: mk_partition_def pt_identity_def)
qed

lemma partition_ok_id: "partition_ok d \<Longrightarrow> identity_match (pd_partition_id d)"
  by (simp add: partition_ok_def mk_partition_Inr)

lemma mk_partition_ok: "mk_partition v w cv rv st = Inr d \<Longrightarrow> partition_ok d"
  by (simp add: partition_ok_def mk_partition_Inr)

lemma update_router_inv:
  assumes "router_inv r" "partition_ok d"
    and "map_of (rt_partitions r) (pd_partition_id d) \<noteq> None \<or> int (length (rt_partitions r)) < rt_max_partitions r"
    and "rt_partitions r' = AList.update (pd_partition_id d) d (rt_partitions r)" "rt_max_partitions r' = rt_max_partitions r"
  shows "router_inv r'"
  unfolding router_inv_def
proof (intro conjI ballI)
  show "dict_ok (rt_partitions r')" using assms(1,4) by (simp add: router_inv_def distinct_update)
  show "int (length (rt_partitions r')) \<le> rt_max_partitions r'"
    using assms(1,3,4,5) pydict.size_put[of "rt_partitions r" "pd_partition_id d" d]
    by (auto simp: router_inv_def split: if_splits)
  fix x assume "x \<in> set (rt_partitions r')"
  then have "x = (pd_partition_id d, d) \<or> x \<in> set (rt_partitions r)"
    using set_update_subset[of "pd_partition_id d" d "rt_partitions r"] assms(4) by auto
  then show "case x of (i, e) \<Rightarrow> pd_partition_id e = i \<and> identity_match i"
    using assms(1) partition_ok_id[OF assms(2)] by (auto simp: router_inv_def)
qed

lemma router_insert_Inr:
  assumes "router_insert d r = Inr r'" "router_inv r" "partition_ok d"
  shows "router_inv r'" "map_of (rt_partitions r) (pd_partition_id d) = None"
    "map_of (rt_partitions r') = (map_of (rt_partitions r))(pd_partition_id d \<mapsto> d)"
    "rt_inventory_revision r' = rt_inventory_revision r"
proof -
  have r': "r' = r\<lparr>rt_partitions := AList.update (pd_partition_id d) d (rt_partitions r)\<rparr>"
    and less: "int (length (rt_partitions r)) < rt_max_partitions r"
    and none: "map_of (rt_partitions r) (pd_partition_id d) = None"
    using assms(1) by (auto simp: router_insert_def split: if_splits)
  show "router_inv r'"
    by (rule update_router_inv[OF assms(2,3), of r']) (use r' less in simp_all)
  show "map_of (rt_partitions r) (pd_partition_id d) = None" by (fact none)
  show "map_of (rt_partitions r') = (map_of (rt_partitions r))(pd_partition_id d \<mapsto> d)"
    "rt_inventory_revision r' = rt_inventory_revision r"
    by (simp_all add: r' dict_simps)
qed

lemma router_inv_revision: "router_inv (r\<lparr>rt_inventory_revision := n\<rparr>) = router_inv r"
  by (simp add: router_inv_def)

lemma router_upsert_Inr:
  assumes "router_upsert d r = Inr r'" "router_inv r" "partition_ok d"
  shows "router_inv r'"
    "map_of (rt_partitions r') = (map_of (rt_partitions r))(pd_partition_id d \<mapsto> d)"
    "\<And>e. map_of (rt_partitions r) (pd_partition_id d) = Some e \<Longrightarrow> pd_revision e < pd_revision d \<or> e = d"
    "rt_inventory_revision r' = rt_inventory_revision r
       + (if map_of (rt_partitions r) (pd_partition_id d) = Some d then 0 else 1)"
proof -
  have "router_inv r'
    \<and> map_of (rt_partitions r') = (map_of (rt_partitions r))(pd_partition_id d \<mapsto> d)
    \<and> (\<forall>e. map_of (rt_partitions r) (pd_partition_id d) = Some e \<longrightarrow> pd_revision e < pd_revision d \<or> e = d)
    \<and> rt_inventory_revision r' = rt_inventory_revision r
       + (if map_of (rt_partitions r) (pd_partition_id d) = Some d then 0 else 1)"
  proof (cases "map_of (rt_partitions r) (pd_partition_id d)")
    case None
    then obtain r1 where r1: "router_insert d r = Inr r1" "r' = r1\<lparr>rt_inventory_revision := rt_inventory_revision r1 + 1\<rparr>"
      using assms(1) by (auto simp: router_upsert_def)
    show ?thesis using router_insert_Inr[OF r1(1) assms(2,3)] r1(2) by (simp add: router_inv_revision)
  next
    case (Some e)
    show ?thesis
    proof (cases "d = e")
      case True
      then show ?thesis using assms Some by (auto simp: router_upsert_def)
    next
      case False
      then have r': "r' = r\<lparr>rt_partitions := AList.update (pd_partition_id d) d (rt_partitions r),
          rt_inventory_revision := rt_inventory_revision r + 1\<rparr>" and less: "pd_revision e < pd_revision d"
        using assms(1) Some by (auto simp: router_upsert_def split: if_splits)
      have "router_inv r'"
        by (rule update_router_inv[OF assms(2,3), of r']) (use r' Some in simp_all)
      then show ?thesis using r' less Some False by (simp add: dict_simps)
    qed
  qed
  then show "router_inv r'"
    "map_of (rt_partitions r') = (map_of (rt_partitions r))(pd_partition_id d \<mapsto> d)"
    "\<And>e. map_of (rt_partitions r) (pd_partition_id d) = Some e \<Longrightarrow> pd_revision e < pd_revision d \<or> e = d"
    "rt_inventory_revision r' = rt_inventory_revision r
       + (if map_of (rt_partitions r) (pd_partition_id d) = Some d then 0 else 1)"
    by blast+
qed

lemma router_remove_Inr:
  assumes "router_remove v er r = Inr (r', b)" "router_inv r"
  obtains i d where "v = PyStr i" "map_of (rt_partitions r) i = Some d" "router_inv r'"
    "map_of (rt_partitions r') = (map_of (rt_partitions r))(i := None)"
    "rt_inventory_revision r' = rt_inventory_revision r + 1" "b" "er = None \<or> er = Some (pd_revision d)"
proof -
  obtain i d where i: "v = PyStr i" "map_of (rt_partitions r) i = Some d"
    "er = None \<or> er = Some (pd_revision d)" "b"
    and r': "r' = r\<lparr>rt_partitions := AList.delete (pd_partition_id d) (rt_partitions r),
                   rt_inventory_revision := rt_inventory_revision r + 1\<rparr>"
    using assms(1) by (auto simp: router_remove_def router_partition_def run_simps split: if_splits option.splits)
  have id: "pd_partition_id d = i"
    using i(2) assms(2) router_lookup[OF assms(2)] by (auto simp: router_inv_def)
  have "router_inv r'"
    using assms(2) set_delete_subset[of i "rt_partitions r"] pydict.size_rem_le[of "rt_partitions r" i]
    by (auto simp: router_inv_def r' id distinct_delete)
  then show thesis
    using that[OF i(1,2)] i r' id by (simp add: dict_simps)
qed

lemma insert_all_inv:
  assumes "router_insert_all ds r = Inr r'" "router_inv r" "list_all partition_ok ds"
  shows "router_inv r'"
  using assms by (induction ds arbitrary: r) (auto dest: router_insert_Inr(1))

lemma new_router_inv: "new_router ds v m = Inr r \<Longrightarrow> list_all partition_ok ds \<Longrightarrow> router_inv r"
  by (auto simp: new_router_def bounded_int_iff split: if_splits elim!: insert_all_inv)
    (simp add: router_inv_def)


section \<open>Routing\<close>

abbreviation active_in :: "partition_router \<Rightarrow> partition_descriptor \<Rightarrow> bool" where
  "active_in r d \<equiv> map_of (rt_partitions r) (pd_partition_id d) = Some d \<and> pd_status d = ''active''"

lemma set_active: "router_inv r \<Longrightarrow> set (active_partitions r) = {d. active_in r d}"
  by (auto simp: active_partitions_def partition_in_iff)

lemma route_score_inj: "inj_on (route_score h k) {d. active_in r d}"
proof (rule inj_onI)
  fix d e assume de: "d \<in> {d. active_in r d}" "e \<in> {d. active_in r d}" "route_score h k d = route_score h k e"
  from de(1) have "Some d = map_of (rt_partitions r) (pd_partition_id d)" by simp
  also have "\<dots> = map_of (rt_partitions r) (pd_partition_id e)"
    using de(3) by (intro arg_cong[where f = "map_of (rt_partitions r)"]) (simp add: route_score_def)
  also from de(2) have "\<dots> = Some e" by simp
  finally show "d = e" by (rule option.inject[THEN iffD1])
qed

lemma route_Inr:
  assumes "router_inv r"
  shows "route h v r = Inr d \<longleftrightarrow>
    (\<exists>k. v = PyStr k \<and> 1 \<le> utf8_len k \<and> utf8_len k \<le> 4096 \<and> active_in r d
       \<and> (\<forall>e. active_in r e \<longrightarrow> route_score h k e \<le> route_score h k d))" (is "?L \<longleftrightarrow> ?R")
proof
  assume ?L
  then obtain k where v: "v = PyStr k" by (cases v) (auto simp: route_def)
  then have k: "v = PyStr k" "1 \<le> utf8_len k" "utf8_len k \<le> 4096"
    using \<open>?L\<close> by (auto simp: route_def split: if_splits)
  then obtain a as where as: "active_partitions r = a # as" "d = first_max (route_score h k) a as"
    using \<open>?L\<close> by (cases "active_partitions r") (simp_all add: route_def)
  have "insert a (set as) = {d. active_in r d}" using set_active[OF assms] as(1) by simp
  then have "active_in r d \<and> (\<forall>e. active_in r e \<longrightarrow> route_score h k e \<le> route_score h k d)"
    using first_max_in[of "route_score h k" a as] first_max_ge[of _ a as "route_score h k"] as(2) by blast
  then show ?R using k by blast
next
  assume ?R
  then obtain k where k: "v = PyStr k" "1 \<le> utf8_len k" "utf8_len k \<le> 4096" "active_in r d"
    "\<And>e. active_in r e \<Longrightarrow> route_score h k e \<le> route_score h k d" by blast
  obtain a as where as: "active_partitions r = a # as"
    using set_active[OF assms] k(4) by (cases "active_partitions r") auto
  have "insert a (set as) = {d. active_in r d}" using set_active[OF assms] as(1) by simp
  then have "first_max (route_score h k) a as = d"
    using first_max_unique[of "route_score h k" a as d] route_score_inj[of h k r] k(4,5) by auto
  then show ?L using k(1-3) as by (simp add: route_def)
qed

lemma route_total:
  assumes "router_inv r" "active_in r e" "1 \<le> utf8_len k" "utf8_len k \<le> 4096"
  shows "\<exists>d. route h (PyStr k) r = Inr d"
proof -
  obtain a as where "active_partitions r = a # as"
    using set_active[OF assms(1)] assms(2) by (cases "active_partitions r") auto
  then show ?thesis using assms(3,4) by (simp add: route_def)
qed

section \<open>Pages\<close>

lemma list_index_nth: "x \<in> set xs \<Longrightarrow> list_index x xs < length xs \<and> xs ! list_index x xs = x"
  by (induction xs) auto

lemma list_index_distinct: "distinct xs \<Longrightarrow> i < length xs \<Longrightarrow> list_index (xs ! i) xs = i"
  using list_index_nth[of "xs ! i" xs] nth_eq_iff_index_eq[of xs i "list_index (xs ! i) xs"] by simp

text \<open>A client that follows the cursors, with every page bound to the revision of the first one.\<close>

fun walk :: "nat \<Rightarrow> pyval \<Rightarrow> pyval option \<Rightarrow> int option \<Rightarrow> partition_router \<Rightarrow> partition_descriptor list res" where
  "walk 0 limit after snap r = Inl (RuntimeError ''fuel'')"
| "walk (Suc n) limit after snap r =
     rbind (page after limit snap r) (\<lambda>pg.
       case pp_next_cursor pg of
         None \<Rightarrow> Inr (pp_items pg)
       | Some c \<Rightarrow> rbind (walk n limit (Some (PyStr c)) (Some (pp_revision pg)) r) (\<lambda>rest. Inr (pp_items pg @ rest)))"

lemma page_from:
  assumes inv: "router_inv r" and lim: "1 \<le> l" "l \<le> max_page_size"
    and snap: "snap \<in> {None, Some (rt_inventory_revision r)}" and start: "page_start after r = Inr i"
  shows "page after (PyInt l) snap r = Inr
    \<lparr>pp_items = take (nat l) (drop i (router_partitions r)),
     pp_next_cursor = (if length (router_partitions r) \<le> i + nat l then None
       else Some (pd_partition_id (router_partitions r ! (i + nat l - 1)))),
     pp_complete = (length (router_partitions r) \<le> i + nat l), pp_revision = rt_inventory_revision r\<rparr>"
proof -
  have "last (take (nat l) (drop i (router_partitions r))) = router_partitions r ! (i + nat l - 1)"
    if "\<not> length (router_partitions r) \<le> i + nat l"
    using that lim by (subst last_conv_nth) (auto simp: min_def Suc_le_eq add.commute nth_drop)
  then show ?thesis
    using lim snap start by (auto simp: page_def bounded_int_def Let_def)
qed

lemma page_start_cursor:
  assumes "router_inv r" "i < length (router_partitions r)"
  shows "page_start (Some (PyStr (pd_partition_id (router_partitions r ! i)))) r = Inr (Suc i)"
proof -
  let ?ids = "map pd_partition_id (router_partitions r)"
  have mem: "?ids ! i \<in> set ?ids" "?ids ! i = pd_partition_id (router_partitions r ! i)"
    using assms(2) nth_mem[of i ?ids] by auto
  then have "?ids ! i \<in> set (map fst (rt_partitions r))"
    using map_id_partitions[OF assms(1)] by (metis set_sort)
  then have "identity_match (?ids ! i)"
    using assms(1) by (auto simp: router_inv_def)
  then show ?thesis
    using mem list_index_distinct[OF distinct_ids(1)[OF assms(1)], of i] assms(2)
    by (simp add: page_start_def pt_identity_def)
qed

lemma walk_from:
  assumes inv: "router_inv r" and lim: "1 \<le> l" "l \<le> max_page_size"
  shows "snap \<in> {None, Some (rt_inventory_revision r)} \<Longrightarrow> page_start after r = Inr i \<Longrightarrow>
    length (router_partitions r) - i < n \<Longrightarrow>
    walk n (PyInt l) after snap r = Inr (drop i (router_partitions r))"
proof (induction n arbitrary: after snap i)
  case (Suc n)
  let ?P = "router_partitions r"
  have pg: "page after (PyInt l) snap r = Inr
    \<lparr>pp_items = take (nat l) (drop i ?P),
     pp_next_cursor = (if length ?P \<le> i + nat l then None else Some (pd_partition_id (?P ! (i + nat l - 1)))),
     pp_complete = (length ?P \<le> i + nat l), pp_revision = rt_inventory_revision r\<rparr>"
    using page_from[OF inv lim Suc.prems(1,2)] .
  show ?case
  proof (cases "length ?P \<le> i + nat l")
    case True
    then show ?thesis by (simp add: pg)
  next
    case False
    then have start: "page_start (Some (PyStr (pd_partition_id (?P ! (i + nat l - 1))))) r = Inr (i + nat l)"
      using page_start_cursor[OF inv, of "i + nat l - 1"] lim by simp
    have "walk n (PyInt l) (Some (PyStr (pd_partition_id (?P ! (i + nat l - 1))))) (Some (rt_inventory_revision r)) r
        = Inr (drop (i + nat l) ?P)"
      by (rule Suc.IH[OF _ start]) (use Suc.prems(3) False lim in auto)
    then have "walk (Suc n) (PyInt l) after snap r = Inr (take (nat l) (drop i ?P) @ drop (i + nat l) ?P)"
      using False by (simp add: pg)
    moreover have "take (nat l) (drop i ?P) @ drop (i + nat l) ?P = drop i ?P"
      using append_take_drop_id[of "nat l" "drop i ?P"] by (simp add: add.commute)
    ultimately show ?thesis by simp
  qed
qed simp


section \<open>Properties\<close>

text \<open>
  Routing disturbs only the keys it has to. Taking out a partition leaves every key routed
  elsewhere where it was; enrolling or updating another partition leaves a key where it was or
  moves it to the new descriptor, never between two partitions that did not change. As long as
  some partition is active, every bounded key is routed.
\<close>

theorem routing_minimal_disruption:
  assumes inv: "router_inv r" and d: "route h v r = Inr d"
  shows "(router_remove (PyStr i) er r = Inr (r1, b) \<and> i \<noteq> pd_partition_id d \<longrightarrow> route h v r1 = Inr d)
    \<and> (partition_ok q \<and> router_upsert q r = Inr r2 \<and> pd_partition_id q \<noteq> pd_partition_id d \<longrightarrow>
      route h v r2 = Inr d \<or> route h v r2 = Inr q)"
proof (intro conjI)
  obtain k where k: "v = PyStr k" "1 \<le> utf8_len k" "utf8_len k \<le> 4096" "active_in r d"
    and best: "\<And>e. active_in r e \<Longrightarrow> route_score h k e \<le> route_score h k d"
    using d unfolding route_Inr[OF inv] by blast
  show "router_remove (PyStr i) er r = Inr (r1, b) \<and> i \<noteq> pd_partition_id d \<longrightarrow> route h v r1 = Inr d"
  proof
    assume rem: "router_remove (PyStr i) er r = Inr (r1, b) \<and> i \<noteq> pd_partition_id d"
    then have inv1: "router_inv r1" and m: "map_of (rt_partitions r1) = (map_of (rt_partitions r))(i := None)"
      using router_remove_Inr[OF _ inv, of "PyStr i" er r1 b] by auto
    have "active_in r1 d" using k(4) rem by (auto simp: m)
    moreover have "active_in r1 e \<Longrightarrow> active_in r e" for e by (auto simp: m split: if_splits)
    ultimately show "route h v r1 = Inr d" unfolding route_Inr[OF inv1] using k best by blast
  qed
  show "partition_ok q \<and> router_upsert q r = Inr r2 \<and> pd_partition_id q \<noteq> pd_partition_id d \<longrightarrow>
      route h v r2 = Inr d \<or> route h v r2 = Inr q"
  proof
    assume up: "partition_ok q \<and> router_upsert q r = Inr r2 \<and> pd_partition_id q \<noteq> pd_partition_id d"
    then have inv2: "router_inv r2"
      and m: "map_of (rt_partitions r2) = (map_of (rt_partitions r))(pd_partition_id q \<mapsto> q)"
      using router_upsert_Inr[of q r r2] inv by auto
    have act: "active_in r2 d" using k(4) up by (auto simp: m)
    have old: "active_in r2 e \<Longrightarrow> e \<noteq> q \<Longrightarrow> active_in r e" for e by (auto simp: m split: if_splits)
    obtain w where w: "route h v r2 = Inr w"
      using route_total[OF inv2 act k(2,3)] k(1) by blast
    then have w': "active_in r2 w" "\<And>e. active_in r2 e \<Longrightarrow> route_score h k e \<le> route_score h k w"
      using k(1) unfolding route_Inr[OF inv2] by blast+
    have "w = d" if "w \<noteq> q"
    proof (rule inj_onD[OF route_score_inj[of h k r]])
      have act_w: "active_in r w" by (rule old[OF w'(1) that])
      show "route_score h k w = route_score h k d"
        by (rule antisym[OF best[OF act_w] w'(2)[OF act]])
      show "w \<in> {d. active_in r d}" "d \<in> {d. active_in r d}" using act_w k(4) by blast+
    qed
    then show "route h v r2 = Inr d \<or> route h v r2 = Inr q" using w by blast
  qed
qed


definition example_partition :: "string \<Rightarrow> int \<Rightarrow> partition_descriptor" where
  "example_partition i c = \<lparr>pd_partition_id = i, pd_owner_id = ''node-1'', pd_capacity = c, pd_revision = 1, pd_status = ''active''\<rparr>"

definition example_router :: partition_router where
  "example_router = \<lparr>rt_protocol_version = 1, rt_max_partitions = 8,
     rt_partitions = [(''p2'', example_partition ''p2'' 1), (''p1'', example_partition ''p1'' 3)], rt_inventory_revision = 1\<rparr>"

lemma example_router_inv: "router_inv example_router"
  by code_simp

theorem routing_minimal_disruption_witness:
  "route length (PyStr ''key'') example_router = Inr (example_partition ''p1'' 3)
   \<and> (\<exists>r1. router_remove (PyStr ''p2'') None example_router = Inr (r1, True)
        \<and> route length (PyStr ''key'') r1 = Inr (example_partition ''p1'' 3))
   \<and> (\<exists>r2. router_upsert (example_partition ''p3'' 9) example_router = Inr r2
        \<and> (route length (PyStr ''key'') r2 = Inr (example_partition ''p1'' 3)
           \<or> route length (PyStr ''key'') r2 = Inr (example_partition ''p3'' 9)))"
proof -
  have d: "route length (PyStr ''key'') example_router = Inr (example_partition ''p1'' 3)" by code_simp
  have "is_ok (router_remove (PyStr ''p2'') None example_router)" by code_simp
  then obtain r1 b where rem: "router_remove (PyStr ''p2'') None example_router = Inr (r1, b)"
    by (auto simp: is_ok_iff)
  have "b" using router_remove_Inr[OF rem example_router_inv] by blast
  have "is_ok (router_upsert (example_partition ''p3'' 9) example_router)" by code_simp
  then obtain r2 where up: "router_upsert (example_partition ''p3'' 9) example_router = Inr r2"
    by (auto simp: is_ok_iff)
  have "partition_ok (example_partition ''p3'' 9)" by code_simp
  then show ?thesis
    using routing_minimal_disruption[OF example_router_inv d, of "''p2''" None r1 b "example_partition ''p3'' 9" r2]
      d rem up \<open>b\<close> by (simp add: example_partition_def)
qed

text \<open>
  (C40) Following the page cursors reads the whole inventory: from the first page on, with every
  page bound to the revision of the page before, a client gets every enrolled partition exactly
  once, in the order of the identities, within one more page than there are partitions.
\<close>

theorem pages_enumerate_inventory:
  assumes "router_inv r" "1 \<le> l" "l \<le> max_page_size"
  shows "walk (Suc (length (rt_partitions r))) (PyInt l) None None r = Inr (router_partitions r)
    \<and> set (router_partitions r) = ran (map_of (rt_partitions r))
    \<and> distinct (map pd_partition_id (router_partitions r)) \<and> sorted (map pd_partition_id (router_partitions r))"
proof -
  have "length (router_partitions r) = length (rt_partitions r)" by (simp add: router_partitions_def)
  then have "walk (Suc (length (rt_partitions r))) (PyInt l) None None r = Inr (router_partitions r)"
    using walk_from[OF assms, of None None 0 "Suc (length (rt_partitions r))"] by (simp add: page_start_def)
  then show ?thesis
    using set_router_partitions[OF assms(1)] distinct_ids[OF assms(1)] by simp
qed

theorem pages_enumerate_inventory_witness:
  "walk 3 (PyInt 1) None None example_router = Inr [example_partition ''p1'' 3, example_partition ''p2'' 1]"
proof -
  have "walk (Suc (length (rt_partitions example_router))) (PyInt 1) None None example_router
      = Inr (router_partitions example_router)"
    using pages_enumerate_inventory[OF example_router_inv, of 1] by simp
  moreover have "Suc (length (rt_partitions example_router)) = 3" by (simp add: example_router_def)
  moreover have "router_partitions example_router = [example_partition ''p1'' 3, example_partition ''p2'' 1]"
    by code_simp
  ultimately show ?thesis by simp
qed

end
