(* ===== verification/TaskLedger.thy ===== *)
theory TaskLedger
  imports Prelude
begin

text \<open>
  \<^verbatim>\<open>sonder_runtime/domain/task_ledger.py\<close>: the validated ledger of a plan's tasks. Construction rejects
  duplicates, missing dependencies and cycles (Kahn's algorithm); the projections are the ready
  tasks, the reasons why others are blocked, and a schedule in bounded dependency batches. Task
  fields are text; the JSON digest of a ledger is not modelled.
\<close>

section \<open>Items and ledgers\<close>

abbreviation max_ledger_items :: nat where
  "max_ledger_items \<equiv> 256"

definition completed_statuses :: "string list" where
  "completed_statuses = [''done'', ''completed'', ''succeeded'']"

definition runnable_statuses :: "string list" where
  "runnable_statuses = [''pending'', ''ready'', ''queued'']"

definition tl_text :: "string \<Rightarrow> string \<Rightarrow> string res" where
  "tl_text v label =
     (if py_strip v = [] \<or> 4096 < length v then Inl (InvalidInput (label @ '' must be bounded non-empty text''))
      else Inr v)"

record ledger_item =
  li_task_id :: string
  li_title :: string
  li_status :: string
  li_owner :: string
  li_parent_id :: string
  li_dependencies :: "string list"

definition mk_ledger_item ::
  "string \<Rightarrow> string \<Rightarrow> string \<Rightarrow> string \<Rightarrow> string \<Rightarrow> string list \<Rightarrow> ledger_item res" where
  "mk_ledger_item task title status owner parent dependencies =
     rbind (tl_text task ''task_id'') (\<lambda>_.
     rbind (tl_text title ''title'') (\<lambda>_.
     rbind (tl_text status ''status'') (\<lambda>_.
     rbind (if owner \<noteq> [] then tl_text owner ''owner'' else Inr []) (\<lambda>_.
     rbind (if parent \<noteq> [] then tl_text parent ''parent_id'' else Inr []) (\<lambda>_.
     let deps = sort (remdups dependencies) in
     if length deps \<noteq> length dependencies then Inl (InvalidInput ''task dependencies must be unique'')
     else rbind (mapr (\<lambda>d. tl_text d ''dependency'') deps) (\<lambda>_.
       if task \<in> set deps then Inl (InvalidInput ''task cannot depend on itself'')
       else Inr \<lparr>li_task_id = task, li_title = title, li_status = status, li_owner = owner,
                 li_parent_id = parent, li_dependencies = deps\<rparr>))))))"

definition item_to_dict :: "ledger_item \<Rightarrow> (string, pyval) dict" where
  "item_to_dict it =
     [(''task_id'', PyStr (li_task_id it)), (''title'', PyStr (li_title it)), (''status'', PyStr (li_status it)),
      (''owner'', PyStr (li_owner it)), (''parent_id'', PyStr (li_parent_id it)),
      (''dependencies'', PyList (map PyStr (li_dependencies it)))]"

record task_ledger =
  tl_goal_id :: string
  tl_items :: "ledger_item list"
  tl_replan_count :: int
  tl_last_replan_reason :: "string option"

definition missing_dependencies :: "ledger_item list \<Rightarrow> string list" where
  "missing_dependencies items =
     sort (remdups (filter (\<lambda>d. d \<notin> li_task_id ` set items) (concat (map li_dependencies items))))"

section \<open>Cycle detection\<close>

definition add_dependents :: "ledger_item \<Rightarrow> (string, string list) dict \<Rightarrow> (string, string list) dict" where
  "add_dependents it deps =
     foldl (\<lambda>m d. AList.update d ((case map_of m d of None \<Rightarrow> [] | Some ts \<Rightarrow> ts) @ [li_task_id it]) m)
       deps (li_dependencies it)"

definition dependents_of :: "ledger_item list \<Rightarrow> (string, string list) dict" where
  "dependents_of items =
     foldl (\<lambda>m it. add_dependents it m) (map (\<lambda>it. (li_task_id it, [])) items) items"

fun release :: "string list \<Rightarrow> (string, int) dict \<Rightarrow> string list \<Rightarrow> (string, int) dict \<times> string list" where
  \<comment> \<open>the inner loop: one dependency of each dependent is met; a dependent is always a known task\<close>
  "release [] remaining ready = (remaining, ready)"
| "release (t # ts) remaining ready =
     (case map_of remaining t of
        None \<Rightarrow> release ts remaining ready
      | Some n \<Rightarrow> release ts (AList.update t (n - 1) remaining) (if n - 1 = 0 then ready @ [t] else ready))"

definition unmet :: "(string, int) dict \<Rightarrow> nat" where
  "unmet remaining = card {t. \<exists>n. map_of remaining t = Some n \<and> 0 < n}"

lemma unmet_finite: "finite {t. \<exists>n. map_of remaining t = Some n \<and> 0 < (n :: int)}"
  by (rule finite_subset[of _ "dom (map_of remaining)"]) (auto simp: finite_dom_map_of)

lemma release_measure:
  "release ts remaining ready = (remaining', ready') \<Longrightarrow> unmet remaining' + length ready' \<le> unmet remaining + length ready"
proof (induction ts remaining ready rule: release.induct)
  case (2 t ts remaining ready)
  show ?case
  proof (cases "map_of remaining t")
    case None
    then show ?thesis using 2 by simp
  next
    case (Some n)
    let ?P = "{s. \<exists>k. map_of remaining s = Some k \<and> 0 < (k :: int)}"
    let ?Q = "{s. \<exists>k. map_of (AList.update t (n - 1) remaining) s = Some k \<and> 0 < (k :: int)}"
    have sub: "?Q \<subseteq> ?P" using Some by (auto simp: dict_simps split: if_splits)
    have "unmet (AList.update t (n - 1) remaining) + (if n - 1 = 0 then 1 else 0) \<le> unmet remaining"
    proof (cases "n - 1 = 0")
      case True
      then have "t \<in> ?P" "t \<notin> ?Q" using Some by (auto simp: dict_simps)
      then have "?Q \<subset> ?P" using sub by blast
      then show ?thesis using psubset_card_mono[OF unmet_finite] True by (simp add: unmet_def Suc_le_eq)
    qed (use card_mono[OF unmet_finite sub] in \<open>simp add: unmet_def\<close>)
    then show ?thesis using 2(2)[OF Some] 2(3) Some by (cases "n - 1 = 0") auto
  qed
qed simp

function kahn :: "(string, string list) dict \<Rightarrow> (string, int) dict \<Rightarrow> string list \<Rightarrow> nat \<Rightarrow> nat \<times> (string, int) dict" where
  "kahn dependents remaining [] visited = (visited, remaining)"
| "kahn dependents remaining (t # ready) visited =
     (let (remaining', ready') =
        release (sort (case map_of dependents t of None \<Rightarrow> [] | Some ts \<Rightarrow> ts)) remaining ready
      in kahn dependents remaining' (sort ready') (visited + 1))"
  by pat_completeness auto
termination
  by (relation "measure (\<lambda>(_, remaining, ready, _). unmet remaining + length ready)")
    (auto dest: release_measure[OF sym])

definition mk_ledger :: "string \<Rightarrow> ledger_item list \<Rightarrow> pyval \<Rightarrow> string option \<Rightarrow> task_ledger res" where
  "mk_ledger goal items replan_count reason =
     rbind (tl_text goal ''goal_id'') (\<lambda>_.
       if items = [] \<or> max_ledger_items < length items then Inl (InvalidInput ''task ledger must contain 1..256 items'')
       else if \<not> distinct (map li_task_id items) then Inl (InvalidInput ''task ledger task IDs must be unique'')
       else case missing_dependencies items of
         m # ms \<Rightarrow> Inl (InvalidInput (''task ledger references missing dependency: '' @ m))
       | [] \<Rightarrow>
         let remaining = map (\<lambda>it. (li_task_id it, int (length (li_dependencies it)))) items;
             (visited, left) = kahn (dependents_of items) remaining
               (sort (map fst (filter (\<lambda>(_, n). n = 0) remaining))) 0
         in if visited \<noteq> length items
            then Inl (InvalidInput (''task ledger dependency cycle: ''
              @ py_join '' -> '' (sort (map fst (filter (\<lambda>(_, n). 0 < n) left)))))
            else (case replan_count of
              PyInt c \<Rightarrow>
                if c < 0 then Inl (InvalidInput ''replan_count must be a non-negative integer'')
                else rbind (case reason of None \<Rightarrow> Inr [] | Some s \<Rightarrow> tl_text s ''last_replan_reason'') (\<lambda>_.
                  Inr \<lparr>tl_goal_id = goal, tl_items = sort_key li_task_id items, tl_replan_count = c,
                       tl_last_replan_reason = reason\<rparr>)
            | _ \<Rightarrow> Inl (InvalidInput ''replan_count must be a non-negative integer'')))"


section \<open>Projections\<close>

fun all_done :: "(string, ledger_item) dict \<Rightarrow> string list \<Rightarrow> string list \<Rightarrow> bool res" where
  "all_done by_id completed [] = Inr True"
| "all_done by_id completed (d # ds) =
     (case map_of by_id d of
        None \<Rightarrow> Inl (KeyError d)
      | Some it \<Rightarrow> if li_status it \<in> set completed then all_done by_id completed ds else Inr False)"

fun filterr :: "('a \<Rightarrow> bool res) \<Rightarrow> 'a list \<Rightarrow> 'a list res" where
  "filterr f [] = Inr []"
| "filterr f (x # xs) = rbind (f x) (\<lambda>b. rbind (filterr f xs) (\<lambda>ys. Inr (if b then x # ys else ys)))"

definition items_by_id :: "task_ledger \<Rightarrow> (string, ledger_item) dict" where
  "items_by_id l = dict_of (map (\<lambda>it. (li_task_id it, it)) (tl_items l))"

definition check_fanout :: "pyval \<Rightarrow> nat res" where
  "check_fanout v =
     (case v of PyInt n \<Rightarrow> if n < 1 then Inl (InvalidInput ''max_fanout must be a positive integer'') else Inr (nat n)
      | _ \<Rightarrow> Inl (InvalidInput ''max_fanout must be a positive integer''))"

definition ready_items :: "pyval \<Rightarrow> string list \<Rightarrow> string list \<Rightarrow> task_ledger \<Rightarrow> ledger_item list res" where
  "ready_items max_fanout runnable completed l =
     rbind (check_fanout max_fanout) (\<lambda>n.
     rbind (filterr (\<lambda>it. if li_status it \<in> set runnable
         then all_done (items_by_id l) completed (li_dependencies it) else Inr False) (tl_items l)) (\<lambda>ready.
       Inr (take n (sort_key li_task_id ready))))"

definition dep_open :: "(string, ledger_item) dict \<Rightarrow> string list \<Rightarrow> string \<Rightarrow> bool res" where
  "dep_open by_id completed d =
     (case map_of by_id d of None \<Rightarrow> Inl (KeyError d) | Some it \<Rightarrow> Inr (li_status it \<notin> set completed))"

fun blocked_loop ::
  "(string, ledger_item) dict \<Rightarrow> string list \<Rightarrow> string list \<Rightarrow> ledger_item list \<Rightarrow> (string, string list) dict res" where
  "blocked_loop by_id runnable completed [] = Inr []"
| "blocked_loop by_id runnable completed (it # its) =
     rbind (if li_status it \<in> set runnable then all_done by_id completed (li_dependencies it) else Inr True) (\<lambda>fine.
       if fine then blocked_loop by_id runnable completed its
       else rbind (filterr (dep_open by_id completed) (li_dependencies it)) (\<lambda>ds.
         rbind (blocked_loop by_id runnable completed its) (\<lambda>rest. Inr ((li_task_id it, ds) # rest))))"

definition blocked_dependencies :: "string list \<Rightarrow> string list \<Rightarrow> task_ledger \<Rightarrow> (string, string list) dict res" where
  "blocked_dependencies runnable completed l = blocked_loop (items_by_id l) runnable completed (tl_items l)"

fun chunks :: "nat \<Rightarrow> 'a list \<Rightarrow> 'a list list" where
  \<comment> \<open>\<^verbatim>\<open>for offset in range(0, len(level), n): batches.append(level[offset:offset + n])\<close>, for a positive \<open>n\<close>\<close>
  "chunks n xs = (if xs = [] then [] else if n = 0 then [xs] else take n xs # chunks n (drop n xs))"

declare chunks.simps [simp del]

definition open_level :: "(string, string list) dict \<Rightarrow> string list" where
  "open_level remaining = sort (map fst (filter (\<lambda>(_, ds). ds = []) remaining))"

definition without_level :: "string list \<Rightarrow> (string, string list) dict \<Rightarrow> (string, string list) dict" where
  "without_level level remaining =
     map (\<lambda>(t, ds). (t, filter (\<lambda>d. d \<notin> set level) ds)) (filter (\<lambda>(t, _). t \<notin> set level) remaining)"

lemma set_open_level: "set (open_level remaining) = {t. (t, []) \<in> set remaining}"
  by (force simp: open_level_def)

lemma without_level_shorter:
  assumes "open_level remaining \<noteq> []"
  shows "length (without_level (open_level remaining) remaining) < length remaining"
proof -
  obtain t where t: "t \<in> set (open_level remaining)" using assms hd_in_set by blast
  then have "(t, []) \<in> set remaining" by (simp add: set_open_level)
  then have "length (filter (\<lambda>(t, _). t \<notin> set (open_level remaining)) remaining) < length remaining"
    using t by (intro length_filter_less[of "(t, [])"]) auto
  then show ?thesis by (simp add: without_level_def)
qed

function batch_levels :: "nat \<Rightarrow> (string, string list) dict \<Rightarrow> string list list res" where
  "batch_levels n remaining =
     (if remaining = [] then Inr []
      else let level = open_level remaining in
        if level = [] then Inl (InvalidInput ''task ledger dependency cycle'')
        else rbind (batch_levels n (without_level level remaining)) (\<lambda>rest. Inr (chunks n level @ rest)))"
  by pat_completeness auto
termination
  by (relation "measure (\<lambda>(_, remaining). length remaining)") (auto simp: without_level_shorter)

declare batch_levels.simps [simp del]

definition dependency_batches :: "pyval \<Rightarrow> task_ledger \<Rightarrow> string list list res" where
  "dependency_batches max_fanout l =
     rbind (check_fanout max_fanout) (\<lambda>n.
       batch_levels n (dict_of (map (\<lambda>it. (li_task_id it, li_dependencies it)) (tl_items l))))"

record task_row =
  tr_id :: "string option"
  tr_title :: "string option"
  tr_status :: "string option"
  tr_owner :: "string option"
  tr_parent_id :: "string option"

definition get_or :: "'a option \<Rightarrow> 'a \<Rightarrow> 'a" where
  "get_or v d = (case v of None \<Rightarrow> d | Some x \<Rightarrow> x)"

definition build_task_ledger ::
  "string \<Rightarrow> task_row list \<Rightarrow> (string, string list) dict option \<Rightarrow> pyval \<Rightarrow> string option \<Rightarrow> task_ledger res" where
  "build_task_ledger goal tasks dependencies replan_count reason =
     (let dependency_map = get_or dependencies [] in
      rbind (mapr (\<lambda>task. mk_ledger_item (get_or (tr_id task) []) (get_or (tr_title task) [])
          (get_or (tr_status task) ''pending'') (get_or (tr_owner task) []) (get_or (tr_parent_id task) [])
          (get_or (map_of dependency_map (get_or (tr_id task) [])) [])) tasks) (\<lambda>items.
        mk_ledger goal items replan_count reason))"


section \<open>Batches\<close>

lemma chunks_concat: "concat (chunks n xs) = xs"
  by (induction n xs rule: chunks.induct) (subst chunks.simps, auto)

lemma chunks_bounds: "0 < n \<Longrightarrow> b \<in> set (chunks n xs) \<Longrightarrow> b \<noteq> [] \<and> length b \<le> n \<and> set b \<subseteq> set xs"
proof (induction n xs rule: chunks.induct)
  case (1 n xs)
  have "xs \<noteq> []" "b = take n xs \<or> b \<in> set (chunks n (drop n xs))"
    using 1(2,3) unfolding chunks.simps[of n xs] by (auto split: if_splits)
  then show ?case
    using 1(1)[OF _ _ 1(2)] 1(2) set_take_subset[of n xs] set_drop_subset[of n xs] by auto
qed

definition batches_ok :: "nat \<Rightarrow> (string, string list) dict \<Rightarrow> string list list \<Rightarrow> bool" where
  "batches_ok n remaining bs =
     (distinct (concat bs) \<and> set (concat bs) = fst ` set remaining
      \<and> (\<forall>b\<in>set bs. b \<noteq> [] \<and> length b \<le> n)
      \<and> (\<forall>i<length bs. \<forall>t\<in>set (bs ! i). \<forall>ds. (t, ds) \<in> set remaining \<longrightarrow>
           (\<forall>d\<in>set ds. \<exists>j<i. d \<in> set (bs ! j))))"

lemma without_level_facts:
  "dict_ok remaining \<Longrightarrow> dict_ok (without_level lv remaining)"
  "(t, ds) \<in> set remaining \<Longrightarrow> t \<notin> set lv \<Longrightarrow> (t, filter (\<lambda>d. d \<notin> set lv) ds) \<in> set (without_level lv remaining)"
  "fst ` set (without_level lv remaining) = fst ` set remaining - set lv"
proof -
  have keys: "map fst (without_level lv remaining) = filter (\<lambda>t. t \<notin> set lv) (map fst remaining)"
    by (induction remaining) (auto simp: without_level_def)
  then show "dict_ok remaining \<Longrightarrow> dict_ok (without_level lv remaining)" by simp
  have "set (map fst (without_level lv remaining)) = set (filter (\<lambda>t. t \<notin> set lv) (map fst remaining))"
    by (simp only: keys)
  then show "fst ` set (without_level lv remaining) = fst ` set remaining - set lv" by auto
qed (auto simp: without_level_def)


lemma batches_ok_append:
  assumes n: "0 < n" and ok: "dict_ok remaining" and lv: "lv = open_level remaining"
    and rest: "batches_ok n (without_level lv remaining) rest"
  shows "batches_ok n remaining (chunks n lv @ rest)"
proof -
  let ?c = "chunks n lv" and ?rem = "without_level lv remaining"
  have keys: "fst ` set ?rem = fst ` set remaining - set lv" by (rule without_level_facts)
  have lv_keys: "set lv \<subseteq> fst ` set remaining" by (auto simp: lv set_open_level) (force)
  have dist: "distinct lv" using ok by (simp add: lv open_level_def distinct_map_filter)
  have rest': "distinct (concat rest)" "set (concat rest) = fst ` set remaining - set lv"
    "\<And>b. b \<in> set rest \<Longrightarrow> b \<noteq> [] \<and> length b \<le> n"
    "\<And>i t ds d. i < length rest \<Longrightarrow> t \<in> set (rest ! i) \<Longrightarrow> (t, ds) \<in> set ?rem \<Longrightarrow> d \<in> set ds \<Longrightarrow>
       \<exists>j<i. d \<in> set (rest ! j)"
    using rest keys by (auto simp: batches_ok_def)
  have "\<exists>j<i. d \<in> set ((?c @ rest) ! j)"
    if i: "i < length (?c @ rest)" "t \<in> set ((?c @ rest) ! i)" "(t, ds) \<in> set remaining" "d \<in> set ds" for i t ds d
  proof (cases "i < length ?c")
    case True
    then have "t \<in> set lv" using i(2) True chunks_bounds[OF n nth_mem[OF True]] by (auto simp: nth_append)
    then have "(t, []) \<in> set remaining" by (simp add: lv set_open_level)
    then have "ds = []" using ok i(3) by (metis eq_key_imp_eq_value)
    then show ?thesis using i(4) by simp
  next
    case False
    let ?i = "i - length ?c"
    have t: "t \<in> set (rest ! ?i)" "?i < length rest" using i False by (auto simp: nth_append)
    then have "t \<in> set (concat rest)" using nth_mem[OF t(2)] by auto
    then have mem: "(t, filter (\<lambda>d. d \<notin> set lv) ds) \<in> set ?rem"
      using rest'(2) without_level_facts(2)[OF i(3)] by blast
    show ?thesis
    proof (cases "d \<in> set lv")
      case True
      then have "d \<in> set (concat ?c)" by (simp add: chunks_concat)
      then obtain b where "b \<in> set ?c" "d \<in> set b" by auto
      then obtain j where "j < length ?c" "d \<in> set (?c ! j)" by (metis in_set_conv_nth)
      then show ?thesis using False by (intro exI[of _ j]) (auto simp: nth_append)
    next
      case d: False
      then obtain j where j: "j < ?i" "d \<in> set (rest ! j)"
        using rest'(4)[OF t(2,1) mem, of d] i(4) by auto
      then show ?thesis using False by (intro exI[of _ "j + length ?c"]) (auto simp: nth_append)
    qed
  qed
  moreover have "distinct (concat (?c @ rest))" "set (concat (?c @ rest)) = fst ` set remaining"
    using dist rest'(1,2) lv_keys by (auto simp: chunks_concat)
  moreover have "\<forall>b\<in>set (?c @ rest). b \<noteq> [] \<and> length b \<le> n"
    using rest'(3) chunks_bounds[OF n] by auto
  ultimately show ?thesis unfolding batches_ok_def by blast
qed

lemma batch_levels_ok: "0 < n \<Longrightarrow> dict_ok remaining \<Longrightarrow> batch_levels n remaining = Inr bs \<Longrightarrow> batches_ok n remaining bs"
proof (induction n remaining arbitrary: bs rule: batch_levels.induct)
  case (1 n remaining)
  show ?case
  proof (cases "remaining = []")
    case True
    then show ?thesis using 1(4) by (simp add: batch_levels.simps batches_ok_def)
  next
    case False
    then obtain rest where rest: "open_level remaining \<noteq> []"
      "batch_levels n (without_level (open_level remaining) remaining) = Inr rest"
      "bs = chunks n (open_level remaining) @ rest"
      using 1(4) by (auto simp: batch_levels.simps[of n remaining] Let_def split: if_splits)
    have "batches_ok n (without_level (open_level remaining) remaining) rest"
      using 1(1)[OF False refl rest(1) 1(2) without_level_facts(1)[OF 1(3)] rest(2)] .
    then show ?thesis using batches_ok_append[OF 1(2,3) refl] rest(3) by simp
  qed
qed


section \<open>Correctness of the cycle check\<close>

lemma add_dependents_map:
  assumes "distinct (li_dependencies it)" "set (li_dependencies it) \<subseteq> dom (map_of m)"
  shows "map_of (add_dependents it m) d =
    (if d \<in> set (li_dependencies it) then map_option (\<lambda>ts. ts @ [li_task_id it]) (map_of m d) else map_of m d)"
proof -
  have "map_of (foldl (\<lambda>m d. AList.update d ((case map_of m d of None \<Rightarrow> [] | Some ts \<Rightarrow> ts) @ [i]) m) m ds) d =
    (if d \<in> set ds then map_option (\<lambda>ts. ts @ [i]) (map_of m d) else map_of m d)"
    if "distinct ds" "set ds \<subseteq> dom (map_of m)" for ds i
    using that by (induction ds rule: rev_induct) (auto simp: dict_simps)
  then show ?thesis using assms by (simp add: add_dependents_def)
qed

definition item_ids :: "ledger_item list \<Rightarrow> string set" where
  "item_ids items = li_task_id ` set items"

definition graph_ok :: "ledger_item list \<Rightarrow> bool" where
  "graph_ok items = (distinct (map li_task_id items) \<and> missing_dependencies items = []
     \<and> (\<forall>it\<in>set items. distinct (li_dependencies it)))"

lemma graph_ok_closed: "graph_ok items \<Longrightarrow> it \<in> set items \<Longrightarrow> set (li_dependencies it) \<subseteq> item_ids items"
proof -
  assume "graph_ok items" "it \<in> set items"
  then have "set (missing_dependencies items) = {}" by (simp add: graph_ok_def)
  then show ?thesis using \<open>it \<in> set items\<close> by (auto simp: missing_dependencies_def item_ids_def)
qed

lemma dependents_of_map:
  assumes ok: "graph_ok items" and d: "d \<in> item_ids items"
  shows "map_of (dependents_of items) d = Some (map li_task_id (filter (\<lambda>it. d \<in> set (li_dependencies it)) items))"
proof -
  define m0 where "m0 = map (\<lambda>it. (li_task_id it, [] :: string list)) items"
  have dom0: "dom (map_of m0) = item_ids items"
    by (simp add: m0_def dom_map_of_conv_image_fst item_ids_def image_image)
  have "\<And>ts. map_of m0 d = Some ts \<Longrightarrow> ts = []" unfolding m0_def by (auto dest!: map_of_SomeD)
  then have m0: "map_of m0 d = Some []" using dom0 d by fastforce
  have "dom (map_of (foldl (\<lambda>m it. add_dependents it m) m0 xs)) = item_ids items \<and>
    map_of (foldl (\<lambda>m it. add_dependents it m) m0 xs) d
      = Some (map li_task_id (filter (\<lambda>it. d \<in> set (li_dependencies it)) xs))" if "set xs \<subseteq> set items" for xs
    using that
  proof (induction xs rule: rev_induct)
    case (snoc it xs)
    let ?m = "foldl (\<lambda>m it. add_dependents it m) m0 xs"
    have IH: "dom (map_of ?m) = item_ids items"
      "map_of ?m d = Some (map li_task_id (filter (\<lambda>it. d \<in> set (li_dependencies it)) xs))"
      using snoc by auto
    have it: "distinct (li_dependencies it)" "set (li_dependencies it) \<subseteq> dom (map_of ?m)"
      using snoc.prems ok graph_ok_closed[OF ok, of it] IH(1) by (auto simp: graph_ok_def)
    have "dom (map_of (add_dependents it ?m)) = dom (map_of ?m)"
      by (auto simp: add_dependents_map[OF it] dom_def split: if_splits)
    moreover have "map_of (add_dependents it ?m) d
        = Some (map li_task_id (filter (\<lambda>it. d \<in> set (li_dependencies it)) (xs @ [it])))"
      using IH(2) by (simp add: add_dependents_map[OF it])
    ultimately show ?case using IH(1) by simp
  qed (use dom0 m0 in simp)
  then show ?thesis by (simp add: dependents_of_def m0_def)
qed

lemma release_result:
  assumes "distinct ts" "set ts \<subseteq> dom (map_of remaining)" "release ts remaining ready = (remaining', ready')"
  shows "map_of remaining' t = (if t \<in> set ts then map_option (\<lambda>n. n - 1) (map_of remaining t) else map_of remaining t)"
    and "ready' = ready @ filter (\<lambda>t. map_of remaining t = Some 1) ts"
proof -
  have "map_of remaining' t = (if t \<in> set ts then map_option (\<lambda>n. n - 1) (map_of remaining t) else map_of remaining t)
    \<and> ready' = ready @ filter (\<lambda>t. map_of remaining t = Some 1) ts"
    using assms
  proof (induction ts remaining ready rule: release.induct)
    case (2 u ts remaining ready)
    then obtain n where n: "map_of remaining u = Some n" by auto
    let ?r = "AList.update u (n - 1) remaining" and ?q = "if n - 1 = 0 then ready @ [u] else ready"
    have IH: "map_of remaining' t = (if t \<in> set ts then map_option (\<lambda>n. n - 1) (map_of ?r t) else map_of ?r t)
      \<and> ready' = ?q @ filter (\<lambda>t. map_of ?r t = Some 1) ts"
    proof (rule 2(2)[OF n])
      show "distinct ts" using 2(3) by simp
      show "set ts \<subseteq> dom (map_of ?r)" using 2(4) by (auto simp: dict_simps)
      show "release ts ?r ?q = (remaining', ready')" using 2(5) n by simp
    qed
    moreover have "filter (\<lambda>t. map_of ?r t = Some 1) ts = filter (\<lambda>t. map_of remaining t = Some 1) ts"
      using 2(3) by (intro filter_cong) (auto simp: dict_simps)
    ultimately show ?case using 2(3) n by (auto simp: dict_simps)
  qed simp
  then show "map_of remaining' t = (if t \<in> set ts then map_option (\<lambda>n. n - 1) (map_of remaining t) else map_of remaining t)"
    "ready' = ready @ filter (\<lambda>t. map_of remaining t = Some 1) ts" by blast+
qed


definition deps_of :: "ledger_item list \<Rightarrow> string \<Rightarrow> string set" where
  "deps_of items t = \<Union> (set ` li_dependencies ` {it \<in> set items. li_task_id it = t})"

lemma deps_of_item: "distinct (map li_task_id items) \<Longrightarrow> it \<in> set items \<Longrightarrow>
  deps_of items (li_task_id it) = set (li_dependencies it)"
  by (auto simp: deps_of_def distinct_map inj_on_def)

lemma deps_of_closed: "graph_ok items \<Longrightarrow> deps_of items t \<subseteq> item_ids items"
  using graph_ok_closed by (fastforce simp: deps_of_def)

lemma deps_of_finite: "finite (deps_of items t)"
  by (auto simp: deps_of_def)

lemma dependents_of_deps:
  assumes "graph_ok items" "d \<in> item_ids items"
  obtains ts where "map_of (dependents_of items) d = Some ts" "distinct ts"
    "set ts = {t \<in> item_ids items. d \<in> deps_of items t}"
proof (rule that[OF dependents_of_map[OF assms]])
  show "distinct (map li_task_id (filter (\<lambda>it. d \<in> set (li_dependencies it)) items))"
    using assms(1) by (simp add: graph_ok_def distinct_map_filter)
  show "set (map li_task_id (filter (\<lambda>it. d \<in> set (li_dependencies it)) items))
      = {t \<in> item_ids items. d \<in> deps_of items t}"
    using assms(1) by (auto simp: item_ids_def graph_ok_def deps_of_item)
qed

definition kahn_inv :: "ledger_item list \<Rightarrow> string set \<Rightarrow> (string, int) dict \<Rightarrow> string list \<Rightarrow> nat \<Rightarrow> bool" where
  "kahn_inv items V remaining ready visited =
     (V \<subseteq> item_ids items \<and> card V = visited
      \<and> (\<forall>t\<in>item_ids items. map_of remaining t = Some (int (card (deps_of items t - V))))
      \<and> distinct ready \<and> set ready = {t \<in> item_ids items - V. deps_of items t \<subseteq> V}
      \<and> (\<forall>t\<in>V. deps_of items t \<subseteq> V)
      \<and> (\<exists>rank. \<forall>t\<in>V. rank t < visited \<and> (\<forall>d\<in>deps_of items t. rank d < (rank t :: nat))))"

lemma finite_item_ids: "finite (item_ids items)"
  by (simp add: item_ids_def)

lemma card_Diff_1_iff:
  assumes "finite D" "t \<in> D" "t \<notin> V"
  shows "card (D - V) = 1 \<longleftrightarrow> D \<subseteq> insert t V" and "int (card (D - insert t V)) = int (card (D - V)) - 1"
proof -
  have "D - V = insert t (D - insert t V)" using assms by auto
  then have c: "card (D - V) = Suc (card (D - insert t V))"
    using assms(1) by (metis Diff_iff card_insert_disjoint finite_Diff insertI1)
  then show "int (card (D - insert t V)) = int (card (D - V)) - 1" by simp
  show "card (D - V) = 1 \<longleftrightarrow> D \<subseteq> insert t V" using c assms(1) by auto
qed

lemma kahn_step:
  assumes ok: "graph_ok items" and inv: "kahn_inv items V remaining (t # ready) visited"
    and ts: "map_of (dependents_of items) t = Some ts" "distinct ts" "set ts = {s \<in> item_ids items. t \<in> deps_of items s}"
    and rel: "release (sort ts) remaining ready = (remaining', ready')"
  shows "kahn_inv items (insert t V) remaining' (sort ready') (visited + 1)"
proof -
  have rem: "map_of remaining s = Some (int (card (deps_of items s - V)))" if "s \<in> item_ids items" for s
    using inv that by (simp add: kahn_inv_def)
  have V: "V \<subseteq> item_ids items" "finite V" "card V = visited" "\<And>s. s \<in> V \<Longrightarrow> deps_of items s \<subseteq> V"
    using inv finite_subset[OF _ finite_item_ids[of items]] by (auto simp: kahn_inv_def)
  have rdy: "distinct (t # ready)" "insert t (set ready) = {s \<in> item_ids items - V. deps_of items s \<subseteq> V}"
    using inv by (simp_all add: kahn_inv_def)
  then have t: "t \<in> item_ids items" "t \<notin> V" "deps_of items t \<subseteq> V" by blast+
  have dom: "set (sort ts) \<subseteq> dom (map_of remaining)" using rem ts(3) by auto
  note res = release_result[OF _ dom rel]
  have one: "card (deps_of items s - V) = 1 \<longleftrightarrow> deps_of items s \<subseteq> insert t V"
    "int (card (deps_of items s - insert t V)) = int (card (deps_of items s - V)) - 1" if "t \<in> deps_of items s" for s
    using card_Diff_1_iff[OF deps_of_finite that t(2)] by blast+
  have rem': "map_of remaining' s = Some (int (card (deps_of items s - insert t V)))" if s: "s \<in> item_ids items" for s
    using res(1)[of s] ts(2,3) rem[OF s] s one[of s] by (cases "t \<in> deps_of items s") auto
  have new: "ready' = ready @ filter (\<lambda>s. map_of remaining s = Some 1) (sort ts)"
    using res(2) ts(2) by simp
  have fresh: "set (filter (\<lambda>s. map_of remaining s = Some 1) (sort ts))
      = {s \<in> item_ids items. t \<in> deps_of items s \<and> deps_of items s \<subseteq> insert t V}"
    using ts(3) rem one(1) by auto
  have notV: "s \<notin> insert t V" if "t \<in> deps_of items s" for s
    using that t V(4) by blast
  have "set ready' = {s \<in> item_ids items - insert t V. deps_of items s \<subseteq> insert t V}"
  proof -
    have "set ready = {s \<in> item_ids items - V. deps_of items s \<subseteq> V} - {t}" using rdy by auto
    then show ?thesis unfolding new set_append fresh using notV by blast
  qed
  moreover have "distinct ready'"
    unfolding new using rdy ts(2) fresh t(2) by auto
  moreover obtain rank where "\<forall>s\<in>V. rank s < visited \<and> (\<forall>d\<in>deps_of items s. rank d < (rank s :: nat))"
    using inv by (auto simp: kahn_inv_def)
  then have "\<forall>s\<in>insert t V. (rank(t := visited)) s < visited + 1
      \<and> (\<forall>d\<in>deps_of items s. (rank(t := visited)) d < (rank(t := visited)) s)"
    using t V(4) by (auto simp: less_SucI) (metis less_irrefl subset_iff)+
  then have "\<exists>rank. \<forall>s\<in>insert t V. rank s < visited + 1 \<and> (\<forall>d\<in>deps_of items s. rank d < (rank s :: nat))"
    by (intro exI[of _ "rank(t := visited)"])
  moreover have "\<forall>s\<in>insert t V. deps_of items s \<subseteq> insert t V" using V(4) t(3) by blast
  moreover have "insert t V \<subseteq> item_ids items" "card (insert t V) = visited + 1" using V t by simp_all
  ultimately show ?thesis
    unfolding kahn_inv_def using rem' by simp
qed

lemma kahn_result:
  assumes "graph_ok items" "kahn_inv items V remaining ready visited"
    and "kahn (dependents_of items) remaining ready visited = (n, left)"
  shows "\<exists>W. kahn_inv items W left [] n"
  using assms
proof (induction "dependents_of items" remaining ready visited arbitrary: V rule: kahn.induct)
  case (2 remaining t ready visited)
  have "t \<in> item_ids items" using 2(3) by (auto simp: kahn_inv_def)
  then obtain ts where ts: "map_of (dependents_of items) t = Some ts" "distinct ts"
    "set ts = {s \<in> item_ids items. t \<in> deps_of items s}"
    using dependents_of_deps[OF 2(2)] by blast
  obtain remaining' ready' where rel: "release (sort ts) remaining ready = (remaining', ready')"
    by (cases "release (sort ts) remaining ready")
  have "kahn (dependents_of items) remaining' (sort ready') (visited + 1) = (n, left)"
    using 2(4) ts(1) rel by simp
  then show ?case
    using 2(1)[OF _ refl 2(2) kahn_step[OF 2(2,3) ts rel]] ts(1) rel by simp
qed auto


definition dep_rel :: "ledger_item list \<Rightarrow> (string \<times> string) set" where
  "dep_rel items = {(d, li_task_id it) |d it. it \<in> set items \<and> d \<in> set (li_dependencies it)}"

lemma dep_relI: "it \<in> set items \<Longrightarrow> d \<in> set (li_dependencies it) \<Longrightarrow> (d, li_task_id it) \<in> dep_rel items"
  by (auto simp: dep_rel_def)

lemma dep_rel_iff: "(d, t) \<in> dep_rel items \<longleftrightarrow> d \<in> deps_of items t"
  by (auto simp: dep_rel_def deps_of_def)

lemma dep_rel_finite: "finite (dep_rel items)"
proof -
  have "dep_rel items = (\<Union>it\<in>set items. (\<lambda>d. (d, li_task_id it)) ` set (li_dependencies it))"
    by (auto simp: dep_rel_def)
  then show ?thesis by simp
qed

definition initial_remaining :: "ledger_item list \<Rightarrow> (string, int) dict" where
  "initial_remaining items = map (\<lambda>it. (li_task_id it, int (length (li_dependencies it)))) items"

lemma kahn_initial:
  assumes ok: "graph_ok items"
  shows "kahn_inv items {} (initial_remaining items)
    (sort (map fst (filter (\<lambda>(_, n). n = 0) (initial_remaining items)))) 0"
proof -
  have ids: "distinct (map li_task_id items)" using ok by (simp add: graph_ok_def)
  have len: "length (li_dependencies it) = card (deps_of items (li_task_id it))" if "it \<in> set items" for it
    using ok that ids by (simp add: deps_of_item graph_ok_def distinct_card)
  have dist: "dict_ok (initial_remaining items)"
    using ids by (simp add: initial_remaining_def comp_def)
  have mem: "(t, n) \<in> set (initial_remaining items) \<longleftrightarrow> t \<in> item_ids items \<and> n = int (card (deps_of items t))" for t n
    using len by (auto simp: initial_remaining_def item_ids_def)
  have "\<forall>t\<in>item_ids items. map_of (initial_remaining items) t = Some (int (card (deps_of items t - {})))"
    using mem dist by simp
  moreover have "distinct (sort (map fst (filter (\<lambda>(_, n). n = 0) (initial_remaining items))))"
    using dist by (simp add: distinct_map_filter)
  moreover have "set (sort (map fst (filter (\<lambda>(_, n). n = 0) (initial_remaining items))))
      = {t \<in> item_ids items - {}. deps_of items t \<subseteq> {}}"
    using mem deps_of_finite[of items] by (force simp: card_0_eq)
  ultimately show ?thesis unfolding kahn_inv_def by simp
qed

lemma kahn_visits_all_iff:
  assumes ok: "graph_ok items"
    and run: "kahn (dependents_of items) (initial_remaining items)
      (sort (map fst (filter (\<lambda>(_, n). n = 0) (initial_remaining items)))) 0 = (n, left)"
  shows "n = length items \<longleftrightarrow> acyclic (dep_rel items)"
proof -
  obtain W where W: "kahn_inv items W left [] n" using kahn_result[OF ok kahn_initial[OF ok] run] by blast
  have sub: "W \<subseteq> item_ids items" "card W = n" using W by (auto simp: kahn_inv_def)
  have "card (item_ids items) = length items"
    using ok by (simp add: item_ids_def graph_ok_def distinct_map card_image distinct_card)
  then have all: "n = length items \<longleftrightarrow> W = item_ids items"
    using sub card_subset_eq[OF finite_item_ids sub(1)] by auto
  show ?thesis
  proof
    assume "n = length items"
    then have "W = item_ids items" using all by simp
    then obtain rank where rank: "\<forall>t\<in>item_ids items. rank t < n \<and> (\<forall>d\<in>deps_of items t. rank d < (rank t :: nat))"
      using W unfolding kahn_inv_def by metis
    have "dep_rel items \<subseteq> measure rank"
      using rank by (auto simp: dep_rel_def item_ids_def deps_of_def)
    then show "acyclic (dep_rel items)" by (meson wf_acyclic wf_measure wf_subset)
  next
    assume "acyclic (dep_rel items)"
    then have wf: "wf (dep_rel items)" by (rule finite_acyclic_wf[OF dep_rel_finite])
    have "W = item_ids items"
    proof (rule ccontr)
      assume "W \<noteq> item_ids items"
      then obtain t where "t \<in> item_ids items - W" using sub by blast
      then obtain u where u: "u \<in> item_ids items - W" "\<And>d. (d, u) \<in> dep_rel items \<Longrightarrow> d \<notin> item_ids items - W"
        using wfE_min[OF wf, of t "item_ids items - W"] by metis
      then have "deps_of items u \<subseteq> W" using deps_of_closed[OF ok, of u] by (auto simp: dep_rel_iff)
      then show False using u(1) W by (auto simp: kahn_inv_def)
    qed
    then show "n = length items" using all by simp
  qed
qed

lemma batch_levels_total:
  assumes "wf R" "\<And>t ds d. (t, ds) \<in> set remaining \<Longrightarrow> d \<in> set ds \<Longrightarrow> d \<in> fst ` set remaining \<and> (d, t) \<in> R"
  shows "\<exists>bs. batch_levels n remaining = Inr bs"
  using assms(2)
proof (induction n remaining rule: batch_levels.induct)
  case (1 n remaining)
  show ?case
  proof (cases "remaining = []")
    case False
    then obtain t where "t \<in> fst ` set remaining" by (cases remaining) auto
    then obtain u where u: "u \<in> fst ` set remaining" "\<And>d. (d, u) \<in> R \<Longrightarrow> d \<notin> fst ` set remaining"
      using wfE_min[OF assms(1), of t "fst ` set remaining"] by metis
    then obtain ds where "(u, ds) \<in> set remaining" by auto
    then have "(u, []) \<in> set remaining" using 1(2)[of u ds] u(2) by (cases ds) auto
    then have ne: "open_level remaining \<noteq> []" by (metis (mono_tags) empty_iff empty_set mem_Collect_eq set_open_level)
    let ?lv = "open_level remaining"
    have "\<exists>bs. batch_levels n (without_level ?lv remaining) = Inr bs"
    proof (rule 1(1)[OF False refl ne])
      fix t ds d assume m: "(t, ds) \<in> set (without_level ?lv remaining)" "d \<in> set ds"
      then obtain es where "(t, es) \<in> set remaining" "d \<in> set es" "d \<notin> set ?lv"
        by (auto simp: without_level_def)
      then show "d \<in> fst ` set (without_level ?lv remaining) \<and> (d, t) \<in> R"
        using 1(2) without_level_facts(3)[of ?lv remaining] by blast
    qed
    then show ?thesis using False ne by (auto simp: batch_levels.simps[of n remaining] Let_def)
  qed (simp add: batch_levels.simps)
qed


section \<open>Properties\<close>

definition items_ok :: "ledger_item list \<Rightarrow> bool" where
  "items_ok items = list_all (\<lambda>it. distinct (li_dependencies it)) items"

lemma mk_ledger_item_distinct: "mk_ledger_item a b c d e ds = Inr it \<Longrightarrow> distinct (li_dependencies it)"
  by (auto simp: mk_ledger_item_def Let_def split: if_splits)

lemma missing_Nil_iff: "missing_dependencies items = [] \<longleftrightarrow>
    (\<forall>it\<in>set items. set (li_dependencies it) \<subseteq> li_task_id ` set items)"
proof -
  have "missing_dependencies items = [] \<longleftrightarrow> set (missing_dependencies items) = {}" by simp
  also have "\<dots> \<longleftrightarrow> (\<forall>it\<in>set items. set (li_dependencies it) \<subseteq> li_task_id ` set items)"
    unfolding missing_dependencies_def by auto
  finally show ?thesis .
qed

lemma mk_ledger_unfold:
  assumes "items_ok items" "distinct (map li_task_id items)"
    and "\<forall>it\<in>set items. set (li_dependencies it) \<subseteq> li_task_id ` set items"
    and "tl_text goal ''goal_id'' = Inr goal" "items \<noteq> []" "length items \<le> max_ledger_items"
  shows "is_ok (mk_ledger goal items (PyInt c) reason) \<longleftrightarrow>
    acyclic (dep_rel items) \<and> 0 \<le> c \<and> (\<forall>s. reason = Some s \<longrightarrow> is_ok (tl_text s ''last_replan_reason''))"
proof -
  have miss: "missing_dependencies items = []" using assms(3) by (simp add: missing_Nil_iff)
  then have ok: "graph_ok items"
    using assms(1,2) by (simp add: graph_ok_def items_ok_def list_all_iff)
  obtain n left where run: "kahn (dependents_of items) (initial_remaining items)
      (sort (map fst (filter (\<lambda>(_, n). n = 0) (initial_remaining items)))) 0 = (n, left)"
    by (cases "kahn (dependents_of items) (initial_remaining items)
      (sort (map fst (filter (\<lambda>(_, n). n = 0) (initial_remaining items)))) 0")
  note iff = kahn_visits_all_iff[OF ok run]
  show ?thesis
    using assms(2,4-6) miss iff
    by (auto simp: mk_ledger_def initial_remaining_def[symmetric] run is_ok_iff Let_def split: option.splits)
qed

lemma mk_ledger_Inr:
  assumes "mk_ledger goal items rv reason = Inr l" "items_ok items"
  obtains c where "rv = PyInt c" "0 \<le> c" "tl_items l = sort_key li_task_id items" "graph_ok items"
    "acyclic (dep_rel items)" "items \<noteq> []" "length items \<le> max_ledger_items" "tl_goal_id l = goal"
proof -
  obtain m where goal: "tl_text goal ''goal_id'' = Inr m" "items \<noteq> []" "length items \<le> max_ledger_items"
    "distinct (map li_task_id items)"
    using assms(1) by (auto simp: mk_ledger_def split: if_splits)
  have miss: "missing_dependencies items = []"
    using assms(1) goal by (auto simp: mk_ledger_def split: list.splits)
  have ok: "graph_ok items" using goal(4) miss assms(2) by (simp add: graph_ok_def items_ok_def list_all_iff)
  obtain n left where run: "kahn (dependents_of items) (initial_remaining items)
      (sort (map fst (filter (\<lambda>(_, n). n = 0) (initial_remaining items)))) 0 = (n, left)"
    by (cases "kahn (dependents_of items) (initial_remaining items)
      (sort (map fst (filter (\<lambda>(_, n). n = 0) (initial_remaining items)))) 0")
  have "n = length items \<and> (\<exists>c. rv = PyInt c \<and> 0 \<le> c \<and> tl_items l = sort_key li_task_id items \<and> tl_goal_id l = goal)"
    using assms(1) goal miss
    by (auto simp: mk_ledger_def initial_remaining_def[symmetric] run Let_def split: if_splits pyval.splits option.splits)
  then show thesis using that ok goal(2,3) kahn_visits_all_iff[OF ok run] by blast
qed


lemma build_items_ok: "mapr (\<lambda>task. mk_ledger_item (a task) (b task) (c task) (d task) (e task) (ds task)) tasks = Inr items
    \<Longrightarrow> items_ok items"
  unfolding items_ok_def by (erule mapr_all) (rule mk_ledger_item_distinct)

lemma build_task_ledger_Inr:
  assumes "build_task_ledger goal tasks deps rv reason = Inr l"
  shows "graph_ok (tl_items l)" "acyclic (dep_rel (tl_items l))"
proof -
  obtain items where items: "items_ok items" "mk_ledger goal items rv reason = Inr l"
    using assms by (auto simp: build_task_ledger_def Let_def dest: build_items_ok)
  have sorted: "tl_items l = sort_key li_task_id items" and ok: "graph_ok items" and ac: "acyclic (dep_rel items)"
    using mk_ledger_Inr[OF items(2,1)] by blast+
  have perm: "set (tl_items l) = set items" "distinct (map li_task_id (tl_items l)) = distinct (map li_task_id items)"
    by (simp_all add: sorted distinct_map)
  show "graph_ok (tl_items l)" using ok perm by (simp add: graph_ok_def missing_Nil_iff)
  show "acyclic (dep_rel (tl_items l))" using ac perm by (simp add: dep_rel_def)
qed

lemma items_by_id_map:
  assumes "graph_ok (tl_items l)"
  shows "map_of (items_by_id l) d = Some it \<longleftrightarrow> it \<in> set (tl_items l) \<and> li_task_id it = d"
proof -
  have ok: "dict_ok (map (\<lambda>it. (li_task_id it, it)) (tl_items l))"
    using assms by (simp add: graph_ok_def comp_def)
  show ?thesis unfolding items_by_id_def dict_of_distinct[OF ok] using map_of_eq_Some_iff[OF ok] by auto
qed

definition dep_done :: "string list \<Rightarrow> task_ledger \<Rightarrow> string \<Rightarrow> bool" where
  "dep_done completed l d = list_ex (\<lambda>it. li_task_id it = d \<and> li_status it \<in> set completed) (tl_items l)"

lemma dep_lookup:
  assumes "graph_ok (tl_items l)" "d \<in> item_ids (tl_items l)"
  obtains it where "map_of (items_by_id l) d = Some it" "li_status it \<in> set completed \<longleftrightarrow> dep_done completed l d"
proof -
  obtain it where it: "it \<in> set (tl_items l)" "li_task_id it = d" using assms(2) by (auto simp: item_ids_def)
  have "li_status it \<in> set completed \<longleftrightarrow> dep_done completed l d"
    using it assms(1) by (auto simp: dep_done_def list_ex_iff graph_ok_def distinct_map dest: inj_onD)
  then show thesis using that items_by_id_map[OF assms(1), of d it] it by blast
qed

lemma all_done_known:
  assumes "graph_ok (tl_items l)" "set ds \<subseteq> item_ids (tl_items l)"
  shows "all_done (items_by_id l) completed ds = Inr (\<forall>d\<in>set ds. dep_done completed l d)"
  using assms(2)
proof (induction ds)
  case (Cons d ds)
  then obtain it where "map_of (items_by_id l) d = Some it" "li_status it \<in> set completed \<longleftrightarrow> dep_done completed l d"
    using dep_lookup[OF assms(1), of d completed] by auto
  then show ?case using Cons by auto
qed simp

lemma filterr_total: "(\<And>x. x \<in> set xs \<Longrightarrow> f x = Inr (P x)) \<Longrightarrow> filterr f xs = Inr (filter P xs)"
  by (induction xs) auto

lemma dep_open_known:
  assumes "graph_ok (tl_items l)" "set ds \<subseteq> item_ids (tl_items l)"
  shows "filterr (dep_open (items_by_id l) completed) ds = Inr (filter (\<lambda>d. \<not> dep_done completed l d) ds)"
proof (rule filterr_total)
  fix d assume "d \<in> set ds"
  then obtain it where "map_of (items_by_id l) d = Some it" "li_status it \<in> set completed \<longleftrightarrow> dep_done completed l d"
    using dep_lookup[OF assms(1), of d completed] assms(2) by blast
  then show "dep_open (items_by_id l) completed d = Inr (\<not> dep_done completed l d)" by (simp add: dep_open_def)
qed

abbreviation item_ready :: "string list \<Rightarrow> string list \<Rightarrow> task_ledger \<Rightarrow> ledger_item \<Rightarrow> bool" where
  "item_ready runnable completed l it \<equiv>
     li_status it \<in> set runnable \<and> (\<forall>d\<in>set (li_dependencies it). dep_done completed l d)"

abbreviation item_blocked :: "string list \<Rightarrow> string list \<Rightarrow> task_ledger \<Rightarrow> ledger_item \<Rightarrow> bool" where
  "item_blocked runnable completed l it \<equiv>
     li_status it \<in> set runnable \<and> \<not> (\<forall>d\<in>set (li_dependencies it). dep_done completed l d)"

lemma ready_items_eq:
  assumes ok: "graph_ok (tl_items l)" and n: "1 \<le> n"
  shows "ready_items (PyInt n) runnable completed l
    = Inr (take (nat n) (sort_key li_task_id (filter (item_ready runnable completed l) (tl_items l))))"
proof -
  have "filterr (\<lambda>it. if li_status it \<in> set runnable
      then all_done (items_by_id l) completed (li_dependencies it) else Inr False) (tl_items l)
    = Inr (filter (item_ready runnable completed l) (tl_items l))"
    using all_done_known[OF ok graph_ok_closed[OF ok]] by (intro filterr_total) auto
  then show ?thesis using n by (simp add: ready_items_def check_fanout_def)
qed

lemma blocked_loop_eq:
  assumes ok: "graph_ok (tl_items l)"
  shows "set its \<subseteq> set (tl_items l) \<Longrightarrow> blocked_loop (items_by_id l) runnable completed its
    = Inr (map (\<lambda>it. (li_task_id it, filter (\<lambda>d. \<not> dep_done completed l d) (li_dependencies it)))
        (filter (item_blocked runnable completed l) its))"
proof (induction its)
  case (Cons it its)
  then have sub: "set (li_dependencies it) \<subseteq> item_ids (tl_items l)" using graph_ok_closed[OF ok, of it] by simp
  show ?case
    using Cons all_done_known[OF ok sub, of completed] dep_open_known[OF ok sub, of completed] by auto
qed simp


text \<open>
  (C16) A ledger is accepted exactly when it describes a schedulable plan: for a bounded goal and
  a list of valid items, construction succeeds if and only if there are 1 to 256 items with
  distinct identities, every dependency is a task of the ledger, the dependency relation has no
  cycle, and the replan count and reason are valid.
\<close>

theorem ledger_accepts_exactly_acyclic:
  assumes "mapr (\<lambda>(i, title, status, owner, parent, ds). mk_ledger_item i title status owner parent ds) rows = Inr items"
    and "tl_text goal ''goal_id'' = Inr goal"
  shows "is_ok (mk_ledger goal items (PyInt c) reason) \<longleftrightarrow>
    items \<noteq> [] \<and> length items \<le> 256 \<and> distinct (map li_task_id items)
    \<and> (\<forall>it\<in>set items. set (li_dependencies it) \<subseteq> li_task_id ` set items)
    \<and> acyclic (dep_rel items) \<and> 0 \<le> c \<and> (\<forall>s. reason = Some s \<longrightarrow> is_ok (tl_text s ''last_replan_reason''))"
    (is "?ok \<longleftrightarrow> ?conds")
proof -
  have ok: "items_ok items"
    using assms(1) unfolding items_ok_def by (rule mapr_all) (auto dest: mk_ledger_item_distinct)
  show ?thesis
  proof
    assume ?ok
    then obtain l where l: "mk_ledger goal items (PyInt c) reason = Inr l" by (auto simp: is_ok_iff)
    have g: "graph_ok items" "items \<noteq> []" "length items \<le> 256" using mk_ledger_Inr[OF l ok] by blast+
    have closed: "\<forall>it\<in>set items. set (li_dependencies it) \<subseteq> li_task_id ` set items"
      "distinct (map li_task_id items)"
      using g(1) by (simp_all add: graph_ok_def missing_Nil_iff)
    show ?conds using mk_ledger_unfold[OF ok closed(2,1) assms(2) g(2,3)] g closed \<open>?ok\<close> by blast
  next
    assume ?conds
    then show ?ok using mk_ledger_unfold[OF ok _ _ assms(2)] by blast
  qed
qed

theorem ledger_accepts_exactly_acyclic_witness:
  "\<exists>x y. mapr (\<lambda>(i, title, status, owner, parent, ds). mk_ledger_item i title status owner parent ds)
      [(''a'', ''A'', ''done'', [], [], [''b'']), (''b'', ''B'', ''done'', [], [], [''a''])] = Inr [x, y]
    \<and> \<not> is_ok (mk_ledger ''goal'' [x, y] (PyInt 0) None)"
proof -
  let ?x = "\<lparr>li_task_id = ''a'', li_title = ''A'', li_status = ''done'', li_owner = [], li_parent_id = [], li_dependencies = [''b'']\<rparr>"
  let ?y = "\<lparr>li_task_id = ''b'', li_title = ''B'', li_status = ''done'', li_owner = [], li_parent_id = [], li_dependencies = [''a'']\<rparr>"
  have rows: "mapr (\<lambda>(i, title, status, owner, parent, ds). mk_ledger_item i title status owner parent ds)
      [(''a'', ''A'', ''done'', [], [], [''b'']), (''b'', ''B'', ''done'', [], [], [''a''])] = Inr [?x, ?y]"
    by code_simp
  have goal: "tl_text ''goal'' ''goal_id'' = Inr ''goal''" by code_simp
  have "(''a'', ''b'') \<in> dep_rel [?x, ?y]" "(''b'', ''a'') \<in> dep_rel [?x, ?y]"
    using dep_relI[of ?y "[?x, ?y]" "''a''"] dep_relI[of ?x "[?x, ?y]" "''b''"] by simp_all
  then have "(''a'', ''a'') \<in> (dep_rel [?x, ?y])\<^sup>+" by (rule trancl_into_trancl[OF r_into_trancl])
  then have "\<not> acyclic (dep_rel [?x, ?y])" unfolding acyclic_def by blast
  then show ?thesis using ledger_accepts_exactly_acyclic[OF rows goal, of 0 None] rows by blast
qed

text \<open>
  The batches are a schedule. For every ledger that was built and every positive fan-out the
  projection returns batches that hold each task exactly once, none larger than the fan-out, such
  that every dependency of a task lies in an earlier batch; the defensive cycle error never occurs.
\<close>

theorem batches_are_topological:
  assumes "build_task_ledger goal tasks deps rv reason = Inr l" "1 \<le> n"
  shows "\<exists>bs. dependency_batches (PyInt n) l = Inr bs
    \<and> distinct (concat bs) \<and> set (concat bs) = li_task_id ` set (tl_items l)
    \<and> (\<forall>b\<in>set bs. b \<noteq> [] \<and> int (length b) \<le> n)
    \<and> (\<forall>i<length bs. \<forall>it\<in>set (tl_items l). li_task_id it \<in> set (bs ! i) \<longrightarrow>
         (\<forall>d\<in>set (li_dependencies it). \<exists>j<i. d \<in> set (bs ! j)))"
proof -
  note ok = build_task_ledger_Inr[OF assms(1)]
  define rem where "rem = map (\<lambda>it. (li_task_id it, li_dependencies it)) (tl_items l)"
  have dict: "dict_ok rem" using ok(1) by (simp add: rem_def graph_ok_def comp_def)
  have wf: "wf (dep_rel (tl_items l))" by (rule finite_acyclic_wf[OF dep_rel_finite ok(2)])
  have keys: "fst ` set rem = li_task_id ` set (tl_items l)" by (simp add: rem_def image_image)
  have "\<exists>bs. batch_levels (nat n) rem = Inr bs"
    using graph_ok_closed[OF ok(1)]
    by (intro batch_levels_total[OF wf]) (auto simp: rem_def dep_rel_def item_ids_def image_image)
  then obtain bs where bs: "batch_levels (nat n) rem = Inr bs" by blast
  then have good: "batches_ok (nat n) rem bs" using batch_levels_ok[OF _ dict] assms(2) by simp
  have rem: "(li_task_id it, li_dependencies it) \<in> set rem" if "it \<in> set (tl_items l)" for it
    using that by (simp add: rem_def)
  show ?thesis
  proof (intro exI[of _ bs] conjI)
    show "dependency_batches (PyInt n) l = Inr bs"
      using bs assms(2) by (simp add: dependency_batches_def check_fanout_def dict_of_distinct[OF dict] flip: rem_def)
    show "distinct (concat bs)" "set (concat bs) = li_task_id ` set (tl_items l)"
      using good keys by (simp_all add: batches_ok_def)
    show "\<forall>b\<in>set bs. b \<noteq> [] \<and> int (length b) \<le> n"
      using good assms(2) by (auto simp: batches_ok_def)
    show "\<forall>i<length bs. \<forall>it\<in>set (tl_items l). li_task_id it \<in> set (bs ! i) \<longrightarrow>
         (\<forall>d\<in>set (li_dependencies it). \<exists>j<i. d \<in> set (bs ! j))"
      using good rem unfolding batches_ok_def by meson
  qed
qed

definition example_tasks :: "task_row list" where
  "example_tasks = [\<lparr>tr_id = Some ''ship'', tr_title = Some ''Ship'', tr_status = None, tr_owner = None, tr_parent_id = None\<rparr>,
     \<lparr>tr_id = Some ''plan'', tr_title = Some ''Plan'', tr_status = Some ''done'', tr_owner = None, tr_parent_id = None\<rparr>,
     \<lparr>tr_id = Some ''code'', tr_title = Some ''Code'', tr_status = None, tr_owner = None, tr_parent_id = None\<rparr>]"

definition example_deps :: "(string, string list) dict" where
  "example_deps = [(''ship'', [''code'', ''plan'']), (''code'', [''plan''])]"

lemma example_ledger_ok: "is_ok (build_task_ledger ''goal'' example_tasks (Some example_deps) (PyInt 0) None)"
  by code_simp

theorem batches_are_topological_witness:
  "\<exists>l bs. build_task_ledger ''goal'' example_tasks (Some example_deps) (PyInt 0) None = Inr l
     \<and> dependency_batches (PyInt 2) l = Inr bs \<and> distinct (concat bs)"
proof -
  obtain l where l: "build_task_ledger ''goal'' example_tasks (Some example_deps) (PyInt 0) None = Inr l"
    using example_ledger_ok by (auto simp: is_ok_iff)
  then show ?thesis using batches_are_topological[OF l, of 2] by auto
qed

text \<open>
  Dispatch is exact. On every ledger that was built the ready tasks are found without error:
  at most the fan-out, in the order of the identities, each runnable with all dependencies
  completed, and all such tasks when the fan-out is not reached. The blocked tasks are exactly the
  other runnable ones, each with exactly its dependencies that are not completed.
\<close>

theorem ready_and_blocked_exact:
  assumes "build_task_ledger goal tasks deps rv reason = Inr l" "1 \<le> n"
  shows "\<exists>rs bl. ready_items (PyInt n) runnable completed l = Inr rs
    \<and> blocked_dependencies runnable completed l = Inr bl
    \<and> int (length rs) \<le> n \<and> sorted (map li_task_id rs)
    \<and> (\<forall>it\<in>set rs. it \<in> set (tl_items l) \<and> item_ready runnable completed l it)
    \<and> (int (length rs) < n \<longrightarrow> (\<forall>it\<in>set (tl_items l). item_ready runnable completed l it \<longrightarrow> it \<in> set rs))
    \<and> (\<forall>t ds. (t, ds) \<in> set bl \<longleftrightarrow> (\<exists>it\<in>set (tl_items l). li_task_id it = t \<and> li_status it \<in> set runnable
         \<and> ds = filter (\<lambda>d. \<not> dep_done completed l d) (li_dependencies it) \<and> ds \<noteq> []))"
proof -
  note ok = build_task_ledger_Inr(1)[OF assms(1)]
  define rs where "rs = filter (item_ready runnable completed l) (tl_items l)"
  define bl where "bl = map (\<lambda>it. (li_task_id it, filter (\<lambda>d. \<not> dep_done completed l d) (li_dependencies it)))
        (filter (item_blocked runnable completed l) (tl_items l))"
  have r: "ready_items (PyInt n) runnable completed l = Inr (take (nat n) (sort_key li_task_id rs))"
    using ready_items_eq[OF ok assms(2)] by (simp add: rs_def)
  have b: "blocked_dependencies runnable completed l = Inr bl"
    using blocked_loop_eq[OF ok subset_refl] by (simp add: blocked_dependencies_def bl_def)
  show ?thesis
  proof (intro exI[of _ "take (nat n) (sort_key li_task_id rs)"] exI[of _ bl] conjI)
    show "\<forall>t ds. (t, ds) \<in> set bl \<longleftrightarrow> (\<exists>it\<in>set (tl_items l). li_task_id it = t \<and> li_status it \<in> set runnable
         \<and> ds = filter (\<lambda>d. \<not> dep_done completed l d) (li_dependencies it) \<and> ds \<noteq> [])"
      by (auto simp: bl_def filter_empty_conv)
    show "sorted (map li_task_id (take (nat n) (sort_key li_task_id rs)))"
      by (simp add: take_map[symmetric] sorted_wrt_take)
    show "int (length (take (nat n) (sort_key li_task_id rs))) \<le> n" using assms(2) by simp
    show "\<forall>it\<in>set (take (nat n) (sort_key li_task_id rs)). it \<in> set (tl_items l) \<and> item_ready runnable completed l it"
      using set_take_subset[of "nat n" "sort_key li_task_id rs"] by (auto simp: rs_def)
    show "int (length (take (nat n) (sort_key li_task_id rs))) < n \<longrightarrow>
        (\<forall>it\<in>set (tl_items l). item_ready runnable completed l it \<longrightarrow> it \<in> set (take (nat n) (sort_key li_task_id rs)))"
      using assms(2) by (auto simp: rs_def)
  qed (fact r b)+
qed

theorem ready_and_blocked_exact_witness:
  "\<exists>l rs bl. build_task_ledger ''goal'' example_tasks (Some example_deps) (PyInt 0) None = Inr l
     \<and> ready_items (PyInt 8) runnable_statuses completed_statuses l = Inr rs
     \<and> blocked_dependencies runnable_statuses completed_statuses l = Inr bl \<and> sorted (map li_task_id rs)"
proof -
  obtain l where l: "build_task_ledger ''goal'' example_tasks (Some example_deps) (PyInt 0) None = Inr l"
    using example_ledger_ok by (auto simp: is_ok_iff)
  obtain rs bl where "ready_items (PyInt 8) runnable_statuses completed_statuses l = Inr rs"
    "blocked_dependencies runnable_statuses completed_statuses l = Inr bl" "sorted (map li_task_id rs)"
    using ready_and_blocked_exact[OF l, of 8 runnable_statuses completed_statuses] by auto
  then show ?thesis using l by blast
qed

end
