(* ===== verification/WorkStealing.thy ===== *)
theory WorkStealing
  imports Prelude "HOL-Library.Multiset"
begin

text \<open>
  \<^verbatim>\<open>sonder_runtime/domain/work_stealing.py\<close>: one double-ended queue per worker, owners work at the right
  end, thieves take from the left end of the longest other queue. A task is any value but
  \<^verbatim>\<open>None\<close>. The events of a run carry what the calls return, so that the conservation of tasks can be
  stated over whole runs.
\<close>

section \<open>Worker queues\<close>

record 'a steal_result =
  sr_item :: "'a option"
  sr_source_worker :: string
  sr_stolen :: bool

record 'a worker_deque =
  wd_worker_id :: string
  wd_deque :: "'a list"
  wd_maxlen :: "nat option"
  wd_completed :: nat
  wd_stolen_from :: nat

definition new_deque :: "string \<Rightarrow> int \<Rightarrow> 'a worker_deque" where
  "new_deque wid max_size =
     \<lparr>wd_worker_id = wid, wd_deque = [], wd_maxlen = (if 0 < max_size then Some (nat max_size) else None),
      wd_completed = 0, wd_stolen_from = 0\<rparr>"

definition wd_push :: "'a \<Rightarrow> 'a worker_deque \<Rightarrow> 'a worker_deque \<times> bool" where
  "wd_push x q =
     (case wd_maxlen q of
        Some m \<Rightarrow> if m \<noteq> 0 \<and> m \<le> length (wd_deque q) then (q, False)
                  else (q\<lparr>wd_deque := wd_deque q @ [x]\<rparr>, True)
      | None \<Rightarrow> (q\<lparr>wd_deque := wd_deque q @ [x]\<rparr>, True))"

definition wd_pop :: "'a worker_deque \<Rightarrow> 'a worker_deque \<times> 'a option" where
  "wd_pop q = (if wd_deque q = [] then (q, None) else (q\<lparr>wd_deque := butlast (wd_deque q)\<rparr>, Some (last (wd_deque q))))"

definition wd_steal :: "'a worker_deque \<Rightarrow> 'a worker_deque \<times> 'a option" where
  "wd_steal q =
     (case wd_deque q of
        [] \<Rightarrow> (q, None)
      | x # xs \<Rightarrow> (q\<lparr>wd_deque := xs, wd_stolen_from := wd_stolen_from q + 1\<rparr>, Some x))"

definition wd_mark_completed :: "'a worker_deque \<Rightarrow> 'a worker_deque" where
  "wd_mark_completed q = q\<lparr>wd_completed := wd_completed q + 1\<rparr>"

abbreviation wd_size :: "'a worker_deque \<Rightarrow> nat" where
  "wd_size q \<equiv> length (wd_deque q)"

section \<open>The scheduler\<close>

record 'a steal_scheduler =
  ws_workers :: "(string, 'a worker_deque) dict"
  ws_total_submitted :: nat
  ws_total_steals :: nat

definition new_steal_scheduler :: "'a steal_scheduler" where
  "new_steal_scheduler = \<lparr>ws_workers = [], ws_total_submitted = 0, ws_total_steals = 0\<rparr>"

definition add_worker :: "string \<Rightarrow> int \<Rightarrow> 'a steal_scheduler \<Rightarrow> 'a steal_scheduler \<times> 'a worker_deque" where
  "add_worker wid max_queue s =
     (case map_of (ws_workers s) wid of
        Some q \<Rightarrow> (s, q)
      | None \<Rightarrow> let q = new_deque wid max_queue in (s\<lparr>ws_workers := AList.update wid q (ws_workers s)\<rparr>, q))"

function drain_queue :: "'a worker_deque \<Rightarrow> 'a list \<Rightarrow> 'a list" where
  "drain_queue q orphaned =
     (if wd_deque q = [] then orphaned
      else case wd_pop q of
        (q', Some x) \<Rightarrow> drain_queue q' (orphaned @ [x])
      | (q', None) \<Rightarrow> drain_queue q' orphaned)"
  by pat_completeness auto
termination
  by (relation "measure (\<lambda>(q, _). wd_size q)") (auto simp: wd_pop_def split: if_splits)

declare drain_queue.simps [simp del]

definition remove_worker :: "string \<Rightarrow> 'a steal_scheduler \<Rightarrow> 'a steal_scheduler \<times> 'a list" where
  "remove_worker wid s =
     (case map_of (ws_workers s) wid of
        None \<Rightarrow> (s, [])
      | Some q \<Rightarrow> (s\<lparr>ws_workers := AList.delete wid (ws_workers s)\<rparr>, drain_queue q []))"

definition submit :: "string \<Rightarrow> 'a \<Rightarrow> 'a steal_scheduler \<Rightarrow> 'a steal_scheduler \<times> bool" where
  "submit wid x s =
     (case map_of (ws_workers s) wid of
        None \<Rightarrow> (s, False)
      | Some q \<Rightarrow>
        let (q', ok) = wd_push x q in
        (s\<lparr>ws_workers := AList.update wid q' (ws_workers s),
           ws_total_submitted := (if ok then ws_total_submitted s + 1 else ws_total_submitted s)\<rparr>, ok))"

fun best_victim :: "string \<Rightarrow> (string, 'a worker_deque) dict \<Rightarrow> (string \<times> 'a worker_deque) option \<Rightarrow> nat \<Rightarrow>
    (string \<times> 'a worker_deque) option" where
  "best_victim thief [] best best_size = best"
| "best_victim thief ((wid, q) # ws) best best_size =
     (if wid = thief then best_victim thief ws best best_size
      else if best_size < wd_size q then best_victim thief ws (Some (wid, q)) (wd_size q)
      else best_victim thief ws best best_size)"

definition no_work :: "'a steal_result" where
  "no_work = \<lparr>sr_item = None, sr_source_worker = [], sr_stolen = False\<rparr>"

definition try_steal :: "string \<Rightarrow> 'a steal_scheduler \<Rightarrow> 'a steal_scheduler \<times> 'a steal_result" where
  "try_steal thief s =
     (if map_of (ws_workers s) thief = None then (s, no_work)
      else case best_victim thief (ws_workers s) None 0 of
        None \<Rightarrow> (s, no_work)
      | Some (wid, v) \<Rightarrow>
        if wd_deque v = [] then (s, no_work)
        else case wd_steal v of
          (v', Some x) \<Rightarrow> (s\<lparr>ws_workers := AList.update wid v' (ws_workers s), ws_total_steals := ws_total_steals s + 1\<rparr>,
                           \<lparr>sr_item = Some x, sr_source_worker = wd_worker_id v, sr_stolen = True\<rparr>)
        | (v', None) \<Rightarrow> (s, no_work))"

definition get_work :: "string \<Rightarrow> 'a steal_scheduler \<Rightarrow> 'a steal_scheduler \<times> 'a steal_result" where
  "get_work wid s =
     (case map_of (ws_workers s) wid of
        None \<Rightarrow> (s, no_work)
      | Some q \<Rightarrow>
        (case wd_pop q of
           (q', Some x) \<Rightarrow> (s\<lparr>ws_workers := AList.update wid q' (ws_workers s)\<rparr>,
                            \<lparr>sr_item = Some x, sr_source_worker = wid, sr_stolen = False\<rparr>)
         | (q', None) \<Rightarrow> try_steal wid s))"

definition worker_done :: "string \<Rightarrow> 'a steal_scheduler \<Rightarrow> 'a steal_scheduler" where
  \<comment> \<open>a caller marks a task of the enrolled queue as completed\<close>
  "worker_done wid s =
     (case map_of (ws_workers s) wid of
        None \<Rightarrow> s
      | Some q \<Rightarrow> s\<lparr>ws_workers := AList.update wid (wd_mark_completed q) (ws_workers s)\<rparr>)"

definition ws_snapshot :: "'a steal_scheduler \<Rightarrow> (string \<times> nat \<times> nat \<times> nat) list \<times> nat \<times> nat" where
  "ws_snapshot s =
     (map (\<lambda>(wid, q). (wid, wd_size q, wd_completed q, wd_stolen_from q)) (ws_workers s),
      ws_total_submitted s, ws_total_steals s)"

section \<open>Runs\<close>

datatype 'a ws_event =
    EvAdd string int
  | EvRemove string "'a list"
  | EvSubmit string 'a bool
  | EvSteal string "'a steal_result"
  | EvWork string "'a steal_result"
  | EvDone string

inductive ws_step :: "'a steal_scheduler \<Rightarrow> 'a ws_event \<Rightarrow> 'a steal_scheduler \<Rightarrow> bool" where
  step_add: "add_worker wid m s = (t, q) \<Longrightarrow> ws_step s (EvAdd wid m) t"
| step_remove: "remove_worker wid s = (t, xs) \<Longrightarrow> ws_step s (EvRemove wid xs) t"
| step_submit: "submit wid x s = (t, ok) \<Longrightarrow> ws_step s (EvSubmit wid x ok) t"
| step_steal: "try_steal wid s = (t, r) \<Longrightarrow> ws_step s (EvSteal wid r) t"
| step_work: "get_work wid s = (t, r) \<Longrightarrow> ws_step s (EvWork wid r) t"
| step_done: "ws_step s (EvDone wid) (worker_done wid s)"

inductive_cases ws_stepE: "ws_step s e t"

fun accepted :: "'a ws_event \<Rightarrow> 'a multiset" where
  "accepted (EvSubmit _ x ok) = (if ok then {#x#} else {#})"
| "accepted _ = {#}"

definition result_items :: "'a steal_result \<Rightarrow> 'a multiset" where
  "result_items r = (case sr_item r of None \<Rightarrow> {#} | Some x \<Rightarrow> {#x#})"

fun handed_out :: "'a ws_event \<Rightarrow> 'a multiset" where
  "handed_out (EvRemove _ xs) = mset xs"
| "handed_out (EvSteal _ r) = result_items r"
| "handed_out (EvWork _ r) = result_items r"
| "handed_out _ = {#}"

fun stolen_count :: "'a ws_event \<Rightarrow> nat" where
  "stolen_count (EvSteal _ r) = (if sr_stolen r then 1 else 0)"
| "stolen_count (EvWork _ r) = (if sr_stolen r then 1 else 0)"
| "stolen_count _ = 0"

definition queued :: "'a steal_scheduler \<Rightarrow> 'a multiset" where
  "queued s = sum_list (map (\<lambda>(_, q). mset (wd_deque q)) (ws_workers s))"

definition ws_inv :: "'a steal_scheduler \<Rightarrow> bool" where
  "ws_inv s = (dict_ok (ws_workers s) \<and> (\<forall>(wid, q) \<in> set (ws_workers s). wd_worker_id q = wid
     \<and> (\<forall>m. wd_maxlen q = Some m \<longrightarrow> 0 < m \<and> wd_size q \<le> m)))"


section \<open>Conservation\<close>

lemma drain_queue_rev: "drain_queue q xs = xs @ rev (wd_deque q)"
proof (induction "wd_deque q" arbitrary: q xs rule: rev_induct)
  case (snoc x ys)
  have "drain_queue q xs = drain_queue (q\<lparr>wd_deque := ys\<rparr>) (xs @ [x])"
    by (subst drain_queue.simps) (simp add: wd_pop_def flip: snoc.hyps(2))
  then show ?case using snoc.hyps(1)[of "q\<lparr>wd_deque := ys\<rparr>" "xs @ [x]"] by (simp flip: snoc.hyps(2))
qed (simp add: drain_queue.simps)

lemma queued_update:
  assumes "dict_ok ws" "map_of ws w = Some q"
  shows "sum_list (map (\<lambda>(_, q). mset (wd_deque q)) (AList.update w q' ws)) + mset (wd_deque q)
    = sum_list (map (\<lambda>(_, q). mset (wd_deque q)) ws) + mset (wd_deque q')"
  using assms by (induction ws) (auto split: if_splits)

lemma queued_delete:
  assumes "dict_ok ws" "map_of ws w = Some q"
  shows "sum_list (map (\<lambda>(_, q). mset (wd_deque q)) (AList.delete w ws)) + mset (wd_deque q)
    = sum_list (map (\<lambda>(_, q). mset (wd_deque q)) ws)"
  using assms by (induction ws) (auto simp: ac_simps delete_idem)

lemma ws_lookup: "ws_inv s \<Longrightarrow> map_of (ws_workers s) w = Some q \<longleftrightarrow> (w, q) \<in> set (ws_workers s)"
  by (simp add: ws_inv_def)

lemma ws_inv_update:
  assumes "ws_inv s" "ws_workers t = AList.update w q (ws_workers s)" "wd_worker_id q = w"
    and "\<And>m. wd_maxlen q = Some m \<Longrightarrow> 0 < m \<and> wd_size q \<le> m"
  shows "ws_inv t"
proof -
  have "x = (w, q) \<or> x \<in> set (ws_workers s)" if "x \<in> set (ws_workers t)" for x
    using that set_update_subset[of w q "ws_workers s"] assms(2) by auto
  then show ?thesis using assms by (fastforce simp: ws_inv_def distinct_update)
qed

lemma queued_set:
  assumes "ws_inv s" "map_of (ws_workers s) w = Some q" "ws_workers t = AList.update w q' (ws_workers s)"
  shows "queued t + mset (wd_deque q) = queued s + mset (wd_deque q')"
  using queued_update[of "ws_workers s" w q q'] assms by (simp add: queued_def ws_inv_def)

definition victim_spec :: "string \<Rightarrow> (string, 'a worker_deque) dict \<Rightarrow> (string \<times> 'a worker_deque) option \<Rightarrow> nat
    \<Rightarrow> (string \<times> 'a worker_deque) option \<Rightarrow> bool" where
  "victim_spec thief ws best n r =
     ((\<forall>(w, q)\<in>set ws. w \<noteq> thief \<longrightarrow> wd_size q \<le> (case r of None \<Rightarrow> 0 | Some (v, p) \<Rightarrow> wd_size p))
      \<and> n \<le> (case r of None \<Rightarrow> 0 | Some (v, p) \<Rightarrow> wd_size p)
      \<and> (r = best \<or> (\<exists>v p. r = Some (v, p) \<and> (v, p) \<in> set ws \<and> v \<noteq> thief \<and> wd_deque p \<noteq> [])))"

lemma best_victim_spec:
  "n \<le> (case best of None \<Rightarrow> 0 | Some (v, p) \<Rightarrow> wd_size p) \<Longrightarrow> victim_spec thief ws best n (best_victim thief ws best n)"
proof (induction thief ws best n rule: best_victim.induct)
  case (2 thief wid q ws best n)
  consider "wid = thief" | "wid \<noteq> thief" "n < wd_size q" | "wid \<noteq> thief" "wd_size q \<le> n" by linarith
  then show ?case
  proof cases
    case 1
    then have "victim_spec thief ws best n (best_victim thief ws best n)" using 2 by simp
    then show ?thesis using 1 by (auto simp: victim_spec_def)
  next
    case 2
    then have "victim_spec thief ws (Some (wid, q)) (wd_size q) (best_victim thief ws (Some (wid, q)) (wd_size q))"
      using "2.IH"(2) by simp
    then show ?thesis using 2 by (fastforce simp: victim_spec_def)
  next
    case 3
    then have "victim_spec thief ws best n (best_victim thief ws best n)" using 2 by simp
    then show ?thesis using 3 by (auto simp: victim_spec_def)
  qed
qed (simp add: victim_spec_def)

lemma best_victim_None:
  assumes "best_victim thief ws None 0 = None" "(w, q) \<in> set ws" "w \<noteq> thief"
  shows "wd_deque q = []"
  using best_victim_spec[of 0 None thief ws] assms by (auto simp: victim_spec_def)

lemma best_victim_Some:
  assumes "best_victim thief ws None 0 = Some (v, p)"
  shows "(v, p) \<in> set ws" "v \<noteq> thief" "wd_deque p \<noteq> []"
    "\<And>w q. (w, q) \<in> set ws \<Longrightarrow> w \<noteq> thief \<Longrightarrow> wd_size q \<le> wd_size p"
  using best_victim_spec[of 0 None thief ws] assms by (auto simp: victim_spec_def)


definition balanced :: "'a steal_scheduler \<Rightarrow> 'a ws_event \<Rightarrow> 'a steal_scheduler \<Rightarrow> bool" where
  "balanced s e t = (ws_inv t \<and> queued s + accepted e = queued t + handed_out e
     \<and> ws_total_submitted t = ws_total_submitted s + size (accepted e)
     \<and> ws_total_steals t = ws_total_steals s + stolen_count e)"

lemma worker_facts:
  assumes "ws_inv s" "map_of (ws_workers s) w = Some q"
  shows "wd_worker_id q = w" "\<And>m. wd_maxlen q = Some m \<Longrightarrow> 0 < m \<and> wd_size q \<le> m"
  using assms ws_lookup[OF assms(1), of w q] by (auto simp: ws_inv_def)

lemma try_steal_balanced:
  assumes "ws_inv s" "try_steal w s = (t, r)"
  shows "ws_inv t \<and> queued s = queued t + result_items r \<and> ws_total_submitted t = ws_total_submitted s
    \<and> ws_total_steals t = ws_total_steals s + (if sr_stolen r then 1 else 0)"
proof (cases "map_of (ws_workers s) w = None \<or> best_victim w (ws_workers s) None 0 = None")
  case True
  then have "t = s \<and> r = no_work"
    using assms(2) by (elim disjE) (simp_all add: try_steal_def split: if_splits)
  then show ?thesis using assms(1) by (simp add: no_work_def result_items_def)
next
  case False
  then obtain v p where vp: "best_victim w (ws_workers s) None 0 = Some (v, p)" by auto
  note best = best_victim_Some[OF vp]
  obtain x xs where xs: "wd_deque p = x # xs" using best(3) by (cases "wd_deque p") auto
  let ?p = "p\<lparr>wd_deque := xs, wd_stolen_from := wd_stolen_from p + 1\<rparr>"
  have t: "t = s\<lparr>ws_workers := AList.update v ?p (ws_workers s), ws_total_steals := ws_total_steals s + 1\<rparr>"
    and r: "r = \<lparr>sr_item = Some x, sr_source_worker = wd_worker_id p, sr_stolen = True\<rparr>"
    using assms(2) vp False xs by (auto simp: try_steal_def wd_steal_def)
  have look: "map_of (ws_workers s) v = Some p" using best(1) ws_lookup[OF assms(1)] by simp
  have "ws_inv t"
    by (rule ws_inv_update[OF assms(1), of t v ?p]) (use worker_facts[OF assms(1) look] xs t in auto)
  moreover have "queued t + mset (wd_deque p) = queued s + mset xs"
    using queued_set[OF assms(1) look, of t ?p] t by simp
  ultimately show ?thesis using t r xs by (simp add: result_items_def)
qed

lemma get_work_balanced:
  assumes "ws_inv s" "get_work w s = (t, r)"
  shows "ws_inv t \<and> queued s = queued t + result_items r \<and> ws_total_submitted t = ws_total_submitted s
    \<and> ws_total_steals t = ws_total_steals s + (if sr_stolen r then 1 else 0)"
proof (cases "map_of (ws_workers s) w")
  case None
  then show ?thesis using assms by (auto simp: get_work_def no_work_def result_items_def)
next
  case (Some q)
  show ?thesis
  proof (cases "wd_deque q = []")
    case True
    then show ?thesis using assms Some try_steal_balanced[OF assms(1), of w t r] by (simp add: get_work_def wd_pop_def)
  next
    case False
    let ?q = "q\<lparr>wd_deque := butlast (wd_deque q)\<rparr>"
    have t: "t = s\<lparr>ws_workers := AList.update w ?q (ws_workers s)\<rparr>"
      and r: "r = \<lparr>sr_item = Some (last (wd_deque q)), sr_source_worker = w, sr_stolen = False\<rparr>"
      using assms(2) Some False by (auto simp: get_work_def wd_pop_def)
    have "ws_inv t"
      by (rule ws_inv_update[OF assms(1), of t w ?q])
        (use worker_facts[OF assms(1) Some] t in \<open>auto intro: order_trans[OF diff_le_self]\<close>)
    moreover have "queued t + mset (wd_deque q) = queued s + mset (butlast (wd_deque q))"
      using queued_set[OF assms(1) Some, of t ?q] t by simp
    moreover have "mset (wd_deque q) = add_mset (last (wd_deque q)) (mset (butlast (wd_deque q)))"
      using arg_cong[OF append_butlast_last_id[OF False], of mset] by simp
    ultimately show ?thesis using t r by (simp add: result_items_def)
  qed
qed

lemma submit_balanced:
  assumes "ws_inv s" "submit w x s = (t, ok)"
  shows "balanced s (EvSubmit w x ok) t"
proof (cases "map_of (ws_workers s) w")
  case None
  then show ?thesis using assms by (auto simp: submit_def balanced_def)
next
  case (Some q)
  obtain q' where q': "wd_push x q = (q', ok)"
    and t: "t = s\<lparr>ws_workers := AList.update w q' (ws_workers s),
           ws_total_submitted := (if ok then ws_total_submitted s + 1 else ws_total_submitted s)\<rparr>"
    using assms(2) Some by (auto simp: submit_def split: prod.splits)
  have q: "wd_worker_id q' = wd_worker_id q" "wd_maxlen q' = wd_maxlen q"
    "wd_deque q' = (if ok then wd_deque q @ [x] else wd_deque q)"
    "\<And>m. ok \<Longrightarrow> wd_maxlen q = Some m \<Longrightarrow> m = 0 \<or> Suc (wd_size q) \<le> m"
    using q' by (auto simp: wd_push_def split: option.splits if_splits)
  have "ws_inv t"
    by (rule ws_inv_update[OF assms(1), of t w q'])
      (use worker_facts[OF assms(1) Some] q t in \<open>fastforce split: if_splits\<close>)+
  moreover have "queued t + mset (wd_deque q) = queued s + mset (wd_deque q')"
    using queued_set[OF assms(1) Some, of t q'] t by simp
  ultimately show ?thesis using t q(3) by (cases ok) (simp_all add: balanced_def)
qed

lemma step_balanced:
  assumes "ws_step s e t" "ws_inv s"
  shows "balanced s e t"
  using assms(1)
proof (cases rule: ws_step.cases)
  case (step_add w m q)
  show ?thesis
  proof (cases "map_of (ws_workers s) w")
    case None
    have t: "t = s\<lparr>ws_workers := AList.update w (new_deque w m) (ws_workers s)\<rparr>"
      using step_add None by (auto simp: add_worker_def Let_def)
    have "ws_workers t = ws_workers s @ [(w, new_deque w m)]"
      using None t by (simp add: update_new_key map_of_eq_None_iff)
    then have "queued t = queued s" by (simp add: queued_def new_deque_def)
    moreover have "ws_inv t"
      by (rule ws_inv_update[OF assms(2), of t w "new_deque w m"]) (use t in \<open>auto simp: new_deque_def split: if_splits\<close>)
    ultimately show ?thesis using step_add(1) t by (simp add: balanced_def)
  next
    case (Some p)
    then show ?thesis using step_add assms(2) by (simp add: add_worker_def balanced_def)
  qed
next
  case (step_remove w xs)
  show ?thesis
  proof (cases "map_of (ws_workers s) w")
    case None
    then show ?thesis using step_remove assms(2) by (simp add: remove_worker_def balanced_def)
  next
    case (Some q)
    have t: "t = s\<lparr>ws_workers := AList.delete w (ws_workers s)\<rparr>" "xs = rev (wd_deque q)"
      using step_remove Some by (simp_all add: remove_worker_def drain_queue_rev)
    have "set (AList.delete w (ws_workers s)) \<subseteq> set (ws_workers s)" by (rule set_delete_subset)
    then have "ws_inv t" using assms(2) t(1) unfolding ws_inv_def by (simp add: distinct_delete) blast
    then show ?thesis
      using queued_delete[of "ws_workers s" w q] Some assms(2) t step_remove(1)
      by (simp add: balanced_def queued_def ws_inv_def)
  qed
next
  case (step_submit w x ok)
  then show ?thesis using submit_balanced[OF assms(2)] by simp
next
  case (step_steal w r)
  then show ?thesis using try_steal_balanced[OF assms(2), of w t r] by (simp add: balanced_def)
next
  case (step_work w r)
  then show ?thesis using get_work_balanced[OF assms(2), of w t r] by (simp add: balanced_def)
next
  case (step_done w)
  show ?thesis
  proof (cases "map_of (ws_workers s) w")
    case None
    then show ?thesis using step_done assms(2) by (simp add: worker_done_def balanced_def)
  next
    case (Some q)
    have t: "t = s\<lparr>ws_workers := AList.update w (wd_mark_completed q) (ws_workers s)\<rparr>"
      using step_done Some by (simp add: worker_done_def)
    have "ws_inv t"
      by (rule ws_inv_update[OF assms(2), of t w "wd_mark_completed q"])
        (use worker_facts[OF assms(2) Some] t in \<open>auto simp: wd_mark_completed_def\<close>)
    then show ?thesis
      using queued_set[OF assms(2) Some, of t "wd_mark_completed q"] t step_done(1)
      by (simp add: balanced_def wd_mark_completed_def)
  qed
qed

interpretation steal_run: invariant_system ws_step ws_inv
  by unfold_locales (auto dest: step_balanced simp: balanced_def)

lemma new_scheduler_inv: "ws_inv new_steal_scheduler" "queued new_steal_scheduler = {#}"
  "ws_total_submitted new_steal_scheduler = 0" "ws_total_steals new_steal_scheduler = 0"
  by (simp_all add: ws_inv_def new_steal_scheduler_def queued_def)

lemma run_balanced:
  assumes "run_of ws_step s es t" "ws_inv s"
  shows "queued s + sum_list (map accepted es) = queued t + sum_list (map handed_out es)
    \<and> ws_total_submitted t = ws_total_submitted s + size (sum_list (map accepted es))
    \<and> ws_total_steals t = ws_total_steals s + sum_list (map stolen_count es)"
  using assms
proof (induction rule: run_of.induct)
  case (run_Cons s e u es t)
  have b: "balanced s e u" using step_balanced run_Cons by blast
  then have IH: "queued u + sum_list (map accepted es) = queued t + sum_list (map handed_out es)
    \<and> ws_total_submitted t = ws_total_submitted u + size (sum_list (map accepted es))
    \<and> ws_total_steals t = ws_total_steals u + sum_list (map stolen_count es)"
    using run_Cons.IH by (simp add: balanced_def)
  have "queued s + (accepted e + sum_list (map accepted es)) = queued u + handed_out e + sum_list (map accepted es)"
    using b by (simp add: balanced_def add.assoc[symmetric])
  also have "\<dots> = queued t + (handed_out e + sum_list (map handed_out es))"
    using IH by (metis (no_types, lifting) add.assoc add.commute)
  finally show ?case using b IH by (simp add: balanced_def)
qed simp


section \<open>Properties\<close>

text \<open>
  (C21) No task is lost or run twice. Over any run from a new scheduler, whatever workers join,
  submit, ask for work, steal, finish and leave, the tasks accepted are, as a multiset, exactly the
  tasks handed out (to a worker, a thief or the caller that removed a worker) together with those
  still queued; the submission and steal counters count them, and no queue exceeds its bound.
\<close>

theorem tasks_conserved:
  assumes "run_of ws_step new_steal_scheduler es s"
  shows "sum_list (map accepted es) = queued s + sum_list (map handed_out es)
    \<and> ws_total_submitted s = size (sum_list (map accepted es))
    \<and> ws_total_steals s = sum_list (map stolen_count es)
    \<and> (\<forall>w q m. map_of (ws_workers s) w = Some q \<longrightarrow> wd_maxlen q = Some m \<longrightarrow> wd_size q \<le> m)"
proof -
  have "ws_inv s" using steal_run.inv_run[OF assms] new_scheduler_inv by blast
  then have "\<forall>w q m. map_of (ws_workers s) w = Some q \<longrightarrow> wd_maxlen q = Some m \<longrightarrow> wd_size q \<le> m"
    using worker_facts by blast
  then show ?thesis
    using run_balanced[OF assms new_scheduler_inv(1)] by (simp add: new_scheduler_inv)
qed

definition example_pool :: "nat steal_scheduler" where
  "example_pool = fst (submit ''a'' 8 (fst (submit ''a'' 7 (fst (add_worker ''b'' 0 (fst (add_worker ''a'' 0 new_steal_scheduler)))))))"

definition example_events :: "nat ws_event list" where
  "example_events = [EvAdd ''a'' 0, EvAdd ''b'' 0, EvSubmit ''a'' 7 True, EvSubmit ''a'' 8 True]"

lemma example_pool_run: "run_of ws_step new_steal_scheduler example_events example_pool"
proof -
  let ?s2 = "fst (add_worker ''b'' 0 (fst (add_worker ''a'' 0 (new_steal_scheduler :: nat steal_scheduler))))"
  have sub: "submit ''a'' 8 (fst (submit ''a'' 7 ?s2)) = (example_pool, True)"
    "submit ''a'' 7 ?s2 = (fst (submit ''a'' 7 ?s2), True)"
    by code_simp+
  have add: "ws_step s (EvAdd w m) (fst (add_worker w m s))" for w m and s :: "nat steal_scheduler"
    by (rule step_add[OF surjective_pairing])
  show ?thesis
    unfolding example_events_def run_of_Cons_iff run_of_Nil_iff
    using add step_submit[OF sub(1)] step_submit[OF sub(2)] by blast
qed

theorem tasks_conserved_witness:
  "{#7, 8#} = queued example_pool \<and> ws_total_submitted example_pool = 2"
  using tasks_conserved[OF example_pool_run] by (simp add: example_events_def add_mset_commute)

text \<open>
  A worker idles only when there is nothing to do. An enrolled worker that asks for work gets
  the newest task of its own queue; with an empty queue it gets the oldest task of a longest other
  queue, marked as stolen from its owner; it gets nothing exactly when every queue is empty.
\<close>

theorem get_work_finds_work:
  assumes "run_of ws_step new_steal_scheduler es s" "map_of (ws_workers s) w = Some q" "get_work w s = (t, r)"
  shows "(wd_deque q \<noteq> [] \<longrightarrow> sr_item r = Some (last (wd_deque q)) \<and> sr_source_worker r = w \<and> \<not> sr_stolen r)
    \<and> (wd_deque q = [] \<and> sr_item r \<noteq> None \<longrightarrow> sr_stolen r
         \<and> (\<exists>p. map_of (ws_workers s) (sr_source_worker r) = Some p \<and> sr_item r = Some (hd (wd_deque p))
              \<and> (\<forall>u p'. map_of (ws_workers s) u = Some p' \<longrightarrow> wd_size p' \<le> wd_size p)))
    \<and> (sr_item r = None \<longleftrightarrow> (\<forall>u p. map_of (ws_workers s) u = Some p \<longrightarrow> wd_deque p = []))"
proof -
  have inv: "ws_inv s" using steal_run.inv_run[OF assms(1)] new_scheduler_inv by blast
  show ?thesis
  proof (cases "wd_deque q = []")
    case False
    then have "r = \<lparr>sr_item = Some (last (wd_deque q)), sr_source_worker = w, sr_stolen = False\<rparr>"
      using assms(2,3) by (auto simp: get_work_def wd_pop_def)
    then show ?thesis using False assms(2) by auto
  next
    case True
    have tr: "try_steal w s = (t, r)" using True assms(2,3) by (simp add: get_work_def wd_pop_def)
    show ?thesis
    proof (cases "best_victim w (ws_workers s) None 0")
      case None
      then have "r = no_work" using tr assms(2) by (simp add: try_steal_def)
      moreover have "wd_deque p = []" if "map_of (ws_workers s) u = Some p" for u p
        using best_victim_None[OF None, of u p] ws_lookup[OF inv, of u p] that True assms(2) by (cases "u = w") auto
      ultimately show ?thesis using True by (auto simp: no_work_def)
    next
      case (Some vp)
      obtain v p where vp: "vp = (v, p)" by (cases vp)
      note best = best_victim_Some[OF Some[unfolded vp]]
      have look: "map_of (ws_workers s) v = Some p" using best(1) ws_lookup[OF inv] by simp
      have r: "r = \<lparr>sr_item = Some (hd (wd_deque p)), sr_source_worker = v, sr_stolen = True\<rparr>"
        using tr Some vp best(3) assms(2) worker_facts(1)[OF inv look]
        by (cases "wd_deque p") (auto simp: try_steal_def wd_steal_def)
      have "wd_size p' \<le> wd_size p" if "map_of (ws_workers s) u = Some p'" for u p'
        using best(4)[of u p'] ws_lookup[OF inv, of u p'] that True assms(2) by (cases "u = w") auto
      then show ?thesis using r look best(3) True by auto
    qed
  qed
qed

theorem get_work_finds_work_witness:
  "\<exists>t r. get_work ''b'' example_pool = (t, r) \<and> sr_item r \<noteq> None"
proof -
  have b: "map_of (ws_workers example_pool) ''b'' = Some (new_deque ''b'' 0)" by code_simp
  have a: "map_option wd_deque (map_of (ws_workers example_pool) ''a'') = Some [7, 8]" by code_simp
  obtain t r where tr: "get_work ''b'' example_pool = (t, r)" by (cases "get_work ''b'' example_pool")
  then show ?thesis using get_work_finds_work[OF example_pool_run b tr] a by fastforce
qed

end
