(* ===== verification/Float64.thy ===== *)
theory Float64
  imports Prelude "HOL-Library.Log_Nat"
begin

text \<open>
  The floating-point arithmetic of the language, shared by the components that compute with seconds
  and token amounts. A finite float is the rational number it stands for, and the exact result of an
  arithmetic operation is rounded to binary64 as IEEE 754 prescribes: 53 significant bits, ties to
  even, gradual underflow. Infinities and NaN are left out.
\<close>

section \<open>Rounding\<close>

definition round_half_even :: "rat \<Rightarrow> int" where
  "round_half_even y =
     (let f = \<lfloor>y\<rfloor>; d = y - of_int f
      in if d < 1 / 2 then f else if 1 / 2 < d then f + 1 else if even f then f else f + 1)"

definition exponent64 :: "rat \<Rightarrow> int" where
  \<comment> \<open>the binary exponent of a positive number\<close>
  "exponent64 x =
     (let (n, d) = quotient_of x; k = bitlen n - bitlen d in if 2 powi k \<le> x then k else k - 1)"

definition last_place :: "rat \<Rightarrow> int" where
  "last_place x = max (-1074) (exponent64 x - 52)"

definition fl64 :: "rat \<Rightarrow> rat" where
  \<comment> \<open>the double an exact result is rounded to\<close>
  "fl64 x =
     (if x = 0 then 0
      else of_int (round_half_even (x / 2 powi last_place \<bar>x\<bar>)) * 2 powi last_place \<bar>x\<bar>)"

definition is_double :: "rat \<Rightarrow> bool" where "is_double x = (fl64 x = x)"

definition unit_roundoff :: rat where "unit_roundoff = 1 / 2 ^ 53"

definition half_subnormal :: rat where "half_subnormal = 1 / 2 ^ 1075"

lemma roundoff_pos [simp]:
  "0 < unit_roundoff" "0 \<le> unit_roundoff" "0 < half_subnormal" "0 \<le> half_subnormal"
  by (simp_all add: unit_roundoff_def half_subnormal_def)

lemma round_half_even_error: "\<bar>of_int (round_half_even y) - y\<bar> \<le> 1 / 2"
proof -
  have "of_int \<lfloor>y\<rfloor> \<le> y" "y < of_int \<lfloor>y\<rfloor> + 1" by linarith+
  then show ?thesis by (simp add: round_half_even_def Let_def abs_le_iff)
qed

lemma round_half_even_lower: "of_int m \<le> y \<Longrightarrow> m \<le> round_half_even y"
  using le_floor_iff[of m y] by (simp add: round_half_even_def Let_def)

lemma round_half_even_upper:
  assumes "y \<le> of_int m"
  shows "round_half_even y \<le> m"
proof (cases "y = of_int m")
  case False
  then have "\<lfloor>y\<rfloor> < m" using assms by (simp add: floor_less_iff)
  then show ?thesis by (simp add: round_half_even_def Let_def)
qed (simp add: round_half_even_def)

lemma exponent64_bounds:
  assumes "0 < x"
  shows "2 powi exponent64 x \<le> x \<and> x < 2 powi (exponent64 x + 1)"
proof -
  obtain n d where q: "quotient_of x = (n, d)" by (cases "quotient_of x")
  have x: "x = of_int n / of_int d" and d: "0 < d"
    using q by (auto simp: quotient_of_div quotient_of_denom_pos)
  have n: "0 < n" using assms x d by (simp add: zero_less_divide_iff)
  have bits: "2 powi (bitlen i - 1) \<le> (of_int i :: rat) \<and> of_int i < (2::rat) powi bitlen i" if "0 < i" for i
  proof -
    have "of_int (2 ^ nat (bitlen i - 1)) \<le> (of_int i :: rat)" "of_int i < (of_int (2 ^ nat (bitlen i)) :: rat)"
      using bitlen_bounds[OF that] by (simp_all only: of_int_le_iff of_int_less_iff)
    moreover have "1 \<le> bitlen i" using that bitlen_nonneg[of i] bitlen_eq_zero_iff[of i] by linarith
    ultimately show ?thesis by (simp add: power_int_def)
  qed
  have "(2::rat) powi (bitlen n - 1) / 2 powi bitlen d \<le> of_int n / of_int d"
    using bits[OF n] bits[OF d] n d by (intro frac_le) (auto simp: less_imp_le)
  moreover have "of_int n / of_int d < (2::rat) powi bitlen n / 2 powi (bitlen d - 1)"
    using bits[OF n] bits[OF d] n d by (intro frac_less) (auto simp: less_imp_le)
  ultimately have "2 powi (bitlen n - bitlen d - 1) \<le> x" "x < 2 powi (bitlen n - bitlen d + 1)"
    by (simp_all add: x power_int_diff power_int_add algebra_simps)
  then show ?thesis by (simp add: exponent64_def q Let_def)
qed

lemma fl64_pos: "0 < x \<Longrightarrow> fl64 x = of_int (round_half_even (x / 2 powi last_place x)) * 2 powi last_place x"
  by (simp add: fl64_def)

lemma fl64_nonneg: "0 \<le> x \<Longrightarrow> 0 \<le> fl64 x"
  using round_half_even_lower[of 0 "x / 2 powi last_place x"] by (auto simp: fl64_def)

section \<open>The error of one rounding\<close>

lemma fl64_error:
  assumes "0 \<le> x"
  shows "\<bar>fl64 x - x\<bar> \<le> unit_roundoff * x + half_subnormal"
proof (cases "x = 0")
  case False
  with assms have pos: "0 < x" by simp
  let ?e = "last_place x"
  have "\<bar>fl64 x - x\<bar> = \<bar>of_int (round_half_even (x / 2 powi ?e)) - x / 2 powi ?e\<bar> * 2 powi ?e"
    by (simp add: fl64_pos[OF pos] abs_mult_pos left_diff_distrib)
  also have "\<dots> \<le> 1 / 2 * 2 powi ?e"
    by (rule mult_right_mono[OF round_half_even_error]) simp
  also have "\<dots> \<le> unit_roundoff * 2 powi exponent64 x + half_subnormal"
  proof (cases "exponent64 x - 52 \<le> -1074")
    case True
    then have "?e = - 1074" by (simp add: last_place_def)
    then have "1 / 2 * (2::rat) powi ?e = half_subnormal"
      by (simp add: half_subnormal_def power_int_def power_one_over)
    then show ?thesis by simp
  next
    case False
    then have "?e = exponent64 x - 52" by (simp add: last_place_def)
    then have "1 / 2 * (2::rat) powi ?e = unit_roundoff * 2 powi exponent64 x"
      by (simp add: unit_roundoff_def power_int_diff)
    then show ?thesis by simp
  qed
  also have "\<dots> \<le> unit_roundoff * x + half_subnormal"
    using exponent64_bounds[OF pos] by (simp add: mult_left_mono)
  finally show ?thesis .
qed (simp add: fl64_def)

lemma fl64_upper: "0 \<le> x \<Longrightarrow> fl64 x \<le> (1 + unit_roundoff) * x + half_subnormal"
  using fl64_error[of x] by (simp add: algebra_simps abs_le_iff)

section \<open>Rounding respects the doubles\<close>

text \<open>A non-negative double is an integer of at most 53 bits scaled by a power of two.\<close>

lemma fl64_shape:
  assumes "0 \<le> x"
  shows "\<exists>m e. fl64 x = of_int m * 2 powi e \<and> 0 \<le> m \<and> m \<le> 2 ^ 53 \<and> -1074 \<le> e"
proof (cases "x = 0")
  case True
  then show ?thesis by (intro exI[of _ 0]) (simp add: fl64_def)
next
  case False
  with assms have pos: "0 < x" by simp
  let ?e = "last_place x" and ?m = "round_half_even (x / 2 powi last_place x)"
  have "x \<le> 2 powi (exponent64 x + 1)" using exponent64_bounds[OF pos] by simp
  also have "(2::rat) powi (exponent64 x + 1) \<le> 2 powi (53 + ?e)"
    by (intro power_int_increasing) (auto simp: last_place_def)
  also have "\<dots> = 2 ^ 53 * 2 powi ?e" by (simp add: power_int_add)
  finally have "x / 2 powi ?e \<le> of_int (2 ^ 53)" by (simp add: divide_le_eq)
  then have "?m \<le> 2 ^ 53" by (rule round_half_even_upper)
  moreover have "0 \<le> ?m" using pos by (intro round_half_even_lower) simp
  ultimately show ?thesis
    using fl64_pos[OF pos] by (intro exI[of _ ?m] exI[of _ ?e]) (simp add: last_place_def)
qed

lemma power_of_two_integer:
  assumes "e \<le> i"
  shows "\<exists>p::int. (of_int m :: rat) * 2 powi i / 2 powi e = of_int p"
proof (intro exI[of _ "m * 2 ^ nat (i - e)"])
  have "(2::rat) powi i / 2 powi e = 2 powi (i - e)" by (simp add: power_int_diff)
  also have "\<dots> = 2 ^ nat (i - e)" using assms by (simp add: power_int_def)
  finally show "(of_int m :: rat) * 2 powi i / 2 powi e = of_int (m * 2 ^ nat (i - e))"
    by (simp add: times_divide_eq_right[symmetric])
qed

lemma coarse_last_place:
  \<comment> \<open>a double with a finer last place than a number is at most that number's power of two\<close>
  assumes "0 < y" "m \<le> 2 ^ 53" "-1074 \<le> e" "e < last_place y"
  shows "of_int m * 2 powi e \<le> (2::rat) powi exponent64 y" "last_place y \<le> exponent64 y"
proof -
  have le: "last_place y = exponent64 y - 52" using assms(3,4) by (auto simp: last_place_def)
  have "of_int m * 2 powi e \<le> (of_int (2 ^ 53) :: rat) * 2 powi e"
    using assms(2) by (intro mult_right_mono) (simp_all only: of_int_le_iff, simp)
  also have "\<dots> = 2 powi (53 + e)" by (simp add: power_int_add)
  also have "\<dots> \<le> 2 powi exponent64 y" using assms(4) le by (intro power_int_increasing) auto
  finally show "of_int m * 2 powi e \<le> (2::rat) powi exponent64 y" .
  show "last_place y \<le> exponent64 y" using le by simp
qed

lemma round_below_multiple:
  assumes "0 < y" "x / 2 powi last_place y = of_int p" "x \<le> y"
  shows "x \<le> fl64 y"
proof -
  have "p \<le> round_half_even (y / 2 powi last_place y)"
    using assms(3) by (intro round_half_even_lower) (simp add: assms(2)[symmetric] divide_right_mono)
  then have "x / 2 powi last_place y \<le> of_int (round_half_even (y / 2 powi last_place y))"
    by (simp add: assms(2))
  then show ?thesis by (simp add: fl64_pos[OF assms(1)] divide_le_eq)
qed

lemma round_above_multiple:
  assumes "0 < y" "x / 2 powi last_place y = of_int p" "y \<le> x"
  shows "fl64 y \<le> x"
proof -
  have "round_half_even (y / 2 powi last_place y) \<le> p"
    using assms(3) by (intro round_half_even_upper) (simp add: assms(2)[symmetric] divide_right_mono)
  then have "of_int (round_half_even (y / 2 powi last_place y)) \<le> x / 2 powi last_place y"
    by (simp add: assms(2))
  then show ?thesis by (simp add: fl64_pos[OF assms(1)] le_divide_eq)
qed

lemma shape_le_fl64:
  assumes "0 < y" "m \<le> 2 ^ 53" "-1074 \<le> e" "of_int m * 2 powi e \<le> y"
  shows "of_int m * 2 powi e \<le> fl64 y"
proof (cases "last_place y \<le> e")
  case True
  then show ?thesis using power_of_two_integer[OF True, of m] round_below_multiple[OF assms(1) _ assms(4)] by auto
next
  case False
  then have fine: "of_int m * 2 powi e \<le> (2::rat) powi exponent64 y" "last_place y \<le> exponent64 y"
    using coarse_last_place[OF assms(1-3)] by auto
  obtain p where "(2::rat) powi exponent64 y / 2 powi last_place y = of_int p"
    using power_of_two_integer[OF fine(2), of 1] by auto
  then show ?thesis using round_below_multiple[OF assms(1)] exponent64_bounds[OF assms(1)] fine(1) by fastforce
qed

lemma fl64_le_shape:
  assumes "0 < y" "m \<le> 2 ^ 53" "-1074 \<le> e" "y \<le> of_int m * 2 powi e"
  shows "fl64 y \<le> of_int m * 2 powi e"
proof (cases "last_place y \<le> e")
  case True
  then show ?thesis using power_of_two_integer[OF True, of m] round_above_multiple[OF assms(1) _ assms(4)] by auto
next
  case False
  then have fine: "of_int m * 2 powi e \<le> (2::rat) powi exponent64 y" "last_place y \<le> exponent64 y"
    using coarse_last_place[OF assms(1-3)] by auto
  then have "of_int m * 2 powi e = (2::rat) powi exponent64 y"
    using exponent64_bounds[OF assms(1)] assms(4) by simp
  then show ?thesis using power_of_two_integer[OF fine(2), of 1] round_above_multiple[OF assms(1) _ assms(4)] by auto
qed

lemma double_le_fl64:
  assumes "is_double x" "0 \<le> x" "x \<le> y"
  shows "x \<le> fl64 y"
proof (cases "y = 0")
  case False
  obtain m e where "x = of_int m * 2 powi e" "m \<le> 2 ^ 53" "-1074 \<le> e"
    using fl64_shape[OF assms(2)] assms(1) by (auto simp: is_double_def)
  then show ?thesis using shape_le_fl64[of y m e] assms False by simp
qed (use assms in \<open>auto simp: fl64_def\<close>)

lemma fl64_le_double:
  assumes "is_double x" "0 \<le> y" "y \<le> x"
  shows "fl64 y \<le> x"
proof (cases "y = 0")
  case False
  obtain m e where "x = of_int m * 2 powi e" "m \<le> 2 ^ 53" "-1074 \<le> e"
    using fl64_shape[of x] assms by (auto simp: is_double_def)
  then show ?thesis using fl64_le_shape[of y m e] assms False by simp
qed (use assms in \<open>auto simp: fl64_def\<close>)

lemma is_double_fl64:
  assumes "0 \<le> x"
  shows "is_double (fl64 x)"
proof (cases "fl64 x = 0")
  case False
  then have pos: "0 < fl64 x" using fl64_nonneg[OF assms] by simp
  obtain m e where "fl64 x = of_int m * 2 powi e" "m \<le> 2 ^ 53" "-1074 \<le> e"
    using fl64_shape[OF assms] by auto
  then have "fl64 x \<le> fl64 (fl64 x)" "fl64 (fl64 x) \<le> fl64 x"
    using shape_le_fl64[OF pos, of m e] fl64_le_shape[OF pos, of m e] by simp_all
  then show ?thesis by (simp add: is_double_def)
qed (simp add: is_double_def fl64_def)

lemma is_double_0 [simp]: "is_double 0"
  by (simp add: is_double_def fl64_def)

lemma is_double_min: "is_double x \<Longrightarrow> is_double y \<Longrightarrow> is_double (min x y)"
  by (simp add: min_def)

lemma fl64_0 [simp]: "fl64 0 = 0"
  by (simp add: fl64_def)

end
