(* ===== verification/CircuitBreaker.thy ===== *)
theory CircuitBreaker
  imports Float64
begin

text \<open>
  \<^verbatim>\<open>sonder_runtime/domain/circuit_breaker.py\<close>: the breaker in front of an external service as a state
  machine over calls and their outcomes. Seconds are finite doubles, rounded after every operation by
  \<^term>\<open>fl64\<close>. The clock reading is an argument of every operation; the default that reads the system
  clock is the caller's.
\<close>

section \<open>States and operations\<close>

datatype breaker_state = CLOSED | OPEN | HALF_OPEN

record breaker_config =
  bc_failure_threshold :: int
  bc_window_seconds :: rat
  bc_recovery_seconds :: rat
  bc_max_recovery_seconds :: rat
  bc_recovery_multiplier :: rat
  bc_half_open_max_probes :: int

record breaker =
  br_state :: breaker_state
  br_failures :: "rat list"
  br_consecutive_failures :: nat
  br_success_count :: nat
  br_trip_count :: nat
  br_last_failure_ts :: "rat option"
  br_recovery_deadline :: "rat option"
  br_current_recovery :: rat
  br_half_open_probes :: int

record breaker_snapshot =
  bs_state :: breaker_state
  bs_failure_count :: nat
  bs_success_count :: nat
  bs_consecutive_failures :: nat
  bs_trip_count :: nat
  bs_last_failure_ts :: "rat option"
  bs_recovery_deadline :: "rat option"

definition default_breaker_config :: breaker_config where
  "default_breaker_config = \<lparr>bc_failure_threshold = 5, bc_window_seconds = 60, bc_recovery_seconds = 30,
     bc_max_recovery_seconds = 300, bc_recovery_multiplier = 2, bc_half_open_max_probes = 1\<rparr>"

definition new_breaker :: "breaker_config \<Rightarrow> breaker" where
  "new_breaker cfg = \<lparr>br_state = CLOSED, br_failures = [], br_consecutive_failures = 0, br_success_count = 0,
     br_trip_count = 0, br_last_failure_ts = None, br_recovery_deadline = None,
     br_current_recovery = bc_recovery_seconds cfg, br_half_open_probes = 0\<rparr>"

definition before_call :: "breaker_config \<Rightarrow> rat \<Rightarrow> breaker \<Rightarrow> breaker \<times> bool" where
  "before_call cfg ts b =
     (case br_state b of
        CLOSED \<Rightarrow> (b, True)
      | OPEN \<Rightarrow>
        (case br_recovery_deadline b of
           Some d \<Rightarrow> if d \<le> ts then (b\<lparr>br_state := HALF_OPEN, br_half_open_probes := 0\<rparr>, True) else (b, False)
         | None \<Rightarrow> (b, False))
      | HALF_OPEN \<Rightarrow> (b, br_half_open_probes b < bc_half_open_max_probes cfg))"

definition record_success :: "breaker_config \<Rightarrow> rat \<Rightarrow> breaker \<Rightarrow> breaker \<times> breaker_state" where
  "record_success cfg ts b0 =
     (let b = b0\<lparr>br_success_count := br_success_count b0 + 1\<rparr>;
          b' = (case br_state b of
             HALF_OPEN \<Rightarrow> b\<lparr>br_state := CLOSED, br_failures := [], br_consecutive_failures := 0,
               br_current_recovery := bc_recovery_seconds cfg, br_recovery_deadline := None, br_half_open_probes := 0\<rparr>
           | CLOSED \<Rightarrow> b\<lparr>br_consecutive_failures := 0\<rparr>
           | OPEN \<Rightarrow> b)
      in (b', br_state b'))"

definition trip :: "breaker_config \<Rightarrow> rat \<Rightarrow> breaker \<Rightarrow> breaker" where
  "trip cfg ts b = b\<lparr>br_state := OPEN, br_trip_count := br_trip_count b + 1,
     br_recovery_deadline := Some (fl64 (ts + br_current_recovery b)),
     br_current_recovery := min (fl64 (br_current_recovery b * bc_recovery_multiplier cfg)) (bc_max_recovery_seconds cfg)\<rparr>"

definition record_failure :: "breaker_config \<Rightarrow> rat \<Rightarrow> breaker \<Rightarrow> breaker \<times> breaker_state" where
  "record_failure cfg ts b0 =
     (let b = b0\<lparr>br_consecutive_failures := br_consecutive_failures b0 + 1, br_last_failure_ts := Some ts\<rparr>;
          b' = (case br_state b of
             HALF_OPEN \<Rightarrow> trip cfg ts (b\<lparr>br_half_open_probes := br_half_open_probes b + 1\<rparr>)
           | CLOSED \<Rightarrow>
             let cutoff = fl64 (ts - bc_window_seconds cfg);
                 fs = filter (\<lambda>t. cutoff < t) (br_failures b @ [ts]);
                 b1 = b\<lparr>br_failures := fs\<rparr>
             in if bc_failure_threshold cfg \<le> int (length fs) then trip cfg ts b1 else b1
           | OPEN \<Rightarrow> b)
      in (b', br_state b'))"

definition breaker_reset :: "breaker_config \<Rightarrow> breaker \<Rightarrow> breaker" where
  "breaker_reset cfg b = b\<lparr>br_state := CLOSED, br_failures := [], br_consecutive_failures := 0,
     br_recovery_deadline := None, br_current_recovery := bc_recovery_seconds cfg, br_half_open_probes := 0\<rparr>"

definition snapshot_breaker :: "breaker \<Rightarrow> breaker_snapshot" where
  "snapshot_breaker b = \<lparr>bs_state = br_state b, bs_failure_count = length (br_failures b),
     bs_success_count = br_success_count b, bs_consecutive_failures = br_consecutive_failures b,
     bs_trip_count = br_trip_count b, bs_last_failure_ts = br_last_failure_ts b,
     bs_recovery_deadline = br_recovery_deadline b\<rparr>"

section \<open>Runs\<close>

datatype breaker_event = Call rat | Success rat | Failure rat | Reset

inductive breaker_step :: "breaker_config \<Rightarrow> breaker \<Rightarrow> breaker_event \<Rightarrow> breaker \<Rightarrow> bool" for cfg where
  call: "breaker_step cfg b (Call ts) (fst (before_call cfg ts b))"
| success: "breaker_step cfg b (Success ts) (fst (record_success cfg ts b))"
| failure: "breaker_step cfg b (Failure ts) (fst (record_failure cfg ts b))"
| reset: "breaker_step cfg b Reset (breaker_reset cfg b)"

inductive_simps breaker_step_simps:
  "breaker_step cfg b (Call ts) c" "breaker_step cfg b (Success ts) c"
  "breaker_step cfg b (Failure ts) c" "breaker_step cfg b Reset c"

definition config_ok :: "breaker_config \<Rightarrow> bool" where
  "config_ok cfg = (1 \<le> bc_failure_threshold cfg \<and> 0 \<le> bc_recovery_seconds cfg
     \<and> bc_recovery_seconds cfg \<le> bc_max_recovery_seconds cfg \<and> 1 \<le> bc_recovery_multiplier cfg
     \<and> is_double (bc_recovery_seconds cfg) \<and> is_double (bc_max_recovery_seconds cfg))"

definition breaker_inv :: "breaker_config \<Rightarrow> breaker \<Rightarrow> bool" where
  "breaker_inv cfg b =
     (bc_recovery_seconds cfg \<le> br_current_recovery b \<and> br_current_recovery b \<le> bc_max_recovery_seconds cfg
      \<and> is_double (br_current_recovery b)
      \<and> (br_state b = CLOSED \<longrightarrow> br_recovery_deadline b = None \<and> int (length (br_failures b)) < bc_failure_threshold cfg
           \<and> br_current_recovery b = bc_recovery_seconds cfg)
      \<and> (br_state b \<noteq> CLOSED \<longrightarrow> br_recovery_deadline b \<noteq> None)
      \<and> (br_state b = HALF_OPEN \<longrightarrow> br_half_open_probes b = 0))"

lemma backoff_grows:
  assumes "config_ok cfg" "is_double x" "bc_recovery_seconds cfg \<le> x"
  shows "x \<le> fl64 (x * bc_recovery_multiplier cfg) \<and> is_double (fl64 (x * bc_recovery_multiplier cfg))"
proof -
  have "0 \<le> x" using assms by (auto simp: config_ok_def)
  moreover have "x \<le> x * bc_recovery_multiplier cfg"
    using assms(1) \<open>0 \<le> x\<close> mult_left_mono[of 1 "bc_recovery_multiplier cfg" x] by (simp add: config_ok_def)
  ultimately show ?thesis using double_le_fl64[OF assms(2)] is_double_fl64[of "x * bc_recovery_multiplier cfg"] by simp
qed

lemma trip_inv:
  assumes "config_ok cfg" "bc_recovery_seconds cfg \<le> br_current_recovery b"
    "br_current_recovery b \<le> bc_max_recovery_seconds cfg" "is_double (br_current_recovery b)"
  shows "breaker_inv cfg (trip cfg ts b)"
  using assms backoff_grows[OF assms(1,4,2)]
  by (auto simp: breaker_inv_def trip_def config_ok_def is_double_min)

lemma breaker_step_inv:
  assumes "breaker_step cfg b e c" "config_ok cfg" "breaker_inv cfg b"
  shows "breaker_inv cfg c"
  using assms(1)
proof (cases rule: breaker_step.cases)
  case (call ts)
  then show ?thesis using assms(3)
    by (cases "br_state b") (auto simp: before_call_def breaker_inv_def split: option.splits if_splits)
next
  case (success ts)
  then show ?thesis using assms(2,3)
    by (cases "br_state b") (auto simp: record_success_def breaker_inv_def config_ok_def)
next
  case (failure ts)
  show ?thesis
  proof (cases "br_state b")
    case OPEN
    then show ?thesis using failure assms(3) by (auto simp: record_failure_def breaker_inv_def)
  next
    case HALF_OPEN
    then have "c = trip cfg ts (b\<lparr>br_consecutive_failures := br_consecutive_failures b + 1,
        br_last_failure_ts := Some ts, br_half_open_probes := br_half_open_probes b + 1\<rparr>)"
      using failure by (simp add: record_failure_def Let_def)
    then show ?thesis using assms(3) by (simp add: trip_inv[OF assms(2)] breaker_inv_def[of cfg b])
  next
    case CLOSED
    define fs where "fs = filter (\<lambda>t. fl64 (ts - bc_window_seconds cfg) < t) (br_failures b @ [ts])"
    let ?b = "b\<lparr>br_consecutive_failures := br_consecutive_failures b + 1, br_last_failure_ts := Some ts, br_failures := fs\<rparr>"
    have c: "c = (if bc_failure_threshold cfg \<le> int (length fs) then trip cfg ts ?b else ?b)"
      using failure CLOSED by (simp add: record_failure_def Let_def fs_def)
    show ?thesis
    proof (cases "bc_failure_threshold cfg \<le> int (length fs)")
      case True
      then show ?thesis using c assms(3) by (simp add: trip_inv[OF assms(2)] breaker_inv_def[of cfg b])
    next
      case False
      then show ?thesis using c assms(3) CLOSED by (auto simp: breaker_inv_def)
    qed
  qed
next
  case reset
  then show ?thesis using assms(2) by (auto simp: breaker_reset_def breaker_inv_def config_ok_def)
qed

interpretation breaker_run: invariant_system "breaker_step cfg" "\<lambda>b. config_ok cfg \<and> breaker_inv cfg b" for cfg
  by unfold_locales (auto dest: breaker_step_inv)

lemma new_breaker_inv: "config_ok cfg \<Longrightarrow> breaker_inv cfg (new_breaker cfg)"
  by (simp add: config_ok_def breaker_inv_def new_breaker_def)

lemma reachable_inv:
  assumes "config_ok cfg" "run_of (breaker_step cfg) (new_breaker cfg) es b"
  shows "breaker_inv cfg b"
  using breaker_run.inv_run[OF assms(2)] assms(1) new_breaker_inv by blast

section \<open>Properties\<close>





text \<open>
  A half-open breaker does not limit its probes: in every half-open state a run reaches,
  each call is admitted and changes nothing, so that any number of calls pass before the outcome of
  the first is known, whatever positive probe limit is configured. The module's description
  promises a single probe call.
\<close>

theorem half_open_admits_every_call:
  assumes "config_ok cfg" "run_of (breaker_step cfg) (new_breaker cfg) es b"
    and "br_state b = HALF_OPEN" "1 \<le> bc_half_open_max_probes cfg"
  shows "run_of (breaker_step cfg) b (map Call tss) b \<and> (\<forall>ts\<in>set tss. before_call cfg ts b = (b, True))"
proof -
  have "before_call cfg ts b = (b, True)" for ts
    using reachable_inv[OF assms(1,2)] assms(3,4) by (simp add: breaker_inv_def before_call_def)
  then show ?thesis by (induction tss) (auto simp: run_of_Cons_iff run_of_Nil_iff breaker_step_simps)
qed

definition example_probing :: breaker where
  "example_probing = fst (before_call (default_breaker_config\<lparr>bc_failure_threshold := 1\<rparr>) 40
     (fst (record_failure (default_breaker_config\<lparr>bc_failure_threshold := 1\<rparr>) 1
       (new_breaker (default_breaker_config\<lparr>bc_failure_threshold := 1\<rparr>)))))"

theorem half_open_admits_every_call_witness:
  "br_state example_probing = HALF_OPEN
   \<and> before_call (default_breaker_config\<lparr>bc_failure_threshold := 1\<rparr>) 41 example_probing = (example_probing, True)
   \<and> before_call (default_breaker_config\<lparr>bc_failure_threshold := 1\<rparr>) 42 example_probing = (example_probing, True)"
proof -
  let ?cfg = "default_breaker_config\<lparr>bc_failure_threshold := 1\<rparr>"
  have cfg: "config_ok ?cfg" "1 \<le> bc_half_open_max_probes ?cfg" by code_simp+
  have run: "run_of (breaker_step ?cfg) (new_breaker ?cfg) [Failure 1, Call 40] example_probing"
    by (auto simp: run_of_Cons_iff run_of_Nil_iff breaker_step_simps example_probing_def)
  have half: "br_state example_probing = HALF_OPEN" by code_simp
  then show ?thesis using half_open_admits_every_call[OF cfg(1) run half cfg(2), of "[41, 42]"] by simp
qed

end
