(* ===== verification/TokenBucket.thy ===== *)
theory TokenBucket
  imports Float64
begin

text \<open>
  \<^verbatim>\<open>sonder_runtime/domain/token_bucket.py\<close>: the rate limiter. Amounts, rates and clock readings are
  finite doubles; every arithmetic operation of the source is followed by its rounding \<^term>\<open>fl64\<close>.
  With non-negative amounts only \<^verbatim>\<open>retry_after\<close> can overflow, since an overflowing refill is cut off at
  the capacity either way. The clock reading is an argument of every operation.
\<close>

section \<open>The bucket\<close>

record acquire_result =
  aq_allowed :: bool
  aq_tokens_remaining :: rat
  aq_retry_after :: rat

record token_bucket =
  tb_capacity :: rat
  tb_rate :: rat
  tb_tokens :: rat
  tb_last_refill :: "rat option"

definition new_bucket :: "rat \<Rightarrow> rat \<Rightarrow> rat option \<Rightarrow> token_bucket res" where
  "new_bucket capacity refill_rate initial =
     (if capacity \<le> 0 then Inl (ValueError ''capacity must be positive'')
      else if refill_rate \<le> 0 then Inl (ValueError ''refill_rate must be positive'')
      else Inr \<lparr>tb_capacity = fl64 capacity, tb_rate = fl64 refill_rate,
                tb_tokens = fl64 (case initial of None \<Rightarrow> capacity | Some x \<Rightarrow> x), tb_last_refill = None\<rparr>)"

definition refill :: "rat \<Rightarrow> token_bucket \<Rightarrow> token_bucket" where
  "refill now b =
     (case tb_last_refill b of
        None \<Rightarrow> b\<lparr>tb_last_refill := Some now\<rparr>
      | Some l \<Rightarrow>
          let elapsed = max 0 (fl64 (now - l))
          in b\<lparr>tb_tokens := min (tb_capacity b) (fl64 (tb_tokens b + fl64 (elapsed * tb_rate b))),
               tb_last_refill := Some now\<rparr>)"

definition round4 :: "rat \<Rightarrow> rat" where
  \<comment> \<open>\<^verbatim>\<open>round(x, 4)\<close>: the double next to the nearest multiple of 1/10000, ties to the even one\<close>
  "round4 x = fl64 (of_int (round_half_even (x * 10000)) / 10000)"

definition try_acquire :: "rat \<Rightarrow> rat \<Rightarrow> token_bucket \<Rightarrow> token_bucket \<times> acquire_result" where
  "try_acquire cost ts b0 =
     (let b = refill ts b0 in
      if cost \<le> tb_tokens b then
        let b' = b\<lparr>tb_tokens := fl64 (tb_tokens b - cost)\<rparr> in
        (b', \<lparr>aq_allowed = True, aq_tokens_remaining = tb_tokens b', aq_retry_after = 0\<rparr>)
      else
        let deficit = fl64 (cost - tb_tokens b); wait = fl64 (deficit / tb_rate b) in
        (b, \<lparr>aq_allowed = False, aq_tokens_remaining = tb_tokens b, aq_retry_after = round4 wait\<rparr>))"

definition acquire :: "rat \<Rightarrow> rat \<Rightarrow> token_bucket \<Rightarrow> token_bucket \<times> acquire_result res" where
  \<comment> \<open>a refusal raises, and leaves the refilled bucket behind\<close>
  "acquire cost ts b =
     (let (b', r) = try_acquire cost ts b in
      if \<not> aq_allowed r then (b', Inl (RateLimited (aq_retry_after r))) else (b', Inr r))"

section \<open>Serving a sequence of requests\<close>

fun serve :: "(rat \<times> rat) list \<Rightarrow> token_bucket \<Rightarrow> token_bucket \<times> rat" where
  \<comment> \<open>the requests are pairs of a clock reading and a cost; the result is the exact sum of what was granted\<close>
  "serve [] b = (b, 0)"
| "serve ((ts, cost) # es) b =
     (let (b', r) = try_acquire cost ts b; (b'', g) = serve es b'
      in (b'', (if aq_allowed r then cost else 0) + g))"

definition serving_since :: "token_bucket \<Rightarrow> (rat \<times> rat) list \<Rightarrow> rat" where
  \<comment> \<open>the last refill, or the first request of a bucket that was never refilled\<close>
  "serving_since b es = (case tb_last_refill b of Some l \<Rightarrow> l | None \<Rightarrow> (case es of [] \<Rightarrow> 0 | e # _ \<Rightarrow> fst e))"

definition bucket_ok :: "token_bucket \<Rightarrow> bool" where
  "bucket_ok b = (0 < tb_rate b \<and> is_double (tb_capacity b) \<and> is_double (tb_tokens b)
     \<and> 0 \<le> tb_tokens b \<and> tb_tokens b \<le> tb_capacity b)"

text \<open>What rounding adds to one request: a relative error for each operation and an underflow term.\<close>

definition grow :: rat where "grow = 1 + unit_roundoff"

definition underflow :: "rat \<Rightarrow> rat" where "underflow rate = half_subnormal * (grow ^ 3 * rate + grow ^ 2 + grow + 1)"

lemma grow_ge: "1 \<le> grow" "0 \<le> grow" "1 \<le> grow ^ n" "0 \<le> grow ^ n"
  by (simp_all add: grow_def one_le_power)

lemma fl64_grow: "0 \<le> x \<Longrightarrow> fl64 x \<le> grow * x + half_subnormal"
  using fl64_upper[of x] by (simp add: grow_def)

lemma fl64_grow_le: "0 \<le> x \<Longrightarrow> x \<le> y \<Longrightarrow> fl64 x \<le> grow * y + half_subnormal"
  using fl64_grow[of x] mult_left_mono[of x y grow] grow_ge(2) by simp

lemma refill_ok:
  assumes "bucket_ok b"
  shows "bucket_ok (refill ts b)" "tb_last_refill (refill ts b) = Some ts" "tb_rate (refill ts b) = tb_rate b"
    "tb_capacity (refill ts b) = tb_capacity b"
proof -
  have "0 \<le> max 0 (fl64 (ts - l)) * tb_rate b" for l using assms by (simp add: bucket_ok_def)
  then have "0 \<le> tb_tokens b + fl64 (max 0 (fl64 (ts - l)) * tb_rate b)" for l
    using assms fl64_nonneg by (simp add: bucket_ok_def)
  then show "bucket_ok (refill ts b)"
    using assms by (auto simp: refill_def bucket_ok_def Let_def is_double_min is_double_fl64 fl64_nonneg
        min_le_iff_disj split: option.split)
qed (auto simp: refill_def Let_def split: option.split)

lemma refill_amount:
  assumes "bucket_ok b" "tb_last_refill b = Some l" "l \<le> ts"
  shows "tb_tokens (refill ts b)
    \<le> grow * (tb_tokens b + grow * ((grow * (ts - l) + half_subnormal) * tb_rate b) + half_subnormal) + half_subnormal"
proof -
  let ?el = "fl64 (ts - l)"
  have r: "0 \<le> tb_rate b" "0 \<le> tb_tokens b" using assms(1) by (auto simp: bucket_ok_def)
  have el: "0 \<le> ?el" "?el \<le> grow * (ts - l) + half_subnormal"
    using assms(3) by (simp_all add: fl64_nonneg fl64_grow)
  have "fl64 (?el * tb_rate b) \<le> grow * (?el * tb_rate b) + half_subnormal"
    using el r by (intro fl64_grow) simp
  also have "\<dots> \<le> grow * ((grow * (ts - l) + half_subnormal) * tb_rate b) + half_subnormal"
    using el r grow_ge by (intro add_right_mono mult_left_mono mult_right_mono) auto
  finally have "tb_tokens b + fl64 (?el * tb_rate b)
      \<le> tb_tokens b + grow * ((grow * (ts - l) + half_subnormal) * tb_rate b) + half_subnormal"
    by simp
  moreover have "0 \<le> tb_tokens b + fl64 (?el * tb_rate b)" using r el fl64_nonneg by simp
  ultimately have "fl64 (tb_tokens b + fl64 (?el * tb_rate b))
      \<le> grow * (tb_tokens b + grow * ((grow * (ts - l) + half_subnormal) * tb_rate b) + half_subnormal) + half_subnormal"
    by (intro fl64_grow_le)
  then show ?thesis using assms(2) el by (simp add: refill_def Let_def)
qed

lemma try_acquire_ok:
  assumes "bucket_ok b" "0 \<le> cost" "try_acquire cost ts b = (b', r)"
  shows "bucket_ok b'" "tb_last_refill b' = Some ts" "tb_rate b' = tb_rate b" "tb_capacity b' = tb_capacity b"
    "(if aq_allowed r then cost else 0) + tb_tokens b' \<le> grow * tb_tokens (refill ts b) + half_subnormal"
proof -
  note ok = refill_ok[OF assms(1), of ts]
  let ?t = "tb_tokens (refill ts b)"
  have t: "0 \<le> ?t" "is_double ?t" "?t \<le> tb_capacity b" using ok by (auto simp: bucket_ok_def)
  have less: "fl64 (?t - cost) \<le> ?t" "0 \<le> fl64 (?t - cost)" "is_double (fl64 (?t - cost))" if "cost \<le> ?t"
    using that assms(2) t by (auto intro: fl64_le_double fl64_nonneg is_double_fl64)
  show "bucket_ok b'" "tb_last_refill b' = Some ts" "tb_rate b' = tb_rate b" "tb_capacity b' = tb_capacity b"
    using assms(3) ok less t by (auto simp: try_acquire_def Let_def bucket_ok_def split: if_splits)
  have "?t \<le> grow * ?t" using t grow_ge mult_right_mono[of 1 grow ?t] by simp
  moreover have "cost + fl64 (?t - cost) \<le> grow * ?t + half_subnormal" if "cost \<le> ?t"
    using fl64_grow[of "?t - cost"] that assms(2) mult_right_mono[of 1 grow cost] grow_ge
    by (simp add: right_diff_distrib)
  ultimately show "(if aq_allowed r then cost else 0) + tb_tokens b' \<le> grow * ?t + half_subnormal"
    using assms(3) by (auto simp: try_acquire_def Let_def split: if_splits intro: add_increasing2)
qed

lemma try_acquire_amount:
  assumes "bucket_ok b" "0 \<le> cost" "try_acquire cost ts b = (b', r)" "tb_last_refill b = Some l" "l \<le> ts"
  shows "(if aq_allowed r then cost else 0) + tb_tokens b'
    \<le> grow ^ 2 * (tb_tokens b + grow ^ 2 * (tb_rate b * (ts - l)) + underflow (tb_rate b))"
proof -
  let ?e = half_subnormal and ?r = "tb_rate b" and ?d = "ts - l" and ?t = "tb_tokens b"
  have r: "0 \<le> ?r" using assms(1) by (simp add: bucket_ok_def)
  have "(if aq_allowed r then cost else 0) + tb_tokens b'
      \<le> grow * (grow * (?t + grow * ((grow * ?d + ?e) * ?r) + ?e) + ?e) + ?e"
    using try_acquire_ok(5)[OF assms(1-3)] refill_amount[OF assms(1,4,5)] grow_ge(2)
    by (meson add_right_mono mult_left_mono order_trans)
  also have "\<dots> = grow ^ 2 * (?t + grow ^ 2 * (?r * ?d)) + underflow ?r"
    by (simp add: underflow_def algebra_simps power2_eq_square power3_eq_cube)
  also have "\<dots> \<le> grow ^ 2 * (?t + grow ^ 2 * (?r * ?d)) + grow ^ 2 * underflow ?r"
  proof -
    have "0 \<le> underflow ?r" using r grow_ge by (simp add: underflow_def)
    then show ?thesis using grow_ge(3)[of 2] mult_right_mono[of 1 "grow ^ 2" "underflow ?r"] by simp
  qed
  finally show ?thesis by (simp add: distrib_left)
qed

lemma serve_amount:
  assumes "bucket_ok b" "tb_last_refill b = Some l" "sorted (l # map fst es)" "\<forall>(_, cost)\<in>set es. 0 \<le> cost"
    and "serve es b = (b', g)"
  shows "bucket_ok b' \<and> tb_capacity b' = tb_capacity b
    \<and> g + tb_tokens b' \<le> grow ^ (2 * length es)
        * (tb_tokens b + grow ^ 2 * (tb_rate b * (last (l # map fst es) - l)) + of_nat (length es) * underflow (tb_rate b))"
  using assms
proof (induction es arbitrary: b l g)
  case (Cons e es)
  obtain ts cost where e: "e = (ts, cost)" by (cases e)
  obtain b1 r where acq: "try_acquire cost ts b = (b1, r)" by (cases "try_acquire cost ts b")
  obtain g1 where rest: "serve es b1 = (b', g1)" and g: "g = (if aq_allowed r then cost else 0) + g1"
    using Cons.prems(5) e acq by (auto split: prod.splits)
  have c: "0 \<le> cost" "l \<le> ts" "sorted (ts # map fst es)" "\<forall>(_, cost)\<in>set es. 0 \<le> cost"
    using Cons.prems(3,4) e by auto
  note ok = try_acquire_ok(1-4)[OF Cons.prems(1) c(1) acq]
  let ?c = "if aq_allowed r then cost else 0" and ?r = "tb_rate b" and ?U = "underflow (tb_rate b)"
  let ?w = "grow ^ (2 * length es)" and ?z = "last (ts # map fst es)"
  let ?R = "grow ^ 2 * (?r * (?z - ts)) + of_nat (length es) * ?U"
  have IH: "bucket_ok b'" "tb_capacity b' = tb_capacity b" "g1 + tb_tokens b' \<le> ?w * (tb_tokens b1 + ?R)"
    using Cons.IH[OF ok(1,2) c(3,4) rest] ok(3,4) by (simp_all add: add.assoc)
  have pos: "0 \<le> ?R" "0 \<le> ?c"
  proof -
    have "ts \<le> ?z" using c(3) by (cases "es = []") (auto simp: last_map)
    then show "0 \<le> ?R" using Cons.prems(1) grow_ge by (simp add: bucket_ok_def underflow_def)
  qed (use c in simp)
  have "g + tb_tokens b' \<le> ?c + ?w * (tb_tokens b1 + ?R)" using IH(3) g by simp
  also have "\<dots> \<le> ?w * (?c + tb_tokens b1) + ?w * ?R"
    using mult_right_mono[OF grow_ge(3)[of "2 * length es"] pos(2)] by (simp add: distrib_left)
  also have "\<dots> \<le> ?w * (grow ^ 2 * (tb_tokens b + grow ^ 2 * (?r * (ts - l)) + ?U)) + ?w * (grow ^ 2 * ?R)"
    using try_acquire_amount[OF Cons.prems(1) c(1) acq Cons.prems(2) c(2)] grow_ge(4)[of "2 * length es"]
      mult_right_mono[OF grow_ge(3)[of 2] pos(1)]
    by (intro add_mono mult_left_mono) auto
  also have "\<dots> = grow ^ (2 * length (e # es)) * (tb_tokens b
      + grow ^ 2 * (?r * (last (l # map fst (e # es)) - l)) + of_nat (length (e # es)) * ?U)"
    by (simp add: e power2_eq_square algebra_simps)
  finally show ?case using IH by simp
qed simp

lemma refill_first:
  assumes "bucket_ok b" "tb_last_refill b = None"
  shows "refill ts b = refill ts (b\<lparr>tb_last_refill := Some ts\<rparr>)"
  using assms by (simp add: refill_def bucket_ok_def is_double_def)

lemma serve_first:
  assumes "bucket_ok b" "tb_last_refill b = None"
  shows "serve ((ts, cost) # es) b = serve ((ts, cost) # es) (b\<lparr>tb_last_refill := Some ts\<rparr>)"
  by (simp add: try_acquire_def refill_first[OF assms])

lemma new_bucket_ok:
  assumes "new_bucket capacity rate None = Inr b" "is_double capacity" "is_double rate"
  shows "bucket_ok b"
  using assms by (auto simp: new_bucket_def bucket_ok_def is_double_def split: if_splits)

section \<open>Property\<close>

text \<open>
  (C29) The limiter limits, in floating-point arithmetic. Take any bucket with a positive rate that
  holds between zero and its capacity of tokens, both doubles (a new bucket is one), refilled before or
  not, and serve any sequence of requests of non-negative cost with a clock that does not go back.
  Afterwards the bucket still holds between zero and its capacity of tokens, and what was granted is at
  most the tokens it held, hence at most one burst, plus what the rate refills between the last refill
  (the first request of a new bucket) and the last reading. The bound carries the rounding of the
  operations: a factor of 1 + 2^-53 per rounding and an underflow term per request.
\<close>

theorem token_bucket_limits_rate:
  assumes "bucket_ok b" "sorted (serving_since b es # map fst es)" "\<forall>(_, cost)\<in>set es. 0 \<le> cost"
    and "serve es b = (b', g)"
  shows "0 \<le> tb_tokens b' \<and> tb_tokens b' \<le> tb_capacity b' \<and> tb_capacity b' = tb_capacity b
    \<and> tb_tokens b \<le> tb_capacity b
    \<and> g \<le> grow ^ (2 * length es)
        * (tb_tokens b + grow ^ 2 * (tb_rate b * (last (serving_since b es # map fst es) - serving_since b es))
           + of_nat (length es) * underflow (tb_rate b))"
proof -
  let ?c = "b\<lparr>tb_last_refill := Some (serving_since b es)\<rparr>"
  have ok: "bucket_ok ?c" using assms(1) by (simp add: bucket_ok_def)
  show ?thesis
  proof (cases es)
    case Nil
    then show ?thesis using assms(1,4) by (simp add: bucket_ok_def)
  next
    case (Cons e es')
    have "serve es b = serve es ?c"
    proof (cases "tb_last_refill b")
      case None
      then show ?thesis using serve_first[OF assms(1) None] Cons by (cases e) (simp add: serving_since_def)
    next
      case (Some l)
      then show ?thesis by (cases b) (simp add: serving_since_def)
    qed
    then have "serve es ?c = (b', g)" using assms(4) by simp
    from serve_amount[OF ok _ assms(2,3) this] show ?thesis using assms(1) by (auto simp: bucket_ok_def)
  qed
qed

definition example_bucket :: token_bucket where
  "example_bucket = \<lparr>tb_capacity = 2, tb_rate = 1, tb_tokens = 2, tb_last_refill = None\<rparr>"

theorem token_bucket_limits_rate_witness:
  "\<exists>b' g. serve [(5, 1), (5, 1), (5, 1), (6, 1)] example_bucket = (b', g) \<and> g = 3 \<and> tb_tokens b' = 0
     \<and> g \<le> grow ^ 8 * (2 + grow ^ 2 * 1 + 4 * underflow 1)"
proof -
  obtain b' g where s: "serve [(5, 1), (5, 1), (5, 1), (6, 1)] example_bucket = (b', g)"
    by (cases "serve [(5, 1), (5, 1), (5, 1), (6, 1)] example_bucket")
  moreover have "serve [(5, 1), (5, 1), (5, 1), (6, 1)] example_bucket
      = (\<lparr>tb_capacity = 2, tb_rate = 1, tb_tokens = 0, tb_last_refill = Some 6\<rparr>, 3)"
    by code_simp
  moreover have "bucket_ok example_bucket" by code_simp
  ultimately show ?thesis
    using token_bucket_limits_rate[of example_bucket "[(5, 1), (5, 1), (5, 1), (6, 1)]" b' g]
    by (simp add: example_bucket_def serving_since_def)
qed

text \<open>
  The reported wait is no promise. A refused caller who comes back after exactly the deficit over the
  rate can be refused again, since the refill rounds down; and \<^verbatim>\<open>retry_after\<close>, rounded to four places,
  is zero for short waits.
\<close>

lemma deficit_wait_refused:
  "let b = \<lparr>tb_capacity = 1, tb_rate = 49, tb_tokens = 0, tb_last_refill = Some 0\<rparr>;
       (b1, r1) = try_acquire 1 0 b; (b2, r2) = try_acquire 1 (fl64 (1 / 49)) b1
   in \<not> aq_allowed r1 \<and> \<not> aq_allowed r2"
  by code_simp

lemma retry_after_zero:
  "let (b, r) = try_acquire 1 0 \<lparr>tb_capacity = 1, tb_rate = 100000, tb_tokens = 0, tb_last_refill = Some 0\<rparr>
   in \<not> aq_allowed r \<and> aq_retry_after r = 0"
  by code_simp

end
