(* ===== verification/HashRing.thy ===== *)
theory HashRing
  imports Prelude
begin

text \<open>
  \<^verbatim>\<open>sonder_runtime/domain/consistent_hash.py\<close>: the consistent-hashing ring with virtual nodes and the
  rendezvous alternative. The 32-bit MD5 prefix of a text is the parameter \<open>h\<close>, the 64-bit SHA-256
  score of a node for a key the parameter \<open>sc\<close>; what the ring needs of \<open>h\<close>, that virtual nodes of
  enrolled nodes do not collide, is the predicate \<open>collision_free\<close>.
\<close>

section \<open>The ring\<close>

record hash_ring =
  hr_replicas :: nat
  hr_ring :: "nat list"
  hr_ring_to_node :: "(nat, string) dict"
  hr_nodes :: "string list"

definition new_ring :: "int \<Rightarrow> hash_ring res" where
  "new_ring replicas =
     (if replicas < 1 then Inl (ValueError ''replicas must be at least 1'')
      else Inr \<lparr>hr_replicas = nat replicas, hr_ring = [], hr_ring_to_node = [], hr_nodes = []\<rparr>)"

definition vnode :: "string \<Rightarrow> nat \<Rightarrow> string" where
  "vnode node i = node @ '':'' @ dec_nat i"

definition ring_add_node :: "(string \<Rightarrow> nat) \<Rightarrow> string \<Rightarrow> hash_ring \<Rightarrow> hash_ring" where
  "ring_add_node h node r =
     (if node \<in> set (hr_nodes r) then r
      else foldl (\<lambda>r i. r\<lparr>hr_ring_to_node := AList.update (h (vnode node i)) node (hr_ring_to_node r),
                          hr_ring := insort (h (vnode node i)) (hr_ring r)\<rparr>)
             (r\<lparr>hr_nodes := node # hr_nodes r\<rparr>) [0..<hr_replicas r])"

definition ring_remove_node :: "(string \<Rightarrow> nat) \<Rightarrow> string \<Rightarrow> hash_ring \<Rightarrow> hash_ring" where
  "ring_remove_node h node r =
     (if node \<notin> set (hr_nodes r) then r
      else foldl (\<lambda>r i. r\<lparr>hr_ring_to_node := AList.delete (h (vnode node i)) (hr_ring_to_node r),
                          hr_ring := remove1 (h (vnode node i)) (hr_ring r)\<rparr>)
             (r\<lparr>hr_nodes := remove1 node (hr_nodes r)\<rparr>) [0..<hr_replicas r])"

definition bisect_right :: "nat list \<Rightarrow> nat \<Rightarrow> nat" where
  \<comment> \<open>on a sorted list: the index after the last element that is not greater\<close>
  "bisect_right xs x = length (takeWhile (\<lambda>y. y \<le> x) xs)"

definition node_at :: "hash_ring \<Rightarrow> nat \<Rightarrow> string res" where
  "node_at r i =
     (case map_of (hr_ring_to_node r) (hr_ring r ! i) of
        None \<Rightarrow> Inl (KeyError (dec_nat (hr_ring r ! i)))
      | Some n \<Rightarrow> Inr n)"

definition ring_get_node :: "(string \<Rightarrow> nat) \<Rightarrow> string \<Rightarrow> hash_ring \<Rightarrow> string option res" where
  "ring_get_node h key r =
     (if hr_ring r = [] then Inr None
      else
        let idx = bisect_right (hr_ring r) (h key);
            idx = (if length (hr_ring r) \<le> idx then 0 else idx)
        in rbind (node_at r idx) (\<lambda>n. Inr (Some n)))"

fun collect_nodes :: "hash_ring \<Rightarrow> int \<Rightarrow> nat \<Rightarrow> nat \<Rightarrow> string list \<Rightarrow> string list res" where
  \<comment> \<open>the first argument counts the remaining iterations of the loop; \<open>seen\<close> holds the nodes of the result\<close>
  "collect_nodes r count 0 idx found = Inr found"
| "collect_nodes r count (Suc k) idx found =
     (let i = (if length (hr_ring r) \<le> idx then 0 else idx) in
      rbind (node_at r i) (\<lambda>n.
        if n \<notin> set found then
          (if count \<le> int (length (found @ [n])) then Inr (found @ [n])
           else collect_nodes r count k (i + 1) (found @ [n]))
        else collect_nodes r count k (i + 1) found))"

definition ring_get_nodes :: "(string \<Rightarrow> nat) \<Rightarrow> string \<Rightarrow> int \<Rightarrow> hash_ring \<Rightarrow> string list res" where
  "ring_get_nodes h key count r =
     (if hr_ring r = [] \<or> count < 1 then Inr []
      else collect_nodes r count (length (hr_ring r)) (bisect_right (hr_ring r) (h key)) [])"

section \<open>Rendezvous hashing\<close>

type_synonym rendezvous = "(string, rat) dict"

definition rv_add_node :: "string \<Rightarrow> rat \<Rightarrow> rendezvous \<Rightarrow> rendezvous res" where
  "rv_add_node node weight d =
     (if weight \<le> 0 then Inl (ValueError ''weight must be positive'') else Inr (AList.update node weight d))"

definition rv_remove_node :: "string \<Rightarrow> rendezvous \<Rightarrow> rendezvous" where
  "rv_remove_node node d = AList.delete node d"

definition rv_key :: "(string \<Rightarrow> string \<Rightarrow> nat) \<Rightarrow> string \<Rightarrow> (string \<times> rat) \<Rightarrow> rat" where
  "rv_key sc key e = of_nat (sc (fst e) key) * snd e"

definition rv_get_node :: "(string \<Rightarrow> string \<Rightarrow> nat) \<Rightarrow> string \<Rightarrow> rendezvous \<Rightarrow> string option" where
  "rv_get_node sc key d = (case d of [] \<Rightarrow> None | e # es \<Rightarrow> Some (fst (first_max (rv_key sc key) e es)))"

definition rv_get_nodes :: "(string \<Rightarrow> string \<Rightarrow> nat) \<Rightarrow> string \<Rightarrow> int \<Rightarrow> rendezvous \<Rightarrow> string list" where
  "rv_get_nodes sc key count d =
     (if d = [] \<or> count < 1 then [] else take (nat count) (map fst (sorted_rev_key (rv_key sc key) d)))"

section \<open>Positions and the invariant\<close>

definition positions :: "(string \<Rightarrow> nat) \<Rightarrow> nat \<Rightarrow> string \<Rightarrow> nat set" where
  "positions h reps node = (\<lambda>i. h (vnode node i)) ` {0..<reps}"

definition collision_free :: "(string \<Rightarrow> nat) \<Rightarrow> nat \<Rightarrow> string set \<Rightarrow> bool" where
  "collision_free h reps N = inj_on (\<lambda>(n, i). h (vnode n i)) (N \<times> {0..<reps})"

definition ring_inv :: "(string \<Rightarrow> nat) \<Rightarrow> hash_ring \<Rightarrow> bool" where
  "ring_inv h r = (distinct (hr_nodes r) \<and> sorted (hr_ring r) \<and> distinct (hr_ring r)
     \<and> set (hr_ring r) = (\<Union>n\<in>set (hr_nodes r). positions h (hr_replicas r) n)
     \<and> (\<forall>n\<in>set (hr_nodes r). \<forall>x\<in>positions h (hr_replicas r) n. map_of (hr_ring_to_node r) x = Some n))"

lemma collision_free_disjoint:
  assumes "collision_free h reps N" "n \<in> N" "m \<in> N" "n \<noteq> m"
  shows "positions h reps n \<inter> positions h reps m = {}"
proof (rule ccontr)
  assume "positions h reps n \<inter> positions h reps m \<noteq> {}"
  then obtain i j where "h (vnode n i) = h (vnode m j)" "i < reps" "j < reps" by (auto simp: positions_def)
  then have "(n, i) = (m, j)"
    using assms(1-3) by (intro inj_onD[OF assms(1)[unfolded collision_free_def]]) auto
  then show False using assms(4) by simp
qed

lemma collision_free_inj:
  assumes "collision_free h reps N" "n \<in> N"
  shows "distinct (map (\<lambda>i. h (vnode n i)) [0..<reps])"
  using assms by (fastforce simp: collision_free_def inj_on_def distinct_map)

lemma add_fold:
  "foldl (\<lambda>r i. r\<lparr>hr_ring_to_node := AList.update (f i) node (hr_ring_to_node r), hr_ring := insort (f i) (hr_ring r)\<rparr>) r is
   = r\<lparr>hr_ring_to_node := foldl (\<lambda>d i. AList.update (f i) node d) (hr_ring_to_node r) is,
       hr_ring := foldl (\<lambda>ring i. insort (f i) ring) (hr_ring r) is\<rparr>"
  by (induction "is" rule: rev_induct) simp_all

lemma remove_fold:
  "foldl (\<lambda>r i. r\<lparr>hr_ring_to_node := AList.delete (f i) (hr_ring_to_node r), hr_ring := remove1 (f i) (hr_ring r)\<rparr>) r is
   = r\<lparr>hr_ring_to_node := foldl (\<lambda>d i. AList.delete (f i) d) (hr_ring_to_node r) is,
       hr_ring := foldl (\<lambda>ring i. remove1 (f i) ring) (hr_ring r) is\<rparr>"
  by (induction "is" rule: rev_induct) simp_all

lemma update_fold: "map_of (foldl (\<lambda>d i. AList.update (f i) node d) d is) x
    = (if x \<in> f ` set is then Some node else map_of d x)"
  by (induction "is" rule: rev_induct) (auto simp: dict_simps)

lemma delete_fold: "map_of (foldl (\<lambda>d i. AList.delete (f i) d) d is) x
    = (if x \<in> f ` set is then None else map_of d x)"
  by (induction "is" rule: rev_induct) (auto simp: dict_simps)

lemma insort_fold:
  assumes "sorted ring" "distinct ring" "distinct (map f is)" "f ` set is \<inter> set ring = {}"
  shows "sorted (foldl (\<lambda>ring i. insort (f i) ring) ring is) \<and> distinct (foldl (\<lambda>ring i. insort (f i) ring) ring is)
    \<and> set (foldl (\<lambda>ring i. insort (f i) ring) ring is) = set ring \<union> f ` set is"
  using assms by (induction "is" rule: rev_induct) (auto simp: sorted_insort set_insort_key distinct_insort)

lemma remove1_fold:
  assumes "sorted ring" "distinct ring"
  shows "sorted (foldl (\<lambda>ring i. remove1 (f i) ring) ring is) \<and> distinct (foldl (\<lambda>ring i. remove1 (f i) ring) ring is)
    \<and> set (foldl (\<lambda>ring i. remove1 (f i) ring) ring is) = set ring - f ` set is"
  using assms by (induction "is" rule: rev_induct) (auto simp: sorted_remove1)


lemma ring_add_unfold:
  assumes "node \<notin> set (hr_nodes r)"
  shows "ring_add_node h node r = r\<lparr>hr_nodes := node # hr_nodes r,
    hr_ring_to_node := foldl (\<lambda>d i. AList.update (h (vnode node i)) node d) (hr_ring_to_node r) [0..<hr_replicas r],
    hr_ring := foldl (\<lambda>ring i. insort (h (vnode node i)) ring) (hr_ring r) [0..<hr_replicas r]\<rparr>"
  using assms by (simp add: ring_add_node_def add_fold)

lemma ring_remove_unfold:
  assumes "node \<in> set (hr_nodes r)"
  shows "ring_remove_node h node r = r\<lparr>hr_nodes := remove1 node (hr_nodes r),
    hr_ring_to_node := foldl (\<lambda>d i. AList.delete (h (vnode node i)) d) (hr_ring_to_node r) [0..<hr_replicas r],
    hr_ring := foldl (\<lambda>ring i. remove1 (h (vnode node i)) ring) (hr_ring r) [0..<hr_replicas r]\<rparr>"
  using assms by (simp add: ring_remove_node_def remove_fold)

lemma ring_add_facts:
  assumes inv: "ring_inv h r" and cf: "collision_free h (hr_replicas r) (insert node (set (hr_nodes r)))"
  shows "ring_inv h (ring_add_node h node r)"
    "set (hr_ring (ring_add_node h node r)) = set (hr_ring r) \<union> positions h (hr_replicas r) node"
proof -
  have "ring_inv h (ring_add_node h node r) \<and>
    set (hr_ring (ring_add_node h node r)) = set (hr_ring r) \<union> positions h (hr_replicas r) node"
  proof (cases "node \<in> set (hr_nodes r)")
    case True
    then show ?thesis using inv by (auto simp: ring_add_node_def ring_inv_def)
  next
    case False
    let ?f = "\<lambda>i. h (vnode node i)" and ?is = "[0..<hr_replicas r]"
    have pos: "?f ` set ?is = positions h (hr_replicas r) node" by (simp add: positions_def)
    have other: "positions h (hr_replicas r) node \<inter> positions h (hr_replicas r) n = {}" if "n \<in> set (hr_nodes r)" for n
      using collision_free_disjoint[OF cf, of node n] that False by auto
    then have "?f ` set ?is \<inter> set (hr_ring r) = {}"
      using inv unfolding pos by (auto simp: ring_inv_def)
    then have ring: "sorted (foldl (\<lambda>ring i. insort (?f i) ring) (hr_ring r) ?is)"
      "distinct (foldl (\<lambda>ring i. insort (?f i) ring) (hr_ring r) ?is)"
      "set (foldl (\<lambda>ring i. insort (?f i) ring) (hr_ring r) ?is) = set (hr_ring r) \<union> positions h (hr_replicas r) node"
      using insort_fold[of "hr_ring r" ?f ?is] inv collision_free_inj[OF cf, of node] pos by (simp_all add: ring_inv_def)
    have map: "map_of (foldl (\<lambda>d i. AList.update (?f i) node d) (hr_ring_to_node r) ?is) x
      = (if x \<in> positions h (hr_replicas r) node then Some node else map_of (hr_ring_to_node r) x)" for x
      using update_fold[of ?f node "hr_ring_to_node r" ?is x] unfolding pos .
    show ?thesis
      using inv other ring unfolding ring_add_unfold[OF False] ring_inv_def
      by (auto simp: map False domIff split: if_splits)
  qed
  then show "ring_inv h (ring_add_node h node r)"
    "set (hr_ring (ring_add_node h node r)) = set (hr_ring r) \<union> positions h (hr_replicas r) node" by blast+
qed

lemma ring_remove_facts:
  assumes inv: "ring_inv h r" and cf: "collision_free h (hr_replicas r) (set (hr_nodes r))" and mem: "node \<in> set (hr_nodes r)"
  shows "ring_inv h (ring_remove_node h node r)"
    "set (hr_ring (ring_remove_node h node r)) = set (hr_ring r) - positions h (hr_replicas r) node"
proof -
  let ?f = "\<lambda>i. h (vnode node i)" and ?is = "[0..<hr_replicas r]"
  have pos: "?f ` set ?is = positions h (hr_replicas r) node" by (simp add: positions_def)
  have other: "positions h (hr_replicas r) node \<inter> positions h (hr_replicas r) n = {}" if "n \<in> set (hr_nodes r)" "n \<noteq> node" for n
    using collision_free_disjoint[OF cf mem] that by auto
  have ring: "sorted (foldl (\<lambda>ring i. remove1 (?f i) ring) (hr_ring r) ?is)"
    "distinct (foldl (\<lambda>ring i. remove1 (?f i) ring) (hr_ring r) ?is)"
    "set (foldl (\<lambda>ring i. remove1 (?f i) ring) (hr_ring r) ?is) = set (hr_ring r) - positions h (hr_replicas r) node"
    using remove1_fold[of "hr_ring r" ?f ?is] inv pos by (simp_all add: ring_inv_def)
  have map: "map_of (foldl (\<lambda>d i. AList.delete (?f i) d) (hr_ring_to_node r) ?is) x
    = (if x \<in> positions h (hr_replicas r) node then None else map_of (hr_ring_to_node r) x)" for x
    using delete_fold[of ?f "hr_ring_to_node r" ?is x] unfolding pos .
  have nodes: "set (remove1 node (hr_nodes r)) = set (hr_nodes r) - {node}"
    using inv by (simp add: ring_inv_def)
  have sets: "set (hr_ring r) - positions h (hr_replicas r) node
      = (\<Union>n\<in>set (hr_nodes r) - {node}. positions h (hr_replicas r) n)"
    using inv other by (auto simp: ring_inv_def)
  have keep: "x \<notin> positions h (hr_replicas r) node" if "n \<in> set (hr_nodes r) - {node}" "x \<in> positions h (hr_replicas r) n" for n x
    using other that by blast
  show "ring_inv h (ring_remove_node h node r)"
    unfolding ring_remove_unfold[OF mem] ring_inv_def
    using inv ring sets keep by (auto simp: map nodes domIff ring_inv_def split: if_splits)
  show "set (hr_ring (ring_remove_node h node r)) = set (hr_ring r) - positions h (hr_replicas r) node"
    using ring by (simp add: ring_remove_unfold[OF mem])
qed


section \<open>Clockwise successors\<close>

definition is_succ :: "nat set \<Rightarrow> nat \<Rightarrow> nat \<Rightarrow> bool" where
  \<comment> \<open>\<open>x\<close> is the least position above \<open>k\<close>, or the least of all when none is above\<close>
  "is_succ S k x = (x \<in> S \<and> (if \<exists>y\<in>S. k < y then k < x \<and> (\<forall>y\<in>S. k < y \<longrightarrow> x \<le> y) else \<forall>y\<in>S. x \<le> y))"

lemma is_succ_unique: "is_succ S k x \<Longrightarrow> is_succ S k y \<Longrightarrow> x = y"
  unfolding is_succ_def by (auto split: if_splits intro: antisym)

lemma is_succ_subset: "is_succ S k x \<Longrightarrow> T \<subseteq> S \<Longrightarrow> x \<in> T \<Longrightarrow> is_succ T k x"
  unfolding is_succ_def by (auto split: if_splits)

definition ring_index :: "hash_ring \<Rightarrow> nat \<Rightarrow> nat" where
  "ring_index r k = (let idx = bisect_right (hr_ring r) k in if length (hr_ring r) \<le> idx then 0 else idx)"

lemma ring_index_succ:
  assumes "sorted (hr_ring r)" "hr_ring r \<noteq> []"
  shows "is_succ (set (hr_ring r)) k (hr_ring r ! ring_index r k)" "ring_index r k < length (hr_ring r)"
proof -
  let ?xs = "hr_ring r" and ?P = "\<lambda>y. y \<le> k"
  let ?n = "length (takeWhile ?P ?xs)"
  have "is_succ (set ?xs) k (?xs ! ring_index r k) \<and> ring_index r k < length ?xs"
  proof (cases "?n < length ?xs")
    case True
    have above: "k < ?xs ! ?n" using nth_length_takeWhile[OF True] by simp
    have "?xs ! ?n \<le> y" if y: "y \<in> set ?xs" "k < y" for y
    proof -
      obtain j where j: "j < length ?xs" "?xs ! j = y" using y(1) by (auto simp: in_set_conv_nth)
      have "\<not> j < ?n"
      proof
        assume "j < ?n"
        then have "takeWhile ?P ?xs ! j \<in> set (takeWhile ?P ?xs)" by simp
        then show False using set_takeWhileD[of _ ?P ?xs] j(2) y(2) takeWhile_nth[OF \<open>j < ?n\<close>] by fastforce
      qed
      then show ?thesis using sorted_nth_mono[OF assms(1), of ?n j] j by simp
    qed
    moreover have "ring_index r k = ?n" using True by (simp add: ring_index_def bisect_right_def)
    ultimately show ?thesis using above True nth_mem[OF True] by (auto simp: is_succ_def)
  next
    case False
    then have "takeWhile ?P ?xs = ?xs" using length_takeWhile_le[of ?P ?xs] by (metis le_antisym not_less takeWhile_eq_take take_all)
    then have "\<forall>y\<in>set ?xs. y \<le> k" by (metis takeWhile_eq_all_conv)
    moreover have "\<forall>y\<in>set ?xs. ?xs ! 0 \<le> y" using assms by (cases ?xs) auto
    moreover have "ring_index r k = 0" using False by (simp add: ring_index_def bisect_right_def Let_def)
    ultimately show ?thesis using assms(2) by (fastforce simp: is_succ_def)
  qed
  then show "is_succ (set (hr_ring r)) k (hr_ring r ! ring_index r k)" "ring_index r k < length (hr_ring r)" by blast+
qed

lemma ring_get_node_iff:
  assumes inv: "ring_inv h r"
  shows "ring_get_node h key r = Inr (Some n) \<longleftrightarrow>
    n \<in> set (hr_nodes r) \<and> (\<exists>x\<in>positions h (hr_replicas r) n. is_succ (set (hr_ring r)) (h key) x)" (is "?L \<longleftrightarrow> ?R")
proof (cases "hr_ring r = []")
  case True
  then show ?thesis by (simp add: ring_get_node_def is_succ_def)
next
  case False
  let ?x = "hr_ring r ! ring_index r (h key)"
  have sorted: "sorted (hr_ring r)" using inv by (simp add: ring_inv_def)
  have succ: "is_succ (set (hr_ring r)) (h key) ?x" by (rule ring_index_succ(1)[OF sorted False])
  have mem: "?x \<in> set (hr_ring r)" by (rule nth_mem[OF ring_index_succ(2)[OF sorted False]])
  have get: "ring_get_node h key r = rbind (node_at r (ring_index r (h key))) (\<lambda>n. Inr (Some n))"
    using False by (simp add: ring_get_node_def ring_index_def Let_def)
  obtain m where m: "m \<in> set (hr_nodes r)" "?x \<in> positions h (hr_replicas r) m"
    using mem inv by (auto simp: ring_inv_def)
  have look: "map_of (hr_ring_to_node r) y = Some v" if "v \<in> set (hr_nodes r)" "y \<in> positions h (hr_replicas r) v" for v y
    using inv that by (simp add: ring_inv_def)
  have "?L \<longleftrightarrow> m = n" using look[OF m] by (simp add: get node_at_def)
  also have "\<dots> \<longleftrightarrow> ?R" using m succ is_succ_unique[OF succ] look by (metis option.inject)
  finally show ?thesis .
qed

lemma ring_get_node_total:
  assumes "ring_inv h r" "0 < hr_replicas r" "hr_nodes r \<noteq> []"
  shows "\<exists>n. ring_get_node h key r = Inr (Some n)"
proof -
  have ne: "hr_ring r \<noteq> []"
  proof
    assume "hr_ring r = []"
    then have "positions h (hr_replicas r) (hd (hr_nodes r)) = {}"
      using assms(1,3) unfolding ring_inv_def by (metis SUP_bot_conv(1) empty_set hd_in_set)
    then show False using assms(2) by (simp add: positions_def)
  qed
  have s: "sorted (hr_ring r)" using assms(1) by (simp add: ring_inv_def)
  have "hr_ring r ! ring_index r (h key) \<in> set (hr_ring r)" using ring_index_succ(2)[OF s ne] by simp
  then show ?thesis
    using ring_index_succ(1)[OF s ne, of "h key"] ring_get_node_iff[OF assms(1), of key] assms(1)
    by (auto simp: ring_inv_def)
qed


section \<open>Histories\<close>

datatype ring_op = AddNode string | RemoveNode string

fun op_node :: "ring_op \<Rightarrow> string" where
  "op_node (AddNode n) = n"
| "op_node (RemoveNode n) = n"

fun apply_op :: "(string \<Rightarrow> nat) \<Rightarrow> hash_ring \<Rightarrow> ring_op \<Rightarrow> hash_ring" where
  "apply_op h r (AddNode n) = ring_add_node h n r"
| "apply_op h r (RemoveNode n) = ring_remove_node h n r"

lemma collision_free_mono: "collision_free h reps N \<Longrightarrow> M \<subseteq> N \<Longrightarrow> collision_free h reps M"
  unfolding collision_free_def by (erule inj_on_subset) auto

lemma apply_op_nodes:
  "hr_replicas (apply_op h r op) = hr_replicas r" "set (hr_nodes (apply_op h r op)) \<subseteq> insert (op_node op) (set (hr_nodes r))"
  by (cases op; auto simp: ring_add_node_def ring_remove_node_def add_fold remove_fold dest: notin_set_remove1
      set_mp[OF set_remove1_subset])+

lemma history_inv:
  assumes "new_ring k = Inr r0" "collision_free h (nat k) N" "op_node ` set ops \<subseteq> N"
  shows "ring_inv h (foldl (apply_op h) r0 ops) \<and> hr_replicas (foldl (apply_op h) r0 ops) = nat k
    \<and> set (hr_nodes (foldl (apply_op h) r0 ops)) \<subseteq> N \<and> 0 < nat k"
  using assms(3)
proof (induction ops rule: rev_induct)
  case Nil
  then show ?case using assms(1) by (auto simp: new_ring_def ring_inv_def split: if_splits)
next
  case (snoc op ops)
  let ?r = "foldl (apply_op h) r0 ops"
  have IH: "ring_inv h ?r" "hr_replicas ?r = nat k" "set (hr_nodes ?r) \<subseteq> N" "0 < nat k" "op_node op \<in> N"
    using snoc by auto
  have cf: "collision_free h (hr_replicas ?r) (insert (op_node op) (set (hr_nodes ?r)))"
    using collision_free_mono[OF assms(2)] IH by simp
  have "ring_inv h (apply_op h ?r op)"
  proof (cases op)
    case (AddNode n)
    then show ?thesis using ring_add_facts(1)[OF IH(1), of n] cf by simp
  next
    case (RemoveNode n)
    show ?thesis
    proof (cases "n \<in> set (hr_nodes ?r)")
      case True
      then show ?thesis using ring_remove_facts(1)[OF IH(1) _ True] collision_free_mono[OF cf] RemoveNode by auto
    qed (use RemoveNode IH in \<open>simp add: ring_remove_node_def\<close>)
  qed
  then show ?case using IH apply_op_nodes[of h ?r op] by auto
qed

section \<open>Properties\<close>

text \<open>
  Consistent hashing is consistent, as long as the virtual nodes do not collide. After any
  history of joins and departures every key has an enrolled node while there is one; taking out
  another node leaves the key's node, and adding a node leaves it or moves the key to the node that
  joined.
\<close>

theorem ring_minimal_disruption:
  assumes "new_ring k = Inr r0" "collision_free h (nat k) N" "op_node ` set ops \<subseteq> N" "m \<in> N"
    and "r = foldl (apply_op h) r0 ops" "hr_nodes r \<noteq> []"
  shows "\<exists>n. ring_get_node h key r = Inr (Some n) \<and> n \<in> set (hr_nodes r)
    \<and> (m \<noteq> n \<longrightarrow> ring_get_node h key (ring_remove_node h m r) = Inr (Some n))
    \<and> ring_get_node h key (ring_add_node h m r) \<in> {Inr (Some n), Inr (Some m)}"
proof -
  have inv: "ring_inv h r" "hr_replicas r = nat k" "set (hr_nodes r) \<subseteq> N" "0 < nat k"
    using history_inv[OF assms(1-3)] assms(5) by auto
  obtain n where n: "ring_get_node h key r = Inr (Some n)"
    using ring_get_node_total[OF inv(1) _ assms(6), of key] inv(2,4) by auto
  then obtain x where x: "n \<in> set (hr_nodes r)" "x \<in> positions h (nat k) n" "is_succ (set (hr_ring r)) (h key) x"
    using ring_get_node_iff[OF inv(1)] inv(2) by auto
  have cf: "collision_free h (hr_replicas r) (insert m (set (hr_nodes r)))"
    using collision_free_mono[OF assms(2)] assms(4) inv(2,3) by simp
  have "ring_get_node h key (ring_remove_node h m r) = Inr (Some n)" if "m \<noteq> n"
  proof (cases "m \<in> set (hr_nodes r)")
    case True
    have cf': "collision_free h (hr_replicas r) (set (hr_nodes r))" using collision_free_mono[OF cf] by auto
    note rem = ring_remove_facts[OF inv(1) cf' True]
    have "x \<notin> positions h (nat k) m"
      using collision_free_disjoint[OF cf' True x(1) that] x(2) inv(2) by auto
    moreover have "x \<in> set (hr_ring r)" using x(3) by (simp add: is_succ_def)
    ultimately have "is_succ (set (hr_ring (ring_remove_node h m r))) (h key) x"
      unfolding rem(2) inv(2) by (intro is_succ_subset[OF x(3)]) simp_all
    moreover have "n \<in> set (hr_nodes (ring_remove_node h m r))" "hr_replicas (ring_remove_node h m r) = nat k"
      using x(1) that True inv(2) by (simp_all add: ring_remove_unfold in_set_remove1)
    ultimately show ?thesis using ring_get_node_iff[OF rem(1), of key n] x(2) by auto
  qed (use n in \<open>simp add: ring_remove_node_def\<close>)
  moreover have "ring_get_node h key (ring_add_node h m r) \<in> {Inr (Some n), Inr (Some m)}"
  proof -
    note add = ring_add_facts[OF inv(1) cf]
    have nodes: "set (hr_nodes (ring_add_node h m r)) = insert m (set (hr_nodes r))"
      "hr_replicas (ring_add_node h m r) = nat k"
      using inv(2) by (auto simp: ring_add_node_def add_fold)
    then have "hr_nodes (ring_add_node h m r) \<noteq> []" by auto
    then obtain p where p: "ring_get_node h key (ring_add_node h m r) = Inr (Some p)"
      using ring_get_node_total[OF add(1), of key] nodes(2) inv(4) by auto
    then obtain y where y: "y \<in> positions h (nat k) p" "is_succ (set (hr_ring (ring_add_node h m r))) (h key) y"
      "p \<in> insert m (set (hr_nodes r))"
      using ring_get_node_iff[OF add(1), of key p] nodes by auto
    have "p = n" if "p \<noteq> m"
    proof -
      have "p \<in> set (hr_nodes r)" using y(3) that by simp
      then have "y \<in> set (hr_ring r)" using y(1) inv(1,2) by (auto simp: ring_inv_def)
      then have "is_succ (set (hr_ring r)) (h key) y" using is_succ_subset[OF y(2)] add(2) by auto
      then have "ring_get_node h key r = Inr (Some p)"
        using ring_get_node_iff[OF inv(1), of key p] \<open>p \<in> set (hr_nodes r)\<close> y(1) inv(2) by auto
      then show ?thesis using n by simp
    qed
    then show ?thesis using p by auto
  qed
  ultimately show ?thesis using n x(1) by blast
qed


definition example_hash :: "string \<Rightarrow> nat" where
  "example_hash s = (if hd s = CHR ''a'' then 0 else 2) + (if last s = CHR ''0'' then 0 else 1)"

lemma dec_digits: "dec_nat 0 = ''0''" "dec_nat (Suc 0) = ''1''"
  by code_simp+

theorem ring_minimal_disruption_witness:
  "\<exists>n. ring_get_node example_hash ''key'' (foldl (apply_op example_hash)
      \<lparr>hr_replicas = 2, hr_ring = [], hr_ring_to_node = [], hr_nodes = []\<rparr> [AddNode ''a'', AddNode ''b'']) = Inr (Some n)"
proof -
  let ?r0 = "\<lparr>hr_replicas = 2, hr_ring = [], hr_ring_to_node = [], hr_nodes = []\<rparr> :: hash_ring"
  have new: "new_ring 2 = Inr ?r0" by (simp add: new_ring_def)
  have free: "collision_free example_hash (nat 2) {''a'', ''b''}"
  proof -
    have "{''a'', ''b''} \<times> {0..<nat 2} = set [(''a'', 0), (''a'', 1), (''b'', 0), (''b'', 1)]"
      by (auto simp: numeral_2_eq_2 less_Suc_eq)
    moreover have "distinct (map (\<lambda>(n, i). example_hash (vnode n i)) [(''a'', 0), (''a'', 1), (''b'', 0), (''b'', 1)])"
      by (simp add: example_hash_def vnode_def dec_digits)
    ultimately show ?thesis unfolding collision_free_def by (simp only: distinct_map)
  qed
  have ne: "hr_nodes (foldl (apply_op example_hash) ?r0 [AddNode ''a'', AddNode ''b'']) \<noteq> []"
    by (simp add: ring_add_node_def add_fold)
  have ops: "op_node ` set [AddNode ''a'', AddNode ''b''] \<subseteq> {''a'', ''b''}" by simp
  show ?thesis
    using ring_minimal_disruption[OF new free ops insertI1 refl ne, of "''key''"] by blast
qed

text \<open>
  A collision of virtual nodes breaks the ring: with one replica per node, when the virtual
  nodes of two nodes hash to the same position, both joining and the first leaving again makes the
  lookup of every key fail with a key error although the second node is still enrolled.
\<close>

theorem ring_collision_breaks_lookup:
  assumes "a \<noteq> b" "h (vnode a 0) = h (vnode b 0)" "new_ring 1 = Inr r0"
  shows "\<exists>r. r = ring_remove_node h a (ring_add_node h b (ring_add_node h a r0)) \<and> hr_nodes r = [b]
    \<and> ring_get_node h key r = Inl (KeyError (dec_nat (h (vnode b 0))))"
proof -
  have r0: "r0 = \<lparr>hr_replicas = 1, hr_ring = [], hr_ring_to_node = [], hr_nodes = []\<rparr>"
    using assms(3) by (simp add: new_ring_def)
  have "ring_remove_node h a (ring_add_node h b (ring_add_node h a r0))
      = \<lparr>hr_replicas = 1, hr_ring = [h (vnode b 0)], hr_ring_to_node = [], hr_nodes = [b]\<rparr>"
    using assms(1,2) by (simp add: r0 ring_add_node_def ring_remove_node_def)
  then show ?thesis by (simp add: ring_get_node_def node_at_def bisect_right_def)
qed

theorem ring_collision_breaks_lookup_witness:
  "\<exists>r. ring_get_node length ''key'' r = Inl (KeyError (dec_nat (length (vnode ''b'' 0)))) \<and> hr_nodes r = [''b'']"
proof -
  have "new_ring 1 = Inr \<lparr>hr_replicas = 1, hr_ring = [], hr_ring_to_node = [], hr_nodes = []\<rparr>" by (simp add: new_ring_def)
  moreover have "length (vnode ''a'' 0) = length (vnode ''b'' 0)" by (simp add: vnode_def)
  ultimately show ?thesis using ring_collision_breaks_lookup[of "''a''" "''b''" length] by blast
qed

section \<open>Rendezvous\<close>

lemma rv_get_node_best:
  assumes "rv_get_node sc key d = Some n"
  shows "\<exists>w. (n, w) \<in> set d \<and> (\<forall>e\<in>set d. rv_key sc key e \<le> rv_key sc key (n, w))"
proof -
  obtain e es where d: "d = e # es" "n = fst (first_max (rv_key sc key) e es)"
    using assms by (cases d) (auto simp: rv_get_node_def)
  obtain w where w: "first_max (rv_key sc key) e es = (n, w)" using d(2) by (metis prod.collapse)
  have "set d = insert e (set es)" by (simp add: d(1))
  then have "(n, w) \<in> set d" "\<forall>x\<in>set d. rv_key sc key x \<le> rv_key sc key (n, w)"
    using first_max_in[of "rv_key sc key" e es] first_max_ge[of _ e es "rv_key sc key"] w by simp_all
  then show ?thesis by blast
qed

lemma rv_get_nodes_bounded:
  "length (rv_get_nodes sc key count d) \<le> nat count" "set (rv_get_nodes sc key count d) \<subseteq> fst ` set d"
  by (auto simp: rv_get_nodes_def sorted_rev_key_def dest!: in_set_takeD)

end
