(* ===== verification/PermissionPolicy.thy ===== *)
theory PermissionPolicy
  imports Prelude
begin

text \<open>
  \<^verbatim>\<open>sonder_runtime/domain/execution/policy.py\<close> and \<^verbatim>\<open>permission_rules.py\<close>: the permission rules of the
  operator. A rule names tools by a shell pattern and gives them an action; the first matching rule
  governs a tool. The theory models the pattern language of \<^verbatim>\<open>fnmatch.fnmatchcase\<close>, the rules, their
  evaluation and update, the loading of the policy file with the report of what was dropped, and
  the guarded rewriting of the file.
\<close>

section \<open>Shell patterns\<close>

text \<open>
  A bracket expression is closed by a later \<^verbatim>\<open>]\<close> (one right after the optional \<^verbatim>\<open>!\<close> is an element); an
  unclosed bracket stands for itself. Elements are single characters and ranges, read from the
  left; a range whose bounds are reversed is dropped, and when that leaves a \<^verbatim>\<open>!\<close> in front the class
  is negated, as in \<^verbatim>\<open>fnmatch.translate\<close>.
\<close>

datatype set_item = One char | Range char char

datatype glob_tok = GStar | GAny | GLit char | GSet bool "set_item list"

fun fn_items :: "string \<Rightarrow> set_item list" where
  "fn_items [] = []"
| "fn_items [c] = [One c]"
| "fn_items [c, d] = [One c, One d]"
| "fn_items (c # d # e # cs) =
     (if d = CHR ''-'' then Range c e # fn_items cs else One c # fn_items (d # e # cs))"

fun empty_range :: "set_item \<Rightarrow> bool" where
  "empty_range (One c) = False"
| "empty_range (Range c d) = (d < c)"

definition fn_class :: "string \<Rightarrow> glob_tok" where
  "fn_class stuff =
     (if stuff \<noteq> [] \<and> hd stuff = CHR ''!'' then GSet True (fn_items (tl stuff))
      else (case dropWhile empty_range (fn_items stuff) of
              [] \<Rightarrow> GSet False []
            | One c # its \<Rightarrow> if c = CHR ''!'' then GSet True its else GSet False (One c # its)
            | Range c d # its \<Rightarrow> if c = CHR ''!'' then GSet True (One (CHR ''-'') # One d # its)
                               else GSet False (Range c d # its)))"

definition fn_split :: "string \<Rightarrow> (string \<times> string) option" where
  \<comment> \<open>the text after \<^verbatim>\<open>[\<close>: the inside of the brackets and what follows them\<close>
  "fn_split cs =
     (let a = (if cs \<noteq> [] \<and> hd cs = CHR ''!'' then 1 else 0);
          k = (if drop a cs \<noteq> [] \<and> hd (drop a cs) = CHR '']'' then a + 1 else a);
          j = k + length (takeWhile (\<lambda>c. c \<noteq> CHR '']'') (drop k cs))
      in if length cs \<le> j then None else Some (take j cs, drop (j + 1) cs))"

lemma fn_split_shorter: "fn_split cs = Some (stuff, rest) \<Longrightarrow> length rest < Suc (length cs)"
  by (auto simp: fn_split_def Let_def split: if_splits)

function glob_tokens :: "string \<Rightarrow> glob_tok list" where
  "glob_tokens [] = []"
| "glob_tokens (c # cs) =
     (if c = CHR ''*'' then GStar # glob_tokens cs
      else if c = CHR ''?'' then GAny # glob_tokens cs
      else if c = CHR ''['' then
        (case fn_split cs of
           None \<Rightarrow> GLit c # glob_tokens cs
         | Some (stuff, rest) \<Rightarrow> fn_class stuff # glob_tokens rest)
      else GLit c # glob_tokens cs)"
  by pat_completeness auto
termination
  by (relation "measure length") (auto dest: fn_split_shorter)

fun item_has :: "char \<Rightarrow> set_item \<Rightarrow> bool" where
  "item_has c (One d) = (c = d)"
| "item_has c (Range lo hi) = (lo \<le> c \<and> c \<le> hi)"

fun tok_accepts :: "glob_tok \<Rightarrow> char \<Rightarrow> bool" where
  "tok_accepts GStar c = True"
| "tok_accepts GAny c = True"
| "tok_accepts (GLit d) c = (c = d)"
| "tok_accepts (GSet neg its) c = (list_ex (item_has c) its \<noteq> neg)"

fun glob_match :: "glob_tok list \<Rightarrow> string \<Rightarrow> bool" where
  "glob_match [] s = (s = [])"
| "glob_match (GStar # ts) [] = glob_match ts []"
| "glob_match (GStar # ts) (c # s) = (glob_match ts (c # s) \<or> glob_match (GStar # ts) s)"
| "glob_match (t # ts) [] = False"
| "glob_match (t # ts) (c # s) = (tok_accepts t c \<and> glob_match ts s)"

definition fnmatchcase :: "string \<Rightarrow> string \<Rightarrow> bool" where
  "fnmatchcase name pat = glob_match (glob_tokens pat) name"

text \<open>The pattern as a sequence of parts: a star takes any text, another token one character.\<close>

definition tok_takes :: "glob_tok \<Rightarrow> string \<Rightarrow> bool" where
  "tok_takes t part = (t = GStar \<or> (\<exists>c. part = [c] \<and> tok_accepts t c))"

lemma glob_match_star: "glob_match (GStar # ts) s \<longleftrightarrow> (\<exists>u v. s = u @ v \<and> glob_match ts v)"
proof (induction s)
  case (Cons c s)
  then show ?case
    by (auto simp: Cons_eq_append_conv)
qed simp

lemma glob_match_one:
  "t \<noteq> GStar \<Longrightarrow> glob_match (t # ts) s \<longleftrightarrow> (\<exists>c v. s = c # v \<and> tok_accepts t c \<and> glob_match ts v)"
  by (cases t; cases s) auto

lemma glob_match_Cons: "glob_match (t # ts) s \<longleftrightarrow> (\<exists>u v. s = u @ v \<and> tok_takes t u \<and> glob_match ts v)"
proof (cases "t = GStar")
  case False
  then have "glob_match (t # ts) s \<longleftrightarrow> (\<exists>c v. s = [c] @ v \<and> tok_takes t [c] \<and> glob_match ts v)"
    by (simp add: glob_match_one tok_takes_def)
  with False show ?thesis
    by (metis tok_takes_def)
qed (simp add: glob_match_star tok_takes_def)

lemma glob_match_parts: "glob_match ts s \<longleftrightarrow> (\<exists>parts. s = concat parts \<and> list_all2 tok_takes ts parts)"
proof (induction ts arbitrary: s)
  case (Cons t ts)
  then show ?case
    unfolding glob_match_Cons list_all2_Cons1 by (metis concat.simps(2))
qed auto

text \<open>A pattern with none of the three metacharacters matches itself only.\<close>

definition is_glob :: "string \<Rightarrow> bool" where
  "is_glob pattern = list_ex (\<lambda>c. c \<in> set pattern) ''*?[''"

lemma glob_tokens_literal: "\<not> is_glob pat \<Longrightarrow> glob_tokens pat = map GLit pat"
  by (induction pat) (auto simp: is_glob_def)

lemma glob_match_literal: "glob_match (map GLit pat) s \<longleftrightarrow> s = pat"
  by (induction pat arbitrary: s) (auto simp: glob_match_one)

lemma fnmatchcase_literal: "\<not> is_glob pat \<Longrightarrow> fnmatchcase name pat \<longleftrightarrow> name = pat"
  by (simp add: fnmatchcase_def glob_tokens_literal glob_match_literal)

section \<open>Rules\<close>

record rule =
  ru_pattern :: string
  ru_action :: string
  ru_note :: string

definition VALID_ACTIONS :: "string list" where
  "VALID_ACTIONS = [''allow'', ''ask'', ''deny'']"

definition mk_rule :: "string \<Rightarrow> string \<Rightarrow> string \<Rightarrow> rule" where
  "mk_rule p a n = \<lparr>ru_pattern = p, ru_action = a, ru_note = n\<rparr>"

definition DEFAULT_RULES :: "rule list" where
  "DEFAULT_RULES =
     [mk_rule ''status'' ''allow'' ''read-only runtime status'',
      mk_rule ''context_*'' ''allow'' ''read-only context/status tools'',
      mk_rule ''tool_manifest'' ''allow'' ''read-only tool list'',
      mk_rule ''file_read'' ''ask'' ''reads local files'',
      mk_rule ''file_find'' ''ask'' ''enumerates local files'',
      mk_rule ''file_write'' ''ask'' ''writes local files'',
      mk_rule ''file_edit'' ''ask'' ''edits local files'',
      mk_rule ''file_copy'' ''ask'' ''copies one local file'',
      mk_rule ''file_move'' ''ask'' ''moves one local file'',
      mk_rule ''file_delete'' ''deny'' ''destructive by default'',
      mk_rule ''run_*'' ''ask'' ''executes generated code'',
      mk_rule ''isolated_run'' ''ask'' ''executes an image through an external container runtime'',
      mk_rule ''web_*'' ''ask'' ''uses network access'',
      mk_rule ''local_service_probe'' ''ask'' ''reads one loopback HTTP endpoint'',
      mk_rule ''admin_private_chain_of_thought'' ''deny''
        ''refused unless allowed here AND SONDER_ALLOW_PRIVATE_COT is set'']"

definition NO_MATCH_RULE :: rule where
  "NO_MATCH_RULE = mk_rule ''*'' ''ask'' ''no matching rule''"

text \<open>
  What the policy file holds after parsing: a list whose items are objects or something else, their
  fields strings or other values. A float, list or object in a field is represented by its truth
  value and the text \<^verbatim>\<open>str\<close> makes of it, an item that is no object by the name of its type.
\<close>

datatype raw_value = RStr string | RNull | RBool bool | RInt int | ROther bool string

datatype raw_item = RObject "(string, raw_value) dict" | RNotObject string

datatype raw_data = RList "raw_item list" | RNotList string

fun raw_str :: "raw_value \<Rightarrow> string" where
  "raw_str (RStr s) = s"
| "raw_str RNull = ''None''"
| "raw_str (RBool b) = (if b then ''True'' else ''False'')"
| "raw_str (RInt n) = py_str_int n"
| "raw_str (ROther b s) = s"

fun raw_truth :: "raw_value \<Rightarrow> bool" where
  "raw_truth (RStr s) = (s \<noteq> [])"
| "raw_truth RNull = False"
| "raw_truth (RBool b) = b"
| "raw_truth (RInt n) = (n \<noteq> 0)"
| "raw_truth (ROther b s) = b"

definition raw_get :: "string \<Rightarrow> string \<Rightarrow> (string, raw_value) dict \<Rightarrow> raw_value" where
  \<comment> \<open>\<^verbatim>\<open>item.get(key, default)\<close> with a string default\<close>
  "raw_get key def item = (case map_of item key of Some v \<Rightarrow> v | None \<Rightarrow> RStr def)"

definition normalize_action :: "raw_value \<Rightarrow> string" where
  "normalize_action action = py_lower (py_strip (if raw_truth action then raw_str action else []))"

definition is_valid_action :: "raw_value \<Rightarrow> bool" where
  "is_valid_action action = (normalize_action action \<in> set VALID_ACTIONS)"

definition normalize_rule :: "raw_item \<Rightarrow> rule option" where
  "normalize_rule item =
     (case item of
        RNotObject _ \<Rightarrow> None
      | RObject d \<Rightarrow>
          (let action = normalize_action (raw_get ''action'' ''ask'' d);
               pattern = py_strip (raw_str (raw_get ''pattern'' [] d))
           in if pattern \<noteq> [] \<and> action \<in> set VALID_ACTIONS
              then Some (mk_rule pattern action (raw_str (raw_get ''note'' [] d))) else None))"

definition normalize_rules :: "raw_data \<Rightarrow> rule list" where
  "normalize_rules data =
     (case data of RNotList _ \<Rightarrow> [] | RList items \<Rightarrow> List.map_filter normalize_rule items)"

fun evaluate :: "rule list \<Rightarrow> string \<Rightarrow> rule" where
  "evaluate [] tool_name = NO_MATCH_RULE"
| "evaluate (r # rs) tool_name =
     (if fnmatchcase (py_strip tool_name) (ru_pattern r) then r else evaluate rs tool_name)"

definition upsert_rule :: "rule list \<Rightarrow> string \<Rightarrow> raw_value \<Rightarrow> string \<Rightarrow> rule list res" where
  "upsert_rule rules pattern0 action0 note =
     (let pattern = py_strip pattern0; action = normalize_action action0 in
      if pattern = [] then Inl (ValueError ''pattern is required'')
      else if action \<notin> set VALID_ACTIONS then
        Inl (ValueError (''action must be one of: '' @ py_join '', '' VALID_ACTIONS))
      else Inr (mk_rule pattern action note # filter (\<lambda>r. ru_pattern r \<noteq> pattern) rules))"

text \<open>A lookup bound to one loaded list of rules: the catch-all rule reads as no rule.\<close>

definition rule_lookup :: "rule list \<Rightarrow> string \<Rightarrow> rule option" where
  "rule_lookup rules tool_name =
     (let r = evaluate rules tool_name in if r = NO_MATCH_RULE then None else Some r)"

subsection \<open>First match\<close>

lemma evaluate_find:
  "evaluate rules tool =
     (case find (\<lambda>r. fnmatchcase (py_strip tool) (ru_pattern r)) rules of
        Some r \<Rightarrow> r | None \<Rightarrow> NO_MATCH_RULE)"
  by (induction rules) auto

lemma evaluate_in: "evaluate rules tool \<in> insert NO_MATCH_RULE (set rules)"
  by (induction rules) auto

lemma evaluate_filter:
  assumes "\<And>r. r \<in> set rules \<Longrightarrow> \<not> P r \<Longrightarrow> \<not> fnmatchcase (py_strip tool) (ru_pattern r)"
  shows "evaluate (filter P rules) tool = evaluate rules tool"
  using assms by (induction rules) auto

lemma mk_rule_simps [simp]:
  "ru_pattern (mk_rule p a n) = p" "ru_action (mk_rule p a n) = a" "ru_note (mk_rule p a n) = n"
  by (simp_all add: mk_rule_def)

text \<open>
  Setting a rule takes effect and is local: the new rule governs every tool its pattern
  matches (for a pattern without metacharacters exactly the tool of that name), and every tool it
  does not match keeps the rule it had.
\<close>

theorem upsert_governs:
  assumes "upsert_rule rules pattern action note = Inr rules'"
  shows "evaluate rules' tool =
           (if fnmatchcase (py_strip tool) (py_strip pattern)
            then mk_rule (py_strip pattern) (normalize_action action) note
            else evaluate rules tool)
         \<and> (\<not> is_glob (py_strip pattern) \<longrightarrow>
              fnmatchcase (py_strip tool) (py_strip pattern) = (py_strip tool = py_strip pattern))"
proof -
  have rules': "rules' = mk_rule (py_strip pattern) (normalize_action action) note
      # filter (\<lambda>r. ru_pattern r \<noteq> py_strip pattern) rules"
    using assms by (auto simp: upsert_rule_def Let_def split: if_splits)
  have "\<not> fnmatchcase (py_strip tool) (py_strip pattern) \<Longrightarrow>
      evaluate (filter (\<lambda>r. ru_pattern r \<noteq> py_strip pattern) rules) tool = evaluate rules tool"
    by (rule evaluate_filter) auto
  then show ?thesis
    by (simp add: rules' fnmatchcase_literal)
qed

theorem upsert_governs_witness:
  "evaluate [mk_rule ''web_get'' ''deny'' [], mk_rule ''*'' ''allow'' []] ''web_get'' = mk_rule ''web_get'' ''deny'' []"
  using upsert_governs[of "[mk_rule ''*'' ''allow'' []]" "''web_get''" "RStr ''deny''" "[]"
      "[mk_rule ''web_get'' ''deny'' [], mk_rule ''*'' ''allow'' []]" "''web_get''"]
  by code_simp

section \<open>Loading the policy file\<close>

text \<open>
  The home directory is seen through what reading the policy file yields: nothing, a read error, a
  parse error, or parsed data. A load gives the rules in force and a report on them.
\<close>

datatype load_status =
    LOAD_OK | LOAD_MISSING | LOAD_UNREADABLE | LOAD_INVALID_JSON | LOAD_NOT_A_LIST | LOAD_PARTIAL
  | LOAD_NO_USABLE_RULES

record load_report =
  lr_path :: string
  lr_status :: load_status
  lr_used_defaults :: bool
  lr_rules_seen :: nat
  lr_rules_kept :: nat
  lr_dropped :: "string list"
  lr_error :: string

datatype policy_file = PMissing | PReadError string | PParseError string | PParsed raw_data

definition degraded :: "load_report \<Rightarrow> bool" where
  "degraded r = (lr_status r \<notin> {LOAD_OK, LOAD_MISSING})"

definition clip :: "string \<Rightarrow> string" where
  "clip t = (if length t \<le> 60 then t else take 57 t @ ''...'')"

definition describe_dropped :: "nat \<Rightarrow> raw_item \<Rightarrow> string" where
  "describe_dropped index item =
     (case item of
        RObject d \<Rightarrow>
          (let p = py_strip (raw_str (raw_get ''pattern'' [] d));
               a = py_strip (raw_str (raw_get ''action'' [] d))
           in ''#'' @ dec_nat index @ '' pattern='' @ clip (if p = [] then ''<no pattern>'' else p)
              @ '' action='' @ clip (if a = [] then ''<no action>'' else a))
      | RNotObject ty \<Rightarrow> ''#'' @ dec_nat index @ '' <not an object: '' @ ty @ ''>'')"

definition defaults_report :: "string \<Rightarrow> load_status \<Rightarrow> string \<Rightarrow> rule list \<times> load_report" where
  "defaults_report path status err =
     (DEFAULT_RULES, \<lparr>lr_path = path, lr_status = status, lr_used_defaults = True, lr_rules_seen = 0,
                      lr_rules_kept = 0, lr_dropped = [], lr_error = err\<rparr>)"

fun sift_rules :: "nat \<Rightarrow> raw_item list \<Rightarrow> rule list \<times> string list" where
  \<comment> \<open>the loop over the items: the rules kept and the descriptions of the items dropped\<close>
  "sift_rules index [] = ([], [])"
| "sift_rules index (item # items) =
     (let (rules, dropped) = sift_rules (Suc index) items in
      case normalize_rule item of
        None \<Rightarrow> (rules, describe_dropped index item # dropped)
      | Some r \<Rightarrow> (r # rules, dropped))"

definition load_report :: "string \<Rightarrow> policy_file \<Rightarrow> rule list \<times> load_report" where
  "load_report path file =
     (case file of
        PMissing \<Rightarrow> defaults_report path LOAD_MISSING []
      | PReadError e \<Rightarrow> defaults_report path LOAD_UNREADABLE e
      | PParseError e \<Rightarrow> defaults_report path LOAD_INVALID_JSON e
      | PParsed (RNotList ty) \<Rightarrow> defaults_report path LOAD_NOT_A_LIST (''found '' @ ty)
      | PParsed (RList items) \<Rightarrow>
          (let (rules, dropped) = sift_rules 0 items in
           if rules = [] then
             (DEFAULT_RULES, \<lparr>lr_path = path, lr_status = LOAD_NO_USABLE_RULES, lr_used_defaults = True,
                              lr_rules_seen = length items, lr_rules_kept = 0, lr_dropped = dropped,
                              lr_error = []\<rparr>)
           else
             (rules, \<lparr>lr_path = path, lr_status = (if dropped \<noteq> [] then LOAD_PARTIAL else LOAD_OK),
                      lr_used_defaults = False, lr_rules_seen = length items,
                      lr_rules_kept = length rules, lr_dropped = dropped, lr_error = []\<rparr>)))"

definition check_report :: "string \<Rightarrow> policy_file \<Rightarrow> string \<Rightarrow> rule \<times> load_report" where
  "check_report path file tool_name =
     (let (rules, report) = load_report path file in (evaluate rules tool_name, report))"

subsection \<open>Well-formed rules\<close>

definition rule_wf :: "rule \<Rightarrow> bool" where
  "rule_wf r = (ru_pattern r \<noteq> [] \<and> py_strip (ru_pattern r) = ru_pattern r \<and> ru_action r \<in> set VALID_ACTIONS)"

lemma normalize_rule_wf: "normalize_rule item = Some r \<Longrightarrow> rule_wf r"
  by (auto simp: normalize_rule_def rule_wf_def Let_def split: raw_item.splits if_splits)

lemma default_rules_wf: "list_all rule_wf DEFAULT_RULES"
  by code_simp

lemma sift_rules_map_filter: "fst (sift_rules i items) = List.map_filter normalize_rule items"
  by (induction items arbitrary: i)
    (auto simp: List.map_filter_simps split_beta Let_def split: option.splits)

lemma sift_rules_lengths:
  "length (fst (sift_rules i items)) + length (snd (sift_rules i items)) = length items"
  by (induction items arbitrary: i) (auto simp: split_beta Let_def split: option.splits)

lemma map_filter_wf: "list_all rule_wf (List.map_filter normalize_rule items)"
  by (auto simp: List.map_filter_def list_all_iff normalize_rule_wf)

lemma sift_rules_clean: "snd (sift_rules i items) = [] \<longleftrightarrow> list_all (\<lambda>it. normalize_rule it \<noteq> None) items"
  by (induction items arbitrary: i) (auto simp: split_beta Let_def split: option.splits)

lemma load_report_sound:
  "fst (load_report path file) \<noteq> [] \<and> list_all rule_wf (fst (load_report path file))"
  using default_rules_wf
  by (auto simp: load_report_def defaults_report_def Let_def split_beta sift_rules_map_filter
      map_filter_wf DEFAULT_RULES_def split: policy_file.splits raw_data.splits)

lemma map_filter_total: "list_all (\<lambda>x. f x \<noteq> None) xs \<Longrightarrow> map f xs = map Some (List.map_filter f xs)"
  by (induction xs) (auto simp: List.map_filter_simps)

text \<open>
  Whatever the policy file holds, a load yields a non-empty list of well-formed rules: every
  pattern is non-empty and trimmed and every action is one of the three. The defaults are in force
  exactly when the report says so, and otherwise the rules are the usable items of the file.
\<close>

theorem load_report_wf:
  "fst (load_report path file) \<noteq> [] \<and> list_all rule_wf (fst (load_report path file))
   \<and> (if lr_used_defaults (snd (load_report path file)) then fst (load_report path file) = DEFAULT_RULES
      else \<exists>items. file = PParsed (RList items) \<and> fst (load_report path file) = normalize_rules (RList items))"
  using load_report_sound[of path "file"]
  by (auto simp: load_report_def defaults_report_def Let_def split_beta sift_rules_map_filter
      normalize_rules_def split: policy_file.splits raw_data.splits)

text \<open>
  No rule of the operator is lost silently: a load that is not reported as degraded found no
  policy file, or kept every item of it, in order; a degraded one names each item it dropped.
\<close>

theorem load_report_faithful:
  "(case file of
      PMissing \<Rightarrow> \<not> degraded (snd (load_report path file))
    | PParsed (RList items) \<Rightarrow>
        degraded (snd (load_report path file)) = (items = [] \<or> (\<exists>it\<in>set items. normalize_rule it = None))
        \<and> (\<not> degraded (snd (load_report path file)) \<longrightarrow>
              map normalize_rule items = map Some (fst (load_report path file)))
        \<and> length (lr_dropped (snd (load_report path file))) + lr_rules_kept (snd (load_report path file))
           = length items
    | _ \<Rightarrow> degraded (snd (load_report path file)))"
proof (cases "file")
  case (PParsed data)
  show ?thesis
  proof (cases data)
    case (RList items)
    have none_iff: "fst (sift_rules 0 items) = [] \<longleftrightarrow> list_all (\<lambda>it. normalize_rule it = None) items"
      by (auto simp: sift_rules_map_filter List.map_filter_def filter_empty_conv list_all_iff)
    have kept: "snd (sift_rules 0 items) = [] \<Longrightarrow> map normalize_rule items = map Some (fst (sift_rules 0 items))"
      unfolding sift_rules_clean sift_rules_map_filter by (rule map_filter_total)
    have "items \<noteq> [] \<Longrightarrow> list_all (\<lambda>it. normalize_rule it = None) items \<Longrightarrow> \<exists>it\<in>set items. normalize_rule it = None"
      by (cases items) auto
    then have any: "items = [] \<or> (\<exists>it\<in>set items. normalize_rule it = None) \<longleftrightarrow>
        fst (sift_rules 0 items) = [] \<or> snd (sift_rules 0 items) \<noteq> []"
      unfolding none_iff sift_rules_clean by (auto simp: list_all_iff)
    show ?thesis
    proof (cases "fst (sift_rules 0 items) = []")
      case True
      with any sift_rules_lengths[of 0 items] show ?thesis
        by (simp add: PParsed RList load_report_def split_beta degraded_def)
    next
      case False
      with any kept sift_rules_lengths[of 0 items] show ?thesis
        by (simp add: PParsed RList load_report_def split_beta degraded_def)
    qed
  qed (simp add: PParsed load_report_def defaults_report_def degraded_def)
qed (simp_all add: load_report_def defaults_report_def degraded_def)

section \<open>Rewriting the policy file\<close>

text \<open>
  A save replaces the file as a whole or leaves it; the two operations on the disk that can fail
  are given with their error. A degraded file is first copied beside itself.
\<close>

record policy_home =
  ph_path :: string
  ph_file :: policy_file
  ph_regular :: bool
  ph_symlink :: bool
  ph_sidecar :: "policy_file option"

record disk_faults =
  df_sidecar :: "string option"
  df_save :: "string option"

definition rule_json :: "rule \<Rightarrow> raw_item" where
  "rule_json r =
     RObject [(''pattern'', RStr (ru_pattern r)), (''action'', RStr (ru_action r)), (''note'', RStr (ru_note r))]"

definition save_policy :: "disk_faults \<Rightarrow> rule list \<Rightarrow> policy_home \<Rightarrow> policy_home \<times> unit res" where
  "save_policy df rules h =
     (if ph_symlink h then
        (h, Inl (OSError (''refusing to save policy through a symbolic link: '' @ ph_path h)))
      else case df_save df of
        Some e \<Rightarrow> (h, Inl (OSError e))
      | None \<Rightarrow> (h\<lparr>ph_file := PParsed (RList (map rule_json rules)), ph_regular := True\<rparr>, Inr ()))"

definition preserve_degraded :: "disk_faults \<Rightarrow> policy_home \<Rightarrow> policy_home \<times> unit res" where
  "preserve_degraded df h =
     (if \<not> ph_regular h \<or> ph_symlink h then (h, Inr ())
      else case df_sidecar df of
        Some e \<Rightarrow> (h, Inl (OSError e))
      | None \<Rightarrow> (h\<lparr>ph_sidecar := Some (ph_file h)\<rparr>, Inr ()))"

definition add_rule ::
  "disk_faults \<Rightarrow> string \<Rightarrow> raw_value \<Rightarrow> string \<Rightarrow> policy_home \<Rightarrow> policy_home \<times> rule list res" where
  "add_rule df pattern action note h =
     (let (rules, report) = load_report (ph_path h) (ph_file h);
          (h1, kept) = (if degraded report then preserve_degraded df h else (h, Inr ()))
      in case kept of
           Inl e \<Rightarrow> (h1, Inl e)
         | Inr _ \<Rightarrow>
             (case upsert_rule rules pattern action note of
                Inl e \<Rightarrow> (h1, Inl e)
              | Inr rules' \<Rightarrow>
                  (case save_policy df rules' h1 of
                     (h2, Inl e) \<Rightarrow> (h2, Inl e)
                   | (h2, Inr _) \<Rightarrow> (h2, Inr rules'))))"

lemma normalize_rule_json: "rule_wf r \<Longrightarrow> normalize_rule (rule_json r) = Some r"
proof -
  assume wf: "rule_wf r"
  have "normalize_action (RStr a) = a" if "a \<in> set VALID_ACTIONS" for a
  proof -
    have "list_all (\<lambda>a. normalize_action (RStr a) = a) VALID_ACTIONS"
      by code_simp
    with that show ?thesis
      by (simp add: list_all_iff)
  qed
  with wf show ?thesis
    by (simp add: normalize_rule_def rule_json_def raw_get_def rule_wf_def Let_def mk_rule_def)
qed

lemma sift_rules_json: "list_all rule_wf rules \<Longrightarrow> sift_rules i (map rule_json rules) = (rules, [])"
  by (induction rules arbitrary: i) (auto simp: normalize_rule_json)

lemma upsert_wf:
  assumes "list_all rule_wf rules" "upsert_rule rules pattern action note = Inr rules'"
  shows "list_all rule_wf rules'" "rules' \<noteq> []"
  using assms by (auto simp: upsert_rule_def Let_def rule_wf_def list_all_iff split: if_splits)

lemma load_saved:
  assumes "list_all rule_wf rules" "rules \<noteq> []"
  shows "fst (load_report path (PParsed (RList (map rule_json rules)))) = rules"
    and "lr_status (snd (load_report path (PParsed (RList (map rule_json rules))))) = LOAD_OK"
  using assms by (simp_all add: load_report_def sift_rules_json)

lemma preserve_degraded_simps:
  assumes "preserve_degraded df h = (h1, r)"
  shows "ph_file h1 = ph_file h" "ph_path h1 = ph_path h" "ph_symlink h1 = ph_symlink h"
    and "r = Inr () \<Longrightarrow> ph_regular h \<Longrightarrow> \<not> ph_symlink h \<Longrightarrow> ph_sidecar h1 = Some (ph_file h)"
  using assms by (auto simp: preserve_degraded_def split: if_splits option.splits)

text \<open>
  (C30) Adding a rule either raises and leaves the policy file as it was, or publishes a file that
  loads back, undegraded, to exactly the rules returned, which are the rules that were in force with
  the new one set; a degraded regular file it replaces survives in the sidecar.
\<close>

theorem add_rule_roundtrip:
  "case add_rule df pattern action note h of
     (h', Inl e) \<Rightarrow> ph_file h' = ph_file h
   | (h', Inr rules) \<Rightarrow>
       upsert_rule (fst (load_report (ph_path h) (ph_file h))) pattern action note = Inr rules
       \<and> fst (load_report (ph_path h') (ph_file h')) = rules
       \<and> \<not> degraded (snd (load_report (ph_path h') (ph_file h')))
       \<and> (degraded (snd (load_report (ph_path h) (ph_file h))) \<and> ph_regular h \<longrightarrow>
            ph_sidecar h' = Some (ph_file h))"
proof -
  obtain rules report where load: "load_report (ph_path h) (ph_file h) = (rules, report)"
    by (cases "load_report (ph_path h) (ph_file h)")
  have wf: "list_all rule_wf rules"
    using load_report_sound[of "ph_path h" "ph_file h"] load by simp
  obtain h1 kept where pre: "(if degraded report then preserve_degraded df h else (h, Inr ())) = (h1, kept)"
    by (cases "if degraded report then preserve_degraded df h else (h, Inr ())")
  have same: "ph_file h1 = ph_file h" "ph_symlink h1 = ph_symlink h"
    using pre preserve_degraded_simps(1,3)[of df h h1 kept] by (simp_all split: if_splits)
  have side: "ph_sidecar h1 = Some (ph_file h)"
    if "kept = Inr ()" "degraded report" "ph_regular h" "\<not> ph_symlink h"
    using preserve_degraded_simps(4)[of df h h1 kept] pre that by simp
  show ?thesis
  proof (cases "\<exists>rules'. kept = Inr () \<and> upsert_rule rules pattern action note = Inr rules'
      \<and> \<not> ph_symlink h \<and> df_save df = None")
    case True
    then obtain rules' where ok: "kept = Inr ()" "upsert_rule rules pattern action note = Inr rules'"
      "\<not> ph_symlink h" "df_save df = None"
      by blast
    have "add_rule df pattern action note h =
        (h1\<lparr>ph_file := PParsed (RList (map rule_json rules')), ph_regular := True\<rparr>, Inr rules')"
      using load pre ok same by (simp add: add_rule_def save_policy_def)
    then show ?thesis
      using load ok side load_saved upsert_wf[OF wf ok(2)] by (simp add: degraded_def)
  next
    case False
    have "\<exists>e. add_rule df pattern action note h = (h1, Inl e)"
      using load pre False same
      by (cases kept; cases "upsert_rule rules pattern action note"; cases "df_save df")
        (auto simp: add_rule_def save_policy_def)
    with same show ?thesis
      by auto
  qed
qed

definition example_home :: policy_home where
  "example_home = \<lparr>ph_path = ''p'', ph_file = PParseError ''e'', ph_regular = True, ph_symlink = False,
                   ph_sidecar = None\<rparr>"

definition no_faults :: disk_faults where
  "no_faults = \<lparr>df_sidecar = None, df_save = None\<rparr>"

theorem add_rule_roundtrip_witness:
  "\<exists>h rules. add_rule no_faults ''web_get'' (RStr ''deny'') [] example_home = (h, Inr rules)
     \<and> fst (load_report (ph_path h) (ph_file h)) = rules \<and> ph_sidecar h = Some (PParseError ''e'')"
proof -
  have ok: "is_ok (snd (add_rule no_faults ''web_get'' (RStr ''deny'') [] example_home))"
    "degraded (snd (load_report (ph_path example_home) (ph_file example_home)))" "ph_regular example_home"
    "ph_file example_home = PParseError ''e''"
    by code_simp+
  then obtain h rules where res: "add_rule no_faults ''web_get'' (RStr ''deny'') [] example_home = (h, Inr rules)"
    by (metis is_ok_iff prod.collapse)
  show ?thesis
    using add_rule_roundtrip[of example_home "''web_get''" "RStr ''deny''" "[]" no_faults] ok(2-)
    by (simp add: res)
qed

end
