(* ===== verification/PermissionModes.thy ===== *)
theory PermissionModes
  imports Prelude "HOL-Library.Sublist"
begin

text \<open>
  \<^verbatim>\<open>permission_modes.py\<close> (the mode state) and the \<^verbatim>\<open>permission_mode\<close> tool of \<^verbatim>\<open>server.py\<close>: the four autonomy
  modes, how a name selects one, how a change is saved, and what a caller nobody is present for may
  change. What the disk does on a save is an argument of the operations.
\<close>

section \<open>Modes\<close>

datatype perm_mode = PLAN | MANUAL | ACCEPT_EDITS | AUTO

definition MODES :: "perm_mode list" where
  "MODES = [PLAN, MANUAL, ACCEPT_EDITS, AUTO]"

definition DEFAULT_MODE :: perm_mode where
  "DEFAULT_MODE = MANUAL"

fun mode_name :: "perm_mode \<Rightarrow> string" where
  "mode_name PLAN = ''plan''"
| "mode_name MANUAL = ''manual''"
| "mode_name ACCEPT_EDITS = ''acceptEdits''"
| "mode_name AUTO = ''auto''"

definition mode_named :: "string \<Rightarrow> perm_mode option" where
  \<comment> \<open>the mode of exactly that name: membership in \<^verbatim>\<open>_MATRIX\<close>\<close>
  "mode_named s = find (\<lambda>m. mode_name m = s) MODES"

text \<open>The index of a mode in \<^verbatim>\<open>MODES\<close> orders the modes by autonomy.\<close>

fun mode_rank :: "perm_mode \<Rightarrow> nat" where
  "mode_rank PLAN = 0"
| "mode_rank MANUAL = 1"
| "mode_rank ACCEPT_EDITS = 2"
| "mode_rank AUTO = 3"

instantiation perm_mode :: linorder
begin

definition less_eq_perm_mode :: "perm_mode \<Rightarrow> perm_mode \<Rightarrow> bool" where
  "m \<le> n \<longleftrightarrow> mode_rank m \<le> mode_rank n"

definition less_perm_mode :: "perm_mode \<Rightarrow> perm_mode \<Rightarrow> bool" where
  "m < n \<longleftrightarrow> mode_rank m < mode_rank n"

instance
proof
  show "m = n" if "m \<le> n" "n \<le> m" for m n :: perm_mode
    using that by (cases m; cases n) (auto simp: less_eq_perm_mode_def)
qed (auto simp: less_eq_perm_mode_def less_perm_mode_def)

end

lemma mode_rank_index: "m \<in> set MODES \<and> MODES ! mode_rank m = m \<and> mode_rank m < length MODES"
  by (cases m) (simp_all add: MODES_def)

lemma mode_named_name [simp]: "mode_named (mode_name m) = Some m"
  by (cases m) (simp_all add: mode_named_def MODES_def)

definition resolve_mode :: "string \<Rightarrow> perm_mode res" where
  "resolve_mode name =
     (let wanted = filter (\<lambda>c. c \<noteq> CHR '' '' \<and> c \<noteq> CHR ''-'') (py_lower (py_strip name)) in
      if wanted = [] then Inl (ValueError ''mode name is required'')
      else case find (\<lambda>m. py_lower (mode_name m) = wanted) MODES of
        Some m \<Rightarrow> Inr m
      | None \<Rightarrow>
          (case filter (\<lambda>m. prefix wanted (py_lower (mode_name m))) MODES of
             [m] \<Rightarrow> Inr m
           | _ \<Rightarrow> Inl (ValueError
               (''unknown mode '' @ CHR 0x27 # name @ CHR 0x27 # ''. modes: ''
                @ py_join '', '' (map mode_name MODES)))))"

definition is_unattended_escalation :: "perm_mode \<Rightarrow> perm_mode \<Rightarrow> bool" where
  "is_unattended_escalation current target =
     (max (mode_rank current) (mode_rank DEFAULT_MODE) < mode_rank target)"

section \<open>The mode of a session and its saved copy\<close>

text \<open>
  \<open>ms_file\<close> is the saved mode name, nothing when there is no readable file of the expected shape.
  The faults say what the disk does on a save: the error of writing, and whether the stale file can
  be removed.
\<close>

record mode_state =
  ms_mode :: perm_mode
  ms_file :: "string option"

record mode_faults =
  mf_write :: "string option"
  mf_discard_ok :: bool

definition load_mode :: "string option \<Rightarrow> perm_mode" where
  "load_mode file =
     (case file of
        None \<Rightarrow> DEFAULT_MODE
      | Some s \<Rightarrow> (case mode_named (py_strip s) of Some m \<Rightarrow> m | None \<Rightarrow> DEFAULT_MODE))"

definition start_session :: "string option \<Rightarrow> mode_state" where
  "start_session file = \<lparr>ms_mode = load_mode file, ms_file = file\<rparr>"

definition save_mode :: "mode_faults \<Rightarrow> perm_mode \<Rightarrow> mode_state \<Rightarrow> mode_state \<times> unit res" where
  "save_mode mf previous st =
     (case mf_write mf of
        None \<Rightarrow> (st\<lparr>ms_file := Some (mode_name (ms_mode st))\<rparr>, Inr ())
      | Some failure \<Rightarrow>
          if mode_rank previous < mode_rank (ms_mode st) then
            (st\<lparr>ms_mode := previous\<rparr>,
             Inl (ModePersistenceError
               (''permission mode not changed: saving '' @ mode_name (ms_mode st) @ '' failed ('' @ failure
                @ ''); the mode stays '' @ mode_name previous)))
          else
            let (st1, restart) =
              (if mf_discard_ok mf
               then (st\<lparr>ms_file := None\<rparr>, ''the next start will use '' @ mode_name DEFAULT_MODE)
               else (st, ''the saved mode ('' @ mode_name previous
                         @ '') could not be removed either, so the next start may restore it''))
            in (st1, Inl (ModePersistenceError
                 (''permission mode is '' @ mode_name (ms_mode st) @ '' for this session only: saving it failed (''
                  @ failure @ ''); '' @ restart))))"

definition set_mode :: "mode_faults \<Rightarrow> string \<Rightarrow> mode_state \<Rightarrow> mode_state \<times> perm_mode res" where
  "set_mode mf name st =
     (case resolve_mode name of
        Inl e \<Rightarrow> (st, Inl e)
      | Inr m \<Rightarrow>
          (case save_mode mf (ms_mode st) (st\<lparr>ms_mode := m\<rparr>) of
             (st', Inl e) \<Rightarrow> (st', Inl e)
           | (st', Inr _) \<Rightarrow> (st', Inr m)))"

definition cycle_mode :: "mode_faults \<Rightarrow> int \<Rightarrow> mode_state \<Rightarrow> mode_state \<times> perm_mode res" where
  "cycle_mode mf step st =
     (let new = MODES ! nat ((int (mode_rank (ms_mode st)) + step) mod int (length MODES)) in
      case save_mode mf (ms_mode st) (st\<lparr>ms_mode := new\<rparr>) of
        (st', Inl e) \<Rightarrow> (st', Inl e)
      | (st', Inr _) \<Rightarrow> (st', Inr new))"

definition escalation_refused :: "bool \<Rightarrow> string \<Rightarrow> mode_state \<Rightarrow> bool res" where
  \<comment> \<open>\<^verbatim>\<open>unattended_escalation_refusal\<close>: whether it returns a refusal\<close>
  "escalation_refused attended target_name st =
     rbind (resolve_mode target_name)
       (\<lambda>target. Inr (\<not> (attended \<or> \<not> is_unattended_escalation (ms_mode st) target)))"

text \<open>The tool: what it answers, and the state it leaves.\<close>

datatype mode_answer = Overview | Description perm_mode | EscalationRefused | ModeError py_exn

definition permission_mode :: "mode_faults \<Rightarrow> bool \<Rightarrow> string \<Rightarrow> bool \<Rightarrow> mode_state \<Rightarrow> mode_state \<times> mode_answer" where
  "permission_mode mf attended mode explain st =
     (let wanted = py_strip mode in
      if wanted = [] then (st, Overview)
      else if explain then
        (case mode_named wanted of
           Some m \<Rightarrow> (st, Description m)
         | None \<Rightarrow> (st, ModeError (ValueError (''unknown mode '' @ CHR 0x27 # wanted @ [CHR 0x27]))))
      else case escalation_refused attended wanted st of
        Inl e \<Rightarrow> (st, ModeError e)
      | Inr refused \<Rightarrow>
          if refused then (st, EscalationRefused)
          else (case set_mode mf wanted st of
                  (st', Inl e) \<Rightarrow> (st', ModeError e)
                | (st', Inr m) \<Rightarrow> (st', Description (ms_mode st'))))"

section \<open>What a change can do\<close>

lemma resolve_mode_exact: "resolve_mode (mode_name m) = Inr m"
proof -
  have "list_all (\<lambda>m. resolve_mode (mode_name m) = Inr m) MODES"
    by code_simp
  then show ?thesis
    using mode_rank_index[of m] by (simp add: list_all_iff)
qed

lemma strip_mode_name [simp]: "py_strip (mode_name m) = mode_name m"
proof -
  have "list_all (\<lambda>m. py_strip (mode_name m) = mode_name m) MODES"
    by code_simp
  then show ?thesis
    using mode_rank_index[of m] by (simp add: list_all_iff)
qed

lemma load_mode_name [simp]: "load_mode (Some (mode_name m)) = m" "load_mode None = MANUAL"
  by (simp_all add: load_mode_def DEFAULT_MODE_def)

lemma save_mode_mode:
  "ms_mode (fst (save_mode mf previous st)) =
     (if mf_write mf \<noteq> None \<and> previous < ms_mode st then previous else ms_mode st)"
  by (auto simp: save_mode_def less_perm_mode_def Let_def split: option.splits)

lemma save_mode_file:
  "ms_file (fst (save_mode mf previous st)) =
     (if mf_write mf = None then Some (mode_name (ms_mode st))
      else if previous < ms_mode st \<or> \<not> mf_discard_ok mf then ms_file st else None)"
  by (auto simp: save_mode_def less_perm_mode_def Let_def split: option.splits)

lemma set_mode_state:
  "fst (set_mode mf name st) =
     (case resolve_mode name of
        Inl e \<Rightarrow> st
      | Inr m \<Rightarrow> fst (save_mode mf (ms_mode st) (st\<lparr>ms_mode := m\<rparr>)))"
  by (simp add: set_mode_def split: sum.splits prod.splits)

lemma cycle_mode_state:
  "\<exists>m. fst (cycle_mode mf step st) = fst (save_mode mf (ms_mode st) (st\<lparr>ms_mode := m\<rparr>))"
proof
  let ?m = "MODES ! nat ((int (mode_rank (ms_mode st)) + step) mod int (length MODES))"
  show "fst (cycle_mode mf step st) = fst (save_mode mf (ms_mode st) (st\<lparr>ms_mode := ?m\<rparr>))"
    by (simp add: cycle_mode_def Let_def split: sum.splits prod.splits)
qed

text \<open>
  A persistent change fails closed: setting or cycling the mode reports success exactly when the
  new mode is in force and saved; when it cannot be saved, a raise is undone and a lowering stays;
  and unless the disk refuses both the write and the removal, the mode the next start restores is
  not above the session's mode and manual if it was not before.
\<close>

theorem mode_change_fails_closed:
  "(let st' = fst (set_mode mf name st) in
      (is_ok (snd (set_mode mf name st)) \<longleftrightarrow> is_ok (resolve_mode name) \<and> mf_write mf = None)
      \<and> (\<forall>m. resolve_mode name = Inr m \<longrightarrow>
           ms_mode st' = (if mf_write mf \<noteq> None then min (ms_mode st) m else m)
           \<and> (mf_write mf = None \<longrightarrow> load_mode (ms_file st') = m)))
   \<and> (\<forall>st' \<in> {fst (set_mode mf name st), fst (cycle_mode mf step st)}.
        load_mode (ms_file st) \<le> max (ms_mode st) MANUAL \<and> (mf_write mf = None \<or> mf_discard_ok mf)
        \<longrightarrow> load_mode (ms_file st') \<le> max (ms_mode st') MANUAL)"
proof -
  have ok: "is_ok (snd (save_mode mf p u)) \<longleftrightarrow> mf_write mf = None" for p u
    by (simp add: save_mode_def Let_def split: option.splits)
  have res: "is_ok (snd (set_mode mf name st)) \<longleftrightarrow> is_ok (resolve_mode name) \<and> mf_write mf = None"
  proof (cases "resolve_mode name")
    case (Inr m)
    then show ?thesis
      using ok[of "ms_mode st" "st\<lparr>ms_mode := m\<rparr>"]
      by (cases "save_mode mf (ms_mode st) (st\<lparr>ms_mode := m\<rparr>)") (auto simp: set_mode_def split: sum.splits)
  qed (simp add: set_mode_def)
  have keep: "load_mode (ms_file (fst (save_mode mf (ms_mode st) (st\<lparr>ms_mode := m\<rparr>))))
      \<le> max (ms_mode (fst (save_mode mf (ms_mode st) (st\<lparr>ms_mode := m\<rparr>)))) MANUAL"
    if "load_mode (ms_file st) \<le> max (ms_mode st) MANUAL" "mf_write mf = None \<or> mf_discard_ok mf" for m
    using that by (auto simp: save_mode_mode save_mode_file)
  obtain m where cyc: "fst (cycle_mode mf step st) = fst (save_mode mf (ms_mode st) (st\<lparr>ms_mode := m\<rparr>))"
    using cycle_mode_state by blast
  have "load_mode (ms_file st') \<le> max (ms_mode st') MANUAL"
    if "st' \<in> {fst (set_mode mf name st), fst (cycle_mode mf step st)}"
      "load_mode (ms_file st) \<le> max (ms_mode st) MANUAL" "mf_write mf = None \<or> mf_discard_ok mf" for st'
    using that(1) keep[OF that(2,3)] that(2) by (auto simp: set_mode_state cyc split: sum.splits)
  with res show ?thesis
    by (auto simp: Let_def set_mode_state save_mode_mode save_mode_file min_def)
qed

definition example_session :: mode_state where
  "example_session = start_session (Some ''auto'')"

theorem mode_change_fails_closed_witness:
  "resolve_mode ''man'' = Inr MANUAL
   \<and> ms_mode (fst (set_mode \<lparr>mf_write = Some ''ENOSPC'', mf_discard_ok = True\<rparr> ''man'' example_session)) = MANUAL
   \<and> load_mode (ms_file (fst (set_mode \<lparr>mf_write = Some ''ENOSPC'', mf_discard_ok = True\<rparr> ''man'' example_session))) \<le> MANUAL"
proof -
  have r: "resolve_mode ''man'' = Inr MANUAL" "ms_mode example_session = AUTO"
    "load_mode (ms_file example_session) = AUTO" "min AUTO MANUAL = MANUAL"
    by code_simp+
  show ?thesis
    using mode_change_fails_closed[of "\<lparr>mf_write = Some ''ENOSPC'', mf_discard_ok = True\<rparr>" "''man''" example_session 0] r
    by (clarsimp simp: Let_def)
qed

text \<open>A call of the tool by a caller nobody is present for, with the faults it meets.\<close>

fun unattended_calls :: "(mode_faults \<times> string \<times> bool) list \<Rightarrow> mode_state \<Rightarrow> mode_state" where
  "unattended_calls [] st = st"
| "unattended_calls ((mf, mode, explain) # calls) st =
     unattended_calls calls (fst (permission_mode mf False mode explain st))"

definition mode_within :: "perm_mode \<Rightarrow> mode_state \<Rightarrow> bool" where
  "mode_within b st = (ms_mode st \<le> b \<and> load_mode (ms_file st) \<le> b)"

lemma escalation_bound:
  "\<not> is_unattended_escalation current target \<Longrightarrow> current \<le> b \<Longrightarrow> MANUAL \<le> b \<Longrightarrow> target \<le> b"
  by (cases current; cases target; cases b)
    (simp_all add: is_unattended_escalation_def less_eq_perm_mode_def DEFAULT_MODE_def)

lemma save_mode_within:
  "mode_within b st \<Longrightarrow> m \<le> b \<Longrightarrow> MANUAL \<le> b \<Longrightarrow> mode_within b (fst (save_mode mf (ms_mode st) (st\<lparr>ms_mode := m\<rparr>)))"
  by (auto simp: mode_within_def save_mode_mode save_mode_file)

lemma permission_mode_within:
  assumes "mode_within b st" "MANUAL \<le> b"
  shows "mode_within b (fst (permission_mode mf False mode explain st))"
proof (cases "resolve_mode (py_strip mode)")
  case (Inr m)
  have "mode_within b (fst (set_mode mf (py_strip mode) st))" if "\<not> is_unattended_escalation (ms_mode st) m"
    using escalation_bound[OF that] assms Inr save_mode_within[OF assms(1)]
    by (auto simp: set_mode_state mode_within_def)
  then show ?thesis
    using assms(1) Inr
    by (auto simp: permission_mode_def Let_def escalation_refused_def split: option.splits sum.splits prod.splits)
qed (use assms(1) in \<open>auto simp: permission_mode_def Let_def escalation_refused_def split: option.splits\<close>)

text \<open>
  (C17) Raising autonomy is for attended callers: whatever an unattended caller asks of the
  \<^verbatim>\<open>permission_mode\<close> tool, however often and whatever the disk does, neither the session's mode nor the
  mode the next start restores rises above a bound, manual or higher, that both respected before.
\<close>

theorem unattended_never_escalates:
  assumes "MANUAL \<le> b" "ms_mode st \<le> b" "load_mode (ms_file st) \<le> b"
  shows "ms_mode (unattended_calls calls st) \<le> b \<and> load_mode (ms_file (unattended_calls calls st)) \<le> b"
proof -
  have "mode_within b (unattended_calls calls st)"
    using assms permission_mode_within[of b]
    by (induction calls arbitrary: st rule: list.induct)
      (auto simp: mode_within_def split_beta elim!: unattended_calls.elims)
  then show ?thesis
    by (simp add: mode_within_def)
qed

definition example_calls :: "(mode_faults \<times> string \<times> bool) list" where
  "example_calls = [(\<lparr>mf_write = None, mf_discard_ok = True\<rparr>, ''auto'', False),
                    (\<lparr>mf_write = None, mf_discard_ok = True\<rparr>, ''plan'', False),
                    (\<lparr>mf_write = None, mf_discard_ok = True\<rparr>, ''man'', False)]"

theorem unattended_never_escalates_witness:
  "ms_mode (unattended_calls example_calls (start_session None)) = MANUAL
   \<and> ms_mode (unattended_calls (take 2 example_calls) (start_session None)) \<le> MANUAL"
proof -
  have "ms_mode (start_session None) \<le> MANUAL" "load_mode (ms_file (start_session None)) \<le> MANUAL"
    by code_simp+
  moreover have "ms_mode (unattended_calls example_calls (start_session None)) = MANUAL"
    by code_simp
  ultimately show ?thesis
    using unattended_never_escalates[of MANUAL "start_session None" "take 2 example_calls"] by simp
qed

text \<open>
  The refusal is checked and the mode set under separate readings of the state: a caller that
  asks for \<^verbatim>\<open>auto\<close> while the mode is auto passes the check, and if a person lowers the mode to plan
  before the setting step, that step raises it to auto again.
\<close>

theorem escalation_check_races:
  "let st0 = start_session (Some ''auto'');
       ok = \<lparr>mf_write = None, mf_discard_ok = True\<rparr>;
       passed = escalation_refused False ''auto'' st0;
       st1 = fst (set_mode ok ''plan'' st0);
       st2 = fst (set_mode ok ''auto'' st1)
   in passed = Inr False \<and> ms_mode st1 = PLAN \<and> escalation_refused False ''auto'' st1 = Inr True
      \<and> ms_mode st2 = AUTO \<and> load_mode (ms_file st2) = AUTO"
  by code_simp

end
