(* ===== verification/ApprovalLedger.thy ===== *)
theory ApprovalLedger
  imports Prelude "HOL-Library.Sublist"
begin

text \<open>
  \<^verbatim>\<open>sonder_runtime/adapters/security/approval_ledger.py\<close>: one-shot approvals of exactly one refused call
  and the calls that asked for one. The two tables are lists of rows; a method is one transaction on
  them. The clock reading, the random part of a nonce and the preview redactor are arguments.
\<close>

section \<open>Rows and tables\<close>

record pending_call =
  pc_digest :: string
  pc_tool :: string
  pc_surface :: string
  pc_preview :: string
  pc_first_ts :: rat
  pc_last_ts :: rat
  pc_count :: nat

record approval =
  ap_nonce :: string
  ap_tool :: string
  ap_digest :: string
  ap_approver :: string
  ap_surface :: string
  ap_preview :: string
  ap_issued_ts :: rat
  ap_expires_ts :: rat
  ap_consumed_ts :: "rat option"
  ap_consumed_surface :: string
  ap_revoked_ts :: "rat option"

record ledger =
  lg_pending :: "pending_call list"
  lg_approvals :: "approval list"

definition empty_ledger :: ledger where
  "empty_ledger = \<lparr>lg_pending = [], lg_approvals = []\<rparr>"

definition call_id :: "string \<Rightarrow> string" where
  "call_id digest = take 16 digest"

definition approval_open :: "rat \<Rightarrow> approval \<Rightarrow> bool" where
  "approval_open now a = (ap_consumed_ts a = None \<and> ap_revoked_ts a = None \<and> now < ap_expires_ts a)"

definition approval_state :: "rat \<Rightarrow> approval \<Rightarrow> string" where
  "approval_state now a =
     (if ap_revoked_ts a \<noteq> None then ''revoked''
      else if ap_consumed_ts a \<noteq> None then ''spent''
      else if \<not> approval_open now a then ''expired'' else ''open'')"

definition clamp_ttl :: "int option \<Rightarrow> int res" where
  \<comment> \<open>the argument is what \<^verbatim>\<open>int(ttl_seconds)\<close> gives, nothing when it raises\<close>
  "clamp_ttl ttl_seconds =
     (case ttl_seconds of
        None \<Rightarrow> Inl (ApprovalLedgerError ''ttl_seconds must be a whole number of seconds'')
      | Some ttl \<Rightarrow>
          if ttl < 60 \<or> 86400 < ttl
          then Inl (ApprovalLedgerError ''ttl_seconds must be between 60 and 86400'')
          else Inr ttl)"

text \<open>The arguments as every method cleans them.\<close>

definition clean_tool :: "string \<Rightarrow> string" where
  "clean_tool tool = py_lstrip (CHR ''/'') (py_strip tool)"

definition clean_digest :: "string \<Rightarrow> string" where
  "clean_digest digest = py_lower (py_strip digest)"

type_synonym redactor = "(string \<Rightarrow> string option) option"

definition clean_preview :: "redactor \<Rightarrow> string \<Rightarrow> string" where
  \<comment> \<open>a redactor that raises gives nothing, and nothing of the raw text is kept\<close>
  "clean_preview redact preview =
     take 200 (case redact of
                 None \<Rightarrow> preview
               | Some f \<Rightarrow> (case f preview of Some t \<Rightarrow> t | None \<Rightarrow> []))"

definition prune :: "rat \<Rightarrow> ledger \<Rightarrow> ledger" where
  "prune now L =
     \<lparr>lg_pending = filter (\<lambda>p. \<not> pc_last_ts p < now - 7 * 86400) (lg_pending L),
      lg_approvals =
        filter (\<lambda>a. \<not> (ap_expires_ts a < now - 30 * 86400
                       \<and> (ap_consumed_ts a \<noteq> None \<or> ap_revoked_ts a \<noteq> None
                          \<or> ap_expires_ts a < now - 30 * 86400)))
          (lg_approvals L)\<rparr>"

text \<open>\<^verbatim>\<open>UPDATE ... WHERE\<close>: the table with the selected rows changed, and the row count.\<close>

definition update_where :: "('r \<Rightarrow> bool) \<Rightarrow> ('r \<Rightarrow> 'r) \<Rightarrow> 'r list \<Rightarrow> 'r list" where
  "update_where P f rows = map (\<lambda>r. if P r then f r else r) rows"

abbreviation count_where :: "('r \<Rightarrow> bool) \<Rightarrow> 'r list \<Rightarrow> nat" where
  "count_where P rows \<equiv> length (filter P rows)"

definition row_of :: "string \<Rightarrow> approval list \<Rightarrow> approval option" where
  "row_of nonce rows = find (\<lambda>a. ap_nonce a = nonce) rows"

section \<open>Pending calls\<close>

definition record_pending ::
  "redactor \<Rightarrow> rat \<Rightarrow> string \<Rightarrow> string \<Rightarrow> string \<Rightarrow> string \<Rightarrow> ledger \<Rightarrow> ledger \<times> pending_call res" where
  "record_pending redact now tool0 digest0 surface preview L =
     (let tool = clean_tool tool0; digest = clean_digest digest0 in
      if tool = [] \<or> length digest \<noteq> 64
      then (L, Inl (ApprovalLedgerError ''a pending call needs a tool and a full digest''))
      else
        let clean = clean_preview redact preview; L1 = prune now L in
        case find (\<lambda>p. pc_digest p = digest) (lg_pending L1) of
          None \<Rightarrow>
            let p = \<lparr>pc_digest = digest, pc_tool = tool, pc_surface = surface, pc_preview = clean,
                     pc_first_ts = now, pc_last_ts = now, pc_count = 1\<rparr>
            in (L1\<lparr>lg_pending := lg_pending L1 @ [p]\<rparr>, Inr p)
        | Some q \<Rightarrow>
            let p = q\<lparr>pc_last_ts := now, pc_surface := surface,
                      pc_preview := (if clean \<noteq> [] then clean else pc_preview q),
                      pc_count := pc_count q + 1\<rparr>
            in (L1\<lparr>lg_pending := update_where (\<lambda>r. pc_digest r = digest) (\<lambda>_. p) (lg_pending L1)\<rparr>, Inr p))"

definition resolve_call :: "string \<Rightarrow> ledger \<Rightarrow> pending_call res" where
  \<comment> \<open>of the matching rows the source fetches two at most, enough to see that there are several\<close>
  "resolve_call call_id_or_digest L =
     (let p = py_lower (py_strip call_id_or_digest) in
      if length p < 8 \<or> \<not> list_all hex_char p
      then Inl (ApprovalLedgerError ''a call id is at least 8 hex characters (see /approvals)'')
      else case filter (\<lambda>r. prefix p (pc_digest r)) (lg_pending L) of
        [] \<Rightarrow> Inl (ApprovalLedgerError (''no pending call starts with '' @ CHR 0x27 # p @ [CHR 0x27]))
      | [r] \<Rightarrow> Inr r
      | _ \<Rightarrow> Inl (ApprovalLedgerError
               (''call id '' @ CHR 0x27 # p @ CHR 0x27 # '' is ambiguous; give more characters'')))"

definition page_size :: "int \<Rightarrow> nat" where
  "page_size limit = nat (max 1 (min limit 200))"

definition pending :: "int \<Rightarrow> ledger \<Rightarrow> pending_call list" where
  "pending limit L = take (page_size limit) (sorted_rev_key pc_last_ts (lg_pending L))"

section \<open>Approvals\<close>

definition issue ::
  "redactor \<Rightarrow> rat \<Rightarrow> string \<Rightarrow> string \<Rightarrow> string \<Rightarrow> string \<Rightarrow> string \<Rightarrow> int option \<Rightarrow> string \<Rightarrow> ledger
   \<Rightarrow> ledger \<times> approval res" where
  "issue redact now token tool0 digest0 approver0 surface ttl_seconds preview L =
     (let tool = clean_tool tool0; digest = clean_digest digest0; approver = py_strip approver0 in
      if tool = [] \<or> length digest \<noteq> 64
      then (L, Inl (ApprovalLedgerError ''an approval needs a tool and a full digest''))
      else if approver = []
      then (L, Inl (ApprovalLedgerError ''an approval must name who approved it''))
      else case clamp_ttl ttl_seconds of
        Inl e \<Rightarrow> (L, Inl e)
      | Inr ttl \<Rightarrow>
          let nonce = ''apv_'' @ token; L1 = prune now L;
              clean0 = clean_preview redact preview;
              clean = (if clean0 = []
                       then (case find (\<lambda>p. pc_digest p = digest) (lg_pending L1) of
                               Some p \<Rightarrow> pc_preview p | None \<Rightarrow> [])
                       else clean0);
              a = \<lparr>ap_nonce = nonce, ap_tool = tool, ap_digest = digest, ap_approver = approver,
                   ap_surface = surface, ap_preview = clean, ap_issued_ts = now,
                   ap_expires_ts = now + of_int ttl, ap_consumed_ts = None,
                   ap_consumed_surface = [], ap_revoked_ts = None\<rparr>
          in if nonce \<in> ap_nonce ` set (lg_approvals L1)
             then (L, Inl (IntegrityError ''UNIQUE constraint failed: approvals.nonce''))
             else (L1\<lparr>lg_approvals := lg_approvals L1 @ [a]\<rparr>, Inr a))"

definition consume :: "rat \<Rightarrow> string \<Rightarrow> string \<Rightarrow> string \<Rightarrow> ledger \<Rightarrow> ledger \<times> approval option" where
  "consume now tool0 digest0 surface L =
     (let tool = clean_tool tool0; digest = clean_digest digest0 in
      if tool = [] \<or> length digest \<noteq> 64 then (L, None)
      else case sort_key ap_issued_ts
                  (filter (\<lambda>a. ap_tool a = tool \<and> ap_digest a = digest \<and> approval_open now a) (lg_approvals L)) of
        [] \<Rightarrow> (L, None)
      | row # _ \<Rightarrow>
          let sel = (\<lambda>a. ap_nonce a = ap_nonce row \<and> ap_consumed_ts a = None \<and> ap_revoked_ts a = None);
              rows = update_where sel (\<lambda>a. a\<lparr>ap_consumed_ts := Some now, ap_consumed_surface := surface\<rparr>)
                       (lg_approvals L)
          in if count_where sel (lg_approvals L) \<noteq> 1 then (L\<lparr>lg_approvals := rows\<rparr>, None)
             else (L\<lparr>lg_approvals := rows,
                     lg_pending := filter (\<lambda>p. pc_digest p \<noteq> digest) (lg_pending L)\<rparr>,
                   row_of (ap_nonce row) rows))"

definition restore :: "rat \<Rightarrow> string \<Rightarrow> string \<Rightarrow> ledger \<Rightarrow> ledger \<times> approval option" where
  "restore now nonce0 digest0 L =
     (let nonce = py_strip nonce0; digest = clean_digest digest0;
          sel = (\<lambda>a. ap_nonce a = nonce \<and> ap_digest a = digest \<and> ap_consumed_ts a \<noteq> None
                     \<and> ap_revoked_ts a = None \<and> now < ap_expires_ts a);
          rows = update_where sel (\<lambda>a. a\<lparr>ap_consumed_ts := None, ap_consumed_surface := []\<rparr>) (lg_approvals L)
      in (L\<lparr>lg_approvals := rows\<rparr>,
          if count_where sel (lg_approvals L) \<noteq> 1 then None else row_of nonce rows))"

definition revoke :: "rat \<Rightarrow> string \<Rightarrow> ledger \<Rightarrow> ledger \<times> approval option" where
  "revoke now nonce0 L =
     (let nonce = py_strip nonce0;
          sel = (\<lambda>a. ap_nonce a = nonce \<and> ap_consumed_ts a = None \<and> ap_revoked_ts a = None
                     \<and> now < ap_expires_ts a);
          rows = update_where sel (\<lambda>a. a\<lparr>ap_revoked_ts := Some now\<rparr>) (lg_approvals L)
      in (L\<lparr>lg_approvals := rows\<rparr>,
          if count_where sel (lg_approvals L) \<noteq> 1 then None else row_of nonce rows))"

definition get_approval :: "string \<Rightarrow> ledger \<Rightarrow> approval option" where
  "get_approval nonce L = row_of (py_strip nonce) (lg_approvals L)"

definition approvals :: "rat \<Rightarrow> bool \<Rightarrow> int \<Rightarrow> ledger \<Rightarrow> approval list" where
  "approvals now include_spent limit L =
     take (page_size limit)
       (sorted_rev_key ap_issued_ts
          (if include_spent then lg_approvals L else filter (approval_open now) (lg_approvals L)))"

section \<open>Histories\<close>

datatype ledger_op =
    OpPending rat string string string string
  | OpIssue rat string string string string string "int option" string
  | OpConsume rat string string string
  | OpRestore rat string string
  | OpRevoke rat string

datatype ledger_event =
    EvNothing
  | EvError py_exn
  | EvPending pending_call
  | EvIssued approval
  | EvSpent rat string string approval
  | EvRestored rat string approval
  | EvRevoked rat approval

fun ledger_exec :: "redactor \<Rightarrow> ledger_op \<Rightarrow> ledger \<Rightarrow> ledger \<times> ledger_event" where
  "ledger_exec redact (OpPending now tool digest surface preview) L =
     (let (L', r) = record_pending redact now tool digest surface preview L
      in (L', case r of Inl e \<Rightarrow> EvError e | Inr p \<Rightarrow> EvPending p))"
| "ledger_exec redact (OpIssue now token tool digest approver surface ttl preview) L =
     (let (L', r) = issue redact now token tool digest approver surface ttl preview L
      in (L', case r of Inl e \<Rightarrow> EvError e | Inr a \<Rightarrow> EvIssued a))"
| "ledger_exec redact (OpConsume now tool digest surface) L =
     (let (L', r) = consume now tool digest surface L
      in (L', case r of None \<Rightarrow> EvNothing | Some a \<Rightarrow> EvSpent now tool digest a))"
| "ledger_exec redact (OpRestore now nonce digest) L =
     (let (L', r) = restore now nonce digest L
      in (L', case r of None \<Rightarrow> EvNothing | Some a \<Rightarrow> EvRestored now digest a))"
| "ledger_exec redact (OpRevoke now nonce) L =
     (let (L', r) = revoke now nonce L
      in (L', case r of None \<Rightarrow> EvNothing | Some a \<Rightarrow> EvRevoked now a))"

fun ledger_trace :: "redactor \<Rightarrow> ledger_op list \<Rightarrow> ledger \<Rightarrow> ledger_event list \<times> ledger" where
  "ledger_trace redact [] L = ([], L)"
| "ledger_trace redact (op # ops) L =
     (let (L1, e) = ledger_exec redact op L; (es, L2) = ledger_trace redact ops L1 in (e # es, L2))"

text \<open>
  The contract of one approval: it is issued for one tool and digest until a time, and is then live;
  a live one is spent by exactly that call before that time, a spent one comes back for that digest
  before that time, a live one is withdrawn for good. Nothing else is allowed.
\<close>

datatype life = Unissued | Live string string rat | Used string string rat | Dead

fun life_step :: "string \<Rightarrow> life \<Rightarrow> ledger_event \<Rightarrow> life option" where
  "life_step n st (EvIssued a) =
     Some (if ap_nonce a = n then Live (ap_tool a) (ap_digest a) (ap_expires_ts a) else st)"
| "life_step n st (EvSpent now tool digest a) =
     (if ap_nonce a \<noteq> n then Some st
      else case st of
        Live t d e \<Rightarrow> if clean_tool tool = t \<and> clean_digest digest = d \<and> now < e then Some (Used t d e) else None
      | _ \<Rightarrow> None)"
| "life_step n st (EvRestored now digest a) =
     (if ap_nonce a \<noteq> n then Some st
      else case st of
        Used t d e \<Rightarrow> if clean_digest digest = d \<and> now < e then Some (Live t d e) else None
      | _ \<Rightarrow> None)"
| "life_step n st (EvRevoked now a) =
     (if ap_nonce a \<noteq> n then Some st
      else case st of Live t d e \<Rightarrow> if now < e then Some Dead else None | _ \<Rightarrow> None)"
| "life_step n st _ = Some st"

fun life_run :: "string \<Rightarrow> life \<Rightarrow> ledger_event list \<Rightarrow> life option" where
  "life_run n st [] = Some st"
| "life_run n st (e # es) = (case life_step n st e of None \<Rightarrow> None | Some st' \<Rightarrow> life_run n st' es)"

definition life_of :: "approval \<Rightarrow> life" where
  "life_of a =
     (if ap_revoked_ts a \<noteq> None then Dead
      else if ap_consumed_ts a \<noteq> None then Used (ap_tool a) (ap_digest a) (ap_expires_ts a)
      else Live (ap_tool a) (ap_digest a) (ap_expires_ts a))"

subsection \<open>Rows by nonce\<close>

abbreviation nonces_ok :: "approval list \<Rightarrow> bool" where
  "nonces_ok rows \<equiv> distinct (map ap_nonce rows)"

lemma row_of_nonce: "row_of n rows = Some a \<Longrightarrow> ap_nonce a = n"
  by (auto simp: row_of_def find_Some_iff)

lemma row_of_in: "row_of n rows = Some a \<Longrightarrow> a \<in> set rows"
  by (auto simp: row_of_def find_Some_iff)

lemma row_of_self: "nonces_ok rows \<Longrightarrow> a \<in> set rows \<Longrightarrow> row_of (ap_nonce a) rows = Some a"
  by (induction rows) (auto simp: row_of_def)

lemma row_of_None: "row_of n rows = None \<longleftrightarrow> n \<notin> ap_nonce ` set rows"
  by (auto simp: row_of_def find_None_iff)

lemma row_of_filter: "nonces_ok rows \<Longrightarrow> row_of n (filter P rows) = Some a \<Longrightarrow> row_of n rows = Some a"
  using row_of_in[of n "filter P rows" a] row_of_nonce[of n "filter P rows" a] row_of_self[of rows a] by auto

lemma row_of_append: "row_of n (rows @ [a]) = (case row_of n rows of Some b \<Rightarrow> Some b | None \<Rightarrow> row_of n [a])"
  by (induction rows) (auto simp: row_of_def)

lemma row_of_update:
  "(\<And>a. ap_nonce (f a) = ap_nonce a) \<Longrightarrow>
   row_of n (update_where P f rows) = map_option (\<lambda>a. if P a then f a else a) (row_of n rows)"
  by (induction rows) (auto simp: row_of_def update_where_def)

lemma nonces_ok_update:
  "(\<And>a. ap_nonce (f a) = ap_nonce a) \<Longrightarrow> nonces_ok (update_where P f rows) = nonces_ok rows"
  by (simp add: update_where_def comp_def if_distrib cong: if_cong)

lemma nonces_ok_filter: "nonces_ok rows \<Longrightarrow> nonces_ok (filter P rows)"
  by (rule distinct_map_filter)

lemma count_where_row:
  assumes "nonces_ok rows" "\<And>a. P a \<Longrightarrow> ap_nonce a = n"
  shows "count_where P rows = (case row_of n rows of Some a \<Rightarrow> if P a then 1 else 0 | None \<Rightarrow> 0)"
  using assms
proof (induction rows)
  case (Cons a rows)
  have "filter P rows = []" if "ap_nonce a = n"
  proof -
    have "\<not> P b" if "b \<in> set rows" for b
      using Cons.prems \<open>ap_nonce a = n\<close> that by (metis distinct.simps(2) image_eqI list.map(2) list.set_map)
    then show ?thesis
      by (simp add: filter_empty_conv)
  qed
  then show ?case
    using Cons by (auto simp: row_of_def)
qed (simp add: row_of_def)

subsection \<open>What the operations do\<close>

definition spend_row :: "rat \<Rightarrow> string \<Rightarrow> approval \<Rightarrow> approval" where
  "spend_row now surface a = a\<lparr>ap_consumed_ts := Some now, ap_consumed_surface := surface\<rparr>"

abbreviation unspent_row :: "string \<Rightarrow> approval \<Rightarrow> bool" where
  "unspent_row n a \<equiv> ap_nonce a = n \<and> ap_consumed_ts a = None \<and> ap_revoked_ts a = None"

abbreviation call_rows :: "rat \<Rightarrow> string \<Rightarrow> string \<Rightarrow> ledger \<Rightarrow> approval list" where
  "call_rows now tool digest L \<equiv>
     filter (\<lambda>a. ap_tool a = clean_tool tool \<and> ap_digest a = clean_digest digest \<and> approval_open now a)
       (lg_approvals L)"

lemma sort_key_eq_ConsD: "sort_key k xs = y # ys \<Longrightarrow> y \<in> set xs"
  by (metis list.set_intros(1) set_sort)

lemma sort_key_Nil_iff: "sort_key k xs = [] \<longleftrightarrow> xs = []"
  by (metis length_0_conv length_sort)

lemma consume_cases:
  assumes ok: "nonces_ok (lg_approvals L)"
  obtains "consume now tool digest surface L = (L, None)"
      "clean_tool tool = [] \<or> length (clean_digest digest) \<noteq> 64 \<or> call_rows now tool digest L = []"
  | a where "row_of (ap_nonce a) (lg_approvals L) = Some a" "approval_open now a"
      "ap_tool a = clean_tool tool" "ap_digest a = clean_digest digest"
      "consume now tool digest surface L =
         (\<lparr>lg_pending = filter (\<lambda>p. pc_digest p \<noteq> clean_digest digest) (lg_pending L),
           lg_approvals = update_where (unspent_row (ap_nonce a)) (spend_row now surface) (lg_approvals L)\<rparr>,
          Some (spend_row now surface a))"
proof (cases "clean_tool tool = [] \<or> length (clean_digest digest) \<noteq> 64 \<or> call_rows now tool digest L = []")
  case True
  then have "consume now tool digest surface L = (L, None)"
    by (auto simp: consume_def Let_def)
  with True that(1) show ?thesis
    by blast
next
  case False
  obtain a rest where rows: "sort_key ap_issued_ts (call_rows now tool digest L) = a # rest"
    using False sort_key_Nil_iff[of ap_issued_ts "call_rows now tool digest L"]
    by (cases "sort_key ap_issued_ts (call_rows now tool digest L)") simp_all
  have a: "a \<in> set (lg_approvals L)" "approval_open now a" "ap_tool a = clean_tool tool" "ap_digest a = clean_digest digest"
    using sort_key_eq_ConsD[OF rows] by simp_all
  have row: "row_of (ap_nonce a) (lg_approvals L) = Some a"
    by (rule row_of_self[OF ok a(1)])
  have live: "ap_consumed_ts a = None" "ap_revoked_ts a = None"
    using a(2) by (simp_all add: approval_open_def)
  have one: "count_where (unspent_row (ap_nonce a)) (lg_approvals L) = 1"
    using count_where_row[OF ok, of "unspent_row (ap_nonce a)" "ap_nonce a"] row live by simp
  have upd: "row_of (ap_nonce a) (update_where (unspent_row (ap_nonce a)) (spend_row now surface) (lg_approvals L))
      = Some (spend_row now surface a)"
    using row live by (simp add: row_of_update spend_row_def)
  have "consume now tool digest surface L =
         (\<lparr>lg_pending = filter (\<lambda>p. pc_digest p \<noteq> clean_digest digest) (lg_pending L),
           lg_approvals = update_where (unspent_row (ap_nonce a)) (spend_row now surface) (lg_approvals L)\<rparr>,
          Some (spend_row now surface a))"
    using False rows one upd unfolding consume_def Let_def spend_row_def by simp
  with that(2)[OF row a(2-4)] show ?thesis
    by blast
qed

lemma update_where_cases:
  assumes ok: "nonces_ok rows" and sel: "\<And>a. P a \<Longrightarrow> ap_nonce a = n" and keep: "\<And>a. ap_nonce (f a) = ap_nonce a"
  obtains (miss) "update_where P f rows = rows" "count_where P rows = 0"
  | (hit) a where "row_of n rows = Some a" "P a" "count_where P rows = 1"
      "row_of n (update_where P f rows) = Some (f a)"
proof (cases "count_where P rows = 0")
  case True
  then have "update_where P f rows = rows"
    unfolding update_where_def by (intro map_idI) (auto simp: filter_empty_conv)
  with True miss show ?thesis
    by blast
next
  case False
  then obtain a where a: "row_of n rows = Some a" "P a" "count_where P rows = 1"
    using count_where_row[OF ok sel] by (auto split: option.splits if_splits)
  moreover have "row_of n (update_where P f rows) = Some (f a)"
    using a by (simp add: row_of_update keep)
  ultimately show ?thesis
    using hit by blast
qed

subsection \<open>The ledger follows the contract\<close>

definition life_sim :: "string \<Rightarrow> ledger \<Rightarrow> life \<Rightarrow> bool" where
  "life_sim n L st = (\<forall>a. row_of n (lg_approvals L) = Some a \<longrightarrow> st = life_of a)"

lemma life_sim_sub:
  assumes "nonces_ok (lg_approvals L)" "life_sim n L st" "lg_approvals L' = filter P (lg_approvals L)"
  shows "life_sim n L' st"
  using assms by (auto simp: life_sim_def dest: row_of_filter)

lemma prune_rows: "\<exists>P. lg_approvals (prune now L) = filter P (lg_approvals L)"
  by (auto simp: prune_def)

definition simulates :: "string \<Rightarrow> life \<Rightarrow> ledger \<times> ledger_event \<Rightarrow> bool" where
  "simulates n st res =
     (nonces_ok (lg_approvals (fst res))
      \<and> (\<exists>st'. life_step n st (snd res) = Some st' \<and> life_sim n (fst res) st'))"

lemma pending_rows:
  "\<exists>P. lg_approvals (fst (record_pending redact now tool digest surface preview L)) = filter P (lg_approvals L)"
proof -
  have "\<exists>P. lg_approvals L = filter P (lg_approvals L)"
    by (rule exI[of _ "\<lambda>_. True"]) simp
  then show ?thesis
    using prune_rows[of now L] by (auto simp: record_pending_def Let_def split: option.splits)
qed

lemma pending_simulates:
  assumes "nonces_ok (lg_approvals L)" "life_sim n L st"
  shows "simulates n st (ledger_exec redact (OpPending now tool digest surface preview) L)"
proof -
  obtain P where "lg_approvals (fst (record_pending redact now tool digest surface preview L)) = filter P (lg_approvals L)"
    using pending_rows by blast
  then show ?thesis
    using assms life_sim_sub[OF assms] nonces_ok_filter
    by (auto simp: simulates_def split_beta split: sum.splits)
qed

lemma issue_result:
  assumes "issue redact now token tool digest approver surface ttl preview L = (L', r)"
  shows "case r of
           Inl e \<Rightarrow> L' = L
         | Inr a \<Rightarrow> ap_nonce a \<notin> ap_nonce ` set (lg_approvals (prune now L))
             \<and> lg_approvals L' = lg_approvals (prune now L) @ [a]
             \<and> ap_tool a = clean_tool tool \<and> ap_digest a = clean_digest digest
             \<and> ap_tool a \<noteq> [] \<and> length (ap_digest a) = 64
             \<and> ap_consumed_ts a = None \<and> ap_revoked_ts a = None
             \<and> (\<exists>t. clamp_ttl ttl = Inr t \<and> ap_expires_ts a = now + of_int t)"
  using assms by (auto simp: issue_def Let_def split: if_splits sum.splits)

lemma issue_simulates:
  assumes "nonces_ok (lg_approvals L)" "life_sim n L st"
  shows "simulates n st (ledger_exec redact (OpIssue now token tool digest approver surface ttl preview) L)"
proof -
  obtain L' r where res: "issue redact now token tool digest approver surface ttl preview L = (L', r)"
    by (cases "issue redact now token tool digest approver surface ttl preview L")
  note spec = issue_result[OF res]
  show ?thesis
  proof (cases r)
    case (Inl e)
    with spec res assms show ?thesis
      by (simp add: simulates_def)
  next
    case (Inr a)
    obtain P where P: "lg_approvals (prune now L) = filter P (lg_approvals L)"
      using prune_rows by blast
    have sub: "life_sim n (prune now L) st"
      by (rule life_sim_sub[OF assms P])
    have "nonces_ok (lg_approvals (prune now L))"
      using P assms(1) nonces_ok_filter by simp
    moreover have "row_of n (lg_approvals L') =
        (if n = ap_nonce a then Some a else row_of n (lg_approvals (prune now L)))"
    proof (cases "n = ap_nonce a")
      case True
      then have "row_of n (lg_approvals (prune now L)) = None"
        using spec Inr by (simp add: row_of_None)
      with True spec Inr show ?thesis
        by (simp add: row_of_append) (simp add: row_of_def)
    next
      case False
      then have "row_of n [a] = None"
        by (simp add: row_of_def)
      with False spec Inr show ?thesis
        by (simp add: row_of_append split: option.splits)
    qed
    ultimately show ?thesis
      using spec res Inr sub by (auto simp: simulates_def life_sim_def life_of_def)
  qed
qed

lemma simulates_update:
  assumes ok: "nonces_ok rows" and sim: "\<forall>c. row_of n rows = Some c \<longrightarrow> st = life_of c"
    and row: "row_of m rows = Some a" "P a" and only: "\<And>c. P c \<Longrightarrow> ap_nonce c = m"
    and keep: "\<And>c. ap_nonce (f c) = ap_nonce c"
    and ev: "life_step n st ev = Some (if n = m then life_of (f a) else st)"
  shows "simulates n st (L\<lparr>lg_approvals := update_where P f rows\<rparr>, ev)"
proof (cases "n = m")
  case True
  then show ?thesis
    using ok row ev by (simp add: simulates_def nonces_ok_update keep life_sim_def row_of_update)
next
  case False
  then have "row_of n (update_where P f rows) = row_of n rows"
    using only row_of_nonce[of n rows] by (cases "row_of n rows") (auto simp: row_of_update keep)
  then show ?thesis
    using False ok sim ev by (simp add: simulates_def nonces_ok_update keep life_sim_def)
qed

lemma simulates_idle:
  "nonces_ok (lg_approvals L) \<Longrightarrow> life_sim n L st \<Longrightarrow> simulates n st (L, EvNothing)"
  by (simp add: simulates_def)

lemma consume_simulates:
  assumes ok: "nonces_ok (lg_approvals L)" and sim: "life_sim n L st"
  shows "simulates n st (ledger_exec redact (OpConsume now tool digest surface) L)"
proof (rule consume_cases[OF ok, of now tool digest surface])
  assume "consume now tool digest surface L = (L, None)"
  then show ?thesis
    using simulates_idle[OF assms] by simp
next
  fix a
  assume a: "row_of (ap_nonce a) (lg_approvals L) = Some a" "approval_open now a"
      "ap_tool a = clean_tool tool" "ap_digest a = clean_digest digest"
    and c: "consume now tool digest surface L =
         (\<lparr>lg_pending = filter (\<lambda>p. pc_digest p \<noteq> clean_digest digest) (lg_pending L),
           lg_approvals = update_where (unspent_row (ap_nonce a)) (spend_row now surface) (lg_approvals L)\<rparr>,
          Some (spend_row now surface a))"
  have "st = life_of a" if "n = ap_nonce a"
    using sim a(1) that by (simp add: life_sim_def)
  then have "life_step n st (EvSpent now tool digest (spend_row now surface a)) =
      Some (if n = ap_nonce a then life_of (spend_row now surface a) else st)"
    using a(2-4) by (auto simp: spend_row_def life_of_def approval_open_def)
  then have "simulates n st (L\<lparr>lg_approvals := update_where (unspent_row (ap_nonce a)) (spend_row now surface) (lg_approvals L)\<rparr>,
      EvSpent now tool digest (spend_row now surface a))"
    using a sim ok by (intro simulates_update[of _ _ _ "ap_nonce a" a])
      (auto simp: life_sim_def approval_open_def spend_row_def)
  then show ?thesis
    by (simp add: c simulates_def life_sim_def)
qed

lemma restore_simulates:
  assumes ok: "nonces_ok (lg_approvals L)" and sim: "life_sim n L st"
  shows "simulates n st (ledger_exec redact (OpRestore now nonce digest) L)"
proof -
  let ?P = "\<lambda>a. ap_nonce a = py_strip nonce \<and> ap_digest a = clean_digest digest \<and> ap_consumed_ts a \<noteq> None
                     \<and> ap_revoked_ts a = None \<and> now < ap_expires_ts a"
  let ?f = "\<lambda>a. a\<lparr>ap_consumed_ts := None, ap_consumed_surface := []\<rparr>"
  show ?thesis
  proof (rule update_where_cases[OF ok, of ?P "py_strip nonce" ?f])
    assume "update_where ?P ?f (lg_approvals L) = lg_approvals L" "count_where ?P (lg_approvals L) = 0"
    then have "restore now nonce digest L = (L, None)"
      by (simp add: restore_def Let_def)
    then show ?thesis
      using simulates_idle[OF assms] by simp
  next
    fix a
    assume a: "row_of (py_strip nonce) (lg_approvals L) = Some a" "?P a" "count_where ?P (lg_approvals L) = 1"
      "row_of (py_strip nonce) (update_where ?P ?f (lg_approvals L)) = Some (?f a)"
    have "st = life_of a" if "n = py_strip nonce"
      using sim a(1) that by (simp add: life_sim_def)
    then have "life_step n st (EvRestored now digest (?f a)) = Some (if n = py_strip nonce then life_of (?f a) else st)"
      using a(2) by (auto simp: life_of_def)
    then have "simulates n st (L\<lparr>lg_approvals := update_where ?P ?f (lg_approvals L)\<rparr>, EvRestored now digest (?f a))"
      using a sim ok by (intro simulates_update[of _ _ _ "py_strip nonce" a]) (auto simp: life_sim_def)
    moreover have "restore now nonce digest L = (L\<lparr>lg_approvals := update_where ?P ?f (lg_approvals L)\<rparr>, Some (?f a))"
      using a(3,4) by (simp add: restore_def Let_def)
    ultimately show ?thesis
      by simp
  qed auto
qed

lemma revoke_simulates:
  assumes ok: "nonces_ok (lg_approvals L)" and sim: "life_sim n L st"
  shows "simulates n st (ledger_exec redact (OpRevoke now nonce) L)"
proof -
  let ?P = "\<lambda>a. ap_nonce a = py_strip nonce \<and> ap_consumed_ts a = None \<and> ap_revoked_ts a = None
                     \<and> now < ap_expires_ts a"
  let ?f = "\<lambda>a. a\<lparr>ap_revoked_ts := Some now\<rparr>"
  show ?thesis
  proof (rule update_where_cases[OF ok, of ?P "py_strip nonce" ?f])
    assume "update_where ?P ?f (lg_approvals L) = lg_approvals L" "count_where ?P (lg_approvals L) = 0"
    then have "revoke now nonce L = (L, None)"
      by (simp add: revoke_def Let_def)
    then show ?thesis
      using simulates_idle[OF assms] by simp
  next
    fix a
    assume a: "row_of (py_strip nonce) (lg_approvals L) = Some a" "?P a" "count_where ?P (lg_approvals L) = 1"
      "row_of (py_strip nonce) (update_where ?P ?f (lg_approvals L)) = Some (?f a)"
    have "st = life_of a" if "n = py_strip nonce"
      using sim a(1) that by (simp add: life_sim_def)
    then have "life_step n st (EvRevoked now (?f a)) = Some (if n = py_strip nonce then life_of (?f a) else st)"
      using a(2) by (auto simp: life_of_def)
    then have "simulates n st (L\<lparr>lg_approvals := update_where ?P ?f (lg_approvals L)\<rparr>, EvRevoked now (?f a))"
      using a sim ok by (intro simulates_update[of _ _ _ "py_strip nonce" a]) (auto simp: life_sim_def)
    moreover have "revoke now nonce L = (L\<lparr>lg_approvals := update_where ?P ?f (lg_approvals L)\<rparr>, Some (?f a))"
      using a(3,4) by (simp add: revoke_def Let_def)
    ultimately show ?thesis
      by simp
  qed auto
qed

lemmas exec_simulates = pending_simulates issue_simulates consume_simulates restore_simulates revoke_simulates

lemma trace_follows_life:
  assumes "nonces_ok (lg_approvals L)" "life_sim n L st"
  shows "\<exists>st'. life_run n st (fst (ledger_trace redact ops L)) = Some st'
           \<and> life_sim n (snd (ledger_trace redact ops L)) st'"
  using assms
proof (induction ops arbitrary: L st)
  case (Cons op ops)
  obtain L1 e where exec: "ledger_exec redact op L = (L1, e)"
    by (cases "ledger_exec redact op L")
  have "simulates n st (L1, e)"
    using exec_simulates[OF Cons.prems] exec by (cases op) metis+
  then obtain st1 where "life_step n st e = Some st1" "life_sim n L1 st1" "nonces_ok (lg_approvals L1)"
    by (auto simp: simulates_def)
  then show ?case
    using Cons.IH[of L1 st1] exec by (simp add: split_beta)
qed simp

text \<open>
  (C10) The ledger implements the contract of a one-shot approval: whatever sequence of operations is
  run on an empty ledger, at whatever clock readings, the events concerning one nonce are exactly
  events the contract allows, and a row still stored is in the state the contract gives it.
\<close>

theorem ledger_refines_contract:
  "\<exists>st. life_run n Unissued (fst (ledger_trace redact ops empty_ledger)) = Some st
      \<and> map_option life_of (row_of n (lg_approvals (snd (ledger_trace redact ops empty_ledger)))) \<in> {None, Some st}"
proof -
  have "nonces_ok (lg_approvals empty_ledger)" "life_sim n empty_ledger Unissued"
    by (simp_all add: empty_ledger_def life_sim_def row_of_def)
  from trace_follows_life[OF this, of redact ops] show ?thesis
    unfolding life_sim_def by auto
qed

subsection \<open>One use per approval\<close>

fun issues :: "string \<Rightarrow> ledger_event \<Rightarrow> bool" where
  "issues n (EvIssued a) = (ap_nonce a = n)"
| "issues n _ = False"

fun spends :: "string \<Rightarrow> ledger_event \<Rightarrow> bool" where
  "spends n (EvSpent now tool digest a) = (ap_nonce a = n)"
| "spends n _ = False"

fun restores :: "string \<Rightarrow> ledger_event \<Rightarrow> bool" where
  "restores n (EvRestored now digest a) = (ap_nonce a = n)"
| "restores n _ = False"

fun revokes :: "string \<Rightarrow> ledger_event \<Rightarrow> bool" where
  "revokes n (EvRevoked now a) = (ap_nonce a = n)"
| "revokes n _ = False"

fun credit :: "life \<Rightarrow> nat" where
  "credit (Live t d e) = 1"
| "credit _ = 0"

lemma life_step_credit:
  "life_step n st e = Some st' \<Longrightarrow>
   of_bool (spends n e) + credit st' \<le> of_bool (issues n e) + of_bool (restores n e) + credit st"
  by (cases e; cases st) (auto split: if_splits)

lemma life_run_credit:
  "life_run n st es = Some st' \<Longrightarrow>
   count_where (spends n) es + credit st' \<le> count_where (issues n) es + count_where (restores n) es + credit st"
proof (induction es arbitrary: st)
  case (Cons e es)
  then obtain st1 where st1: "life_step n st e = Some st1" "life_run n st1 es = Some st'"
    by (auto split: option.splits)
  show ?case
    using life_step_credit[OF st1(1)] Cons.IH[OF st1(2)] by (auto split: if_splits)
qed simp

lemma life_run_append:
  "life_run n st (xs @ ys) = (case life_run n st xs of None \<Rightarrow> None | Some st' \<Rightarrow> life_run n st' ys)"
  by (induction xs arbitrary: st) (auto split: option.splits)

lemma life_step_revoke: "revokes n e \<Longrightarrow> life_step n st e = Some st' \<Longrightarrow> st' = Dead"
  by (cases e) (auto split: life.splits if_splits)

lemma life_step_dead: "life_step n Dead e = Some st' \<Longrightarrow> \<not> issues n e \<Longrightarrow> st' = Dead \<and> \<not> spends n e"
  by (cases e) (auto split: if_splits)

lemma life_run_dead: "life_run n Dead es = Some st' \<Longrightarrow> \<not> list_ex (issues n) es \<Longrightarrow> \<not> list_ex (spends n) es"
  by (induction es) (auto split: option.splits dest: life_step_dead)

text \<open>
  An approval is good for one call: over any history, the calls that spent a nonce are at most
  the times it was issued plus the times it was given back, and once withdrawn it is never spent
  again unless the same nonce is issued anew.
\<close>

theorem approval_one_shot:
  "count_where (spends n) (fst (ledger_trace redact ops empty_ledger))
     \<le> count_where (issues n) (fst (ledger_trace redact ops empty_ledger))
        + count_where (restores n) (fst (ledger_trace redact ops empty_ledger))
   \<and> (\<forall>xs e ys f zs. fst (ledger_trace redact ops empty_ledger) = xs @ e # ys @ f # zs
        \<and> revokes n e \<and> spends n f \<longrightarrow> list_ex (issues n) ys)"
proof -
  let ?evs = "fst (ledger_trace redact ops empty_ledger)"
  obtain st where run: "life_run n Unissued ?evs = Some st"
    using trace_follows_life[of empty_ledger n Unissued redact ops]
    by (auto simp: empty_ledger_def life_sim_def row_of_def)
  have "list_ex (issues n) ys" if evs: "?evs = xs @ e # ys @ f # zs" and rev: "revokes n e" and sp: "spends n f" for xs e ys f zs
  proof (rule ccontr)
    assume fresh: "\<not> list_ex (issues n) ys"
    obtain st1 where "life_run n st1 (e # ys @ f # zs) = Some st"
      using run[unfolded evs life_run_append] by (auto split: option.splits)
    then have "life_run n Dead (ys @ f # zs) = Some st"
      using life_step_revoke[OF rev] by (auto split: option.splits)
    then have "\<exists>st2. life_run n Dead (ys @ [f]) = Some st2"
      unfolding life_run_append by (auto split: option.splits)
    moreover have "\<not> issues n f"
      using sp by (cases f) auto
    ultimately have "\<not> list_ex (spends n) (ys @ [f])"
      using life_run_dead[of n "ys @ [f]"] fresh by auto
    with sp show False
      by simp
  qed
  with life_run_credit[OF run] show ?thesis
    by auto
qed

definition example_digest :: string where
  "example_digest = replicate 64 CHR ''a''"

definition example_history :: "ledger_op list" where
  "example_history =
     [OpIssue 0 ''1'' ''file_write'' example_digest ''operator'' [] (Some 60) [],
      OpConsume 10 ''file_write'' example_digest ''mcp'', OpConsume 20 ''file_write'' example_digest ''mcp'',
      OpIssue 30 ''2'' ''file_write'' example_digest ''operator'' [] (Some 60) [], OpRevoke 40 ''apv_2'']"

lemma example_events:
  "list_ex (revokes ''apv_2'') (fst (ledger_trace None example_history empty_ledger))"
  "count_where (spends ''apv_1'') (fst (ledger_trace None example_history empty_ledger)) = 1"
  "count_where (issues ''apv_1'') (fst (ledger_trace None example_history empty_ledger)) = 1"
  by code_simp+

theorem approval_one_shot_witness:
  "list_ex (revokes ''apv_2'') (fst (ledger_trace None example_history empty_ledger))
   \<and> count_where (spends ''apv_1'') (fst (ledger_trace None example_history empty_ledger)) = 1
   \<and> count_where (spends ''apv_1'') (fst (ledger_trace None example_history empty_ledger))
       \<le> 1 + count_where (restores ''apv_1'') (fst (ledger_trace None example_history empty_ledger))"
  using approval_one_shot[of "''apv_1''" None example_history] example_events by simp

subsection \<open>An approved call runs\<close>

lemma life_sim_exists: "\<exists>st. life_sim n L st"
  by (cases "row_of n (lg_approvals L)") (auto simp: life_sim_def)

lemma trace_nonces_ok: "nonces_ok (lg_approvals L) \<Longrightarrow> nonces_ok (lg_approvals (snd (ledger_trace redact ops L)))"
proof (induction ops arbitrary: L)
  case (Cons op ops)
  obtain L1 e where exec: "ledger_exec redact op L = (L1, e)"
    by (cases "ledger_exec redact op L")
  obtain n st where "life_sim n L st"
    using life_sim_exists by blast
  then have "simulates n st (L1, e)"
    using exec_simulates[OF Cons.prems] exec by (cases op) metis+
  then show ?case
    using Cons.IH[of L1] exec by (simp add: split_beta simulates_def)
qed simp

text \<open>
  An approval is usable: after an operator issued one on a ledger with any history, the same
  call (the same tool and digest, up to spaces, a leading slash and letter case) asked before the
  expiry is covered by a stored approval for exactly that call, and that one is spent.
\<close>

theorem approved_call_runs:
  assumes "issue redact now token tool digest approver surface ttl preview
             (snd (ledger_trace redact ops empty_ledger)) = (L1, Inr a)"
    and "clean_tool tool' = clean_tool tool" "clean_digest digest' = clean_digest digest"
    and "now' < ap_expires_ts a"
  shows "\<exists>L2 b. consume now' tool' digest' surface' L1 = (L2, Some b)
           \<and> ap_tool b = clean_tool tool \<and> ap_digest b = clean_digest digest
           \<and> ap_consumed_ts b = Some now' \<and> row_of (ap_nonce b) (lg_approvals L2) = Some b"
proof -
  have "nonces_ok (lg_approvals (snd (ledger_trace redact ops empty_ledger)))"
    by (rule trace_nonces_ok) (simp add: empty_ledger_def)
  moreover obtain n st where "life_sim n (snd (ledger_trace redact ops empty_ledger)) st"
    using life_sim_exists by blast
  ultimately have ok: "nonces_ok (lg_approvals L1)"
    using issue_simulates[of "snd (ledger_trace redact ops empty_ledger)" n st redact now token tool digest
        approver surface ttl preview] assms(1)
    by (simp add: simulates_def)
  have a: "a \<in> set (lg_approvals L1)" "ap_tool a = clean_tool tool'" "ap_digest a = clean_digest digest'"
    "clean_tool tool' \<noteq> []" "length (clean_digest digest') = 64" "approval_open now' a"
    using issue_result[OF assms(1)] assms(2-) by (auto simp: approval_open_def)
  show ?thesis
  proof (rule consume_cases[OF ok, of now' tool' digest' surface'])
    assume "clean_tool tool' = [] \<or> length (clean_digest digest') \<noteq> 64 \<or> call_rows now' tool' digest' L1 = []"
    with a show ?thesis
      by (auto simp: filter_empty_conv)
  next
    fix b
    assume "row_of (ap_nonce b) (lg_approvals L1) = Some b" "approval_open now' b"
      "ap_tool b = clean_tool tool'" "ap_digest b = clean_digest digest'"
      "consume now' tool' digest' surface' L1 =
         (\<lparr>lg_pending = filter (\<lambda>p. pc_digest p \<noteq> clean_digest digest') (lg_pending L1),
           lg_approvals = update_where (unspent_row (ap_nonce b)) (spend_row now' surface') (lg_approvals L1)\<rparr>,
          Some (spend_row now' surface' b))"
    then show ?thesis
      using assms(2,3) by (auto simp: spend_row_def row_of_update approval_open_def)
  qed
qed

definition example_issue :: "ledger \<times> approval res" where
  "example_issue = issue None 0 ''1'' ''file_write'' example_digest ''operator'' [] (Some 60) [] empty_ledger"

theorem approved_call_runs_witness:
  "\<exists>L2 b. consume 10 ''/file_write'' example_digest ''mcp'' (fst example_issue) = (L2, Some b)"
proof -
  obtain L1 r where res: "example_issue = (L1, r)"
    by (cases example_issue)
  have "is_ok (snd example_issue)"
    by code_simp
  then obtain a where r: "r = Inr a"
    using res by (metis is_ok_iff snd_conv)
  have "case snd example_issue of Inr a \<Rightarrow> 10 < ap_expires_ts a | Inl e \<Rightarrow> False"
    by code_simp
  then have "10 < ap_expires_ts a"
    unfolding res r by simp
  moreover have "clean_tool ''/file_write'' = clean_tool ''file_write''"
    by code_simp
  ultimately show ?thesis
    using approved_call_runs[of None 0 "''1''" "''file_write''" example_digest "''operator''" "[]" "Some 60" "[]" "[]" L1 a
        "''/file_write''" example_digest 10 "''mcp''"] res r
    unfolding example_issue_def by auto
qed

section \<open>The interface the permission gate relies on\<close>

text \<open>
  A store of approvals answers a call with an approval or nothing, or fails; it notes a refused call.
  \<open>credits\<close> counts the unspent approvals of a call: spending one uses one up, and nothing the gate
  does adds any.
\<close>

locale approval_store =
  fixes spend :: "rat \<Rightarrow> string \<Rightarrow> string \<Rightarrow> string \<Rightarrow> 'l \<Rightarrow> 'l \<times> approval option res"
    and note_call :: "rat \<Rightarrow> string \<Rightarrow> string \<Rightarrow> string \<Rightarrow> string \<Rightarrow> 'l \<Rightarrow> 'l \<times> pending_call res"
    and credits :: "'l \<Rightarrow> string \<Rightarrow> string \<Rightarrow> nat"
    and ok :: "'l \<Rightarrow> bool"
  assumes ok_spend: "ok L \<Longrightarrow> ok (fst (spend now t d s L))"
    and ok_note: "ok L \<Longrightarrow> ok (fst (note_call now t d s p L))"
    and spend_mono: "ok L \<Longrightarrow> credits (fst (spend now t d s L)) u e \<le> credits L u e"
    and spend_uses: "ok L \<Longrightarrow> spend now t d s L = (L', Inr (Some a)) \<Longrightarrow> credits L t d = Suc (credits L' t d)"
    and note_mono: "ok L \<Longrightarrow> credits (fst (note_call now t d s p L)) u e \<le> credits L u e"

text \<open>The ledger behind a database that may be out of order: \<open>down now\<close> is the error it then raises.\<close>

definition ledger_spend ::
  "(rat \<Rightarrow> string option) \<Rightarrow> rat \<Rightarrow> string \<Rightarrow> string \<Rightarrow> string \<Rightarrow> ledger \<Rightarrow> ledger \<times> approval option res" where
  "ledger_spend down now tool digest surface L =
     (case down now of
        Some e \<Rightarrow> (L, Inl (OSError e))
      | None \<Rightarrow> (let (L', r) = consume now tool digest surface L in (L', Inr r)))"

definition ledger_note ::
  "(rat \<Rightarrow> string option) \<Rightarrow> redactor \<Rightarrow> rat \<Rightarrow> string \<Rightarrow> string \<Rightarrow> string \<Rightarrow> string \<Rightarrow> ledger
   \<Rightarrow> ledger \<times> pending_call res" where
  "ledger_note down redact now tool digest surface preview L =
     (case down now of
        Some e \<Rightarrow> (L, Inl (OSError e))
      | None \<Rightarrow> record_pending redact now tool digest surface preview L)"

definition ledger_credits :: "ledger \<Rightarrow> string \<Rightarrow> string \<Rightarrow> nat" where
  "ledger_credits L tool digest =
     count_where (\<lambda>a. ap_tool a = clean_tool tool \<and> ap_digest a = clean_digest digest
                      \<and> ap_consumed_ts a = None \<and> ap_revoked_ts a = None) (lg_approvals L)"

lemma count_where_filter_le: "count_where P (filter Q xs) \<le> count_where P xs"
  by (induction xs) auto

lemma count_where_update_le:
  "(\<And>r. Q (f r) \<Longrightarrow> Q r) \<Longrightarrow> count_where Q (update_where P f rows) \<le> count_where Q rows"
  by (induction rows) (auto simp: update_where_def)

lemma count_where_update_one:
  assumes "nonces_ok rows" "row_of n rows = Some a" "P a" "Q a" "\<And>r. P r \<Longrightarrow> ap_nonce r = n" "\<not> Q (f a)"
  shows "count_where Q rows = Suc (count_where Q (update_where P f rows))"
  using assms
proof (induction rows)
  case (Cons r rows)
  show ?case
  proof (cases "r = a")
    case True
    have "\<not> P x" if "x \<in> set rows" for x
      using Cons.prems that True row_of_nonce[OF Cons.prems(2)]
      by (metis distinct.simps(2) image_eqI list.map(2) list.set_map)
    then have "update_where P f rows = rows"
      by (simp add: update_where_def map_idI)
    then show ?thesis
      using True Cons.prems by (simp add: update_where_def)
  next
    case False
    then have "ap_nonce r \<noteq> n" "row_of n rows = Some a"
      using Cons.prems(2) by (auto simp: row_of_def split: if_splits)
    moreover from this have "\<not> P r"
      using Cons.prems(5) by blast
    ultimately show ?thesis
      using Cons by (auto simp: update_where_def)
  qed
qed (simp add: row_of_def)

lemma consume_rows:
  assumes ok: "nonces_ok (lg_approvals L)"
  shows "\<exists>P. lg_approvals (fst (consume now t d s L)) = update_where P (spend_row now s) (lg_approvals L)"
proof (rule consume_cases[OF ok, of now t d s])
  assume "consume now t d s L = (L, None)"
  then have "lg_approvals (fst (consume now t d s L)) = update_where (\<lambda>_. False) (spend_row now s) (lg_approvals L)"
    by (simp add: update_where_def)
  then show ?thesis
    by blast
qed auto

interpretation ledger_store:
  approval_store "ledger_spend down" "ledger_note down redact" ledger_credits "\<lambda>L. nonces_ok (lg_approvals L)"
  for down :: "rat \<Rightarrow> string option" and redact :: redactor
proof unfold_locales
  fix L :: ledger and now t d s p
  assume ok: "nonces_ok (lg_approvals L)"
  show "nonces_ok (lg_approvals (fst (ledger_spend down now t d s L)))"
    using consume_rows[OF ok, of now t d s]
    by (auto simp: ledger_spend_def nonces_ok_update spend_row_def ok split_beta split: option.splits)
  show "nonces_ok (lg_approvals (fst (ledger_note down redact now t d s p L)))"
    using pending_rows[of redact now t d s p L] nonces_ok_filter[OF ok]
    by (auto simp: ledger_note_def ok split: option.splits)
next
  fix L :: ledger and now t d s p u e
  assume ok: "nonces_ok (lg_approvals L)"
  show "ledger_credits (fst (ledger_spend down now t d s L)) u e \<le> ledger_credits L u e"
    using consume_rows[OF ok, of now t d s]
    by (auto simp: ledger_spend_def ledger_credits_def spend_row_def split_beta
        intro!: count_where_update_le split: option.splits)
  show "ledger_credits (fst (ledger_note down redact now t d s p L)) u e \<le> ledger_credits L u e"
    using pending_rows[of redact now t d s p L]
    by (auto simp: ledger_note_def ledger_credits_def simp del: filter_filter intro!: count_where_filter_le split: option.splits)
next
  fix L :: ledger and now t d s L' a
  assume ok: "nonces_ok (lg_approvals L)" and sp: "ledger_spend down now t d s L = (L', Inr (Some a))"
  then have c: "consume now t d s L = (L', Some a)"
    by (auto simp: ledger_spend_def split: option.splits prod.splits)
  show "ledger_credits L t d = Suc (ledger_credits L' t d)"
  proof (rule consume_cases[OF ok, of now t d s])
    fix b
    assume b: "row_of (ap_nonce b) (lg_approvals L) = Some b" "approval_open now b"
      "ap_tool b = clean_tool t" "ap_digest b = clean_digest d"
      "consume now t d s L =
         (\<lparr>lg_pending = filter (\<lambda>p. pc_digest p \<noteq> clean_digest d) (lg_pending L),
           lg_approvals = update_where (unspent_row (ap_nonce b)) (spend_row now s) (lg_approvals L)\<rparr>,
          Some (spend_row now s b))"
    then have "lg_approvals L' = update_where (unspent_row (ap_nonce b)) (spend_row now s) (lg_approvals L)"
      using c by auto
    then show ?thesis
      unfolding ledger_credits_def using b(2-4)
      by (simp only:) (rule count_where_update_one[OF ok b(1)], auto simp: approval_open_def spend_row_def)
  qed (use c in simp)
qed

end
