(* ===== verification/PermissionGate.thy ===== *)
theory PermissionGate
  imports PermissionPolicy PermissionModes ApprovalLedger
begin

text \<open>
  \<^verbatim>\<open>permission_modes.py\<close>: whether a tool may run. A call is graded by the catalog and the host's
  declarations; fences, the operator's rules, privilege and the mode then decide in a fixed order, and
  for a caller nobody is present for a one-shot approval may answer. The command catalog, the
  declared traits, canonical JSON, SHA-256 and the resume barrier are arguments. The prose of a
  decision is not modelled; the layer that decided is.
\<close>

section \<open>Call digests and previews\<close>

text \<open>
  An argument is a string; a sized value with its length and the text shown for it; or another value
  with its \<^verbatim>\<open>str\<close> text and the text shown for it.
\<close>

datatype arg_value = AStr string | ASized nat string | AOther string string

type_synonym arguments = "(string, arg_value) dict"

definition CREDENTIAL_ARGUMENTS :: "string list" where
  "CREDENTIAL_ARGUMENTS = [''token'', ''approval'', ''bypass'', ''developer_authorized'']"

definition BULK_ARGUMENTS :: "string list" where
  "BULK_ARGUMENTS =
     [''content'', ''patch'', ''operations'', ''operations_json'', ''old'', ''new'', ''text'', ''prompt'',
      ''code'', ''stdin'', ''args_json'', ''inputs_json'', ''environment'', ''arguments'']"

definition call_body :: "arguments option \<Rightarrow> arguments option" where
  \<comment> \<open>nothing when there are no arguments, or they are no mapping\<close>
  "call_body args = map_option (filter (\<lambda>(key, _). key \<notin> set CREDENTIAL_ARGUMENTS)) args"

definition call_digest ::
  "(arguments \<Rightarrow> string option) \<Rightarrow> (string \<Rightarrow> string) \<Rightarrow> string \<Rightarrow> arguments option \<Rightarrow> string" where
  "call_digest canonical sha256 tool_name args =
     (let name = clean_tool tool_name in
      case call_body args of
        None \<Rightarrow> []
      | Some body \<Rightarrow>
          if name = [] then []
          else (case canonical body of
                  None \<Rightarrow> []
                | Some c \<Rightarrow> sha256 (name @ CHR 0x0A # c)))"

definition bulk_size :: "arg_value \<Rightarrow> nat" where
  "bulk_size v = (case v of AStr s \<Rightarrow> length s | ASized n _ \<Rightarrow> n | AOther s _ \<Rightarrow> length s)"

definition shown_text :: "arg_value \<Rightarrow> string" where
  "shown_text v =
     (let t = map (\<lambda>c. if c = CHR 0x0D \<or> c = CHR 0x0A then CHR '' '' else c)
                (case v of AStr s \<Rightarrow> s | ASized _ t \<Rightarrow> t | AOther _ t \<Rightarrow> t)
      in if 40 < length t then take 37 t @ ''...'' else t)"

definition preview_part :: "string \<times> arg_value \<Rightarrow> string" where
  "preview_part kv =
     (let (key, v) = kv in
      if key \<in> set BULK_ARGUMENTS then
        key @ ''=<'' @ dec_nat (bulk_size v) @ (case v of AStr _ \<Rightarrow> '' chars>'' | _ \<Rightarrow> '' items>'')
      else key @ ''='' @ shown_text v)"

definition argument_preview :: "arguments option \<Rightarrow> nat \<Rightarrow> string" where
  "argument_preview args limit =
     (case call_body args of
        None \<Rightarrow> []
      | Some body \<Rightarrow>
          if body = [] then []
          else let line = py_join '' '' (map preview_part (sort_key fst body))
               in if length line \<le> limit then line else take (limit - 3) line @ ''...'')"

subsection \<open>What a digest binds and a preview shows\<close>

lemma append_sep_inj:
  "x \<notin> set c \<Longrightarrow> x \<notin> set c' \<Longrightarrow> n @ x # c = n' @ x # c' \<Longrightarrow> n = n' \<and> c = c'"
proof -
  assume x: "x \<notin> set c" "x \<notin> set c'" and eq: "n @ x # c = n' @ x # c'"
  have "rev c @ x # rev n = rev c' @ x # rev n'"
    using arg_cong[OF eq, of rev] by simp
  moreover have "takeWhile (\<lambda>y. y \<noteq> x) (d @ x # m) = d" if "x \<notin> set d" for d m
    using that by (induction d) auto
  from this[of "rev c" "rev n"] this[of "rev c'" "rev n'"] x
  have "takeWhile (\<lambda>y. y \<noteq> x) (rev c @ x # rev n) = rev c" "takeWhile (\<lambda>y. y \<noteq> x) (rev c' @ x # rev n') = rev c'"
    by simp_all
  ultimately have "rev c = rev c'"
    by simp
  with eq show ?thesis
    by simp
qed

text \<open>
  A digest stands for exactly one call: if canonical JSON identifies the arguments and holds no
  line break and the hash does not collide, two calls with the same digest have the same tool and
  the same arguments apart from the credential ones, which never enter the digest.
\<close>

theorem call_digest_binds:
  assumes canonical: "\<forall>b b' s. canonical b = Some s \<and> canonical b' = Some s \<longrightarrow> map_of b = map_of b'"
    and one_line: "\<forall>b s. canonical b = Some s \<longrightarrow> CHR 0x0A \<notin> set s"
    and no_collision: "inj sha256"
    and same: "call_digest canonical sha256 tool (Some args) = call_digest canonical sha256 tool' (Some args')"
    and some: "call_digest canonical sha256 tool (Some args) \<noteq> []"
  shows "clean_tool tool = clean_tool tool'
    \<and> (\<forall>k. k \<notin> set CREDENTIAL_ARGUMENTS \<longrightarrow> map_of args k = map_of args' k)
    \<and> call_digest canonical sha256 tool (Some args) =
        call_digest canonical sha256 tool (Some (filter (\<lambda>(k, _). k \<notin> set CREDENTIAL_ARGUMENTS) args))"
proof -
  let ?body = "filter (\<lambda>(k, _). k \<notin> set CREDENTIAL_ARGUMENTS)"
  obtain s where s: "canonical (?body args) = Some s"
    "call_digest canonical sha256 tool (Some args) = sha256 (clean_tool tool @ CHR 0x0A # s)"
    using some by (auto simp: call_digest_def call_body_def Let_def split: if_splits option.splits)
  obtain s' where s': "canonical (?body args') = Some s'"
    "call_digest canonical sha256 tool' (Some args') = sha256 (clean_tool tool' @ CHR 0x0A # s')"
    using some same by (auto simp: call_digest_def call_body_def Let_def split: if_splits option.splits)
  have "clean_tool tool @ CHR 0x0A # s = clean_tool tool' @ CHR 0x0A # s'"
    using same s s' no_collision by (simp add: inj_eq)
  then have eq: "clean_tool tool = clean_tool tool'" "s = s'"
    using append_sep_inj one_line s(1) s'(1) by metis+
  have "map_of (?body args) = map_of (?body args')"
    using canonical s(1) s'(1) eq(2) by blast
  moreover have "map_of (?body xs) k = map_of xs k" if "k \<notin> set CREDENTIAL_ARGUMENTS" for xs :: arguments and k
    using that by (induction xs) auto
  ultimately have "map_of args k = map_of args' k" if "k \<notin> set CREDENTIAL_ARGUMENTS" for k
    using that by metis
  with eq(1) show ?thesis
    by (simp add: call_digest_def call_body_def)
qed

definition only_empty :: "arguments \<Rightarrow> string option" where
  "only_empty b = (if b = [] then Some ''{}'' else None)"

theorem call_digest_binds_witness:
  "clean_tool ''/status'' = clean_tool ''status''
   \<and> call_digest only_empty id ''/status'' (Some [(''token'', AStr ''x'')]) = call_digest only_empty id ''status'' (Some [])"
proof -
  have c: "clean_tool ''/status'' = ''status''" "clean_tool ''status'' = ''status''"
    by code_simp+
  have d: "call_digest only_empty id ''/status'' (Some [(''token'', AStr ''x'')]) = call_digest only_empty id ''status'' (Some [])"
    "call_digest only_empty id ''/status'' (Some [(''token'', AStr ''x'')]) \<noteq> []"
    by (simp_all add: call_digest_def call_body_def only_empty_def CREDENTIAL_ARGUMENTS_def c)
  have "\<forall>b b' s. only_empty b = Some s \<and> only_empty b' = Some s \<longrightarrow> map_of b = map_of b'"
    "\<forall>b s. only_empty b = Some s \<longrightarrow> CHR 0x0A \<notin> set s"
    by (auto simp: only_empty_def split: if_splits)
  from call_digest_binds[OF this inj_on_id d] d(1) show ?thesis
    by blast
qed

definition shows_alike :: "string \<times> arg_value \<Rightarrow> string \<times> arg_value \<Rightarrow> bool" where
  \<comment> \<open>equal up to credentials and the content of bulk payloads of the same kind and size\<close>
  "shows_alike x y =
     (fst x = fst y \<and>
      (fst x \<in> set CREDENTIAL_ARGUMENTS \<or> snd x = snd y
       \<or> fst x \<in> set BULK_ARGUMENTS \<and> bulk_size (snd x) = bulk_size (snd y)
         \<and> (\<exists>s. snd x = AStr s) = (\<exists>s. snd y = AStr s)))"

lemma list_all2_insort:
  assumes "list_all2 R xs ys" "R x y" "\<And>a b. R a b \<Longrightarrow> f a = f b"
  shows "list_all2 R (insort_key f x xs) (insort_key f y ys)"
  using assms(1) by (induction rule: list_all2_induct) (use assms in auto)

lemma list_all2_map_eq: "list_all2 R xs ys \<Longrightarrow> (\<And>a b. R a b \<Longrightarrow> f a = f b) \<Longrightarrow> map f xs = map f ys"
  by (induction rule: list_all2_induct) auto

lemma list_all2_sort:
  assumes "list_all2 R xs ys" "\<And>a b. R a b \<Longrightarrow> f a = f b"
  shows "list_all2 R (sort_key f xs) (sort_key f ys)"
  using assms(1) by (induction rule: list_all2_induct) (auto intro: list_all2_insort assms(2))

lemma preview_part_alike:
  "shows_alike x y \<Longrightarrow> fst x \<notin> set CREDENTIAL_ARGUMENTS \<Longrightarrow> preview_part x = preview_part y"
  by (auto simp: shows_alike_def preview_part_def split_beta split: arg_value.splits)

lemma call_body_alike:
  assumes "list_all2 shows_alike args args'"
  shows "list_all2 (\<lambda>x y. shows_alike x y \<and> fst x \<notin> set CREDENTIAL_ARGUMENTS)
    (filter (\<lambda>(k, _). k \<notin> set CREDENTIAL_ARGUMENTS) args) (filter (\<lambda>(k, _). k \<notin> set CREDENTIAL_ARGUMENTS) args')"
  using assms by (induction rule: list_all2_induct) (auto simp: shows_alike_def)

text \<open>
  A preview reveals neither credentials nor bulk content: two calls whose arguments differ only in
  credential values, or in the content of a bulk argument of the same kind and length, have the same
  preview, and a preview never exceeds its limit.
\<close>

theorem preview_is_content_free:
  assumes "list_all2 shows_alike args args'" "3 \<le> limit"
  shows "argument_preview (Some args) limit = argument_preview (Some args') limit
         \<and> length (argument_preview (Some args) limit) \<le> limit"
proof -
  let ?b = "filter (\<lambda>(k, _). k \<notin> set CREDENTIAL_ARGUMENTS)"
  have "list_all2 (\<lambda>x y. shows_alike x y \<and> fst x \<notin> set CREDENTIAL_ARGUMENTS) (sort_key fst (?b args)) (sort_key fst (?b args'))"
    by (rule list_all2_sort[OF call_body_alike[OF assms(1)]]) (auto simp: shows_alike_def)
  then have "map preview_part (sort_key fst (?b args)) = map preview_part (sort_key fst (?b args'))"
    by (rule list_all2_map_eq) (auto intro: preview_part_alike)
  moreover have "?b args = [] \<longleftrightarrow> ?b args' = []"
    using call_body_alike[OF assms(1)] by (auto dest: list_all2_lengthD)
  ultimately show ?thesis
    using assms(2) by (auto simp: argument_preview_def call_body_def Let_def)
qed

theorem preview_is_content_free_witness:
  "argument_preview (Some [(''path'', AStr ''a''), (''content'', AStr ''secret'')]) 200
   = argument_preview (Some [(''path'', AStr ''a''), (''content'', AStr ''public'')]) 200"
proof -
  have "list_all2 shows_alike [(''path'', AStr ''a''), (''content'', AStr ''secret'')]
      [(''path'', AStr ''a''), (''content'', AStr ''public'')]"
    by (simp add: shows_alike_def bulk_size_def BULK_ARGUMENTS_def)
  then show ?thesis
    using preview_is_content_free[of "[(''path'', AStr ''a''), (''content'', AStr ''secret'')]"
        "[(''path'', AStr ''a''), (''content'', AStr ''public'')]" 200] by simp
qed

section \<open>Grading\<close>

datatype risk = Safe | AskClass | Mutation | Execution | Dangerous | Unclassified | OtherRisk string

definition risk_named :: "string \<Rightarrow> risk" where
  "risk_named s =
     (if s = ''safe'' then Safe else if s = ''ask'' then AskClass else if s = ''mutation'' then Mutation
      else if s = ''execution'' then Execution else if s = ''dangerous'' then Dangerous
      else if s = ''unclassified'' then Unclassified else OtherRisk s)"

definition NON_TOOL_WORK :: "(string, risk) dict" where
  "NON_TOOL_WORK = [(''sleep'', Safe)]"

definition NATIVE_MCP_WORK :: "(string, risk) dict" where
  "NATIVE_MCP_WORK =
     [(''compute_submit'', Execution), (''agent_lane'', Execution), (''compute_cancel'', Mutation),
      (''compute_status'', Safe), (''compute_artifact_fetch'', Safe), (''tool_inventory'', Safe),
      (''output_digest'', Safe), (''test_run_result'', Safe), (''build_model'', Safe),
      (''build_job_result'', Safe), (''build_fix_result'', Safe), (''build_fix_restore'', Mutation),
      (''build_job'', Execution), (''build_fix'', Execution), (''build_network'', Execution),
      (''computer_use_irreversible'', Dangerous), (''crash_triage'', Safe), (''profile_digest'', Safe),
      (''debug_run_result'', Safe)]"

definition READ_BRANCH_WORK :: "(string, risk) dict" where
  "READ_BRANCH_WORK = [(''selfmod_status'', Safe), (''goal_status'', Safe), (''training_status'', Safe)]"

definition NATIVE_EXECUTION_TOOLS :: "string list" where
  "NATIVE_EXECUTION_TOOLS = [''build_job'', ''build_fix'']"

definition EXECUTION_TOOLS :: "string list" where
  "EXECUTION_TOOLS =
     [''file_check'', ''agent_lane'', ''workspace_run'', ''script_run'', ''run_code'', ''run_project'',
      ''isolated_run'', ''build_run'', ''build_clean'', ''test_run'', ''lint_run'', ''format_code'',
      ''typecheck_run'', ''dependency_add'', ''dependency_remove'', ''dependency_update'',
      ''dependency_audit'', ''codegen_build_loop'', ''improve_function'', ''parallel_run_code'',
      ''parallel_generate_run'', ''parallel_generate_run_languages'', ''game_generate_and_test'',
      ''game_generation_campaign'', ''game_reference_suite'', ''campaign_generate_compile_execute_record'',
      ''campaign_repo_repair'', ''self_heal_repair'', ''scaffold_project'', ''compiler_cache_status'',
      ''crash_digest'', ''profile_capture_digest'', ''ui_action'', ''computer_task'', ''mesh_generate'']"

definition EXECUTION_COMMANDS :: "string list" where
  "EXECUTION_COMMANDS = [''runwindow'']"

definition GATE_CONTROL_TOOLS :: "string list" where
  "GATE_CONTROL_TOOLS = [''permission_mode'']"

definition DURABLE_AUTHORITY_TOOLS :: "string list" where
  "DURABLE_AUTHORITY_TOOLS =
     [''admin_login'', ''admin_register'', ''admin_set_account'', ''elevate'', ''permission_rule_set'',
      ''permission_approve'']"

definition PRIVILEGED_TOOLS :: "string list" where
  "PRIVILEGED_TOOLS = []"

text \<open>A catalog that cannot be read raises; it knows a name with its class, or does not know it.\<close>

type_synonym catalog = "string \<Rightarrow> string option res"

definition catalog_risk_of :: "catalog \<Rightarrow> string \<Rightarrow> risk" where
  "catalog_risk_of by_name tool_name =
     (let name = clean_tool tool_name in
      if name = [] then Unclassified
      else case by_name (CHR ''/'' # name) of
        Inl _ \<Rightarrow> Unclassified
      | Inr command \<Rightarrow>
          let catalogued = (case command of None \<Rightarrow> [] | Some r \<Rightarrow> r) in
          if catalogued = ''dangerous'' then Dangerous
          else if name \<in> set EXECUTION_TOOLS \<or> name \<in> set EXECUTION_COMMANDS \<or> name \<in> set NATIVE_EXECUTION_TOOLS
          then Execution
          else if catalogued \<noteq> [] then risk_named catalogued
          else case map_of NATIVE_MCP_WORK name of
            Some r \<Rightarrow> r
          | None \<Rightarrow>
              (case map_of NON_TOOL_WORK name of
                 Some r \<Rightarrow> r
               | None \<Rightarrow> (case map_of READ_BRANCH_WORK name of Some r \<Rightarrow> r | None \<Rightarrow> Unclassified)))"

datatype tri_state = TriTrue | TriFalse | TriUnknown

record tool_traits =
  tt_read_only :: tri_state
  tt_destructive :: tri_state
  tt_host_declared :: bool

definition is_read_only :: "tool_traits \<Rightarrow> bool" where
  "is_read_only t = (tt_host_declared t \<and> tt_read_only t = TriTrue)"

definition risk_of :: "catalog \<Rightarrow> (string \<Rightarrow> tool_traits option) \<Rightarrow> tool_traits option \<Rightarrow> string \<Rightarrow> risk" where
  "risk_of by_name builtin traits tool_name =
     (let name = clean_tool tool_name;
          base = catalog_risk_of by_name name;
          known = (case traits of None \<Rightarrow> builtin name | Some t \<Rightarrow> Some t)
      in case known of
           None \<Rightarrow> base
         | Some t \<Rightarrow>
             if base \<in> {Dangerous, Unclassified} then base
             else if tt_host_declared t then
               if tt_destructive t = TriTrue then Dangerous
               else if is_read_only t \<and> base = AskClass then Safe
               else base
             else Dangerous)"

section \<open>Decisions\<close>

datatype action = Allow | Ask | Deny

datatype decision_source =
    SrcMode | SrcRule | SrcPrivilege | SrcUnattended | SrcNonInteractive | SrcUnclassified
  | SrcDurableAuthority | SrcApproval | SrcFence

record decision =
  de_action :: action
  de_mode :: perm_mode
  de_risk :: risk
  de_tool :: string
  de_source :: decision_source
  de_call_id :: string

fun matrix :: "perm_mode \<Rightarrow> risk \<Rightarrow> action" where
  \<comment> \<open>\<^verbatim>\<open>_MATRIX[mode].get(risk, ASK)\<close>\<close>
  "matrix m Safe = Allow"
| "matrix m (OtherRisk s) = Ask"
| "matrix PLAN r = Deny"
| "matrix MANUAL r = Ask"
| "matrix m AskClass = Allow"
| "matrix m Mutation = Allow"
| "matrix AUTO Execution = Allow"
| "matrix m r = Ask"

definition effect_risk :: "risk \<Rightarrow> bool" where
  \<comment> \<open>\<^verbatim>\<open>UNATTENDED_REFUSED_RISKS\<close>\<close>
  "effect_risk r = (r \<in> {Mutation, Execution, Dangerous})"

text \<open>A fence carries its label and what its check does: raise, or return why it no longer holds.\<close>

datatype fence = Fence string "string + string"

fun fence_reason :: "fence \<Rightarrow> string" where
  "fence_reason (Fence label (Inr reason)) = reason"
| "fence_reason (Fence label (Inl exc)) =
     (if label = [] then ''effect fence'' else label) @ '' could not be verified: '' @ exc"

definition rule_action_for :: "(string \<Rightarrow> rule option) \<Rightarrow> string \<Rightarrow> action option" where
  \<comment> \<open>a lookup that raises counts as no rule\<close>
  "rule_action_for lookup tool_name =
     (case lookup tool_name of
        None \<Rightarrow> None
      | Some r \<Rightarrow>
          (let a = py_lower (py_strip (ru_action r)) in
           if a = ''allow'' then Some Allow else if a = ''deny'' then Some Deny else None))"

text \<open>
  The call a surface asks about, what the gate reads, and the state it keeps: the session's mode and
  elevation, the approval ledger when there is one, the approval the last live decision spent, the
  spends of the protocol call in progress, and the record of unattended decisions.
\<close>

record call =
  ca_tool :: string
  ca_interactive :: bool
  ca_mode :: "string option"
  ca_requires_elevation :: bool
  ca_surface :: string
  ca_record :: bool
  ca_arguments :: "arguments option"
  ca_fence :: "fence option"
  ca_traits :: "tool_traits option"
  ca_opaque_powershell :: bool

record gate_env =
  gv_now :: rat
  gv_catalog :: catalog
  gv_builtin_traits :: "string \<Rightarrow> tool_traits option"
  gv_rule_lookup :: "string \<Rightarrow> rule option"
  gv_canonical :: "arguments \<Rightarrow> string option"
  gv_sha256 :: "string \<Rightarrow> string"
  gv_resume_blocked :: "string option"

record 'l gate =
  ga_mode :: perm_mode
  ga_elevated :: bool
  ga_ledger :: "'l option"
  ga_spent :: "(string \<times> string) option"
  ga_scope :: "(string \<times> string \<times> string) list option"
  ga_hint_shown :: bool
  ga_refused :: nat
  ga_allowed :: nat
  ga_last_refusal :: string
  ga_last_allow :: string
  ga_receipts :: "(decision \<times> string) list"

type_synonym 'l spender = "rat \<Rightarrow> string \<Rightarrow> string \<Rightarrow> string \<Rightarrow> 'l \<Rightarrow> 'l \<times> approval option res"
type_synonym 'l noter = "rat \<Rightarrow> string \<Rightarrow> string \<Rightarrow> string \<Rightarrow> string \<Rightarrow> 'l \<Rightarrow> 'l \<times> pending_call res"

definition active_mode :: "call \<Rightarrow> 'l gate \<Rightarrow> perm_mode" where
  "active_mode c g =
     (case ca_mode c of
        None \<Rightarrow> ga_mode g
      | Some s \<Rightarrow> if s = [] then ga_mode g
                  else (case mode_named s of Some m \<Rightarrow> m | None \<Rightarrow> DEFAULT_MODE))"

definition call_risk :: "gate_env \<Rightarrow> call \<Rightarrow> risk" where
  "call_risk env c =
     (let r = risk_of (gv_catalog env) (gv_builtin_traits env) (ca_traits c) (ca_tool c)
      in if ca_opaque_powershell c \<and> r \<noteq> Unclassified then Dangerous else r)"

definition call_name :: "call \<Rightarrow> string" where
  "call_name c = py_lstrip (CHR ''/'') (ca_tool c)"

definition the_digest :: "gate_env \<Rightarrow> call \<Rightarrow> string" where
  "the_digest env c = call_digest (gv_canonical env) (gv_sha256 env) (call_name c) (ca_arguments c)"

text \<open>Step 5c: look for an approval of exactly this call; without one, note the call as pending.\<close>

definition ask_ledger ::
  "'l spender \<Rightarrow> 'l noter \<Rightarrow> gate_env \<Rightarrow> call \<Rightarrow> 'l gate \<Rightarrow> 'l gate \<times> approval option" where
  "ask_ledger spend note_call env c g =
     (if the_digest env c = [] \<or> \<not> ca_record c then (g, None)
      else case ga_ledger g of
        None \<Rightarrow> (g, None)
      | Some L \<Rightarrow>
          let (L1, r) = spend (gv_now env) (call_name c) (the_digest env c) (ca_surface c) L;
              found = (case r of Inl _ \<Rightarrow> None | Inr a \<Rightarrow> a)
          in case found of
               Some a \<Rightarrow>
                 (g\<lparr>ga_ledger := Some L1, ga_spent := Some (call_name c, the_digest env c),
                    ga_scope := map_option (\<lambda>xs. xs @ [(call_name c, the_digest env c, ap_nonce a)]) (ga_scope g)\<rparr>,
                  Some a)
             | None \<Rightarrow>
                 (g\<lparr>ga_ledger := Some (fst (note_call (gv_now env) (call_name c) (the_digest env c) (ca_surface c)
                      (argument_preview (ca_arguments c) 200) L1))\<rparr>, None))"

definition decide0 ::
  "'l spender \<Rightarrow> 'l noter \<Rightarrow> gate_env \<Rightarrow> call \<Rightarrow> 'l gate \<Rightarrow> 'l gate \<times> decision" where
  "decide0 spend note_call env c g0 =
     (let active = active_mode c g0; risk = call_risk env c; name = call_name c;
          decided = (\<lambda>a src. \<lparr>de_action = a, de_mode = active, de_risk = risk, de_tool = name,
                               de_source = src, de_call_id = call_id (the_digest env c)\<rparr>);
          g = (if ca_record c then g0\<lparr>ga_spent := None\<rparr> else g0);
          rule = rule_action_for (gv_rule_lookup env) name;
          mode_action = matrix active risk
      in if effect_risk risk \<and> gv_resume_blocked env \<noteq> None then (g, decided Deny SrcFence)
         else if effect_risk risk \<and> (case ca_fence c of None \<Rightarrow> False | Some f \<Rightarrow> fence_reason f \<noteq> [])
         then (g, decided Deny SrcFence)
         else if rule = Some Deny then (g, decided Deny SrcRule)
         else if (name \<in> set PRIVILEGED_TOOLS \<or> ca_requires_elevation c) \<and> \<not> ga_elevated g
         then (g, decided Deny SrcPrivilege)
         else if rule = Some Allow \<and> mode_action = Ask then (g, decided Allow SrcRule)
         else if mode_action = Ask \<and> \<not> ca_interactive c then
           if risk = Unclassified then (g, decided Deny SrcUnclassified)
           else if name \<in> set DURABLE_AUTHORITY_TOOLS then (g, decided Deny SrcDurableAuthority)
           else if effect_risk risk then
             (case ask_ledger spend note_call env c g of
                (g1, Some _) \<Rightarrow> (g1, decided Allow SrcApproval)
              | (g1, None) \<Rightarrow> (g1\<lparr>ga_hint_shown := True\<rparr>, decided Deny SrcUnattended))
           else (g, decided Allow SrcNonInteractive)
         else (g, decided mode_action SrcMode))"

definition worth_a_receipt :: "decision \<Rightarrow> bool" where
  "worth_a_receipt d = (de_action d = Deny \<or> de_risk d \<noteq> Safe)"

definition observe_decision :: "decision \<Rightarrow> string \<Rightarrow> 'l gate \<Rightarrow> 'l gate" where
  "observe_decision d surface g =
     (let place = (if surface = [] then ''unspecified'' else surface);
          label = (if de_tool d = [] then ''(empty name)'' else de_tool d) @ '' via '' @ place;
          g1 = (if de_action d = Deny
                then g\<lparr>ga_refused := ga_refused g + 1, ga_last_refusal := label\<rparr>
                else g\<lparr>ga_allowed := ga_allowed g + 1, ga_last_allow := label\<rparr>)
      in g1\<lparr>ga_receipts := ga_receipts g1 @ [(d, place)]\<rparr>)"

definition decide ::
  "'l spender \<Rightarrow> 'l noter \<Rightarrow> gate_env \<Rightarrow> call \<Rightarrow> 'l gate \<Rightarrow> 'l gate \<times> decision" where
  "decide spend note_call env c g =
     (let (g1, d) = decide0 spend note_call env c g
      in if ca_record c \<and> \<not> ca_interactive c \<and> worth_a_receipt d
         then (observe_decision d (ca_surface c) g1, d) else (g1, d))"

definition decide_for_caller ::
  "'l spender \<Rightarrow> 'l noter \<Rightarrow> gate_env \<Rightarrow> bool \<Rightarrow> call \<Rightarrow> 'l gate \<Rightarrow> 'l gate \<times> decision option" where
  "decide_for_caller spend note_call env gate_control_exempt c g =
     (if gate_control_exempt \<and> clean_tool (ca_tool c) \<in> set GATE_CONTROL_TOOLS then (g, None)
      else let (g1, d) = decide spend note_call env (c\<lparr>ca_requires_elevation := False\<rparr>) g in (g1, Some d))"

text \<open>Whether the last live decision spent an approval for exactly this call.\<close>

definition approval_spent_for :: "gate_env \<Rightarrow> string \<Rightarrow> arguments option \<Rightarrow> 'l gate \<Rightarrow> bool" where
  "approval_spent_for env tool_name args g =
     (case ga_spent g of
        None \<Rightarrow> False
      | Some spent \<Rightarrow>
          (let name = clean_tool tool_name; digest = call_digest (gv_canonical env) (gv_sha256 env) name args
           in digest \<noteq> [] \<and> spent = (name, digest)))"

definition forget_spent_approval :: "'l gate \<Rightarrow> 'l gate" where
  "forget_spent_approval g = g\<lparr>ga_spent := None\<rparr>"

definition RESTORABLE_ON_FAILURE :: "string list" where
  "RESTORABLE_ON_FAILURE = [''runtime_policy_update'']"

fun scope_restore ::
  "(string \<Rightarrow> string \<Rightarrow> 'l \<Rightarrow> 'l \<times> approval option res) \<Rightarrow> (string \<times> string \<times> string) list \<Rightarrow> 'l \<Rightarrow> 'l \<times> nat" where
  \<comment> \<open>\<^verbatim>\<open>ApprovalCallScope.restore\<close>: give back what a failed call spent, and count it\<close>
  "scope_restore give_back [] L = (L, 0)"
| "scope_restore give_back ((name, digest, nonce) # later) L =
     (if name \<notin> set RESTORABLE_ON_FAILURE then scope_restore give_back later L
      else let (L1, r) = give_back nonce digest L; (L2, k) = scope_restore give_back later L1
           in (L2, (case r of Inr (Some _) \<Rightarrow> k + 1 | _ \<Rightarrow> k)))"

text \<open>The rule source of production: the policy file; a damaged one denies all but reads.\<close>

definition default_rule_lookup ::
  "string \<Rightarrow> policy_file \<Rightarrow> catalog \<Rightarrow> (string \<Rightarrow> tool_traits option) \<Rightarrow> string \<Rightarrow> rule option" where
  "default_rule_lookup path file by_name builtin tool_name =
     (let (rule, report) = check_report path file tool_name in
      if degraded report \<and> risk_of by_name builtin None tool_name \<noteq> Safe
      then Some (mk_rule ''<degraded permission policy>'' ''deny'' ''permission policy could not be enforced safely'')
      else if rule = NO_MATCH_RULE then None else Some rule)"

section \<open>What the gate guarantees\<close>

lemma decide_decision: "snd (decide spend note_call env c g) = snd (decide0 spend note_call env c g)"
  by (simp add: decide_def split_beta)

lemma observe_decision_simps [simp]:
  "ga_ledger (observe_decision d s g) = ga_ledger g" "ga_spent (observe_decision d s g) = ga_spent g"
  "ga_scope (observe_decision d s g) = ga_scope g" "ga_mode (observe_decision d s g) = ga_mode g"
  by (simp_all add: observe_decision_def Let_def)

lemma decide_ledger: "ga_ledger (fst (decide spend note_call env c g)) = ga_ledger (fst (decide0 spend note_call env c g))"
  by (simp add: decide_def split_beta)

lemma decide0_fields:
  "de_risk (snd (decide0 spend note_call env c g)) = call_risk env c"
  "de_mode (snd (decide0 spend note_call env c g)) = active_mode c g"
  "de_tool (snd (decide0 spend note_call env c g)) = call_name c"
  by (auto simp: decide0_def Let_def split: prod.splits option.splits)

definition fenced :: "gate_env \<Rightarrow> call \<Rightarrow> bool" where
  "fenced env c =
     (effect_risk (call_risk env c) \<and>
      (gv_resume_blocked env \<noteq> None \<or> (case ca_fence c of None \<Rightarrow> False | Some f \<Rightarrow> fence_reason f \<noteq> [])))"

definition reaches_ledger :: "gate_env \<Rightarrow> call \<Rightarrow> 'l gate \<Rightarrow> bool" where
  \<comment> \<open>the calls for which step 5c consults the ledger\<close>
  "reaches_ledger env c g =
     (\<not> fenced env c \<and> rule_action_for (gv_rule_lookup env) (call_name c) = None
      \<and> \<not> ((call_name c \<in> set PRIVILEGED_TOOLS \<or> ca_requires_elevation c) \<and> \<not> ga_elevated g)
      \<and> matrix (active_mode c g) (call_risk env c) = Ask \<and> \<not> ca_interactive c
      \<and> call_name c \<notin> set DURABLE_AUTHORITY_TOOLS \<and> effect_risk (call_risk env c))"

lemma rule_action_cases:
  "rule_action_for lookup name = None \<or> rule_action_for lookup name = Some Allow
   \<or> rule_action_for lookup name = Some Deny"
  by (auto simp: rule_action_for_def Let_def split: option.splits)

lemma effect_riskD: "effect_risk r \<Longrightarrow> r \<noteq> Unclassified \<and> r \<noteq> Safe \<and> r \<noteq> AskClass"
  by (auto simp: effect_risk_def)

lemma decide0_ledger:
  "ga_ledger (fst (decide0 spend note_call env c g)) =
     (if reaches_ledger env c g
      then ga_ledger (fst (ask_ledger spend note_call env c (if ca_record c then g\<lparr>ga_spent := None\<rparr> else g)))
      else ga_ledger g)"
  using rule_action_cases[of "gv_rule_lookup env" "call_name c"] effect_riskD[of "call_risk env c"]
  by (auto simp: decide0_def reaches_ledger_def fenced_def Let_def split: prod.splits option.splits)

lemma decide0_fenced: "fenced env c \<Longrightarrow> de_action (snd (decide0 spend note_call env c g)) = Deny"
  by (auto simp: decide0_def fenced_def Let_def)

lemma decide0_denied:
  "rule_action_for (gv_rule_lookup env) (call_name c) = Some Deny \<Longrightarrow>
   de_action (snd (decide0 spend note_call env c g)) = Deny"
  by (auto simp: decide0_def Let_def)

lemma decide0_allow:
  "de_action (snd (decide0 spend note_call env c g)) = Allow \<Longrightarrow>
   matrix (active_mode c g) (call_risk env c) \<noteq> Deny"
  by (auto simp: decide0_def Let_def split: if_splits)

lemma matrix_plan: "matrix PLAN r = (case r of Safe \<Rightarrow> Allow | OtherRisk s \<Rightarrow> Ask | _ \<Rightarrow> Deny)"
  by (cases r) simp_all

lemma matrix_ask: "matrix m r = Ask \<Longrightarrow> r \<noteq> Safe"
  by auto

lemma reaches_ledgerD: "reaches_ledger env c g \<Longrightarrow> active_mode c g \<noteq> PLAN"
  by (auto simp: reaches_ledger_def matrix_plan effect_risk_def)

text \<open>
  (C9) The order of the layers: a lost fence or an unresolved resume refuses every call that changes
  files, runs a program or is destructive; an explicit deny rule refuses in every mode; and in plan
  mode nothing of the six known classes is allowed but reads. None of these refusals touches the
  approval ledger.
\<close>

theorem gate_precedence:
  "(fenced env c \<or> rule_action_for (gv_rule_lookup env) (call_name c) = Some Deny \<longrightarrow>
      de_action (snd (decide spend note_call env c g)) = Deny
      \<and> ga_ledger (fst (decide spend note_call env c g)) = ga_ledger g)
   \<and> (active_mode c g = PLAN \<and> (\<forall>s. call_risk env c \<noteq> OtherRisk s) \<longrightarrow>
      (de_action (snd (decide spend note_call env c g)) = Allow \<longrightarrow> call_risk env c = Safe)
      \<and> ga_ledger (fst (decide spend note_call env c g)) = ga_ledger g)"
proof -
  have "call_risk env c = Safe"
    if "active_mode c g = PLAN" "\<forall>s. call_risk env c \<noteq> OtherRisk s"
      "de_action (snd (decide0 spend note_call env c g)) = Allow"
    using decide0_allow[OF that(3)] that(1,2) by (simp add: matrix_plan split: risk.splits)
  moreover have "\<not> reaches_ledger env c g" if "active_mode c g = PLAN"
    using reaches_ledgerD that by blast
  moreover have "\<not> reaches_ledger env c g"
    if "fenced env c \<or> rule_action_for (gv_rule_lookup env) (call_name c) = Some Deny"
    using that by (auto simp: reaches_ledger_def)
  ultimately show ?thesis
    using decide0_fenced[of env c spend note_call g] decide0_denied[of env c spend note_call g]
    by (auto simp: decide_decision decide_ledger decide0_ledger)
qed

text \<open>The decision as a function of what each layer says.\<close>

definition verdict ::
  "bool \<Rightarrow> action option \<Rightarrow> bool \<Rightarrow> action \<Rightarrow> bool \<Rightarrow> risk \<Rightarrow> bool \<Rightarrow> bool \<Rightarrow> action \<times> decision_source" where
  "verdict fence_lost rule unprivileged mode_action interactive r durable approved =
     (if fence_lost then (Deny, SrcFence)
      else if rule = Some Deny then (Deny, SrcRule)
      else if unprivileged then (Deny, SrcPrivilege)
      else if rule = Some Allow \<and> mode_action = Ask then (Allow, SrcRule)
      else if mode_action \<noteq> Ask \<or> interactive then (mode_action, SrcMode)
      else if r = Unclassified then (Deny, SrcUnclassified)
      else if durable then (Deny, SrcDurableAuthority)
      else if \<not> effect_risk r then (Allow, SrcNonInteractive)
      else if approved then (Allow, SrcApproval) else (Deny, SrcUnattended))"

abbreviation live_gate :: "call \<Rightarrow> 'l gate \<Rightarrow> 'l gate" where
  "live_gate c g \<equiv> (if ca_record c then g\<lparr>ga_spent := None\<rparr> else g)"

abbreviation unprivileged :: "call \<Rightarrow> 'l gate \<Rightarrow> bool" where
  "unprivileged c g \<equiv> (call_name c \<in> set PRIVILEGED_TOOLS \<or> ca_requires_elevation c) \<and> \<not> ga_elevated g"

lemma layers_verdict:
  fixes D :: "action \<Rightarrow> decision_source \<Rightarrow> decision" and ask :: "'l gate \<times> approval option"
  assumes "\<And>a src. de_action (D a src) = a" "\<And>a src. de_source (D a src) = src"
  shows "(\<lambda>d. (de_action d, de_source d))
      (snd (if l1 then (g, D Deny SrcFence)
         else if l2 then (g, D Deny SrcFence)
         else if rule = Some Deny then (g, D Deny SrcRule)
         else if up then (g, D Deny SrcPrivilege)
         else if rule = Some Allow \<and> m = Ask then (g, D Allow SrcRule)
         else if m = Ask \<and> \<not> i then
           if r = Unclassified then (g, D Deny SrcUnclassified)
           else if dur then (g, D Deny SrcDurableAuthority)
           else if effect_risk r then
             (case ask of
                (g1, Some _) \<Rightarrow> (g1, D Allow SrcApproval)
              | (g1, None) \<Rightarrow> (g1\<lparr>ga_hint_shown := True\<rparr>, D Deny SrcUnattended))
           else (g, D Allow SrcNonInteractive)
         else (g, D m SrcMode))) = verdict (l1 \<or> l2) rule up m i r dur (snd ask \<noteq> None)"
proof (cases ask)
  case (Pair g1 found)
  then show ?thesis
    using assms by (cases found) (simp_all add: verdict_def)
qed

lemma decide0_verdict:
  "(de_action (snd (decide0 spend note_call env c g)), de_source (snd (decide0 spend note_call env c g))) =
     verdict (fenced env c) (rule_action_for (gv_rule_lookup env) (call_name c)) (unprivileged c g)
       (matrix (active_mode c g) (call_risk env c)) (ca_interactive c) (call_risk env c)
       (call_name c \<in> set DURABLE_AUTHORITY_TOOLS)
       (snd (ask_ledger spend note_call env c (live_gate c g)) \<noteq> None)"
proof -
  have live: "ga_elevated (live_gate c g) = ga_elevated g"
    by simp
  have "(\<lambda>d. (de_action d, de_source d)) (snd (decide0 spend note_call env c g)) =
     verdict (effect_risk (call_risk env c) \<and> gv_resume_blocked env \<noteq> None
         \<or> effect_risk (call_risk env c) \<and> (case ca_fence c of None \<Rightarrow> False | Some f \<Rightarrow> fence_reason f \<noteq> []))
       (rule_action_for (gv_rule_lookup env) (call_name c))
       ((call_name c \<in> set PRIVILEGED_TOOLS \<or> ca_requires_elevation c) \<and> \<not> ga_elevated (live_gate c g))
       (matrix (active_mode c g) (call_risk env c)) (ca_interactive c) (call_risk env c)
       (call_name c \<in> set DURABLE_AUTHORITY_TOOLS)
       (snd (ask_ledger spend note_call env c (live_gate c g)) \<noteq> None)"
    unfolding decide0_def Let_def by (rule layers_verdict) (rule decision.select_convs)+
  then show ?thesis
    by (simp only: fenced_def conj_disj_distribL live)
qed

lemma reaches_ledger_verdict:
  "snd (verdict (fenced env c) (rule_action_for (gv_rule_lookup env) (call_name c)) (unprivileged c g)
       (matrix (active_mode c g) (call_risk env c)) (ca_interactive c) (call_risk env c)
       (call_name c \<in> set DURABLE_AUTHORITY_TOOLS) approved) = SrcApproval \<longleftrightarrow> reaches_ledger env c g \<and> approved"
  using rule_action_cases[of "gv_rule_lookup env" "call_name c"] effect_riskD[of "call_risk env c"]
  by (auto simp: verdict_def reaches_ledger_def)

lemma decide0_approval:
  "de_source (snd (decide0 spend note_call env c g)) = SrcApproval \<longleftrightarrow>
   reaches_ledger env c g \<and> snd (ask_ledger spend note_call env c (live_gate c g)) \<noteq> None"
  by (subst reaches_ledger_verdict[symmetric], subst decide0_verdict[symmetric]) simp

lemma verdict_unattended:
  assumes "verdict lost rule unpriv m False r durable approved = (a, src)"
    and "rule = None \<or> rule = Some Allow \<or> rule = Some Deny"
  shows "a \<noteq> Ask"
    and "a = Allow \<Longrightarrow> m = Allow \<or> rule = Some Allow \<or> \<not> effect_risk r \<and> r \<noteq> Unclassified \<and> \<not> durable
      \<or> src = SrcApproval"
  using assms by (auto simp: verdict_def split: if_splits)

lemma decide0_unattended:
  assumes "\<not> ca_interactive c"
  shows "de_action (snd (decide0 spend note_call env c g)) \<noteq> Ask"
    and "de_action (snd (decide0 spend note_call env c g)) = Allow \<Longrightarrow>
      matrix (active_mode c g) (call_risk env c) = Allow
      \<or> rule_action_for (gv_rule_lookup env) (call_name c) = Some Allow
      \<or> \<not> effect_risk (call_risk env c) \<and> call_risk env c \<noteq> Unclassified
        \<and> call_name c \<notin> set DURABLE_AUTHORITY_TOOLS
      \<or> de_source (snd (decide0 spend note_call env c g)) = SrcApproval"
  using verdict_unattended[OF sym[OF decide0_verdict[of spend note_call env c g], simplified assms]]
    rule_action_cases[of "gv_rule_lookup env" "call_name c"]
  by blast+

lemma ask_ledger_found:
  "snd (ask_ledger spend note_call env c g) = Some a \<Longrightarrow>
   ca_record c \<and> the_digest env c \<noteq> []
   \<and> (\<exists>L L'. ga_ledger g = Some L \<and> ga_ledger (fst (ask_ledger spend note_call env c g)) = Some L'
        \<and> spend (gv_now env) (call_name c) (the_digest env c) (ca_surface c) L = (L', Inr (Some a)))"
  by (auto simp: ask_ledger_def Let_def split: if_splits option.splits prod.splits sum.splits)

text \<open>
  (C3) An unattended caller is never left with a question, and gets a yes only for a stated reason:
  the mode allows the class, an allow rule names the tool, the tool is neither an effect class nor
  unclassified nor a grant of durable authority, or an approval of exactly this call (its name and
  non-empty digest) was spent in the ledger by this live decision.
\<close>

theorem unattended_allow_justified:
  assumes "\<not> ca_interactive c"
  shows "de_action (snd (decide spend note_call env c g)) \<noteq> Ask
    \<and> (de_action (snd (decide spend note_call env c g)) = Allow \<longrightarrow>
         matrix (active_mode c g) (call_risk env c) = Allow
         \<or> rule_action_for (gv_rule_lookup env) (call_name c) = Some Allow
         \<or> \<not> effect_risk (call_risk env c) \<and> call_risk env c \<noteq> Unclassified
           \<and> call_name c \<notin> set DURABLE_AUTHORITY_TOOLS
         \<or> (\<exists>L L' a. ca_record c \<and> the_digest env c \<noteq> [] \<and> call_name c \<notin> set DURABLE_AUTHORITY_TOOLS
              \<and> ga_ledger g = Some L \<and> ga_ledger (fst (decide spend note_call env c g)) = Some L'
              \<and> spend (gv_now env) (call_name c) (the_digest env c) (ca_surface c) L = (L', Inr (Some a))))"
proof -
  let ?g = "if ca_record c then g\<lparr>ga_spent := None\<rparr> else g"
  have "\<exists>L L' a. ca_record c \<and> the_digest env c \<noteq> [] \<and> call_name c \<notin> set DURABLE_AUTHORITY_TOOLS
              \<and> ga_ledger g = Some L \<and> ga_ledger (fst (decide spend note_call env c g)) = Some L'
              \<and> spend (gv_now env) (call_name c) (the_digest env c) (ca_surface c) L = (L', Inr (Some a))"
    if src: "de_source (snd (decide0 spend note_call env c g)) = SrcApproval"
  proof -
    obtain a where reach: "reaches_ledger env c g" and a: "snd (ask_ledger spend note_call env c ?g) = Some a"
      using src decide0_approval[of spend note_call env c g] by auto
    have "ga_ledger ?g = ga_ledger g"
      by simp
    with ask_ledger_found[OF a] reach show ?thesis
      by (auto simp: decide_ledger decide0_ledger reaches_ledger_def)
  qed
  then show ?thesis
    using decide0_unattended[OF assms, of spend note_call env g] by (auto simp: decide_decision)
qed

text \<open>
  A preflight leaves no trace: a decision that is not to be recorded changes nothing but the
  one-time hint, so it spends no approval and leaves no pending call or receipt. A live unattended
  decision appends exactly one receipt when it refuses or is about anything but a read, and the
  counters of refusals and allowances move with the receipts.
\<close>

theorem decisions_on_record:
  "(\<not> ca_record c \<longrightarrow>
      (\<exists>h. fst (decide spend note_call env c g) = g\<lparr>ga_hint_shown := h\<rparr>))
   \<and> (ca_record c \<and> \<not> ca_interactive c \<longrightarrow>
        ga_receipts (fst (decide spend note_call env c g)) =
          ga_receipts g @ (if worth_a_receipt (snd (decide spend note_call env c g))
            then [(snd (decide spend note_call env c g), if ca_surface c = [] then ''unspecified'' else ca_surface c)]
            else []))
   \<and> ga_refused (fst (decide spend note_call env c g)) + ga_allowed (fst (decide spend note_call env c g))
       + length (ga_receipts g)
     = ga_refused g + ga_allowed g + length (ga_receipts (fst (decide spend note_call env c g)))"
proof -
  let ?g = "if ca_record c then g\<lparr>ga_spent := None\<rparr> else g"
  have ask: "ga_receipts (fst (ask_ledger spend note_call env c ?g)) = ga_receipts g"
    "ga_refused (fst (ask_ledger spend note_call env c ?g)) = ga_refused g"
    "ga_allowed (fst (ask_ledger spend note_call env c ?g)) = ga_allowed g"
    by (auto simp: ask_ledger_def Let_def split: option.splits prod.splits sum.splits)
  have quiet: "ask_ledger spend note_call env c ?g = (g, None)" if "\<not> ca_record c"
    using that by (simp add: ask_ledger_def)
  have same: "ga_receipts (fst (decide0 spend note_call env c g)) = ga_receipts g"
    "ga_refused (fst (decide0 spend note_call env c g)) = ga_refused g"
    "ga_allowed (fst (decide0 spend note_call env c g)) = ga_allowed g"
    using ask by (auto simp: decide0_def Let_def split: prod.splits option.splits)
  have "fst (decide0 spend note_call env c g) = g \<or> fst (decide0 spend note_call env c g) = g\<lparr>ga_hint_shown := True\<rparr>"
    if "\<not> ca_record c"
    using quiet[OF that] that by (simp add: decide0_def Let_def)
  moreover have "g = g\<lparr>ga_hint_shown := ga_hint_shown g\<rparr>"
    by simp
  ultimately have "\<exists>h. fst (decide0 spend note_call env c g) = g\<lparr>ga_hint_shown := h\<rparr>" if "\<not> ca_record c"
    using that by metis
  then show ?thesis
    using same by (auto simp: decide_def split_beta observe_decision_def Let_def)
qed

section \<open>The gate and the ledger\<close>

fun decide_all ::
  "'l spender \<Rightarrow> 'l noter \<Rightarrow> (gate_env \<times> call) list \<Rightarrow> 'l gate \<Rightarrow> 'l gate \<times> decision list" where
  "decide_all spend note_call [] g = (g, [])"
| "decide_all spend note_call ((env, c) # calls) g =
     (let (g1, d) = decide spend note_call env c g; (g2, ds) = decide_all spend note_call calls g1
      in (g2, d # ds))"

definition ran_by_approval :: "string \<Rightarrow> string \<Rightarrow> (gate_env \<times> call) \<times> decision \<Rightarrow> bool" where
  "ran_by_approval t dg x =
     (case x of ((env, c), d) \<Rightarrow> call_name c = t \<and> the_digest env c = dg \<and> de_source d = SrcApproval)"

context approval_store
begin

lemma ask_ledger_credits:
  assumes "ga_ledger g = Some L" "ok L"
  shows "\<exists>L'. ga_ledger (fst (ask_ledger spend note_call env c g)) = Some L' \<and> ok L'
    \<and> credits L' t dg
      + of_bool (snd (ask_ledger spend note_call env c g) \<noteq> None \<and> call_name c = t \<and> the_digest env c = dg)
      \<le> credits L t dg"
proof (cases "the_digest env c = [] \<or> \<not> ca_record c")
  case True
  then show ?thesis
    using assms by (auto simp: ask_ledger_def)
next
  case False
  obtain L1 r where sp: "spend (gv_now env) (call_name c) (the_digest env c) (ca_surface c) L = (L1, r)"
    by (cases "spend (gv_now env) (call_name c) (the_digest env c) (ca_surface c) L")
  have L1: "ok L1" "credits L1 t dg \<le> credits L t dg"
    using ok_spend[OF assms(2), of "gv_now env" "call_name c" "the_digest env c" "ca_surface c"]
      spend_mono[OF assms(2), of "gv_now env" "call_name c" "the_digest env c" "ca_surface c" t dg] sp by simp_all
  show ?thesis
  proof (cases "\<exists>a. r = Inr (Some a)")
    case True
    then obtain a where r: "r = Inr (Some a)"
      by blast
    have "credits L (call_name c) (the_digest env c) = Suc (credits L1 (call_name c) (the_digest env c))"
      using spend_uses[OF assms(2)] sp r by blast
    then show ?thesis
      using False assms(1) sp r L1 by (auto simp: ask_ledger_def)
  next
    case miss: False
    then have none: "(case r of Inl _ \<Rightarrow> None | Inr a \<Rightarrow> a) = None"
      by (auto split: sum.splits option.splits)
    let ?L2 = "fst (note_call (gv_now env) (call_name c) (the_digest env c) (ca_surface c)
      (argument_preview (ca_arguments c) 200) L1)"
    have "ok ?L2" "credits ?L2 t dg \<le> credits L t dg"
      using ok_note[OF L1(1)] note_mono[OF L1(1)] L1(2) le_trans by blast+
    then show ?thesis
      using False assms(1) sp none by (simp add: ask_ledger_def)
  qed
qed

lemma decide_credits:
  assumes "ga_ledger g = Some L" "ok L"
  shows "\<exists>L'. ga_ledger (fst (decide spend note_call env c g)) = Some L' \<and> ok L'
    \<and> credits L' t dg + of_bool (ran_by_approval t dg ((env, c), snd (decide spend note_call env c g)))
      \<le> credits L t dg"
proof -
  have live: "ga_ledger (live_gate c g) = Some L"
    using assms(1) by simp
  show ?thesis
  proof (cases "reaches_ledger env c g")
    case True
    then show ?thesis
      using ask_ledger_credits[OF live assms(2), of env c t dg]
      unfolding decide_ledger decide0_ledger decide_decision ran_by_approval_def decide0_approval
      by (auto simp: decide0_approval)
  next
    case False
    then show ?thesis
      using assms unfolding decide_ledger decide0_ledger decide_decision ran_by_approval_def
      by (simp add: decide0_approval)
  qed
qed

lemma decide_all_credits:
  assumes "ga_ledger g = Some L" "ok L"
  shows "count_where (ran_by_approval t dg) (zip calls (snd (decide_all spend note_call calls g))) \<le> credits L t dg"
  using assms
proof (induction calls arbitrary: g L)
  case (Cons ec calls)
  obtain env c where ec: "ec = (env, c)"
    by (cases ec)
  obtain L' where L': "ga_ledger (fst (decide spend note_call env c g)) = Some L'" "ok L'"
    "credits L' t dg + of_bool (ran_by_approval t dg ((env, c), snd (decide spend note_call env c g))) \<le> credits L t dg"
    using decide_credits[OF Cons.prems, of env c t dg] by blast
  show ?case
    using Cons.IH[OF L'(1,2)] L'(3) by (auto simp: ec split_beta of_bool_def split: if_splits)
qed simp

end

text \<open>
  (C8) Approvals bound what runs: over any sequence of gate decisions, by any callers, at any times
  and with the database failing at any of them, the calls of one name and digest that were let
  through by an approval are at most the unspent approvals for that call stored at the start.
\<close>

theorem approvals_bound_runs:
  assumes "ga_ledger g = Some (snd (ledger_trace redact ops empty_ledger))"
  shows "count_where (ran_by_approval t dg)
           (zip calls (snd (decide_all (ledger_spend down) (ledger_note down redact) calls g)))
         \<le> ledger_credits (snd (ledger_trace redact ops empty_ledger)) t dg"
  by (rule ledger_store.decide_all_credits[OF assms], rule trace_nonces_ok) (simp add: empty_ledger_def)

text \<open>
  A damaged policy fails closed: while the policy file is unreadable, malformed or only partly
  usable, the gate reading it refuses every tool that is not graded a read, whoever asks and
  whatever the mode, and spends no approval.
\<close>

theorem degraded_policy_denies:
  assumes "degraded (snd (load_report path pfile))"
    and "gv_rule_lookup env = default_rule_lookup path pfile (gv_catalog env) (gv_builtin_traits env)"
    and "risk_of (gv_catalog env) (gv_builtin_traits env) None (call_name c) \<noteq> Safe"
  shows "de_action (snd (decide spend note_call env c g)) = Deny
         \<and> ga_ledger (fst (decide spend note_call env c g)) = ga_ledger g"
proof -
  have deny: "py_lower (py_strip ''deny'') = ''deny''"
    by code_simp
  have "rule_action_for (gv_rule_lookup env) (call_name c) = Some Deny"
    using assms by (simp add: rule_action_for_def default_rule_lookup_def check_report_def split_beta deny)
  then show ?thesis
    using decide0_denied[of env c spend note_call g]
    by (simp add: decide_decision decide_ledger decide0_ledger reaches_ledger_def)
qed

section \<open>A concrete gate\<close>

definition example_env :: gate_env where
  "example_env =
     \<lparr>gv_now = 0,
      gv_catalog = (\<lambda>n. Inr (if n = ''/file_write'' then Some ''mutation'' else None)),
      gv_builtin_traits = (\<lambda>_. None),
      gv_rule_lookup = rule_lookup [mk_rule ''file_write'' ''deny'' [], mk_rule ''mystery'' ''allow'' []],
      gv_canonical = (\<lambda>_. Some ''{}''), gv_sha256 = (\<lambda>_. example_digest), gv_resume_blocked = None\<rparr>"

definition example_call :: "string \<Rightarrow> call" where
  "example_call tool =
     \<lparr>ca_tool = tool, ca_interactive = False, ca_mode = None, ca_requires_elevation = False,
      ca_surface = ''mcp'', ca_record = True, ca_arguments = Some [], ca_fence = None, ca_traits = None,
      ca_opaque_powershell = False\<rparr>"

definition example_gate :: "perm_mode \<Rightarrow> ledger gate" where
  "example_gate m =
     \<lparr>ga_mode = m, ga_elevated = False,
      ga_ledger = Some (snd (ledger_trace None (take 1 example_history) empty_ledger)), ga_spent = None,
      ga_scope = None, ga_hint_shown = False, ga_refused = 0, ga_allowed = 0, ga_last_refusal = [],
      ga_last_allow = [], ga_receipts = []\<rparr>"

abbreviation example_decide :: "gate_env \<Rightarrow> call \<Rightarrow> ledger gate \<Rightarrow> ledger gate \<times> decision" where
  "example_decide \<equiv> decide (ledger_spend (\<lambda>_. None)) (ledger_note (\<lambda>_. None) None)"

definition open_env :: gate_env where
  "open_env = example_env\<lparr>gv_rule_lookup := (\<lambda>_. None)\<rparr>"

theorem gate_precedence_witness:
  "rule_action_for (gv_rule_lookup example_env) (call_name (example_call ''/file_write'')) = Some Deny
   \<and> de_action (snd (example_decide example_env (example_call ''/file_write'') (example_gate AUTO))) = Deny"
proof -
  have "rule_action_for (gv_rule_lookup example_env) (call_name (example_call ''/file_write'')) = Some Deny"
    by code_simp
  then show ?thesis
    using gate_precedence[of example_env "example_call ''/file_write''" "ledger_spend (\<lambda>_. None)"
        "ledger_note (\<lambda>_. None) None" "example_gate AUTO"] by simp
qed

lemma example_decision:
  "de_action (snd (example_decide open_env (example_call ''file_write'') (example_gate MANUAL))) = Allow"
  "matrix (active_mode (example_call ''file_write'') (example_gate MANUAL)) (call_risk open_env (example_call ''file_write'')) = Ask"
  "effect_risk (call_risk open_env (example_call ''file_write''))"
  "rule_action_for (gv_rule_lookup open_env) (call_name (example_call ''file_write'')) = None"
  by code_simp+

theorem unattended_allow_justified_witness:
  "de_action (snd (example_decide open_env (example_call ''file_write'') (example_gate MANUAL))) = Allow
   \<and> (\<exists>L L' a. ga_ledger (example_gate MANUAL) = Some L
        \<and> ledger_spend (\<lambda>_. None) 0 ''file_write'' (the_digest open_env (example_call ''file_write'')) ''mcp'' L
            = (L', Inr (Some a)))"
proof -
  have "\<not> ca_interactive (example_call ''file_write'')" "gv_now open_env = 0"
    "call_name (example_call ''file_write'') = ''file_write''" "ca_surface (example_call ''file_write'') = ''mcp''"
    by code_simp+
  then show ?thesis
    using unattended_allow_justified[of "example_call ''file_write''" "ledger_spend (\<lambda>_. None)"
        "ledger_note (\<lambda>_. None) None" open_env "example_gate MANUAL"] example_decision by auto
qed

theorem decisions_on_record_witness:
  "length (ga_receipts (fst (example_decide open_env (example_call ''file_write'') (example_gate MANUAL)))) = 1
   \<and> ca_record (example_call ''file_write'') \<and> \<not> ca_interactive (example_call ''file_write'')"
proof -
  have "ca_record (example_call ''file_write'')" "\<not> ca_interactive (example_call ''file_write'')"
    "ga_receipts (example_gate MANUAL) = []"
    "worth_a_receipt (snd (example_decide open_env (example_call ''file_write'') (example_gate MANUAL)))"
    by code_simp+
  then show ?thesis
    using decisions_on_record[of "example_call ''file_write''" "ledger_spend (\<lambda>_. None)"
        "ledger_note (\<lambda>_. None) None" open_env "example_gate MANUAL"] by simp
qed

theorem approvals_bound_runs_witness:
  "count_where (ran_by_approval ''file_write'' example_digest)
     (zip (replicate 3 (open_env, example_call ''file_write''))
        (snd (decide_all (ledger_spend (\<lambda>_. None)) (ledger_note (\<lambda>_. None) None)
                (replicate 3 (open_env, example_call ''file_write'')) (example_gate MANUAL)))) \<le> 1"
proof -
  have "ledger_credits (snd (ledger_trace None (take 1 example_history) empty_ledger)) ''file_write'' example_digest = 1"
    by code_simp
  then show ?thesis
    using approvals_bound_runs[of "example_gate MANUAL" None "take 1 example_history" "''file_write''" example_digest
        "replicate 3 (open_env, example_call ''file_write'')" "\<lambda>_. None"]
    by (simp add: example_gate_def)
qed

definition damaged_env :: gate_env where
  "damaged_env = example_env\<lparr>gv_rule_lookup :=
     default_rule_lookup [] (PParseError []) (gv_catalog example_env) (gv_builtin_traits example_env)\<rparr>"

theorem degraded_policy_denies_witness:
  "de_action (snd (example_decide damaged_env (example_call ''file_write'') (example_gate AUTO))) = Deny"
proof -
  have "degraded (snd (load_report [] (PParseError [])))"
    "risk_of (gv_catalog damaged_env) (gv_builtin_traits damaged_env) None (call_name (example_call ''file_write'')) \<noteq> Safe"
    by code_simp+
  moreover have "gv_rule_lookup damaged_env =
      default_rule_lookup [] (PParseError []) (gv_catalog damaged_env) (gv_builtin_traits damaged_env)"
    by (simp add: damaged_env_def)
  ultimately show ?thesis
    using degraded_policy_denies[of "[]" "PParseError []" damaged_env "example_call ''file_write''"
        "ledger_spend (\<lambda>_. None)" "ledger_note (\<lambda>_. None) None" "example_gate AUTO"] by blast
qed

text \<open>
  The gate grades a tool by its trimmed name but looks its rule up under the name as given: with
  a space before the slash, a tool that an explicit rule denies is graded as itself, matches no rule
  and is allowed in auto mode.
\<close>

theorem spaced_name_escapes_deny_rule:
  "de_action (snd (example_decide example_env (example_call ''/file_write'') (example_gate AUTO))) = Deny
   \<and> de_action (snd (example_decide example_env (example_call '' /file_write'') (example_gate AUTO))) = Allow
   \<and> call_risk example_env (example_call '' /file_write'') = Mutation"
  by code_simp

text \<open>
  A lost fence does not stop a tool the catalog does not know: with an allow rule for it, the call
  of a worker whose lease is gone is allowed in manual mode, unattended.
\<close>

theorem lost_fence_allows_unclassified:
  "de_action (snd (example_decide example_env
      (example_call ''mystery''\<lparr>ca_fence := Some (Fence [] (Inr ''lease lost''))\<rparr>) (example_gate MANUAL))) = Allow
   \<and> call_risk example_env (example_call ''mystery'') = Unclassified"
  by code_simp

end
