(* ===== verification/JsonValue.thy ===== *)
theory JsonValue
  imports Prelude
begin

text \<open>
  The values the json module reads and writes, shared by the components that take or send JSON: the
  type, its children, the canonical form in which every object has its keys sorted, and the values a
  strict writer accepts.
\<close>

section \<open>JSON values\<close>

text \<open>Objects keep the order of their keys; a number is an int or a double.\<close>

datatype json =
    JNull
  | JBool bool
  | JInt int
  | JFloat pyfloat
  | JStr string
  | JArr "json list"
  | JObj "(string \<times> json) list"

fun json_children :: "json \<Rightarrow> json list" where
  "json_children (JArr xs) = xs"
| "json_children (JObj d) = map snd d"
| "json_children _ = []"

lemma json_child_size: "c \<in> set (json_children v) \<Longrightarrow> size c < size v"
proof (cases v)
  case (JArr xs)
  assume "c \<in> set (json_children v)"
  then show ?thesis
    using JArr by (auto dest: size_list_estimation'[of c xs "size c" size])
next
  case (JObj d)
  assume "c \<in> set (json_children v)"
  then obtain k where "(k, c) \<in> set d"
    using JObj by auto
  then have "size c < size_list (size_prod (\<lambda>_. 0) size) d"
    by (induction d) auto
  then show ?thesis
    using JObj by simp
qed auto

section \<open>Canonical form\<close>

text \<open>\<^verbatim>\<open>json.dumps(value, sort_keys=True, ...)\<close> writes the canonical form; reading it back yields it.\<close>

primrec canon :: "json \<Rightarrow> json" where
  "canon JNull = JNull"
| "canon (JBool b) = JBool b"
| "canon (JInt n) = JInt n"
| "canon (JFloat x) = JFloat x"
| "canon (JStr s) = JStr s"
| "canon (JArr xs) = JArr (map canon xs)"
| "canon (JObj d) = JObj (sort_key fst (map (map_prod id canon) d))"

text \<open>With \<^verbatim>\<open>allow_nan=False\<close> the writer refuses a float that is not finite.\<close>

primrec json_finite :: "json \<Rightarrow> bool" where
  "json_finite JNull = True"
| "json_finite (JBool b) = True"
| "json_finite (JInt n) = True"
| "json_finite (JFloat x) = (case x of Finite _ \<Rightarrow> True | _ \<Rightarrow> False)"
| "json_finite (JStr s) = True"
| "json_finite (JArr xs) = list_all (\<lambda>b. b) (map json_finite xs)"
| "json_finite (JObj d) = list_all snd (map (map_prod id json_finite) d)"

lemma insort_key_map:
  "(\<And>x. f' (g x) = f x) \<Longrightarrow> insort_key f' (g x) (map g xs) = map g (insort_key f x xs)"
  by (induction xs) auto

lemma sort_key_map: "(\<And>x. f' (g x) = f x) \<Longrightarrow> sort_key f' (map g xs) = map g (sort_key f xs)"
  by (induction xs) (simp_all add: insort_key_map)

lemma sort_map_snd: "sort_key fst (map (map_prod id g) d) = map (map_prod id g) (sort_key fst d)"
  by (rule sort_key_map) simp

lemma sort_sort_fst: "sort_key fst (sort_key fst d) = sort_key fst d"
  by (rule sort_key_id_if_sorted) simp

lemma canon_idem [simp]: "canon (canon v) = canon v"
proof (induction v)
  case (JObj d)
  have "map (map_prod id canon \<circ> map_prod id canon) (sort_key fst d) = map (map_prod id canon) (sort_key fst d)"
    using JObj by auto
  then show ?case
    by (simp only: canon.simps sort_map_snd sort_sort_fst list.map_comp)
qed auto

lemma canon_JObj_inner: "canon (JObj (map (map_prod id canon) d)) = canon (JObj d)"
proof -
  have "map_prod id canon \<circ> map_prod id canon = (map_prod id canon :: string \<times> json \<Rightarrow> _)"
    by auto
  then show ?thesis
    by (simp only: canon.simps list.map_comp)
qed

lemma json_finite_canon [simp]: "json_finite (canon v) = json_finite v"
proof (induction v)
  case (JArr xs)
  then show ?case by (auto simp: list_all_iff)
next
  case (JObj d)
  have "list_all snd (map (map_prod id json_finite) (sort_key fst (map (map_prod id canon) d)))
      = list_all snd (map (map_prod id json_finite) (map (map_prod id canon) d))"
    by (simp add: list_all_iff)
  also have "\<dots> = list_all snd (map (map_prod id json_finite) d)"
    using JObj by (auto simp: list_all_iff)
  finally show ?case by simp
qed auto

end
