(* ===== verification/JsonPatch.thy ===== *)
theory JsonPatch
  imports JsonValue "HOL-Library.Sublist"
begin

text \<open>
  \<^verbatim>\<open>json_patch_tool.py\<close>: the bounded subset of RFC 6902. JSON values as the strict parser gives them,
  JSON pointers, the location of a target, and the application of add, remove, replace and test.
  The in-place change of a container is the rewriting of the document along the same path.
\<close>

section \<open>Duplicate keys\<close>

definition reject_duplicate_object :: "(string \<times> json) list \<Rightarrow> json res" where
  \<comment> \<open>the hook of the parser: the pairs of one object, in order\<close>
  "reject_duplicate_object pairs =
     (case find (\<lambda>i. fst (pairs ! i) \<in> fst ` set (take i pairs)) [0..<length pairs] of
        Some i \<Rightarrow> Inl (ValueError (''duplicate JSON object key: '' @ fst (pairs ! i)))
      | None \<Rightarrow> Inr (JObj pairs))"

section \<open>Nesting depth\<close>

definition stack_weight :: "(json \<times> nat) list \<Rightarrow> nat" where
  "stack_weight stack = sum_list (map (\<lambda>(v, _). Suc (size v)) stack)"

lemma children_weight: "sum_list (map (\<lambda>c. Suc (size c)) (json_children v)) \<le> size v"
proof (cases v)
  case (JArr xs)
  have "sum_list (map (\<lambda>c. Suc (size c)) xs) \<le> size_list size xs"
    by (induction xs) auto
  then show ?thesis
    using JArr by simp
next
  case (JObj d)
  have "sum_list (map (\<lambda>c. Suc (size c)) (map snd d)) \<le> size_list (size_prod (\<lambda>_. 0) size) d"
    by (induction d) auto
  then show ?thesis
    using JObj by simp
qed auto

text \<open>The loop of \<^verbatim>\<open>_json_depth\<close>; the top of the stack is the head of the list.\<close>

function depth_loop :: "(json \<times> nat) list \<Rightarrow> nat \<Rightarrow> nat res" where
  "depth_loop [] maximum = Inr maximum"
| "depth_loop ((current, depth) # stack) maximum =
     (if 64 < max maximum depth then Inl (ValueError ''JSON nesting exceeds max depth (64)'')
      else depth_loop (rev (map (\<lambda>child. (child, depth + 1)) (json_children current)) @ stack) (max maximum depth))"
  by pat_completeness auto
termination
proof (relation "measure (\<lambda>(stack, _). stack_weight stack)")
  fix current depth stack maximum
  have "stack_weight (rev (map (\<lambda>child. (child, depth + 1)) (json_children current))) =
      sum_list (map (\<lambda>c. Suc (size c)) (json_children current))"
    by (simp add: stack_weight_def rev_map comp_def sum_list_rev flip: rev_map)
  then show "((rev (map (\<lambda>child. (child, depth + 1)) (json_children current)) @ stack, max maximum depth),
      (current, depth) # stack, maximum) \<in> measure (\<lambda>(stack, _). stack_weight stack)"
    using children_weight[of current] by (simp add: stack_weight_def)
qed simp

definition json_depth :: "json \<Rightarrow> nat res" where
  "json_depth value = depth_loop [(value, 1)] 0"

text \<open>The depth of a value: one more than the deepest child.\<close>

function nesting :: "json \<Rightarrow> nat" where
  "nesting v = Suc (Max (insert 0 (set (map nesting (json_children v)))))"
  by auto
termination
  by (relation "measure size") (auto dest: json_child_size)

declare nesting.simps [simp del]

definition stack_depth :: "(json \<times> nat) list \<Rightarrow> nat \<Rightarrow> nat" where
  "stack_depth stack m = Max (insert m ((\<lambda>(v, d). d + nesting v - 1) ` set stack))"

lemma nesting_le_iff: "nesting v \<le> Suc n \<longleftrightarrow> (\<forall>c\<in>set (json_children v). nesting c \<le> n)"
  by (subst nesting.simps) auto

lemma stack_depth_le_iff:
  "stack_depth stack m \<le> n \<longleftrightarrow> m \<le> n \<and> (\<forall>(v, d)\<in>set stack. d + nesting v - 1 \<le> n)"
  by (auto simp: stack_depth_def)

lemma nesting_pos: "0 < nesting v"
  by (subst nesting.simps) simp

lemma stack_depth_step:
  assumes "0 < d"
  shows "stack_depth ((v, d) # stack) m =
    stack_depth (rev (map (\<lambda>c. (c, d + 1)) (json_children v)) @ stack) (max m d)"
proof -
  have "stack_depth ((v, d) # stack) m \<le> n \<longleftrightarrow>
      stack_depth (rev (map (\<lambda>c. (c, d + 1)) (json_children v)) @ stack) (max m d) \<le> n" for n
  proof -
    have "d + nesting v - 1 \<le> n \<longleftrightarrow> d \<le> n \<and> (\<forall>c\<in>set (json_children v). d + nesting c \<le> n)"
    proof (cases "d \<le> n")
      case True
      then have "d + nesting v - 1 \<le> n \<longleftrightarrow> nesting v \<le> Suc (n - d)"
        by auto
      moreover have "nesting c \<le> n - d \<longleftrightarrow> d + nesting c \<le> n" for c
        using True by auto
      ultimately show ?thesis
        using True by (simp add: nesting_le_iff)
    next
      case False
      then show ?thesis
        using nesting_pos[of v] by auto
    qed
    then show ?thesis
      by (auto simp: stack_depth_le_iff ball_Un)
  qed
  then show ?thesis
    by (meson dual_order.antisym order_refl)
qed

lemma depth_loop_result:
  assumes "\<forall>(v, d)\<in>set stack. 0 < d" "m \<le> 64"
  shows "depth_loop stack m =
    (if stack_depth stack m \<le> 64 then Inr (stack_depth stack m)
     else Inl (ValueError ''JSON nesting exceeds max depth (64)''))"
  using assms
proof (induction stack m rule: depth_loop.induct)
  case (1 m)
  then show ?case
    by (simp add: stack_depth_def)
next
  case (2 v d stack m)
  show ?case
  proof (cases "64 < max m d")
    case True
    moreover have "d \<le> stack_depth ((v, d) # stack) m" "m \<le> stack_depth ((v, d) # stack) m"
      using nesting_pos[of v] stack_depth_le_iff[of "(v, d) # stack" m "stack_depth ((v, d) # stack) m"] by auto
    ultimately show ?thesis
      by auto
  next
    case False
    have "0 < d"
      using "2.prems" by simp
    moreover have "\<forall>(v, d) \<in> set (rev (map (\<lambda>child. (child, d + 1)) (json_children v)) @ stack). 0 < d"
      using "2.prems"(1) by auto
    moreover have "max m d \<le> 64"
      using False by linarith
    ultimately show ?thesis
      unfolding stack_depth_step[OF \<open>0 < d\<close>] using False "2.IH" by simp
  qed
qed

text \<open>
  The depth check terminates and is exact: its loop over an explicit stack returns the nesting
  depth of the value when that is at most 64 and raises exactly otherwise.
\<close>

theorem json_depth_exact:
  "json_depth v = (if nesting v \<le> 64 then Inr (nesting v)
     else Inl (ValueError ''JSON nesting exceeds max depth (64)''))"
proof -
  have "stack_depth [(v, 1)] 0 = nesting v"
    by (simp add: stack_depth_def max_def)
  then show ?thesis
    unfolding json_depth_def by (subst depth_loop_result) simp_all
qed

section \<open>Pointers\<close>

definition max_pointer_segments :: nat where
  "max_pointer_segments = 64"

fun split_slash :: "string \<Rightarrow> string list" where
  \<comment> \<open>\<^verbatim>\<open>s.split("/")\<close>\<close>
  "split_slash [] = [[]]"
| "split_slash (c # cs) =
     (if c = CHR ''/'' then [] # split_slash cs
      else case split_slash cs of [] \<Rightarrow> [[c]] | w # ws \<Rightarrow> (c # w) # ws)"

fun decode_token :: "string \<Rightarrow> string option" where
  "decode_token [] = Some []"
| "decode_token (c # cs) =
     (if c \<noteq> CHR ''~'' then map_option ((#) c) (decode_token cs)
      else case cs of
        [] \<Rightarrow> None
      | e # es \<Rightarrow> if e = CHR ''0'' then map_option ((#) (CHR ''~'')) (decode_token es)
                 else if e = CHR ''1'' then map_option ((#) (CHR ''/'')) (decode_token es)
                 else None)"

definition op_error :: "nat \<Rightarrow> string \<Rightarrow> py_exn" where
  "op_error index what = ValueError (''operation '' @ dec_nat index @ what)"

definition pointer_tokens :: "json \<Rightarrow> nat \<Rightarrow> string list res" where
  "pointer_tokens pointer index =
     (case pointer of
        JStr p \<Rightarrow>
          if p = [] then Inr []
          else if hd p \<noteq> CHR ''/'' then Inl (op_error index '' path must be empty or start with /'')
          else let raw_tokens = split_slash (tl p) in
            if max_pointer_segments < length raw_tokens
            then Inl (op_error index '' JSON Pointer exceeds max segments'')
            else mapr (\<lambda>raw. case decode_token raw of
                Some t \<Rightarrow> Inr t
              | None \<Rightarrow> Inl (op_error index '' path has invalid JSON Pointer escape'')) raw_tokens
      | _ \<Rightarrow> Inl (op_error index '' path must be a JSON Pointer string''))"

text \<open>The encoding of RFC 6901, as a client writes a pointer.\<close>

definition encode_token :: "string \<Rightarrow> string" where
  "encode_token t =
     concat (map (\<lambda>c. if c = CHR ''~'' then ''~0'' else if c = CHR ''/'' then ''~1'' else [c]) t)"

definition encode_pointer :: "string list \<Rightarrow> string" where
  "encode_pointer ts = concat (map (\<lambda>t. CHR ''/'' # encode_token t) ts)"

lemma decode_encode: "decode_token (encode_token t) = Some t"
  by (induction t) (auto simp: encode_token_def)

lemma encode_no_slash: "CHR ''/'' \<notin> set (encode_token t)"
  by (induction t) (auto simp: encode_token_def)

lemma split_slash_nonempty: "split_slash s \<noteq> []"
  by (induction s) (auto split: list.splits)

lemma split_slash_no_slash: "CHR ''/'' \<notin> set w \<Longrightarrow> split_slash (w @ s) =
    (case split_slash s of [] \<Rightarrow> [w] | v # vs \<Rightarrow> (w @ v) # vs)"
  using split_slash_nonempty[of s] by (induction w) (auto split: list.splits)

lemma split_encode: "split_slash (encode_token t @ encode_pointer ts) = encode_token t # map encode_token ts"
proof (induction ts arbitrary: t)
  case Nil
  then show ?case
    using split_slash_no_slash[OF encode_no_slash, of t "[]"] by (simp add: encode_pointer_def)
next
  case (Cons u ts)
  have "encode_pointer (u # ts) = CHR ''/'' # encode_token u @ encode_pointer ts"
    by (simp add: encode_pointer_def)
  then show ?case
    using split_slash_no_slash[OF encode_no_slash, of t "encode_pointer (u # ts)"] Cons[of u] by simp
qed

text \<open>
  Pointers round-trip: every path of at most 64 tokens, whatever characters the tokens hold, is
  read back from its RFC 6901 encoding.
\<close>

theorem pointer_roundtrip:
  assumes "length ts \<le> max_pointer_segments"
  shows "pointer_tokens (JStr (encode_pointer ts)) index = Inr ts"
proof (cases ts)
  case (Cons t us)
  have p: "encode_pointer ts = CHR ''/'' # encode_token t @ encode_pointer us"
    by (simp add: Cons encode_pointer_def)
  have "mapr (\<lambda>raw. case decode_token raw of Some t \<Rightarrow> Inr t
      | None \<Rightarrow> Inl (op_error index '' path has invalid JSON Pointer escape'')) (map encode_token xs) = Inr xs" for xs
    by (induction xs) (auto simp: decode_encode)
  from this[of ts] show ?thesis
    using assms by (simp add: pointer_tokens_def p split_encode) (simp add: Cons)
qed (simp add: pointer_tokens_def encode_pointer_def)

theorem pointer_roundtrip_witness:
  "pointer_tokens (JStr ''/a~1b/~0/'') 0 = Inr [''a/b'', ''~'', []]"
proof -
  have "encode_pointer [''a/b'', ''~'', []] = ''/a~1b/~0/''"
    by (simp add: encode_pointer_def encode_token_def)
  then show ?thesis
    using pointer_roundtrip[of "[''a/b'', ''~'', []]" 0] by (simp add: max_pointer_segments_def)
qed

section \<open>Targets\<close>

definition array_index :: "string \<Rightarrow> nat \<Rightarrow> bool \<Rightarrow> bool \<Rightarrow> nat res" where
  "array_index token len allow_end allow_dash =
     (if token = ''-'' then
        if allow_dash then Inr len
        else Inl (ValueError (CHR 0x27 # ''-'' @ CHR 0x27 # '' is only valid for add to an array''))
      else if token = [] \<or> 1 < length token \<and> hd token = CHR ''0'' \<or> \<not> list_all ascii_digit token
      then Inl (ValueError ''array index must be 0 or a non-zero decimal without leading zeros'')
      else if 4300 < length token
      then Inl (ValueError (''Exceeds the limit (4300 digits) for integer string conversion: value has ''
             @ dec_nat (length token) @ '' digits; use sys.set_int_max_str_digits() to increase the limit''))
      else let index = decimal_value token in
        if (if allow_end then len else len - 1) < index \<or> \<not> allow_end \<and> len = 0
        then Inl (ValueError ''array index is out of bounds'')
        else Inr index)"

fun locate :: "json \<Rightarrow> string list \<Rightarrow> json res" where
  \<comment> \<open>the loop of \<^verbatim>\<open>_locate_parent\<close> over all tokens but the last\<close>
  "locate current [] = Inr current"
| "locate current (token # tokens) =
     (case current of
        JObj d \<Rightarrow> (case map_of d token of
            None \<Rightarrow> Inl (ValueError ''JSON Pointer parent does not exist'')
          | Some v \<Rightarrow> locate v tokens)
      | JArr xs \<Rightarrow> rbind (array_index token (length xs) False False) (\<lambda>i. locate (xs ! i) tokens)
      | _ \<Rightarrow> Inl (ValueError ''JSON Pointer traverses a scalar value''))"

definition locate_parent :: "json \<Rightarrow> string list \<Rightarrow> (json \<times> string) res" where
  \<comment> \<open>for at least one token\<close>
  "locate_parent document tokens = rbind (locate document (butlast tokens)) (\<lambda>p. Inr (p, last tokens))"

definition value_at :: "json \<Rightarrow> string list \<Rightarrow> json res" where
  "value_at document tokens =
     (if tokens = [] then Inr document
      else rbind (locate_parent document tokens) (\<lambda>(parent, token).
        case parent of
          JObj d \<Rightarrow> (case map_of d token of
              None \<Rightarrow> Inl (ValueError ''JSON Pointer target does not exist'')
            | Some v \<Rightarrow> Inr v)
        | JArr xs \<Rightarrow> rbind (array_index token (length xs) False False) (\<lambda>i. Inr (xs ! i))
        | _ \<Rightarrow> Inl (ValueError ''JSON Pointer target parent is a scalar value'')))"

text \<open>Numbers compare by value, a bool or null only with its own kind, objects by their keys.\<close>

fun json_number :: "json \<Rightarrow> pyfloat option" where
  "json_number (JInt n) = Some (Finite (of_int n))"
| "json_number (JFloat x) = Some x"
| "json_number _ = None"

function json_equal :: "json \<Rightarrow> json \<Rightarrow> bool" where
  "json_equal left right =
     (case (left, right) of
        (JNull, _) \<Rightarrow> right = JNull
      | (_, JNull) \<Rightarrow> False
      | (JBool a, _) \<Rightarrow> right = JBool a
      | (_, JBool b) \<Rightarrow> False
      | (JArr xs, JArr ys) \<Rightarrow> length xs = length ys \<and> list_all (\<lambda>(x, y). json_equal x y) (zip xs ys)
      | (JObj d, JObj e) \<Rightarrow>
          fst ` set d = fst ` set e
          \<and> list_all (\<lambda>(k, v). case map_of e k of Some w \<Rightarrow> json_equal v w | None \<Rightarrow> False) d
      | (JStr s, JStr t) \<Rightarrow> s = t
      | _ \<Rightarrow> json_number left \<noteq> None \<and> json_number right \<noteq> None
             \<and> json_number left = json_number right \<and> json_number left \<noteq> Some NotANumber)"
  by pat_completeness auto
termination
proof (relation "measure (\<lambda>(l, _). size l)", goal_cases)
  case (2 left right _ _ xs ys z x y)
  then have "x \<in> set xs"
    by (auto dest: set_zip_leftD)
  then show ?case
    using 2 json_child_size[of x "JArr xs"] by auto
next
  case (3 left right _ _ d e z k v w)
  then have "(k, v) \<in> set d"
    by auto
  then have "v \<in> set (json_children (JObj d))"
    by force
  from json_child_size[OF this] show ?case
    using 3 by auto
qed simp

declare json_equal.simps [simp del]

section \<open>Operations\<close>

datatype patch_op = OpAdd | OpRemove | OpReplace | OpTest

type_synonym operation = "patch_op \<times> string list \<times> json"

fun rewrite_at :: "json \<Rightarrow> string list \<Rightarrow> json \<Rightarrow> json" where
  \<comment> \<open>the document after the container a path leads to was changed in place\<close>
  "rewrite_at current [] v = v"
| "rewrite_at current (token # tokens) v =
     (case current of
        JObj d \<Rightarrow> (case map_of d token of
            None \<Rightarrow> current
          | Some w \<Rightarrow> JObj (AList.update token (rewrite_at w tokens v) d))
      | JArr xs \<Rightarrow> (case array_index token (length xs) False False of
            Inl _ \<Rightarrow> current
          | Inr i \<Rightarrow> JArr (xs[i := rewrite_at (xs ! i) tokens v]))
      | _ \<Rightarrow> current)"

definition edit_parent :: "patch_op \<Rightarrow> string \<Rightarrow> json \<Rightarrow> json \<Rightarrow> json res" where
  "edit_parent op token value parent =
     (case parent of
        JObj d \<Rightarrow>
          if op \<in> {OpRemove, OpReplace} \<and> token \<notin> fst ` set d
          then Inl (ValueError ''JSON Pointer target does not exist'')
          else if op = OpRemove then Inr (JObj (AList.delete token d))
          else Inr (JObj (AList.update token value d))
      | JArr xs \<Rightarrow>
          rbind (array_index token (length xs) (op = OpAdd) (op = OpAdd)) (\<lambda>p.
            Inr (JArr (if op = OpAdd then take p xs @ value # drop p xs
                       else if op = OpRemove then take p xs @ drop (p + 1) xs
                       else xs[p := value])))
      | _ \<Rightarrow> Inl (ValueError ''JSON Pointer target parent is a scalar value''))"

definition is_container :: "json \<Rightarrow> bool" where
  "is_container v = (case v of JArr _ \<Rightarrow> True | JObj _ \<Rightarrow> True | _ \<Rightarrow> False)"

definition apply_operation :: "json \<Rightarrow> operation \<Rightarrow> json res" where
  \<comment> \<open>the body of the loop of \<^verbatim>\<open>_apply_operations\<close>\<close>
  "apply_operation document opn =
     (let (op, tokens, value) = opn in
      if op = OpTest then
        rbind (value_at document tokens) (\<lambda>v.
          if json_equal v value then Inr document else Inl (ValueError ''test precondition failed''))
      else if tokens = [] then
        if op = OpRemove then Inl (ValueError ''removing the document root is not supported'')
        else if \<not> is_container value
        then Inl (ValueError ''document root must remain an object or array'')
        else Inr value
      else
        rbind (locate_parent document tokens) (\<lambda>(parent, token).
        rbind (edit_parent op token value parent) (\<lambda>parent'.
          let document' = rewrite_at document (butlast tokens) parent'
          in rbind (json_depth document') (\<lambda>_. Inr document'))))"

fun exn_text :: "py_exn \<Rightarrow> string" where
  "exn_text (ValueError s) = s"
| "exn_text _ = []"

fun apply_operations :: "nat \<Rightarrow> json \<Rightarrow> operation list \<Rightarrow> json res" where
  "apply_operations index document [] = Inr document"
| "apply_operations index document (opn # opns) =
     (case apply_operation document opn of
        Inl e \<Rightarrow> Inl (op_error index ('' failed: '' @ exn_text e))
      | Inr document' \<Rightarrow> apply_operations (Suc index) document' opns)"

text \<open>The checks on the parsed operations.\<close>

definition op_named :: "string \<Rightarrow> patch_op option" where
  "op_named s =
     (if s = ''add'' then Some OpAdd else if s = ''remove'' then Some OpRemove
      else if s = ''replace'' then Some OpReplace else if s = ''test'' then Some OpTest else None)"

definition parse_operation :: "nat \<Rightarrow> json \<Rightarrow> operation res" where
  "parse_operation index operation =
     (case operation of
        JObj d \<Rightarrow>
          (case map_of d ''op'' of
             Some (JArr _) \<Rightarrow> Inl (TypeError (''unhashable type: '' @ CHR 0x27 # ''list'' @ [CHR 0x27]))
           | Some (JObj _) \<Rightarrow> Inl (TypeError (''unhashable type: '' @ CHR 0x27 # ''dict'' @ [CHR 0x27]))
           | opv \<Rightarrow>
              (case (case opv of Some (JStr s) \<Rightarrow> op_named s | _ \<Rightarrow> None) of
                 None \<Rightarrow> Inl (op_error index '' op must be add, remove, replace, or test'')
               | Some op \<Rightarrow>
                   (let required = (if op = OpRemove then [''op'', ''path''] else [''op'', ''path'', ''value'']) in
                    if fst ` set d \<noteq> set required
                    then Inl (op_error index ('' must contain exactly: '' @ py_join '', '' required))
                    else rbind (pointer_tokens (case map_of d ''path'' of Some p \<Rightarrow> p | None \<Rightarrow> JNull) index) (\<lambda>tokens.
                      Inr (op, tokens, case map_of d ''value'' of Some v \<Rightarrow> v | None \<Rightarrow> JNull)))))
      | _ \<Rightarrow> Inl (op_error index '' must be an object''))"

fun parse_each :: "nat \<Rightarrow> json list \<Rightarrow> operation list res" where
  "parse_each index [] = Inr []"
| "parse_each index (x # xs) =
     rbind (parse_operation index x) (\<lambda>opn. rbind (parse_each (Suc index) xs) (\<lambda>opns. Inr (opn # opns)))"

definition parse_operations :: "nat \<Rightarrow> json \<Rightarrow> operation list res" where
  \<comment> \<open>the encoded length and the strictly parsed value of the argument\<close>
  "parse_operations encoded_length operations =
     (if 128000 < encoded_length then Inl (ValueError ''patch operations exceed max input bytes (128000)'')
      else case operations of
        JArr xs \<Rightarrow>
          if xs = [] then Inl (ValueError ''patch operations must be a non-empty JSON array'')
          else if 100 < length xs then Inl (ValueError ''patch exceeds max operations (100)'')
          else rbind (json_depth operations) (\<lambda>_. parse_each 0 xs)
      | _ \<Rightarrow> Inl (ValueError ''patch operations must be a non-empty JSON array''))"

definition patch_document :: "nat \<Rightarrow> json \<Rightarrow> json \<Rightarrow> json res" where
  \<comment> \<open>\<^verbatim>\<open>patch_json\<close> between the parsing of the file and its serialization\<close>
  "patch_document encoded_length operations document =
     rbind (parse_operations encoded_length operations) (\<lambda>opns.
       if \<not> is_container document
       then Inl (ValueError ''JSON patch target root must be an object or array'')
       else rbind (json_depth document) (\<lambda>_.
            rbind (apply_operations 0 document opns) (\<lambda>document'.
            rbind (json_depth document') (\<lambda>_. Inr document'))))"

section \<open>Targets and their values\<close>

lemma locate_append: "locate doc (ps @ qs) = rbind (locate doc ps) (\<lambda>v. locate v qs)"
  by (induction doc ps rule: locate.induct) (auto split: json.splits option.splits simp: rbind_def split: sum.splits)

lemma value_at_locate: "value_at doc ts = Inr v \<longleftrightarrow> locate doc ts = Inr v"
proof (cases "ts = []")
  case False
  then have "locate doc ts = rbind (locate doc (butlast ts)) (\<lambda>p. locate p [last ts])"
    using locate_append[of doc "butlast ts" "[last ts]"] by simp
  then show ?thesis
    using False by (auto simp: value_at_def locate_parent_def split: json.splits option.splits)
qed (simp add: value_at_def)

lemma array_index_bound: "array_index t n False False = Inr i \<Longrightarrow> i < n"
  by (auto simp: array_index_def Let_def split: if_splits)

lemma locate_rewrite: "locate doc ps = Inr p \<Longrightarrow> locate (rewrite_at doc ps p') ps = Inr p'"
proof (induction ps arbitrary: doc)
  case (Cons t ps)
  then show ?case
    by (cases doc) (auto simp: dict_simps array_index_bound split: option.splits)
qed simp

lemma update_same: "map_of d k = Some v \<Longrightarrow> AList.update k v d = d"
  by (induction d) auto

lemma update_twice: "AList.update k v (AList.update k w d) = AList.update k v d"
  by (induction d) auto

lemma rewrite_self: "locate doc ps = Inr p \<Longrightarrow> rewrite_at doc ps p = doc"
proof (induction ps arbitrary: doc)
  case (Cons t ps)
  then show ?case
    by (cases doc) (auto simp: update_same split: option.splits)
qed simp

lemma rewrite_twice: "locate doc ps = Inr p \<Longrightarrow> rewrite_at (rewrite_at doc ps p') ps p'' = rewrite_at doc ps p''"
proof (induction ps arbitrary: doc)
  case (Cons t ps)
  then show ?case
    by (cases doc) (auto simp: dict_simps update_twice array_index_bound split: option.splits)
qed simp

subsection \<open>Array indices are canonical\<close>

lemma digit_pos: "ascii_digit c \<Longrightarrow> c \<noteq> CHR ''0'' \<Longrightarrow> 0 < of_char c - (48::nat)"
proof (rule ccontr)
  assume c: "ascii_digit c" "c \<noteq> CHR ''0''" and "\<not> 0 < of_char c - (48::nat)"
  then have "dec_digit (of_char c - 48) = dec_digit 0"
    by simp
  then have "c = dec_digit 0"
    using digit_char[OF c(1)] by simp
  moreover have "dec_digit 0 = CHR ''0''"
    by code_simp
  ultimately show False
    using c(2) by simp
qed

lemma dec_nat_value:
  "list_all ascii_digit t \<Longrightarrow> t \<noteq> [] \<Longrightarrow> hd t \<noteq> CHR ''0'' \<Longrightarrow> 0 < decimal_value t \<and> dec_nat (decimal_value t) = t"
proof (induction t rule: rev_induct)
  case (snoc c t)
  have c: "ascii_digit c" "of_char c - 48 < (10::nat)"
    using snoc.prems(1) ascii_digit_range[of c] by auto
  show ?case
  proof (cases "t = []")
    case True
    have "decimal_value [c] = of_char c - 48"
      by (simp add: decimal_value.simps)
    with True snoc.prems(3) c show ?thesis
      using dec_nat_step[of "of_char c - 48" 0] digit_char[OF c(1)] digit_pos[OF c(1)] by simp
  next
    case False
    with snoc have "0 < decimal_value t" "dec_nat (decimal_value t) = t"
      by (simp_all add: list_all_iff)
    then show ?thesis
      using dec_nat_step[OF c(2), of "decimal_value t"] digit_char[OF c(1)] by (simp add: decimal_value_snoc)
  qed
qed simp

lemma array_index_canonical:
  assumes "array_index t n e False = Inr i"
  shows "t = dec_nat i"
proof (cases "hd t = CHR ''0''")
  case True
  then have "t = ''0''"
    using assms by (cases t) (auto simp: array_index_def Let_def split: if_splits)
  moreover have "decimal_value ''0'' = 0" "dec_nat 0 = ''0''"
    by code_simp+
  ultimately show ?thesis
    using assms by (auto simp: array_index_def Let_def split: if_splits)
next
  case False
  then show ?thesis
    using assms dec_nat_value[of t] by (auto simp: array_index_def Let_def split: if_splits)
qed

lemma array_index_inj:
  "array_index s n False False = Inr i \<Longrightarrow> array_index t n False False = Inr i \<Longrightarrow> s = t"
  using array_index_canonical by metis

lemma locate_frame:
  "locate doc ps = Inr p \<Longrightarrow> \<not> prefix ps qs \<Longrightarrow> \<not> prefix qs ps \<Longrightarrow> locate (rewrite_at doc ps p') qs = locate doc qs"
proof (induction ps arbitrary: doc qs)
  case (Cons t ps)
  obtain u us where qs: "qs = u # us"
    using Cons.prems(3) by (cases qs) auto
  show ?case
  proof (cases doc)
    case (JArr xs)
    then obtain i where i: "array_index t (length xs) False False = Inr i" "locate (xs ! i) ps = Inr p"
      using Cons.prems(1) by auto
    show ?thesis
    proof (cases "u = t")
      case True
      then show ?thesis
        using Cons.IH[OF i(2), of us] Cons.prems(2,3) qs JArr i array_index_bound[OF i(1)] by auto
    next
      case False
      have "j \<noteq> i" if "array_index u (length xs) False False = Inr j" for j
        using array_index_inj[OF that] i(1) False by blast
      then show ?thesis
        using qs JArr i by (cases "array_index u (length xs) False False") auto
    qed
  next
    case (JObj d)
    then obtain w where w: "map_of d t = Some w" "locate w ps = Inr p"
      using Cons.prems(1) by (auto split: option.splits)
    then show ?thesis
      using Cons.IH[OF w(2), of us] Cons.prems(2,3) qs JObj by (auto simp: dict_simps split: option.splits)
  qed (use Cons.prems(1) in auto)
qed simp

section \<open>What an operation does\<close>

lemma apply_operation_edit:
  assumes "apply_operation doc (op, ts, v) = Inr doc'" "op \<noteq> OpTest" "ts \<noteq> []"
  obtains p p' where "locate doc (butlast ts) = Inr p" "edit_parent op (last ts) v p = Inr p'"
    "doc' = rewrite_at doc (butlast ts) p'" "nesting doc' \<le> 64"
  using assms
  by (auto simp: apply_operation_def locate_parent_def Let_def json_depth_exact split: if_splits)

lemma locate_last: "ts \<noteq> [] \<Longrightarrow> locate doc ts = rbind (locate doc (butlast ts)) (\<lambda>p. locate p [last ts])"
  using locate_append[of doc "butlast ts" "[last ts]"] by simp

lemma insert_at:
  assumes "i \<le> length xs"
  shows "length (take i xs @ v # drop i xs) = Suc (length xs)" "(take i xs @ v # drop i xs) ! i = v"
    "take i (take i xs @ v # drop i xs) @ drop (i + 1) (take i xs @ v # drop i xs) = xs"
  using assms by (simp_all add: nth_append min_def)

lemma edit_sets:
  assumes "edit_parent op t v p = Inr p'" "op = OpAdd \<or> op = OpReplace" "t \<noteq> ''-'' \<or> (\<exists>d. p = JObj d)"
  shows "locate p' [t] = Inr v"
proof (cases p)
  case (JArr xs)
  then have t: "t \<noteq> ''-''"
    using assms(3) by simp
  obtain i where i: "array_index t (length xs) (op = OpAdd) (op = OpAdd) = Inr i"
    "p' = JArr (if op = OpAdd then take i xs @ v # drop i xs else xs[i := v])"
    using assms(1,2) JArr by (auto simp: edit_parent_def split: if_splits)
  show ?thesis
  proof (cases "op = OpAdd")
    case True
    then have "array_index t (Suc (length xs)) False False = Inr i" "i \<le> length xs"
      using i(1) t by (auto simp: array_index_def Let_def split: if_splits)
    then show ?thesis
      using i(2) True insert_at[of i xs v]
      by (simp only: locate.simps json.case if_True rbind_simps simp_thms)
  next
    case False
    then show ?thesis
      using i assms(2) array_index_bound[of t "length xs" i] by simp
  qed
next
  case (JObj d)
  then show ?thesis
    using assms(1,2) by (auto simp: edit_parent_def dict_simps split: if_splits)
qed (use assms(1) in \<open>auto simp: edit_parent_def\<close>)

lemma edit_keeps_siblings:
  assumes "edit_parent op t v p = Inr p'" "op = OpReplace \<or> (\<exists>d. p = JObj d)" "u \<noteq> t"
  shows "locate p' (u # us) = locate p (u # us)"
proof (cases p)
  case (JArr xs)
  then have op: "op = OpReplace"
    using assms(2) by simp
  obtain i where i: "array_index t (length xs) False False = Inr i" "p' = JArr (xs[i := v])"
    using assms(1) JArr op by (auto simp: edit_parent_def)
  have "j \<noteq> i" if "array_index u (length xs) False False = Inr j" for j
    using array_index_inj[OF that] i(1) assms(3) by blast
  then show ?thesis
    using JArr i by (cases "array_index u (length xs) False False") auto
next
  case (JObj d)
  then show ?thesis
    using assms by (auto simp: edit_parent_def dict_simps split: if_splits)
qed (use assms(1) in \<open>auto simp: edit_parent_def\<close>)

text \<open>
  An operation changes its target and nothing beside it: after a successful add or replace the
  value at the path is the new one, and every path that is neither above nor below the target keeps
  its value (or its absence), where an add or remove in an array may shift the array's other elements.
\<close>

theorem patch_is_local:
  assumes "apply_operation doc (op, ts, v) = Inr doc'" "op \<noteq> OpTest" "ts \<noteq> []"
  shows "((op = OpAdd \<or> op = OpReplace) \<and> last ts \<noteq> ''-'' \<longrightarrow> value_at doc' ts = Inr v)
    \<and> (\<not> prefix ts qs \<and> \<not> prefix qs ts
        \<and> (op = OpReplace \<or> (\<exists>d. value_at doc (butlast ts) = Inr (JObj d)) \<or> \<not> prefix (butlast ts) qs)
       \<longrightarrow> (value_at doc' qs = Inr u) = (value_at doc qs = Inr u))"
proof -
  obtain p p' where p: "locate doc (butlast ts) = Inr p" "edit_parent op (last ts) v p = Inr p'"
    "doc' = rewrite_at doc (butlast ts) p'"
    using apply_operation_edit[OF assms] by metis
  have p': "locate doc' (butlast ts) = Inr p'"
    using locate_rewrite[OF p(1)] p(3) by simp
  have "locate doc' ts = Inr v" if "op = OpAdd \<or> op = OpReplace" "last ts \<noteq> ''-''"
    using edit_sets[OF p(2) that(1)] that(2) p' by (simp add: locate_last[OF assms(3)])
  moreover have "locate doc' qs = locate doc qs"
    if out: "\<not> prefix ts qs" "\<not> prefix qs ts"
      and side: "op = OpReplace \<or> (\<exists>d. locate doc (butlast ts) = Inr (JObj d)) \<or> \<not> prefix (butlast ts) qs"
  proof (cases "prefix (butlast ts) qs")
    case True
    then obtain us where us: "qs = butlast ts @ us"
      by (auto simp: prefix_def)
    have ts: "ts = butlast ts @ [last ts]"
      using assms(3) by simp
    obtain x xs where x: "us = x # xs"
      using out(2) us ts by (cases us) (auto simp: prefix_def)
    have "x \<noteq> last ts"
    proof
      assume "x = last ts"
      then have "qs = ts @ xs"
        using us x ts by simp
      then show False
        using out(1) by (simp add: prefix_def)
    qed
    moreover have "op = OpReplace \<or> (\<exists>d. p = JObj d)"
      using side True p(1) by auto
    ultimately show ?thesis
      using edit_keeps_siblings[OF p(2)] p(1) p' by (simp add: us x locate_append)
  next
    case False
    have "\<not> prefix qs (butlast ts)"
      using out(2) assms(3) by (meson prefix_order.trans prefixeq_butlast)
    then show ?thesis
      using locate_frame[OF p(1) False] p(3) by simp
  qed
  ultimately show ?thesis
    by (simp add: value_at_locate)
qed

text \<open>
  Adding and removing are inverse: after a member was added under a new key, or an element
  inserted at an index, removing the same path gives back the document as it was.
\<close>

theorem add_then_remove:
  assumes "apply_operation doc (OpAdd, ts, v) = Inr doc'" "ts \<noteq> []" "last ts \<noteq> ''-''" "nesting doc \<le> 64"
    and new: "\<forall>d. value_at doc (butlast ts) = Inr (JObj d) \<longrightarrow> last ts \<notin> fst ` set d"
  shows "apply_operation doc' (OpRemove, ts, w) = Inr doc"
proof -
  obtain p p' where p: "locate doc (butlast ts) = Inr p" "edit_parent OpAdd (last ts) v p = Inr p'"
    "doc' = rewrite_at doc (butlast ts) p'"
    using apply_operation_edit[OF assms(1) _ assms(2)] by (metis patch_op.distinct(6))
  have "edit_parent OpRemove (last ts) w p' = Inr p"
  proof (cases p)
    case (JArr xs)
    obtain i where i: "array_index (last ts) (length xs) True True = Inr i" "p' = JArr (take i xs @ v # drop i xs)"
      using p(2) JArr by (auto simp: edit_parent_def)
    then have "array_index (last ts) (Suc (length xs)) False False = Inr i" "i \<le> length xs"
      using assms(3) by (auto simp: array_index_def Let_def split: if_splits)
    then show ?thesis
      using i(2) JArr insert_at[of i xs v]
      by (simp only: edit_parent_def json.case rbind_simps patch_op.distinct if_False if_True simp_thms)
  next
    case (JObj d)
    have "last ts \<notin> fst ` set d"
      using new p(1) JObj by (simp add: value_at_locate)
    moreover from this have "AList.delete (last ts) (d @ [(last ts, v)]) = d"
      by (induction d) (auto simp: AList.delete_eq)
    ultimately show ?thesis
      using p(2) JObj by (auto simp: edit_parent_def update_new_key)
  qed (use p(2) in \<open>auto simp: edit_parent_def\<close>)
  moreover have "rewrite_at doc' (butlast ts) p = doc"
    using rewrite_twice[OF p(1)] rewrite_self[OF p(1)] p(3) by simp
  moreover have "locate doc' (butlast ts) = Inr p'"
    using locate_rewrite[OF p(1)] p(3) by simp
  ultimately show ?thesis
    using assms(2,4) by (simp add: apply_operation_def locate_parent_def json_depth_exact Let_def)
qed

section \<open>Documents stay well formed\<close>

function json_ok :: "json \<Rightarrow> bool" where
  \<comment> \<open>no object has a duplicate key, as the strict parser guarantees\<close>
  "json_ok v = ((case v of JObj d \<Rightarrow> dict_ok d | _ \<Rightarrow> True) \<and> list_all json_ok (json_children v))"
  by auto
termination
  by (relation "measure size") (auto dest: json_child_size)

declare json_ok.simps [simp del]

lemma json_ok_simps [simp]:
  "json_ok (JArr xs) = list_all json_ok xs"
  "json_ok (JObj d) = (dict_ok d \<and> list_all (\<lambda>(_, v). json_ok v) d)"
  "json_ok JNull" "json_ok (JBool b)" "json_ok (JInt n)" "json_ok (JFloat x)" "json_ok (JStr s)"
  by (auto simp: json_ok.simps[of "JArr xs"] json_ok.simps[of "JObj d"] json_ok.simps[of JNull]
      json_ok.simps[of "JBool b"] json_ok.simps[of "JInt n"] json_ok.simps[of "JFloat x"]
      json_ok.simps[of "JStr s"] list_all_iff)

lemma strict_object_ok:
  assumes "reject_duplicate_object pairs = Inr v" "list_all (\<lambda>(_, w). json_ok w) pairs"
  shows "v = JObj pairs \<and> json_ok v"
proof -
  have none: "fst (pairs ! i) \<notin> fst ` set (take i pairs)" if "i < length pairs" for i
    using assms(1) that by (auto simp: reject_duplicate_object_def find_None_iff split: option.splits)
  have "map fst pairs ! j \<noteq> map fst pairs ! i" if "i < length pairs" "j < i" for i j
  proof -
    have "fst (pairs ! j) \<in> fst ` set (take i pairs)"
      using that by (metis imageI in_set_conv_nth length_take min.absorb2 nat_less_le nth_take)
    then show ?thesis
      using none[OF that(1)] that by (metis nth_map order.strict_trans)
  qed
  then have "dict_ok pairs"
    by (auto simp: distinct_conv_nth) (metis nat_neq_iff nth_map)
  moreover have "v = JObj pairs"
    using assms(1) by (auto simp: reject_duplicate_object_def split: option.splits)
  ultimately show ?thesis
    using assms(2) by simp
qed

lemma map_of_ok: "list_all (\<lambda>(_, v). json_ok v) d \<Longrightarrow> map_of d k = Some v \<Longrightarrow> json_ok v"
  by (auto simp: list_all_iff dest: map_of_SomeD)

lemma update_ok: "json_ok (JObj d) \<Longrightarrow> json_ok v \<Longrightarrow> json_ok (JObj (AList.update k v d))"
  using set_update_subset[of k v d] by (auto simp: distinct_update list_all_iff)

lemma delete_ok: "json_ok (JObj d) \<Longrightarrow> json_ok (JObj (AList.delete k d))"
  using set_delete_subset[of k d] by (auto simp: distinct_delete list_all_iff)

lemma locate_ok: "json_ok doc \<Longrightarrow> locate doc ps = Inr p \<Longrightarrow> json_ok p"
proof (induction ps arbitrary: doc)
  case (Cons t ps)
  show ?case
  proof (cases doc)
    case (JArr xs)
    then obtain i where i: "array_index t (length xs) False False = Inr i" "locate (xs ! i) ps = Inr p"
      using Cons.prems(2) by auto
    then show ?thesis
      using Cons.IH[OF _ i(2)] Cons.prems(1) JArr array_index_bound[OF i(1)] by (simp add: list_all_length)
  next
    case (JObj d)
    then obtain w where w: "map_of d t = Some w" "locate w ps = Inr p"
      using Cons.prems(2) by (auto split: option.splits)
    then show ?thesis
      using Cons.IH[OF _ w(2)] map_of_ok[OF _ w(1)] Cons.prems(1) JObj by simp
  qed (use Cons.prems in auto)
qed simp

lemma rewrite_ok: "json_ok doc \<Longrightarrow> json_ok p' \<Longrightarrow> json_ok (rewrite_at doc ps p')"
proof (induction ps arbitrary: doc)
  case (Cons t ps)
  show ?case
  proof (cases doc)
    case (JArr xs)
    have "list_all json_ok (xs[i := rewrite_at (xs ! i) ps p'])"
      if "array_index t (length xs) False False = Inr i" for i
    proof -
      have "json_ok (xs ! i)"
        using Cons.prems(1) JArr array_index_bound[OF that] by (simp add: list_all_length)
      then have "json_ok (rewrite_at (xs ! i) ps p')"
        by (rule Cons.IH[OF _ Cons.prems(2)])
      then show ?thesis
        using Cons.prems(1) JArr set_update_subset_insert[of xs i] by (auto simp: list_all_iff)
    qed
    then show ?thesis
      using JArr Cons.prems by (auto split: sum.splits)
  next
    case (JObj d)
    then show ?thesis
      using Cons update_ok[of d] map_of_ok[of d t] by (auto split: option.splits simp del: json_ok_simps(2)) (auto)
  qed (use Cons.prems in auto)
qed simp

lemma edit_ok:
  assumes "edit_parent op t v p = Inr p'" "json_ok p" "json_ok v"
  shows "json_ok p' \<and> is_container p'"
proof (cases p)
  case (JArr xs)
  show ?thesis
    using assms JArr
    by (auto simp: edit_parent_def is_container_def list_all_iff split: if_splits
        dest!: in_set_takeD in_set_dropD subsetD[OF set_update_subset_insert])
next
  case (JObj d)
  then show ?thesis
    using assms update_ok[of d v t] delete_ok[of d t]
    by (auto simp: edit_parent_def is_container_def split: if_splits)
qed (use assms(1) in \<open>auto simp: edit_parent_def\<close>)

lemma rewrite_container: "is_container doc \<Longrightarrow> is_container p' \<Longrightarrow> is_container (rewrite_at doc ps p')"
  by (cases ps; cases doc) (auto simp: is_container_def split: option.splits sum.splits)

lemma apply_operation_ok:
  assumes "apply_operation doc (op, ts, v) = Inr doc'" "json_ok doc" "is_container doc" "json_ok v"
  shows "json_ok doc' \<and> is_container doc'"
proof (cases "op = OpTest \<or> ts = []")
  case True
  then show ?thesis
    using assms by (auto simp: apply_operation_def split: if_splits)
next
  case False
  then obtain p p' where p: "locate doc (butlast ts) = Inr p" "edit_parent op (last ts) v p = Inr p'"
    "doc' = rewrite_at doc (butlast ts) p'"
    using apply_operation_edit[OF assms(1)] by metis
  then show ?thesis
    using edit_ok[OF p(2) locate_ok[OF assms(2) p(1)] assms(4)] rewrite_ok[OF assms(2)] rewrite_container[OF assms(3)]
    by blast
qed

lemma apply_operations_ok:
  assumes "apply_operations i doc opns = Inr doc'" "json_ok doc" "is_container doc"
    "list_all (\<lambda>(_, _, v). json_ok v) opns"
  shows "json_ok doc' \<and> is_container doc'"
  using assms
proof (induction opns arbitrary: i doc)
  case (Cons opn opns)
  obtain op ts v where opn: "opn = (op, ts, v)"
    by (cases opn)
  obtain doc1 where one: "apply_operation doc opn = Inr doc1" "apply_operations (Suc i) doc1 opns = Inr doc'"
    using Cons.prems(1) by (auto split: sum.splits)
  show ?case
    using Cons.IH[OF one(2)] apply_operation_ok[OF one(1)[unfolded opn]] Cons.prems opn by simp
qed simp

lemma parse_operation_ok: "parse_operation i x = Inr (op, ts, v) \<Longrightarrow> json_ok x \<Longrightarrow> json_ok v"
  by (auto simp: parse_operation_def Let_def map_of_ok split: json.splits option.splits if_splits)

lemma parse_each_ok: "parse_each i xs = Inr opns \<Longrightarrow> list_all json_ok xs \<Longrightarrow> list_all (\<lambda>(_, _, v). json_ok v) opns"
proof (induction xs arbitrary: i opns)
  case (Cons x xs)
  then show ?case
    by (auto dest: parse_operation_ok)
qed simp

text \<open>
  (C31) Patching keeps documents well formed: on strictly parsed input a patch that succeeds yields an
  object or array, without duplicate keys and nested at most 64 deep, from a non-empty list of at
  most 100 operations.
\<close>

theorem patch_document_well_formed:
  assumes "patch_document n ops doc = Inr doc'" "json_ok ops" "json_ok doc"
  shows "is_container doc' \<and> json_ok doc' \<and> nesting doc' \<le> 64
    \<and> (\<exists>xs. ops = JArr xs \<and> xs \<noteq> [] \<and> length xs \<le> 100)"
proof -
  obtain xs opns where xs: "ops = JArr xs" "xs \<noteq> []" "length xs \<le> 100" "parse_each 0 xs = Inr opns"
    and doc: "is_container doc" "apply_operations 0 doc opns = Inr doc'" "nesting doc' \<le> 64"
    using assms(1)
    by (auto simp: patch_document_def parse_operations_def json_depth_exact split: json.splits if_splits)
  have "list_all (\<lambda>(_, _, v). json_ok v) opns"
    using parse_each_ok[OF xs(4)] assms(2) xs(1) by simp
  then show ?thesis
    using apply_operations_ok[OF doc(2) assms(3) doc(1)] xs doc(3) by blast
qed

section \<open>Committing the file\<close>
















section \<open>A concrete document\<close>

definition example_doc :: json where
  "example_doc = JObj [(''a'', JArr [JInt 1, JInt 2]), (''b'', JNull)]"

definition example_patched :: json where
  "example_patched = JObj [(''a'', JArr [JInt 1, JStr ''x'', JInt 2]), (''b'', JNull)]"

definition example_patch :: json where
  "example_patch = JArr [JObj [(''op'', JStr ''add''), (''path'', JStr ''/a/1''), (''value'', JStr ''x'')]]"

lemma nesting_simps:
  "nesting (JArr xs) = Suc (Max (insert 0 (nesting ` set xs)))"
  "nesting (JObj d) = Suc (Max (insert 0 ((\<lambda>e. nesting (snd e)) ` set d)))"
  "nesting JNull = 1" "nesting (JBool b) = 1" "nesting (JInt n) = 1" "nesting (JFloat x) = 1" "nesting (JStr s) = 1"
  by (simp_all add: nesting.simps[of "JArr xs"] nesting.simps[of "JObj d"] nesting.simps[of JNull]
      nesting.simps[of "JBool b"] nesting.simps[of "JInt n"] nesting.simps[of "JFloat x"] nesting.simps[of "JStr s"]
      image_image)

lemma example_nesting: "nesting example_doc \<le> 64" "nesting example_patched \<le> 64"
  by (simp_all add: example_doc_def example_patched_def nesting_simps)

lemma example_index: "array_index ''1'' (Suc (Suc 0)) True True = Inr (Suc 0)"
  by (simp add: array_index_def decimal_value.simps ascii_digit_def less_eq_char_def)

lemma example_apply:
  "apply_operation example_doc (OpAdd, [''a'', ''1''], JStr ''x'') = Inr example_patched"
  "value_at example_doc [''b''] = Inr JNull"
  "case value_at example_doc [''a''] of Inr (JArr xs) \<Rightarrow> True | _ \<Rightarrow> False"
  "patch_document 60 example_patch example_doc = Inr example_patched"
  by (simp_all add: example_doc_def example_patched_def example_patch_def apply_operation_def locate_parent_def
      value_at_def edit_parent_def example_index example_nesting[unfolded example_doc_def example_patched_def]
      json_depth_exact patch_document_def parse_operations_def parse_operation_def op_named_def pointer_tokens_def
      max_pointer_segments_def is_container_def nesting_simps Let_def)

theorem patch_is_local_witness:
  "value_at example_patched [''a'', ''1''] = Inr (JStr ''x'') \<and> value_at example_patched [''b''] = Inr JNull"
  using patch_is_local[OF example_apply(1), of "[''b'']" JNull] example_apply(2) by simp

theorem add_then_remove_witness:
  "apply_operation example_patched (OpRemove, [''a'', ''1''], JNull) = Inr example_doc"
proof -
  have "\<forall>d. value_at example_doc (butlast [''a'', ''1'']) = Inr (JObj d) \<longrightarrow> last [''a'', ''1''] \<notin> fst ` set d"
    using example_apply(3) by auto
  then show ?thesis
    using add_then_remove[OF example_apply(1) _ _ example_nesting(1)] by simp
qed

theorem patch_document_well_formed_witness:
  "patch_document 60 example_patch example_doc = Inr example_patched \<and> json_ok example_patched"
proof -
  have "json_ok example_patch" "json_ok example_doc"
    by (simp_all add: example_patch_def example_doc_def)
  then show ?thesis
    using patch_document_well_formed[OF example_apply(4)] example_apply(4) by simp
qed

end
