(* ===== verification/MemoryMutation.thy ===== *)
theory MemoryMutation
  imports JsonValue
begin

text \<open>
  \<^verbatim>\<open>domain/memory/replication.py\<close>: the records the memory journal and its replicas exchange. A mutation,
  a page of mutations and a receipt, each with its validating constructor, its digest and its wire form.
  The SHA-256 of a text, the length of a canonical text and the reading of a timestamp are arguments
  (\<open>codec\<close>): the components use them through what they yield.
\<close>

section \<open>Grammars and checks\<close>

record codec =
  cd_sha :: "json \<Rightarrow> string"
  cd_len :: "json \<Rightarrow> nat"
  cd_ts :: "string \<Rightarrow> string option"

definition project_char :: "char \<Rightarrow> bool" where
  "project_char c = (ascii_alnum c \<or> c \<in> {CHR ''.'', CHR ''_'', CHR '':'', CHR 0x5C, CHR ''/'', CHR ''-''})"

definition project_match :: "string \<Rightarrow> bool" where
  \<comment> \<open>\<^verbatim>\<open>_PROJECT\<close>: a letter, digit, slash or two backslashes, then at most 255 more characters\<close>
  "project_match s =
     (case s of
        [] \<Rightarrow> False
      | c # cs \<Rightarrow>
          (ascii_alnum c \<or> c = CHR ''/'') \<and> length cs \<le> 255 \<and> list_all project_char cs
          \<or> c = CHR 0x5C \<and> cs \<noteq> [] \<and> hd cs = CHR 0x5C \<and> length (tl cs) \<le> 255 \<and> list_all project_char (tl cs))"

definition memory_kinds :: "string list" where
  "memory_kinds = [''fact'', ''interaction'', ''outcome'', ''preference'', ''lesson_decision'']"

definition memory_operations :: "string list" where
  "memory_operations = [''upsert'', ''delete'']"

definition mr_identity :: "json \<Rightarrow> string \<Rightarrow> string res" where
  "mr_identity v field =
     (case v of
        JStr s \<Rightarrow> if identity_match s then Inr s
                  else Inl (MemoryReplicationError (field @ '' must be a bounded stable identity''))
      | _ \<Rightarrow> Inl (MemoryReplicationError (field @ '' must be a bounded stable identity'')))"

definition mr_project :: "json \<Rightarrow> string res" where
  "mr_project v =
     (case v of
        JStr s \<Rightarrow> if project_match s then Inr s
                  else Inl (MemoryReplicationError ''project must be a bounded stable scope'')
      | _ \<Rightarrow> Inl (MemoryReplicationError ''project must be a bounded stable scope''))"

definition mr_within :: "int \<Rightarrow> int \<Rightarrow> json \<Rightarrow> string \<Rightarrow> int res" where
  \<comment> \<open>\<^verbatim>\<open>_positive\<close> from 1 and \<^verbatim>\<open>_non_negative\<close> from 0; a bool is no int here\<close>
  "mr_within low high v field =
     (let bad = MemoryReplicationError
           (field @ '' must be within '' @ py_str_int low @ ''..'' @ py_str_int high)
      in case v of JInt n \<Rightarrow> if low \<le> n \<and> n \<le> high then Inr n else Inl bad | _ \<Rightarrow> Inl bad)"

definition mr_choice :: "string list \<Rightarrow> string \<Rightarrow> json \<Rightarrow> string res" where
  "mr_choice allowed message v =
     (case v of
        JStr s \<Rightarrow> if s \<in> set allowed then Inr s else Inl (MemoryReplicationError message)
      | _ \<Rightarrow> Inl (MemoryReplicationError message))"

definition mr_timestamp :: "codec \<Rightarrow> json \<Rightarrow> string res" where
  "mr_timestamp cd v =
     (let bad = MemoryReplicationError ''recorded_at must be a timezone-aware timestamp''
      in case v of
           JStr s \<Rightarrow> (case cd_ts cd s of Some t \<Rightarrow> Inr t | None \<Rightarrow> Inl bad)
         | _ \<Rightarrow> Inl bad)"

definition mr_payload :: "codec \<Rightarrow> json \<Rightarrow> string \<Rightarrow> (string \<times> json) list res" where
  "mr_payload cd v operation =
     (case v of
        JObj d \<Rightarrow>
          if operation = ''delete'' \<and> d \<noteq> [] then Inl (MemoryReplicationError ''tombstone payload must be empty'')
          else if 64 < length d then Inl (MemoryReplicationError ''payload has too many fields'')
          else if \<not> json_finite v then Inl (MemoryReplicationError ''payload must contain bounded JSON values'')
          else if 64 * 1024 < cd_len cd (canon v)
          then Inl (MemoryReplicationError ''payload exceeds the replication bound'')
          else Inr d
      | _ \<Rightarrow> Inl (MemoryReplicationError ''payload must be a JSON object''))"

lemma mr_checks [run_simps]:
  "mr_identity v f = Inr s \<longleftrightarrow> v = JStr s \<and> identity_match s"
  "mr_project v = Inr s \<longleftrightarrow> v = JStr s \<and> project_match s"
  "mr_within low high v f = Inr n \<longleftrightarrow> v = JInt n \<and> low \<le> n \<and> n \<le> high"
  "mr_choice allowed m v = Inr s \<longleftrightarrow> v = JStr s \<and> s \<in> set allowed"
  "mr_timestamp cd v = Inr t \<longleftrightarrow> (\<exists>s. v = JStr s \<and> cd_ts cd s = Some t)"
  "mr_payload cd v op = Inr d \<longleftrightarrow> v = JObj d \<and> (op = ''delete'' \<longrightarrow> d = []) \<and> length d \<le> 64
     \<and> json_finite v \<and> cd_len cd (canon v) \<le> 64 * 1024"
  by (cases v; auto simp: mr_identity_def mr_project_def mr_within_def mr_choice_def mr_timestamp_def
      mr_payload_def Let_def split: option.splits)+

section \<open>Mutations\<close>

record mutation =
  mu_source_id :: string
  mu_source_epoch :: int
  mu_sequence :: int
  mu_entity_kind :: string
  mu_entity_id :: string
  mu_version :: int
  mu_operation :: string
  mu_project :: string
  mu_payload :: "(string \<times> json) list"
  mu_recorded_at :: string

definition mk_mutation ::
  "codec \<Rightarrow> json \<Rightarrow> json \<Rightarrow> json \<Rightarrow> json \<Rightarrow> json \<Rightarrow> json \<Rightarrow> json \<Rightarrow> json \<Rightarrow> json \<Rightarrow> json \<Rightarrow> mutation res" where
  "mk_mutation cd source_id source_epoch sequence entity_kind entity_id version operation project payload recorded_at =
     rbind (mr_identity source_id ''source_id'') (\<lambda>source.
     rbind (mr_within 1 max_int63 source_epoch ''source_epoch'') (\<lambda>epoch.
     rbind (mr_within 1 max_int63 sequence ''sequence'') (\<lambda>seq.
     rbind (mr_choice memory_kinds ''entity_kind is not supported'' entity_kind) (\<lambda>kind.
     rbind (mr_identity entity_id ''entity_id'') (\<lambda>eid.
     rbind (mr_within 1 max_int63 version ''version'') (\<lambda>vers.
     rbind (mr_choice memory_operations ''operation must be upsert or delete'' operation) (\<lambda>op.
     rbind (mr_project project) (\<lambda>proj.
     rbind (mr_payload cd payload op) (\<lambda>pay.
     rbind (mr_timestamp cd recorded_at) (\<lambda>stamp.
       Inr \<lparr>mu_source_id = source, mu_source_epoch = epoch, mu_sequence = seq, mu_entity_kind = kind,
            mu_entity_id = eid, mu_version = vers, mu_operation = op, mu_project = proj,
            mu_payload = pay, mu_recorded_at = stamp\<rparr>))))))))))"

definition is_tombstone :: "mutation \<Rightarrow> bool" where
  "is_tombstone m = (mu_operation m = ''delete'')"

definition entity_key :: "mutation \<Rightarrow> string \<times> string \<times> string" where
  "entity_key m = (mu_project m, mu_entity_kind m, mu_entity_id m)"

definition mutation_wire_fields :: "mutation \<Rightarrow> (string \<times> json) list" where
  "mutation_wire_fields m =
     [(''schema'', JStr ''sonder.memory-mutation.v1''),
      (''source_id'', JStr (mu_source_id m)),
      (''source_epoch'', JInt (mu_source_epoch m)),
      (''sequence'', JInt (mu_sequence m)),
      (''entity_kind'', JStr (mu_entity_kind m)),
      (''entity_id'', JStr (mu_entity_id m)),
      (''version'', JInt (mu_version m)),
      (''operation'', JStr (mu_operation m)),
      (''project'', JStr (mu_project m)),
      (''payload'', JObj (mu_payload m)),
      (''recorded_at'', JStr (mu_recorded_at m))]"

definition mutation_digest :: "codec \<Rightarrow> mutation \<Rightarrow> string" where
  "mutation_digest cd m = cd_sha cd (canon (JObj (mutation_wire_fields m)))"

definition mutation_as_dict :: "codec \<Rightarrow> mutation \<Rightarrow> json" where
  "mutation_as_dict cd m = JObj (mutation_wire_fields m @ [(''digest'', JStr (mutation_digest cd m))])"

definition require_wire_keys :: "json \<Rightarrow> string list \<Rightarrow> string \<Rightarrow> (string \<times> json) list res" where
  "require_wire_keys v expected label =
     (case v of
        JObj d \<Rightarrow> if fst ` set d = set expected then Inr d
                  else Inl (MemoryReplicationError (label @ '' has an invalid wire shape''))
      | _ \<Rightarrow> Inl (MemoryReplicationError (label @ '' has an invalid wire shape'')))"

definition wire_get :: "(string \<times> json) list \<Rightarrow> string \<Rightarrow> json" where
  \<comment> \<open>\<^verbatim>\<open>wire[key]\<close>, for a key that is there\<close>
  "wire_get d k = (case map_of d k of Some v \<Rightarrow> v | None \<Rightarrow> JNull)"

definition wire_digest :: "(string \<times> json) list \<Rightarrow> string \<Rightarrow> string \<Rightarrow> string res" where
  \<comment> \<open>the checks on the schema and on the shape of the supplied digest\<close>
  "wire_digest d schema label =
     (if wire_get d ''schema'' \<noteq> JStr schema
      then Inl (MemoryReplicationError (label @ '' schema is unsupported''))
      else case wire_get d ''digest'' of
        JStr s \<Rightarrow> if digest_match s then Inr s else Inl (MemoryReplicationError (label @ '' digest is invalid''))
      | _ \<Rightarrow> Inl (MemoryReplicationError (label @ '' digest is invalid'')))"

definition mutation_from_dict :: "codec \<Rightarrow> json \<Rightarrow> mutation res" where
  "mutation_from_dict cd v =
     rbind (require_wire_keys v [''schema'', ''source_id'', ''source_epoch'', ''sequence'', ''entity_kind'',
              ''entity_id'', ''version'', ''operation'', ''project'', ''payload'', ''recorded_at'', ''digest'']
              ''memory mutation'') (\<lambda>w.
     rbind (wire_digest w ''sonder.memory-mutation.v1'' ''memory mutation'') (\<lambda>supplied.
     rbind (mk_mutation cd (wire_get w ''source_id'') (wire_get w ''source_epoch'') (wire_get w ''sequence'')
              (wire_get w ''entity_kind'') (wire_get w ''entity_id'') (wire_get w ''version'')
              (wire_get w ''operation'') (wire_get w ''project'') (wire_get w ''payload'')
              (wire_get w ''recorded_at'')) (\<lambda>m.
       if mutation_digest cd m \<noteq> supplied
       then Inl (MemoryReplicationError ''memory mutation digest does not match fields'')
       else Inr m)))"

section \<open>Pages\<close>

record mem_batch =
  mb_source_id :: string
  mb_source_epoch :: int
  mb_after_sequence :: int
  mb_records :: "mutation list"
  mb_next_sequence :: int
  mb_has_more :: bool

fun check_batch_records :: "string \<Rightarrow> int \<Rightarrow> int \<Rightarrow> mutation list \<Rightarrow> int res" where
  \<comment> \<open>the loop of the constructor, with the sequence of the last record\<close>
  "check_batch_records source epoch previous [] = Inr previous"
| "check_batch_records source epoch previous (r # rs) =
     (if mu_source_id r \<noteq> source
      then Inl (MemoryReplicationError ''batch records must belong to the source'')
      else if mu_source_epoch r \<noteq> epoch
      then Inl (MemoryReplicationError ''batch records must share the source epoch'')
      else if mu_sequence r \<le> previous
      then Inl (MemoryReplicationError ''batch sequences must increase'')
      else check_batch_records source epoch (mu_sequence r) rs)"

definition mk_batch ::
  "json \<Rightarrow> json \<Rightarrow> json \<Rightarrow> mutation list \<Rightarrow> json \<Rightarrow> json \<Rightarrow> mem_batch res" where
  "mk_batch source_id source_epoch after_sequence records next_sequence has_more =
     rbind (mr_identity source_id ''source_id'') (\<lambda>source.
     rbind (mr_within 1 max_int63 source_epoch ''source_epoch'') (\<lambda>epoch.
     rbind (mr_within 0 max_int63 after_sequence ''after_sequence'') (\<lambda>after.
       if 1024 < length records then Inl (MemoryReplicationError ''records must be a bounded tuple'')
       else rbind (check_batch_records source epoch after records) (\<lambda>expected_next.
            rbind (mr_within 0 max_int63 next_sequence ''next_sequence'') (\<lambda>next.
              if next \<noteq> expected_next
              then Inl (MemoryReplicationError ''next_sequence must identify the last record'')
              else case has_more of
                JBool mr \<Rightarrow> Inr \<lparr>mb_source_id = source, mb_source_epoch = epoch, mb_after_sequence = after,
                                mb_records = records, mb_next_sequence = next, mb_has_more = mr\<rparr>
              | _ \<Rightarrow> Inl (MemoryReplicationError ''has_more must be boolean''))))))"

definition batch_wire_fields :: "codec \<Rightarrow> mem_batch \<Rightarrow> (string \<times> json) list" where
  "batch_wire_fields cd b =
     [(''schema'', JStr ''sonder.memory-replication-batch.v1''),
      (''source_id'', JStr (mb_source_id b)),
      (''source_epoch'', JInt (mb_source_epoch b)),
      (''after_sequence'', JInt (mb_after_sequence b)),
      (''records'', JArr (map (mutation_as_dict cd) (mb_records b))),
      (''next_sequence'', JInt (mb_next_sequence b)),
      (''has_more'', JBool (mb_has_more b))]"

definition batch_digest :: "codec \<Rightarrow> mem_batch \<Rightarrow> string" where
  "batch_digest cd b = cd_sha cd (canon (JObj (batch_wire_fields cd b)))"

definition batch_as_dict :: "codec \<Rightarrow> mem_batch \<Rightarrow> json" where
  "batch_as_dict cd b = JObj (batch_wire_fields cd b @ [(''digest'', JStr (batch_digest cd b))])"

definition batch_from_dict :: "codec \<Rightarrow> json \<Rightarrow> mem_batch res" where
  "batch_from_dict cd v =
     rbind (require_wire_keys v [''schema'', ''source_id'', ''source_epoch'', ''after_sequence'', ''records'',
              ''next_sequence'', ''has_more'', ''digest''] ''memory replication batch'') (\<lambda>w.
     rbind (wire_digest w ''sonder.memory-replication-batch.v1'' ''memory replication batch'') (\<lambda>supplied.
       case wire_get w ''records'' of
         JArr items \<Rightarrow>
           rbind (mapr (mutation_from_dict cd) items) (\<lambda>records.
           rbind (mk_batch (wire_get w ''source_id'') (wire_get w ''source_epoch'') (wire_get w ''after_sequence'')
                    records (wire_get w ''next_sequence'') (wire_get w ''has_more'')) (\<lambda>b.
             if batch_digest cd b \<noteq> supplied
             then Inl (MemoryReplicationError ''memory replication batch digest does not match fields'')
             else Inr b))
       | _ \<Rightarrow> Inl (MemoryReplicationError ''memory replication batch records must be a list'')))"

section \<open>Receipts\<close>

record mem_receipt =
  rc_replica_id :: string
  rc_source_id :: string
  rc_source_epoch :: int
  rc_next_sequence :: int
  rc_batch_digest :: string
  rc_durable :: bool
  rc_inserted :: int

definition mk_receipt :: "json \<Rightarrow> json \<Rightarrow> json \<Rightarrow> json \<Rightarrow> json \<Rightarrow> json \<Rightarrow> json \<Rightarrow> mem_receipt res" where
  "mk_receipt replica_id source_id source_epoch next_sequence digest durable inserted =
     rbind (mr_identity replica_id ''replica_id'') (\<lambda>replica.
     rbind (mr_identity source_id ''source_id'') (\<lambda>source.
     rbind (mr_within 1 max_int63 source_epoch ''source_epoch'') (\<lambda>epoch.
     rbind (mr_within 0 max_int63 next_sequence ''next_sequence'') (\<lambda>next.
       case digest of
         JStr dg \<Rightarrow>
           if \<not> digest_match dg then Inl (MemoryReplicationError ''batch_digest must be a SHA-256 digest'')
           else (case durable of
             JBool dur \<Rightarrow>
               rbind (mr_within 0 1024 inserted ''inserted_records'') (\<lambda>n.
                 Inr \<lparr>rc_replica_id = replica, rc_source_id = source, rc_source_epoch = epoch,
                      rc_next_sequence = next, rc_batch_digest = dg, rc_durable = dur, rc_inserted = n\<rparr>)
           | _ \<Rightarrow> Inl (MemoryReplicationError ''durable must be boolean''))
       | _ \<Rightarrow> Inl (MemoryReplicationError ''batch_digest must be a SHA-256 digest'')))))"

definition receipt_wire_fields :: "mem_receipt \<Rightarrow> (string \<times> json) list" where
  "receipt_wire_fields r =
     [(''schema'', JStr ''sonder.memory-replica-receipt.v1''),
      (''replica_id'', JStr (rc_replica_id r)),
      (''source_id'', JStr (rc_source_id r)),
      (''source_epoch'', JInt (rc_source_epoch r)),
      (''next_sequence'', JInt (rc_next_sequence r)),
      (''batch_digest'', JStr (rc_batch_digest r)),
      (''durable'', JBool (rc_durable r)),
      (''inserted_records'', JInt (rc_inserted r))]"

definition receipt_digest :: "codec \<Rightarrow> mem_receipt \<Rightarrow> string" where
  "receipt_digest cd r = cd_sha cd (canon (JObj (receipt_wire_fields r)))"

definition receipt_as_dict :: "codec \<Rightarrow> mem_receipt \<Rightarrow> json" where
  "receipt_as_dict cd r = JObj (receipt_wire_fields r @ [(''digest'', JStr (receipt_digest cd r))])"

definition receipt_from_dict :: "codec \<Rightarrow> json \<Rightarrow> mem_receipt res" where
  "receipt_from_dict cd v =
     rbind (require_wire_keys v [''schema'', ''replica_id'', ''source_id'', ''source_epoch'', ''next_sequence'',
              ''batch_digest'', ''durable'', ''inserted_records'', ''digest''] ''memory replica receipt'') (\<lambda>w.
     rbind (wire_digest w ''sonder.memory-replica-receipt.v1'' ''memory replica receipt'') (\<lambda>supplied.
     rbind (mk_receipt (wire_get w ''replica_id'') (wire_get w ''source_id'') (wire_get w ''source_epoch'')
              (wire_get w ''next_sequence'') (wire_get w ''batch_digest'') (wire_get w ''durable'')
              (wire_get w ''inserted_records'')) (\<lambda>r.
       if receipt_digest cd r \<noteq> supplied
       then Inl (MemoryReplicationError ''memory replica receipt digest does not match fields'')
       else Inr r)))"

section \<open>What the constructors guarantee\<close>

text \<open>
  What the components rely on of the functions behind a \<open>codec\<close>: a digest is 64 hexadecimal digits, and
  reading a timestamp that was written back in its normal form yields it again.
\<close>

definition codec_ok :: "codec \<Rightarrow> bool" where
  "codec_ok cd = ((\<forall>v. digest_match (cd_sha cd v)) \<and> (\<forall>s t. cd_ts cd s = Some t \<longrightarrow> cd_ts cd t = Some t))"

definition wf_mutation :: "codec \<Rightarrow> mutation \<Rightarrow> bool" where
  "wf_mutation cd m =
     (identity_match (mu_source_id m) \<and> 1 \<le> mu_source_epoch m \<and> mu_source_epoch m \<le> max_int63
      \<and> 1 \<le> mu_sequence m \<and> mu_sequence m \<le> max_int63 \<and> mu_entity_kind m \<in> set memory_kinds
      \<and> identity_match (mu_entity_id m) \<and> 1 \<le> mu_version m \<and> mu_version m \<le> max_int63
      \<and> mu_operation m \<in> set memory_operations \<and> project_match (mu_project m)
      \<and> (mu_operation m = ''delete'' \<longrightarrow> mu_payload m = []) \<and> length (mu_payload m) \<le> 64
      \<and> json_finite (JObj (mu_payload m)) \<and> cd_len cd (canon (JObj (mu_payload m))) \<le> 64 * 1024
      \<and> cd_ts cd (mu_recorded_at m) = Some (mu_recorded_at m))"

lemma mk_mutation_wf:
  assumes "codec_ok cd" "mk_mutation cd a b c d e f g h i j = Inr m"
  shows "wf_mutation cd m"
  using assms by (auto simp: mk_mutation_def run_simps wf_mutation_def codec_ok_def)

lemma mk_mutation_again:
  assumes "wf_mutation cd m"
  shows "mk_mutation cd (JStr (mu_source_id m)) (JInt (mu_source_epoch m)) (JInt (mu_sequence m))
    (JStr (mu_entity_kind m)) (JStr (mu_entity_id m)) (JInt (mu_version m)) (JStr (mu_operation m))
    (JStr (mu_project m)) (JObj (mu_payload m)) (JStr (mu_recorded_at m)) = Inr m"
  using assms by (auto simp: mk_mutation_def run_simps wf_mutation_def)

lemma mutation_digest_match: "codec_ok cd \<Longrightarrow> digest_match (mutation_digest cd m)"
  by (simp add: codec_ok_def mutation_digest_def)

lemma mutation_roundtrip:
  assumes "codec_ok cd" "wf_mutation cd m"
  shows "mutation_from_dict cd (mutation_as_dict cd m) = Inr m"
proof -
  let ?d = "mutation_wire_fields m @ [(''digest'', JStr (mutation_digest cd m))]"
  have keys: "require_wire_keys (mutation_as_dict cd m) [''schema'', ''source_id'', ''source_epoch'', ''sequence'',
      ''entity_kind'', ''entity_id'', ''version'', ''operation'', ''project'', ''payload'', ''recorded_at'',
      ''digest''] ''memory mutation'' = Inr ?d"
    by (simp add: require_wire_keys_def mutation_as_dict_def mutation_wire_fields_def)
  have "wire_digest ?d ''sonder.memory-mutation.v1'' ''memory mutation'' = Inr (mutation_digest cd m)"
    using mutation_digest_match[OF assms(1)]
    by (simp add: wire_digest_def wire_get_def mutation_wire_fields_def)
  then show ?thesis
    unfolding mutation_from_dict_def keys using mk_mutation_again[OF assms(2)]
    by (simp add: wire_get_def mutation_wire_fields_def)
qed

definition wf_batch :: "codec \<Rightarrow> mem_batch \<Rightarrow> bool" where
  "wf_batch cd b =
     (list_all (wf_mutation cd) (mb_records b)
      \<and> mk_batch (JStr (mb_source_id b)) (JInt (mb_source_epoch b)) (JInt (mb_after_sequence b)) (mb_records b)
          (JInt (mb_next_sequence b)) (JBool (mb_has_more b)) = Inr b)"

lemma mk_batch_again:
  assumes "mk_batch a b c rs d e = Inr bt"
  shows "mb_records bt = rs \<and> a = JStr (mb_source_id bt) \<and> b = JInt (mb_source_epoch bt)
    \<and> c = JInt (mb_after_sequence bt) \<and> d = JInt (mb_next_sequence bt) \<and> e = JBool (mb_has_more bt)"
  using assms by (cases e) (auto simp: mk_batch_def run_simps split: if_splits)

lemma mk_batch_wf:
  assumes "mk_batch a b c rs d e = Inr bt" "list_all (wf_mutation cd) rs"
  shows "wf_batch cd bt"
  using assms mk_batch_again[OF assms(1)] by (simp add: wf_batch_def)

text \<open>
  A page survives the wire: what a receiver reads from the wire form of a page is the page itself,
  every record of it included, and its digest is checked on the way.
\<close>

theorem batch_roundtrip:
  assumes "codec_ok cd" "wf_batch cd b"
  shows "batch_from_dict cd (batch_as_dict cd b) = Inr b"
proof -
  let ?d = "batch_wire_fields cd b @ [(''digest'', JStr (batch_digest cd b))]"
  have keys: "require_wire_keys (batch_as_dict cd b) [''schema'', ''source_id'', ''source_epoch'', ''after_sequence'',
      ''records'', ''next_sequence'', ''has_more'', ''digest''] ''memory replication batch'' = Inr ?d"
    by (simp add: require_wire_keys_def batch_as_dict_def batch_wire_fields_def)
  have digest: "wire_digest ?d ''sonder.memory-replication-batch.v1'' ''memory replication batch'' = Inr (batch_digest cd b)"
    using assms(1) by (simp add: wire_digest_def wire_get_def batch_wire_fields_def batch_digest_def codec_ok_def)
  have "mapr (mutation_from_dict cd) (map (mutation_as_dict cd) rs) = Inr rs" if "list_all (wf_mutation cd) rs" for rs
    using that by (induction rs) (simp_all add: mutation_roundtrip[OF assms(1)])
  with digest show ?thesis
    unfolding batch_from_dict_def keys using assms(2)
    by (simp add: wire_get_def batch_wire_fields_def wf_batch_def)
qed

lemma batch_case_iff:
  "(case v of JArr items \<Rightarrow> f items | _ \<Rightarrow> Inl e) = Inr b \<longleftrightarrow> (\<exists>items. v = JArr items \<and> f items = Inr b)"
  by (cases v) auto

lemma batch_from_dict_wf:
  assumes "codec_ok cd" "batch_from_dict cd v = Inr b"
  shows "wf_batch cd b"
proof -
  obtain items rs where "mapr (mutation_from_dict cd) items = Inr rs" and
    b: "\<exists>x y z u w. mk_batch x y z rs u w = Inr b"
    using assms(2) by (auto simp: batch_from_dict_def batch_case_iff split: if_splits) blast
  then have "list_all (wf_mutation cd) rs"
    by (auto elim!: mapr_all simp: mutation_from_dict_def split: if_splits intro: mk_mutation_wf[OF assms(1)])
  then show ?thesis
    using b mk_batch_wf by blast
qed

lemma receipt_roundtrip:
  assumes "codec_ok cd" "mk_receipt a b c d e f g = Inr r"
  shows "receipt_from_dict cd (receipt_as_dict cd r) = Inr r"
proof -
  let ?d = "receipt_wire_fields r @ [(''digest'', JStr (receipt_digest cd r))]"
  have keys: "require_wire_keys (receipt_as_dict cd r) [''schema'', ''replica_id'', ''source_id'', ''source_epoch'',
      ''next_sequence'', ''batch_digest'', ''durable'', ''inserted_records'', ''digest''] ''memory replica receipt''
      = Inr ?d"
    by (simp add: require_wire_keys_def receipt_as_dict_def receipt_wire_fields_def)
  have digest: "wire_digest ?d ''sonder.memory-replica-receipt.v1'' ''memory replica receipt'' = Inr (receipt_digest cd r)"
    using assms(1) by (simp add: wire_digest_def wire_get_def receipt_wire_fields_def receipt_digest_def codec_ok_def)
  have "mk_receipt (JStr (rc_replica_id r)) (JStr (rc_source_id r)) (JInt (rc_source_epoch r)) (JInt (rc_next_sequence r))
      (JStr (rc_batch_digest r)) (JBool (rc_durable r)) (JInt (rc_inserted r)) = Inr r"
    using assms(2) by (cases e; cases f) (auto simp: mk_receipt_def run_simps split: if_splits)
  with digest show ?thesis
    unfolding receipt_from_dict_def keys by (simp add: wire_get_def receipt_wire_fields_def)
qed

section \<open>Order of a page\<close>

lemma check_batch_records_Inr:
  "check_batch_records source epoch previous rs = Inr n \<longleftrightarrow>
     list_all (\<lambda>r. mu_source_id r = source \<and> mu_source_epoch r = epoch) rs
     \<and> sorted_wrt (<) (previous # map mu_sequence rs) \<and> n = last (previous # map mu_sequence rs)"
proof (induction rs arbitrary: previous)
  case (Cons r rs)
  have "(\<forall>x\<in>set rs. previous < mu_sequence x) \<and> previous < mu_sequence r \<longleftrightarrow> previous < mu_sequence r"
    if "\<forall>x\<in>set rs. mu_sequence r < mu_sequence x"
    using that by auto
  with Cons[of "mu_sequence r"] show ?case
    by auto
qed auto

lemma mk_batch_Inr:
  assumes "mk_batch (JStr source) (JInt epoch) (JInt after) rs (JInt next) (JBool mr) = Inr b"
  shows "list_all (\<lambda>r. mu_source_id r = source \<and> mu_source_epoch r = epoch) rs"
    "sorted_wrt (<) (after # map mu_sequence rs)" "next = last (after # map mu_sequence rs)"
    "length rs \<le> 1024"
  using assms by (auto simp: mk_batch_def run_simps check_batch_records_Inr split: if_splits)

section \<open>A concrete page\<close>

definition demo_codec :: codec where
  "demo_codec = \<lparr>cd_sha = (\<lambda>_. List.replicate 64 CHR ''a''), cd_len = (\<lambda>_. 0), cd_ts = Some\<rparr>"

definition demo_mutation :: "int \<Rightarrow> mutation" where
  "demo_mutation n =
     \<lparr>mu_source_id = ''node-a'', mu_source_epoch = 1, mu_sequence = n, mu_entity_kind = ''fact'', mu_entity_id = ''e1'',
      mu_version = n, mu_operation = ''upsert'', mu_project = ''proj'', mu_payload = [(''k'', JInt n)], mu_recorded_at = ''t''\<rparr>"

definition demo_batch :: mem_batch where
  "demo_batch = \<lparr>mb_source_id = ''node-a'', mb_source_epoch = 1, mb_after_sequence = 0,
     mb_records = [demo_mutation 1, demo_mutation 2], mb_next_sequence = 2, mb_has_more = False\<rparr>"

lemma demo_codec_ok: "codec_ok demo_codec"
proof -
  have "digest_match (List.replicate 64 CHR ''a'')"
    by code_simp
  then show ?thesis
    by (simp add: codec_ok_def demo_codec_def)
qed

lemma demo_identities: "identity_match ''node-a''" "identity_match ''node-b''" "identity_match ''e1''" "project_match ''proj''"
  by code_simp+

lemma demo_mutation_wf: "1 \<le> n \<Longrightarrow> n \<le> 1000 \<Longrightarrow> wf_mutation demo_codec (demo_mutation n)"
  using demo_identities by (simp add: wf_mutation_def demo_mutation_def demo_codec_def memory_kinds_def memory_operations_def)

lemma demo_batch_wf: "wf_batch demo_codec demo_batch"
  using demo_identities demo_mutation_wf
  by (simp add: wf_batch_def mk_batch_def demo_batch_def run_simps) (simp add: demo_mutation_def)

theorem batch_roundtrip_witness:
  "batch_from_dict demo_codec (batch_as_dict demo_codec demo_batch) = Inr demo_batch \<and> length (mb_records demo_batch) = 2"
  using batch_roundtrip[OF demo_codec_ok demo_batch_wf] by (simp add: demo_batch_def)

end
