(* ===== verification/MemoryJournal.thy ===== *)
theory MemoryJournal
  imports MemoryMutation
begin

text \<open>
  \<^verbatim>\<open>adapters/persistence/sqlite/memory_replication.py\<close>: the journal of memory mutations. The state is the
  two tables; every operation is one transaction, so an operation that raises leaves the tables as they
  were. A row of the log is a mutation as it is read back (its payload written with sorted keys) and its
  digest. Not covered here: connections, and the materialization of facts beside the journal.
\<close>

section \<open>Tables\<close>

record meta_row =
  me_epoch :: int
  me_next :: int
  me_scope :: "string option"

type_synonym log_row = "mutation \<times> string"

record memdb =
  md_meta :: "(string, meta_row) dict"
  md_log :: "log_row list"

definition empty_memdb :: memdb where
  "empty_memdb = \<lparr>md_meta = [], md_log = []\<rparr>"

definition sorted_payload :: "(string \<times> json) list \<Rightarrow> (string \<times> json) list" where
  \<comment> \<open>\<^verbatim>\<open>json.loads(json.dumps(payload, sort_keys=True))\<close>\<close>
  "sorted_payload p = sort_key fst (map (map_prod id canon) p)"

definition stored_row :: "codec \<Rightarrow> mutation \<Rightarrow> log_row" where
  "stored_row cd m = (m\<lparr>mu_payload := sorted_payload (mu_payload m)\<rparr>, mutation_digest cd m)"

definition row_at :: "log_row list \<Rightarrow> string \<Rightarrow> int \<Rightarrow> log_row option" where
  \<comment> \<open>\<^verbatim>\<open>WHERE source_id=? AND sequence=?\<close>\<close>
  "row_at lg source seq = find (\<lambda>r. mu_source_id (fst r) = source \<and> mu_sequence (fst r) = seq) lg"

definition same_entity :: "mutation \<Rightarrow> mutation \<Rightarrow> bool" where
  "same_entity a b = (mu_source_id a = mu_source_id b \<and> entity_key a = entity_key b)"

definition versions_of :: "log_row list \<Rightarrow> mutation \<Rightarrow> int list" where
  "versions_of lg r = map (\<lambda>q. mu_version (fst q)) (filter (\<lambda>q. same_entity (fst q) r) lg)"

definition must_advance :: "log_row list \<Rightarrow> mutation \<Rightarrow> bool" where
  \<comment> \<open>\<^verbatim>\<open>SELECT MAX(version)\<close> and the comparison with it\<close>
  "must_advance lg r = (versions_of lg r \<noteq> [] \<and> mu_version r \<le> Max (set (versions_of lg r)))"

definition insert_mutation :: "codec \<Rightarrow> mutation \<Rightarrow> log_row list \<Rightarrow> log_row list res" where
  "insert_mutation cd r lg =
     (if row_at lg (mu_source_id r) (mu_sequence r) \<noteq> None
      then Inl (IntegrityError ''UNIQUE constraint failed: memory_replication_log.source_id, memory_replication_log.sequence'')
      else if mu_version r \<in> set (versions_of lg r)
      then Inl (IntegrityError ''UNIQUE constraint failed: memory_replication_log.version'')
      else Inr (lg @ [stored_row cd r]))"

section \<open>Sources\<close>

definition validate_source :: "string \<Rightarrow> string option \<Rightarrow> unit res" where
  "validate_source source scope =
     rbind (mr_identity (JStr source) ''source_id'') (\<lambda>_.
     rbind (mr_project (JStr (case scope of None \<Rightarrow> ''global'' | Some p \<Rightarrow> if p = [] then ''global'' else p))) (\<lambda>_.
       if scope = Some [] then Inl (MemoryReplicationError ''project scope must not be empty'') else Inr ()))"

definition ensure_source ::
  "string \<Rightarrow> string option \<Rightarrow> memdb \<Rightarrow> ((int \<times> int \<times> string option) \<times> memdb) res" where
  "ensure_source source scope db =
     rbind (validate_source source scope) (\<lambda>_.
       case map_of (md_meta db) source of
         None \<Rightarrow> Inr ((1, 1, scope),
                   db\<lparr>md_meta := AList.update source \<lparr>me_epoch = 1, me_next = 1, me_scope = scope\<rparr> (md_meta db)\<rparr>)
       | Some row \<Rightarrow>
           if me_scope row \<noteq> None \<and> me_scope row \<noteq> scope
           then Inl (MemoryReplicationError ''journal project scope conflicts with persisted scope'')
           else Inr ((me_epoch row, me_next row, me_scope row), db))"

definition mk_mem_journal :: "string \<Rightarrow> string option \<Rightarrow> memdb \<Rightarrow> memdb res" where
  \<comment> \<open>opening a journal: the schema exists, the source has its row\<close>
  "mk_mem_journal source scope db =
     rbind (validate_source source scope) (\<lambda>_. rbind (ensure_source source scope db) (\<lambda>(_, db'). Inr db'))"

definition too_large :: py_exn where
  "too_large = OverflowError ''Python int too large to convert to SQLite INTEGER''"

definition set_next :: "string \<Rightarrow> int \<Rightarrow> memdb \<Rightarrow> memdb res" where
  \<comment> \<open>\<^verbatim>\<open>UPDATE memory_replication_meta SET next_sequence=?\<close>\<close>
  "set_next source n db =
     (if max_int63 < n then Inl too_large
      else Inr (case map_of (md_meta db) source of
           None \<Rightarrow> db
         | Some row \<Rightarrow> db\<lparr>md_meta := AList.update source (row\<lparr>me_next := n\<rparr>) (md_meta db)\<rparr>))"

definition advance_epoch :: "string \<Rightarrow> int \<Rightarrow> memdb \<Rightarrow> memdb res" where
  "advance_epoch source source_epoch db =
     (if source_epoch < 1 then Inl (MemoryReplicationError ''source epoch must be positive'')
      else case map_of (md_meta db) source of
        None \<Rightarrow> Inl (MemoryReplicationError ''journal metadata is missing'')
      | Some row \<Rightarrow>
          if source_epoch \<le> me_epoch row then Inl (MemoryReplicationError ''source epoch must advance'')
          else if list_ex (\<lambda>r. mu_source_id (fst r) = source) (md_log db) \<or> me_next row \<noteq> 1
          then Inl (MemoryReplicationError ''source epoch can advance only from an empty bootstrap cursor'')
          else if max_int63 < source_epoch then Inl too_large
          else Inr (db\<lparr>md_meta := AList.update source (row\<lparr>me_epoch := source_epoch\<rparr>) (md_meta db)\<rparr>))"

section \<open>Appending on the source\<close>

fun check_append :: "string \<Rightarrow> string option \<Rightarrow> mutation list \<Rightarrow> unit res" where
  "check_append source scope [] = Inr ()"
| "check_append source scope (r # rs) =
     (if mu_source_id r \<noteq> source
      then Inl (MemoryReplicationError ''journal records must belong to this source'')
      else if scope \<noteq> None \<and> Some (mu_project r) \<noteq> scope
      then Inl (MemoryReplicationError ''project scope cannot be widened'')
      else check_append source scope rs)"

fun append_loop ::
  "codec \<Rightarrow> string \<Rightarrow> int \<Rightarrow> int \<Rightarrow> int \<Rightarrow> mutation list \<Rightarrow> log_row list \<Rightarrow> (int \<times> int \<times> log_row list) res" where
  "append_loop cd source epoch expected inserted [] lg = Inr (expected, inserted, lg)"
| "append_loop cd source epoch expected inserted (r # rs) lg =
     (if mu_source_epoch r \<noteq> epoch
      then Inl (MemoryReplicationError ''record source epoch is stale or not admitted'')
      else if mu_sequence r \<noteq> expected then
        (case row_at lg source (mu_sequence r) of
           Some (_, dg) \<Rightarrow>
             if dg \<noteq> mutation_digest cd r then Inl (MemoryReplicationError ''journal sequence is not contiguous'')
             else append_loop cd source epoch expected inserted rs lg
         | None \<Rightarrow> Inl (MemoryReplicationError ''journal sequence is not contiguous''))
      else if must_advance lg r then Inl (MemoryReplicationError ''entity version must advance'')
      else case insert_mutation cd r lg of
          Inr lg' \<Rightarrow> append_loop cd source epoch (expected + 1) (inserted + 1) rs lg'
        | Inl _ \<Rightarrow>
            (case row_at lg source (mu_sequence r) of
               Some (_, dg) \<Rightarrow>
                 if dg \<noteq> mutation_digest cd r
                 then Inl (MemoryReplicationError ''journal sequence conflicts with existing evidence'')
                 else append_loop cd source epoch (expected + 1) inserted rs lg
             | None \<Rightarrow> Inl (MemoryReplicationError ''journal entity version conflicts'')))"

definition journal_append :: "codec \<Rightarrow> string \<Rightarrow> string option \<Rightarrow> mutation list \<Rightarrow> memdb \<Rightarrow> (int \<times> memdb) res" where
  "journal_append cd source scope records db =
     (if \<not> (1 \<le> length records \<and> length records \<le> 1024)
      then Inl (ValueError ''records must be a bounded non-empty tuple'')
      else rbind (check_append source scope records) (\<lambda>_.
           rbind (ensure_source source scope db) (\<lambda>((epoch, next, _), db1).
           rbind (append_loop cd source epoch next 0 records (md_log db1)) (\<lambda>(expected, inserted, lg).
           rbind (set_next source expected (db1\<lparr>md_log := lg\<rparr>)) (\<lambda>db2. Inr (inserted, db2))))))"

section \<open>Exporting a page\<close>

definition journal_scope :: "string option \<Rightarrow> string option \<Rightarrow> string option res" where
  \<comment> \<open>\<^verbatim>\<open>_scope\<close>, with the journal's own scope first\<close>
  "journal_scope own project =
     (case project of
        None \<Rightarrow> Inr own
      | Some p \<Rightarrow>
          if own = None then Inl (MemoryReplicationError ''project-scoped export requires a journal project scope'')
          else if p = [] then Inl (MemoryReplicationError ''project scope must be non-empty'')
          else if Some p \<noteq> own then Inl (MemoryReplicationError ''project scope cannot be widened'')
          else rbind (mr_project (JStr p)) (\<lambda>_. Inr (Some p)))"

definition row_to_mutation :: "codec \<Rightarrow> log_row \<Rightarrow> mutation res" where
  "row_to_mutation cd row =
     (let m = fst row in
      mk_mutation cd (JStr (mu_source_id m)) (JInt (mu_source_epoch m)) (JInt (mu_sequence m))
        (JStr (mu_entity_kind m)) (JStr (mu_entity_id m)) (JInt (mu_version m)) (JStr (mu_operation m))
        (JStr (mu_project m)) (JObj (mu_payload m)) (JStr (mu_recorded_at m)))"

definition in_scope :: "string \<Rightarrow> string option \<Rightarrow> log_row \<Rightarrow> bool" where
  "in_scope source scope row =
     (mu_source_id (fst row) = source \<and> (scope = None \<or> Some (mu_project (fst row)) = scope))"

definition journal_export ::
  "codec \<Rightarrow> string \<Rightarrow> string option \<Rightarrow> int \<Rightarrow> int \<Rightarrow> string option \<Rightarrow> memdb \<Rightarrow> mem_batch res" where
  "journal_export cd source own after limit project db =
     (if after < 0 then Inl (ValueError ''after_sequence must be a non-negative integer'')
      else if \<not> (1 \<le> limit \<and> limit \<le> 1024) then Inl (ValueError ''limit must be within 1..1024'')
      else rbind (journal_scope own project) (\<lambda>scope.
        case map_of (md_meta db) source of
          None \<Rightarrow> Inl (MemoryReplicationError ''journal metadata is missing'')
        | Some row \<Rightarrow>
            if max_int63 < after then Inl too_large
            else
              let rows = take (nat limit + 1) (sort_key (\<lambda>r. mu_sequence (fst r))
                    (filter (\<lambda>r. in_scope source scope r \<and> after < mu_sequence (fst r)) (md_log db)));
                  has_more = nat limit < length rows
              in rbind (mapr (row_to_mutation cd) (take (nat limit) rows)) (\<lambda>records.
                   mk_batch (JStr source) (JInt (me_epoch row)) (JInt after) records
                     (JInt (if records = [] then after else mu_sequence (last records))) (JBool has_more))))"

section \<open>Applying a page on a replica\<close>

fun apply_loop ::
  "codec \<Rightarrow> int \<Rightarrow> int \<Rightarrow> int \<Rightarrow> mutation list \<Rightarrow> log_row list \<Rightarrow> (int \<times> int \<times> log_row list) res" where
  "apply_loop cd epoch expected inserted [] lg = Inr (expected, inserted, lg)"
| "apply_loop cd epoch expected inserted (r # rs) lg =
     (case row_at lg (mu_source_id r) (mu_sequence r) of
        Some (_, dg) \<Rightarrow>
          if dg \<noteq> mutation_digest cd r
          then Inl (MemoryReplicationError ''replication sequence conflicts with existing evidence'')
          else apply_loop cd epoch (max expected (mu_sequence r + 1)) inserted rs lg
      | None \<Rightarrow>
          if mu_source_epoch r \<noteq> epoch
          then Inl (MemoryReplicationError ''record source epoch does not match batch'')
          else if mu_sequence r \<noteq> expected
          then Inl (MemoryReplicationError ''replication batch has a sequence gap'')
          else if must_advance lg r
          then Inl (MemoryReplicationError ''replication entity version must advance'')
          else case insert_mutation cd r lg of
            Inl _ \<Rightarrow> Inl (MemoryReplicationError ''replication entity version conflicts'')
          | Inr lg' \<Rightarrow> apply_loop cd epoch (expected + 1) (inserted + 1) rs lg')"

definition batch_in_scope :: "string option \<Rightarrow> mem_batch \<Rightarrow> unit res" where
  "batch_in_scope scope b =
     (if 1024 < length (mb_records b)
      then Inl (MemoryReplicationError ''replication batch exceeds the journal bound'')
      else case scope of
        None \<Rightarrow> Inr ()
      | Some p \<Rightarrow>
          rbind (validate_source (mb_source_id b) scope) (\<lambda>_.
            if list_ex (\<lambda>r. mu_project r \<noteq> p) (mb_records b)
            then Inl (MemoryReplicationError ''project scope cannot be widened'') else Inr ()))"

definition admit_batch :: "string option \<Rightarrow> mem_batch \<Rightarrow> memdb \<Rightarrow> (int \<times> int \<times> memdb) res" where
  \<comment> \<open>the row of the source: created, or its scope and epoch compared\<close>
  "admit_batch scope b db =
     (case map_of (md_meta db) (mb_source_id b) of
        None \<Rightarrow> Inr (mb_source_epoch b, 1,
                  db\<lparr>md_meta := AList.update (mb_source_id b)
                       \<lparr>me_epoch = mb_source_epoch b, me_next = 1, me_scope = scope\<rparr> (md_meta db)\<rparr>)
      | Some row \<Rightarrow>
          if me_scope row \<noteq> scope
          then Inl (MemoryReplicationError ''journal project scope conflicts with persisted scope'')
          else if mb_source_epoch b < me_epoch row
          then Inl (MemoryReplicationError ''replication batch has a stale source epoch'')
          else Inr (mb_source_epoch b, me_next row,
                 db\<lparr>md_meta := AList.update (mb_source_id b) (row\<lparr>me_epoch := mb_source_epoch b\<rparr>) (md_meta db)\<rparr>))"

definition journal_apply :: "codec \<Rightarrow> string option \<Rightarrow> mem_batch \<Rightarrow> memdb \<Rightarrow> (int \<times> memdb) res" where
  "journal_apply cd scope b db =
     rbind (batch_in_scope scope b) (\<lambda>_.
     rbind (admit_batch scope b db) (\<lambda>(epoch, expected, db1).
     rbind (apply_loop cd epoch expected 0 (mb_records b) (md_log db1)) (\<lambda>(next, inserted, lg).
     rbind (set_next (mb_source_id b) next (db1\<lparr>md_log := lg\<rparr>)) (\<lambda>db2. Inr (inserted, db2)))))"

section \<open>Latest records and pruning\<close>

definition newest :: "log_row list \<Rightarrow> log_row \<Rightarrow> bool" where
  \<comment> \<open>\<^verbatim>\<open>ROW_NUMBER() OVER (PARTITION BY ... ORDER BY version DESC, sequence DESC) = 1\<close>\<close>
  "newest rows row =
     list_all (\<lambda>other. same_entity (fst other) (fst row) \<longrightarrow>
       (mu_version (fst other), mu_sequence (fst other)) \<le> (mu_version (fst row), mu_sequence (fst row))) rows"

definition journal_latest ::
  "codec \<Rightarrow> string \<Rightarrow> string option \<Rightarrow> string option \<Rightarrow> bool \<Rightarrow> int \<Rightarrow> memdb \<Rightarrow> mutation list res" where
  "journal_latest cd source own project tombstones limit db =
     (if \<not> (1 \<le> limit \<and> limit \<le> 1024) then Inl (ValueError ''limit must be within 1..1024'')
      else rbind (journal_scope own project) (\<lambda>scope.
        let rows = filter (in_scope source scope) (md_log db);
            latest = filter (\<lambda>r. newest rows r \<and>
                (mu_operation (fst r) = (if tombstones then ''delete'' else ''upsert''))) rows
        in mapr (row_to_mutation cd) (take (nat limit) (sort_key (\<lambda>r. entity_key (fst r)) latest))))"

definition protected_row :: "log_row list \<Rightarrow> bool \<Rightarrow> log_row \<Rightarrow> bool" where
  \<comment> \<open>a row the list of predicates keeps: the newest version of its entity, a tombstone only if asked\<close>
  "protected_row lg retain row = (newest lg row \<and> (mu_operation (fst row) = ''delete'' \<longrightarrow> retain))"

definition prunable :: "log_row list \<Rightarrow> string \<Rightarrow> int \<Rightarrow> bool \<Rightarrow> int \<Rightarrow> log_row list" where
  \<comment> \<open>the rows the second query selects\<close>
  "prunable lg source sequence retain limit =
     take (nat limit) (sort_key (\<lambda>r. mu_sequence (fst r))
       (filter (\<lambda>r. mu_source_id (fst r) = source \<and> mu_sequence (fst r) < sequence \<and> \<not> protected_row lg retain r
                    \<and> (retain \<longrightarrow> mu_operation (fst r) = ''upsert'')) lg))"

definition delete_rows :: "log_row list \<Rightarrow> log_row list \<Rightarrow> log_row list" where
  \<comment> \<open>\<^verbatim>\<open>DELETE ... WHERE source_id=? AND sequence=?\<close> for each of them\<close>
  "delete_rows rows lg =
     filter (\<lambda>r. (mu_source_id (fst r), mu_sequence (fst r))
                 \<notin> (\<lambda>q. (mu_source_id (fst q), mu_sequence (fst q))) ` set rows) lg"

definition prune_before ::
  "nat \<Rightarrow> string \<Rightarrow> int \<Rightarrow> bool \<Rightarrow> int \<Rightarrow> memdb \<Rightarrow> (int \<times> memdb) res" where
  \<comment> \<open>\<open>max_terms\<close>: the longest conjunction the SQL parser accepts\<close>
  "prune_before max_terms source sequence retain limit db =
     (if sequence < 1 then Inl (ValueError ''sequence must be positive'')
      else if \<not> (1 \<le> limit \<and> limit \<le> 1024) then Inl (ValueError ''limit must be within 1..1024'')
      else if max_terms < length (filter (\<lambda>r. mu_source_id (fst r) = source \<and> protected_row (md_log db) retain r) (md_log db))
      then Inl (OperationalError ''Expression tree is too large'')
      else if max_int63 < sequence then Inl too_large
      else let rows = prunable (md_log db) source sequence retain limit
           in Inr (int (length rows), db\<lparr>md_log := delete_rows rows (md_log db)\<rparr>))"

section \<open>Invariant\<close>

text \<open>
  In the log, later rows of a source have greater sequences, and of an entity greater versions. Every row
  is a valid mutation with its digest, below the cursor of its source.
\<close>

definition row_before :: "log_row \<Rightarrow> log_row \<Rightarrow> bool" where
  "row_before a b =
     (mu_source_id (fst a) = mu_source_id (fst b) \<longrightarrow>
        mu_sequence (fst a) < mu_sequence (fst b)
        \<and> (entity_key (fst a) = entity_key (fst b) \<longrightarrow> mu_version (fst a) < mu_version (fst b)))"

definition good_row :: "codec \<Rightarrow> log_row \<Rightarrow> bool" where
  "good_row cd r =
     (wf_mutation cd (fst r) \<and> snd r = mutation_digest cd (fst r)
      \<and> mu_payload (fst r) = sorted_payload (mu_payload (fst r)))"

definition below_cursor :: "memdb \<Rightarrow> log_row \<Rightarrow> bool" where
  "below_cursor db r =
     (case map_of (md_meta db) (mu_source_id (fst r)) of
        None \<Rightarrow> False | Some row \<Rightarrow> mu_sequence (fst r) < me_next row)"

definition meta_ok :: "meta_row \<Rightarrow> bool" where
  "meta_ok row = (1 \<le> me_epoch row \<and> me_epoch row \<le> max_int63 \<and> 1 \<le> me_next row \<and> me_next row \<le> max_int63)"

definition journal_inv :: "codec \<Rightarrow> memdb \<Rightarrow> bool" where
  "journal_inv cd db =
     (dict_ok (md_meta db) \<and> list_all (\<lambda>(_, row). meta_ok row) (md_meta db)
      \<and> list_all (good_row cd) (md_log db) \<and> sorted_wrt row_before (md_log db)
      \<and> list_all (below_cursor db) (md_log db))"

definition ok_log :: "codec \<Rightarrow> string \<Rightarrow> int \<Rightarrow> log_row list \<Rightarrow> bool" where
  "ok_log cd source expected lg =
     (list_all (good_row cd) lg \<and> sorted_wrt row_before lg
      \<and> list_all (\<lambda>r. mu_source_id (fst r) = source \<longrightarrow> mu_sequence (fst r) < expected) lg)"

lemma JObj_sorted: "JObj (sorted_payload p) = canon (JObj p)"
  by (simp add: sorted_payload_def)

lemma sorted_payload_idem [simp]: "sorted_payload (sorted_payload p) = sorted_payload p"
  using canon_idem[of "JObj p"] by (metis JObj_sorted json.inject(6))

lemma sorted_payload_length [simp]: "length (sorted_payload p) = length p"
  by (simp add: sorted_payload_def)

lemma stored_digest: "mutation_digest cd (m\<lparr>mu_payload := sorted_payload (mu_payload m)\<rparr>) = mutation_digest cd m"
proof -
  have "canon (JObj (sorted_payload (mu_payload m))) = canon (JObj (mu_payload m))"
    by (simp only: JObj_sorted canon_idem)
  then have "map (map_prod id canon) (mutation_wire_fields (m\<lparr>mu_payload := sorted_payload (mu_payload m)\<rparr>))
      = map (map_prod id canon) (mutation_wire_fields m)"
    by (simp add: mutation_wire_fields_def del: canon.simps(7))
  then show ?thesis
    unfolding mutation_digest_def canon.simps(7) by simp
qed

lemma stored_row_good: "wf_mutation cd m \<Longrightarrow> good_row cd (stored_row cd m)"
proof -
  assume wf: "wf_mutation cd m"
  have "json_finite (JObj (sorted_payload (mu_payload m))) = json_finite (JObj (mu_payload m))"
    "canon (JObj (sorted_payload (mu_payload m))) = canon (JObj (mu_payload m))"
    by (simp_all only: JObj_sorted json_finite_canon canon_idem)
  with wf have "wf_mutation cd (m\<lparr>mu_payload := sorted_payload (mu_payload m)\<rparr>)"
    by (auto simp: wf_mutation_def sorted_payload_def simp del: canon.simps(7) json_finite.simps(7))
  then show ?thesis
    by (simp add: good_row_def stored_row_def stored_digest)
qed

lemma stored_row_fields [simp]:
  "mu_source_id (fst (stored_row cd m)) = mu_source_id m" "mu_sequence (fst (stored_row cd m)) = mu_sequence m"
  "mu_source_epoch (fst (stored_row cd m)) = mu_source_epoch m" "mu_version (fst (stored_row cd m)) = mu_version m"
  "mu_operation (fst (stored_row cd m)) = mu_operation m" "mu_project (fst (stored_row cd m)) = mu_project m"
  "entity_key (fst (stored_row cd m)) = entity_key m" "snd (stored_row cd m) = mutation_digest cd m"
  by (simp_all add: stored_row_def entity_key_def)

lemma good_row_stored: "good_row cd r \<Longrightarrow> stored_row cd (fst r) = r"
  by (cases r) (auto simp: good_row_def stored_row_def)

lemma row_at_Some:
  "row_at lg s q = Some r \<Longrightarrow> r \<in> set lg \<and> mu_source_id (fst r) = s \<and> mu_sequence (fst r) = q"
  by (auto simp: row_at_def find_Some_iff)

lemma row_at_None: "row_at lg s q = None \<longleftrightarrow> (\<forall>r\<in>set lg. mu_source_id (fst r) = s \<longrightarrow> mu_sequence (fst r) \<noteq> q)"
  by (auto simp: row_at_def find_None_iff)

lemma not_must_advance:
  "\<not> must_advance lg m \<longleftrightarrow> (\<forall>r\<in>set lg. same_entity (fst r) m \<longrightarrow> mu_version (fst r) < mu_version m)"
proof (cases "versions_of lg m = []")
  case True
  then show ?thesis
    by (auto simp: must_advance_def versions_of_def filter_empty_conv)
next
  case False
  then have "\<not> must_advance lg m \<longleftrightarrow> (\<forall>v\<in>set (versions_of lg m). v < mu_version m)"
    by (simp add: must_advance_def not_le)
  then show ?thesis
    by (auto simp: versions_of_def)
qed

lemma insert_at_cursor:
  assumes "ok_log cd s expected lg" "mu_source_id m = s" "mu_sequence m = expected" "\<not> must_advance lg m"
    and "wf_mutation cd m"
  shows "insert_mutation cd m lg = Inr (lg @ [stored_row cd m])" "ok_log cd s (expected + 1) (lg @ [stored_row cd m])"
proof -
  have "row_at lg s expected = None"
    using assms(1) by (auto simp: row_at_None ok_log_def list_all_iff)
  moreover have "mu_version m \<notin> set (versions_of lg m)"
    using assms(4) by (force simp: not_must_advance versions_of_def)
  ultimately show "insert_mutation cd m lg = Inr (lg @ [stored_row cd m])"
    using assms(2,3) by (simp add: insert_mutation_def)
  have "row_before r (stored_row cd m)" if "r \<in> set lg" for r
    using that assms(1-4) by (auto simp: row_before_def ok_log_def list_all_iff not_must_advance same_entity_def)
  then show "ok_log cd s (expected + 1) (lg @ [stored_row cd m])"
    using assms(1-3) stored_row_good[OF assms(5)] by (auto simp: ok_log_def list_all_iff sorted_wrt_append)
qed

lemma ok_log_mono: "ok_log cd s e lg \<Longrightarrow> e \<le> e' \<Longrightarrow> ok_log cd s e' lg"
  by (auto simp: ok_log_def list_all_iff)

text \<open>Both loops only add rows of the source at its cursor.\<close>

definition extends :: "codec \<Rightarrow> string \<Rightarrow> int \<Rightarrow> log_row list \<Rightarrow> int \<times> int \<times> log_row list \<Rightarrow> bool" where
  "extends cd s e lg res =
     (case res of (e', n, lg') \<Rightarrow> e \<le> e' \<and> ok_log cd s e' lg'
        \<and> (\<exists>new. lg' = lg @ new \<and> list_all (\<lambda>r. mu_source_id (fst r) = s) new))"

lemma extends_refl: "ok_log cd s e lg \<Longrightarrow> extends cd s e lg (e, n, lg)"
  by (simp add: extends_def)

lemma extends_snoc:
  "extends cd s (e + 1) (lg @ [r]) res \<Longrightarrow> mu_source_id (fst r) = s \<Longrightarrow> extends cd s e lg res"
  by (auto simp: extends_def split: prod.splits)

lemma extends_mono: "extends cd s e' lg res \<Longrightarrow> e \<le> e' \<Longrightarrow> extends cd s e lg res"
  by (auto simp: extends_def split: prod.splits)

lemma append_loop_extends:
  assumes "append_loop cd s epoch e n rs lg = Inr res" "ok_log cd s e lg"
    and "list_all (\<lambda>r. wf_mutation cd r \<and> mu_source_id r = s) rs"
  shows "extends cd s e lg res"
  using assms
proof (induction cd s epoch e n rs lg rule: append_loop.induct)
  case (1 cd s epoch e n lg)
  then show ?case by (auto intro: extends_refl)
next
  case (2 cd s epoch e n r rs lg)
  have r: "wf_mutation cd r" "mu_source_id r = s" and rs: "list_all (\<lambda>r. wf_mutation cd r \<and> mu_source_id r = s) rs"
    using "2.prems"(3) by auto
  have epoch: "mu_source_epoch r = epoch"
    using "2.prems"(1) by (simp split: if_splits)
  show ?case
  proof (cases "mu_sequence r = e")
    case False
    then obtain p where p: "row_at lg s (mu_sequence r) = Some p" "snd p = mutation_digest cd r"
      using "2.prems"(1) epoch by (auto split: option.splits if_splits)
    then show ?thesis
      using "2.IH"(1)[of p "fst p" "snd p"] "2.prems" False epoch rs by (cases p) simp
  next
    case True
    then have adv: "\<not> must_advance lg r"
      using "2.prems"(1) epoch by (simp split: if_splits)
    note ins = insert_at_cursor[OF "2.prems"(2) r(2) True adv r(1)]
    have "append_loop cd s epoch (e + 1) (n + 1) rs (lg @ [stored_row cd r]) = Inr res"
      using "2.prems"(1) epoch True adv ins(1) by simp
    then have "extends cd s (e + 1) (lg @ [stored_row cd r]) res"
      using "2.IH"(3)[of "lg @ [stored_row cd r]"] epoch True adv ins rs by simp
    then show ?thesis
      by (rule extends_snoc) (simp add: r(2))
  qed
qed

lemma apply_loop_extends:
  assumes "apply_loop cd epoch e n rs lg = Inr res" "ok_log cd s e lg"
    and "list_all (\<lambda>r. wf_mutation cd r \<and> mu_source_id r = s) rs"
  shows "extends cd s e lg res"
  using assms
proof (induction cd epoch e n rs lg rule: apply_loop.induct)
  case (1 cd epoch e n lg)
  then show ?case by (auto intro: extends_refl)
next
  case (2 cd epoch e n r rs lg)
  have r: "wf_mutation cd r" "mu_source_id r = s" and rs: "list_all (\<lambda>r. wf_mutation cd r \<and> mu_source_id r = s) rs"
    using "2.prems"(3) by auto
  show ?case
  proof (cases "row_at lg s (mu_sequence r)")
    case (Some p)
    have d: "snd p = mutation_digest cd r"
      using "2.prems"(1) r(2) Some by (cases p) (simp split: if_splits)
    have m: "max e (mu_sequence r + 1) = e"
      using row_at_Some[OF Some] "2.prems"(2) by (auto simp: ok_log_def list_all_iff)
    show ?thesis
      using "2.IH"(2)[of p "fst p" "snd p"] "2.prems" Some d m r(2) rs by (cases p) simp
  next
    case None
    then have q: "mu_source_epoch r = epoch" "mu_sequence r = e" and adv: "\<not> must_advance lg r"
      using "2.prems"(1) r(2) by (simp_all split: if_splits)
    note ins = insert_at_cursor[OF "2.prems"(2) r(2) q(2) adv r(1)]
    have "apply_loop cd epoch (e + 1) (n + 1) rs (lg @ [stored_row cd r]) = Inr res"
      using "2.prems"(1) None q adv ins(1) r(2) by simp
    then have "extends cd s (e + 1) (lg @ [stored_row cd r]) res"
      using "2.IH"(1)[of "lg @ [stored_row cd r]"] None q adv ins rs r(2) by simp
    then show ?thesis
      by (rule extends_snoc) (simp add: r(2))
  qed
qed

subsection \<open>Every operation keeps it\<close>

datatype journal_op =
    JOpen string "string option"
  | JAdvance string int
  | JAppend string "string option" "mutation list"
  | JApply "string option" mem_batch
  | JPrune nat string int bool int

fun journal_do :: "codec \<Rightarrow> journal_op \<Rightarrow> memdb \<Rightarrow> memdb res" where
  "journal_do cd (JOpen source scope) db = mk_mem_journal source scope db"
| "journal_do cd (JAdvance source epoch) db = advance_epoch source epoch db"
| "journal_do cd (JAppend source scope rs) db = rbind (journal_append cd source scope rs db) (\<lambda>(_, db'). Inr db')"
| "journal_do cd (JApply scope b) db = rbind (journal_apply cd scope b db) (\<lambda>(_, db'). Inr db')"
| "journal_do cd (JPrune k source q retain limit) db =
     rbind (prune_before k source q retain limit db) (\<lambda>(_, db'). Inr db')"

fun op_ok :: "codec \<Rightarrow> journal_op \<Rightarrow> bool" where
  \<comment> \<open>the arguments were built by their constructors\<close>
  "op_ok cd (JAppend source scope rs) = list_all (wf_mutation cd) rs"
| "op_ok cd (JApply scope b) = wf_batch cd b"
| "op_ok cd _ = True"

definition journal_step :: "codec \<Rightarrow> memdb \<Rightarrow> journal_op \<Rightarrow> memdb \<Rightarrow> bool" where
  \<comment> \<open>an operation that raises leaves the tables\<close>
  "journal_step cd db op db' =
     (op_ok cd op \<and> (case journal_do cd op db of Inl _ \<Rightarrow> db' = db | Inr d \<Rightarrow> db' = d))"

lemma inv_ok_log:
  assumes "journal_inv cd db" "map_of (md_meta db) s = Some row"
  shows "ok_log cd s (me_next row) (md_log db)"
  using assms by (auto simp: journal_inv_def ok_log_def list_all_iff below_cursor_def)

lemma inv_no_rows:
  assumes "journal_inv cd db" "map_of (md_meta db) s = None" "r \<in> set (md_log db)"
  shows "mu_source_id (fst r) \<noteq> s"
  using assms by (auto simp: journal_inv_def list_all_iff below_cursor_def)

lemma inv_new_log:
  assumes "journal_inv cd db" "map_of (md_meta db) s = None"
  shows "ok_log cd s 1 (md_log db)"
  using assms inv_no_rows[OF assms] by (auto simp: journal_inv_def ok_log_def list_all_iff)

lemma inv_extend:
  assumes "journal_inv cd db" "extends cd s e (md_log db) (me_next row, n, lg')" "meta_ok row"
  shows "journal_inv cd (db\<lparr>md_log := lg', md_meta := AList.update s row (md_meta db)\<rparr>)"
proof -
  obtain new where lg': "lg' = md_log db @ new" "list_all (\<lambda>r. mu_source_id (fst r) = s) new"
    and ok: "ok_log cd s (me_next row) lg'"
    using assms(2) by (auto simp: extends_def)
  have "below_cursor (db\<lparr>md_log := lg', md_meta := AList.update s row (md_meta db)\<rparr>) r" if "r \<in> set lg'" for r
  proof (cases "mu_source_id (fst r) = s")
    case True
    then show ?thesis
      using ok that by (auto simp: below_cursor_def dict_simps ok_log_def list_all_iff)
  next
    case False
    then have "below_cursor db r"
      using that lg' assms(1) by (auto simp: journal_inv_def list_all_iff)
    then show ?thesis
      using False by (auto simp: below_cursor_def dict_simps)
  qed
  moreover have "list_all (\<lambda>(_, row). meta_ok row) (AList.update s row (md_meta db))"
    using assms(1,3) set_update_subset[of s row "md_meta db"] by (auto simp: journal_inv_def list_all_iff)
  ultimately show ?thesis
    using assms(1) ok pydict.ok_put by (auto simp: journal_inv_def ok_log_def list_all_iff)
qed

lemma inv_meta:
  assumes "journal_inv cd db" "ok_log cd s (me_next row) (md_log db)" "meta_ok row"
  shows "journal_inv cd (db\<lparr>md_meta := AList.update s row (md_meta db)\<rparr>)"
  using inv_extend[OF assms(1) extends_refl[OF assms(2)] assms(3)] by simp

lemma ensure_inv:
  assumes "ensure_source s sc db = Inr ((epoch, next, x), db1)" "journal_inv cd db"
  obtains row where "journal_inv cd db1" "map_of (md_meta db1) s = Some row" "me_next row = next"
    "me_epoch row = epoch" "md_log db1 = md_log db" "meta_ok row"
proof (cases "map_of (md_meta db) s")
  case None
  then have "journal_inv cd (db\<lparr>md_meta := AList.update s \<lparr>me_epoch = 1, me_next = 1, me_scope = sc\<rparr> (md_meta db)\<rparr>)"
    using inv_new_log[OF assms(2) None] by (intro inv_meta assms(2)) (simp_all add: meta_ok_def)
  then show ?thesis
    using assms(1) None by (intro that) (auto simp: ensure_source_def dict_simps meta_ok_def)
next
  case (Some row)
  then have "(s, row) \<in> set (md_meta db)"
    by (rule map_of_SomeD)
  then have "meta_ok row"
    using assms(2) by (auto simp: journal_inv_def list_all_iff)
  then show ?thesis
    using assms Some by (intro that) (auto simp: ensure_source_def split: if_splits)
qed

lemma set_next_inv:
  assumes "set_next s e (db\<lparr>md_log := lg\<rparr>) = Inr db'" "journal_inv cd db" "map_of (md_meta db) s = Some row"
    and "meta_ok row" "extends cd s (me_next row) (md_log db) (e, n, lg)"
  shows "journal_inv cd db'"
proof -
  have "me_next row \<le> e"
    using assms(5) by (simp add: extends_def)
  with assms(1,3,4) have row: "meta_ok (row\<lparr>me_next := e\<rparr>)"
    and db': "db' = db\<lparr>md_log := lg, md_meta := AList.update s (row\<lparr>me_next := e\<rparr>) (md_meta db)\<rparr>"
    by (auto simp: set_next_def meta_ok_def split: if_splits)
  show ?thesis
    unfolding db' using inv_extend[OF assms(2) _ row, of s "me_next row" n lg] assms(5) by simp
qed

lemma check_append_Inr: "check_append s sc rs = Inr u \<Longrightarrow> list_all (\<lambda>r. mu_source_id r = s) rs"
  by (induction rs) (auto split: if_splits)

lemma journal_append_inv:
  assumes "journal_append cd s sc rs db = Inr (n, db')" "journal_inv cd db" "list_all (wf_mutation cd) rs"
  shows "journal_inv cd db'"
proof -
  obtain epoch nx x db1 e lg where
    rs: "list_all (\<lambda>r. mu_source_id r = s) rs" and
    db1: "ensure_source s sc db = Inr ((epoch, nx, x), db1)" and
    lg: "append_loop cd s epoch nx 0 rs (md_log db1) = Inr (e, n, lg)" and
    db': "set_next s e (db1\<lparr>md_log := lg\<rparr>) = Inr db'"
    using assms(1) by (auto simp: journal_append_def dest: check_append_Inr split: if_splits)
  obtain row where row: "journal_inv cd db1" "map_of (md_meta db1) s = Some row" "me_next row = nx"
    "meta_ok row"
    using ensure_inv[OF db1 assms(2)] by metis
  have "extends cd s nx (md_log db1) (e, n, lg)"
    using append_loop_extends[OF lg] inv_ok_log[OF row(1,2)] row(3) rs assms(3) by (simp add: list_all_iff)
  then show ?thesis
    using set_next_inv[OF db' row(1,2,4)] row(3) by simp
qed

lemma admit_inv:
  assumes "admit_batch sc b db = Inr (epoch, expected, db1)" "journal_inv cd db" "wf_batch cd b"
  obtains row where "journal_inv cd db1" "map_of (md_meta db1) (mb_source_id b) = Some row" "me_next row = expected"
    "me_epoch row = mb_source_epoch b" "epoch = mb_source_epoch b" "md_log db1 = md_log db" "meta_ok row"
    "me_scope row = sc"
proof -
  have ep: "1 \<le> mb_source_epoch b" "mb_source_epoch b \<le> max_int63"
    using assms(3) by (auto simp: wf_batch_def mk_batch_def run_simps split: if_splits)
  show thesis
  proof (cases "map_of (md_meta db) (mb_source_id b)")
    case None
    let ?row = "\<lparr>me_epoch = mb_source_epoch b, me_next = 1, me_scope = sc\<rparr>"
    have "journal_inv cd (db\<lparr>md_meta := AList.update (mb_source_id b) ?row (md_meta db)\<rparr>)"
      using inv_new_log[OF assms(2) None] ep by (intro inv_meta assms(2)) (simp_all add: meta_ok_def)
    then show ?thesis
      using assms(1) None ep by (intro that) (auto simp: admit_batch_def dict_simps meta_ok_def)
  next
    case (Some row)
    then have "(mb_source_id b, row) \<in> set (md_meta db)"
      by (rule map_of_SomeD)
    then have ok: "meta_ok (row\<lparr>me_epoch := mb_source_epoch b\<rparr>)"
      using assms(2) ep by (auto simp: journal_inv_def list_all_iff meta_ok_def)
    then have "journal_inv cd (db\<lparr>md_meta := AList.update (mb_source_id b) (row\<lparr>me_epoch := mb_source_epoch b\<rparr>) (md_meta db)\<rparr>)"
      using inv_ok_log[OF assms(2) Some] by (intro inv_meta assms(2)) simp_all
    then show ?thesis
      using assms(1) Some ok
      by (intro that[of "row\<lparr>me_epoch := mb_source_epoch b\<rparr>"]) (auto simp: admit_batch_def dict_simps split: if_splits)
  qed
qed

lemma wf_batch_records:
  assumes "wf_batch cd b"
  shows "list_all (\<lambda>r. wf_mutation cd r \<and> mu_source_id r = mb_source_id b) (mb_records b)"
  using assms mk_batch_Inr(1)[of "mb_source_id b" "mb_source_epoch b"] by (fastforce simp: wf_batch_def list_all_iff)

lemma journal_apply_inv:
  assumes "journal_apply cd sc b db = Inr (n, db')" "journal_inv cd db" "wf_batch cd b"
  shows "journal_inv cd db'"
proof -
  obtain epoch expected db1 e lg where
    db1: "admit_batch sc b db = Inr (epoch, expected, db1)" and
    lg: "apply_loop cd epoch expected 0 (mb_records b) (md_log db1) = Inr (e, n, lg)" and
    db': "set_next (mb_source_id b) e (db1\<lparr>md_log := lg\<rparr>) = Inr db'"
    using assms(1) by (auto simp: journal_apply_def)
  obtain row where row: "journal_inv cd db1" "map_of (md_meta db1) (mb_source_id b) = Some row" "me_next row = expected"
    "meta_ok row"
    using admit_inv[OF db1 assms(2,3)] by metis
  have "extends cd (mb_source_id b) expected (md_log db1) (e, n, lg)"
    using apply_loop_extends[OF lg] inv_ok_log[OF row(1,2)] row(3) wf_batch_records[OF assms(3)] by simp
  then show ?thesis
    using set_next_inv[OF db' row(1,2,4)] row(3) by simp
qed

lemma inv_filter: "journal_inv cd db \<Longrightarrow> journal_inv cd (db\<lparr>md_log := filter P (md_log db)\<rparr>)"
  by (auto simp: journal_inv_def list_all_iff below_cursor_def sorted_wrt_filter)

lemma prune_inv: "prune_before k s q ret li db = Inr (n, db') \<Longrightarrow> journal_inv cd db \<Longrightarrow> journal_inv cd db'"
  by (auto simp: prune_before_def delete_rows_def Let_def split: if_splits intro: inv_filter)

lemma advance_inv:
  assumes "advance_epoch s e db = Inr db'" "journal_inv cd db"
  shows "journal_inv cd db'"
proof -
  obtain row where row: "map_of (md_meta db) s = Some row" "1 \<le> e" "e \<le> max_int63"
    "db' = db\<lparr>md_meta := AList.update s (row\<lparr>me_epoch := e\<rparr>) (md_meta db)\<rparr>"
    using assms(1) by (auto simp: advance_epoch_def split: if_splits option.splits)
  have "(s, row) \<in> set (md_meta db)"
    using row(1) by (rule map_of_SomeD)
  then have "meta_ok (row\<lparr>me_epoch := e\<rparr>)"
    using assms(2) row(2,3) by (auto simp: journal_inv_def list_all_iff meta_ok_def)
  then show ?thesis
    unfolding row(4) using inv_ok_log[OF assms(2) row(1)] by (intro inv_meta assms(2)) simp_all
qed

lemma journal_step_inv:
  assumes "journal_step cd db op db'" "journal_inv cd db"
  shows "journal_inv cd db'"
proof (cases "journal_do cd op db")
  case (Inl e)
  then show ?thesis
    using assms by (simp add: journal_step_def)
next
  case (Inr d)
  then have "db' = d" "op_ok cd op"
    using assms(1) by (auto simp: journal_step_def)
  with Inr assms(2) show ?thesis
    by (cases op) (auto simp: mk_mem_journal_def elim: ensure_inv
        intro: journal_append_inv journal_apply_inv prune_inv advance_inv)
qed

interpretation mem_journal: invariant_system "journal_step cd" "journal_inv cd" for cd
  by unfold_locales (rule journal_step_inv)

lemma empty_memdb_inv: "journal_inv cd empty_memdb"
  by (simp add: empty_memdb_def journal_inv_def)

section \<open>Pruning keeps the latest records\<close>

lemma sorted_wrt_cases: "sorted_wrt R xs \<Longrightarrow> a \<in> set xs \<Longrightarrow> b \<in> set xs \<Longrightarrow> a = b \<or> R a b \<or> R b a"
  by (induction xs) auto

lemma take_sorted_closed:
  assumes "x \<in> set (take n (sort_key f xs))" "y \<in> set xs" "f y < f x"
  shows "y \<in> set (take n (sort_key f xs))"
proof (rule ccontr)
  let ?ys = "sort_key f xs"
  assume "y \<notin> set (take n ?ys)"
  moreover have "y \<in> set (take n ?ys @ drop n ?ys)"
    using assms(2) by simp
  ultimately have "y \<in> set (drop n ?ys)"
    by (metis UnE set_append)
  moreover have "sorted (map f (take n ?ys @ drop n ?ys))"
    by simp
  ultimately have "f x \<le> f y"
    using assms(1) by (simp only: map_append sorted_append) auto
  then show False
    using assms(3) by simp
qed

lemma same_entity_props:
  "same_entity a a" "same_entity a b \<Longrightarrow> same_entity b a" "same_entity a b \<Longrightarrow> same_entity b c \<Longrightarrow> same_entity a c"
  by (auto simp: same_entity_def)

lemma ex_newest:
  assumes "r \<in> set lg"
  obtains n where "n \<in> set lg" "same_entity (fst n) (fst r)" "newest lg n"
proof -
  let ?S = "{q \<in> set lg. same_entity (fst q) (fst r)}"
  let ?k = "\<lambda>q. (mu_version (fst q), mu_sequence (fst q))"
  have "r \<in> ?S"
    using assms same_entity_props(1) by simp
  then have fin: "finite (?k ` ?S)" "?k ` ?S \<noteq> {}"
    by (simp, blast)
  obtain n where n: "n \<in> ?S" "?k n = Max (?k ` ?S)"
    using Max_in[OF fin] by (metis (no_types, lifting) imageE)
  have "?k q \<le> ?k n" if "q \<in> ?S" for q
    unfolding n(2) using fin(1) that by (intro Max_ge imageI)
  then have "newest lg n"
    using n(1) same_entity_props(3) by (auto simp: newest_def list_all_iff)
  with n(1) show thesis
    by (intro that) auto
qed

lemma prunable_sub:
  assumes "r \<in> set (prunable lg s bound retain k)"
  shows "r \<in> set lg" "mu_source_id (fst r) = s" "mu_sequence (fst r) < bound" "\<not> protected_row lg retain r"
    "retain \<longrightarrow> mu_operation (fst r) = ''upsert''"
  using assms by (auto simp: prunable_def dest!: in_set_takeD)

lemma unique_row:
  assumes "sorted_wrt row_before lg" "a \<in> set lg" "b \<in> set lg"
    and "mu_source_id (fst a) = mu_source_id (fst b)" "mu_sequence (fst a) = mu_sequence (fst b)"
  shows "a = b"
  using sorted_wrt_cases[OF assms(1-3)] assms(4,5) by (auto simp: row_before_def)

lemma kept_iff:
  assumes "sorted_wrt row_before lg" "set rows \<subseteq> set lg"
  shows "r \<in> set (delete_rows rows lg) \<longleftrightarrow> r \<in> set lg \<and> r \<notin> set rows"
proof -
  have "(mu_source_id (fst r), mu_sequence (fst r)) \<in> (\<lambda>q. (mu_source_id (fst q), mu_sequence (fst q))) ` set rows \<longleftrightarrow> r \<in> set rows"
    if "r \<in> set lg"
  proof
    assume "(mu_source_id (fst r), mu_sequence (fst r)) \<in> (\<lambda>q. (mu_source_id (fst q), mu_sequence (fst q))) ` set rows"
    then obtain q where "q \<in> set rows" "mu_source_id (fst r) = mu_source_id (fst q)" "mu_sequence (fst r) = mu_sequence (fst q)"
      by blast
    then show "r \<in> set rows"
      using unique_row[OF assms(1) that, of q] assms(2) by blast
  qed (rule image_eqI[OF refl])
  then show ?thesis
    by (auto simp: delete_rows_def)
qed

lemma prunable_earlier:
  assumes "d \<in> set (prunable lg s bound retain k)" "r \<in> set lg" "same_entity (fst r) (fst d)" "\<not> newest lg r"
    and "\<not> retain" "mu_sequence (fst r) < mu_sequence (fst d)"
  shows "r \<in> set (prunable lg s bound retain k)"
proof -
  note d = prunable_sub[OF assms(1)]
  have "mu_source_id (fst r) = s"
    using assms(3) d(2) by (simp add: same_entity_def)
  then have "r \<in> set (filter (\<lambda>r. mu_source_id (fst r) = s \<and> mu_sequence (fst r) < bound \<and> \<not> protected_row lg retain r
      \<and> (retain \<longrightarrow> mu_operation (fst r) = ''upsert'')) lg)"
    using assms(2,4-6) d(3) by (simp add: protected_row_def)
  from take_sorted_closed[OF assms(1)[unfolded prunable_def] this assms(6)] show ?thesis
    by (simp only: prunable_def)
qed

lemma newest_kept:
  assumes ordered: "sorted_wrt row_before lg" and r: "r \<in> set lg" "mu_operation (fst r) = ''upsert'' \<or> retain"
    and kept_def: "kept = delete_rows (prunable lg s bound retain k) lg"
  shows "r \<in> set kept \<and> newest kept r \<longleftrightarrow> newest lg r"
proof
  have kept: "q \<in> set kept \<longleftrightarrow> q \<in> set lg \<and> q \<notin> set (prunable lg s bound retain k)" for q
    unfolding kept_def using prunable_sub(1) by (intro kept_iff ordered) auto
  show "newest lg r \<Longrightarrow> r \<in> set kept \<and> newest kept r"
  proof -
    assume new: "newest lg r"
    then have "protected_row lg retain r"
      using r(2) by (auto simp: protected_row_def)
    then have "r \<in> set kept"
      using r(1) prunable_sub(4) kept by blast
    moreover have "newest kept r"
      using new kept by (simp add: newest_def list_all_iff del: split_paired_All)
    ultimately show ?thesis ..
  qed
  assume rk: "r \<in> set kept \<and> newest kept r"
  show "newest lg r"
  proof (rule ccontr)
    assume not_new: "\<not> newest lg r"
    obtain n where n: "n \<in> set lg" "same_entity (fst n) (fst r)" "newest lg n"
      using ex_newest[OF r(1)] .
    have "n \<noteq> r"
      using n(3) not_new by blast
    have "(mu_version (fst r), mu_sequence (fst r)) \<le> (mu_version (fst n), mu_sequence (fst n))"
      using n(3) r(1) same_entity_props(2)[OF n(2)] by (simp add: newest_def list_all_iff)
    then have before: "mu_version (fst r) < mu_version (fst n)" "mu_sequence (fst r) < mu_sequence (fst n)"
      using sorted_wrt_cases[OF ordered r(1) n(1)] \<open>n \<noteq> r\<close> n(2) by (auto simp: row_before_def same_entity_def)
    have "n \<notin> set kept"
      using rk n(2) before(1) by (auto simp: newest_def list_all_iff simp del: split_paired_All)
    then have gone: "n \<in> set (prunable lg s bound retain k)"
      using kept n(1) by blast
    then have "\<not> retain"
      using prunable_sub(4,5)[OF gone] n(3) by (auto simp: protected_row_def)
    then have "r \<in> set (prunable lg s bound retain k)"
      using prunable_earlier[OF gone r(1) same_entity_props(2)[OF n(2)] not_new] before(2) by simp
    then show False
      using rk kept by blast
  qed
qed

lemma newest_in_scope: "in_scope src sc r \<Longrightarrow> newest (filter (in_scope src sc) xs) r \<longleftrightarrow> newest xs r"
  by (auto simp: newest_def list_all_iff in_scope_def same_entity_def entity_key_def)

lemma latest_filter:
  assumes "sorted_wrt row_before lg" "\<And>r. P r \<Longrightarrow> mu_operation (fst r) = ''upsert'' \<or> retain"
    and kept_def: "kept = delete_rows (prunable lg s bound retain k) lg"
  shows "filter (\<lambda>r. newest (filter (in_scope src sc) kept) r \<and> P r) (filter (in_scope src sc) kept)
       = filter (\<lambda>r. newest (filter (in_scope src sc) lg) r \<and> P r) (filter (in_scope src sc) lg)"
proof -
  have sub: "kept = filter (\<lambda>r. r \<in> set kept) lg"
    unfolding kept_def delete_rows_def by (intro filter_cong) auto
  have "r \<in> set kept \<and> in_scope src sc r \<and> newest (filter (in_scope src sc) kept) r \<and> P r
      \<longleftrightarrow> in_scope src sc r \<and> newest (filter (in_scope src sc) lg) r \<and> P r" if "r \<in> set lg" for r
    using newest_kept[OF assms(1) that _ kept_def] assms(2)[of r] newest_in_scope[of src sc r] by blast
  then have "filter (\<lambda>r. r \<in> set kept \<and> in_scope src sc r \<and> newest (filter (in_scope src sc) kept) r \<and> P r) lg
      = filter (\<lambda>r. in_scope src sc r \<and> newest (filter (in_scope src sc) lg) r \<and> P r) lg"
    by (rule filter_cong[OF refl])
  moreover have "filter (\<lambda>r. newest (filter (in_scope src sc) kept) r \<and> P r) (filter (in_scope src sc) kept)
      = filter (\<lambda>r. newest (filter (in_scope src sc) kept) r \<and> P r) (filter (in_scope src sc) (filter (\<lambda>r. r \<in> set kept) lg))"
    using sub by simp
  ultimately show ?thesis
    by (simp add: conj_ac)
qed

text \<open>
  Pruning loses no current record: in every reachable journal, after a successful prune of any source
  the latest records of every source and scope are the same as before, and so are the latest tombstones
  when they were to be retained. In particular a deleted entity never comes back.
\<close>

theorem prune_keeps_latest:
  assumes "run_of (journal_step cd) empty_memdb ops db" "prune_before max_terms s q retain li db = Inr (n, db')"
  shows "journal_latest cd source own project False limit db' = journal_latest cd source own project False limit db
    \<and> (retain \<longrightarrow> journal_latest cd source own project True limit db' = journal_latest cd source own project True limit db)"
proof -
  have ordered: "sorted_wrt row_before (md_log db)"
    using mem_journal.inv_run[OF assms(1) empty_memdb_inv] by (simp add: journal_inv_def)
  have db': "md_log db' = delete_rows (prunable (md_log db) s q retain li) (md_log db)"
    using assms(2) by (auto simp: prune_before_def Let_def split: if_splits)
  have "journal_latest cd source own project t limit db' = journal_latest cd source own project t limit db"
    if "t \<longrightarrow> retain" for t
    using latest_filter[OF ordered _ db', of "\<lambda>r. mu_operation (fst r) = (if t then ''delete'' else ''upsert'')"] that
    unfolding journal_latest_def Let_def by simp
  then show ?thesis
    by simp
qed

section \<open>Pages of a complete journal\<close>

text \<open>
  A journal that was only appended to holds the sequences 1, 2, ... of its source, all in one epoch and in
  the journal's scope.
\<close>

definition rows_of :: "string \<Rightarrow> log_row list \<Rightarrow> log_row list" where
  "rows_of s lg = filter (\<lambda>r. mu_source_id (fst r) = s) lg"

definition complete_journal :: "codec \<Rightarrow> string \<Rightarrow> string option \<Rightarrow> memdb \<Rightarrow> bool" where
  "complete_journal cd s own db =
     (let rows = rows_of s (md_log db) in
      journal_inv cd db \<and> identity_match s
      \<and> map (\<lambda>r. mu_sequence (fst r)) rows = map (\<lambda>i. int i + 1) [0..<length rows]
      \<and> list_all (\<lambda>r. own = None \<or> Some (mu_project (fst r)) = own) rows
      \<and> (case map_of (md_meta db) s of None \<Rightarrow> False
         | Some row \<Rightarrow> me_next row = int (length rows) + 1
             \<and> list_all (\<lambda>r. mu_source_epoch (fst r) = me_epoch row) rows))"

definition source_epoch :: "string \<Rightarrow> memdb \<Rightarrow> int" where
  "source_epoch s db = (case map_of (md_meta db) s of None \<Rightarrow> 0 | Some row \<Rightarrow> me_epoch row)"

definition journal_page :: "string \<Rightarrow> memdb \<Rightarrow> nat \<Rightarrow> nat \<Rightarrow> mem_batch" where
  "journal_page s db after limit =
     (let rest = drop after (rows_of s (md_log db)); sent = take limit rest in
      \<lparr>mb_source_id = s, mb_source_epoch = source_epoch s db, mb_after_sequence = int after,
       mb_records = map fst sent, mb_next_sequence = int after + int (length sent),
       mb_has_more = limit < length rest\<rparr>)"

lemma rows_sub: "set (rows_of s lg) \<subseteq> set lg"
  by (auto simp: rows_of_def)

lemma rows_of_source: "r \<in> set (rows_of s lg) \<Longrightarrow> mu_source_id (fst r) = s"
  by (simp add: rows_of_def)

lemma complete_journalD:
  assumes "complete_journal cd s own db"
  shows "journal_inv cd db" "identity_match s"
    "i < length (rows_of s (md_log db)) \<Longrightarrow> mu_sequence (fst (rows_of s (md_log db) ! i)) = int i + 1"
    "list_all (\<lambda>r. own = None \<or> Some (mu_project (fst r)) = own) (rows_of s (md_log db))"
    "list_all (\<lambda>r. mu_source_epoch (fst r) = source_epoch s db) (rows_of s (md_log db))"
    "\<exists>row. map_of (md_meta db) s = Some row \<and> me_epoch row = source_epoch s db \<and> meta_ok row
       \<and> me_next row = int (length (rows_of s (md_log db))) + 1"
    "list_all (good_row cd) (rows_of s (md_log db))"
proof -
  show "i < length (rows_of s (md_log db)) \<Longrightarrow> mu_sequence (fst (rows_of s (md_log db) ! i)) = int i + 1"
    using assms by (auto simp: complete_journal_def Let_def dest: arg_cong[where f = "\<lambda>xs. xs ! i"])
  show inv: "journal_inv cd db"
    using assms by (simp add: complete_journal_def Let_def)
  then show "list_all (good_row cd) (rows_of s (md_log db))"
    by (auto simp: journal_inv_def list_all_iff rows_of_def)
  obtain row where "map_of (md_meta db) s = Some row"
    using assms by (auto simp: complete_journal_def Let_def split: option.splits)
  moreover from map_of_SomeD[OF this] have "meta_ok row"
    using inv by (auto simp: journal_inv_def list_all_iff)
  ultimately show "\<exists>row. map_of (md_meta db) s = Some row \<and> me_epoch row = source_epoch s db \<and> meta_ok row
       \<and> me_next row = int (length (rows_of s (md_log db))) + 1"
    using assms by (auto simp: complete_journal_def source_epoch_def Let_def)
qed (use assms in \<open>auto simp: complete_journal_def source_epoch_def Let_def split: option.splits\<close>)

lemma filter_after:
  assumes "\<And>i. i < length xs \<Longrightarrow> f (xs ! i) = int i + 1"
  shows "filter (\<lambda>x. int a < f x) xs = drop a xs"
proof (cases "a \<le> length xs")
  case True
  have "filter (\<lambda>x. int a < f x) (take a xs) = []"
    using assms True by (auto simp: filter_empty_conv in_set_conv_nth)
  moreover have "filter (\<lambda>x. int a < f x) (drop a xs) = drop a xs"
    using assms by (auto simp: filter_id_conv in_set_conv_nth)
  moreover have "filter (\<lambda>x. int a < f x) xs
      = filter (\<lambda>x. int a < f x) (take a xs) @ filter (\<lambda>x. int a < f x) (drop a xs)"
    by (metis append_take_drop_id filter_append)
  ultimately show ?thesis
    by simp
next
  case False
  then show ?thesis
    using assms by (auto simp: filter_empty_conv in_set_conv_nth)
qed

lemma in_scope_complete:
  assumes "complete_journal cd s own db" "sc = own \<or> sc = None"
  shows "filter (in_scope s sc) (md_log db) = rows_of s (md_log db)"
  using complete_journalD(4)[OF assms(1)] assms(2)
  unfolding rows_of_def by (intro filter_cong) (auto simp: in_scope_def list_all_iff)

lemma rows_mapr: "list_all (good_row cd) rows \<Longrightarrow> mapr (row_to_mutation cd) rows = Inr (map fst rows)"
  by (induction rows) (auto simp: row_to_mutation_def good_row_def mk_mutation_again Let_def)

lemma page_order:
  assumes "complete_journal cd s own db" and sent_def: "sent = take l (drop a (rows_of s (md_log db)))"
  shows "sorted_wrt (<) (int a # map mu_sequence (map fst sent))"
    "last (int a # map mu_sequence (map fst sent)) = int a + int (length sent)"
proof -
  have seq: "map mu_sequence (map fst sent) = map (\<lambda>i. int a + int i + 1) [0..<length sent]"
    using complete_journalD(3)[OF assms(1)] by (intro nth_equalityI) (auto simp: sent_def)
  show "sorted_wrt (<) (int a # map mu_sequence (map fst sent))"
    unfolding seq by (auto simp: sorted_wrt_map intro: sorted_wrt_mono_rel[OF _ sorted_wrt_upt])
  show "last (int a # map mu_sequence (map fst sent)) = int a + int (length sent)"
    unfolding seq by (cases "length sent") auto
qed

lemma mk_page:
  assumes "complete_journal cd s own db" "1 \<le> l" "l \<le> 1024" "a \<le> length (rows_of s (md_log db))"
  shows "mk_batch (JStr s) (JInt (source_epoch s db)) (JInt (int a)) (mb_records (journal_page s db a l))
      (JInt (mb_next_sequence (journal_page s db a l))) (JBool (mb_has_more (journal_page s db a l))) = Inr (journal_page s db a l)"
proof -
  obtain row where row: "me_epoch row = source_epoch s db" "meta_ok row"
    "me_next row = int (length (rows_of s (md_log db))) + 1"
    using complete_journalD(6)[OF assms(1)] by auto
  have own: "list_all (\<lambda>r. mu_source_id r = s \<and> mu_source_epoch r = source_epoch s db)
      (map fst (take l (drop a (rows_of s (md_log db)))))"
    using complete_journalD(5)[OF assms(1)]
    by (fastforce simp: list_all_iff rows_of_def dest: in_set_takeD in_set_dropD)
  have "int a + int (length (take l (drop a (rows_of s (md_log db))))) \<le> max_int63"
  proof -
    have "length (take l (drop a (rows_of s (md_log db)))) \<le> length (rows_of s (md_log db)) - a"
      by simp
    then show ?thesis
      using assms(4) row(2,3) unfolding meta_ok_def by linarith
  qed
  then show ?thesis
    using own page_order[OF assms(1) refl, where a = a and l = l] complete_journalD(2)[OF assms(1)] row assms(2,3)
    by (simp add: mk_batch_def run_simps journal_page_def Let_def meta_ok_def check_batch_records_Inr)
qed

text \<open>Exporting from a complete journal succeeds and yields the page at the cursor.\<close>

lemma export_page:
  assumes "complete_journal cd s own db" "1 \<le> l" "l \<le> 1024" "a \<le> length (rows_of s (md_log db))"
  shows "journal_export cd s own (int a) (int l) None db = Inr (journal_page s db a l)"
proof -
  let ?rows = "rows_of s (md_log db)"
  obtain row where row: "map_of (md_meta db) s = Some row" "me_epoch row = source_epoch s db" "meta_ok row"
    "me_next row = int (length ?rows) + 1"
    using complete_journalD(6)[OF assms(1)] by auto
  have "filter (\<lambda>r. in_scope s own r \<and> int a < mu_sequence (fst r)) (md_log db)
      = filter (\<lambda>r. int a < mu_sequence (fst r)) (filter (in_scope s own) (md_log db))"
    by (simp add: conj_commute)
  also have "\<dots> = drop a ?rows"
    unfolding in_scope_complete[OF assms(1) disjI1[OF refl]]
    using complete_journalD(3)[OF assms(1)] by (intro filter_after) simp
  finally have sel: "filter (\<lambda>r. in_scope s own r \<and> int a < mu_sequence (fst r)) (md_log db) = drop a ?rows" .
  have "sorted (map (\<lambda>r. mu_sequence (fst r)) (drop a ?rows))"
    using complete_journalD(3)[OF assms(1)] by (simp add: sorted_iff_nth_mono)
  then have sorted: "sort_key (\<lambda>r. mu_sequence (fst r)) (drop a ?rows) = drop a ?rows"
    by (rule sort_key_id_if_sorted)
  have recs: "mapr (row_to_mutation cd) (take l (drop a ?rows)) = Inr (map fst (take l (drop a ?rows)))"
    using complete_journalD(7)[OF assms(1)] by (intro rows_mapr) (auto simp: list_all_iff dest!: in_set_takeD in_set_dropD)
  have next_seq: "(if map fst (take l (drop a ?rows)) = [] then int a
      else mu_sequence (last (map fst (take l (drop a ?rows))))) = int a + int (length (take l (drop a ?rows)))"
    using page_order(2)[OF assms(1) refl, where a = a and l = l]
    by (cases "take l (drop a ?rows) = []") (simp_all add: last_map del: take_eq_Nil)
  have "int a \<le> max_int63"
    using assms(4) row(3,4) by (simp add: meta_ok_def)
  moreover have "(l < length (take (Suc l) xs)) = (l < length xs)" "take l (take (Suc l) xs) = take l xs" for xs :: "log_row list"
    by (auto simp: min_def)
  ultimately show ?thesis
    using assms(2,3) row(1,2) mk_page[OF assms, unfolded journal_page_def Let_def mem_batch.simps] next_seq
    by (cases "take l (drop a ?rows) = []")
      (simp_all add: journal_export_def journal_scope_def sel sorted Let_def journal_page_def recs
        del: length_take length_drop take_eq_Nil take_take)
qed

subsection \<open>Appending keeps a journal complete\<close>

lemma append_loop_new:
  assumes "append_loop cd s epoch e n rs lg = Inr (e', n', lg')" "ok_log cd s e lg"
    and "list_all (\<lambda>r. wf_mutation cd r \<and> mu_source_id r = s) rs"
  shows "\<exists>new. lg' = lg @ map (stored_row cd) new \<and> set new \<subseteq> set rs \<and> e' = e + int (length new)
    \<and> map mu_sequence new = map (\<lambda>i. e + int i) [0..<length new] \<and> list_all (\<lambda>r. mu_source_epoch r = epoch) new"
  using assms
proof (induction cd s epoch e n rs lg rule: append_loop.induct)
  case (1 cd s epoch e n lg)
  then show ?case by (intro exI[of _ "[]"]) simp
next
  case (2 cd s epoch e n r rs lg)
  have r: "wf_mutation cd r" "mu_source_id r = s" and rs: "list_all (\<lambda>r. wf_mutation cd r \<and> mu_source_id r = s) rs"
    using "2.prems"(3) by auto
  have epoch: "mu_source_epoch r = epoch"
    using "2.prems"(1) by (simp split: if_splits)
  show ?case
  proof (cases "mu_sequence r = e")
    case False
    then obtain p where p: "row_at lg s (mu_sequence r) = Some p" "snd p = mutation_digest cd r"
      using "2.prems"(1) epoch by (auto split: option.splits if_splits)
    have "\<exists>new. lg' = lg @ map (stored_row cd) new \<and> set new \<subseteq> set rs \<and> e' = e + int (length new)
        \<and> map mu_sequence new = map (\<lambda>i. e + int i) [0..<length new] \<and> list_all (\<lambda>r. mu_source_epoch r = epoch) new"
      using "2.IH"(1)[of p "fst p" "snd p"] "2.prems" False epoch rs p by (cases p) simp
    then show ?thesis
      by fastforce
  next
    case True
    then have adv: "\<not> must_advance lg r"
      using "2.prems"(1) epoch by (simp split: if_splits)
    note ins = insert_at_cursor[OF "2.prems"(2) r(2) True adv r(1)]
    have "append_loop cd s epoch (e + 1) (n + 1) rs (lg @ [stored_row cd r]) = Inr (e', n', lg')"
      using "2.prems"(1) epoch True adv ins(1) by simp
    then obtain new where new: "lg' = (lg @ [stored_row cd r]) @ map (stored_row cd) new" "set new \<subseteq> set rs"
      "e' = e + 1 + int (length new)" "map mu_sequence new = map (\<lambda>i. e + 1 + int i) [0..<length new]"
      "list_all (\<lambda>r. mu_source_epoch r = epoch) new"
      using "2.IH"(3)[of "lg @ [stored_row cd r]"] epoch True adv ins rs by auto
    have "map (\<lambda>i. e + int i) [0..<length (r # new)] = map mu_sequence (r # new)"
      using new(4) True by (simp add: upt_conv_Cons map_Suc_upt[symmetric] del: upt_Suc)
    then show ?thesis
      using new epoch by (intro exI[of _ "r # new"]) auto
  qed
qed

lemma check_append_scope:
  "check_append s sc rs = Inr u \<Longrightarrow> r \<in> set rs \<Longrightarrow> sc = None \<or> Some (mu_project r) = sc"
  by (induction rs) (auto split: if_splits)

lemma complete_append:
  assumes "complete_journal cd s own db" "journal_append cd s own rs db = Inr (n, db')" "list_all (wf_mutation cd) rs"
  shows "complete_journal cd s own db' \<and> source_epoch s db' = source_epoch s db
    \<and> (\<exists>new. rows_of s (md_log db') = rows_of s (md_log db) @ new)"
proof -
  let ?rows = "rows_of s (md_log db)"
  obtain row where row: "map_of (md_meta db) s = Some row" "me_epoch row = source_epoch s db"
    "me_next row = int (length ?rows) + 1"
    using complete_journalD(6)[OF assms(1)] by auto
  obtain e lg u where chk: "check_append s own rs = Inr u"
    and lg: "append_loop cd s (me_epoch row) (me_next row) 0 rs (md_log db) = Inr (e, n, lg)"
    and db': "set_next s e (db\<lparr>md_log := lg\<rparr>) = Inr db'"
    using assms(2) row(1) by (auto simp: journal_append_def ensure_source_def split: if_splits)
  have src: "list_all (\<lambda>r. wf_mutation cd r \<and> mu_source_id r = s) rs"
    using assms(3) check_append_Inr[OF chk] by (simp add: list_all_iff)
  obtain new where new: "lg = md_log db @ map (stored_row cd) new" "set new \<subseteq> set rs" "e = me_next row + int (length new)"
    "map mu_sequence new = map (\<lambda>i. me_next row + int i) [0..<length new]" "list_all (\<lambda>r. mu_source_epoch r = me_epoch row) new"
    using append_loop_new[OF lg inv_ok_log[OF complete_journalD(1)[OF assms(1)] row(1)] src] by blast
  have own: "mu_source_id r = s \<and> (own = None \<or> Some (mu_project r) = own)" if "r \<in> set new" for r
    using that new(2) src check_append_scope[OF chk] by (auto simp: list_all_iff)
  have rows': "rows_of s lg = ?rows @ map (stored_row cd) new"
    using own by (simp add: new(1) rows_of_def filter_id_conv)
  have "map (\<lambda>r. mu_sequence (fst r)) (rows_of s lg) = map (\<lambda>i. int i + 1) [0..<length (rows_of s lg)]"
  proof -
    have "map (\<lambda>r. mu_sequence (fst r)) (map (stored_row cd) new) = map (\<lambda>i. int (length ?rows + i) + 1) [0..<length new]"
      using new(4) row(3) by (simp add: comp_def)
    also have "\<dots> = map (\<lambda>i. int i + 1) [length ?rows..<length ?rows + length new]"
      by (intro nth_equalityI) auto
    finally show ?thesis
      using assms(1) by (simp add: rows' complete_journal_def Let_def upt_add_eq_append[of 0, simplified])
  qed
  moreover have inv: "journal_inv cd db'"
    using journal_append_inv[OF assms(2) complete_journalD(1)[OF assms(1)] assms(3)] .
  moreover have meta: "md_log db' = lg" "map_of (md_meta db') s = Some (row\<lparr>me_next := e\<rparr>)"
    using db' row(1) by (auto simp: set_next_def dict_simps split: if_splits)
  moreover have "list_all (\<lambda>r. own = None \<or> Some (mu_project (fst r)) = own) (rows_of s lg)"
    using complete_journalD(4)[OF assms(1)] own by (cases "own = None") (auto simp: rows' list_all_iff)
  moreover have "list_all (\<lambda>r. mu_source_epoch (fst r) = me_epoch row) (rows_of s lg)"
    using complete_journalD(5)[OF assms(1)] new(5) row(2) by (auto simp: rows' list_all_iff)
  ultimately have "complete_journal cd s own db'"
    using complete_journalD(2)[OF assms(1)] new(3) row(3) by (simp add: complete_journal_def Let_def rows')
  then show ?thesis
    using meta row(2) rows' by (simp add: source_epoch_def)
qed

lemma complete_open:
  assumes "mk_mem_journal s own empty_memdb = Inr db"
  shows "complete_journal cd s own db"
proof -
  have "journal_inv cd db"
    using assms empty_memdb_inv by (auto simp: mk_mem_journal_def elim: ensure_inv)
  then show ?thesis
    using assms by (auto simp: mk_mem_journal_def validate_source_def ensure_source_def empty_memdb_def complete_journal_def
        rows_of_def run_simps split: if_splits)
qed

section \<open>Replicas\<close>

text \<open>A replica holds the first \<open>k\<close> rows of the source, as they are there.\<close>

definition serves :: "string \<Rightarrow> string option \<Rightarrow> string option \<Rightarrow> bool" where
  "serves s own sc = (sc = None \<or> sc = own \<and> validate_source s own = Inr ())"

definition mirrors :: "codec \<Rightarrow> string \<Rightarrow> string option \<Rightarrow> memdb \<Rightarrow> memdb \<Rightarrow> nat \<Rightarrow> bool" where
  "mirrors cd s sc src dst k =
     (journal_inv cd dst \<and> k \<le> length (rows_of s (md_log src))
      \<and> rows_of s (md_log dst) = take k (rows_of s (md_log src))
      \<and> (case map_of (md_meta dst) s of None \<Rightarrow> k = 0
         | Some row \<Rightarrow> me_scope row = sc \<and> me_epoch row \<le> source_epoch s src \<and> me_next row = int k + 1))"

lemma mirrors_length: "mirrors cd s sc src dst k \<Longrightarrow> length (rows_of s (md_log dst)) = k"
  by (simp add: mirrors_def)

lemma mirrors_unique: "mirrors cd s sc src dst k \<Longrightarrow> mirrors cd s sc src dst k' \<Longrightarrow> k = k'"
  using mirrors_length by metis

lemma rows_ordered: "journal_inv cd db \<Longrightarrow> sorted_wrt row_before (rows_of s (md_log db))"
  by (auto simp: journal_inv_def rows_of_def sorted_wrt_filter)

lemma apply_loop_page:
  assumes c: "complete_journal cd s own src" and rows_def: "rows = rows_of s (md_log src)"
    and "ok_log cd s (int k + 1) lg" "rows_of s lg = take k rows" "a \<le> k" "k \<le> length rows" "a + j \<le> length rows"
  shows "apply_loop cd (source_epoch s src) (int k + 1) n (map fst (take j (drop a rows))) lg
    = Inr (int (max k (a + j)) + 1, n + int (max k (a + j) - k), lg @ drop k (take (a + j) rows))"
  using assms(3-)
proof (induction j arbitrary: a k n lg)
  case 0
  then show ?case by (simp add: max_def)
next
  case (Suc j)
  have a: "a < length rows"
    using Suc.prems(5) by simp
  have split: "take (Suc j) (drop a rows) = rows ! a # take j (drop (Suc a) rows)"
    using a by (simp add: Cons_nth_drop_Suc[symmetric])
  have row: "mu_source_id (fst (rows ! a)) = s" "mu_sequence (fst (rows ! a)) = int a + 1"
    "mu_source_epoch (fst (rows ! a)) = source_epoch s src" "good_row cd (rows ! a)"
    using rows_of_source[OF nth_mem[OF a[unfolded rows_def]]] nth_mem[OF a] complete_journalD(3)[OF c]
      complete_journalD(5,7)[OF c] a unfolding rows_def
    by (simp_all add: list_all_iff)
  show ?case
  proof (cases "a < k")
    case True
    then have "rows ! a \<in> set (rows_of s lg)"
      using Suc.prems(2) a by (auto simp: in_set_conv_nth intro!: exI[of _ a])
    then have mem: "rows ! a \<in> set lg"
      by (auto simp: rows_of_def)
    obtain p where p: "row_at lg s (int a + 1) = Some p"
      using mem row(1,2) by (cases "row_at lg s (int a + 1)") (auto simp: row_at_None)
    then have "p = rows ! a"
      using row_at_Some[OF p] mem row(1,2) Suc.prems(1) by (intro unique_row) (auto simp: ok_log_def)
    then have at: "row_at lg s (int a + 1) = Some (rows ! a)"
      using p by simp
    have "max (int k + 1) (int a + 1 + 1) = int k + 1"
      using True by simp
    then show ?thesis
      using Suc.IH[of k lg "Suc a" n] Suc.prems True row at
      by (cases "rows ! a") (simp add: split good_row_def)
  next
    case False
    then have ak: "a = k"
      using Suc.prems(3) by simp
    have adv: "\<not> must_advance lg (fst (rows ! a))"
      unfolding not_must_advance
    proof (intro ballI impI)
      fix q assume q: "q \<in> set lg" "same_entity (fst q) (fst (rows ! a))"
      then have "q \<in> set (rows_of s lg)"
        using row(1) by (simp add: rows_of_def same_entity_def)
      then have "q \<in> set (take k rows)"
        unfolding Suc.prems(2) .
      then obtain i where "i < k" "q = rows ! i"
        using Suc.prems(4) by (auto simp: in_set_conv_nth)
      moreover have "sorted_wrt row_before rows"
        using rows_ordered[OF complete_journalD(1)[OF c]] rows_def by simp
      ultimately have "row_before q (rows ! a)"
        using a ak by (simp add: sorted_wrt_iff_nth_less)
      then show "mu_version (fst q) < mu_version (fst (rows ! a))"
        using q(2) by (simp add: row_before_def same_entity_def)
    qed
    have wf: "wf_mutation cd (fst (rows ! a))"
      using row(4) by (simp add: good_row_def)
    have seq: "mu_sequence (fst (rows ! a)) = int k + 1"
      using row(2) ak by simp
    note ins = insert_at_cursor[OF Suc.prems(1) row(1) seq adv wf, unfolded good_row_stored[OF row(4)]]
    have none: "row_at lg s (int k + 1) = None"
      using Suc.prems(1) by (auto simp: row_at_None ok_log_def list_all_iff)
    have rows': "rows_of s (lg @ [rows ! a]) = take (Suc k) rows"
      using Suc.prems(2) row(1) a ak by (simp add: rows_of_def take_Suc_conv_app_nth)
    have "apply_loop cd (source_epoch s src) (int (Suc k) + 1) (n + 1) (map fst (take j (drop (Suc a) rows))) (lg @ [rows ! a])
        = Inr (int (max (Suc k) (Suc a + j)) + 1, n + 1 + int (max (Suc k) (Suc a + j) - Suc k),
            (lg @ [rows ! a]) @ drop (Suc k) (take (Suc a + j) rows))"
      using ins(2) rows' Suc.prems ak a by (intro Suc.IH) (simp_all add: add.commute)
    moreover have "rows ! a # drop (Suc k) (take (Suc a + j) rows) = drop k (take (Suc a + j) rows)"
      using a ak by (simp add: Cons_nth_drop_Suc[symmetric, of k "take (Suc (k + j)) rows"])
    ultimately show ?thesis
      using none row seq adv ins(1) unfolding ak by (simp add: split[unfolded ak] max_def ac_simps)
  qed
qed

lemma apply_page:
  assumes c: "complete_journal cd s own src" and m: "mirrors cd s sc src dst k" and sv: "serves s own sc"
    and l: "1 \<le> l" "l \<le> 1024" and a: "a \<le> k"
  defines "k' \<equiv> max k (a + length (take l (drop a (rows_of s (md_log src)))))"
  shows "\<exists>dst'. journal_apply cd sc (journal_page s src a l) dst = Inr (int (k' - k), dst') \<and> mirrors cd s sc src dst' k'"
proof -
  let ?rows = "rows_of s (md_log src)"
  let ?b = "journal_page s src a l"
  let ?j = "length (take l (drop a ?rows))"
  have k: "k \<le> length ?rows" "a + ?j \<le> length ?rows" "k' \<le> length ?rows"
    using m a by (auto simp: mirrors_def k'_def)
  have sent: "mb_records ?b = map fst (take ?j (drop a ?rows))" "mb_source_id ?b = s" "mb_source_epoch ?b = source_epoch s src"
    by (simp_all add: journal_page_def Let_def min_def)
  have wf: "wf_batch cd ?b"
    using complete_journalD(7)[OF c] k(1) a
    by (intro mk_batch_wf[OF mk_page[OF c l]])
      (auto simp: sent list_all_iff good_row_def dest!: in_set_takeD in_set_dropD)
  have scope: "batch_in_scope sc ?b = Inr ()"
  proof (cases sc)
    case (Some p)
    then have own: "own = Some p" "validate_source s own = Inr ()"
      using sv by (auto simp: serves_def)
    have "\<not> list_ex (\<lambda>r. mu_project r \<noteq> p) (mb_records ?b)"
      using complete_journalD(4)[OF c] own(1)
      by (auto simp: sent list_ex_iff list_all_iff dest!: in_set_takeD in_set_dropD)
    then show ?thesis
      using Some own l by (simp add: batch_in_scope_def sent(1,2))
  qed (use l in \<open>simp add: batch_in_scope_def sent(1)\<close>)
  obtain db1 where adm: "admit_batch sc ?b dst = Inr (source_epoch s src, int k + 1, db1)"
    using m by (auto simp: admit_batch_def mirrors_def sent split: option.splits)
  have inv: "journal_inv cd dst"
    using m by (simp add: mirrors_def)
  obtain row where row: "journal_inv cd db1" "map_of (md_meta db1) s = Some row" "me_next row = int k + 1"
    "me_epoch row = source_epoch s src" "md_log db1 = md_log dst" "meta_ok row" "me_scope row = sc"
    using admit_inv[OF adm inv wf] sent by metis
  have ok: "ok_log cd s (int k + 1) (md_log dst)"
    using inv_ok_log[OF row(1,2)] row(3,5) by simp
  have mir: "rows_of s (md_log dst) = take k ?rows"
    using m by (simp add: mirrors_def)
  let ?lg = "md_log dst @ drop k (take (a + ?j) ?rows)"
  have loop: "apply_loop cd (source_epoch s src) (int k + 1) 0 (mb_records ?b) (md_log db1) = Inr (int k' + 1, int (k' - k), ?lg)"
    using apply_loop_page[OF c refl ok mir a k(1,2), of 0] by (simp add: sent row(5) k'_def)
  have "int k' + 1 \<le> max_int63"
    using complete_journalD(6)[OF c] k(3) by (auto simp: meta_ok_def)
  then have "set_next s (int k' + 1) (db1\<lparr>md_log := ?lg\<rparr>)
      = Inr (db1\<lparr>md_log := ?lg, md_meta := AList.update s (row\<lparr>me_next := int k' + 1\<rparr>) (md_meta db1)\<rparr>)"
    using row(2) by (simp add: set_next_def)
  then have app: "journal_apply cd sc ?b dst = Inr (int (k' - k),
      db1\<lparr>md_log := ?lg, md_meta := AList.update s (row\<lparr>me_next := int k' + 1\<rparr>) (md_meta db1)\<rparr>)"
    using scope adm loop by (simp add: journal_apply_def sent(2))
  have "rows_of s (drop k (take (a + ?j) ?rows)) = drop k (take (a + ?j) ?rows)"
    unfolding rows_of_def filter_id_conv by (auto dest!: in_set_takeD in_set_dropD)
  moreover have "take k ?rows @ drop k (take (a + ?j) ?rows) = take k' ?rows"
  proof (cases "a + ?j \<le> k")
    case True
    then show ?thesis by (simp add: k'_def max_def)
  next
    case False
    then have "take k (take (a + ?j) ?rows) = take k ?rows"
      by (simp add: min_def)
    then show ?thesis
      using False append_take_drop_id[of k "take (a + ?j) ?rows"] by (simp add: k'_def max_def)
  qed
  ultimately have "rows_of s ?lg = take k' ?rows"
    using mir by (simp add: rows_of_def)
  then show ?thesis
    using app journal_apply_inv[OF app inv wf] row k(3) by (auto simp: mirrors_def dict_simps)
qed

text \<open>
  A replica follows its source. Take a journal that was only appended to and a replica that holds the
  first \<open>k\<close> of its records. Exporting a page after any sequence the replica already has succeeds, and
  applying it succeeds; the replica then holds the records up to the end of the page (or what it had, if
  that was more), and the count it reports is exactly the number of records that were new to it.
\<close>

theorem replica_follows_source:
  assumes "complete_journal cd s own src" "mirrors cd s sc src dst k" "serves s own sc"
    and "1 \<le> l" "l \<le> 1024" "a \<le> k"
  shows "\<exists>b dst'. journal_export cd s own (int a) (int l) None src = Inr b
    \<and> journal_apply cd sc b dst = Inr (int (max k (a + length (mb_records b)) - k), dst')
    \<and> mirrors cd s sc src dst' (max k (a + length (mb_records b)))"
proof -
  have "k \<le> length (rows_of s (md_log src))"
    using assms(2) by (simp add: mirrors_def)
  then have "journal_export cd s own (int a) (int l) None src = Inr (journal_page s src a l)"
    using assms by (intro export_page) auto
  moreover have "length (mb_records (journal_page s src a l)) = length (take l (drop a (rows_of s (md_log src))))"
    by (simp add: journal_page_def Let_def)
  ultimately show ?thesis
    using apply_page[OF assms] by metis
qed

section \<open>A concrete journal\<close>

definition demo_db0 :: memdb where
  "demo_db0 = \<lparr>md_meta = [(''node-a'', \<lparr>me_epoch = 1, me_next = 1, me_scope = Some ''proj''\<rparr>)], md_log = []\<rparr>"

definition demo_db2 :: memdb where
  "demo_db2 = \<lparr>md_meta = [(''node-a'', \<lparr>me_epoch = 1, me_next = 3, me_scope = Some ''proj''\<rparr>)],
     md_log = map (stored_row demo_codec) [demo_mutation 1, demo_mutation 2]\<rparr>"

lemma demo_valid: "validate_source ''node-a'' (Some ''proj'') = Inr ()"
  using demo_identities by (simp add: validate_source_def mr_identity_def mr_project_def)

lemma demo_open: "mk_mem_journal ''node-a'' (Some ''proj'') empty_memdb = Inr demo_db0"
  using demo_valid by (simp add: mk_mem_journal_def ensure_source_def empty_memdb_def demo_db0_def)

lemma demo_append: "journal_append demo_codec ''node-a'' (Some ''proj'') [demo_mutation 1, demo_mutation 2] demo_db0 = Inr (2, demo_db2)"
  using demo_valid
  by (simp add: journal_append_def ensure_source_def demo_db0_def demo_db2_def set_next_def stored_row_def demo_mutation_def
     insert_mutation_def row_at_def must_advance_def versions_of_def same_entity_def entity_key_def)

lemma demo_prune: "prune_before 900 ''node-a'' 3 True 10 demo_db2 = Inr (1, demo_db2\<lparr>md_log := [stored_row demo_codec (demo_mutation 2)]\<rparr>)"
  by (simp add: prune_before_def demo_db2_def prunable_def delete_rows_def protected_row_def stored_row_def demo_mutation_def newest_def
    same_entity_def entity_key_def)

theorem prune_keeps_latest_witness:
  "\<exists>db'. prune_before 900 ''node-a'' 3 True 10 demo_db2 = Inr (1, db')
    \<and> journal_latest demo_codec ''node-a'' None None False 10 db' = journal_latest demo_codec ''node-a'' None None False 10 demo_db2"
proof -
  have "journal_step demo_codec empty_memdb (JOpen ''node-a'' (Some ''proj'')) demo_db0"
    "journal_step demo_codec demo_db0 (JAppend ''node-a'' (Some ''proj'') [demo_mutation 1, demo_mutation 2]) demo_db2"
    using demo_open demo_append demo_mutation_wf by (auto simp: journal_step_def)
  then have "run_of (journal_step demo_codec) empty_memdb
      [JOpen ''node-a'' (Some ''proj''), JAppend ''node-a'' (Some ''proj'') [demo_mutation 1, demo_mutation 2]] demo_db2"
    by (auto intro: run_of.intros)
  from prune_keeps_latest[OF this demo_prune] show ?thesis
    using demo_prune by blast
qed

lemma demo_complete: "complete_journal demo_codec ''node-a'' (Some ''proj'') demo_db2"
  using complete_append[OF complete_open[OF demo_open] demo_append] demo_mutation_wf by simp

theorem replica_follows_source_witness:
  "\<exists>b dst'. journal_export demo_codec ''node-a'' (Some ''proj'') 0 10 None demo_db2 = Inr b
    \<and> journal_apply demo_codec None b empty_memdb = Inr (int (length (mb_records b)), dst')
    \<and> mirrors demo_codec ''node-a'' None demo_db2 dst' (length (mb_records b))"
proof -
  have "mirrors demo_codec ''node-a'' None demo_db2 empty_memdb 0"
    using empty_memdb_inv by (simp add: mirrors_def empty_memdb_def rows_of_def)
  from replica_follows_source[OF demo_complete this, of 10 0] show ?thesis
    by (simp add: serves_def)
qed

end
