(* ===== verification/MemoryReplication.thy ===== *)
theory MemoryReplication
  imports MemoryJournal "HOL-Library.Sublist"
begin

text \<open>
  \<^verbatim>\<open>application/memory/replication.py\<close>: the coordinator that sends one exported page to its configured
  replicas and counts matching receipts, the sink that applies a page to a SQLite journal, and the
  receiver that authenticates a peer. A replica is reached through a link that may be down or may lose
  the answer after the page was applied.
\<close>

section \<open>Outcomes\<close>

record mem_outcome =
  oc_source_id :: string
  oc_source_epoch :: int
  oc_after :: int
  oc_next :: int
  oc_digest :: string
  oc_status :: string
  oc_inserted :: int
  oc_replicas :: "string list"
  oc_failed :: "string list"
  oc_reasons :: "(string \<times> string) list"

definition mr_error :: "string \<Rightarrow> 'a res" where
  "mr_error message = Inl (MemoryReplicationError message)"

definition check_outcome :: "mem_outcome \<Rightarrow> mem_outcome res" where
  \<comment> \<open>\<^verbatim>\<open>MemoryReplicationOutcome.__post_init__\<close>\<close>
  "check_outcome oc =
     rbind (mr_identity (JStr (oc_source_id oc)) ''source_id'') (\<lambda>_.
       if oc_source_epoch oc < 1 then mr_error ''source_epoch must be a positive integer''
       else if oc_after oc < 0 then mr_error ''after_sequence must be a non-negative integer''
       else if oc_next oc < 0 then mr_error ''next_sequence must be a non-negative integer''
       else if \<not> digest_match (oc_digest oc) then mr_error ''batch_digest must be a SHA-256 digest''
       else if oc_status oc \<notin> {''empty'', ''replicated'', ''pending''} then mr_error ''replication status is unsupported''
       else if oc_inserted oc < 0 then mr_error ''inserted_records must be a non-negative integer''
       else if \<not> list_all identity_match (oc_replicas oc)
       then mr_error ''replica identity must be a bounded stable identity''
       else if \<not> list_all identity_match (oc_failed oc)
       then mr_error ''failed replica identity must be a bounded stable identity''
       else if filter (\<lambda>r. \<not> identity_match (fst r) \<or> \<not> identity_match (snd r)) (oc_reasons oc) \<noteq> []
       then (if \<not> identity_match (fst (hd (filter (\<lambda>r. \<not> identity_match (fst r) \<or> \<not> identity_match (snd r)) (oc_reasons oc))))
             then mr_error ''failed replica identity must be a bounded stable identity''
             else mr_error ''failure reason must be a bounded stable identity'')
       else if oc_replicas oc = [] \<or> hd (oc_replicas oc) \<noteq> oc_source_id oc
       then mr_error ''source must lead replica evidence''
       else if \<not> distinct (oc_replicas oc) then mr_error ''durable replica identities must be unique''
       else if \<not> distinct (oc_failed oc) then mr_error ''failed replica identities must be unique''
       else if map fst (oc_reasons oc) \<noteq> oc_failed oc
       then mr_error ''failure reasons must cover failed replicas in order''
       else if set (oc_replicas oc) \<inter> set (oc_failed oc) \<noteq> {}
       then mr_error ''replica cannot be both durable and failed''
       else Inr oc)"

section \<open>Coordinator\<close>

record coordinator =
  co_source_id :: string
  co_sinks :: "string list"
  co_minimum :: int
  co_limit :: int
  co_project :: "string option"

fun check_sinks :: "string \<Rightarrow> string list \<Rightarrow> string list \<Rightarrow> unit res" where
  "check_sinks source seen [] = Inr ()"
| "check_sinks source seen (i # is) =
     rbind (mr_identity (JStr i) ''replica identity'') (\<lambda>_.
       if i = source then mr_error ''source cannot also be a replica sink''
       else if i \<in> set seen then mr_error ''replica identities must be unique''
       else check_sinks source (seen @ [i]) is)"

definition mk_coordinator ::
  "string \<Rightarrow> string list \<Rightarrow> int \<Rightarrow> int \<Rightarrow> string option \<Rightarrow> coordinator res" where
  "mk_coordinator source sinks minimum limit project =
     rbind (mr_identity (JStr source) ''source_id'') (\<lambda>_.
       if 64 < length sinks then mr_error ''sinks must contain 0..64 replicas''
       else rbind (check_sinks source [] sinks) (\<lambda>_.
         if \<not> (1 \<le> minimum \<and> minimum \<le> int (length sinks) + 1)
         then mr_error ''minimum_data_replicas exceeds configured replicas''
         else if \<not> (1 \<le> limit \<and> limit \<le> 1024) then mr_error ''limit must be within 1..1024''
         else if project = Some [] then mr_error ''project must be a non-empty scope''
         else Inr \<lparr>co_source_id = source, co_sinks = sinks, co_minimum = minimum, co_limit = limit,
                   co_project = project\<rparr>))"

definition receipt_failure :: "codec \<Rightarrow> mem_batch \<Rightarrow> string \<Rightarrow> mem_receipt option \<Rightarrow> string option" where
  \<comment> \<open>\<open>None\<close> for the receipt is an answer of another type\<close>
  "receipt_failure cd b identity receipt =
     (case receipt of
        None \<Rightarrow> Some ''invalid_receipt''
      | Some r \<Rightarrow>
          if rc_replica_id r \<noteq> identity then Some ''receipt_identity_mismatch''
          else if rc_source_id r \<noteq> mb_source_id b then Some ''receipt_source_mismatch''
          else if rc_source_epoch r \<noteq> mb_source_epoch b then Some ''receipt_epoch_mismatch''
          else if rc_next_sequence r \<noteq> mb_next_sequence b then Some ''receipt_sequence_mismatch''
          else if rc_batch_digest r \<noteq> batch_digest cd b then Some ''receipt_digest_mismatch''
          else if \<not> rc_durable r then Some ''receipt_not_durable''
          else if int (length (mb_records b)) < rc_inserted r then Some ''receipt_inserted_count_mismatch''
          else None)"

type_synonym 'w deliverer = "string \<Rightarrow> mem_batch \<Rightarrow> 'w \<Rightarrow> mem_receipt option res \<times> 'w"

fun deliver_all ::
  "codec \<Rightarrow> (string \<Rightarrow> bool) \<Rightarrow> 'w deliverer \<Rightarrow> mem_batch \<Rightarrow> string list \<Rightarrow> 'w
   \<Rightarrow> string list \<times> (string \<times> string) list \<times> int \<times> 'w" where
  \<comment> \<open>\<open>named i\<close>: the sink still carries the identity it was configured with\<close>
  "deliver_all cd named deliver b [] w = ([], [], 0, w)"
| "deliver_all cd named deliver b (i # is) w =
     (if \<not> named i then
        let (durable, reasons, n, w') = deliver_all cd named deliver b is w
        in (durable, (i, ''sink_identity_changed'') # reasons, n, w')
      else case deliver i b w of
          (Inl _, w1) \<Rightarrow>
            let (durable, reasons, n, w') = deliver_all cd named deliver b is w1
            in (durable, (i, ''sink_failure'') # reasons, n, w')
        | (Inr receipt, w1) \<Rightarrow>
            let (durable, reasons, n, w') = deliver_all cd named deliver b is w1
            in (case receipt_failure cd b i receipt of
                  Some reason \<Rightarrow> (durable, (i, reason) # reasons, n, w')
                | None \<Rightarrow> (i # durable, reasons,
                           (case receipt of Some r \<Rightarrow> rc_inserted r | None \<Rightarrow> 0) + n, w')))"

definition replicate_page ::
  "codec \<Rightarrow> coordinator \<Rightarrow> (int \<Rightarrow> int \<Rightarrow> string option \<Rightarrow> mem_batch res) \<Rightarrow> (string \<Rightarrow> bool) \<Rightarrow> 'w deliverer
   \<Rightarrow> int \<Rightarrow> 'w \<Rightarrow> mem_outcome res \<times> 'w" where
  "replicate_page cd co export named deliver after w =
     (if after < 0 then (mr_error ''after_sequence must be a non-negative integer'', w)
      else case export after (co_limit co) (co_project co) of
        Inl e \<Rightarrow> (Inl e, w)
      | Inr b \<Rightarrow>
          if mb_source_id b \<noteq> co_source_id co
          then (mr_error ''source export identity does not match source'', w)
          else if mb_after_sequence b \<noteq> after
          then (mr_error ''source export cursor does not match request'', w)
          else if co_limit co < int (length (mb_records b))
          then (mr_error ''source export exceeds coordinator batch limit'', w)
          else
            let (durable, reasons, n, w') =
                  (if mb_records b = [] then ([], [], 0, w)
                   else deliver_all cd named deliver b (co_sinks co) w);
                replicas = mb_source_id b # durable
            in (check_outcome
                 \<lparr>oc_source_id = mb_source_id b, oc_source_epoch = mb_source_epoch b,
                  oc_after = mb_after_sequence b, oc_next = mb_next_sequence b,
                  oc_digest = batch_digest cd b,
                  oc_status = (if mb_records b = [] then ''empty''
                               else if co_minimum co \<le> int (length replicas) then ''replicated'' else ''pending''),
                  oc_inserted = n, oc_replicas = replicas, oc_failed = map fst reasons, oc_reasons = reasons\<rparr>,
                w'))"

section \<open>Journal sinks behind links\<close>

text \<open>
  A peer as the coordinator reaches it. Beside its journal it has the bounds that a page meets on its way: the
  bytes of a request (the smaller of the client's and the receiver's bound) and, when the receiver feeds the
  fact sink, what that sink accepts at all. A link that is down also stands for a peer that refuses a page without
  effect for a reason outside the model, such as the projection onto its facts table.
\<close>

record node =
  nd_scope :: "string option"
  nd_max_bytes :: int
  nd_fact_sink :: "nat option"
  nd_db :: memdb

datatype link = LinkUp | LinkDown | ReplyLost

definition batch_payload :: "codec \<Rightarrow> mem_batch \<Rightarrow> json" where
  "batch_payload cd b = JObj [(''object'', JStr ''memory_replication_batch''), (''batch'', batch_as_dict cd b)]"

definition fact_sink_accepts :: "string option \<Rightarrow> nat \<Rightarrow> mem_batch \<Rightarrow> bool" where
  \<comment> \<open>the checks of \<^verbatim>\<open>SQLiteFactReplicationSink.apply\<close> before its transaction\<close>
  "fact_sink_accepts scope max_records b =
     (mb_records b \<noteq> [] \<and> length (mb_records b) \<le> max_records
      \<and> list_all (\<lambda>m. mu_entity_kind m = ''fact'' \<and> Some (mu_project m) = scope) (mb_records b))"

definition page_admitted :: "codec \<Rightarrow> node \<Rightarrow> mem_batch \<Rightarrow> bool" where
  "page_admitted cd nd b =
     (int (cd_len cd (canon (batch_payload cd b))) \<le> nd_max_bytes nd
      \<and> (case nd_fact_sink nd of None \<Rightarrow> True | Some m \<Rightarrow> fact_sink_accepts (nd_scope nd) m b))"

definition sink_apply ::
  "codec \<Rightarrow> string \<Rightarrow> string option \<Rightarrow> mem_batch \<Rightarrow> memdb \<Rightarrow> mem_receipt res \<times> memdb" where
  \<comment> \<open>\<^verbatim>\<open>SQLiteMemoryReplicationSink.apply\<close>: the receipt is made after the journal committed\<close>
  "sink_apply cd identity scope b db =
     (case journal_apply cd scope b db of
        Inl e \<Rightarrow> (Inl e, db)
      | Inr (n, db') \<Rightarrow>
          (mk_receipt (JStr identity) (JStr (mb_source_id b)) (JInt (mb_source_epoch b)) (JInt (mb_next_sequence b))
             (JStr (batch_digest cd b)) (JBool True) (JInt n), db'))"

definition node_deliver :: "codec \<Rightarrow> (string \<Rightarrow> link) \<Rightarrow> (string \<Rightarrow> node) deliverer" where
  "node_deliver cd links i b w =
     (if links i = LinkDown \<or> \<not> page_admitted cd (w i) b then (Inl (DependencyUnavailable ''peer refused''), w)
      else let (r, db') = sink_apply cd i (nd_scope (w i)) b (nd_db (w i))
           in (if links i = ReplyLost then Inl (OSError ''timed out'') else map_sum id Some r,
               w(i := (w i)\<lparr>nd_db := db'\<rparr>)))"

section \<open>Receiver\<close>

record receiver =
  rv_identity :: string
  rv_api_key :: string
  rv_accepted :: "string list"
  rv_max_body :: int

definition printable :: "char \<Rightarrow> bool" where
  "printable c = (0x21 \<le> (of_char c :: nat) \<and> (of_char c :: nat) \<le> 0x7E)"

definition mk_receiver :: "string \<Rightarrow> string \<Rightarrow> string list \<Rightarrow> int \<Rightarrow> receiver res" where
  "mk_receiver identity api_key accepted max_body_bytes =
     rbind (mr_identity (JStr identity) ''replica identity'') (\<lambda>_.
       if \<not> (1 \<le> length api_key \<and> length api_key \<le> 512)
       then Inl (ValueError ''memory replication API key must be 1..512 characters'')
       else if \<not> list_all printable api_key
       then Inl (ValueError ''memory replication API key must contain printable ASCII'')
       else if \<not> (1 \<le> length accepted \<and> length accepted \<le> 64)
       then Inl (ValueError ''accepted_source_ids must contain 1..64 identities'')
       else rbind (mapr (\<lambda>i. mr_identity (JStr i) ''accepted source identity'') accepted) (\<lambda>normalized.
         if \<not> distinct normalized then Inl (ValueError ''accepted_source_ids must not contain duplicates'')
         else if identity \<in> set normalized then Inl (ValueError ''receiver identity cannot be an accepted source'')
         else if \<not> (1024 \<le> max_body_bytes \<and> max_body_bytes \<le> 67108864)
         then Inl (ValueError ''memory replication body bound must be within 1024..67108864 bytes'')
         else Inr \<lparr>rv_identity = identity, rv_api_key = api_key, rv_accepted = normalized,
                   rv_max_body = max_body_bytes\<rparr>))"

definition ascii_text :: "string \<Rightarrow> bool" where
  "ascii_text s = list_all (\<lambda>c. (of_char c :: nat) < 128) s"

definition authorize :: "receiver \<Rightarrow> string \<Rightarrow> unit res" where
  \<comment> \<open>\<^verbatim>\<open>hmac.compare_digest\<close> of two texts refuses text that is not ASCII\<close>
  "authorize rv authorization =
     (if 520 < length authorization then Inl (PermissionError ''memory replication authentication is required'')
      else if \<not> ascii_text authorization
      then Inl (TypeError ''comparing strings with non-ASCII characters is not supported'')
      else if authorization \<noteq> ''Bearer '' @ rv_api_key rv
      then Inl (PermissionError ''memory replication authentication is required'')
      else Inr ())"

definition parse_envelope :: "codec \<Rightarrow> json \<Rightarrow> mem_batch res" where
  "parse_envelope cd payload =
     (case payload of
        JObj d \<Rightarrow>
          if fst ` set d \<noteq> {''object'', ''batch''} \<or> wire_get d ''object'' \<noteq> JStr ''memory_replication_batch''
          then mr_error ''memory replication request envelope is invalid''
          else batch_from_dict cd (wire_get d ''batch'')
      | _ \<Rightarrow> mr_error ''memory replication request envelope is invalid'')"

definition receive ::
  "codec \<Rightarrow> receiver \<Rightarrow> string option \<Rightarrow> string \<Rightarrow> json \<Rightarrow> memdb \<Rightarrow> mem_receipt res \<times> memdb" where
  "receive cd rv scope authorization payload db =
     (case rbind (authorize rv authorization) (\<lambda>_.
           rbind (parse_envelope cd payload) (\<lambda>b.
             if mb_source_id b \<notin> set (rv_accepted rv)
             then Inl (PermissionError ''memory replication source is not accepted'') else Inr b)) of
        Inl e \<Rightarrow> (Inl e, db)
      | Inr b \<Rightarrow>
          (case sink_apply cd (rv_identity rv) scope b db of
             (Inl e, db') \<Rightarrow>
               (Inl (case e of MemoryReplicationError m \<Rightarrow> MemoryReplicationError m
                     | PermissionError m \<Rightarrow> PermissionError m
                     | _ \<Rightarrow> RuntimeError ''memory replication sink is unavailable''), db')
           | (Inr r, db') \<Rightarrow>
               (if receipt_failure cd b (rv_identity rv) (Some r) \<noteq> None
                then mr_error ''memory replication sink receipt does not match the batch'' else Inr r, db')))"

section \<open>What a receipt means\<close>

definition failure_reasons :: "string list" where
  "failure_reasons = [''sink_failure'', ''sink_identity_changed'', ''invalid_receipt'', ''receipt_identity_mismatch'',
     ''receipt_source_mismatch'', ''receipt_epoch_mismatch'', ''receipt_sequence_mismatch'', ''receipt_digest_mismatch'',
     ''receipt_not_durable'', ''receipt_inserted_count_mismatch'']"

lemma receipt_failure_reasons: "receipt_failure cd b i r = Some reason \<Longrightarrow> reason \<in> set failure_reasons"
  by (auto simp: receipt_failure_def failure_reasons_def split: option.splits if_splits)

lemma receipt_inserted: "receipt_failure cd b i (Some r) = None \<Longrightarrow> rc_inserted r \<le> int (length (mb_records b))"
  by (auto simp: receipt_failure_def split: if_splits)

lemma deliver_all_ConsE:
  assumes "deliver_all cd named deliver b (j # js) w = (d, f, n, w')"
  obtains
    (skipped) f1 where "deliver_all cd named deliver b js w = (d, f1, n, w')" "f = (j, ''sink_identity_changed'') # f1"
      "\<not> named j"
  | (failed) answer w1 f1 reason where "deliver j b w = (answer, w1)" "deliver_all cd named deliver b js w1 = (d, f1, n, w')"
      "f = (j, reason) # f1" "\<forall>x. answer = Inr x \<longrightarrow> receipt_failure cd b j x \<noteq> None" "reason \<in> set failure_reasons"
  | (durable) r w1 d1 n1 where "deliver j b w = (Inr r, w1)" "receipt_failure cd b j r = None"
      "deliver_all cd named deliver b js w1 = (d1, f, n1, w')" "d = j # d1"
      "n = (case r of Some r \<Rightarrow> rc_inserted r | None \<Rightarrow> 0) + n1"
proof -
  obtain answer w1 where del: "deliver j b w = (answer, w1)"
    by fastforce
  obtain d1 f1 n1 v1 where skip: "deliver_all cd named deliver b js w = (d1, f1, n1, v1)"
    by (metis prod_cases4)
  obtain d2 f2 n2 v2 where sent: "deliver_all cd named deliver b js w1 = (d2, f2, n2, v2)"
    by (metis prod_cases4)
  show thesis
  proof (cases "named j")
    case False
    then show ?thesis
      using assms skip by (intro skipped[of f1]) auto
  next
    case True
    show ?thesis
    proof (cases answer)
      case (Inl e)
      then show ?thesis
        using assms True del sent by (intro failed[OF del]) (auto simp: failure_reasons_def)
    next
      case (Inr r)
      show ?thesis
      proof (cases "receipt_failure cd b j r")
        case None
        then show ?thesis
          using assms True del Inr sent by (intro durable[of r w1 d2 n2]) auto
      next
        case (Some reason)
        then show ?thesis
          using assms True del Inr sent receipt_failure_reasons by (intro failed[OF del]) auto
      qed
    qed
  qed
qed

text \<open>Every sink ends up on one of the two lists, in the configured order and with a known reason.\<close>

lemma subseq_set: "subseq xs ys \<Longrightarrow> set xs \<subseteq> set ys"
  by (auto dest: list_emb_set)

lemma distinct_subseq: "subseq xs ys \<Longrightarrow> distinct ys \<Longrightarrow> distinct xs"
  using subseqs_distinctD[of xs ys] by simp

lemma deliver_all_partition:
  "deliver_all cd named deliver b js w = (d, f, n, w') \<Longrightarrow>
     subseq d js \<and> subseq (map fst f) js \<and> length d + length f = length js
     \<and> list_all (\<lambda>r. snd r \<in> set failure_reasons) f \<and> n \<le> int (length js) * int (length (mb_records b))
     \<and> (distinct js \<longrightarrow> set d \<inter> fst ` set f = {})"
proof (induction js arbitrary: w d f n w')
  case (Cons j js)
  from Cons.prems show ?case
  proof (cases rule: deliver_all_ConsE)
    case (skipped f1)
    show ?thesis
      using Cons.IH[OF skipped(1)] skipped(2)
      by (auto simp: failure_reasons_def algebra_simps dest: list_emb_set)
  next
    case (failed answer w1 f1 reason)
    show ?thesis
      using Cons.IH[OF failed(2)] failed(3,5) by (auto simp: algebra_simps dest: list_emb_set)
  next
    case (durable r w1 d1 n1)
    then obtain x where x: "r = Some x"
      by (cases r) (auto simp: receipt_failure_def)
    show ?thesis
      using Cons.IH[OF durable(3)] durable(2,4,5) x receipt_inserted[of cd b j x] subseq_set[of "map fst f" js]
      by (auto simp: algebra_simps)
  qed
qed simp

text \<open>
  The contract of a sink: a matching receipt means that the page is stored, and what is stored stays. The
  coordinator's count rests on it.
\<close>

locale replica_sink =
  fixes deliver :: "'w deliverer" and cd :: codec and stored :: "string \<Rightarrow> mem_batch \<Rightarrow> 'w \<Rightarrow> bool"
  assumes receipt_stored: "deliver i b w = (Inr r, w') \<Longrightarrow> receipt_failure cd b i r = None \<Longrightarrow> stored i b w'"
    and stored_stays: "deliver j b' w = (answer, w') \<Longrightarrow> stored i b w \<Longrightarrow> stored i b w'"
begin

lemma stays_all: "deliver_all cd named deliver b' is w = (d, f, n, w') \<Longrightarrow> stored i b w \<Longrightarrow> stored i b w'"
proof (induction "is" arbitrary: w d f n w')
  case (Cons j js)
  from Cons.prems(1) show ?case
    by (cases rule: deliver_all_ConsE) (use Cons stored_stays in blast)+
qed simp

lemma durable_stored:
  "deliver_all cd named deliver b is w = (d, f, n, w') \<Longrightarrow> i \<in> set d \<Longrightarrow> stored i b w' \<and> i \<in> set is"
proof (induction "is" arbitrary: w d f n w')
  case (Cons j js)
  from Cons.prems(1) show ?case
  proof (cases rule: deliver_all_ConsE)
    case (durable r w1 d1 n1)
    then show ?thesis
      using Cons.IH[OF durable(3)] Cons.prems(2) stays_all[OF durable(3)] receipt_stored[OF durable(1,2)] by auto
  qed (use Cons.IH Cons.prems(2) in auto)
qed simp

lemma durable_distinct: "deliver_all cd named deliver b is w = (d, f, n, w') \<Longrightarrow> distinct is \<Longrightarrow> distinct d"
proof (induction "is" arbitrary: w d f n w')
  case (Cons j js)
  from Cons.prems(1) show ?case
  proof (cases rule: deliver_all_ConsE)
    case (durable r w1 d1 n1)
    then show ?thesis
      using Cons.IH[OF durable(3)] Cons.prems(2) durable_stored[OF durable(3)] by auto
  qed (use Cons.IH Cons.prems(2) in auto)
qed simp

end

definition holds_page :: "codec \<Rightarrow> mem_batch \<Rightarrow> log_row list \<Rightarrow> bool" where
  "holds_page cd b lg =
     list_all (\<lambda>r. case row_at lg (mu_source_id r) (mu_sequence r) of
                     None \<Rightarrow> False | Some p \<Rightarrow> snd p = mutation_digest cd r) (mb_records b)"

lemma row_at_append: "row_at lg s q = Some p \<Longrightarrow> row_at (lg @ new) s q = Some p"
  by (induction lg) (auto simp: row_at_def)

lemma row_at_snoc: "row_at lg s q = None \<Longrightarrow> mu_source_id (fst p) = s \<Longrightarrow> mu_sequence (fst p) = q \<Longrightarrow>
    row_at (lg @ [p]) s q = Some p"
  by (induction lg) (auto simp: row_at_def split: if_splits)

definition row_kept :: "codec \<Rightarrow> log_row list \<Rightarrow> mutation \<Rightarrow> bool" where
  "row_kept cd lg r = (\<exists>p. row_at lg (mu_source_id r) (mu_sequence r) = Some p \<and> snd p = mutation_digest cd r)"

lemma holds_page_iff: "holds_page cd b lg \<longleftrightarrow> (\<forall>r\<in>set (mb_records b). row_kept cd lg r)"
  by (auto simp: holds_page_def list_all_iff row_kept_def split: option.splits)

lemma row_kept_append: "row_kept cd lg r \<Longrightarrow> row_kept cd (lg @ new) r"
  unfolding row_kept_def using row_at_append by blast

lemma holds_page_append: "holds_page cd b lg \<Longrightarrow> holds_page cd b (lg @ new)"
  by (simp add: holds_page_iff row_kept_append)

lemma apply_loop_grows:
  "apply_loop cd ep e n rs lg = Inr (e', n', lg') \<Longrightarrow>
    (\<exists>new. lg' = lg @ new) \<and> n' \<le> n + int (length rs) \<and> n \<le> n' \<and> (\<forall>r\<in>set rs. row_kept cd lg' r)"
proof (induction cd ep e n rs lg rule: apply_loop.induct)
  case (2 cd ep e n r rs lg)
  show ?case
  proof (cases "row_at lg (mu_source_id r) (mu_sequence r)")
    case (Some p)
    then have d: "snd p = mutation_digest cd r"
      using "2.prems" by (cases p) (simp split: if_splits)
    then have rec: "apply_loop cd ep (max e (mu_sequence r + 1)) n rs lg = Inr (e', n', lg')"
      using "2.prems" Some by (cases p) simp
    have IH: "(\<exists>new. lg' = lg @ new) \<and> n' \<le> n + int (length rs) \<and> n \<le> n' \<and> (\<forall>r\<in>set rs. row_kept cd lg' r)"
      using "2.IH"(2)[OF Some surjective_pairing[symmetric]] d rec by simp
    moreover have "row_kept cd lg r"
      using Some d by (auto simp: row_kept_def)
    ultimately have "row_kept cd lg' r"
      using row_kept_append by blast
    then show ?thesis
      using IH by auto
  next
    case None
    then have ins: "insert_mutation cd r lg = Inr (lg @ [stored_row cd r])"
      and rec: "apply_loop cd ep (e + 1) (n + 1) rs (lg @ [stored_row cd r]) = Inr (e', n', lg')"
      using "2.prems" by (auto simp: insert_mutation_def split: if_splits)
    have IH: "(\<exists>new. lg' = (lg @ [stored_row cd r]) @ new) \<and> n' \<le> n + 1 + int (length rs) \<and> n + 1 \<le> n'
        \<and> (\<forall>r\<in>set rs. row_kept cd lg' r)"
      using "2.IH"(1)[OF None _ _ _ ins rec] "2.prems" None by (auto split: if_splits)
    moreover have "row_kept cd (lg @ [stored_row cd r]) r"
      using row_at_snoc[OF None, of "stored_row cd r"] by (simp add: row_kept_def)
    ultimately have "row_kept cd lg' r"
      using row_kept_append by blast
    then show ?thesis
      using IH by auto
  qed
qed simp

lemma journal_apply_grows:
  assumes "journal_apply cd sc b db = Inr (n, db')"
  shows "(\<exists>new. md_log db' = md_log db @ new) \<and> holds_page cd b (md_log db') \<and> 0 \<le> n \<and> n \<le> int (length (mb_records b))"
proof -
  obtain epoch expected db1 e lg where "admit_batch sc b db = Inr (epoch, expected, db1)"
    and loop: "apply_loop cd epoch expected 0 (mb_records b) (md_log db1) = Inr (e, n, lg)"
    and "set_next (mb_source_id b) e (db1\<lparr>md_log := lg\<rparr>) = Inr db'"
    using assms by (auto simp: journal_apply_def)
  then have "md_log db1 = md_log db" "md_log db' = lg"
    by (auto simp: admit_batch_def set_next_def split: option.splits if_splits)
  then show ?thesis
    using apply_loop_grows[OF loop] by (simp add: holds_page_iff)
qed

lemma sink_apply_grows:
  assumes "sink_apply cd i sc b db = (r, db')"
  shows "(\<exists>new. md_log db' = md_log db @ new) \<and> (r = Inr x \<longrightarrow> holds_page cd b (md_log db'))"
  using assms journal_apply_grows by (fastforce simp: sink_apply_def split: sum.splits prod.splits)

lemma sink_receipt_matches:
  assumes "codec_ok cd" "identity_match i" "wf_batch cd b" "journal_apply cd sc b db = Inr (n, db')"
  obtains r where "sink_apply cd i sc b db = (Inr r, db')" "receipt_failure cd b i (Some r) = None" "0 \<le> rc_inserted r"
proof -
  have n: "0 \<le> n" "n \<le> int (length (mb_records b))"
    using journal_apply_grows[OF assms(4)] by auto
  have "digest_match (batch_digest cd b)"
    using assms(1) by (simp add: batch_digest_def codec_ok_def)
  moreover have "identity_match (mb_source_id b)" "1 \<le> mb_source_epoch b" "mb_source_epoch b \<le> max_int63"
    "0 \<le> mb_next_sequence b" "mb_next_sequence b \<le> max_int63" "length (mb_records b) \<le> 1024"
    using assms(3) by (auto simp: wf_batch_def mk_batch_def run_simps split: if_splits)
  ultimately have r: "mk_receipt (JStr i) (JStr (mb_source_id b)) (JInt (mb_source_epoch b)) (JInt (mb_next_sequence b))
      (JStr (batch_digest cd b)) (JBool True) (JInt n)
    = Inr \<lparr>rc_replica_id = i, rc_source_id = mb_source_id b, rc_source_epoch = mb_source_epoch b,
           rc_next_sequence = mb_next_sequence b, rc_batch_digest = batch_digest cd b, rc_durable = True, rc_inserted = n\<rparr>"
    using assms(2) n by (simp add: mk_receipt_def run_simps)
  show thesis
    by (rule that) (use assms(4) r n in \<open>auto simp: sink_apply_def receipt_failure_def\<close>)
qed

lemma page_admitted_db [simp]: "page_admitted cd (nd\<lparr>nd_db := db\<rparr>) b = page_admitted cd nd b"
  by (simp add: page_admitted_def split: option.split)

lemma node_deliver_elsewhere: "node_deliver cd links j b w = (answer, w') \<Longrightarrow> i \<noteq> j \<Longrightarrow> w' i = w i"
  by (auto simp: node_deliver_def Let_def split: if_splits prod.splits)

lemma node_deliver_admits:
  "node_deliver cd links j b w = (answer, w') \<Longrightarrow> page_admitted cd (w' i) c = page_admitted cd (w i) c"
  by (cases "i = j") (auto simp: node_deliver_def Let_def split: if_splits prod.splits)

lemma deliver_all_admits:
  "deliver_all cd named (node_deliver cd links) b js w = (d, f, n, w') \<Longrightarrow>
     page_admitted cd (w' i) c = page_admitted cd (w i) c"
proof (induction js arbitrary: w d f n w')
  case (Cons j js)
  from Cons.prems show ?case
    by (cases rule: deliver_all_ConsE) (use Cons.IH node_deliver_admits in blast)+
qed simp

text \<open>A peer that does not admit a page neither counts as holding it nor changes.\<close>

lemma deliver_all_refused:
  "deliver_all cd named (node_deliver cd links) b js w = (d, f, n, w') \<Longrightarrow> \<not> page_admitted cd (w i) b \<Longrightarrow>
     i \<notin> set d \<and> w' i = w i"
proof (induction js arbitrary: w d f n w')
  case (Cons j js)
  have keep: "w1 i = w i \<and> (i = j \<longrightarrow> (\<exists>e. answer = Inl e))" if "node_deliver cd links j b w = (answer, w1)" for answer w1
    using that Cons.prems(2) node_deliver_elsewhere[OF that, of i] by (cases "i = j") (auto simp: node_deliver_def)
  from Cons.prems(1) show ?case
  proof (cases rule: deliver_all_ConsE)
    case (skipped f1)
    then show ?thesis using Cons by blast
  next
    case (failed answer w1 f1 reason)
    then show ?thesis using Cons.IH[OF failed(2)] Cons.prems(2) keep[OF failed(1)] by simp
  next
    case (durable r w1 d1 n1)
    then show ?thesis using Cons.IH[OF durable(3)] Cons.prems(2) keep[OF durable(1)] by auto
  qed
qed simp

interpretation journal_sink: replica_sink "node_deliver cd links" cd "\<lambda>i b w. holds_page cd b (md_log (nd_db (w i)))" for cd links
proof unfold_locales
  fix i b w r w'
  assume "node_deliver cd links i b w = (Inr r, w')"
  then obtain x db' where "sink_apply cd i (nd_scope (w i)) b (nd_db (w i)) = (Inr x, db')" "w' = w(i := (w i)\<lparr>nd_db := db'\<rparr>)"
    by (auto simp: node_deliver_def Let_def split: if_splits prod.splits sum.splits) (metis map_sum.simps(1) sum.exhaust sum.simps(4))
  then show "holds_page cd b (md_log (nd_db (w' i)))"
    using sink_apply_grows[of cd i "nd_scope (w i)" b "nd_db (w i)" "Inr x" db' x] by simp
next
  fix j b' w answer w' i b
  assume del: "node_deliver cd links j b' w = (answer, w')" and old: "holds_page cd b (md_log (nd_db (w i)))"
  show "holds_page cd b (md_log (nd_db (w' i)))"
  proof (cases "links j = LinkDown \<or> \<not> page_admitted cd (w j) b'")
    case True
    then show ?thesis
      using del old by (auto simp: node_deliver_def)
  next
    case False
    obtain r db' where sink: "sink_apply cd j (nd_scope (w j)) b' (nd_db (w j)) = (r, db')"
      by fastforce
    then have "w' = w(j := (w j)\<lparr>nd_db := db'\<rparr>)"
      using del False by (simp add: node_deliver_def)
    moreover obtain new where "md_log db' = md_log (nd_db (w j)) @ new"
      using sink_apply_grows[OF sink] by blast
    ultimately show ?thesis
      using old holds_page_append[of cd b _ new] by (cases "i = j") simp_all
  qed
qed

lemma check_sinks_Inr:
  "check_sinks source seen is = Inr u \<Longrightarrow> distinct seen \<Longrightarrow>
     list_all identity_match is \<and> source \<notin> set is \<and> distinct (seen @ is)"
  by (induction source seen "is" rule: check_sinks.induct) (auto simp: run_simps mr_error_def split: if_splits)

lemma mk_coordinator_Inr:
  assumes "mk_coordinator source sinks minimum limit project = Inr co"
  shows "co = \<lparr>co_source_id = source, co_sinks = sinks, co_minimum = minimum, co_limit = limit, co_project = project\<rparr>"
    "identity_match source" "list_all identity_match sinks" "source \<notin> set sinks" "distinct sinks"
  using assms check_sinks_Inr[of source "[]" sinks]
  by (auto simp: mk_coordinator_def run_simps mr_error_def split: if_splits)

lemma check_outcome_Inr: "check_outcome oc = Inr oc' \<Longrightarrow> oc' = oc \<and> 0 \<le> oc_inserted oc"
  by (auto simp: check_outcome_def mr_error_def run_simps split: if_splits)

lemma replicate_page_Inr:
  assumes "replicate_page cd co export named deliver after w = (Inr oc, w')"
  obtains b d f n where "export after (co_limit co) (co_project co) = Inr b" "mb_source_id b = co_source_id co"
    "(if mb_records b = [] then ([], [], 0, w) else deliver_all cd named deliver b (co_sinks co) w) = (d, f, n, w')"
    "oc = \<lparr>oc_source_id = mb_source_id b, oc_source_epoch = mb_source_epoch b,
           oc_after = mb_after_sequence b, oc_next = mb_next_sequence b, oc_digest = batch_digest cd b,
           oc_status = (if mb_records b = [] then ''empty''
                        else if co_minimum co \<le> int (length (mb_source_id b # d)) then ''replicated'' else ''pending''),
           oc_inserted = n, oc_replicas = mb_source_id b # d, oc_failed = map fst f, oc_reasons = f\<rparr>" "0 \<le> n"
proof -
  obtain b where b: "export after (co_limit co) (co_project co) = Inr b"
    using assms by (cases "export after (co_limit co) (co_project co)") (auto simp: replicate_page_def mr_error_def split: if_splits)
  obtain d f n v where all: "(if mb_records b = [] then ([], [], 0, w) else deliver_all cd named deliver b (co_sinks co) w) = (d, f, n, v)"
    by (metis prod_cases4)
  show thesis
    using assms b all
    by (intro that[OF b]) (auto simp: replicate_page_def mr_error_def simp del: if_split_asm dest: check_outcome_Inr split: if_split_asm)
qed

lemma replicate_page_replicated:
  assumes "replicate_page cd co export named deliver after w = (Inr oc, w')" "oc_status oc = ''replicated''"
  obtains b d f n where "export after (co_limit co) (co_project co) = Inr b" "mb_records b \<noteq> []"
    "oc_next oc = mb_next_sequence b" "co_minimum co \<le> 1 + int (length d)"
    "deliver_all cd named deliver b (co_sinks co) w = (d, f, n, w')"
  using assms(1)
proof (cases rule: replicate_page_Inr)
  case (1 b d f n)
  then show ?thesis
    using assms(2) by (intro that[of b d f n]) (auto split: if_splits)
qed

text \<open>
  A page reported as replicated is replicated: when the coordinator answers that a page was
  replicated, then whichever links failed or lost an answer, the source and at least as many of the
  distinct configured replicas as the minimum asks for hold every record of that page in their journals,
  with its digest.
\<close>

theorem replicated_page_is_held:
  assumes "mk_coordinator source sinks minimum limit project = Inr co"
    and "replicate_page cd co export named (node_deliver cd links) after w = (Inr oc, w')" "oc_status oc = ''replicated''"
  shows "\<exists>b. export after limit project = Inr b \<and> oc_next oc = mb_next_sequence b
    \<and> minimum \<le> 1 + int (length (filter (\<lambda>i. holds_page cd b (md_log (nd_db (w' i)))) sinks))"
proof -
  note co = mk_coordinator_Inr[OF assms(1)]
  obtain b d f n where b: "export after (co_limit co) (co_project co) = Inr b" "mb_records b \<noteq> []"
    "oc_next oc = mb_next_sequence b" and min: "co_minimum co \<le> 1 + int (length d)"
    and all: "deliver_all cd named (node_deliver cd links) b (co_sinks co) w = (d, f, n, w')"
    using assms(2,3) by (rule replicate_page_replicated)
  have "set d \<subseteq> set (filter (\<lambda>i. holds_page cd b (md_log (nd_db (w' i)))) sinks)"
    using journal_sink.durable_stored[OF all] co(1) by auto
  moreover have "distinct d"
    using journal_sink.durable_distinct[OF all] co(1,5) by simp
  ultimately have "length d \<le> length (filter (\<lambda>i. holds_page cd b (md_log (nd_db (w' i)))) sinks)"
    using co(5) by (metis (no_types, lifting) List.finite_set card_mono distinct_card distinct_filter)
  then show ?thesis
    using b min co(1) by auto
qed

section \<open>A concrete replica\<close>

definition demo_replica :: memdb where
  "demo_replica = \<lparr>md_meta = [(''node-a'', \<lparr>me_epoch = 1, me_next = 3, me_scope = None\<rparr>)],
     md_log = map (stored_row demo_codec) [demo_mutation 1, demo_mutation 2]\<rparr>"

lemma demo_journal_apply: "journal_apply demo_codec None demo_batch empty_memdb = Inr (2, demo_replica)"
  by (simp add: journal_apply_def batch_in_scope_def admit_batch_def demo_batch_def demo_replica_def empty_memdb_def set_next_def
      stored_row_def demo_mutation_def insert_mutation_def row_at_def must_advance_def versions_of_def same_entity_def entity_key_def)

definition demo_nodes :: "string \<Rightarrow> node" where
  "demo_nodes i = \<lparr>nd_scope = None, nd_max_bytes = 8388608, nd_fact_sink = None, nd_db = empty_memdb\<rparr>"

theorem replicated_page_is_held_witness:
  "\<exists>co oc w'. mk_coordinator ''node-a'' [''node-b''] 2 10 None = Inr co
    \<and> replicate_page demo_codec co (\<lambda>_ _ _. Inr demo_batch) (\<lambda>_. True) (node_deliver demo_codec (\<lambda>_. LinkUp)) 0 demo_nodes = (Inr oc, w')
    \<and> oc_status oc = ''replicated''
    \<and> 2 \<le> 1 + int (length (filter (\<lambda>i. holds_page demo_codec demo_batch (md_log (nd_db (w' i)))) [''node-b'']))"
proof -
  let ?co = "\<lparr>co_source_id = ''node-a'', co_sinks = [''node-b''], co_minimum = 2, co_limit = 10, co_project = None\<rparr>"
  have co: "mk_coordinator ''node-a'' [''node-b''] 2 10 None = Inr ?co"
    using demo_identities by (simp add: mk_coordinator_def mr_identity_def)
  obtain r where r: "sink_apply demo_codec ''node-b'' None demo_batch empty_memdb = (Inr r, demo_replica)"
    "receipt_failure demo_codec demo_batch ''node-b'' (Some r) = None" "0 \<le> rc_inserted r"
    using sink_receipt_matches[OF demo_codec_ok demo_identities(2) demo_batch_wf demo_journal_apply] by blast
  have "digest_match (batch_digest demo_codec demo_batch)"
    using demo_codec_ok by (simp add: batch_digest_def codec_ok_def)
  moreover have "deliver_all demo_codec (\<lambda>_. True) (node_deliver demo_codec (\<lambda>_. LinkUp)) demo_batch [''node-b''] demo_nodes
      = ([''node-b''], [], rc_inserted r, demo_nodes(''node-b'' := (demo_nodes ''node-b'')\<lparr>nd_db := demo_replica\<rparr>))"
    using r by (simp add: node_deliver_def demo_nodes_def page_admitted_def demo_codec_def)
  moreover have "mb_source_id demo_batch = ''node-a''" "mb_source_epoch demo_batch = 1" "mb_after_sequence demo_batch = 0"
    "length (mb_records demo_batch) = 2" "mb_records demo_batch \<noteq> []" "mb_next_sequence demo_batch = 2"
    by (simp_all add: demo_batch_def)
  ultimately obtain oc w' where run: "replicate_page demo_codec ?co (\<lambda>_ _ _. Inr demo_batch) (\<lambda>_. True)
      (node_deliver demo_codec (\<lambda>_. LinkUp)) 0 demo_nodes = (Inr oc, w')" "oc_status oc = ''replicated''"
    using r(3) demo_identities by (simp add: replicate_page_def check_outcome_def mr_identity_def)
  from replicated_page_is_held[OF co run] show ?thesis
    using co run by auto
qed

end
