(* ===== verification/MemoryPeer.thy ===== *)
theory MemoryPeer
  imports MemoryReplication
begin

text \<open>
  The wire between a coordinator and a remote replica: \<^verbatim>\<open>adapters/memory_replication/http_client.py\<close>, the
  route \<^verbatim>\<open>interfaces/http/memory_replication.py\<close> and \<^verbatim>\<open>receive_bytes\<close> of the receiver. A body is known by
  its length and by what \<^verbatim>\<open>json.loads\<close> makes of it; the length of a written value is an argument. Sockets,
  TLS and the other headers of a response are outside.
\<close>

section \<open>Bodies and requests\<close>

record body =
  bd_length :: nat
  bd_value :: "json option"

definition dumps :: "(json \<Rightarrow> nat) \<Rightarrow> json \<Rightarrow> body" where
  "dumps len v = \<lparr>bd_length = len v, bd_value = Some v\<rparr>"

definition read_body :: "body \<Rightarrow> nat \<Rightarrow> body" where
  \<comment> \<open>\<^verbatim>\<open>rfile.read(n)\<close> of a body that is a JSON object: a proper prefix of it is no JSON\<close>
  "read_body b n = (if bd_length b \<le> n then b else \<lparr>bd_length = n, bd_value = None\<rparr>)"

record request =
  rq_path :: string
  rq_method :: string
  rq_origin :: "string list"
  rq_authorization :: "string list"
  rq_content_type :: "string list"
  rq_content_length :: "string list"
  rq_body :: body

type_synonym response = "int \<times> json"

section \<open>The route\<close>

definition replication_route :: string where
  "replication_route = ''/v1/memory/replication/batches''"

definition single_header :: "string list \<Rightarrow> bool \<Rightarrow> string res" where
  "single_header values required =
     (if 1 < length values \<or> required \<and> values = []
      then Inl (ValueError ''memory replication request headers are invalid'')
      else Inr (case values of [] \<Rightarrow> [] | v # _ \<Rightarrow> v))"

definition receive_bytes ::
  "codec \<Rightarrow> receiver \<Rightarrow> string option \<Rightarrow> string \<Rightarrow> body \<Rightarrow> memdb \<Rightarrow> mem_receipt res \<times> memdb" where
  "receive_bytes cd rv scope authorization bd db =
     (if rv_max_body rv < int (bd_length bd) then (mr_error ''memory replication request exceeds the body bound'', db)
      else case bd_value bd of
        None \<Rightarrow> (mr_error ''memory replication request is not valid JSON'', db)
      | Some payload \<Rightarrow> receive cd rv scope authorization payload db)"

definition error_payload :: "string \<Rightarrow> string option \<Rightarrow> json" where
  "error_payload code message =
     JObj [(''error'', JObj ((''code'', JStr code) # (case message of None \<Rightarrow> [] | Some m \<Rightarrow> [(''message'', JStr m)])))]"

definition failure_response :: "py_exn \<Rightarrow> response" where
  "failure_response e =
     (case e of
        PermissionError m \<Rightarrow> (401, error_payload ''UNAUTHORIZED'' (Some m))
      | ValueError m \<Rightarrow> (400, error_payload ''INVALID_REQUEST'' (Some m))
      | MemoryReplicationError m \<Rightarrow> (400, error_payload ''INVALID_REQUEST'' (Some m))
      | _ \<Rightarrow> (503, error_payload ''MEMORY_REPLICATION_UNAVAILABLE'' None))"

definition receipt_payload :: "codec \<Rightarrow> mem_receipt \<Rightarrow> json" where
  "receipt_payload cd r =
     JObj [(''object'', JStr ''memory_replication_receipt''), (''receipt'', receipt_as_dict cd r)]"

definition read_request :: "receiver \<Rightarrow> request \<Rightarrow> (string \<times> body) res" where
  \<comment> \<open>the headers and the body of a \<^verbatim>\<open>POST\<close>, or the error they are refused with\<close>
  "read_request rv rq =
     rbind (single_header (rq_authorization rq) True) (\<lambda>authorization.
     rbind (single_header (rq_content_type rq) True) (\<lambda>content_type.
       if py_lower content_type \<noteq> ''application/json''
       then Inl (ValueError ''memory replication content type is invalid'')
       else rbind (single_header (rq_content_length rq) True) (\<lambda>content_length.
         if \<not> (1 \<le> length content_length \<and> length content_length \<le> 20 \<and> list_all ascii_digit content_length)
         then Inl (ValueError ''memory replication content length is invalid'')
         else let len = decimal_value content_length in
           if rv_max_body rv < int len
           then Inl (ValueError ''memory replication request exceeds the body bound'')
           else let bd = read_body (rq_body rq) len in
             if bd_length bd \<noteq> len
             then Inl (ValueError ''memory replication request body is incomplete'')
             else Inr (authorization, bd))))"

definition handle_memory_replication ::
  "codec \<Rightarrow> receiver option \<Rightarrow> string option \<Rightarrow> request \<Rightarrow> memdb \<Rightarrow> response option \<times> memdb" where
  \<comment> \<open>\<open>None\<close>: another route\<close>
  "handle_memory_replication cd receiver scope rq db =
     (if rq_path rq \<noteq> replication_route then (None, db)
      else case receiver of
        None \<Rightarrow> (Some (503, error_payload ''MEMORY_REPLICATION_UNAVAILABLE'' None), db)
      | Some rv \<Rightarrow>
          if rq_method rq = ''OPTIONS'' then (Some (204, JObj []), db)
          else if rq_method rq \<noteq> ''POST'' then (Some (405, error_payload ''METHOD_NOT_ALLOWED'' None), db)
          else case single_header (rq_origin rq) False of
              Inl e \<Rightarrow> (Some (failure_response e), db)
            | Inr origin \<Rightarrow>
                if origin \<noteq> [] then (Some (403, error_payload ''ORIGIN_FORBIDDEN'' None), db)
                else case read_request rv rq of
                    Inl e \<Rightarrow> (Some (failure_response e), db)
                  | Inr (authorization, bd) \<Rightarrow>
                      (case receive_bytes cd rv scope authorization bd db of
                         (Inl e, db') \<Rightarrow> (Some (failure_response e), db')
                       | (Inr r, db') \<Rightarrow> (Some (202, receipt_payload cd r), db')))"

section \<open>The client\<close>

record client =
  cl_identity :: string
  cl_api_key :: string
  cl_max_request :: int
  cl_max_response :: int

definition mk_client :: "string \<Rightarrow> string \<Rightarrow> rat \<Rightarrow> int \<Rightarrow> int \<Rightarrow> client res" where
  \<comment> \<open>the checks of the origin need URL parsing and are left out\<close>
  "mk_client identity api_key timeout_seconds max_request max_response =
     (if \<not> identity_match identity then Inl (ValueError ''replica identity must be a bounded stable identity'')
      else if \<not> (1 \<le> length api_key \<and> length api_key \<le> 512)
      then Inl (ValueError ''memory replication API key must be 1..512 characters'')
      else if \<not> list_all printable api_key
      then Inl (ValueError ''memory replication API key must contain printable ASCII'')
      else if \<not> (0 < timeout_seconds \<and> timeout_seconds \<le> 30)
      then Inl (ValueError ''memory replication timeout must be within 0..30 seconds'')
      else if \<not> (1024 \<le> max_request \<and> max_request \<le> 67108864)
      then Inl (ValueError ''memory replication request bound must be within 1024..67108864 bytes'')
      else if \<not> (1024 \<le> max_response \<and> max_response \<le> 1048576)
      then Inl (ValueError ''memory replication response bound must be within 1024..1048576 bytes'')
      else Inr \<lparr>cl_identity = identity, cl_api_key = api_key, cl_max_request = max_request,
                cl_max_response = max_response\<rparr>)"

definition client_request :: "codec \<Rightarrow> (json \<Rightarrow> nat) \<Rightarrow> client \<Rightarrow> mem_batch \<Rightarrow> request" where
  \<comment> \<open>the body is written with sorted keys\<close>
  "client_request cd len cl b =
     (let bd = dumps len (canon (batch_payload cd b)) in
      \<lparr>rq_path = replication_route, rq_method = ''POST'', rq_origin = [],
       rq_authorization = [''Bearer '' @ cl_api_key cl], rq_content_type = [''application/json''],
       rq_content_length = [dec_nat (bd_length bd)], rq_body = bd\<rparr>)"

text \<open>What opening a request yields: an answer, an error status, or a failed transport.\<close>

datatype opened = Answered int body | Refused int | Unreached string

definition unavailable :: "string \<Rightarrow> 'a res" where
  "unavailable message = Inl (DependencyUnavailable message)"

definition check_answer :: "codec \<Rightarrow> client \<Rightarrow> mem_batch \<Rightarrow> body \<Rightarrow> mem_receipt res" where
  "check_answer cd cl b raw =
     (if cl_max_response cl < int (bd_length raw) then unavailable ''memory replication response exceeds size bound''
      else case bd_value raw of
        None \<Rightarrow> unavailable ''memory replication response is not valid JSON''
      | Some (JObj d) \<Rightarrow>
          if fst ` set d \<noteq> {''object'', ''receipt''} \<or> wire_get d ''object'' \<noteq> JStr ''memory_replication_receipt''
          then unavailable ''memory replication response envelope is invalid''
          else (case receipt_from_dict cd (wire_get d ''receipt'') of
                  Inl e \<Rightarrow> (case e of MemoryReplicationError m \<Rightarrow> unavailable m | ValueError m \<Rightarrow> unavailable m
                            | TypeError m \<Rightarrow> unavailable m | _ \<Rightarrow> Inl e)
                | Inr r \<Rightarrow>
                    if rc_replica_id r \<noteq> cl_identity cl then unavailable ''memory replication receipt identity mismatch''
                    else if rc_source_id r \<noteq> mb_source_id b then unavailable ''memory replication receipt source mismatch''
                    else if rc_source_epoch r \<noteq> mb_source_epoch b then unavailable ''memory replication receipt epoch mismatch''
                    else if rc_next_sequence r \<noteq> mb_next_sequence b then unavailable ''memory replication receipt sequence mismatch''
                    else if rc_batch_digest r \<noteq> batch_digest cd b then unavailable ''memory replication receipt digest mismatch''
                    else if \<not> rc_durable r then unavailable ''memory replication receipt is not durable''
                    else if int (length (mb_records b)) < rc_inserted r then unavailable ''memory replication receipt count mismatch''
                    else Inr r)
      | Some _ \<Rightarrow> unavailable ''memory replication response envelope is invalid'')"

definition client_apply ::
  "codec \<Rightarrow> (json \<Rightarrow> nat) \<Rightarrow> client \<Rightarrow> (request \<Rightarrow> 'w \<Rightarrow> opened \<times> 'w) \<Rightarrow> mem_batch \<Rightarrow> 'w \<Rightarrow> mem_receipt res \<times> 'w" where
  "client_apply cd len cl opener b w =
     (if cl_max_request cl < int (len (canon (batch_payload cd b)))
      then (unavailable ''memory replication request bound exceeded'', w)
      else case opener (client_request cd len cl b) w of
          (Unreached name, w') \<Rightarrow> (unavailable (''memory replication request failed: '' @ name), w')
        | (Refused code, w') \<Rightarrow> (unavailable (''memory replication HTTP status '' @ py_str_int code), w')
        | (Answered status raw, w') \<Rightarrow>
            (if 300 \<le> status \<and> status < 400 then unavailable ''memory replication redirect response rejected''
             else if status \<notin> {200, 202} then unavailable (''memory replication HTTP status '' @ py_str_int status)
             else check_answer cd cl b raw, w'))"

definition http_open ::
  "codec \<Rightarrow> (json \<Rightarrow> nat) \<Rightarrow> receiver option \<Rightarrow> string option \<Rightarrow> request \<Rightarrow> memdb \<Rightarrow> opened \<times> memdb" where
  \<comment> \<open>a peer that is reached: \<^verbatim>\<open>urllib\<close> raises \<^verbatim>\<open>HTTPError\<close> for a status outside 200..299\<close>
  "http_open cd len receiver scope rq db =
     (case handle_memory_replication cd receiver scope rq db of
        (None, db') \<Rightarrow> (Refused 404, db')
      | (Some (status, payload), db') \<Rightarrow>
          (if 200 \<le> status \<and> status < 300 then Answered status (dumps len payload) else Refused status, db'))"

section \<open>Reading a page that was written with sorted keys\<close>

lemma sorted_payload_keys: "fst ` set (sorted_payload d) = fst ` set d"
  by (force simp: sorted_payload_def)

lemma map_of_sort_key: "distinct (map fst d) \<Longrightarrow> map_of (sort_key fst d) k = map_of d k"
proof -
  assume d: "distinct (map fst d)"
  then have "distinct (map fst (sort_key fst d))"
    by (simp add: distinct_map)
  then show ?thesis
    using d map_of_eq_None_iff[of "sort_key fst d" k] map_of_eq_None_iff[of d k]
    by (cases "map_of d k") (auto intro: map_of_is_SomeI dest: map_of_SomeD)
qed

lemma wire_get_sorted:
  assumes "distinct (map fst d)"
  shows "wire_get (sorted_payload d) k = canon (wire_get d k)"
proof -
  have "map_of (sorted_payload d) k = map_of (map (map_prod id canon) d) k"
    unfolding sorted_payload_def using assms by (intro map_of_sort_key) (simp add: comp_def)
  also have "\<dots> = map_option canon (map_of d k)"
    by (induction d) auto
  finally show ?thesis
    by (simp add: wire_get_def split: option.splits)
qed

lemma canon_JStr_iff: "canon v = JStr t \<longleftrightarrow> v = JStr t"
  by (cases v) auto

lemma wire_digest_sorted:
  assumes "distinct (map fst d)"
  shows "wire_digest (sorted_payload d) schema label = wire_digest d schema label"
  by (cases "wire_get d ''digest''") (simp_all add: wire_digest_def wire_get_sorted[OF assms] canon_JStr_iff)

lemma canon_JObj: "canon (JObj d) = JObj (sorted_payload d)"
  by (simp add: sorted_payload_def)

lemma require_wire_keys_sorted:
  "require_wire_keys (JObj d) ks label = Inr d \<Longrightarrow> require_wire_keys (canon (JObj d)) ks label = Inr (sorted_payload d)"
  unfolding canon_JObj by (simp add: require_wire_keys_def sorted_payload_keys split: if_splits)

lemma canon_simps: "canon (JStr t) = JStr t" "canon (JInt n) = JInt n" "canon (JBool b) = JBool b" "canon (JArr xs) = JArr (map canon xs)"
  by simp_all

lemma mutation_from_sorted:
  assumes "codec_ok cd" "wf_mutation cd m" "sorted_payload (mu_payload m) = mu_payload m"
  shows "mutation_from_dict cd (canon (mutation_as_dict cd m)) = Inr m"
proof -
  let ?d = "mutation_wire_fields m @ [(''digest'', JStr (mutation_digest cd m))]"
  have d: "distinct (map fst ?d)"
    by (simp add: mutation_wire_fields_def)
  have keys: "require_wire_keys (JObj ?d) [''schema'', ''source_id'', ''source_epoch'', ''sequence'',
      ''entity_kind'', ''entity_id'', ''version'', ''operation'', ''project'', ''payload'', ''recorded_at'',
      ''digest''] ''memory mutation'' = Inr ?d"
    by (simp add: require_wire_keys_def mutation_wire_fields_def)
  have "wire_digest ?d ''sonder.memory-mutation.v1'' ''memory mutation'' = Inr (mutation_digest cd m)"
    using mutation_digest_match[OF assms(1)]
    by (simp add: wire_digest_def wire_get_def mutation_wire_fields_def)
  moreover have "mk_mutation cd (canon (wire_get ?d ''source_id'')) (canon (wire_get ?d ''source_epoch'')) (canon (wire_get ?d ''sequence''))
      (canon (wire_get ?d ''entity_kind'')) (canon (wire_get ?d ''entity_id'')) (canon (wire_get ?d ''version''))
      (canon (wire_get ?d ''operation'')) (canon (wire_get ?d ''project'')) (canon (wire_get ?d ''payload''))
      (canon (wire_get ?d ''recorded_at'')) = Inr m"
    using mk_mutation_again[OF assms(2)] assms(3)
    by (simp add: wire_get_def mutation_wire_fields_def canon_JObj del: canon.simps(7))
  ultimately show ?thesis
    unfolding mutation_from_dict_def mutation_as_dict_def require_wire_keys_sorted[OF keys]
    by (simp add: wire_digest_sorted[OF d] wire_get_sorted[OF d])
qed

lemma batch_from_sorted:
  assumes "codec_ok cd" "wf_batch cd b" "list_all (\<lambda>m. sorted_payload (mu_payload m) = mu_payload m) (mb_records b)"
  shows "batch_from_dict cd (canon (batch_as_dict cd b)) = Inr b"
proof -
  let ?d = "batch_wire_fields cd b @ [(''digest'', JStr (batch_digest cd b))]"
  have d: "distinct (map fst ?d)"
    by (simp add: batch_wire_fields_def)
  have keys: "require_wire_keys (JObj ?d) [''schema'', ''source_id'', ''source_epoch'', ''after_sequence'',
      ''records'', ''next_sequence'', ''has_more'', ''digest''] ''memory replication batch'' = Inr ?d"
    by (simp add: require_wire_keys_def batch_wire_fields_def)
  have digest: "wire_digest ?d ''sonder.memory-replication-batch.v1'' ''memory replication batch'' = Inr (batch_digest cd b)"
    using assms(1) by (simp add: wire_digest_def wire_get_def batch_wire_fields_def batch_digest_def codec_ok_def)
  have get: "canon (wire_get ?d ''records'') = JArr (map canon (map (mutation_as_dict cd) (mb_records b)))"
    "canon (wire_get ?d ''source_id'') = JStr (mb_source_id b)" "canon (wire_get ?d ''source_epoch'') = JInt (mb_source_epoch b)"
    "canon (wire_get ?d ''after_sequence'') = JInt (mb_after_sequence b)" "canon (wire_get ?d ''next_sequence'') = JInt (mb_next_sequence b)"
    "canon (wire_get ?d ''has_more'') = JBool (mb_has_more b)"
    by (simp_all add: wire_get_def batch_wire_fields_def)
  have "mapr (mutation_from_dict cd) (map canon (map (mutation_as_dict cd) rs)) = Inr rs"
    if "list_all (wf_mutation cd) rs" "list_all (\<lambda>m. sorted_payload (mu_payload m) = mu_payload m) rs" for rs
    using that by (induction rs) (simp_all add: mutation_from_sorted[OF assms(1)])
  then have recs: "mapr (mutation_from_dict cd) (map canon (map (mutation_as_dict cd) (mb_records b))) = Inr (mb_records b)"
    using assms(2,3) unfolding wf_batch_def by blast
  have "mk_batch (JStr (mb_source_id b)) (JInt (mb_source_epoch b)) (JInt (mb_after_sequence b)) (mb_records b)
      (JInt (mb_next_sequence b)) (JBool (mb_has_more b)) = Inr b"
    using assms(2) by (simp add: wf_batch_def)
  then show ?thesis
    unfolding batch_from_dict_def batch_as_dict_def require_wire_keys_sorted[OF keys]
    by (simp add: wire_digest_sorted[OF d] wire_get_sorted[OF d] digest get recs del: map_map)
qed

section \<open>The HTTP sink behaves as the journal sink\<close>

lemma parse_sorted:
  assumes "codec_ok cd" "wf_batch cd b" "list_all (\<lambda>m. sorted_payload (mu_payload m) = mu_payload m) (mb_records b)"
  shows "parse_envelope cd (canon (batch_payload cd b)) = Inr b"
proof -
  let ?d = "[(''object'', JStr ''memory_replication_batch''), (''batch'', batch_as_dict cd b)]"
  have "distinct (map fst ?d)"
    by simp
  note get = wire_get_sorted[OF this]
  have "canon (wire_get ?d ''object'') = JStr ''memory_replication_batch''" "canon (wire_get ?d ''batch'') = canon (batch_as_dict cd b)"
    by (simp_all add: wire_get_def)
  then show ?thesis
    unfolding batch_payload_def canon_JObj using batch_from_sorted[OF assms]
    by (simp add: parse_envelope_def sorted_payload_keys get)
qed

lemma mk_receiver_Inr:
  assumes "mk_receiver identity api_key accepted n = Inr rv"
  shows "rv = \<lparr>rv_identity = identity, rv_api_key = api_key, rv_accepted = accepted, rv_max_body = n\<rparr>"
    "identity_match identity" "list_all printable api_key" "length api_key \<le> 512" "n \<le> 67108864"
proof -
  have "mapr (\<lambda>i. mr_identity (JStr i) ''accepted source identity'') xs = Inr ys \<Longrightarrow> ys = xs" for xs ys
    by (induction xs arbitrary: ys) (auto simp: run_simps)
  then show "rv = \<lparr>rv_identity = identity, rv_api_key = api_key, rv_accepted = accepted, rv_max_body = n\<rparr>"
    "identity_match identity" "list_all printable api_key" "length api_key \<le> 512" "n \<le> 67108864"
    using assms by (auto simp: mk_receiver_def run_simps split: if_splits)
qed

lemma authorize_key:
  assumes "list_all printable (rv_api_key rv)" "length (rv_api_key rv) \<le> 512"
  shows "authorize rv (''Bearer '' @ rv_api_key rv) = Inr ()"
proof -
  have "ascii_text (rv_api_key rv)"
    using assms(1) by (auto simp: ascii_text_def printable_def list_all_iff)
  then have "ascii_text (''Bearer '' @ rv_api_key rv)"
    by (simp add: ascii_text_def)
  then show ?thesis
    using assms(2) by (simp add: authorize_def)
qed

text \<open>The status a failing sink is reported with.\<close>

definition failure_status :: "py_exn \<Rightarrow> int" where
  "failure_status e =
     (case e of PermissionError _ \<Rightarrow> 401 | MemoryReplicationError _ \<Rightarrow> 400 | _ \<Rightarrow> 503)"

lemma receive_page:
  assumes "mk_receiver identity key accepted n = Inr rv" "codec_ok cd" "wf_batch cd b"
    and "list_all (\<lambda>m. sorted_payload (mu_payload m) = mu_payload m) (mb_records b)" "mb_source_id b \<in> set accepted"
  shows "receive cd rv scope (''Bearer '' @ key) (canon (batch_payload cd b)) db =
    (case sink_apply cd identity scope b db of
       (Inl e, db') \<Rightarrow> (Inl (case e of MemoryReplicationError m \<Rightarrow> MemoryReplicationError m | PermissionError m \<Rightarrow> PermissionError m
                            | _ \<Rightarrow> RuntimeError ''memory replication sink is unavailable''), db')
     | (Inr r, db') \<Rightarrow> (Inr r, db'))"
proof -
  note rv = mk_receiver_Inr[OF assms(1)]
  have "receipt_failure cd b identity (Some r) = None" if "sink_apply cd identity scope b db = (Inr r, db')" for r db'
  proof (cases "journal_apply cd scope b db")
    case (Inr p)
    then show ?thesis
      using that by (cases p) (auto elim: sink_receipt_matches[OF assms(2) rv(2) assms(3)])
  qed (use that in \<open>simp add: sink_apply_def\<close>)
  then show ?thesis
    using parse_sorted[OF assms(2-4)] authorize_key[of rv] rv assms(5)
    by (auto simp: receive_def split: sum.splits prod.splits)
qed

lemma sink_receipt_accepted:
  assumes "codec_ok cd" "wf_batch cd b" "identity_match identity" "sink_apply cd identity scope b db = (Inr r, db')"
    and "cl_identity cl = identity" "int (rlen (receipt_payload cd r)) \<le> cl_max_response cl"
  shows "check_answer cd cl b (dumps rlen (receipt_payload cd r)) = Inr r"
proof -
  obtain m where "journal_apply cd scope b db = Inr (m, db')"
    and r: "mk_receipt (JStr identity) (JStr (mb_source_id b)) (JInt (mb_source_epoch b)) (JInt (mb_next_sequence b))
      (JStr (batch_digest cd b)) (JBool True) (JInt m) = Inr r"
    using assms(4) by (auto simp: sink_apply_def split: sum.splits prod.splits)
  then have "receipt_failure cd b identity (Some r) = None"
    using assms(4) by (auto elim: sink_receipt_matches[OF assms(1,3,2)])
  moreover have "receipt_from_dict cd (receipt_as_dict cd r) = Inr r"
    by (rule receipt_roundtrip[OF assms(1) r])
  ultimately show ?thesis
    using assms(5,6)
    by (simp add: check_answer_def dumps_def receipt_payload_def wire_get_def receipt_failure_def split: if_splits)
qed

lemma page_handled:
  assumes "mk_receiver identity key accepted n = Inr rv" "cl_api_key cl = key"
    and "codec_ok cd" "wf_batch cd b" "list_all (\<lambda>m. sorted_payload (mu_payload m) = mu_payload m) (mb_records b)"
    and "mb_source_id b \<in> set accepted" "int (len (canon (batch_payload cd b))) \<le> n"
  shows "handle_memory_replication cd (Some rv) scope (client_request cd len cl b) db =
    (case sink_apply cd identity scope b db of
       (Inr r, db') \<Rightarrow> (Some (202, receipt_payload cd r), db')
     | (Inl e, db') \<Rightarrow> (Some (failure_response (case e of MemoryReplicationError m \<Rightarrow> MemoryReplicationError m
             | PermissionError m \<Rightarrow> PermissionError m | _ \<Rightarrow> RuntimeError ''memory replication sink is unavailable'')), db'))"
proof -
  note rv = mk_receiver_Inr[OF assms(1)]
  let ?v = "canon (batch_payload cd b)" and ?rq = "client_request cd len cl b"
  have "len ?v < 10 ^ Suc 19"
    using assms(7) rv(5) by simp
  note digits = dec_nat_length[OF this]
  have json: "py_lower ''application/json'' = ''application/json''"
    by code_simp
  have rd: "read_request rv ?rq = Inr (''Bearer '' @ key, dumps len ?v)"
    using digits assms(2,7) dec_nat_digits[of "len ?v"] rv(1) json
    by (simp add: read_request_def client_request_def single_header_def dumps_def read_body_def Suc_le_eq Let_def)
  have rc: "receive_bytes cd rv scope (''Bearer '' @ key) (dumps len ?v) db = receive cd rv scope (''Bearer '' @ key) ?v db"
    using assms(7) rv(1) by (simp add: receive_bytes_def dumps_def)
  have "rq_path ?rq = replication_route" "rq_method ?rq = ''POST''" "single_header (rq_origin ?rq) False = Inr []"
    by (simp_all add: client_request_def single_header_def Let_def)
  then show ?thesis
    using rd rc receive_page[OF assms(1,3-6), of scope db]
    by (auto simp: handle_memory_replication_def split: sum.splits prod.splits)
qed

lemma page_too_large:
  assumes "mk_receiver identity key accepted n = Inr rv" "n < int (len (canon (batch_payload cd b)))"
    and "int (len (canon (batch_payload cd b))) \<le> 67108864"
  shows "handle_memory_replication cd (Some rv) scope (client_request cd len cl b) db =
    (Some (failure_response (ValueError ''memory replication request exceeds the body bound'')), db)"
proof -
  let ?v = "canon (batch_payload cd b)" and ?rq = "client_request cd len cl b"
  have "len ?v < 10 ^ Suc 19" using assms(3) by simp
  note digits = dec_nat_length[OF this]
  have json: "py_lower ''application/json'' = ''application/json''" by code_simp
  have "read_request rv ?rq = Inl (ValueError ''memory replication request exceeds the body bound'')"
    using digits assms(2) dec_nat_digits[of "len ?v"] mk_receiver_Inr(1)[OF assms(1)] json
    by (simp add: read_request_def client_request_def single_header_def dumps_def Suc_le_eq Let_def)
  moreover have "rq_path ?rq = replication_route" "rq_method ?rq = ''POST''" "single_header (rq_origin ?rq) False = Inr []"
    by (simp_all add: client_request_def single_header_def Let_def)
  ultimately show ?thesis by (simp add: handle_memory_replication_def)
qed

lemma sink_refusal_keeps_journal:
  assumes "codec_ok cd" "wf_batch cd b" "identity_match identity" "sink_apply cd identity scope b db = (Inl e, db')"
  shows "db' = db"
proof (cases "journal_apply cd scope b db")
  case (Inr p)
  then show ?thesis
    using assms(4) by (cases p) (auto elim: sink_receipt_matches[OF assms(1,3,2)])
qed (use assms(4) in \<open>simp add: sink_apply_def\<close>)

text \<open>
  (C22) A remote peer is as good as a local one, within the bounds. Sending an exported page over HTTP to a peer
  that accepts the source, with the right key, is completely described by applying the page to that peer's
  journal: a page over the client's request bound is not sent, one over the receiver's body bound is refused
  with status 400, a page the journal refuses is reported with the status of its error, and in these cases the
  peer's journal is unchanged. A page the journal applies has exactly the same effect there, and the client
  returns exactly the journal sink's receipt, unless the receipt is over the response bound; then the page was
  applied but is reported as failed.
\<close>

theorem http_sink_refines_journal_sink:
  assumes "mk_receiver identity key accepted n = Inr rv" "mk_client identity key t maxq maxr = Inr cl"
    and "codec_ok cd" "wf_batch cd b" "list_all (\<lambda>m. sorted_payload (mu_payload m) = mu_payload m) (mb_records b)"
    and "mb_source_id b \<in> set accepted"
  shows "client_apply cd len cl (http_open cd rlen (Some rv) scope) b db =
    (if maxq < int (len (canon (batch_payload cd b))) then (unavailable ''memory replication request bound exceeded'', db)
     else if n < int (len (canon (batch_payload cd b)))
     then (unavailable (''memory replication HTTP status '' @ py_str_int 400), db)
     else case sink_apply cd identity scope b db of
         (Inr r, db') \<Rightarrow>
           (if maxr < int (rlen (receipt_payload cd r)) then unavailable ''memory replication response exceeds size bound''
            else Inr r, db')
       | (Inl e, _) \<Rightarrow> (unavailable (''memory replication HTTP status '' @ py_str_int (failure_status e)), db))"
proof -
  let ?n = "int (len (canon (batch_payload cd b)))"
  have cl: "cl = \<lparr>cl_identity = identity, cl_api_key = key, cl_max_request = maxq, cl_max_response = maxr\<rparr>" "maxq \<le> 67108864"
    using assms(2) by (auto simp: mk_client_def split: if_splits)
  consider "maxq < ?n" | "?n \<le> maxq" "n < ?n" | "?n \<le> maxq" "?n \<le> n" by linarith
  then show ?thesis
  proof cases
    case 1
    then show ?thesis using cl by (simp add: client_apply_def)
  next
    case 2
    then have "handle_memory_replication cd (Some rv) scope (client_request cd len cl b) db =
      (Some (failure_response (ValueError ''memory replication request exceeds the body bound'')), db)"
      using cl(2) by (intro page_too_large[OF assms(1)]) auto
    then show ?thesis using 2 cl(1) by (simp add: client_apply_def http_open_def failure_response_def)
  next
    case 3
    have handled: "handle_memory_replication cd (Some rv) scope (client_request cd len cl b) db =
      (case sink_apply cd identity scope b db of
         (Inr r, db') \<Rightarrow> (Some (202, receipt_payload cd r), db')
       | (Inl e, db') \<Rightarrow> (Some (failure_response (case e of MemoryReplicationError m \<Rightarrow> MemoryReplicationError m
               | PermissionError m \<Rightarrow> PermissionError m | _ \<Rightarrow> RuntimeError ''memory replication sink is unavailable'')), db'))"
      using cl 3 by (intro page_handled[OF assms(1) _ assms(3-6)]) auto
    note identity = mk_receiver_Inr(2)[OF assms(1)]
    obtain r db' where sink: "sink_apply cd identity scope b db = (r, db')"
      by fastforce
    show ?thesis
    proof (cases r)
      case (Inl e)
      then have "db' = db" using sink_refusal_keeps_journal[OF assms(3,4) identity] sink by blast
      then show ?thesis
        using sink handled 3 cl Inl
        by (cases e) (simp_all add: client_apply_def http_open_def failure_response_def failure_status_def)
    next
      case (Inr x)
      then show ?thesis
        using sink handled 3 cl sink_receipt_accepted[OF assms(3,4) identity, of scope db x db' cl rlen]
        by (auto simp: client_apply_def http_open_def check_answer_def dumps_def)
    qed
  qed
qed

lemma receive_changes:
  assumes "receive cd rv scope authorization payload db = (answer, db')" "db' \<noteq> db"
  shows "authorization = ''Bearer '' @ rv_api_key rv
    \<and> (\<exists>b n. parse_envelope cd payload = Inr b \<and> mb_source_id b \<in> set (rv_accepted rv) \<and> journal_apply cd scope b db = Inr (n, db'))"
proof (cases "authorize rv authorization")
  case (Inl e)
  then show ?thesis
    using assms by (simp add: receive_def)
next
  case ok: (Inr u)
  then have auth: "authorization = ''Bearer '' @ rv_api_key rv"
    by (auto simp: authorize_def split: if_splits)
  show ?thesis
  proof (cases "parse_envelope cd payload")
    case (Inl e)
    then show ?thesis
      using assms ok by (simp add: receive_def)
  next
    case (Inr b)
    then have "mb_source_id b \<in> set (rv_accepted rv)" "snd (sink_apply cd (rv_identity rv) scope b db) = db'"
      using assms ok by (auto simp: receive_def split: if_splits sum.splits prod.splits)
    then show ?thesis
      using auth Inr assms(2) by (auto simp: sink_apply_def split: sum.splits prod.splits)
  qed
qed

text \<open>
  (C23) Only an authentic page changes a replica: when handling a request changed the journal, the request
  was a \<^verbatim>\<open>POST\<close> to the replication route, without an origin, carrying once the header with the receiver's key,
  and its body held a page of an accepted source whose digests are right, which the journal applied.
\<close>

theorem only_authentic_pages_change_the_journal:
  assumes "handle_memory_replication cd receiver scope rq db = (answer, db')" "db' \<noteq> db"
  shows "\<exists>rv payload b n. receiver = Some rv \<and> rq_path rq = replication_route \<and> rq_method rq = ''POST''
    \<and> (rq_origin rq = [] \<or> rq_origin rq = [[]]) \<and> rq_authorization rq = [''Bearer '' @ rv_api_key rv]
    \<and> bd_value (rq_body rq) = Some payload \<and> parse_envelope cd payload = Inr b
    \<and> mb_source_id b \<in> set (rv_accepted rv) \<and> journal_apply cd scope b db = Inr (n, db')"
proof -
  obtain rv origin where rv: "receiver = Some rv" "rq_path rq = replication_route" "rq_method rq = ''POST''"
    "single_header (rq_origin rq) False = Inr origin" "origin = []"
    using assms by (auto simp: handle_memory_replication_def split: if_splits option.splits sum.splits)
  obtain authorization bd where rd: "read_request rv rq = Inr (authorization, bd)"
    using assms rv by (cases "read_request rv rq") (auto simp: handle_memory_replication_def)
  obtain x where "receive_bytes cd rv scope authorization bd db = (x, db')"
    using assms(1) rv rd by (auto simp: handle_memory_replication_def split: prod.splits sum.splits)
  then obtain payload where pl: "bd_value bd = Some payload" "receive cd rv scope authorization payload db = (x, db')"
    using assms(2) by (auto simp: receive_bytes_def split: if_splits option.splits)
  have hd: "single_header (rq_authorization rq) True = Inr authorization" "bd_value bd = None \<or> bd = rq_body rq"
    using rd by (auto simp: read_request_def read_body_def Let_def split: if_splits)
  then have "rq_authorization rq = [authorization]" "bd = rq_body rq"
    using pl(1) by (auto simp: single_header_def length_Suc_conv not_less le_Suc_eq split: if_splits list.splits)
  moreover have "rq_origin rq = [] \<or> rq_origin rq = [[]]"
    using rv(4,5) by (auto simp: single_header_def length_Suc_conv not_less le_Suc_eq split: if_splits list.splits)
  ultimately show ?thesis
    using rv receive_changes[OF pl(2) assms(2)] pl(1) by auto
qed

section \<open>A concrete peer\<close>

definition demo_receiver :: receiver where
  "demo_receiver = \<lparr>rv_identity = ''node-b'', rv_api_key = ''key'', rv_accepted = [''node-a''], rv_max_body = 1024\<rparr>"

definition demo_client :: client where
  "demo_client = \<lparr>cl_identity = ''node-b'', cl_api_key = ''key'', cl_max_request = 1024, cl_max_response = 1024\<rparr>"

lemma demo_key: "list_all printable ''key''"
  by code_simp

lemma demo_mk_receiver: "mk_receiver ''node-b'' ''key'' [''node-a''] 1024 = Inr demo_receiver"
  using demo_identities demo_key by (simp add: mk_receiver_def mr_identity_def demo_receiver_def)

lemma demo_mk_client: "mk_client ''node-b'' ''key'' 5 1024 1024 = Inr demo_client"
  using demo_identities demo_key by (simp add: mk_client_def demo_client_def)

lemma demo_sorted: "list_all (\<lambda>m. sorted_payload (mu_payload m) = mu_payload m) (mb_records demo_batch)"
  by (simp add: demo_batch_def demo_mutation_def sorted_payload_def)

primrec demo_text_length :: "json \<Rightarrow> nat" where
  \<comment> \<open>the length of the compact text of values without floats and escapes\<close>
  "demo_text_length JNull = 4"
| "demo_text_length (JBool b) = (if b then 4 else 5)"
| "demo_text_length (JInt n) = length (py_str_int n)"
| "demo_text_length (JFloat x) = 17"
| "demo_text_length (JStr t) = length t + 2"
| "demo_text_length (JArr xs) = 1 + sum_list (map (\<lambda>v. demo_text_length v + 1) xs)"
| "demo_text_length (JObj d) = 1 + sum_list (map (\<lambda>p. length (fst p) + 4 + snd p) (map (map_prod id demo_text_length) d))"

theorem http_sink_refines_journal_sink_witness:
  "demo_text_length (canon (batch_payload demo_codec demo_batch)) \<le> 1024
   \<and> (\<exists>r. client_apply demo_codec demo_text_length demo_client
          (http_open demo_codec demo_text_length (Some demo_receiver) None) demo_batch empty_memdb = (Inr r, demo_replica))"
proof
  show fits: "demo_text_length (canon (batch_payload demo_codec demo_batch)) \<le> 1024" by code_simp
  obtain r where r: "sink_apply demo_codec ''node-b'' None demo_batch empty_memdb = (Inr r, demo_replica)"
    using sink_receipt_matches[OF demo_codec_ok demo_identities(2) demo_batch_wf demo_journal_apply] by blast
  moreover have "demo_text_length (receipt_payload demo_codec r) \<le> 1024"
  proof -
    have "r = \<lparr>rc_replica_id = ''node-b'', rc_source_id = ''node-a'', rc_source_epoch = 1, rc_next_sequence = 2,
        rc_batch_digest = batch_digest demo_codec demo_batch, rc_durable = True, rc_inserted = 2\<rparr>"
      using r demo_journal_apply
      by (auto simp: sink_apply_def mk_receipt_def demo_batch_def run_simps split: if_splits)
    then show ?thesis by simp code_simp
  qed
  ultimately show "\<exists>r. client_apply demo_codec demo_text_length demo_client
      (http_open demo_codec demo_text_length (Some demo_receiver) None) demo_batch empty_memdb = (Inr r, demo_replica)"
    using http_sink_refines_journal_sink[OF demo_mk_receiver demo_mk_client demo_codec_ok demo_batch_wf demo_sorted,
        where len = demo_text_length and rlen = demo_text_length and scope = None and db = empty_memdb] fits
    by (auto simp: demo_batch_def)
qed

theorem only_authentic_pages_change_the_journal_witness:
  "\<exists>rq answer db' n. handle_memory_replication demo_codec (Some demo_receiver) None rq empty_memdb = (answer, db')
    \<and> rq_authorization rq = [''Bearer key''] \<and> journal_apply demo_codec None demo_batch empty_memdb = Inr (n, db')"
proof -
  let ?rq = "client_request demo_codec (\<lambda>_. 900) demo_client demo_batch"
  obtain r where "sink_apply demo_codec ''node-b'' None demo_batch empty_memdb = (Inr r, demo_replica)"
    using sink_receipt_matches[OF demo_codec_ok demo_identities(2) demo_batch_wf demo_journal_apply] by blast
  then obtain answer where h: "handle_memory_replication demo_codec (Some demo_receiver) None ?rq empty_memdb = (answer, demo_replica)"
    using page_handled[OF demo_mk_receiver _ demo_codec_ok demo_batch_wf demo_sorted, of demo_client "\<lambda>_. 900" None empty_memdb]
    by (auto simp: demo_client_def demo_batch_def)
  moreover have "demo_replica \<noteq> empty_memdb"
    by (simp add: demo_replica_def empty_memdb_def)
  ultimately show ?thesis
    using only_authentic_pages_change_the_journal[OF h] h demo_journal_apply
    by (intro exI[of _ ?rq] exI[of _ answer] exI[of _ demo_replica] exI[of _ 2]) (auto simp: demo_receiver_def)
qed

end
