(* ===== verification/MemoryService.thy ===== *)
theory MemoryService
  imports MemoryPeer
begin

text \<open>
  \<^verbatim>\<open>bootstrap/memory_replication.py\<close>: the service that owns the cursor of one source. The cursor moves only
  after every configured peer returned a matching receipt, and it is kept in two linked documents, the
  checkpoint and the anchor, that are replaced one after the other. A document is its content once its
  signature was verified, or the state its reading fails with. The digest of a checkpoint is an argument.
\<close>

section \<open>State\<close>

record mem_config =
  mc_source :: string
  mc_scope :: string
  mc_peers :: "string list"
  mc_limit :: int

text \<open>The record of the last attempt, as it is kept in the checkpoint.\<close>

record attempt =
  at_status :: string
  at_epoch :: int
  at_after :: int
  at_next :: int
  at_receipts :: "(string \<times> int \<times> int) list"
  at_failed :: "string list"
  at_reasons :: "(string \<times> string) list"
  at_inserted :: int

record checkpoint =
  ck_generation :: int
  ck_source :: string
  ck_scope :: string
  ck_cursor :: int
  ck_attempt :: attempt

record anchor =
  an_generation :: int
  an_source :: string
  an_scope :: string
  an_cursor :: int
  an_epoch :: int
  an_digest :: string
  an_checkpoint :: string

record state_files =
  sf_checkpoint :: "string + checkpoint option"
  sf_anchor :: "string + anchor option"

record service =
  sv_generation :: int
  sv_cursor :: int
  sv_epoch :: int
  sv_digest :: string
  sv_fault :: "string option"
  sv_started :: bool
  sv_closed :: bool
  sv_last :: "attempt option"
  sv_persistence :: string

definition new_service :: service where
  "new_service = \<lparr>sv_generation = 0, sv_cursor = 0, sv_epoch = 0, sv_digest = [], sv_fault = None, sv_started = False,
     sv_closed = False, sv_last = None, sv_persistence = ''uninitialized''\<rparr>"

section \<open>Attempts\<close>

definition failed_attempt :: "string \<Rightarrow> int \<Rightarrow> attempt" where
  "failed_attempt reason cursor =
     \<lparr>at_status = ''failed'', at_epoch = 0, at_after = cursor, at_next = cursor, at_receipts = [], at_failed = [],
      at_reasons = [(''source'', reason)], at_inserted = 0\<rparr>"

definition attempt_view :: "mem_outcome \<Rightarrow> attempt" where
  "attempt_view oc =
     \<lparr>at_status = oc_status oc, at_epoch = oc_source_epoch oc, at_after = oc_after oc, at_next = oc_next oc,
      at_receipts = map (\<lambda>i. (i, oc_source_epoch oc, oc_next oc)) (filter (\<lambda>i. i \<noteq> oc_source_id oc) (oc_replicas oc)),
      at_failed = oc_failed oc, at_reasons = oc_reasons oc, at_inserted = oc_inserted oc\<rparr>"

definition is_state_integer :: "int \<Rightarrow> int \<Rightarrow> bool" where
  "is_state_integer minimum v = (minimum \<le> v \<and> v \<le> max_int63)"

definition state_failure_reasons :: "string list" where
  "state_failure_reasons = [''sink_failure'', ''sink_identity_changed'', ''invalid_receipt'', ''receipt_identity_mismatch'',
     ''receipt_source_mismatch'', ''receipt_epoch_mismatch'', ''receipt_sequence_mismatch'', ''receipt_digest_mismatch'',
     ''receipt_not_durable'', ''receipt_inserted_count_mismatch'', ''source_unavailable'']"

fun check_receipts :: "string list \<Rightarrow> int \<Rightarrow> int \<Rightarrow> string list \<Rightarrow> (string \<times> int \<times> int) list \<Rightarrow> bool" where
  \<comment> \<open>the loop over the receipts, with the peers seen so far\<close>
  "check_receipts peers epoch nxt seen [] = True"
| "check_receipts peers epoch nxt seen ((i, e, q) # rows) =
     (i \<in> set peers \<and> i \<notin> set seen \<and> is_state_integer 1 e \<and> is_state_integer 0 q \<and> e = epoch \<and> q = nxt
      \<and> check_receipts peers epoch nxt (seen @ [i]) rows)"

definition attempt_shape :: "string list \<Rightarrow> attempt \<Rightarrow> bool" where
  "attempt_shape peers a =
     (at_status a \<in> {''empty'', ''replicated'', ''pending'', ''failed''}
      \<and> is_state_integer 0 (at_epoch a) \<and> is_state_integer 0 (at_after a) \<and> is_state_integer 0 (at_next a)
      \<and> at_after a \<le> at_next a \<and> is_state_integer 0 (at_inserted a)
      \<and> length (at_receipts a) \<le> length peers \<and> length (at_failed a) \<le> length peers
      \<and> length (at_reasons a) \<le> length peers + 1
      \<and> check_receipts peers (at_epoch a) (at_next a) [] (at_receipts a)
      \<and> list_all (\<lambda>i. i \<in> set peers) (at_failed a) \<and> distinct (at_failed a)
      \<and> list_all (\<lambda>r. snd r \<in> set state_failure_reasons) (at_reasons a))"

definition state_to_attempt :: "string list \<Rightarrow> int \<Rightarrow> attempt \<Rightarrow> string + attempt" where
  "state_to_attempt peers cursor a =
     (let corrupt = Inl ''corrupt'' in
      if \<not> attempt_shape peers a then corrupt
      else if at_status a = ''failed'' then
        (if at_epoch a \<noteq> 0 \<or> at_after a \<noteq> cursor \<or> at_next a \<noteq> cursor \<or> at_receipts a \<noteq> [] \<or> at_failed a \<noteq> []
            \<or> at_reasons a \<noteq> [(''source'', ''source_unavailable'')] then corrupt else Inr a)
      else if at_epoch a < 1 \<or> map fst (at_reasons a) \<noteq> at_failed a
              \<or> set (map fst (at_receipts a)) \<inter> set (at_failed a) \<noteq> {} then corrupt
      else if at_status a = ''replicated'' \<and> (at_next a \<le> at_after a \<or> cursor \<noteq> at_next a
              \<or> map fst (at_receipts a) \<noteq> peers \<or> at_failed a \<noteq> [] \<or> at_reasons a \<noteq> []) then corrupt
      else if at_status a = ''pending'' \<and> (at_next a \<le> at_after a \<or> cursor \<noteq> at_after a \<or> at_failed a = []) then corrupt
      else if at_status a = ''empty'' \<and> (cursor \<noteq> at_after a \<or> at_next a \<noteq> cursor \<or> at_receipts a \<noteq> []
              \<or> at_failed a \<noteq> [] \<or> at_reasons a \<noteq> [] \<or> at_inserted a \<noteq> 0) then corrupt
      else Inr a)"

section \<open>The two documents\<close>

definition read_persisted_state ::
  "mem_config \<Rightarrow> (checkpoint \<Rightarrow> string) \<Rightarrow> state_files
   \<Rightarrow> string + ((int \<times> int \<times> int \<times> string) \<times> attempt) option" where
  \<comment> \<open>generation, cursor, epoch, digest and the attempt; or the state the reading fails with\<close>
  "read_persisted_state cfg digest_of files =
     (case sf_checkpoint files of Inl st \<Rightarrow> Inl st
      | Inr checkpoint \<Rightarrow>
     (case sf_anchor files of Inl st \<Rightarrow> Inl st
      | Inr anchor \<Rightarrow>
     (case (checkpoint, anchor) of
        (None, None) \<Rightarrow> Inr None
      | (Some ck, Some an) \<Rightarrow>
          if \<not> (is_state_integer 1 (ck_generation ck) \<and> is_state_integer 0 (ck_cursor ck)
                \<and> is_state_integer 1 (an_generation an) \<and> is_state_integer 0 (an_cursor an)
                \<and> is_state_integer 0 (an_epoch an) \<and> digest_match (an_checkpoint an))
          then Inl ''corrupt''
          else if ck_source ck \<noteq> mc_source cfg \<or> ck_scope ck \<noteq> mc_scope cfg \<or> an_source an \<noteq> ck_source ck
                  \<or> an_scope an \<noteq> ck_scope ck \<or> an_generation an \<noteq> ck_generation ck \<or> an_cursor an \<noteq> ck_cursor ck
                  \<or> an_checkpoint an \<noteq> digest_of ck
          then Inl ''incompatible''
          else if (if an_cursor an = 0 then an_epoch an \<noteq> 0 \<or> an_digest an \<noteq> []
                   else an_epoch an < 1 \<or> \<not> digest_match (an_digest an))
          then Inl ''corrupt''
          else map_sum id (\<lambda>a. Some ((ck_generation ck, ck_cursor ck, an_epoch an, an_digest an), a))
                 (state_to_attempt (mc_peers cfg) (ck_cursor ck) (ck_attempt ck))
      | _ \<Rightarrow> Inl ''incompatible'')))"

definition record_state_fault :: "string \<Rightarrow> service \<Rightarrow> service" where
  "record_state_fault st sv =
     sv\<lparr>sv_fault := Some st, sv_persistence := st, sv_last := Some (failed_attempt ''state_unavailable'' (sv_cursor sv))\<rparr>"

definition start_service :: "mem_config \<Rightarrow> (checkpoint \<Rightarrow> string) \<Rightarrow> state_files \<Rightarrow> service" where
  \<comment> \<open>a new process: construction and \<^verbatim>\<open>start\<close>, which restores the documents\<close>
  "start_service cfg digest_of files =
     (case read_persisted_state cfg digest_of files of
        Inl st \<Rightarrow> record_state_fault st new_service
      | Inr None \<Rightarrow> new_service\<lparr>sv_persistence := ''empty''\<rparr>
      | Inr (Some ((generation, cursor, epoch, digest), a)) \<Rightarrow>
          new_service\<lparr>sv_generation := generation, sv_cursor := cursor, sv_epoch := epoch, sv_digest := digest,
                      sv_last := Some a, sv_persistence := ''restored''\<rparr>)
     \<lparr>sv_started := True\<rparr>"

definition close_service :: "service \<Rightarrow> service" where
  "close_service sv = sv\<lparr>sv_closed := True\<rparr>"

text \<open>
  A write may fail before the document is replaced or after (when flushing the directory fails), and the
  lock may not be had.
\<close>

datatype write_fault = WriteOk | WriteLost | WriteUnsure

record doc_faults =
  df_locked :: bool
  df_checkpoint :: write_fault
  df_anchor :: write_fault

definition calm_disk :: doc_faults where
  "calm_disk = \<lparr>df_locked = False, df_checkpoint = WriteOk, df_anchor = WriteOk\<rparr>"

definition state_unavailable :: "'a res" where
  "state_unavailable = Inl (DependencyUnavailable ''memory replication state is unavailable'')"

definition acked_anchor :: "service \<Rightarrow> (int \<times> int \<times> string) option \<Rightarrow> int \<times> int \<times> string" where
  "acked_anchor sv acknowledged =
     (case acknowledged of None \<Rightarrow> (sv_cursor sv, sv_epoch sv, sv_digest sv) | Some a \<Rightarrow> a)"

definition attempt_ok :: "service \<Rightarrow> int \<Rightarrow> (int \<times> int \<times> string) option \<Rightarrow> bool" where
  "attempt_ok sv cursor acknowledged =
     (let (acked, epoch, digest) = acked_anchor sv acknowledged in
      is_state_integer 0 cursor \<and> sv_cursor sv \<le> cursor \<and> sv_generation sv < max_int63
      \<and> (if acknowledged = None then cursor = sv_cursor sv
          else is_state_integer 0 acked \<and> is_state_integer 0 epoch \<and> acked = cursor \<and> sv_cursor sv < cursor)
      \<and> (if acked = 0 then epoch = 0 \<and> digest = [] else 1 \<le> epoch \<and> digest_match digest))"

definition next_documents ::
  "mem_config \<Rightarrow> (checkpoint \<Rightarrow> string) \<Rightarrow> service \<Rightarrow> int \<Rightarrow> attempt \<Rightarrow> int \<times> int \<times> string \<Rightarrow> checkpoint \<times> anchor" where
  "next_documents cfg digest_of sv cursor a acked =
     (let ck = \<lparr>ck_generation = sv_generation sv + 1, ck_source = mc_source cfg, ck_scope = mc_scope cfg, ck_cursor = cursor,
                ck_attempt = a\<rparr>
      in (ck, \<lparr>an_generation = sv_generation sv + 1, an_source = mc_source cfg, an_scope = mc_scope cfg,
               an_cursor = fst acked, an_epoch = fst (snd acked), an_digest = snd (snd acked), an_checkpoint = digest_of ck\<rparr>))"

definition write_documents :: "doc_faults \<Rightarrow> checkpoint \<times> anchor \<Rightarrow> state_files \<Rightarrow> bool \<times> state_files" where
  \<comment> \<open>the checkpoint first; the anchor only after it was written\<close>
  "write_documents df docs files =
     (let files1 = (if df_checkpoint df = WriteLost then files else files\<lparr>sf_checkpoint := Inr (Some (fst docs))\<rparr>);
          files2 = (if df_anchor df = WriteLost then files1 else files1\<lparr>sf_anchor := Inr (Some (snd docs))\<rparr>)
      in if df_checkpoint df \<noteq> WriteOk then (False, files1) else (df_anchor df = WriteOk, files2))"

definition persist_attempt ::
  "mem_config \<Rightarrow> (checkpoint \<Rightarrow> string) \<Rightarrow> doc_faults \<Rightarrow> int \<Rightarrow> attempt \<Rightarrow> (int \<times> int \<times> string) option
   \<Rightarrow> service \<Rightarrow> state_files \<Rightarrow> unit res \<times> service \<times> state_files" where
  "persist_attempt cfg digest_of df cursor a acknowledged sv files =
     (let acked = acked_anchor sv acknowledged in
      if sv_fault sv \<noteq> None then (state_unavailable, sv, files)
      else if \<not> attempt_ok sv cursor acknowledged \<or> df_locked df
      then (state_unavailable, record_state_fault ''unavailable'' sv, files)
      else case read_persisted_state cfg digest_of files of
          Inl st \<Rightarrow> (state_unavailable, record_state_fault st sv, files)
        | Inr current \<Rightarrow>
            if (case current of None \<Rightarrow> (0, 0, 0, []) | Some c \<Rightarrow> fst c)
               \<noteq> (sv_generation sv, sv_cursor sv, sv_epoch sv, sv_digest sv)
            then (state_unavailable, record_state_fault ''changed'' sv, files)
            else case write_documents df (next_documents cfg digest_of sv cursor a acked) files of
                (False, files') \<Rightarrow> (state_unavailable, record_state_fault ''unavailable'' sv, files')
              | (True, files') \<Rightarrow>
                  (Inr (), sv\<lparr>sv_generation := sv_generation sv + 1, sv_cursor := cursor, sv_epoch := fst (snd acked),
                              sv_digest := snd (snd acked), sv_last := Some a, sv_persistence := ''persisted''\<rparr>, files'))"

section \<open>Anchors and one round\<close>

datatype anchor_result = AnchorState string | AnchorRaised | AnchorOk string

definition journal_record_digest :: "codec \<Rightarrow> mem_config \<Rightarrow> memdb \<Rightarrow> int \<Rightarrow> int \<Rightarrow> anchor_result" where
  "journal_record_digest cd cfg src cursor epoch =
     (if \<not> is_state_integer 1 cursor \<or> \<not> is_state_integer 1 epoch then AnchorState ''journal_regressed''
      else case journal_export cd (mc_source cfg) (Some (mc_scope cfg)) (cursor - 1) 1 (Some (mc_scope cfg)) src of
        Inl _ \<Rightarrow> AnchorRaised
      | Inr b \<Rightarrow>
          (case mb_records b of
             [r] \<Rightarrow>
               if mb_source_id b = mc_source cfg \<and> mb_source_epoch b = epoch
                  \<and> mb_after_sequence b = cursor - 1 \<and> mb_next_sequence b = cursor
                  \<and> mu_source_id r = mc_source cfg \<and> mu_source_epoch r = epoch
                  \<and> mu_sequence r = cursor \<and> mu_project r = mc_scope cfg \<and> digest_match (mutation_digest cd r)
               then AnchorOk (mutation_digest cd r) else AnchorState ''journal_regressed''
           | _ \<Rightarrow> AnchorState ''journal_regressed''))"

definition verify_journal_anchor :: "codec \<Rightarrow> mem_config \<Rightarrow> memdb \<Rightarrow> service \<Rightarrow> anchor_result" where
  "verify_journal_anchor cd cfg src sv =
     (if sv_cursor sv = 0 then
        if sv_epoch sv \<noteq> 0 \<or> sv_digest sv \<noteq> [] then AnchorState ''journal_regressed'' else AnchorOk []
      else case journal_record_digest cd cfg src (sv_cursor sv) (sv_epoch sv) of
          AnchorOk digest \<Rightarrow> if digest = sv_digest sv then AnchorOk digest else AnchorState ''journal_regressed''
        | other \<Rightarrow> other)"

definition anchor_for_replicated :: "codec \<Rightarrow> mem_config \<Rightarrow> memdb \<Rightarrow> service \<Rightarrow> mem_outcome \<Rightarrow> anchor_result" where
  "anchor_for_replicated cd cfg src sv oc =
     (if \<not> is_state_integer 1 (oc_next oc) \<or> \<not> is_state_integer 1 (oc_source_epoch oc) \<or> oc_next oc \<le> sv_cursor sv
      then AnchorState ''journal_regressed''
      else journal_record_digest cd cfg src (oc_next oc) (oc_source_epoch oc))"

definition page_export :: "codec \<Rightarrow> mem_config \<Rightarrow> memdb \<Rightarrow> int \<Rightarrow> int \<Rightarrow> string option \<Rightarrow> mem_batch res" where
  "page_export cd cfg src after limit project = journal_export cd (mc_source cfg) (Some (mc_scope cfg)) after limit project src"

record world =
  wo_src :: memdb
  wo_sv :: service
  wo_files :: state_files
  wo_nodes :: "string \<Rightarrow> node"

definition persist_failure ::
  "mem_config \<Rightarrow> (checkpoint \<Rightarrow> string) \<Rightarrow> doc_faults \<Rightarrow> world \<Rightarrow> mem_outcome res \<times> world" where
  "persist_failure cfg digest_of df w =
     (let cursor = sv_cursor (wo_sv w);
          (r, sv', files') = persist_attempt cfg digest_of df cursor (failed_attempt ''source_unavailable'' cursor) None
                               (wo_sv w) (wo_files w)
      in (rbind r (\<lambda>_. Inl (DependencyUnavailable ''memory replication source is unavailable'')),
          w\<lparr>wo_sv := sv', wo_files := files'\<rparr>))"

definition persist_outcome ::
  "mem_config \<Rightarrow> (checkpoint \<Rightarrow> string) \<Rightarrow> doc_faults \<Rightarrow> int \<Rightarrow> (int \<times> int \<times> string) option \<Rightarrow> mem_outcome \<Rightarrow> world
   \<Rightarrow> mem_outcome res \<times> world" where
  "persist_outcome cfg digest_of df cursor acknowledged oc w =
     (let (r, sv', files') = persist_attempt cfg digest_of df cursor (attempt_view oc) acknowledged (wo_sv w) (wo_files w)
      in (rbind r (\<lambda>_. Inr oc), w\<lparr>wo_sv := sv', wo_files := files'\<rparr>))"

definition replicate_once ::
  "codec \<Rightarrow> mem_config \<Rightarrow> (checkpoint \<Rightarrow> string) \<Rightarrow> (string \<Rightarrow> link) \<Rightarrow> doc_faults \<Rightarrow> world \<Rightarrow> mem_outcome res \<times> world" where
  "replicate_once cd cfg digest_of links df w =
     (let sv = wo_sv w;
          faulted = (\<lambda>st v. (state_unavailable, v\<lparr>wo_sv := record_state_fault st (wo_sv v)\<rparr>)) in
      if sv_closed sv then (Inl (RuntimeError ''memory replication service is closed''), w)
      else if \<not> sv_started sv then (Inl (RuntimeError ''memory replication service must be started''), w)
      else if sv_fault sv \<noteq> None then (state_unavailable, w)
      else case verify_journal_anchor cd cfg (wo_src w) sv of
        AnchorState st \<Rightarrow> faulted st w
      | AnchorRaised \<Rightarrow> persist_failure cfg digest_of df w
      | AnchorOk _ \<Rightarrow>
          (case mk_coordinator (mc_source cfg) (mc_peers cfg) (1 + int (length (mc_peers cfg))) (mc_limit cfg)
                  (Some (mc_scope cfg)) of
             Inl _ \<Rightarrow> persist_failure cfg digest_of df w
           | Inr co \<Rightarrow>
               (case replicate_page cd co
                       (page_export cd cfg (wo_src w)) (\<lambda>_. True) (node_deliver cd links) (sv_cursor sv) (wo_nodes w) of
                  (Inl _, nodes) \<Rightarrow> persist_failure cfg digest_of df (w\<lparr>wo_nodes := nodes\<rparr>)
                | (Inr oc, nodes) \<Rightarrow>
                    let w1 = w\<lparr>wo_nodes := nodes\<rparr> in
                    if oc_status oc = ''replicated'' then
                      (case anchor_for_replicated cd cfg (wo_src w) sv oc of
                         AnchorState st \<Rightarrow> faulted st w1
                       | AnchorRaised \<Rightarrow> faulted ''unavailable'' w1
                       | AnchorOk digest \<Rightarrow>
                           persist_outcome cfg digest_of df (oc_next oc)
                             (Some (oc_next oc, oc_source_epoch oc, digest)) oc w1)
                    else persist_outcome cfg digest_of df (sv_cursor sv) None oc w1)))"

section \<open>What the peers hold\<close>

definition at_least :: "codec \<Rightarrow> mem_config \<Rightarrow> memdb \<Rightarrow> nat \<Rightarrow> node \<Rightarrow> bool" where
  "at_least cd cfg src c nd =
     (serves (mc_source cfg) (Some (mc_scope cfg)) (nd_scope nd)
      \<and> (\<exists>k\<ge>c. mirrors cd (mc_source cfg) (nd_scope nd) src (nd_db nd) k))"

definition acked :: "codec \<Rightarrow> mem_config \<Rightarrow> memdb \<Rightarrow> (string \<Rightarrow> node) \<Rightarrow> int \<Rightarrow> bool" where
  "acked cd cfg src nodes c =
     (0 \<le> c \<and> c \<le> int (length (rows_of (mc_source cfg) (md_log src)))
      \<and> (\<forall>i\<in>set (mc_peers cfg). at_least cd cfg src (nat c) (nodes i)))"

definition anchored :: "mem_config \<Rightarrow> memdb \<Rightarrow> int \<Rightarrow> int \<Rightarrow> string \<Rightarrow> bool" where
  "anchored cfg src c e d =
     (if c = 0 then e = 0 \<and> d = []
      else 0 < c \<and> c \<le> int (length (rows_of (mc_source cfg) (md_log src)))
           \<and> e = source_epoch (mc_source cfg) src \<and> d = snd (rows_of (mc_source cfg) (md_log src) ! nat (c - 1)))"

definition service_inv :: "codec \<Rightarrow> mem_config \<Rightarrow> world \<Rightarrow> bool" where
  "service_inv cd cfg w =
     (complete_journal cd (mc_source cfg) (Some (mc_scope cfg)) (wo_src w)
      \<and> acked cd cfg (wo_src w) (wo_nodes w) (sv_cursor (wo_sv w))
      \<and> anchored cfg (wo_src w) (sv_cursor (wo_sv w)) (sv_epoch (wo_sv w)) (sv_digest (wo_sv w))
      \<and> (\<forall>ck. sf_checkpoint (wo_files w) = Inr (Some ck) \<longrightarrow> acked cd cfg (wo_src w) (wo_nodes w) (ck_cursor ck))
      \<and> (\<forall>an. sf_anchor (wo_files w) = Inr (Some an) \<longrightarrow> anchored cfg (wo_src w) (an_cursor an) (an_epoch an) (an_digest an)))"

text \<open>What is fixed: the configuration is one the service was built with.\<close>

definition mem_config_ok :: "mem_config \<Rightarrow> bool" where
  "mem_config_ok cfg =
     (validate_source (mc_source cfg) (Some (mc_scope cfg)) = Inr ()
      \<and> list_all identity_match (mc_peers cfg) \<and> distinct (mc_peers cfg) \<and> mc_source cfg \<notin> set (mc_peers cfg)
      \<and> length (mc_peers cfg) \<le> 64 \<and> 1 \<le> mc_limit cfg \<and> mc_limit cfg \<le> 1024)"

lemma config_coordinator:
  assumes "mem_config_ok cfg"
  shows "mk_coordinator (mc_source cfg) (mc_peers cfg) (1 + int (length (mc_peers cfg))) (mc_limit cfg) (Some (mc_scope cfg))
    = Inr \<lparr>co_source_id = mc_source cfg, co_sinks = mc_peers cfg, co_minimum = 1 + int (length (mc_peers cfg)),
           co_limit = mc_limit cfg, co_project = Some (mc_scope cfg)\<rparr>"
proof -
  have "check_sinks s seen is = Inr ()" if "list_all identity_match is" "s \<notin> set is" "distinct (seen @ is)" for s seen "is"
    using that by (induction s seen "is" rule: check_sinks.induct) (auto simp: run_simps)
  from this[of "mc_peers cfg" "mc_source cfg" "[]"] show ?thesis
    using assms by (auto simp: mk_coordinator_def mem_config_ok_def run_simps validate_source_def split: if_splits)
qed

lemma export_scoped:
  assumes "mem_config_ok cfg"
  shows "journal_export cd (mc_source cfg) (Some (mc_scope cfg)) a l (Some (mc_scope cfg)) src
    = journal_export cd (mc_source cfg) (Some (mc_scope cfg)) a l None src"
proof -
  have "journal_scope (Some (mc_scope cfg)) (Some (mc_scope cfg)) = journal_scope (Some (mc_scope cfg)) None"
    using assms by (auto simp: journal_scope_def mem_config_ok_def validate_source_def run_simps split: if_splits)
  then show ?thesis
    by (simp add: journal_export_def)
qed

lemma at_least_mono: "at_least cd cfg src c nd \<Longrightarrow> c' \<le> c \<Longrightarrow> at_least cd cfg src c' nd"
  unfolding at_least_def by (meson order.trans)

lemma node_deliver_at_least:
  assumes c: "complete_journal cd (mc_source cfg) (Some (mc_scope cfg)) src"
    and l: "1 \<le> l" "l \<le> 1024" and j: "at_least cd cfg src a (w j)"
    and del: "node_deliver cd links j (journal_page (mc_source cfg) src a l) w = (answer, w')"
    and i: "at_least cd cfg src n (w i)"
  shows "at_least cd cfg src n (w' i)"
proof (cases "links j = LinkDown \<or> \<not> page_admitted cd (w j) (journal_page (mc_source cfg) src a l) \<or> i \<noteq> j")
  case True
  then show ?thesis
    using del i by (auto simp: node_deliver_def Let_def split: prod.splits if_splits)
next
  case False
  let ?s = "mc_source cfg"
  obtain k where k: "n \<le> k" "a \<le> k" "mirrors cd ?s (nd_scope (w j)) src (nd_db (w j)) k"
    and sv: "serves ?s (Some (mc_scope cfg)) (nd_scope (w j))"
    using i j False mirrors_unique unfolding at_least_def by metis
  obtain dst' m where app: "journal_apply cd (nd_scope (w j)) (journal_page ?s src a l) (nd_db (w j)) = Inr (m, dst')"
    and mir: "\<exists>k'\<ge>k. mirrors cd ?s (nd_scope (w j)) src dst' k'"
    using apply_page[OF c k(3) sv l k(2)] by (metis max.cobounded1)
  have "w' = w(j := (w j)\<lparr>nd_db := dst'\<rparr>)"
    using del app False by (auto simp: node_deliver_def sink_apply_def Let_def)
  then show ?thesis
    using False mir sv k(1) unfolding at_least_def by (auto intro: order.trans)
qed

lemma deliver_all_at_least:
  assumes c: "complete_journal cd (mc_source cfg) (Some (mc_scope cfg)) src" and l: "1 \<le> l" "l \<le> 1024"
  shows "deliver_all cd named (node_deliver cd links) (journal_page (mc_source cfg) src a l) js w = (d, f, n, w') \<Longrightarrow>
    \<forall>j\<in>set js. at_least cd cfg src a (w j) \<Longrightarrow> at_least cd cfg src m (w i) \<Longrightarrow> at_least cd cfg src m (w' i)"
proof (induction js arbitrary: w d f n w')
  case (Cons j js)
  note step = node_deliver_at_least[OF c l _ _ ]
  have j: "at_least cd cfg src a (w j)"
    using Cons.prems(2) by simp
  from Cons.prems(1) show ?case
  proof (cases rule: deliver_all_ConsE)
    case (skipped f1)
    then show ?thesis
      using Cons by simp
  next
    case (failed answer w1 f1 reason)
    then show ?thesis
      using Cons.IH[OF failed(2)] Cons.prems(2,3) step[OF j failed(1)] by simp
  next
    case (durable r w1 d1 n1)
    then show ?thesis
      using Cons.IH[OF durable(3)] Cons.prems(2,3) step[OF j durable(1)] by simp
  qed
qed simp

lemma holds_page_at_least:
  assumes c: "complete_journal cd s own src" and m: "mirrors cd s sc src dst k"
    and h: "holds_page cd (journal_page s src a l) (md_log dst)" and a: "a \<le> k"
  shows "a + length (mb_records (journal_page s src a l)) \<le> k"
proof (cases "mb_records (journal_page s src a l) = []")
  case True
  then show ?thesis
    using a by simp
next
  case False
  let ?rows = "rows_of s (md_log src)"
  let ?sent = "take l (drop a ?rows)"
  define n where "n = length ?sent"
  have n: "mb_records (journal_page s src a l) = map fst ?sent" "0 < n" "a + n \<le> length ?rows"
    using False by (auto simp: journal_page_def Let_def n_def)
  then have last_row: "?sent ! (n - 1) = ?rows ! (a + n - 1)"
    by (auto simp: n_def)
  have "?sent ! (n - 1) \<in> set ?sent"
    using n(2) by (intro nth_mem) (simp add: n_def[symmetric] del: length_take length_drop)
  with last_row have r: "fst (?rows ! (a + n - 1)) \<in> set (mb_records (journal_page s src a l))"
    using n(1) by (metis imageI list.set_map)
  have seq: "mu_sequence (fst (?rows ! (a + n - 1))) = int (a + n)" "mu_source_id (fst (?rows ! (a + n - 1))) = s"
    using complete_journalD(3)[OF c, of "a + n - 1"] rows_of_source[OF nth_mem, of "a + n - 1" s "md_log src"] n(2,3) by auto
  have "row_kept cd (md_log dst) (fst (?rows ! (a + n - 1)))"
    using h r by (simp add: holds_page_iff)
  then obtain p where "p \<in> set (md_log dst)" "mu_source_id (fst p) = s" "mu_sequence (fst p) = int (a + n)"
    using row_at_Some seq unfolding row_kept_def by metis
  then have "p \<in> set (rows_of s (md_log dst))"
    by (simp add: rows_of_def)
  then have "p \<in> set (take k ?rows)"
    using m by (simp add: mirrors_def)
  then obtain i where "i < k" "i < length ?rows" "p = ?rows ! i"
    by (auto simp: in_set_conv_nth)
  then show ?thesis
    using complete_journalD(3)[OF c, of i] \<open>mu_sequence (fst p) = int (a + n)\<close> n(1) by (simp add: n_def)
qed

text \<open>The page was delivered to every peer when the number of durable ones says so.\<close>

lemma deliver_all_reached:
  assumes c: "complete_journal cd (mc_source cfg) (Some (mc_scope cfg)) src" and l: "1 \<le> l" "l \<le> 1024"
    and d: "deliver_all cd named (node_deliver cd links) (journal_page (mc_source cfg) src a l) js w = (d, f, n, w')"
    and all: "distinct js" "length js \<le> length d" and i: "i \<in> set js" and at: "\<forall>j\<in>set js. at_least cd cfg src a (w j)"
  shows "at_least cd cfg src (a + length (mb_records (journal_page (mc_source cfg) src a l))) (w' i)"
proof -
  have "set d \<subseteq> set js" "distinct d"
    using journal_sink.durable_stored[OF d] journal_sink.durable_distinct[OF d all(1)] by auto
  then have "i \<in> set d"
    using all i by (metis List.finite_set card_seteq distinct_card)
  then have h: "holds_page cd (journal_page (mc_source cfg) src a l) (md_log (nd_db (w' i)))"
    using journal_sink.durable_stored[OF d] by blast
  have "at_least cd cfg src a (w' i)"
    using deliver_all_at_least[OF c l d at] at i by blast
  then show ?thesis
    using holds_page_at_least[OF c _ h] unfolding at_least_def by blast
qed

section \<open>Persisting an attempt\<close>

lemma write_documents_files:
  assumes "write_documents df docs files = (ok, files')"
  shows "sf_checkpoint files' \<in> {sf_checkpoint files, Inr (Some (fst docs))}"
    "sf_anchor files' \<in> {sf_anchor files, Inr (Some (snd docs))}"
  using assms by (auto simp: write_documents_def Let_def split: if_splits)

lemma attempt_okD:
  "attempt_ok sv cursor acknowledged \<Longrightarrow> fst (acked_anchor sv acknowledged) = cursor"
  by (auto simp: attempt_ok_def acked_anchor_def split: if_splits option.splits)

definition same_position :: "service \<Rightarrow> service \<Rightarrow> bool" where
  "same_position sv sv' =
     (sv_generation sv' = sv_generation sv \<and> sv_cursor sv' = sv_cursor sv \<and> sv_epoch sv' = sv_epoch sv \<and> sv_digest sv' = sv_digest sv)"

lemma same_position_fault [simp]: "same_position sv sv" "same_position sv (record_state_fault st sv)"
  by (simp_all add: same_position_def record_state_fault_def)

lemma persist_attempt_effect:
  assumes "persist_attempt cfg digest_of df cursor a acknowledged sv files = (r, sv', files')"
  obtains (kept) "same_position sv sv'" "files' = files"
  | (written) "attempt_ok sv cursor acknowledged"
      "same_position sv sv' \<or> sv_generation sv' = sv_generation sv + 1 \<and> sv_cursor sv' = cursor
        \<and> sv_epoch sv' = fst (snd (acked_anchor sv acknowledged)) \<and> sv_digest sv' = snd (snd (acked_anchor sv acknowledged))"
      "sf_checkpoint files' \<in> {sf_checkpoint files, Inr (Some (fst (next_documents cfg digest_of sv cursor a (acked_anchor sv acknowledged))))}"
      "sf_anchor files' \<in> {sf_anchor files, Inr (Some (snd (next_documents cfg digest_of sv cursor a (acked_anchor sv acknowledged))))}"
proof (cases "sv_fault sv \<noteq> None \<or> \<not> attempt_ok sv cursor acknowledged \<or> df_locked df")
  case True
  then show ?thesis
    using assms kept by (auto simp: persist_attempt_def Let_def split: if_splits)
next
  case False
  obtain ok fs where w: "write_documents df (next_documents cfg digest_of sv cursor a (acked_anchor sv acknowledged)) files = (ok, fs)"
    by fastforce
  show ?thesis
    using assms False w write_documents_files[OF w] kept written
    by (cases ok) (auto simp: persist_attempt_def Let_def split: if_splits sum.splits)
qed

section \<open>Anchors\<close>

lemma export_config_page:
  assumes "mem_config_ok cfg" "complete_journal cd (mc_source cfg) (Some (mc_scope cfg)) src"
    and "0 \<le> c" "c \<le> int (length (rows_of (mc_source cfg) (md_log src)))" "1 \<le> l" "l \<le> 1024"
  shows "journal_export cd (mc_source cfg) (Some (mc_scope cfg)) c l (Some (mc_scope cfg)) src
    = Inr (journal_page (mc_source cfg) src (nat c) (nat l))"
  using export_page[OF assms(2), of "nat l" "nat c"] assms by (simp add: export_scoped)

lemma record_digest_anchored:
  assumes "mem_config_ok cfg" "codec_ok cd" "complete_journal cd (mc_source cfg) (Some (mc_scope cfg)) src"
    and c: "1 \<le> c" "c \<le> int (length (rows_of (mc_source cfg) (md_log src)))"
  shows "journal_record_digest cd cfg src c e =
    (if e = source_epoch (mc_source cfg) src then AnchorOk (snd (rows_of (mc_source cfg) (md_log src) ! nat (c - 1)))
     else AnchorState ''journal_regressed'')"
proof -
  let ?s = "mc_source cfg"
  let ?rows = "rows_of ?s (md_log src)"
  let ?r = "?rows ! nat (c - 1)"
  note cj = assms(3)
  have i: "nat (c - 1) < length ?rows"
    using c by simp
  have sent: "take 1 (drop (nat (c - 1)) ?rows) = [?r]"
    using i by (simp add: Cons_nth_drop_Suc[symmetric])
  have b: "mb_records (journal_page ?s src (nat (c - 1)) 1) = [fst ?r]" "mb_source_id (journal_page ?s src (nat (c - 1)) 1) = ?s"
    "mb_source_epoch (journal_page ?s src (nat (c - 1)) 1) = source_epoch ?s src"
    "mb_after_sequence (journal_page ?s src (nat (c - 1)) 1) = c - 1" "mb_next_sequence (journal_page ?s src (nat (c - 1)) 1) = c"
    using sent c by (simp_all add: journal_page_def Let_def)
  have "good_row cd ?r" "Some (mu_project (fst ?r)) = Some (mc_scope cfg)" "mu_source_epoch (fst ?r) = source_epoch ?s src"
    "mu_source_id (fst ?r) = ?s" "mu_sequence (fst ?r) = c"
    using complete_journalD(3)[OF cj i] complete_journalD(4,5,7)[OF cj] nth_mem[OF i] rows_of_source[OF nth_mem[OF i]] c
    by (simp_all add: list_all_iff)
  moreover have "is_state_integer 1 c" "is_state_integer 1 (source_epoch ?s src)"
    using complete_journalD(6)[OF cj] c by (auto simp: meta_ok_def is_state_integer_def)
  moreover have "digest_match (mutation_digest cd (fst ?r))"
    using assms(2) by (simp add: codec_ok_def mutation_digest_def)
  ultimately show ?thesis
    using export_config_page[OF assms(1,3), of "c - 1" 1] c b
    by (auto simp: journal_record_digest_def good_row_def is_state_integer_def)
qed

lemma anchored_verified:
  assumes "mem_config_ok cfg" "codec_ok cd" "complete_journal cd (mc_source cfg) (Some (mc_scope cfg)) src"
    and "anchored cfg src (sv_cursor sv) (sv_epoch sv) (sv_digest sv)"
  shows "verify_journal_anchor cd cfg src sv = AnchorOk (sv_digest sv)"
  using assms(4) record_digest_anchored[OF assms(1-3)]
  by (auto simp: verify_journal_anchor_def anchored_def split: if_splits)

section \<open>One round\<close>

definition co_of :: "mem_config \<Rightarrow> coordinator" where
  "co_of cfg = \<lparr>co_source_id = mc_source cfg, co_sinks = mc_peers cfg, co_minimum = 1 + int (length (mc_peers cfg)),
                co_limit = mc_limit cfg, co_project = Some (mc_scope cfg)\<rparr>"

definition round_page :: "mem_config \<Rightarrow> memdb \<Rightarrow> int \<Rightarrow> mem_batch" where
  "round_page cfg src c = journal_page (mc_source cfg) src (nat c) (nat (mc_limit cfg))"

lemma page_fields [simp]:
  "mb_source_id (journal_page s src a l) = s" "mb_source_epoch (journal_page s src a l) = source_epoch s src"
  "mb_after_sequence (journal_page s src a l) = int a"
  "mb_next_sequence (journal_page s src a l) = int a + int (length (mb_records (journal_page s src a l)))"
  "length (mb_records (journal_page s src a l)) = min l (length (rows_of s (md_log src)) - a)"
  "mb_records (journal_page s src a l) = [] \<longleftrightarrow> l = 0 \<or> length (rows_of s (md_log src)) \<le> a"
  by (auto simp: journal_page_def Let_def)

lemma round_exported:
  assumes "mem_config_ok cfg" "complete_journal cd (mc_source cfg) (Some (mc_scope cfg)) src"
    and "0 \<le> c" "c \<le> int (length (rows_of (mc_source cfg) (md_log src)))"
  shows "page_export cd cfg src c (mc_limit cfg) (Some (mc_scope cfg)) = Inr (round_page cfg src c)"
  using assms export_config_page[OF assms] by (simp add: page_export_def round_page_def mem_config_ok_def)

text \<open>Whatever the links do, nobody loses records; and a page reported as replicated reached every peer.\<close>

lemma replicate_page_round:
  assumes ok: "mem_config_ok cfg" and c: "complete_journal cd (mc_source cfg) (Some (mc_scope cfg)) src"
    and acked: "acked cd cfg src w cursor"
    and run: "replicate_page cd (co_of cfg) (page_export cd cfg src) (\<lambda>_. True) (node_deliver cd links) cursor w = (answer, w')"
  shows "\<forall>i\<in>set (mc_peers cfg). \<forall>m. at_least cd cfg src m (w i) \<longrightarrow> at_least cd cfg src m (w' i)"
    and "answer = Inr oc \<Longrightarrow> oc_status oc = ''replicated'' \<Longrightarrow>
      oc_source_epoch oc = source_epoch (mc_source cfg) src \<and> cursor < oc_next oc \<and> acked cd cfg src w' (oc_next oc)"
proof -
  let ?b = "round_page cfg src cursor"
  have cur: "0 \<le> cursor" "cursor \<le> int (length (rows_of (mc_source cfg) (md_log src)))"
    and at: "\<forall>i\<in>set (mc_peers cfg). at_least cd cfg src (nat cursor) (w i)"
    using acked by (auto simp: acked_def)
  have l: "1 \<le> nat (mc_limit cfg)" "nat (mc_limit cfg) \<le> 1024"
    using ok by (auto simp: mem_config_ok_def)
  note exp = round_exported[OF ok c cur]
  obtain d f n v where all: "deliver_all cd (\<lambda>_. True) (node_deliver cd links) ?b (mc_peers cfg) w = (d, f, n, v)"
    by (metis prod_cases4)
  have w': "w' = (if mb_records ?b = [] then w else v)"
    using run exp cur(1) all l by (auto simp: replicate_page_def co_of_def round_page_def Let_def min_def split: if_splits)
  show kept: "\<forall>i\<in>set (mc_peers cfg). \<forall>m. at_least cd cfg src m (w i) \<longrightarrow> at_least cd cfg src m (w' i)"
    using deliver_all_at_least[OF c l all[unfolded round_page_def] at] w' by auto
  assume answer: "answer = Inr oc" "oc_status oc = ''replicated''"
  note run' = run[unfolded answer(1)]
  obtain oc_b: "mb_records ?b \<noteq> []" "length (mc_peers cfg) \<le> length d" "oc_next oc = mb_next_sequence ?b"
    "oc_source_epoch oc = source_epoch (mc_source cfg) src"
    using run' by (rule replicate_page_Inr) (use exp all answer(2) in \<open>auto simp: co_of_def round_page_def split: if_splits\<close>)
  note oc = oc_b
  have reached: "at_least cd cfg src (nat cursor + length (mb_records ?b)) (v i)" if "i \<in> set (mc_peers cfg)" for i
    using deliver_all_reached[OF c l all[unfolded round_page_def] _ oc(2) that at] ok by (simp add: round_page_def mem_config_ok_def)
  have "oc_next oc = cursor + int (length (mb_records ?b))" "oc_next oc \<le> int (length (rows_of (mc_source cfg) (md_log src)))"
    using oc(3) cur by (auto simp: round_page_def)
  moreover have "0 < length (mb_records ?b)"
    using oc(1) by simp
  ultimately show "oc_source_epoch oc = source_epoch (mc_source cfg) src \<and> cursor < oc_next oc \<and> acked cd cfg src w' (oc_next oc)"
    using oc(1,4) reached w' cur(1) by (auto simp: acked_def nat_add_distrib)
qed

text \<open>What the round reports can be read back from the checkpoint it is written to.\<close>

lemma check_receipts_map:
  "check_receipts peers e q seen (map (\<lambda>i. (i, e, q)) ids) \<longleftrightarrow>
     ids = [] \<or> set ids \<subseteq> set peers \<and> distinct ids \<and> set ids \<inter> set seen = {} \<and> is_state_integer 1 e \<and> is_state_integer 0 q"
  by (induction ids arbitrary: seen) auto

lemma attempt_readable:
  assumes ok: "mem_config_ok cfg" and c: "complete_journal cd (mc_source cfg) (Some (mc_scope cfg)) src"
    and acked: "acked cd cfg src w cursor"
    and run: "replicate_page cd (co_of cfg) (page_export cd cfg src) (\<lambda>_. True) (node_deliver cd links) cursor w = (Inr oc, w')"
  shows "state_to_attempt (mc_peers cfg) (if oc_status oc = ''replicated'' then oc_next oc else cursor) (attempt_view oc)
    = Inr (attempt_view oc)"
proof -
  have cur: "0 \<le> cursor" "cursor \<le> int (length (rows_of (mc_source cfg) (md_log src)))"
    using acked by (auto simp: acked_def)
  have ep: "1 \<le> source_epoch (mc_source cfg) src" "source_epoch (mc_source cfg) src \<le> max_int63"
    "int (length (rows_of (mc_source cfg) (md_log src))) < max_int63"
    using complete_journalD(6)[OF c] by (auto simp: meta_ok_def)
  let ?b = "round_page cfg src cursor"
  have b: "mb_source_id ?b = mc_source cfg" "mb_source_epoch ?b = source_epoch (mc_source cfg) src" "mb_after_sequence ?b = cursor"
    "mb_next_sequence ?b = cursor + int (length (mb_records ?b))" "mb_next_sequence ?b \<le> int (length (rows_of (mc_source cfg) (md_log src)))"
    "length (mb_records ?b) \<le> 1024"
    using cur ok by (auto simp: round_page_def mem_config_ok_def)
  have lim: "length (mc_peers cfg) \<le> 64" "distinct (mc_peers cfg)" "mc_source cfg \<notin> set (mc_peers cfg)"
    using ok by (auto simp: mem_config_ok_def)
  note run
  then show ?thesis
  proof (cases rule: replicate_page_Inr)
    case (1 b' d f n)
    then have b': "b' = ?b"
      using round_exported[OF ok c cur] by (simp add: co_of_def)
    show ?thesis
    proof (cases "mb_records ?b = []")
      case True
      then have "d = []" "f = []" "n = 0"
        using 1(3) b' by simp_all
      then show ?thesis
        using True 1(4) b b' cur ep
        by (simp add: state_to_attempt_def attempt_view_def attempt_shape_def is_state_integer_def)
    next
      case False
      then have all: "deliver_all cd (\<lambda>_. True) (node_deliver cd links) ?b (mc_peers cfg) w = (d, f, n, w')"
        using 1(3) b' by (simp add: co_of_def)
      note part = deliver_all_partition[OF all]
      have d: "filter (\<lambda>i. i \<noteq> mc_source cfg) d = d" "distinct d" "set d \<subseteq> set (mc_peers cfg)"
        "distinct (map fst f)" "set (map fst f) \<subseteq> set (mc_peers cfg)"
        using part lim subseq_set[of d "mc_peers cfg"] subseq_set[of "map fst f" "mc_peers cfg"]
        by (auto simp: filter_id_conv intro: distinct_subseq)
      have full: "length d = length (mc_peers cfg) \<longleftrightarrow> d = mc_peers cfg \<and> f = []"
        using part by (auto dest: subseq_same_length)
      have n: "n \<le> max_int63"
      proof -
        have "int (length (mc_peers cfg)) * int (length (mb_records ?b)) \<le> 64 * 1024"
          using lim b(6) by (intro mult_mono) auto
        then show ?thesis
          using part by simp
      qed
      have reasons: "list_all (\<lambda>r. snd r \<in> set state_failure_reasons) f"
        using part by (auto simp: list_all_iff failure_reasons_def state_failure_reasons_def)
      have len: "length d \<le> length (mc_peers cfg)" "length f \<le> length (mc_peers cfg)"
        using part by auto
      have pos: "0 < length (mb_records ?b)"
        using False by simp
      have int: "is_state_integer 1 (source_epoch (mc_source cfg) src)" "is_state_integer 0 (source_epoch (mc_source cfg) src)"
        "is_state_integer 0 cursor" "is_state_integer 0 (mb_next_sequence ?b)" "is_state_integer 0 n"
        using ep cur b n 1(5) by (auto simp: is_state_integer_def)
      have inter: "set d \<inter> set (map fst f) = {}"
        using part lim(2) by simp
      have shape: "attempt_shape (mc_peers cfg) (attempt_view oc)"
        using 1(4) b b' d len reasons int
        by (auto simp: attempt_shape_def attempt_view_def check_receipts_map list_all_iff)
      show ?thesis
      proof (cases "d = mc_peers cfg \<and> f = []")
        case True
        then show ?thesis
          using shape 1(4) b b' d pos False ep by (auto simp: state_to_attempt_def attempt_view_def co_of_def comp_def)
      next
        case no: False
        then have "length d < length (mc_peers cfg)" "f \<noteq> []"
          using full len(1) part by (auto simp: le_less)
        then show ?thesis
          using shape 1(4) b b' d pos False ep inter by (auto simp: state_to_attempt_def attempt_view_def co_of_def comp_def)
      qed
    qed
  qed
qed

lemma failure_readable: "is_state_integer 0 cursor \<Longrightarrow>
    state_to_attempt peers cursor (failed_attempt ''source_unavailable'' cursor) = Inr (failed_attempt ''source_unavailable'' cursor)"
  by (simp add: state_to_attempt_def attempt_shape_def failed_attempt_def state_failure_reasons_def is_state_integer_def)

text \<open>How a round ends.\<close>

lemma replicate_once_cases:
  assumes ok: "mem_config_ok cfg" "codec_ok cd" and inv: "service_inv cd cfg w"
    and run: "replicate_once cd cfg digest_of links df w = (answer, w')"
  obtains (kept) nodes where "\<forall>m. acked cd cfg (wo_src w) (wo_nodes w) m \<longrightarrow> acked cd cfg (wo_src w) nodes m"
    "w' = w\<lparr>wo_nodes := nodes\<rparr> \<or> (\<exists>st. w' = w\<lparr>wo_nodes := nodes, wo_sv := record_state_fault st (wo_sv w)\<rparr>)"
  | (persisted) nodes cursor a acknowledged r sv' files' c e g where
    "\<forall>m. acked cd cfg (wo_src w) (wo_nodes w) m \<longrightarrow> acked cd cfg (wo_src w) nodes m"
    "w' = w\<lparr>wo_nodes := nodes, wo_sv := sv', wo_files := files'\<rparr>"
    "persist_attempt cfg digest_of df cursor a acknowledged (wo_sv w) (wo_files w) = (r, sv', files')"
    "acked cd cfg (wo_src w) nodes cursor" "acked_anchor (wo_sv w) acknowledged = (c, e, g)" "anchored cfg (wo_src w) c e g"
    "state_to_attempt (mc_peers cfg) cursor a = Inr a"
proof -
  let ?sv = "wo_sv w"
  have c: "complete_journal cd (mc_source cfg) (Some (mc_scope cfg)) (wo_src w)"
    and acked: "acked cd cfg (wo_src w) (wo_nodes w) (sv_cursor ?sv)"
    and anchored: "anchored cfg (wo_src w) (sv_cursor ?sv) (sv_epoch ?sv) (sv_digest ?sv)"
    using inv by (auto simp: service_inv_def)
  obtain ans nodes where rp: "replicate_page cd (co_of cfg) (page_export cd cfg (wo_src w)) (\<lambda>_. True) (node_deliver cd links)
      (sv_cursor ?sv) (wo_nodes w) = (ans, nodes)"
    by fastforce
  note round_ok = replicate_page_round[OF ok(1) c acked rp]
  have hold: "\<forall>m. acked cd cfg (wo_src w) (wo_nodes w) m \<longrightarrow> acked cd cfg (wo_src w) nodes m"
    using round_ok(1) by (auto simp: acked_def)
  have here: "is_state_integer 0 (sv_cursor ?sv)" "acked_anchor ?sv None = (sv_cursor ?sv, sv_epoch ?sv, sv_digest ?sv)"
    using acked complete_journalD(6)[OF c] by (auto simp: acked_def acked_anchor_def is_state_integer_def meta_ok_def)
  have co: "mk_coordinator (mc_source cfg) (mc_peers cfg) (1 + int (length (mc_peers cfg))) (mc_limit cfg) (Some (mc_scope cfg))
      = Inr (co_of cfg)"
    unfolding co_of_def by (rule config_coordinator[OF ok(1)])
  note verified = anchored_verified[OF ok c anchored]
  show thesis
  proof (cases "sv_closed ?sv \<or> \<not> sv_started ?sv \<or> sv_fault ?sv \<noteq> None")
    case True
    then have "w' = w"
      using run by (auto simp: replicate_once_def Let_def split: if_splits)
    then show ?thesis
      by (intro kept[of "wo_nodes w"]) auto
  next
    case live: False
    show ?thesis
    proof (cases ans)
      case (Inl e)
      obtain r sv' files' where pa: "persist_attempt cfg digest_of df (sv_cursor ?sv)
          (failed_attempt ''source_unavailable'' (sv_cursor ?sv)) None ?sv (wo_files w) = (r, sv', files')"
        by (metis prod_cases3)
      then have "w' = w\<lparr>wo_nodes := nodes, wo_sv := sv', wo_files := files'\<rparr>"
        using run live verified co rp Inl by (auto simp: replicate_once_def Let_def persist_failure_def)
      then show ?thesis
        using hold acked by (intro persisted[OF hold _ pa _ here(2) anchored failure_readable[OF here(1)]]) auto
    next
      case (Inr oc)
      note readable = attempt_readable[OF ok(1) c acked rp[unfolded Inr]]
      show ?thesis
      proof (cases "oc_status oc = ''replicated''")
        case False
        obtain r sv' files' where pa: "persist_attempt cfg digest_of df (sv_cursor ?sv) (attempt_view oc) None ?sv (wo_files w)
            = (r, sv', files')"
          by (metis prod_cases3)
        then have "w' = w\<lparr>wo_nodes := nodes, wo_sv := sv', wo_files := files'\<rparr>"
          using run live verified co rp Inr False by (auto simp: replicate_once_def Let_def persist_outcome_def)
        then show ?thesis
          using hold acked readable False by (intro persisted[OF hold _ pa _ here(2) anchored]) auto
      next
        case True
        note oc = round_ok(2)[OF Inr True]
        have pos: "1 \<le> oc_next oc" "oc_next oc \<le> int (length (rows_of (mc_source cfg) (md_log (wo_src w))))"
          using oc acked by (auto simp: acked_def)
        let ?g = "snd (rows_of (mc_source cfg) (md_log (wo_src w)) ! nat (oc_next oc - 1))"
        have digest: "journal_record_digest cd cfg (wo_src w) (oc_next oc) (oc_source_epoch oc) = AnchorOk ?g"
          using record_digest_anchored[OF ok c pos] oc by simp
        have anc: "anchored cfg (wo_src w) (oc_next oc) (oc_source_epoch oc) ?g"
          using pos oc by (simp add: anchored_def)
        show ?thesis
        proof (cases "anchor_for_replicated cd cfg (wo_src w) ?sv oc")
          case (AnchorOk digest')
          then have "digest' = ?g"
            using digest by (simp add: anchor_for_replicated_def split: if_splits)
          obtain r sv' files' where pa: "persist_attempt cfg digest_of df (oc_next oc) (attempt_view oc)
              (Some (oc_next oc, oc_source_epoch oc, ?g)) ?sv (wo_files w) = (r, sv', files')"
            by (metis prod_cases3)
          then have "w' = w\<lparr>wo_nodes := nodes, wo_sv := sv', wo_files := files'\<rparr>"
            using run live verified co rp Inr True AnchorOk \<open>digest' = ?g\<close>
            by (auto simp: replicate_once_def Let_def persist_outcome_def)
          then show ?thesis
            using readable True oc by (intro persisted[OF hold _ pa _ _ anc]) (auto simp: acked_anchor_def)
        qed (use run live verified co rp Inr True kept[OF hold] in \<open>auto simp: replicate_once_def Let_def\<close>)
      qed
    qed
  qed
qed


lemma persist_inv:
  assumes inv: "service_inv cd cfg w"
    and new: "acked cd cfg (wo_src w) (wo_nodes w) cursor"
    and a: "acked_anchor (wo_sv w) acknowledged = (c, e, g)" "anchored cfg (wo_src w) c e g"
    and run: "persist_attempt cfg digest_of df cursor a acknowledged (wo_sv w) (wo_files w) = (r, sv', files')"
  shows "service_inv cd cfg (w\<lparr>wo_sv := sv', wo_files := files'\<rparr>)"
  using run
proof (cases rule: persist_attempt_effect)
  case kept
  then show ?thesis
    using inv by (simp add: service_inv_def same_position_def)
next
  case written
  have "c = cursor"
    using attempt_okD[OF written(1)] a by simp
  then show ?thesis
    using written inv new a by (auto simp: service_inv_def next_documents_def Let_def same_position_def)
qed

lemma replicate_once_inv:
  assumes ok: "mem_config_ok cfg" "codec_ok cd" and inv: "service_inv cd cfg w"
    and run: "replicate_once cd cfg digest_of links df w = (answer, w')"
  shows "service_inv cd cfg w' \<and> wo_src w' = wo_src w"
  using assms
proof (cases rule: replicate_once_cases)
  case (kept nodes)
  then show ?thesis
    using inv by (auto simp: service_inv_def record_state_fault_def)
next
  case (persisted nodes cursor a acknowledged r sv' files' c e g)
  have "service_inv cd cfg (w\<lparr>wo_nodes := nodes\<rparr>)"
    using inv persisted(1) by (auto simp: service_inv_def)
  from persist_inv[OF this, of cursor acknowledged c e g digest_of df a r sv' files'] show ?thesis
    using persisted by simp
qed

section \<open>The documents the service writes\<close>

definition checkpoint_ok :: "mem_config \<Rightarrow> checkpoint \<Rightarrow> bool" where
  "checkpoint_ok cfg ck =
     (is_state_integer 1 (ck_generation ck) \<and> is_state_integer 0 (ck_cursor ck) \<and> ck_source ck = mc_source cfg
      \<and> ck_scope ck = mc_scope cfg \<and> state_to_attempt (mc_peers cfg) (ck_cursor ck) (ck_attempt ck) = Inr (ck_attempt ck))"

definition anchor_ok :: "mem_config \<Rightarrow> anchor \<Rightarrow> bool" where
  "anchor_ok cfg an =
     (is_state_integer 1 (an_generation an) \<and> is_state_integer 0 (an_cursor an) \<and> is_state_integer 0 (an_epoch an)
      \<and> digest_match (an_checkpoint an)
      \<and> (if an_cursor an = 0 then an_epoch an = 0 \<and> an_digest an = [] else 1 \<le> an_epoch an \<and> digest_match (an_digest an)))"

definition docs_inv :: "mem_config \<Rightarrow> world \<Rightarrow> bool" where
  "docs_inv cfg w =
     (0 \<le> sv_generation (wo_sv w)
      \<and> (sf_checkpoint (wo_files w) = Inr None \<or> (\<exists>ck. sf_checkpoint (wo_files w) = Inr (Some ck) \<and> checkpoint_ok cfg ck))
      \<and> (sf_anchor (wo_files w) = Inr None \<or> (\<exists>an. sf_anchor (wo_files w) = Inr (Some an) \<and> anchor_ok cfg an)))"

lemma docs_inv_read:
  assumes "docs_inv cfg w" "read_persisted_state cfg digest_of (wo_files w) = Inl st"
  shows "st = ''incompatible''"
proof (cases "sf_checkpoint (wo_files w) = Inr None \<or> sf_anchor (wo_files w) = Inr None")
  case True
  then show ?thesis
    using assms by (auto simp: docs_inv_def read_persisted_state_def)
next
  case False
  then obtain ck an where "sf_checkpoint (wo_files w) = Inr (Some ck)" "checkpoint_ok cfg ck"
    "sf_anchor (wo_files w) = Inr (Some an)" "anchor_ok cfg an"
    using assms(1) by (auto simp: docs_inv_def)
  then show ?thesis
    using assms(2) by (auto simp: read_persisted_state_def checkpoint_ok_def anchor_ok_def split: if_splits)
qed

lemma next_documents_ok:
  assumes "attempt_ok sv cursor acknowledged" "acked_anchor sv acknowledged = (c, e, g)" "0 \<le> sv_generation sv"
    and "is_state_integer 0 e" "\<forall>ck. digest_match (digest_of ck)" "state_to_attempt (mc_peers cfg) cursor a = Inr a"
  shows "checkpoint_ok cfg (fst (next_documents cfg digest_of sv cursor a (c, e, g)))"
    "anchor_ok cfg (snd (next_documents cfg digest_of sv cursor a (c, e, g)))"
  using assms attempt_okD[OF assms(1)]
  by (auto simp: checkpoint_ok_def anchor_ok_def next_documents_def Let_def attempt_ok_def is_state_integer_def split: if_splits)

lemma replicate_once_docs:
  assumes ok: "mem_config_ok cfg" "codec_ok cd" and dg: "\<forall>ck. digest_match (digest_of ck)"
    and inv: "service_inv cd cfg w" "docs_inv cfg w"
    and run: "replicate_once cd cfg digest_of links df w = (answer, w')"
  shows "docs_inv cfg w'"
  using ok inv(1) run
proof (cases rule: replicate_once_cases)
  case (kept nodes)
  then show ?thesis
    using inv(2) by (auto simp: docs_inv_def record_state_fault_def)
next
  case (persisted nodes cursor a acknowledged r sv' files' c e g)
  have "1 \<le> source_epoch (mc_source cfg) (wo_src w)" "source_epoch (mc_source cfg) (wo_src w) \<le> max_int63"
    using inv(1) complete_journalD(6) by (fastforce simp: service_inv_def meta_ok_def)+
  then have e: "is_state_integer 0 e"
    using persisted(6) by (auto simp: anchored_def is_state_integer_def split: if_splits)
  from persisted(3) show ?thesis
  proof (cases rule: persist_attempt_effect)
    case kept
    then show ?thesis
      using inv(2) persisted(2) by (auto simp: docs_inv_def same_position_def)
  next
    case written
    have "0 \<le> sv_generation (wo_sv w)"
      using inv(2) by (simp add: docs_inv_def)
    note new = next_documents_ok[OF written(1) persisted(5) this e dg persisted(7)]
    show ?thesis
      using written(2-) inv(2) persisted(2) new unfolding persisted(5) by (auto simp: docs_inv_def same_position_def)
  qed
qed

section \<open>Runs of the service\<close>

text \<open>
  What happens to a replicated source: mutations are appended to its journal, a round is attempted under
  some state of the links and of the disk, the process restarts and restores the documents, or a document
  is damaged or removed.
\<close>

datatype service_event =
    Appended "mutation list"
  | Round "string \<Rightarrow> link" doc_faults
  | Restarted
  | Closed
  | CheckpointLost "string + checkpoint option"
  | AnchorLost "string + anchor option"

inductive service_step :: "codec \<Rightarrow> mem_config \<Rightarrow> (checkpoint \<Rightarrow> string) \<Rightarrow> world \<Rightarrow> service_event \<Rightarrow> world \<Rightarrow> bool"
  for cd cfg digest_of where
  appended: "list_all (wf_mutation cd) rs \<Longrightarrow>
     journal_append cd (mc_source cfg) (Some (mc_scope cfg)) rs (wo_src w) = Inr (n, src') \<Longrightarrow>
     service_step cd cfg digest_of w (Appended rs) (w\<lparr>wo_src := src'\<rparr>)"
| round: "replicate_once cd cfg digest_of links df w = (answer, w') \<Longrightarrow>
     service_step cd cfg digest_of w (Round links df) w'"
| restarted: "service_step cd cfg digest_of w Restarted (w\<lparr>wo_sv := start_service cfg digest_of (wo_files w)\<rparr>)"
| closed: "service_step cd cfg digest_of w Closed (w\<lparr>wo_sv := close_service (wo_sv w)\<rparr>)"
| checkpoint_lost: "\<forall>ck. d \<noteq> Inr (Some ck) \<Longrightarrow>
     service_step cd cfg digest_of w (CheckpointLost d) (w\<lparr>wo_files := (wo_files w)\<lparr>sf_checkpoint := d\<rparr>\<rparr>)"
| anchor_lost: "\<forall>an. d \<noteq> Inr (Some an) \<Longrightarrow>
     service_step cd cfg digest_of w (AnchorLost d) (w\<lparr>wo_files := (wo_files w)\<lparr>sf_anchor := d\<rparr>\<rparr>)"

lemma mirrors_appended:
  assumes "mirrors cd s sc src dst k" "source_epoch s src' = source_epoch s src"
    and "rows_of s (md_log src') = rows_of s (md_log src) @ new"
  shows "mirrors cd s sc src' dst k"
  using assms by (auto simp: mirrors_def split: option.splits)

lemma acked_appended:
  assumes "acked cd cfg src nodes c" "source_epoch (mc_source cfg) src' = source_epoch (mc_source cfg) src"
    and "rows_of (mc_source cfg) (md_log src') = rows_of (mc_source cfg) (md_log src) @ new"
  shows "acked cd cfg src' nodes c"
  using assms(1) mirrors_appended[OF _ assms(2,3)] assms(3) unfolding acked_def at_least_def by fastforce

lemma anchored_appended:
  assumes "anchored cfg src c e d" "source_epoch (mc_source cfg) src' = source_epoch (mc_source cfg) src"
    and "rows_of (mc_source cfg) (md_log src') = rows_of (mc_source cfg) (md_log src) @ new"
  shows "anchored cfg src' c e d"
  using assms by (auto simp: anchored_def nth_append split: if_splits)

lemma map_sum_Inr_iff: "map_sum f h x = Inr y \<longleftrightarrow> (\<exists>z. x = Inr z \<and> h z = y)"
  by (cases x) auto

lemma read_persisted_state_Some:
  assumes "read_persisted_state cfg digest_of files = Inr (Some ((g, c, e, d), a))"
  obtains ck an where "sf_checkpoint files = Inr (Some ck)" "sf_anchor files = Inr (Some an)"
    "ck_generation ck = g" "ck_cursor ck = c" "an_cursor an = c" "an_epoch an = e" "an_digest an = d"
  using assms by (auto simp: read_persisted_state_def map_sum_Inr_iff split: sum.splits option.splits if_splits)

lemma start_service_inv:
  assumes "service_inv cd cfg w"
  shows "service_inv cd cfg (w\<lparr>wo_sv := start_service cfg digest_of (wo_files w)\<rparr>)"
proof -
  have zero: "acked cd cfg (wo_src w) (wo_nodes w) 0"
    using assms at_least_mono[of cd cfg "wo_src w" _ _ 0] by (auto simp: service_inv_def acked_def)
  show ?thesis
  proof (cases "\<exists>g c e d a. read_persisted_state cfg digest_of (wo_files w) = Inr (Some ((g, c, e, d), a))")
    case True
    then obtain g c e d a where r: "read_persisted_state cfg digest_of (wo_files w) = Inr (Some ((g, c, e, d), a))"
      by blast
    from r show ?thesis
      by (rule read_persisted_state_Some) (use assms r in \<open>simp add: service_inv_def start_service_def\<close>)
  next
    case False
    then have "sv_cursor (start_service cfg digest_of (wo_files w)) = 0" "sv_epoch (start_service cfg digest_of (wo_files w)) = 0"
      "sv_digest (start_service cfg digest_of (wo_files w)) = []"
      by (auto simp: start_service_def new_service_def record_state_fault_def split: sum.splits option.splits)
    then show ?thesis
      using assms zero by (simp add: service_inv_def anchored_def)
  qed
qed

lemma service_step_inv:
  assumes "mem_config_ok cfg" "codec_ok cd" "service_step cd cfg digest_of w e w'" "service_inv cd cfg w"
  shows "service_inv cd cfg w'"
  using assms(3)
proof cases
  case (appended rs n src')
  have c: "complete_journal cd (mc_source cfg) (Some (mc_scope cfg)) (wo_src w)"
    using assms(4) by (simp add: service_inv_def)
  obtain new where "complete_journal cd (mc_source cfg) (Some (mc_scope cfg)) src'"
    "source_epoch (mc_source cfg) src' = source_epoch (mc_source cfg) (wo_src w)"
    "rows_of (mc_source cfg) (md_log src') = rows_of (mc_source cfg) (md_log (wo_src w)) @ new"
    using complete_append[OF c appended(4,3)] by blast
  note new = this
  have "acked cd cfg src' (wo_nodes w) c" if "acked cd cfg (wo_src w) (wo_nodes w) c" for c
    using that new(2,3) by (rule acked_appended)
  moreover have "anchored cfg src' c e d" if "anchored cfg (wo_src w) c e d" for c e d
    using that new(2,3) by (rule anchored_appended)
  ultimately show ?thesis
    using assms(4) new(1) unfolding appended(2) by (simp add: service_inv_def)
next
  case (round links df answer)
  then show ?thesis
    using replicate_once_inv[OF assms(1,2,4)] by blast
next
  case restarted
  then show ?thesis
    using start_service_inv[OF assms(4)] by simp
qed (use assms(4) in \<open>auto simp: service_inv_def close_service_def\<close>)

lemma service_inv_initial:
  assumes ok: "mem_config_ok cfg" and j: "mk_mem_journal (mc_source cfg) (Some (mc_scope cfg)) empty_memdb = Inr (wo_src w)"
    and "wo_sv w = new_service" "wo_files w = \<lparr>sf_checkpoint = Inr None, sf_anchor = Inr None\<rparr>"
    and peers: "\<forall>i\<in>set (mc_peers cfg). nd_db (wo_nodes w i) = empty_memdb
      \<and> (nd_scope (wo_nodes w i) = None \<or> nd_scope (wo_nodes w i) = Some (mc_scope cfg))"
  shows "service_inv cd cfg w"
proof -
  have "mirrors cd (mc_source cfg) sc (wo_src w) empty_memdb 0" for sc
    using empty_memdb_inv by (simp add: mirrors_def empty_memdb_def rows_of_def)
  then have "acked cd cfg (wo_src w) (wo_nodes w) 0"
    using ok peers by (auto simp: acked_def at_least_def serves_def mem_config_ok_def)
  then show ?thesis
    using assms complete_open[OF j] by (simp add: service_inv_def new_service_def anchored_def)
qed

interpretation mem_service: invariant_system
  "\<lambda>w e w'. mem_config_ok cfg \<and> codec_ok cd \<and> service_step cd cfg digest_of w e w'" "service_inv cd cfg" for cd cfg digest_of
  by unfold_locales (use service_step_inv in blast)

lemma guarded_run: "run_of step s es t \<Longrightarrow> P \<Longrightarrow> run_of (\<lambda>w e w'. P \<and> step w e w') s es t"
  by (induction rule: run_of.induct) (auto intro: run_of.intros)

definition fresh_world :: "mem_config \<Rightarrow> world \<Rightarrow> bool" where
  "fresh_world cfg w =
     (mk_mem_journal (mc_source cfg) (Some (mc_scope cfg)) empty_memdb = Inr (wo_src w)
      \<and> wo_sv w = new_service \<and> wo_files w = \<lparr>sf_checkpoint = Inr None, sf_anchor = Inr None\<rparr>
      \<and> list_all (\<lambda>i. nd_db (wo_nodes w i) = empty_memdb
           \<and> (nd_scope (wo_nodes w i) = None \<or> nd_scope (wo_nodes w i) = Some (mc_scope cfg))) (mc_peers cfg))"

lemma service_run_inv:
  assumes "mem_config_ok cfg" "codec_ok cd" "fresh_world cfg w" "run_of (service_step cd cfg digest_of) w es w'"
  shows "service_inv cd cfg w'"
proof (rule mem_service.inv_run)
  show "run_of (\<lambda>w e w'. mem_config_ok cfg \<and> codec_ok cd \<and> service_step cd cfg digest_of w e w') w es w'"
    using guarded_run[OF assms(4), of "mem_config_ok cfg \<and> codec_ok cd"] assms(1,2) by simp
  show "service_inv cd cfg w"
    using assms(1,3) by (intro service_inv_initial) (auto simp: fresh_world_def list_all_iff)
qed

text \<open>
  (C11) The cursor never runs ahead of a replica. From a new journal and empty peers, after any sequence of
  appends, rounds under any combination of failing links, lost answers and failing or unconfirmed document
  writes, restarts, and damaged or removed documents, every peer holds a prefix of the source's records
  that is at least as long as the service's cursor, and as the cursor a restart would restore. So no record
  is ever skipped on a peer.
\<close>

theorem cursor_never_skips_a_record:
  assumes "mem_config_ok cfg" "codec_ok cd" "fresh_world cfg w" "run_of (service_step cd cfg digest_of) w es w'"
    and "i \<in> set (mc_peers cfg)"
  shows "\<exists>k. rows_of (mc_source cfg) (md_log (nd_db (wo_nodes w' i))) = take k (rows_of (mc_source cfg) (md_log (wo_src w')))
    \<and> k \<le> length (rows_of (mc_source cfg) (md_log (wo_src w')))
    \<and> sv_cursor (wo_sv w') \<le> int k \<and> sv_cursor (start_service cfg digest_of (wo_files w')) \<le> int k"
proof -
  note inv = service_run_inv[OF assms(1-4)]
  let ?sc = "nd_scope (wo_nodes w' i)"
  obtain k where k: "mirrors cd (mc_source cfg) ?sc (wo_src w') (nd_db (wo_nodes w' i)) k" "nat (sv_cursor (wo_sv w')) \<le> k"
    using inv assms(5) by (auto simp: service_inv_def acked_def at_least_def)
  obtain k' where k': "mirrors cd (mc_source cfg) ?sc (wo_src w') (nd_db (wo_nodes w' i)) k'"
    "nat (sv_cursor (start_service cfg digest_of (wo_files w'))) \<le> k'"
    using start_service_inv[OF inv, of digest_of] assms(5) by (auto simp: service_inv_def acked_def at_least_def)
  have "k' = k"
    using mirrors_unique[OF k'(1) k(1)] .
  then show ?thesis
    using k k'(2) by (auto simp: mirrors_def)
qed

text \<open>
  Unless something else damages them, the documents are only what the service wrote: each by itself is
  valid, and the two may at most not belong together.
\<close>

fun undamaged :: "service_event \<Rightarrow> bool" where
  "undamaged (CheckpointLost d) = (d = Inr None)"
| "undamaged (AnchorLost d) = (d = Inr None)"
| "undamaged _ = True"

lemma service_step_docs:
  assumes "mem_config_ok cfg" "codec_ok cd" "\<forall>ck. digest_match (digest_of ck)" "service_step cd cfg digest_of w e w'"
    and "service_inv cd cfg w" "docs_inv cfg w" "undamaged e"
  shows "docs_inv cfg w'"
  using assms(4)
proof cases
  case (round links df answer)
  then show ?thesis
    using replicate_once_docs[OF assms(1-3,5,6)] by blast
next
  case restarted
  have "0 \<le> g" if "read_persisted_state cfg digest_of (wo_files w) = Inr (Some ((g, c, e, d), a))" for g c e d a
    using that by (rule read_persisted_state_Some) (use assms(6) in \<open>auto simp: docs_inv_def checkpoint_ok_def is_state_integer_def\<close>)
  then have "0 \<le> sv_generation (start_service cfg digest_of (wo_files w))"
    by (auto simp: start_service_def new_service_def record_state_fault_def split: sum.splits option.splits)
  then show ?thesis
    using assms(6) restarted by (simp add: docs_inv_def)
qed (use assms(6,7) in \<open>auto simp: docs_inv_def close_service_def\<close>)

interpretation mem_documents: invariant_system
  "\<lambda>w e w'. (mem_config_ok cfg \<and> codec_ok cd \<and> (\<forall>ck. digest_match (digest_of ck)) \<and> undamaged e) \<and> service_step cd cfg digest_of w e w'"
  "\<lambda>w. service_inv cd cfg w \<and> docs_inv cfg w" for cd cfg digest_of
  by unfold_locales (use service_step_inv service_step_docs in blast)

lemma undamaged_run:
  "run_of step s es t \<Longrightarrow> P \<Longrightarrow> list_all undamaged es \<Longrightarrow> run_of (\<lambda>w e w'. (P \<and> undamaged e) \<and> step w e w') s es t"
  by (induction rule: run_of.induct) (auto intro: run_of.intros)

text \<open>
  The service can read what it writes. After any sequence of appends, rounds under failing links and
  failing or unconfirmed writes, restarts and removed documents, the two documents are never corrupt: they
  are accepted, or refused only because they do not belong together.
\<close>

theorem own_documents_never_corrupt:
  assumes "mem_config_ok cfg" "codec_ok cd" "\<forall>ck. digest_match (digest_of ck)" "fresh_world cfg w"
    and "run_of (service_step cd cfg digest_of) w es w'" "list_all undamaged es"
  shows "(\<exists>x. read_persisted_state cfg digest_of (wo_files w') = Inr x)
    \<or> read_persisted_state cfg digest_of (wo_files w') = Inl ''incompatible''"
proof -
  have "service_inv cd cfg w" "docs_inv cfg w"
    using service_run_inv[OF assms(1,2,4) run_of.run_Nil] assms(4) by (auto simp: docs_inv_def fresh_world_def new_service_def)
  moreover have "run_of (\<lambda>w e w'. (mem_config_ok cfg \<and> codec_ok cd \<and> (\<forall>ck. digest_match (digest_of ck)) \<and> undamaged e)
      \<and> service_step cd cfg digest_of w e w') w es w'"
    using undamaged_run[OF assms(5) _ assms(6), of "mem_config_ok cfg \<and> codec_ok cd \<and> (\<forall>ck. digest_match (digest_of ck))"] assms(1-3) by simp
  ultimately have "docs_inv cfg w'"
    using mem_documents.inv_run by blast
  then show ?thesis
    using docs_inv_read[of cfg w' digest_of] by (cases "read_persisted_state cfg digest_of (wo_files w')") auto
qed

section \<open>Healthy rounds\<close>

lemma deliver_all_healthy:
  assumes c: "complete_journal cd (mc_source cfg) (Some (mc_scope cfg)) src" and l: "1 \<le> l" "l \<le> 1024" and cd: "codec_ok cd"
    and wf: "wf_batch cd (journal_page (mc_source cfg) src a l)" and up: "\<forall>i. links i = LinkUp"
  shows "list_all identity_match js \<Longrightarrow> \<forall>j\<in>set js. at_least cd cfg src a (w j) \<Longrightarrow>
    \<forall>j\<in>set js. page_admitted cd (w j) (journal_page (mc_source cfg) src a l) \<Longrightarrow>
    \<exists>n w'. deliver_all cd (\<lambda>_. True) (node_deliver cd links) (journal_page (mc_source cfg) src a l) js w = (js, [], n, w') \<and> 0 \<le> n"
proof (induction js arbitrary: w)
  case (Cons j js)
  let ?b = "journal_page (mc_source cfg) src a l"
  obtain k where "a \<le> k" "mirrors cd (mc_source cfg) (nd_scope (w j)) src (nd_db (w j)) k"
    "serves (mc_source cfg) (Some (mc_scope cfg)) (nd_scope (w j))"
    using Cons.prems(2) by (auto simp: at_least_def)
  then obtain m db' where "journal_apply cd (nd_scope (w j)) ?b (nd_db (w j)) = Inr (m, db')"
    using apply_page[OF c _ _ l] by blast
  then obtain r where "sink_apply cd j (nd_scope (w j)) ?b (nd_db (w j)) = (Inr r, db')" "receipt_failure cd ?b j (Some r) = None"
    "0 \<le> rc_inserted r"
    using sink_receipt_matches[OF cd _ wf] Cons.prems(1) by (metis list.pred_inject(2))
  moreover from this(1) up have del: "node_deliver cd links j ?b w = (Inr (Some r), w(j := (w j)\<lparr>nd_db := db'\<rparr>))"
    using Cons.prems(3) by (simp add: node_deliver_def)
  moreover have "\<forall>i\<in>set js. at_least cd cfg src a ((w(j := (w j)\<lparr>nd_db := db'\<rparr>)) i)"
    using node_deliver_at_least[OF c l _ del] Cons.prems(2) by simp
  moreover have "\<forall>i\<in>set js. page_admitted cd ((w(j := (w j)\<lparr>nd_db := db'\<rparr>)) i) ?b"
    using Cons.prems(3) by simp
  ultimately show ?case
    using Cons.IH[of "w(j := (w j)\<lparr>nd_db := db'\<rparr>)"] Cons.prems(1) by fastforce
qed simp

lemma healthy_page:
  assumes ok: "mem_config_ok cfg" "codec_ok cd" and c: "complete_journal cd (mc_source cfg) (Some (mc_scope cfg)) src"
    and acked: "acked cd cfg src w cursor" and up: "\<forall>i. links i = LinkUp"
    and fits: "mb_records (round_page cfg src cursor) \<noteq> [] \<Longrightarrow>
      \<forall>i\<in>set (mc_peers cfg). page_admitted cd (w i) (round_page cfg src cursor)"
  shows "\<exists>oc w'. replicate_page cd (co_of cfg) (page_export cd cfg src) (\<lambda>_. True) (node_deliver cd links) cursor w = (Inr oc, w')
    \<and> oc_status oc = (if mb_records (round_page cfg src cursor) = [] then ''empty'' else ''replicated'')
    \<and> oc_next oc = mb_next_sequence (round_page cfg src cursor)"
proof -
  let ?b = "round_page cfg src cursor"
  have cur: "0 \<le> cursor" "cursor \<le> int (length (rows_of (mc_source cfg) (md_log src)))"
    and at: "\<forall>i\<in>set (mc_peers cfg). at_least cd cfg src (nat cursor) (w i)"
    using acked by (auto simp: acked_def)
  have l: "1 \<le> nat (mc_limit cfg)" "nat (mc_limit cfg) \<le> 1024"
    using ok by (auto simp: mem_config_ok_def)
  have "wf_batch cd ?b"
    unfolding round_page_def using complete_journalD(7)[OF c] cur
    by (intro mk_batch_wf[OF mk_page[OF c l]])
      (auto simp: journal_page_def Let_def list_all_iff good_row_def dest!: in_set_takeD in_set_dropD)
  then have all: "\<exists>n w'. deliver_all cd (\<lambda>_. True) (node_deliver cd links) ?b (mc_peers cfg) w = (mc_peers cfg, [], n, w') \<and> 0 \<le> n"
    if "mb_records ?b \<noteq> []"
    using deliver_all_healthy[OF c l ok(2) _ up _ at] ok(1) fits[OF that] unfolding round_page_def mem_config_ok_def by blast
  have "digest_match (batch_digest cd ?b)"
    using ok(2) by (simp add: batch_digest_def codec_ok_def)
  moreover have "1 \<le> source_epoch (mc_source cfg) src"
    using complete_journalD(6)[OF c] by (auto simp: meta_ok_def)
  ultimately show ?thesis
    using round_exported[OF ok(1) c cur] all cur l ok(1) complete_journalD(2)[OF c]
    by (cases "mb_records ?b = []")
      (auto simp: replicate_page_def check_outcome_def co_of_def mem_config_ok_def run_simps round_page_def Let_def)
qed

text \<open>A service that is started and whose documents, if any, agree with it.\<close>

definition ready :: "mem_config \<Rightarrow> (checkpoint \<Rightarrow> string) \<Rightarrow> world \<Rightarrow> bool" where
  "ready cfg digest_of w =
     (let sv = wo_sv w in
      sv_started sv \<and> \<not> sv_closed sv \<and> sv_fault sv = None \<and> 0 \<le> sv_generation sv
      \<and> (case read_persisted_state cfg digest_of (wo_files w) of Inl _ \<Rightarrow> False
         | Inr current \<Rightarrow> (case current of None \<Rightarrow> (0, 0, 0, []) | Some c \<Rightarrow> fst c)
                          = (sv_generation sv, sv_cursor sv, sv_epoch sv, sv_digest sv)))"

lemma restart_ready:
  assumes "read_persisted_state cfg digest_of (wo_files w) = Inr current"
  shows "ready cfg digest_of (w\<lparr>wo_sv := start_service cfg digest_of (wo_files w)\<rparr>)"
proof (cases current)
  case None
  then show ?thesis
    using assms by (simp add: ready_def start_service_def new_service_def)
next
  case (Some c)
  moreover obtain g k e d a where "c = ((g, k, e, d), a)"
    by (metis prod_cases4 surj_pair)
  moreover have "0 \<le> g"
    using assms calculation
    by (auto simp: read_persisted_state_def is_state_integer_def map_sum_Inr_iff split: sum.splits option.splits if_splits)
  ultimately show ?thesis
    using assms by (simp add: ready_def start_service_def new_service_def)
qed

lemma healthy_persist:
  assumes dg: "\<forall>ck. digest_match (digest_of ck)" and r: "ready cfg digest_of w"
    and ok: "attempt_ok (wo_sv w) cursor acknowledged" "state_to_attempt (mc_peers cfg) cursor att = Inr att"
    and a: "acked_anchor (wo_sv w) acknowledged = (cursor, e, g)" "is_state_integer 0 e"
  shows "\<exists>files'. persist_attempt cfg digest_of calm_disk cursor att acknowledged (wo_sv w) (wo_files w)
      = (Inr (), (wo_sv w)\<lparr>sv_generation := sv_generation (wo_sv w) + 1, sv_cursor := cursor, sv_epoch := e, sv_digest := g,
                     sv_last := Some att, sv_persistence := ''persisted''\<rparr>, files')
    \<and> read_persisted_state cfg digest_of files' = Inr (Some ((sv_generation (wo_sv w) + 1, cursor, e, g), att))"
proof -
  obtain current where cur: "sv_fault (wo_sv w) = None" "read_persisted_state cfg digest_of (wo_files w) = Inr current"
    "(case current of None \<Rightarrow> (0, 0, 0, []) | Some c \<Rightarrow> fst c)
      = (sv_generation (wo_sv w), sv_cursor (wo_sv w), sv_epoch (wo_sv w), sv_digest (wo_sv w))" "0 \<le> sv_generation (wo_sv w)"
    using r by (auto simp: ready_def Let_def split: sum.splits)
  let ?docs = "next_documents cfg digest_of (wo_sv w) cursor att (cursor, e, g)"
  let ?files = "(wo_files w)\<lparr>sf_checkpoint := Inr (Some (fst ?docs)), sf_anchor := Inr (Some (snd ?docs))\<rparr>"
  have "write_documents calm_disk ?docs (wo_files w) = (True, ?files)"
    by (simp add: write_documents_def calm_disk_def)
  moreover have "read_persisted_state cfg digest_of ?files = Inr (Some ((sv_generation (wo_sv w) + 1, cursor, e, g), att))"
    using next_documents_ok[OF ok(1) a(1) cur(4) a(2) dg ok(2)] ok(2)
    by (auto simp: read_persisted_state_def next_documents_def checkpoint_ok_def anchor_ok_def Let_def split: if_splits)
  moreover have "\<not> df_locked calm_disk"
    by (simp add: calm_disk_def)
  ultimately show ?thesis
    using cur ok(1) a(1) by (simp add: persist_attempt_def Let_def)
qed

lemma healthy_round:
  assumes ok: "mem_config_ok cfg" "codec_ok cd" and dg: "\<forall>ck. digest_match (digest_of ck)"
    and inv: "service_inv cd cfg w" and r: "ready cfg digest_of w" and gen: "sv_generation (wo_sv w) < max_int63"
    and up: "\<forall>i. links i = LinkUp"
    and fits: "\<forall>i\<in>set (mc_peers cfg). mb_records (round_page cfg (wo_src w) (sv_cursor (wo_sv w))) \<noteq> [] \<longrightarrow>
      page_admitted cd (wo_nodes w i) (round_page cfg (wo_src w) (sv_cursor (wo_sv w)))"
  shows "\<exists>oc w'. replicate_once cd cfg digest_of links calm_disk w = (Inr oc, w') \<and> ready cfg digest_of w'
    \<and> sv_generation (wo_sv w') = sv_generation (wo_sv w) + 1
    \<and> sv_cursor (wo_sv w') = min (sv_cursor (wo_sv w) + mc_limit cfg) (int (length (rows_of (mc_source cfg) (md_log (wo_src w)))))"
proof -
  let ?sv = "wo_sv w" and ?b = "round_page cfg (wo_src w) (sv_cursor (wo_sv w))"
  let ?rows = "rows_of (mc_source cfg) (md_log (wo_src w))"
  have c: "complete_journal cd (mc_source cfg) (Some (mc_scope cfg)) (wo_src w)"
    and acked: "acked cd cfg (wo_src w) (wo_nodes w) (sv_cursor ?sv)"
    and anchored: "anchored cfg (wo_src w) (sv_cursor ?sv) (sv_epoch ?sv) (sv_digest ?sv)"
    using inv by (auto simp: service_inv_def)
  have live: "\<not> sv_closed ?sv" "sv_started ?sv" "sv_fault ?sv = None"
    using r by (auto simp: ready_def Let_def)
  have cur: "0 \<le> sv_cursor ?sv" "sv_cursor ?sv \<le> int (length ?rows)"
    using acked by (auto simp: acked_def)
  have epoch: "1 \<le> source_epoch (mc_source cfg) (wo_src w)" "source_epoch (mc_source cfg) (wo_src w) \<le> max_int63"
    "int (length ?rows) < max_int63"
    using complete_journalD(6)[OF c] by (auto simp: meta_ok_def)
  have lim: "1 \<le> mc_limit cfg"
    using ok(1) by (simp add: mem_config_ok_def)
  have co: "mk_coordinator (mc_source cfg) (mc_peers cfg) (1 + int (length (mc_peers cfg))) (mc_limit cfg) (Some (mc_scope cfg))
      = Inr (co_of cfg)"
    unfolding co_of_def by (rule config_coordinator[OF ok(1)])
  note verified = anchored_verified[OF ok c anchored]
  obtain oc nodes where rp: "replicate_page cd (co_of cfg) (page_export cd cfg (wo_src w)) (\<lambda>_. True) (node_deliver cd links)
      (sv_cursor ?sv) (wo_nodes w) = (Inr oc, nodes)"
    and st: "oc_status oc = (if mb_records ?b = [] then ''empty'' else ''replicated'')" "oc_next oc = mb_next_sequence ?b"
    using healthy_page[OF ok c acked up] fits by blast
  note readable = attempt_readable[OF ok(1) c acked rp]
  have good_digest: "digest_match (snd (?rows ! i))" if "i < length ?rows" for i
    using complete_journalD(7)[OF c] nth_mem[OF that] mutation_digest_match[OF ok(2)] by (simp add: list_all_iff good_row_def)
  show ?thesis
  proof (cases "mb_records ?b = []")
    case True
    then have same: "sv_cursor ?sv = int (length ?rows)"
      using cur lim by (auto simp: round_page_def)
    have aok: "attempt_ok ?sv (sv_cursor ?sv) None"
      using anchored gen cur epoch good_digest
      by (auto simp: attempt_ok_def acked_anchor_def anchored_def is_state_integer_def split: if_splits)
    have "is_state_integer 0 (sv_epoch ?sv)"
      using anchored epoch by (auto simp: anchored_def is_state_integer_def split: if_splits)
    moreover have "state_to_attempt (mc_peers cfg) (sv_cursor ?sv) (attempt_view oc) = Inr (attempt_view oc)"
      using readable st True by simp
    ultimately obtain files' where "persist_attempt cfg digest_of calm_disk (sv_cursor ?sv) (attempt_view oc) None ?sv (wo_files w)
        = (Inr (), ?sv\<lparr>sv_generation := sv_generation ?sv + 1, sv_cursor := sv_cursor ?sv, sv_epoch := sv_epoch ?sv,
                    sv_digest := sv_digest ?sv, sv_last := Some (attempt_view oc), sv_persistence := ''persisted''\<rparr>, files')"
      "read_persisted_state cfg digest_of files'
        = Inr (Some ((sv_generation ?sv + 1, sv_cursor ?sv, sv_epoch ?sv, sv_digest ?sv), attempt_view oc))"
      using healthy_persist[OF dg r aok, where att = "attempt_view oc" and e = "sv_epoch ?sv" and g = "sv_digest ?sv"]
      by (auto simp: acked_anchor_def)
    then show ?thesis
      using live verified co rp st True same lim r
      by (auto simp: replicate_once_def Let_def persist_outcome_def acked_anchor_def ready_def)
  next
    case False
    note round_ok = replicate_page_round(2)[OF ok(1) c acked rp refl]
    have oc: "oc_source_epoch oc = source_epoch (mc_source cfg) (wo_src w)" "sv_cursor ?sv < oc_next oc" "oc_next oc \<le> int (length ?rows)"
      using round_ok st False by (auto simp: acked_def)
    have nx: "oc_next oc = min (sv_cursor ?sv + mc_limit cfg) (int (length ?rows))"
      using st(2) cur lim by (auto simp: round_page_def min_def)
    let ?g = "snd (?rows ! nat (oc_next oc - 1))"
    have digest: "anchor_for_replicated cd cfg (wo_src w) ?sv oc = AnchorOk ?g"
      using record_digest_anchored[OF ok c, of "oc_next oc"] oc cur epoch
      by (simp add: anchor_for_replicated_def is_state_integer_def)
    have "digest_match ?g"
      using oc cur by (intro good_digest) simp
    then have aok: "attempt_ok ?sv (oc_next oc) (Some (oc_next oc, oc_source_epoch oc, ?g))"
      using gen cur epoch oc by (auto simp: attempt_ok_def acked_anchor_def is_state_integer_def)
    have "is_state_integer 0 (oc_source_epoch oc)"
      using oc epoch by (auto simp: is_state_integer_def)
    moreover have "state_to_attempt (mc_peers cfg) (oc_next oc) (attempt_view oc) = Inr (attempt_view oc)"
      using readable st False by simp
    ultimately obtain files' where "persist_attempt cfg digest_of calm_disk (oc_next oc) (attempt_view oc)
          (Some (oc_next oc, oc_source_epoch oc, ?g)) ?sv (wo_files w)
        = (Inr (), ?sv\<lparr>sv_generation := sv_generation ?sv + 1, sv_cursor := oc_next oc, sv_epoch := oc_source_epoch oc,
                    sv_digest := ?g, sv_last := Some (attempt_view oc), sv_persistence := ''persisted''\<rparr>, files')"
      "read_persisted_state cfg digest_of files'
        = Inr (Some ((sv_generation ?sv + 1, oc_next oc, oc_source_epoch oc, ?g), attempt_view oc))"
      using healthy_persist[OF dg r aok, where att = "attempt_view oc" and e = "oc_source_epoch oc" and g = ?g]
      by (auto simp: acked_anchor_def)
    then show ?thesis
      using live verified co rp st False digest nx r
      by (auto simp: replicate_once_def Let_def persist_outcome_def acked_anchor_def ready_def)
  qed
qed

primrec healthy_rounds :: "codec \<Rightarrow> mem_config \<Rightarrow> (checkpoint \<Rightarrow> string) \<Rightarrow> nat \<Rightarrow> world \<Rightarrow> world" where
  "healthy_rounds cd cfg digest_of 0 w = w"
| "healthy_rounds cd cfg digest_of (Suc n) w =
     healthy_rounds cd cfg digest_of n (snd (replicate_once cd cfg digest_of (\<lambda>_. LinkUp) calm_disk w))"

lemma replicate_page_admits:
  assumes "replicate_page cd co export named (node_deliver cd links) after w = (answer, w')"
  shows "page_admitted cd (w' i) c = page_admitted cd (w i) c"
proof -
  have "w' = w \<or> (\<exists>b d f n. deliver_all cd named (node_deliver cd links) b (co_sinks co) w = (d, f, n, w'))"
    using assms by (auto simp: replicate_page_def mr_error_def Let_def split: if_splits sum.splits prod.splits)
  then show ?thesis using deliver_all_admits by blast
qed

lemma replicate_once_nodes:
  assumes "replicate_once cd cfg digest_of links df w = (answer, w')"
  shows "wo_nodes w' = wo_nodes w
    \<or> (\<exists>co ans. mk_coordinator (mc_source cfg) (mc_peers cfg) (1 + int (length (mc_peers cfg))) (mc_limit cfg) (Some (mc_scope cfg)) = Inr co
         \<and> replicate_page cd co (page_export cd cfg (wo_src w)) (\<lambda>_. True) (node_deliver cd links) (sv_cursor (wo_sv w)) (wo_nodes w)
             = (ans, wo_nodes w'))"
  using assms
  by (auto simp: replicate_once_def persist_failure_def persist_outcome_def Let_def
      split: if_splits anchor_result.splits sum.splits prod.splits)

lemma replicate_once_admits:
  "replicate_once cd cfg digest_of links df w = (answer, w') \<Longrightarrow>
     page_admitted cd (wo_nodes w' i) c = page_admitted cd (wo_nodes w i) c"
  using replicate_once_nodes replicate_page_admits by metis

definition pages_admitted :: "codec \<Rightarrow> mem_config \<Rightarrow> world \<Rightarrow> bool" where
  \<comment> \<open>every peer admits the pages that start at the cursor or later\<close>
  "pages_admitted cd cfg w =
     (\<forall>a\<ge>sv_cursor (wo_sv w). mb_records (round_page cfg (wo_src w) a) \<noteq> [] \<longrightarrow>
        (\<forall>i\<in>set (mc_peers cfg). page_admitted cd (wo_nodes w i) (round_page cfg (wo_src w) a)))"

lemma healthy_rounds_advance:
  assumes ok: "mem_config_ok cfg" "codec_ok cd" and dg: "\<forall>ck. digest_match (digest_of ck)"
    and "service_inv cd cfg w" "ready cfg digest_of w" "sv_generation (wo_sv w) + int n \<le> max_int63" "pages_admitted cd cfg w"
  defines "w' \<equiv> healthy_rounds cd cfg digest_of n w"
  shows "service_inv cd cfg w' \<and> wo_src w' = wo_src w
    \<and> sv_cursor (wo_sv w') = min (sv_cursor (wo_sv w) + int n * mc_limit cfg) (int (length (rows_of (mc_source cfg) (md_log (wo_src w)))))"
  using assms(4-7) unfolding w'_def
proof (induction n arbitrary: w)
  case 0
  then show ?case
    by (auto simp: service_inv_def acked_def)
next
  case (Suc n)
  have "\<forall>i\<in>set (mc_peers cfg). mb_records (round_page cfg (wo_src w) (sv_cursor (wo_sv w))) \<noteq> [] \<longrightarrow>
      page_admitted cd (wo_nodes w i) (round_page cfg (wo_src w) (sv_cursor (wo_sv w)))"
    using Suc.prems(4) by (auto simp: pages_admitted_def)
  then obtain oc v where v: "replicate_once cd cfg digest_of (\<lambda>_. LinkUp) calm_disk w = (Inr oc, v)" "ready cfg digest_of v"
    "sv_generation (wo_sv v) = sv_generation (wo_sv w) + 1"
    "sv_cursor (wo_sv v) = min (sv_cursor (wo_sv w) + mc_limit cfg) (int (length (rows_of (mc_source cfg) (md_log (wo_src w)))))"
    using healthy_round[OF ok dg Suc.prems(1,2), of "\<lambda>_. LinkUp"] Suc.prems(3) by auto
  have inv: "service_inv cd cfg v" "wo_src v = wo_src w"
    using replicate_once_inv[OF ok Suc.prems(1) v(1)] by auto
  have pos: "0 \<le> int n * mc_limit cfg" "0 \<le> mc_limit cfg"
    using ok(1) by (simp_all add: mem_config_ok_def)
  have "sv_cursor (wo_sv w) \<le> sv_cursor (wo_sv v)"
    using v(4) pos(2) Suc.prems(1) by (auto simp: service_inv_def acked_def)
  then have "pages_admitted cd cfg v"
    using Suc.prems(4) inv(2) replicate_once_admits[OF v(1)] by (fastforce simp: pages_admitted_def)
  then show ?case
    using Suc.IH[OF inv(1) v(2)] Suc.prems(3) v inv(2) pos(1) by (auto simp: algebra_simps min_def)
qed

text \<open>
  (C18) Replication catches up, when the pages fit. Take any world the service can reach, with the documents
  agreeing with the running service (as they do after a restart that could read them), in which every peer
  admits the pages from the cursor on: each is within the byte bound of its requests and, for a peer that
  receives into the fact sink, within that sink's record bound, of facts only and of its project. If then the
  links stay up, which includes that the peer's projection refuses nothing, and the disk works, \<open>n\<close> rounds
  with a page limit \<open>l\<close> advance the cursor by \<open>n * l\<close> records, and once that covers what is left, every peer
  holds exactly the source's records.
\<close>

theorem replication_catches_up:
  assumes "mem_config_ok cfg" "codec_ok cd" "\<forall>ck. digest_match (digest_of ck)"
    and "fresh_world cfg w0" "run_of (service_step cd cfg digest_of) w0 es w" "ready cfg digest_of w"
    and "sv_generation (wo_sv w) + int n \<le> max_int63" "pages_admitted cd cfg w"
    and "int (length (rows_of (mc_source cfg) (md_log (wo_src w)))) \<le> sv_cursor (wo_sv w) + int n * mc_limit cfg"
    and "i \<in> set (mc_peers cfg)"
  shows "rows_of (mc_source cfg) (md_log (nd_db (wo_nodes (healthy_rounds cd cfg digest_of n w) i)))
    = rows_of (mc_source cfg) (md_log (wo_src w))"
proof -
  let ?v = "healthy_rounds cd cfg digest_of n w" and ?rows = "rows_of (mc_source cfg) (md_log (wo_src w))"
  have v: "service_inv cd cfg ?v" "wo_src ?v = wo_src w" "sv_cursor (wo_sv ?v) = int (length ?rows)"
    using healthy_rounds_advance[OF assms(1-3) service_run_inv[OF assms(1,2,4,5)] assms(6-8)] assms(9) by auto
  then obtain k where "mirrors cd (mc_source cfg) (nd_scope (wo_nodes ?v i)) (wo_src w) (nd_db (wo_nodes ?v i)) k" "length ?rows \<le> k"
    using assms(10) by (auto simp: service_inv_def acked_def at_least_def)
  then show ?thesis
    by (simp add: mirrors_def)
qed

section \<open>A page that a peer refuses\<close>

lemma persist_same_cursor:
  "persist_attempt cfg digest_of df (sv_cursor sv) a None sv files = (r, sv', files') \<Longrightarrow> sv_cursor sv' = sv_cursor sv"
  by (auto simp: persist_attempt_def Let_def record_state_fault_def split: if_splits sum.splits prod.splits bool.splits)

lemma refused_page_not_replicated:
  assumes ok: "mem_config_ok cfg" and i: "i \<in> set (mc_peers cfg)"
    and c: "complete_journal cd (mc_source cfg) (Some (mc_scope cfg)) src" and acked: "acked cd cfg src w cursor"
    and no: "\<not> page_admitted cd (w i) (round_page cfg src cursor)"
    and run: "replicate_page cd (co_of cfg) (page_export cd cfg src) (\<lambda>_. True) (node_deliver cd links) cursor w = (answer, w')"
  shows "w' i = w i" "answer = Inr oc \<Longrightarrow> oc_status oc \<noteq> ''replicated''"
proof -
  have exp: "page_export cd cfg src cursor (mc_limit cfg) (Some (mc_scope cfg)) = Inr (round_page cfg src cursor)"
    using round_exported[OF ok c] acked by (simp add: acked_def)
  obtain d f n v where all: "deliver_all cd (\<lambda>_. True) (node_deliver cd links) (round_page cfg src cursor) (mc_peers cfg) w = (d, f, n, v)"
    by (metis prod_cases4)
  note refused = deliver_all_refused[OF all no] and part = deliver_all_partition[OF all]
  have "w' = w \<or> w' = v"
    using run exp all by (auto simp: replicate_page_def co_of_def mr_error_def Let_def split: if_splits)
  then show "w' i = w i" using refused by auto
  have "set d \<subseteq> set (mc_peers cfg) - {i}" "distinct d"
    using refused part ok subseq_set[of d "mc_peers cfg"] by (auto simp: mem_config_ok_def intro: distinct_subseq)
  then have "length d < length (mc_peers cfg)"
    using i by (metis List.finite_set card_length card_mono card_Diff1_less distinct_card finite_Diff le_less_trans less_le_trans)
  then show "oc_status oc \<noteq> ''replicated''" if "answer = Inr oc"
    using run[unfolded that] by (rule_tac replicate_page_Inr) (use exp all in \<open>auto simp: co_of_def split: if_splits\<close>)
qed

lemma refused_round:
  assumes ok: "mem_config_ok cfg" "codec_ok cd" and i: "i \<in> set (mc_peers cfg)" and inv: "service_inv cd cfg w"
    and no: "\<not> page_admitted cd (wo_nodes w i) (round_page cfg (wo_src w) (sv_cursor (wo_sv w)))"
    and run: "replicate_once cd cfg digest_of links df w = (answer, w')"
  shows "sv_cursor (wo_sv w') = sv_cursor (wo_sv w) \<and> wo_nodes w' i = wo_nodes w i"
proof -
  have c: "complete_journal cd (mc_source cfg) (Some (mc_scope cfg)) (wo_src w)"
    and acked: "acked cd cfg (wo_src w) (wo_nodes w) (sv_cursor (wo_sv w))"
    using inv by (auto simp: service_inv_def)
  have co: "mk_coordinator (mc_source cfg) (mc_peers cfg) (1 + int (length (mc_peers cfg))) (mc_limit cfg) (Some (mc_scope cfg))
      = Inr (co_of cfg)"
    unfolding co_of_def by (rule config_coordinator[OF ok(1)])
  obtain ans nodes where rp: "replicate_page cd (co_of cfg) (page_export cd cfg (wo_src w)) (\<lambda>_. True) (node_deliver cd links)
      (sv_cursor (wo_sv w)) (wo_nodes w) = (ans, nodes)"
    by fastforce
  note out = refused_page_not_replicated[OF ok(1) i c acked no rp]
  show ?thesis
    using run co rp out
    by (auto simp: replicate_once_def persist_failure_def persist_outcome_def record_state_fault_def Let_def
        dest!: persist_same_cursor split: if_splits anchor_result.splits sum.splits prod.splits)
qed

text \<open>
  (C35) A page that one peer does not admit stops the replication. In any world the service can reach, when some
  peer does not admit the page at the cursor (it is larger than the request bound, or the fact sink there
  accepts fewer records or other records), then after any number of rounds, whatever the links and the disk do,
  the cursor is where it was and that peer has received nothing: the page is neither split nor skipped.
\<close>

theorem refused_page_stops_replication:
  assumes "mem_config_ok cfg" "codec_ok cd" "fresh_world cfg w0" "run_of (service_step cd cfg digest_of) w0 es w"
    and "i \<in> set (mc_peers cfg)"
    and "\<not> page_admitted cd (wo_nodes w i) (round_page cfg (wo_src w) (sv_cursor (wo_sv w)))"
    and "run_of (service_step cd cfg digest_of) w (map (\<lambda>(links, df). Round links df) rounds) w'"
  shows "sv_cursor (wo_sv w') = sv_cursor (wo_sv w) \<and> nd_db (wo_nodes w' i) = nd_db (wo_nodes w i)"
proof -
  have "service_inv cd cfg w" by (rule service_run_inv[OF assms(1-4)])
  then show ?thesis using assms(6,7)
  proof (induction rounds arbitrary: w)
    case (Cons rd rounds)
    obtain links df where rd: "rd = (links, df)" by (cases rd)
    obtain answer v where v: "replicate_once cd cfg digest_of links df w = (answer, v)"
      and rest: "run_of (service_step cd cfg digest_of) v (map (\<lambda>(links, df). Round links df) rounds) w'"
      using Cons.prems(3) rd by (auto simp: run_of_Cons_iff elim: service_step.cases)
    have inv: "service_inv cd cfg v" "wo_src v = wo_src w"
      using replicate_once_inv[OF assms(1,2) Cons.prems(1) v] by auto
    note same = refused_round[OF assms(1,2,5) Cons.prems(1,2) v]
    show ?case
      using Cons.IH[OF inv(1) _ rest] Cons.prems(2) same inv(2) by simp
  qed (simp add: run_of_Nil_iff)
qed

section \<open>A concrete service\<close>

definition demo_config :: mem_config where
  "demo_config = \<lparr>mc_source = ''node-a'', mc_scope = ''proj'', mc_peers = [''node-b''], mc_limit = 10\<rparr>"

definition demo_peer :: "string \<Rightarrow> node" where
  "demo_peer i = \<lparr>nd_scope = Some ''proj'', nd_max_bytes = 8388608, nd_fact_sink = Some 256, nd_db = empty_memdb\<rparr>"

definition demo_world :: world where
  "demo_world = \<lparr>wo_src = demo_db0, wo_sv = new_service, wo_files = \<lparr>sf_checkpoint = Inr None, sf_anchor = Inr None\<rparr>,
     wo_nodes = demo_peer\<rparr>"

definition demo_started :: world where
  "demo_started = demo_world\<lparr>wo_sv := new_service\<lparr>sv_started := True, sv_persistence := ''empty''\<rparr>, wo_src := demo_db2\<rparr>"

definition demo_digest :: "checkpoint \<Rightarrow> string" where
  "demo_digest ck = List.replicate 64 CHR ''b''"

lemma demo_digest_match: "\<forall>ck. digest_match (demo_digest ck)"
proof -
  have "digest_match (List.replicate 64 CHR ''b'')"
    by code_simp
  then show ?thesis
    by (simp add: demo_digest_def)
qed

lemma demo_config_ok: "mem_config_ok demo_config"
  using demo_valid demo_identities by (simp add: mem_config_ok_def demo_config_def)

lemma demo_fresh: "fresh_world demo_config demo_world"
  using demo_open by (simp add: fresh_world_def demo_config_def demo_world_def demo_peer_def)

lemma demo_service_run: "run_of (service_step demo_codec demo_config demo_digest) demo_world
    [Restarted, Appended [demo_mutation 1, demo_mutation 2]] demo_started"
proof -
  have "start_service demo_config demo_digest (wo_files demo_world) = new_service\<lparr>sv_started := True, sv_persistence := ''empty''\<rparr>"
    by (simp add: start_service_def read_persisted_state_def demo_world_def)
  then have "service_step demo_codec demo_config demo_digest demo_world Restarted (demo_world\<lparr>wo_sv := new_service\<lparr>sv_started := True, sv_persistence := ''empty''\<rparr>\<rparr>)"
    using restarted[of demo_codec demo_config demo_digest demo_world] by simp
  moreover have "service_step demo_codec demo_config demo_digest (demo_world\<lparr>wo_sv := new_service\<lparr>sv_started := True, sv_persistence := ''empty''\<rparr>\<rparr>)
      (Appended [demo_mutation 1, demo_mutation 2]) demo_started"
    unfolding demo_started_def using demo_append demo_mutation_wf
    by (intro appended) (simp_all add: demo_config_def demo_world_def)
  ultimately show ?thesis
    by (auto intro: run_of.intros)
qed

lemma demo_ready: "ready demo_config demo_digest demo_started"
  by (simp add: ready_def demo_started_def demo_world_def new_service_def read_persisted_state_def)

lemma run_of_snoc: "run_of step s es t \<Longrightarrow> step t e u \<Longrightarrow> run_of step s (es @ [e]) u"
  by (induction rule: run_of.induct) (auto intro: run_of.intros)

lemma demo_round:
  "\<exists>w'. run_of (service_step demo_codec demo_config demo_digest) demo_world
     ([Restarted, Appended [demo_mutation 1, demo_mutation 2]] @ [Round links df]) w'"
proof -
  obtain answer w' where "replicate_once demo_codec demo_config demo_digest links df demo_started = (answer, w')"
    by fastforce
  then show ?thesis
    using run_of_snoc[OF demo_service_run round] by blast
qed

theorem cursor_never_skips_a_record_witness:
  "\<exists>w' k. run_of (service_step demo_codec demo_config demo_digest) demo_world
       ([Restarted, Appended [demo_mutation 1, demo_mutation 2]] @ [Round (\<lambda>_. ReplyLost) calm_disk]) w'
    \<and> rows_of ''node-a'' (md_log (nd_db (wo_nodes w' ''node-b''))) = take k (rows_of ''node-a'' (md_log (wo_src w')))
    \<and> sv_cursor (wo_sv w') \<le> int k"
proof -
  obtain w' where run: "run_of (service_step demo_codec demo_config demo_digest) demo_world
       ([Restarted, Appended [demo_mutation 1, demo_mutation 2]] @ [Round (\<lambda>_. ReplyLost) calm_disk]) w'"
    using demo_round by blast
  have "''node-b'' \<in> set (mc_peers demo_config)" "mc_source demo_config = ''node-a''"
    by (simp_all add: demo_config_def)
  with cursor_never_skips_a_record[OF demo_config_ok demo_codec_ok demo_fresh run, of "''node-b''"] run show ?thesis
    by auto
qed

lemma demo_rows: "rows_of ''node-a'' (md_log demo_db2) = map (stored_row demo_codec) [demo_mutation 1, demo_mutation 2]"
  by (simp add: demo_db2_def rows_of_def stored_row_def demo_mutation_def)

lemma demo_pages_admitted: "pages_admitted demo_codec demo_config demo_started"
proof -
  have "page_admitted demo_codec (demo_peer i) (round_page demo_config demo_db2 a)"
    if "mb_records (round_page demo_config demo_db2 a) \<noteq> []" for i a
  proof -
    have "mu_entity_kind m = ''fact'' \<and> mu_project m = ''proj''" if "m \<in> set (mb_records (round_page demo_config demo_db2 a))" for m
      using that demo_rows
      by (auto simp: round_page_def journal_page_def Let_def demo_config_def stored_row_def demo_mutation_def
          dest!: in_set_takeD in_set_dropD)
    moreover have "length (mb_records (round_page demo_config demo_db2 a)) \<le> 256"
      by (simp add: round_page_def demo_config_def)
    ultimately show ?thesis
      using that by (simp add: page_admitted_def fact_sink_accepts_def demo_peer_def demo_codec_def list_all_iff)
  qed
  then show ?thesis by (simp add: pages_admitted_def demo_started_def demo_world_def)
qed

theorem replication_catches_up_witness:
  "rows_of ''node-a'' (md_log (nd_db (wo_nodes (healthy_rounds demo_codec demo_config demo_digest 1 demo_started) ''node-b'')))
    = rows_of ''node-a'' (md_log (wo_src demo_started))"
  using replication_catches_up[OF demo_config_ok demo_codec_ok demo_digest_match demo_fresh demo_service_run demo_ready _ demo_pages_admitted,
      of 1 "''node-b''"] demo_rows
  by (simp add: demo_config_def demo_started_def new_service_def)

definition small_peer :: "string \<Rightarrow> node" where
  \<comment> \<open>a peer configured to receive one record at a time\<close>
  "small_peer i = (demo_peer i)\<lparr>nd_fact_sink := Some 1\<rparr>"

theorem refused_page_stops_replication_witness:
  "\<exists>w'. run_of (service_step demo_codec demo_config demo_digest) (demo_started\<lparr>wo_nodes := small_peer\<rparr>)
       [Round (\<lambda>_. LinkUp) calm_disk, Round (\<lambda>_. LinkUp) calm_disk] w'
    \<and> sv_cursor (wo_sv w') = 0 \<and> nd_db (wo_nodes w' ''node-b'') = empty_memdb"
proof -
  let ?init = "demo_world\<lparr>wo_nodes := small_peer\<rparr>" and ?w = "demo_started\<lparr>wo_nodes := small_peer\<rparr>"
  have fresh: "fresh_world demo_config ?init"
    using demo_fresh by (simp add: fresh_world_def small_peer_def demo_world_def demo_peer_def list_all_iff)
  have "service_step demo_codec demo_config demo_digest ?init Restarted
      (?init\<lparr>wo_sv := start_service demo_config demo_digest (wo_files ?init)\<rparr>)"
    by (rule restarted)
  moreover have start: "start_service demo_config demo_digest (wo_files ?init) = new_service\<lparr>sv_started := True, sv_persistence := ''empty''\<rparr>"
    by (simp add: start_service_def read_persisted_state_def demo_world_def)
  moreover have "service_step demo_codec demo_config demo_digest
      (?init\<lparr>wo_sv := new_service\<lparr>sv_started := True, sv_persistence := ''empty''\<rparr>\<rparr>)
      (Appended [demo_mutation 1, demo_mutation 2]) (?init\<lparr>wo_sv := new_service\<lparr>sv_started := True, sv_persistence := ''empty''\<rparr>, wo_src := demo_db2\<rparr>)"
    using appended[of demo_codec "[demo_mutation 1, demo_mutation 2]" demo_config
        "?init\<lparr>wo_sv := new_service\<lparr>sv_started := True, sv_persistence := ''empty''\<rparr>\<rparr>" 2 demo_db2 demo_digest] demo_append demo_mutation_wf
    by (simp add: demo_config_def demo_world_def)
  ultimately have run: "run_of (service_step demo_codec demo_config demo_digest) ?init
      [Restarted, Appended [demo_mutation 1, demo_mutation 2]] ?w"
    by (auto simp: demo_started_def demo_world_def intro: run_of.intros)
  have rows: "length (rows_of ''node-a'' (md_log demo_db2)) = 2" using demo_rows by simp
  have no: "\<not> page_admitted demo_codec (wo_nodes ?w ''node-b'') (round_page demo_config (wo_src ?w) (sv_cursor (wo_sv ?w)))"
    using rows by (simp add: page_admitted_def fact_sink_accepts_def small_peer_def demo_peer_def demo_started_def demo_world_def
        new_service_def round_page_def demo_config_def)
  have go: "\<exists>v. service_step demo_codec demo_config demo_digest u (Round links df) v" for u links df
    using round by (metis surj_pair)
  obtain v w' where rounds: "run_of (service_step demo_codec demo_config demo_digest) ?w
      (map (\<lambda>(links, df). Round links df) [(\<lambda>_. LinkUp, calm_disk), (\<lambda>_. LinkUp, calm_disk)]) w'"
    using go[of ?w] go by (fastforce simp: run_of_Cons_iff run_of_Nil_iff)
  from refused_page_stops_replication[OF demo_config_ok demo_codec_ok fresh run _ no this] show ?thesis
    using rounds by (auto simp: demo_config_def demo_started_def demo_world_def new_service_def small_peer_def demo_peer_def)
qed

theorem own_documents_never_corrupt_witness:
  "\<exists>w'. run_of (service_step demo_codec demo_config demo_digest) demo_world
       ([Restarted, Appended [demo_mutation 1, demo_mutation 2]] @ [Round (\<lambda>_. LinkUp) calm_disk]) w'
    \<and> ((\<exists>x. read_persisted_state demo_config demo_digest (wo_files w') = Inr x)
       \<or> read_persisted_state demo_config demo_digest (wo_files w') = Inl ''incompatible'')"
proof -
  obtain w' where run: "run_of (service_step demo_codec demo_config demo_digest) demo_world
       ([Restarted, Appended [demo_mutation 1, demo_mutation 2]] @ [Round (\<lambda>_. LinkUp) calm_disk]) w'"
    using demo_round by blast
  from own_documents_never_corrupt[OF demo_config_ok demo_codec_ok demo_digest_match demo_fresh this] run show ?thesis
    by auto
qed

end
