(* ===== verification/BatchGuard.thy ===== *)
theory BatchGuard
  imports Prelude
begin

text \<open>
  \<^verbatim>\<open>sonder_runtime/domain/batch_coalescing.py\<close>: the guard that steers a run of single reads to the batch form
  of the tool, and the way \<^verbatim>\<open>server.py\<close> drives it in the agent loop. Per family of tools the guard keeps the
  targets read singly in the current window, the targets whose read failed, those a batch call returned, and
  the refusals issued. The host answers how a target resolves to a path, whether the batch tool is admissible
  and what \<^verbatim>\<open>json.loads\<close> makes of a text; it may answer differently on every call. A Python set is a list without
  duplicates. The wording of the advisory and of the refusal is not modelled, their data is.
\<close>

section \<open>Counterparts and thresholds\<close>

record batch_counterpart =
  cp_single_tool :: string
  cp_batch_tool :: string
  cp_target_argument :: string
  cp_batch_argument :: string
  cp_family :: string

definition trimmed_field :: "string \<Rightarrow> pyval \<Rightarrow> string res" where
  "trimmed_field field v =
     (case v of
        PyStr s \<Rightarrow> if py_strip s = [] \<or> py_strip s \<noteq> s
                   then Inl (ValueError (''batch counterpart '' @ field @ '' must be a non-empty trimmed string''))
                   else Inr s
      | _ \<Rightarrow> Inl (ValueError (''batch counterpart '' @ field @ '' must be a non-empty trimmed string'')))"

definition mk_batch_counterpart :: "pyval \<Rightarrow> pyval \<Rightarrow> pyval \<Rightarrow> pyval \<Rightarrow> pyval \<Rightarrow> batch_counterpart res" where
  "mk_batch_counterpart single_tool batch_tool target_argument batch_argument family =
     rbind (trimmed_field ''single_tool'' single_tool) (\<lambda>s.
     rbind (trimmed_field ''batch_tool'' batch_tool) (\<lambda>b.
     rbind (trimmed_field ''target_argument'' target_argument) (\<lambda>t.
     rbind (trimmed_field ''batch_argument'' batch_argument) (\<lambda>a.
     rbind (trimmed_field ''family'' family) (\<lambda>f.
       if s = b then Inl (ValueError ''a batch counterpart must name two different tools'')
       else Inr \<lparr>cp_single_tool = s, cp_batch_tool = b, cp_target_argument = t, cp_batch_argument = a,
                 cp_family = f\<rparr>)))))"

definition candidate_counterparts :: "batch_counterpart list" where
  "candidate_counterparts =
     [\<lparr>cp_single_tool = ''file_read'', cp_batch_tool = ''context_pack'', cp_target_argument = ''path'',
       cp_batch_argument = ''paths_json'', cp_family = ''file-read''\<rparr>]"

fun resolve_loop ::
  "string list \<Rightarrow> string list \<Rightarrow> string list \<Rightarrow> string list \<Rightarrow> batch_counterpart list \<Rightarrow> batch_counterpart list" where
  "resolve_loop registered read_only changing seen [] = []"
| "resolve_loop registered read_only changing seen (c # cs) =
     (let tools = [cp_single_tool c, cp_batch_tool c] in
      if cp_single_tool c \<in> set seen then resolve_loop registered read_only changing seen cs
      else if \<not> list_all (\<lambda>t. t \<in> set registered) tools then resolve_loop registered read_only changing seen cs
      else if \<not> list_all (\<lambda>t. t \<in> set read_only) tools then resolve_loop registered read_only changing seen cs
      else if list_ex (\<lambda>t. t \<in> set changing) tools then resolve_loop registered read_only changing seen cs
      else c # resolve_loop registered read_only changing (cp_single_tool c # seen) cs)"

definition resolve_counterparts ::
  "batch_counterpart list \<Rightarrow> string list \<Rightarrow> string list \<Rightarrow> string list \<Rightarrow> batch_counterpart list" where
  "resolve_counterparts candidates registered read_only state_changing =
     resolve_loop registered read_only state_changing [] candidates"

record batch_config =
  bc_advisory_after :: int
  bc_refuse_after :: int
  bc_max_refusals :: int

definition strict_int :: "pyval \<Rightarrow> string \<Rightarrow> int res" where
  "strict_int v name = (case v of PyInt n \<Rightarrow> Inr n | _ \<Rightarrow> Inl (ValueError (name @ '' must be an integer'')))"

abbreviation max_threshold :: int where
  "max_threshold \<equiv> 20 - 1"

definition mk_batch_config :: "pyval \<Rightarrow> pyval \<Rightarrow> pyval \<Rightarrow> batch_config res" where
  "mk_batch_config advisory_after refuse_after max_refusals =
     rbind (strict_int advisory_after ''advisory_after'') (\<lambda>advisory.
     rbind (strict_int refuse_after ''refuse_after'') (\<lambda>refuse.
     rbind (strict_int max_refusals ''max_refusals'') (\<lambda>refusals.
       if \<not> (2 \<le> advisory \<and> advisory \<le> max_threshold)
       then Inl (ValueError ''advisory_after must be between 2 and 19'')
       else if \<not> (advisory \<le> refuse \<and> refuse \<le> max_threshold)
       then Inl (ValueError ''refuse_after must be between advisory_after and 19'')
       else if \<not> (1 \<le> refusals \<and> refusals \<le> 10)
       then Inl (ValueError ''max_refusals must be between 1 and 10'')
       else Inr \<lparr>bc_advisory_after = advisory, bc_refuse_after = refuse, bc_max_refusals = refusals\<rparr>)))"

definition default_batch_config :: batch_config where
  "default_batch_config = \<lparr>bc_advisory_after = 3, bc_refuse_after = 6, bc_max_refusals = 3\<rparr>"

text \<open>One optional setting: \<^verbatim>\<open>int\<close> refuses texts of more than 4300 digits.\<close>

definition env_threshold :: "(string, string) dict \<Rightarrow> string \<Rightarrow> int \<Rightarrow> int res" where
  "env_threshold env key dflt =
     (case map_of env key of
        None \<Rightarrow> Inr dflt
      | Some raw \<Rightarrow>
          if py_strip raw = [] then Inr dflt
          else
            let t = py_strip raw in
            if \<not> list_all ascii_digit t then Inl (ValueError (key @ '' must be a positive integer''))
            else if 4300 < length t then Inl (ValueError
              (''Exceeds the limit (4300 digits) for integer string conversion: value has '' @ dec_nat (length t)
               @ '' digits; use sys.set_int_max_str_digits() to increase the limit''))
            else Inr (int (decimal_value t)))"

definition config_from_environ :: "(string, string) dict \<Rightarrow> batch_config res" where
  "config_from_environ env =
     rbind (env_threshold env ''SONDER_AGENT_BATCH_ADVISORY_AFTER'' 3) (\<lambda>advisory.
     rbind (env_threshold env ''SONDER_AGENT_BATCH_REFUSE_AFTER'' 6) (\<lambda>refuse.
     rbind (env_threshold env ''SONDER_AGENT_BATCH_MAX_REFUSALS'' 3) (\<lambda>refusals.
       mk_batch_config (PyInt advisory) (PyInt refuse) (PyInt refusals))))"

definition agent_batch_config :: "(string, string) dict \<Rightarrow> batch_config" where
  "agent_batch_config env =
     (case config_from_environ env of Inl _ \<Rightarrow> default_batch_config | Inr c \<Rightarrow> c)"

definition recommended_batch_size :: "int \<Rightarrow> int" where
  "recommended_batch_size view_chars = max 1 (view_chars div 1500)"

section \<open>Target identity\<close>

text \<open>
  \<^verbatim>\<open>posixpath.normpath\<close>. \<^verbatim>\<open>casefold\<close> is the lower case with two letters for the sharp s; it sends the micro sign
  to a letter above U+00FF, to which nothing else in the range folds, and the model keeps the micro sign.
\<close>

definition casefold_char :: "char \<Rightarrow> string" where
  "casefold_char c = (if (of_char c :: nat) = 223 then ''ss'' else [py_lower_char c])"

definition py_casefold :: "string \<Rightarrow> string" where
  "py_casefold s = concat (map casefold_char s)"

definition initial_slashes :: "string \<Rightarrow> nat" where
  "initial_slashes p =
     (if take 2 p = ''//'' \<and> take 3 p \<noteq> ''///'' then 2 else if take 1 p = ''/'' then 1 else 0)"

fun norm_comps :: "bool \<Rightarrow> string list \<Rightarrow> string list \<Rightarrow> string list" where
  \<comment> \<open>the components kept so far are in reverse\<close>
  "norm_comps rooted new [] = rev new"
| "norm_comps rooted new (part # parts) =
     (if part = [] \<or> part = ''.'' then norm_comps rooted new parts
      else if part \<noteq> ''..'' \<or> \<not> rooted \<and> new = [] \<or> new \<noteq> [] \<and> hd new = ''..''
      then norm_comps rooted (part # new) parts
      else if new \<noteq> [] then norm_comps rooted (tl new) parts
      else norm_comps rooted new parts)"

definition normpath :: "string \<Rightarrow> string" where
  "normpath p =
     (if p = [] then ''.''
      else
        let slashes = initial_slashes p;
            comps = norm_comps (slashes \<noteq> 0) [] (split_on (CHR ''/'') p);
            q = List.replicate slashes (CHR ''/'') @ py_join ''/'' comps
        in if q = [] then ''.'' else q)"

definition target_key :: "pyval \<Rightarrow> string option" where
  "target_key v =
     (case v of
        PyStr s \<Rightarrow>
          (let t = py_strip s in
           if t = [] then None
           else Some (py_casefold (normpath (map (\<lambda>c. if c = CHR 0x5C then CHR ''/'' else c) t))))
      | _ \<Rightarrow> None)"

section \<open>The guard\<close>

record batch_host =
  bh_resolve :: "string \<Rightarrow> string"
  bh_admissible :: "batch_counterpart \<Rightarrow> string \<Rightarrow> bool"
  bh_loads :: "string \<Rightarrow> pyval res"

datatype call_args = ArgDict "(string, pyval) dict" | ArgOther

definition arg_get :: "call_args \<Rightarrow> string \<Rightarrow> pyval" where
  \<comment> \<open>\<^verbatim>\<open>args.get(name) if isinstance(args, dict) else None\<close>\<close>
  "arg_get args name =
     (case args of
        ArgDict d \<Rightarrow> (case map_of d name of None \<Rightarrow> PyNone | Some v \<Rightarrow> v)
      | ArgOther \<Rightarrow> PyNone)"

record batch_guard =
  bg_config :: batch_config
  bg_by_single :: "(string, batch_counterpart) dict"
  bg_by_batch :: "(string, batch_counterpart list) dict"
  bg_view_chars :: int
  bg_targets :: "(string, string list) dict"
  bg_attempted :: "(string, string list) dict"
  bg_covered :: "(string, string list) dict"
  bg_refusals :: "(string, int) dict"
  bg_stat_advisories :: int
  bg_stat_refusals :: int
  bg_stat_resets :: int

record batch_advisory =
  ba_counterpart :: batch_counterpart
  ba_distinct_targets :: int
  ba_refuse_after :: int
  ba_view_chars :: int

record batch_refusal =
  br_counterpart :: batch_counterpart
  br_target :: string
  br_distinct_targets :: int
  br_refuse_after :: int
  br_refusals :: int
  br_max_refusals :: int
  br_view_chars :: int

definition exhausted :: "batch_refusal \<Rightarrow> bool" where
  "exhausted r = (br_max_refusals r \<le> br_refusals r)"

definition keys_of :: "(string, string list) dict \<Rightarrow> string \<Rightarrow> string list" where
  "keys_of d f = (case map_of d f of None \<Rightarrow> [] | Some ks \<Rightarrow> ks)"

definition refusal_count :: "(string, int) dict \<Rightarrow> string \<Rightarrow> int" where
  "refusal_count d f = (case map_of d f of None \<Rightarrow> 0 | Some n \<Rightarrow> n)"

fun index_single :: "batch_counterpart list \<Rightarrow> (string, batch_counterpart) dict \<Rightarrow> (string, batch_counterpart) dict" where
  "index_single [] d = d"
| "index_single (c # cs) d =
     index_single cs (case map_of d (cp_single_tool c) of
        None \<Rightarrow> AList.update (cp_single_tool c) c d | Some _ \<Rightarrow> d)"

fun index_batch ::
  "batch_counterpart list \<Rightarrow> (string, batch_counterpart list) dict \<Rightarrow> (string, batch_counterpart list) dict" where
  "index_batch [] d = d"
| "index_batch (c # cs) d =
     index_batch cs (AList.update (cp_batch_tool c)
        ((case map_of d (cp_batch_tool c) of None \<Rightarrow> [] | Some l \<Rightarrow> l) @ [c]) d)"

definition new_batch_guard :: "batch_counterpart list \<Rightarrow> batch_config option \<Rightarrow> pyval \<Rightarrow> batch_guard res" where
  "new_batch_guard counterparts config view_chars =
     (case view_chars of
        PyInt n \<Rightarrow>
          if n < 0 then Inl (ValueError ''view_chars must be a non-negative integer'')
          else Inr \<lparr>bg_config = (case config of None \<Rightarrow> default_batch_config | Some c \<Rightarrow> c),
                    bg_by_single = index_single counterparts [], bg_by_batch = index_batch counterparts [],
                    bg_view_chars = n, bg_targets = [], bg_attempted = [], bg_covered = [], bg_refusals = [],
                    bg_stat_advisories = 0, bg_stat_refusals = 0, bg_stat_resets = 0\<rparr>
      | _ \<Rightarrow> Inl (ValueError ''view_chars must be a non-negative integer''))"

definition guard_active :: "batch_guard \<Rightarrow> bool" where
  "guard_active g = (bg_by_single g \<noteq> [])"

definition guard_key :: "batch_host \<Rightarrow> pyval \<Rightarrow> string option" where
  "guard_key h v =
     (case v of
        PyStr s \<Rightarrow> if py_strip s = [] then None else target_key (PyStr (bh_resolve h (py_strip s)))
      | _ \<Rightarrow> None)"

definition guard_exempt :: "batch_guard \<Rightarrow> batch_counterpart \<Rightarrow> string \<Rightarrow> bool" where
  "guard_exempt g cp key =
     (key \<in> set (keys_of (bg_targets g) (cp_family cp))
      \<or> key \<in> set (keys_of (bg_attempted g) (cp_family cp))
      \<or> key \<in> set (keys_of (bg_covered g) (cp_family cp)))"

definition item_keys :: "batch_host \<Rightarrow> pyval list \<Rightarrow> string list" where
  "item_keys h items = remdups (List.map_filter (guard_key h) items)"

definition batch_keys :: "batch_host \<Rightarrow> batch_counterpart \<Rightarrow> call_args \<Rightarrow> string list res" where
  "batch_keys h cp args =
     (let of_items = (\<lambda>v. case v of PyList vs \<Rightarrow> item_keys h vs | PyTuple vs \<Rightarrow> item_keys h vs | _ \<Rightarrow> []) in
      case arg_get args (cp_batch_argument cp) of
        PyStr s \<Rightarrow> (case bh_loads h s of Inl (ValueError _) \<Rightarrow> Inr [] | Inl e \<Rightarrow> Inl e | Inr v \<Rightarrow> Inr (of_items v))
      | v \<Rightarrow> Inr (of_items v))"

definition stripped :: "pyval \<Rightarrow> string" where
  \<comment> \<open>\<^verbatim>\<open>raw.strip()\<close>, evaluated only where \<open>guard_key\<close> found a text\<close>
  "stripped v = (case v of PyStr s \<Rightarrow> py_strip s | _ \<Rightarrow> [])"

definition before_dispatch ::
  "batch_host \<Rightarrow> batch_guard \<Rightarrow> string \<Rightarrow> call_args \<Rightarrow> batch_refusal option \<times> batch_guard" where
  "before_dispatch h g tool args =
     (case map_of (bg_by_single g) tool of
        None \<Rightarrow> (None, g)
      | Some cp \<Rightarrow>
          (let raw = arg_get args (cp_target_argument cp); fam = cp_family cp in
           case guard_key h raw of
             None \<Rightarrow> (None, g)
           | Some key \<Rightarrow>
               if guard_exempt g cp key then (None, g)
               else
                 let n = int (length (keys_of (bg_targets g) fam)) in
                 if n < bc_refuse_after (bg_config g) then (None, g)
                 else if \<not> bh_admissible h cp (stripped raw) then (None, g)
                 else
                   let refusals = refusal_count (bg_refusals g) fam + 1 in
                   (Some \<lparr>br_counterpart = cp, br_target = stripped raw, br_distinct_targets = n,
                          br_refuse_after = bc_refuse_after (bg_config g), br_refusals = refusals,
                          br_max_refusals = bc_max_refusals (bg_config g), br_view_chars = bg_view_chars g\<rparr>,
                    g\<lparr>bg_refusals := AList.update fam refusals (bg_refusals g),
                      bg_stat_refusals := bg_stat_refusals g + 1\<rparr>)))"

text \<open>
  A successful call of a batch tool restarts the window of each of its families. An exception of
  \<^verbatim>\<open>json.loads\<close> other than \<^verbatim>\<open>ValueError\<close> (a \<^verbatim>\<open>RecursionError\<close>) leaves the loop with the windows restarted so far.
\<close>

fun close_windows :: "batch_host \<Rightarrow> call_args \<Rightarrow> batch_counterpart list \<Rightarrow> batch_guard \<Rightarrow> unit res \<times> batch_guard" where
  "close_windows h args [] g = (Inr (), g)"
| "close_windows h args (cp # cps) g =
     (let fam = cp_family cp;
          g1 = g\<lparr>bg_targets := AList.delete fam (bg_targets g),
                 bg_refusals := AList.delete fam (bg_refusals g),
                 bg_covered := AList.update fam (keys_of (bg_covered g) fam) (bg_covered g)\<rparr> in
      case batch_keys h cp args of
        Inl e \<Rightarrow> (Inl e, g1)
      | Inr ks \<Rightarrow>
          close_windows h args cps
            (g1\<lparr>bg_covered := AList.update fam (List.union ks (keys_of (bg_covered g) fam)) (bg_covered g1)\<rparr>))"

definition account_single ::
  "batch_host \<Rightarrow> batch_guard \<Rightarrow> string \<Rightarrow> call_args \<Rightarrow> bool \<Rightarrow> batch_advisory option \<times> batch_guard" where
  "account_single h g tool args ok =
     (case map_of (bg_by_single g) tool of
        None \<Rightarrow> (None, g)
      | Some cp \<Rightarrow>
          (let raw = arg_get args (cp_target_argument cp); fam = cp_family cp in
           case guard_key h raw of
             None \<Rightarrow> (None, g)
           | Some key \<Rightarrow>
               if \<not> ok then
                 (None, if guard_exempt g cp key then g
                        else g\<lparr>bg_attempted := AList.update fam
                                 (List.insert key (keys_of (bg_attempted g) fam)) (bg_attempted g)\<rparr>)
               else if guard_exempt g cp key then (None, g)
               else
                 let window = List.insert key (keys_of (bg_targets g) fam);
                     g1 = g\<lparr>bg_targets := AList.update fam window (bg_targets g)\<rparr> in
                 if int (length window) < bc_advisory_after (bg_config g) then (None, g1)
                 else if \<not> bh_admissible h cp (stripped raw) then (None, g1)
                 else
                   (Some \<lparr>ba_counterpart = cp, ba_distinct_targets = int (length window),
                          ba_refuse_after = bc_refuse_after (bg_config g), ba_view_chars = bg_view_chars g\<rparr>,
                    g1\<lparr>bg_stat_advisories := bg_stat_advisories g + 1\<rparr>)))"

definition after_dispatch ::
  "batch_host \<Rightarrow> batch_guard \<Rightarrow> string \<Rightarrow> call_args \<Rightarrow> bool \<Rightarrow> batch_advisory option res \<times> batch_guard" where
  "after_dispatch h g tool args ok =
     (case (if ok then close_windows h args (case map_of (bg_by_batch g) tool of None \<Rightarrow> [] | Some cps \<Rightarrow> cps) g
            else (Inr (), g)) of
        (Inl e, g1) \<Rightarrow> (Inl e, g1)
      | (Inr _, g1) \<Rightarrow> (case account_single h g1 tool args ok of (a, g2) \<Rightarrow> (Inr a, g2)))"

definition guard_reset :: "batch_guard \<Rightarrow> batch_guard" where
  "guard_reset g =
     g\<lparr>bg_stat_resets := (if bg_targets g \<noteq> [] \<or> bg_attempted g \<noteq> [] \<or> bg_covered g \<noteq> [] \<or> bg_refusals g \<noteq> []
                           then bg_stat_resets g + 1 else bg_stat_resets g),
       bg_targets := [], bg_attempted := [], bg_covered := [], bg_refusals := []\<rparr>"

section \<open>The agent loop\<close>

text \<open>
  How \<^verbatim>\<open>server.py\<close> consults the guard. A call is checked unless another guard already stops it or the host
  demands its retry; a dispatched call is accounted for, or restarts the windows when it may have changed
  state; and a run whose calls an argument-aware policy budgets is never steered.
\<close>

definition agent_admissible ::
  "bool \<Rightarrow> string list option \<Rightarrow> (string \<Rightarrow> bool) \<Rightarrow> batch_counterpart \<Rightarrow> string \<Rightarrow> bool" where
  "agent_admissible tool_policy allowed_tools run_refuses cp target =
     (if tool_policy then False
      else if (case allowed_tools of None \<Rightarrow> False | Some ts \<Rightarrow> cp_batch_tool cp \<notin> set ts) then False
      else \<not> run_refuses (cp_batch_tool cp))"

definition agent_counterparts :: "string list \<Rightarrow> string list \<Rightarrow> batch_counterpart list \<Rightarrow> batch_counterpart list" where
  "agent_counterparts required_tools abort_on_tool_failure cps =
     filter (\<lambda>cp. cp_single_tool cp \<notin> set required_tools \<and> cp_single_tool cp \<notin> set abort_on_tool_failure) cps"

record call_state =
  cs_prior_identical_failures :: nat
  cs_policy_error :: bool
  cs_cached_inspection :: bool
  cs_completion_blocking :: bool
  cs_host_answers :: bool

definition agent_check ::
  "batch_host \<Rightarrow> call_state \<Rightarrow> batch_guard \<Rightarrow> string \<Rightarrow> call_args \<Rightarrow> batch_refusal option \<times> batch_guard" where
  "agent_check h cs g tool args =
     (if cs_prior_identical_failures cs < 2 \<and> \<not> cs_policy_error cs \<and> \<not> cs_cached_inspection cs
         \<and> \<not> cs_completion_blocking cs
      then before_dispatch h g tool args else (None, g))"

definition agent_account ::
  "batch_host \<Rightarrow> batch_guard \<Rightarrow> string \<Rightarrow> call_args \<Rightarrow> bool \<Rightarrow> bool \<Rightarrow> bool \<Rightarrow> bool
     \<Rightarrow> batch_advisory option res \<times> batch_guard" where
  "agent_account h g tool args dispatched mutation execution ok =
     (let (a, g1) = (if dispatched \<and> \<not> (mutation \<or> execution) then after_dispatch h g tool args ok else (Inr None, g)) in
      if mutation \<or> execution then (a, guard_reset g1) else (a, g1))"

text \<open>
  One tool call of the turn, from the check to the bookkeeping. It is dispatched unless one of the guards
  before stops it or the host answers in place of the tool (a repeated web call, a listing of the tools).
\<close>

definition agent_call ::
  "batch_host \<Rightarrow> call_state \<Rightarrow> batch_guard \<Rightarrow> string \<Rightarrow> call_args \<Rightarrow> bool \<Rightarrow> bool \<Rightarrow> bool
     \<Rightarrow> batch_refusal option \<times> batch_advisory option res \<times> batch_guard" where
  "agent_call h cs g tool args mutates executes ok =
     (let (refusal, g1) = agent_check h cs g tool args;
          dispatched = (cs_prior_identical_failures cs < 2 \<and> \<not> cs_host_answers cs \<and> \<not> cs_policy_error cs
                        \<and> refusal = None \<and> \<not> cs_cached_inspection cs);
          (advisory, g2) = agent_account h g1 tool args dispatched (dispatched \<and> mutates) (dispatched \<and> executes) ok
      in (refusal, advisory, g2))"

section \<open>Histories\<close>

text \<open>
  A history lists, newest first, what was asked of the guard and what it answered. From the history alone the
  following functions read off what the guard may hold against a call: the single reads of the current
  window, the targets batch calls returned since the last restart, and the refusals of the window.
\<close>

datatype guard_label =
    Checked batch_host string call_args "batch_refusal option"
  | Dispatched batch_host string call_args bool "batch_advisory option"
  | Restarted

type_synonym guard_history = "guard_label list"

inductive guard_step :: "batch_guard \<times> guard_history \<Rightarrow> guard_label \<Rightarrow> batch_guard \<times> guard_history \<Rightarrow> bool" where
  gs_check: "before_dispatch h g tool args = (r, g') \<Longrightarrow>
     guard_step (g, hist) (Checked h tool args r) (g', Checked h tool args r # hist)"
| gs_dispatch: "after_dispatch h g tool args ok = (Inr a, g') \<Longrightarrow>
     guard_step (g, hist) (Dispatched h tool args ok a) (g', Dispatched h tool args ok a # hist)"
| gs_reset: "guard_step (g, hist) Restarted (guard_reset g, Restarted # hist)"

inductive_simps guard_step_simps [simp]:
  "guard_step (g, hist) (Checked h tool args r) st"
  "guard_step (g, hist) (Dispatched h tool args ok a) st"
  "guard_step (g, hist) Restarted st"

type_synonym single_index = "(string, batch_counterpart) dict"
type_synonym batch_index = "(string, batch_counterpart list) dict"

fun single_read :: "single_index \<Rightarrow> string \<Rightarrow> guard_label \<Rightarrow> (string \<times> bool) list" where
  "single_read bs f (Dispatched h tool args ok a) =
     (case map_of bs tool of
        None \<Rightarrow> []
      | Some cp \<Rightarrow>
          if cp_family cp \<noteq> f then []
          else (case guard_key h (arg_get args (cp_target_argument cp)) of None \<Rightarrow> [] | Some k \<Rightarrow> [(k, ok)]))"
| "single_read bs f _ = []"

definition batch_forms :: "batch_index \<Rightarrow> string \<Rightarrow> batch_counterpart list" where
  "batch_forms bb tool = (case map_of bb tool of None \<Rightarrow> [] | Some cps \<Rightarrow> cps)"

fun closes :: "batch_index \<Rightarrow> string \<Rightarrow> guard_label \<Rightarrow> bool" where
  "closes bb f Restarted = True"
| "closes bb f (Dispatched h tool args ok a) = (ok \<and> list_ex (\<lambda>cp. cp_family cp = f) (batch_forms bb tool))"
| "closes bb f (Checked h tool args r) = False"

fun window_reads :: "single_index \<Rightarrow> batch_index \<Rightarrow> string \<Rightarrow> guard_history \<Rightarrow> (string \<times> bool) list" where
  "window_reads bs bb f [] = []"
| "window_reads bs bb f (l # hist) =
     single_read bs f l @ (if closes bb f l then [] else window_reads bs bb f hist)"

definition returned_keys :: "batch_host \<Rightarrow> string \<Rightarrow> call_args \<Rightarrow> batch_counterpart list \<Rightarrow> string list" where
  "returned_keys h f args cps =
     concat (map (\<lambda>cp. case batch_keys h cp args of Inl _ \<Rightarrow> [] | Inr ks \<Rightarrow> ks) (filter (\<lambda>cp. cp_family cp = f) cps))"

fun batch_returned :: "batch_index \<Rightarrow> string \<Rightarrow> guard_history \<Rightarrow> string list" where
  "batch_returned bb f [] = []"
| "batch_returned bb f (Restarted # hist) = []"
| "batch_returned bb f (Dispatched h tool args ok a # hist) =
     (if ok then returned_keys h f args (batch_forms bb tool) else []) @ batch_returned bb f hist"
| "batch_returned bb f (Checked h tool args r # hist) = batch_returned bb f hist"

fun window_refusals :: "batch_index \<Rightarrow> string \<Rightarrow> guard_history \<Rightarrow> int" where
  "window_refusals bb f [] = 0"
| "window_refusals bb f (l # hist) =
     (case l of Checked _ _ _ (Some r) \<Rightarrow> if cp_family (br_counterpart r) = f then 1 else 0 | _ \<Rightarrow> 0)
     + (if closes bb f l then 0 else window_refusals bb f hist)"

definition guard_inv :: "single_index \<Rightarrow> batch_index \<Rightarrow> batch_config \<Rightarrow> batch_guard \<times> guard_history \<Rightarrow> bool" where
  "guard_inv bs bb c = (\<lambda>(g, hist).
     bg_by_single g = bs \<and> bg_by_batch g = bb \<and> bg_config g = c \<and>
     (\<forall>f. distinct (keys_of (bg_targets g) f)
        \<and> set (keys_of (bg_targets g) f) \<subseteq> {k. (k, True) \<in> set (window_reads bs bb f hist)}
        \<and> fst ` set (window_reads bs bb f hist)
            \<subseteq> set (keys_of (bg_targets g) f) \<union> set (keys_of (bg_attempted g) f) \<union> set (keys_of (bg_covered g) f)
        \<and> set (batch_returned bb f hist) \<subseteq> set (keys_of (bg_covered g) f)
        \<and> refusal_count (bg_refusals g) f = window_refusals bb f hist))"

lemma keys_of_simps [simp]:
  "keys_of [] f = []"
  "keys_of (AList.update f' ks d) f = (if f = f' then ks else keys_of d f)"
  "keys_of (AList.delete f' d) f = (if f = f' then [] else keys_of d f)"
  by (auto simp: keys_of_def dict_simps)

lemma refusal_count_simps [simp]:
  "refusal_count [] f = 0"
  "refusal_count (AList.update f' n d) f = (if f = f' then n else refusal_count d f)"
  "refusal_count (AList.delete f' d) f = (if f = f' then 0 else refusal_count d f)"
  by (auto simp: refusal_count_def dict_simps)

lemma close_windows_frame:
  assumes "close_windows h args cps g = (r, g')"
  shows "bg_by_single g' = bg_by_single g" "bg_by_batch g' = bg_by_batch g" "bg_config g' = bg_config g"
    "bg_attempted g' = bg_attempted g"
  using assms by (induction cps arbitrary: g) (auto simp: Let_def split: sum.splits)

lemma close_windows_family:
  assumes "close_windows h args cps g = (Inr u, g')"
  shows "keys_of (bg_targets g') f = (if list_ex (\<lambda>cp. cp_family cp = f) cps then [] else keys_of (bg_targets g) f)"
    "refusal_count (bg_refusals g') f =
       (if list_ex (\<lambda>cp. cp_family cp = f) cps then 0 else refusal_count (bg_refusals g) f)"
    "set (keys_of (bg_covered g') f) = set (returned_keys h f args cps) \<union> set (keys_of (bg_covered g) f)"
  using assms
  by (induction cps arbitrary: g) (auto simp: Let_def returned_keys_def split: sum.splits if_splits)

lemma account_single_frame:
  assumes "account_single h g tool args ok = (a, g')"
  shows "bg_by_single g' = bg_by_single g" "bg_by_batch g' = bg_by_batch g" "bg_config g' = bg_config g"
    "bg_covered g' = bg_covered g" "bg_refusals g' = bg_refusals g"
  using assms by (auto simp: account_single_def Let_def split: option.splits if_splits)

lemma account_single_family:
  fixes f b
  assumes "account_single h g tool args ok = (a, g')"
  defines "rd \<equiv> single_read (bg_by_single g) f (Dispatched h tool args ok b)"
    and "ex \<equiv> set (keys_of (bg_attempted g) f) \<union> set (keys_of (bg_covered g) f)"
  shows "keys_of (bg_targets g') f =
      (if \<exists>k. rd = [(k, True)] \<and> k \<notin> ex then List.insert (fst (hd rd)) (keys_of (bg_targets g) f)
       else keys_of (bg_targets g) f)"
    and "set (keys_of (bg_attempted g') f) =
      set (keys_of (bg_attempted g) f) \<union> {k. rd = [(k, False)] \<and> k \<notin> ex \<and> k \<notin> set (keys_of (bg_targets g) f)}"
  using assms(1) unfolding rd_def ex_def
  by (auto simp: account_single_def guard_exempt_def Let_def split: option.splits if_splits)

lemma after_dispatch_Inr:
  assumes "after_dispatch h g tool args ok = (Inr a, g')"
  shows "\<exists>g1. account_single h g1 tool args ok = (a, g')
    \<and> (if ok then close_windows h args (batch_forms (bg_by_batch g) tool) g = (Inr (), g1) else g1 = g)"
  using assms by (cases ok) (auto simp: after_dispatch_def batch_forms_def split: prod.splits sum.splits)

lemma before_dispatch_frame:
  assumes "before_dispatch h g tool args = (r, g')"
  shows "bg_by_single g' = bg_by_single g" "bg_by_batch g' = bg_by_batch g" "bg_config g' = bg_config g"
    "bg_targets g' = bg_targets g" "bg_attempted g' = bg_attempted g" "bg_covered g' = bg_covered g"
    "refusal_count (bg_refusals g') f =
       (case r of None \<Rightarrow> 0 | Some r \<Rightarrow> if cp_family (br_counterpart r) = f then 1 else 0) + refusal_count (bg_refusals g) f"
  using assms by (auto simp: before_dispatch_def Let_def split: option.splits if_splits)

text \<open>What a dispatched call leaves behind: its batch part closes windows, its single part is accounted for.\<close>

lemma dispatch_parts:
  assumes step: "after_dispatch h g tool args ok = (Inr a, g')"
  defines "l \<equiv> Dispatched h tool args ok a" and "bb \<equiv> bg_by_batch g"
  shows "\<exists>g1. account_single h g1 tool args ok = (a, g')
    \<and> bg_by_single g1 = bg_by_single g \<and> bg_by_batch g1 = bb \<and> bg_config g1 = bg_config g
    \<and> bg_attempted g1 = bg_attempted g
    \<and> (\<forall>f. keys_of (bg_targets g1) f = (if closes bb f l then [] else keys_of (bg_targets g) f)
        \<and> refusal_count (bg_refusals g1) f = (if closes bb f l then 0 else refusal_count (bg_refusals g) f)
        \<and> set (keys_of (bg_covered g1) f) =
            (if ok then set (returned_keys h f args (batch_forms bb tool)) else {}) \<union> set (keys_of (bg_covered g) f))"
proof -
  obtain g1 where acc: "account_single h g1 tool args ok = (a, g')"
    and mid: "if ok then close_windows h args (batch_forms bb tool) g = (Inr (), g1) else g1 = g"
    using after_dispatch_Inr[OF step] by (auto simp: bb_def)
  show ?thesis
  proof (cases ok)
    case True
    with mid have c: "close_windows h args (batch_forms bb tool) g = (Inr (), g1)"
      by simp
    show ?thesis
      using acc close_windows_frame[OF c] close_windows_family[OF c] True
      by (intro exI[of _ g1]) (simp add: l_def bb_def)
  next
    case False
    then show ?thesis
      using acc mid by (intro exI[of _ g1]) (simp add: l_def bb_def)
  qed
qed

lemma guard_inv_dispatch:
  assumes step: "after_dispatch h g tool args ok = (Inr a, g')" and inv: "guard_inv bs bb c (g, hist)"
  shows "guard_inv bs bb c (g', Dispatched h tool args ok a # hist)"
proof -
  define l where "l = Dispatched h tool args ok a"
  obtain g1 where acc: "account_single h g1 tool args ok = (a, g')"
    and tables: "bg_by_single g1 = bs" "bg_by_batch g1 = bb" "bg_config g1 = c" "bg_attempted g1 = bg_attempted g"
    and mid: "\<And>f. keys_of (bg_targets g1) f = (if closes bb f l then [] else keys_of (bg_targets g) f)"
      "\<And>f. refusal_count (bg_refusals g1) f = (if closes bb f l then 0 else refusal_count (bg_refusals g) f)"
      "\<And>f. set (keys_of (bg_covered g1) f) =
        (if ok then set (returned_keys h f args (batch_forms bb tool)) else {}) \<union> set (keys_of (bg_covered g) f)"
    using dispatch_parts[OF step] inv unfolding l_def guard_inv_def prod.case by blast
  note frame = account_single_frame[OF acc]
    and fam = account_single_family[OF acc, of _ a, unfolded tables, folded l_def]
  have rd: "single_read bs f l = [] \<or> (\<exists>k. single_read bs f l = [(k, ok)])" for f
    unfolding l_def by (auto split: option.splits)
  have hist: "set (batch_returned bb f (l # hist)) =
      (if ok then set (returned_keys h f args (batch_forms bb tool)) else {}) \<union> set (batch_returned bb f hist)"
    "window_refusals bb f (l # hist) = (if closes bb f l then 0 else window_refusals bb f hist)" for f
    by (simp_all add: l_def)
  have step: "distinct (keys_of (bg_targets g') f)
      \<and> set (keys_of (bg_targets g') f) \<subseteq> {k. (k, True) \<in> set (window_reads bs bb f (l # hist))}
      \<and> fst ` set (window_reads bs bb f (l # hist))
          \<subseteq> set (keys_of (bg_targets g') f) \<union> set (keys_of (bg_attempted g') f) \<union> set (keys_of (bg_covered g') f)
      \<and> set (batch_returned bb f (l # hist)) \<subseteq> set (keys_of (bg_covered g') f)
      \<and> refusal_count (bg_refusals g') f = window_refusals bb f (l # hist)" for f
  proof -
    have "distinct (keys_of (bg_targets g) f)"
      "set (keys_of (bg_targets g) f) \<subseteq> {k. (k, True) \<in> set (window_reads bs bb f hist)}"
      "fst ` set (window_reads bs bb f hist)
         \<subseteq> set (keys_of (bg_targets g) f) \<union> set (keys_of (bg_attempted g) f) \<union> set (keys_of (bg_covered g) f)"
      "set (batch_returned bb f hist) \<subseteq> set (keys_of (bg_covered g) f)"
      "refusal_count (bg_refusals g) f = window_refusals bb f hist"
      using inv by (simp_all add: guard_inv_def)
    then show ?thesis
      using rd[of f] by (cases ok) (auto simp: fam mid frame(4,5) hist simp del: window_refusals.simps)
  qed
  then show ?thesis
    using tables frame(1-3) by (simp add: guard_inv_def flip: l_def)
qed

lemma guard_inv_step:
  assumes "guard_step s l t" "guard_inv bs bb c s"
  shows "guard_inv bs bb c t"
  using assms
proof cases
  case (gs_check h g tool args r g' hist)
  then show ?thesis
    using assms(2) before_dispatch_frame[OF gs_check(4)]
    by (auto simp: guard_inv_def split: option.splits)
next
  case (gs_dispatch h g tool args ok a g' hist)
  then show ?thesis
    using assms(2) guard_inv_dispatch by auto
next
  case (gs_reset g hist)
  then show ?thesis
    using assms(2) by (simp add: guard_inv_def guard_reset_def)
qed

interpretation guard_sys: invariant_system guard_step "guard_inv bs bb c" for bs bb c
  by unfold_locales (rule guard_inv_step)

lemma new_guard_inv:
  assumes "new_batch_guard cps config view = Inr g"
  shows "guard_inv (bg_by_single g) (bg_by_batch g) (bg_config g) (g, [])"
  using assms by (auto simp: new_batch_guard_def guard_inv_def split: pyval.splits if_splits)

section \<open>Refusals are earned\<close>

lemma resolve_loop_sound:
  assumes "cp \<in> set (resolve_loop registered read_only changing seen cs)"
  shows "cp \<in> set cs" "{cp_single_tool cp, cp_batch_tool cp} \<subseteq> set registered \<inter> set read_only - set changing"
  using assms by (induction cs arbitrary: seen) (auto simp: Let_def split: if_splits)

lemma index_single_sound:
  "map_of (index_single cps d) t = Some cp \<Longrightarrow> (cp \<in> set cps \<and> cp_single_tool cp = t) \<or> map_of d t = Some cp"
  by (induction cps arbitrary: d) (fastforce simp: dict_simps split: option.splits if_splits)+

lemma new_guard_fields:
  assumes "new_batch_guard cps config view = Inr g"
  shows "bg_by_single g = index_single cps []" "bg_targets g = []"
    "bg_config g = (case config of None \<Rightarrow> default_batch_config | Some c \<Rightarrow> c)"
  using assms by (auto simp: new_batch_guard_def split: pyval.splits if_splits)

lemma history_is_run: "run_of guard_step s ls t \<Longrightarrow> snd t = rev ls @ snd s"
  by (induction rule: run_of.induct) (auto elim: guard_step.cases)

lemma before_dispatch_refuses:
  assumes "before_dispatch h g tool args = (Some r, g')"
  shows "map_of (bg_by_single g) tool = Some (br_counterpart r)"
    and "\<exists>k. guard_key h (arg_get args (cp_target_argument (br_counterpart r))) = Some k
           \<and> \<not> guard_exempt g (br_counterpart r) k"
    and "bc_refuse_after (bg_config g) \<le> int (length (keys_of (bg_targets g) (cp_family (br_counterpart r))))"
    and "bh_admissible h (br_counterpart r) (br_target r)"
    and "br_refusals r = refusal_count (bg_refusals g) (cp_family (br_counterpart r)) + 1"
    and "br_max_refusals r = bc_max_refusals (bg_config g)"
  using assms by (auto simp: before_dispatch_def Let_def split: option.splits if_splits)

text \<open>
  (C36) A refusal is earned. Whatever checks, dispatched calls and restarts came before, with a host that may
  answer differently each time, a refused call is one of a registered read-only tool whose batch form is such
  a tool too and is admissible now; in the current window at least the configured number of distinct targets
  was read singly with success; the refused target itself was not read or tried singly in this window, nor
  returned by a batch call since the last restart; and the refusals are numbered within the window.
\<close>

theorem refusal_is_earned:
  assumes new: "new_batch_guard (resolve_counterparts candidates registered read_only changing) config view = Inr g0"
    and run: "run_of guard_step (g0, []) labels (g, hist)"
    and refused: "before_dispatch h g tool args = (Some r, g')"
  defines "cp \<equiv> br_counterpart r"
  defines "reads \<equiv> window_reads (bg_by_single g0) (bg_by_batch g0) (cp_family cp) (rev labels)"
  shows "cp_single_tool cp = tool
    \<and> {tool, cp_batch_tool cp} \<subseteq> set registered \<inter> set read_only - set changing
    \<and> bh_admissible h cp (br_target r)
    \<and> bc_refuse_after (bg_config g0) \<le> int (card {k. (k, True) \<in> set reads})
    \<and> (\<exists>k. guard_key h (arg_get args (cp_target_argument cp)) = Some k \<and> k \<notin> fst ` set reads
           \<and> k \<notin> set (batch_returned (bg_by_batch g0) (cp_family cp) (rev labels)))
    \<and> br_refusals r = window_refusals (bg_by_batch g0) (cp_family cp) (rev labels) + 1
    \<and> (exhausted r \<longleftrightarrow> bc_max_refusals (bg_config g0) \<le> br_refusals r)"
proof (intro conjI)
  note facts = before_dispatch_refuses[OF refused]
  have hist: "hist = rev labels"
    using history_is_run[OF run] by simp
  have inv: "guard_inv (bg_by_single g0) (bg_by_batch g0) (bg_config g0) (g, rev labels)"
    using guard_sys.inv_run[OF run new_guard_inv[OF new]] hist by simp
  have "map_of (index_single (resolve_counterparts candidates registered read_only changing) []) tool = Some cp"
    using facts(1) inv new_guard_fields[OF new] by (simp add: cp_def guard_inv_def)
  then have "cp \<in> set (resolve_counterparts candidates registered read_only changing)" and tool: "cp_single_tool cp = tool"
    using index_single_sound by fastforce+
  then show "{tool, cp_batch_tool cp} \<subseteq> set registered \<inter> set read_only - set changing"
    using resolve_loop_sound(2) unfolding resolve_counterparts_def by fastforce
  show "cp_single_tool cp = tool"
    by (fact tool)
  show "bh_admissible h cp (br_target r)"
    using facts(4) by (simp add: cp_def)
  have w: "distinct (keys_of (bg_targets g) (cp_family cp))"
    "set (keys_of (bg_targets g) (cp_family cp)) \<subseteq> {k. (k, True) \<in> set reads}"
    "fst ` set reads \<union> set (batch_returned (bg_by_batch g0) (cp_family cp) (rev labels)) \<subseteq> {k. guard_exempt g cp k}"
    using inv unfolding guard_inv_def prod.case reads_def guard_exempt_def by blast+
  have "finite {k. (k, True) \<in> set reads}"
    by (rule finite_subset[of _ "fst ` set reads"]) force+
  from card_mono[OF this w(2)]
  have "length (keys_of (bg_targets g) (cp_family cp)) \<le> card {k. (k, True) \<in> set reads}"
    using distinct_card[OF w(1)] by simp
  then show "bc_refuse_after (bg_config g0) \<le> int (card {k. (k, True) \<in> set reads})"
    using facts(3) inv by (simp add: cp_def guard_inv_def)
  show "\<exists>k. guard_key h (arg_get args (cp_target_argument cp)) = Some k \<and> k \<notin> fst ` set reads
           \<and> k \<notin> set (batch_returned (bg_by_batch g0) (cp_family cp) (rev labels))"
    using facts(2) w(3) unfolding cp_def by blast
  show "br_refusals r = window_refusals (bg_by_batch g0) (cp_family cp) (rev labels) + 1"
    using facts(5) inv by (simp add: cp_def guard_inv_def)
  show "exhausted r \<longleftrightarrow> bc_max_refusals (bg_config g0) \<le> br_refusals r"
    using facts(6) inv by (simp add: exhausted_def guard_inv_def)
qed

text \<open>With thresholds of two, a third file is refused after two were read one by one.\<close>

definition plain_host :: batch_host where
  "plain_host = \<lparr>bh_resolve = (\<lambda>t. t), bh_admissible = (\<lambda>cp t. True), bh_loads = (\<lambda>s. Inl (ValueError ''no JSON''))\<rparr>"

definition read_args :: "string \<Rightarrow> call_args" where
  "read_args path = ArgDict [(''path'', PyStr path)]"

definition steer_config :: batch_config where
  "steer_config = \<lparr>bc_advisory_after = 2, bc_refuse_after = 2, bc_max_refusals = 3\<rparr>"

definition demo_guard :: batch_guard where
  "demo_guard =
     \<lparr>bg_config = steer_config, bg_by_single = [(''file_read'', hd candidate_counterparts)],
      bg_by_batch = [(''context_pack'', candidate_counterparts)], bg_view_chars = 8000, bg_targets = [],
      bg_attempted = [], bg_covered = [], bg_refusals = [], bg_stat_advisories = 0, bg_stat_refusals = 0,
      bg_stat_resets = 0\<rparr>"

definition demo_one :: batch_guard where
  "demo_one = snd (after_dispatch plain_host demo_guard ''file_read'' (read_args ''src/a.py'') True)"

definition demo_two :: batch_guard where
  "demo_two = snd (after_dispatch plain_host demo_one ''file_read'' (read_args ''src/b.py'') True)"

definition demo_advice :: batch_advisory where
  "demo_advice = \<lparr>ba_counterpart = hd candidate_counterparts, ba_distinct_targets = 2, ba_refuse_after = 2, ba_view_chars = 8000\<rparr>"

definition demo_refusal :: batch_refusal where
  "demo_refusal = \<lparr>br_counterpart = hd candidate_counterparts, br_target = ''src/x/../c.py'', br_distinct_targets = 2,
     br_refuse_after = 2, br_refusals = 1, br_max_refusals = 3, br_view_chars = 8000\<rparr>"

definition demo_labels :: "guard_label list" where
  "demo_labels = [Dispatched plain_host ''file_read'' (read_args ''src/a.py'') True None,
     Dispatched plain_host ''file_read'' (read_args ''src/b.py'') True (Some demo_advice)]"

lemma demo_guard_steps:
  "new_batch_guard (resolve_counterparts candidate_counterparts [''file_read'', ''context_pack'']
     [''file_read'', ''context_pack''] [''file_write'']) (Some steer_config) (PyInt 8000) = Inr demo_guard"
  "after_dispatch plain_host demo_guard ''file_read'' (read_args ''src/a.py'') True = (Inr None, demo_one)"
  "after_dispatch plain_host demo_one ''file_read'' (read_args ''src/b.py'') True = (Inr (Some demo_advice), demo_two)"
  "before_dispatch plain_host demo_two ''file_read'' (read_args ''src/b.py'') = (None, demo_two)"
  "before_dispatch plain_host demo_two ''file_read'' (read_args '' src/x/../c.py'') =
     (Some demo_refusal, snd (before_dispatch plain_host demo_two ''file_read'' (read_args ''src/c.py'')))"
  by code_simp+

lemma demo_guard_run: "run_of guard_step (demo_guard, []) demo_labels (demo_two, rev demo_labels)"
  using demo_guard_steps(2,3) by (auto simp: demo_labels_def run_of_Cons_iff run_of_Nil_iff)

theorem refusal_is_earned_witness:
  "2 \<le> int (card {k. (k, True) \<in> set (window_reads (bg_by_single demo_guard) (bg_by_batch demo_guard) ''file-read''
       (rev demo_labels))})
   \<and> {''file_read'', ''context_pack''} \<subseteq> set [''file_read'', ''context_pack''] \<inter> set [''file_read'', ''context_pack''] - set [''file_write'']
   \<and> br_refusals demo_refusal = window_refusals (bg_by_batch demo_guard) ''file-read'' (rev demo_labels) + 1"
  using refusal_is_earned[OF demo_guard_steps(1) demo_guard_run demo_guard_steps(5)]
  by (simp add: demo_refusal_def demo_guard_def steer_config_def candidate_counterparts_def)

section \<open>The window is bounded\<close>

text \<open>The calls of one agent turn, in which the guard lives.\<close>

datatype agent_tool_call = ToolCall batch_host call_state string call_args bool bool bool

inductive agent_step :: "batch_guard \<Rightarrow> agent_tool_call \<Rightarrow> batch_guard \<Rightarrow> bool" where
  "agent_call h cs g tool args mutates executes ok = (r, Inr a, g') \<Longrightarrow>
     agent_step g (ToolCall h cs tool args mutates executes ok) g'"

fun steered :: "agent_tool_call \<Rightarrow> bool" where
  \<comment> \<open>not a retry the host demands\<close>
  "steered (ToolCall h cs tool args mutates executes ok) = (\<not> cs_completion_blocking cs)"

text \<open>A host that always finds the batch tool admissible, and agrees with the guard on which calls it steers.\<close>

definition always_admits :: "agent_tool_call \<Rightarrow> bool" where
  "always_admits call = (case call of ToolCall h _ _ _ _ _ _ \<Rightarrow> \<forall>cp t. bh_admissible h cp t)"

definition window_bound :: "batch_config \<Rightarrow> batch_guard \<Rightarrow> bool" where
  "window_bound c g = (bg_config g = c \<and> (\<forall>f. distinct (keys_of (bg_targets g) f)
     \<and> int (length (keys_of (bg_targets g) f)) \<le> bc_refuse_after c))"

lemma agent_batch_config_valid:
  "2 \<le> bc_advisory_after (agent_batch_config env) \<and> bc_advisory_after (agent_batch_config env) \<le> bc_refuse_after (agent_batch_config env)
   \<and> bc_refuse_after (agent_batch_config env) \<le> 19
   \<and> 1 \<le> bc_max_refusals (agent_batch_config env) \<and> bc_max_refusals (agent_batch_config env) \<le> 10"
proof (cases "config_from_environ env")
  case (Inr c)
  then have "\<exists>a b m. mk_batch_config (PyInt a) (PyInt b) (PyInt m) = Inr c"
    unfolding config_from_environ_def by auto
  then show ?thesis
    using Inr by (auto simp: agent_batch_config_def mk_batch_config_def strict_int_def split: if_splits)
qed (simp add: agent_batch_config_def default_batch_config_def)

lemma before_dispatch_room:
  assumes "before_dispatch h g tool args = (None, g')" "\<forall>cp t. bh_admissible h cp t"
  shows "g' = g"
    and "map_of (bg_by_single g) tool = Some cp \<Longrightarrow> guard_key h (arg_get args (cp_target_argument cp)) = Some k
      \<Longrightarrow> guard_exempt g cp k \<or> int (length (keys_of (bg_targets g) (cp_family cp))) < bc_refuse_after (bg_config g)"
  using assms by (auto simp: before_dispatch_def Let_def split: option.splits if_splits)

lemma after_dispatch_window:
  assumes dispatch: "after_dispatch h g tool args ok = (Inr a, g')"
    and bound: "window_bound c g" and two: "2 \<le> bc_refuse_after c"
    and room: "\<And>cp k. map_of (bg_by_single g) tool = Some cp \<Longrightarrow> guard_key h (arg_get args (cp_target_argument cp)) = Some k
      \<Longrightarrow> guard_exempt g cp k \<or> int (length (keys_of (bg_targets g) (cp_family cp))) < bc_refuse_after c"
  shows "window_bound c g'"
proof -
  obtain g1 where acc: "account_single h g1 tool args ok = (a, g')"
    and tables: "bg_by_single g1 = bg_by_single g" "bg_config g1 = bg_config g" "bg_attempted g1 = bg_attempted g"
    and mid: "\<And>f. keys_of (bg_targets g1) f =
        (if closes (bg_by_batch g) f (Dispatched h tool args ok a) then [] else keys_of (bg_targets g) f)"
      "\<And>f. set (keys_of (bg_covered g) f) \<subseteq> set (keys_of (bg_covered g1) f)"
    using dispatch_parts[OF dispatch] by blast
  have "distinct (keys_of (bg_targets g') f) \<and> int (length (keys_of (bg_targets g') f)) \<le> bc_refuse_after c" for f
  proof (cases "\<exists>k. single_read (bg_by_single g) f (Dispatched h tool args ok a) = [(k, True)]
      \<and> k \<notin> set (keys_of (bg_attempted g1) f) \<union> set (keys_of (bg_covered g1) f)
      \<and> k \<notin> set (keys_of (bg_targets g1) f)")
    case True
    then obtain k cp where k: "map_of (bg_by_single g) tool = Some cp" "cp_family cp = f"
        "guard_key h (arg_get args (cp_target_argument cp)) = Some k"
      and fresh: "k \<notin> set (keys_of (bg_attempted g1) f) \<union> set (keys_of (bg_covered g1) f) \<union> set (keys_of (bg_targets g1) f)"
      and new: "keys_of (bg_targets g') f = List.insert k (keys_of (bg_targets g1) f)"
      using account_single_family(1)[OF acc, of f a] tables(1) by (auto split: option.splits if_splits)
    have "closes (bg_by_batch g) f (Dispatched h tool args ok a) \<or> int (length (keys_of (bg_targets g) f)) < bc_refuse_after c"
      using room[OF k(1,3)] fresh k(2) tables(3) mid(1)[of f] mid(2)[of f]
      by (auto simp: guard_exempt_def split: if_splits)
    then show ?thesis
      using new fresh bound two by (auto simp: mid(1) window_bound_def)
  next
    case False
    then have "keys_of (bg_targets g') f = keys_of (bg_targets g1) f"
      using account_single_family(1)[OF acc, of f a] tables(1) by (auto split: if_splits)
    then show ?thesis
      using bound two by (auto simp: mid(1) window_bound_def)
  qed
  then show ?thesis
    using bound account_single_frame(3)[OF acc] tables(2) by (simp add: window_bound_def)
qed

lemma agent_step_window:
  assumes "agent_step g call g'" "steered call" "always_admits call" "window_bound c g" "2 \<le> bc_refuse_after c"
  shows "window_bound c g'"
  using assms
proof cases
  case (1 h cs tool args mutates executes ok r a)
  obtain g1 where check: "agent_check h cs g tool args = (r, g1)"
    using 1(2) by (auto simp: agent_call_def Let_def split: prod.splits)
  have g1: "bg_targets g1 = bg_targets g" "bg_config g1 = bg_config g"
    using check before_dispatch_frame[of h g tool args r g1] by (auto simp: agent_check_def split: if_splits)
  then have kept: "window_bound c g1"
    using assms(4) by (simp add: window_bound_def)
  have adm: "\<forall>cp t. bh_admissible h cp t" and cs: "\<not> cs_completion_blocking cs"
    using assms(2,3) 1(1) by (simp_all add: always_admits_def)
  have reset: "window_bound c (guard_reset gx)" if "bg_config gx = c" for gx
    using that assms(5) by (simp add: window_bound_def guard_reset_def)
  have account: "agent_account h g1 tool args d (d \<and> mutates) (d \<and> executes) ok = (Inr a, g')"
    if "d = (cs_prior_identical_failures cs < 2 \<and> \<not> cs_host_answers cs \<and> \<not> cs_policy_error cs \<and> r = None
      \<and> \<not> cs_cached_inspection cs)" for d
    using 1(2) check that by (auto simp: agent_call_def Let_def split: prod.splits)
  show ?thesis
  proof (cases "cs_prior_identical_failures cs < 2 \<and> \<not> cs_host_answers cs \<and> \<not> cs_policy_error cs \<and> r = None
      \<and> \<not> cs_cached_inspection cs")
    case True
    then have none: "before_dispatch h g tool args = (None, g1)"
      using check cs by (simp add: agent_check_def split: if_splits)
    note room = before_dispatch_room(2)[OF none adm]
    have "g1 = g"
      using before_dispatch_room(1)[OF none adm] .
    then have "after_dispatch h g tool args ok = (Inr a, g') \<or> g' = guard_reset g"
      using account[of True] True by (auto simp: agent_account_def Let_def split: prod.splits if_splits)
    then show ?thesis
      using after_dispatch_window[OF _ assms(4,5)] room reset assms(4) by (auto simp: window_bound_def)
  next
    case False
    then show ?thesis
      using account[of False] kept by (auto simp: agent_account_def)
  qed
qed

lemma steered_run_window:
  assumes "run_of agent_step g calls g'" "\<forall>call\<in>set calls. steered call \<and> always_admits call"
    "window_bound c g" "2 \<le> bc_refuse_after c"
  shows "window_bound c g'"
  using assms by (induction rule: run_of.induct) (auto intro: agent_step_window)

text \<open>
  The window is bounded. Whatever the environment sets, in a turn in which the batch tool stays admissible
  and no call is a retry the host demands, no sequence of calls, failures and state changes makes the agent
  loop read more than the configured number of distinct targets of a family singly in one window; and that
  number is at most one less than the twenty steps a turn may take.
\<close>

theorem turn_window_bounded:
  assumes "new_batch_guard cps (Some (agent_batch_config env)) view = Inr g0"
    and "run_of agent_step g0 calls g"
    and "\<forall>call\<in>set calls. steered call \<and> always_admits call"
  shows "int (card (set (keys_of (bg_targets g) f))) \<le> bc_refuse_after (agent_batch_config env)
    \<and> bc_refuse_after (agent_batch_config env) \<le> 20 - 1"
proof -
  have two: "2 \<le> bc_refuse_after (agent_batch_config env)" "bc_refuse_after (agent_batch_config env) \<le> 19"
    using agent_batch_config_valid[of env] by linarith+
  then have "window_bound (agent_batch_config env) g0"
    using new_guard_fields[OF assms(1)] by (simp add: window_bound_def)
  from steered_run_window[OF assms(2,3) this two(1)] show ?thesis
    using two(2) by (auto simp: window_bound_def distinct_card)
qed

definition demo_env :: "(string, string) dict" where
  "demo_env = [(''SONDER_AGENT_BATCH_ADVISORY_AFTER'', ''2''), (''SONDER_AGENT_BATCH_REFUSE_AFTER'', '' 2 '')]"

definition calm :: call_state where
  "calm = \<lparr>cs_prior_identical_failures = 0, cs_policy_error = False, cs_cached_inspection = False,
     cs_completion_blocking = False, cs_host_answers = False\<rparr>"

definition demo_calls :: "agent_tool_call list" where
  "demo_calls = map (\<lambda>p. ToolCall plain_host calm ''file_read'' (read_args p) False False True)
     [''src/a.py'', ''src/b.py'', ''src/x/../c.py'']"

definition demo_three :: batch_guard where
  "demo_three = snd (before_dispatch plain_host demo_two ''file_read'' (read_args ''src/c.py''))"

lemma demo_agent_calls:
  "new_batch_guard candidate_counterparts (Some (agent_batch_config demo_env)) (PyInt 8000) = Inr demo_guard"
  "agent_call plain_host calm demo_guard ''file_read'' (read_args ''src/a.py'') False False True = (None, Inr None, demo_one)"
  "agent_call plain_host calm demo_one ''file_read'' (read_args ''src/b.py'') False False True =
     (None, Inr (Some demo_advice), demo_two)"
  "agent_call plain_host calm demo_two ''file_read'' (read_args ''src/x/../c.py'') False False True =
     (Some demo_refusal, Inr None, demo_three)"
  by code_simp+

lemma demo_agent_run: "run_of agent_step demo_guard demo_calls demo_three"
  unfolding demo_calls_def using demo_agent_calls(2-4)
  by (auto simp: run_of_Cons_iff run_of_Nil_iff intro!: exI agent_step.intros)

theorem turn_window_bounded_witness:
  "run_of agent_step demo_guard demo_calls demo_three
   \<and> int (card (set (keys_of (bg_targets demo_three) ''file-read''))) \<le> bc_refuse_after (agent_batch_config demo_env)
   \<and> bc_refuse_after (agent_batch_config demo_env) \<le> 20 - 1"
  using turn_window_bounded[OF demo_agent_calls(1) demo_agent_run] demo_agent_run
  by (simp add: demo_calls_def calm_def always_admits_def plain_host_def)

section \<open>Spellings of a target\<close>

text \<open>
  A normalized list of components: no empty one, no dot, and a double dot only at the front of a relative path.
\<close>

definition plain_part :: "string \<Rightarrow> bool" where
  "plain_part p = (p \<noteq> [] \<and> p \<noteq> ''.'' \<and> p \<noteq> ''..'')"

definition normal_rev :: "bool \<Rightarrow> string list \<Rightarrow> bool" where
  "normal_rev rooted ps =
     (\<exists>n qs. ps = qs @ List.replicate n ''..'' \<and> list_all plain_part qs \<and> (rooted \<longrightarrow> n = 0))"

lemma normal_rev_up:
  assumes "normal_rev rooted ps" "\<not> rooted \<and> ps = [] \<or> ps \<noteq> [] \<and> hd ps = ''..''"
  shows "normal_rev rooted (''..'' # ps)"
proof -
  obtain n qs where ps: "ps = qs @ List.replicate n ''..''" "list_all plain_part qs" "rooted \<longrightarrow> n = 0"
    using assms(1) by (auto simp: normal_rev_def)
  then have "qs = []" "\<not> rooted"
    using assms(2) by (cases qs; auto simp: plain_part_def)+
  then show ?thesis
    using ps(1) unfolding normal_rev_def
    by (intro exI[of _ "Suc n"] exI[of _ "[]"]) simp
qed

lemma normal_rev_push:
  assumes "normal_rev rooted ps" "p \<noteq> []" "p \<noteq> ''.''" "p \<noteq> ''..'' \<or> \<not> rooted \<and> ps = [] \<or> ps \<noteq> [] \<and> hd ps = ''..''"
  shows "normal_rev rooted (p # ps)"
proof (cases "p = ''..''")
  case False
  obtain n qs where ps: "ps = qs @ List.replicate n ''..''" "list_all plain_part qs" "rooted \<longrightarrow> n = 0"
    using assms(1) by (auto simp: normal_rev_def)
  then show ?thesis
    using assms(2,3) False unfolding normal_rev_def
    by (intro exI[of _ n] exI[of _ "p # qs"]) (simp add: plain_part_def)
qed (use assms normal_rev_up in blast)

lemma normal_rev_tl:
  assumes "normal_rev rooted ps" "ps \<noteq> []" "hd ps \<noteq> ''..''"
  shows "normal_rev rooted (tl ps)"
proof -
  obtain n qs where ps: "ps = qs @ List.replicate n ''..''" "list_all plain_part qs" "rooted \<longrightarrow> n = 0"
    using assms(1) by (auto simp: normal_rev_def)
  then have "qs \<noteq> []"
    using assms(2,3) by (cases n) auto
  then show ?thesis
    using ps unfolding normal_rev_def
    by (intro exI[of _ n] exI[of _ "tl qs"]) (cases qs; auto)
qed

lemma norm_comps_normal: "normal_rev rooted new \<Longrightarrow> normal_rev rooted (rev (norm_comps rooted new ps))"
proof (induction rooted new ps rule: norm_comps.induct)
  case (2 rooted new part parts)
  then show ?case
    using normal_rev_push[of rooted new part] normal_rev_tl[of rooted new]
    by (cases "new = []") (auto split: if_splits)
qed simp

lemma norm_comps_plain: "list_all plain_part qs \<Longrightarrow> norm_comps rooted new qs = rev new @ qs"
  by (induction qs arbitrary: new) (auto simp: plain_part_def)

lemma norm_comps_ups:
  "norm_comps False (List.replicate m ''..'') (List.replicate n ''..'' @ qs) = norm_comps False (List.replicate (m + n) ''..'') qs"
proof (induction n arbitrary: m)
  case (Suc n)
  then show ?case
    using Suc[of "Suc m"] by (cases m) auto
qed simp

lemma norm_comps_fixed:
  assumes "normal_rev rooted (rev ps)"
  shows "norm_comps rooted [] ps = ps"
proof -
  obtain n qs where ps: "ps = List.replicate n ''..'' @ qs" "list_all plain_part qs" "rooted \<longrightarrow> n = 0"
  proof -
    obtain n qs where "rev ps = qs @ List.replicate n ''..''" "list_all plain_part qs" "rooted \<longrightarrow> n = 0"
      using assms by (auto simp: normal_rev_def)
    then show ?thesis
      using that[of n "rev qs"] by (metis list_all_rev rev_append rev_replicate rev_rev_ident)
  qed
  show ?thesis
  proof (cases rooted)
    case False
    then show ?thesis
      using ps norm_comps_ups[of 0 n qs] by (simp add: norm_comps_plain)
  qed (use ps in \<open>simp add: norm_comps_plain\<close>)
qed

lemma norm_comps_slash_free:
  "\<forall>p\<in>set new \<union> set ps. CHR ''/'' \<notin> set p \<Longrightarrow> p \<in> set (norm_comps rooted new ps) \<Longrightarrow> CHR ''/'' \<notin> set p \<and> (p \<in> set new \<or> p \<noteq> [])"
  by (induction rooted new ps rule: norm_comps.induct) (auto split: if_splits dest: list.set_sel(2))

lemma initial_slashes_join:
  assumes "comps \<noteq> []" "\<forall>p\<in>set comps. p \<noteq> [] \<and> CHR ''/'' \<notin> set p" "n \<le> 2"
  shows "initial_slashes (List.replicate n (CHR ''/'') @ py_join ''/'' comps) = n"
proof -
  obtain c cs where "hd comps = c # cs" "c \<noteq> CHR ''/''"
    using assms(1,2) by (cases "hd comps") (metis hd_in_set, metis hd_in_set list.set_intros(1))
  then obtain r where "py_join ''/'' comps = c # r"
    using assms(1) by (cases comps) (auto simp: py_join_def)
  moreover have "n = 0 \<or> n = 1 \<or> n = 2"
    using assms(3) by linarith
  ultimately show ?thesis
    using \<open>c \<noteq> CHR ''/''\<close> by (auto simp: initial_slashes_def numeral_2_eq_2 numeral_3_eq_3)
qed

lemma norm_comps_skip_empty: "norm_comps rooted new (List.replicate n [] @ ps) = norm_comps rooted new ps"
  by (induction n) auto

lemma split_slashes: "split_on c (List.replicate n c @ s) = List.replicate n [] @ split_on c s"
  by (induction n) auto

text \<open>Normalization is idempotent, so every path has one normal spelling.\<close>

lemma normpath_idem: "normpath (normpath p) = normpath p"
proof (cases "p = []")
  case False
  define n where "n = initial_slashes p"
  define comps where "comps = norm_comps (n \<noteq> 0) [] (split_on (CHR ''/'') p)"
  define q where "q = List.replicate n (CHR ''/'') @ py_join ''/'' comps"
  have n: "n \<le> 2"
    by (simp add: n_def initial_slashes_def)
  have parts: "\<forall>p\<in>set comps. p \<noteq> [] \<and> CHR ''/'' \<notin> set p"
    using norm_comps_slash_free[of "[]" "split_on (CHR ''/'') p"] split_on_no_sep unfolding comps_def by fastforce
  have p: "normpath p = (if q = [] then ''.'' else q)"
    using False by (simp only: normpath_def Let_def q_def comps_def n_def if_False)
  show ?thesis
  proof (cases "comps = []")
    case True
    then have "q = List.replicate n (CHR ''/'')"
      by (simp add: q_def py_join_def)
    moreover have "n = 0 \<or> n = 1 \<or> n = 2"
      using n by linarith
    moreover have "normpath ''.'' = ''.''" "normpath ''/'' = ''/''" "normpath ''//'' = ''//''"
      by code_simp+
    ultimately show ?thesis
      using p by (auto simp: numeral_2_eq_2)
  next
    case comps: False
    then have "q \<noteq> []"
      using parts by (cases comps) (auto simp: q_def py_join_def)
    moreover have "norm_comps (n \<noteq> 0) [] (split_on (CHR ''/'') q) = comps"
    proof -
      have "normal_rev (n \<noteq> 0) (rev comps)"
        unfolding comps_def by (rule norm_comps_normal) (simp add: normal_rev_def)
      then show ?thesis
        using parts comps
        by (simp only: q_def split_slashes norm_comps_skip_empty) (simp add: split_join norm_comps_fixed)
    qed
    ultimately show ?thesis
      using p initial_slashes_join[OF comps parts n, folded q_def]
      by (simp only: normpath_def[of q] Let_def if_False q_def[symmetric])
  qed
next
  case True
  have "normpath (normpath []) = normpath []"
    by code_simp
  with True show ?thesis
    by simp
qed

end
