(* ===== verification/CancellationTree.thy ===== *)
theory CancellationTree
  imports Prelude
begin

text \<open>
  \<^verbatim>\<open>sonder_runtime/domain/cancellation_tree.py\<close>: scopes of work that are cancelled from parent to child and
  report when the work in them has left. The methods do not hold one lock from start to end: a cancellation
  signals the scope under its lock, then its children one by one, and so does the search for quiescence. So
  the model is a machine of threads over a heap of scopes. A scope is its position in the order of creation,
  a thread is the stack of what its current call still has to do, and one step runs one section under a lock.
  Any interleaving of steps is a run. The two halves of \<^verbatim>\<open>CancellationLease.release\<close> (test and set of its flag) are
  one step, so that two threads racing to release the same lease are not modelled; waiting with a timeout is a
  step that ends the wait or goes on. That a thread blocks on a lock another one holds is not modelled either:
  every section runs when its thread is chosen.
\<close>

section \<open>Scopes and leases\<close>

datatype cancellation_status = ACTIVE | CANCEL_REQUESTED | QUIESCENT

record cancel_node =
  cn_node_id :: string
  cn_parent :: "nat option"
  cn_children :: "(string, nat) dict"
  cn_active_leases :: nat
  cn_status :: cancellation_status
  cn_reason :: "string option"
  cn_cancelled :: bool

record cancel_lease =
  cl_node :: nat
  cl_released :: bool

record cancel_world =
  cw_nodes :: "cancel_node list"
  cw_leases :: "cancel_lease list"

definition new_cancel_node :: "string \<Rightarrow> nat option \<Rightarrow> cancel_node" where
  "new_cancel_node node_id parent =
     \<lparr>cn_node_id = node_id, cn_parent = parent, cn_children = [], cn_active_leases = 0, cn_status = ACTIVE,
      cn_reason = None, cn_cancelled = False\<rparr>"

definition scope_at :: "cancel_world \<Rightarrow> nat \<Rightarrow> cancel_node" where
  "scope_at w a = cw_nodes w ! a"

definition set_node :: "nat \<Rightarrow> cancel_node \<Rightarrow> cancel_world \<Rightarrow> cancel_world" where
  "set_node a n w = w\<lparr>cw_nodes := (cw_nodes w)[a := n]\<rparr>"

section \<open>The sections of the methods\<close>

text \<open>
  What is on the stack of a thread: a method that was called, or a later section of one. \<open>DoCancel\<close> is
  \<^verbatim>\<open>cancel\<close>; \<open>DoRefresh\<close> and \<open>DoSettle\<close> are the two sections of \<^verbatim>\<open>_refresh_quiescence\<close>; \<open>DoDrop\<close> is
  \<^verbatim>\<open>_release_lease\<close>; \<open>DoJoinTest\<close> is the loop condition of \<^verbatim>\<open>join\<close>.
\<close>

datatype cancel_work =
    DoNewRoot string
  | DoNewChild nat string
  | DoCancel nat string
  | DoAcquire nat
  | DoRelease nat
  | DoDrop nat
  | DoRefresh nat bool
  | DoSettle nat bool
  | DoJoin nat
  | DoJoinTest nat
  | DoDetach nat

type_synonym section_result = "(cancel_world \<times> cancel_work list) res"

definition add_root :: "cancel_world \<Rightarrow> string \<Rightarrow> section_result" where
  "add_root w node_id = Inr (w\<lparr>cw_nodes := cw_nodes w @ [new_cancel_node node_id None]\<rparr>, [])"

definition add_child :: "cancel_world \<Rightarrow> nat \<Rightarrow> string \<Rightarrow> section_result" where
  "add_child w p node_id =
     (let parent = scope_at w p; child = length (cw_nodes w) in
      if map_of (cn_children parent) node_id \<noteq> None
      then Inl (ValueError (''duplicate cancellation node id: '' @ node_id))
      else
        let w1 = set_node p (parent\<lparr>cn_children := AList.update node_id child (cn_children parent)\<rparr>) w;
            w2 = w1\<lparr>cw_nodes := cw_nodes w1 @ [new_cancel_node node_id (Some p)]\<rparr>;
            inherited = (if cn_cancelled parent then cn_reason parent else None)
        in Inr (w2, case inherited of None \<Rightarrow> [] | Some r \<Rightarrow> [DoCancel child r]))"

definition cancel_section :: "cancel_world \<Rightarrow> nat \<Rightarrow> string \<Rightarrow> section_result" where
  "cancel_section w a reason =
     (let n = scope_at w a in
      if cn_cancelled n then Inr (w, [])
      else Inr (set_node a (n\<lparr>cn_reason := Some reason, cn_status := CANCEL_REQUESTED, cn_cancelled := True\<rparr>) w,
                map (\<lambda>(k, c). DoCancel c reason) (cn_children n)))"

definition acquire_section :: "cancel_world \<Rightarrow> nat \<Rightarrow> section_result" where
  "acquire_section w a =
     (let n = scope_at w a; w1 = set_node a (n\<lparr>cn_active_leases := cn_active_leases n + 1\<rparr>) w
      in Inr (w1\<lparr>cw_leases := cw_leases w1 @ [\<lparr>cl_node = a, cl_released = False\<rparr>]\<rparr>, []))"

definition release_section :: "cancel_world \<Rightarrow> nat \<Rightarrow> section_result" where
  "release_section w l =
     (let lease = cw_leases w ! l in
      if cl_released lease then Inr (w, [])
      else Inr (w\<lparr>cw_leases := (cw_leases w)[l := lease\<lparr>cl_released := True\<rparr>]\<rparr>, [DoDrop (cl_node lease)]))"

definition drop_section :: "cancel_world \<Rightarrow> nat \<Rightarrow> section_result" where
  "drop_section w a =
     (let n = scope_at w a in
      if cn_active_leases n = 0 then Inl (RuntimeError ''cancellation lease released more than once'')
      else Inr (set_node a (n\<lparr>cn_active_leases := cn_active_leases n - 1\<rparr>) w, [DoRefresh a True]))"

definition refresh_section :: "cancel_world \<Rightarrow> nat \<Rightarrow> bool \<Rightarrow> section_result" where
  "refresh_section w a propagate =
     Inr (w, map (\<lambda>(k, c). DoRefresh c False) (cn_children (scope_at w a)) @ [DoSettle a propagate])"

definition settled :: "cancel_world \<Rightarrow> nat \<Rightarrow> bool" where
  "settled w a =
     (cn_cancelled (scope_at w a) \<and> cn_active_leases (scope_at w a) = 0
      \<and> list_all (\<lambda>(k, c). cn_status (scope_at w c) = QUIESCENT) (cn_children (scope_at w a)))"

definition settle_section :: "cancel_world \<Rightarrow> nat \<Rightarrow> bool \<Rightarrow> section_result" where
  "settle_section w a propagate =
     (let n = scope_at w a in
      Inr (if settled w a then set_node a (n\<lparr>cn_status := QUIESCENT\<rparr>) w else w,
           case cn_parent n of Some p \<Rightarrow> if propagate then [DoRefresh p True] else [] | None \<Rightarrow> []))"

definition join_test :: "bool \<Rightarrow> cancel_world \<Rightarrow> nat \<Rightarrow> section_result" where
  "join_test timed_out w a =
     (if cn_status (scope_at w a) = QUIESCENT then Inr (w, [])
      else if timed_out then Inr (w, [])
      else Inr (w, [DoRefresh a True, DoJoinTest a]))"

definition detach_section :: "cancel_world \<Rightarrow> nat \<Rightarrow> section_result" where
  "detach_section w a =
     (case cn_parent (scope_at w a) of
        None \<Rightarrow> Inr (w, [])
      | Some p \<Rightarrow>
          (let parent = scope_at w p; node_id = cn_node_id (scope_at w a) in
           Inr (if map_of (cn_children parent) node_id = Some a
                then set_node p (parent\<lparr>cn_children := AList.delete node_id (cn_children parent)\<rparr>) w else w,
                [DoRefresh p True])))"

fun run_section :: "bool \<Rightarrow> cancel_world \<Rightarrow> cancel_work \<Rightarrow> section_result" where
  "run_section timed_out w (DoNewRoot i) = add_root w i"
| "run_section timed_out w (DoNewChild p i) = add_child w p i"
| "run_section timed_out w (DoCancel a r) = cancel_section w a r"
| "run_section timed_out w (DoAcquire a) = acquire_section w a"
| "run_section timed_out w (DoRelease l) = release_section w l"
| "run_section timed_out w (DoDrop a) = drop_section w a"
| "run_section timed_out w (DoRefresh a p) = refresh_section w a p"
| "run_section timed_out w (DoSettle a p) = settle_section w a p"
| "run_section timed_out w (DoJoin a) = Inr (w, [DoRefresh a True, DoJoinTest a])"
| "run_section timed_out w (DoJoinTest a) = join_test timed_out w a"
| "run_section timed_out w (DoDetach a) = detach_section w a"

section \<open>Threads\<close>

text \<open>
  A thread with an empty stack calls a method on a scope or lease it knows; a thread with work runs the next
  section, puts what the section leaves to do on top, and loses its stack when the section raises.
\<close>

type_synonym cancel_state = "cancel_world \<times> cancel_work list list"

fun callable :: "cancel_world \<Rightarrow> cancel_work \<Rightarrow> bool" where
  "callable w (DoNewRoot i) = True"
| "callable w (DoNewChild p i) = (p < length (cw_nodes w))"
| "callable w (DoCancel a r) = (a < length (cw_nodes w))"
| "callable w (DoAcquire a) = (a < length (cw_nodes w))"
| "callable w (DoRelease l) = (l < length (cw_leases w))"
| "callable w (DoJoin a) = (a < length (cw_nodes w))"
| "callable w (DoDetach a) = (a < length (cw_nodes w))"
| "callable w _ = False"

datatype cancel_label = Call nat cancel_work | Section nat bool

inductive tree_step :: "cancel_state \<Rightarrow> cancel_label \<Rightarrow> cancel_state \<Rightarrow> bool" where
  ts_call: "i < length ts \<Longrightarrow> ts ! i = [] \<Longrightarrow> callable w work \<Longrightarrow> tree_step (w, ts) (Call i work) (w, ts[i := [work]])"
| ts_section: "i < length ts \<Longrightarrow> ts ! i = work # rest \<Longrightarrow> run_section timed_out w work = Inr (w', todo) \<Longrightarrow>
     tree_step (w, ts) (Section i timed_out) (w', ts[i := todo @ rest])"
| ts_raise: "i < length ts \<Longrightarrow> ts ! i = work # rest \<Longrightarrow> run_section timed_out w work = Inl e \<Longrightarrow>
     tree_step (w, ts) (Section i timed_out) (w, ts[i := []])"

definition idle_tree :: "nat \<Rightarrow> cancel_state" where
  "idle_tree threads = (\<lparr>cw_nodes = [], cw_leases = []\<rparr>, List.replicate threads [])"

section \<open>The shape of the heap\<close>

lemma scope_at_set [simp]: "a < length (cw_nodes w) \<Longrightarrow> scope_at (set_node a n w) b = (if b = a then n else scope_at w b)"
  by (simp add: scope_at_def set_node_def nth_list_update)

lemma scope_at_append [simp]:
  "b \<le> length (cw_nodes w) \<Longrightarrow>
   scope_at (w\<lparr>cw_nodes := cw_nodes w @ [n]\<rparr>) b = (if b = length (cw_nodes w) then n else scope_at w b)"
  by (auto simp: scope_at_def nth_append)

lemma scope_at_leases [simp]: "scope_at (w\<lparr>cw_leases := ls\<rparr>) b = scope_at w b"
  by (simp add: scope_at_def)

lemma set_node_fields [simp]:
  "length (cw_nodes (set_node a n w)) = length (cw_nodes w)" "cw_leases (set_node a n w) = cw_leases w"
  by (simp_all add: set_node_def)

definition child_of :: "cancel_world \<Rightarrow> nat \<Rightarrow> nat \<Rightarrow> bool" where
  "child_of w a c = (a < length (cw_nodes w) \<and> (\<exists>k. (k, c) \<in> set (cn_children (scope_at w a))))"

definition heap_ok :: "cancel_world \<Rightarrow> bool" where
  "heap_ok w =
     ((\<forall>a<length (cw_nodes w).
         (\<forall>p. cn_parent (scope_at w a) = Some p \<longrightarrow> p < a)
         \<and> dict_ok (cn_children (scope_at w a))
         \<and> (\<forall>(k, c)\<in>set (cn_children (scope_at w a)). a < c \<and> c < length (cw_nodes w)
              \<and> cn_parent (scope_at w c) = Some a \<and> cn_node_id (scope_at w c) = k)
         \<and> (cn_cancelled (scope_at w a) \<longleftrightarrow> cn_status (scope_at w a) \<noteq> ACTIVE)
         \<and> (cn_cancelled (scope_at w a) \<longleftrightarrow> cn_reason (scope_at w a) \<noteq> None))
      \<and> (\<forall>l\<in>set (cw_leases w). cl_node l < length (cw_nodes w)))"

fun in_range :: "cancel_world \<Rightarrow> cancel_work \<Rightarrow> bool" where
  "in_range w (DoNewRoot i) = True"
| "in_range w (DoNewChild p i) = (p < length (cw_nodes w))"
| "in_range w (DoCancel a r) = (a < length (cw_nodes w))"
| "in_range w (DoAcquire a) = (a < length (cw_nodes w))"
| "in_range w (DoRelease l) = (l < length (cw_leases w))"
| "in_range w (DoDrop a) = (a < length (cw_nodes w))"
| "in_range w (DoRefresh a p) = (a < length (cw_nodes w))"
| "in_range w (DoSettle a p) = (a < length (cw_nodes w))"
| "in_range w (DoJoin a) = (a < length (cw_nodes w))"
| "in_range w (DoJoinTest a) = (a < length (cw_nodes w))"
| "in_range w (DoDetach a) = (a < length (cw_nodes w))"

lemmas section_defs = add_root_def add_child_def cancel_section_def acquire_section_def release_section_def
  drop_section_def refresh_section_def settle_section_def join_test_def detach_section_def

lemma section_grows:
  assumes "run_section t w work = Inr (w', todo)"
  shows "length (cw_nodes w) \<le> length (cw_nodes w')" "length (cw_leases w) \<le> length (cw_leases w')"
  using assms by (cases work; auto simp: section_defs Let_def split: if_splits option.splits)+

lemma in_range_mono:
  "in_range w x \<Longrightarrow> length (cw_nodes w) \<le> length (cw_nodes w') \<Longrightarrow> length (cw_leases w) \<le> length (cw_leases w')
   \<Longrightarrow> in_range w' x"
  by (cases x) auto

lemma section_todo_in_range:
  assumes "heap_ok w" "in_range w work" "run_section t w work = Inr (w', todo)"
  shows "\<forall>x\<in>set todo. in_range w' x"
  using assms
  by (cases work) (fastforce simp: section_defs Let_def heap_ok_def split: if_splits option.splits)+

definition node_ok :: "cancel_world \<Rightarrow> nat \<Rightarrow> bool" where
  "node_ok w a =
     ((\<forall>p. cn_parent (scope_at w a) = Some p \<longrightarrow> p < a)
      \<and> dict_ok (cn_children (scope_at w a))
      \<and> (\<forall>(k, c)\<in>set (cn_children (scope_at w a)). a < c \<and> c < length (cw_nodes w)
           \<and> cn_parent (scope_at w c) = Some a \<and> cn_node_id (scope_at w c) = k)
      \<and> (cn_cancelled (scope_at w a) \<longleftrightarrow> cn_status (scope_at w a) \<noteq> ACTIVE)
      \<and> (cn_cancelled (scope_at w a) \<longleftrightarrow> cn_reason (scope_at w a) \<noteq> None))"

lemma heap_ok_iff:
  "heap_ok w \<longleftrightarrow> (\<forall>a<length (cw_nodes w). node_ok w a) \<and> (\<forall>l\<in>set (cw_leases w). cl_node l < length (cw_nodes w))"
  by (simp add: heap_ok_def node_ok_def)

lemma heap_ok_node: "heap_ok w \<Longrightarrow> a < length (cw_nodes w) \<Longrightarrow> node_ok w a"
  by (simp add: heap_ok_iff)

lemma child_bounds:
  "heap_ok w \<Longrightarrow> a < length (cw_nodes w) \<Longrightarrow> (k, c) \<in> set (cn_children (scope_at w a))
   \<Longrightarrow> a < c \<and> c < length (cw_nodes w) \<and> cn_parent (scope_at w c) = Some a"
  using heap_ok_node[of w a] by (auto simp: node_ok_def)

lemma heap_ok_set_node:
  assumes "heap_ok w" "a < length (cw_nodes w)"
    and "cn_parent n = cn_parent (scope_at w a)" "cn_node_id n = cn_node_id (scope_at w a)"
    and "dict_ok (cn_children n)" "set (cn_children n) \<subseteq> set (cn_children (scope_at w a))"
    and "cn_cancelled n \<longleftrightarrow> cn_status n \<noteq> ACTIVE" "cn_cancelled n \<longleftrightarrow> cn_reason n \<noteq> None"
  shows "heap_ok (set_node a n w)"
proof -
  have "node_ok (set_node a n w) b" if "b < length (cw_nodes w)" for b
    using heap_ok_node[OF assms(1) that] heap_ok_node[OF assms(1,2)] assms(2-)
    by (cases "b = a") (fastforce simp: node_ok_def)+
  then show ?thesis
    using assms(1) by (simp add: heap_ok_iff)
qed

lemma heap_ok_append:
  assumes "heap_ok w" "cn_children n = []" "cn_parent n = None \<or> (\<exists>p. cn_parent n = Some p \<and> p < length (cw_nodes w))"
    and "\<not> cn_cancelled n" "cn_status n = ACTIVE" "cn_reason n = None"
  shows "heap_ok (w\<lparr>cw_nodes := cw_nodes w @ [n]\<rparr>)"
proof -
  let ?w = "w\<lparr>cw_nodes := cw_nodes w @ [n]\<rparr>"
  have "node_ok ?w b" if "b < Suc (length (cw_nodes w))" for b
  proof (cases "b = length (cw_nodes w)")
    case False
    then have "node_ok w b"
      using that assms(1) by (simp add: heap_ok_iff)
    then show ?thesis
      using that False unfolding node_ok_def by (auto simp: less_Suc_eq)
  qed (use assms in \<open>auto simp: node_ok_def\<close>)
  then show ?thesis
    using assms(1) by (auto simp: heap_ok_iff less_Suc_eq)
qed

lemma node_ok_leases [simp]: "node_ok (w\<lparr>cw_leases := ls\<rparr>) a = node_ok w a"
  by (simp add: node_ok_def)

lemma heap_ok_leases: "heap_ok w \<Longrightarrow> \<forall>l\<in>set ls. cl_node l < length (cw_nodes w) \<Longrightarrow> heap_ok (w\<lparr>cw_leases := ls\<rparr>)"
  by (simp add: heap_ok_iff)

definition with_child :: "cancel_world \<Rightarrow> nat \<Rightarrow> string \<Rightarrow> cancel_node" where
  "with_child w p i =
     (scope_at w p)\<lparr>cn_children := AList.update i (length (cw_nodes w)) (cn_children (scope_at w p))\<rparr>"

lemma add_child_Inr:
  assumes p: "p < length (cw_nodes w)" and run: "add_child w p i = Inr (w', todo)"
  shows "length (cw_nodes w') = Suc (length (cw_nodes w))" "cw_leases w' = cw_leases w"
    and "b \<le> length (cw_nodes w) \<Longrightarrow> scope_at w' b =
      (if b = length (cw_nodes w) then new_cancel_node i (Some p) else if b = p then with_child w p i else scope_at w b)"
    and "set (cn_children (with_child w p i)) = insert (i, length (cw_nodes w)) (set (cn_children (scope_at w p)))"
    and "todo = (case (if cn_cancelled (scope_at w p) then cn_reason (scope_at w p) else None) of
      None \<Rightarrow> [] | Some r \<Rightarrow> [DoCancel (length (cw_nodes w)) r])"
proof -
  have new: "map_of (cn_children (scope_at w p)) i = None"
    and w': "w' = (set_node p (with_child w p i) w)\<lparr>cw_nodes := cw_nodes (set_node p (with_child w p i) w) @ [new_cancel_node i (Some p)]\<rparr>"
    and todo: "todo = (case (if cn_cancelled (scope_at w p) then cn_reason (scope_at w p) else None) of
      None \<Rightarrow> [] | Some r \<Rightarrow> [DoCancel (length (cw_nodes w)) r])"
    using run by (auto simp: add_child_def with_child_def Let_def split: if_splits)
  show "length (cw_nodes w') = Suc (length (cw_nodes w))" "cw_leases w' = cw_leases w"
    "b \<le> length (cw_nodes w) \<Longrightarrow> scope_at w' b =
      (if b = length (cw_nodes w) then new_cancel_node i (Some p) else if b = p then with_child w p i else scope_at w b)"
    using p by (simp_all add: w')
  show "set (cn_children (with_child w p i)) = insert (i, length (cw_nodes w)) (set (cn_children (scope_at w p)))"
    using new by (simp add: with_child_def update_new_key map_of_eq_None_iff)
  show "todo = (case (if cn_cancelled (scope_at w p) then cn_reason (scope_at w p) else None) of
      None \<Rightarrow> [] | Some r \<Rightarrow> [DoCancel (length (cw_nodes w)) r])"
    by (fact todo)
qed

lemma add_child_heap_ok:
  assumes ok: "heap_ok w" and p: "p < length (cw_nodes w)" and run: "add_child w p i = Inr (w', todo)"
  shows "heap_ok w'"
proof -
  let ?n = "with_child w p i"
  note len = add_child_Inr(1,2)[OF p run] and at = add_child_Inr(3)[OF p run] and kids = add_child_Inr(4)[OF p run]
  have "node_ok w' b" if b: "b < Suc (length (cw_nodes w))" for b
  proof (cases "b = length (cw_nodes w)")
    case True
    then show ?thesis
      using p by (simp add: node_ok_def at new_cancel_node_def)
  next
    case False
    then have nb: "node_ok w b" and b: "b < length (cw_nodes w)"
      using b ok by (auto simp: heap_ok_iff)
    show ?thesis
    proof (cases "b = p")
      case True
      have "dict_ok (cn_children ?n)"
        using nb True by (simp add: node_ok_def with_child_def distinct_update)
      then show ?thesis
        using nb True b kids unfolding node_ok_def len(1)
        by (fastforce simp: at new_cancel_node_def with_child_def less_Suc_eq)
    next
      case other: False
      then show ?thesis
        using nb b unfolding node_ok_def len(1) by (fastforce simp: at with_child_def less_Suc_eq)
    qed
  qed
  then show ?thesis
    using ok len by (auto simp: heap_ok_iff less_Suc_eq)
qed

lemma section_heap_ok:
  assumes ok: "heap_ok w" and "in_range w work" "run_section t w work = Inr (w', todo)"
  shows "heap_ok w'"
proof (cases work)
  case (DoDetach a)
  show ?thesis
  proof (cases "cn_parent (scope_at w a)")
    case (Some p)
    then have p: "p < length (cw_nodes w)"
      using heap_ok_node[OF ok, of a] assms(2) DoDetach by (auto simp: node_ok_def)
    show ?thesis
      using assms(3) DoDetach Some heap_ok_node[OF ok p] ok p
      by (auto simp: detach_section_def Let_def node_ok_def distinct_delete
          dest: subsetD[OF set_delete_subset] intro!: heap_ok_set_node split: if_splits)
  qed (use assms DoDetach in \<open>simp add: detach_section_def\<close>)
next
  case (DoNewChild p i)
  then show ?thesis
    using assms add_child_heap_ok by simp
next
  case (DoNewRoot i)
  then show ?thesis
    using assms by (auto simp: add_root_def new_cancel_node_def intro!: heap_ok_append)
next
  case (DoRelease l)
  then show ?thesis
    using assms subsetD[OF set_update_subset_insert[of "cw_leases w" l]]
    by (fastforce simp: release_section_def Let_def heap_ok_iff split: if_splits intro!: heap_ok_leases)
next
  case (DoAcquire a)
  then have "heap_ok (set_node a ((scope_at w a)\<lparr>cn_active_leases := cn_active_leases (scope_at w a) + 1\<rparr>) w)"
    using assms heap_ok_node[OF ok, of a] by (intro heap_ok_set_node) (auto simp: node_ok_def)
  then show ?thesis
    using assms DoAcquire by (auto simp: acquire_section_def Let_def heap_ok_iff intro!: heap_ok_leases)
next
  case (DoCancel a r)
  then show ?thesis
    using assms heap_ok_node[OF ok, of a]
    by (auto simp: cancel_section_def Let_def node_ok_def split: if_splits intro!: heap_ok_set_node)
next
  case (DoDrop a)
  then show ?thesis
    using assms heap_ok_node[OF ok, of a]
    by (auto simp: drop_section_def Let_def node_ok_def split: if_splits intro!: heap_ok_set_node)
next
  case (DoSettle a b)
  have "heap_ok (set_node a ((scope_at w a)\<lparr>cn_status := QUIESCENT\<rparr>) w)" if "settled w a"
    using assms DoSettle heap_ok_node[OF ok, of a] that
    by (intro heap_ok_set_node) (auto simp: node_ok_def settled_def)
  then show ?thesis
    using assms DoSettle by (auto simp: settle_section_def Let_def)
qed (use assms in \<open>auto simp: section_defs split: if_splits\<close>)

section \<open>Cancellation reaches every descendant\<close>

definition cancels :: "cancel_work list \<Rightarrow> nat set" where
  "cancels ws = {a. \<exists>r. DoCancel a r \<in> set ws}"

lemma cancels_simps [simp]:
  "cancels [] = {}" "cancels (ws @ vs) = cancels ws \<union> cancels vs"
  "cancels (x # ws) = (case x of DoCancel a r \<Rightarrow> insert a (cancels ws) | _ \<Rightarrow> cancels ws)"
  by (auto simp: cancels_def split: cancel_work.splits)

definition spread :: "cancel_world \<Rightarrow> nat set \<Rightarrow> bool" where
  "spread w D = (\<forall>a<length (cw_nodes w). cn_cancelled (scope_at w a) \<longrightarrow>
     (\<forall>(k, c)\<in>set (cn_children (scope_at w a)). cn_cancelled (scope_at w c) \<or> c \<in> D))"

lemma spreadD:
  "spread w D \<Longrightarrow> a < length (cw_nodes w) \<Longrightarrow> cn_cancelled (scope_at w a)
   \<Longrightarrow> (k, c) \<in> set (cn_children (scope_at w a)) \<Longrightarrow> cn_cancelled (scope_at w c) \<or> c \<in> D"
  by (fastforce simp: spread_def)

lemma spread_set_node:
  assumes "spread w D" "a < length (cw_nodes w)"
    and "cn_cancelled n = cn_cancelled (scope_at w a)" "set (cn_children n) \<subseteq> set (cn_children (scope_at w a))"
  shows "spread (set_node a n w) D"
  using assms unfolding spread_def by (auto split: if_splits)

lemma spread_leases [simp]: "spread (w\<lparr>cw_leases := ls\<rparr>) D = spread w D"
  by (simp add: spread_def)

lemma spread_mono: "spread w D \<Longrightarrow> D \<subseteq> E \<Longrightarrow> spread w E"
  unfolding spread_def by blast

lemma spread_root:
  assumes "heap_ok w" "spread w D" "cn_children n = []"
  shows "spread (w\<lparr>cw_nodes := cw_nodes w @ [n]\<rparr>) D"
proof -
  have "\<forall>(k, c)\<in>set (cn_children (scope_at w a)). c < length (cw_nodes w)" if "a < length (cw_nodes w)" for a
    using heap_ok_node[OF assms(1) that] by (auto simp: node_ok_def)
  then show ?thesis
    using assms(2,3) unfolding spread_def by (fastforce simp: less_Suc_eq)
qed

lemma section_spread:
  assumes ok: "heap_ok w" and rng: "in_range w work" and run: "run_section t w work = Inr (w', todo)"
    and spread: "spread w (D \<union> cancels [work])"
  shows "spread w' (D \<union> cancels todo)"
proof (cases work)
  case (DoCancel a r)
  show ?thesis
  proof (cases "cn_cancelled (scope_at w a)")
    case True
    then have "w' = w" "todo = []"
      using run DoCancel by (auto simp: cancel_section_def)
    then show ?thesis
      using spread True DoCancel unfolding spread_def by auto
  next
    case False
    let ?n = "(scope_at w a)\<lparr>cn_reason := Some r, cn_status := CANCEL_REQUESTED, cn_cancelled := True\<rparr>"
    have w': "w' = set_node a ?n w" and todo: "todo = map (\<lambda>(k, c). DoCancel c r) (cn_children (scope_at w a))"
      using run DoCancel False by (auto simp: cancel_section_def Let_def)
    have kids: "c \<in> cancels todo" if "(k, c) \<in> set (cn_children (scope_at w a))" for k c
      using that unfolding todo cancels_def by force
    show ?thesis
      using spread rng DoCancel kids unfolding spread_def w' by (fastforce split: if_splits)
  qed
next
  case (DoNewChild p i)
  then have p: "p < length (cw_nodes w)" and add: "add_child w p i = Inr (w', todo)"
    using rng run by simp_all
  note at = add_child_Inr(3)[OF p add] and kids = add_child_Inr(4)[OF p add]
  have new: "cn_cancelled (scope_at w p) \<Longrightarrow> length (cw_nodes w) \<in> cancels todo"
    using heap_ok_node[OF ok p] add_child_Inr(5)[OF p add] by (auto simp: node_ok_def)
  have old: "(\<forall>(k, c)\<in>set (cn_children (scope_at w a)). c < length (cw_nodes w))" if "a < length (cw_nodes w)" for a
    using heap_ok_node[OF ok that] by (auto simp: node_ok_def)
  have "cn_cancelled (scope_at w' c) \<or> c \<in> D \<union> cancels todo"
    if "a < Suc (length (cw_nodes w))" "cn_cancelled (scope_at w' a)" "(k, c) \<in> set (cn_children (scope_at w' a))" for a k c
  proof (cases "c = length (cw_nodes w)")
    case True
    then have "a = p" "cn_cancelled (scope_at w p)"
      using that old by (fastforce simp: at less_Suc_eq new_cancel_node_def with_child_def split: if_splits)+
    then show ?thesis
      using new True by simp
  next
    case False
    then have a: "a < length (cw_nodes w)" "(k, c) \<in> set (cn_children (scope_at w a))" "cn_cancelled (scope_at w a)"
      using that kids by (auto simp: at less_Suc_eq new_cancel_node_def with_child_def split: if_splits)
    then have "c < length (cw_nodes w)" "cn_cancelled (scope_at w c) \<or> c \<in> D"
      using old spread DoNewChild unfolding spread_def by fastforce+
    then show ?thesis
      by (auto simp: at with_child_def)
  qed
  then show ?thesis
    unfolding spread_def add_child_Inr(1)[OF p add] by blast
next
  case (DoDetach a)
  have p: "p < length (cw_nodes w)" if "cn_parent (scope_at w a) = Some p" for p
    using heap_ok_node[OF ok, of a] rng DoDetach that by (auto simp: node_ok_def)
  then show ?thesis
    using run DoDetach spread
    by (auto simp: detach_section_def Let_def dest: subsetD[OF set_delete_subset]
        intro!: spread_set_node split: option.splits if_splits)
next
  case (DoNewRoot i)
  then show ?thesis
    using run spread spread_root[OF ok] by (auto simp: add_root_def new_cancel_node_def)
next
  case (DoRefresh a b)
  then show ?thesis
    using run spread by (auto simp: refresh_section_def intro: spread_mono)
qed (use run rng spread in \<open>auto simp: section_defs Let_def split: if_splits option.splits intro!: spread_set_node\<close>)

section \<open>Leases are counted\<close>

definition held :: "cancel_world \<Rightarrow> nat \<Rightarrow> nat" where
  "held w a = length (filter (\<lambda>l. cl_node l = a \<and> \<not> cl_released l) (cw_leases w))"

definition active_of :: "cancel_world \<Rightarrow> nat \<Rightarrow> nat" where
  "active_of w a = (if a < length (cw_nodes w) then cn_active_leases (scope_at w a) else 0)"

definition drops :: "cancel_work list \<Rightarrow> nat \<Rightarrow> nat" where
  "drops ws a = count_list ws (DoDrop a)"

lemma drops_simps [simp]:
  "drops [] a = 0" "drops (ws @ vs) a = drops ws a + drops vs a"
  "drops (x # ws) a = (if x = DoDrop a then Suc (drops ws a) else drops ws a)"
  by (simp_all add: drops_def)

lemma drops_map_refresh [simp]: "drops (map (\<lambda>(k, c). DoRefresh c b) kids) a = 0"
  by (induction kids) auto

lemma drops_map_cancel [simp]: "drops (map (\<lambda>(k, c). DoCancel c r) kids) a = 0"
  by (induction kids) auto

lemma active_of_set_node:
  "b < length (cw_nodes w) \<Longrightarrow> active_of (set_node b n w) a = (if a = b then cn_active_leases n else active_of w a)"
  by (simp add: active_of_def)

lemma held_nodes [simp]: "held (set_node b n w) a = held w a" "held (w\<lparr>cw_nodes := ns\<rparr>) a = held w a"
  by (simp_all add: held_def)

lemma active_of_leases [simp]: "active_of (w\<lparr>cw_leases := ls\<rparr>) a = active_of w a"
  by (simp add: active_of_def)

lemma active_of_append: "active_of (w\<lparr>cw_nodes := cw_nodes w @ [n]\<rparr>) a =
    (if a = length (cw_nodes w) then cn_active_leases n else active_of w a)"
  by (auto simp: active_of_def)

lemma active_of_same:
  "cn_active_leases n = cn_active_leases (scope_at w b) \<Longrightarrow> active_of (set_node b n w) a = active_of w a"
  by (cases "b < length (cw_nodes w)") (auto simp: active_of_def scope_at_def set_node_def nth_list_update)

lemma length_filter_update:
  "i < length xs \<Longrightarrow> length (filter P (xs[i := y])) + (if P (xs ! i) then 1 else 0)
     = length (filter P xs) + (if P y then 1 else 0)"
proof (induction xs arbitrary: i)
  case (Cons x xs)
  then show ?case
    by (cases i) auto
qed simp

lemma held_release:
  assumes "l < length (cw_leases w)" "\<not> cl_released (cw_leases w ! l)"
  shows "held w a = held (w\<lparr>cw_leases := (cw_leases w)[l := (cw_leases w ! l)\<lparr>cl_released := True\<rparr>]\<rparr>) a
    + (if cl_node (cw_leases w ! l) = a then 1 else 0)"
  using length_filter_update[OF assms(1), of "\<lambda>l. cl_node l = a \<and> \<not> cl_released l" "(cw_leases w ! l)\<lparr>cl_released := True\<rparr>"]
    assms(2) by (simp add: held_def)

lemma section_counts:
  assumes rng: "in_range w work" and run: "run_section t w work = Inr (w', todo)"
    and count: "\<And>a. active_of w a = held w a + d a + drops [work] a"
  shows "active_of w' a = held w' a + d a + drops todo a"
proof (cases work)
  case (DoNewChild p i)
  then have p: "p < length (cw_nodes w)" and add: "add_child w p i = Inr (w', todo)"
    using rng run by simp_all
  have "active_of w' a = active_of w a" "held w' a = held w a" "drops todo a = 0"
    using add_child_Inr[OF p add] by (auto simp: active_of_def new_cancel_node_def with_child_def held_def split: option.splits)
  then show ?thesis
    using count[of a] DoNewChild by simp
next
  case (DoRelease l)
  then show ?thesis
    using rng run count[of a] held_release[of l w a]
    by (auto simp: release_section_def Let_def split: if_splits)
next
  case (DoNewRoot i)
  then show ?thesis
    using run count[of a] by (auto simp: add_root_def active_of_append new_cancel_node_def active_of_def)
next
  case (DoDetach b)
  then show ?thesis
    using run count[of a]
    by (auto simp: detach_section_def Let_def active_of_same split: option.splits if_splits)
next
  case (DoAcquire b)
  then show ?thesis
    using rng run count[of a] by (auto simp: acquire_section_def Let_def active_of_set_node held_def active_of_def)
qed (use rng run count[of a] in \<open>auto simp: section_defs Let_def active_of_set_node active_of_def split: if_splits option.splits\<close>)

section \<open>Runs\<close>

fun is_cancel :: "cancel_work \<Rightarrow> bool" where
  "is_cancel (DoCancel a r) = True"
| "is_cancel _ = False"

fun is_refresh :: "cancel_work \<Rightarrow> bool" where
  "is_refresh (DoRefresh a p) = True"
| "is_refresh (DoSettle a p) = True"
| "is_refresh (DoJoinTest a) = True"
| "is_refresh _ = False"

definition stack_ok :: "cancel_work list \<Rightarrow> bool" where
  "stack_ok ws = (list_all is_cancel ws \<or> list_all is_refresh ws \<or> length ws = 1)"

lemma section_shape:
  assumes "run_section t w work = Inr (w', todo)"
  shows "(is_cancel work \<longrightarrow> list_all is_cancel todo) \<and> (is_refresh work \<longrightarrow> list_all is_refresh todo) \<and> stack_ok todo"
  using assms
  by (cases work) (auto simp: section_defs Let_def stack_ok_def list_all_iff split: if_splits option.splits)

lemma section_stack_ok:
  assumes "run_section t w work = Inr (w', todo)" "stack_ok (work # rest)"
  shows "stack_ok (todo @ rest)"
  using section_shape[OF assms(1)] assms(2) by (cases rest) (auto simp: stack_ok_def)

lemma raise_is_last:
  assumes "run_section t w work = Inl e" "stack_ok (work # rest)"
  shows "rest = [] \<and> \<not> is_cancel work"
  using assms by (cases work) (auto simp: section_defs Let_def stack_ok_def split: if_splits option.splits)

definition tree_inv :: "cancel_state \<Rightarrow> bool" where
  "tree_inv = (\<lambda>(w, ts). heap_ok w
     \<and> (\<forall>ws\<in>set ts. stack_ok ws \<and> (\<forall>x\<in>set ws. in_range w x))
     \<and> spread w (\<Union>ws\<in>set ts. cancels ws)
     \<and> (\<forall>a. active_of w a = held w a + sum_list (map (\<lambda>ws. drops ws a) ts)))"

lemma split_at:
  assumes "i < length ts"
  obtains xs ys where "ts = xs @ ts ! i # ys" "\<And>v. ts[i := v] = xs @ v # ys"
  using assms that[of "take i ts" "drop (Suc i) ts"] by (metis id_take_nth_drop upd_conv_take_nth_drop)

lemma tree_inv_section:
  assumes inv: "tree_inv (w, xs @ (work # rest) # ys)" and run: "run_section t w work = Inr (w', todo)"
  shows "tree_inv (w', xs @ (todo @ rest) # ys)"
proof -
  have ok: "heap_ok w" and rng: "in_range w work" and st: "stack_ok (work # rest)"
    and others: "\<forall>ws\<in>set xs \<union> set ys. stack_ok ws" "\<forall>ws\<in>set xs \<union> set ys \<union> {rest}. \<forall>x\<in>set ws. in_range w x"
    and spr: "spread w ((\<Union>ws\<in>set xs \<union> set ys \<union> {rest}. cancels ws) \<union> cancels [work])"
    and count: "\<And>a. active_of w a = held w a
      + (sum_list (map (\<lambda>ws. drops ws a) (xs @ ys)) + drops rest a) + drops [work] a"
    using inv by (auto simp: tree_inv_def Un_commute Un_left_commute algebra_simps split: cancel_work.splits)
  have "\<forall>ws\<in>set xs \<union> set ys \<union> {rest}. \<forall>x\<in>set ws. in_range w' x"
    using others(2) in_range_mono section_grows[OF run] by blast
  moreover have "spread w' ((\<Union>ws\<in>set xs \<union> set ys \<union> {rest}. cancels ws) \<union> cancels todo)"
    by (rule section_spread[OF ok rng run spr])
  moreover note section_counts[OF rng run count] section_heap_ok[OF ok rng run] section_stack_ok[OF run st]
    section_todo_in_range[OF ok rng run]
  ultimately show ?thesis
    using others(1) by (auto simp: tree_inv_def Un_commute Un_left_commute algebra_simps)
qed

lemma drop_never_raises:
  assumes "tree_inv (w, xs @ (DoDrop a # rest) # ys)"
  shows "run_section t w (DoDrop a) \<noteq> Inl e"
proof -
  have "active_of w a \<noteq> 0" "a < length (cw_nodes w)"
    using assms by (auto simp: tree_inv_def)
  then show ?thesis
    by (simp add: drop_section_def Let_def active_of_def)
qed

lemma tree_inv_raise:
  assumes inv: "tree_inv (w, xs @ (work # rest) # ys)" and run: "run_section t w work = Inl e"
  shows "tree_inv (w, xs @ [] # ys)"
proof -
  have "stack_ok (work # rest)"
    using inv by (simp add: tree_inv_def)
  with run have "rest = []" "\<not> is_cancel work"
    using raise_is_last by blast+
  moreover have "\<forall>a. work \<noteq> DoDrop a"
    using drop_never_raises inv run by blast
  ultimately show ?thesis
    using inv by (cases work) (auto simp: tree_inv_def stack_ok_def)
qed

lemma tree_inv_call:
  assumes inv: "tree_inv (w, xs @ [] # ys)" and call: "callable w work"
  shows "tree_inv (w, xs @ [work] # ys)"
proof -
  have "in_range w work" "\<forall>a. work \<noteq> DoDrop a"
    using call by (cases work; simp)+
  then show ?thesis
    using inv by (auto simp: tree_inv_def stack_ok_def intro: spread_mono split: cancel_work.splits)
qed

lemma tree_inv_step:
  assumes "tree_step s l t" "tree_inv s"
  shows "tree_inv t"
  using assms
proof cases
  case (ts_call i ts w work)
  obtain xs ys where "ts = xs @ ts ! i # ys" "\<And>v. ts[i := v] = xs @ v # ys"
    using split_at[OF ts_call(4)] by metis
  then show ?thesis
    using ts_call assms(2) tree_inv_call by metis
next
  case (ts_section i ts work rest timed_out w w' todo)
  obtain xs ys where "ts = xs @ ts ! i # ys" "\<And>v. ts[i := v] = xs @ v # ys"
    using split_at[OF ts_section(4)] by metis
  then show ?thesis
    using ts_section assms(2) tree_inv_section by metis
next
  case (ts_raise i ts work rest timed_out w e)
  obtain xs ys where "ts = xs @ ts ! i # ys" "\<And>v. ts[i := v] = xs @ v # ys"
    using split_at[OF ts_raise(4)] by metis
  then show ?thesis
    using ts_raise assms(2) tree_inv_raise by metis
qed

interpretation tree_sys: invariant_system tree_step tree_inv
  by unfold_locales (rule tree_inv_step)

lemma initial_tree_inv: "tree_inv (idle_tree n)"
  by (auto simp: tree_inv_def idle_tree_def heap_ok_def stack_ok_def spread_def active_of_def held_def sum_list_replicate)

lemmas reachable_tree_inv = tree_sys.inv_run[OF _ initial_tree_inv]

text \<open>
  (C24) Cancellation reaches every descendant. In every interleaving of cancellations, new scopes, leases,
  refreshes and detachments by any number of threads, below a cancelled scope every attached scope is
  cancelled, or a cancellation is still on its way to it: some thread has to cancel it or a scope above it.
  In particular a scope created below a cancelled one cannot escape.
\<close>

theorem cancellation_reaches_descendants:
  assumes run: "run_of tree_step (idle_tree threads) labels (w, ts)"
    and below: "(child_of w)\<^sup>*\<^sup>* a d" and cancelled: "a < length (cw_nodes w)" "cn_cancelled (scope_at w a)"
  shows "cn_cancelled (scope_at w d)
    \<or> (\<exists>ws\<in>set ts. \<exists>c r. DoCancel c r \<in> set ws \<and> (child_of w)\<^sup>*\<^sup>* c d)"
  using below cancelled
proof (induction rule: rtranclp_induct)
  case (step b c)
  have spr: "spread w (\<Union>ws\<in>set ts. cancels ws)"
    using reachable_tree_inv[OF run] by (simp add: tree_inv_def)
  from step.IH[OF step.prems] show ?case
  proof
    assume "cn_cancelled (scope_at w b)"
    then have "cn_cancelled (scope_at w c) \<or> c \<in> (\<Union>ws\<in>set ts. cancels ws)"
      using spreadD[OF spr] step.hyps(2) by (auto simp: child_of_def)
    then show ?thesis
    proof
      assume "c \<in> (\<Union>ws\<in>set ts. cancels ws)"
      then obtain ws r where "ws \<in> set ts" "DoCancel c r \<in> set ws"
        by (auto simp: cancels_def)
      then show ?thesis
        by blast
    qed simp
  next
    assume "\<exists>ws\<in>set ts. \<exists>e r. DoCancel e r \<in> set ws \<and> (child_of w)\<^sup>*\<^sup>* e b"
    then obtain ws e r where "ws \<in> set ts" "DoCancel e r \<in> set ws" "(child_of w)\<^sup>*\<^sup>* e b"
      by blast
    moreover from this(3) step.hyps(2) have "(child_of w)\<^sup>*\<^sup>* e c"
      by (rule rtranclp.rtrancl_into_rtrancl)
    ultimately show ?thesis
      by blast
  qed
qed simp

section \<open>Quiescence\<close>

text \<open>
  A lease may be acquired on, and a child added to, a scope that is already quiescent: the code does not
  refuse it and the scope stays quiescent. A careful run does neither.
\<close>

fun polite :: "cancel_world \<Rightarrow> cancel_work \<Rightarrow> bool" where
  "polite w (DoAcquire a) = (cn_status (scope_at w a) \<noteq> QUIESCENT)"
| "polite w (DoNewChild p i) = (cn_status (scope_at w p) \<noteq> QUIESCENT)"
| "polite w _ = True"

definition careful_step :: "cancel_state \<Rightarrow> cancel_label \<Rightarrow> cancel_state \<Rightarrow> bool" where
  "careful_step s l t = (tree_step s l t \<and>
     (case l of Section i _ \<Rightarrow> polite (fst s) (hd (snd s ! i)) | Call _ _ \<Rightarrow> True))"

definition quiet :: "cancel_world \<Rightarrow> bool" where
  "quiet w = (\<forall>a<length (cw_nodes w). cn_status (scope_at w a) = QUIESCENT \<longrightarrow>
     cn_active_leases (scope_at w a) = 0
     \<and> (\<forall>(k, c)\<in>set (cn_children (scope_at w a)). cn_status (scope_at w c) = QUIESCENT))"

lemma quietD:
  "quiet w \<Longrightarrow> a < length (cw_nodes w) \<Longrightarrow> cn_status (scope_at w a) = QUIESCENT
   \<Longrightarrow> (k, c) \<in> set (cn_children (scope_at w a)) \<Longrightarrow> cn_status (scope_at w c) = QUIESCENT"
  "quiet w \<Longrightarrow> a < length (cw_nodes w) \<Longrightarrow> cn_status (scope_at w a) = QUIESCENT
   \<Longrightarrow> cn_active_leases (scope_at w a) = 0"
  by (fastforce simp: quiet_def)+

lemma quiet_leases [simp]: "quiet (w\<lparr>cw_leases := ls\<rparr>) = quiet w"
  by (simp add: quiet_def)

lemma quiet_set_node:
  assumes "quiet w" "a < length (cw_nodes w)"
    and "cn_status n = QUIESCENT \<Longrightarrow> cn_active_leases n = 0
      \<and> (\<forall>(k, c)\<in>set (cn_children n). c \<noteq> a \<and> cn_status (scope_at w c) = QUIESCENT)"
    and "cn_status (scope_at w a) = QUIESCENT \<Longrightarrow> cn_status n = QUIESCENT"
  shows "quiet (set_node a n w)"
  using assms unfolding quiet_def by (fastforce split: if_splits)

lemma section_quiet:
  assumes ok: "heap_ok w" and rng: "in_range w work" and run: "run_section t w work = Inr (w', todo)"
    and quiet: "quiet w" and polite: "polite w work"
  shows "quiet w'"
proof (cases work)
  case (DoCancel a r)
  then show ?thesis
    using run rng quiet heap_ok_node[OF ok, of a]
    by (auto simp: cancel_section_def Let_def node_ok_def intro!: quiet_set_node split: if_splits)
next
  case (DoNewChild p i)
  then have p: "p < length (cw_nodes w)" and add: "add_child w p i = Inr (w', todo)"
    using rng run by simp_all
  note at = add_child_Inr(3)[OF p add]
  have "cn_active_leases (scope_at w' a) = 0 \<and> (\<forall>(k, c)\<in>set (cn_children (scope_at w' a)). cn_status (scope_at w' c) = QUIESCENT)"
    if "a < Suc (length (cw_nodes w))" "cn_status (scope_at w' a) = QUIESCENT" for a
  proof -
    have a: "a < length (cw_nodes w)" "a \<noteq> p" "scope_at w' a = scope_at w a"
      using that polite DoNewChild by (auto simp: at less_Suc_eq new_cancel_node_def with_child_def split: if_splits)
    have "cn_status (scope_at w' c) = cn_status (scope_at w c)" if "(k, c) \<in> set (cn_children (scope_at w a))" for k c
      using child_bounds[OF ok a(1) that] by (simp add: at with_child_def)
    then show ?thesis
      using quiet a that(2) unfolding quiet_def by fastforce
  qed
  then show ?thesis
    unfolding quiet_def add_child_Inr(1)[OF p add] by blast
next
  case (DoDetach a)
  show ?thesis
  proof (cases "cn_parent (scope_at w a)")
    case (Some p)
    then have p: "p < length (cw_nodes w)"
      using heap_ok_node[OF ok, of a] rng DoDetach by (auto simp: node_ok_def)
    have "quiet (set_node p ((scope_at w p)\<lparr>cn_children := AList.delete k (cn_children (scope_at w p))\<rparr>) w)" for k
    proof (rule quiet_set_node[OF quiet p])
      assume "cn_status ((scope_at w p)\<lparr>cn_children := AList.delete k (cn_children (scope_at w p))\<rparr>) = QUIESCENT"
      then have q: "cn_status (scope_at w p) = QUIESCENT"
        by simp
      have "c \<noteq> p \<and> cn_status (scope_at w c) = QUIESCENT" if "(j, c) \<in> set (AList.delete k (cn_children (scope_at w p)))" for j c
        using subsetD[OF set_delete_subset that] quietD(1)[OF quiet p q] child_bounds[OF ok p] by blast
      then show "cn_active_leases ((scope_at w p)\<lparr>cn_children := AList.delete k (cn_children (scope_at w p))\<rparr>) = 0
        \<and> (\<forall>(j, c)\<in>set (cn_children ((scope_at w p)\<lparr>cn_children := AList.delete k (cn_children (scope_at w p))\<rparr>)).
              c \<noteq> p \<and> cn_status (scope_at w c) = QUIESCENT)"
        using quietD(2)[OF quiet p q] by auto
    qed simp
    then show ?thesis
      using run DoDetach Some quiet by (auto simp: detach_section_def Let_def split: if_splits)
  qed (use run DoDetach quiet in \<open>simp add: detach_section_def\<close>)
next
  case (DoSettle a b)
  then have a: "a < length (cw_nodes w)"
    using rng by simp
  have "quiet (set_node a ((scope_at w a)\<lparr>cn_status := QUIESCENT\<rparr>) w)" if "settled w a"
    using heap_ok_node[OF ok a] that
    by (intro quiet_set_node[OF quiet a]) (auto simp: settled_def node_ok_def list_all_iff)
  then show ?thesis
    using run DoSettle quiet by (auto simp: settle_section_def Let_def)
next
  case (DoNewRoot i)
  have "c < length (cw_nodes w)" if "a < length (cw_nodes w)" "(k, c) \<in> set (cn_children (scope_at w a))" for a k c
    using heap_ok_node[OF ok that(1)] that(2) by (auto simp: node_ok_def)
  then show ?thesis
    using run DoNewRoot quiet unfolding quiet_def
    by (fastforce simp: add_root_def new_cancel_node_def less_Suc_eq)
next
  case (DoDrop a)
  then have a: "a < length (cw_nodes w)" "cn_active_leases (scope_at w a) \<noteq> 0"
    "w' = set_node a ((scope_at w a)\<lparr>cn_active_leases := cn_active_leases (scope_at w a) - 1\<rparr>) w"
    using run rng by (auto simp: drop_section_def Let_def split: if_splits)
  then show ?thesis
    using quietD(2)[OF quiet a(1)] by (auto intro!: quiet_set_node[OF quiet a(1)])
next
  case (DoAcquire a)
  then have "quiet (set_node a ((scope_at w a)\<lparr>cn_active_leases := cn_active_leases (scope_at w a) + 1\<rparr>) w)"
    using rng polite by (intro quiet_set_node[OF quiet]) auto
  then show ?thesis
    using run DoAcquire by (auto simp: acquire_section_def Let_def)
qed (use run quiet in \<open>auto simp: section_defs Let_def split: if_splits\<close>)

lemma careful_inv:
  assumes "careful_step s l t" "tree_inv s \<and> quiet (fst s)"
  shows "tree_inv t \<and> quiet (fst t)"
proof
  have step: "tree_step s l t"
    using assms(1) by (simp add: careful_step_def)
  show "tree_inv t"
    using tree_inv_step step assms(2) by blast
  from step show "quiet (fst t)"
  proof cases
    case (ts_section i ts work rest timed_out w w' todo)
    have "heap_ok w" "in_range w work"
      using assms(2) ts_section(1,4,5) nth_mem[of i ts] by (auto simp: tree_inv_def)
    moreover have "polite w work"
      using assms(1) ts_section by (simp add: careful_step_def)
    ultimately show ?thesis
      using section_quiet ts_section assms(2) by auto
  qed (use assms(2) in auto)
qed

interpretation careful_sys: invariant_system careful_step "\<lambda>s. tree_inv s \<and> quiet (fst s)"
  by unfold_locales (rule careful_inv)

text \<open>
  A quiescent scope is empty. In a run in which no lease is acquired on and no child is added to a scope
  that already reported quiescence, a scope that reports it has no lease left outstanding anywhere below it,
  and every attached scope below it was cancelled and reports the same.
\<close>

theorem quiescent_scope_is_empty:
  assumes run: "run_of careful_step (idle_tree threads) labels (w, ts)"
    and below: "(child_of w)\<^sup>*\<^sup>* a d"
    and quiescent: "a < length (cw_nodes w)" "cn_status (scope_at w a) = QUIESCENT"
  shows "cn_status (scope_at w d) = QUIESCENT \<and> cn_cancelled (scope_at w d)
    \<and> (\<forall>l\<in>set (cw_leases w). cl_node l = d \<longrightarrow> cl_released l)"
proof -
  have inv: "tree_inv (w, ts)" "quiet w"
    using careful_sys.inv_run[OF run] initial_tree_inv by (auto simp: idle_tree_def quiet_def)
  have d: "d < length (cw_nodes w) \<and> cn_status (scope_at w d) = QUIESCENT"
    using below
  proof (induction rule: rtranclp_induct)
    case (step b c)
    then obtain k where k: "b < length (cw_nodes w)" "(k, c) \<in> set (cn_children (scope_at w b))"
      by (auto simp: child_of_def)
    have "heap_ok w"
      using inv(1) by (simp add: tree_inv_def)
    then show ?case
      using child_bounds[OF _ k] quietD(1)[OF inv(2) k(1) _ k(2)] step.IH by auto
  qed (use quiescent in simp)
  have "held w d = 0"
  proof -
    have "active_of w d = 0"
      using d inv(2) by (simp add: active_of_def quiet_def)
    then show ?thesis
      using inv(1) by (simp add: tree_inv_def)
  qed
  then have "\<forall>l\<in>set (cw_leases w). cl_node l = d \<longrightarrow> cl_released l"
    by (auto simp: held_def filter_empty_conv)
  then show ?thesis
    using d inv(1) heap_ok_node[of w d] by (auto simp: tree_inv_def node_ok_def)
qed

section \<open>Join returns\<close>

text \<open>One thread running on its own.\<close>

inductive solo :: "cancel_world \<times> cancel_work list \<Rightarrow> cancel_world \<times> cancel_work list \<Rightarrow> bool" where
  solo_step: "run_section False w work = Inr (w', todo) \<Longrightarrow> solo (w, work # rest) (w', todo @ rest)"

lemma solo_run:
  assumes "solo\<^sup>*\<^sup>* s t" "i < length ts"
  shows "\<exists>n. run_of tree_step (fst s, ts[i := snd s]) (List.replicate n (Section i False)) (fst t, ts[i := snd t])"
  using assms(1)
proof (induction rule: converse_rtranclp_induct)
  case base
  then show ?case
    by (intro exI[of _ 0]) (simp add: run_Nil)
next
  case (step s u)
  then obtain n where n: "run_of tree_step (fst u, ts[i := snd u]) (List.replicate n (Section i False)) (fst t, ts[i := snd t])"
    by blast
  from step.hyps(1) have "tree_step (fst s, ts[i := snd s]) (Section i False) (fst u, ts[i := snd u])"
  proof cases
    case (solo_step w work w' todo rest)
    then show ?thesis
      using ts_section[of i "ts[i := work # rest]" work rest False w w' todo] assms(2) by simp
  qed
  with n show ?case
    by (intro exI[of _ "Suc n"]) (simp add: run_Cons)
qed

text \<open>A refresh changes nothing but statuses, and those only to quiescent.\<close>

definition refreshed :: "cancel_world \<Rightarrow> cancel_world \<Rightarrow> bool" where
  "refreshed w w' = (length (cw_nodes w') = length (cw_nodes w) \<and> cw_leases w' = cw_leases w
     \<and> (\<forall>b<length (cw_nodes w). scope_at w' b = scope_at w b \<or> scope_at w' b = (scope_at w b)\<lparr>cn_status := QUIESCENT\<rparr>))"

lemma refreshed_refl [simp]: "refreshed w w"
  by (simp add: refreshed_def)

lemma refreshed_at:
  "refreshed w w' \<Longrightarrow> b < length (cw_nodes w) \<Longrightarrow>
     scope_at w' b = scope_at w b \<or> scope_at w' b = (scope_at w b)\<lparr>cn_status := QUIESCENT\<rparr>"
  by (simp add: refreshed_def)

lemma refreshed_trans:
  assumes "refreshed u v" "refreshed v w"
  shows "refreshed u w"
proof -
  have "scope_at w b = scope_at u b \<or> scope_at w b = (scope_at u b)\<lparr>cn_status := QUIESCENT\<rparr>" if "b < length (cw_nodes u)" for b
    using refreshed_at[OF assms(1) that] refreshed_at[OF assms(2), of b] that assms(1) by (auto simp: refreshed_def)
  then show ?thesis
    using assms by (simp add: refreshed_def)
qed

lemma refreshed_fields:
  assumes "refreshed w w'" "b < length (cw_nodes w)"
  shows "cn_children (scope_at w' b) = cn_children (scope_at w b)" "cn_parent (scope_at w' b) = cn_parent (scope_at w b)"
    "cn_cancelled (scope_at w' b) = cn_cancelled (scope_at w b)"
    "cn_active_leases (scope_at w' b) = cn_active_leases (scope_at w b)"
    "cn_status (scope_at w b) = QUIESCENT \<Longrightarrow> cn_status (scope_at w' b) = QUIESCENT"
  using refreshed_at[OF assms] by (elim disjE; simp)+

lemma refreshed_child_of:
  assumes "refreshed w w'"
  shows "child_of w' = child_of w"
proof (intro ext)
  fix a c
  have "length (cw_nodes w') = length (cw_nodes w)"
    using assms by (simp add: refreshed_def)
  then show "child_of w' a c = child_of w a c"
    using refreshed_fields(1)[OF assms, of a] by (auto simp: child_of_def)
qed

definition vacant :: "cancel_world \<Rightarrow> nat \<Rightarrow> bool" where
  "vacant w a = (\<forall>d. (child_of w)\<^sup>*\<^sup>* a d \<longrightarrow> cn_cancelled (scope_at w d) \<and> cn_active_leases (scope_at w d) = 0)"

lemma child_of_below:
  assumes "heap_ok w" "(child_of w)\<^sup>*\<^sup>* a d" "a < length (cw_nodes w)"
  shows "d < length (cw_nodes w)"
  using assms(2,3,1) by (induction rule: rtranclp_induct) (auto simp: child_of_def dest: child_bounds)

lemma refreshed_vacant: "heap_ok w \<Longrightarrow> refreshed w w' \<Longrightarrow> a < length (cw_nodes w) \<Longrightarrow> vacant w' a = vacant w a"
  unfolding vacant_def using refreshed_child_of[of w w'] refreshed_fields(3,4)[of w w'] child_of_below[of w a] by auto

text \<open>Settling a scope whose children are settled.\<close>

lemma settle_effect:
  assumes ok: "heap_ok w" and a: "a < length (cw_nodes w)"
    and kids: "vacant w a \<Longrightarrow> \<forall>(k, c)\<in>set (cn_children (scope_at w a)). cn_status (scope_at w c) = QUIESCENT"
  shows "\<exists>w'. solo (w, DoSettle a p # rest)
      (w', (case cn_parent (scope_at w a) of Some q \<Rightarrow> if p then [DoRefresh q True] else [] | None \<Rightarrow> []) @ rest)
    \<and> refreshed w w' \<and> heap_ok w' \<and> (vacant w a \<longrightarrow> cn_status (scope_at w' a) = QUIESCENT)"
proof -
  define w' where "w' = (if settled w a then set_node a ((scope_at w a)\<lparr>cn_status := QUIESCENT\<rparr>) w else w)"
  have run: "run_section False w (DoSettle a p) = Inr (w', case cn_parent (scope_at w a) of
      Some q \<Rightarrow> if p then [DoRefresh q True] else [] | None \<Rightarrow> [])"
    by (simp add: settle_section_def Let_def w'_def)
  have "vacant w a \<Longrightarrow> settled w a"
    using kids by (auto simp: vacant_def settled_def list_all_iff)
  then show ?thesis
    using solo_step[OF run, of rest] section_heap_ok[OF ok _ run] a
    by (intro exI[of _ w']) (auto simp: w'_def refreshed_def)
qed

text \<open>
  Refreshing downwards: by induction on how many scopes are younger, since children are. The children of a
  scope are refreshed one after the other.
\<close>

definition refreshes :: "cancel_world \<Rightarrow> nat \<Rightarrow> bool" where
  "refreshes w a = (\<forall>rest. \<exists>w'. solo\<^sup>*\<^sup>* (w, DoRefresh a False # rest) (w', rest) \<and> refreshed w w' \<and> heap_ok w'
     \<and> (vacant w a \<longrightarrow> cn_status (scope_at w' a) = QUIESCENT))"

lemma refresh_list:
  assumes "heap_ok w" "\<forall>c\<in>set cs. c < length (cw_nodes w)"
    and "\<And>v c. heap_ok v \<Longrightarrow> length (cw_nodes v) = length (cw_nodes w) \<Longrightarrow> c \<in> set cs \<Longrightarrow> refreshes v c"
  shows "\<exists>w'. solo\<^sup>*\<^sup>* (w, map (\<lambda>c. DoRefresh c False) cs @ rest) (w', rest) \<and> refreshed w w' \<and> heap_ok w'
    \<and> (\<forall>c\<in>set cs. vacant w c \<longrightarrow> cn_status (scope_at w' c) = QUIESCENT)"
  using assms
proof (induction cs arbitrary: w)
  case (Cons c cs)
  obtain v where v: "solo\<^sup>*\<^sup>* (w, DoRefresh c False # map (\<lambda>c. DoRefresh c False) cs @ rest) (v, map (\<lambda>c. DoRefresh c False) cs @ rest)"
    "refreshed w v" "heap_ok v" "vacant w c \<longrightarrow> cn_status (scope_at v c) = QUIESCENT"
    using Cons.prems(3)[OF Cons.prems(1)] unfolding refreshes_def by (meson list.set_intros(1))
  have len: "length (cw_nodes v) = length (cw_nodes w)"
    using v(2) by (simp add: refreshed_def)
  obtain w' where w': "solo\<^sup>*\<^sup>* (v, map (\<lambda>c. DoRefresh c False) cs @ rest) (w', rest)" "refreshed v w'" "heap_ok w'"
    "\<forall>c\<in>set cs. vacant v c \<longrightarrow> cn_status (scope_at w' c) = QUIESCENT"
    using Cons.IH[OF v(3)] Cons.prems(2,3) len by auto
  have "vacant w d \<longrightarrow> cn_status (scope_at w' d) = QUIESCENT" if "d \<in> set (c # cs)" for d
    using that v(4) w'(4) refreshed_vacant[OF Cons.prems(1) v(2)] refreshed_fields(5)[OF w'(2)] Cons.prems(2) len by auto
  then show ?case
    using v(1) w'(1,3) refreshed_trans[OF v(2) w'(2)] by (intro exI[of _ w']) auto
qed (auto intro!: exI)

lemma vacant_child: "vacant w a \<Longrightarrow> child_of w a c \<Longrightarrow> vacant w c"
  unfolding vacant_def by (meson converse_rtranclp_into_rtranclp)

lemma refresh_then_settle:
  assumes ok: "heap_ok w" and a: "a < length (cw_nodes w)"
    and kids: "\<And>v c. heap_ok v \<Longrightarrow> length (cw_nodes v) = length (cw_nodes w) \<Longrightarrow> a < c \<Longrightarrow> c < length (cw_nodes w)
      \<Longrightarrow> refreshes v c"
  shows "\<exists>w'. solo\<^sup>*\<^sup>* (w, DoRefresh a p # rest)
      (w', (case cn_parent (scope_at w a) of Some q \<Rightarrow> if p then [DoRefresh q True] else [] | None \<Rightarrow> []) @ rest)
    \<and> refreshed w w' \<and> heap_ok w' \<and> (vacant w a \<longrightarrow> cn_status (scope_at w' a) = QUIESCENT)"
proof -
  let ?cs = "map snd (cn_children (scope_at w a))"
  have cs: "\<forall>c\<in>set ?cs. a < c \<and> c < length (cw_nodes w) \<and> child_of w a c"
    using child_bounds[OF ok a] a by (auto simp: child_of_def)
  obtain v where v: "solo\<^sup>*\<^sup>* (w, map (\<lambda>c. DoRefresh c False) ?cs @ DoSettle a p # rest) (v, DoSettle a p # rest)"
    "refreshed w v" "heap_ok v" "\<forall>c\<in>set ?cs. vacant w c \<longrightarrow> cn_status (scope_at v c) = QUIESCENT"
    using refresh_list[OF ok, of ?cs "DoSettle a p # rest"] cs kids by metis
  have va: "a < length (cw_nodes v)" "cn_parent (scope_at v a) = cn_parent (scope_at w a)" "vacant v a = vacant w a"
    using v(2) a refreshed_fields(2)[OF v(2) a] refreshed_vacant[OF ok v(2) a] by (simp_all add: refreshed_def)
  have "vacant v a \<Longrightarrow> \<forall>(k, c)\<in>set (cn_children (scope_at v a)). cn_status (scope_at v c) = QUIESCENT"
    using v(4) cs vacant_child[of w a] va(3) refreshed_fields(1)[OF v(2) a] by force
  then obtain w' where w': "solo (v, DoSettle a p # rest)
      (w', (case cn_parent (scope_at w a) of Some q \<Rightarrow> if p then [DoRefresh q True] else [] | None \<Rightarrow> []) @ rest)"
    "refreshed v w'" "heap_ok w'" "vacant w a \<longrightarrow> cn_status (scope_at w' a) = QUIESCENT"
    using settle_effect[OF v(3) va(1), of p rest] va by metis
  have "solo (w, DoRefresh a p # rest) (w, map (\<lambda>c. DoRefresh c False) ?cs @ DoSettle a p # rest)"
    using solo_step[of w "DoRefresh a p" w "map (\<lambda>(k, c). DoRefresh c False) (cn_children (scope_at w a)) @ [DoSettle a p]" rest]
    by (simp add: refresh_section_def case_prod_unfold comp_def)
  then show ?thesis
    using v(1) w' refreshed_trans[OF v(2) w'(2)]
    by (intro exI[of _ w']) (meson converse_rtranclp_into_rtranclp rtranclp.rtrancl_into_rtrancl)
qed

lemma refresh_down: "heap_ok w \<Longrightarrow> a < length (cw_nodes w) \<Longrightarrow> refreshes w a"
proof (induction "length (cw_nodes w) - a" arbitrary: w a rule: less_induct)
  case less
  have "refreshes v c" if "heap_ok v" "length (cw_nodes v) = length (cw_nodes w)" "a < c" "c < length (cw_nodes w)" for v c
    using less.hyps[of v c] that less.prems(2) by simp
  from refresh_then_settle[OF less.prems this, of False] show ?case
    unfolding refreshes_def by (cases "cn_parent (scope_at w a)") simp_all
qed

text \<open>Refreshing upwards: every parent is older.\<close>

lemma refresh_up:
  "heap_ok w \<Longrightarrow> a < length (cw_nodes w) \<Longrightarrow>
   \<exists>w'. solo\<^sup>*\<^sup>* (w, DoRefresh a True # rest) (w', rest) \<and> refreshed w w'
     \<and> (vacant w a \<longrightarrow> cn_status (scope_at w' a) = QUIESCENT)"
proof (induction a arbitrary: w rule: less_induct)
  case (less a)
  have kids: "\<And>v c. heap_ok v \<Longrightarrow> length (cw_nodes v) = length (cw_nodes w) \<Longrightarrow> a < c \<Longrightarrow> c < length (cw_nodes w)
      \<Longrightarrow> refreshes v c"
    by (simp add: refresh_down)
  obtain v where v: "solo\<^sup>*\<^sup>* (w, DoRefresh a True # rest)
      (v, (case cn_parent (scope_at w a) of Some q \<Rightarrow> if True then [DoRefresh q True] else [] | None \<Rightarrow> []) @ rest)"
    "refreshed w v" "heap_ok v" "vacant w a \<longrightarrow> cn_status (scope_at v a) = QUIESCENT"
    by (rule exE[OF refresh_then_settle[where p = True and rest = rest, OF less.prems kids]]) (assumption+, blast)
  show ?case
  proof (cases "cn_parent (scope_at w a)")
    case (Some q)
    have len: "length (cw_nodes v) = length (cw_nodes w)" and q: "q < a"
      using v(2) heap_ok_node[OF less.prems] Some by (auto simp: refreshed_def node_ok_def)
    obtain w' where "solo\<^sup>*\<^sup>* (v, DoRefresh q True # rest) (w', rest)" "refreshed v w'"
      using less.IH[OF q v(3)] q len less.prems(2) by auto
    then show ?thesis
      using v Some refreshed_trans[OF v(2)] refreshed_fields(5)[of v w' a] len less.prems(2)
      by (intro exI[of _ w']) auto
  qed (use v in auto)
qed

text \<open>
  Join returns. In every reachable state in which the threads are idle, joining a cancelled scope below
  which every lease was released returns at once and reports quiescence: a thread that calls \<^verbatim>\<open>join\<close> finishes in
  finitely many sections without waiting, and the scope is then quiescent.
\<close>

theorem join_returns:
  assumes run: "run_of tree_step (idle_tree threads) labels (w, ts)"
    and idle: "\<forall>ws\<in>set ts. ws = []" and i: "i < length ts"
    and a: "a < length (cw_nodes w)" "cn_cancelled (scope_at w a)"
    and released: "\<forall>l\<in>set (cw_leases w). (child_of w)\<^sup>*\<^sup>* a (cl_node l) \<longrightarrow> cl_released l"
  shows "\<exists>n w'. run_of tree_step (w, ts) (Call i (DoJoin a) # List.replicate n (Section i False)) (w', ts)
    \<and> cn_status (scope_at w' a) = QUIESCENT"
proof -
  have inv: "tree_inv (w, ts)"
    by (rule reachable_tree_inv[OF run])
  then have ok: "heap_ok w" and spr: "spread w {}" and count: "\<And>d. active_of w d = held w d"
    using idle by (auto simp: tree_inv_def elim!: spread_mono)
  have "vacant w a"
    unfolding vacant_def
  proof (intro allI impI)
    fix d
    assume d: "(child_of w)\<^sup>*\<^sup>* a d"
    have "cn_cancelled (scope_at w d)"
      using d a spreadD[OF spr] by (induction rule: rtranclp_induct) (auto simp: child_of_def)
    moreover have "held w d = 0"
      using released d by (auto simp: held_def filter_empty_conv)
    ultimately show "cn_cancelled (scope_at w d) \<and> cn_active_leases (scope_at w d) = 0"
      using count[of d] child_of_below[OF ok d a(1)] by (simp add: active_of_def)
  qed
  then obtain w' where w': "solo\<^sup>*\<^sup>* (w, [DoRefresh a True, DoJoinTest a]) (w', [DoJoinTest a])" "cn_status (scope_at w' a) = QUIESCENT"
    using refresh_up[OF ok a(1), of "[DoJoinTest a]"] by auto
  have "solo (w, [DoJoin a]) (w, [DoRefresh a True, DoJoinTest a])"
    using solo_step[of w "DoJoin a" w "[DoRefresh a True, DoJoinTest a]" "[]"] by simp
  moreover have "solo (w', [DoJoinTest a]) (w', [])"
    using solo_step[of w' "DoJoinTest a" w' "[]" "[]"] w'(2) by (simp add: join_test_def)
  ultimately have "solo\<^sup>*\<^sup>* (w, [DoJoin a]) (w', [])"
    using w'(1) by (meson converse_rtranclp_into_rtranclp rtranclp.rtrancl_into_rtrancl)
  from solo_run[OF this i] obtain n where
    n: "run_of tree_step (w, ts[i := [DoJoin a]]) (List.replicate n (Section i False)) (w', ts[i := []])"
    by auto
  have "ts[i := []] = ts"
    using idle i by (metis list_update_id nth_mem)
  moreover have "tree_step (w, ts) (Call i (DoJoin a)) (w, ts[i := [DoJoin a]])"
    using ts_call[OF i, of w "DoJoin a"] idle i a(1) by simp
  ultimately show ?thesis
    using n w'(2) by (metis run_Cons)
qed

section \<open>A small tree\<close>

text \<open>The machine as a function, to run examples.\<close>

fun exec_label :: "cancel_state \<Rightarrow> cancel_label \<Rightarrow> cancel_state option" where
  "exec_label (w, ts) (Call i work) =
     (if i < length ts \<and> ts ! i = [] \<and> callable w work then Some (w, ts[i := [work]]) else None)"
| "exec_label (w, ts) (Section i timed_out) =
     (if i < length ts then
        (case ts ! i of [] \<Rightarrow> None
         | work # rest \<Rightarrow> if \<not> polite w work then None
             else (case run_section timed_out w work of Inl e \<Rightarrow> Some (w, ts[i := []])
                   | Inr (w', todo) \<Rightarrow> Some (w', ts[i := todo @ rest])))
      else None)"

fun exec_labels :: "cancel_state \<Rightarrow> cancel_label list \<Rightarrow> cancel_state option" where
  "exec_labels s [] = Some s"
| "exec_labels s (l # ls) = (case exec_label s l of None \<Rightarrow> None | Some t \<Rightarrow> exec_labels t ls)"

lemma exec_label_careful: "exec_label s l = Some t \<Longrightarrow> careful_step s l t"
  by (cases "(s, l)" rule: exec_label.cases)
    (auto simp: careful_step_def intro: tree_step.intros split: if_splits list.splits sum.splits prod.splits)

lemma exec_labels_careful: "exec_labels s ls = Some t \<Longrightarrow> run_of careful_step s ls t"
  by (induction s ls rule: exec_labels.induct)
    (auto intro: run_Nil run_Cons exec_label_careful split: option.splits)

lemma careful_run: "run_of careful_step s ls t \<Longrightarrow> run_of tree_step s ls t"
  by (induction rule: run_of.induct) (auto simp: careful_step_def intro: run_Nil run_Cons)

lemmas exec_labels_run = careful_run[OF exec_labels_careful]

text \<open>A root with one child; the child's lease is taken, the root cancelled, the lease released.\<close>

definition build_labels :: "cancel_label list" where
  "build_labels = [Call 0 (DoNewRoot ''root''), Section 0 False, Call 0 (DoNewChild 0 ''job''), Section 0 False]"

definition demo_tree :: "cancellation_status \<Rightarrow> string option \<Rightarrow> cancellation_status \<Rightarrow> string option \<Rightarrow> nat
    \<Rightarrow> cancel_lease list \<Rightarrow> cancel_world" where
  "demo_tree s0 r0 s1 r1 n ls =
     \<lparr>cw_nodes =
        [\<lparr>cn_node_id = ''root'', cn_parent = None, cn_children = [(''job'', 1)], cn_active_leases = 0, cn_status = s0,
          cn_reason = r0, cn_cancelled = (r0 \<noteq> None)\<rparr>,
         \<lparr>cn_node_id = ''job'', cn_parent = Some 0, cn_children = [], cn_active_leases = n, cn_status = s1,
          cn_reason = r1, cn_cancelled = (r1 \<noteq> None)\<rparr>],
      cw_leases = ls\<rparr>"

definition half_cancelled :: cancel_world where
  "half_cancelled = demo_tree CANCEL_REQUESTED (Some ''stop'') ACTIVE None 1 [\<lparr>cl_node = 1, cl_released = False\<rparr>]"

definition all_cancelled :: cancel_world where
  "all_cancelled = demo_tree CANCEL_REQUESTED (Some ''stop'') CANCEL_REQUESTED (Some ''stop'') 0 []"

definition all_quiet :: cancel_world where
  "all_quiet = demo_tree QUIESCENT (Some ''stop'') QUIESCENT (Some ''stop'') 0 [\<lparr>cl_node = 1, cl_released = True\<rparr>]"

definition half_labels :: "cancel_label list" where
  "half_labels = build_labels @ [Call 0 (DoAcquire 1), Section 0 False, Call 0 (DoCancel 0 ''stop''), Section 0 False]"

definition quiet_labels :: "cancel_label list" where
  "quiet_labels = half_labels @ [Section 0 False, Call 0 (DoRelease 0)] @ List.replicate 8 (Section 0 False)"

definition cancel_labels :: "cancel_label list" where
  "cancel_labels = build_labels @ [Call 0 (DoCancel 0 ''stop''), Section 0 False, Section 0 False]"

lemma demo_executions:
  "exec_labels (idle_tree 1) half_labels = Some (half_cancelled, [[DoCancel 1 ''stop'']])"
  "exec_labels (idle_tree 1) quiet_labels = Some (all_quiet, [[]])"
  "exec_labels (idle_tree 1) cancel_labels = Some (all_cancelled, [[]])"
  by code_simp+

lemma demo_child: "(child_of (demo_tree s0 r0 s1 r1 n ls))\<^sup>*\<^sup>* 0 1"
  by (rule r_into_rtranclp) (simp add: child_of_def demo_tree_def scope_at_def)

theorem cancellation_reaches_descendants_witness:
  "\<not> cn_cancelled (scope_at half_cancelled 1)
   \<and> (\<exists>ws\<in>set [[DoCancel 1 ''stop'']]. \<exists>c r. DoCancel c r \<in> set ws \<and> (child_of half_cancelled)\<^sup>*\<^sup>* c 1)"
  using cancellation_reaches_descendants[OF exec_labels_run[OF demo_executions(1)], of 0 1] demo_child
  by (simp add: half_cancelled_def demo_tree_def scope_at_def)

theorem quiescent_scope_is_empty_witness:
  "cn_status (scope_at all_quiet 1) = QUIESCENT \<and> cn_cancelled (scope_at all_quiet 1)
   \<and> list_all (\<lambda>l. cl_node l = 1 \<longrightarrow> cl_released l) (cw_leases all_quiet)"
  using quiescent_scope_is_empty[OF exec_labels_careful[OF demo_executions(2)], of 0 1] demo_child
  by (simp add: all_quiet_def demo_tree_def scope_at_def)

theorem join_returns_witness:
  "cn_status (scope_at all_cancelled 0) = CANCEL_REQUESTED
   \<and> (\<exists>n w'. run_of tree_step (all_cancelled, [[]]) (Call 0 (DoJoin 0) # List.replicate n (Section 0 False)) (w', [[]])
        \<and> cn_status (scope_at w' 0) = QUIESCENT)"
  using join_returns[OF exec_labels_run[OF demo_executions(3)], of 0 0]
  by (simp add: all_cancelled_def demo_tree_def scope_at_def)

text \<open>
  A careful run is needed: a lease acquired after quiescence was reported leaves the report standing.
\<close>

lemma late_lease_keeps_quiescence:
  "\<exists>w'. run_section False all_quiet (DoAcquire 1) = Inr (w', []) \<and> cn_status (scope_at w' 0) = QUIESCENT \<and> held w' 1 = 1"
  by (simp add: acquire_section_def all_quiet_def demo_tree_def scope_at_def set_node_def held_def)

end
