(* ===== verification/ArtifactRetention.thy ===== *)
theory ArtifactRetention
  imports Prelude "HOL-Library.Multiset"
begin

text \<open>
  \<^verbatim>\<open>sonder_runtime/domain/artifact_retention.py\<close>: the plan of a garbage collection over the entries of an
  artifact cache, from bounded snapshots of the entries, of the owners that refer to them and of the
  tombstones. The validating constructors take Python values; a member of an enumeration is an option, \<open>None\<close>
  being an object of another type. An aware datetime is its local time in microseconds since year 1 and its
  offset; aware datetimes compare by their instant, and adding to one raises \<open>OverflowError\<close> after year 9999.
\<close>

section \<open>Time\<close>

datatype gc_time = Aware int int | NotAware

definition instant :: "gc_time \<Rightarrow> int" where
  "instant t = (case t of Aware local offset \<Rightarrow> local - offset | NotAware \<Rightarrow> 0)"

abbreviation datetime_max :: int where
  "datetime_max \<equiv> 315537897600 * 1000000 - 1"

definition add_seconds :: "gc_time \<Rightarrow> int \<Rightarrow> gc_time res" where
  "add_seconds t n =
     (case t of
        Aware local offset \<Rightarrow>
          if datetime_max < local + n * 1000000 then Inl (OverflowError ''date value out of range'')
          else Inr (Aware (local + n * 1000000) offset)
      | NotAware \<Rightarrow> Inl (TypeError ''unsupported operand''))"

definition check_aware :: "gc_time \<Rightarrow> string \<Rightarrow> gc_time res" where
  "check_aware t field =
     (case t of Aware _ _ \<Rightarrow> Inr t | NotAware \<Rightarrow> Inl (ValueError (field @ '' must be timezone-aware'')))"

section \<open>Entries, references and tombstones\<close>

datatype gc_action = RETAIN | DELETE | DEFER

datatype gc_reason =
    ELIGIBLE | RETENTION_WINDOW | LIVE_JOB_REFERENCE | LIVE_DEPLOYMENT_REFERENCE | REFERENCE_IDENTITY_MISMATCH
  | REFERENCE_LEASE_EXPIRED | REFERENCE_STATE_UNKNOWN | REFERENCE_CONFLICT | REFERENCE_SCAN_INCOMPLETE
  | RETENTION_TOMBSTONE | DELETION_TOMBSTONE | TOMBSTONE_IDENTITY_MISMATCH | TOMBSTONE_CONFLICT
  | TOMBSTONE_SCAN_INCOMPLETE | CANDIDATE_IDENTITY_CONFLICT

datatype reference_kind = JOB | DEPLOYMENT

datatype reference_state = LIVE | RELEASED | UNKNOWN

datatype tombstone_kind = DELETION | RETENTION

type_synonym artifact_key = "string \<times> string \<times> string"

definition version_match :: "string \<Rightarrow> bool" where
  \<comment> \<open>\<^verbatim>\<open>[A-Za-z0-9][A-Za-z0-9._:+-]{0,63}\<close> as a full match\<close>
  "version_match s =
     (case s of [] \<Rightarrow> False
      | c # cs \<Rightarrow> ascii_alnum c \<and> length cs \<le> 63 \<and> list_all (\<lambda>d. identity_char d \<or> d = CHR ''+'') cs)"

definition check_version :: "pyval \<Rightarrow> string res" where
  "check_version v =
     (case v of
        PyStr s \<Rightarrow> if version_match s then Inr s else Inl (ValueError ''version must be a bounded cache generation'')
      | _ \<Rightarrow> Inl (ValueError ''version must be a bounded cache generation''))"

definition check_revision :: "pyval \<Rightarrow> string \<Rightarrow> int res" where
  "check_revision v field =
     (if bounded_int 1 max_int63 v then (case v of PyInt n \<Rightarrow> Inr n | _ \<Rightarrow> Inl (TypeError field))
      else Inl (ValueError (field @ '' must be a positive bounded integer'')))"

definition check_reason :: "pyval \<Rightarrow> string res" where
  "check_reason v =
     (case v of
        PyStr s \<Rightarrow> if py_strip s = [] \<or> 512 < utf8_len s then Inl (ValueError ''reason must be bounded non-empty text'')
                   else Inr s
      | _ \<Rightarrow> Inl (ValueError ''reason must be bounded non-empty text''))"

definition check_enum :: "'e option \<Rightarrow> string \<Rightarrow> string \<Rightarrow> 'e res" where
  "check_enum v field type =
     (case v of Some e \<Rightarrow> Inr e | None \<Rightarrow> Inl (ValueError (field @ '' must be a '' @ type)))"

definition check_optional :: "(gc_time \<Rightarrow> gc_time res) \<Rightarrow> gc_time option \<Rightarrow> gc_time option res" where
  "check_optional f v = (case v of None \<Rightarrow> Inr None | Some t \<Rightarrow> rbind (f t) (\<lambda>t. Inr (Some t)))"

record cache_entry =
  ce_artifact_id :: string
  ce_digest :: string
  ce_version :: string
  ce_size_bytes :: int
  ce_last_accessed_at :: gc_time
  ce_retain_until :: "gc_time option"
  ce_revision :: int

definition mk_cache_entry ::
  "pyval \<Rightarrow> pyval \<Rightarrow> pyval \<Rightarrow> pyval \<Rightarrow> gc_time \<Rightarrow> gc_time option \<Rightarrow> pyval \<Rightarrow> cache_entry res" where
  "mk_cache_entry artifact_id digest version size_bytes last_accessed_at retain_until revision =
     rbind (check_identity artifact_id ''artifact_id'') (\<lambda>a.
     rbind (check_digest digest ''digest'') (\<lambda>d.
     rbind (check_version version) (\<lambda>v.
     rbind (case size_bytes of PyInt n \<Rightarrow> if n < 0 then Inl (ValueError ''size_bytes must be a non-negative integer'') else Inr n
            | _ \<Rightarrow> Inl (ValueError ''size_bytes must be a non-negative integer'')) (\<lambda>n.
     rbind (check_aware last_accessed_at ''last_accessed_at'') (\<lambda>t.
     rbind (check_optional (\<lambda>t. check_aware t ''retain_until'') retain_until) (\<lambda>u.
     rbind (check_revision revision ''revision'') (\<lambda>r.
       Inr \<lparr>ce_artifact_id = a, ce_digest = d, ce_version = v, ce_size_bytes = n, ce_last_accessed_at = t,
            ce_retain_until = u, ce_revision = r\<rparr>)))))))"

definition entry_key :: "cache_entry \<Rightarrow> artifact_key" where
  "entry_key e = (ce_artifact_id e, ce_digest e, ce_version e)"

record artifact_reference =
  ar_owner_id :: string
  ar_owner_kind :: reference_kind
  ar_state :: reference_state
  ar_artifact_id :: string
  ar_digest :: string
  ar_version :: string
  ar_revision :: int
  ar_lease_expires_at :: "gc_time option"

definition mk_artifact_reference ::
  "pyval \<Rightarrow> reference_kind option \<Rightarrow> reference_state option \<Rightarrow> pyval \<Rightarrow> pyval \<Rightarrow> pyval \<Rightarrow> pyval \<Rightarrow> gc_time option
     \<Rightarrow> artifact_reference res" where
  "mk_artifact_reference owner_id owner_kind state artifact_id digest version revision lease_expires_at =
     rbind (check_identity owner_id ''owner_id'') (\<lambda>w.
     rbind (check_enum owner_kind ''owner_kind'' ''ArtifactReferenceKind'') (\<lambda>k.
     rbind (check_enum state ''state'' ''ArtifactReferenceState'') (\<lambda>s.
     rbind (check_identity artifact_id ''artifact_id'') (\<lambda>a.
     rbind (check_digest digest ''digest'') (\<lambda>d.
     rbind (check_version version) (\<lambda>v.
     rbind (check_revision revision ''revision'') (\<lambda>r.
     rbind (check_optional (\<lambda>t. check_aware t ''lease_expires_at'') lease_expires_at) (\<lambda>x.
       Inr \<lparr>ar_owner_id = w, ar_owner_kind = k, ar_state = s, ar_artifact_id = a, ar_digest = d, ar_version = v,
            ar_revision = r, ar_lease_expires_at = x\<rparr>))))))))"

definition reference_key :: "artifact_reference \<Rightarrow> artifact_key" where
  "reference_key r = (ar_artifact_id r, ar_digest r, ar_version r)"

definition owner_key :: "artifact_reference \<Rightarrow> string \<times> string" where
  "owner_key r = (ar_owner_id r, ar_artifact_id r)"

definition is_live :: "artifact_reference \<Rightarrow> gc_time \<Rightarrow> bool" where
  "is_live r now =
     (ar_state r = LIVE
      \<and> (case ar_lease_expires_at r of None \<Rightarrow> True | Some x \<Rightarrow> instant now < instant x))"

definition lease_expired :: "artifact_reference \<Rightarrow> gc_time \<Rightarrow> bool" where
  "lease_expired r now =
     (ar_state r = LIVE
      \<and> (case ar_lease_expires_at r of None \<Rightarrow> False | Some x \<Rightarrow> instant x \<le> instant now))"

record tombstone =
  ts_artifact_id :: string
  ts_digest :: string
  ts_version :: string
  ts_kind :: tombstone_kind
  ts_revision :: int
  ts_created_at :: gc_time
  ts_reason :: string

definition mk_tombstone ::
  "pyval \<Rightarrow> pyval \<Rightarrow> pyval \<Rightarrow> tombstone_kind option \<Rightarrow> pyval \<Rightarrow> gc_time \<Rightarrow> pyval \<Rightarrow> tombstone res" where
  "mk_tombstone artifact_id digest version kind revision created_at reason =
     rbind (check_identity artifact_id ''artifact_id'') (\<lambda>a.
     rbind (check_digest digest ''digest'') (\<lambda>d.
     rbind (check_version version) (\<lambda>v.
     rbind (check_enum kind ''kind'' ''ArtifactTombstoneKind'') (\<lambda>k.
     rbind (check_revision revision ''revision'') (\<lambda>r.
     rbind (check_aware created_at ''created_at'') (\<lambda>t.
     rbind (check_reason reason) (\<lambda>s.
       Inr \<lparr>ts_artifact_id = a, ts_digest = d, ts_version = v, ts_kind = k, ts_revision = r, ts_created_at = t,
            ts_reason = s\<rparr>)))))))"

definition tombstone_key :: "tombstone \<Rightarrow> artifact_key" where
  "tombstone_key t = (ts_artifact_id t, ts_digest t, ts_version t)"

section \<open>Snapshots, policy and decisions\<close>

text \<open>The three kinds of page have the same fields and checks.\<close>

record 'i gc_page =
  gp_items :: "'i list"
  gp_complete :: bool
  gp_next_cursor :: "string option"
  gp_revision :: int

definition mk_gc_page :: "string \<Rightarrow> 'i list option \<Rightarrow> pyval \<Rightarrow> pyval \<Rightarrow> pyval \<Rightarrow> 'i gc_page res" where
  "mk_gc_page type items whole next_cursor revision =
     (case items of
        None \<Rightarrow> Inl (ValueError (''items must be a tuple of '' @ type @ '' values''))
      | Some xs \<Rightarrow>
          rbind (check_bool whole ''complete'') (\<lambda>c.
          rbind (if next_cursor = PyNone then Inr None
                 else rbind (check_identity next_cursor ''next_cursor'') (\<lambda>n. Inr (Some n))) (\<lambda>n.
          rbind (check_revision revision ''revision'') (\<lambda>r.
            Inr \<lparr>gp_items = xs, gp_complete = c, gp_next_cursor = n, gp_revision = r\<rparr>))))"

definition empty_page :: "'i gc_page" where
  "empty_page = \<lparr>gp_items = [], gp_complete = True, gp_next_cursor = None, gp_revision = 1\<rparr>"

record gc_policy =
  gl_max_candidates :: int
  gl_max_references :: int
  gl_max_tombstones :: int
  gl_minimum_idle_seconds :: int

definition policy_limit :: "string \<Rightarrow> string \<Rightarrow> int \<Rightarrow> int \<Rightarrow> pyval \<Rightarrow> int res" where
  "policy_limit field limits low high v =
     (if bounded_int low high v then (case v of PyInt n \<Rightarrow> Inr n | _ \<Rightarrow> Inl (TypeError field))
      else Inl (ValueError (field @ '' must be within '' @ limits)))"

definition mk_gc_policy :: "pyval \<Rightarrow> pyval \<Rightarrow> pyval \<Rightarrow> pyval \<Rightarrow> gc_policy res" where
  "mk_gc_policy max_candidates max_references max_tombstones minimum_idle_seconds =
     rbind (policy_limit ''max_candidates'' ''1..4096'' 1 4096 max_candidates) (\<lambda>c.
     rbind (policy_limit ''max_references'' ''1..8192'' 1 8192 max_references) (\<lambda>r.
     rbind (policy_limit ''max_tombstones'' ''1..8192'' 1 8192 max_tombstones) (\<lambda>t.
     rbind (policy_limit ''minimum_idle_seconds'' ''0..365 days'' 0 (365 * 86400) minimum_idle_seconds) (\<lambda>i.
       Inr \<lparr>gl_max_candidates = c, gl_max_references = r, gl_max_tombstones = t, gl_minimum_idle_seconds = i\<rparr>))))"

definition default_gc_policy :: gc_policy where
  "default_gc_policy =
     \<lparr>gl_max_candidates = 256, gl_max_references = 1024, gl_max_tombstones = 1024, gl_minimum_idle_seconds = 3600\<rparr>"

record gc_decision =
  gd_artifact_id :: string
  gd_digest :: string
  gd_version :: string
  gd_action :: gc_action
  gd_reason :: gc_reason
  gd_tombstone :: "tombstone option"

definition decision_key :: "gc_decision \<Rightarrow> artifact_key" where
  "decision_key d = (gd_artifact_id d, gd_digest d, gd_version d)"

definition action_allows :: "gc_action \<Rightarrow> gc_reason \<Rightarrow> tombstone option \<Rightarrow> unit res" where
  "action_allows action reason marker =
     (case action of
        DELETE \<Rightarrow>
          if (case marker of None \<Rightarrow> True | Some t \<Rightarrow> ts_kind t \<noteq> DELETION)
          then Inl (ValueError ''delete decisions require a matching deletion tombstone'')
          else if reason \<notin> {ELIGIBLE, DELETION_TOMBSTONE}
          then Inl (ValueError ''delete decisions require an eligibility or deletion-tombstone reason'')
          else Inr ()
      | RETAIN \<Rightarrow>
          if reason = RETENTION_TOMBSTONE \<and> (case marker of None \<Rightarrow> True | Some t \<Rightarrow> ts_kind t \<noteq> RETENTION)
          then Inl (ValueError ''retention tombstone decisions require a retention tombstone'')
          else if (case marker of None \<Rightarrow> False | Some t \<Rightarrow> ts_kind t \<noteq> RETENTION)
          then Inl (ValueError ''retain decisions may carry only a retention tombstone'')
          else if marker \<noteq> None \<and> reason \<noteq> RETENTION_TOMBSTONE
          then Inl (ValueError ''retain decisions with a tombstone require a retention-tombstone reason'')
          else Inr ()
      | DEFER \<Rightarrow>
          if marker \<noteq> None then Inl (ValueError ''defer decisions cannot carry a tombstone'') else Inr ())"

definition mk_gc_decision ::
  "pyval \<Rightarrow> pyval \<Rightarrow> pyval \<Rightarrow> gc_action option \<Rightarrow> gc_reason option \<Rightarrow> tombstone option \<Rightarrow> gc_decision res" where
  "mk_gc_decision artifact_id digest version action reason marker =
     rbind (check_identity artifact_id ''artifact_id'') (\<lambda>a.
     rbind (check_digest digest ''digest'') (\<lambda>d.
     rbind (check_version version) (\<lambda>v.
     rbind (check_enum action ''action'' ''ArtifactGcAction'') (\<lambda>act.
     rbind (check_enum reason ''reason'' ''ArtifactGcReason'') (\<lambda>why.
       if (case marker of None \<Rightarrow> False | Some t \<Rightarrow> tombstone_key t \<noteq> (a, d, v))
       then Inl (ValueError ''tombstone identity must match decision identity'')
       else rbind (action_allows act why marker) (\<lambda>_.
         Inr \<lparr>gd_artifact_id = a, gd_digest = d, gd_version = v, gd_action = act, gd_reason = why,
              gd_tombstone = marker\<rparr>))))))"

section \<open>The plan\<close>

record gc_plan =
  pl_decisions :: "gc_decision list"
  pl_candidate_revision :: int
  pl_reference_revision :: int
  pl_tombstone_revision :: int
  pl_complete :: bool
  pl_next_cursor :: "string option"
  pl_scanned_candidates :: int
  pl_scanned_references :: int
  pl_scanned_tombstones :: int

definition mk_gc_plan ::
  "gc_decision list \<Rightarrow> pyval \<Rightarrow> pyval \<Rightarrow> pyval \<Rightarrow> bool \<Rightarrow> string option \<Rightarrow> nat \<Rightarrow> nat \<Rightarrow> nat \<Rightarrow> gc_plan res" where
  "mk_gc_plan decisions candidate_revision reference_revision tombstone_revision whole next_cursor nc nr nt =
     rbind (check_revision candidate_revision ''candidate_revision'') (\<lambda>c.
     rbind (check_revision reference_revision ''reference_revision'') (\<lambda>r.
     rbind (check_revision tombstone_revision ''tombstone_revision'') (\<lambda>t.
     rbind (case next_cursor of None \<Rightarrow> Inr None
            | Some s \<Rightarrow> rbind (check_identity (PyStr s) ''next_cursor'') (\<lambda>s. Inr (Some s))) (\<lambda>cur.
       Inr \<lparr>pl_decisions = decisions, pl_candidate_revision = c, pl_reference_revision = r,
            pl_tombstone_revision = t, pl_complete = whole, pl_next_cursor = cur,
            pl_scanned_candidates = int nc, pl_scanned_references = int nr, pl_scanned_tombstones = int nt\<rparr>))))"

definition plan_deferred :: "gc_plan \<Rightarrow> gc_decision list" where
  "plan_deferred p = filter (\<lambda>d. gd_action d = DEFER) (pl_decisions p)"

definition reference_claim :: "artifact_reference \<Rightarrow> string \<times> string \<times> reference_state \<times> int option" where
  "reference_claim r = (ar_digest r, ar_version r, ar_state r, map_option instant (ar_lease_expires_at r))"

definition reference_conflicts :: "artifact_reference list \<Rightarrow> (string \<times> string) list" where
  "reference_conflicts refs =
     filter (\<lambda>k. 1 < length (remdups (map reference_claim (filter (\<lambda>r. owner_key r = k) refs))))
       (remdups (map owner_key refs))"

definition candidate_conflicts :: "cache_entry list \<Rightarrow> string list" where
  "candidate_conflicts items =
     filter (\<lambda>a. 1 < length (remdups (map entry_key (filter (\<lambda>e. ce_artifact_id e = a) items))))
       (remdups (map ce_artifact_id items))"

definition tombstone_for :: "cache_entry \<Rightarrow> tombstone list \<Rightarrow> tombstone option \<times> gc_reason option" where
  "tombstone_for e ts =
     (let same_id = filter (\<lambda>t. ts_artifact_id t = ce_artifact_id e) ts;
          exact = filter (\<lambda>t. tombstone_key t = entry_key e) same_id in
      if list_ex (\<lambda>t. tombstone_key t \<noteq> entry_key e) same_id then (None, Some TOMBSTONE_IDENTITY_MISMATCH)
      else if exact = [] then (None, None)
      else if 1 < length (remdups (map ts_kind exact)) then (None, Some TOMBSTONE_CONFLICT)
      else
        let latest = filter (\<lambda>t. ts_revision t = Max (set (map ts_revision exact))) exact in
        if 1 < length (remdups (map ts_reason latest)) then (None, Some TOMBSTONE_CONFLICT)
        else
          let marker = hd latest in
          if ts_kind marker = RETENTION then (Some marker, Some RETENTION_TOMBSTONE)
          else (Some marker, Some DELETION_TOMBSTONE))"

definition decide_gc :: "cache_entry \<Rightarrow> gc_action \<Rightarrow> gc_reason \<Rightarrow> tombstone option \<Rightarrow> gc_decision res" where
  "decide_gc e action reason marker =
     mk_gc_decision (PyStr (ce_artifact_id e)) (PyStr (ce_digest e)) (PyStr (ce_version e)) (Some action)
       (Some reason) marker"

record gc_scan =
  sc_candidates :: "cache_entry list"
  sc_references :: "artifact_reference list"
  sc_tombstones :: "tombstone list"
  sc_reference_incomplete :: bool
  sc_tombstone_incomplete :: bool
  sc_now :: gc_time
  sc_idle :: int

definition decide_unreferenced :: "gc_scan \<Rightarrow> cache_entry \<Rightarrow> gc_decision res" where
  "decide_unreferenced sc e =
     (case tombstone_for e (sc_tombstones sc) of (marker, why) \<Rightarrow>
        if why = Some TOMBSTONE_IDENTITY_MISMATCH then decide_gc e DEFER TOMBSTONE_IDENTITY_MISMATCH None
        else if why = Some TOMBSTONE_CONFLICT then decide_gc e DEFER TOMBSTONE_CONFLICT None
        else if why = Some RETENTION_TOMBSTONE then decide_gc e RETAIN RETENTION_TOMBSTONE marker
        else if why = Some DELETION_TOMBSTONE then decide_gc e DELETE DELETION_TOMBSTONE marker
        else
          rbind (add_seconds (ce_last_accessed_at e) (sc_idle sc)) (\<lambda>idle_deadline.
            if (case ce_retain_until e of None \<Rightarrow> False | Some u \<Rightarrow> instant (sc_now sc) < instant u)
               \<or> instant (sc_now sc) < instant idle_deadline
            then decide_gc e RETAIN RETENTION_WINDOW None
            else rbind (mk_tombstone (PyStr (ce_artifact_id e)) (PyStr (ce_digest e)) (PyStr (ce_version e))
                          (Some DELETION) (PyInt (ce_revision e)) (sc_now sc)
                          (PyStr ''garbage collection eligibility decision'')) (\<lambda>t.
              decide_gc e DELETE ELIGIBLE (Some t))))"

definition decide_entry :: "gc_scan \<Rightarrow> cache_entry \<Rightarrow> gc_decision res" where
  "decide_entry sc e =
     (let same_id = filter (\<lambda>r. ar_artifact_id r = ce_artifact_id e) (sc_references sc);
          matching = filter (\<lambda>r. reference_key r = entry_key e) same_id in
      if ce_artifact_id e \<in> set (candidate_conflicts (sc_candidates sc))
      then decide_gc e DEFER CANDIDATE_IDENTITY_CONFLICT None
      else if sc_reference_incomplete sc then decide_gc e DEFER REFERENCE_SCAN_INCOMPLETE None
      else if sc_tombstone_incomplete sc then decide_gc e DEFER TOMBSTONE_SCAN_INCOMPLETE None
      else if list_ex (\<lambda>r. owner_key r \<in> set (reference_conflicts (sc_references sc))) same_id
      then decide_gc e DEFER REFERENCE_CONFLICT None
      else if list_ex (\<lambda>r. reference_key r \<noteq> entry_key e \<and> ar_state r \<in> {LIVE, UNKNOWN}) same_id
      then decide_gc e DEFER REFERENCE_IDENTITY_MISMATCH None
      else if list_ex (\<lambda>r. ar_state r = UNKNOWN) matching then decide_gc e DEFER REFERENCE_STATE_UNKNOWN None
      else if list_ex (\<lambda>r. lease_expired r (sc_now sc)) matching then decide_gc e DEFER REFERENCE_LEASE_EXPIRED None
      else case find (\<lambda>r. is_live r (sc_now sc)) matching of
             Some r \<Rightarrow> decide_gc e RETAIN (if ar_owner_kind r = JOB then LIVE_JOB_REFERENCE else LIVE_DEPLOYMENT_REFERENCE) None
           | None \<Rightarrow> decide_unreferenced sc e)"

fun gc_decide_all :: "gc_scan \<Rightarrow> artifact_key list \<Rightarrow> cache_entry list \<Rightarrow> gc_decision list res" where
  "gc_decide_all sc seen [] = Inr []"
| "gc_decide_all sc seen (e # es) =
     (if entry_key e \<in> set seen then gc_decide_all sc seen es
      else rbind (decide_entry sc e) (\<lambda>d.
           rbind (gc_decide_all sc (entry_key e # seen) es) (\<lambda>ds. Inr (d # ds))))"

definition scan_of ::
  "gc_policy \<Rightarrow> gc_time \<Rightarrow> cache_entry gc_page \<Rightarrow> artifact_reference gc_page \<Rightarrow> tombstone gc_page \<Rightarrow> gc_scan" where
  "scan_of pol now cands refs tombs =
     \<lparr>sc_candidates = sort_key entry_key (take (nat (gl_max_candidates pol)) (gp_items cands)),
      sc_references = take (nat (gl_max_references pol)) (gp_items refs),
      sc_tombstones = take (nat (gl_max_tombstones pol)) (gp_items tombs),
      sc_reference_incomplete = (\<not> gp_complete refs \<or> gl_max_references pol < int (length (gp_items refs))),
      sc_tombstone_incomplete = (\<not> gp_complete tombs \<or> gl_max_tombstones pol < int (length (gp_items tombs))),
      sc_now = now, sc_idle = gl_minimum_idle_seconds pol\<rparr>"

definition plan_artifact_gc ::
  "cache_entry gc_page option \<Rightarrow> artifact_reference gc_page option \<Rightarrow> tombstone gc_page option
     \<Rightarrow> gc_time option \<Rightarrow> gc_time \<Rightarrow> gc_policy option \<Rightarrow> gc_plan res" where
  \<comment> \<open>\<open>None\<close> for the candidates is an object of another type; \<open>clock\<close> is \<^verbatim>\<open>datetime.now(timezone.utc)\<close>\<close>
  "plan_artifact_gc candidates references tombstones now clock policy =
     (case candidates of
        None \<Rightarrow> Inl (ValueError ''candidates must be an ArtifactCachePage'')
      | Some cands \<Rightarrow>
          (let refs = (case references of None \<Rightarrow> empty_page | Some r \<Rightarrow> r);
               tombs = (case tombstones of None \<Rightarrow> empty_page | Some t \<Rightarrow> t);
               pol = (case policy of None \<Rightarrow> default_gc_policy | Some p \<Rightarrow> p) in
           rbind (case now of None \<Rightarrow> Inr clock | Some t \<Rightarrow> check_aware t ''now'') (\<lambda>current.
             let sc = scan_of pol current cands refs tombs;
                 overflow = (gl_max_candidates pol < int (length (gp_items cands)));
                 whole = (gp_complete cands \<and> \<not> overflow \<and> \<not> sc_reference_incomplete sc
                             \<and> \<not> sc_tombstone_incomplete sc);
                 next_cursor =
                   (if \<not> gp_complete cands \<or> overflow
                    then (case gp_next_cursor cands of
                            Some c \<Rightarrow> Some c
                          | None \<Rightarrow> if sc_candidates sc = [] then None else Some (ce_artifact_id (last (sc_candidates sc))))
                    else None)
             in rbind (gc_decide_all sc [] (sc_candidates sc)) (\<lambda>decisions.
                  mk_gc_plan decisions (PyInt (gp_revision cands)) (PyInt (gp_revision refs))
                    (PyInt (gp_revision tombs)) whole next_cursor (length (sc_candidates sc))
                    (length (sc_references sc)) (length (sc_tombstones sc))))))"

section \<open>What is deleted\<close>

lemma check_version_Inr [run_simps]: "check_version v = Inr s \<longleftrightarrow> v = PyStr s \<and> version_match s"
  by (cases v) (auto simp: check_version_def)

lemma check_revision_Inr [run_simps]: "check_revision v f = Inr n \<longleftrightarrow> v = PyInt n \<and> 1 \<le> n \<and> n \<le> max_int63"
  by (cases v) (auto simp: check_revision_def bounded_int_def)

lemma check_enum_Inr [run_simps]: "check_enum v f ty = Inr e \<longleftrightarrow> v = Some e"
  by (cases v) (auto simp: check_enum_def)

lemma decide_gc_Inr:
  assumes "decide_gc e action reason marker = Inr d"
  shows "decision_key d = entry_key e \<and> gd_action d = action \<and> gd_reason d = reason \<and> gd_tombstone d = marker"
  using assms by (auto simp: decide_gc_def mk_gc_decision_def run_simps decision_key_def entry_key_def split: if_splits)

lemma decide_unreferenced_key: "decide_unreferenced sc e = Inr d \<Longrightarrow> decision_key d = entry_key e"
  by (auto simp: decide_unreferenced_def dest: decide_gc_Inr split: prod.splits if_splits)

lemma decide_entry_key: "decide_entry sc e = Inr d \<Longrightarrow> decision_key d = entry_key e"
  by (auto simp: decide_entry_def Let_def dest: decide_gc_Inr decide_unreferenced_key split: option.splits if_splits)

lemma remdups_agree:
  assumes "\<not> 1 < length (remdups (map f xs))" "x \<in> set xs" "y \<in> set xs"
  shows "f x = f y"
proof -
  have "length (remdups (map f xs)) = 1"
    using assms(1,2) by (cases "length (remdups (map f xs))") auto
  then show ?thesis
    using remdups_single assms(2,3) by metis
qed

lemma latest_marker:
  assumes "xs \<noteq> []"
  shows "hd (filter (\<lambda>t. f t = Max (set (map f xs))) xs) \<in> set xs"
proof -
  have "Max (f ` set xs) \<in> f ` set xs"
    using assms by (intro Max_in) auto
  then have "filter (\<lambda>t. f t = Max (set (map f xs))) xs \<noteq> []"
    by (auto simp: filter_empty_conv)
  then show ?thesis
    using hd_in_set by fastforce
qed

text \<open>The outcomes of the search for a tombstone under which something may be deleted.\<close>

lemma tombstone_for_None:
  assumes "tombstone_for e ts = (m, None)" "t \<in> set ts"
  shows "ts_artifact_id t \<noteq> ce_artifact_id e"
  using assms
  by (auto simp: tombstone_for_def Let_def list_ex_iff filter_empty_conv tombstone_key_def entry_key_def split: if_splits)

lemma tombstone_for_reasons:
  "snd (tombstone_for e ts)
     \<in> {None, Some TOMBSTONE_IDENTITY_MISMATCH, Some TOMBSTONE_CONFLICT, Some RETENTION_TOMBSTONE, Some DELETION_TOMBSTONE}"
  by (simp add: tombstone_for_def Let_def)

lemma tombstone_for_marker:
  assumes "tombstone_for e ts = (m, Some r)" "r \<in> {RETENTION_TOMBSTONE, DELETION_TOMBSTONE}"
  shows "\<exists>u\<in>set ts. m = Some u \<and> tombstone_key u = entry_key e \<and> (ts_kind u = RETENTION \<longleftrightarrow> r = RETENTION_TOMBSTONE)
    \<and> (\<forall>t\<in>set ts. ts_artifact_id t = ce_artifact_id e \<longrightarrow> tombstone_key t = entry_key e \<and> ts_kind t = ts_kind u)"
proof -
  define same_id where "same_id = filter (\<lambda>t. ts_artifact_id t = ce_artifact_id e) ts"
  define exact where "exact = filter (\<lambda>t. tombstone_key t = entry_key e) same_id"
  define u where "u = hd (filter (\<lambda>t. ts_revision t = Max (set (map ts_revision exact))) exact)"
  note defs = same_id_def[symmetric] exact_def[symmetric] u_def[symmetric]
  have facts: "\<not> list_ex (\<lambda>t. tombstone_key t \<noteq> entry_key e) same_id" "exact \<noteq> []"
    "\<not> 1 < length (remdups (map ts_kind exact))" "m = Some u" "ts_kind u = RETENTION \<longleftrightarrow> r = RETENTION_TOMBSTONE"
    using assms unfolding tombstone_for_def Let_def defs by (auto split: if_splits)
  have u: "u \<in> set exact"
    unfolding u_def by (rule latest_marker[OF facts(2)])
  have all: "tombstone_key t = entry_key e \<and> ts_kind t = ts_kind u" if "t \<in> set ts" "ts_artifact_id t = ce_artifact_id e" for t
  proof -
    have "tombstone_key t = entry_key e"
      using that facts(1) by (auto simp: same_id_def list_ex_iff)
    moreover from this have "t \<in> set exact"
      using that by (simp add: exact_def same_id_def)
    ultimately show ?thesis
      using remdups_agree[OF facts(3) _ u] by blast
  qed
  have "u \<in> set ts" "tombstone_key u = entry_key e"
    using u by (simp_all add: exact_def same_id_def)
  then show ?thesis
    using facts(4,5) all by blast
qed

lemma decide_unreferenced_delete:
  assumes "decide_unreferenced sc e = Inr d" "gd_action d = DELETE"
  shows "(\<forall>t\<in>set (sc_tombstones sc). ts_artifact_id t = ce_artifact_id e \<longrightarrow> tombstone_key t = entry_key e \<and> ts_kind t = DELETION)
    \<and> ((\<exists>t\<in>set (sc_tombstones sc). tombstone_key t = entry_key e)
       \<or> (\<forall>u. ce_retain_until e = Some u \<longrightarrow> instant u \<le> instant (sc_now sc))
         \<and> (\<exists>local offset. ce_last_accessed_at e = Aware local offset
              \<and> local - offset + sc_idle sc * 1000000 \<le> instant (sc_now sc)))"
proof (cases "tombstone_for e (sc_tombstones sc)")
  case (Pair m r)
  show ?thesis
  proof (cases r)
    case None
    have "ce_retain_until e = Some u \<Longrightarrow> instant u \<le> instant (sc_now sc)" for u
      using assms Pair None by (auto simp: decide_unreferenced_def dest!: decide_gc_Inr split: if_splits)
    moreover have "\<exists>local offset. ce_last_accessed_at e = Aware local offset
        \<and> local - offset + sc_idle sc * 1000000 \<le> instant (sc_now sc)"
      using assms Pair None
      by (cases "ce_last_accessed_at e")
        (auto simp: decide_unreferenced_def add_seconds_def instant_def dest!: decide_gc_Inr split: if_splits)
    ultimately show ?thesis
      using tombstone_for_None[OF Pair[unfolded None]] by blast
  next
    case (Some why)
    then have why: "why = DELETION_TOMBSTONE"
      using assms Pair tombstone_for_reasons[of e "sc_tombstones sc"]
      by (auto simp: decide_unreferenced_def dest!: decide_gc_Inr)
    from tombstone_for_marker[OF Pair[unfolded Some]] obtain u
      where u: "u \<in> set (sc_tombstones sc)" "tombstone_key u = entry_key e" "ts_kind u \<noteq> RETENTION"
        "\<forall>t\<in>set (sc_tombstones sc). ts_artifact_id t = ce_artifact_id e \<longrightarrow> tombstone_key t = entry_key e \<and> ts_kind t = ts_kind u"
      unfolding why by auto
    have "ts_kind u = DELETION"
      using u(3) by (cases "ts_kind u") simp_all
    then show ?thesis
      using u by metis
  qed
qed

lemma decide_entry_delete:
  assumes run: "decide_entry sc e = Inr d" and del: "gd_action d = DELETE"
  shows "\<not> sc_reference_incomplete sc" "\<not> sc_tombstone_incomplete sc"
    "ce_artifact_id e \<notin> set (candidate_conflicts (sc_candidates sc))"
    "decide_unreferenced sc e = Inr d"
    "\<forall>r\<in>set (sc_references sc). ar_artifact_id r = ce_artifact_id e \<longrightarrow> ar_state r = RELEASED"
proof -
  let ?same = "filter (\<lambda>r. ar_artifact_id r = ce_artifact_id e) (sc_references sc)"
  let ?matching = "filter (\<lambda>r. reference_key r = entry_key e) ?same"
  have not: "decide_gc e a why None \<noteq> Inr d" if "a \<noteq> DELETE" for a why
    using that del decide_gc_Inr by blast
  have passed: "ce_artifact_id e \<notin> set (candidate_conflicts (sc_candidates sc))" "\<not> sc_reference_incomplete sc"
    "\<not> sc_tombstone_incomplete sc"
    "\<not> list_ex (\<lambda>r. reference_key r \<noteq> entry_key e \<and> ar_state r \<in> {LIVE, UNKNOWN}) ?same"
    "\<not> list_ex (\<lambda>r. ar_state r = UNKNOWN) ?matching" "\<not> list_ex (\<lambda>r. lease_expired r (sc_now sc)) ?matching"
    "find (\<lambda>r. is_live r (sc_now sc)) ?matching = None"
    using run not unfolding decide_entry_def Let_def by (auto split: if_splits option.splits)
  then show "decide_unreferenced sc e = Inr d"
    using run not unfolding decide_entry_def Let_def by (auto split: if_splits)
  have "ar_state r = RELEASED" if r: "r \<in> set (sc_references sc)" "ar_artifact_id r = ce_artifact_id e" for r
  proof (cases "reference_key r = entry_key e")
    case True
    then have "ar_state r \<noteq> UNKNOWN" "\<not> lease_expired r (sc_now sc)" "\<not> is_live r (sc_now sc)"
      using passed(5-7) r by (auto simp: list_ex_iff find_None_iff)
    then show ?thesis
      by (cases "ar_state r") (auto simp: is_live_def lease_expired_def split: option.splits)
  next
    case False
    then show ?thesis
      using passed(4) r by (cases "ar_state r") (auto simp: list_ex_iff)
  qed
  then show "\<forall>r\<in>set (sc_references sc). ar_artifact_id r = ce_artifact_id e \<longrightarrow> ar_state r = RELEASED"
    by blast
  show "\<not> sc_reference_incomplete sc" "\<not> sc_tombstone_incomplete sc"
    "ce_artifact_id e \<notin> set (candidate_conflicts (sc_candidates sc))"
    using passed by simp_all
qed

lemma gc_decide_all_Cons:
  assumes "gc_decide_all sc seen (e # es) = Inr ds" "entry_key e \<notin> set seen"
  obtains d ds' where "ds = d # ds'" "decide_entry sc e = Inr d" "decision_key d = entry_key e"
    "gc_decide_all sc (entry_key e # seen) es = Inr ds'"
  using assms decide_entry_key by auto

lemma gc_decide_all_sound:
  "gc_decide_all sc seen es = Inr ds \<Longrightarrow> d \<in> set ds \<Longrightarrow> \<exists>e\<in>set es. decide_entry sc e = Inr d"
proof (induction es arbitrary: seen ds)
  case (Cons e es)
  then show ?case
    by (auto split: if_splits) blast+
qed simp

lemma gc_decide_all_keys:
  "gc_decide_all sc seen es = Inr ds \<Longrightarrow>
     set (map decision_key ds) = set (map entry_key es) - set seen \<and> distinct (map decision_key ds)"
proof (induction es arbitrary: seen ds)
  case (Cons e es)
  show ?case
  proof (cases "entry_key e \<in> set seen")
    case False
    from gc_decide_all_Cons[OF Cons.prems False] obtain d ds' where ds: "ds = d # ds'" "decision_key d = entry_key e"
      "gc_decide_all sc (entry_key e # seen) es = Inr ds'"
      by metis
    then show ?thesis
      using Cons.IH[OF ds(3)] False by auto
  qed (use Cons in auto)
qed simp

lemma gc_decide_all_sorted:
  "gc_decide_all sc seen es = Inr ds \<Longrightarrow> sorted (map entry_key es) \<Longrightarrow> sorted (map decision_key ds)"
proof (induction es arbitrary: seen ds)
  case (Cons e es)
  show ?case
  proof (cases "entry_key e \<in> set seen")
    case False
    from gc_decide_all_Cons[OF Cons.prems(1) False] obtain d ds' where ds: "ds = d # ds'" "decision_key d = entry_key e"
      "gc_decide_all sc (entry_key e # seen) es = Inr ds'"
      by metis
    have "entry_key e \<le> k" if "k \<in> set (map decision_key ds')" for k
      using that gc_decide_all_keys[OF ds(3)] Cons.prems(2) by auto
    then show ?thesis
      using Cons.IH[OF ds(3)] Cons.prems(2) ds(1,2) by auto
  qed (use Cons in simp)
qed simp

lemma mk_gc_plan_decisions: "mk_gc_plan ds c r t w n a b k = Inr p \<Longrightarrow> pl_decisions p = ds"
  by (auto simp: mk_gc_plan_def)

lemma plan_decisions:
  assumes "plan_artifact_gc (Some cands) references tombstones now clock policy = Inr p"
  defines "pol \<equiv> case policy of None \<Rightarrow> default_gc_policy | Some q \<Rightarrow> q"
    and "refs \<equiv> case references of None \<Rightarrow> empty_page | Some r \<Rightarrow> r"
    and "tombs \<equiv> case tombstones of None \<Rightarrow> empty_page | Some t \<Rightarrow> t"
    and "current \<equiv> case now of None \<Rightarrow> clock | Some t \<Rightarrow> t"
  shows "gc_decide_all (scan_of pol current cands refs tombs) [] (sc_candidates (scan_of pol current cands refs tombs))
    = Inr (pl_decisions p)"
  using assms(1) unfolding plan_artifact_gc_def pol_def refs_def tombs_def current_def
  by (auto simp: Let_def check_aware_def dest!: mk_gc_plan_decisions split: option.splits gc_time.splits)

text \<open>
  (C25) Only what nobody holds is deleted. A plan deletes an entry only if the snapshots of owners and of
  tombstones are complete and within their limits; every owner that mentions the artifact, in whatever version,
  has released it; every tombstone of the artifact is for exactly this version and a deletion; and there is
  such a tombstone, or the retention time and the idle time of the entry have passed.
\<close>

theorem gc_deletes_only_released:
  assumes plan: "plan_artifact_gc (Some cands) (Some refs) (Some tombs) (Some now) clock (Some pol) = Inr p"
    and del: "d \<in> set (pl_decisions p)" "gd_action d = DELETE"
    and limits: "1 \<le> gl_max_references pol" "1 \<le> gl_max_tombstones pol"
  shows "gp_complete refs \<and> int (length (gp_items refs)) \<le> gl_max_references pol
    \<and> gp_complete tombs \<and> int (length (gp_items tombs)) \<le> gl_max_tombstones pol
    \<and> (\<forall>r\<in>set (gp_items refs). ar_artifact_id r = gd_artifact_id d \<longrightarrow> ar_state r = RELEASED)
    \<and> (\<forall>t\<in>set (gp_items tombs). ts_artifact_id t = gd_artifact_id d \<longrightarrow>
         tombstone_key t = decision_key d \<and> ts_kind t = DELETION)
    \<and> (\<exists>e\<in>set (gp_items cands). entry_key e = decision_key d
         \<and> ((\<exists>t\<in>set (gp_items tombs). tombstone_key t = decision_key d)
            \<or> (\<forall>u. ce_retain_until e = Some u \<longrightarrow> instant u \<le> instant now)
              \<and> (\<exists>local offset. ce_last_accessed_at e = Aware local offset
                   \<and> local - offset + gl_minimum_idle_seconds pol * 1000000 \<le> instant now)))"
proof -
  let ?sc = "scan_of pol now cands refs tombs"
  have run: "gc_decide_all ?sc [] (sc_candidates ?sc) = Inr (pl_decisions p)"
    using plan_decisions[OF plan] by simp
  obtain e where e: "e \<in> set (sc_candidates ?sc)" "decide_entry ?sc e = Inr d"
    using gc_decide_all_sound[OF run del(1)] by blast
  note facts = decide_entry_delete[OF e(2) del(2)]
  have whole: "gp_complete refs" "int (length (gp_items refs)) \<le> gl_max_references pol"
    "gp_complete tombs" "int (length (gp_items tombs)) \<le> gl_max_tombstones pol"
    using facts(1,2) by (auto simp: scan_of_def)
  then have all: "sc_references ?sc = gp_items refs" "sc_tombstones ?sc = gp_items tombs"
    using limits by (simp_all add: scan_of_def)
  have key: "entry_key e = decision_key d" "ce_artifact_id e = gd_artifact_id d"
    using decide_entry_key[OF e(2)] by (auto simp: entry_key_def decision_key_def)
  have "e \<in> set (gp_items cands)"
    using e(1) by (auto simp: scan_of_def dest: in_set_takeD)
  moreover have now: "sc_now ?sc = now" "sc_idle ?sc = gl_minimum_idle_seconds pol"
    by (simp_all add: scan_of_def)
  ultimately show ?thesis
    using whole facts(5)[unfolded all key(2)] key(1)
      decide_unreferenced_delete[OF facts(4) del(2), unfolded all key now] by blast
qed

section \<open>The plan is total\<close>

definition entry_ok :: "int \<Rightarrow> cache_entry \<Rightarrow> bool" where
  "entry_ok idle e =
     (identity_match (ce_artifact_id e) \<and> digest_match (ce_digest e) \<and> version_match (ce_version e)
      \<and> 1 \<le> ce_revision e \<and> ce_revision e \<le> max_int63
      \<and> (case ce_last_accessed_at e of Aware local offset \<Rightarrow> local + idle * 1000000 \<le> datetime_max | NotAware \<Rightarrow> False))"

definition page_ok :: "'i gc_page \<Rightarrow> bool" where
  "page_ok p = (1 \<le> gp_revision p \<and> gp_revision p \<le> max_int63
     \<and> (case gp_next_cursor p of None \<Rightarrow> True | Some c \<Rightarrow> identity_match c))"

lemma decide_gc_total:
  assumes "entry_ok idle e" "action_allows action why marker = Inr ()"
    "\<And>t. marker = Some t \<Longrightarrow> tombstone_key t = entry_key e"
  shows "is_ok (decide_gc e action why marker)"
  using assms
  by (auto simp: decide_gc_def mk_gc_decision_def check_identity_def check_digest_def check_version_def check_enum_def
      entry_ok_def entry_key_def split: option.splits)

lemma generated_tombstone:
  assumes "entry_ok idle e" "now = Aware l off"
  shows "\<exists>t. mk_tombstone (PyStr (ce_artifact_id e)) (PyStr (ce_digest e)) (PyStr (ce_version e)) (Some DELETION)
      (PyInt (ce_revision e)) now (PyStr ''garbage collection eligibility decision'') = Inr t
    \<and> tombstone_key t = entry_key e \<and> ts_kind t = DELETION"
proof -
  have "check_reason (PyStr ''garbage collection eligibility decision'') = Inr ''garbage collection eligibility decision''"
    by code_simp
  then show ?thesis
    using assms
    by (auto simp: mk_tombstone_def check_identity_def check_digest_def check_version_def check_enum_def check_revision_def
        bounded_int_def check_aware_def entry_ok_def entry_key_def tombstone_key_def)
qed

lemma decide_unreferenced_total:
  assumes e: "entry_ok (sc_idle sc) e" and now: "sc_now sc = Aware l off"
  shows "is_ok (decide_unreferenced sc e)"
proof (cases "tombstone_for e (sc_tombstones sc)")
  case (Pair m why)
  show ?thesis
  proof (cases "why \<in> {Some RETENTION_TOMBSTONE, Some DELETION_TOMBSTONE}")
    case True
    then obtain r where r: "why = Some r" "r \<in> {RETENTION_TOMBSTONE, DELETION_TOMBSTONE}"
      by auto
    obtain u where u: "m = Some u" "tombstone_key u = entry_key e" "ts_kind u = RETENTION \<longleftrightarrow> r = RETENTION_TOMBSTONE"
      using tombstone_for_marker[OF Pair[unfolded r(1)] r(2)] by auto
    have kind: "ts_kind u = (if r = RETENTION_TOMBSTONE then RETENTION else DELETION)"
      using u(3) by (cases "ts_kind u") auto
    have "is_ok (decide_gc e (if r = RETENTION_TOMBSTONE then RETAIN else DELETE) r m)"
      using r(2) u kind by (intro decide_gc_total[OF e]) (auto simp: action_allows_def)
    then show ?thesis
      using r Pair by (auto simp: decide_unreferenced_def)
  next
    case False
    obtain t where t: "mk_tombstone (PyStr (ce_artifact_id e)) (PyStr (ce_digest e)) (PyStr (ce_version e)) (Some DELETION)
        (PyInt (ce_revision e)) (sc_now sc) (PyStr ''garbage collection eligibility decision'') = Inr t"
      "tombstone_key t = entry_key e" "ts_kind t = DELETION"
      using generated_tombstone[OF e now] by blast
    have "is_ok (decide_gc e DELETE ELIGIBLE (Some t))" "is_ok (decide_gc e RETAIN RETENTION_WINDOW None)"
      "is_ok (decide_gc e DEFER y None)" for y
      using t(2,3) by (auto intro!: decide_gc_total[OF e] simp: action_allows_def)
    moreover obtain idle_deadline where "add_seconds (ce_last_accessed_at e) (sc_idle sc) = Inr idle_deadline"
      using e by (auto simp: entry_ok_def add_seconds_def split: gc_time.splits)
    ultimately show ?thesis
      using Pair False t(1) by (auto simp: decide_unreferenced_def)
  qed
qed

lemma decide_entry_total:
  assumes "entry_ok (sc_idle sc) e" "sc_now sc = Aware l off"
  shows "is_ok (decide_entry sc e)"
proof -
  have "is_ok (decide_gc e DEFER y None)" "is_ok (decide_gc e RETAIN LIVE_JOB_REFERENCE None)"
    "is_ok (decide_gc e RETAIN LIVE_DEPLOYMENT_REFERENCE None)" for y
    by (auto intro!: decide_gc_total[OF assms(1)] simp: action_allows_def)
  then show ?thesis
    using decide_unreferenced_total[OF assms] by (simp add: decide_entry_def Let_def split: option.splits)
qed

lemma gc_decide_all_total:
  assumes "\<forall>e\<in>set es. entry_ok (sc_idle sc) e" "sc_now sc = Aware l off"
  shows "is_ok (gc_decide_all sc seen es)"
  using assms(1)
proof (induction es arbitrary: seen)
  case (Cons e es)
  then obtain d ds where "decide_entry sc e = Inr d" "gc_decide_all sc (entry_key e # seen) es = Inr ds"
    using decide_entry_total[OF _ assms(2)] by (fastforce simp: is_ok_iff)
  then show ?case
    using Cons by simp
qed simp

text \<open>
  Every validated snapshot has a plan. Unless an idle deadline lies beyond the last representable date,
  planning never fails, and the plan holds exactly one decision per distinct entry within the candidate limit,
  in strictly ascending order of artifact, digest and version.
\<close>

theorem gc_plan_covers:
  assumes pages: "page_ok cands" "page_ok refs" "page_ok tombs"
    and entries: "\<forall>e\<in>set (take (nat (gl_max_candidates pol)) (gp_items cands)). entry_ok (gl_minimum_idle_seconds pol) e"
  shows "\<exists>p. plan_artifact_gc (Some cands) (Some refs) (Some tombs) (Some (Aware l off)) clock (Some pol) = Inr p
    \<and> sorted_wrt (<) (map decision_key (pl_decisions p))
    \<and> set (map decision_key (pl_decisions p)) = entry_key ` set (take (nat (gl_max_candidates pol)) (gp_items cands))"
proof -
  let ?sc = "scan_of pol (Aware l off) cands refs tombs"
  have sc: "set (sc_candidates ?sc) = set (take (nat (gl_max_candidates pol)) (gp_items cands))"
    "sc_now ?sc = Aware l off" "sc_idle ?sc = gl_minimum_idle_seconds pol" "sorted (map entry_key (sc_candidates ?sc))"
    by (simp_all add: scan_of_def)
  obtain ds where ds: "gc_decide_all ?sc [] (sc_candidates ?sc) = Inr ds"
    using gc_decide_all_total[of "sc_candidates ?sc" ?sc l off "[]"] entries sc by (auto simp: is_ok_iff)
  have last: "identity_match (ce_artifact_id (last (sc_candidates ?sc)))" if "sc_candidates ?sc \<noteq> []"
    using entries sc(1) last_in_set[OF that] by (auto simp: entry_ok_def)
  have "\<exists>p. plan_artifact_gc (Some cands) (Some refs) (Some tombs) (Some (Aware l off)) clock (Some pol) = Inr p"
    using ds pages last
    by (auto simp: plan_artifact_gc_def Let_def check_aware_def mk_gc_plan_def check_revision_def bounded_int_def
        page_ok_def check_identity_def split: option.splits)
  then obtain p where p: "plan_artifact_gc (Some cands) (Some refs) (Some tombs) (Some (Aware l off)) clock (Some pol) = Inr p"
    by blast
  have "pl_decisions p = ds"
    using plan_decisions[OF p] ds by simp
  then show ?thesis
    using p gc_decide_all_keys[OF ds] gc_decide_all_sorted[OF ds sc(4)] sc(1) by (auto simp: strict_sorted_iff)
qed

section \<open>The order of the snapshots does not matter\<close>

text \<open>What a decision does: the entry and the action, without the wording of its reason.\<close>

definition gc_verdict :: "gc_decision res \<Rightarrow> (artifact_key \<times> gc_action) res" where
  "gc_verdict r = rbind r (\<lambda>d. Inr (decision_key d, gd_action d))"

lemma remdups_many: "1 < length (remdups (map f xs)) \<longleftrightarrow> 1 < card (f ` set xs)"
  by (simp add: length_remdups_card_conv)

lemma reference_conflicts_set:
  "set (reference_conflicts refs) =
     {k \<in> owner_key ` set refs. 1 < card (reference_claim ` {r \<in> set refs. owner_key r = k})}"
  unfolding reference_conflicts_def remdups_many by auto

definition marker_reason :: "cache_entry \<Rightarrow> tombstone set \<Rightarrow> gc_reason option" where
  "marker_reason e T =
     (let S = {t \<in> T. ts_artifact_id t = ce_artifact_id e}; E = {t \<in> S. tombstone_key t = entry_key e} in
      if \<exists>t\<in>S. tombstone_key t \<noteq> entry_key e then Some TOMBSTONE_IDENTITY_MISMATCH
      else if E = {} then None
      else if 1 < card (ts_kind ` E) then Some TOMBSTONE_CONFLICT
      else if 1 < card (ts_reason ` {t \<in> E. ts_revision t = Max (ts_revision ` E)}) then Some TOMBSTONE_CONFLICT
      else if RETENTION \<in> ts_kind ` E then Some RETENTION_TOMBSTONE else Some DELETION_TOMBSTONE)"

lemma tombstone_for_reason: "snd (tombstone_for e ts) = marker_reason e (set ts)"
proof -
  define same_id where "same_id = filter (\<lambda>t. ts_artifact_id t = ce_artifact_id e) ts"
  define exact where "exact = filter (\<lambda>t. tombstone_key t = entry_key e) same_id"
  define latest where "latest = filter (\<lambda>t. ts_revision t = Max (set (map ts_revision exact))) exact"
  note defs = same_id_def[symmetric] exact_def[symmetric] latest_def[symmetric]
  have S: "{t \<in> set ts. ts_artifact_id t = ce_artifact_id e} = set same_id"
    and E: "{t \<in> set same_id. tombstone_key t = entry_key e} = set exact"
    and L: "{t \<in> set exact. ts_revision t = Max (ts_revision ` set exact)} = set latest"
    by (auto simp: same_id_def exact_def latest_def)
  have kind: "RETENTION \<in> ts_kind ` set exact \<longleftrightarrow> ts_kind (hd latest) = RETENTION"
    if "exact \<noteq> []" "\<not> 1 < card (ts_kind ` set exact)"
  proof -
    have u: "hd latest \<in> set exact"
      unfolding latest_def by (rule latest_marker[OF that(1)])
    have "ts_kind t = ts_kind (hd latest)" if "t \<in> set exact" for t
      using remdups_agree[of ts_kind exact t "hd latest"] \<open>\<not> 1 < card (ts_kind ` set exact)\<close> that u
      by (simp add: length_remdups_card_conv)
    then show ?thesis
      using u by (metis image_iff)
  qed
  have list: "snd (tombstone_for e ts) =
      (if \<exists>t\<in>set same_id. tombstone_key t \<noteq> entry_key e then Some TOMBSTONE_IDENTITY_MISMATCH
       else if exact = [] then None
       else if 1 < card (ts_kind ` set exact) then Some TOMBSTONE_CONFLICT
       else if 1 < card (ts_reason ` set latest) then Some TOMBSTONE_CONFLICT
       else if ts_kind (hd latest) = RETENTION then Some RETENTION_TOMBSTONE else Some DELETION_TOMBSTONE)"
    unfolding tombstone_for_def Let_def defs remdups_many list_ex_iff by (simp only: if_distrib[of snd] snd_conv)
  have sets: "marker_reason e (set ts) =
      (if \<exists>t\<in>set same_id. tombstone_key t \<noteq> entry_key e then Some TOMBSTONE_IDENTITY_MISMATCH
       else if exact = [] then None
       else if 1 < card (ts_kind ` set exact) then Some TOMBSTONE_CONFLICT
       else if 1 < card (ts_reason ` set latest) then Some TOMBSTONE_CONFLICT
       else if RETENTION \<in> ts_kind ` set exact then Some RETENTION_TOMBSTONE else Some DELETION_TOMBSTONE)"
    unfolding marker_reason_def Let_def S E L set_empty by (rule refl)
  show ?thesis
  proof (cases "exact = [] \<or> 1 < card (ts_kind ` set exact)")
    case True
    then show ?thesis
      unfolding list sets by (elim disjE) simp_all
  next
    case False
    then have k: "RETENTION \<in> ts_kind ` set exact \<longleftrightarrow> ts_kind (hd latest) = RETENTION"
      using kind by blast
    show ?thesis
      unfolding list sets k by (rule refl)
  qed
qed

lemma tombstone_for_marker_kind:
  "map_option tombstone_key (fst (tombstone_for e ts)) =
     (if snd (tombstone_for e ts) \<in> {Some RETENTION_TOMBSTONE, Some DELETION_TOMBSTONE} then Some (entry_key e) else None)"
  "map_option ts_kind (fst (tombstone_for e ts)) =
     (if snd (tombstone_for e ts) = Some RETENTION_TOMBSTONE then Some RETENTION
      else if snd (tombstone_for e ts) = Some DELETION_TOMBSTONE then Some DELETION else None)"
proof -
  obtain m r where mr: "tombstone_for e ts = (m, r)"
    by (cases "tombstone_for e ts")
  have none: "m = None" if "r \<noteq> Some RETENTION_TOMBSTONE" "r \<noteq> Some DELETION_TOMBSTONE"
    using mr that by (auto simp: tombstone_for_def Let_def split: if_splits)
  have some: "\<exists>u. m = Some u \<and> tombstone_key u = entry_key e \<and> ts_kind u = (if y = RETENTION_TOMBSTONE then RETENTION else DELETION)"
    if "r = Some y" "y \<in> {RETENTION_TOMBSTONE, DELETION_TOMBSTONE}" for y
    using tombstone_for_marker[OF mr[unfolded that(1)] that(2)] by (metis tombstone_kind.exhaust)
  show "map_option tombstone_key (fst (tombstone_for e ts)) =
     (if snd (tombstone_for e ts) \<in> {Some RETENTION_TOMBSTONE, Some DELETION_TOMBSTONE} then Some (entry_key e) else None)"
    "map_option ts_kind (fst (tombstone_for e ts)) =
     (if snd (tombstone_for e ts) = Some RETENTION_TOMBSTONE then Some RETENTION
      else if snd (tombstone_for e ts) = Some DELETION_TOMBSTONE then Some DELETION else None)"
    using none some unfolding mr by auto
qed

lemma check_enum_Some [simp]: "check_enum (Some x) f ty = Inr x"
  by (simp add: check_enum_def)

lemma decide_gc_verdict:
  assumes "map_option tombstone_key m = map_option tombstone_key m'" "map_option ts_kind m = map_option ts_kind m'"
  shows "gc_verdict (decide_gc e action why m) = gc_verdict (decide_gc e action why m')"
proof -
  have "action_allows action why m = action_allows action why m'"
    using assms(2) by (cases m; cases m') (simp_all add: action_allows_def)
  then show ?thesis
    using assms
    by (cases m; cases m') (auto simp: gc_verdict_def decide_gc_def mk_gc_decision_def rbind_def decision_key_def split: sum.splits)
qed

text \<open>Two scans that see the same owners and tombstones.\<close>

definition same_view :: "gc_scan \<Rightarrow> gc_scan \<Rightarrow> bool" where
  "same_view sc sc' =
     (sc_candidates sc = sc_candidates sc' \<and> sc_now sc = sc_now sc' \<and> sc_idle sc = sc_idle sc'
      \<and> sc_reference_incomplete sc = sc_reference_incomplete sc'
      \<and> sc_tombstone_incomplete sc = sc_tombstone_incomplete sc'
      \<and> (\<not> sc_reference_incomplete sc \<longrightarrow> set (sc_references sc) = set (sc_references sc'))
      \<and> (\<not> sc_tombstone_incomplete sc \<longrightarrow> set (sc_tombstones sc) = set (sc_tombstones sc')))"

lemma decide_unreferenced_verdict:
  assumes "same_view sc sc'" "\<not> sc_tombstone_incomplete sc"
  shows "gc_verdict (decide_unreferenced sc e) = gc_verdict (decide_unreferenced sc' e)"
proof -
  obtain m r m' r' where mr: "tombstone_for e (sc_tombstones sc) = (m, r)" "tombstone_for e (sc_tombstones sc') = (m', r')"
    by (cases "tombstone_for e (sc_tombstones sc)"; cases "tombstone_for e (sc_tombstones sc')")
  have r: "r' = r"
    using tombstone_for_reason[of e "sc_tombstones sc"] tombstone_for_reason[of e "sc_tombstones sc'"] assms mr
    by (simp add: same_view_def)
  have "map_option tombstone_key m = map_option tombstone_key m'" "map_option ts_kind m = map_option ts_kind m'"
    using tombstone_for_marker_kind[of e "sc_tombstones sc"] tombstone_for_marker_kind[of e "sc_tombstones sc'"] mr r
    by simp_all
  note same = decide_gc_verdict[OF this]
  have "sc_now sc' = sc_now sc" "sc_idle sc' = sc_idle sc"
    using assms(1) by (simp_all add: same_view_def)
  then show ?thesis
    unfolding decide_unreferenced_def mr r prod.case by (simp only: same split: if_split) simp
qed

lemma decide_gc_live: "gc_verdict (decide_gc e RETAIN LIVE_JOB_REFERENCE None) = gc_verdict (decide_gc e RETAIN LIVE_DEPLOYMENT_REFERENCE None)"
  by (auto simp: gc_verdict_def decide_gc_def mk_gc_decision_def action_allows_def rbind_def decision_key_def split: sum.splits)

lemma decide_entry_verdict:
  assumes view: "same_view sc sc'"
  shows "gc_verdict (decide_entry sc e) = gc_verdict (decide_entry sc' e)"
proof (cases "sc_reference_incomplete sc \<or> sc_tombstone_incomplete sc")
  case True
  then show ?thesis
    using view unfolding decide_entry_def Let_def same_view_def by (elim disjE) simp_all
next
  case False
  then have refs: "set (sc_references sc) = set (sc_references sc')"
    and rest: "sc_candidates sc' = sc_candidates sc" "sc_now sc' = sc_now sc"
      "sc_reference_incomplete sc' = sc_reference_incomplete sc" "sc_tombstone_incomplete sc' = sc_tombstone_incomplete sc"
    using view by (simp_all add: same_view_def)
  let ?same = "\<lambda>sc. filter (\<lambda>r. ar_artifact_id r = ce_artifact_id e) (sc_references sc)"
  let ?matching = "\<lambda>sc. filter (\<lambda>r. reference_key r = entry_key e) (?same sc)"
  have ex: "list_ex P (?same sc') = list_ex P (?same sc)" "list_ex P (?matching sc') = list_ex P (?matching sc)" for P
    using refs by (auto simp: list_ex_iff)
  have conflicts: "set (reference_conflicts (sc_references sc')) = set (reference_conflicts (sc_references sc))"
    using refs by (simp add: reference_conflicts_set)
  have live: "gc_verdict (case find (\<lambda>r. is_live r (sc_now sc)) (?matching sc) of
        Some r \<Rightarrow> decide_gc e RETAIN (if ar_owner_kind r = JOB then LIVE_JOB_REFERENCE else LIVE_DEPLOYMENT_REFERENCE) None
      | None \<Rightarrow> decide_unreferenced sc e) =
    gc_verdict (case find (\<lambda>r. is_live r (sc_now sc)) (?matching sc') of
        Some r \<Rightarrow> decide_gc e RETAIN (if ar_owner_kind r = JOB then LIVE_JOB_REFERENCE else LIVE_DEPLOYMENT_REFERENCE) None
      | None \<Rightarrow> decide_unreferenced sc' e)"
  proof -
    have none: "find (\<lambda>r. is_live r (sc_now sc)) (?matching sc) = None
      \<longleftrightarrow> find (\<lambda>r. is_live r (sc_now sc)) (?matching sc') = None"
      using refs by (auto simp: find_None_iff)
    show ?thesis
      using none decide_unreferenced_verdict[OF view, of e] False
      by (cases "find (\<lambda>r. is_live r (sc_now sc)) (?matching sc)"; cases "find (\<lambda>r. is_live r (sc_now sc)) (?matching sc')")
        (simp_all add: decide_gc_live)
  qed
  show ?thesis
    unfolding decide_entry_def Let_def ex conflicts rest by (simp only: live if_distrib[of gc_verdict])
qed

definition verdicts :: "gc_decision list res \<Rightarrow> (artifact_key \<times> gc_action) list res" where
  "verdicts r = rbind r (\<lambda>ds. Inr (map (\<lambda>d. (decision_key d, gd_action d)) ds))"

lemma gc_decide_all_verdicts:
  assumes "same_view sc sc'"
  shows "verdicts (gc_decide_all sc seen es) = verdicts (gc_decide_all sc' seen es)"
proof (induction es arbitrary: seen)
  case (Cons e es)
  show ?case
  proof (cases "entry_key e \<in> set seen")
    case False
    note now = decide_entry_verdict[OF assms, of e] and later = Cons.IH[of "entry_key e # seen"]
    show ?thesis
      using now later False
      by (cases "decide_entry sc e"; cases "decide_entry sc' e"; cases "gc_decide_all sc (entry_key e # seen) es";
          cases "gc_decide_all sc' (entry_key e # seen) es") (auto simp: gc_verdict_def verdicts_def)
  qed (use Cons in simp)
qed simp

text \<open>
  The order of the snapshots does not matter. Two snapshots with the same owners and the same tombstones
  in any order, and otherwise equal, give plans that take the same action on the same entries.
\<close>

theorem gc_order_irrelevant:
  assumes refs: "mset (gp_items refs) = mset (gp_items refs')" "gp_complete refs = gp_complete refs'"
    and tombs: "mset (gp_items tombs) = mset (gp_items tombs')" "gp_complete tombs = gp_complete tombs'"
    and plans: "plan_artifact_gc (Some cands) (Some refs) (Some tombs) (Some now) clock (Some pol) = Inr p"
      "plan_artifact_gc (Some cands) (Some refs') (Some tombs') (Some now) clock (Some pol) = Inr p'"
  shows "map (\<lambda>d. (decision_key d, gd_action d)) (pl_decisions p) = map (\<lambda>d. (decision_key d, gd_action d)) (pl_decisions p')"
proof -
  let ?sc = "scan_of pol now cands refs tombs" and ?sc' = "scan_of pol now cands refs' tombs'"
  have len: "length (gp_items refs) = length (gp_items refs')" "length (gp_items tombs) = length (gp_items tombs')"
    and sets: "set (gp_items refs) = set (gp_items refs')" "set (gp_items tombs) = set (gp_items tombs')"
    using refs(1) tombs(1) by (metis mset_eq_length, metis mset_eq_length, metis mset_eq_setD, metis mset_eq_setD)
  have "same_view ?sc ?sc'"
    using len sets refs(2) tombs(2) by (auto simp: same_view_def scan_of_def)
  from gc_decide_all_verdicts[OF this, of "[]" "sc_candidates ?sc"] show ?thesis
    using plan_decisions[OF plans(1)] plan_decisions[OF plans(2)] by (simp add: verdicts_def scan_of_def)
qed

section \<open>A small cache\<close>

definition demo_entry :: "string \<Rightarrow> cache_entry" where
  "demo_entry i = \<lparr>ce_artifact_id = i, ce_digest = List.replicate 64 CHR ''a'', ce_version = ''v1'', ce_size_bytes = 10,
     ce_last_accessed_at = Aware 1000000 0, ce_retain_until = None, ce_revision = 1\<rparr>"

definition demo_reference :: "string \<Rightarrow> reference_state \<Rightarrow> artifact_reference" where
  "demo_reference i st = \<lparr>ar_owner_id = ''job-1'', ar_owner_kind = JOB, ar_state = st, ar_artifact_id = i,
     ar_digest = List.replicate 64 CHR ''a'', ar_version = ''v1'', ar_revision = 1, ar_lease_expires_at = None\<rparr>"

definition demo_page :: "'i list \<Rightarrow> 'i gc_page" where
  "demo_page xs = \<lparr>gp_items = xs, gp_complete = True, gp_next_cursor = None, gp_revision = 1\<rparr>"

definition demo_plan :: "artifact_reference list \<Rightarrow> gc_plan res" where
  "demo_plan refs = plan_artifact_gc (Some (demo_page [demo_entry ''b'', demo_entry ''a''])) (Some (demo_page refs))
     (Some (demo_page [])) (Some (Aware (2 * 3600 * 1000000) 0)) (Aware 0 0) (Some default_gc_policy)"

definition demo_refs :: "artifact_reference list" where
  "demo_refs = [demo_reference ''a'' RELEASED, demo_reference ''b'' LIVE]"

definition plan_actions :: "gc_plan res \<Rightarrow> (string \<times> gc_action) list" where
  "plan_actions r = (case r of Inl _ \<Rightarrow> [] | Inr p \<Rightarrow> map (\<lambda>d. (gd_artifact_id d, gd_action d)) (pl_decisions p))"

lemma demo_plan_actions: "plan_actions (demo_plan demo_refs) = [(''a'', DELETE), (''b'', RETAIN)]"
  by code_simp

lemma demo_plan_ok: "\<exists>p. demo_plan demo_refs = Inr p" "\<exists>p. demo_plan (rev demo_refs) = Inr p"
  by (auto simp: is_ok_iff[symmetric]) code_simp+

theorem gc_deletes_only_released_witness:
  "\<exists>p d. demo_plan demo_refs = Inr p \<and> d \<in> set (pl_decisions p) \<and> gd_action d = DELETE
     \<and> list_all (\<lambda>r. ar_artifact_id r = gd_artifact_id d \<longrightarrow> ar_state r = RELEASED) demo_refs"
proof -
  obtain p where p: "demo_plan demo_refs = Inr p"
    using demo_plan_ok(1) by blast
  then obtain d where d: "d \<in> set (pl_decisions p)" "gd_action d = DELETE"
    using demo_plan_actions by (cases "pl_decisions p") (auto simp: plan_actions_def)
  from gc_deletes_only_released[OF p[unfolded demo_plan_def] d] show ?thesis
    using p d by (auto simp: demo_page_def default_gc_policy_def list_all_iff)
qed

theorem gc_plan_covers_witness:
  "\<exists>p. demo_plan demo_refs = Inr p \<and> sorted_wrt (<) (map decision_key (pl_decisions p))
     \<and> set (map decision_key (pl_decisions p)) = entry_key ` set [demo_entry ''b'', demo_entry ''a'']"
proof -
  have ok: "page_ok (demo_page xs)" for xs :: "'i list"
    by (simp add: page_ok_def demo_page_def)
  have entries: "list_all (entry_ok 3600) [demo_entry ''b'', demo_entry ''a'']"
    by code_simp
  have fields: "gp_items (demo_page xs) = xs" "nat (gl_max_candidates default_gc_policy) = 256"
    "gl_minimum_idle_seconds default_gc_policy = 3600" for xs :: "cache_entry list"
    by (simp_all add: demo_page_def default_gc_policy_def)
  show ?thesis
    using gc_plan_covers[of "demo_page [demo_entry ''b'', demo_entry ''a'']" "demo_page demo_refs" "demo_page []" default_gc_policy,
        OF ok ok ok] entries
    unfolding demo_plan_def fields by simp
qed

theorem gc_order_irrelevant_witness:
  "\<exists>p p'. demo_plan demo_refs = Inr p \<and> demo_plan (rev demo_refs) = Inr p'
     \<and> map (\<lambda>d. (decision_key d, gd_action d)) (pl_decisions p) = map (\<lambda>d. (decision_key d, gd_action d)) (pl_decisions p')"
proof -
  obtain p p' where p: "demo_plan demo_refs = Inr p" "demo_plan (rev demo_refs) = Inr p'"
    using demo_plan_ok by blast
  then show ?thesis
    using gc_order_irrelevant[OF _ _ _ _ p[unfolded demo_plan_def]] by (simp add: demo_page_def)
qed

text \<open>
  A page with more entries than the limit and a cursor of its own: the plan hands on that cursor, and the
  entry that did not fit is neither decided nor after the cursor.
\<close>

lemma overflowing_page_skips_entry:
  "(case plan_artifact_gc (Some \<lparr>gp_items = [demo_entry ''a'', demo_entry ''b''], gp_complete = False, gp_next_cursor = Some ''c'', gp_revision = 1\<rparr>)
      None None (Some (Aware 0 0)) (Aware 0 0) (Some (default_gc_policy\<lparr>gl_max_candidates := 1\<rparr>)) of
     Inl _ \<Rightarrow> None | Inr p \<Rightarrow> Some (map gd_artifact_id (pl_decisions p), pl_next_cursor p)) = Some ([''a''], Some ''c'')"
  by code_simp

end
