(* ===== verification/ResourceLeases.thy ===== *)
theory ResourceLeases
  imports Prelude
begin

text \<open>
  \<^verbatim>\<open>sonder_runtime/domain/resource_leases.py\<close> and \<^verbatim>\<open>adapters/resource_leases.py\<close>: leases on ports, servers, tabs,
  databases and the desktop that worker processes share through one SQLite file. The table is a dictionary
  from kind and key to the stored lease, and an operation is one transaction: what it raises inside leaves the
  table as it was. The world an operation looks at (the clock, which processes are dead, which ports can be
  bound, which paths exist, the registered evidence checks, whether the store answers) is an argument of each
  operation and may differ from one to the next; during one operation it is stable, except that the clock may
  give another reading for every lease examined. A lease is stored as JSON, which keeps all its fields but a
  blank identity and a zero heartbeat.
\<close>

section \<open>Validation\<close>

definition kind_core :: "string \<Rightarrow> bool" where
  "kind_core s =
     (case s of [] \<Rightarrow> False
      | c # cs \<Rightarrow> CHR ''a'' \<le> c \<and> c \<le> CHR ''z'' \<and> length cs \<le> 39
          \<and> list_all (\<lambda>d. CHR ''a'' \<le> d \<and> d \<le> CHR ''z'' \<or> ascii_digit d \<or> d = CHR ''_'') cs)"

definition kind_match :: "string \<Rightarrow> bool" where
  \<comment> \<open>\<^verbatim>\<open>re.match("^[a-z][a-z0-9_]{0,39}$")\<close>: the dollar also matches before a final newline\<close>
  "kind_match s = (kind_core s \<or> s \<noteq> [] \<and> last s = CHR 0x0A \<and> kind_core (butlast s))"

definition validate_kind :: "pyval \<Rightarrow> string res" where
  "validate_kind v =
     (case v of
        PyStr s \<Rightarrow> if kind_match s then Inr s else Inl (InvalidInput ''resource kind must be a short lower_snake_case name'')
      | _ \<Rightarrow> Inl (InvalidInput ''resource kind must be a short lower_snake_case name''))"

definition validate_text :: "string \<Rightarrow> pyval \<Rightarrow> string res" where
  "validate_text name v =
     (case v of
        PyStr s \<Rightarrow>
          if py_strip s = [] \<or> CHR 0x00 \<in> set s \<or> 256 < length s
          then Inl (InvalidInput (name @ '' must be a non-empty bounded string'')) else Inr s
      | _ \<Rightarrow> Inl (InvalidInput (name @ '' must be a non-empty bounded string'')))"

definition ttl_in_range :: "rat \<Rightarrow> rat res" where
  "ttl_in_range ttl =
     (if 1 \<le> ttl \<and> ttl \<le> 7 * 24 * 3600 then Inr ttl
      else Inl (InvalidInput ''ttl_seconds must be between 1 and 604800''))"

definition validate_ttl :: "pyval \<Rightarrow> rat res" where
  "validate_ttl v =
     (case v of
        PyInt n \<Rightarrow> rbind (float_of_int n) ttl_in_range
      | PyFloat (Finite x) \<Rightarrow> ttl_in_range x
      | PyFloat _ \<Rightarrow> Inl (InvalidInput ''ttl_seconds must be between 1 and 604800'')
      | _ \<Rightarrow> Inl (InvalidInput ''ttl_seconds must be a number''))"

datatype meta_arg = NoMetadata | MetaMapping "(pyval \<times> pyval) list" | NotMapping

fun scalar_value :: "pyval \<Rightarrow> bool" where
  "scalar_value (PyBool b) = True"
| "scalar_value PyNone = True"
| "scalar_value (PyInt n) = True"
| "scalar_value (PyFloat f) = True"
| "scalar_value (PyStr s) = (length s \<le> 1024 \<and> CHR 0x00 \<notin> set s)"
| "scalar_value _ = False"

definition clean_entry :: "pyval \<times> pyval \<Rightarrow> (string \<times> pyval) res" where
  "clean_entry = (\<lambda>(name, v).
     rbind (validate_text ''metadata key'' name) (\<lambda>k.
       if scalar_value v then Inr (k, v) else Inl (InvalidInput ''metadata values must be scalars'')))"

definition validate_metadata :: "meta_arg \<Rightarrow> (string, pyval) dict res" where
  "validate_metadata m =
     (case m of
        NoMetadata \<Rightarrow> Inr []
      | MetaMapping kvs \<Rightarrow>
          if 16 < length kvs then Inl (InvalidInput ''metadata must be a small mapping'') else mapr clean_entry kvs
      | NotMapping \<Rightarrow> Inl (InvalidInput ''metadata must be a small mapping''))"

definition validate_port_range :: "int \<times> int \<Rightarrow> (int \<times> int) res" where
  "validate_port_range = (\<lambda>(low, high).
     if 1024 \<le> low \<and> low \<le> high \<and> high \<le> 65535 then Inr (low, high)
     else Inl (InvalidInput ''port range must lie inside 1024-65535 and be ordered''))"

definition port_text :: "string \<Rightarrow> bool" where
  "port_text s = (s \<noteq> [] \<and> length s \<le> 5 \<and> list_all ascii_digit s)"

definition parse_port_range :: "string \<Rightarrow> (int \<times> int) res" where
  "parse_port_range s =
     (case map py_strip (split_on (CHR ''-'') s) of
        [a, b] \<Rightarrow>
          if port_text a \<and> port_text b then validate_port_range (int (decimal_value a), int (decimal_value b))
          else Inl (InvalidInput ''port range must look like 47000-47999'')
      | _ \<Rightarrow> Inl (InvalidInput ''port range must look like 47000-47999''))"

section \<open>Leases and the rule for taking one back\<close>

record resource_lease =
  rl_lease_id :: string
  rl_kind :: string
  rl_key :: string
  rl_owner_id :: string
  rl_acquired_at :: rat
  rl_expires_at :: rat
  rl_ttl_seconds :: rat
  rl_owner_pid :: "int option"
  rl_owner_identity :: "string option"
  rl_heartbeat_at :: rat
  rl_metadata :: "(string, pyval) dict"

definition resource_name :: "resource_lease \<Rightarrow> string" where
  "resource_name l = rl_kind l @ '':'' @ rl_key l"

definition ttl_expired :: "resource_lease \<Rightarrow> rat \<Rightarrow> bool" where
  "ttl_expired l now = (rl_expires_at l \<le> now)"

definition stored_lease :: "resource_lease \<Rightarrow> resource_lease" where
  \<comment> \<open>\<^verbatim>\<open>from_record\<close> of \<^verbatim>\<open>to_record\<close>\<close>
  "stored_lease l =
     l\<lparr>rl_owner_identity := (if rl_owner_identity l = Some [] then None else rl_owner_identity l),
       rl_heartbeat_at := (if rl_heartbeat_at l = 0 then rl_acquired_at l else rl_heartbeat_at l)\<rparr>"

record reclaim_decision =
  rd_reclaim :: bool
  rd_reason :: string

definition decide_reclaim :: "bool \<Rightarrow> bool \<Rightarrow> bool \<Rightarrow> reclaim_decision" where
  "decide_reclaim owner_dead expired evidence =
     (if \<not> (owner_dead \<or> expired) then \<lparr>rd_reclaim = False, rd_reason = ''held by a live owner inside its TTL''\<rparr>
      else if \<not> evidence
      then \<lparr>rd_reclaim = False, rd_reason = (if owner_dead then ''owner is dead'' else ''TTL expired'')
              @ '', but nothing proves the resource was cleaned up''\<rparr>
      else \<lparr>rd_reclaim = True, rd_reason = (if owner_dead then ''owner is dead'' else ''TTL expired'')
              @ '' and the resource is proven released''\<rparr>)"

section \<open>The registry\<close>

type_synonym lease_table = "(string \<times> string, resource_lease) dict"

record lease_world =
  lw_store :: "string option"
  lw_commit :: "string option"
  lw_now :: rat
  lw_now_at :: "resource_lease \<Rightarrow> rat"
  lw_dead :: "int \<Rightarrow> pyval \<Rightarrow> bool"
  lw_port_free :: "int \<Rightarrow> bool"
  lw_path_exists :: "string \<Rightarrow> bool"
  lw_evidence :: "(string, resource_lease \<Rightarrow> bool res) dict"
  lw_token :: string

definition owner_dead :: "lease_world \<Rightarrow> resource_lease \<Rightarrow> bool" where
  "owner_dead W l =
     (case rl_owner_pid l of None \<Rightarrow> False
      | Some pid \<Rightarrow> lw_dead W pid (case rl_owner_identity l of None \<Rightarrow> PyNone | Some i \<Rightarrow> PyStr i))"

definition meta_get :: "resource_lease \<Rightarrow> string \<Rightarrow> pyval" where
  "meta_get l k = (case map_of (rl_metadata l) k of None \<Rightarrow> PyNone | Some v \<Rightarrow> v)"

definition or_none :: "pyval \<Rightarrow> pyval" where
  \<comment> \<open>\<^verbatim>\<open>v or None\<close> for a scalar\<close>
  "or_none v = (if v \<in> {PyBool False, PyInt 0, PyFloat (Finite 0), PyStr []} then PyNone else v)"

definition cleanup_proofs :: "lease_world \<Rightarrow> resource_lease \<Rightarrow> bool list" where
  "cleanup_proofs W l =
     (if rl_kind l = ''port'' \<and> rl_key l \<noteq> [] \<and> list_all ascii_digit (rl_key l)
      then [lw_port_free W (int (decimal_value (rl_key l)))] else [])
     @ (case meta_get l ''pid'' of PyInt pid \<Rightarrow> [lw_dead W pid (or_none (meta_get l ''pid_identity''))] | _ \<Rightarrow> [])
     @ (case meta_get l ''port'' of PyInt port \<Rightarrow> [lw_port_free W port] | _ \<Rightarrow> [])
     @ (case meta_get l ''path'' of PyStr path \<Rightarrow> if path = [] then [] else [\<not> lw_path_exists W path] | _ \<Rightarrow> [])"

definition cleanup_evidence :: "lease_world \<Rightarrow> resource_lease \<Rightarrow> bool" where
  "cleanup_evidence W l =
     (case map_of (lw_evidence W) (rl_kind l) of
        Some check \<Rightarrow> (case check l of Inl _ \<Rightarrow> False | Inr b \<Rightarrow> b)
      | None \<Rightarrow>
          (let proofs = cleanup_proofs W l in
           if proofs = [] \<and> rl_kind l = ''desktop_session'' then owner_dead W l
           else proofs \<noteq> [] \<and> list_all id proofs))"

definition register_evidence :: "pyval \<Rightarrow> (resource_lease \<Rightarrow> bool res) \<Rightarrow> lease_world \<Rightarrow> lease_world res" where
  "register_evidence kind check W =
     rbind (validate_kind kind) (\<lambda>k. Inr (W\<lparr>lw_evidence := AList.update k check (lw_evidence W)\<rparr>))"

definition reclaim_verdict :: "lease_world \<Rightarrow> resource_lease \<Rightarrow> reclaim_decision" where
  "reclaim_verdict W held =
     (let dead = owner_dead W held; expired = ttl_expired held (lw_now_at W held)
      in decide_reclaim dead expired ((dead \<or> expired) \<and> cleanup_evidence W held))"

definition held_row :: "lease_table \<Rightarrow> string \<Rightarrow> string \<Rightarrow> resource_lease option" where
  "held_row T kind key = map_of T (kind, key)"

definition put_lease :: "resource_lease \<Rightarrow> lease_table \<Rightarrow> lease_table" where
  "put_lease l T = AList.update (rl_kind l, rl_key l) (stored_lease l) T"

definition delete_lease :: "resource_lease \<Rightarrow> lease_table \<Rightarrow> lease_table" where
  "delete_lease l T = filter (\<lambda>(k, r). \<not> (k = (rl_kind l, rl_key l) \<and> rl_lease_id r = rl_lease_id l)) T"

definition try_reclaim :: "lease_world \<Rightarrow> resource_lease \<Rightarrow> lease_table \<Rightarrow> (bool \<times> string) \<times> lease_table" where
  "try_reclaim W held T =
     (let d = reclaim_verdict W held
      in ((rd_reclaim d, rd_reason d), if rd_reclaim d then delete_lease held T else T))"

definition new_lease ::
  "lease_world \<Rightarrow> string \<Rightarrow> string \<Rightarrow> string \<Rightarrow> rat \<Rightarrow> int option \<Rightarrow> string option \<Rightarrow> (string, pyval) dict \<Rightarrow> resource_lease" where
  "new_lease W kind key owner ttl pid identity meta =
     \<lparr>rl_lease_id = ''rl-'' @ lw_token W, rl_kind = kind, rl_key = key, rl_owner_id = owner,
      rl_acquired_at = lw_now W, rl_expires_at = lw_now W + ttl, rl_ttl_seconds = ttl, rl_owner_pid = pid,
      rl_owner_identity = identity, rl_heartbeat_at = lw_now W, rl_metadata = meta\<rparr>"

definition renewed_lease :: "resource_lease \<Rightarrow> rat option \<Rightarrow> (string, pyval) dict option \<Rightarrow> rat \<Rightarrow> resource_lease" where
  "renewed_lease held ttl meta now =
     (let t = (case ttl of None \<Rightarrow> rl_ttl_seconds held | Some t \<Rightarrow> t);
          m = (case meta of None \<Rightarrow> rl_metadata held | Some m \<Rightarrow> m)
      in stored_lease (held\<lparr>rl_ttl_seconds := t, rl_heartbeat_at := now, rl_expires_at := now + t, rl_metadata := m\<rparr>))"

definition port_key :: "string \<Rightarrow> int res" where
  "port_key key =
     (if key \<noteq> [] \<and> list_all ascii_digit key then Inr (int (decimal_value key))
      else Inl (InvalidInput ''a port lease key is the port number''))"

definition normal_key :: "pyval \<Rightarrow> pyval \<Rightarrow> (string \<times> string) res" where
  "normal_key kind key =
     rbind (validate_kind kind) (\<lambda>k.
     rbind (validate_text ''key'' key) (\<lambda>s.
       if k = ''port'' \<and> s \<noteq> [] \<and> list_all ascii_digit s then Inr (k, dec_nat (decimal_value s)) else Inr (k, s)))"

text \<open>A lease_txn: the store may be unavailable, and an exception inside rolls back.\<close>

definition lease_txn :: "lease_world \<Rightarrow> (lease_table \<Rightarrow> 'a res \<times> lease_table) \<Rightarrow> lease_table \<Rightarrow> 'a res \<times> lease_table" where
  "lease_txn W body T =
     (case lw_store W of
        Some why \<Rightarrow> (Inl (DependencyUnavailable (''resource lease store unavailable: '' @ why)), T)
      | None \<Rightarrow>
          (case body T of
             (Inl e, _) \<Rightarrow> (Inl e, T)
           | (Inr x, T') \<Rightarrow>
               (case lw_commit W of
                  Some why \<Rightarrow> (Inl (DependencyUnavailable (''resource lease store unavailable: '' @ why)), T)
                | None \<Rightarrow> (Inr x, T'))))"

definition acquire_body ::
  "lease_world \<Rightarrow> string \<Rightarrow> string \<Rightarrow> string \<Rightarrow> rat \<Rightarrow> int option \<Rightarrow> string option \<Rightarrow> (string, pyval) dict \<Rightarrow> lease_table
     \<Rightarrow> resource_lease res \<times> lease_table" where
  "acquire_body W kind key owner ttl pid identity meta T =
     (let fresh = (\<lambda>T. if kind = ''port'' \<and> \<not> lw_port_free W (int (decimal_value key))
                       then (Inl (LeaseBusy (''port '' @ key @ '' is in use outside the lease registry'')), T)
                       else let l = new_lease W kind key owner ttl pid identity meta in (Inr l, put_lease l T)) in
      case held_row T kind key of
        None \<Rightarrow> fresh T
      | Some held \<Rightarrow>
          if rl_owner_id held = owner then
            if pid \<noteq> None \<and> pid \<noteq> rl_owner_pid held \<or> identity \<noteq> None \<and> identity \<noteq> rl_owner_identity held
            then (Inl (LeaseNotOwner ''resource lease owner process changed; release before reacquiring''), T)
            else let l = renewed_lease held (Some ttl) (if meta = [] then None else Some meta) (lw_now W)
                 in (Inr l, put_lease l T)
          else
            (case try_reclaim W held T of ((reclaimed, reason), T1) \<Rightarrow>
               if \<not> reclaimed
               then (Inl (LeaseBusy (resource_name held @ '' is held by '' @ rl_owner_id held @ '' ('' @ reason @ '')'')), T1)
               else fresh T1))"

definition acquire_args ::
  "pyval \<Rightarrow> pyval \<Rightarrow> pyval \<Rightarrow> pyval \<Rightarrow> meta_arg \<Rightarrow> (string \<times> string \<times> string \<times> rat \<times> (string, pyval) dict) res" where
  "acquire_args kind key owner ttl_seconds metadata =
     rbind (validate_kind kind) (\<lambda>k.
     rbind (validate_text ''key'' key) (\<lambda>s.
     rbind (validate_text ''owner_id'' owner) (\<lambda>w.
     rbind (validate_ttl ttl_seconds) (\<lambda>ttl.
     rbind (validate_metadata metadata) (\<lambda>meta.
       if k = ''port'' then
         rbind (port_key s) (\<lambda>port.
         rbind (validate_port_range (port, port)) (\<lambda>_. Inr (k, dec_nat (nat port), w, ttl, meta)))
       else Inr (k, s, w, ttl, meta))))))"

definition acquire_lease ::
  "lease_world \<Rightarrow> pyval \<Rightarrow> pyval \<Rightarrow> pyval \<Rightarrow> pyval \<Rightarrow> int option \<Rightarrow> string option \<Rightarrow> meta_arg \<Rightarrow> lease_table
     \<Rightarrow> resource_lease res \<times> lease_table" where
  "acquire_lease W kind key owner ttl_seconds pid identity metadata T =
     (case acquire_args kind key owner ttl_seconds metadata of
        Inl e \<Rightarrow> (Inl e, T)
      | Inr (k, s, w, ttl, meta) \<Rightarrow> lease_txn W (acquire_body W k s w ttl pid identity meta) T)"

text \<open>The scan for a free port; the keys in the table are read once, before the scan.\<close>

fun scan_ports ::
  "lease_world \<Rightarrow> string list \<Rightarrow> (string \<Rightarrow> resource_lease) \<Rightarrow> int list \<Rightarrow> lease_table
     \<Rightarrow> resource_lease option \<times> lease_table" where
  "scan_ports W held_keys mk_for [] T = (None, T)"
| "scan_ports W held_keys mk_for (port # ports) T =
     (let key = dec_nat (nat port);
          (busy, T1) = (if key \<in> set held_keys then
             (case held_row T ''port'' key of
                None \<Rightarrow> (False, T)
              | Some held \<Rightarrow> (case try_reclaim W held T of ((reclaimed, _), T1) \<Rightarrow> (\<not> reclaimed, T1)))
             else (False, T)) in
      if busy then scan_ports W held_keys mk_for ports T1
      else if \<not> lw_port_free W port then scan_ports W held_keys mk_for ports T1
      else (Some (mk_for key), put_lease (mk_for key) T1))"

definition acquire_port ::
  "lease_world \<Rightarrow> pyval \<Rightarrow> pyval \<Rightarrow> int option \<Rightarrow> string option \<Rightarrow> meta_arg \<Rightarrow> int \<times> int \<Rightarrow> lease_table
     \<Rightarrow> resource_lease res \<times> lease_table" where
  \<comment> \<open>no free port is raised after the lease_txn, whose reclaims are kept\<close>
  "acquire_port W owner ttl_seconds pid identity metadata port_range T =
     (case rbind (validate_text ''owner_id'' owner) (\<lambda>w.
           rbind (validate_ttl ttl_seconds) (\<lambda>ttl.
           rbind (validate_metadata metadata) (\<lambda>meta.
           rbind (validate_port_range port_range) (\<lambda>(low, high). Inr (w, ttl, meta, low, high))))) of
        Inl e \<Rightarrow> (Inl e, T)
      | Inr (w, ttl, meta, low, high) \<Rightarrow>
          (let held_keys = map (snd \<circ> fst) (filter (\<lambda>((k, _), _). k = ''port'') T) in
           case lease_txn W (\<lambda>T. case scan_ports W held_keys
                  (\<lambda>key. new_lease W ''port'' key w ttl pid identity meta) [low..high] T of (r, T1) \<Rightarrow> (Inr r, T1)) T of
             (Inl e, T1) \<Rightarrow> (Inl e, T1)
           | (Inr (Some l), T1) \<Rightarrow> (Inr l, T1)
           | (Inr None, T1) \<Rightarrow>
               (Inl (LeaseExhausted (''no free port in '' @ py_str_int low @ ''-'' @ py_str_int high)), T1)))"

definition require_owned :: "lease_table \<Rightarrow> string \<Rightarrow> string \<Rightarrow> string \<Rightarrow> resource_lease res" where
  "require_owned T kind key owner =
     (case held_row T kind key of
        None \<Rightarrow> Inl (LeaseNotFound (kind @ '':'' @ key @ '' is not leased''))
      | Some held \<Rightarrow>
          if rl_owner_id held \<noteq> owner
          then Inl (LeaseNotOwner (resource_name held @ '' is held by '' @ rl_owner_id held @ '', not '' @ owner))
          else Inr held)"

definition heartbeat_lease ::
  "lease_world \<Rightarrow> pyval \<Rightarrow> pyval \<Rightarrow> string \<Rightarrow> pyval option \<Rightarrow> lease_table \<Rightarrow> resource_lease res \<times> lease_table" where
  "heartbeat_lease W kind key owner ttl_seconds T =
     (case rbind (normal_key kind key) (\<lambda>ks.
           rbind (case ttl_seconds of None \<Rightarrow> Inr None | Some v \<Rightarrow> rbind (validate_ttl v) (\<lambda>t. Inr (Some t))) (\<lambda>ttl.
             Inr (ks, ttl))) of
        Inl e \<Rightarrow> (Inl e, T)
      | Inr ((k, s), ttl) \<Rightarrow>
          lease_txn W (\<lambda>T. case require_owned T k s owner of
              Inl e \<Rightarrow> (Inl e, T)
            | Inr held \<Rightarrow> let l = renewed_lease held ttl None (lw_now W) in (Inr l, put_lease l T)) T)"

definition release_lease :: "lease_world \<Rightarrow> pyval \<Rightarrow> pyval \<Rightarrow> string \<Rightarrow> lease_table \<Rightarrow> bool res \<times> lease_table" where
  "release_lease W kind key owner T =
     (case normal_key kind key of
        Inl e \<Rightarrow> (Inl e, T)
      | Inr (k, s) \<Rightarrow>
          lease_txn W (\<lambda>T. case held_row T k s of
              None \<Rightarrow> (Inr False, T)
            | Some held \<Rightarrow>
                if rl_owner_id held \<noteq> owner
                then (Inl (LeaseNotOwner (resource_name held @ '' is held by '' @ rl_owner_id held @ '', not '' @ owner)), T)
                else (Inr True, delete_lease held T)) T)"

fun sweep_rows :: "lease_world \<Rightarrow> string list option \<Rightarrow> resource_lease list \<Rightarrow> lease_table \<Rightarrow> resource_lease list \<times> lease_table" where
  "sweep_rows W wanted [] T = ([], T)"
| "sweep_rows W wanted (held # rows) T =
     (if (case wanted of None \<Rightarrow> False | Some ks \<Rightarrow> rl_kind held \<notin> set ks) then sweep_rows W wanted rows T
      else case try_reclaim W held T of ((reclaimed, _), T1) \<Rightarrow>
             (case sweep_rows W wanted rows T1 of (dropped, T2) \<Rightarrow>
                (if reclaimed then held # dropped else dropped, T2)))"

definition sweep_leases :: "lease_world \<Rightarrow> pyval list option \<Rightarrow> lease_table \<Rightarrow> resource_lease list res \<times> lease_table" where
  "sweep_leases W kinds T =
     (case (case kinds of None \<Rightarrow> Inr None | Some ks \<Rightarrow> rbind (mapr validate_kind ks) (\<lambda>ks. Inr (Some ks))) of
        Inl e \<Rightarrow> (Inl e, T)
      | Inr wanted \<Rightarrow>
          lease_txn W (\<lambda>T. case sweep_rows W wanted (map snd T) T of (dropped, T1) \<Rightarrow> (Inr dropped, T1)) T)"

definition lease_holder :: "lease_world \<Rightarrow> pyval \<Rightarrow> pyval \<Rightarrow> lease_table \<Rightarrow> resource_lease option res \<times> lease_table" where
  "lease_holder W kind key T =
     (case normal_key kind key of
        Inl e \<Rightarrow> (Inl e, T) | Inr (k, s) \<Rightarrow> lease_txn W (\<lambda>T. (Inr (held_row T k s), T)) T)"

definition leases_of :: "lease_world \<Rightarrow> pyval option \<Rightarrow> lease_table \<Rightarrow> resource_lease list res \<times> lease_table" where
  \<comment> \<open>the kind is validated inside the transaction\<close>
  "leases_of W kind T =
     lease_txn W (\<lambda>T.
       (case kind of
          None \<Rightarrow> Inr (map snd (sort_key fst T))
        | Some v \<Rightarrow> rbind (validate_kind v) (\<lambda>k. Inr (map snd (sort_key fst (filter (\<lambda>((k', _), _). k' = k) T)))), T)) T"

section \<open>Histories\<close>

datatype lease_op =
    OpAcquire pyval pyval pyval pyval "int option" "string option" meta_arg
  | OpAcquirePort pyval pyval "int option" "string option" meta_arg "int \<times> int"
  | OpHeartbeat pyval pyval string "pyval option"
  | OpRelease pyval pyval string
  | OpSweep "pyval list option"
  | OpHolder pyval pyval
  | OpLeases "pyval option"

definition exn_of :: "'a res \<times> lease_table \<Rightarrow> py_exn option \<times> lease_table" where
  "exn_of r = (case fst r of Inl e \<Rightarrow> Some e | Inr _ \<Rightarrow> None, snd r)"

primrec lease_exec :: "lease_world \<Rightarrow> lease_op \<Rightarrow> lease_table \<Rightarrow> py_exn option \<times> lease_table" where
  "lease_exec W (OpAcquire kind key owner ttl pid identity meta) T =
     exn_of (acquire_lease W kind key owner ttl pid identity meta T)"
| "lease_exec W (OpAcquirePort owner ttl pid identity meta ports) T =
     exn_of (acquire_port W owner ttl pid identity meta ports T)"
| "lease_exec W (OpHeartbeat kind key owner ttl) T = exn_of (heartbeat_lease W kind key owner ttl T)"
| "lease_exec W (OpRelease kind key owner) T = exn_of (release_lease W kind key owner T)"
| "lease_exec W (OpSweep kinds) T = exn_of (sweep_leases W kinds T)"
| "lease_exec W (OpHolder kind key) T = exn_of (lease_holder W kind key T)"
| "lease_exec W (OpLeases kind) T = exn_of (leases_of W kind T)"

inductive lease_step :: "lease_table \<Rightarrow> lease_world \<times> lease_op \<Rightarrow> lease_table \<Rightarrow> bool" where
  "0 < lw_now W \<Longrightarrow> lease_exec W act T = (e, T') \<Longrightarrow> lease_step T (W, act) T'"

inductive_simps lease_step_iff: "lease_step T (W, act) T'"

section \<open>Rows\<close>

definition ttl_ok :: "rat \<Rightarrow> bool" where
  "ttl_ok t = (1 \<le> t \<and> t \<le> 604800)"

definition key_ok :: "string \<Rightarrow> string \<Rightarrow> bool" where
  "key_ok k s =
     (kind_match k \<and> (k = ''port'' \<longrightarrow> s = dec_nat (decimal_value s) \<and> 1024 \<le> decimal_value s \<and> decimal_value s \<le> 65535))"

definition row_ok :: "string \<times> string \<Rightarrow> resource_lease \<Rightarrow> bool" where
  "row_ok ks l =
     ((rl_kind l, rl_key l) = ks \<and> key_ok (fst ks) (snd ks) \<and> ttl_ok (rl_ttl_seconds l)
      \<and> rl_expires_at l = rl_heartbeat_at l + rl_ttl_seconds l)"

definition lease_table_ok :: "lease_table \<Rightarrow> bool" where
  "lease_table_ok T = (dict_ok T \<and> list_all (\<lambda>(ks, l). row_ok ks l) T)"

definition lease_home :: "resource_lease \<Rightarrow> string \<times> string" where
  "lease_home l = (rl_kind l, rl_key l)"

lemma table_ok_dict: "lease_table_ok T \<Longrightarrow> dict_ok T"
  by (simp add: lease_table_ok_def)

lemma table_okD: "lease_table_ok T \<Longrightarrow> map_of T ks = Some l \<Longrightarrow> row_ok ks l"
  by (auto simp: lease_table_ok_def list_all_iff dest!: map_of_SomeD)

lemma row_home: "lease_table_ok T \<Longrightarrow> map_of T ks = Some l \<Longrightarrow> lease_home l = ks"
  by (auto simp: lease_home_def row_ok_def dest: table_okD)

lemma table_ok_put: "lease_table_ok T \<Longrightarrow> row_ok (lease_home l) (stored_lease l) \<Longrightarrow> lease_table_ok (put_lease l T)"
  using set_update_subset[of "lease_home l" "stored_lease l" T]
  by (auto simp: lease_table_ok_def put_lease_def lease_home_def list_all_iff distinct_update)

lemma distinct_map_filter_fst: "dict_ok T \<Longrightarrow> dict_ok (filter P T)"
  by (induction T) auto

lemma table_ok_delete: "lease_table_ok T \<Longrightarrow> lease_table_ok (delete_lease l T)"
  by (auto simp: lease_table_ok_def delete_lease_def list_all_iff distinct_map_filter_fst)

lemma map_of_delete_lease:
  "dict_ok T \<Longrightarrow> map_of (delete_lease l T) ks =
     (if ks = lease_home l \<and> map_option rl_lease_id (map_of T ks) = Some (rl_lease_id l) then None else map_of T ks)"
proof (induction T)
  case (Cons r T)
  have none: "fst r \<notin> fst ` set T" and "dict_ok T" using Cons.prems by auto
  then have "map_of T (fst r) = None" by (simp add: map_of_eq_None_iff)
  then show ?case
    using Cons.IH[OF \<open>dict_ok T\<close>] by (cases r) (auto simp: delete_lease_def lease_home_def split: if_splits)
qed (simp add: delete_lease_def)

lemma delete_held:
  assumes "lease_table_ok T" and "map_of T ks = Some l"
  shows "map_of (delete_lease l T) = (map_of T)(ks := None)"
proof
  fix j
  show "map_of (delete_lease l T) j = ((map_of T)(ks := None)) j"
    by (simp add: map_of_delete_lease[OF table_ok_dict[OF assms(1)]] assms(2) row_home[OF assms])
qed

lemma map_of_put: "map_of (put_lease l T) = (map_of T)(lease_home l \<mapsto> stored_lease l)"
  by (simp add: put_lease_def lease_home_def dict_simps)

lemma stored_simps [simp]:
  "rl_lease_id (stored_lease l) = rl_lease_id l" "rl_kind (stored_lease l) = rl_kind l"
  "rl_key (stored_lease l) = rl_key l" "rl_owner_id (stored_lease l) = rl_owner_id l"
  "rl_acquired_at (stored_lease l) = rl_acquired_at l" "rl_expires_at (stored_lease l) = rl_expires_at l"
  "rl_ttl_seconds (stored_lease l) = rl_ttl_seconds l" "rl_owner_pid (stored_lease l) = rl_owner_pid l"
  by (simp_all add: stored_lease_def)

lemma validate_ttl_ok: "validate_ttl v = Inr t \<Longrightarrow> ttl_ok t"
  by (auto simp: validate_ttl_def ttl_in_range_def ttl_ok_def split: pyval.splits pyfloat.splits if_splits)

lemma validate_kind_ok: "validate_kind v = Inr k \<Longrightarrow> kind_match k"
  by (auto simp: validate_kind_def split: pyval.splits if_splits)

lemma acquire_args_ok: "acquire_args kind key owner ttl meta = Inr (k, s, w, t, m) \<Longrightarrow> key_ok k s \<and> ttl_ok t"
  by (auto simp: acquire_args_def key_ok_def validate_port_range_def nat_le_eq_zle
      dest: validate_ttl_ok validate_kind_ok split: if_splits)

lemma new_lease_row:
  "key_ok k s \<Longrightarrow> ttl_ok t \<Longrightarrow> row_ok (k, s) (stored_lease (new_lease W k s w t pid identity m))"
  by (simp add: row_ok_def new_lease_def stored_lease_def)

lemma renewed_row:
  "row_ok ks l \<Longrightarrow> now \<noteq> 0 \<Longrightarrow> (\<And>t. ttl = Some t \<Longrightarrow> ttl_ok t) \<Longrightarrow> row_ok ks (stored_lease (renewed_lease l ttl m now))"
  by (auto simp: row_ok_def renewed_lease_def stored_lease_def Let_def split: option.splits)

section \<open>Nobody's lease is taken\<close>

text \<open>A lease may be taken from its holder only under the narrow rule of the module.\<close>

definition reclaimable :: "lease_world \<Rightarrow> resource_lease \<Rightarrow> bool" where
  "reclaimable W l = ((owner_dead W l \<or> rl_expires_at l \<le> lw_now_at W l) \<and> cleanup_evidence W l)"

definition same_tenure :: "resource_lease \<Rightarrow> resource_lease \<Rightarrow> bool" where
  "same_tenure l l' =
     (rl_lease_id l' = rl_lease_id l \<and> rl_owner_id l' = rl_owner_id l \<and> rl_acquired_at l' = rl_acquired_at l
      \<and> rl_owner_pid l' = rl_owner_pid l)"

definition tenure_kept :: "(resource_lease \<Rightarrow> bool) \<Rightarrow> lease_table \<Rightarrow> lease_table \<Rightarrow> string \<times> string \<Rightarrow> bool" where
  "tenure_kept Q T T' ks =
     (case map_of T ks of None \<Rightarrow> True
      | Some l \<Rightarrow> Q l \<or> (case map_of T' ks of None \<Rightarrow> False | Some l' \<Rightarrow> same_tenure l l'))"

lemma reclaim_verdict_iff: "rd_reclaim (reclaim_verdict W l) \<longleftrightarrow> reclaimable W l"
  by (auto simp: reclaim_verdict_def decide_reclaim_def reclaimable_def ttl_expired_def Let_def)

lemma try_reclaim_eq:
  "try_reclaim W l T = ((reclaimable W l, rd_reason (reclaim_verdict W l)), if reclaimable W l then delete_lease l T else T)"
  by (simp add: try_reclaim_def Let_def reclaim_verdict_iff)

lemma same_tenure_refl [simp]: "same_tenure l l"
  by (simp add: same_tenure_def)

lemma same_tenure_trans: "same_tenure a b \<Longrightarrow> same_tenure b c \<Longrightarrow> same_tenure a c"
  by (simp add: same_tenure_def)

lemma same_tenure_renewed [simp]: "same_tenure l (stored_lease (renewed_lease l ttl m now))"
  by (simp add: same_tenure_def renewed_lease_def Let_def)

lemma renewed_home [simp]: "lease_home (renewed_lease l ttl m now) = lease_home l"
  by (simp add: lease_home_def renewed_lease_def Let_def)

lemma new_lease_home [simp]: "lease_home (new_lease W k s w t pid identity m) = (k, s)"
  by (simp add: lease_home_def new_lease_def)

lemma kept_refl [simp]: "tenure_kept Q T T ks"
  by (simp add: tenure_kept_def split: option.split)

lemma kept_upd:
  assumes "map_of T' = (map_of T)(home := r)"
    and "\<And>l. map_of T home = Some l \<Longrightarrow> Q l \<or> (\<exists>l'. r = Some l' \<and> same_tenure l l')"
  shows "tenure_kept Q T T' ks"
  using assms by (auto simp: tenure_kept_def split: option.splits)

text \<open>A transaction either leaves the table or applies its body.\<close>

lemma lease_txn_cases:
  assumes "lease_txn W body T = (r, T')"
  obtains (kept) "T' = T" | (ran) x where "body T = (Inr x, T')" "r = Inr x"
  using assms by (auto simp: lease_txn_def split: option.splits prod.splits sum.splits)

definition good_op :: "lease_world \<Rightarrow> (resource_lease \<Rightarrow> bool) \<Rightarrow> lease_table \<Rightarrow> lease_table \<Rightarrow> bool" where
  "good_op W Q T T' = (lease_table_ok T' \<and> (\<forall>ks. tenure_kept (\<lambda>l. reclaimable W l \<or> Q l) T T' ks))"

lemma good_op_refl: "lease_table_ok T \<Longrightarrow> good_op W Q T T"
  by (simp add: good_op_def)

lemma txn_good:
  assumes "lease_table_ok T" and "lease_txn W body T = (r, T')"
    and "\<And>x T'. body T = (Inr x, T') \<Longrightarrow> good_op W Q T T'"
  shows "good_op W Q T T'"
  using assms(2) by (rule lease_txn_cases) (use assms in \<open>auto simp: good_op_refl\<close>)

lemma good_upd:
  assumes "lease_table_ok T'" and "map_of T' = (map_of T)(home := r)"
    and "\<And>l. map_of T home = Some l \<Longrightarrow> reclaimable W l \<or> Q l \<or> (\<exists>l'. r = Some l' \<and> same_tenure l l')"
  shows "good_op W Q T T'"
proof -
  have "tenure_kept (\<lambda>l. reclaimable W l \<or> Q l) T T' ks" for ks
    using kept_upd[OF assms(2), of "\<lambda>l. reclaimable W l \<or> Q l"] assms(3) by simp
  then show ?thesis by (simp add: good_op_def assms(1))
qed

lemma good_new:
  assumes "lease_table_ok T" and "map_of T (k, s) = None" and "key_ok k s" and "ttl_ok t"
  shows "good_op W Q T (put_lease (new_lease W' k s w t pid identity m) T)"
  by (rule good_upd[OF table_ok_put map_of_put]) (simp_all add: assms new_lease_row)

lemma good_renew:
  assumes "lease_table_ok T" and "map_of T ks = Some held" and "0 < now" and "\<And>t. ttl = Some t \<Longrightarrow> ttl_ok t"
  shows "good_op W Q T (put_lease (renewed_lease held ttl m now) T)"
proof -
  note home = row_home[OF assms(1,2)]
  have "row_ok ks (stored_lease (renewed_lease held ttl m now))"
    using table_okD[OF assms(1,2)] assms(3,4) by (simp add: renewed_row)
  then have "lease_table_ok (put_lease (renewed_lease held ttl m now) T)"
    by (intro table_ok_put assms(1)) (simp add: home)
  then show ?thesis
    by (rule good_upd[OF _ map_of_put]) (simp add: home assms(2))
qed

lemma good_delete:
  assumes "lease_table_ok T" and "map_of T ks = Some l" and "reclaimable W l \<or> Q l"
  shows "good_op W Q T (delete_lease l T)"
  by (rule good_upd[OF table_ok_delete[OF assms(1)] delete_held[OF assms(1,2)]]) (use assms(2,3) in auto)

lemma good_replace:
  assumes "lease_table_ok T" and "map_of T (k, s) = Some held" and "reclaimable W held" and "key_ok k s" and "ttl_ok t"
  shows "good_op W Q T (put_lease (new_lease W' k s w t pid identity m) (delete_lease held T))"
proof (rule good_upd)
  show "lease_table_ok (put_lease (new_lease W' k s w t pid identity m) (delete_lease held T))"
    by (intro table_ok_put table_ok_delete assms) (simp add: assms new_lease_row)
  show "map_of (put_lease (new_lease W' k s w t pid identity m) (delete_lease held T))
      = (map_of T)((k, s) \<mapsto> stored_lease (new_lease W' k s w t pid identity m))"
    using delete_held[OF assms(1,2)] by (simp add: map_of_put)
qed (simp add: assms(2,3))

lemma acquire_good:
  assumes "lease_table_ok T" and "0 < lw_now W" and "acquire_lease W kind key owner ttl pid identity meta T = (r, T')"
  shows "good_op W Q T T'"
proof (cases "acquire_args kind key owner ttl meta")
  case (Inr a)
  obtain k s w t m where a: "a = (k, s, w, t, m)" by (cases a) blast
  note args = acquire_args_ok[OF Inr[unfolded a]]
  have txn: "lease_txn W (acquire_body W k s w t pid identity m) T = (r, T')"
    using assms(3) by (simp add: acquire_lease_def Inr a)
  show ?thesis
    using assms(1) txn
  proof (rule txn_good)
    fix x T1
    assume "acquire_body W k s w t pid identity m T = (Inr x, T1)"
    then show "good_op W Q T T1"
      using args assms(1,2)
      by (auto simp: acquire_body_def Let_def held_row_def try_reclaim_eq new_lease_row
          intro!: good_new good_renew good_replace split: option.splits if_splits)
  qed
qed (use assms in \<open>auto simp: acquire_lease_def good_op_refl\<close>)

lemma heartbeat_good:
  assumes "lease_table_ok T" and "0 < lw_now W" and "heartbeat_lease W kind key owner ttl T = (r, T')"
  shows "good_op W Q T T'"
proof -
  have body: "good_op W Q T T1"
    if "(case require_owned T k s owner of Inl e \<Rightarrow> (Inl e, T)
         | Inr held \<Rightarrow> let l = renewed_lease held t None (lw_now W) in (Inr l, put_lease l T)) = (Inr x, T1)"
      and "\<And>u. t = Some u \<Longrightarrow> ttl_ok u" for k s t x T1
    using that assms(1,2)
    by (auto simp: require_owned_def held_row_def Let_def intro!: good_renew split: option.splits if_splits)
  show ?thesis
    using assms(1,3)
    by (auto simp: heartbeat_lease_def good_op_refl intro: body dest!: validate_ttl_ok
        elim!: txn_good[OF assms(1)] split: sum.splits option.splits)
qed

definition releases :: "lease_op \<Rightarrow> resource_lease \<Rightarrow> bool" where
  "releases act l =
     (case act of OpRelease kind key owner \<Rightarrow> owner = rl_owner_id l \<and> normal_key kind key = Inr (lease_home l)
      | _ \<Rightarrow> False)"

lemma release_good:
  assumes "lease_table_ok T" and "release_lease W kind key owner T = (r, T')"
  shows "good_op W (releases (OpRelease kind key owner)) T T'"
proof (cases "normal_key kind key")
  case (Inr ks)
  then have "lease_txn W (\<lambda>T. case held_row T (fst ks) (snd ks) of None \<Rightarrow> (Inr False, T)
      | Some held \<Rightarrow> if rl_owner_id held \<noteq> owner
          then (Inl (LeaseNotOwner (resource_name held @ '' is held by '' @ rl_owner_id held @ '', not '' @ owner)), T)
          else (Inr True, delete_lease held T)) T = (r, T')"
    using assms(2) by (simp add: release_lease_def split: prod.splits)
  then show ?thesis
    using assms(1) Inr row_home[OF assms(1), of ks]
    by (elim txn_good[rotated])
      (auto simp: held_row_def releases_def good_op_refl intro!: good_delete split: option.splits if_splits)
qed (use assms in \<open>auto simp: release_lease_def good_op_refl\<close>)

text \<open>Deleting under the rule, many times: what a sweep and a port scan do before they stop.\<close>

definition reclaimed_from :: "lease_world \<Rightarrow> lease_table \<Rightarrow> (string \<times> string) set \<Rightarrow> lease_table \<Rightarrow> bool" where
  "reclaimed_from W T gone T' =
     (map_of T' = map_of T |` (- gone) \<and> (\<forall>ks\<in>gone. \<exists>l. map_of T ks = Some l \<and> reclaimable W l))"

lemma reclaimed_refl [simp]: "reclaimed_from W T {} T"
  by (simp add: reclaimed_from_def restrict_map_def)

lemma reclaimed_delete:
  assumes "lease_table_ok T" and "map_of T ks = Some l" and "reclaimable W l"
    and "reclaimed_from W (delete_lease l T) gone T'"
  shows "reclaimed_from W T (insert ks gone) T'"
  using assms(3,4) by (auto simp: reclaimed_from_def delete_held[OF assms(1,2)] assms(2) restrict_map_def fun_eq_iff
      split: if_splits)

lemma reclaimed_kept: "reclaimed_from W T gone T' \<Longrightarrow> ks \<notin> gone \<Longrightarrow> map_of T' ks = map_of T ks"
  by (simp add: reclaimed_from_def)

lemma good_reclaimed:
  assumes "lease_table_ok T'" and "reclaimed_from W T gone T'"
  shows "good_op W Q T T'"
proof -
  have "tenure_kept (\<lambda>l. reclaimable W l \<or> Q l) T T' ks" for ks
    using assms(2) by (cases "ks \<in> gone") (auto simp: tenure_kept_def reclaimed_from_def split: option.split)
  then show ?thesis by (simp add: good_op_def assms(1))
qed

definition swept :: "lease_world \<Rightarrow> string list option \<Rightarrow> resource_lease list \<Rightarrow> resource_lease list" where
  "swept W wanted rows =
     filter (\<lambda>l. (case wanted of None \<Rightarrow> True | Some ks \<Rightarrow> rl_kind l \<in> set ks) \<and> reclaimable W l) rows"

lemma sweep_rows_reclaims:
  assumes "lease_table_ok T"
    and "\<And>l. l \<in> set rows \<Longrightarrow> map_of T (lease_home l) = Some l" and "distinct (map lease_home rows)"
  shows "\<exists>T'. sweep_rows W wanted rows T = (swept W wanted rows, T') \<and> lease_table_ok T'
    \<and> reclaimed_from W T (lease_home ` set (swept W wanted rows)) T'"
  using assms
proof (induction rows arbitrary: T)
  case (Cons l rows)
  show ?case
  proof (cases "(case wanted of None \<Rightarrow> True | Some ks \<Rightarrow> rl_kind l \<in> set ks) \<and> reclaimable W l")
    case False
    obtain T' where "sweep_rows W wanted rows T = (swept W wanted rows, T')" "lease_table_ok T'"
      "reclaimed_from W T (lease_home ` set (swept W wanted rows)) T'"
      using Cons.IH[OF Cons.prems(1)] Cons.prems(2,3) by auto
    then show ?thesis
      using False by (auto simp: try_reclaim_eq swept_def split: option.splits if_splits)
  next
    case True
    have here: "map_of T (lease_home l) = Some l" using Cons.prems(2) by simp
    have "map_of (delete_lease l T) (lease_home l') = Some l'" if "l' \<in> set rows" for l'
    proof -
      have "lease_home l' \<in> lease_home ` set rows" using that by simp
      then have "lease_home l' \<noteq> lease_home l" using Cons.prems(3) by (metis distinct.simps(2) list.map(2) list.set_map)
      then show ?thesis using that Cons.prems(2) by (simp add: delete_held[OF Cons.prems(1) here])
    qed
    moreover have "distinct (map lease_home rows)" using Cons.prems(3) by simp
    ultimately obtain T' where T': "sweep_rows W wanted rows (delete_lease l T) = (swept W wanted rows, T')"
      "lease_table_ok T'" "reclaimed_from W (delete_lease l T) (lease_home ` set (swept W wanted rows)) T'"
      using Cons.IH[OF table_ok_delete[OF Cons.prems(1)], of l] by blast
    have "reclaimed_from W T (lease_home ` set (swept W wanted (l # rows))) T'"
      using reclaimed_delete[OF Cons.prems(1) here _ T'(3)] True by (simp add: swept_def)
    then show ?thesis
      using T'(1,2) True by (auto simp: try_reclaim_eq swept_def split: option.splits)
  qed
qed (simp add: swept_def)

lemma table_rows:
  assumes "lease_table_ok T"
  shows "l \<in> set (map snd T) \<Longrightarrow> map_of T (lease_home l) = Some l" and "map lease_home (map snd T) = map fst T"
proof -
  have home: "lease_home r = ks" if "(ks, r) \<in> set T" for ks r
    using assms that by (auto simp: lease_table_ok_def list_all_iff row_ok_def lease_home_def)
  then show "map lease_home (map snd T) = map fst T" by auto
  show "l \<in> set (map snd T) \<Longrightarrow> map_of T (lease_home l) = Some l"
    using home by (auto simp: map_of_is_SomeI[OF table_ok_dict[OF assms]])
qed

lemma sweep_good:
  assumes "lease_table_ok T" and "sweep_leases W kinds T = (r, T')"
  shows "good_op W Q T T'"
proof -
  have body: "good_op W Q T T1"
    if "(case sweep_rows W wanted (map snd T) T of (dropped, T1) \<Rightarrow> (Inr dropped, T1)) = (Inr x, T1)" for wanted x T1
  proof -
    have "distinct (map lease_home (map snd T))"
      using table_ok_dict[OF assms(1)] by (simp only: table_rows(2)[OF assms(1)])
    then show ?thesis
      using that sweep_rows_reclaims[OF assms(1) table_rows(1)[OF assms(1)], of "map snd T" W wanted]
      by (auto intro: good_reclaimed)
  qed
  show ?thesis
    using assms by (auto simp: sweep_leases_def good_op_refl intro: body elim!: txn_good split: sum.splits)
qed

section \<open>Scanning for a port\<close>

definition port_open :: "lease_world \<Rightarrow> lease_table \<Rightarrow> int \<Rightarrow> bool" where
  "port_open W T p =
     (lw_port_free W p
      \<and> (case map_of T (''port'', dec_nat (nat p)) of None \<Rightarrow> True | Some l \<Rightarrow> reclaimable W l))"

lemma dec_nat_inj: "dec_nat m = dec_nat n \<longleftrightarrow> m = n"
  by (metis decimal_value_dec_nat)

lemma port_open_other:
  assumes "lease_table_ok T" and "map_of T (''port'', dec_nat (nat p)) = Some l" and "0 \<le> p" "0 \<le> q" "q \<noteq> p"
  shows "port_open W (delete_lease l T) q = port_open W T q"
  using assms(3-5) by (simp add: port_open_def delete_held[OF assms(1,2)] dec_nat_inj eq_nat_nat_iff)

lemma find_cong_set: "(\<And>x. x \<in> set xs \<Longrightarrow> P x = Q x) \<Longrightarrow> find P xs = find Q xs"
  by (induction xs) auto

abbreviation port_home :: "int \<Rightarrow> string \<times> string" where
  "port_home p \<equiv> (''port'', dec_nat (nat p))"

lemma scan_skip:
  assumes "scan_ports W hk mk_for (p # ports) T = (r, T')" and "\<not> port_open W T p"
    and "map_of T (port_home p) \<noteq> None \<Longrightarrow> dec_nat (nat p) \<in> set hk"
  obtains (same) "scan_ports W hk mk_for ports T = (r, T')"
  | (dropped) l where "map_of T (port_home p) = Some l" "reclaimable W l"
      "scan_ports W hk mk_for ports (delete_lease l T) = (r, T')"
  using assms
  by (auto simp: port_open_def held_row_def try_reclaim_eq Let_def split: option.splits if_splits)

lemma scan_take:
  assumes "port_open W T p" and "map_of T (port_home p) \<noteq> None \<Longrightarrow> dec_nat (nat p) \<in> set hk"
  shows "scan_ports W hk mk_for (p # ports) T =
    (Some (mk_for (dec_nat (nat p))), put_lease (mk_for (dec_nat (nat p)))
       (case map_of T (port_home p) of None \<Rightarrow> T | Some l \<Rightarrow> delete_lease l T))"
  using assms
  by (auto simp: port_open_def held_row_def try_reclaim_eq Let_def split: option.splits if_splits)

definition scan_result ::
  "lease_world \<Rightarrow> (string \<Rightarrow> resource_lease) \<Rightarrow> int option \<Rightarrow> lease_table \<Rightarrow> lease_table \<Rightarrow> bool" where
  \<comment> \<open>some leases were reclaimed; the found port, if any, was then recorded\<close>
  "scan_result W mk_for found T T' =
     (\<exists>gone T1. reclaimed_from W T gone T1 \<and> lease_table_ok T1
      \<and> (case found of None \<Rightarrow> T' = T1
         | Some p \<Rightarrow> map_of T1 (port_home p) = None \<and> T' = put_lease (mk_for (dec_nat (nat p))) T1))"

lemma scan_result_delete:
  assumes "lease_table_ok T" and "map_of T ks = Some l" and "reclaimable W l"
    and "scan_result W mk_for found (delete_lease l T) T'"
  shows "scan_result W mk_for found T T'"
  using assms(4) reclaimed_delete[OF assms(1-3)] unfolding scan_result_def by blast

lemma scan_ports_finds:
  assumes "lease_table_ok T" and "\<And>s. map_of T (''port'', s) \<noteq> None \<Longrightarrow> s \<in> set hk"
    and "distinct ports" and "\<And>p. p \<in> set ports \<Longrightarrow> 0 \<le> p" and "scan_ports W hk mk_for ports T = (r, T')"
  shows "r = map_option (\<lambda>p. mk_for (dec_nat (nat p))) (find (port_open W T) ports)
    \<and> scan_result W mk_for (find (port_open W T) ports) T T'"
  using assms
proof (induction ports arbitrary: T)
  case Nil
  then show ?case by (auto simp: scan_result_def intro: exI[of _ "{}"])
next
  case (Cons p ports)
  note hk = Cons.prems(2)[of "dec_nat (nat p)"]
  show ?case
  proof (cases "port_open W T p")
    case True
    let ?T1 = "case map_of T (port_home p) of None \<Rightarrow> T | Some l \<Rightarrow> delete_lease l T"
    have gone: "\<exists>gone. reclaimed_from W T gone ?T1" "lease_table_ok ?T1" "map_of ?T1 (port_home p) = None"
      using True Cons.prems(1) reclaimed_delete[OF Cons.prems(1) _ _ reclaimed_refl] delete_held[OF Cons.prems(1)]
      by (auto simp: port_open_def table_ok_delete intro: reclaimed_refl split: option.splits) blast
    then show ?thesis
      using True Cons.prems(5) scan_take[OF True hk, of mk_for ports] by (auto simp: scan_result_def)
  next
    case False
    from scan_skip[OF Cons.prems(5) False hk]
    consider (same) "scan_ports W hk mk_for ports T = (r, T')"
      | (dropped) l where "map_of T (port_home p) = Some l" "reclaimable W l"
          "scan_ports W hk mk_for ports (delete_lease l T) = (r, T')"
      by blast
    then show ?thesis
    proof cases
      case same
      then show ?thesis using Cons.IH[OF Cons.prems(1,2) _ _ same] Cons.prems(3,4) False by auto
    next
      case (dropped l)
      have hk': "s \<in> set hk" if "map_of (delete_lease l T) (''port'', s) \<noteq> None" for s
        using that Cons.prems(2)[of s] by (auto simp: delete_held[OF Cons.prems(1) dropped(1)] split: if_splits)
      have "port_open W (delete_lease l T) q = port_open W T q" if "q \<in> set ports" for q
        using port_open_other[OF Cons.prems(1) dropped(1)] that Cons.prems(3,4) by auto
      then have "find (port_open W (delete_lease l T)) ports = find (port_open W T) ports"
        by (rule find_cong_set)
      then show ?thesis
        using Cons.IH[OF table_ok_delete[OF Cons.prems(1)] hk' _ _ dropped(3)] Cons.prems(3,4) False
          scan_result_delete[OF Cons.prems(1) dropped(1,2)] by auto
    qed
  qed
qed

lemma scan_good:
  assumes "scan_result W mk_for found T T'" and "\<And>s. lease_home (mk_for s) = (''port'', s)"
    and "\<And>p. found = Some p \<Longrightarrow> row_ok (port_home p) (stored_lease (mk_for (dec_nat (nat p))))"
  shows "good_op W Q T T'"
proof -
  obtain gone T1 where T1: "reclaimed_from W T gone T1" "lease_table_ok T1"
    and fin: "case found of None \<Rightarrow> T' = T1
      | Some p \<Rightarrow> map_of T1 (port_home p) = None \<and> T' = put_lease (mk_for (dec_nat (nat p))) T1"
    using assms(1) by (auto simp: scan_result_def)
  show ?thesis
  proof (cases found)
    case None
    then show ?thesis using fin T1 by (simp add: good_reclaimed)
  next
    case (Some p)
    then have T': "T' = put_lease (mk_for (dec_nat (nat p))) T1" and none: "map_of T1 (port_home p) = None"
      using fin by simp_all
    have "tenure_kept (\<lambda>l. reclaimable W l \<or> Q l) T T' ks" for ks
      using T1(1) none by (cases "ks \<in> gone"; cases "ks = port_home p")
        (auto simp: T' map_of_put assms(2) tenure_kept_def reclaimed_from_def split: option.split)
    moreover have "lease_table_ok T'"
      unfolding T' by (rule table_ok_put[OF T1(2)]) (simp add: assms(2,3) Some)
    ultimately show ?thesis by (simp add: good_op_def)
  qed
qed

lemma find_in: "find P xs = Some x \<Longrightarrow> x \<in> set xs \<and> P x"
  by (induction xs) (auto split: if_splits)

text \<open>The arguments of a port request, once validated.\<close>

definition port_request :: "pyval \<Rightarrow> pyval \<Rightarrow> meta_arg \<Rightarrow> int \<times> int \<Rightarrow> string \<times> rat \<times> (string, pyval) dict \<Rightarrow> bool" where
  "port_request owner ttl meta ports a =
     (case a of (w, t, m) \<Rightarrow> validate_text ''owner_id'' owner = Inr w \<and> validate_ttl ttl = Inr t
        \<and> validate_metadata meta = Inr m \<and> validate_port_range ports = Inr ports)"

lemma validate_port_range_Inr:
  "validate_port_range ports = Inr lh \<longleftrightarrow> lh = ports \<and> 1024 \<le> fst ports \<and> fst ports \<le> snd ports \<and> snd ports \<le> 65535"
  by (auto simp: validate_port_range_def split: prod.splits)

lemma port_row:
  assumes "p \<in> {low..high}" and "1024 \<le> low" and "high \<le> 65535" and "ttl_ok t"
  shows "row_ok (port_home p) (stored_lease (new_lease W ''port'' (dec_nat (nat p)) w t pid identity m))"
proof (rule new_lease_row)
  have "nat p \<le> 65535" "1024 \<le> nat p" using assms by auto
  then show "key_ok ''port'' (dec_nat (nat p))"
    by (simp add: key_ok_def kind_match_def kind_core_def ascii_digit_def)
qed (rule assms(4))

abbreviation port_lease ::
  "lease_world \<Rightarrow> string \<times> rat \<times> (string, pyval) dict \<Rightarrow> int option \<Rightarrow> string option \<Rightarrow> string \<Rightarrow> resource_lease" where
  "port_lease W a pid identity \<equiv> \<lambda>key. new_lease W ''port'' key (fst a) (fst (snd a)) pid identity (snd (snd a))"

lemma acquire_port_scan:
  assumes "lease_table_ok T" and "port_request owner ttl meta (low, high) a"
  obtains r T' where "scan_result W (port_lease W a pid identity) (find (port_open W T) [low..high]) T T'"
    and "acquire_port W owner ttl pid identity meta (low, high) T =
      (case lease_txn W (\<lambda>_. (Inr (find (port_open W T) [low..high]), T')) T of
         (Inl e, T1) \<Rightarrow> (Inl e, T1)
       | (Inr (Some p), T1) \<Rightarrow> (Inr (port_lease W a pid identity (dec_nat (nat p))), T1)
       | (Inr None, T1) \<Rightarrow> (Inl (LeaseExhausted (''no free port in '' @ py_str_int low @ ''-'' @ py_str_int high)), T1))"
proof -
  let ?hk = "map (snd \<circ> fst) (filter (\<lambda>((k, _), _). k = ''port'') T)"
  obtain r T' where run: "scan_ports W ?hk (port_lease W a pid identity) [low..high] T = (r, T')" by fastforce
  have lh: "1024 \<le> low" "low \<le> high" "high \<le> 65535"
    using assms(2) by (auto simp: port_request_def validate_port_range_Inr split: prod.splits)
  have hk: "s \<in> set ?hk" if "map_of T (''port'', s) \<noteq> None" for s
    using that by (force dest: map_of_SomeD)
  have res: "r = map_option (\<lambda>p. port_lease W a pid identity (dec_nat (nat p))) (find (port_open W T) [low..high])"
    "scan_result W (port_lease W a pid identity) (find (port_open W T) [low..high]) T T'"
    using scan_ports_finds[OF assms(1) hk _ _ run] lh by auto
  obtain w t m where a: "a = (w, t, m)" by (cases a)
  have "acquire_port W owner ttl pid identity meta (low, high) T =
      (case lease_txn W (\<lambda>_. (Inr (find (port_open W T) [low..high]), T')) T of
         (Inl e, T1) \<Rightarrow> (Inl e, T1)
       | (Inr (Some p), T1) \<Rightarrow> (Inr (port_lease W a pid identity (dec_nat (nat p))), T1)
       | (Inr None, T1) \<Rightarrow> (Inl (LeaseExhausted (''no free port in '' @ py_str_int low @ ''-'' @ py_str_int high)), T1))"
    using assms(2) run res(1)
    by (simp add: a acquire_port_def port_request_def lease_txn_def split: option.split)
  with res(2) show thesis by (rule that)
qed

lemma acquire_port_good:
  assumes "lease_table_ok T" and "acquire_port W owner ttl pid identity meta ports T = (r, T')"
  shows "good_op W Q T T'"
proof (cases "\<exists>a. port_request owner ttl meta ports a")
  case True
  obtain low high where ports: "ports = (low, high)" by (cases ports)
  with True obtain a where a: "port_request owner ttl meta (low, high) a" by blast
  then have lh: "1024 \<le> low" "high \<le> 65535" "ttl_ok (fst (snd a))"
    by (auto simp: port_request_def validate_port_range_Inr dest: validate_ttl_ok split: prod.splits)
  obtain T1 where sc: "scan_result W (port_lease W a pid identity) (find (port_open W T) [low..high]) T T1"
    and eq: "acquire_port W owner ttl pid identity meta (low, high) T =
      (case lease_txn W (\<lambda>_. (Inr (find (port_open W T) [low..high]), T1)) T of
         (Inl e, T1) \<Rightarrow> (Inl e, T1)
       | (Inr (Some p), T1) \<Rightarrow> (Inr (port_lease W a pid identity (dec_nat (nat p))), T1)
       | (Inr None, T1) \<Rightarrow> (Inl (LeaseExhausted (''no free port in '' @ py_str_int low @ ''-'' @ py_str_int high)), T1))"
    by (rule acquire_port_scan[OF assms(1) a])
  have good: "good_op W Q T T1"
    by (rule scan_good[OF sc]) (use lh in \<open>auto intro!: port_row[of _ low high] dest!: find_in\<close>)
  have "T' = T \<or> T' = T1"
    using assms(2) unfolding ports eq lease_txn_def by (auto split: option.splits)
  then show ?thesis using good assms(1) by (auto simp: good_op_refl)
next
  case False
  then have "T' = T"
    using assms(2)
    by (auto simp: acquire_port_def port_request_def validate_port_range_Inr split: sum.splits prod.splits)
  then show ?thesis by (simp add: good_op_refl assms(1))
qed

section \<open>Properties\<close>

lemma exn_of_eq: "exn_of r = (e, T') \<Longrightarrow> \<exists>x. r = (x, T')"
  by (cases r) (simp add: exn_of_def)

lemma read_kept:
  "lease_holder W kind key T = (r, T') \<Longrightarrow> T' = T" "leases_of W k T = (r', T') \<Longrightarrow> T' = T"
  by (auto simp: lease_holder_def leases_of_def lease_txn_def split: sum.splits option.splits)

lemma lease_exec_good:
  assumes "lease_table_ok T" and "0 < lw_now W" and "lease_exec W act T = (e, T')"
  shows "good_op W (releases act) T T'"
  using assms
  by (cases act)
    (auto dest!: exn_of_eq read_kept intro: acquire_good acquire_port_good heartbeat_good release_good sweep_good
      good_op_refl)

interpretation lease_runs: invariant_system lease_step lease_table_ok
proof unfold_locales
  fix T T' and e :: "lease_world \<times> lease_op"
  assume "lease_step T e T'" "lease_table_ok T"
  then show "lease_table_ok T'"
    by (cases e) (auto simp: lease_step_iff good_op_def dest: lease_exec_good)
qed

text \<open>
  (C33) Invariant of the lease table: whatever sequence of operations ran on an empty store, each with its own
  clock, processes and ports, every resource has at most one lease, stored under the kind and the key it names;
  a port lease is keyed by the canonical decimal of a port between 1024 and 65535, so that no two leases are for
  one port; every TTL lies between a second and a week, and a lease expires one TTL after its last heartbeat.
\<close>

theorem lease_table_invariant:
  assumes "run_of lease_step [] es T"
  shows "distinct (map fst T)
    \<and> (\<forall>kind key l. ((kind, key), l) \<in> set T \<longrightarrow>
         rl_kind l = kind \<and> rl_key l = key \<and> 1 \<le> rl_ttl_seconds l \<and> rl_ttl_seconds l \<le> 604800
         \<and> rl_expires_at l = rl_heartbeat_at l + rl_ttl_seconds l
         \<and> (kind = ''port'' \<longrightarrow> (\<exists>port. key = dec_nat port \<and> 1024 \<le> port \<and> port \<le> 65535)))
    \<and> (\<forall>l l' key key'. ((''port'', key), l) \<in> set T \<longrightarrow> ((''port'', key'), l') \<in> set T
         \<longrightarrow> decimal_value key = decimal_value key' \<longrightarrow> l = l')"
proof -
  have ok: "lease_table_ok T"
    by (rule lease_runs.inv_run[OF assms]) (simp add: lease_table_ok_def)
  have row: "row_ok ks l" if "(ks, l) \<in> set T" for ks l
    using ok that by (auto simp: lease_table_ok_def list_all_iff)
  have port: "key = dec_nat (decimal_value key)" if "((''port'', key), l) \<in> set T" for key l
    using row[OF that] by (simp add: row_ok_def key_ok_def)
  have "l = l'" if "((''port'', key), l) \<in> set T" "((''port'', key'), l') \<in> set T" "decimal_value key = decimal_value key'"
    for l l' key key'
  proof -
    have "key = key'" using port[OF that(1)] port[OF that(2)] that(3) by metis
    then show ?thesis using that(1,2) table_ok_dict[OF ok] by (metis map_of_is_SomeI option.inject)
  qed
  moreover have "rl_kind l = kind \<and> rl_key l = key \<and> 1 \<le> rl_ttl_seconds l \<and> rl_ttl_seconds l \<le> 604800
      \<and> rl_expires_at l = rl_heartbeat_at l + rl_ttl_seconds l
      \<and> (kind = ''port'' \<longrightarrow> (\<exists>port. key = dec_nat port \<and> 1024 \<le> port \<and> port \<le> 65535))"
    if "((kind, key), l) \<in> set T" for kind key l
    using row[OF that] by (auto simp: row_ok_def key_ok_def ttl_ok_def)
  ultimately show ?thesis
    using table_ok_dict[OF ok] by blast
qed

definition sample_world :: "rat \<Rightarrow> int list \<Rightarrow> int list \<Rightarrow> string \<Rightarrow> lease_world" where
  "sample_world now dead taken token =
     \<lparr>lw_store = None, lw_commit = None, lw_now = now, lw_now_at = (\<lambda>_. now), lw_dead = (\<lambda>pid _. pid \<in> set dead),
      lw_port_free = (\<lambda>p. p \<notin> set taken), lw_path_exists = (\<lambda>_. False), lw_evidence = [], lw_token = token\<rparr>"

abbreviation sample_acquire :: lease_op where
  "sample_acquire \<equiv> OpAcquire (PyStr ''port'') (PyStr ''04700'') (PyStr ''A'') (PyInt 60) (Some 7) None NoMetadata"

definition sample_table :: lease_table where
  "sample_table = [((''port'', ''4700''), new_lease (sample_world 1 [] [] ''t1'') ''port'' ''4700'' ''A'' 60 (Some 7) None [])]"

lemmas sample_simps = sample_world_def sample_table_def new_lease_def stored_lease_def lease_txn_def put_lease_def
  held_row_def exn_of_def Let_def

lemma sample_digits:
  "dec_digit 0 = CHR ''0''" "dec_digit 4 = CHR ''4''" "dec_digit 6 = CHR ''6''" "dec_digit 7 = CHR ''7''"
  "dec_digit 9 = CHR ''9''" "dec_digit (Suc 0) = CHR ''1''"
  by code_simp+

lemma sample_dec: "decimal_value ''04700'' = 4700" "decimal_value ''4700'' = 4700" "dec_nat 4700 = ''4700''"
    "dec_nat 4701 = ''4701''" "dec_nat 4699 = ''4699''"
  by (simp_all add: decimal_value.simps dec_nat.simps sample_digits)

lemma sample_args:
  "acquire_args (PyStr ''port'') (PyStr ''04700'') (PyStr ''A'') (PyInt 60) NoMetadata = Inr (''port'', ''4700'', ''A'', 60, [])"
  "acquire_args (PyStr ''port'') (PyStr ''04700'') (PyStr ''B'') (PyInt 60) NoMetadata = Inr (''port'', ''4700'', ''B'', 60, [])"
  by (simp_all add: acquire_args_def validate_kind_def kind_match_def kind_core_def validate_text_def py_strip_def py_space_def
      validate_ttl_def float_of_int_def ttl_in_range_def validate_metadata_def port_key_def ascii_digit_def sample_dec
      validate_port_range_def less_eq_char_def)

lemma sample_step: "lease_step [] (sample_world 1 [] [] ''t1'', sample_acquire) sample_table"
  by (simp add: lease_step_iff acquire_lease_def sample_args acquire_body_def sample_simps sample_dec)

theorem lease_table_invariant_witness:
  "distinct (map fst sample_table) \<and> 1 \<le> rl_ttl_seconds (snd (hd sample_table))"
proof -
  have "run_of lease_step [] [(sample_world 1 [] [] ''t1'', sample_acquire)] sample_table"
    using sample_step by (simp add: run_of_Cons_iff run_of_Nil_iff)
  from lease_table_invariant[OF this] show ?thesis
    by (simp add: sample_table_def)
qed

definition spared :: "string \<times> string \<Rightarrow> lease_table \<Rightarrow> lease_world \<times> lease_op \<Rightarrow> bool" where
  "spared ks T e =
     (case map_of T ks of None \<Rightarrow> True | Some l \<Rightarrow> \<not> reclaimable (fst e) l \<and> \<not> releases (snd e) l)"

lemma spared_step:
  assumes "lease_step T e T'" and "spared ks T e" and "lease_table_ok T" and "map_of T ks = Some l"
  shows "\<exists>l'. map_of T' ks = Some l' \<and> same_tenure l l'"
proof -
  have "good_op (fst e) (releases (snd e)) T T'"
    using assms(1,3) by (cases e) (auto simp: lease_step_iff intro: lease_exec_good)
  then have "tenure_kept (\<lambda>l. reclaimable (fst e) l \<or> releases (snd e) l) T T' ks"
    unfolding good_op_def by blast
  then show ?thesis
    using assms(2,4) by (auto simp: tenure_kept_def spared_def split: option.splits)
qed

lemma spared_run:
  "run_of (\<lambda>T e T'. lease_step T e T' \<and> spared ks T e) T es T' \<Longrightarrow> lease_table_ok T \<Longrightarrow> map_of T ks = Some l
    \<Longrightarrow> \<exists>l'. map_of T' ks = Some l' \<and> same_tenure l l'"
proof (induction arbitrary: l rule: run_of.induct)
  case (run_Cons T e T1 es T')
  obtain l1 where "map_of T1 ks = Some l1" "same_tenure l l1"
    using spared_step run_Cons.hyps(1) run_Cons.prems by blast
  then show ?case
    using run_Cons.IH lease_runs.inv_step run_Cons.hyps(1) run_Cons.prems(1) by (meson same_tenure_trans)
qed simp

text \<open>
  (C19) No lease is stolen. Take any history of the store, a lease held in it, and any further history in which
  no operation is its owner's release of that resource, and no operation meets the lease reclaimable: its owner
  not proven dead and its TTL not expired at the clock reading of the operation, or nothing proving the resource
  cleaned up. Then the resource is still held under the same lease id, by the same owner and process, since the same
  moment, whatever the other workers acquired, scanned for, released or swept.
\<close>

theorem no_lease_is_stolen:
  assumes "run_of lease_step [] es T" and "map_of T (kind, key) = Some l"
    and "run_of (\<lambda>T e T'. lease_step T e T' \<and> spared (kind, key) T e) T es' T'"
  shows "\<exists>l'. map_of T' (kind, key) = Some l' \<and> rl_lease_id l' = rl_lease_id l \<and> rl_owner_id l' = rl_owner_id l
    \<and> rl_owner_pid l' = rl_owner_pid l \<and> rl_acquired_at l' = rl_acquired_at l"
proof -
  have "lease_table_ok T"
    by (rule lease_runs.inv_run[OF assms(1)]) (simp add: lease_table_ok_def)
  from spared_run[OF assms(3) this assms(2)] show ?thesis by (auto simp: same_tenure_def)
qed

abbreviation sample_acquire_other :: lease_op where
  "sample_acquire_other \<equiv> OpAcquire (PyStr ''port'') (PyStr ''04700'') (PyStr ''B'') (PyInt 60) (Some 8) None NoMetadata"

theorem no_lease_is_stolen_witness:
  "\<exists>l'. map_of sample_table (''port'', ''4700'') = Some l' \<and> rl_lease_id l' = ''rl-t1''"
proof -
  have run: "run_of lease_step [] [(sample_world 1 [] [] ''t1'', sample_acquire)] sample_table"
    using sample_step by (simp add: run_of_Cons_iff run_of_Nil_iff)
  have held: "map_of sample_table (''port'', ''4700'') = Some (snd (hd sample_table))"
    by (simp add: sample_table_def)
  have "spared (''port'', ''4700'') sample_table (sample_world 30 [] [] ''t2'', sample_acquire_other)"
    by (simp add: spared_def held releases_def reclaimable_def owner_dead_def sample_simps)
  moreover have "lease_step sample_table (sample_world 30 [] [] ''t2'', sample_acquire_other) sample_table"
    by (simp add: lease_step_iff acquire_lease_def sample_args acquire_body_def try_reclaim_eq reclaimable_def
        owner_dead_def sample_simps)
  ultimately have "run_of (\<lambda>T e T'. lease_step T e T' \<and> spared (''port'', ''4700'') T e) sample_table
      [(sample_world 30 [] [] ''t2'', sample_acquire_other)] sample_table"
    by (simp add: run_of_Cons_iff run_of_Nil_iff)
  from no_lease_is_stolen[OF run held this] show ?thesis
    by (simp add: sample_table_def new_lease_def sample_world_def)
qed

text \<open>
  (C32) A port request takes exactly the first port of the range that is open: it can be bound, and it is unleased or its lease
  is reclaimable. If there is one, the request returns a lease of that port for its owner, recorded as the row
  of the port, and the row it replaces, if any, was reclaimable; if there is none, the request raises
  \<^verbatim>\<open>RESOURCE_LEASE_EXHAUSTED\<close>. No other row is changed but by dropping reclaimable leases.
\<close>

theorem acquire_port_takes_first_open:
  assumes "run_of lease_step [] es T" and "lw_store W = None" and "lw_commit W = None"
    and "port_request owner ttl meta (low, high) (w, t, m)"
    and "acquire_port W owner ttl pid identity meta (low, high) T = (r, T')"
  shows "(case find (port_open W T) [low..high] of
       None \<Rightarrow> (\<exists>why. r = Inl (LeaseExhausted why))
     | Some port \<Rightarrow>
         (let l = new_lease W ''port'' (dec_nat (nat port)) w t pid identity m
          in r = Inr l \<and> map_of T' (''port'', dec_nat (nat port)) = Some (stored_lease l)))
    \<and> (\<forall>kind key. map_of T' (kind, key) = map_of T (kind, key)
         \<or> (case map_of T (kind, key) of None \<Rightarrow> True | Some l \<Rightarrow> reclaimable W l)
           \<and> (map_of T' (kind, key) = None \<or> (\<exists>port. find (port_open W T) [low..high] = Some port
                \<and> kind = ''port'' \<and> key = dec_nat (nat port))))"
proof -
  have ok: "lease_table_ok T"
    by (rule lease_runs.inv_run[OF assms(1)]) (simp add: lease_table_ok_def)
  let ?find = "find (port_open W T) [low..high]"
  let ?mk = "\<lambda>key. new_lease W ''port'' key w t pid identity m"
  obtain T2 where sc: "scan_result W ?mk ?find T T2"
    and eq: "acquire_port W owner ttl pid identity meta (low, high) T =
      (case lease_txn W (\<lambda>_. (Inr ?find, T2)) T of
         (Inl e, T1) \<Rightarrow> (Inl e, T1)
       | (Inr (Some p), T1) \<Rightarrow> (Inr (?mk (dec_nat (nat p))), T1)
       | (Inr None, T1) \<Rightarrow> (Inl (LeaseExhausted (''no free port in '' @ py_str_int low @ ''-'' @ py_str_int high)), T1))"
    by (rule acquire_port_scan[OF ok assms(4), unfolded fst_conv snd_conv])
  have T': "T' = T2"
    and r: "r = (case ?find of None \<Rightarrow> Inl (LeaseExhausted (''no free port in '' @ py_str_int low @ ''-'' @ py_str_int high))
       | Some p \<Rightarrow> Inr (?mk (dec_nat (nat p))))"
    using assms(5) unfolding eq lease_txn_def assms(2,3) by (auto split: option.splits)
  obtain gone T1 where T1: "map_of T1 = map_of T |` (- gone)"
    and why: "\<And>ks. ks \<in> gone \<Longrightarrow> \<exists>l. map_of T ks = Some l \<and> reclaimable W l"
    and fin: "case ?find of None \<Rightarrow> T2 = T1 | Some p \<Rightarrow> map_of T1 (port_home p) = None \<and> T2 = put_lease (?mk (dec_nat (nat p))) T1"
    using sc by (auto simp: scan_result_def reclaimed_from_def)
  have why': "case map_of T ks of None \<Rightarrow> True | Some l \<Rightarrow> reclaimable W l" if "ks \<in> gone" for ks
    using why[OF that] by auto
  show ?thesis
  proof (cases ?find)
    case None
    then show ?thesis using fin T' r T1 why' by (simp add: restrict_map_def)
  next
    case (Some p)
    have "map_of T' = (map_of T |` (- gone))(port_home p \<mapsto> stored_lease (?mk (dec_nat (nat p))))"
      using fin Some T' by (simp add: map_of_put T1)
    moreover have "case map_of T (port_home p) of None \<Rightarrow> True | Some l \<Rightarrow> reclaimable W l"
      using find_in[OF Some] by (simp add: port_open_def)
    ultimately show ?thesis using Some r why' by (simp add: restrict_map_def Let_def)
  qed
qed

theorem acquire_port_takes_first_open_witness:
  "\<exists>l T'. acquire_port (sample_world 30 [] [] ''t2'') (PyStr ''B'') (PyInt 60) (Some 8) None NoMetadata (4700, 4701) sample_table
     = (Inr l, T') \<and> rl_key l = ''4701'' \<and> map_of T' (''port'', ''4701'') = Some (stored_lease l)"
proof -
  let ?W = "sample_world 30 [] [] ''t2''"
  have run: "run_of lease_step [] [(sample_world 1 [] [] ''t1'', sample_acquire)] sample_table"
    using sample_step by (simp add: run_of_Cons_iff run_of_Nil_iff)
  have req: "port_request (PyStr ''B'') (PyInt 60) NoMetadata (4700, 4701) (''B'', 60, [])"
    by (simp add: port_request_def validate_text_def py_strip_def py_space_def validate_ttl_def float_of_int_def
        ttl_in_range_def validate_metadata_def validate_port_range_def)
  have up: "[4700..4701] = [4700, 4701::int]" by code_simp
  have "find (port_open ?W sample_table) [4700..4701] = Some 4701"
    by (simp add: up port_open_def sample_dec reclaimable_def owner_dead_def sample_simps)
  then show ?thesis
    using acquire_port_takes_first_open[OF run, of ?W "PyStr ''B''" "PyInt 60" NoMetadata 4700 4701 "''B''" 60 "[]" "Some 8" None]
      req by (cases "acquire_port ?W (PyStr ''B'') (PyInt 60) (Some 8) None NoMetadata (4700, 4701) sample_table")
        (simp add: sample_dec sample_world_def new_lease_def Let_def)
qed

text \<open>An operation that raises changes nothing, but for the reclaims an exhausted port scan has committed.\<close>

lemma txn_error: "lease_txn W body T = (Inl e, T') \<Longrightarrow> T' = T"
  by (auto simp: lease_txn_def split: option.splits prod.splits sum.splits)

lemma exn_of_Some: "exn_of r = (Some e, T') \<Longrightarrow> r = (Inl e, T')"
  by (cases r) (auto simp: exn_of_def split: sum.splits)

lemma failed_operation_keeps_table:
  assumes "lease_exec W act T = (Some e, T')" and "\<And>why. e \<noteq> LeaseExhausted why"
  shows "T' = T"
proof (cases act)
  case (OpAcquirePort owner ttl pid identity meta ports)
  then show ?thesis
    using assms by (auto simp: acquire_port_def dest!: exn_of_Some txn_error split: sum.splits prod.splits option.splits)
qed (use assms in \<open>auto simp: acquire_lease_def heartbeat_lease_def release_lease_def sweep_leases_def lease_holder_def
       leases_of_def dest!: exn_of_Some txn_error split: sum.splits prod.splits option.splits\<close>)

text \<open>
  The pattern of a kind ends in \<^verbatim>\<open>$\<close>, which also matches before a final newline, so that a privileged port can be leased
  under a kind the port rules do not see.
\<close>

lemma newline_kind_escapes_port_rules:
  "acquire_args (PyStr (''port'' @ [CHR 0x0A])) (PyStr ''80'') (PyStr ''A'') (PyInt 60) NoMetadata
     = Inr (''port'' @ [CHR 0x0A], ''80'', ''A'', 60, [])"
  by (simp add: acquire_args_def validate_kind_def kind_match_def kind_core_def validate_text_def py_strip_def py_space_def
      validate_ttl_def float_of_int_def ttl_in_range_def validate_metadata_def less_eq_char_def)

end
