(* ===== verification/ComputeFabric.thy ===== *)
theory ComputeFabric
  imports JsonValue Float64
begin

text \<open>
  \<^verbatim>\<open>sonder_runtime/domain/compute_fabric.py\<close> and \<^verbatim>\<open>domain/compute_profiles.py\<close>: the nodes of the compute fabric, what is
  known of them, what a workload asks for, and the scheduler that places a whole workload on one node. The
  validating constructors take Python values; a member of an enumeration is an option, \<open>None\<close> being an object of
  another type, and a frozenset is a list without repetitions. An aware datetime is its UTC instant in
  microseconds (dates whose UTC form leaves the years 1 to 9999 are left out). \<open>sha\<close> is the digest of the canonical JSON text
  of a value, \<open>iso_of\<close> the ISO form of an instant.
\<close>

section \<open>Enumerations and validation\<close>

datatype workload_kind =
    WkBuild | WkTest | WkIndex | WkAnalysis | WkFuzz | WkEmbedding | WkTraining | WkRender | WkEncode | WkService
  | WkContainer | WkStorage | WkInference

datatype compute_capability =
    CapCpu | CapRam | CapCuda | CapOllama | CapLlamacpp | CapDocker | CapPodman | CapKvm | CapCmake | CapMsvc | CapClang
  | CapClangd | CapClangTidy | CapSccache | CapDistcc | CapPytest | CapEmbeddings | CapQlora | CapFfmpeg | CapBlender
  | CapStorage | CapDatabase

datatype node_health = HealthUnknown | Healthy | Unhealthy

datatype placement_policy = LocalOnly | PreferRemote | RankAll

fun workload_value :: "workload_kind \<Rightarrow> string" where
  "workload_value WkBuild = ''build''"
| "workload_value WkTest = ''test''"
| "workload_value WkIndex = ''index''"
| "workload_value WkAnalysis = ''analysis''"
| "workload_value WkFuzz = ''fuzz''"
| "workload_value WkEmbedding = ''embedding''"
| "workload_value WkTraining = ''training''"
| "workload_value WkRender = ''render''"
| "workload_value WkEncode = ''encode''"
| "workload_value WkService = ''service''"
| "workload_value WkContainer = ''container''"
| "workload_value WkStorage = ''storage''"
| "workload_value WkInference = ''inference''"

fun capability_value :: "compute_capability \<Rightarrow> string" where
  "capability_value CapCpu = ''cpu''"
| "capability_value CapRam = ''ram''"
| "capability_value CapCuda = ''cuda''"
| "capability_value CapOllama = ''ollama''"
| "capability_value CapLlamacpp = ''llamacpp''"
| "capability_value CapDocker = ''docker''"
| "capability_value CapPodman = ''podman''"
| "capability_value CapKvm = ''kvm''"
| "capability_value CapCmake = ''cmake''"
| "capability_value CapMsvc = ''msvc''"
| "capability_value CapClang = ''clang''"
| "capability_value CapClangd = ''clangd''"
| "capability_value CapClangTidy = ''clang-tidy''"
| "capability_value CapSccache = ''sccache''"
| "capability_value CapDistcc = ''distcc''"
| "capability_value CapPytest = ''pytest''"
| "capability_value CapEmbeddings = ''embeddings''"
| "capability_value CapQlora = ''qlora''"
| "capability_value CapFfmpeg = ''ffmpeg''"
| "capability_value CapBlender = ''blender''"
| "capability_value CapStorage = ''storage''"
| "capability_value CapDatabase = ''database''"

fun health_value :: "node_health \<Rightarrow> string" where
  "health_value HealthUnknown = ''unknown''"
| "health_value Healthy = ''healthy''"
| "health_value Unhealthy = ''unhealthy''"

fun policy_value :: "placement_policy \<Rightarrow> string" where
  "policy_value LocalOnly = ''local-only''"
| "policy_value PreferRemote = ''prefer-remote''"
| "policy_value RankAll = ''rank-all''"

definition cf_identity_match :: "string \<Rightarrow> bool" where
  \<comment> \<open>\<^verbatim>\<open>[A-Za-z0-9][A-Za-z0-9._-]{0,127}\<close> as a full match\<close>
  "cf_identity_match s =
     (case s of [] \<Rightarrow> False
      | c # cs \<Rightarrow> ascii_alnum c \<and> length cs \<le> 127 \<and> list_all (\<lambda>d. ascii_alnum d \<or> d \<in> set ''._-'') cs)"

definition require_identity :: "pyval \<Rightarrow> string \<Rightarrow> string res" where
  "require_identity v label =
     (case v of
        PyStr s \<Rightarrow> if cf_identity_match s then Inr s else Inl (ValueError (label @ '' must be a bounded stable identity''))
      | _ \<Rightarrow> Inl (ValueError (label @ '' must be a bounded stable identity'')))"

definition opt_nonneg :: "pyval \<Rightarrow> string \<Rightarrow> int option res" where
  "opt_nonneg v label =
     (case v of
        PyNone \<Rightarrow> Inr None
      | PyInt n \<Rightarrow> if n < 0 then Inl (ValueError (label @ '' must be a non-negative integer or None'')) else Inr (Some n)
      | _ \<Rightarrow> Inl (ValueError (label @ '' must be a non-negative integer or None'')))"

text \<open>A number that may be an int or a finite float keeps its type, which its JSON form shows.\<close>

datatype number = NumInt int | NumFloat rat

fun num_of :: "number \<Rightarrow> rat" where
  "num_of (NumInt n) = of_int n"
| "num_of (NumFloat x) = x"

fun num_json :: "number \<Rightarrow> json" where
  "num_json (NumInt n) = JInt n"
| "num_json (NumFloat x) = JFloat (Finite x)"

definition finite_number :: "pyval \<Rightarrow> rat \<Rightarrow> rat \<Rightarrow> string \<Rightarrow> string \<Rightarrow> number res" where
  \<comment> \<open>an int or float that is finite as a float and within the bounds\<close>
  "finite_number v low high kind_error range_error =
     (case v of
        PyInt n \<Rightarrow> rbind (float_of_int n) (\<lambda>x. if low \<le> x \<and> x \<le> high then Inr (NumInt n) else Inl (ValueError range_error))
      | PyFloat (Finite x) \<Rightarrow> if low \<le> x \<and> x \<le> high then Inr (NumFloat x) else Inl (ValueError range_error)
      | PyFloat _ \<Rightarrow> Inl (ValueError range_error)
      | _ \<Rightarrow> Inl (ValueError kind_error))"

definition opt_fraction :: "pyval \<Rightarrow> string \<Rightarrow> number option res" where
  "opt_fraction v label =
     (if v = PyNone then Inr None
      else rbind (finite_number v 0 1 (label @ '' must be a finite fraction or None'') (label @ '' must be between 0 and 1''))
             (\<lambda>x. Inr (Some x)))"

datatype py_time = Utc int | NaiveTime

definition aware_utc :: "py_time \<Rightarrow> string \<Rightarrow> int res" where
  "aware_utc t label = (case t of Utc i \<Rightarrow> Inr i | NaiveTime \<Rightarrow> Inl (ValueError (label @ '' must be timezone-aware'')))"

definition members :: "'e option list \<Rightarrow> string \<Rightarrow> 'e list res" where
  "members xs err = (if None \<in> set xs then Inl (ValueError err) else Inr (remdups (map the xs)))"

section \<open>Resources and nodes\<close>

record node_resources =
  nr_cpu_count :: "int option"
  nr_total_ram_bytes :: "int option"
  nr_free_ram_bytes :: "int option"
  nr_total_disk_bytes :: "int option"
  nr_free_disk_bytes :: "int option"
  nr_total_vram_bytes :: "int option"
  nr_free_vram_bytes :: "int option"
  nr_load_fraction :: "number option"
  nr_gpu_utilization_fraction :: "number option"

definition free_within :: "int option \<Rightarrow> int option \<Rightarrow> string \<Rightarrow> string \<Rightarrow> unit res" where
  "free_within free tot free_name total_name =
     (case (free, tot) of
        (Some f, Some t) \<Rightarrow> if t < f then Inl (ValueError (free_name @ '' cannot exceed '' @ total_name)) else Inr ()
      | _ \<Rightarrow> Inr ())"

definition mk_node_resources ::
  "pyval \<Rightarrow> pyval \<Rightarrow> pyval \<Rightarrow> pyval \<Rightarrow> pyval \<Rightarrow> pyval \<Rightarrow> pyval \<Rightarrow> pyval \<Rightarrow> pyval \<Rightarrow> node_resources res" where
  "mk_node_resources cpu total_ram free_ram total_disk free_disk total_vram free_vram load gpu =
     rbind (opt_nonneg cpu ''cpu_count'') (\<lambda>c.
     rbind (opt_nonneg total_ram ''total_ram_bytes'') (\<lambda>tr.
     rbind (opt_nonneg free_ram ''free_ram_bytes'') (\<lambda>fr.
     rbind (opt_nonneg total_disk ''total_disk_bytes'') (\<lambda>td.
     rbind (opt_nonneg free_disk ''free_disk_bytes'') (\<lambda>fd.
     rbind (opt_nonneg total_vram ''total_vram_bytes'') (\<lambda>tv.
     rbind (opt_nonneg free_vram ''free_vram_bytes'') (\<lambda>fv.
     rbind (if c = Some 0 then Inl (ValueError ''cpu_count must be positive when known'') else Inr ()) (\<lambda>_.
     rbind (opt_fraction load ''load_fraction'') (\<lambda>l.
     rbind (opt_fraction gpu ''gpu_utilization_fraction'') (\<lambda>g.
     rbind (free_within fr tr ''free_ram_bytes'' ''total_ram_bytes'') (\<lambda>_.
     rbind (free_within fd td ''free_disk_bytes'' ''total_disk_bytes'') (\<lambda>_.
     rbind (free_within fv tv ''free_vram_bytes'' ''total_vram_bytes'') (\<lambda>_.
       Inr \<lparr>nr_cpu_count = c, nr_total_ram_bytes = tr, nr_free_ram_bytes = fr, nr_total_disk_bytes = td,
            nr_free_disk_bytes = fd, nr_total_vram_bytes = tv, nr_free_vram_bytes = fv, nr_load_fraction = l,
            nr_gpu_utilization_fraction = g\<rparr>)))))))))))))"

definition no_resources :: node_resources where
  "no_resources =
     \<lparr>nr_cpu_count = None, nr_total_ram_bytes = None, nr_free_ram_bytes = None, nr_total_disk_bytes = None,
      nr_free_disk_bytes = None, nr_total_vram_bytes = None, nr_free_vram_bytes = None, nr_load_fraction = None,
      nr_gpu_utilization_fraction = None\<rparr>"

definition opt_json :: "('a \<Rightarrow> json) \<Rightarrow> 'a option \<Rightarrow> json" where
  "opt_json f v = (case v of None \<Rightarrow> JNull | Some x \<Rightarrow> f x)"

definition resources_dict :: "node_resources \<Rightarrow> json" where
  "resources_dict r =
     JObj [(''cpu_count'', opt_json JInt (nr_cpu_count r)), (''total_ram_bytes'', opt_json JInt (nr_total_ram_bytes r)),
       (''free_ram_bytes'', opt_json JInt (nr_free_ram_bytes r)), (''total_disk_bytes'', opt_json JInt (nr_total_disk_bytes r)),
       (''free_disk_bytes'', opt_json JInt (nr_free_disk_bytes r)), (''total_vram_bytes'', opt_json JInt (nr_total_vram_bytes r)),
       (''free_vram_bytes'', opt_json JInt (nr_free_vram_bytes r)), (''load_fraction'', opt_json num_json (nr_load_fraction r)),
       (''gpu_utilization_fraction'', opt_json num_json (nr_gpu_utilization_fraction r))]"

record compute_node =
  cn_node_id :: string
  cn_origin :: "string option"
  cn_local :: bool
  cn_allowed_workloads :: "workload_kind list"
  cn_configured_capabilities :: "compute_capability list"
  cn_workspace_mappings :: "string list"
  cn_preference_weight :: rat

definition host_match :: "string \<Rightarrow> bool" where
  \<comment> \<open>\<^verbatim>\<open>\[[0-9A-Fa-f:.]+\]|[A-Za-z0-9._-]+\<close>\<close>
  "host_match h =
     (h \<noteq> [] \<and> list_all (\<lambda>c. ascii_alnum c \<or> c \<in> set ''._-'') h
      \<or> 3 \<le> length h \<and> hd h = CHR ''['' \<and> last h = CHR '']''
        \<and> list_all (\<lambda>c. ascii_digit c \<or> c \<in> set ''ABCDEFabcdef:.'') (butlast (tl h)))"

definition https_origin :: "string \<Rightarrow> nat option" where
  \<comment> \<open>the port of \<^verbatim>\<open>https://host:port\<close> or \<^verbatim>\<open>https://host:port/\<close>; the port follows the last colon\<close>
  "https_origin s =
     (if take 8 s \<noteq> ''https://'' then None
      else let r = drop 8 s;
               r = (if r \<noteq> [] \<and> last r = CHR ''/'' then butlast r else r);
               parts = split_on (CHR '':'') r;
               port = last parts
           in if 2 \<le> length parts \<and> port \<noteq> [] \<and> length port \<le> 5 \<and> list_all ascii_digit port
                \<and> host_match (py_join '':'' (butlast parts))
              then Some (decimal_value port) else None)"

definition check_origin :: "bool \<Rightarrow> pyval \<Rightarrow> string option res" where
  "check_origin is_local origin =
     (if is_local then
        if origin = PyNone then Inr None else Inl (ValueError ''local nodes must not define an origin'')
      else case origin of
        PyStr s \<Rightarrow>
          (case https_origin s of
             None \<Rightarrow> if CHR ''@'' \<in> set s
                     then Inl (ValueError ''remote node origins must not contain inline credentials'')
                     else Inl (ValueError ''remote nodes require an HTTPS origin with an explicit port'')
           | Some port \<Rightarrow> if 1 \<le> port \<and> port \<le> 65535 then Inr (Some s)
                          else Inl (ValueError ''remote nodes require a valid HTTPS port''))
      | _ \<Rightarrow> Inl (ValueError ''remote nodes require an HTTPS origin''))"

definition mk_compute_node ::
  "pyval \<Rightarrow> pyval \<Rightarrow> pyval \<Rightarrow> workload_kind option list \<Rightarrow> compute_capability option list \<Rightarrow> pyval list \<Rightarrow> pyval
     \<Rightarrow> compute_node res" where
  "mk_compute_node node_id origin is_local workloads capabilities mappings weight =
     rbind (require_identity node_id ''node_id'') (\<lambda>i.
     rbind (case is_local of PyBool b \<Rightarrow> Inr b | _ \<Rightarrow> Inl (ValueError ''local must be boolean'')) (\<lambda>b.
     rbind (if workloads = [] then Inl (ValueError ''allowed_workloads must not be empty'') else Inr ()) (\<lambda>_.
     rbind (members workloads ''allowed_workloads contains an unknown workload'') (\<lambda>ws.
     rbind (members capabilities ''configured_capabilities contains an unknown capability'') (\<lambda>cs.
     rbind (mapr (\<lambda>m. require_identity m ''workspace mapping'') mappings) (\<lambda>ms.
     rbind (finite_number weight (- 100) 100 ''preference_weight must be finite''
              ''preference_weight must be between -100 and 100'') (\<lambda>w.
     rbind (check_origin b origin) (\<lambda>org.
       Inr \<lparr>cn_node_id = i, cn_origin = org, cn_local = b, cn_allowed_workloads = ws, cn_configured_capabilities = cs,
            cn_workspace_mappings = remdups ms, cn_preference_weight = num_of w\<rparr>))))))))"

definition sorted_values :: "('a \<Rightarrow> string) \<Rightarrow> 'a list \<Rightarrow> json" where
  "sorted_values f xs = JArr (map JStr (sort (map f xs)))"

definition node_dict :: "compute_node \<Rightarrow> json" where
  "node_dict n =
     JObj [(''node_id'', JStr (cn_node_id n)), (''origin'', opt_json JStr (cn_origin n)), (''local'', JBool (cn_local n)),
       (''allowed_workloads'', sorted_values workload_value (cn_allowed_workloads n)),
       (''configured_capabilities'', sorted_values capability_value (cn_configured_capabilities n)),
       (''workspace_mappings'', sorted_values id (cn_workspace_mappings n)),
       (''preference_weight'', JFloat (Finite (cn_preference_weight n)))]"

section \<open>Snapshots\<close>

record node_snapshot =
  sn_node :: compute_node
  sn_observed_at :: int
  sn_received_at :: "int option"
  sn_health :: node_health
  sn_live_capabilities :: "compute_capability list"
  sn_advertised_workloads :: "workload_kind list"
  sn_resources :: node_resources
  sn_active_jobs :: "int option"
  sn_round_trip_ms :: "number option"
  sn_models :: "string list"
  sn_evidence_ref :: "string option"

definition model_ok :: "pyval \<Rightarrow> bool" where
  "model_ok v = (case v of PyStr s \<Rightarrow> s \<noteq> [] \<and> length s \<le> 256 | _ \<Rightarrow> False)"

definition str_of :: "pyval \<Rightarrow> string" where
  "str_of v = (case v of PyStr s \<Rightarrow> s | _ \<Rightarrow> [])"

definition mk_node_snapshot ::
  "compute_node option \<Rightarrow> py_time \<Rightarrow> py_time option \<Rightarrow> node_health option \<Rightarrow> compute_capability option list
     \<Rightarrow> workload_kind option list \<Rightarrow> node_resources \<Rightarrow> pyval \<Rightarrow> pyval \<Rightarrow> pyval list \<Rightarrow> pyval \<Rightarrow> node_snapshot res" where
  "mk_node_snapshot node observed_at received_at health capabilities workloads resources active_jobs round_trip models evidence =
     rbind (case node of None \<Rightarrow> Inl (ValueError ''node must be a ComputeNode'') | Some n \<Rightarrow> Inr n) (\<lambda>n.
     rbind (aware_utc observed_at ''observed_at'') (\<lambda>obs.
     rbind (case received_at of None \<Rightarrow> Inr None | Some t \<Rightarrow> rbind (aware_utc t ''received_at'') (\<lambda>i. Inr (Some i))) (\<lambda>rec.
     rbind (case health of None \<Rightarrow> Inl (ValueError ''health must be a NodeHealth'') | Some h \<Rightarrow> Inr h) (\<lambda>h.
     rbind (members capabilities ''live_capabilities contains an unknown capability'') (\<lambda>cs.
     rbind (members workloads ''advertised_workloads contains an unknown workload'') (\<lambda>ws.
     rbind (opt_nonneg active_jobs ''active_jobs'') (\<lambda>jobs.
     rbind (if round_trip = PyNone then Inr None
            else rbind (finite_number round_trip 0 3600000 ''round_trip_ms must be finite and bounded''
                          ''round_trip_ms must be finite and bounded'') (\<lambda>x. Inr (Some x))) (\<lambda>rtt.
     rbind (if 256 < length models \<or> \<not> list_all model_ok models
            then Inl (ValueError ''models must be a bounded tuple of identities'') else Inr (map str_of models)) (\<lambda>ms.
     rbind (case evidence of PyNone \<Rightarrow> Inr None
            | PyStr s \<Rightarrow> if 512 < length s then Inl (ValueError ''evidence_ref must be bounded'') else Inr (Some s)
            | _ \<Rightarrow> Inl (ValueError ''evidence_ref must be bounded'')) (\<lambda>ev.
       Inr \<lparr>sn_node = n, sn_observed_at = obs, sn_received_at = rec, sn_health = h, sn_live_capabilities = cs,
            sn_advertised_workloads = ws, sn_resources = resources, sn_active_jobs = jobs, sn_round_trip_ms = rtt,
            sn_models = ms, sn_evidence_ref = ev\<rparr>))))))))))"

definition effective_capabilities :: "node_snapshot \<Rightarrow> compute_capability list" where
  "effective_capabilities s =
     filter (\<lambda>c. c \<in> set (sn_live_capabilities s)) (cn_configured_capabilities (sn_node s))"

definition effective_workloads :: "node_snapshot \<Rightarrow> workload_kind list" where
  "effective_workloads s = filter (\<lambda>w. w \<in> set (sn_advertised_workloads s)) (cn_allowed_workloads (sn_node s))"

definition freshness_at :: "node_snapshot \<Rightarrow> int" where
  "freshness_at s = (case sn_received_at s of None \<Rightarrow> sn_observed_at s | Some r \<Rightarrow> min (sn_observed_at s) r)"

definition snapshot_dict :: "(int \<Rightarrow> string) \<Rightarrow> node_snapshot \<Rightarrow> json" where
  "snapshot_dict iso_of s =
     JObj [(''node'', node_dict (sn_node s)), (''observed_at'', JStr (iso_of (sn_observed_at s))),
       (''received_at'', opt_json (\<lambda>t. JStr (iso_of t)) (sn_received_at s)), (''health'', JStr (health_value (sn_health s))),
       (''live_capabilities'', sorted_values capability_value (sn_live_capabilities s)),
       (''advertised_workloads'', sorted_values workload_value (sn_advertised_workloads s)),
       (''resources'', resources_dict (sn_resources s)), (''active_jobs'', opt_json JInt (sn_active_jobs s)),
       (''round_trip_ms'', opt_json num_json (sn_round_trip_ms s)), (''models'', JArr (map JStr (sn_models s))),
       (''evidence_ref'', opt_json JStr (sn_evidence_ref s))]"

definition snapshot_digest :: "(json \<Rightarrow> string) \<Rightarrow> (int \<Rightarrow> string) \<Rightarrow> node_snapshot \<Rightarrow> string" where
  "snapshot_digest sha iso_of s = sha (snapshot_dict iso_of s)"

section \<open>Requests\<close>

datatype policy_arg = NoPolicy | PolicyArg placement_policy | BadPolicy

record raw_request =
  raw_request_id :: pyval
  raw_kind :: "workload_kind option"
  raw_required_capabilities :: "compute_capability option list"
  raw_any_capabilities :: "compute_capability option list"
  raw_any_capability_groups :: "compute_capability option list option list option"
  raw_workspace_mapping :: pyval
  raw_min_free_ram_bytes :: pyval
  raw_min_free_disk_bytes :: pyval
  raw_min_free_vram_bytes :: pyval
  raw_max_load_fraction :: pyval
  raw_local_only :: pyval
  raw_allow_remote :: pyval
  raw_allow_local_fallback :: pyval
  raw_preferred_node_ids :: "pyval list"
  raw_avoided_node_ids :: "pyval list"
  raw_required_model :: pyval
  raw_idempotent :: pyval
  raw_background_preferred :: pyval
  raw_placement_policy :: policy_arg
  raw_priority :: pyval
  raw_max_queue_depth :: pyval

record workload_request =
  wr_request_id :: string
  wr_kind :: workload_kind
  wr_required_capabilities :: "compute_capability list"
  wr_any_capabilities :: "compute_capability list"
  wr_any_capability_groups :: "compute_capability list list"
  wr_workspace_mapping :: "string option"
  wr_min_free_ram_bytes :: "int option"
  wr_min_free_disk_bytes :: "int option"
  wr_min_free_vram_bytes :: "int option"
  wr_max_load_fraction :: "number option"
  wr_local_only :: bool
  wr_allow_remote :: bool
  wr_allow_local_fallback :: bool
  wr_preferred_node_ids :: "string list"
  wr_avoided_node_ids :: "string list"
  wr_required_model :: "string option"
  wr_idempotent :: bool
  wr_background_preferred :: bool
  wr_placement_policy :: "placement_policy option"
  wr_priority :: int
  wr_max_queue_depth :: "int option"

definition group_ok :: "compute_capability option list option \<Rightarrow> bool" where
  "group_ok g = (case g of None \<Rightarrow> False | Some xs \<Rightarrow> xs \<noteq> [] \<and> None \<notin> set xs)"

definition capability_groups :: "compute_capability option list option list option \<Rightarrow> compute_capability list list res" where
  "capability_groups v =
     (case v of
        None \<Rightarrow> Inl (ValueError ''any_capability_groups must contain bounded non-empty capability sets'')
      | Some gs \<Rightarrow>
          if 16 < length gs \<or> \<not> list_all group_ok gs
          then Inl (ValueError ''any_capability_groups must contain bounded non-empty capability sets'')
          else Inr (map (\<lambda>g. remdups (map the (the g))) gs))"

definition workload_flag :: "pyval \<Rightarrow> bool res" where
  "workload_flag v = (case v of PyBool b \<Rightarrow> Inr b | _ \<Rightarrow> Inl (ValueError ''workload flags must be boolean''))"

definition queue_depth :: "pyval \<Rightarrow> int option res" where
  "queue_depth v =
     rbind (opt_nonneg v ''max_queue_depth'') (\<lambda>d.
       case d of Some n \<Rightarrow> if 4096 < n then Inl (ValueError ''max_queue_depth must be at most 4096'') else Inr d
       | None \<Rightarrow> Inr d)"

definition mk_workload_request :: "raw_request \<Rightarrow> workload_request res" where
  "mk_workload_request r =
     rbind (require_identity (raw_request_id r) ''request_id'') (\<lambda>i.
     rbind (case raw_placement_policy r of NoPolicy \<Rightarrow> Inr None | PolicyArg p \<Rightarrow> Inr (Some p)
            | BadPolicy \<Rightarrow> Inl (ValueError ''placement_policy must be a PlacementPolicy or None'')) (\<lambda>pol.
     rbind (case raw_kind r of None \<Rightarrow> Inl (ValueError ''kind must be a WorkloadKind'') | Some k \<Rightarrow> Inr k) (\<lambda>k.
     rbind (members (raw_required_capabilities r) ''required_capabilities contains an unknown capability'') (\<lambda>req.
     rbind (members (raw_any_capabilities r) ''any_capabilities contains an unknown capability'') (\<lambda>any.
     rbind (capability_groups (raw_any_capability_groups r)) (\<lambda>groups.
     rbind (if raw_workspace_mapping r = PyNone then Inr None
            else rbind (require_identity (raw_workspace_mapping r) ''workspace_mapping'') (\<lambda>m. Inr (Some m))) (\<lambda>ws.
     rbind (opt_nonneg (raw_min_free_ram_bytes r) ''min_free_ram_bytes'') (\<lambda>ram.
     rbind (opt_nonneg (raw_min_free_disk_bytes r) ''min_free_disk_bytes'') (\<lambda>disk.
     rbind (opt_nonneg (raw_min_free_vram_bytes r) ''min_free_vram_bytes'') (\<lambda>vram.
     rbind (opt_fraction (raw_max_load_fraction r) ''max_load_fraction'') (\<lambda>load.
     rbind (case raw_priority r of PyInt n \<Rightarrow> if - 100 \<le> n \<and> n \<le> 100 then Inr n
              else Inl (ValueError ''priority must be within -100 and 100'')
            | _ \<Rightarrow> Inl (ValueError ''priority must be within -100 and 100'')) (\<lambda>pri.
     rbind (queue_depth (raw_max_queue_depth r)) (\<lambda>depth.
     rbind (mapr (\<lambda>v. require_identity v ''preferred_node_ids'') (raw_preferred_node_ids r)) (\<lambda>pref.
     rbind (mapr (\<lambda>v. require_identity v ''avoided_node_ids'') (raw_avoided_node_ids r)) (\<lambda>avoid.
     rbind (if set pref \<inter> set avoid \<noteq> {} then Inl (ValueError ''a node cannot be both preferred and avoided'') else Inr ()) (\<lambda>_.
     rbind (if raw_required_model r = PyNone then Inr None
            else if model_ok (raw_required_model r) then Inr (Some (str_of (raw_required_model r)))
            else Inl (ValueError ''required_model must be bounded'')) (\<lambda>model.
     rbind (mapr workload_flag [raw_local_only r, raw_allow_remote r, raw_allow_local_fallback r, raw_idempotent r,
              raw_background_preferred r]) (\<lambda>flags.
     rbind (if flags ! 0 \<and> flags ! 1 then Inl (ValueError ''local_only and allow_remote cannot both be enabled'') else Inr ()) (\<lambda>_.
     rbind (if flags ! 2 \<and> \<not> flags ! 1
            then Inl (ValueError ''local fallback only applies to remote-enabled workloads'') else Inr ()) (\<lambda>_.
       Inr \<lparr>wr_request_id = i, wr_kind = k, wr_required_capabilities = req, wr_any_capabilities = any,
            wr_any_capability_groups = groups, wr_workspace_mapping = ws, wr_min_free_ram_bytes = ram,
            wr_min_free_disk_bytes = disk, wr_min_free_vram_bytes = vram, wr_max_load_fraction = load,
            wr_local_only = flags ! 0, wr_allow_remote = flags ! 1, wr_allow_local_fallback = flags ! 2,
            wr_preferred_node_ids = remdups pref, wr_avoided_node_ids = remdups avoid, wr_required_model = model,
            wr_idempotent = flags ! 3, wr_background_preferred = flags ! 4, wr_placement_policy = pol, wr_priority = pri,
            wr_max_queue_depth = depth\<rparr>))))))))))))))))))))"

definition request_dict :: "workload_request \<Rightarrow> json" where
  "request_dict r =
     JObj ([(''request_id'', JStr (wr_request_id r))]
       @ (case wr_placement_policy r of None \<Rightarrow> [] | Some p \<Rightarrow> [(''placement_policy'', JStr (policy_value p))])
       @ [(''kind'', JStr (workload_value (wr_kind r))),
          (''required_capabilities'', sorted_values capability_value (wr_required_capabilities r)),
          (''any_capabilities'', sorted_values capability_value (wr_any_capabilities r)),
          (''any_capability_groups'', JArr (map (sorted_values capability_value) (wr_any_capability_groups r))),
          (''workspace_mapping'', opt_json JStr (wr_workspace_mapping r)),
          (''min_free_ram_bytes'', opt_json JInt (wr_min_free_ram_bytes r)),
          (''min_free_disk_bytes'', opt_json JInt (wr_min_free_disk_bytes r)),
          (''min_free_vram_bytes'', opt_json JInt (wr_min_free_vram_bytes r)),
          (''max_load_fraction'', opt_json num_json (wr_max_load_fraction r)),
          (''local_only'', JBool (wr_local_only r)), (''allow_remote'', JBool (wr_allow_remote r)),
          (''allow_local_fallback'', JBool (wr_allow_local_fallback r)),
          (''preferred_node_ids'', sorted_values id (wr_preferred_node_ids r)),
          (''avoided_node_ids'', sorted_values id (wr_avoided_node_ids r)),
          (''required_model'', opt_json JStr (wr_required_model r)), (''idempotent'', JBool (wr_idempotent r)),
          (''background_preferred'', JBool (wr_background_preferred r))]
       @ (if wr_priority r \<noteq> 0 then [(''priority'', JInt (wr_priority r))] else [])
       @ (case wr_max_queue_depth r of None \<Rightarrow> [] | Some n \<Rightarrow> [(''max_queue_depth'', JInt n)]))"

definition request_digest :: "(json \<Rightarrow> string) \<Rightarrow> workload_request \<Rightarrow> string" where
  "request_digest sha r = sha (request_dict r)"

section \<open>Placement\<close>

record candidate_decision =
  cd_node_id :: string
  cd_eligible :: bool
  cd_reason_code :: string
  cd_score :: "rat option"

record placement_explanation =
  pe_node_id :: string
  pe_eligible :: bool
  pe_selected :: bool
  pe_reason_code :: string
  pe_message :: string
  pe_score :: "rat option"
  pe_rank :: "nat option"

record placement_decision =
  pd_request_digest :: string
  pd_selected_node_id :: "string option"
  pd_candidates :: "candidate_decision list"
  pd_ranked_node_ids :: "string list"
  pd_snapshot_digests :: "(string \<times> string) list"

definition placement_reason_messages :: "(string, string) dict" where
  "placement_reason_messages =
     [(''node_avoided'', ''candidate was explicitly avoided''),
      (''unhealthy'', ''candidate health evidence is not healthy''),
      (''future_observation'', ''candidate evidence is from the future''),
      (''stale'', ''candidate evidence is older than the placement window''),
      (''workload_not_allowed'', ''candidate does not advertise this workload''),
      (''local_only'', ''request policy requires local execution''),
      (''remote_not_allowed'', ''remote execution consent is absent''),
      (''missing_capability'', ''candidate is missing a required capability''),
      (''missing_any_capability'', ''candidate matches none of the capability alternatives''),
      (''workspace_unavailable'', ''candidate does not expose the requested workspace''),
      (''model_unavailable'', ''candidate does not advertise the requested model''),
      (''ram_unknown'', ''candidate has no usable RAM measurement''),
      (''insufficient_ram'', ''candidate does not meet the RAM floor''),
      (''disk_unknown'', ''candidate has no usable disk measurement''),
      (''insufficient_disk'', ''candidate does not meet the disk floor''),
      (''vram_unknown'', ''candidate has no usable VRAM measurement''),
      (''insufficient_vram'', ''candidate does not meet the VRAM floor''),
      (''load_unknown'', ''candidate has no usable load measurement''),
      (''load_too_high'', ''candidate exceeds the requested load ceiling''),
      (''queue_full'', ''candidate queue is at the request's bounded depth''),
      (''eligible'', ''candidate satisfies the requested placement policy'')]"

definition rank_in :: "string \<Rightarrow> string list \<Rightarrow> nat option" where
  \<comment> \<open>the dictionary of the positions, in which a later position of an identity replaces an earlier one\<close>
  "rank_in i ids = map_of (rev (zip ids [1..<Suc (length ids)])) i"

definition explain :: "placement_decision \<Rightarrow> placement_explanation list" where
  "explain d =
     map (\<lambda>c. \<lparr>pe_node_id = cd_node_id c, pe_eligible = cd_eligible c,
               pe_selected = (Some (cd_node_id c) = pd_selected_node_id d), pe_reason_code = cd_reason_code c,
               pe_message = (case map_of placement_reason_messages (cd_reason_code c) of
                   None \<Rightarrow> ''candidate was rejected by a placement constraint'' | Some m \<Rightarrow> m),
               pe_score = cd_score c, pe_rank = rank_in (cd_node_id c) (pd_ranked_node_ids d)\<rparr>) (pd_candidates d)"

fun floor_rejection :: "(int option \<times> int option \<times> string \<times> string) list \<Rightarrow> string option res" where
  \<comment> \<open>comparing \<^verbatim>\<open>None > 0\<close> raises\<close>
  "floor_rejection [] = Inr None"
| "floor_rejection ((need, value, unknown, insufficient) # rest) =
     (case need of
        None \<Rightarrow> Inl (TypeError ''comparison with None'')
      | Some f \<Rightarrow>
          if 0 < f then
            (case value of None \<Rightarrow> Inr (Some unknown)
             | Some v \<Rightarrow> if v < f then Inr (Some insufficient) else floor_rejection rest)
          else floor_rejection rest)"

definition load_rejection :: "workload_request \<Rightarrow> node_resources \<Rightarrow> string option" where
  "load_rejection r res =
     (case wr_max_load_fraction r of
        None \<Rightarrow> None
      | Some most \<Rightarrow>
          (case nr_load_fraction res of
             None \<Rightarrow> Some ''load_unknown''
           | Some load \<Rightarrow> if num_of most < num_of load then Some ''load_too_high'' else None))"

definition resource_rejection :: "workload_request \<Rightarrow> node_resources \<Rightarrow> string option res" where
  "resource_rejection r res =
     rbind (floor_rejection
         [(wr_min_free_ram_bytes r, nr_free_ram_bytes res, ''ram_unknown'', ''insufficient_ram''),
          (wr_min_free_disk_bytes r, nr_free_disk_bytes res, ''disk_unknown'', ''insufficient_disk''),
          (wr_min_free_vram_bytes r, nr_free_vram_bytes res, ''vram_unknown'', ''insufficient_vram'')])
       (\<lambda>why. case why of Some w \<Rightarrow> Inr (Some w) | None \<Rightarrow> Inr (load_rejection r res))"

definition queue_full :: "workload_request \<Rightarrow> node_snapshot \<Rightarrow> bool res" where
  "queue_full r s =
     (case wr_max_queue_depth r of
        None \<Rightarrow> Inr False
      | Some d \<Rightarrow> (case sn_active_jobs s of None \<Rightarrow> Inl (TypeError ''comparison with None'') | Some n \<Rightarrow> Inr (d \<le> n)))"

definition py_round :: "nat \<Rightarrow> rat \<Rightarrow> rat" where
  \<comment> \<open>\<^verbatim>\<open>round\<close> of a float: the double next to the nearest decimal, ties to the even one\<close>
  "py_round digits x = fl64 (of_int (round_half_even (x * 10 ^ digits)) / 10 ^ digits)"

definition free_bonus :: "int option \<Rightarrow> rat \<Rightarrow> rat \<Rightarrow> rat \<Rightarrow> rat" where
  "free_bonus free cap weight score =
     (case free of None \<Rightarrow> score | Some n \<Rightarrow> fl64 (score + fl64 (min (fl64 (of_int n / 2 ^ 30)) cap * fl64 weight)))"

definition placement_score :: "workload_request \<Rightarrow> node_snapshot \<Rightarrow> int \<Rightarrow> rat" where
  \<comment> \<open>each operation rounds to a double; counts beyond the range of doubles, where Python raises, are left out\<close>
  "placement_score r s jobs =
     (let score = fl64 (cn_preference_weight (sn_node s));
          score = (if cn_node_id (sn_node s) \<in> set (wr_preferred_node_ids r) then fl64 (score + 100) else score);
          score = free_bonus (nr_free_ram_bytes (sn_resources s)) 256 (1 / 10) score;
          score = free_bonus (nr_free_disk_bytes (sn_resources s)) 4096 (1 / 1000) score;
          score = free_bonus (nr_free_vram_bytes (sn_resources s)) 256 (1 / 5) score;
          score = (case nr_load_fraction (sn_resources s) of None \<Rightarrow> score
                   | Some load \<Rightarrow> fl64 (score - fl64 (num_of load * (if wr_background_preferred r then 80 else 20))));
          score = fl64 (score - fl64 (fl64 (of_int jobs) * 5));
          score = (case sn_round_trip_ms s of None \<Rightarrow> score
                   | Some x \<Rightarrow> fl64 (score - fl64 (min (num_of x) 60000 * fl64 (1 / 1000))))
      in case wr_required_model r of None \<Rightarrow> score | Some m \<Rightarrow> if m \<in> set (sn_models s) then fl64 (score + 20) else score)"

definition structural_rejection :: "int \<Rightarrow> workload_request \<Rightarrow> node_snapshot \<Rightarrow> int \<Rightarrow> string option" where
  \<comment> \<open>the guards of \<^verbatim>\<open>_assess\<close> down to the queue depth, in their order\<close>
  "structural_rejection ttl r s now =
     (let node = sn_node s; caps = set (effective_capabilities s) in
      if cn_node_id node \<in> set (wr_avoided_node_ids r) then Some ''node_avoided''
      else if sn_health s \<noteq> Healthy then Some ''unhealthy''
      else if now + 5000000 < freshness_at s then Some ''future_observation''
      else if ttl < now - freshness_at s then Some ''stale''
      else if wr_kind r \<notin> set (effective_workloads s) then Some ''workload_not_allowed''
      else if (wr_local_only r \<or> wr_placement_policy r = Some LocalOnly) \<and> \<not> cn_local node then Some ''local_only''
      else if \<not> cn_local node \<and> \<not> wr_allow_remote r then Some ''remote_not_allowed''
      else if \<not> set (wr_required_capabilities r) \<subseteq> caps then Some ''missing_capability''
      else if wr_any_capabilities r \<noteq> [] \<and> set (wr_any_capabilities r) \<inter> caps = {} then Some ''missing_any_capability''
      else if list_ex (\<lambda>g. set g \<inter> caps = {}) (wr_any_capability_groups r) then Some ''missing_any_capability''
      else if (case wr_workspace_mapping r of None \<Rightarrow> False | Some m \<Rightarrow> m \<notin> set (cn_workspace_mappings node))
      then Some ''workspace_unavailable''
      else if (case wr_required_model r of None \<Rightarrow> False | Some m \<Rightarrow> m \<notin> set (sn_models s)) then Some ''model_unavailable''
      else None)"

definition assess :: "int \<Rightarrow> workload_request \<Rightarrow> node_snapshot \<Rightarrow> int \<Rightarrow> candidate_decision res" where
  "assess ttl r s now =
     (let i = cn_node_id (sn_node s);
          reject = (\<lambda>why. Inr \<lparr>cd_node_id = i, cd_eligible = False, cd_reason_code = why, cd_score = None\<rparr>) in
      case structural_rejection ttl r s now of
        Some why \<Rightarrow> reject why
      | None \<Rightarrow>
          rbind (queue_full r s) (\<lambda>full.
            if full then reject ''queue_full''
            else rbind (resource_rejection r (sn_resources s)) (\<lambda>why.
              case why of
                Some w \<Rightarrow> reject w
              | None \<Rightarrow>
                  (case sn_active_jobs s of
                     None \<Rightarrow> Inl (TypeError ''unsupported operand'')
                   | Some jobs \<Rightarrow> Inr \<lparr>cd_node_id = i, cd_eligible = True, cd_reason_code = ''eligible'',
                                     cd_score = Some (py_round 9 (placement_score r s jobs))\<rparr>))))"

definition snap_id :: "node_snapshot \<Rightarrow> string" where
  "snap_id s = cn_node_id (sn_node s)"

definition rank_key :: "candidate_decision \<Rightarrow> rat \<times> string" where
  "rank_key c = (- (case cd_score c of None \<Rightarrow> 0 | Some x \<Rightarrow> x), cd_node_id c)"

definition mk_scheduler :: "int option \<Rightarrow> int res" where
  \<comment> \<open>a time to live in microseconds, \<open>None\<close> for an object that is no \<^verbatim>\<open>timedelta\<close>\<close>
  "mk_scheduler ttl =
     (case ttl of
        None \<Rightarrow> Inl (ValueError ''snapshot_ttl must be positive'')
      | Some t \<Rightarrow>
          if t \<le> 0 then Inl (ValueError ''snapshot_ttl must be positive'')
          else if 3600 * 1000000 < t then Inl (ValueError ''snapshot_ttl must be at most one hour'') else Inr t)"

definition place ::
  "(json \<Rightarrow> string) \<Rightarrow> int \<Rightarrow> workload_request \<Rightarrow> node_snapshot list \<Rightarrow> py_time \<Rightarrow> (node_snapshot \<Rightarrow> string)
     \<Rightarrow> placement_decision res" where
  "place sha ttl r snapshots now digest_of =
     (if wr_kind r = WkInference then Inl (ValueError ''inference placement remains owned by the model gateway'')
      else rbind (aware_utc now ''now'') (\<lambda>current.
        let ordered = sort_key snap_id snapshots in
        if \<not> distinct (map snap_id ordered) then Inl (ValueError ''snapshots contain duplicate node identities'')
        else rbind (mapr (\<lambda>s. assess ttl r s current) ordered) (\<lambda>decisions.
          let ranked = map cd_node_id (sort_key rank_key (filter cd_eligible decisions)) in
          Inr \<lparr>pd_request_digest = request_digest sha r,
               pd_selected_node_id = (case ranked of [] \<Rightarrow> None | i # _ \<Rightarrow> Some i),
               pd_candidates = decisions, pd_ranked_node_ids = ranked,
               pd_snapshot_digests = map (\<lambda>s. (snap_id s, digest_of s)) ordered\<rparr>)))"

section \<open>Profiles\<close>

record workload_profile =
  wp_all_capabilities :: "compute_capability list"
  wp_any_capabilities :: "compute_capability list"
  wp_requires_workspace :: bool
  wp_requires_digest_bound_input :: bool
  wp_background_preferred :: bool

definition workload_profile_of ::
  "compute_capability list \<Rightarrow> compute_capability list \<Rightarrow> bool \<Rightarrow> bool \<Rightarrow> bool \<Rightarrow> workload_profile" where
  "workload_profile_of all_caps any_caps workspace digest_bound background =
     \<lparr>wp_all_capabilities = all_caps, wp_any_capabilities = any_caps, wp_requires_workspace = workspace,
      wp_requires_digest_bound_input = digest_bound, wp_background_preferred = background\<rparr>"

fun profile_for :: "workload_kind \<Rightarrow> workload_profile res" where
  "profile_for WkBuild = Inr (workload_profile_of [CapCpu] [CapCmake, CapMsvc, CapClang] True False False)"
| "profile_for WkTest = Inr (workload_profile_of [CapCpu] [] True False False)"
| "profile_for WkIndex = Inr (workload_profile_of [] [CapClangd] True False True)"
| "profile_for WkAnalysis = Inr (workload_profile_of [] [CapClangTidy, CapClang] True False False)"
| "profile_for WkFuzz = Inr (workload_profile_of [CapCpu] [] True False False)"
| "profile_for WkEmbedding = Inr (workload_profile_of [] [CapEmbeddings, CapOllama, CapLlamacpp] False False False)"
| "profile_for WkTraining = Inr (workload_profile_of [CapRam] [CapCuda, CapQlora] True False False)"
| "profile_for WkRender = Inr (workload_profile_of [CapBlender] [] True False False)"
| "profile_for WkEncode = Inr (workload_profile_of [] [CapFfmpeg] True False False)"
| "profile_for WkService = Inr (workload_profile_of [] [] True False False)"
| "profile_for WkContainer = Inr (workload_profile_of [] [CapDocker, CapPodman] True True False)"
| "profile_for WkStorage = Inr (workload_profile_of [CapStorage] [] True False True)"
| "profile_for WkInference = Inl (ValueError ''inference placement remains owned by the model gateway'')"

section \<open>What a placement guarantees\<close>

definition floor_met :: "int option \<Rightarrow> int option \<Rightarrow> bool" where
  "floor_met need value = (case need of None \<Rightarrow> False | Some f \<Rightarrow> f \<le> 0 \<or> (case value of None \<Rightarrow> False | Some v \<Rightarrow> f \<le> v))"

definition alternatives :: "workload_request \<Rightarrow> compute_capability list list" where
  "alternatives r = (if wr_any_capabilities r = [] then [] else [wr_any_capabilities r]) @ wr_any_capability_groups r"

definition meets_constraints :: "int \<Rightarrow> workload_request \<Rightarrow> node_snapshot \<Rightarrow> int \<Rightarrow> bool" where
  "meets_constraints ttl r s now =
     (snap_id s \<notin> set (wr_avoided_node_ids r) \<and> sn_health s = Healthy
      \<and> now - ttl \<le> freshness_at s \<and> freshness_at s \<le> now + 5000000
      \<and> wr_kind r \<in> set (effective_workloads s)
      \<and> (cn_local (sn_node s) \<or> wr_allow_remote r \<and> \<not> wr_local_only r \<and> wr_placement_policy r \<noteq> Some LocalOnly)
      \<and> set (wr_required_capabilities r) \<subseteq> set (effective_capabilities s)
      \<and> list_all (list_ex (\<lambda>c. c \<in> set (effective_capabilities s))) (alternatives r)
      \<and> (case wr_workspace_mapping r of None \<Rightarrow> True | Some m \<Rightarrow> m \<in> set (cn_workspace_mappings (sn_node s)))
      \<and> (case wr_required_model r of None \<Rightarrow> True | Some m \<Rightarrow> m \<in> set (sn_models s))
      \<and> (case wr_max_queue_depth r of None \<Rightarrow> True
         | Some d \<Rightarrow> (case sn_active_jobs s of None \<Rightarrow> False | Some n \<Rightarrow> n < d))
      \<and> floor_met (wr_min_free_ram_bytes r) (nr_free_ram_bytes (sn_resources s))
      \<and> floor_met (wr_min_free_disk_bytes r) (nr_free_disk_bytes (sn_resources s))
      \<and> floor_met (wr_min_free_vram_bytes r) (nr_free_vram_bytes (sn_resources s))
      \<and> (case wr_max_load_fraction r of None \<Rightarrow> True
         | Some most \<Rightarrow> (case nr_load_fraction (sn_resources s) of None \<Rightarrow> False | Some x \<Rightarrow> num_of x \<le> num_of most)))"

definition sized :: "workload_request \<Rightarrow> node_snapshot \<Rightarrow> bool" where
  \<comment> \<open>the floors and the job count are integers, as their annotations say\<close>
  "sized r s =
     (wr_min_free_ram_bytes r \<noteq> None \<and> wr_min_free_disk_bytes r \<noteq> None \<and> wr_min_free_vram_bytes r \<noteq> None
      \<and> sn_active_jobs s \<noteq> None)"

lemma guard_none: "((if b then Some x else y) = None) = (\<not> b \<and> y = None)"
  by simp

lemma effective_iff [simp]:
  "set (effective_capabilities s) = set (cn_configured_capabilities (sn_node s)) \<inter> set (sn_live_capabilities s)"
  "set (effective_workloads s) = set (cn_allowed_workloads (sn_node s)) \<inter> set (sn_advertised_workloads s)"
  by (auto simp: effective_capabilities_def effective_workloads_def)

lemma alternatives_met:
  "list_all (list_ex (\<lambda>c. c \<in> S)) (alternatives r) \<longleftrightarrow>
     (wr_any_capabilities r \<noteq> [] \<longrightarrow> set (wr_any_capabilities r) \<inter> S \<noteq> {})
     \<and> \<not> list_ex (\<lambda>g. set g \<inter> S = {}) (wr_any_capability_groups r)"
  by (auto simp: alternatives_def list_all_iff list_ex_iff)

lemma structural_none_iff:
  "structural_rejection ttl r s now = None \<longleftrightarrow>
     snap_id s \<notin> set (wr_avoided_node_ids r) \<and> sn_health s = Healthy
      \<and> now - ttl \<le> freshness_at s \<and> freshness_at s \<le> now + 5000000
      \<and> wr_kind r \<in> set (effective_workloads s)
      \<and> (cn_local (sn_node s) \<or> wr_allow_remote r \<and> \<not> wr_local_only r \<and> wr_placement_policy r \<noteq> Some LocalOnly)
      \<and> set (wr_required_capabilities r) \<subseteq> set (effective_capabilities s)
      \<and> list_all (list_ex (\<lambda>c. c \<in> set (effective_capabilities s))) (alternatives r)
      \<and> (case wr_workspace_mapping r of None \<Rightarrow> True | Some m \<Rightarrow> m \<in> set (cn_workspace_mappings (sn_node s)))
      \<and> (case wr_required_model r of None \<Rightarrow> True | Some m \<Rightarrow> m \<in> set (sn_models s))"
  unfolding structural_rejection_def Let_def guard_none alternatives_met snap_id_def
  by (simp only: not_less not_not option.case_distrib[of Not] algebra_simps) (auto split: option.splits)

lemma floor_rejection_step:
  "floor_rejection ((Some f, v, unknown, insufficient) # rest) =
     (if floor_met (Some f) v then floor_rejection rest
      else Inr (Some (if v = None then unknown else insufficient)))"
  by (auto simp: floor_met_def split: option.split)

definition floors_met :: "workload_request \<Rightarrow> node_snapshot \<Rightarrow> bool" where
  "floors_met r s =
     (floor_met (wr_min_free_ram_bytes r) (nr_free_ram_bytes (sn_resources s))
      \<and> floor_met (wr_min_free_disk_bytes r) (nr_free_disk_bytes (sn_resources s))
      \<and> floor_met (wr_min_free_vram_bytes r) (nr_free_vram_bytes (sn_resources s)))"

lemma resources_met:
  assumes "sized r s"
  shows "\<exists>why. resource_rejection r (sn_resources s) = Inr why
    \<and> (why = None \<longleftrightarrow> floors_met r s \<and> load_rejection r (sn_resources s) = None)"
proof -
  obtain a b c where "wr_min_free_ram_bytes r = Some a" "wr_min_free_disk_bytes r = Some b" "wr_min_free_vram_bytes r = Some c"
    using assms by (auto simp: sized_def)
  then show ?thesis
    by (auto simp: resource_rejection_def floors_met_def floor_rejection_step simp del: floor_rejection.simps(2))
qed

lemma meets_constraints_split:
  assumes "sn_active_jobs s = Some n"
  shows "meets_constraints ttl r s now \<longleftrightarrow>
    structural_rejection ttl r s now = None \<and> (case wr_max_queue_depth r of None \<Rightarrow> True | Some d \<Rightarrow> n < d)
    \<and> floors_met r s \<and> load_rejection r (sn_resources s) = None"
proof -
  have load: "load_rejection r (sn_resources s) = None \<longleftrightarrow>
      (case wr_max_load_fraction r of None \<Rightarrow> True
         | Some most \<Rightarrow> (case nr_load_fraction (sn_resources s) of None \<Rightarrow> False | Some x \<Rightarrow> num_of x \<le> num_of most))"
    by (auto simp: load_rejection_def split: option.splits)
  show ?thesis
    unfolding meets_constraints_def structural_none_iff load floors_met_def assms option.case(2) by argo
qed

lemma assess_sized:
  assumes "sized r s"
  shows "\<exists>c. assess ttl r s now = Inr c \<and> cd_node_id c = snap_id s
    \<and> (cd_eligible c \<longleftrightarrow> meets_constraints ttl r s now)
    \<and> (cd_eligible c \<longrightarrow> cd_score c = Some (py_round 9 (placement_score r s (the (sn_active_jobs s)))))"
proof -
  obtain n where n: "sn_active_jobs s = Some n" using assms by (auto simp: sized_def)
  obtain why where why: "resource_rejection r (sn_resources s) = Inr why"
    "why = None \<longleftrightarrow> floors_met r s \<and> load_rejection r (sn_resources s) = None"
    using resources_met[OF assms] by blast
  have full: "queue_full r s = Inr (\<not> (case wr_max_queue_depth r of None \<Rightarrow> True | Some d \<Rightarrow> n < d))"
    by (auto simp: queue_full_def n split: option.split)
  show ?thesis
    unfolding assess_def Let_def full why(1) meets_constraints_split[OF n] why(2)[symmetric]
    by (auto simp: n snap_id_def split: option.split)
qed

text \<open>Assessing a list of snapshots, and the ranking of those that are eligible.\<close>

definition decision_of :: "int \<Rightarrow> workload_request \<Rightarrow> int \<Rightarrow> node_snapshot \<Rightarrow> candidate_decision" where
  "decision_of ttl r now s = projr (assess ttl r s now)"

lemma decision_of:
  assumes "sized r s"
  shows "assess ttl r s now = Inr (decision_of ttl r now s)" "cd_node_id (decision_of ttl r now s) = snap_id s"
    "cd_eligible (decision_of ttl r now s) \<longleftrightarrow> meets_constraints ttl r s now"
    "meets_constraints ttl r s now \<Longrightarrow>
       cd_score (decision_of ttl r now s) = Some (py_round 9 (placement_score r s (the (sn_active_jobs s))))"
  using assess_sized[OF assms, of ttl now] by (auto simp: decision_of_def)

lemma mapr_ok: "(\<And>x. x \<in> set xs \<Longrightarrow> f x = Inr (g x)) \<Longrightarrow> mapr f xs = Inr (map g xs)"
  by (induction xs) auto

definition offer_key :: "workload_request \<Rightarrow> node_snapshot \<Rightarrow> rat \<times> string" where
  "offer_key r s = (- py_round 9 (placement_score r s (the (sn_active_jobs s))), snap_id s)"

lemma sort_key_cong_set:
  assumes "\<And>x. x \<in> set xs \<Longrightarrow> f x = g x"
  shows "sort_key f xs = sort_key g xs"
proof -
  have ins: "insort_key f x ys = insort_key g x ys" if "f x = g x" "\<And>y. y \<in> set ys \<Longrightarrow> f y = g y" for x ys
    using that by (induction ys) auto
  show ?thesis
    using assms
  proof (induction xs)
    case (Cons x xs)
    then show ?case using ins[of x "sort_key g xs"] by simp
  qed simp
qed

definition ranked_offers :: "int \<Rightarrow> workload_request \<Rightarrow> int \<Rightarrow> node_snapshot list \<Rightarrow> node_snapshot list" where
  \<comment> \<open>the reference: the snapshots that meet the constraints, best offer first\<close>
  "ranked_offers ttl r now snaps = sort_key (offer_key r) (filter (\<lambda>s. meets_constraints ttl r s now) snaps)"

lemma place_sized:
  assumes "wr_kind r \<noteq> WkInference" and "distinct (map snap_id snaps)" and "\<And>s. s \<in> set snaps \<Longrightarrow> sized r s"
  shows "\<exists>d. place sha ttl r snaps (Utc now) digest_of = Inr d
    \<and> pd_ranked_node_ids d = map snap_id (ranked_offers ttl r now (sort_key snap_id snaps))
    \<and> pd_selected_node_id d = (case pd_ranked_node_ids d of [] \<Rightarrow> None | i # _ \<Rightarrow> Some i)
    \<and> pd_candidates d = map (decision_of ttl r now) (sort_key snap_id snaps)"
proof -
  let ?o = "sort_key snap_id snaps" and ?dec = "decision_of ttl r now"
  have dist: "distinct (map snap_id ?o)" using assms(2) by (simp add: distinct_map)
  have run: "mapr (\<lambda>s. assess ttl r s now) ?o = Inr (map ?dec ?o)"
    by (rule mapr_ok) (simp add: decision_of(1) assms(3))
  let ?ok = "filter (\<lambda>s. meets_constraints ttl r s now) ?o"
  have "filter (\<lambda>s. cd_eligible (?dec s)) ?o = ?ok"
    by (rule filter_cong) (simp_all add: decision_of(3) assms(3))
  then have "filter cd_eligible (map ?dec ?o) = map ?dec ?ok"
    by (simp add: filter_map o_def)
  then have "sort_key rank_key (filter cd_eligible (map ?dec ?o)) = map ?dec (sort_key (rank_key \<circ> ?dec) ?ok)"
    by (simp add: sort_key_map o_def)
  also have "sort_key (rank_key \<circ> ?dec) ?ok = ranked_offers ttl r now ?o"
    unfolding ranked_offers_def
    by (rule sort_key_cong_set) (simp add: rank_key_def offer_key_def decision_of assms(3))
  finally have "map cd_node_id (sort_key rank_key (filter cd_eligible (map ?dec ?o)))
      = map snap_id (ranked_offers ttl r now ?o)"
    by (auto simp: decision_of(2) assms(3) ranked_offers_def)
  then show ?thesis
    using assms(1) dist by (simp add: place_def aware_utc_def Let_def run)
qed

lemma ranked_offers_set [simp]: "set (ranked_offers ttl r now snaps) = {s \<in> set snaps. meets_constraints ttl r s now}"
  by (simp add: ranked_offers_def)

lemma ranked_offers_first:
  assumes "ranked_offers ttl r now snaps = s # rest"
  shows "s \<in> set snaps" "meets_constraints ttl r s now"
    "s' \<in> set snaps \<Longrightarrow> meets_constraints ttl r s' now \<Longrightarrow> offer_key r s \<le> offer_key r s'"
proof -
  have mem: "x \<in> insert s (set rest) \<longleftrightarrow> x \<in> set snaps \<and> meets_constraints ttl r x now" for x
    using assms ranked_offers_set[of ttl r now snaps] by auto
  show "s \<in> set snaps" "meets_constraints ttl r s now" using mem[of s] by auto
  have "sorted (map (offer_key r) (s # rest))"
    using assms by (metis ranked_offers_def sorted_map_sort_key)
  then show "s' \<in> set snaps \<Longrightarrow> meets_constraints ttl r s' now \<Longrightarrow> offer_key r s \<le> offer_key r s'"
    using mem[of s'] by auto
qed

text \<open>
  (C37) Placement picks the best admissible node. For a workload other than inference, distinct nodes and integer job
  counts and floors, the scheduler returns a decision; the ranked nodes are exactly those that meet every hard
  constraint of the request; the selected node is one of them and no other has a better score, or an equal score and a
  smaller identity; and nothing is selected only if no node meets the constraints.
\<close>

theorem placement_is_best_offer:
  assumes "wr_kind r \<noteq> WkInference" and "distinct (map snap_id snaps)" and "\<And>s. s \<in> set snaps \<Longrightarrow> sized r s"
  shows "\<exists>d. place sha ttl r snaps (Utc now) digest_of = Inr d
    \<and> set (pd_ranked_node_ids d) = snap_id ` {s \<in> set snaps. meets_constraints ttl r s now}
    \<and> (case pd_selected_node_id d of
         None \<Rightarrow> \<not> (\<exists>s\<in>set snaps. meets_constraints ttl r s now)
       | Some i \<Rightarrow> \<exists>s\<in>set snaps. snap_id s = i \<and> meets_constraints ttl r s now
           \<and> (\<forall>s'\<in>set snaps. meets_constraints ttl r s' now \<longrightarrow> offer_key r s \<le> offer_key r s'))"
proof -
  obtain d where d: "place sha ttl r snaps (Utc now) digest_of = Inr d"
    "pd_ranked_node_ids d = map snap_id (ranked_offers ttl r now (sort_key snap_id snaps))"
    "pd_selected_node_id d = (case pd_ranked_node_ids d of [] \<Rightarrow> None | i # _ \<Rightarrow> Some i)"
    using place_sized[OF assms] by blast
  show ?thesis
  proof (cases "ranked_offers ttl r now (sort_key snap_id snaps)")
    case Nil
    then have "{s \<in> set snaps. meets_constraints ttl r s now} = {}"
      using ranked_offers_set[of ttl r now "sort_key snap_id snaps"] by simp
    then show ?thesis using d Nil by auto
  next
    case (Cons s rest)
    have "set (pd_ranked_node_ids d) = snap_id ` {s \<in> set snaps. meets_constraints ttl r s now}"
      unfolding d(2) set_map ranked_offers_set by simp
    moreover have "pd_selected_node_id d = Some (snap_id s)" using d(2,3) Cons by simp
    ultimately show ?thesis
      using d(1) ranked_offers_first[OF Cons] by auto
  qed
qed

definition sample_node :: "string \<Rightarrow> compute_node" where
  "sample_node i =
     \<lparr>cn_node_id = i, cn_origin = None, cn_local = True, cn_allowed_workloads = [WkTest], cn_configured_capabilities = [CapCpu],
      cn_workspace_mappings = [''repo''], cn_preference_weight = 0\<rparr>"

definition sample_snapshot :: "string \<Rightarrow> int \<Rightarrow> node_snapshot" where
  "sample_snapshot i jobs =
     \<lparr>sn_node = sample_node i, sn_observed_at = 100, sn_received_at = None, sn_health = Healthy,
      sn_live_capabilities = [CapCpu, CapCuda], sn_advertised_workloads = [WkTest, WkBuild], sn_resources = no_resources,
      sn_active_jobs = Some jobs, sn_round_trip_ms = None, sn_models = [], sn_evidence_ref = None\<rparr>"

definition sample_request :: workload_request where
  "sample_request =
     \<lparr>wr_request_id = ''r1'', wr_kind = WkTest, wr_required_capabilities = [CapCpu], wr_any_capabilities = [],
      wr_any_capability_groups = [], wr_workspace_mapping = Some ''repo'', wr_min_free_ram_bytes = Some 0,
      wr_min_free_disk_bytes = Some 0, wr_min_free_vram_bytes = Some 0, wr_max_load_fraction = None, wr_local_only = True,
      wr_allow_remote = False, wr_allow_local_fallback = False, wr_preferred_node_ids = [], wr_avoided_node_ids = [],
      wr_required_model = None, wr_idempotent = False, wr_background_preferred = False, wr_placement_policy = None,
      wr_priority = 0, wr_max_queue_depth = Some 4\<rparr>"

lemma sample_meets: "meets_constraints 30000000 sample_request (sample_snapshot i n) 200 \<longleftrightarrow> n < 4"
  by (simp add: meets_constraints_def sample_request_def sample_snapshot_def sample_node_def snap_id_def freshness_at_def
      effective_workloads_def effective_capabilities_def alternatives_def floor_met_def)

theorem placement_is_best_offer_witness:
  "\<exists>d. place (\<lambda>_. []) 30000000 sample_request [sample_snapshot ''a'' 9, sample_snapshot ''b'' 1] (Utc 200) (\<lambda>_. []) = Inr d
    \<and> set (pd_ranked_node_ids d) = {''b''}"
proof -
  have "sized sample_request s" if "s \<in> set [sample_snapshot ''a'' 9, sample_snapshot ''b'' 1]" for s
    using that by (auto simp: sized_def sample_request_def sample_snapshot_def)
  moreover have "{s \<in> set [sample_snapshot ''a'' 9, sample_snapshot ''b'' 1].
      meets_constraints 30000000 sample_request s 200} = {sample_snapshot ''b'' 1}"
    by (auto simp: sample_meets)
  ultimately show ?thesis
    using placement_is_best_offer[of sample_request "[sample_snapshot ''a'' 9, sample_snapshot ''b'' 1]" "\<lambda>_. []" 30000000 200 "\<lambda>_. []"]
    by (auto simp: sample_request_def snap_id_def sample_snapshot_def sample_node_def)
qed

end
