(* ===== verification/ComputeRegistry.thy ===== *)
theory ComputeRegistry
  imports ComputeFabric
begin

text \<open>
  \<^verbatim>\<open>sonder_runtime/application/compute_fabric\<close>: the registry of configured nodes and of the last observation of each
  (\<^verbatim>\<open>registry.py\<close>), the index of postings and aggregates it keeps beside them (\<^verbatim>\<open>index.py\<close>), and the choice of a node
  for a request (\<^verbatim>\<open>_profiled\<close> and \<^verbatim>\<open>_place\<close> of \<^verbatim>\<open>service.py\<close>). A set of identities is a list without repetitions, the
  heap of expiries its sorted list of entries, a counter a function. An operation returns a result and the
  registry it leaves, also when it raises halfway.
\<close>

section \<open>The index\<close>

datatype posting_key =
    KLocal bool | KWorkload workload_kind | KCap compute_capability | KWorkspace string | KModel string

type_synonym postings = "(posting_key, string list) dict"

definition posting :: "postings \<Rightarrow> posting_key \<Rightarrow> string list" where
  "posting d k = (case map_of d k of None \<Rightarrow> [] | Some ids \<Rightarrow> ids)"

definition post_add :: "string \<Rightarrow> posting_key \<Rightarrow> postings \<Rightarrow> postings" where
  "post_add i k d = AList.update k (List.insert i (posting d k)) d"

definition post_discard :: "string \<Rightarrow> posting_key \<Rightarrow> postings \<Rightarrow> postings" where
  "post_discard i k d =
     (let ids = removeAll i (posting d k) in if ids = [] then AList.delete k d else AList.update k ids d)"

definition static_keys :: "compute_node \<Rightarrow> posting_key list" where
  "static_keys n =
     KLocal (cn_local n) # map KWorkload (cn_allowed_workloads n) @ map KCap (cn_configured_capabilities n)
       @ map KWorkspace (cn_workspace_mappings n)"

definition live_keys :: "node_snapshot \<Rightarrow> posting_key list" where
  "live_keys s =
     KLocal (cn_local (sn_node s)) # map KWorkload (effective_workloads s) @ map KCap (effective_capabilities s)
       @ map KModel (sn_models s)"

record compute_index =
  ix_generation :: string
  ix_revision :: nat
  ix_nodes :: "(string, compute_node) dict"
  ix_static :: postings
  ix_live :: postings
  ix_observations :: "(string, node_snapshot) dict"
  ix_digests :: "(string, string) dict"
  ix_versions :: "(string, nat) dict"
  ix_ttl :: int
  ix_expiry :: "(int \<times> nat \<times> string) list"
  ix_stale :: "string list"
  ix_fresh_health :: "node_health \<Rightarrow> int"
  ix_active_jobs :: int
  ix_last_summary_at :: "int option"

definition post_node :: "compute_node \<Rightarrow> postings \<Rightarrow> postings" where
  "post_node n d = fold (post_add (cn_node_id n)) (static_keys n) d"

definition mk_index :: "string \<Rightarrow> compute_node list \<Rightarrow> int \<Rightarrow> compute_index" where
  "mk_index generation nodes ttl =
     \<lparr>ix_generation = generation, ix_revision = 0, ix_nodes = dict_of (map (\<lambda>n. (cn_node_id n, n)) nodes),
      ix_static = fold post_node nodes [], ix_live = [], ix_observations = [], ix_digests = [], ix_versions = [],
      ix_ttl = ttl, ix_expiry = [], ix_stale = [], ix_fresh_health = (\<lambda>_. 0), ix_active_jobs = 0,
      ix_last_summary_at = None\<rparr>"

definition bump :: "node_health \<Rightarrow> int \<Rightarrow> (node_health \<Rightarrow> int) \<Rightarrow> node_health \<Rightarrow> int" where
  "bump h n c = c(h := c h + n)"

definition rebuild_expiry :: "compute_index \<Rightarrow> compute_index" where
  "rebuild_expiry ix =
     ix\<lparr>ix_expiry := sort (map (\<lambda>(i, s). (freshness_at s + ix_ttl ix, the (map_of (ix_versions ix) i), i))
          (filter (\<lambda>(i, s). i \<notin> set (ix_stale ix)) (ix_observations ix)))\<rparr>"

definition forget_prior :: "string \<Rightarrow> node_snapshot \<Rightarrow> compute_index \<Rightarrow> unit res \<times> compute_index" where
  \<comment> \<open>\<^verbatim>\<open>self.active_jobs -= prior.active_jobs\<close> raises when the prior count is \<^verbatim>\<open>None\<close>\<close>
  "forget_prior i prior ix =
     (let ix = ix\<lparr>ix_live := fold (post_discard i) (live_keys prior) (ix_live ix)\<rparr> in
      case sn_active_jobs prior of
        None \<Rightarrow> (Inl (TypeError ''unsupported operand''), ix)
      | Some n \<Rightarrow>
          (Inr (), ix\<lparr>ix_active_jobs := ix_active_jobs ix - n,
             ix_fresh_health := (if i \<in> set (ix_stale ix) then ix_fresh_health ix
                                 else bump (sn_health prior) (- 1) (ix_fresh_health ix))\<rparr>))"

definition record_observation :: "string \<Rightarrow> string \<Rightarrow> node_snapshot \<Rightarrow> compute_index \<Rightarrow> unit res \<times> compute_index" where
  "record_observation i digest s ix =
     (let vn = Suc (ix_revision ix);
          ix = ix\<lparr>ix_stale := removeAll i (ix_stale ix), ix_revision := vn,
                 ix_observations := AList.update i s (ix_observations ix),
                 ix_digests := AList.update i digest (ix_digests ix),
                 ix_versions := AList.update i vn (ix_versions ix)\<rparr> in
      case sn_active_jobs s of
        None \<Rightarrow> (Inl (TypeError ''unsupported operand''), ix)
      | Some n \<Rightarrow>
          (let ix = ix\<lparr>ix_active_jobs := ix_active_jobs ix + n,
                      ix_fresh_health := bump (sn_health s) 1 (ix_fresh_health ix),
                      ix_live := fold (post_add i) (live_keys s) (ix_live ix),
                      ix_expiry := insort (freshness_at s + ix_ttl ix, vn, i) (ix_expiry ix)\<rparr>
           in (Inr (), if max 1 (2 * length (ix_nodes ix)) < length (ix_expiry ix) then rebuild_expiry ix else ix)))"

definition index_update :: "(node_snapshot \<Rightarrow> string) \<Rightarrow> node_snapshot \<Rightarrow> compute_index \<Rightarrow> unit res \<times> compute_index" where
  "index_update digest_of s ix =
     (let i = snap_id s in
      case map_of (ix_observations ix) i of
        None \<Rightarrow> record_observation i (digest_of s) s ix
      | Some prior \<Rightarrow>
          (case forget_prior i prior ix of
             (Inl e, ix1) \<Rightarrow> (Inl e, ix1)
           | (Inr _, ix1) \<Rightarrow> record_observation i (digest_of s) s ix1))"

record inventory_summary =
  su_configured :: nat
  su_live :: int
  su_healthy :: int
  su_unhealthy :: int
  su_stale :: nat
  su_active_jobs :: int

fun expire_due :: "int \<Rightarrow> (int \<times> nat \<times> string) list \<Rightarrow> compute_index \<Rightarrow> compute_index" where
  "expire_due now [] ix = ix\<lparr>ix_expiry := []\<rparr>"
| "expire_due now ((t, vn, i) # heap) ix =
     (if t < now then
        expire_due now heap
          (if map_of (ix_versions ix) i = Some vn \<and> i \<notin> set (ix_stale ix)
           then ix\<lparr>ix_stale := i # ix_stale ix,
                   ix_fresh_health := bump (sn_health (the (map_of (ix_observations ix) i))) (- 1) (ix_fresh_health ix)\<rparr>
           else ix)
      else ix\<lparr>ix_expiry := (t, vn, i) # heap\<rparr>)"

definition count_health :: "(string, node_snapshot) dict \<Rightarrow> node_health \<Rightarrow> int" where
  "count_health obs h = int (length (filter (\<lambda>(i, s). sn_health s = h) obs))"

definition summary_reset :: "int \<Rightarrow> compute_index \<Rightarrow> compute_index" where
  \<comment> \<open>when the clock went back every observation counts as fresh again\<close>
  "summary_reset now ix =
     (if (case ix_last_summary_at ix of None \<Rightarrow> False | Some before \<Rightarrow> now < before)
      then rebuild_expiry (ix\<lparr>ix_stale := [], ix_fresh_health := count_health (ix_observations ix)\<rparr>) else ix)"

definition index_summary :: "int \<Rightarrow> compute_index \<Rightarrow> inventory_summary \<times> compute_index" where
  "index_summary now ix =
     (let ix = (summary_reset now ix)\<lparr>ix_last_summary_at := Some now\<rparr>;
          ix = expire_due now (ix_expiry ix) ix
      in (\<lparr>su_configured = length (ix_nodes ix), su_live = int (length (ix_observations ix)) - int (length (ix_stale ix)),
           su_healthy = ix_fresh_health ix Healthy, su_unhealthy = ix_fresh_health ix Unhealthy,
           su_stale = length (ix_stale ix), su_active_jobs = ix_active_jobs ix\<rparr>, ix))"

text \<open>Candidates: the intersection of postings, starting from the smallest.\<close>

definition intersect_all :: "string list list \<Rightarrow> string list" where
  "intersect_all sets =
     (case sort_key length sets of [] \<Rightarrow> []
      | smallest # others \<Rightarrow> filter (\<lambda>i. list_all (\<lambda>p. i \<in> set p) others) smallest)"

definition group_union :: "postings \<Rightarrow> compute_capability list \<Rightarrow> string list" where
  "group_union d g = remdups (concat (map (\<lambda>c. posting d (KCap c)) g))"

definition capability_sets :: "postings \<Rightarrow> bool option \<Rightarrow> compute_capability list \<Rightarrow> compute_capability list list \<Rightarrow> string list list" where
  "capability_sets d is_local required groups =
     (case is_local of None \<Rightarrow> [] | Some b \<Rightarrow> [posting d (KLocal b)])
     @ map (\<lambda>c. posting d (KCap c)) required @ map (group_union d) groups"

definition matching :: "compute_index \<Rightarrow> workload_request \<Rightarrow> bool \<Rightarrow> bool option \<Rightarrow> string list" where
  "matching ix r observed is_local =
     (let d = (if observed then ix_live ix else ix_static ix);
          sets = [posting d (KWorkload (wr_kind r))]
            @ capability_sets d is_local (wr_required_capabilities r) (alternatives r)
            @ (case wr_workspace_mapping r of None \<Rightarrow> [] | Some m \<Rightarrow> [posting (ix_static ix) (KWorkspace m)])
            @ (if observed then (case wr_required_model r of None \<Rightarrow> [] | Some m \<Rightarrow> [posting (ix_live ix) (KModel m)]) else [])
      in filter (\<lambda>i. i \<notin> set (wr_avoided_node_ids r)) (intersect_all sets))"

definition capability_ids ::
  "compute_index \<Rightarrow> compute_capability option list \<Rightarrow> compute_capability option list \<Rightarrow> compute_capability option list option list
     \<Rightarrow> bool option \<Rightarrow> string list res" where
  "capability_ids ix required any_caps groups is_local =
     rbind (members required ''required_capabilities contains an unknown capability'') (\<lambda>req.
     rbind (members any_caps ''any_capabilities contains an unknown capability'') (\<lambda>any.
       if 16 < length groups \<or> \<not> list_all group_ok groups
       then Inl (ValueError ''any_capability_groups must contain bounded capability sets'')
       else let sets = capability_sets (ix_live ix) is_local req
                  ((if any = [] then [] else [any]) @ map (\<lambda>g. map the (the g)) groups)
            in Inr (if sets = [] then map fst (ix_observations ix) else intersect_all sets)))"

record inventory_scope =
  sc_candidate_scope :: string
  sc_registry_generation :: string
  sc_observation_revision :: nat
  sc_configured_count :: nat
  sc_observed_count :: nat
  sc_considered_count :: nat
  sc_structurally_excluded_count :: nat

record indexed_candidates =
  ic_snapshots :: "node_snapshot list"
  ic_digests :: "(string, string) dict"
  ic_scope :: inventory_scope

definition candidates_from_ids :: "compute_index \<Rightarrow> string list \<Rightarrow> nat \<Rightarrow> nat \<Rightarrow> indexed_candidates" where
  "candidates_from_ids ix found configured_count observed_count =
     (let ids = sort found in
      \<lparr>ic_snapshots = map (\<lambda>i. the (map_of (ix_observations ix) i)) ids,
       ic_digests = map (\<lambda>i. (i, the (map_of (ix_digests ix) i))) ids,
       ic_scope = \<lparr>sc_candidate_scope = ''indexed_structural_candidates'', sc_registry_generation = ix_generation ix,
         sc_observation_revision = ix_revision ix, sc_configured_count = configured_count,
         sc_observed_count = observed_count, sc_considered_count = length ids,
         sc_structurally_excluded_count = observed_count - length ids\<rparr>\<rparr>)"

definition index_candidates :: "compute_index \<Rightarrow> workload_request \<Rightarrow> bool option \<Rightarrow> indexed_candidates" where
  "index_candidates ix r is_local =
     candidates_from_ids ix (matching ix r True is_local)
       (case is_local of None \<Rightarrow> length (ix_nodes ix) | Some b \<Rightarrow> length (posting (ix_static ix) (KLocal b)))
       (case is_local of None \<Rightarrow> length (ix_observations ix) | Some b \<Rightarrow> length (posting (ix_live ix) (KLocal b)))"

section \<open>The registry\<close>

record node_registry =
  rg_nodes :: "(string, compute_node) dict"
  rg_observations :: "(string, node_snapshot) dict"
  rg_probe_errors :: "(string, string) dict"
  rg_snapshot_ttl :: int
  rg_index :: compute_index

fun configure_nodes :: "compute_node option list \<Rightarrow> (string, compute_node) dict \<Rightarrow> (string, compute_node) dict res" where
  "configure_nodes [] d = Inr d"
| "configure_nodes (None # nodes) d = Inl (TypeError ''nodes must contain ComputeNode values'')"
| "configure_nodes (Some n # nodes) d =
     (if cn_node_id n \<in> fst ` set d then Inl (ValueError (''duplicate configured node identity: '' @ cn_node_id n))
      else configure_nodes nodes (d @ [(cn_node_id n, n)]))"

definition mk_registry :: "string \<Rightarrow> compute_node option list \<Rightarrow> int option \<Rightarrow> node_registry res" where
  "mk_registry generation nodes ttl =
     (case ttl of
        None \<Rightarrow> Inl (ValueError ''snapshot_ttl must be within zero and one hour'')
      | Some t \<Rightarrow>
          if \<not> (0 < t \<and> t \<le> 3600 * 1000000) then Inl (ValueError ''snapshot_ttl must be within zero and one hour'')
          else rbind (configure_nodes nodes []) (\<lambda>d.
            Inr \<lparr>rg_nodes = d, rg_observations = [], rg_probe_errors = [], rg_snapshot_ttl = t,
                 rg_index = mk_index generation (map snd d) t\<rparr>))"

definition get_node :: "node_registry \<Rightarrow> string \<Rightarrow> compute_node res" where
  "get_node G i =
     (case map_of (rg_nodes G) i of None \<Rightarrow> Inl (KeyError (''compute node '' @ i @ '' is not configured'')) | Some n \<Rightarrow> Inr n)"

definition receipt_time :: "node_snapshot \<Rightarrow> int" where
  "receipt_time s = (case sn_received_at s of None \<Rightarrow> sn_observed_at s | Some t \<Rightarrow> t)"

definition store_observation ::
  "(node_snapshot \<Rightarrow> string) \<Rightarrow> string \<Rightarrow> node_snapshot \<Rightarrow> (string, string) dict \<Rightarrow> node_registry
     \<Rightarrow> node_snapshot res \<times> node_registry" where
  \<comment> \<open>the locked part that \<^verbatim>\<open>observe\<close> and \<^verbatim>\<open>mark_probe_failed\<close> share, after the check of the receipt time\<close>
  "store_observation digest_of i s errors G =
     (case index_update digest_of s (rg_index G) of
        (Inl e, ix) \<Rightarrow> (Inl e, G\<lparr>rg_index := ix\<rparr>)
      | (Inr _, ix) \<Rightarrow>
          (Inr s, G\<lparr>rg_index := ix, rg_observations := AList.update i s (rg_observations G), rg_probe_errors := errors\<rparr>))"

definition receipt_backwards :: "node_registry \<Rightarrow> string \<Rightarrow> int \<Rightarrow> bool" where
  "receipt_backwards G i t =
     (case map_of (rg_observations G) i of None \<Rightarrow> False | Some prior \<Rightarrow> t < receipt_time prior)"

definition observe_checks :: "node_snapshot \<Rightarrow> py_time option \<Rightarrow> node_registry \<Rightarrow> (compute_node \<times> int) res" where
  \<comment> \<open>the configured node and the receipt time\<close>
  "observe_checks s received_at G =
     rbind (get_node G (snap_id s)) (\<lambda>n.
       if cn_local (sn_node s) \<noteq> cn_local n
       then Inl (ValueError ''observed node locality conflicts with configured authority'')
       else if cn_origin (sn_node s) \<noteq> cn_origin n
       then Inl (ValueError ''observed node origin conflicts with configured origin'')
       else rbind (case received_at of None \<Rightarrow> Inr (receipt_time s) | Some t \<Rightarrow> aware_utc t ''received_at'') (\<lambda>t.
         if receipt_backwards G (cn_node_id n) t
         then Inl (ValueError ''compute node receipt time cannot move backwards'') else Inr (n, t)))"

definition observe_node ::
  "(node_snapshot \<Rightarrow> string) \<Rightarrow> node_snapshot \<Rightarrow> py_time option \<Rightarrow> node_registry \<Rightarrow> node_snapshot res \<times> node_registry" where
  "observe_node digest_of s received_at G =
     (case observe_checks s received_at G of
        Inl e \<Rightarrow> (Inl e, G)
      | Inr (n, t) \<Rightarrow>
          store_observation digest_of (cn_node_id n) (s\<lparr>sn_node := n, sn_received_at := Some t\<rparr>)
            (AList.delete (cn_node_id n) (rg_probe_errors G)) G)"

definition failed_snapshot :: "compute_node \<Rightarrow> int \<Rightarrow> string \<Rightarrow> node_snapshot option \<Rightarrow> node_snapshot" where
  "failed_snapshot n t evidence prior =
     (case prior of
        None \<Rightarrow>
          \<lparr>sn_node = n, sn_observed_at = t, sn_received_at = Some t, sn_health = Unhealthy, sn_live_capabilities = [],
           sn_advertised_workloads = [], sn_resources = no_resources, sn_active_jobs = Some 0, sn_round_trip_ms = None,
           sn_models = [], sn_evidence_ref = Some evidence\<rparr>
      | Some s \<Rightarrow> s\<lparr>sn_node := n, sn_received_at := Some t, sn_health := Unhealthy\<rparr>)"

definition probe_checks :: "string \<Rightarrow> py_time \<Rightarrow> pyval \<Rightarrow> node_registry \<Rightarrow> (compute_node \<times> int \<times> string) res" where
  "probe_checks i received_at evidence G =
     rbind (get_node G i) (\<lambda>n.
     rbind (aware_utc received_at ''received_at'') (\<lambda>t.
     rbind (case evidence of PyStr e \<Rightarrow> if e = [] \<or> 512 < length e
                then Inl (ValueError ''probe failure evidence must be a bounded string'') else Inr e
            | _ \<Rightarrow> Inl (ValueError ''probe failure evidence must be a bounded string'')) (\<lambda>e.
       if receipt_backwards G i t then Inl (ValueError ''compute node receipt time cannot move backwards'')
       else Inr (n, t, e))))"

definition mark_probe_failed ::
  "(node_snapshot \<Rightarrow> string) \<Rightarrow> string \<Rightarrow> py_time \<Rightarrow> pyval \<Rightarrow> node_registry \<Rightarrow> node_snapshot res \<times> node_registry" where
  "mark_probe_failed digest_of i received_at evidence G =
     (case probe_checks i received_at evidence G of
        Inl e \<Rightarrow> (Inl e, G)
      | Inr (n, t, ev) \<Rightarrow>
          store_observation digest_of i (failed_snapshot n t ev (map_of (rg_observations G) i))
            (AList.update i ev (rg_probe_errors G)) G)"

definition list_snapshots :: "node_registry \<Rightarrow> node_snapshot list" where
  "list_snapshots G = map (\<lambda>i. the (map_of (rg_observations G) i)) (sort (map fst (rg_observations G)))"

definition registry_is_stale :: "node_registry \<Rightarrow> string \<Rightarrow> int \<Rightarrow> bool res" where
  "registry_is_stale G i now =
     rbind (get_node G i) (\<lambda>_. Inr (case map_of (rg_observations G) i of None \<Rightarrow> True
       | Some s \<Rightarrow> rg_snapshot_ttl G < now - freshness_at s))"

definition registry_candidates :: "node_registry \<Rightarrow> workload_request \<Rightarrow> py_time \<Rightarrow> bool option \<Rightarrow> indexed_candidates res" where
  "registry_candidates G r now is_local =
     rbind (aware_utc now ''now'') (\<lambda>_. Inr (index_candidates (rg_index G) r is_local))"

definition configured_candidates :: "node_registry \<Rightarrow> workload_request \<Rightarrow> bool option \<Rightarrow> compute_node list" where
  "configured_candidates G r is_local =
     map (\<lambda>i. the (map_of (rg_nodes G) i)) (sort (matching (rg_index G) r False is_local))"

definition registry_summary :: "py_time \<Rightarrow> node_registry \<Rightarrow> inventory_summary res \<times> node_registry" where
  "registry_summary now G =
     (case aware_utc now ''now'' of
        Inl e \<Rightarrow> (Inl e, G)
      | Inr t \<Rightarrow> (case index_summary t (rg_index G) of (su, ix) \<Rightarrow> (Inr su, G\<lparr>rg_index := ix\<rparr>)))"

section \<open>The choice of a node\<close>

definition profiled :: "workload_request \<Rightarrow> workload_request res" where
  \<comment> \<open>\<^verbatim>\<open>replace\<close> validates the new request: there may be a group too many\<close>
  "profiled r =
     rbind (profile_for (wr_kind r)) (\<lambda>p.
       if wp_requires_workspace p \<and> wr_workspace_mapping r = None
       then Inl (ValueError (workload_value (wr_kind r) @ '' workloads require a workspace mapping''))
       else let groups = wr_any_capability_groups r @ (if wp_any_capabilities p = [] then [] else [wp_any_capabilities p])
            in if 16 < length groups
               then Inl (ValueError ''any_capability_groups must contain bounded non-empty capability sets'')
               else Inr (r\<lparr>wr_required_capabilities := remdups (wr_required_capabilities r @ wp_all_capabilities p),
                        wr_any_capability_groups := groups,
                        wr_background_preferred := (wr_background_preferred r \<or> wp_background_preferred p)\<rparr>))"

definition assess_window ::
  "(json \<Rightarrow> string) \<Rightarrow> int \<Rightarrow> node_registry \<Rightarrow> workload_request \<Rightarrow> py_time \<Rightarrow> bool option
     \<Rightarrow> (placement_decision \<times> inventory_scope) res" where
  "assess_window sha ttl G r now is_local =
     rbind (registry_candidates G r now is_local) (\<lambda>win.
     rbind (place sha ttl r (ic_snapshots win) now (\<lambda>s. the (map_of (ic_digests win) (snap_id s)))) (\<lambda>d.
       Inr (d, ic_scope win)))"

definition service_place ::
  "(json \<Rightarrow> string) \<Rightarrow> int \<Rightarrow> node_registry \<Rightarrow> workload_request \<Rightarrow> py_time \<Rightarrow> (placement_decision \<times> inventory_scope) res" where
  \<comment> \<open>after the refresh; metrics are left out\<close>
  "service_place sha ttl G r now =
     (if wr_local_only r \<or> \<not> wr_allow_remote r \<or> wr_placement_policy r = Some LocalOnly
      then assess_window sha ttl G r now (Some True)
      else if wr_placement_policy r = Some RankAll then assess_window sha ttl G r now None
      else rbind (assess_window sha ttl G r now (Some False)) (\<lambda>d.
        if pd_selected_node_id (fst d) = None \<and> wr_allow_local_fallback r
        then assess_window sha ttl G r now (Some True) else Inr d))"

section \<open>Postings\<close>

lemma posting_add: "posting (post_add i k d) k' = (if k' = k then List.insert i (posting d k) else posting d k')"
  by (simp add: posting_def post_add_def dict_simps)

lemma posting_discard: "posting (post_discard i k d) k' = (if k' = k then removeAll i (posting d k) else posting d k')"
  by (auto simp: posting_def post_discard_def dict_simps Let_def)

lemma postings_add:
  "set (posting (fold (post_add i) ks d) k) = (if k \<in> set ks then insert i (set (posting d k)) else set (posting d k))"
  by (induction ks arbitrary: d) (auto simp: posting_add)

lemma postings_discard:
  "set (posting (fold (post_discard i) ks d) k) = (if k \<in> set ks then set (posting d k) - {i} else set (posting d k))"
  by (induction ks arbitrary: d) (auto simp: posting_discard)

lemma postings_distinct:
  assumes "\<And>k. distinct (posting d k)"
  shows "distinct (posting (fold (post_add i) ks d) k)" "distinct (posting (fold (post_discard i) ks d) k)"
proof -
  show "distinct (posting (fold (post_add i) ks d) k)"
    using assms by (induction ks arbitrary: d) (simp_all add: posting_add distinct_insert)
  show "distinct (posting (fold (post_discard i) ks d) k)"
    using assms by (induction ks arbitrary: d) (simp_all add: posting_discard distinct_removeAll)
qed

lemma posting_Nil [simp]: "posting [] k = []"
  by (simp add: posting_def)

lemma static_postings:
  "set (posting (fold post_node nodes d) k) = set (posting d k) \<union> {cn_node_id n |n. n \<in> set nodes \<and> k \<in> set (static_keys n)}"
  by (induction nodes arbitrary: d) (auto simp: post_node_def postings_add)

lemma static_postings_distinct: "(\<And>k. distinct (posting d k)) \<Longrightarrow> distinct (posting (fold post_node nodes d) k)"
  by (induction nodes arbitrary: d) (simp_all add: post_node_def postings_distinct)

section \<open>Sums over a dictionary\<close>

lemma sum_same:
  assumes "k \<notin> fst ` set d" and "\<And>j v. j \<noteq> k \<Longrightarrow> f' (j, v) = f (j, v)"
  shows "sum_list (map f' d) = sum_list (map f d)"
proof -
  have "map f' d = map f d" using assms by (auto simp: image_iff)
  then show ?thesis by (rule arg_cong)
qed

lemma sum_change:
  fixes f f' :: "'k \<times> 'v \<Rightarrow> int"
  assumes "dict_ok d" and "map_of d k = Some w" and "\<And>j v. j \<noteq> k \<Longrightarrow> f' (j, v) = f (j, v)"
  shows "sum_list (map f' d) = sum_list (map f d) - f (k, w) + f' (k, w)"
  using assms(1,2)
proof (induction d)
  case (Cons x d)
  show ?case
    using Cons sum_same[of k d f' f] assms(3) by (cases x) (auto split: if_splits)
qed simp

lemma sum_update:
  fixes f f' :: "'k \<times> 'v \<Rightarrow> int"
  assumes "dict_ok d" and "\<And>j v. j \<noteq> k \<Longrightarrow> f' (j, v) = f (j, v)"
  shows "sum_list (map f' (AList.update k v d)) =
    sum_list (map f d) - (case map_of d k of None \<Rightarrow> 0 | Some w \<Rightarrow> f (k, w)) + f' (k, v)"
  using assms(1)
proof (induction d)
  case (Cons x d)
  show ?case
    using Cons sum_same[of k d f' f] assms(2) by (cases x) auto
qed simp

section \<open>The invariant of the index\<close>

definition jobs_of :: "string \<times> node_snapshot \<Rightarrow> int" where
  "jobs_of = (\<lambda>x. the (sn_active_jobs (snd x)))"

definition counts_as :: "string list \<Rightarrow> node_health \<Rightarrow> string \<times> node_snapshot \<Rightarrow> int" where
  "counts_as stale h = (\<lambda>(i, s). if i \<notin> set stale \<and> sn_health s = h then 1 else 0)"

definition rows_ok :: "(node_snapshot \<Rightarrow> string) \<Rightarrow> compute_index \<Rightarrow> bool" where
  "rows_ok digest_of ix =
     (dict_ok (ix_observations ix) \<and> dict_ok (ix_nodes ix)
      \<and> (\<forall>i s. map_of (ix_observations ix) i = Some s \<longrightarrow>
           snap_id s = i \<and> sn_active_jobs s \<noteq> None \<and> map_of (ix_nodes ix) i = Some (sn_node s)
           \<and> map_of (ix_digests ix) i = Some (digest_of s)))"

definition postings_ok :: "compute_index \<Rightarrow> bool" where
  "postings_ok ix =
     (\<forall>k. distinct (posting (ix_live ix) k)
        \<and> set (posting (ix_live ix) k) = {i. \<exists>s. map_of (ix_observations ix) i = Some s \<and> k \<in> set (live_keys s)}
        \<and> distinct (posting (ix_static ix) k)
        \<and> set (posting (ix_static ix) k) = {i. \<exists>n. map_of (ix_nodes ix) i = Some n \<and> k \<in> set (static_keys n)})"

definition counts_ok :: "compute_index \<Rightarrow> bool" where
  "counts_ok ix =
     (ix_active_jobs ix = sum_list (map jobs_of (ix_observations ix))
      \<and> (\<forall>h. ix_fresh_health ix h = sum_list (map (counts_as (ix_stale ix) h) (ix_observations ix))))"

definition stale_ok :: "compute_index \<Rightarrow> bool" where
  "stale_ok ix =
     (distinct (ix_stale ix)
      \<and> (\<forall>i\<in>set (ix_stale ix). \<exists>s before. map_of (ix_observations ix) i = Some s \<and> ix_last_summary_at ix = Some before
            \<and> freshness_at s + ix_ttl ix < before))"

definition expiry_ok :: "compute_index \<Rightarrow> bool" where
  "expiry_ok ix =
     (sorted (ix_expiry ix) \<and> length (ix_expiry ix) \<le> max 1 (2 * length (ix_nodes ix))
      \<and> (\<forall>i. map_of (ix_versions ix) i = None \<longleftrightarrow> map_of (ix_observations ix) i = None)
      \<and> (\<forall>i v. map_of (ix_versions ix) i = Some v \<longrightarrow> v \<le> ix_revision ix)
      \<and> (\<forall>i s v. map_of (ix_observations ix) i = Some s \<longrightarrow> map_of (ix_versions ix) i = Some v \<longrightarrow> i \<notin> set (ix_stale ix)
           \<longrightarrow> (freshness_at s + ix_ttl ix, v, i) \<in> set (ix_expiry ix))
      \<and> (\<forall>t v i. (t, v, i) \<in> set (ix_expiry ix) \<longrightarrow> v \<le> ix_revision ix
           \<and> (map_of (ix_versions ix) i = Some v
               \<longrightarrow> (\<exists>s. map_of (ix_observations ix) i = Some s \<and> t = freshness_at s + ix_ttl ix))))"

definition index_ok :: "(node_snapshot \<Rightarrow> string) \<Rightarrow> compute_index \<Rightarrow> bool" where
  "index_ok digest_of ix = (rows_ok digest_of ix \<and> postings_ok ix \<and> counts_ok ix \<and> stale_ok ix \<and> expiry_ok ix)"

text \<open>What an update leaves when the job counts are integers.\<close>

definition observed_index :: "string \<Rightarrow> node_snapshot \<Rightarrow> compute_index \<Rightarrow> compute_index" where
  "observed_index digest s ix =
     (let i = snap_id s; prior = map_of (ix_observations ix) i in
      ix\<lparr>ix_live := fold (post_add i) (live_keys s)
            (case prior of None \<Rightarrow> ix_live ix | Some p \<Rightarrow> fold (post_discard i) (live_keys p) (ix_live ix)),
         ix_active_jobs := ix_active_jobs ix - (case prior of None \<Rightarrow> 0 | Some p \<Rightarrow> jobs_of (i, p)) + jobs_of (i, s),
         ix_fresh_health := bump (sn_health s) 1
            (case prior of None \<Rightarrow> ix_fresh_health ix
             | Some p \<Rightarrow> if i \<in> set (ix_stale ix) then ix_fresh_health ix else bump (sn_health p) (- 1) (ix_fresh_health ix)),
         ix_stale := removeAll i (ix_stale ix), ix_revision := Suc (ix_revision ix),
         ix_observations := AList.update i s (ix_observations ix), ix_digests := AList.update i digest (ix_digests ix),
         ix_versions := AList.update i (Suc (ix_revision ix)) (ix_versions ix),
         ix_expiry := insort (freshness_at s + ix_ttl ix, Suc (ix_revision ix), i) (ix_expiry ix)\<rparr>)"

lemma index_update_eq:
  assumes "rows_ok digest_of ix" and "sn_active_jobs s \<noteq> None"
  shows "index_update digest_of s ix =
    (Inr (), let ix1 = observed_index (digest_of s) s ix
             in if max 1 (2 * length (ix_nodes ix1)) < length (ix_expiry ix1) then rebuild_expiry ix1 else ix1)"
proof (cases "map_of (ix_observations ix) (snap_id s)")
  case None
  then show ?thesis
    using assms(2) by (cases ix) (auto simp: index_update_def record_observation_def observed_index_def Let_def jobs_of_def)
next
  case (Some p)
  then have "sn_active_jobs p \<noteq> None" using assms(1) by (auto simp: rows_ok_def)
  then show ?thesis
    using assms(2) Some
    by (cases ix) (auto simp: index_update_def forget_prior_def record_observation_def observed_index_def Let_def jobs_of_def)
qed

lemma observed_simps [simp]:
  "ix_nodes (observed_index dg s ix) = ix_nodes ix" "ix_static (observed_index dg s ix) = ix_static ix"
  "ix_ttl (observed_index dg s ix) = ix_ttl ix" "ix_last_summary_at (observed_index dg s ix) = ix_last_summary_at ix"
  "ix_revision (observed_index dg s ix) = Suc (ix_revision ix)"
  "ix_stale (observed_index dg s ix) = removeAll (snap_id s) (ix_stale ix)"
  "ix_observations (observed_index dg s ix) = AList.update (snap_id s) s (ix_observations ix)"
  "ix_digests (observed_index dg s ix) = AList.update (snap_id s) dg (ix_digests ix)"
  "ix_versions (observed_index dg s ix) = AList.update (snap_id s) (Suc (ix_revision ix)) (ix_versions ix)"
  "ix_expiry (observed_index dg s ix) = insort (freshness_at s + ix_ttl ix, Suc (ix_revision ix), snap_id s) (ix_expiry ix)"
  by (simp_all add: observed_index_def Let_def)

lemma rows_observed:
  assumes "rows_ok digest_of ix" and "sn_active_jobs s \<noteq> None" and "map_of (ix_nodes ix) (snap_id s) = Some (sn_node s)"
  shows "rows_ok digest_of (observed_index (digest_of s) s ix)"
  using assms by (auto simp: rows_ok_def dict_simps distinct_update)

lemma postings_observed:
  assumes "postings_ok ix"
  shows "postings_ok (observed_index dg s ix)"
proof -
  let ?d = "case map_of (ix_observations ix) (snap_id s) of None \<Rightarrow> ix_live ix
    | Some p \<Rightarrow> fold (post_discard (snap_id s)) (live_keys p) (ix_live ix)"
  have live: "distinct (posting (ix_live ix) k)"
    "set (posting (ix_live ix) k) = {i. \<exists>s. map_of (ix_observations ix) i = Some s \<and> k \<in> set (live_keys s)}" for k
    using assms by (auto simp: postings_ok_def)
  have d: "distinct (posting ?d k)"
    "set (posting ?d k) = {i. i \<noteq> snap_id s \<and> (\<exists>s. map_of (ix_observations ix) i = Some s \<and> k \<in> set (live_keys s))}" for k
    by (auto simp: postings_discard live postings_distinct split: option.split)
  have "ix_live (observed_index dg s ix) = fold (post_add (snap_id s)) (live_keys s) ?d"
    by (simp add: observed_index_def Let_def)
  then have "distinct (posting (ix_live (observed_index dg s ix)) k)"
    "set (posting (ix_live (observed_index dg s ix)) k)
      = {i. \<exists>s'. map_of (AList.update (snap_id s) s (ix_observations ix)) i = Some s' \<and> k \<in> set (live_keys s')}" for k
    using d by (auto simp: postings_distinct postings_add dict_simps)
  then show ?thesis
    using assms by (simp add: postings_ok_def)
qed

lemma counts_observed:
  assumes "dict_ok (ix_observations ix)" and "counts_ok ix"
  shows "counts_ok (observed_index dg s ix)"
proof -
  let ?ix = "observed_index dg s ix"
  have jobs: "ix_active_jobs ?ix = sum_list (map jobs_of (ix_observations ?ix))"
    using assms(2) by (simp add: sum_update[OF assms(1), of _ jobs_of jobs_of] counts_ok_def)
      (simp add: observed_index_def Let_def)
  have sum: "sum_list (map (counts_as (removeAll (snap_id s) (ix_stale ix)) h) (AList.update (snap_id s) s (ix_observations ix)))
      = sum_list (map (counts_as (ix_stale ix) h) (ix_observations ix))
        - (case map_of (ix_observations ix) (snap_id s) of None \<Rightarrow> 0 | Some w \<Rightarrow> counts_as (ix_stale ix) h (snap_id s, w))
        + counts_as (removeAll (snap_id s) (ix_stale ix)) h (snap_id s, s)" for h
    by (rule sum_update[OF assms(1)]) (simp add: counts_as_def)
  have "ix_fresh_health ?ix h = sum_list (map (counts_as (ix_stale ?ix) h) (ix_observations ?ix))" for h
    using assms(2) by (simp add: counts_ok_def sum)
      (auto simp: observed_index_def Let_def bump_def counts_as_def split: option.split)
  with jobs show ?thesis by (simp add: counts_ok_def)
qed

lemma stale_observed: "stale_ok ix \<Longrightarrow> stale_ok (observed_index dg s ix)"
  by (auto simp: stale_ok_def dict_simps distinct_removeAll)

text \<open>The heap; its length is only bounded once it has been rebuilt.\<close>

definition entries_ok :: "compute_index \<Rightarrow> bool" where
  "entries_ok ix =
     (sorted (ix_expiry ix)
      \<and> (\<forall>i. map_of (ix_versions ix) i = None \<longleftrightarrow> map_of (ix_observations ix) i = None)
      \<and> (\<forall>i v. map_of (ix_versions ix) i = Some v \<longrightarrow> v \<le> ix_revision ix)
      \<and> (\<forall>i s v. map_of (ix_observations ix) i = Some s \<longrightarrow> map_of (ix_versions ix) i = Some v \<longrightarrow> i \<notin> set (ix_stale ix)
           \<longrightarrow> (freshness_at s + ix_ttl ix, v, i) \<in> set (ix_expiry ix))
      \<and> (\<forall>t v i. (t, v, i) \<in> set (ix_expiry ix) \<longrightarrow> v \<le> ix_revision ix
           \<and> (map_of (ix_versions ix) i = Some v
               \<longrightarrow> (\<exists>s. map_of (ix_observations ix) i = Some s \<and> t = freshness_at s + ix_ttl ix))))"

lemma expiry_ok_iff: "expiry_ok ix \<longleftrightarrow> entries_ok ix \<and> length (ix_expiry ix) \<le> max 1 (2 * length (ix_nodes ix))"
  by (auto simp: expiry_ok_def entries_ok_def)

lemma entries_observed:
  assumes "entries_ok ix"
  shows "entries_ok (observed_index dg s ix)"
proof -
  have old: "v \<le> ix_revision ix" if "(t, v, i) \<in> set (ix_expiry ix)" for t v i
    using assms that by (auto simp: entries_ok_def)
  have "sorted (ix_expiry (observed_index dg s ix))"
    using assms by (simp add: entries_ok_def sorted_insort)
  then show ?thesis
    using assms unfolding entries_ok_def
    by (auto simp: dict_simps set_insort_key intro: le_SucI dest: old)
qed

lemma rebuild_simps [simp]:
  "ix_nodes (rebuild_expiry ix) = ix_nodes ix" "ix_static (rebuild_expiry ix) = ix_static ix"
  "ix_live (rebuild_expiry ix) = ix_live ix" "ix_ttl (rebuild_expiry ix) = ix_ttl ix"
  "ix_observations (rebuild_expiry ix) = ix_observations ix" "ix_digests (rebuild_expiry ix) = ix_digests ix"
  "ix_versions (rebuild_expiry ix) = ix_versions ix" "ix_revision (rebuild_expiry ix) = ix_revision ix"
  "ix_stale (rebuild_expiry ix) = ix_stale ix" "ix_fresh_health (rebuild_expiry ix) = ix_fresh_health ix"
  "ix_active_jobs (rebuild_expiry ix) = ix_active_jobs ix" "ix_last_summary_at (rebuild_expiry ix) = ix_last_summary_at ix"
  by (simp_all add: rebuild_expiry_def)

lemma rebuild_other:
  "rows_ok dg (rebuild_expiry ix) = rows_ok dg ix" "postings_ok (rebuild_expiry ix) = postings_ok ix"
  "counts_ok (rebuild_expiry ix) = counts_ok ix" "stale_ok (rebuild_expiry ix) = stale_ok ix"
  by (simp_all add: rows_ok_def postings_ok_def counts_ok_def stale_ok_def)

lemma rebuild_mem:
  assumes "dict_ok (ix_observations ix)"
  shows "(t, v, i) \<in> set (ix_expiry (rebuild_expiry ix)) \<longleftrightarrow>
    (\<exists>s. map_of (ix_observations ix) i = Some s \<and> i \<notin> set (ix_stale ix) \<and> t = freshness_at s + ix_ttl ix
       \<and> v = the (map_of (ix_versions ix) i))"
  using map_of_eq_Some_iff[OF assms] by (force simp: rebuild_expiry_def image_iff)

lemma rows_length: "rows_ok dg ix \<Longrightarrow> length (ix_observations ix) \<le> length (ix_nodes ix)"
proof -
  assume "rows_ok dg ix"
  then have "dom (map_of (ix_observations ix)) \<subseteq> dom (map_of (ix_nodes ix))"
    and ok: "dict_ok (ix_observations ix)" "dict_ok (ix_nodes ix)"
    by (auto simp: rows_ok_def)
  then have "card (dom (map_of (ix_observations ix))) \<le> card (dom (map_of (ix_nodes ix)))"
    by (intro card_mono finite_dom_map_of)
  then show ?thesis using ok by (simp add: pydict.size_card)
qed

lemma rebuild_ok:
  assumes "rows_ok dg ix" and "\<And>i. map_of (ix_versions ix) i = None \<longleftrightarrow> map_of (ix_observations ix) i = None"
    and "\<And>i v. map_of (ix_versions ix) i = Some v \<Longrightarrow> v \<le> ix_revision ix"
  shows "expiry_ok (rebuild_expiry ix)"
proof -
  have ok: "dict_ok (ix_observations ix)" using assms(1) by (simp add: rows_ok_def)
  have vs: "\<exists>v. map_of (ix_versions ix) i = Some v \<and> v \<le> ix_revision ix" if "map_of (ix_observations ix) i = Some s" for i s
    using that assms(2,3) by (metis not_None_eq)
  have "sorted (ix_expiry (rebuild_expiry ix))"
    by (simp add: rebuild_expiry_def)
  then have "entries_ok (rebuild_expiry ix)"
    unfolding entries_ok_def rebuild_mem[OF ok] using assms(2,3) vs by fastforce
  moreover have "length (ix_expiry (rebuild_expiry ix)) \<le> length (ix_observations ix)"
    by (simp add: rebuild_expiry_def)
  ultimately show ?thesis
    using rows_length[OF assms(1)] by (simp add: expiry_ok_iff)
qed

lemma index_update_ok:
  assumes "index_ok digest_of ix" and "sn_active_jobs s \<noteq> None" and "map_of (ix_nodes ix) (snap_id s) = Some (sn_node s)"
  shows "\<exists>ix'. index_update digest_of s ix = (Inr (), ix') \<and> index_ok digest_of ix' \<and> ix_nodes ix' = ix_nodes ix
    \<and> ix_ttl ix' = ix_ttl ix \<and> ix_observations ix' = AList.update (snap_id s) s (ix_observations ix)"
proof -
  let ?ix = "observed_index (digest_of s) s ix"
  have ok: "rows_ok digest_of ix" "postings_ok ix" "counts_ok ix" "stale_ok ix" "entries_ok ix"
    "dict_ok (ix_observations ix)"
    using assms(1) by (simp_all add: index_ok_def expiry_ok_iff rows_ok_def)
  note rows = rows_observed[OF ok(1) assms(2,3)] and ents = entries_observed[OF ok(5), of "digest_of s" s]
    and rest = postings_observed[OF ok(2), of "digest_of s" s] counts_observed[OF ok(6) ok(3), of "digest_of s" s]
      stale_observed[OF ok(4), of "digest_of s" s]
  have "expiry_ok (rebuild_expiry ?ix)"
    by (rule rebuild_ok[OF rows]) (use ents in \<open>auto simp: entries_ok_def\<close>)
  then have "index_ok digest_of (rebuild_expiry ?ix)"
    using rows rest by (simp add: index_ok_def rebuild_other)
  moreover have "index_ok digest_of ?ix" if "\<not> max 1 (2 * length (ix_nodes ?ix)) < length (ix_expiry ?ix)"
    using that rows rest ents unfolding index_ok_def expiry_ok_iff not_less by blast
  ultimately show ?thesis
    using index_update_eq[OF ok(1) assms(2)] by (auto simp: Let_def)
qed

section \<open>The summary\<close>

definition mark_stale :: "string \<Rightarrow> compute_index \<Rightarrow> compute_index" where
  "mark_stale i ix =
     ix\<lparr>ix_stale := i # ix_stale ix,
        ix_fresh_health := bump (sn_health (the (map_of (ix_observations ix) i))) (- 1) (ix_fresh_health ix)\<rparr>"

lemma mark_simps [simp]:
  "ix_nodes (mark_stale i ix) = ix_nodes ix" "ix_static (mark_stale i ix) = ix_static ix" "ix_live (mark_stale i ix) = ix_live ix"
  "ix_observations (mark_stale i ix) = ix_observations ix" "ix_digests (mark_stale i ix) = ix_digests ix"
  "ix_versions (mark_stale i ix) = ix_versions ix" "ix_revision (mark_stale i ix) = ix_revision ix"
  "ix_ttl (mark_stale i ix) = ix_ttl ix" "ix_stale (mark_stale i ix) = i # ix_stale ix"
  "ix_active_jobs (mark_stale i ix) = ix_active_jobs ix" "ix_last_summary_at (mark_stale i ix) = ix_last_summary_at ix"
  by (simp_all add: mark_stale_def)

lemma counts_mark:
  assumes "dict_ok (ix_observations ix)" and "counts_ok ix" and "map_of (ix_observations ix) i = Some s" and "i \<notin> set (ix_stale ix)"
  shows "counts_ok (mark_stale i ix)"
proof -
  have "sum_list (map (counts_as (i # ix_stale ix) h) (ix_observations ix))
      = sum_list (map (counts_as (ix_stale ix) h) (ix_observations ix)) - counts_as (ix_stale ix) h (i, s)
        + counts_as (i # ix_stale ix) h (i, s)" for h
    by (rule sum_change[OF assms(1,3)]) (simp add: counts_as_def)
  moreover have "ix_fresh_health (mark_stale i ix) = bump (sn_health s) (- 1) (ix_fresh_health ix)"
    by (simp add: mark_stale_def assms(3))
  ultimately show ?thesis
    using assms(2,4) by (auto simp: counts_ok_def bump_def counts_as_def)
qed

definition loop_ok :: "(node_snapshot \<Rightarrow> string) \<Rightarrow> int \<Rightarrow> (int \<times> nat \<times> string) list \<Rightarrow> compute_index \<Rightarrow> bool" where
  "loop_ok dg now heap ix =
     (rows_ok dg ix \<and> postings_ok ix \<and> counts_ok ix \<and> stale_ok ix \<and> entries_ok (ix\<lparr>ix_expiry := heap\<rparr>)
      \<and> ix_last_summary_at ix = Some now)"

lemma expiry_irrelevant [simp]:
  "rows_ok dg (ix\<lparr>ix_expiry := heap\<rparr>) = rows_ok dg ix" "postings_ok (ix\<lparr>ix_expiry := heap\<rparr>) = postings_ok ix"
  "counts_ok (ix\<lparr>ix_expiry := heap\<rparr>) = counts_ok ix" "stale_ok (ix\<lparr>ix_expiry := heap\<rparr>) = stale_ok ix"
  by (simp_all add: rows_ok_def postings_ok_def counts_ok_def stale_ok_def)

lemma entries_covered:
  assumes "entries_ok (ix\<lparr>ix_expiry := e # heap\<rparr>)" and "map_of (ix_observations ix) j = Some u"
    and "map_of (ix_versions ix) j = Some w" and "j \<notin> set (ix_stale ix)" and "(freshness_at u + ix_ttl ix, w, j) \<noteq> e"
  shows "(freshness_at u + ix_ttl ix, w, j) \<in> set heap"
  using assms unfolding entries_ok_def by force

lemma entries_tail:
  assumes "entries_ok (ix\<lparr>ix_expiry := (t, v, i) # heap\<rparr>)" and "\<not> (map_of (ix_versions ix) i = Some v \<and> i \<notin> set (ix_stale ix))"
  shows "entries_ok (ix\<lparr>ix_expiry := heap\<rparr>)"
proof -
  have "(freshness_at u + ix_ttl ix, w, j) \<in> set heap"
    if "map_of (ix_observations ix) j = Some u" "map_of (ix_versions ix) j = Some w" "j \<notin> set (ix_stale ix)" for j u w
    by (rule entries_covered[OF assms(1) that]) (use that assms(2) in auto)
  then show ?thesis using assms(1) by (simp add: entries_ok_def)
qed

lemma loop_mark:
  assumes "loop_ok dg now ((t, v, i) # heap) ix" and "t < now" and "map_of (ix_versions ix) i = Some v" and "i \<notin> set (ix_stale ix)"
  shows "loop_ok dg now heap (mark_stale i ix)"
proof -
  have ents: "entries_ok (ix\<lparr>ix_expiry := (t, v, i) # heap\<rparr>)" and ok: "dict_ok (ix_observations ix)"
    using assms(1) by (auto simp: loop_ok_def rows_ok_def)
  have "\<exists>s. map_of (ix_observations ix) i = Some s \<and> t = freshness_at s + ix_ttl ix"
    using ents assms(3) unfolding entries_ok_def by simp
  then obtain s where s: "map_of (ix_observations ix) i = Some s" "t = freshness_at s + ix_ttl ix" by blast
  have "(freshness_at u + ix_ttl ix, w, j) \<in> set heap"
    if "map_of (ix_observations ix) j = Some u" "map_of (ix_versions ix) j = Some w" "j \<notin> set (ix_stale ix)" "j \<noteq> i" for j u w
    by (rule entries_covered[OF ents that(1-3)]) (use that(4) in simp)
  then have "entries_ok (mark_stale i ix\<lparr>ix_expiry := heap\<rparr>)"
    using ents by (simp add: entries_ok_def)
  moreover have "stale_ok (mark_stale i ix)"
    using assms s by (auto simp: loop_ok_def stale_ok_def)
  moreover have "counts_ok (mark_stale i ix)"
    using assms s by (intro counts_mark[OF ok]) (auto simp: loop_ok_def)
  ultimately show ?thesis
    using assms(1) by (simp add: loop_ok_def rows_ok_def postings_ok_def)
qed

lemma expire_due_ok:
  "loop_ok dg now heap ix \<Longrightarrow>
     (let ix' = expire_due now heap ix
      in loop_ok dg now (ix_expiry ix') ix' \<and> length (ix_expiry ix') \<le> length heap
         \<and> (\<forall>e\<in>set (ix_expiry ix'). now \<le> fst e)
         \<and> ix_nodes ix' = ix_nodes ix \<and> ix_observations ix' = ix_observations ix \<and> ix_ttl ix' = ix_ttl ix)"
proof (induction heap arbitrary: ix)
  case Nil
  then show ?case by (simp add: loop_ok_def)
next
  case (Cons e heap)
  obtain t v i where e: "e = (t, v, i)" by (cases e)
  show ?case
  proof (cases "t < now")
    case True
    let ?ix = "if map_of (ix_versions ix) i = Some v \<and> i \<notin> set (ix_stale ix) then mark_stale i ix else ix"
    have step: "expire_due now (e # heap) ix = expire_due now heap ?ix"
      using True by (simp add: e mark_stale_def)
    have "loop_ok dg now heap ?ix"
      using Cons.prems True loop_mark[of dg now t v i heap ix] entries_tail[of t v i heap ix]
      by (auto simp: e loop_ok_def)
    from Cons.IH[OF this] show ?thesis
      unfolding step by (auto simp: Let_def)
  next
    case False
    have "t \<le> fst x" if "x \<in> set heap" for x
    proof -
      have "(t, v, i) \<le> x" using Cons.prems that by (simp add: e loop_ok_def entries_ok_def)
      then show ?thesis by (cases x) (auto simp: less_eq_prod_def)
    qed
    then have "now \<le> fst x" if "x \<in> set ((t, v, i) # heap)" for x
      using False that by fastforce
    then show ?thesis
      using Cons.prems False by (simp add: e loop_ok_def)
  qed
qed

definition due :: "int \<Rightarrow> int \<Rightarrow> node_snapshot \<Rightarrow> bool" where
  "due ttl now s = (freshness_at s + ttl < now)"

definition direct_summary :: "int \<Rightarrow> int \<Rightarrow> nat \<Rightarrow> node_snapshot list \<Rightarrow> inventory_summary" where
  \<comment> \<open>the reference: every figure counted over the observations\<close>
  "direct_summary now ttl configured obs =
     (let fresh = filter (\<lambda>s. \<not> due ttl now s) obs in
      \<lparr>su_configured = configured, su_live = int (length fresh),
       su_healthy = int (length (filter (\<lambda>s. sn_health s = Healthy) fresh)),
       su_unhealthy = int (length (filter (\<lambda>s. sn_health s = Unhealthy) fresh)),
       su_stale = length (filter (due ttl now) obs),
       su_active_jobs = sum_list (map (\<lambda>s. the (sn_active_jobs s)) obs)\<rparr>)"

lemma sum_indicator: "sum_list (map (\<lambda>x. if P x then 1 else (0::int)) xs) = int (length (filter P xs))"
  by (induction xs) auto

lemma stale_exact:
  assumes "loop_ok dg now (ix_expiry ix) ix" and "\<forall>e\<in>set (ix_expiry ix). now \<le> fst e"
    and "map_of (ix_observations ix) i = Some s"
  shows "i \<in> set (ix_stale ix) \<longleftrightarrow> due (ix_ttl ix) now s"
proof
  assume "i \<in> set (ix_stale ix)"
  then show "due (ix_ttl ix) now s" using assms(1,3) by (fastforce simp: loop_ok_def stale_ok_def due_def)
next
  assume late: "due (ix_ttl ix) now s"
  show "i \<in> set (ix_stale ix)"
  proof (rule ccontr)
    assume "i \<notin> set (ix_stale ix)"
    moreover have ents: "entries_ok ix" using assms(1) by (simp add: loop_ok_def)
    ultimately obtain v where "(freshness_at s + ix_ttl ix, v, i) \<in> set (ix_expiry ix)"
      using assms(3) unfolding entries_ok_def by (metis not_None_eq)
    then show False using assms(2) late by (fastforce simp: due_def)
  qed
qed

lemma summary_exact:
  assumes "loop_ok dg now (ix_expiry ix) ix" and "\<forall>e\<in>set (ix_expiry ix). now \<le> fst e"
  shows "\<lparr>su_configured = length (ix_nodes ix), su_live = int (length (ix_observations ix)) - int (length (ix_stale ix)),
      su_healthy = ix_fresh_health ix Healthy, su_unhealthy = ix_fresh_health ix Unhealthy,
      su_stale = length (ix_stale ix), su_active_jobs = ix_active_jobs ix\<rparr> = direct_summary now (ix_ttl ix) (length (ix_nodes ix)) (map snd (ix_observations ix))"
proof -
  let ?obs = "ix_observations ix" and ?late = "due (ix_ttl ix) now"
  have ok: "dict_ok ?obs" and counts: "counts_ok ix" and stale: "stale_ok ix"
    using assms(1) by (auto simp: loop_ok_def rows_ok_def)
  have mem: "i \<in> set (ix_stale ix) \<longleftrightarrow> ?late s" if "(i, s) \<in> set ?obs" for i s
    using stale_exact[OF assms] that ok by (simp add: map_of_is_SomeI)
  let ?gone = "map fst (filter (\<lambda>x. ?late (snd x)) ?obs)"
  have sub: "\<exists>s. (i, s) \<in> set ?obs" if "i \<in> set (ix_stale ix)" for i
    using stale that by (metis map_of_SomeD stale_ok_def)
  have "i \<in> set (ix_stale ix) \<longleftrightarrow> i \<in> set ?gone" for i
    using mem[of i] sub[of i] by (force simp: image_iff)
  then have "set (ix_stale ix) = set ?gone" by blast
  moreover have "distinct ?gone" using ok by (simp add: distinct_map_filter)
  ultimately have "length (ix_stale ix) = length ?gone"
    using stale by (metis distinct_card stale_ok_def)
  then have n: "length (ix_stale ix) = length (filter ?late (map snd ?obs))"
    by (simp add: filter_map comp_def case_prod_beta)
  have split: "length ?obs = length (filter ?late (map snd ?obs)) + length (filter (\<lambda>s. \<not> ?late s) (map snd ?obs))"
    by (metis length_map sum_length_filter_compl)
  have eq: "map (counts_as (ix_stale ix) h) ?obs = map (\<lambda>x. if \<not> ?late (snd x) \<and> sn_health (snd x) = h then 1 else 0) ?obs" for h
    using mem by (auto simp: counts_as_def)
  have "sum_list (map (counts_as (ix_stale ix) h) ?obs)
      = int (length (filter (\<lambda>x. \<not> ?late (snd x) \<and> sn_health (snd x) = h) ?obs))" for h
    unfolding eq by (rule sum_indicator)
  then have "ix_fresh_health ix h = int (length (filter (\<lambda>s. sn_health s = h) (filter (\<lambda>s. \<not> ?late s) (map snd ?obs))))" for h
    using counts by (simp add: counts_ok_def filter_map comp_def conj_commute)
  moreover have "ix_active_jobs ix = sum_list (map (\<lambda>s. the (sn_active_jobs s)) (map snd ?obs))"
    using counts by (simp add: counts_ok_def jobs_of_def comp_def)
  ultimately show ?thesis
    using n split by (simp add: direct_summary_def Let_def)
qed

lemma count_health_ok: "count_health obs h = sum_list (map (counts_as [] h) obs)"
  by (induction obs) (auto simp: count_health_def counts_as_def)

lemma reset_ok:
  assumes "index_ok dg ix"
  shows "index_ok dg (summary_reset now ix)" "ix_nodes (summary_reset now ix) = ix_nodes ix"
    "ix_observations (summary_reset now ix) = ix_observations ix" "ix_ttl (summary_reset now ix) = ix_ttl ix"
    "ix_stale (summary_reset now ix) = [] \<or> (\<exists>before. ix_last_summary_at (summary_reset now ix) = Some before \<and> before \<le> now)"
proof -
  let ?ix = "ix\<lparr>ix_stale := [], ix_fresh_health := count_health (ix_observations ix)\<rparr>"
  have ok: "rows_ok dg ix" "postings_ok ix" "counts_ok ix" "stale_ok ix" "entries_ok ix"
    using assms by (simp_all add: index_ok_def expiry_ok_iff)
  have rows: "rows_ok dg ?ix" using ok(1) by (simp add: rows_ok_def)
  have "expiry_ok (rebuild_expiry ?ix)"
    by (rule rebuild_ok[OF rows]) (use ok(5) in \<open>auto simp: entries_ok_def\<close>)
  then have "index_ok dg (rebuild_expiry ?ix)"
    using rows ok(2,3) by (simp add: index_ok_def rebuild_other postings_ok_def counts_ok_def stale_ok_def count_health_ok)
  then show "index_ok dg (summary_reset now ix)"
    using assms by (simp add: summary_reset_def)
  show "ix_nodes (summary_reset now ix) = ix_nodes ix"
    "ix_observations (summary_reset now ix) = ix_observations ix" "ix_ttl (summary_reset now ix) = ix_ttl ix"
    by (simp_all add: summary_reset_def)
  show "ix_stale (summary_reset now ix) = [] \<or> (\<exists>before. ix_last_summary_at (summary_reset now ix) = Some before \<and> before \<le> now)"
    using ok(4) by (cases "ix_stale ix") (auto simp: summary_reset_def stale_ok_def split: option.splits)
qed

lemma summary_irrelevant [simp]:
  "rows_ok dg (ix\<lparr>ix_last_summary_at := b\<rparr>) = rows_ok dg ix" "postings_ok (ix\<lparr>ix_last_summary_at := b\<rparr>) = postings_ok ix"
  "counts_ok (ix\<lparr>ix_last_summary_at := b\<rparr>) = counts_ok ix" "entries_ok (ix\<lparr>ix_last_summary_at := b\<rparr>) = entries_ok ix"
  by (simp_all add: rows_ok_def postings_ok_def counts_ok_def entries_ok_def)

lemma stamp_ok:
  assumes "index_ok dg ix" and "ix_stale ix = [] \<or> (\<exists>before. ix_last_summary_at ix = Some before \<and> before \<le> now)"
  shows "loop_ok dg now (ix_expiry ix) (ix\<lparr>ix_last_summary_at := Some now\<rparr>)"
proof -
  have "stale_ok (ix\<lparr>ix_last_summary_at := Some now\<rparr>)"
    using assms by (fastforce simp: index_ok_def stale_ok_def)
  moreover have "entries_ok (ix\<lparr>ix_last_summary_at := Some now, ix_expiry := ix_expiry ix\<rparr>) = entries_ok ix"
    by (simp add: entries_ok_def)
  ultimately show ?thesis
    using assms(1) by (simp add: loop_ok_def index_ok_def expiry_ok_iff)
qed

lemma index_summary_ok:
  assumes "index_ok dg ix"
  shows "\<exists>ix'. index_summary now ix = (direct_summary now (ix_ttl ix) (length (ix_nodes ix)) (map snd (ix_observations ix)), ix') \<and> index_ok dg ix'
    \<and> ix_nodes ix' = ix_nodes ix \<and> ix_observations ix' = ix_observations ix \<and> ix_ttl ix' = ix_ttl ix"
proof -
  let ?ix = "(summary_reset now ix)\<lparr>ix_last_summary_at := Some now\<rparr>"
  let ?fin = "expire_due now (ix_expiry ?ix) ?ix"
  note reset = reset_ok[OF assms, of now]
  have fin: "loop_ok dg now (ix_expiry ?fin) ?fin" "length (ix_expiry ?fin) \<le> length (ix_expiry ?ix)"
    "\<forall>e\<in>set (ix_expiry ?fin). now \<le> fst e" "ix_nodes ?fin = ix_nodes ix" "ix_observations ?fin = ix_observations ix"
    "ix_ttl ?fin = ix_ttl ix"
    using expire_due_ok[OF stamp_ok[OF reset(1,5)]] reset(2-4) by (simp_all add: Let_def)
  have "length (ix_expiry ?ix) \<le> max 1 (2 * length (ix_nodes ix))"
    using reset(1,2) by (simp add: index_ok_def expiry_ok_def)
  then have "index_ok dg ?fin"
    using fin(1,2,4) by (simp add: loop_ok_def index_ok_def expiry_ok_iff)
  moreover have "direct_summary now (ix_ttl ?fin) (length (ix_nodes ?fin)) (map snd (ix_observations ?fin)) = direct_summary now (ix_ttl ix) (length (ix_nodes ix)) (map snd (ix_observations ix))"
    using fin(4-6) by (simp add: direct_summary_def)
  ultimately show ?thesis
    using summary_exact[OF fin(1,3)] fin(4-6) by (simp add: index_summary_def Let_def)
qed

section \<open>The invariant of the registry\<close>

datatype reg_op =
    Observe node_snapshot "py_time option"
  | ProbeFailed string py_time pyval
  | Summarize py_time

primrec reg_exec :: "(node_snapshot \<Rightarrow> string) \<Rightarrow> reg_op \<Rightarrow> node_registry \<Rightarrow> node_registry" where
  "reg_exec dg (Observe s t) G = snd (observe_node dg s t G)"
| "reg_exec dg (ProbeFailed i t e) G = snd (mark_probe_failed dg i t e G)"
| "reg_exec dg (Summarize t) G = snd (registry_summary t G)"

definition reg_step :: "(node_snapshot \<Rightarrow> string) \<Rightarrow> node_registry \<Rightarrow> reg_op \<Rightarrow> node_registry \<Rightarrow> bool" where
  "reg_step dg G act G' = (G' = reg_exec dg act G)"

primrec counted :: "reg_op \<Rightarrow> bool" where
  \<comment> \<open>the observation carries an integer number of jobs, as its annotation says\<close>
  "counted (Observe s t) = (sn_active_jobs s \<noteq> None)"
| "counted (ProbeFailed i t e) = True"
| "counted (Summarize t) = True"

definition counted_step :: "(node_snapshot \<Rightarrow> string) \<Rightarrow> node_registry \<Rightarrow> reg_op \<Rightarrow> node_registry \<Rightarrow> bool" where
  "counted_step dg G act G' = (reg_step dg G act G' \<and> counted act)"

definition registry_ok :: "(node_snapshot \<Rightarrow> string) \<Rightarrow> node_registry \<Rightarrow> bool" where
  "registry_ok dg G =
     (index_ok dg (rg_index G) \<and> ix_observations (rg_index G) = rg_observations G \<and> ix_nodes (rg_index G) = rg_nodes G
      \<and> ix_ttl (rg_index G) = rg_snapshot_ttl G \<and> (\<forall>i n. map_of (rg_nodes G) i = Some n \<longrightarrow> cn_node_id n = i))"

lemma configure_nodes_ok:
  "configure_nodes nodes d = Inr d' \<Longrightarrow> dict_ok d \<Longrightarrow> (\<forall>x\<in>set d. fst x = cn_node_id (snd x))
    \<Longrightarrow> dict_ok d' \<and> (\<forall>x\<in>set d'. fst x = cn_node_id (snd x))"
  by (induction nodes d rule: configure_nodes.induct) (auto split: if_splits)

lemma mk_registry_ok:
  assumes "mk_registry generation nodes ttl = Inr G"
  shows "registry_ok dg G"
proof -
  obtain d t where d: "configure_nodes nodes [] = Inr d" and G: "G = \<lparr>rg_nodes = d, rg_observations = [], rg_probe_errors = [],
      rg_snapshot_ttl = t, rg_index = mk_index generation (map snd d) t\<rparr>"
    using assms by (auto simp: mk_registry_def split: option.splits if_splits)
  have ok: "dict_ok d" and key: "\<And>x. x \<in> set d \<Longrightarrow> fst x = cn_node_id (snd x)"
    using configure_nodes_ok[OF d] by auto
  have "map (\<lambda>n. (cn_node_id n, n)) (map snd d) = d"
    using key by (auto intro!: map_idI simp: prod_eq_iff)
  then have nodes: "ix_nodes (rg_index G) = d"
    using ok by (simp add: G mk_index_def dict_of_distinct)
  have look: "map_of d i = Some n \<longleftrightarrow> n \<in> snd ` set d \<and> cn_node_id n = i" for i n
    using ok key by (force simp: image_iff)
  have post: "set (posting (ix_static (rg_index G)) k) = {i. \<exists>n. map_of d i = Some n \<and> k \<in> set (static_keys n)}" for k
    by (auto simp: G mk_index_def static_postings look)
  have "postings_ok (rg_index G)"
    unfolding postings_ok_def nodes post by (simp add: G mk_index_def static_postings_distinct)
  moreover have "rows_ok dg (rg_index G)" "counts_ok (rg_index G)" "stale_ok (rg_index G)" "expiry_ok (rg_index G)"
    using ok nodes by (simp_all add: G mk_index_def rows_ok_def counts_ok_def stale_ok_def expiry_ok_def)
  ultimately show ?thesis
    using nodes look by (simp add: registry_ok_def index_ok_def) (simp add: G mk_index_def)
qed

lemma store_ok:
  assumes "registry_ok dg G" and "sn_active_jobs s \<noteq> None" and "snap_id s = i" and "map_of (rg_nodes G) i = Some (sn_node s)"
  shows "\<exists>G'. store_observation dg i s errs G = (Inr s, G') \<and> registry_ok dg G'
    \<and> rg_observations G' = AList.update i s (rg_observations G) \<and> rg_nodes G' = rg_nodes G"
proof -
  obtain ix where "index_update dg s (rg_index G) = (Inr (), ix)" "index_ok dg ix" "ix_nodes ix = rg_nodes G"
    "ix_ttl ix = rg_snapshot_ttl G" "ix_observations ix = AList.update i s (rg_observations G)"
    using index_update_ok[of dg "rg_index G" s] assms by (auto simp: registry_ok_def)
  then show ?thesis
    using assms(1) by (auto simp: store_observation_def registry_ok_def)
qed

lemma observe_checks_Inr: "observe_checks s t G = Inr (n, u) \<Longrightarrow> map_of (rg_nodes G) (snap_id s) = Some n"
  by (auto simp: observe_checks_def get_node_def split: option.splits if_splits)

lemma probe_checks_Inr: "probe_checks i t ev G = Inr (n, u, e) \<Longrightarrow> map_of (rg_nodes G) i = Some n"
  by (auto simp: probe_checks_def get_node_def split: option.splits if_splits)

lemma observe_ok:
  assumes "registry_ok dg G" and "sn_active_jobs s \<noteq> None"
  shows "registry_ok dg (snd (observe_node dg s t G))"
proof (cases "observe_checks s t G")
  case (Inr a)
  then obtain n u where a: "a = (n, u)" and n: "map_of (rg_nodes G) (snap_id s) = Some n"
    by (metis observe_checks_Inr surj_pair)
  have "cn_node_id n = snap_id s" using assms(1) n by (simp add: registry_ok_def)
  then show ?thesis
    using store_ok[of dg G "s\<lparr>sn_node := n, sn_received_at := Some u\<rparr>" "cn_node_id n"
        "AList.delete (cn_node_id n) (rg_probe_errors G)"] assms n Inr
    by (auto simp: observe_node_def a snap_id_def)
qed (use assms in \<open>simp add: observe_node_def\<close>)

lemma probe_failed_ok:
  assumes "registry_ok dg G"
  shows "registry_ok dg (snd (mark_probe_failed dg i t ev G))"
proof (cases "probe_checks i t ev G")
  case (Inr a)
  then obtain n u why where a: "a = (n, u, why)" and n: "map_of (rg_nodes G) i = Some n"
    by (metis probe_checks_Inr surj_pair)
  let ?s = "failed_snapshot n u why (map_of (rg_observations G) i)"
  have "cn_node_id n = i" using assms n by (simp add: registry_ok_def)
  moreover have "sn_active_jobs ?s \<noteq> None"
    using assms by (auto simp: failed_snapshot_def registry_ok_def index_ok_def rows_ok_def split: option.split)
  moreover have "sn_node ?s = n" by (simp add: failed_snapshot_def split: option.split)
  ultimately show ?thesis
    using store_ok[of dg G ?s i "AList.update i why (rg_probe_errors G)"] assms n Inr
    by (auto simp: mark_probe_failed_def a snap_id_def)
qed (use assms in \<open>simp add: mark_probe_failed_def\<close>)

lemma summary_ok:
  assumes "registry_ok dg G"
  shows "\<exists>G'. registry_summary (Utc now) G =
      (Inr (direct_summary now (rg_snapshot_ttl G) (length (rg_nodes G)) (map snd (rg_observations G))), G') \<and> registry_ok dg G'"
  using index_summary_ok[of dg "rg_index G" now] assms
  by (auto simp: registry_summary_def aware_utc_def registry_ok_def)

lemma summary_step_ok: "registry_ok dg G \<Longrightarrow> registry_ok dg (snd (registry_summary t G))"
proof (cases t)
  case (Utc now)
  assume "registry_ok dg G"
  then show ?thesis using summary_ok[of dg G now] Utc by auto
qed (simp add: registry_summary_def aware_utc_def)

interpretation registry_runs: invariant_system "counted_step dg" "registry_ok dg"
proof unfold_locales
  fix G act G'
  assume "counted_step dg G act G'" "registry_ok dg G"
  then show "registry_ok dg G'"
    by (cases act) (auto simp: counted_step_def reg_step_def observe_ok probe_failed_ok summary_step_ok)
qed

lemma reachable_ok:
  "mk_registry generation nodes ttl = Inr G0 \<Longrightarrow> run_of (counted_step dg) G0 acts G \<Longrightarrow> registry_ok dg G"
  by (rule registry_runs.inv_run[OF _ mk_registry_ok])

text \<open>
  (C34) The running aggregates of the inventory are exact. After any history of observations, failed probes and
  summaries on a new registry, with clocks that may go back and integer job counts, the summary at any moment equals
  the one counted over the last observations: how many are fresh, healthy, unhealthy and stale, and the sum of their jobs.
\<close>

theorem inventory_summary_exact:
  assumes "mk_registry generation nodes ttl = Inr G0" and "run_of (counted_step dg) G0 acts G"
  shows "fst (registry_summary (Utc now) G)
    = Inr (direct_summary now (rg_snapshot_ttl G) (length (rg_nodes G)) (map snd (rg_observations G)))"
  using summary_ok[OF reachable_ok[OF assms], of now] by auto

definition sample_registry :: node_registry where
  "sample_registry =
     \<lparr>rg_nodes = [(''a'', sample_node ''a'')], rg_observations = [], rg_probe_errors = [], rg_snapshot_ttl = 30000000,
      rg_index = mk_index ''g'' [sample_node ''a''] 30000000\<rparr>"

lemma sample_registry_made: "mk_registry ''g'' [Some (sample_node ''a'')] (Some 30000000) = Inr sample_registry"
  by (simp add: mk_registry_def sample_registry_def sample_node_def)

definition sample_observed :: node_registry where
  "sample_observed = snd (observe_node (\<lambda>_. []) (sample_snapshot ''a'' 1) None sample_registry)"

lemma sample_run: "run_of (counted_step (\<lambda>_. [])) sample_registry [Observe (sample_snapshot ''a'' 1) None] sample_observed"
  by (simp add: run_of_Cons_iff run_of_Nil_iff counted_step_def reg_step_def sample_observed_def)
    (simp add: sample_snapshot_def)

lemma sample_checks: "observe_checks (sample_snapshot ''a'' 1) None sample_registry = Inr (sample_node ''a'', 100)"
  by (simp add: observe_checks_def get_node_def snap_id_def sample_snapshot_def sample_node_def sample_registry_def
      receipt_time_def receipt_backwards_def)

lemma sample_observations:
  "rg_observations sample_observed = [(''a'', (sample_snapshot ''a'' 1)\<lparr>sn_received_at := Some 100\<rparr>)]"
proof -
  let ?s = "(sample_snapshot ''a'' 1)\<lparr>sn_received_at := Some 100\<rparr>"
  have facts: "cn_node_id (sample_node ''a'') = ''a''" "sn_node ?s = sample_node ''a''" "sn_active_jobs ?s \<noteq> None"
    "rg_observations sample_registry = []" "map_of (rg_nodes sample_registry) ''a'' = Some (sample_node ''a'')"
    by (simp_all add: sample_node_def sample_snapshot_def sample_registry_def)
  have "(sample_snapshot ''a'' 1)\<lparr>sn_node := sample_node ''a'', sn_received_at := Some 100\<rparr> = ?s"
    by (simp add: sample_snapshot_def)
  then have "sample_observed = snd (store_observation (\<lambda>_. []) ''a'' ?s (AList.delete ''a'' (rg_probe_errors sample_registry)) sample_registry)"
    unfolding sample_observed_def observe_node_def sample_checks sum.case prod.case facts(1) by (rule arg_cong)
  moreover have "snap_id ?s = ''a''" by (simp add: snap_id_def facts)
  ultimately show ?thesis
    using store_ok[OF mk_registry_ok[OF sample_registry_made] facts(3), of "''a''"] facts
    by (metis snd_conv update.simps(1))
qed

theorem inventory_summary_exact_witness:
  "\<exists>su. fst (registry_summary (Utc 50) sample_observed) = Inr su \<and> su_active_jobs su = 1"
  using inventory_summary_exact[OF sample_registry_made sample_run, of 50]
  by (simp add: sample_observations direct_summary_def Let_def) (simp add: sample_snapshot_def)

section \<open>Candidates\<close>

lemma intersect_all_mem: "sets \<noteq> [] \<Longrightarrow> i \<in> set (intersect_all sets) \<longleftrightarrow> (\<forall>p\<in>set sets. i \<in> set p)"
proof -
  assume "sets \<noteq> []"
  then obtain p ps where ps: "sort_key length sets = p # ps"
    by (metis length_0_conv length_sort list.exhaust)
  then have "set sets = insert p (set ps)" by (metis list.simps(15) set_sort)
  then show ?thesis by (auto simp: intersect_all_def ps list_all_iff)
qed

lemma intersect_all_distinct:
  assumes "\<And>p. p \<in> set sets \<Longrightarrow> distinct p"
  shows "distinct (intersect_all sets)"
proof (cases "sort_key length sets")
  case (Cons p ps)
  then have "p \<in> set sets" by (metis list.set_intros(1) set_sort)
  then show ?thesis using assms by (simp add: intersect_all_def Cons)
qed (simp add: intersect_all_def)

lemma group_union_mem: "i \<in> set (group_union d g) \<longleftrightarrow> list_ex (\<lambda>c. i \<in> set (posting d (KCap c))) g"
  by (auto simp: group_union_def list_ex_iff)

definition structural_match :: "workload_request \<Rightarrow> bool option \<Rightarrow> node_snapshot \<Rightarrow> bool" where
  "structural_match r is_local s =
     (wr_kind r \<in> set (effective_workloads s) \<and> (is_local = None \<or> is_local = Some (cn_local (sn_node s)))
      \<and> set (wr_required_capabilities r) \<subseteq> set (effective_capabilities s)
      \<and> list_all (list_ex (\<lambda>c. c \<in> set (effective_capabilities s))) (alternatives r)
      \<and> (case wr_workspace_mapping r of None \<Rightarrow> True | Some m \<Rightarrow> m \<in> set (cn_workspace_mappings (sn_node s)))
      \<and> (case wr_required_model r of None \<Rightarrow> True | Some m \<Rightarrow> m \<in> set (sn_models s))
      \<and> snap_id s \<notin> set (wr_avoided_node_ids r))"

lemma live_keys_mem:
  "KLocal b \<in> set (live_keys s) \<longleftrightarrow> b = cn_local (sn_node s)"
  "KWorkload w \<in> set (live_keys s) \<longleftrightarrow> w \<in> set (effective_workloads s)"
  "KCap c \<in> set (live_keys s) \<longleftrightarrow> c \<in> set (effective_capabilities s)"
  "KModel m \<in> set (live_keys s) \<longleftrightarrow> m \<in> set (sn_models s)"
  by (auto simp: live_keys_def)

lemma static_workspace_mem: "KWorkspace m \<in> set (static_keys n) \<longleftrightarrow> m \<in> set (cn_workspace_mappings n)"
  by (auto simp: static_keys_def)

lemma capability_sets_mem:
  "(\<forall>p\<in>set (capability_sets d is_local req groups). i \<in> set p) \<longleftrightarrow>
     (case is_local of None \<Rightarrow> True | Some b \<Rightarrow> i \<in> set (posting d (KLocal b))) \<and> (\<forall>c\<in>set req. i \<in> set (posting d (KCap c)))
     \<and> list_all (list_ex (\<lambda>c. i \<in> set (posting d (KCap c)))) groups"
  by (simp add: capability_sets_def ball_Un group_union_mem list_all_iff split: option.split)

lemma matching_exact:
  assumes "index_ok dg ix"
  shows "distinct (matching ix r True is_local)"
    and "i \<in> set (matching ix r True is_local) \<longleftrightarrow>
      (\<exists>s. map_of (ix_observations ix) i = Some s \<and> structural_match r is_local s)"
proof -
  have live: "distinct (posting (ix_live ix) k)" "distinct (posting (ix_static ix) k)"
    "set (posting (ix_live ix) k) = {i. \<exists>s. map_of (ix_observations ix) i = Some s \<and> k \<in> set (live_keys s)}"
    "set (posting (ix_static ix) k) = {i. \<exists>n. map_of (ix_nodes ix) i = Some n \<and> k \<in> set (static_keys n)}" for k
    using assms by (auto simp: index_ok_def postings_ok_def)
  have row: "snap_id s = i \<and> map_of (ix_nodes ix) i = Some (sn_node s)" if "map_of (ix_observations ix) i = Some s" for i s
    using assms that by (auto simp: index_ok_def rows_ok_def)
  show "distinct (matching ix r True is_local)"
    unfolding matching_def Let_def
    by (intro distinct_filter intersect_all_distinct)
      (auto simp: capability_sets_def group_union_def live(1,2) split: option.splits)
  show "i \<in> set (matching ix r True is_local) \<longleftrightarrow>
      (\<exists>s. map_of (ix_observations ix) i = Some s \<and> structural_match r is_local s)"
  proof (cases "map_of (ix_observations ix) i")
    case None
    then show ?thesis by (auto simp: matching_def Let_def intersect_all_mem live(3))
  next
    case (Some s)
    note s = row[OF Some]
    have mem: "i \<in> set (posting (ix_live ix) k) \<longleftrightarrow> k \<in> set (live_keys s)"
      "i \<in> set (posting (ix_static ix) k) \<longleftrightarrow> k \<in> set (static_keys (sn_node s))" for k
      using Some s by (auto simp: live(3,4))
    have "i \<in> set (matching ix r True is_local) \<longleftrightarrow> structural_match r is_local s"
      unfolding matching_def structural_match_def Let_def
      by (simp add: intersect_all_mem ball_Un capability_sets_mem mem live_keys_mem static_workspace_mem s
            del: effective_iff split: option.split) blast
    then show ?thesis using Some by simp
  qed
qed

definition snaps_of :: "node_registry \<Rightarrow> string list \<Rightarrow> node_snapshot list" where
  "snaps_of G ids = map (\<lambda>i. the (map_of (rg_observations G) i)) (sort ids)"

lemma observation_id: "registry_ok dg G \<Longrightarrow> map_of (rg_observations G) i = Some s \<Longrightarrow> snap_id s = i \<and> sn_active_jobs s \<noteq> None"
  by (auto simp: registry_ok_def index_ok_def rows_ok_def)

lemma snaps_of_ids:
  assumes "registry_ok dg G" and "\<And>i. i \<in> set ids \<Longrightarrow> map_of (rg_observations G) i \<noteq> None"
  shows "map snap_id (snaps_of G ids) = sort ids" and "set (snaps_of G ids) = {s. \<exists>i\<in>set ids. map_of (rg_observations G) i = Some s}"
proof -
  have "snap_id (the (map_of (rg_observations G) i)) = i" if "i \<in> set ids" for i
    using assms that observation_id by fastforce
  then show "map snap_id (snaps_of G ids) = sort ids"
    by (simp add: snaps_of_def comp_def) (rule map_idI, simp)
  show "set (snaps_of G ids) = {s. \<exists>i\<in>set ids. map_of (rg_observations G) i = Some s}"
    using assms(2) by (force simp: snaps_of_def image_iff)
qed

lemma sorted_by_id_unique:
  assumes "sorted (map snap_id xs)" "distinct (map snap_id xs)" "sorted (map snap_id ys)" "distinct (map snap_id ys)"
    and "set xs = set ys"
  shows "xs = ys"
  using assms by (intro map_sorted_distinct_set_unique[of snap_id]) (simp_all add: distinct_map)

lemma filter_by_id:
  assumes "sorted (map snap_id xs)" "distinct (map snap_id xs)"
  shows "sorted (map snap_id (filter P xs))" "distinct (map snap_id (filter P xs))"
  using assms by (simp_all add: sorted_filter distinct_map_filter)

definition locality_filter :: "bool option \<Rightarrow> node_snapshot list \<Rightarrow> node_snapshot list" where
  "locality_filter is_local snaps = filter (\<lambda>s. is_local = None \<or> is_local = Some (cn_local (sn_node s))) snaps"

lemma meets_structural: "meets_constraints ttl r s now \<Longrightarrow> is_local = None \<or> is_local = Some (cn_local (sn_node s))
    \<Longrightarrow> structural_match r is_local s"
  by (auto simp: meets_constraints_def structural_match_def)

lemma list_snapshots_eq: "list_snapshots G = snaps_of G (map fst (rg_observations G))"
  by (simp add: list_snapshots_def snaps_of_def)

lemma window_eq:
  assumes "registry_ok dg G"
  shows "ic_snapshots (index_candidates (rg_index G) r is_local) = snaps_of G (matching (rg_index G) r True is_local)"
  using assms by (simp add: index_candidates_def candidates_from_ids_def snaps_of_def Let_def registry_ok_def)

lemma map_of_ex: "(\<exists>i\<in>set (map fst d). map_of d i = Some v) \<longleftrightarrow> (\<exists>i. map_of d i = Some v)"
  by (metis list.set_map map_of_eq_None_iff option.distinct(1))

lemma same_offers:
  assumes ok: "registry_ok dg G"
  shows "ranked_offers ttl r now (snaps_of G (matching (rg_index G) r True is_local))
    = ranked_offers ttl r now (locality_filter is_local (list_snapshots G))"
proof -
  let ?ids = "matching (rg_index G) r True is_local" and ?all = "map fst (rg_observations G)"
  let ?m = "\<lambda>s. meets_constraints ttl r s now"
  have ix: "index_ok dg (rg_index G)" and obs: "ix_observations (rg_index G) = rg_observations G"
    using ok by (auto simp: registry_ok_def)
  have all: "map_of (rg_observations G) i \<noteq> None" if "i \<in> set ?all" for i
    using that by (simp add: map_of_eq_None_iff)
  have in_obs: "map_of (rg_observations G) i \<noteq> None" if "i \<in> set ?ids" for i
    using that matching_exact(2)[OF ix, of i r is_local] by (auto simp: obs)
  have d: "distinct ?ids" "distinct ?all"
    using matching_exact(1)[OF ix] ix by (auto simp: index_ok_def rows_ok_def obs)
  have win: "map snap_id (snaps_of G ?ids) = sort ?ids"
    "set (snaps_of G ?ids) = {s. \<exists>i\<in>set ?ids. map_of (rg_observations G) i = Some s}"
    using snaps_of_ids[OF ok, of ?ids] in_obs by blast+
  have full: "map snap_id (snaps_of G ?all) = sort ?all"
    "set (snaps_of G ?all) = {s. \<exists>i\<in>set ?all. map_of (rg_observations G) i = Some s}"
    using snaps_of_ids[OF ok, of ?all] all by blast+
  have "filter ?m (snaps_of G ?ids) = filter ?m (locality_filter is_local (snaps_of G ?all))"
  proof (rule sorted_by_id_unique)
    have mem: "(\<exists>i\<in>set ?ids. map_of (rg_observations G) i = Some s)
        \<longleftrightarrow> (\<exists>i. map_of (rg_observations G) i = Some s) \<and> structural_match r is_local s" for s
      using matching_exact(2)[OF ix, of _ r is_local] by (auto simp: obs)
    have same: "structural_match r is_local s \<and> ?m s \<longleftrightarrow> (is_local = None \<or> is_local = Some (cn_local (sn_node s))) \<and> ?m s" for s
      using meets_structural[of ttl r s now is_local] by (auto simp: structural_match_def)
    show "set (filter ?m (snaps_of G ?ids)) = set (filter ?m (locality_filter is_local (snaps_of G ?all)))"
      unfolding locality_filter_def set_filter win(2) full(2) mem map_of_ex mem_Collect_eq using same by blast
  qed (auto intro!: filter_by_id simp: locality_filter_def win(1) full(1) d)
  then show ?thesis by (simp add: ranked_offers_def list_snapshots_eq)
qed

definition floors_given :: "workload_request \<Rightarrow> bool" where
  "floors_given r = (wr_min_free_ram_bytes r \<noteq> None \<and> wr_min_free_disk_bytes r \<noteq> None \<and> wr_min_free_vram_bytes r \<noteq> None)"

lemma snaps_sized:
  assumes "registry_ok dg G" and "floors_given r" and "\<And>i. i \<in> set ids \<Longrightarrow> map_of (rg_observations G) i \<noteq> None"
    and "s \<in> set (snaps_of G ids)"
  shows "sized r s"
proof -
  obtain i where "map_of (rg_observations G) i = Some s"
    using assms(4) snaps_of_ids(2)[OF assms(1,3)] by auto
  from observation_id[OF assms(1) this] show ?thesis
    using assms(2) by (simp add: sized_def floors_given_def)
qed

lemma place_snaps:
  assumes "registry_ok dg G" and "floors_given r" and "wr_kind r \<noteq> WkInference" and "distinct ids"
    and "\<And>i. i \<in> set ids \<Longrightarrow> map_of (rg_observations G) i \<noteq> None"
  shows "\<exists>d. place sha ttl r (filter P (snaps_of G ids)) (Utc now) digest_of = Inr d
    \<and> pd_ranked_node_ids d = map snap_id (ranked_offers ttl r now (filter P (snaps_of G ids)))
    \<and> pd_selected_node_id d = (case pd_ranked_node_ids d of [] \<Rightarrow> None | i # _ \<Rightarrow> Some i)"
proof -
  have ids: "sorted (map snap_id (snaps_of G ids))" "distinct (map snap_id (snaps_of G ids))"
    using assms(4) by (simp_all add: snaps_of_ids(1)[OF assms(1,5)])
  note part = filter_by_id[OF ids, of P]
  have "sized r s" if "s \<in> set (filter P (snaps_of G ids))" for s
    using that snaps_sized[OF assms(1,2,5)] by simp
  from place_sized[OF assms(3) part(2) this] show ?thesis
    using part(1) by (simp add: sort_key_id_if_sorted) blast
qed

lemma assess_window_full:
  assumes "registry_ok dg G" and "floors_given r" and "wr_kind r \<noteq> WkInference"
  shows "\<exists>d sc. assess_window sha ttl G r (Utc now) is_local = Inr (d, sc)
    \<and> pd_ranked_node_ids d = map snap_id (ranked_offers ttl r now (locality_filter is_local (list_snapshots G)))
    \<and> pd_selected_node_id d = (case pd_ranked_node_ids d of [] \<Rightarrow> None | i # _ \<Rightarrow> Some i)"
proof -
  let ?ids = "matching (rg_index G) r True is_local"
  have ix: "index_ok dg (rg_index G)" and obs: "ix_observations (rg_index G) = rg_observations G"
    using assms(1) by (auto simp: registry_ok_def)
  have "map_of (rg_observations G) i \<noteq> None" if "i \<in> set ?ids" for i
    using that matching_exact(2)[OF ix, of i r is_local] by (auto simp: obs)
  with place_snaps[OF assms, of ?ids sha ttl "\<lambda>_. True" now "\<lambda>s. the (map_of (ic_digests (index_candidates (rg_index G) r is_local)) (snap_id s))"]
    matching_exact(1)[OF ix, of r is_local] show ?thesis
    by (simp add: assess_window_def registry_candidates_def aware_utc_def window_eq[OF assms(1)] same_offers[OF assms(1)])
qed

lemma full_place:
  assumes "registry_ok dg G" and "floors_given r" and "wr_kind r \<noteq> WkInference"
  shows "\<exists>d. place sha ttl r (locality_filter is_local (list_snapshots G)) (Utc now) digest_of = Inr d
    \<and> pd_ranked_node_ids d = map snap_id (ranked_offers ttl r now (locality_filter is_local (list_snapshots G)))
    \<and> pd_selected_node_id d = (case pd_ranked_node_ids d of [] \<Rightarrow> None | i # _ \<Rightarrow> Some i)"
proof -
  have "distinct (map fst (rg_observations G))"
    using assms(1) by (auto simp: registry_ok_def index_ok_def rows_ok_def)
  with place_snaps[OF assms, of "map fst (rg_observations G)"] show ?thesis
    by (simp add: list_snapshots_eq locality_filter_def map_of_eq_None_iff)
qed

text \<open>
  (C26) Placing through the index is placing over the whole inventory. After any history of the registry, with integer
  job counts and floors, the placement that looks only at the nodes the postings yield ranks the same nodes in the
  same order and selects the same one as the placement over all last observations of the requested locality.
\<close>

theorem indexed_placement_exact:
  assumes "mk_registry generation nodes ttl0 = Inr G0" and "run_of (counted_step dg) G0 acts G"
    and "floors_given r" and "wr_kind r \<noteq> WkInference"
  shows "\<exists>d sc d'. assess_window sha ttl G r (Utc now) is_local = Inr (d, sc)
    \<and> place sha ttl r (locality_filter is_local (list_snapshots G)) (Utc now) digest_of = Inr d'
    \<and> pd_ranked_node_ids d = pd_ranked_node_ids d' \<and> pd_selected_node_id d = pd_selected_node_id d'"
proof -
  note ok = reachable_ok[OF assms(1,2)]
  obtain d sc where "assess_window sha ttl G r (Utc now) is_local = Inr (d, sc)"
    "pd_ranked_node_ids d = map snap_id (ranked_offers ttl r now (locality_filter is_local (list_snapshots G)))"
    "pd_selected_node_id d = (case pd_ranked_node_ids d of [] \<Rightarrow> None | i # _ \<Rightarrow> Some i)"
    using assess_window_full[OF ok assms(3,4)] by blast
  moreover obtain d' where "place sha ttl r (locality_filter is_local (list_snapshots G)) (Utc now) digest_of = Inr d'"
    "pd_ranked_node_ids d' = map snap_id (ranked_offers ttl r now (locality_filter is_local (list_snapshots G)))"
    "pd_selected_node_id d' = (case pd_ranked_node_ids d' of [] \<Rightarrow> None | i # _ \<Rightarrow> Some i)"
    using full_place[OF ok assms(3,4)] by blast
  ultimately show ?thesis by auto
qed

lemma sample_request_ok: "floors_given sample_request" "wr_kind sample_request \<noteq> WkInference"
  by (simp_all add: floors_given_def sample_request_def)

theorem indexed_placement_exact_witness:
  "\<exists>d sc. assess_window (\<lambda>_. []) 30000000 sample_observed sample_request (Utc 200) (Some True) = Inr (d, sc)"
  using indexed_placement_exact[OF sample_registry_made sample_run sample_request_ok] by blast

lemma list_snapshots_mem:
  assumes "registry_ok dg G"
  shows "s \<in> set (list_snapshots G) \<longleftrightarrow> (\<exists>i. map_of (rg_observations G) i = Some s)"
proof -
  have "map_of (rg_observations G) i \<noteq> None" if "i \<in> set (map fst (rg_observations G))" for i
    using that by (simp add: map_of_eq_None_iff)
  then have "set (list_snapshots G) = {s. \<exists>i\<in>set (map fst (rg_observations G)). map_of (rg_observations G) i = Some s}"
    using snaps_of_ids(2)[OF assms, of "map fst (rg_observations G)"] unfolding list_snapshots_eq by blast
  then show ?thesis by (simp only: mem_Collect_eq map_of_ex)
qed

lemma window_choice:
  assumes "registry_ok dg G" and "floors_given r" and "wr_kind r \<noteq> WkInference"
  obtains d sc where "assess_window sha ttl G r (Utc now) is_local = Inr (d, sc)"
    and "\<And>i. pd_selected_node_id d = Some i \<Longrightarrow> \<exists>s. map_of (rg_observations G) i = Some s \<and> meets_constraints ttl r s now
      \<and> (is_local = None \<or> is_local = Some (cn_local (sn_node s)))"
    and "\<And>i s. pd_selected_node_id d = None \<Longrightarrow> map_of (rg_observations G) i = Some s \<Longrightarrow> meets_constraints ttl r s now
      \<Longrightarrow> is_local \<noteq> None \<and> is_local \<noteq> Some (cn_local (sn_node s))"
proof -
  let ?offers = "ranked_offers ttl r now (locality_filter is_local (list_snapshots G))"
  obtain d sc where d: "assess_window sha ttl G r (Utc now) is_local = Inr (d, sc)"
    "pd_ranked_node_ids d = map snap_id ?offers"
    "pd_selected_node_id d = (case pd_ranked_node_ids d of [] \<Rightarrow> None | i # _ \<Rightarrow> Some i)"
    using assess_window_full[OF assms] by blast
  have offers: "s \<in> set ?offers \<longleftrightarrow> (\<exists>i. map_of (rg_observations G) i = Some s) \<and> meets_constraints ttl r s now
      \<and> (is_local = None \<or> is_local = Some (cn_local (sn_node s)))" for s
    by (auto simp: locality_filter_def list_snapshots_mem[OF assms(1)])
  show thesis
  proof (rule that[OF d(1)])
    fix i assume "pd_selected_node_id d = Some i"
    then obtain s where "s \<in> set ?offers" "i = snap_id s"
      using d(2,3) by (cases ?offers) auto
    then show "\<exists>s. map_of (rg_observations G) i = Some s \<and> meets_constraints ttl r s now
        \<and> (is_local = None \<or> is_local = Some (cn_local (sn_node s)))"
      using offers[of s] observation_id[OF assms(1)] by fastforce
  next
    fix i s assume "pd_selected_node_id d = None" "map_of (rg_observations G) i = Some s" "meets_constraints ttl r s now"
    moreover from this(1) have "?offers = []" using d(2,3) by (cases ?offers) auto
    ultimately show "is_local \<noteq> None \<and> is_local \<noteq> Some (cn_local (sn_node s))"
      using offers[of s] by auto
  qed
qed

text \<open>
  (C27) A workload runs where its request consents. After any history of the registry, placing a request returns a decision;
  a selected node was observed and meets every constraint, it is remote only if the request allows remote
  execution and neither it nor its policy asks for local execution, and a request that prefers remote nodes is placed
  on a local one only if it allows the fallback and no observed remote node meets its constraints.
\<close>

theorem placement_respects_consent:
  assumes "mk_registry generation nodes ttl0 = Inr G0" and "run_of (counted_step dg) G0 acts G"
    and "floors_given r" and "wr_kind r \<noteq> WkInference"
  shows "\<exists>d sc. service_place sha ttl G r (Utc now) = Inr (d, sc)
    \<and> (\<forall>i. pd_selected_node_id d = Some i \<longrightarrow>
        (\<exists>s. map_of (rg_observations G) i = Some s \<and> meets_constraints ttl r s now
          \<and> (\<not> cn_local (sn_node s) \<longrightarrow> wr_allow_remote r \<and> \<not> wr_local_only r \<and> wr_placement_policy r \<noteq> Some LocalOnly)
          \<and> (cn_local (sn_node s) \<longrightarrow> wr_allow_remote r \<longrightarrow> \<not> wr_local_only r
              \<longrightarrow> wr_placement_policy r \<notin> {Some LocalOnly, Some RankAll}
              \<longrightarrow> wr_allow_local_fallback r \<and> \<not> (\<exists>j t. map_of (rg_observations G) j = Some t \<and> \<not> cn_local (sn_node t)
                    \<and> meets_constraints ttl r t now))))"
proof -
  note win = window_choice[OF reachable_ok[OF assms(1,2)] assms(3,4), of sha ttl now]
  obtain dl sl where l: "assess_window sha ttl G r (Utc now) (Some True) = Inr (dl, sl)"
    "\<And>i. pd_selected_node_id dl = Some i \<Longrightarrow> \<exists>s. map_of (rg_observations G) i = Some s \<and> meets_constraints ttl r s now \<and> cn_local (sn_node s)"
    using win[of "Some True" thesis] by (metis option.distinct(1) option.inject)
  obtain dr sr where rem: "assess_window sha ttl G r (Utc now) (Some False) = Inr (dr, sr)"
    "\<And>i. pd_selected_node_id dr = Some i \<Longrightarrow> \<exists>s. map_of (rg_observations G) i = Some s \<and> meets_constraints ttl r s now \<and> \<not> cn_local (sn_node s)"
    "\<And>i s. pd_selected_node_id dr = None \<Longrightarrow> map_of (rg_observations G) i = Some s \<Longrightarrow> meets_constraints ttl r s now \<Longrightarrow> cn_local (sn_node s)"
    using win[of "Some False" thesis] by (metis option.distinct(1) option.inject)
  obtain da sa where a: "assess_window sha ttl G r (Utc now) None = Inr (da, sa)"
    "\<And>i. pd_selected_node_id da = Some i \<Longrightarrow> \<exists>s. map_of (rg_observations G) i = Some s \<and> meets_constraints ttl r s now"
    using win[of None thesis] by metis
  consider (local) "wr_local_only r \<or> \<not> wr_allow_remote r \<or> wr_placement_policy r = Some LocalOnly"
    | (rank) "\<not> (wr_local_only r \<or> \<not> wr_allow_remote r \<or> wr_placement_policy r = Some LocalOnly)" "wr_placement_policy r = Some RankAll"
    | (remote) "\<not> (wr_local_only r \<or> \<not> wr_allow_remote r \<or> wr_placement_policy r = Some LocalOnly)"
        "wr_placement_policy r \<noteq> Some RankAll"
    by blast
  then show ?thesis
  proof cases
    case local
    then have "service_place sha ttl G r (Utc now) = Inr (dl, sl)" by (simp add: service_place_def l(1))
    then show ?thesis using local l(2) by fastforce
  next
    case rank
    then have "service_place sha ttl G r (Utc now) = Inr (da, sa)" by (simp add: service_place_def a(1))
    then show ?thesis using rank a(2) by fastforce
  next
    case remote
    show ?thesis
    proof (cases "pd_selected_node_id dr = None \<and> wr_allow_local_fallback r")
      case True
      then have "service_place sha ttl G r (Utc now) = Inr (dl, sl)"
        using remote by (simp add: service_place_def l(1) rem(1))
      then show ?thesis using True remote l(2) rem(3) by fastforce
    next
      case False
      then have "service_place sha ttl G r (Utc now) = Inr (dr, sr)"
        using remote by (auto simp: service_place_def rem(1))
      then show ?thesis using remote rem(2) by fastforce
    qed
  qed
qed

theorem placement_respects_consent_witness:
  "\<exists>d sc. service_place (\<lambda>_. []) 30000000 sample_observed sample_request (Utc 200) = Inr (d, sc)"
  using placement_respects_consent[OF sample_registry_made sample_run sample_request_ok] by blast

section \<open>A job count that is no integer\<close>

definition wedged :: "node_registry \<Rightarrow> string \<Rightarrow> bool" where
  "wedged G i =
     (case map_of (ix_observations (rg_index G)) i of None \<Rightarrow> False | Some p \<Rightarrow> sn_active_jobs p = None)"

lemma record_observations:
  "ix_observations (snd (record_observation i dg s ix)) = AList.update i s (ix_observations ix)"
  "(\<exists>e. fst (record_observation i dg s ix) = Inl e) \<longleftrightarrow> sn_active_jobs s = None"
  by (auto simp: record_observation_def Let_def split: option.split)

lemma record_fails: "fst (record_observation i dg s ix) = Inl e \<Longrightarrow> sn_active_jobs s = None"
  using record_observations(2) by blast

lemma forget_observations:
  "ix_observations (snd (forget_prior i p ix)) = ix_observations ix"
  "(\<exists>e. fst (forget_prior i p ix) = Inl e) \<longleftrightarrow> sn_active_jobs p = None"
  by (auto simp: forget_prior_def Let_def split: option.split)

lemma index_update_cases:
  obtains (fresh) "index_update dg s ix = record_observation (snap_id s) (dg s) s ix" "map_of (ix_observations ix) (snap_id s) = None"
  | (stuck) p e ix1 where "map_of (ix_observations ix) (snap_id s) = Some p" "sn_active_jobs p = None"
      "index_update dg s ix = (Inl e, ix1)" "ix_observations ix1 = ix_observations ix"
  | (again) p ix1 where "map_of (ix_observations ix) (snap_id s) = Some p" "sn_active_jobs p \<noteq> None"
      "index_update dg s ix = record_observation (snap_id s) (dg s) s ix1" "ix_observations ix1 = ix_observations ix"
proof (cases "map_of (ix_observations ix) (snap_id s)")
  case None
  then show thesis by (intro fresh) (simp_all add: index_update_def)
next
  case (Some p)
  obtain x ix1 where f: "forget_prior (snap_id s) p ix = (x, ix1)" by fastforce
  have obs: "ix_observations ix1 = ix_observations ix" and err: "(\<exists>e. x = Inl e) \<longleftrightarrow> sn_active_jobs p = None"
    using forget_observations[of "snap_id s" p ix] f by auto
  show thesis
  proof (cases x)
    case (Inl e)
    then show ?thesis using Some err obs f by (intro stuck[of p e ix1]) (auto simp: index_update_def)
  next
    case (Inr u)
    then show ?thesis using Some err obs f by (intro again[of p ix1]) (auto simp: index_update_def)
  qed
qed

lemma index_update_wedge:
  assumes "map_of (ix_observations ix) i = Some p" and "sn_active_jobs p = None"
  shows "map_of (ix_observations (snd (index_update dg s ix))) i = Some p"
    and "snap_id s = i \<Longrightarrow> \<exists>e. fst (index_update dg s ix) = Inl e"
proof -
  show "map_of (ix_observations (snd (index_update dg s ix))) i = Some p"
    by (cases rule: index_update_cases[of dg s ix]) (use assms in \<open>auto simp: record_observations dict_simps\<close>)
  show "snap_id s = i \<Longrightarrow> \<exists>e. fst (index_update dg s ix) = Inl e"
    by (cases rule: index_update_cases[of dg s ix]) (use assms in auto)
qed

lemma index_update_fails:
  assumes "fst (index_update dg s ix) = Inl e"
  shows "\<exists>p. map_of (ix_observations (snd (index_update dg s ix))) (snap_id s) = Some p \<and> sn_active_jobs p = None"
  by (cases rule: index_update_cases[of dg s ix])
    (use assms in \<open>auto simp: record_observations dict_simps dest: record_fails\<close>)

lemma store_index:
  "rg_index (snd (store_observation dg i s errs G)) = snd (index_update dg s (rg_index G))"
  "(\<exists>e. fst (store_observation dg i s errs G) = Inl e) \<longleftrightarrow> (\<exists>e. fst (index_update dg s (rg_index G)) = Inl e)"
  by (auto simp: store_observation_def split: prod.split sum.split)

lemma expire_observations: "ix_observations (expire_due now heap ix) = ix_observations ix"
  by (induction now heap ix rule: expire_due.induct) auto

lemma summary_index: "ix_observations (rg_index (snd (registry_summary t G))) = ix_observations (rg_index G)"
  by (auto simp: registry_summary_def index_summary_def summary_reset_def expire_observations Let_def
      split: sum.split)

lemma wedged_store: "wedged G i \<Longrightarrow> wedged (snd (store_observation dg j s errs G)) i"
  using index_update_wedge(1)[of "rg_index G" i] by (auto simp: wedged_def store_index split: option.splits)

lemma wedged_step: "reg_step dg G act G' \<Longrightarrow> wedged G i \<Longrightarrow> wedged G' i"
  by (cases act)
    (auto simp: reg_step_def observe_node_def mark_probe_failed_def wedged_store split: sum.split prod.split,
     simp add: wedged_def summary_index)

lemma wedged_run: "run_of (reg_step dg) G acts G' \<Longrightarrow> wedged G i \<Longrightarrow> wedged G' i"
  by (induction rule: run_of.induct) (auto dest: wedged_step)

definition nodes_keyed :: "node_registry \<Rightarrow> bool" where
  "nodes_keyed G = (\<forall>i n. map_of (rg_nodes G) i = Some n \<longrightarrow> cn_node_id n = i)"

lemma store_nodes: "rg_nodes (snd (store_observation dg i s errs G)) = rg_nodes G"
  by (auto simp: store_observation_def split: prod.split sum.split)

lemma step_nodes: "reg_step dg G act G' \<Longrightarrow> rg_nodes G' = rg_nodes G"
  by (cases act)
    (auto simp: reg_step_def observe_node_def mark_probe_failed_def registry_summary_def store_nodes split: sum.split prod.split)

lemma run_nodes: "run_of (reg_step dg) G acts G' \<Longrightarrow> rg_nodes G' = rg_nodes G"
  by (induction rule: run_of.induct) (auto dest: step_nodes)

lemma new_nodes_keyed: "mk_registry generation nodes ttl = Inr G \<Longrightarrow> nodes_keyed G"
  using mk_registry_ok by (auto simp: nodes_keyed_def registry_ok_def)

lemma checks_no_type_error: "observe_checks s t G \<noteq> Inl (TypeError m)"
  by (auto simp: observe_checks_def get_node_def aware_utc_def rbind_Inl_iff split: option.splits py_time.splits if_splits)

lemma observe_type_error:
  assumes "nodes_keyed G" and "fst (observe_node dg s t G) = Inl (TypeError m)"
  shows "wedged (snd (observe_node dg s t G)) (snap_id s)"
proof -
  obtain n u where c: "observe_checks s t G = Inr (n, u)"
    using assms(2) checks_no_type_error[of s t G m] by (auto simp: observe_node_def split: sum.splits)
  let ?s = "s\<lparr>sn_node := n, sn_received_at := Some u\<rparr>" and ?errs = "AList.delete (cn_node_id n) (rg_probe_errors G)"
  have id: "snap_id ?s = snap_id s"
    using assms(1) observe_checks_Inr[OF c] by (simp add: nodes_keyed_def snap_id_def)
  have obs: "observe_node dg s t G = store_observation dg (cn_node_id n) ?s ?errs G"
    by (simp add: observe_node_def c)
  then obtain e where "fst (index_update dg ?s (rg_index G)) = Inl e"
    using assms(2) store_index(2)[of dg "cn_node_id n" ?s ?errs G] by auto
  from index_update_fails[OF this] show ?thesis
    by (auto simp: wedged_def obs store_index id)
qed

lemma wedged_store_fails: "wedged G (snap_id s) \<Longrightarrow> \<not> is_ok (fst (store_observation dg i s errs G))"
  using index_update_wedge(2)[of "rg_index G" "snap_id s" _ s] store_index(2)[of dg i s errs G]
  by (fastforce simp: wedged_def is_ok_iff split: option.splits)

lemma wedged_fails:
  assumes "nodes_keyed G" and "wedged G i"
  shows "snap_id s = i \<Longrightarrow> \<not> is_ok (fst (observe_node dg s t G))" and "\<not> is_ok (fst (mark_probe_failed dg i t' ev G))"
proof -
  show "\<not> is_ok (fst (observe_node dg s t G))" if "snap_id s = i"
  proof (cases "observe_checks s t G")
    case (Inr a)
    obtain n u where a: "a = (n, u)" by (cases a)
    have "snap_id (s\<lparr>sn_node := n, sn_received_at := Some u\<rparr>) = i"
      using assms(1) observe_checks_Inr[OF Inr[unfolded a]] that by (simp add: nodes_keyed_def snap_id_def)
    then show ?thesis
      using wedged_store_fails[of G "s\<lparr>sn_node := n, sn_received_at := Some u\<rparr>" dg "cn_node_id n"] assms(2)
      by (auto simp: observe_node_def Inr a)
  qed (simp add: observe_node_def)
  show "\<not> is_ok (fst (mark_probe_failed dg i t' ev G))"
  proof (cases "probe_checks i t' ev G")
    case (Inr a)
    obtain n u why where a: "a = (n, u, why)" by (cases a)
    let ?s = "failed_snapshot n u why (map_of (rg_observations G) i)"
    have "snap_id ?s = i"
      using assms(1) probe_checks_Inr[OF Inr[unfolded a]]
      by (simp add: nodes_keyed_def snap_id_def failed_snapshot_def split: option.split)
    then show ?thesis
      using wedged_store_fails[of G ?s dg i] assms(2) by (auto simp: mark_probe_failed_def Inr a)
  qed (simp add: mark_probe_failed_def)
qed

text \<open>
  (C38) One observation without a job count disables its node for good. The constructor of a snapshot accepts \<^verbatim>\<open>None\<close> as the number
  of active jobs; recording it raises a \<open>TypeError\<close> after the index was changed. In any history, once an
  observation of a node ended in a \<open>TypeError\<close>, whatever happens next every observation of that node and every
  record of a failed probe of it raises as well.
\<close>

theorem null_job_count_wedges_node:
  assumes "mk_registry generation nodes ttl = Inr G0" and "run_of (reg_step dg) G0 before G"
    and "observe_node dg s t G = (Inl (TypeError m), G1)" and "run_of (reg_step dg) G1 after G2"
  shows "(\<forall>s' t'. snap_id s' = snap_id s \<longrightarrow> \<not> is_ok (fst (observe_node dg s' t' G2)))
    \<and> (\<forall>t' ev. \<not> is_ok (fst (mark_probe_failed dg (snap_id s) t' ev G2)))"
proof -
  have keyed: "nodes_keyed G" using new_nodes_keyed[OF assms(1)] run_nodes[OF assms(2)] by (simp add: nodes_keyed_def)
  have "rg_nodes G1 = rg_nodes G"
    using step_nodes[of dg G "Observe s t" G1] assms(3) by (simp add: reg_step_def)
  then have "nodes_keyed G2" using keyed run_nodes[OF assms(4)] by (simp add: nodes_keyed_def)
  moreover have "wedged G1 (snap_id s)" using observe_type_error[OF keyed, of dg s t m] assms(3) by simp
  ultimately show ?thesis using wedged_fails wedged_run[OF assms(4)] by blast
qed

theorem null_job_count_wedges_node_witness:
  "\<exists>G1. observe_node (\<lambda>_. []) ((sample_snapshot ''a'' 1)\<lparr>sn_active_jobs := None\<rparr>) None sample_registry
       = (Inl (TypeError ''unsupported operand''), G1)
     \<and> \<not> is_ok (fst (observe_node (\<lambda>_. []) (sample_snapshot ''a'' 1) None G1))"
proof -
  let ?s = "(sample_snapshot ''a'' 1)\<lparr>sn_active_jobs := None\<rparr>"
  have "fst (observe_node (\<lambda>_. []) ?s None sample_registry) = Inl (TypeError ''unsupported operand'')"
    by (simp add: observe_node_def observe_checks_def get_node_def snap_id_def sample_snapshot_def sample_node_def
        sample_registry_def receipt_time_def receipt_backwards_def store_observation_def index_update_def
        record_observation_def mk_index_def Let_def)
  then obtain G1 where G1: "observe_node (\<lambda>_. []) ?s None sample_registry = (Inl (TypeError ''unsupported operand''), G1)"
    by (metis prod.collapse)
  have "snap_id (sample_snapshot ''a'' 1) = snap_id ?s" by (simp add: snap_id_def)
  then show ?thesis
    using G1 null_job_count_wedges_node[OF sample_registry_made run_Nil G1 run_Nil] by blast
qed

end
