(* ===== verification/Spec2Isabelle.thy ===== *)
theory Spec2Isabelle
  imports OwnershipJournal EpochFence ReplicationAck TakeoverReadiness Reconnect Membership Concurrency
    PartitionRouting TaskLedger WorkStealing CircuitBreaker TokenBucket HashRing PermissionGate JsonPatch MemoryService
    BatchGuard CancellationTree ArtifactRetention ResourceLeases ComputeRegistry
begin

text \<open>
  \<^bold>\<open>Sonder runtime: the coordination, admission and replication core.\<close>

  Sonder is a local-first agent runtime in Python. A served model proposes tool calls; a permission gate
  decides which of them run; schedulers decide where and how many at a time; and in a cluster an ownership
  authority decides which node may act for a resource, fences the others, and replicates memory to peers.
  This development models the parts that carry those decisions. They live under \<^verbatim>\<open>src/sonder_runtime/domain\<close>
  (pure policies and state machines), \<^verbatim>\<open>src/sonder_runtime/adapters\<close> (their SQLite and HTTP implementations),
  \<^verbatim>\<open>src/sonder_runtime/application\<close> and \<^verbatim>\<open>bootstrap\<close> (the services that drive them), \<^verbatim>\<open>src/permission_modes.py\<close>
  and \<^verbatim>\<open>src/permission_rules.py\<close>.

  \<^bold>\<open>How code becomes definitions.\<close> A dataclass is a record, an enumeration a datatype, a method a function from
  the state to a result and the new state. A raised exception is the left of a sum (\<open>'a res\<close>, \<open>py_exn\<close> has the
  exceptions that occur); an early return is a branch. A parameter annotated \<^verbatim>\<open>object\<close> is a \<open>pyval\<close> (or a \<open>json\<close>),
  so that the type checks of validating constructors are part of the model. Dictionaries are association lists
  in insertion order, a float is the rational number it stands for, an infinity or NaN, text is a list of code points up to
  U+00FF, integers are unbounded with the 63-bit limits of SQLite written out. A database is its tables, and
  an operation is one transaction: if it raises, the tables are unchanged. What the code takes from outside
  (clocks, hashes, token generators, probes, links, disk failures) is an argument, and where a theorem relies
  on it, a named hypothesis states what (\<open>codec_ok\<close>: a digest is 64 hexadecimal digits; no collision is ever
  assumed unless a theorem says so).

  \<^bold>\<open>Theories.\<close>
  \<^item> \<open>Prelude\<close>: Python values, exceptions, results, dictionaries, text, the runs of a transition system and the
    interface \<open>invariant_system\<close> (an invariant kept by every step holds along every run), which most stateful
    components interpret. \<open>JsonValue\<close>: JSON values and their canonical form. \<open>Float64\<close>: rounding to binary64, its
    error, and that it respects the doubles; the breaker, the bucket and the placement score round every operation.
  \<^item> \<open>Ownership\<close> (\<^verbatim>\<open>domain/cluster_ownership.py\<close>): acquire, renew, validate, release and proven takeover of scoped
    leases. Epochs handed out for a resource strictly increase; at most one lease is valid at a time; a
    superseded lease is refused for ever. The interface \<open>lease_authority\<close> is interpreted here and in \<open>OwnershipJournal\<close>
    (\<^verbatim>\<open>adapters/persistence/sqlite/cluster_ownership.py\<close>), the durable version with dynamically typed rows,
    which simulates the authority in memory. \<open>EpochFence\<close> (\<^verbatim>\<open>domain/worker_epoch_fence.py\<close>) is the check a worker
    makes before an effect; with a fencing authority it refuses every superseded worker.
  \<^item> \<open>ReplicationAck\<close> (\<^verbatim>\<open>domain/replication_ack.py\<close>): when an event counts as replicated. \<open>TakeoverReadiness\<close>
    (\<^verbatim>\<open>domain/takeover_readiness.py\<close>): when a dead owner may be replaced. \<open>Reconnect\<close>
    (\<^verbatim>\<open>domain/reconnect_reconciliation.py\<close>): what a reconnecting client may use and repeat. \<open>Membership\<close>
    (\<^verbatim>\<open>domain/inference_membership.py\<close>): which workers are on the roster.
  \<^item> \<open>Concurrency\<close>, \<open>PartitionRouting\<close>, \<open>TaskLedger\<close>, \<open>WorkStealing\<close>, \<open>CircuitBreaker\<close>, \<open>TokenBucket\<close>, \<open>HashRing\<close> (the
    modules \<^verbatim>\<open>adaptive_concurrency\<close>, \<^verbatim>\<open>scheduler_partition\<close>, \<^verbatim>\<open>task_ledger\<close>, \<^verbatim>\<open>work_stealing\<close>, \<^verbatim>\<open>circuit_breaker\<close>,
    \<^verbatim>\<open>token_bucket\<close>, \<^verbatim>\<open>consistent_hash\<close> of the domain): the scheduling policies. Lanes that run together never
    conflict, a ledger is accepted exactly if it is acyclic, no task is lost or doubled by stealing, the
    breaker fails fast and backs off, the bucket bounds the rate up to the rounding of its arithmetic.
  \<^item> \<open>PermissionPolicy\<close> (\<^verbatim>\<open>permission_rules.py\<close>, \<^verbatim>\<open>domain/execution/policy.py\<close>), \<open>PermissionModes\<close> and \<open>PermissionGate\<close>
    (\<^verbatim>\<open>permission_modes.py\<close>), \<open>ApprovalLedger\<close> (\<^verbatim>\<open>adapters/security/approval_ledger.py\<close>): whether a call may run.
    The gate follows its order of precedence, an unattended caller runs something risky only by a rule or by an
    approval of exactly this call, and an approval is used at most once.
  \<^item> \<open>BatchGuard\<close> (\<^verbatim>\<open>domain/batch_coalescing.py\<close> and the agent turn of \<^verbatim>\<open>server.py\<close>): the guard that steers runs of
    single reads to a batch tool. A refusal is earned by the history of the turn, and a window is bounded.
  \<^item> \<open>CancellationTree\<close> (\<^verbatim>\<open>domain/cancellation_tree.py\<close>): threads over a heap of cancellation scopes, a step being one
    section under a lock. A cancellation reaches all scopes below, a quiescent scope is empty, and join returns.
  \<^item> \<open>ArtifactRetention\<close> (\<^verbatim>\<open>domain/artifact_retention.py\<close>): the plan of a garbage collection over cached artifacts. Only
    released artifacts are deleted, every entry is decided, and the order of the snapshots does not matter.
  \<^item> \<open>ResourceLeases\<close> (\<^verbatim>\<open>domain/resource_leases.py\<close>, \<^verbatim>\<open>adapters/resource_leases.py\<close>): leases on ports and other resources the
    workers share. A lease is never taken but under the rule for reclaiming, a port request takes the first open
    port, and the table keeps its invariant.
  \<^item> \<open>ComputeFabric\<close> (\<^verbatim>\<open>domain/compute_fabric.py\<close>, \<^verbatim>\<open>domain/compute_profiles.py\<close>): the scheduler that places a workload on a node.
    It picks the best of exactly the nodes that meet the constraints. \<open>ComputeRegistry\<close>
    (\<^verbatim>\<open>application/compute_fabric/registry.py\<close>, \<^verbatim>\<open>index.py\<close>, part of \<^verbatim>\<open>service.py\<close>): the registry of observations and its index.
    Placing through the index equals placing over the whole inventory, the running summary is exact, and placement
    respects the consent of the request; an observation without a job count wedges its node.
  \<^item> \<open>JsonPatch\<close> (\<^verbatim>\<open>adapters/filesystem/json_patch.py\<close>): the bounded JSON patch and its commit, whose rollback
    replaces nothing but the document the commit wrote.
  \<^item> \<open>MemoryMutation\<close> (\<^verbatim>\<open>domain/memory/replication.py\<close>): the records replicas exchange, and their wire forms.
    \<open>MemoryJournal\<close> (\<^verbatim>\<open>adapters/persistence/sqlite/memory_replication.py\<close>): the journal, its invariant, pruning,
    and that a replica follows its source page by page. \<open>MemoryReplication\<close> (\<^verbatim>\<open>application/memory/replication.py\<close>):
    the coordinator over sinks (interface \<open>replica_sink\<close>, interpreted on journals behind unreliable links with
    the byte bound of requests and the checks of the receiving fact sink) and the receiver. \<open>MemoryPeer\<close> (\<^verbatim>\<open>adapters/memory_replication/http_client.py\<close>,
    \<^verbatim>\<open>interfaces/http/memory_replication.py\<close>): the same over HTTP, a refinement. \<open>MemoryService\<close>
    (\<^verbatim>\<open>bootstrap/memory_replication.py\<close>): the durable cursor. Under any failures of links, disk and process no
    record is skipped; once the failures stop every peer that admits the pages catches up; and a page that a
    peer does not admit stops the replication.
  \<^item> This theory: that the takeover gate and the ownership authority ask for compatible evidence.

  \<^bold>\<open>Loops and fuel.\<close> All functions are total. Loops over data are structural recursions; the stack loop of
  \<open>json_depth\<close>, the release loop of the task ledger and the glob matcher have measures. Fuel occurs only in
  \<open>walk\<close>, a client that follows page cursors: one more than the number of partitions is enough, which its
  theorem proves.

  \<^bold>\<open>Not modelled.\<close> Rounding in the sums of clock readings of leases and approvals (exact rationals stand
  for doubles there), overflow of floats, and characters above U+00FF. The projection of replicated facts onto the
  tables of the memory store. Threads:
  the methods of the modelled classes run under their locks, so operations are atomic steps, and interleavings
  are sequences of steps; in the cancellation tree, whose methods give up the lock in between, a step is one
  locked section. Blocking on a lock is not modelled. Connections, file permissions, signatures and TLS. The rest of the runtime: the
  HTTP, REPL and MCP front ends and \<^verbatim>\<open>server.py\<close> are transport and presentation around these decisions; the
  inference, training, build, debugging and mesh-generation parts call external programs and models, whose
  behaviour is not in the repository; the memory store and retrieval are SQL and embedding queries. The
  manifest lists them part by part.
\<close>

section \<open>Takeover: the readiness gate and the ownership authority\<close>

lemma mk_takeover_request_Inr:
  assumes "mk_takeover_request c k r w e n t = Inr q"
  shows "identity_match (ts_cluster_id (tq_scope q))" "ts_resource_kind (tq_scope q) \<in> set resource_kinds"
    "identity_match (ts_resource_id (tq_scope q))" "identity_match (ts_previous_owner_id (tq_scope q))"
    "1 \<le> ts_previous_epoch (tq_scope q)" "ts_previous_epoch (tq_scope q) \<le> max_int63"
    "identity_match (tq_new_owner_id q)" "tq_new_owner_id q \<noteq> ts_previous_owner_id (tq_scope q)"
  using assms
  by (auto simp: mk_takeover_request_def mk_takeover_scope_def run_simps tr_resource_kind_def resource_kinds_def
      split: if_splits pyval.splits)

lemma mk_fence_evidence_Inr:
  assumes "mk_fence_evidence c k r w e receipt authority confirmed = Inr f"
  shows "identity_match (fe_receipt_id f)"
  using assms by (auto simp: mk_fence_evidence_def run_simps)

lemma tr_bounded_ids_Inr:
  assumes "tr_bounded_ids v field n = Inr ids"
  shows "1 \<le> length ids \<and> length ids \<le> n \<and> list_all identity_match ids \<and> distinct ids"
  using assms
  by (auto simp: tr_bounded_ids_def run_simps split: option.splits if_splits dest: mapr_length
      intro: mapr_all[where P = identity_match])

lemma mk_replication_evidence_Inr:
  assumes "mk_replication_evidence c k r w e receipt digest acknowledged durable replicas = Inr rep"
  shows "1 \<le> length (re_replica_ids rep) \<and> length (re_replica_ids rep) \<le> 64
    \<and> list_all identity_match (re_replica_ids rep) \<and> distinct (re_replica_ids rep)"
  using assms tr_bounded_ids_Inr by (fastforce simp: mk_replication_evidence_def)

lemma ascii_alnum_not_space: "ascii_alnum c \<Longrightarrow> \<not> py_space c"
  by (auto simp: ascii_alnum_def ascii_digit_def py_space_def less_eq_char_def Let_def)

lemma identity_match_not_blank: "identity_match s \<Longrightarrow> \<not> list_all py_space s"
  by (auto simp: identity_match_def ascii_alnum_not_space split: list.splits)

lemma utf8_len_bound: "utf8_len s \<le> 2 * length s"
  by (induction s) (auto simp: utf8_len_def)

lemma evidence_proof:
  assumes q: "mk_takeover_request c k r w e n t = Inr q"
    and f: "mk_fence_evidence fc fk fr fw fe receipt authority confirmed = Inr f"
    and rep: "mk_replication_evidence rc rk rr rw re rreceipt digest acknowledged durable replicas = Inr rep"
  shows "mk_takeover_proof (PyStr (ts_cluster_id (tq_scope q))) (PyStr (ts_resource_kind (tq_scope q)))
      (PyStr (ts_resource_id (tq_scope q))) (PyStr (ts_previous_owner_id (tq_scope q)))
      (PyInt (ts_previous_epoch (tq_scope q))) (PyStr (fe_receipt_id f))
      (PyInt (ts_previous_epoch (tq_scope q))) (PyTuple (map PyStr (re_replica_ids rep)))
    = Inr \<lparr>tp_cluster_id = ts_cluster_id (tq_scope q), tp_resource_kind = ts_resource_kind (tq_scope q),
           tp_resource_id = ts_resource_id (tq_scope q), tp_previous_owner_id = ts_previous_owner_id (tq_scope q),
           tp_previous_epoch = ts_previous_epoch (tq_scope q), tp_fence_receipt = fe_receipt_id f,
           tp_data_ack_epoch = ts_previous_epoch (tq_scope q), tp_replica_ids = re_replica_ids rep\<rparr>"
proof -
  have ids: "mapr (\<lambda>x. own_identity x ''replica_id'') (map PyStr xs) = Inr xs" if "list_all identity_match xs" for xs
    using that by (induction xs) (auto simp: own_identity_def)
  have "utf8_len (fe_receipt_id f) \<le> 4096"
    using utf8_len_bound[of "fe_receipt_id f"] identity_match_length[OF mk_fence_evidence_Inr[OF f]] by linarith
  then show ?thesis
    using mk_takeover_request_Inr[OF q] mk_replication_evidence_Inr[OF rep] ids
    by (simp add: mk_takeover_proof_def own_identity_def own_resource_kind_def own_epoch_def own_fence_receipt_def
        own_data_ack_epoch_def own_replica_ids_def)
qed

text \<open>
  The readiness gate and the authority ask for compatible evidence: when the gate is ready on
  validated evidence for the lease an authority currently holds, the takeover proof with the same
  scope, fence receipt and replicas is well formed, and the takeover by the requested owner succeeds
  at the next epoch; the state after it refuses the previous owner's lease at every clock reading.
  No code of the repository builds the proof from the evidence; that is left to the caller.
\<close>

theorem ready_evidence_takes_over:
  assumes q: "mk_takeover_request c k r w e n t = Inr q"
    and f: "mk_fence_evidence fc fk fr fw fe receipt authority confirmed = Inr f"
    and rep: "mk_replication_evidence rc rk rr rw re rreceipt digest acknowledged durable replicas = Inr rep"
    and ready: "evaluate_takeover_readiness (Some q) (Some f) (Some rep) wo m = Inr d" "rs_ready d"
    and held: "own_inv a" "au_cluster_id a = ts_cluster_id (tq_scope q)"
      "map_of (au_leases a) (ts_resource_kind (tq_scope q), ts_resource_id (tq_scope q), au_cluster_id a) = Some cur"
      "ol_owner_id cur = ts_previous_owner_id (tq_scope q)" "ol_epoch cur = ts_previous_epoch (tq_scope q)"
      "ol_epoch cur < max_int63"
    and args: "1 \<le> ttl" "ttl \<le> 900" "own_now clk = Inr now" "identity_match tok"
  shows "\<exists>p l a'. mk_takeover_proof (PyStr (ts_cluster_id (tq_scope q))) (PyStr (ts_resource_kind (tq_scope q)))
      (PyStr (ts_resource_id (tq_scope q))) (PyStr (ts_previous_owner_id (tq_scope q)))
      (PyInt (ts_previous_epoch (tq_scope q))) (PyStr (fe_receipt_id f))
      (PyInt (ts_previous_epoch (tq_scope q))) (PyTuple (map PyStr (re_replica_ids rep))) = Inr p
    \<and> own_takeover a (Some p) (PyStr (tq_new_owner_id q)) (PyInt ttl) PyNone clk tok = Inr (l, a')
    \<and> ol_owner_id l = tq_new_owner_id q \<and> ol_epoch l = ts_previous_epoch (tq_scope q) + 1
    \<and> \<not> own_accepts a' clk' cur"
proof -
  obtain p where p: "mk_takeover_proof (PyStr (ts_cluster_id (tq_scope q))) (PyStr (ts_resource_kind (tq_scope q)))
      (PyStr (ts_resource_id (tq_scope q))) (PyStr (ts_previous_owner_id (tq_scope q)))
      (PyInt (ts_previous_epoch (tq_scope q))) (PyStr (fe_receipt_id f))
      (PyInt (ts_previous_epoch (tq_scope q))) (PyTuple (map PyStr (re_replica_ids rep))) = Inr p"
    and fields: "tp_cluster_id p = ts_cluster_id (tq_scope q)" "tp_resource_kind p = ts_resource_kind (tq_scope q)"
      "tp_resource_id p = ts_resource_id (tq_scope q)" "tp_previous_owner_id p = ts_previous_owner_id (tq_scope q)"
      "tp_previous_epoch p = ts_previous_epoch (tq_scope q)" "tp_fence_receipt p = fe_receipt_id f"
      "tp_data_ack_epoch p = ts_previous_epoch (tq_scope q)" "tp_replica_ids p = re_replica_ids rep"
    by (rule that[OF evidence_proof[OF q f rep]]) simp_all
  have two: "2 \<le> length (re_replica_ids rep)"
    using readiness_result[OF ready(1)] ready(2) by (auto simp: replication_reasons_Nil)
  have "is_ok (own_takeover a (Some p) (PyStr (tq_new_owner_id q)) (PyInt ttl) PyNone clk tok)"
    using own_takeover_complete_proof[OF held(1) mk_takeover_request_Inr(7)[OF q] args, of p] held two fields
      mk_takeover_request_Inr(8)[OF q] identity_match_not_blank[OF mk_fence_evidence_Inr[OF f]]
    by simp
  then obtain l a' where ok: "own_takeover a (Some p) (PyStr (tq_new_owner_id q)) (PyInt ttl) PyNone clk tok = Inr (l, a')"
    by (auto simp: is_ok_iff)
  have key: "lease_key cur = (ts_resource_kind (tq_scope q), ts_resource_id (tq_scope q), au_cluster_id a)"
    using own_inv_leaseD[OF held(1,3)] by simp
  then have "lease_key l = lease_key cur"
    using own_takeover_Inr[OF ok] fields by (auto simp: lease_key_def)
  moreover have l: "ol_owner_id l = tq_new_owner_id q" "ol_epoch l = ts_previous_epoch (tq_scope q) + 1"
    "map_of (au_leases a') (lease_key l) = Some l"
    using own_takeover_Inr[OF ok] fields by (auto simp: dict_simps)
  ultimately have "\<not> own_accepts a' clk' cur"
    using held(5) by (auto simp: own_accepts_def own_validate_def)
  with p ok l(1,2) show ?thesis
    by blast
qed

definition example_copies :: replication_evidence where
  "example_copies = demo_copies\<lparr>re_state_digest := replicate 64 CHR ''a''\<rparr>"

lemma example_evidence:
  "mk_takeover_request (PyStr ''c1'') (PyStr ''job'') (PyStr ''r1'') (PyStr ''n1'') (PyInt 1) (PyStr ''n2'')
     (PyStr ''multi-node'') = Inr demo_takeover"
  "mk_fence_evidence (PyStr ''c1'') (PyStr ''job'') (PyStr ''r1'') (PyStr ''n1'') (PyInt 1) (PyStr ''f1'')
     (PyStr ''stonith'') (PyBool True) = Inr demo_fence"
  "mk_replication_evidence (PyStr ''c1'') (PyStr ''job'') (PyStr ''r1'') (PyStr ''n1'') (PyInt 1) (PyStr ''p1'')
     (PyStr (replicate 64 CHR ''a'')) (PyBool True) (PyBool True) (PyTuple [PyStr ''n1'', PyStr ''n2'']) = Inr example_copies"
  by code_simp+

definition example_readiness :: "readiness_decision res" where
  "example_readiness = evaluate_takeover_readiness (Some demo_takeover) (Some demo_fence) (Some example_copies)
     (Some demo_quorum_evidence) (PyInt 2)"

theorem ready_evidence_takes_over_witness:
  "\<exists>p l a'. own_takeover (demo_held (demo_lease ''n1'' 1 30)) (Some p) (PyStr ''n2'') (PyInt 60) PyNone (PyInt 10) ''a1''
       = Inr (l, a') \<and> ol_owner_id l = ''n2'' \<and> ol_epoch l = 2
     \<and> \<not> own_accepts a' (PyInt 11) (demo_lease ''n1'' 1 30)"
proof -
  have "case example_readiness of Inr d \<Rightarrow> rs_ready d | Inl e \<Rightarrow> False"
    by code_simp
  then obtain d where d: "example_readiness = Inr d" "rs_ready d"
    by (auto split: sum.splits)
  have q: "au_cluster_id (demo_held (demo_lease ''n1'' 1 30)) = ts_cluster_id (tq_scope demo_takeover)"
    "map_of (au_leases (demo_held (demo_lease ''n1'' 1 30))) (ts_resource_kind (tq_scope demo_takeover),
       ts_resource_id (tq_scope demo_takeover), au_cluster_id (demo_held (demo_lease ''n1'' 1 30)))
     = Some (demo_lease ''n1'' 1 30)"
    "ol_owner_id (demo_lease ''n1'' 1 30) = ts_previous_owner_id (tq_scope demo_takeover)"
    "ol_epoch (demo_lease ''n1'' 1 30) = ts_previous_epoch (tq_scope demo_takeover)"
    "ol_epoch (demo_lease ''n1'' 1 30) < max_int63" "(1::int) \<le> 60" "(60::int) \<le> 900"
    "own_now (PyInt 10) = Inr 10" "identity_match ''a1''"
    "tq_new_owner_id demo_takeover = ''n2''" "ts_previous_epoch (tq_scope demo_takeover) + 1 = 2"
    by code_simp+
  show ?thesis
    using ready_evidence_takes_over[OF example_evidence d[unfolded example_readiness_def] demo_held_inv q(1-9)]
    unfolding q(10,11) by blast
qed

end
